(* ===== verification/Usdb_Prelude.thy ===== *)
theory Usdb_Prelude
  imports
    Main
    "HOL-Library.Word"
    "HOL-Library.Char_ord"
    "HOL-Library.List_Lexorder"
    "HOL-Library.Product_Lexorder"
begin

text \<open>
  Shared vocabulary of the development: the machine integers of the Rust sources, Rust's
  saturating arithmetic, fallible operations over a state (\<open>Result<T, String>\<close> with the writes
  that were made before the error kept), big-endian byte strings, and the list lemmas the
  component theories share.
\<close>

section \<open>Machine integers\<close>

type_synonym u8 = "8 word"
type_synonym u32 = "32 word"
type_synonym u64 = "64 word"
type_synonym u128 = "128 word"

text \<open>An \<open>i64\<close> is a 64-bit word read in two's complement, that is through \<^const>\<open>sint\<close>.\<close>

type_synonym i64 = "64 word"

named_theorems unat_arith_simps \<open>readings of the saturating operations as natural numbers\<close>
named_theorems moves_intro \<open>an operation moves the state along a preorder\<close>
named_theorems block_intro \<open>the operations of a block keep what can be undone\<close>
named_theorems keeps_intro \<open>an operation keeps a predicate of the state\<close>

definition sat_add :: "'a::len word \<Rightarrow> 'a word \<Rightarrow> 'a word" where
  "sat_add a b = (if unat a + unat b < 2 ^ LENGTH('a) then a + b else - 1)"

definition sat_sub :: "'a::len word \<Rightarrow> 'a word \<Rightarrow> 'a word" where
  "sat_sub a b = (if b \<le> a then a - b else 0)"

definition sat_mul :: "'a::len word \<Rightarrow> 'a word \<Rightarrow> 'a word" where
  "sat_mul a b = (if unat a * unat b < 2 ^ LENGTH('a) then a * b else - 1)"

definition checked_add :: "'a::len word \<Rightarrow> 'a word \<Rightarrow> 'a word option" where
  "checked_add a b = (if unat a + unat b < 2 ^ LENGTH('a) then Some (a + b) else None)"

definition checked_mul :: "'a::len word \<Rightarrow> 'a word \<Rightarrow> 'a word option" where
  "checked_mul a b = (if unat a * unat b < 2 ^ LENGTH('a) then Some (a * b) else None)"

text \<open>\<open>i64::unsigned_abs\<close>.\<close>

definition unsigned_abs :: "i64 \<Rightarrow> u64" where
  "unsigned_abs d = (if sint d < 0 then - d else d)"

lemma unat_minus_one_word_eq: "unat (- 1 :: 'a::len word) = 2 ^ LENGTH('a) - 1"
  by (simp add: unsigned_minus_1_eq_mask mask_eq_exp_minus_1)

lemma unat_less_2p: "unat (a :: 'a::len word) < 2 ^ LENGTH('a)"
  by (rule unsigned_less)

lemma unat_le_max: "unat (a :: 'a::len word) \<le> 2 ^ LENGTH('a) - 1"
  using unat_less_2p [of a] by linarith

lemma unat_sat_add [unat_arith_simps]:
  "unat (sat_add a b) = min (unat a + unat b) (2 ^ LENGTH('a) - 1)" for a b :: "'a::len word"
  by (auto simp: sat_add_def unat_word_ariths unat_minus_one_word_eq min_def)

lemma unat_sat_sub [unat_arith_simps]: "unat (sat_sub a b) = unat a - unat b"
  by (auto simp: sat_sub_def unat_sub word_le_nat_alt)

lemma unat_sat_mul [unat_arith_simps]:
  "unat (sat_mul a b) = min (unat a * unat b) (2 ^ LENGTH('a) - 1)" for a b :: "'a::len word"
proof (cases "unat a * unat b < 2 ^ LENGTH('a)")
  case True
  then have "unat (sat_mul a b) = unat a * unat b"
    by (simp add: sat_mul_def unat_word_ariths)
  with True show ?thesis by linarith
next
  case False
  then have "unat (sat_mul a b) = 2 ^ LENGTH('a) - 1"
    by (simp only: sat_mul_def if_False unat_minus_one_word_eq)
  with False show ?thesis by linarith
qed

lemma sat_sub_self [simp]: "sat_sub a a = 0"
  by (simp add: sat_sub_def)

lemma sat_add_0 [simp]: "sat_add a 0 = a" "sat_add 0 a = a"
  by (simp_all add: sat_add_def)

lemma sat_add_assoc: "sat_add (sat_add a b) c = sat_add a (sat_add b c)"
  by (rule word_unat_eq_iff [THEN iffD2]) (auto simp: unat_sat_add min_def)

lemma sat_add_commute: "sat_add a b = sat_add b a"
  by (simp add: sat_add_def add.commute)

lemma sat_add_ge: "a \<le> sat_add a b"
  using unat_le_max [of a] by (simp add: word_le_nat_alt unat_sat_add)

lemma sat_sub_le: "sat_sub a b \<le> a"
  by (simp add: word_le_nat_alt unat_sat_sub)

lemma sat_add_mono: "a \<le> a' \<Longrightarrow> b \<le> b' \<Longrightarrow> sat_add a b \<le> sat_add a' b'"
  by (auto simp: word_le_nat_alt unat_sat_add min_def)

lemma sint_eq_unat:
  assumes "unat (v :: i64) < 2 ^ 63"
  shows "sint v = int (unat v)"
proof -
  have u: "uint v = int (unat v)" by simp
  have "uint v < int (2 ^ 63)" unfolding u using assms by (simp only: of_nat_less_iff)
  then have "signed_take_bit 63 (uint v) = uint v"
    using order_trans [of "- (2 ^ 63)" 0 "uint v"] by (intro signed_take_bit_int_eq_self) simp_all
  then show ?thesis by (simp add: sint_uint)
qed

text \<open>Equations for evaluation that stay within integers.\<close>

lemma sat_code [code]:
  "sat_add a b = (if uint a + uint b < 2 ^ LENGTH('a) then a + b else - 1)"
  "sat_mul a b = (if uint a * uint b < 2 ^ LENGTH('a) then a * b else - 1)" for a b :: "'a::len word"
proof -
  have "int (unat a + unat b) < int (2 ^ LENGTH('a)) \<longleftrightarrow> unat a + unat b < 2 ^ LENGTH('a)" by (simp only: of_nat_less_iff)
  then show "sat_add a b = (if uint a + uint b < 2 ^ LENGTH('a) then a + b else - 1)" by (simp add: sat_add_def)
  have "int (unat a * unat b) < int (2 ^ LENGTH('a)) \<longleftrightarrow> unat a * unat b < 2 ^ LENGTH('a)" by (simp only: of_nat_less_iff)
  then show "sat_mul a b = (if uint a * uint b < 2 ^ LENGTH('a) then a * b else - 1)" by (simp add: sat_mul_def)
qed

lemma checked_code [code]:
  "checked_add a b = (if uint a + uint b < 2 ^ LENGTH('a) then Some (a + b) else None)"
  "checked_mul a b = (if uint a * uint b < 2 ^ LENGTH('a) then Some (a * b) else None)" for a b :: "'a::len word"
proof -
  have "int (unat a + unat b) < int (2 ^ LENGTH('a)) \<longleftrightarrow> unat a + unat b < 2 ^ LENGTH('a)" by (simp only: of_nat_less_iff)
  then show "checked_add a b = (if uint a + uint b < 2 ^ LENGTH('a) then Some (a + b) else None)" by (simp add: checked_add_def)
  have "int (unat a * unat b) < int (2 ^ LENGTH('a)) \<longleftrightarrow> unat a * unat b < 2 ^ LENGTH('a)" by (simp only: of_nat_less_iff)
  then show "checked_mul a b = (if uint a * uint b < 2 ^ LENGTH('a) then Some (a * b) else None)" by (simp add: checked_mul_def)
qed

lemma option_eqI_Some: "(\<And>x. a = Some x \<longleftrightarrow> b = Some x) \<Longrightarrow> a = b"
  by (metis not_None_eq)

section \<open>Fallible operations over a state\<close>

text \<open>
  \<open>Err\<close> is a returned \<open>Err(String)\<close>, named by the fixed text of its message; \<open>Panic\<close> is a failed
  \<open>assert!\<close> or an arithmetic overflow trap.  An operation returns its result and the state it
  left, also when it failed: writes done before the error stay, as they do in the sources, and
  are undone only by an explicit rollback.
\<close>

datatype error = Err string | Panic string

type_synonym 'a result = "error + 'a"
type_synonym ('s, 'a) op = "'s \<Rightarrow> 'a result \<times> 's"

definition ret :: "'a \<Rightarrow> ('s, 'a) op" where
  "ret x s = (Inr x, s)"

definition fail :: "error \<Rightarrow> ('s, 'a) op" where
  "fail e s = (Inl e, s)"

definition bindR :: "('s, 'a) op \<Rightarrow> ('a \<Rightarrow> ('s, 'b) op) \<Rightarrow> ('s, 'b) op" where
  "bindR m f s = (case m s of (Inl e, s') \<Rightarrow> (Inl e, s') | (Inr x, s') \<Rightarrow> f x s')"

text \<open>Reading a value out of the state; a fallible read; a total write.\<close>

definition gets :: "('s \<Rightarrow> 'a) \<Rightarrow> ('s, 'a) op" where
  "gets f s = (Inr (f s), s)"

definition getsR :: "('s \<Rightarrow> 'a result) \<Rightarrow> ('s, 'a) op" where
  "getsR f s = (f s, s)"

definition modify :: "('s \<Rightarrow> 's) \<Rightarrow> ('s, unit) op" where
  "modify f s = (Inr (), f s)"

definition guardR :: "bool \<Rightarrow> error \<Rightarrow> ('s, unit) op" where
  "guardR b e = (if b then ret () else fail e)"

text \<open>Running an operation of a component on one field of a larger state.\<close>

definition zoom :: "('t \<Rightarrow> 's) \<Rightarrow> ('s \<Rightarrow> 't \<Rightarrow> 't) \<Rightarrow> ('s, 'a) op \<Rightarrow> ('t, 'a) op" where
  "zoom get put m t = (case m (get t) of (r, s) \<Rightarrow> (r, put s t))"

text \<open>The \<open>for\<close> loop over a list, stopping at the first error.\<close>

fun forR :: "'x list \<Rightarrow> ('x \<Rightarrow> ('s, unit) op) \<Rightarrow> ('s, unit) op" where
  "forR [] f = ret ()"
| "forR (x # xs) f = bindR (f x) (\<lambda>_. forR xs f)"

fun foldR :: "('x \<Rightarrow> 'b \<Rightarrow> ('s, 'b) op) \<Rightarrow> 'x list \<Rightarrow> 'b \<Rightarrow> ('s, 'b) op" where
  "foldR f [] b = ret b"
| "foldR f (x # xs) b = bindR (f x b) (foldR f xs)"

text \<open>A fallible map over a list; the first error stops.\<close>

fun mapR :: "('x \<Rightarrow> 'y result) \<Rightarrow> 'x list \<Rightarrow> 'y list result" where
  "mapR f [] = Inr []"
| "mapR f (x # xs) =
     (case f x of Inl e \<Rightarrow> Inl e
      | Inr y \<Rightarrow> (case mapR f xs of Inl e \<Rightarrow> Inl e | Inr ys \<Rightarrow> Inr (y # ys)))"

lemma mapR_all: "(\<And>x. x \<in> set xs \<Longrightarrow> f x = Inr (g x)) \<Longrightarrow> mapR f xs = Inr (map g xs)"
  by (induction xs) auto

lemmas op_defs = ret_def fail_def bindR_def gets_def getsR_def modify_def guardR_def zoom_def

lemma ret_apply [simp]: "ret x s = (Inr x, s)"
  by (simp add: ret_def)

lemma fail_apply [simp]: "fail e s = (Inl e, s)"
  by (simp add: fail_def)

lemma gets_apply [simp]: "gets f s = (Inr (f s), s)"
  by (simp add: gets_def)

lemma getsR_apply [simp]: "getsR f s = (f s, s)"
  by (simp add: getsR_def)

lemma modify_apply [simp]: "modify f s = (Inr (), f s)"
  by (simp add: modify_def)

lemma guardR_apply [simp]: "guardR b e s = (if b then Inr () else Inl e, s)"
  by (simp add: guardR_def)

lemma bindR_Inr_eq:
  "bindR m f s = (Inr y, s'') \<longleftrightarrow> (\<exists>x s'. m s = (Inr x, s') \<and> f x s' = (Inr y, s''))"
  by (auto simp: bindR_def split: prod.splits sum.splits)

lemma bindR_cases:
  assumes "bindR m f s = (r, s'')"
  obtains (err) e where "m s = (Inl e, s'')" and "r = Inl e"
    | (ok) x s' where "m s = (Inr x, s')" and "f x s' = (r, s'')"
  using assms by (auto simp: bindR_def split: prod.splits sum.splits)

lemma bindR_ok [simp]: "m s = (Inr x, s') \<Longrightarrow> bindR m f s = f x s'"
  by (simp add: bindR_def)

lemma bindR_err [simp]: "m s = (Inl e, s') \<Longrightarrow> bindR m f s = (Inl e, s')"
  by (simp add: bindR_def)

subsection \<open>Predicates an operation keeps\<close>

definition keeps :: "('s \<Rightarrow> bool) \<Rightarrow> ('s, 'a) op \<Rightarrow> bool" where
  "keeps P m \<longleftrightarrow> (\<forall>s. P s \<longrightarrow> P (snd (m s)))"

lemma keepsI: "(\<And>s. P s \<Longrightarrow> P (snd (m s))) \<Longrightarrow> keeps P m"
  by (simp add: keeps_def)

lemma keepsD: "keeps P m \<Longrightarrow> m s = (r, s') \<Longrightarrow> P s \<Longrightarrow> P s'"
  by (metis keeps_def snd_conv)

lemma keeps_ret [keeps_intro]: "keeps P (ret x)"
  by (simp add: keeps_def)

lemma keeps_fail [keeps_intro]: "keeps P (fail e)"
  by (simp add: keeps_def)

lemma keeps_gets [keeps_intro]: "keeps P (gets f)"
  by (simp add: keeps_def)

lemma keeps_getsR [keeps_intro]: "keeps P (getsR f)"
  by (simp add: keeps_def)

lemma keeps_guardR [keeps_intro]: "keeps P (guardR b e)"
  by (simp add: keeps_def)

lemma keeps_bindR [keeps_intro]:
  "keeps P m \<Longrightarrow> (\<And>x. keeps P (f x)) \<Longrightarrow> keeps P (bindR m f)"
  by (fastforce simp: keeps_def bindR_def split: prod.splits sum.splits)

lemma keeps_if [keeps_intro]: "keeps P m \<Longrightarrow> keeps P n \<Longrightarrow> keeps P (if b then m else n)"
  by simp

lemma keeps_option_case [keeps_intro]:
  "keeps P m \<Longrightarrow> (\<And>x. keeps P (f x)) \<Longrightarrow> keeps P (case v of None \<Rightarrow> m | Some x \<Rightarrow> f x)"
  by (simp split: option.splits)

lemma keeps_forR [keeps_intro]: "(\<And>x. keeps P (f x)) \<Longrightarrow> keeps P (forR xs f)"
  by (induction xs) (auto intro: keeps_intro)

lemma keeps_foldR [keeps_intro]: "(\<And>x b. keeps P (f x b)) \<Longrightarrow> keeps P (foldR f xs b)"
  by (induction xs arbitrary: b) (auto intro: keeps_intro)

lemma keeps_zoom: "keeps Q m \<Longrightarrow> (\<And>t. P t \<Longrightarrow> Q (get t)) \<Longrightarrow>
    (\<And>x t. P t \<Longrightarrow> Q x \<Longrightarrow> P (put x t)) \<Longrightarrow> keeps P (zoom get put m)"
  by (auto simp: keeps_def zoom_def split: prod.splits) (metis snd_conv)

subsection \<open>Preorders an operation moves along\<close>

definition moves :: "('s \<Rightarrow> 's \<Rightarrow> bool) \<Rightarrow> ('s, 'a) op \<Rightarrow> bool" where
  "moves R m \<longleftrightarrow> (\<forall>s. R s (snd (m s)))"

lemma movesD: "moves R m \<Longrightarrow> m s = (r, s') \<Longrightarrow> R s s'"
  by (metis moves_def snd_conv)

lemma moves_ret [moves_intro]: "reflp R \<Longrightarrow> moves R (ret x)"
  by (simp add: moves_def reflp_def)

lemma moves_fail [moves_intro]: "reflp R \<Longrightarrow> moves R (fail e)"
  by (simp add: moves_def reflp_def)

lemma moves_gets [moves_intro]: "reflp R \<Longrightarrow> moves R (gets f)"
  by (simp add: moves_def reflp_def)

lemma moves_getsR [moves_intro]: "reflp R \<Longrightarrow> moves R (getsR f)"
  by (simp add: moves_def reflp_def)

lemma moves_guardR [moves_intro]: "reflp R \<Longrightarrow> moves R (guardR b e)"
  by (simp add: moves_def reflp_def)

lemma moves_bindR [moves_intro]:
  assumes "transp R" and "moves R m" and "\<And>x. moves R (f x)"
  shows "moves R (bindR m f)"
  unfolding moves_def
proof
  fix s
  obtain r s' where m: "m s = (r, s')" by (cases "m s")
  have "R s s'" using assms(2) m by (rule movesD)
  moreover have "R s' (snd (f x s'))" for x using assms(3) by (simp add: moves_def)
  ultimately show "R s (snd (bindR m f s))"
    using assms(1) m by (cases r) (auto simp: bindR_def dest: transpD)
qed

lemma moves_if [moves_intro]: "moves R m \<Longrightarrow> moves R n \<Longrightarrow> moves R (if b then m else n)"
  by simp

lemma moves_option_case [moves_intro]:
  "moves R m \<Longrightarrow> (\<And>x. moves R (f x)) \<Longrightarrow> moves R (case v of None \<Rightarrow> m | Some x \<Rightarrow> f x)"
  by (simp split: option.splits)

lemma moves_forR [moves_intro]:
  "reflp R \<Longrightarrow> transp R \<Longrightarrow> (\<And>x. moves R (f x)) \<Longrightarrow> moves R (forR xs f)"
  by (induction xs) (auto intro: moves_intro)

lemma moves_foldR_in:
  "reflp R \<Longrightarrow> transp R \<Longrightarrow> (\<And>x b. x \<in> set xs \<Longrightarrow> moves R (f x b)) \<Longrightarrow> moves R (foldR f xs b)"
  by (induction xs arbitrary: b) (auto intro: moves_intro)

lemma moves_foldR [moves_intro]:
  "reflp R \<Longrightarrow> transp R \<Longrightarrow> (\<And>x b. moves R (f x b)) \<Longrightarrow> moves R (foldR f xs b)"
  by (rule moves_foldR_in)

end
