(* ===== verification/Kv_Store.thy ===== *)
theory Kv_Store
  imports Usdb_Prelude
begin

text \<open>
  Big-endian byte strings and the ordered key-value column family the RocksDB-backed stores sit
  on.  A column family is its rows in ascending byte-lexicographic key order; \<open>iter_from_forward\<close>
  and \<open>iter_from_reverse\<close> are what \<open>IteratorMode::From\<close> yields in the two directions.  The
  interface the stores rely on is the locale \<open>ordered_kv\<close>, interpreted here on the sorted lists.
\<close>

section \<open>Big-endian encodings\<close>

fun be_encode :: "nat \<Rightarrow> nat \<Rightarrow> u8 list" where
  "be_encode 0 v = []"
| "be_encode (Suc n) v = be_encode n (v div 256) @ [of_nat (v mod 256)]"

definition be_decode :: "u8 list \<Rightarrow> nat" where
  "be_decode bs = foldl (\<lambda>a b. a * 256 + unat b) 0 bs"

definition u32_be :: "u32 \<Rightarrow> u8 list" where
  "u32_be w = be_encode 4 (unat w)"

definition u64_be :: "u64 \<Rightarrow> u8 list" where
  "u64_be w = be_encode 8 (unat w)"

lemma length_be_encode [simp]: "length (be_encode n v) = n"
  by (induction n arbitrary: v) auto

lemma be_decode_snoc [simp]: "be_decode (bs @ [b]) = be_decode bs * 256 + unat b"
  by (simp add: be_decode_def)

lemma be_decode_Nil [simp]: "be_decode [] = 0"
  by (simp add: be_decode_def)

lemma unat_of_nat_byte [simp]: "unat (of_nat (v mod 256) :: u8) = v mod 256"
  by (simp add: unat_of_nat)

lemma be_decode_encode: "v < 256 ^ n \<Longrightarrow> be_decode (be_encode n v) = v"
proof (induction n arbitrary: v)
  case (Suc n)
  from Suc.prems have "v div 256 < 256 ^ n" by (simp add: less_mult_imp_div_less)
  then show ?case by (simp add: Suc.IH)
qed simp

lemma be_decode_less: "be_decode bs < 256 ^ length bs"
proof (induction bs rule: rev_induct)
  case (snoc b bs)
  have "unat b < 256" using unat_less_2p [of b] by simp
  with snoc show ?case by simp
qed simp

lemma be_encode_decode: "be_encode (length bs) (be_decode bs) = bs"
proof (induction bs rule: rev_induct)
  case (snoc b bs)
  have b: "unat b < 256" using unat_less_2p [of b] by simp
  then have "(be_decode bs * 256 + unat b) div 256 = be_decode bs" by simp
  moreover from b have "(be_decode bs * 256 + unat b) mod 256 = unat b" by simp
  ultimately show ?case using snoc by simp
qed simp

lemma be_encode_inj: "v < 256 ^ n \<Longrightarrow> w < 256 ^ n \<Longrightarrow> be_encode n v = be_encode n w \<Longrightarrow> v = w"
  by (metis be_decode_encode)

lemma snoc_lex_less:
  fixes x y :: "'a::linorder"
  shows "length xs = length ys \<Longrightarrow> xs @ [x] < ys @ [y] \<longleftrightarrow> xs < ys \<or> xs = ys \<and> x < y"
  by (induction xs ys rule: list_induct2) auto

lemma base_256_less:
  "v < w \<longleftrightarrow> v div 256 < w div 256 \<or> v div 256 = w div 256 \<and> v mod 256 < w mod 256" for v w :: nat
proof -
  have "v = 256 * (v div 256) + v mod 256" "w = 256 * (w div 256) + w mod 256" by simp_all
  moreover have "v mod 256 < 256" "w mod 256 < 256" by simp_all
  ultimately show ?thesis by linarith
qed

lemma of_nat_byte_less:
  "a < 256 \<Longrightarrow> b < 256 \<Longrightarrow> (of_nat a :: u8) < of_nat b \<longleftrightarrow> a < b"
  by (simp add: word_less_nat_alt unat_of_nat)

text \<open>The point of the big-endian encoding: byte order is numeric order.\<close>

lemma be_encode_less:
  "v < 256 ^ n \<Longrightarrow> w < 256 ^ n \<Longrightarrow> be_encode n v < be_encode n w \<longleftrightarrow> v < w"
proof (induction n arbitrary: v w)
  case (Suc n)
  from Suc.prems have d: "v div 256 < 256 ^ n" "w div 256 < 256 ^ n"
    by (simp_all add: less_mult_imp_div_less)
  have e: "be_encode n (v div 256) = be_encode n (w div 256) \<longleftrightarrow> v div 256 = w div 256"
    using be_encode_inj [OF d] by auto
  have "be_encode (Suc n) v < be_encode (Suc n) w \<longleftrightarrow>
      v div 256 < w div 256 \<or> v div 256 = w div 256 \<and> v mod 256 < w mod 256"
    by (simp add: snoc_lex_less e Suc.IH [OF d] of_nat_byte_less)
  also have "\<dots> \<longleftrightarrow> v < w" by (rule base_256_less [symmetric])
  finally show ?case .
qed simp

lemma append_lex_less:
  fixes xs ys us vs :: "'a::linorder list"
  shows "length xs = length ys \<Longrightarrow> xs @ us < ys @ vs \<longleftrightarrow> xs < ys \<or> xs = ys \<and> us < vs"
  by (induction xs ys rule: list_induct2) auto

lemma u32_be_inj [simp]: "u32_be a = u32_be b \<longleftrightarrow> a = b"
proof
  assume "u32_be a = u32_be b"
  then have "unat a = unat b"
    using be_encode_inj [of "unat a" 4 "unat b"] unat_less_2p [of a] unat_less_2p [of b]
    by (simp add: u32_be_def)
  then show "a = b" by (rule word_unat_eq_iff [THEN iffD2])
qed simp

lemma u32_be_less [simp]: "u32_be a < u32_be b \<longleftrightarrow> a < b"
  using be_encode_less [of "unat a" 4 "unat b"] unat_less_2p [of a] unat_less_2p [of b]
  by (simp add: u32_be_def word_less_nat_alt)

lemma u32_be_le [simp]: "u32_be a \<le> u32_be b \<longleftrightarrow> a \<le> b"
  by (metis less_le_not_le linorder_not_le u32_be_less)

lemma u64_be_inj [simp]: "u64_be a = u64_be b \<longleftrightarrow> a = b"
proof
  assume "u64_be a = u64_be b"
  then have "unat a = unat b"
    using be_encode_inj [of "unat a" 8 "unat b"] unat_less_2p [of a] unat_less_2p [of b]
    by (simp add: u64_be_def)
  then show "a = b" by (rule word_unat_eq_iff [THEN iffD2])
qed simp

lemma length_u32_be [simp]: "length (u32_be w) = 4"
  by (simp add: u32_be_def)

lemma length_u64_be [simp]: "length (u64_be w) = 8"
  by (simp add: u64_be_def)

lemma be_decode_u32_be [simp]: "of_nat (be_decode (u32_be w)) = w"
  using be_decode_encode [of "unat w" 4] unat_less_2p [of w] by (simp add: u32_be_def)

lemma be_decode_u64_be [simp]: "of_nat (be_decode (u64_be w)) = w"
  using be_decode_encode [of "unat w" 8] unat_less_2p [of w] by (simp add: u64_be_def)

lemma u32_be_decode: "length bs = 4 \<Longrightarrow> u32_be (of_nat (be_decode bs)) = bs"
  using be_encode_decode [of bs] be_decode_less [of bs] by (simp add: u32_be_def unat_of_nat)

lemma u64_be_decode: "length bs = 8 \<Longrightarrow> u64_be (of_nat (be_decode bs)) = bs"
  using be_encode_decode [of bs] be_decode_less [of bs] by (simp add: u64_be_def unat_of_nat)

section \<open>The column family\<close>

type_synonym ('k, 'v) cf = "('k \<times> 'v) list"

fun cf_put :: "'k::linorder \<Rightarrow> 'v \<Rightarrow> ('k, 'v) cf \<Rightarrow> ('k, 'v) cf" where
  "cf_put k v [] = [(k, v)]"
| "cf_put k v ((k', v') # rs) =
     (if k < k' then (k, v) # (k', v') # rs
      else if k = k' then (k, v) # rs
      else (k', v') # cf_put k v rs)"

definition cf_get :: "('k, 'v) cf \<Rightarrow> 'k \<Rightarrow> 'v option" where
  "cf_get rs k = map_of rs k"

definition cf_delete :: "'k \<Rightarrow> ('k, 'v) cf \<Rightarrow> ('k, 'v) cf" where
  "cf_delete k rs = filter (\<lambda>r. fst r \<noteq> k) rs"

definition iter_from_forward :: "'k::linorder \<Rightarrow> ('k, 'v) cf \<Rightarrow> ('k \<times> 'v) list" where
  "iter_from_forward k rs = filter (\<lambda>r. k \<le> fst r) rs"

definition iter_from_reverse :: "'k::linorder \<Rightarrow> ('k, 'v) cf \<Rightarrow> ('k \<times> 'v) list" where
  "iter_from_reverse k rs = rev (filter (\<lambda>r. fst r \<le> k) rs)"

abbreviation cf_ok :: "('k::linorder, 'v) cf \<Rightarrow> bool" where
  "cf_ok rs \<equiv> sorted_wrt (<) (map fst rs)"

lemma set_fst_cf_put: "fst ` set (cf_put k v rs) = insert k (fst ` set rs)"
  by (induction k v rs rule: cf_put.induct) auto

lemma cf_ok_put: "cf_ok rs \<Longrightarrow> cf_ok (cf_put k v rs)"
proof (induction k v rs rule: cf_put.induct)
  case (2 k v k' v' rs)
  have "\<forall>x \<in> fst ` set (cf_put k v rs). k' < x" if "\<not> k < k'" "k \<noteq> k'"
    using that 2(2) by (simp only: set_fst_cf_put) auto
  with 2 show ?case by auto
qed simp

lemma cf_ok_filter: "cf_ok rs \<Longrightarrow> cf_ok (filter P rs)"
  by (induction rs) auto

lemma cf_ok_distinct: "cf_ok rs \<Longrightarrow> distinct (map fst rs)"
  by (rule strict_sorted_iff [THEN iffD1, THEN conjunct2])

lemma cf_get_put: "cf_ok rs \<Longrightarrow> cf_get (cf_put k v rs) q = (if q = k then Some v else cf_get rs q)"
proof (induction k v rs rule: cf_put.induct)
  case (2 k v k' v' rs)
  then show ?case by (auto simp: cf_get_def)
qed (simp add: cf_get_def)

lemma cf_get_delete: "cf_get (cf_delete k rs) q = (if q = k then None else cf_get rs q)"
  by (induction rs) (auto simp: cf_get_def cf_delete_def)

lemma cf_get_filter_key: "cf_get (filter (\<lambda>r. P (fst r)) rs) q = (if P q then cf_get rs q else None)"
  by (induction rs) (auto simp: cf_get_def)

lemma cf_get_Some_iff: "cf_ok rs \<Longrightarrow> cf_get rs k = Some v \<longleftrightarrow> (k, v) \<in> set rs"
  by (simp add: cf_get_def map_of_eq_Some_iff [OF cf_ok_distinct])

text \<open>The contract the stores rely on.\<close>

locale ordered_kv =
  fixes ok :: "'s \<Rightarrow> bool"
    and get :: "'s \<Rightarrow> 'k::linorder \<Rightarrow> 'v option"
    and put :: "'k \<Rightarrow> 'v \<Rightarrow> 's \<Rightarrow> 's"
    and delete :: "'k \<Rightarrow> 's \<Rightarrow> 's"
    and forward :: "'k \<Rightarrow> 's \<Rightarrow> ('k \<times> 'v) list"
    and reverse :: "'k \<Rightarrow> 's \<Rightarrow> ('k \<times> 'v) list"
  assumes ok_put: "ok s \<Longrightarrow> ok (put k v s)"
    and ok_delete: "ok s \<Longrightarrow> ok (delete k s)"
    and get_put: "ok s \<Longrightarrow> get (put k v s) q = (if q = k then Some v else get s q)"
    and get_delete: "ok s \<Longrightarrow> get (delete k s) q = (if q = k then None else get s q)"
    and forward_sorted: "ok s \<Longrightarrow> sorted_wrt (<) (map fst (forward k s))"
    and forward_set: "ok s \<Longrightarrow> (q, v) \<in> set (forward k s) \<longleftrightarrow> k \<le> q \<and> get s q = Some v"
    and reverse_sorted: "ok s \<Longrightarrow> sorted_wrt (>) (map fst (reverse k s))"
    and reverse_set: "ok s \<Longrightarrow> (q, v) \<in> set (reverse k s) \<longleftrightarrow> q \<le> k \<and> get s q = Some v"
begin

text \<open>The first row of a reverse scan that satisfies a predicate is the greatest such row.\<close>

lemma reverse_find_greatest:
  assumes "ok s" and "find P (reverse k s) = Some (q, v)"
  shows "q \<le> k \<and> get s q = Some v \<and> P (q, v) \<and>
    (\<forall>q' v'. q' \<le> k \<longrightarrow> get s q' = Some v' \<longrightarrow> P (q', v') \<longrightarrow> q' \<le> q)"
proof -
  from assms(2) obtain i where i: "i < length (reverse k s)" "reverse k s ! i = (q, v)" "P (q, v)"
    and before: "\<forall>j<i. \<not> P (reverse k s ! j)"
    by (auto simp: find_Some_iff)
  then have "(q, v) \<in> set (reverse k s)" by (metis nth_mem)
  with assms(1) have qv: "q \<le> k" "get s q = Some v" by (simp_all add: reverse_set)
  have "q' \<le> q" if q': "q' \<le> k" "get s q' = Some v'" "P (q', v')" for q' v'
  proof -
    from q' assms(1) have "(q', v') \<in> set (reverse k s)" by (simp add: reverse_set)
    then obtain j where j: "j < length (reverse k s)" "reverse k s ! j = (q', v')"
      by (auto simp: in_set_conv_nth)
    with before q'(3) have "i \<le> j" by (metis not_le_imp_less)
    then consider "i = j" | "i < j" by linarith
    then show ?thesis
    proof cases
      case 1
      with i j show ?thesis by simp
    next
      case 2
      with j(1) reverse_sorted [OF assms(1), of k]
      have "fst (reverse k s ! j) < fst (reverse k s ! i)"
        by (auto simp: sorted_wrt_iff_nth_less)
      with i j show ?thesis by simp
    qed
  qed
  with qv i(3) show ?thesis by blast
qed

lemma reverse_find_None:
  "ok s \<Longrightarrow> find P (reverse k s) = None \<Longrightarrow> q \<le> k \<Longrightarrow> get s q = Some v \<Longrightarrow> \<not> P (q, v)"
  using reverse_set by (fastforce simp: find_None_iff)

end

lemma cf_forward_sorted: "cf_ok rs \<Longrightarrow> sorted_wrt (<) (map fst (iter_from_forward k rs))"
  unfolding iter_from_forward_def by (rule cf_ok_filter)

lemma cf_reverse_sorted: "cf_ok rs \<Longrightarrow> sorted_wrt (>) (map fst (iter_from_reverse k rs))"
  unfolding iter_from_reverse_def rev_map [symmetric] sorted_wrt_rev by (rule cf_ok_filter)

lemma cf_ok_delete: "cf_ok rs \<Longrightarrow> cf_ok (cf_delete k rs)"
  unfolding cf_delete_def by (rule cf_ok_filter)

lemma cf_forward_set:
  "cf_ok rs \<Longrightarrow> (q, v) \<in> set (iter_from_forward k rs) \<longleftrightarrow> k \<le> q \<and> cf_get rs q = Some v"
  by (auto simp: cf_get_Some_iff iter_from_forward_def)

lemma cf_reverse_set:
  "cf_ok rs \<Longrightarrow> (q, v) \<in> set (iter_from_reverse k rs) \<longleftrightarrow> q \<le> k \<and> cf_get rs q = Some v"
  by (auto simp: cf_get_Some_iff iter_from_reverse_def)

interpretation cf: ordered_kv
  "cf_ok :: ('k::linorder, 'v) cf \<Rightarrow> bool" cf_get cf_put cf_delete iter_from_forward iter_from_reverse
  by unfold_locales
    (auto simp: cf_ok_put cf_ok_delete cf_get_put cf_get_delete cf_forward_sorted cf_reverse_sorted
      cf_forward_set cf_reverse_set)

end
