(* ===== verification/Usdb_Types.thy ===== *)
theory Usdb_Types
  imports Kv_Store
begin

text \<open>
  \<open>usdb-util/src/types.rs\<close> and the identifiers of the bitcoin crates it builds on: outpoints,
  satpoints, inscription ids and script hashes; the fixed-width codecs; the consensus RPC error
  codes; the canonical preimages of the snapshot id, the local-state commit and the system-state
  id.  SHA-256 is a parameter of the identifier functions.
\<close>

section \<open>Identifiers\<close>

text \<open>
  A 32-byte hash is the 256-bit number its bytes spell in array order, so that byte order of the
  arrays is the numeric order of the words.
\<close>

type_synonym Txid = "256 word"
type_synonym USDBScriptHash = "256 word"

definition hash_bytes :: "256 word \<Rightarrow> u8 list" where
  "hash_bytes h = be_encode 32 (unat h)"

definition hash_of_bytes :: "u8 list \<Rightarrow> 256 word" where
  "hash_of_bytes bs = of_nat (be_decode bs)"

record OutPoint =
  op_txid :: Txid
  op_vout :: u32

record SatPoint =
  sp_outpoint :: OutPoint
  sp_offset :: u64

record InscriptionId =
  ii_txid :: Txid
  ii_index :: u32

lemma length_hash_bytes [simp]: "length (hash_bytes h) = 32"
  by (simp add: hash_bytes_def)

lemma hash_of_hash_bytes [simp]: "hash_of_bytes (hash_bytes h) = h"
  using be_decode_encode [of "unat h" 32] unat_less_2p [of h]
  by (simp add: hash_bytes_def hash_of_bytes_def)

lemma hash_bytes_of_bytes: "length bs = 32 \<Longrightarrow> hash_bytes (hash_of_bytes bs) = bs"
  using be_encode_decode [of bs] be_decode_less [of bs]
  by (simp add: hash_bytes_def hash_of_bytes_def unat_of_nat)

lemma hash_bytes_inj [simp]: "hash_bytes a = hash_bytes b \<longleftrightarrow> a = b"
  by (metis hash_of_hash_bytes)

lemma hash_bytes_less [simp]: "hash_bytes a < hash_bytes b \<longleftrightarrow> a < b"
  using be_encode_less [of "unat a" 32 "unat b"] unat_less_2p [of a] unat_less_2p [of b]
  by (simp add: hash_bytes_def word_less_nat_alt)

section \<open>Codecs\<close>

definition OUTPOINT_SIZE :: nat where
  "OUTPOINT_SIZE = 36"

definition OutPointCodec_encode :: "OutPoint \<Rightarrow> u8 list" where
  "OutPointCodec_encode outpoint = hash_bytes (op_txid outpoint) @ u32_be (op_vout outpoint)"

definition OutPointCodec_decode :: "u8 list \<Rightarrow> OutPoint result" where
  "OutPointCodec_decode data =
     (if length data \<noteq> OUTPOINT_SIZE then Inl (Err ''Invalid data length'')
      else Inr \<lparr>op_txid = hash_of_bytes (take 32 data),
                op_vout = of_nat (be_decode (drop 32 data))\<rparr>)"

record UTXOValue =
  uv_script_hash :: USDBScriptHash
  uv_value :: u64

definition UTXOValue_encode :: "USDBScriptHash \<Rightarrow> u64 \<Rightarrow> u8 list" where
  "UTXOValue_encode script_hash val = hash_bytes script_hash @ u64_be val"

definition UTXOValue_to_vec :: "UTXOValue \<Rightarrow> u8 list" where
  "UTXOValue_to_vec u = UTXOValue_encode (uv_script_hash u) (uv_value u)"

definition UTXOValue_from_slice :: "u8 list \<Rightarrow> UTXOValue result" where
  "UTXOValue_from_slice data =
     (if length data \<noteq> 32 + 8 then Inl (Err ''Invalid UTXOValue data length'')
      else Inr \<lparr>uv_script_hash = hash_of_bytes (take 32 data),
                uv_value = of_nat (be_decode (drop 32 data))\<rparr>)"

lemma OutPointCodec_decode_encode: "OutPointCodec_decode (OutPointCodec_encode p) = Inr p"
  by (simp add: OutPointCodec_decode_def OutPointCodec_encode_def OUTPOINT_SIZE_def)

lemma OutPointCodec_encode_decode:
  "OutPointCodec_decode bs = Inr p \<Longrightarrow> OutPointCodec_encode p = bs"
  by (auto simp: OutPointCodec_decode_def OutPointCodec_encode_def OUTPOINT_SIZE_def
      hash_bytes_of_bytes u32_be_decode split: if_splits)

lemma UTXOValue_from_to: "UTXOValue_from_slice (UTXOValue_to_vec u) = Inr u"
  by (simp add: UTXOValue_from_slice_def UTXOValue_to_vec_def UTXOValue_encode_def)

lemma UTXOValue_to_from: "UTXOValue_from_slice bs = Inr u \<Longrightarrow> UTXOValue_to_vec u = bs"
  by (auto simp: UTXOValue_from_slice_def UTXOValue_to_vec_def UTXOValue_encode_def
      hash_bytes_of_bytes u64_be_decode split: if_splits)

section \<open>Consensus RPC errors\<close>

datatype ConsensusRpcErrorCode =
    HeightNotSynced | SnapshotNotReady | SnapshotIdMismatch | BlockHashMismatch | VersionMismatch
  | LocalStateCommitMismatch | SystemStateIdMismatch | NoRecord | StateNotRetained
  | HistoryNotAvailable

fun ConsensusRpcErrorCode_code :: "ConsensusRpcErrorCode \<Rightarrow> int" where
  "ConsensusRpcErrorCode_code HeightNotSynced = - 32040"
| "ConsensusRpcErrorCode_code SnapshotNotReady = - 32041"
| "ConsensusRpcErrorCode_code SnapshotIdMismatch = - 32042"
| "ConsensusRpcErrorCode_code BlockHashMismatch = - 32043"
| "ConsensusRpcErrorCode_code VersionMismatch = - 32044"
| "ConsensusRpcErrorCode_code LocalStateCommitMismatch = - 32045"
| "ConsensusRpcErrorCode_code SystemStateIdMismatch = - 32046"
| "ConsensusRpcErrorCode_code NoRecord = - 32047"
| "ConsensusRpcErrorCode_code StateNotRetained = - 32048"
| "ConsensusRpcErrorCode_code HistoryNotAvailable = - 32049"

fun ConsensusRpcErrorCode_as_str :: "ConsensusRpcErrorCode \<Rightarrow> string" where
  "ConsensusRpcErrorCode_as_str HeightNotSynced = ''HEIGHT_NOT_SYNCED''"
| "ConsensusRpcErrorCode_as_str SnapshotNotReady = ''SNAPSHOT_NOT_READY''"
| "ConsensusRpcErrorCode_as_str SnapshotIdMismatch = ''SNAPSHOT_ID_MISMATCH''"
| "ConsensusRpcErrorCode_as_str BlockHashMismatch = ''BLOCK_HASH_MISMATCH''"
| "ConsensusRpcErrorCode_as_str VersionMismatch = ''VERSION_MISMATCH''"
| "ConsensusRpcErrorCode_as_str LocalStateCommitMismatch = ''LOCAL_STATE_COMMIT_MISMATCH''"
| "ConsensusRpcErrorCode_as_str SystemStateIdMismatch = ''SYSTEM_STATE_ID_MISMATCH''"
| "ConsensusRpcErrorCode_as_str NoRecord = ''NO_RECORD''"
| "ConsensusRpcErrorCode_as_str StateNotRetained = ''STATE_NOT_RETAINED''"
| "ConsensusRpcErrorCode_as_str HistoryNotAvailable = ''HISTORY_NOT_AVAILABLE''"

lemma ConsensusRpcErrorCode_code_inj:
  "ConsensusRpcErrorCode_code a = ConsensusRpcErrorCode_code b \<Longrightarrow> a = b"
  by (cases a; cases b) simp_all

lemma ConsensusRpcErrorCode_as_str_inj:
  "ConsensusRpcErrorCode_as_str a = ConsensusRpcErrorCode_as_str b \<Longrightarrow> a = b"
  by (cases a; cases b) simp_all

record ConsensusStateReference =
  cr_snapshot_id :: "string option"
  cr_stable_height :: "u32 option"
  cr_stable_block_hash :: "string option"
  cr_balance_history_api_version :: "string option"
  cr_balance_history_semantics_version :: "string option"
  cr_usdb_index_protocol_version :: "string option"
  cr_local_state_commit :: "string option"
  cr_system_state_id :: "string option"

definition ConsensusStateReference_is_empty :: "ConsensusStateReference \<Rightarrow> bool" where
  "ConsensusStateReference_is_empty r \<longleftrightarrow>
     cr_snapshot_id r = None \<and> cr_stable_height r = None \<and> cr_stable_block_hash r = None \<and>
     cr_balance_history_api_version r = None \<and> cr_balance_history_semantics_version r = None \<and>
     cr_usdb_index_protocol_version r = None \<and> cr_local_state_commit r = None \<and>
     cr_system_state_id r = None"

section \<open>Canonical identifiers\<close>

definition hex_digit :: "nat \<Rightarrow> char" where
  "hex_digit n = ''0123456789abcdef'' ! (n mod 16)"

text \<open>\<open>{:02x}\<close> of every byte.\<close>

definition encode_hex :: "u8 list \<Rightarrow> string" where
  "encode_hex bs = concat (map (\<lambda>b. [hex_digit (unat b div 16), hex_digit (unat b)]) bs)"

text \<open>The UTF-8 bytes of a string; a \<^typ>\<open>string\<close> is its byte sequence.\<close>

definition str_bytes :: "string \<Rightarrow> u8 list" where
  "str_bytes s = map of_char s"

definition string_component :: "string \<Rightarrow> u8 list" where
  "string_component val = u32_be (of_nat (length val)) @ str_bytes val"

definition optional_marker :: "bool \<Rightarrow> u8 list" where
  "optional_marker present = [if present then 1 else 0]"

definition CONSENSUS_SNAPSHOT_ID_VERSION :: string where
  "CONSENSUS_SNAPSHOT_ID_VERSION = ''btc-consensus-snapshot:v1''"

definition LOCAL_STATE_COMMIT_VERSION :: string where
  "LOCAL_STATE_COMMIT_VERSION = ''usdb-local-state:v1''"

definition SYSTEM_STATE_ID_VERSION :: string where
  "SYSTEM_STATE_ID_VERSION = ''btc-system-state:v1''"

record ConsensusSnapshotIdentity =
  si_source_chain :: string
  si_network :: string
  si_stable_height :: u32
  si_stable_block_hash :: string
  si_stable_lag :: u32
  si_balance_history_api_version :: string
  si_balance_history_semantics_version :: string
  si_usdb_index_formula_version :: string
  si_usdb_index_protocol_version :: string

record LocalStatePassCommitIdentity =
  lp_block_height :: u32
  lp_block_commit :: string
  lp_commit_protocol_version :: string
  lp_commit_hash_algo :: string

record LocalStateActiveBalanceSnapshot =
  lb_block_height :: u32
  lb_total_balance :: u64
  lb_active_address_count :: u32

record LocalStateCommitIdentity =
  lc_upstream_snapshot_id :: string
  lc_local_synced_block_height :: u32
  lc_latest_pass_block_commit :: "LocalStatePassCommitIdentity option"
  lc_latest_active_balance_snapshot :: "LocalStateActiveBalanceSnapshot option"
  lc_usdb_index_protocol_version :: string

record SystemStateIdentity =
  ss_upstream_snapshot_id :: string
  ss_local_state_commit :: string

text \<open>The bytes fed to the hasher, in order, and the identifiers.\<close>

definition consensus_snapshot_preimage :: "ConsensusSnapshotIdentity \<Rightarrow> u8 list" where
  "consensus_snapshot_preimage i =
     string_component CONSENSUS_SNAPSHOT_ID_VERSION @
     string_component (si_source_chain i) @
     string_component (si_network i) @
     u32_be (si_stable_height i) @
     string_component (si_stable_block_hash i) @
     u32_be (si_stable_lag i) @
     string_component (si_balance_history_api_version i) @
     string_component (si_balance_history_semantics_version i) @
     string_component (si_usdb_index_formula_version i) @
     string_component (si_usdb_index_protocol_version i)"

definition build_consensus_snapshot_id ::
  "(u8 list \<Rightarrow> u8 list) \<Rightarrow> ConsensusSnapshotIdentity \<Rightarrow> string" where
  "build_consensus_snapshot_id sha256 i = encode_hex (sha256 (consensus_snapshot_preimage i))"

definition local_state_commit_preimage :: "LocalStateCommitIdentity \<Rightarrow> u8 list" where
  "local_state_commit_preimage i =
     string_component LOCAL_STATE_COMMIT_VERSION @
     string_component (lc_upstream_snapshot_id i) @
     u32_be (lc_local_synced_block_height i) @
     optional_marker (lc_latest_pass_block_commit i \<noteq> None) @
     (case lc_latest_pass_block_commit i of None \<Rightarrow> []
      | Some p \<Rightarrow> u32_be (lp_block_height p) @ string_component (lp_block_commit p) @
          string_component (lp_commit_protocol_version p) @
          string_component (lp_commit_hash_algo p)) @
     optional_marker (lc_latest_active_balance_snapshot i \<noteq> None) @
     (case lc_latest_active_balance_snapshot i of None \<Rightarrow> []
      | Some b \<Rightarrow> u32_be (lb_block_height b) @ u64_be (lb_total_balance b) @
          u32_be (lb_active_address_count b)) @
     string_component (lc_usdb_index_protocol_version i)"

definition build_local_state_commit ::
  "(u8 list \<Rightarrow> u8 list) \<Rightarrow> LocalStateCommitIdentity \<Rightarrow> string" where
  "build_local_state_commit sha256 i = encode_hex (sha256 (local_state_commit_preimage i))"

definition system_state_preimage :: "SystemStateIdentity \<Rightarrow> u8 list" where
  "system_state_preimage i =
     string_component SYSTEM_STATE_ID_VERSION @
     string_component (ss_upstream_snapshot_id i) @
     string_component (ss_local_state_commit i)"

definition build_system_state_id :: "(u8 list \<Rightarrow> u8 list) \<Rightarrow> SystemStateIdentity \<Rightarrow> string" where
  "build_system_state_id sha256 i = encode_hex (sha256 (system_state_preimage i))"

subsection \<open>Injectivity of the preimages\<close>

lemma hex_digit_inj: "m < 16 \<Longrightarrow> n < 16 \<Longrightarrow> hex_digit m = hex_digit n \<Longrightarrow> m = n"
proof -
  assume mn: "m < 16" "n < 16" and eq: "hex_digit m = hex_digit n"
  have "distinct ''0123456789abcdef''" by simp
  with mn eq show "m = n"
    unfolding hex_digit_def by (simp only: mod_less) (simp add: nth_eq_iff_index_eq)
qed

lemma hex_byte_inj:
  fixes a b :: u8
  assumes "hex_digit (unat a div 16) = hex_digit (unat b div 16)"
    and "hex_digit (unat a) = hex_digit (unat b)"
  shows "a = b"
proof -
  have lt: "unat a div 16 < 16" "unat b div 16 < 16"
    using unat_less_2p [of a] unat_less_2p [of b] by simp_all
  have "hex_digit (unat a mod 16) = hex_digit (unat b mod 16)"
    using assms(2) by (simp add: hex_digit_def)
  then have "unat a mod 16 = unat b mod 16" by (intro hex_digit_inj) simp_all
  moreover have "unat a div 16 = unat b div 16" using lt assms(1) by (rule hex_digit_inj)
  ultimately have "unat a = unat b" by (metis mult_div_mod_eq)
  then show ?thesis by (rule word_unat_eq_iff [THEN iffD2])
qed

lemma encode_hex_inj: "encode_hex xs = encode_hex ys \<Longrightarrow> xs = ys"
proof (induction xs arbitrary: ys)
  case (Cons x xs)
  then show ?case by (cases ys) (auto simp: encode_hex_def intro: hex_byte_inj)
qed (auto simp: encode_hex_def)

lemma of_char_u8_inj: "(of_char a :: u8) = of_char b \<Longrightarrow> a = b"
proof -
  assume "(of_char a :: u8) = of_char b"
  then have "(of_nat (of_char a) :: u8) = of_nat (of_char b)"
    by (simp only: of_nat_of_char)
  then have "(of_char a :: nat) mod 256 = of_char b mod 256"
    by (simp add: word_of_nat_eq_iff take_bit_eq_mod)
  then show "a = b" by simp
qed

lemma str_bytes_inj [simp]: "str_bytes a = str_bytes b \<longleftrightarrow> a = b"
  unfolding str_bytes_def by (rule inj_map_eq_map) (auto intro: injI of_char_u8_inj)

lemma length_str_bytes [simp]: "length (str_bytes s) = length s"
  by (simp add: str_bytes_def)

definition u32_len :: "string \<Rightarrow> bool" where
  "u32_len s \<longleftrightarrow> length s < 2 ^ 32"

lemma u32_len_eq: "u32_len a \<Longrightarrow> u32_len b \<Longrightarrow> (of_nat (length a) :: u32) = of_nat (length b) \<Longrightarrow>
    length a = length b"
  by (simp add: u32_len_def word_of_nat_eq_iff take_bit_nat_eq_self_iff take_bit_nat_eq_self)

text \<open>A length-prefixed string can be cut off the front of a byte string in one way only.\<close>

lemma string_component_append_eq:
  assumes "u32_len a" and "u32_len b"
  shows "string_component a @ xs = string_component b @ ys \<longleftrightarrow> a = b \<and> xs = ys"
proof
  assume eq: "string_component a @ xs = string_component b @ ys"
  then have "u32_be (of_nat (length a)) = u32_be (of_nat (length b))"
    by (simp add: string_component_def append_eq_append_conv)
  then have "length a = length b" using u32_len_eq [OF assms] by simp
  with eq show "a = b \<and> xs = ys"
    by (simp add: string_component_def append_eq_append_conv)
qed simp

lemma string_component_eq:
  "u32_len a \<Longrightarrow> u32_len b \<Longrightarrow> string_component a = string_component b \<longleftrightarrow> a = b"
  using string_component_append_eq [of a b "[]" "[]"] by simp

lemma u32_be_append_eq: "u32_be a @ xs = u32_be b @ ys \<longleftrightarrow> a = b \<and> xs = ys"
  by (simp add: append_eq_append_conv)

lemma u64_be_append_eq: "u64_be a @ xs = u64_be b @ ys \<longleftrightarrow> a = b \<and> xs = ys"
  by (simp add: append_eq_append_conv)

lemma optional_marker_append_eq:
  "optional_marker p @ xs = optional_marker q @ ys \<longleftrightarrow> p = q \<and> xs = ys"
  by (auto simp: optional_marker_def)

lemmas component_eqs =
  string_component_append_eq string_component_eq u32_be_append_eq u64_be_append_eq
  optional_marker_append_eq

definition snapshot_identity_ok :: "ConsensusSnapshotIdentity \<Rightarrow> bool" where
  "snapshot_identity_ok i \<longleftrightarrow> u32_len (si_source_chain i) \<and> u32_len (si_network i) \<and>
     u32_len (si_stable_block_hash i) \<and> u32_len (si_balance_history_api_version i) \<and>
     u32_len (si_balance_history_semantics_version i) \<and>
     u32_len (si_usdb_index_formula_version i) \<and> u32_len (si_usdb_index_protocol_version i)"

definition local_identity_ok :: "LocalStateCommitIdentity \<Rightarrow> bool" where
  "local_identity_ok i \<longleftrightarrow> u32_len (lc_upstream_snapshot_id i) \<and>
     u32_len (lc_usdb_index_protocol_version i) \<and>
     (case lc_latest_pass_block_commit i of None \<Rightarrow> True
      | Some p \<Rightarrow> u32_len (lp_block_commit p) \<and> u32_len (lp_commit_protocol_version p) \<and>
          u32_len (lp_commit_hash_algo p))"

definition system_identity_ok :: "SystemStateIdentity \<Rightarrow> bool" where
  "system_identity_ok i \<longleftrightarrow> u32_len (ss_upstream_snapshot_id i) \<and> u32_len (ss_local_state_commit i)"

lemma consensus_snapshot_preimage_inj:
  assumes "snapshot_identity_ok i" and "snapshot_identity_ok j"
    and "consensus_snapshot_preimage i = consensus_snapshot_preimage j"
  shows "i = j"
  using assms unfolding snapshot_identity_ok_def consensus_snapshot_preimage_def
  by (intro ConsensusSnapshotIdentity.equality) (simp_all add: component_eqs)

lemma system_state_preimage_inj:
  assumes "system_identity_ok i" and "system_identity_ok j"
    and "system_state_preimage i = system_state_preimage j"
  shows "i = j"
  using assms unfolding system_identity_ok_def system_state_preimage_def
  by (intro SystemStateIdentity.equality) (simp_all add: component_eqs)

lemma local_state_commit_preimage_inj:
  assumes "local_identity_ok i" and "local_identity_ok j"
    and "local_state_commit_preimage i = local_state_commit_preimage j"
  shows "i = j"
proof -
  obtain a b c d e where i: "i = LocalStateCommitIdentity.make a b c d e"
    by (cases i) (simp add: LocalStateCommitIdentity.make_def)
  obtain a' b' c' d' e' where j: "j = LocalStateCommitIdentity.make a' b' c' d' e'"
    by (cases j) (simp add: LocalStateCommitIdentity.make_def)
  have p: "p = q" if "u32_be (lp_block_height p) @ string_component (lp_block_commit p) @
          string_component (lp_commit_protocol_version p) @
          string_component (lp_commit_hash_algo p) @ xs =
        u32_be (lp_block_height q) @ string_component (lp_block_commit q) @
          string_component (lp_commit_protocol_version q) @
          string_component (lp_commit_hash_algo q) @ ys"
      "c = Some p" "c' = Some q" for p q :: LocalStatePassCommitIdentity and xs ys
    using that assms(1,2) i j
    by (intro LocalStatePassCommitIdentity.equality)
      (simp_all add: component_eqs local_identity_ok_def LocalStateCommitIdentity.make_def)
  show ?thesis
    using assms unfolding i j local_identity_ok_def local_state_commit_preimage_def
    by (cases c; cases c'; cases d; cases d')
      (auto simp: component_eqs LocalStateCommitIdentity.make_def dest: p
        intro: LocalStateActiveBalanceSnapshot.equality)
qed

end
