(* ===== verification/Balance_Db.thy ===== *)
theory Balance_Db
  imports Usdb_Types
begin

text \<open>
  \<open>balance-history/src/db/db.rs\<close>: the RocksDB store of the balance-history service.  A database is its
  column families, each a sorted list of byte-string rows, and an update is a write batch, a list of puts
  and deletes applied at once.  Keys and values are the bytes the code writes, so that the length checks,
  assertions and \<open>unwrap\<close>s of its parsers are branches of the model.  I/O failures of RocksDB, its tuning
  options and the opening of the files are left out.
\<close>

section \<open>Column families and write batches\<close>

datatype ColumnFamily =
    BALANCE_HISTORY_CF | META_CF | UTXO_CF | SCRIPT_REGISTRY_CF | BLOCKS_CF | BLOCK_HEIGHTS_CF | BLOCK_COMMITS_CF
  | BLOCK_UNDO_META_CF | BLOCK_UNDO_CREATED_UTXOS_CF | BLOCK_UNDO_SPENT_UTXOS_CF | BLOCK_UNDO_BALANCE_INDEX_CF

type_synonym BalanceHistoryDB = "ColumnFamily \<Rightarrow> (u8 list, u8 list) cf"

datatype WriteOp = PutCf ColumnFamily "u8 list" "u8 list" | DeleteCf ColumnFamily "u8 list"

type_synonym WriteBatch = "WriteOp list"

fun write_op :: "WriteOp \<Rightarrow> BalanceHistoryDB \<Rightarrow> BalanceHistoryDB" where
  "write_op (PutCf c k v) db = db(c := cf_put k v (db c))"
| "write_op (DeleteCf c k) db = db(c := cf_delete k (db c))"

declare write_op.simps [simp del]

definition write_batch :: "WriteBatch \<Rightarrow> BalanceHistoryDB \<Rightarrow> BalanceHistoryDB" where
  "write_batch = fold write_op"

definition get_cf :: "ColumnFamily \<Rightarrow> u8 list \<Rightarrow> BalanceHistoryDB \<Rightarrow> u8 list option" where
  "get_cf c k db = cf_get (db c) k"

text \<open>An iterator with \<open>prefix_same_as_start\<close> stops at the first row whose prefix of the given length differs.\<close>

definition same_prefix :: "nat \<Rightarrow> u8 list \<Rightarrow> (u8 list \<times> u8 list) list \<Rightarrow> (u8 list \<times> u8 list) list" where
  "same_prefix n start = takeWhile (\<lambda>r. take n (fst r) = take n start)"

text \<open>The names of the meta keys.\<close>

definition META_KEY_BTC_BLOCK_HEIGHT :: string where
  "META_KEY_BTC_BLOCK_HEIGHT = ''btc_block_height''"
definition META_KEY_LAST_BLOCK_FILE_INDEX :: string where
  "META_KEY_LAST_BLOCK_FILE_INDEX = ''last_block_file_index''"
definition META_KEY_ROLLBACK_IN_PROGRESS :: string where
  "META_KEY_ROLLBACK_IN_PROGRESS = ''rollback_in_progress''"
definition META_KEY_ROLLBACK_TARGET_HEIGHT :: string where
  "META_KEY_ROLLBACK_TARGET_HEIGHT = ''rollback_target_height''"
definition META_KEY_ROLLBACK_NEXT_HEIGHT :: string where
  "META_KEY_ROLLBACK_NEXT_HEIGHT = ''rollback_next_height''"
definition META_KEY_ROLLBACK_SUPPORTED_FROM_HEIGHT :: string where
  "META_KEY_ROLLBACK_SUPPORTED_FROM_HEIGHT = ''rollback_supported_from_height''"
definition META_KEY_UNDO_RETAINED_FROM_HEIGHT :: string where
  "META_KEY_UNDO_RETAINED_FROM_HEIGHT = ''undo_retained_from_height''"
definition META_KEY_SNAPSHOT_INSTALL_USED :: string where
  "META_KEY_SNAPSHOT_INSTALL_USED = ''snapshot_install_used''"
definition META_KEY_SNAPSHOT_INSTALL_MANIFEST_VERIFIED :: string where
  "META_KEY_SNAPSHOT_INSTALL_MANIFEST_VERIFIED = ''snapshot_install_manifest_verified''"

lemmas meta_keys = META_KEY_BTC_BLOCK_HEIGHT_def META_KEY_LAST_BLOCK_FILE_INDEX_def META_KEY_ROLLBACK_IN_PROGRESS_def
  META_KEY_ROLLBACK_TARGET_HEIGHT_def META_KEY_ROLLBACK_NEXT_HEIGHT_def META_KEY_ROLLBACK_SUPPORTED_FROM_HEIGHT_def
  META_KEY_UNDO_RETAINED_FROM_HEIGHT_def META_KEY_SNAPSHOT_INSTALL_USED_def META_KEY_SNAPSHOT_INSTALL_MANIFEST_VERIFIED_def

section \<open>Entries\<close>

type_synonym BlockHash = "256 word"
type_synonym digest = "256 word"
type_synonym u16 = "16 word"
type_synonym ScriptBuf = "u8 list"

record BalanceHistoryEntry =
  bh_script_hash :: USDBScriptHash
  bh_block_height :: u32
  bh_delta :: i64
  bh_balance :: u64

record BalanceHistoryData =
  hd_block_height :: u32
  hd_delta :: i64
  hd_balance :: u64

record BlockEntry =
  be_block_file_index :: u32
  be_block_file_offset :: u64
  be_block_record_index :: u32

record BlockCommitEntry =
  ce_block_height :: u32
  ce_btc_block_hash :: BlockHash
  ce_balance_delta_root :: digest
  ce_block_commit :: digest

record BlockUndoMetaEntry =
  um_block_height :: u32
  um_format_version :: u16
  um_btc_block_hash :: BlockHash
  um_created_utxo_count :: u32
  um_spent_utxo_count :: u32
  um_balance_entry_count :: u32

record BlockUndoUtxoEntry =
  uu_outpoint :: OutPoint
  uu_script_hash :: USDBScriptHash
  uu_value :: u64

record BlockUndoBundle =
  ub_block_height :: u32
  ub_btc_block_hash :: BlockHash
  ub_created_utxos :: "BlockUndoUtxoEntry list"
  ub_spent_utxos :: "BlockUndoUtxoEntry list"
  ub_touched_script_hashes :: "USDBScriptHash list"

record ScriptRegistryEntry =
  rg_script_hash :: USDBScriptHash
  rg_script_pubkey :: ScriptBuf

record UTXOEntry =
  ue_outpoint :: OutPoint
  ue_script_hash :: USDBScriptHash
  ue_value :: u64

record BlockStateUpdateBatch =
  su_new_utxos :: "(OutPoint \<times> UTXOValue) list"
  su_remove_utxos :: "OutPoint list"
  su_entries_list :: "BalanceHistoryEntry list"
  su_block_height :: u32
  su_block_commits :: "BlockCommitEntry list"
  su_script_registry_entries :: "ScriptRegistryEntry list"
  su_undo_bundles :: "BlockUndoBundle list"

section \<open>Keys and values\<close>

definition u16_be :: "u16 \<Rightarrow> u8 list" where
  "u16_be w = be_encode 2 (unat w)"

definition be_word :: "u8 list \<Rightarrow> 'a::len word" where
  "be_word bs = of_nat (be_decode bs)"

definition make_balance_history_key :: "USDBScriptHash \<Rightarrow> u32 \<Rightarrow> u8 list" where
  "make_balance_history_key script_hash block_height = hash_bytes script_hash @ u32_be block_height"

definition parse_block_height_from_key :: "u8 list \<Rightarrow> u32 result" where
  "parse_block_height_from_key key =
     (if length key \<noteq> 36 then Inl (Panic ''Invalid balance key length'') else Inr (be_word (take 4 (drop 32 key))))"

definition balance_value :: "i64 \<Rightarrow> u64 \<Rightarrow> u8 list" where
  "balance_value delta balance = u64_be delta @ u64_be balance"

definition parse_balance_from_value :: "u8 list \<Rightarrow> (i64 \<times> u64) result" where
  "parse_balance_from_value val =
     (if length val \<noteq> 16 then Inl (Panic ''Invalid balance value length'')
      else Inr (be_word (take 8 val), be_word (drop 8 val)))"

definition make_utxo_key :: "OutPoint \<Rightarrow> u8 list" where
  "make_utxo_key = OutPointCodec_encode"

text \<open>\<open>UTXOValue::from_slice(value).unwrap()\<close>.\<close>

definition parse_utxo_from_value :: "u8 list \<Rightarrow> UTXOValue result" where
  "parse_utxo_from_value val =
     (case UTXOValue_from_slice val of
        Inl _ \<Rightarrow> Inl (Panic ''called Result::unwrap() on an Err value'') | Inr v \<Rightarrow> Inr v)"

definition parse_block_from_value :: "u8 list \<Rightarrow> BlockEntry result" where
  "parse_block_from_value val =
     (if length val \<noteq> 16 then Inl (Panic ''Invalid Block value length'')
      else Inr \<lparr>be_block_file_index = be_word (take 4 val), be_block_file_offset = be_word (take 8 (drop 4 val)),
        be_block_record_index = be_word (drop 12 val)\<rparr>)"

definition make_block_undo_meta_key :: "u32 \<Rightarrow> u8 list" where
  "make_block_undo_meta_key = u32_be"

definition serialize_block_undo_meta_value :: "BlockUndoMetaEntry \<Rightarrow> u8 list" where
  "serialize_block_undo_meta_value e =
     u16_be (um_format_version e) @ hash_bytes (um_btc_block_hash e) @ u32_be (um_created_utxo_count e) @
     u32_be (um_spent_utxo_count e) @ u32_be (um_balance_entry_count e)"

definition parse_block_undo_meta_value :: "u32 \<Rightarrow> u8 list \<Rightarrow> BlockUndoMetaEntry result" where
  "parse_block_undo_meta_value block_height val =
     (if length val \<noteq> 46 then Inl (Err ''Invalid block undo meta value length'')
      else Inr \<lparr>um_block_height = block_height, um_format_version = be_word (take 2 val),
        um_btc_block_hash = hash_of_bytes (take 32 (drop 2 val)),
        um_created_utxo_count = be_word (take 4 (drop 34 val)), um_spent_utxo_count = be_word (take 4 (drop 38 val)),
        um_balance_entry_count = be_word (drop 42 val)\<rparr>)"

definition make_block_undo_utxo_key :: "u32 \<Rightarrow> u32 \<Rightarrow> u8 list" where
  "make_block_undo_utxo_key block_height seq = u32_be block_height @ u32_be seq"

definition serialize_block_undo_utxo_value :: "BlockUndoUtxoEntry \<Rightarrow> u8 list" where
  "serialize_block_undo_utxo_value e =
     make_utxo_key (uu_outpoint e) @ hash_bytes (uu_script_hash e) @ u64_be (uu_value e)"

definition parse_block_undo_utxo_value :: "u8 list \<Rightarrow> BlockUndoUtxoEntry result" where
  "parse_block_undo_utxo_value val =
     (if length val \<noteq> 76 then Inl (Err ''Invalid block undo utxo value length'')
      else case OutPointCodec_decode (take 36 val) of
          Inl _ \<Rightarrow> Inl (Err ''Failed to decode block undo outpoint'')
        | Inr outpoint \<Rightarrow> Inr \<lparr>uu_outpoint = outpoint, uu_script_hash = hash_of_bytes (take 32 (drop 36 val)),
            uu_value = be_word (drop 68 val)\<rparr>)"

definition make_block_undo_balance_index_key :: "u32 \<Rightarrow> USDBScriptHash \<Rightarrow> u8 list" where
  "make_block_undo_balance_index_key block_height script_hash = u32_be block_height @ hash_bytes script_hash"

definition block_height_prefix_matches :: "u8 list \<Rightarrow> u32 \<Rightarrow> bool" where
  "block_height_prefix_matches key block_height \<longleftrightarrow> 4 \<le> length key \<and> take 4 key = u32_be block_height"

definition parse_u32_be_key :: "u8 list \<Rightarrow> u32 result" where
  "parse_u32_be_key key = (if length key \<noteq> 4 then Inl (Err ''Invalid 4-byte key length'') else Inr (be_word key))"

definition make_block_commit_key :: "u32 \<Rightarrow> u8 list" where
  "make_block_commit_key = u32_be"

definition serialize_block_commit_value :: "BlockCommitEntry \<Rightarrow> u8 list" where
  "serialize_block_commit_value e =
     hash_bytes (ce_btc_block_hash e) @ hash_bytes (ce_balance_delta_root e) @ hash_bytes (ce_block_commit e)"

definition parse_block_commit_value :: "u32 \<Rightarrow> u8 list \<Rightarrow> BlockCommitEntry result" where
  "parse_block_commit_value block_height val =
     (if length val \<noteq> 96 then Inl (Err ''Invalid block commit value length'')
      else Inr \<lparr>ce_block_height = block_height, ce_btc_block_hash = hash_of_bytes (take 32 val),
        ce_balance_delta_root = hash_of_bytes (take 32 (drop 32 val)), ce_block_commit = hash_of_bytes (drop 64 val)\<rparr>)"

section \<open>Meta values\<close>

definition put_u32_meta :: "string \<Rightarrow> u32 \<Rightarrow> (BalanceHistoryDB, unit) op" where
  "put_u32_meta key val = modify (write_op (PutCf META_CF (str_bytes key) (u32_be val)))"

definition delete_meta_key :: "string \<Rightarrow> (BalanceHistoryDB, unit) op" where
  "delete_meta_key key = modify (write_op (DeleteCf META_CF (str_bytes key)))"

definition get_u32_meta :: "string \<Rightarrow> BalanceHistoryDB \<Rightarrow> u32 option result" where
  "get_u32_meta key db =
     (case get_cf META_CF (str_bytes key) db of
        Some val \<Rightarrow> if length val \<noteq> 4 then Inl (Err ''Invalid meta value length'') else Inr (Some (be_word val))
      | None \<Rightarrow> Inr None)"

definition clear_rollback_state :: "(BalanceHistoryDB, unit) op" where
  "clear_rollback_state =
     bindR (delete_meta_key META_KEY_ROLLBACK_IN_PROGRESS) (\<lambda>_.
     bindR (delete_meta_key META_KEY_ROLLBACK_TARGET_HEIGHT) (\<lambda>_.
     delete_meta_key META_KEY_ROLLBACK_NEXT_HEIGHT))"

definition put_undo_retained_from_height :: "u32 \<Rightarrow> (BalanceHistoryDB, unit) op" where
  "put_undo_retained_from_height = put_u32_meta META_KEY_UNDO_RETAINED_FROM_HEIGHT"

definition get_undo_retained_from_height :: "BalanceHistoryDB \<Rightarrow> u32 option result" where
  "get_undo_retained_from_height = get_u32_meta META_KEY_UNDO_RETAINED_FROM_HEIGHT"

definition put_rollback_supported_from_height :: "u32 \<Rightarrow> (BalanceHistoryDB, unit) op" where
  "put_rollback_supported_from_height = put_u32_meta META_KEY_ROLLBACK_SUPPORTED_FROM_HEIGHT"

definition get_rollback_supported_from_height :: "BalanceHistoryDB \<Rightarrow> u32 option result" where
  "get_rollback_supported_from_height = get_u32_meta META_KEY_ROLLBACK_SUPPORTED_FROM_HEIGHT"

definition put_btc_block_height :: "u32 \<Rightarrow> (BalanceHistoryDB, unit) op" where
  "put_btc_block_height height = modify (write_op (PutCf META_CF (str_bytes META_KEY_BTC_BLOCK_HEIGHT) (u32_be height)))"

definition get_btc_block_height :: "BalanceHistoryDB \<Rightarrow> u32 result" where
  "get_btc_block_height db =
     (case get_cf META_CF (str_bytes META_KEY_BTC_BLOCK_HEIGHT) db of
        Some val \<Rightarrow> if length val \<noteq> 4 then Inl (Err ''Invalid BTC block height value length'') else Inr (be_word val)
      | None \<Rightarrow> Inr 0)"

definition put_snapshot_install_state :: "bool \<Rightarrow> (BalanceHistoryDB, unit) op" where
  "put_snapshot_install_state manifest_verified =
     bindR (put_u32_meta META_KEY_SNAPSHOT_INSTALL_USED 1) (\<lambda>_.
     put_u32_meta META_KEY_SNAPSHOT_INSTALL_MANIFEST_VERIFIED (if manifest_verified then 1 else 0))"

definition is_rollback_in_progress :: "BalanceHistoryDB \<Rightarrow> bool result" where
  "is_rollback_in_progress db =
     (case get_u32_meta META_KEY_ROLLBACK_IN_PROGRESS db of Inl e \<Rightarrow> Inl e | Inr v \<Rightarrow> Inr (v = Some 1))"

section \<open>Writes\<close>

definition balance_entry_op :: "BalanceHistoryEntry \<Rightarrow> WriteOp" where
  "balance_entry_op e =
     PutCf BALANCE_HISTORY_CF (make_balance_history_key (bh_script_hash e) (bh_block_height e))
       (balance_value (bh_delta e) (bh_balance e))"

definition block_commit_op :: "BlockCommitEntry \<Rightarrow> WriteOp" where
  "block_commit_op e = PutCf BLOCK_COMMITS_CF (make_block_commit_key (ce_block_height e)) (serialize_block_commit_value e)"

definition btc_height_op :: "u32 \<Rightarrow> WriteOp" where
  "btc_height_op block_height = PutCf META_CF (str_bytes META_KEY_BTC_BLOCK_HEIGHT) (u32_be block_height)"

definition put_address_history_async :: "BalanceHistoryEntry list \<Rightarrow> (BalanceHistoryDB, unit) op" where
  "put_address_history_async entries_list = modify (write_batch (map balance_entry_op entries_list))"

definition update_address_history_with_block_commits_async ::
  "BalanceHistoryEntry list \<Rightarrow> u32 \<Rightarrow> BlockCommitEntry list \<Rightarrow> (BalanceHistoryDB, unit) op" where
  "update_address_history_with_block_commits_async entries_list block_height block_commits =
     modify (write_batch (map balance_entry_op entries_list @ map block_commit_op block_commits @ [btc_height_op block_height]))"

definition put_block_commits_async :: "BlockCommitEntry list \<Rightarrow> (BalanceHistoryDB, unit) op" where
  "put_block_commits_async block_commits = modify (write_batch (map block_commit_op block_commits))"

definition append_script_registry_entries_to_batch :: "ScriptRegistryEntry list \<Rightarrow> WriteBatch" where
  "append_script_registry_entries_to_batch entries =
     map (\<lambda>e. PutCf SCRIPT_REGISTRY_CF (hash_bytes (rg_script_hash e)) (rg_script_pubkey e)) entries"

definition put_script_registry_entries :: "ScriptRegistryEntry list \<Rightarrow> (BalanceHistoryDB, unit) op" where
  "put_script_registry_entries entries = modify (write_batch (append_script_registry_entries_to_batch entries))"

definition undo_utxo_ops :: "ColumnFamily \<Rightarrow> u32 \<Rightarrow> BlockUndoUtxoEntry list \<Rightarrow> WriteBatch" where
  "undo_utxo_ops c block_height entries =
     map (\<lambda>(seq, e). PutCf c (make_block_undo_utxo_key block_height (of_nat seq)) (serialize_block_undo_utxo_value e))
       (enumerate 0 entries)"

definition undo_bundle_ops :: "BlockUndoBundle \<Rightarrow> WriteBatch" where
  "undo_bundle_ops bundle =
     [PutCf BLOCK_UNDO_META_CF (make_block_undo_meta_key (ub_block_height bundle))
        (serialize_block_undo_meta_value
           \<lparr>um_block_height = ub_block_height bundle, um_format_version = 1, um_btc_block_hash = ub_btc_block_hash bundle,
            um_created_utxo_count = of_nat (length (ub_created_utxos bundle)),
            um_spent_utxo_count = of_nat (length (ub_spent_utxos bundle)),
            um_balance_entry_count = of_nat (length (ub_touched_script_hashes bundle))\<rparr>)] @
     undo_utxo_ops BLOCK_UNDO_CREATED_UTXOS_CF (ub_block_height bundle) (ub_created_utxos bundle) @
     undo_utxo_ops BLOCK_UNDO_SPENT_UTXOS_CF (ub_block_height bundle) (ub_spent_utxos bundle) @
     map (\<lambda>sh. PutCf BLOCK_UNDO_BALANCE_INDEX_CF (make_block_undo_balance_index_key (ub_block_height bundle) sh) [1])
       (ub_touched_script_hashes bundle)"

definition append_block_undo_bundles_to_batch :: "BlockUndoBundle list \<Rightarrow> WriteBatch" where
  "append_block_undo_bundles_to_batch undo_bundles = concat (map undo_bundle_ops undo_bundles)"

definition utxo_put_op :: "OutPoint \<times> UTXOValue \<Rightarrow> WriteOp" where
  "utxo_put_op = (\<lambda>(outpoint, utxo). PutCf UTXO_CF (make_utxo_key outpoint) (UTXOValue_encode (uv_script_hash utxo) (uv_value utxo)))"

definition utxo_delete_op :: "OutPoint \<Rightarrow> WriteOp" where
  "utxo_delete_op outpoint = DeleteCf UTXO_CF (make_utxo_key outpoint)"

text \<open>The two retention boundaries are recorded with the first undo bundles.\<close>

definition undo_boundary_ops :: "BlockUndoBundle list \<Rightarrow> BalanceHistoryDB \<Rightarrow> WriteBatch result" where
  "undo_boundary_ops undo_bundles db =
     (if undo_bundles = [] then Inr []
      else
        let first_undo_height = Min (set (map ub_block_height undo_bundles)) in
        case get_rollback_supported_from_height db of
          Inl e \<Rightarrow> Inl e
        | Inr supported \<Rightarrow>
            (case get_undo_retained_from_height db of
               Inl e \<Rightarrow> Inl e
             | Inr retained \<Rightarrow>
                 Inr ((if supported = None
                       then [PutCf META_CF (str_bytes META_KEY_ROLLBACK_SUPPORTED_FROM_HEIGHT) (u32_be first_undo_height)] else []) @
                      (if retained = None
                       then [PutCf META_CF (str_bytes META_KEY_UNDO_RETAINED_FROM_HEIGHT) (u32_be first_undo_height)] else []))))"

definition update_block_state_batch_async :: "BlockStateUpdateBatch \<Rightarrow> (BalanceHistoryDB, unit) op" where
  "update_block_state_batch_async update =
     bindR (getsR (undo_boundary_ops (su_undo_bundles update))) (\<lambda>boundary.
     modify (write_batch (
       map utxo_put_op (su_new_utxos update) @
       map utxo_delete_op (su_remove_utxos update) @
       map balance_entry_op (su_entries_list update) @
       map block_commit_op (su_block_commits update) @
       [btc_height_op (su_block_height update)] @
       append_script_registry_entries_to_batch (su_script_registry_entries update) @
       append_block_undo_bundles_to_batch (su_undo_bundles update) @
       boundary)))"

definition update_block_state_with_undo_async ::
  "(OutPoint \<times> UTXOValue) list \<Rightarrow> OutPoint list \<Rightarrow> BalanceHistoryEntry list \<Rightarrow> u32 \<Rightarrow> BlockCommitEntry list \<Rightarrow>
   BlockUndoBundle list \<Rightarrow> (BalanceHistoryDB, unit) op" where
  "update_block_state_with_undo_async new_utxos remove_utxos entries_list block_height block_commits undo_bundles =
     update_block_state_batch_async \<lparr>su_new_utxos = new_utxos, su_remove_utxos = remove_utxos, su_entries_list = entries_list,
       su_block_height = block_height, su_block_commits = block_commits, su_script_registry_entries = [],
       su_undo_bundles = undo_bundles\<rparr>"

definition update_block_state_async ::
  "(OutPoint \<times> UTXOValue) list \<Rightarrow> OutPoint list \<Rightarrow> BalanceHistoryEntry list \<Rightarrow> u32 \<Rightarrow> BlockCommitEntry list \<Rightarrow>
   (BalanceHistoryDB, unit) op" where
  "update_block_state_async new_utxos remove_utxos entries_list block_height block_commits =
     update_block_state_with_undo_async new_utxos remove_utxos entries_list block_height block_commits []"

definition put_utxo :: "OutPoint \<Rightarrow> USDBScriptHash \<Rightarrow> u64 \<Rightarrow> (BalanceHistoryDB, unit) op" where
  "put_utxo outpoint script_hash amount =
     modify (write_op (utxo_put_op (outpoint, \<lparr>uv_script_hash = script_hash, uv_value = amount\<rparr>)))"

definition put_utxos :: "UTXOEntry list \<Rightarrow> (BalanceHistoryDB, unit) op" where
  "put_utxos utxos = modify (write_batch (map (\<lambda>u. utxo_put_op (ue_outpoint u,
     \<lparr>uv_script_hash = ue_script_hash u, uv_value = ue_value u\<rparr>)) utxos))"

definition update_utxos_async :: "(OutPoint \<times> UTXOValue) list \<Rightarrow> OutPoint list \<Rightarrow> (BalanceHistoryDB, unit) op" where
  "update_utxos_async new_utxos remove_utxos =
     modify (write_batch (map utxo_put_op new_utxos @ map utxo_delete_op remove_utxos))"

section \<open>Reads\<close>

definition get_block_commit :: "u32 \<Rightarrow> BalanceHistoryDB \<Rightarrow> BlockCommitEntry option result" where
  "get_block_commit block_height db =
     (case get_cf BLOCK_COMMITS_CF (make_block_commit_key block_height) db of
        None \<Rightarrow> Inr None
      | Some val \<Rightarrow> (case parse_block_commit_value block_height val of Inl e \<Rightarrow> Inl e | Inr c \<Rightarrow> Inr (Some c)))"

text \<open>The record of a row that was found, and the default of an address without one.\<close>

definition no_balance :: BalanceHistoryData where
  "no_balance = \<lparr>hd_block_height = 0, hd_delta = 0, hd_balance = 0\<rparr>"

definition balance_of_row :: "u8 list \<Rightarrow> u8 list \<Rightarrow> BalanceHistoryData result" where
  "balance_of_row key val =
     (case parse_block_height_from_key key of
        Inl e \<Rightarrow> Inl e
      | Inr block_height \<Rightarrow>
          (case parse_balance_from_value val of
             Inl e \<Rightarrow> Inl e
           | Inr (delta, balance) \<Rightarrow> Inr \<lparr>hd_block_height = block_height, hd_delta = delta, hd_balance = balance\<rparr>))"

definition get_latest_balance :: "USDBScriptHash \<Rightarrow> BalanceHistoryDB \<Rightarrow> BalanceHistoryData result" where
  "get_latest_balance script_hash db =
     (case iter_from_reverse (make_balance_history_key script_hash (- 1)) (db BALANCE_HISTORY_CF) of
        [] \<Rightarrow> Inr no_balance
      | (found_key, found_val) # _ \<Rightarrow>
          if length found_key \<noteq> 36 then Inl (Panic ''Invalid balance key length'')
          else if take 32 found_key = hash_bytes script_hash then balance_of_row found_key found_val
          else Inr no_balance)"

definition get_balance_at_block_height :: "USDBScriptHash \<Rightarrow> u32 \<Rightarrow> BalanceHistoryDB \<Rightarrow> BalanceHistoryData result" where
  "get_balance_at_block_height script_hash target_height db =
     (let search_key = make_balance_history_key script_hash target_height in
      case same_prefix 32 search_key (iter_from_reverse search_key (db BALANCE_HISTORY_CF)) of
        [] \<Rightarrow> Inr no_balance
      | (found_key, found_val) # _ \<Rightarrow>
          if length found_key \<noteq> 36 then Inl (Panic ''Invalid balance key length'')
          else if take 32 found_key = hash_bytes script_hash then
            (case balance_of_row found_key found_val of
               Inl e \<Rightarrow> Inl e
             | Inr entry \<Rightarrow>
                 if target_height < hd_block_height entry then Inl (Panic ''Found block height greater than target height'')
                 else Inr entry)
          else Inr no_balance)"

fun balance_range_loop :: "USDBScriptHash \<Rightarrow> u32 \<Rightarrow> (u8 list \<times> u8 list) list \<Rightarrow> BalanceHistoryData list result" where
  "balance_range_loop script_hash range_end [] = Inr []"
| "balance_range_loop script_hash range_end ((key, val) # rest) =
     (if length key \<noteq> 36 then Inl (Panic ''Invalid balance key length'')
      else if take 32 key \<noteq> hash_bytes script_hash then Inr []
      else case parse_block_height_from_key key of
          Inl e \<Rightarrow> Inl e
        | Inr height \<Rightarrow>
            if range_end \<le> height then Inr []
            else (case balance_of_row key val of
                Inl e \<Rightarrow> Inl e
              | Inr entry \<Rightarrow>
                  (case balance_range_loop script_hash range_end rest of Inl e \<Rightarrow> Inl e | Inr results \<Rightarrow> Inr (entry # results))))"

definition get_balance_in_range ::
  "USDBScriptHash \<Rightarrow> u32 \<Rightarrow> u32 \<Rightarrow> BalanceHistoryDB \<Rightarrow> BalanceHistoryData list result" where
  "get_balance_in_range script_hash range_begin range_end db =
     (if \<not> range_begin < range_end then Inl (Panic ''Invalid range'')
      else
        let start_key = make_balance_history_key script_hash range_begin in
        balance_range_loop script_hash range_end
          (same_prefix 32 start_key (iter_from_forward start_key (db BALANCE_HISTORY_CF))))"

definition get_balance_delta_at_block_height ::
  "USDBScriptHash \<Rightarrow> u32 \<Rightarrow> BalanceHistoryDB \<Rightarrow> BalanceHistoryData option result" where
  "get_balance_delta_at_block_height script_hash target_height db =
     (case get_cf BALANCE_HISTORY_CF (make_balance_history_key script_hash target_height) db of
        None \<Rightarrow> Inr None
      | Some val \<Rightarrow>
          (case parse_balance_from_value val of
             Inl e \<Rightarrow> Inl e
           | Inr (delta, balance) \<Rightarrow>
               Inr (Some \<lparr>hd_block_height = target_height, hd_delta = delta, hd_balance = balance\<rparr>)))"

definition get_all_balance :: "USDBScriptHash \<Rightarrow> BalanceHistoryDB \<Rightarrow> BalanceHistoryData list result" where
  "get_all_balance script_hash = get_balance_in_range script_hash 0 (- 1)"

definition get_utxo :: "OutPoint \<Rightarrow> BalanceHistoryDB \<Rightarrow> UTXOValue option result" where
  "get_utxo outpoint db =
     (case get_cf UTXO_CF (make_utxo_key outpoint) db of
        None \<Rightarrow> Inr None
      | Some val \<Rightarrow> (case parse_utxo_from_value val of Inl e \<Rightarrow> Inl e | Inr v \<Rightarrow> Inr (Some v)))"

definition get_utxos_bulk :: "OutPoint list \<Rightarrow> BalanceHistoryDB \<Rightarrow> UTXOValue option list result" where
  "get_utxos_bulk outpoints db = mapR (\<lambda>outpoint. get_utxo outpoint db) outpoints"

definition get_script_registry_entry :: "USDBScriptHash \<Rightarrow> BalanceHistoryDB \<Rightarrow> ScriptBuf option" where
  "get_script_registry_entry script_hash = get_cf SCRIPT_REGISTRY_CF (hash_bytes script_hash)"

definition get_script_registry_entries :: "USDBScriptHash list \<Rightarrow> BalanceHistoryDB \<Rightarrow> ScriptBuf option list" where
  "get_script_registry_entries script_hashes db = map (\<lambda>sh. get_script_registry_entry sh db) script_hashes"

end
