(* ===== verification/Balance_Undo.thy ===== *)
theory Balance_Undo
  imports Balance_Db
begin

text \<open>
  The undo journal of \<open>balance-history/src/db/db.rs\<close>: the bundles stored with a block, the rollback of one
  block and of a range of blocks with its persisted progress, and the pruning of old bundles.  Each
  operation is the sequence of its write batches; a crash is a stop between two of them.
\<close>

section \<open>Reading bundles\<close>

definition get_block_undo_meta :: "u32 \<Rightarrow> BalanceHistoryDB \<Rightarrow> BlockUndoMetaEntry option result" where
  "get_block_undo_meta block_height db =
     (case get_cf BLOCK_UNDO_META_CF (make_block_undo_meta_key block_height) db of
        None \<Rightarrow> Inr None
      | Some val \<Rightarrow> (case parse_block_undo_meta_value block_height val of Inl e \<Rightarrow> Inl e | Inr m \<Rightarrow> Inr (Some m)))"

fun undo_utxo_loop :: "u32 \<Rightarrow> (u8 list \<times> u8 list) list \<Rightarrow> BlockUndoUtxoEntry list result" where
  "undo_utxo_loop block_height [] = Inr []"
| "undo_utxo_loop block_height ((key, val) # rest) =
     (if \<not> block_height_prefix_matches key block_height then Inr []
      else case parse_block_undo_utxo_value val of
          Inl e \<Rightarrow> Inl e
        | Inr entry \<Rightarrow> (case undo_utxo_loop block_height rest of Inl e \<Rightarrow> Inl e | Inr entries \<Rightarrow> Inr (entry # entries)))"

definition get_block_undo_utxos_from_cf :: "ColumnFamily \<Rightarrow> u32 \<Rightarrow> BalanceHistoryDB \<Rightarrow> BlockUndoUtxoEntry list result" where
  "get_block_undo_utxos_from_cf c block_height db =
     (let start_key = make_block_undo_utxo_key block_height 0
      in undo_utxo_loop block_height (same_prefix 4 start_key (iter_from_forward start_key (db c))))"

definition get_block_undo_created_utxos :: "u32 \<Rightarrow> BalanceHistoryDB \<Rightarrow> BlockUndoUtxoEntry list result" where
  "get_block_undo_created_utxos = get_block_undo_utxos_from_cf BLOCK_UNDO_CREATED_UTXOS_CF"

definition get_block_undo_spent_utxos :: "u32 \<Rightarrow> BalanceHistoryDB \<Rightarrow> BlockUndoUtxoEntry list result" where
  "get_block_undo_spent_utxos = get_block_undo_utxos_from_cf BLOCK_UNDO_SPENT_UTXOS_CF"

text \<open>\<open>copy_from_slice(&key[4..36])\<close> panics on a shorter key.\<close>

fun touched_loop :: "u32 \<Rightarrow> (u8 list \<times> u8 list) list \<Rightarrow> USDBScriptHash list result" where
  "touched_loop block_height [] = Inr []"
| "touched_loop block_height ((key, val) # rest) =
     (if \<not> block_height_prefix_matches key block_height then Inr []
      else if length key < 36 then Inl (Panic ''range end index out of range for slice'')
      else case touched_loop block_height rest of
          Inl e \<Rightarrow> Inl e | Inr hashes \<Rightarrow> Inr (hash_of_bytes (take 32 (drop 4 key)) # hashes))"

definition get_block_undo_touched_script_hashes :: "u32 \<Rightarrow> BalanceHistoryDB \<Rightarrow> USDBScriptHash list result" where
  "get_block_undo_touched_script_hashes block_height db =
     (let start_key = make_block_undo_balance_index_key block_height 0
      in touched_loop block_height (same_prefix 4 start_key (iter_from_forward start_key (db BLOCK_UNDO_BALANCE_INDEX_CF))))"

definition get_block_undo_bundle :: "u32 \<Rightarrow> BalanceHistoryDB \<Rightarrow> BlockUndoBundle option result" where
  "get_block_undo_bundle block_height db =
     (case get_block_undo_meta block_height db of
        Inl e \<Rightarrow> Inl e
      | Inr None \<Rightarrow> Inr None
      | Inr (Some meta) \<Rightarrow>
          (case get_block_undo_created_utxos block_height db of
             Inl e \<Rightarrow> Inl e
           | Inr created \<Rightarrow>
               (case get_block_undo_spent_utxos block_height db of
                  Inl e \<Rightarrow> Inl e
                | Inr spent \<Rightarrow>
                    (case get_block_undo_touched_script_hashes block_height db of
                       Inl e \<Rightarrow> Inl e
                     | Inr touched \<Rightarrow>
                         Inr (Some \<lparr>ub_block_height = block_height, ub_btc_block_hash = um_btc_block_hash meta,
                           ub_created_utxos = created, ub_spent_utxos = spent, ub_touched_script_hashes = touched\<rparr>)))))"

section \<open>Rolling back\<close>

definition append_delete_block_undo_bundle_to_batch :: "u32 \<Rightarrow> BalanceHistoryDB \<Rightarrow> WriteBatch result" where
  "append_delete_block_undo_bundle_to_batch block_height db =
     (case get_block_undo_created_utxos block_height db of
        Inl e \<Rightarrow> Inl e
      | Inr created \<Rightarrow>
          (case get_block_undo_spent_utxos block_height db of
             Inl e \<Rightarrow> Inl e
           | Inr spent \<Rightarrow>
               (case get_block_undo_touched_script_hashes block_height db of
                  Inl e \<Rightarrow> Inl e
                | Inr touched \<Rightarrow>
                    Inr ([DeleteCf BLOCK_UNDO_META_CF (make_block_undo_meta_key block_height)] @
                      map (\<lambda>seq. DeleteCf BLOCK_UNDO_CREATED_UTXOS_CF (make_block_undo_utxo_key block_height (of_nat seq)))
                        [0..<length created] @
                      map (\<lambda>seq. DeleteCf BLOCK_UNDO_SPENT_UTXOS_CF (make_block_undo_utxo_key block_height (of_nat seq)))
                        [0..<length spent] @
                      map (\<lambda>sh. DeleteCf BLOCK_UNDO_BALANCE_INDEX_CF (make_block_undo_balance_index_key block_height sh)) touched))))"

definition rollback_ops :: "BlockUndoBundle \<Rightarrow> u32 \<Rightarrow> WriteBatch" where
  "rollback_ops bundle block_height =
     map (\<lambda>u. utxo_delete_op (uu_outpoint u)) (ub_created_utxos bundle) @
     map (\<lambda>u. utxo_put_op (uu_outpoint u, \<lparr>uv_script_hash = uu_script_hash u, uv_value = uu_value u\<rparr>)) (ub_spent_utxos bundle) @
     map (\<lambda>sh. DeleteCf BALANCE_HISTORY_CF (make_balance_history_key sh block_height)) (ub_touched_script_hashes bundle) @
     [DeleteCf BLOCK_COMMITS_CF (make_block_commit_key block_height)]"

definition rollback_one_block :: "u32 \<Rightarrow> (BalanceHistoryDB, unit) op" where
  "rollback_one_block block_height =
     bindR (getsR get_btc_block_height) (\<lambda>current_height.
     bindR (guardR (current_height = block_height) (Err ''Rollback currently only supports the latest committed height'')) (\<lambda>_.
     bindR (getsR (get_block_undo_bundle block_height)) (\<lambda>found.
     case found of
       None \<Rightarrow> fail (Err ''Missing block undo bundle'')
     | Some bundle \<Rightarrow>
         bindR (getsR (append_delete_block_undo_bundle_to_batch block_height)) (\<lambda>delete_bundle.
         modify (write_batch (rollback_ops bundle block_height @ delete_bundle @ [btc_height_op (sat_sub block_height 1)]))))))"

text \<open>Heights of an inclusive range, in order.\<close>

definition heights_between :: "u32 \<Rightarrow> u32 \<Rightarrow> u32 list" where
  "heights_between a b = map of_nat [unat a..<Suc (unat b)]"

definition ensure_rollback_undo_available :: "u32 \<Rightarrow> u32 \<Rightarrow> BalanceHistoryDB \<Rightarrow> unit result" where
  "ensure_rollback_undo_available target_height current_height db =
     (if current_height \<le> target_height then Inr ()
      else
        let first_required_height = sat_add target_height 1 in
        case get_rollback_supported_from_height db of
          Inl e \<Rightarrow> Inl e
        | Inr supported \<Rightarrow>
            if (case supported of Some s \<Rightarrow> first_required_height < s | None \<Rightarrow> False)
            then Inl (Err ''Rollback is only supported from a later height'')
            else (case get_undo_retained_from_height db of
                Inl e \<Rightarrow> Inl e
              | Inr None \<Rightarrow> Inl (Err ''Rollback requires undo bundles, but no undo retention boundary is recorded'')
              | Inr (Some retained) \<Rightarrow>
                  if first_required_height < retained then Inl (Err ''Undo is only retained from a later height'')
                  else (case mapR (\<lambda>height. case get_block_undo_meta height db of
                          Inl e \<Rightarrow> Inl e
                        | Inr None \<Rightarrow> Inl (Err ''Rollback requires a block undo bundle, but it is missing'')
                        | Inr (Some _) \<Rightarrow> Inr ()) (heights_between first_required_height current_height) of
                      Inl e \<Rightarrow> Inl e | Inr _ \<Rightarrow> Inr ())))"

text \<open>The loop \<open>while next_height > target_height\<close>; it ends because \<open>next_height\<close> falls.\<close>

function rollback_loop :: "u32 \<Rightarrow> u32 \<Rightarrow> (BalanceHistoryDB, unit) op" where
  "rollback_loop target_height next_height =
     (if target_height < next_height
      then bindR (rollback_one_block next_height) (\<lambda>_.
           bindR (put_u32_meta META_KEY_ROLLBACK_NEXT_HEIGHT (next_height - 1)) (\<lambda>_.
           rollback_loop target_height (next_height - 1)))
      else ret ())"
  by pat_completeness auto
termination
proof (relation "measure (\<lambda>(t, n). unat n)")
  fix t n :: u32
  assume "t < n"
  then have "n \<noteq> 0" by auto
  then show "((t, n - 1), (t, n)) \<in> measure (\<lambda>(t, n). unat n)"
    by (simp add: unat_minus_one word_neq_0_conv [symmetric] unat_gt_0)
qed simp

declare rollback_loop.simps [simp del]

definition rollback_to_block_height :: "u32 \<Rightarrow> (BalanceHistoryDB, unit) op" where
  "rollback_to_block_height target_height =
     bindR (getsR get_btc_block_height) (\<lambda>current_height.
     bindR (guardR (target_height \<le> current_height) (Err ''Invalid rollback target height above current height'')) (\<lambda>_.
     if target_height = current_height then ret ()
     else
       bindR (getsR (ensure_rollback_undo_available target_height current_height)) (\<lambda>_.
       bindR (put_u32_meta META_KEY_ROLLBACK_IN_PROGRESS 1) (\<lambda>_.
       bindR (put_u32_meta META_KEY_ROLLBACK_TARGET_HEIGHT target_height) (\<lambda>_.
       bindR (put_u32_meta META_KEY_ROLLBACK_NEXT_HEIGHT current_height) (\<lambda>_.
       bindR (rollback_loop target_height current_height) (\<lambda>_.
       clear_rollback_state)))))))"

definition resume_rollback_if_needed :: "(BalanceHistoryDB, bool) op" where
  "resume_rollback_if_needed =
     bindR (getsR (get_u32_meta META_KEY_ROLLBACK_IN_PROGRESS)) (\<lambda>in_progress.
     if in_progress \<noteq> Some 1 then ret False
     else
       bindR (getsR (get_u32_meta META_KEY_ROLLBACK_TARGET_HEIGHT)) (\<lambda>target.
       case target of
         None \<Rightarrow> fail (Err ''Missing rollback_target_height while rollback_in_progress=1'')
       | Some target_height \<Rightarrow>
       bindR (getsR (get_u32_meta META_KEY_ROLLBACK_NEXT_HEIGHT)) (\<lambda>next.
       case next of
         None \<Rightarrow> fail (Err ''Missing rollback_next_height while rollback_in_progress=1'')
       | Some next_height \<Rightarrow>
       bindR (getsR get_btc_block_height) (\<lambda>current_height.
       bindR (guardR (next_height = current_height) (Err ''Rollback resume state mismatch'')) (\<lambda>_.
       bindR (guardR (target_height \<le> next_height) (Err ''Invalid rollback resume state'')) (\<lambda>_.
       bindR (getsR (ensure_rollback_undo_available target_height next_height)) (\<lambda>_.
       bindR (rollback_loop target_height next_height) (\<lambda>_.
       bindR clear_rollback_state (\<lambda>_. ret True)))))))))"

section \<open>Pruning\<close>

fun prune_scan :: "u32 \<Rightarrow> (u8 list \<times> u8 list) list \<Rightarrow> u32 list result" where
  "prune_scan min_height [] = Inr []"
| "prune_scan min_height ((key, val) # rest) =
     (case parse_u32_be_key key of
        Inl e \<Rightarrow> Inl e
      | Inr block_height \<Rightarrow>
          if min_height \<le> block_height then Inr []
          else (case prune_scan min_height rest of Inl e \<Rightarrow> Inl e | Inr heights \<Rightarrow> Inr (block_height # heights)))"

definition prune_undo_before_height :: "u32 \<Rightarrow> (BalanceHistoryDB, nat) op" where
  "prune_undo_before_height min_retained_height =
     bindR (getsR (get_u32_meta META_KEY_ROLLBACK_IN_PROGRESS)) (\<lambda>in_progress.
     if in_progress = Some 1 then ret 0
     else
       bindR (getsR get_rollback_supported_from_height) (\<lambda>supported.
       case supported of
         None \<Rightarrow> ret 0
       | Some rollback_supported_from_height \<Rightarrow>
           let effective_min_retained_height = max min_retained_height rollback_supported_from_height in
           bindR (getsR get_undo_retained_from_height) (\<lambda>retained.
           if (case retained of Some r \<Rightarrow> effective_min_retained_height \<le> r | None \<Rightarrow> False) then ret 0
           else
             bindR (getsR (\<lambda>db. prune_scan effective_min_retained_height
                 (iter_from_forward (u32_be 0) (db BLOCK_UNDO_META_CF)))) (\<lambda>heights_to_prune.
             if heights_to_prune = []
             then bindR (put_undo_retained_from_height effective_min_retained_height) (\<lambda>_. ret 0)
             else
               bindR (getsR (\<lambda>db. mapR (\<lambda>h. append_delete_block_undo_bundle_to_batch h db) heights_to_prune)) (\<lambda>batches.
               bindR (modify (write_batch (concat batches @
                   [PutCf META_CF (str_bytes META_KEY_UNDO_RETAINED_FROM_HEIGHT) (u32_be effective_min_retained_height)]))) (\<lambda>_.
               ret (length heights_to_prune)))))))"

end
