(* ===== verification/Balance_Block.thy ===== *)
theory Balance_Block
  imports Balance_Undo "HOL-Library.AList"
begin

text \<open>
  \<open>balance-history/src/index/block.rs\<close> with the two caches of \<open>cache/utxo.rs\<close> and \<open>cache/balance.rs\<close>: a batch of
  blocks is preloaded (outputs, spent outputs, balances), its balance changes are computed block by block, and
  everything is written in one atomic batch, after which the caches are brought up to date.

  The bitcoin node, the bitcoin crate (transaction ids, \<open>is_op_return\<close>), the script hash, SHA-256 and the evictions
  of the LRU caches are parameters.  Hash maps are association lists; the code sorts whatever it takes out of them.
  The parallel iterators collect in input order; the threads only share the map of created outputs, whose keys the
  blocks of a valid chain never share.
\<close>

section \<open>Parameters\<close>

record BtcTxOut =
  to_script_pubkey :: ScriptBuf
  to_value :: u64

record BtcTx =
  bt_txid :: Txid
  bt_is_coinbase :: bool
  bt_input :: "OutPoint list"
  bt_output :: "BtcTxOut list"

record BtcBlock =
  bb_block_hash :: BlockHash
  bb_txdata :: "BtcTx list"

record block_env =
  ev_get_block_by_height :: "u32 \<Rightarrow> BtcBlock result"
  ev_get_block_hash :: "u32 \<Rightarrow> BlockHash result"
  ev_get_utxo :: "OutPoint \<Rightarrow> (ScriptBuf \<times> u64) result"
  ev_is_op_return :: "ScriptBuf \<Rightarrow> bool"
  ev_script_hash :: "ScriptBuf \<Rightarrow> USDBScriptHash"
  ev_sha256 :: "u8 list \<Rightarrow> digest"
  ev_evict_utxo :: "(OutPoint \<rightharpoonup> UTXOValue) \<Rightarrow> (OutPoint \<rightharpoonup> UTXOValue)"
  ev_evict_balance :: "(USDBScriptHash \<rightharpoonup> BalanceHistoryData) \<Rightarrow> (USDBScriptHash \<rightharpoonup> BalanceHistoryData)"

text \<open>The state of the indexer that a batch changes.\<close>

record bh_state =
  st_db :: BalanceHistoryDB
  st_utxo_cache :: "OutPoint \<rightharpoonup> UTXOValue"
  st_balance_cache :: "USDBScriptHash \<rightharpoonup> BalanceHistoryData"

section \<open>Caches\<close>

definition utxo_cache_put :: "block_env \<Rightarrow> OutPoint \<Rightarrow> UTXOValue \<Rightarrow> (OutPoint \<rightharpoonup> UTXOValue) \<Rightarrow> (OutPoint \<rightharpoonup> UTXOValue)" where
  "utxo_cache_put env outpoint utxo cache = ev_evict_utxo env (cache(outpoint \<mapsto> utxo))"

definition utxo_cache_spend :: "OutPoint \<Rightarrow> (OutPoint \<rightharpoonup> UTXOValue) \<Rightarrow> UTXOValue option \<times> (OutPoint \<rightharpoonup> UTXOValue)" where
  "utxo_cache_spend outpoint cache = (cache outpoint, cache(outpoint := None))"

text \<open>A zero balance is not cached, and removes what was.\<close>

definition balance_cache_put :: "block_env \<Rightarrow> USDBScriptHash \<Rightarrow> BalanceHistoryData \<Rightarrow>
  (USDBScriptHash \<rightharpoonup> BalanceHistoryData) \<Rightarrow> (USDBScriptHash \<rightharpoonup> BalanceHistoryData)" where
  "balance_cache_put env script_hash data cache =
     (if hd_balance data = 0 then cache(script_hash := None)
      else ev_evict_balance env (cache(script_hash \<mapsto> data)))"

definition balance_cache_get :: "USDBScriptHash \<Rightarrow> u32 \<Rightarrow> (USDBScriptHash \<rightharpoonup> BalanceHistoryData) \<Rightarrow> BalanceHistoryData option result" where
  "balance_cache_get script_hash block_height cache =
     (case cache script_hash of
        None \<Rightarrow> Inr None
      | Some cached \<Rightarrow>
          if hd_block_height cached \<le> block_height then Inr (Some cached) else Inl (Panic ''Inconsistent cache state''))"

section \<open>Data of a batch\<close>

record PreloadVIn =
  vi_outpoint :: OutPoint
  vi_cache_tx_out :: "UTXOValue option"
  vi_need_flush :: bool

record PreloadVOut =
  vo_outpoint :: OutPoint
  vo_cache_tx_out :: UTXOValue

record PreloadTx =
  pt_txid :: Txid
  pt_vin :: "PreloadVIn list"
  pt_vout :: "PreloadVOut list"

record PreloadBlock =
  pb_height :: u32
  pb_block_hash :: BlockHash
  pb_txdata :: "PreloadTx list"

record VOutUtxoInfo =
  vu_item :: UTXOValue
  vu_block_height :: u32
  vu_spend :: bool

definition created_before :: "u32 \<Rightarrow> VOutUtxoInfo \<Rightarrow> bool" where
  "created_before spending_block_height info \<longleftrightarrow> vu_block_height info < spending_block_height"

record BlockBalanceDelta =
  bl_block_height :: u32
  bl_block_hash :: BlockHash
  bl_entries :: "BalanceHistoryEntry list"

record BatchBlockData =
  bk_block_range :: "u32 \<times> u32"
  bk_blocks :: "PreloadBlock list"
  bk_vout_utxos :: "(OutPoint \<times> VOutUtxoInfo) list"
  bk_balances :: "(USDBScriptHash \<times> BalanceHistoryData) list"
  bk_balance_history :: "BalanceHistoryEntry list"
  bk_block_balance_deltas :: "BlockBalanceDelta list"
  bk_script_registry :: "ScriptRegistryEntry list"

definition BatchBlockData_new :: "u32 \<times> u32 \<Rightarrow> BatchBlockData" where
  "BatchBlockData_new block_range =
     \<lparr>bk_block_range = block_range, bk_blocks = [], bk_vout_utxos = [], bk_balances = [], bk_balance_history = [],
      bk_block_balance_deltas = [], bk_script_registry = []\<rparr>"

section \<open>Block commits\<close>

definition EMPTY_COMMIT_HASH :: digest where
  "EMPTY_COMMIT_HASH = 0"

definition delta_entry_bytes :: "BalanceHistoryEntry \<Rightarrow> u8 list" where
  "delta_entry_bytes e = hash_bytes (bh_script_hash e) @ u32_be (bh_block_height e) @ u64_be (bh_delta e) @ u64_be (bh_balance e)"

definition compute_balance_delta_root :: "(u8 list \<Rightarrow> digest) \<Rightarrow> BlockBalanceDelta \<Rightarrow> digest" where
  "compute_balance_delta_root sha256 block =
     sha256 (str_bytes ''balance-history:block-delta-root:v1'' @ u32_be (bl_block_height block) @
       hash_bytes (bl_block_hash block) @ concat (map delta_entry_bytes (bl_entries block)))"

definition compute_block_commit :: "(u8 list \<Rightarrow> digest) \<Rightarrow> u32 \<Rightarrow> BlockHash \<Rightarrow> digest \<Rightarrow> digest \<Rightarrow> digest" where
  "compute_block_commit sha256 block_height block_hash balance_delta_root prev_block_commit =
     sha256 (str_bytes ''balance-history:block-commit:v1'' @ u32_be block_height @ hash_bytes block_hash @
       hash_bytes balance_delta_root @ hash_bytes prev_block_commit)"

fun build_block_commits :: "(u8 list \<Rightarrow> digest) \<Rightarrow> BlockBalanceDelta list \<Rightarrow> digest \<Rightarrow> BlockCommitEntry list" where
  "build_block_commits sha256 [] prev_block_commit = []"
| "build_block_commits sha256 (block # blocks) prev_block_commit =
     (let balance_delta_root = compute_balance_delta_root sha256 block;
          block_commit = compute_block_commit sha256 (bl_block_height block) (bl_block_hash block) balance_delta_root prev_block_commit
      in \<lparr>ce_block_height = bl_block_height block, ce_btc_block_hash = bl_block_hash block,
          ce_balance_delta_root = balance_delta_root, ce_block_commit = block_commit\<rparr> #
         build_block_commits sha256 blocks block_commit)"

definition resolve_previous_commit :: "u32 option \<Rightarrow> BlockCommitEntry option \<Rightarrow> digest result" where
  "resolve_previous_commit previous_height previous_commit =
     (if previous_height = None \<or> previous_height = Some 0
      then Inr (case previous_commit of Some c \<Rightarrow> ce_block_commit c | None \<Rightarrow> EMPTY_COMMIT_HASH)
      else case previous_commit of
          Some c \<Rightarrow> Inr (ce_block_commit c) | None \<Rightarrow> Inl (Err ''Missing previous block commit''))"

definition should_persist_undo_for_block :: "u32 \<Rightarrow> u32 \<Rightarrow> u32 \<Rightarrow> bool" where
  "should_persist_undo_for_block block_height latest_btc_height undo_retention_blocks \<longleftrightarrow>
     \<not> (undo_retention_blocks = 0 \<or> latest_btc_height < block_height) \<and>
     sat_sub latest_btc_height (undo_retention_blocks - 1) \<le> block_height"

definition should_persist_any_undo_for_range :: "u32 \<times> u32 \<Rightarrow> u32 \<Rightarrow> u32 \<Rightarrow> bool" where
  "should_persist_any_undo_for_range block_height_range latest_btc_height undo_retention_blocks \<longleftrightarrow>
     \<not> (snd block_height_range \<le> fst block_height_range \<or> undo_retention_blocks = 0) \<and>
     fst block_height_range \<le> latest_btc_height \<and>
     sat_sub latest_btc_height (undo_retention_blocks - 1) \<le> snd block_height_range - 1"

section \<open>Preloading\<close>

text \<open>The transactions of a block without the inputs of coinbases and without outputs that cannot be spent.\<close>

definition preload_vouts :: "block_env \<Rightarrow> BtcTx \<Rightarrow> PreloadVOut list" where
  "preload_vouts env tx =
     map (\<lambda>(n, vout). \<lparr>vo_outpoint = \<lparr>op_txid = bt_txid tx, op_vout = of_nat n\<rparr>,
         vo_cache_tx_out = \<lparr>uv_script_hash = ev_script_hash env (to_script_pubkey vout), uv_value = to_value vout\<rparr>\<rparr>)
       (filter (\<lambda>(n, vout). \<not> ev_is_op_return env (to_script_pubkey vout)) (enumerate 0 (bt_output tx)))"

definition preload_tx :: "block_env \<Rightarrow> BtcTx \<Rightarrow> PreloadTx" where
  "preload_tx env tx =
     \<lparr>pt_txid = bt_txid tx,
      pt_vin = (if bt_is_coinbase tx then []
        else map (\<lambda>outpoint. \<lparr>vi_outpoint = outpoint, vi_cache_tx_out = None, vi_need_flush = True\<rparr>) (bt_input tx)),
      pt_vout = preload_vouts env tx\<rparr>"

definition tx_registry_entries :: "block_env \<Rightarrow> BtcTx \<Rightarrow> ScriptRegistryEntry list" where
  "tx_registry_entries env tx =
     map (\<lambda>vout. \<lparr>rg_script_hash = ev_script_hash env (to_script_pubkey vout), rg_script_pubkey = to_script_pubkey vout\<rparr>)
       (filter (\<lambda>vout. \<not> ev_is_op_return env (to_script_pubkey vout)) (bt_output tx))"

definition insert_vout :: "u32 \<Rightarrow> PreloadVOut \<Rightarrow> (OutPoint \<times> VOutUtxoInfo) list \<Rightarrow> (OutPoint \<times> VOutUtxoInfo) list" where
  "insert_vout block_height vout =
     AList.update (vo_outpoint vout) \<lparr>vu_item = vo_cache_tx_out vout, vu_block_height = block_height, vu_spend = False\<rparr>"

definition preprocess_block :: "block_env \<Rightarrow> u32 \<Rightarrow> BtcBlock \<Rightarrow> BatchBlockData \<Rightarrow> PreloadBlock \<times> BatchBlockData" where
  "preprocess_block env block_height block data =
     (let preload_block = \<lparr>pb_height = block_height, pb_block_hash = bb_block_hash block,
            pb_txdata = map (preload_tx env) (bb_txdata block)\<rparr>
      in (preload_block,
          data\<lparr>bk_script_registry := bk_script_registry data @ concat (map (tx_registry_entries env) (bb_txdata block)),
            bk_vout_utxos := fold (insert_vout block_height) (concat (map pt_vout (pb_txdata preload_block))) (bk_vout_utxos data)\<rparr>))"

text \<open>One input: an output of the batch, then the cache, else left for the bulk load.\<close>

definition preload_vin ::
  "(OutPoint \<rightharpoonup> UTXOValue) \<Rightarrow> u32 \<Rightarrow> PreloadVIn \<Rightarrow> (OutPoint \<times> VOutUtxoInfo) list \<Rightarrow>
   (PreloadVIn \<times> (OutPoint \<times> VOutUtxoInfo) list) result" where
  "preload_vin utxo_cache block_height vin vout_utxos =
     (case map_of vout_utxos (vi_outpoint vin) of
        Some info \<Rightarrow>
          if vu_spend info then Inl (Panic ''Double spend of UTXO in the same batch'')
          else Inr (vin\<lparr>vi_cache_tx_out := Some (vu_item info), vi_need_flush := created_before block_height info\<rparr>,
                    AList.update (vi_outpoint vin) (info\<lparr>vu_spend := True\<rparr>) vout_utxos)
      | None \<Rightarrow>
          (case utxo_cache (vi_outpoint vin) of
             Some cache_tx_out \<Rightarrow> Inr (vin\<lparr>vi_cache_tx_out := Some cache_tx_out\<rparr>, vout_utxos)
           | None \<Rightarrow> Inr (vin, vout_utxos)))"

fun preload_vins ::
  "(OutPoint \<rightharpoonup> UTXOValue) \<Rightarrow> u32 \<Rightarrow> PreloadVIn list \<Rightarrow> (OutPoint \<times> VOutUtxoInfo) list \<Rightarrow>
   (PreloadVIn list \<times> (OutPoint \<times> VOutUtxoInfo) list) result" where
  "preload_vins utxo_cache block_height [] m = Inr ([], m)"
| "preload_vins utxo_cache block_height (vin # vins) m =
     (case preload_vin utxo_cache block_height vin m of
        Inl e \<Rightarrow> Inl e
      | Inr (vin', m') \<Rightarrow>
          (case preload_vins utxo_cache block_height vins m' of Inl e \<Rightarrow> Inl e | Inr (vins', m'') \<Rightarrow> Inr (vin' # vins', m'')))"

fun preload_txs ::
  "(OutPoint \<rightharpoonup> UTXOValue) \<Rightarrow> u32 \<Rightarrow> PreloadTx list \<Rightarrow> (OutPoint \<times> VOutUtxoInfo) list \<Rightarrow>
   (PreloadTx list \<times> (OutPoint \<times> VOutUtxoInfo) list) result" where
  "preload_txs utxo_cache block_height [] m = Inr ([], m)"
| "preload_txs utxo_cache block_height (tx # txs) m =
     (case preload_vins utxo_cache block_height (pt_vin tx) m of
        Inl e \<Rightarrow> Inl e
      | Inr (vins, m') \<Rightarrow>
          (case preload_txs utxo_cache block_height txs m' of Inl e \<Rightarrow> Inl e | Inr (txs', m'') \<Rightarrow> Inr (tx\<lparr>pt_vin := vins\<rparr> # txs', m'')))"

text \<open>The bulk load from the database, then from the node.\<close>

definition fetch_one :: "block_env \<Rightarrow> OutPoint \<Rightarrow> UTXOValue option \<Rightarrow> UTXOValue result" where
  "fetch_one env outpoint item =
     (case item of
        Some utxo \<Rightarrow> Inr utxo
      | None \<Rightarrow> (case ev_get_utxo env outpoint of
            Inl e \<Rightarrow> Inl e
          | Inr (script, amount) \<Rightarrow> Inr \<lparr>uv_script_hash = ev_script_hash env script, uv_value = amount\<rparr>))"

definition fetch_utxos :: "block_env \<Rightarrow> OutPoint list \<Rightarrow> BalanceHistoryDB \<Rightarrow> UTXOValue list result" where
  "fetch_utxos env outpoints db =
     (case get_utxos_bulk outpoints db of
        Inl e \<Rightarrow> Inl e
      | Inr all \<Rightarrow> mapR (\<lambda>(outpoint, item). fetch_one env outpoint item) (zip outpoints all))"

definition missing_vins :: "PreloadTx list \<Rightarrow> OutPoint list" where
  "missing_vins txs = concat (map (\<lambda>tx. map vi_outpoint (filter (\<lambda>vin. vi_cache_tx_out vin = None) (pt_vin tx))) txs)"

text \<open>Filling the loaded outputs in, position by position.\<close>

fun fill_vins :: "PreloadVIn list \<Rightarrow> UTXOValue list \<Rightarrow> PreloadVIn list \<times> UTXOValue list" where
  "fill_vins [] us = ([], us)"
| "fill_vins (vin # vins) us =
     (if vi_cache_tx_out vin \<noteq> None \<or> us = []
      then (let (vins', us') = fill_vins vins us in (vin # vins', us'))
      else (let (vins', us') = fill_vins vins (tl us) in (vin\<lparr>vi_cache_tx_out := Some (hd us)\<rparr> # vins', us')))"

fun fill_txs :: "PreloadTx list \<Rightarrow> UTXOValue list \<Rightarrow> PreloadTx list" where
  "fill_txs [] us = []"
| "fill_txs (tx # txs) us = (let (vins, us') = fill_vins (pt_vin tx) us in tx\<lparr>pt_vin := vins\<rparr> # fill_txs txs us')"

definition preload_utxos :: "block_env \<Rightarrow> bh_state \<Rightarrow> PreloadBlock \<Rightarrow> BatchBlockData \<Rightarrow> (PreloadBlock \<times> BatchBlockData) result" where
  "preload_utxos env s preload_block data =
     (case preload_txs (st_utxo_cache s) (pb_height preload_block) (pb_txdata preload_block) (bk_vout_utxos data) of
        Inl e \<Rightarrow> Inl e
      | Inr (txs, m) \<Rightarrow>
          let outpoints_to_load = missing_vins txs; data' = data\<lparr>bk_vout_utxos := m\<rparr> in
          if outpoints_to_load = [] then Inr (preload_block\<lparr>pb_txdata := txs\<rparr>, data')
          else (case fetch_utxos env outpoints_to_load (st_db s) of
              Inl e \<Rightarrow> Inl e
            | Inr loaded_utxos \<Rightarrow>
                if length loaded_utxos \<noteq> length outpoints_to_load then Inl (Panic ''Loaded UTXO count mismatch'')
                else Inr (preload_block\<lparr>pb_txdata := fill_txs txs loaded_utxos\<rparr>, data')))"

text \<open>The balances at the height before the batch, of every address the batch touches.\<close>

definition vin_utxo :: "PreloadVIn \<Rightarrow> UTXOValue result" where
  "vin_utxo vin =
     (case vi_cache_tx_out vin of None \<Rightarrow> Inl (Panic ''called Option::unwrap() on a None value'') | Some utxo \<Rightarrow> Inr utxo)"

definition tx_addresses :: "PreloadTx \<Rightarrow> USDBScriptHash list result" where
  "tx_addresses tx =
     (case mapR vin_utxo (pt_vin tx) of
        Inl e \<Rightarrow> Inl e
      | Inr utxos \<Rightarrow> Inr (map uv_script_hash utxos @ map (\<lambda>vout. uv_script_hash (vo_cache_tx_out vout)) (pt_vout tx)))"

definition load_balance :: "bh_state \<Rightarrow> u32 \<Rightarrow> USDBScriptHash \<Rightarrow> (USDBScriptHash \<times> BalanceHistoryData) result" where
  "load_balance s target_block_height script_hash =
     (case balance_cache_get script_hash target_block_height (st_balance_cache s) of
        Inl e \<Rightarrow> Inl e
      | Inr (Some cached) \<Rightarrow> Inr (script_hash, cached)
      | Inr None \<Rightarrow>
          (case get_balance_at_block_height script_hash target_block_height (st_db s) of
             Inl e \<Rightarrow> Inl e | Inr balance \<Rightarrow> Inr (script_hash, balance)))"

definition preload_balances :: "bh_state \<Rightarrow> u32 \<Rightarrow> BatchBlockData \<Rightarrow> BatchBlockData result" where
  "preload_balances s target_block_height data =
     (case mapR tx_addresses (concat (map pb_txdata (bk_blocks data))) of
        Inl e \<Rightarrow> Inl e
      | Inr addresses \<Rightarrow>
          let sorted_addresses = sort (remdups (concat addresses)) in
          (case mapR (load_balance s target_block_height) sorted_addresses of
             Inl e \<Rightarrow> Inl e
           | Inr balances \<Rightarrow> Inr (data\<lparr>bk_balances := balances\<rparr>)))"

definition range_heights :: "u32 \<Rightarrow> u32 \<Rightarrow> u32 list" where
  "range_heights a b = map of_nat [unat a..<unat b]"

definition load_block :: "block_env \<Rightarrow> u32 \<Rightarrow> (u32 \<times> BtcBlock) result" where
  "load_block env height =
     (case ev_get_block_by_height env height of Inl e \<Rightarrow> Inl e | Inr block \<Rightarrow> Inr (height, block))"

fun preprocess_blocks :: "block_env \<Rightarrow> (u32 \<times> BtcBlock) list \<Rightarrow> BatchBlockData \<Rightarrow> PreloadBlock list \<times> BatchBlockData" where
  "preprocess_blocks env [] data = ([], data)"
| "preprocess_blocks env ((height, block) # blocks) data =
     (let (b, data') = preprocess_block env height block data; (bs, data'') = preprocess_blocks env blocks data'
      in (b # bs, data''))"

fun preload_utxos_all :: "block_env \<Rightarrow> bh_state \<Rightarrow> PreloadBlock list \<Rightarrow> BatchBlockData \<Rightarrow> BatchBlockData result" where
  "preload_utxos_all env s [] data = Inr data"
| "preload_utxos_all env s (b # bs) data =
     (case preload_utxos env s b data of
        Inl e \<Rightarrow> Inl e
      | Inr (b', data') \<Rightarrow> preload_utxos_all env s bs (data'\<lparr>bk_blocks := bk_blocks data' @ [b']\<rparr>))"

definition preload :: "block_env \<Rightarrow> bh_state \<Rightarrow> u32 \<times> u32 \<Rightarrow> BatchBlockData result" where
  "preload env s block_height_range =
     (if \<not> fst block_height_range < snd block_height_range then Inl (Panic ''Invalid block height range'')
      else case mapR (load_block env) (range_heights (fst block_height_range) (snd block_height_range)) of
          Inl e \<Rightarrow> Inl e
        | Inr blocks \<Rightarrow>
            let (preprocessed_blocks, data) = preprocess_blocks env blocks (BatchBlockData_new block_height_range) in
            (case preload_utxos_all env s preprocessed_blocks data of
               Inl e \<Rightarrow> Inl e
             | Inr data' \<Rightarrow>
                 let data'' = data'\<lparr>bk_blocks := sort_key pb_height (bk_blocks data')\<rparr> in
                 if 0 < fst block_height_range then preload_balances s (fst block_height_range - 1) data'' else Inr data''))"

section \<open>Balance changes\<close>

text \<open>The change of every address in a block; the balance is set below.\<close>

definition add_delta :: "u32 \<Rightarrow> USDBScriptHash \<Rightarrow> i64 \<Rightarrow> (USDBScriptHash \<times> BalanceHistoryData) list \<Rightarrow>
  (USDBScriptHash \<times> BalanceHistoryData) list" where
  "add_delta block_height script_hash delta block_history =
     (case map_of block_history script_hash of
        None \<Rightarrow> AList.update script_hash \<lparr>hd_block_height = block_height, hd_delta = delta, hd_balance = 0\<rparr> block_history
      | Some entry \<Rightarrow> AList.update script_hash (entry\<lparr>hd_delta := hd_delta entry + delta\<rparr>) block_history)"

definition tx_history :: "u32 \<Rightarrow> PreloadTx \<Rightarrow> (USDBScriptHash \<times> BalanceHistoryData) list \<Rightarrow>
  (USDBScriptHash \<times> BalanceHistoryData) list result" where
  "tx_history block_height tx block_history =
     (case mapR vin_utxo (pt_vin tx) of
        Inl e \<Rightarrow> Inl e
      | Inr spent \<Rightarrow>
          Inr (fold (\<lambda>vout. add_delta block_height (uv_script_hash (vo_cache_tx_out vout)) (uv_value (vo_cache_tx_out vout)))
                 (pt_vout tx)
                 (fold (\<lambda>utxo. add_delta block_height (uv_script_hash utxo) (- uv_value utxo)) spent block_history)))"

fun txs_history :: "u32 \<Rightarrow> PreloadTx list \<Rightarrow> (USDBScriptHash \<times> BalanceHistoryData) list \<Rightarrow>
  (USDBScriptHash \<times> BalanceHistoryData) list result" where
  "txs_history block_height [] block_history = Inr block_history"
| "txs_history block_height (tx # txs) block_history =
     (case tx_history block_height tx block_history of Inl e \<Rightarrow> Inl e | Inr m \<Rightarrow> txs_history block_height txs m)"

definition block_history :: "PreloadBlock \<Rightarrow> (USDBScriptHash \<times> BalanceHistoryData) list result" where
  "block_history block = txs_history (pb_height block) (pb_txdata block) []"

text \<open>The balances, carried through the blocks in order.\<close>

fun settle_history :: "(USDBScriptHash \<times> BalanceHistoryData) list \<Rightarrow> (USDBScriptHash \<times> BalanceHistoryData) list \<Rightarrow>
  ((USDBScriptHash \<times> BalanceHistoryData) list \<times> (USDBScriptHash \<times> BalanceHistoryData) list) result" where
  "settle_history [] balances = Inr ([], balances)"
| "settle_history ((script_hash, history_entry) # rest) balances =
     (case map_of balances script_hash of
        None \<Rightarrow> Inl (Err ''Balance not found for address'')
      | Some balance_entry \<Rightarrow>
          if sint (hd_balance balance_entry + hd_delta history_entry) < 0 then Inl (Panic ''Insufficient balance'')
          else
            let entry = history_entry\<lparr>hd_balance := hd_balance balance_entry + hd_delta history_entry\<rparr> in
            (case settle_history rest (AList.update script_hash entry balances) of
               Inl e \<Rightarrow> Inl e | Inr (settled, balances') \<Rightarrow> Inr ((script_hash, entry) # settled, balances')))"

fun settle_blocks :: "(USDBScriptHash \<times> BalanceHistoryData) list list \<Rightarrow> (USDBScriptHash \<times> BalanceHistoryData) list \<Rightarrow>
  ((USDBScriptHash \<times> BalanceHistoryData) list list \<times> (USDBScriptHash \<times> BalanceHistoryData) list) result" where
  "settle_blocks [] balances = Inr ([], balances)"
| "settle_blocks (history # histories) balances =
     (case settle_history history balances of
        Inl e \<Rightarrow> Inl e
      | Inr (settled, balances') \<Rightarrow>
          (case settle_blocks histories balances' of Inl e \<Rightarrow> Inl e | Inr (rest, balances'') \<Rightarrow> Inr (settled # rest, balances'')))"

definition history_entries :: "(USDBScriptHash \<times> BalanceHistoryData) list \<Rightarrow> BalanceHistoryEntry list" where
  "history_entries history =
     sort_key bh_script_hash (map (\<lambda>(script_hash, d). \<lparr>bh_script_hash = script_hash, bh_block_height = hd_block_height d,
       bh_delta = hd_delta d, bh_balance = hd_balance d\<rparr>) history)"

definition process :: "BatchBlockData \<Rightarrow> BatchBlockData result" where
  "process data =
     (case mapR block_history (bk_blocks data) of
        Inl e \<Rightarrow> Inl e
      | Inr histories \<Rightarrow>
          (case settle_blocks histories (bk_balances data) of
             Inl e \<Rightarrow> Inl e
           | Inr (settled, balances) \<Rightarrow>
               if bk_balance_history data \<noteq> [] then Inl (Panic ''Balance history vector is not empty before flushing'')
               else if bk_block_balance_deltas data \<noteq> [] then Inl (Panic ''Block balance delta vector is not empty before flushing'')
               else
                 let entries = map history_entries settled in
                 Inr (data\<lparr>bk_balances := balances,
                   bk_balance_history := sort_key (\<lambda>e. (bh_script_hash e, bh_block_height e)) (concat entries),
                   bk_block_balance_deltas := map (\<lambda>(b, es). \<lparr>bl_block_height = pb_height b, bl_block_hash = pb_block_hash b,
                     bl_entries = es\<rparr>) (zip (bk_blocks data) entries)\<rparr>)))"

section \<open>Flushing\<close>

definition collect_utxo_updates :: "BatchBlockData \<Rightarrow> (OutPoint \<times> UTXOValue) list \<times> OutPoint list" where
  "collect_utxo_updates data =
     (sort_key (\<lambda>u. make_utxo_key (fst u))
        (map (\<lambda>(outpoint, info). (outpoint, vu_item info)) (filter (\<lambda>(outpoint, info). \<not> vu_spend info) (bk_vout_utxos data))),
      sort_key make_utxo_key (concat (map (\<lambda>block. concat (map (\<lambda>tx. map vi_outpoint (filter vi_need_flush (pt_vin tx)))
        (pb_txdata block))) (bk_blocks data))))"

definition collect_balance_updates :: "block_env \<Rightarrow> BalanceHistoryDB \<Rightarrow> BatchBlockData \<Rightarrow>
  (BalanceHistoryEntry list \<times> BlockCommitEntry list \<times> u32) result" where
  "collect_balance_updates env db data =
     (let previous_height = (if fst (bk_block_range data) = 0 then None else Some (fst (bk_block_range data) - 1)) in
      case (case previous_height of Some height \<Rightarrow> get_block_commit height db | None \<Rightarrow> Inr None) of
        Inl e \<Rightarrow> Inl e
      | Inr previous_commit_entry \<Rightarrow>
          (case resolve_previous_commit previous_height previous_commit_entry of
             Inl e \<Rightarrow> Inl e
           | Inr previous_commit \<Rightarrow>
               Inr (bk_balance_history data,
                 build_block_commits (ev_sha256 env) (bk_block_balance_deltas data) previous_commit,
                 snd (bk_block_range data) - 1)))"

fun dedup_registry :: "ScriptRegistryEntry list \<Rightarrow> ScriptRegistryEntry list \<Rightarrow> ScriptRegistryEntry list result" where
  "dedup_registry deduped [] = Inr deduped"
| "dedup_registry deduped (entry # entries) =
     (if deduped \<noteq> [] \<and> rg_script_hash (last deduped) = rg_script_hash entry then
        if rg_script_pubkey (last deduped) \<noteq> rg_script_pubkey entry then Inl (Err ''Conflicting script registry entries'')
        else dedup_registry deduped entries
      else dedup_registry (deduped @ [entry]) entries)"

definition collect_script_registry_updates :: "BatchBlockData \<Rightarrow> ScriptRegistryEntry list result" where
  "collect_script_registry_updates data = dedup_registry [] (sort_key rg_script_hash (bk_script_registry data))"

definition created_entries :: "PreloadBlock \<Rightarrow> BlockUndoUtxoEntry list" where
  "created_entries block =
     concat (map (\<lambda>tx. map (\<lambda>vout. \<lparr>uu_outpoint = vo_outpoint vout, uu_script_hash = uv_script_hash (vo_cache_tx_out vout),
       uu_value = uv_value (vo_cache_tx_out vout)\<rparr>) (pt_vout tx)) (pb_txdata block))"

definition spent_entry :: "PreloadVIn \<Rightarrow> BlockUndoUtxoEntry result" where
  "spent_entry vin =
     (case vi_cache_tx_out vin of
        None \<Rightarrow> Inl (Err ''Missing cached spent UTXO when collecting undo bundle'')
      | Some spent \<Rightarrow> Inr \<lparr>uu_outpoint = vi_outpoint vin, uu_script_hash = uv_script_hash spent, uu_value = uv_value spent\<rparr>)"

definition block_undo_bundle :: "(u32 \<rightharpoonup> USDBScriptHash list) \<Rightarrow> PreloadBlock \<Rightarrow> BlockUndoBundle result" where
  "block_undo_bundle touched_by_height block =
     (case mapR spent_entry (filter vi_need_flush (concat (map pt_vin (pb_txdata block)))) of
        Inl e \<Rightarrow> Inl e
      | Inr spent_utxos \<Rightarrow>
          Inr \<lparr>ub_block_height = pb_height block, ub_btc_block_hash = pb_block_hash block,
            ub_created_utxos = created_entries block, ub_spent_utxos = spent_utxos,
            ub_touched_script_hashes = sort (remdups (map uu_script_hash (created_entries block) @ map uu_script_hash spent_utxos @
              (case touched_by_height (pb_height block) of None \<Rightarrow> [] | Some entries \<Rightarrow> entries)))\<rparr>)"

definition collect_undo_bundles :: "u32 \<Rightarrow> u32 \<Rightarrow> BatchBlockData \<Rightarrow> BlockUndoBundle list result" where
  "collect_undo_bundles latest_btc_height undo_retention_blocks data =
     (if \<not> should_persist_any_undo_for_range (bk_block_range data) latest_btc_height undo_retention_blocks then Inr []
      else
        let touched_by_height = map_of (rev (map (\<lambda>b. (bl_block_height b, map bh_script_hash (bl_entries b)))
              (bk_block_balance_deltas data))) in
        mapR (block_undo_bundle touched_by_height)
          (filter (\<lambda>b. should_persist_undo_for_block (pb_height b) latest_btc_height undo_retention_blocks) (bk_blocks data)))"

definition apply_cache_updates ::
  "block_env \<Rightarrow> BatchBlockData \<Rightarrow> (OutPoint \<times> UTXOValue) list \<Rightarrow> OutPoint list \<Rightarrow> bh_state \<Rightarrow> bh_state" where
  "apply_cache_updates env data new_utxos spent_utxos s =
     s\<lparr>st_utxo_cache := fold (\<lambda>outpoint c. snd (utxo_cache_spend outpoint c)) spent_utxos
         (fold (\<lambda>(outpoint, utxo). utxo_cache_put env outpoint utxo) new_utxos (st_utxo_cache s)),
       st_balance_cache := fold (\<lambda>(script_hash, d). balance_cache_put env script_hash d) (bk_balances data) (st_balance_cache s)\<rparr>"

definition flush :: "block_env \<Rightarrow> u32 \<Rightarrow> u32 \<Rightarrow> BatchBlockData \<Rightarrow> (bh_state, unit) op" where
  "flush env latest_btc_height undo_retention_blocks data =
     (let (new_utxos, spent_utxos) = collect_utxo_updates data in
      bindR (getsR (\<lambda>s. collect_balance_updates env (st_db s) data)) (\<lambda>(balance_entries, block_commits, last_block_height).
      bindR (getsR (\<lambda>_. collect_script_registry_updates data)) (\<lambda>script_registry_entries.
      bindR (getsR (\<lambda>_. collect_undo_bundles latest_btc_height undo_retention_blocks data)) (\<lambda>undo_bundles.
      bindR (zoom st_db (\<lambda>db. st_db_update (\<lambda>_. db)) (update_block_state_batch_async
        \<lparr>su_new_utxos = new_utxos, su_remove_utxos = spent_utxos, su_entries_list = balance_entries,
         su_block_height = last_block_height, su_block_commits = block_commits,
         su_script_registry_entries = script_registry_entries, su_undo_bundles = undo_bundles\<rparr>)) (\<lambda>_.
      modify (apply_cache_updates env data new_utxos spent_utxos))))))"

definition process_blocks :: "block_env \<Rightarrow> u32 \<times> u32 \<Rightarrow> u32 \<Rightarrow> u32 \<Rightarrow> (bh_state, unit) op" where
  "process_blocks env block_height_range latest_btc_height undo_retention_blocks =
     bindR (getsR (\<lambda>s. preload env s block_height_range)) (\<lambda>data.
     bindR (getsR (\<lambda>_. process data)) (\<lambda>data'.
     flush env latest_btc_height undo_retention_blocks data'))"

end
