(* ===== verification/Balance_Indexer.thy ===== *)
theory Balance_Indexer
  imports Balance_Block
begin

text \<open>
  \<open>balance-history/src/index/indexer.rs\<close>: one iteration of the synchronisation loop.  A pending rollback is resumed,
  a reorganisation of the chain is detected by comparing block hashes and rolled back to the common ancestor, and the
  new blocks are processed in batches, after each of which the undo journal is pruned.

  What is polled from outside is an argument: the tip of the node when an iteration starts and after each batch, and
  the shutdown signal after each batch.  Messages and progress bars are left out; the heights and the flag of a
  rollback in progress, which the service reports, are kept.
\<close>

section \<open>Configuration and state\<close>

definition BALANCE_HISTORY_STABLE_LAG :: u32 where
  "BALANCE_HISTORY_STABLE_LAG = 0"

record IndexConfig =
  sc_batch_size :: u64
  sc_max_sync_block_height :: u32
  sc_undo_retention_blocks :: u32
  sc_undo_cleanup_interval_blocks :: u32

record indexer_inputs =
  ii_env :: block_env
  ii_tip :: "u32 result"
  ii_tip_after :: "u32 \<Rightarrow> u32 result"
  ii_shutdown_after :: "u32 \<Rightarrow> bool"

record BalanceHistoryIndexer =
  bi_state :: bh_state
  bi_rollback_in_progress :: bool
  bi_index_started :: bool
  bi_current :: u64
  bi_total :: u64

definition on_db_of :: "(BalanceHistoryDB, 'a) op \<Rightarrow> (BalanceHistoryIndexer, 'a) op" where
  "on_db_of = zoom (\<lambda>s. st_db (bi_state s)) (\<lambda>db s. s\<lparr>bi_state := (bi_state s)\<lparr>st_db := db\<rparr>\<rparr>)"

definition set_rollback_in_progress :: "bool \<Rightarrow> BalanceHistoryIndexer \<Rightarrow> BalanceHistoryIndexer" where
  "set_rollback_in_progress b s = s\<lparr>bi_rollback_in_progress := b\<rparr>"

definition clear_caches :: "BalanceHistoryIndexer \<Rightarrow> BalanceHistoryIndexer" where
  "clear_caches s = s\<lparr>bi_state := (bi_state s)\<lparr>st_utxo_cache := Map.empty, st_balance_cache := Map.empty\<rparr>\<rparr>"

definition update_current_height :: "u64 \<Rightarrow> BalanceHistoryIndexer \<Rightarrow> BalanceHistoryIndexer" where
  "update_current_height h s = s\<lparr>bi_current := h\<rparr>"

definition update_total_block_height :: "u64 \<Rightarrow> BalanceHistoryIndexer \<Rightarrow> BalanceHistoryIndexer" where
  "update_total_block_height h s = s\<lparr>bi_total := h\<rparr>"

definition start_index :: "u64 \<Rightarrow> u64 \<Rightarrow> BalanceHistoryIndexer \<Rightarrow> BalanceHistoryIndexer" where
  "start_index total_height current_height s = s\<lparr>bi_index_started := True, bi_total := total_height, bi_current := current_height\<rparr>"

section \<open>Heights of the chain\<close>

definition compute_stable_sync_target_height :: "u32 \<Rightarrow> u32 \<Rightarrow> u32 \<Rightarrow> u32" where
  "compute_stable_sync_target_height rpc_tip_height max_sync_block_height stable_lag =
     min max_sync_block_height (sat_sub rpc_tip_height stable_lag)"

definition get_latest_block_height :: "IndexConfig \<Rightarrow> u32 result \<Rightarrow> u32 result" where
  "get_latest_block_height config tip =
     (case tip of
        Inl e \<Rightarrow> Inl e
      | Inr rpc_latest_block_height \<Rightarrow>
          Inr (compute_stable_sync_target_height rpc_latest_block_height (sc_max_sync_block_height config) BALANCE_HISTORY_STABLE_LAG))"

text \<open>The comparison of a height with the chain of the node.\<close>

definition commit_matches :: "string \<Rightarrow> block_env \<Rightarrow> BalanceHistoryDB \<Rightarrow> u32 \<Rightarrow> bool result" where
  "commit_matches missing env db height =
     (case get_block_commit height db of
        Inl e \<Rightarrow> Inl e
      | Inr None \<Rightarrow> Inl (Err missing)
      | Inr (Some commit) \<Rightarrow>
          (case ev_get_block_hash env height of
             Inl e \<Rightarrow> Inl e | Inr canonical_hash \<Rightarrow> Inr (ce_btc_block_hash commit = canonical_hash)))"

fun ancestor_search :: "block_env \<Rightarrow> BalanceHistoryDB \<Rightarrow> u32 list \<Rightarrow> u32 result" where
  "ancestor_search env db [] = Inr 0"
| "ancestor_search env db (height # heights) =
     (case commit_matches ''Missing local block commit while searching reorg common ancestor'' env db height of
        Inl e \<Rightarrow> Inl e
      | Inr matches \<Rightarrow> if matches then Inr height else ancestor_search env db heights)"

definition find_reorg_common_ancestor_height :: "block_env \<Rightarrow> BalanceHistoryDB \<Rightarrow> u32 \<Rightarrow> u32 \<Rightarrow> u32 option result" where
  "find_reorg_common_ancestor_height env db current_height latest_btc_height =
     (if current_height = 0 then Inr None
      else
        case (if current_height \<le> latest_btc_height
              then commit_matches ''Missing local block commit at synced height while checking for reorg'' env db current_height
              else Inr False) of
          Inl e \<Rightarrow> Inl e
        | Inr tip_matches \<Rightarrow>
            if tip_matches then Inr None
            else (case ancestor_search env db (rev (map of_nat [1..<Suc (unat (min current_height latest_btc_height))])) of
                Inl e \<Rightarrow> Inl e | Inr height \<Rightarrow> Inr (Some height)))"

definition should_wake_for_chain_update :: "block_env \<Rightarrow> BalanceHistoryDB \<Rightarrow> u32 \<Rightarrow> u32 \<Rightarrow> bool result" where
  "should_wake_for_chain_update env db last_height latest_height =
     (if latest_height \<noteq> last_height \<or> last_height = 0 then Inr (latest_height \<noteq> last_height)
      else
        case commit_matches ''Missing local block commit at synced height while waiting for chain updates'' env db last_height of
          Inl e \<Rightarrow> Inl e | Inr matches \<Rightarrow> Inr (\<not> matches))"

text \<open>The waiting loop, over the tips and shutdown signals it polls; \<open>None\<close> when they do not end it.\<close>

fun wait_for_new_blocks :: "IndexConfig \<Rightarrow> block_env \<Rightarrow> BalanceHistoryDB \<Rightarrow> u32 \<Rightarrow> (u32 result \<times> bool) list \<Rightarrow> u32 result option" where
  "wait_for_new_blocks config env db last_height [] = None"
| "wait_for_new_blocks config env db last_height ((tip, shutdown) # polls) =
     (case get_latest_block_height config tip of
        Inl e \<Rightarrow> Some (Inl e)
      | Inr latest_height \<Rightarrow>
          (case should_wake_for_chain_update env db last_height latest_height of
             Inl e \<Rightarrow> Some (Inl e)
           | Inr wake \<Rightarrow>
               if wake then Some (Inr latest_height)
               else if shutdown then Some (Inr last_height)
               else wait_for_new_blocks config env db last_height polls))"

section \<open>Rollbacks\<close>

definition resume_pending_rollback_if_needed :: "(BalanceHistoryIndexer, bool) op" where
  "resume_pending_rollback_if_needed =
     bindR (on_db_of (getsR is_rollback_in_progress)) (\<lambda>in_progress.
     bindR (modify (\<lambda>s. if in_progress then set_rollback_in_progress True s else s)) (\<lambda>_.
     bindR (on_db_of resume_rollback_if_needed) (\<lambda>resumed.
     bindR (modify (set_rollback_in_progress False)) (\<lambda>_.
     bindR (modify (\<lambda>s. if resumed then clear_caches s else s)) (\<lambda>_.
     ret resumed)))))"

definition reconcile_reorg_if_needed :: "block_env \<Rightarrow> u32 \<Rightarrow> u32 \<Rightarrow> (BalanceHistoryIndexer, u32) op" where
  "reconcile_reorg_if_needed env current_height latest_btc_height =
     bindR (on_db_of (getsR (\<lambda>db. find_reorg_common_ancestor_height env db current_height latest_btc_height))) (\<lambda>ancestor.
     case ancestor of
       None \<Rightarrow> ret current_height
     | Some ancestor_height \<Rightarrow>
         bindR (modify (set_rollback_in_progress True)) (\<lambda>_.
         bindR (on_db_of (rollback_to_block_height ancestor_height)) (\<lambda>_.
         bindR (modify (set_rollback_in_progress False)) (\<lambda>_.
         bindR (modify clear_caches) (\<lambda>_.
         ret ancestor_height)))))"

section \<open>Processing blocks\<close>

definition prune_undo_journal_if_needed :: "indexer_inputs \<Rightarrow> IndexConfig \<Rightarrow> u32 \<Rightarrow> u32 \<Rightarrow> (BalanceHistoryIndexer, unit) op" where
  "prune_undo_journal_if_needed inp config batch_start_height last_height =
     (let retention_blocks = sc_undo_retention_blocks config; cleanup_interval_blocks = sc_undo_cleanup_interval_blocks config in
      if retention_blocks = 0 \<or> cleanup_interval_blocks = 0 then ret ()
      else if last_height div cleanup_interval_blocks = sat_sub batch_start_height 1 div cleanup_interval_blocks then ret ()
      else
        bindR (getsR (\<lambda>_. get_latest_block_height config (ii_tip_after inp last_height))) (\<lambda>latest_btc_height.
        if last_height < sat_sub latest_btc_height (sat_sub retention_blocks 1) then ret ()
        else
          bindR (on_db_of (prune_undo_before_height (sat_sub last_height (sat_sub retention_blocks 1)))) (\<lambda>_. ret ())))"

definition process_block_batch :: "indexer_inputs \<Rightarrow> IndexConfig \<Rightarrow> u32 \<times> u32 \<Rightarrow> u32 \<Rightarrow> (BalanceHistoryIndexer, u32) op" where
  "process_block_batch inp config height_range latest_btc_height =
     bindR (guardR (fst height_range < snd height_range) (Panic ''Height range should not be empty'')) (\<lambda>_.
     bindR (zoom bi_state (\<lambda>b s. s\<lparr>bi_state := b\<rparr>)
       (process_blocks (ii_env inp) height_range latest_btc_height (sc_undo_retention_blocks config))) (\<lambda>_.
     bindR (prune_undo_journal_if_needed inp config (fst height_range) (snd height_range - 1)) (\<lambda>_.
     bindR (modify (update_current_height (ucast (snd height_range - 1)))) (\<lambda>_.
     ret (snd height_range - 1)))))"

lemma process_block_batch_result:
  "process_block_batch inp config r latest s = (Inr h, s') \<Longrightarrow> h = snd r - 1 \<and> fst r < snd r"
  by (auto simp: process_block_batch_def bindR_Inr_eq guardR_def ret_def fail_def split: if_splits)

lemma batch_progress:
  assumes "process_block_batch inp config (current, end_height + 1) latest s = (Inr last_height, s')"
  shows "2 ^ 32 - unat (last_height + 1) < 2 ^ 32 - unat current"
proof -
  have "last_height + 1 = end_height + 1" "current < end_height + 1" using process_block_batch_result [OF assms] by auto
  then have "unat current < unat (last_height + 1)" by (simp add: word_less_nat_alt)
  moreover have "unat (last_height + 1) < 2 ^ 32" using unat_less_2p [of "last_height + 1"] by simp
  ultimately show ?thesis by linarith
qed

text \<open>The loop over the batches: the height it reaches, plus one.\<close>

function sync_batches :: "indexer_inputs \<Rightarrow> IndexConfig \<Rightarrow> u32 \<Rightarrow> u32 \<Rightarrow> BalanceHistoryIndexer \<Rightarrow> u32 result \<times> BalanceHistoryIndexer" where
  "sync_batches inp config latest_btc_height current_height s =
     (if \<not> current_height \<le> latest_btc_height then (Inr current_height, s)
      else
        let end_height = min (current_height + ucast (sc_batch_size config) - 1) latest_btc_height in
        (case process_block_batch inp config (current_height, end_height + 1) latest_btc_height s of
           (Inl e, s') \<Rightarrow> (Inl e, s')
         | (Inr last_height, s') \<Rightarrow>
             if ii_shutdown_after inp last_height then (Inr (last_height + 1), s')
             else sync_batches inp config latest_btc_height (last_height + 1) s'))"
  by pat_completeness auto

termination
  apply (relation "measure (\<lambda>(inp, config, latest, current, s). 2 ^ 32 - unat current)")
   apply (rule wf_measure)
  apply (simp only: in_measure case_prod_conv)
  apply (rule batch_progress, rule sym, assumption)
  done

declare sync_batches.simps [simp del]

definition sync_once :: "indexer_inputs \<Rightarrow> IndexConfig \<Rightarrow> (BalanceHistoryIndexer, u32) op" where
  "sync_once inp config =
     bindR resume_pending_rollback_if_needed (\<lambda>_.
     bindR (getsR (\<lambda>_. get_latest_block_height config (ii_tip inp))) (\<lambda>latest_btc_height.
     bindR (on_db_of (getsR get_btc_block_height)) (\<lambda>height.
     bindR (reconcile_reorg_if_needed (ii_env inp) height latest_btc_height) (\<lambda>last_synced_height.
     bindR (modify (\<lambda>s. if \<not> bi_index_started s then start_index (ucast latest_btc_height) (ucast last_synced_height) s
         else update_current_height (ucast last_synced_height) (update_total_block_height (ucast latest_btc_height) s))) (\<lambda>_.
     if latest_btc_height \<le> last_synced_height then ret last_synced_height
     else
       bindR (sync_batches inp config latest_btc_height (last_synced_height + 1)) (\<lambda>current_height.
       ret (current_height - 1)))))))"

end
