(* ===== verification/Pass_Content.thy ===== *)
theory Pass_Content
  imports Usdb_Types
begin

text \<open>
  \<open>usdb-indexer/src/index/content.rs\<close>: the pass states, the USDB mint payload and the classifier
  that turns inscription content into a valid mint, an invalid mint with its error code, or
  something that is not a USDB mint.  The JSON parser and the parser of inscription ids are
  parameters.
\<close>

section \<open>Pass states\<close>

datatype MinerPassState = Active | Dormant | Consumed | Burned | Invalid

fun MinerPassState_as_str :: "MinerPassState \<Rightarrow> string" where
  "MinerPassState_as_str Active = ''active''"
| "MinerPassState_as_str Dormant = ''dormant''"
| "MinerPassState_as_str Consumed = ''consumed''"
| "MinerPassState_as_str Burned = ''burned''"
| "MinerPassState_as_str Invalid = ''invalid''"

fun MinerPassState_as_int :: "MinerPassState \<Rightarrow> u32" where
  "MinerPassState_as_int Active = 0"
| "MinerPassState_as_int Dormant = 1"
| "MinerPassState_as_int Consumed = 2"
| "MinerPassState_as_int Burned = 3"
| "MinerPassState_as_int Invalid = 4"

text \<open>
  \<open>to_lowercase\<close> on the byte string; a non-ASCII character never lowercases into one of the words
  compared below.
\<close>

definition ascii_lower :: "char \<Rightarrow> char" where
  "ascii_lower c =
     (if 65 \<le> (of_char c :: nat) \<and> (of_char c :: nat) \<le> 90
      then char_of ((of_char c :: nat) + 32) else c)"

definition to_lowercase :: "string \<Rightarrow> string" where
  "to_lowercase s = map ascii_lower s"

definition MinerPassState_from_str :: "string \<Rightarrow> MinerPassState result" where
  "MinerPassState_from_str s =
     (let l = to_lowercase s in
      if l = ''active'' then Inr Active
      else if l = ''dormant'' then Inr Dormant
      else if l = ''consumed'' then Inr Consumed
      else if l = ''burned'' then Inr Burned
      else if l = ''invalid'' then Inr Invalid
      else Inl (Err ''Invalid MinerPassState string''))"

definition MinerPassState_try_from :: "u32 \<Rightarrow> MinerPassState result" where
  "MinerPassState_try_from val =
     (if val = 0 then Inr Active
      else if val = 1 then Inr Dormant
      else if val = 2 then Inr Consumed
      else if val = 3 then Inr Burned
      else if val = 4 then Inr Invalid
      else Inl (Err ''Invalid MinerPassState integer''))"

lemma MinerPassState_from_as_str: "MinerPassState_from_str (MinerPassState_as_str st) = Inr st"
  by (cases st)
    (simp_all add: MinerPassState_from_str_def to_lowercase_def ascii_lower_def Let_def)

lemma MinerPassState_try_from_as_int: "MinerPassState_try_from (MinerPassState_as_int st) = Inr st"
  by (cases st) (simp_all add: MinerPassState_try_from_def)

lemma MinerPassState_as_str_inj: "MinerPassState_as_str a = MinerPassState_as_str b \<longleftrightarrow> a = b"
  by (cases a; cases b) simp_all

section \<open>Mint payloads\<close>

datatype MintValidationErrorCode =
  InvalidSchema | InvalidEthMain | InvalidEthCollab | InvalidPrevId | AmbiguousRevealInput

fun MintValidationErrorCode_as_str :: "MintValidationErrorCode \<Rightarrow> string" where
  "MintValidationErrorCode_as_str InvalidSchema = ''INVALID_SCHEMA''"
| "MintValidationErrorCode_as_str InvalidEthMain = ''INVALID_ETH_MAIN''"
| "MintValidationErrorCode_as_str InvalidEthCollab = ''INVALID_ETH_COLLAB''"
| "MintValidationErrorCode_as_str InvalidPrevId = ''INVALID_PREV_ID''"
| "MintValidationErrorCode_as_str AmbiguousRevealInput = ''AMBIGUOUS_REVEAL_INPUT''"

text \<open>A parsed JSON document; an object keeps its members in order.\<close>

datatype json =
  JNull | JBool bool | JNumber string | JString string | JArray "json list"
  | JObject "(string \<times> json) list"

record USDBMint =
  um_eth_main :: string
  um_eth_collab :: "string option"
  um_prev :: "string list"

text \<open>The only kind of USDB inscription is a mint.\<close>

datatype USDBInscription = Mint USDBMint

text \<open>The reason text of a validation error carries no information beyond its code.\<close>

datatype ParsedMintContent = NotUsdbMint | Valid USDBInscription | InvalidContent MintValidationErrorCode

definition VALID_CONTENT_TYPES :: "string list" where
  "VALID_CONTENT_TYPES =
     [''text/plain;charset=utf-8'', ''text/plain'' @ [CHR 0x27], ''application/json'']"

definition is_supported_content_type :: "string option \<Rightarrow> bool" where
  "is_supported_content_type content_type =
     (case content_type of None \<Rightarrow> True
      | Some ct \<Rightarrow> to_lowercase ct \<in> set VALID_CONTENT_TYPES)"

definition is_ascii_hexdigit :: "char \<Rightarrow> bool" where
  "is_ascii_hexdigit c \<longleftrightarrow> c \<in> set ''0123456789abcdefABCDEF''"

definition is_valid_eth_address :: "string \<Rightarrow> bool" where
  "is_valid_eth_address val \<longleftrightarrow>
     length val = 42 \<and> take 2 val = ''0x'' \<and> list_all is_ascii_hexdigit (drop 2 val)"

fun json_str :: "json \<Rightarrow> string option" where
  "json_str (JString s) = Some s"
| "json_str _ = None"

text \<open>The derived \<open>Deserialize\<close> of \<open>USDBMint\<close>: \<open>eth_main\<close> and \<open>prev\<close> are required,
  \<open>eth_collab\<close> may be absent or null, other members are ignored.\<close>

fun json_str_list :: "json list \<Rightarrow> string list option" where
  "json_str_list [] = Some []"
| "json_str_list (v # vs) =
     (case json_str v of None \<Rightarrow> None | Some s \<Rightarrow> map_option ((#) s) (json_str_list vs))"

definition mint_eth_collab :: "json option \<Rightarrow> string option option" where
  "mint_eth_collab v =
     (case v of None \<Rightarrow> Some None | Some JNull \<Rightarrow> Some None
      | Some (JString s) \<Rightarrow> Some (Some s) | _ \<Rightarrow> None)"

definition USDBMint_from_value :: "(string \<times> json) list \<Rightarrow> USDBMint option" where
  "USDBMint_from_value obj =
     (case Option.bind (map_of obj ''eth_main'') json_str of None \<Rightarrow> None
      | Some main \<Rightarrow>
        (case mint_eth_collab (map_of obj ''eth_collab'') of None \<Rightarrow> None
         | Some collab \<Rightarrow>
           (case map_of obj ''prev'' of
              Some (JArray vs) \<Rightarrow>
                map_option (\<lambda>ps. \<lparr>um_eth_main = main, um_eth_collab = collab, um_prev = ps\<rparr>)
                  (json_str_list vs)
            | _ \<Rightarrow> None)))"

fun prev_ids :: "(string \<Rightarrow> 'id option) \<Rightarrow> string list \<Rightarrow> 'id list result" where
  "prev_ids parse_id [] = Inr []"
| "prev_ids parse_id (p # ps) =
     (case parse_id p of
        None \<Rightarrow> Inl (Err ''Failed to parse prev inscription id'')
      | Some i \<Rightarrow> (case prev_ids parse_id ps of Inl e \<Rightarrow> Inl e | Inr is \<Rightarrow> Inr (i # is)))"

definition prev_inscription_ids ::
  "(string \<Rightarrow> InscriptionId option) \<Rightarrow> USDBMint \<Rightarrow> InscriptionId list result" where
  "prev_inscription_ids parse_id m = prev_ids parse_id (um_prev m)"

definition classify_mint_content ::
  "(string \<Rightarrow> InscriptionId option) \<Rightarrow> json \<Rightarrow> ParsedMintContent" where
  "classify_mint_content parse_id content =
     (case content of
        JObject obj \<Rightarrow>
          if Option.bind (map_of obj ''p'') json_str \<noteq> Some ''usdb'' then NotUsdbMint
          else if Option.bind (map_of obj ''op'') json_str \<noteq> Some ''mint'' then NotUsdbMint
          else
            (case USDBMint_from_value obj of
               None \<Rightarrow> InvalidContent InvalidSchema
             | Some m \<Rightarrow>
                 if \<not> is_valid_eth_address (um_eth_main m) then InvalidContent InvalidEthMain
                 else if (case um_eth_collab m of None \<Rightarrow> False
                          | Some c \<Rightarrow> \<not> is_valid_eth_address c)
                 then InvalidContent InvalidEthCollab
                 else (case prev_inscription_ids parse_id m of
                         Inl e \<Rightarrow> InvalidContent InvalidPrevId
                       | Inr is \<Rightarrow> Valid (Mint m)))
      | _ \<Rightarrow> NotUsdbMint)"

definition classify_mint_content_str ::
  "(string \<Rightarrow> json option) \<Rightarrow> (string \<Rightarrow> InscriptionId option) \<Rightarrow> string \<Rightarrow> ParsedMintContent" where
  "classify_mint_content_str parse_json parse_id content =
     (case parse_json content of None \<Rightarrow> NotUsdbMint
      | Some v \<Rightarrow> classify_mint_content parse_id v)"

definition parse_content :: "(string \<Rightarrow> InscriptionId option) \<Rightarrow> json \<Rightarrow> USDBInscription option" where
  "parse_content parse_id content =
     (case classify_mint_content parse_id content of Valid v \<Rightarrow> Some v | _ \<Rightarrow> None)"

definition parse_content_str ::
  "(string \<Rightarrow> json option) \<Rightarrow> (string \<Rightarrow> InscriptionId option) \<Rightarrow> string \<Rightarrow> USDBInscription option" where
  "parse_content_str parse_json parse_id content =
     (case classify_mint_content_str parse_json parse_id content of Valid v \<Rightarrow> Some v | _ \<Rightarrow> None)"

section \<open>What a valid mint guarantees\<close>

lemma prev_ids_Inr_iff: "(\<exists>is. prev_ids parse_id ps = Inr is) \<longleftrightarrow> (\<forall>p \<in> set ps. parse_id p \<noteq> None)"
  by (induction ps) (auto split: option.splits sum.splits)

lemma prev_ids_Inr: "prev_ids parse_id ps = Inr is \<Longrightarrow> map parse_id ps = map Some is"
  by (induction ps arbitrary: "is") (auto split: option.splits sum.splits)

lemma classify_valid_iff:
  "classify_mint_content parse_id content = Valid (Mint m) \<longleftrightarrow>
    (\<exists>obj. content = JObject obj \<and>
      map_of obj ''p'' = Some (JString ''usdb'') \<and> map_of obj ''op'' = Some (JString ''mint'') \<and>
      USDBMint_from_value obj = Some m \<and>
      is_valid_eth_address (um_eth_main m) \<and>
      (\<forall>c. um_eth_collab m = Some c \<longrightarrow> is_valid_eth_address c) \<and>
      (\<forall>p \<in> set (um_prev m). parse_id p \<noteq> None))"
proof -
  have js: "json_str v = Some s \<longleftrightarrow> v = JString s" for v s by (cases v) auto
  have b: "Option.bind v json_str = Some s \<longleftrightarrow> v = Some (JString s)" for v s
    by (cases v) (auto simp: js)
  have p: "(\<forall>p \<in> set (um_prev m). parse_id p \<noteq> None) \<longleftrightarrow>
      (\<exists>is. prev_inscription_ids parse_id m = Inr is)" for m
    by (simp add: prev_inscription_ids_def prev_ids_Inr_iff)
  show ?thesis unfolding p
    by (auto simp: classify_mint_content_def b
        split: json.splits option.splits sum.splits if_splits)
qed

lemma parse_content_Some_iff:
  "parse_content parse_id content = Some v \<longleftrightarrow> classify_mint_content parse_id content = Valid v"
  by (auto simp: parse_content_def split: ParsedMintContent.splits)

lemma parse_content_str_Some_iff:
  "parse_content_str parse_json parse_id content = Some v \<longleftrightarrow>
    classify_mint_content_str parse_json parse_id content = Valid v"
  by (auto simp: parse_content_str_def split: ParsedMintContent.splits)

text \<open>The middle entry of the table carries a trailing apostrophe, so a bare \<open>text/plain\<close> is not
  supported.\<close>

lemma text_plain_unsupported: "\<not> is_supported_content_type (Some ''text/plain'')"
  by (simp add: is_supported_content_type_def VALID_CONTENT_TYPES_def to_lowercase_def
      ascii_lower_def)

end
