(* ===== verification/Sql_Table.thy ===== *)
theory Sql_Table
  imports Usdb_Prelude "HOL-Library.Multiset"
begin

text \<open>
  Tables as lists of rows in insertion order, with the statements the storage modules use: upsert
  on a key, \<open>SELECT ... ORDER BY key DESC LIMIT 1\<close>, and \<open>LIMIT ? OFFSET ?\<close> with SQLite's reading of
  negative arguments.  The locale \<open>keyed_table\<close> collects what a table with a primary key gives its
  clients; each table of the pass database interprets it.
\<close>

section \<open>Statements\<close>

definition upsert_by :: "('r \<Rightarrow> 'k) \<Rightarrow> 'r \<Rightarrow> 'r list \<Rightarrow> 'r list" where
  "upsert_by key r rows =
     (if key r \<in> key ` set rows then map (\<lambda>x. if key x = key r then r else x) rows
      else rows @ [r])"

definition select_key :: "('r \<Rightarrow> 'k) \<Rightarrow> 'r list \<Rightarrow> 'k \<Rightarrow> 'r option" where
  "select_key key rows k = find (\<lambda>r. key r = k) rows"

fun select_max :: "('r \<Rightarrow> 'k::linorder) \<Rightarrow> 'r list \<Rightarrow> 'r option" where
  "select_max key [] = None"
| "select_max key (r # rs) =
     (case select_max key rs of None \<Rightarrow> Some r
      | Some m \<Rightarrow> if key m \<le> key r then Some r else Some m)"

text \<open>A negative \<open>LIMIT\<close> is no limit, a negative \<open>OFFSET\<close> is zero.\<close>

definition limit_offset :: "i64 \<Rightarrow> i64 \<Rightarrow> 'r list \<Rightarrow> 'r list" where
  "limit_offset lim off rows =
     (let rest = drop (nat (sint off)) rows
      in if sint lim < 0 then rest else take (nat (sint lim)) rest)"

section \<open>Lemmas\<close>

lemma select_max_None_iff [simp]: "select_max key rows = None \<longleftrightarrow> rows = []"
  by (cases rows) (auto split: option.splits)

lemma select_max_in: "select_max key rows = Some m \<Longrightarrow> m \<in> set rows"
  by (induction rows arbitrary: m) (auto split: option.splits if_splits)

lemma select_max_ge: "select_max key rows = Some m \<Longrightarrow> r \<in> set rows \<Longrightarrow> key r \<le> key m"
proof (induction rows arbitrary: m)
  case (Cons a rows)
  then show ?case
    by (fastforce split: option.splits if_splits)
qed simp

lemma select_max_eqI:
  assumes "m \<in> set rows" and "\<And>r. r \<in> set rows \<Longrightarrow> r \<noteq> m \<Longrightarrow> key r < key m"
  shows "select_max key rows = Some m"
proof -
  obtain x where x: "select_max key rows = Some x"
    using assms(1) by (cases "select_max key rows") auto
  have "x = m"
    using select_max_in [OF x] select_max_ge [OF x assms(1)] assms(2) by fastforce
  with x show ?thesis by simp
qed

lemma keys_upsert_by: "key ` set (upsert_by key r rows) = insert (key r) (key ` set rows)"
  by (auto simp: upsert_by_def image_iff)

lemma map_key_upsert_by:
  "map key (upsert_by key r rows) =
     (if key r \<in> key ` set rows then map key rows else map key rows @ [key r])"
  by (auto simp: upsert_by_def)

lemma distinct_upsert_by: "distinct (map key rows) \<Longrightarrow> distinct (map key (upsert_by key r rows))"
  by (auto simp: map_key_upsert_by)

lemma select_upsert_by:
  "select_key key (upsert_by key r rows) k = (if k = key r then Some r else select_key key rows k)"
proof -
  have m: "select_key key (map (\<lambda>x. if key x = key r then r else x) rows) k =
      (if k = key r \<and> key r \<in> key ` set rows then Some r else select_key key rows k)"
    by (induction rows) (auto simp: select_key_def)
  have a: "select_key key (rows @ [r]) k =
      (case select_key key rows k of None \<Rightarrow> if key r = k then Some r else None | v \<Rightarrow> v)"
    by (induction rows) (auto simp: select_key_def)
  have n: "select_key key rows k = None \<longleftrightarrow> k \<notin> key ` set rows"
    by (induction rows) (auto simp: select_key_def)
  show ?thesis
    using m a n by (auto simp: upsert_by_def split: option.splits)
qed

lemma select_key_Some: "select_key key rows k = Some r \<Longrightarrow> r \<in> set rows \<and> key r = k"
  by (auto simp: select_key_def find_Some_iff)

lemma select_key_None_iff: "select_key key rows k = None \<longleftrightarrow> k \<notin> key ` set rows"
  by (auto simp: select_key_def find_None_iff)

lemma select_key_eqI:
  "distinct (map key rows) \<Longrightarrow> r \<in> set rows \<Longrightarrow> key r = k \<Longrightarrow> select_key key rows k = Some r"
  by (induction rows) (auto simp: select_key_def)

lemma select_key_iff:
  "distinct (map key rows) \<Longrightarrow> select_key key rows k = Some r \<longleftrightarrow> r \<in> set rows \<and> key r = k"
  using select_key_eqI select_key_Some by metis

lemma filter_upsert_by:
  "\<not> P (key r) \<Longrightarrow> filter (\<lambda>x. P (key x)) (upsert_by key r rows) = filter (\<lambda>x. P (key x)) rows"
proof -
  assume nP: "\<not> P (key r)"
  have "filter (\<lambda>x. P (key x)) (map (\<lambda>x. if key x = key r then r else x) rows) =
      filter (\<lambda>x. P (key x)) rows"
    using nP by (induction rows) auto
  with nP show ?thesis by (simp add: upsert_by_def)
qed

lemma select_key_filter:
  "P k \<Longrightarrow> select_key key (filter (\<lambda>x. P (key x)) rows) k = select_key key rows k"
  by (induction rows) (auto simp: select_key_def)

lemma set_limit_offset: "set (limit_offset l off rows) \<subseteq> set rows"
  unfolding limit_offset_def Let_def
  by (auto dest: in_set_takeD in_set_dropD)

text \<open>The contract of a table with a primary key.\<close>

locale keyed_table =
  fixes key :: "'r \<Rightarrow> 'k::linorder"
    and rows :: "'db \<Rightarrow> 'r list"
    and ok :: "'db \<Rightarrow> bool"
    and upsert :: "'r \<Rightarrow> 'db \<Rightarrow> 'db"
    and prune_above :: "'k \<Rightarrow> 'db \<Rightarrow> 'db"
  assumes ok_distinct: "ok db \<Longrightarrow> distinct (map key (rows db))"
    and rows_upsert: "rows (upsert r db) = upsert_by key r (rows db)"
    and rows_prune: "rows (prune_above k db) = filter (\<lambda>r. key r \<le> k) (rows db)"
begin

abbreviation lookup :: "'db \<Rightarrow> 'k \<Rightarrow> 'r option" where
  "lookup db k \<equiv> select_key key (rows db) k"

lemma lookup_upsert: "lookup (upsert r db) k = (if k = key r then Some r else lookup db k)"
  by (simp add: rows_upsert select_upsert_by)

lemma lookup_prune: "lookup (prune_above t db) k = (if k \<le> t then lookup db k else None)"
  by (auto simp: rows_prune select_key_filter [where P = "\<lambda>x. x \<le> t"] select_key_None_iff)

lemma prune_upsert_above:
  "t < key r \<Longrightarrow> rows (prune_above t (upsert r db)) = rows (prune_above t db)"
  by (simp add: rows_prune rows_upsert filter_upsert_by [where P = "\<lambda>k. k \<le> t"])

lemma latest_upsert_newest:
  assumes "ok db" and "\<And>x. x \<in> set (rows db) \<Longrightarrow> key x \<le> key r"
  shows "select_max key (rows (upsert r db)) = Some r"
proof (rule select_max_eqI)
  show "r \<in> set (rows (upsert r db))"
    by (auto simp: rows_upsert upsert_by_def image_iff)
next
  fix x assume "x \<in> set (rows (upsert r db))" and "x \<noteq> r"
  then have "x \<in> set (rows db)" "key x \<noteq> key r"
    by (auto simp: rows_upsert upsert_by_def image_iff split: if_splits)
  with assms(2) show "key x < key r" by force
qed

end

end
