(* ===== verification/Pass_Storage.thy ===== *)
theory Pass_Storage
  imports Pass_Content Sql_Table
begin

text \<open>
  \<open>usdb-indexer/src/storage/pass.rs\<close>: the SQLite database of miner passes.  \<open>pass_db\<close> is the
  content of its tables, \<open>pass_store\<close> adds the savepoint stack of the connection.  Every write and
  every query of the module is a definition; identifiers and hashes, which the tables hold as text
  through their injective \<open>Display\<close> forms, are kept as typed values.
\<close>

section \<open>Rows and tables\<close>

record MinerPassInfo =
  mp_inscription_id :: InscriptionId
  mp_inscription_number :: int
  mp_mint_txid :: Txid
  mp_mint_block_height :: u32
  mp_mint_owner :: USDBScriptHash
  mp_satpoint :: SatPoint
  mp_eth_main :: string
  mp_eth_collab :: "string option"
  mp_prev :: "InscriptionId list"
  mp_invalid_code :: "string option"
  mp_invalid_reason :: "string option"
  mp_owner :: USDBScriptHash
  mp_state :: MinerPassState

record ValidMinerPassInfo =
  vp_inscription_id :: InscriptionId
  vp_owner :: USDBScriptHash
  vp_satpoint :: SatPoint

record ActiveMinerPassInfo =
  ap_inscription_id :: InscriptionId
  ap_owner :: USDBScriptHash

record MinerPassSnapshotInfo =
  ms_pass :: MinerPassInfo
  ms_latest_event_height :: u32

record MinerPassStateStats =
  st_total_count :: nat
  st_active_count :: nat
  st_dormant_count :: nat
  st_consumed_count :: nat
  st_burned_count :: nat
  st_invalid_count :: nat

text \<open>A row of \<open>miner_pass_state_history\<close>; \<open>MinerPassHistoryInfo\<close> is its new-value columns.\<close>

record PassHistoryRow =
  ph_id :: nat
  ph_inscription_id :: InscriptionId
  ph_block_height :: u32
  ph_event_type :: string
  ph_prev_state :: "MinerPassState option"
  ph_new_state :: MinerPassState
  ph_prev_owner :: "USDBScriptHash option"
  ph_new_owner :: USDBScriptHash
  ph_prev_satpoint :: "SatPoint option"
  ph_new_satpoint :: SatPoint

record MinerPassHistoryInfo =
  hi_event_id :: nat
  hi_inscription_id :: InscriptionId
  hi_block_height :: u32
  hi_event_type :: string
  hi_state :: MinerPassState
  hi_owner :: USDBScriptHash
  hi_satpoint :: SatPoint

text \<open>A row of \<open>active_balance_snapshots\<close>: the two amounts are \<open>i64\<close> columns.\<close>

record ActiveBalanceRow =
  ab_block_height :: u32
  ab_total_balance :: i64
  ab_active_address_count :: i64

record ActiveBalanceSnapshot =
  as_block_height :: u32
  as_total_balance :: u64
  as_active_address_count :: u32

record BalanceHistorySnapshotAnchor =
  an_stable_height :: u32
  an_stable_block_hash :: string
  an_latest_block_commit :: string
  an_stable_lag :: u32
  an_commit_protocol_version :: string
  an_commit_hash_algo :: string

text \<open>\<open>SnapshotInfo\<close> of the balance-history service, as far as it is stored.\<close>

record BalanceHistorySnapshotInfo =
  sn_stable_height :: u32
  sn_stable_block_hash :: "string option"
  sn_latest_block_commit :: "string option"
  sn_stable_lag :: u32
  sn_commit_protocol_version :: string
  sn_commit_hash_algo :: string

record PassBlockCommitEntry =
  pc_block_height :: u32
  pc_balance_history_block_height :: u32
  pc_balance_history_block_commit :: string
  pc_mutation_root :: string
  pc_block_commit :: string
  pc_commit_protocol_version :: string
  pc_commit_hash_algo :: string

record pass_db =
  db_state :: "string \<Rightarrow> i64 option"
  db_state_text :: "string \<Rightarrow> string option"
  db_passes :: "MinerPassInfo list"
  db_balance_snapshots :: "ActiveBalanceRow list"
  db_history :: "PassHistoryRow list"
  db_history_seq :: nat
  db_commits :: "PassBlockCommitEntry list"
  db_snapshot_history :: "BalanceHistorySnapshotAnchor list"

definition empty_pass_db :: pass_db where
  "empty_pass_db = \<lparr>db_state = Map.empty, db_state_text = Map.empty, db_passes = [],
     db_balance_snapshots = [], db_history = [], db_history_seq = 0, db_commits = [],
     db_snapshot_history = []\<rparr>"

definition BTC_SYNCED_BLOCK_HEIGHT_KEY :: string where
  "BTC_SYNCED_BLOCK_HEIGHT_KEY = ''btc_synced_block_height''"
definition BALANCE_HISTORY_SNAPSHOT_HEIGHT_KEY :: string where
  "BALANCE_HISTORY_SNAPSHOT_HEIGHT_KEY = ''balance_history_snapshot_height''"
definition BALANCE_HISTORY_SNAPSHOT_BLOCK_HASH_KEY :: string where
  "BALANCE_HISTORY_SNAPSHOT_BLOCK_HASH_KEY = ''balance_history_snapshot_block_hash''"
definition BALANCE_HISTORY_SNAPSHOT_BLOCK_COMMIT_KEY :: string where
  "BALANCE_HISTORY_SNAPSHOT_BLOCK_COMMIT_KEY = ''balance_history_snapshot_block_commit''"
definition BALANCE_HISTORY_SNAPSHOT_STABLE_LAG_KEY :: string where
  "BALANCE_HISTORY_SNAPSHOT_STABLE_LAG_KEY = ''balance_history_snapshot_stable_lag''"
definition BALANCE_HISTORY_SNAPSHOT_COMMIT_PROTOCOL_VERSION_KEY :: string where
  "BALANCE_HISTORY_SNAPSHOT_COMMIT_PROTOCOL_VERSION_KEY =
     ''balance_history_snapshot_commit_protocol_version''"
definition BALANCE_HISTORY_SNAPSHOT_COMMIT_HASH_ALGO_KEY :: string where
  "BALANCE_HISTORY_SNAPSHOT_COMMIT_HASH_ALGO_KEY = ''balance_history_snapshot_commit_hash_algo''"
definition UPSTREAM_REORG_RECOVERY_PENDING_HEIGHT_KEY :: string where
  "UPSTREAM_REORG_RECOVERY_PENDING_HEIGHT_KEY = ''upstream_reorg_recovery_pending_height''"

lemmas state_key_defs = BTC_SYNCED_BLOCK_HEIGHT_KEY_def BALANCE_HISTORY_SNAPSHOT_HEIGHT_KEY_def
  BALANCE_HISTORY_SNAPSHOT_BLOCK_HASH_KEY_def BALANCE_HISTORY_SNAPSHOT_BLOCK_COMMIT_KEY_def
  BALANCE_HISTORY_SNAPSHOT_STABLE_LAG_KEY_def
  BALANCE_HISTORY_SNAPSHOT_COMMIT_PROTOCOL_VERSION_KEY_def
  BALANCE_HISTORY_SNAPSHOT_COMMIT_HASH_ALGO_KEY_def
  UPSTREAM_REORG_RECOVERY_PENDING_HEIGHT_KEY_def

lemma state_key_neqs [simp]:
  "BTC_SYNCED_BLOCK_HEIGHT_KEY \<noteq> BALANCE_HISTORY_SNAPSHOT_HEIGHT_KEY"
  "BALANCE_HISTORY_SNAPSHOT_HEIGHT_KEY \<noteq> BTC_SYNCED_BLOCK_HEIGHT_KEY"
  "BTC_SYNCED_BLOCK_HEIGHT_KEY \<noteq> UPSTREAM_REORG_RECOVERY_PENDING_HEIGHT_KEY"
  "UPSTREAM_REORG_RECOVERY_PENDING_HEIGHT_KEY \<noteq> BTC_SYNCED_BLOCK_HEIGHT_KEY"
  "BALANCE_HISTORY_SNAPSHOT_HEIGHT_KEY \<noteq> UPSTREAM_REORG_RECOVERY_PENDING_HEIGHT_KEY"
  "UPSTREAM_REORG_RECOVERY_PENDING_HEIGHT_KEY \<noteq> BALANCE_HISTORY_SNAPSHOT_HEIGHT_KEY"
  "BALANCE_HISTORY_SNAPSHOT_STABLE_LAG_KEY \<noteq> BTC_SYNCED_BLOCK_HEIGHT_KEY"
  "BTC_SYNCED_BLOCK_HEIGHT_KEY \<noteq> BALANCE_HISTORY_SNAPSHOT_STABLE_LAG_KEY"
  "BALANCE_HISTORY_SNAPSHOT_STABLE_LAG_KEY \<noteq> BALANCE_HISTORY_SNAPSHOT_HEIGHT_KEY"
  "BALANCE_HISTORY_SNAPSHOT_HEIGHT_KEY \<noteq> BALANCE_HISTORY_SNAPSHOT_STABLE_LAG_KEY"
  "BALANCE_HISTORY_SNAPSHOT_STABLE_LAG_KEY \<noteq> UPSTREAM_REORG_RECOVERY_PENDING_HEIGHT_KEY"
  "UPSTREAM_REORG_RECOVERY_PENDING_HEIGHT_KEY \<noteq> BALANCE_HISTORY_SNAPSHOT_STABLE_LAG_KEY"
  unfolding state_key_defs by simp_all

section \<open>State rows\<close>

definition i64_of_u32 :: "u32 \<Rightarrow> i64" where
  "i64_of_u32 h = ucast h"

definition u32_of_i64 :: "i64 \<Rightarrow> u32" where
  "u32_of_i64 v = ucast v"

definition upsert_numeric_state :: "string \<Rightarrow> i64 \<Rightarrow> pass_db \<Rightarrow> pass_db" where
  "upsert_numeric_state name val db = db\<lparr>db_state := (db_state db)(name \<mapsto> val)\<rparr>"

definition delete_numeric_state :: "string \<Rightarrow> pass_db \<Rightarrow> pass_db" where
  "delete_numeric_state name db = db\<lparr>db_state := (db_state db)(name := None)\<rparr>"

definition upsert_text_state :: "string \<Rightarrow> string \<Rightarrow> pass_db \<Rightarrow> pass_db" where
  "upsert_text_state name val db = db\<lparr>db_state_text := (db_state_text db)(name \<mapsto> val)\<rparr>"

definition delete_text_state :: "string \<Rightarrow> pass_db \<Rightarrow> pass_db" where
  "delete_text_state name db = db\<lparr>db_state_text := (db_state_text db)(name := None)\<rparr>"

definition get_numeric_state :: "string \<Rightarrow> pass_db \<Rightarrow> i64 option" where
  "get_numeric_state name db = db_state db name"

definition get_text_state :: "string \<Rightarrow> pass_db \<Rightarrow> string option" where
  "get_text_state name db = db_state_text db name"

definition update_synced_btc_block_height :: "u32 \<Rightarrow> pass_db \<Rightarrow> pass_db" where
  "update_synced_btc_block_height height =
     upsert_numeric_state BTC_SYNCED_BLOCK_HEIGHT_KEY (i64_of_u32 height)"

definition get_synced_btc_block_height :: "pass_db \<Rightarrow> u32 option" where
  "get_synced_btc_block_height db =
     map_option u32_of_i64 (get_numeric_state BTC_SYNCED_BLOCK_HEIGHT_KEY db)"

definition get_upstream_reorg_recovery_pending_height :: "pass_db \<Rightarrow> u32 option result" where
  "get_upstream_reorg_recovery_pending_height db =
     (case get_numeric_state UPSTREAM_REORG_RECOVERY_PENDING_HEIGHT_KEY db of
        None \<Rightarrow> Inr None
      | Some val \<Rightarrow>
          if sint val < 0
          then Inl (Err ''Invalid negative upstream reorg recovery pending height'')
          else Inr (Some (u32_of_i64 val)))"

definition clear_upstream_reorg_recovery_pending_height :: "pass_db \<Rightarrow> pass_db" where
  "clear_upstream_reorg_recovery_pending_height =
     delete_numeric_state UPSTREAM_REORG_RECOVERY_PENDING_HEIGHT_KEY"

definition mark_upstream_reorg_recovery_pending :: "u32 \<Rightarrow> pass_db \<Rightarrow> pass_db" where
  "mark_upstream_reorg_recovery_pending target_height =
     upsert_numeric_state UPSTREAM_REORG_RECOVERY_PENDING_HEIGHT_KEY (i64_of_u32 target_height)"

lemmas state_defs = upsert_numeric_state_def delete_numeric_state_def upsert_text_state_def
  delete_text_state_def get_numeric_state_def get_text_state_def
  update_synced_btc_block_height_def get_synced_btc_block_height_def
  clear_upstream_reorg_recovery_pending_height_def mark_upstream_reorg_recovery_pending_def

section \<open>Upstream snapshot anchors\<close>

definition upsert_balance_history_snapshot_history ::
  "BalanceHistorySnapshotAnchor \<Rightarrow> pass_db \<Rightarrow> pass_db" where
  "upsert_balance_history_snapshot_history row db =
     db\<lparr>db_snapshot_history := upsert_by an_stable_height row (db_snapshot_history db)\<rparr>"

definition anchor_of_snapshot ::
  "BalanceHistorySnapshotInfo \<Rightarrow> string \<Rightarrow> string \<Rightarrow> BalanceHistorySnapshotAnchor" where
  "anchor_of_snapshot snapshot stable_block_hash latest_block_commit =
     \<lparr>an_stable_height = sn_stable_height snapshot,
      an_stable_block_hash = stable_block_hash,
      an_latest_block_commit = latest_block_commit,
      an_stable_lag = sn_stable_lag snapshot,
      an_commit_protocol_version = sn_commit_protocol_version snapshot,
      an_commit_hash_algo = sn_commit_hash_algo snapshot\<rparr>"

definition upsert_balance_history_snapshot_history_entry ::
  "BalanceHistorySnapshotInfo \<Rightarrow> (pass_db, unit) op" where
  "upsert_balance_history_snapshot_history_entry snapshot =
     (case sn_stable_block_hash snapshot of
        None \<Rightarrow> fail (Err ''Balance-history snapshot missing stable block hash'')
      | Some hash \<Rightarrow>
        (case sn_latest_block_commit snapshot of
           None \<Rightarrow> fail (Err ''Balance-history snapshot missing latest block commit'')
         | Some commit \<Rightarrow>
             modify (upsert_balance_history_snapshot_history
               (anchor_of_snapshot snapshot hash commit))))"

definition upsert_balance_history_snapshot_anchor_with_conn ::
  "BalanceHistorySnapshotInfo \<Rightarrow> (pass_db, unit) op" where
  "upsert_balance_history_snapshot_anchor_with_conn snapshot =
     (case sn_stable_block_hash snapshot of
        None \<Rightarrow> fail (Err ''Balance-history snapshot missing stable block hash'')
      | Some hash \<Rightarrow>
        (case sn_latest_block_commit snapshot of
           None \<Rightarrow> fail (Err ''Balance-history snapshot missing latest block commit'')
         | Some commit \<Rightarrow>
             modify (\<lambda>db.
               upsert_balance_history_snapshot_history (anchor_of_snapshot snapshot hash commit)
               (upsert_numeric_state BALANCE_HISTORY_SNAPSHOT_HEIGHT_KEY
                  (i64_of_u32 (sn_stable_height snapshot))
               (upsert_text_state BALANCE_HISTORY_SNAPSHOT_COMMIT_HASH_ALGO_KEY
                  (sn_commit_hash_algo snapshot)
               (upsert_text_state BALANCE_HISTORY_SNAPSHOT_COMMIT_PROTOCOL_VERSION_KEY
                  (sn_commit_protocol_version snapshot)
               (upsert_numeric_state BALANCE_HISTORY_SNAPSHOT_STABLE_LAG_KEY
                  (i64_of_u32 (sn_stable_lag snapshot))
               (upsert_text_state BALANCE_HISTORY_SNAPSHOT_BLOCK_COMMIT_KEY commit
               (upsert_text_state BALANCE_HISTORY_SNAPSHOT_BLOCK_HASH_KEY hash
               (upsert_numeric_state BTC_SYNCED_BLOCK_HEIGHT_KEY
                  (i64_of_u32 (sn_stable_height snapshot)) db)))))))))) "

definition clear_balance_history_snapshot_anchor_with_conn :: "pass_db \<Rightarrow> pass_db" where
  "clear_balance_history_snapshot_anchor_with_conn db =
     delete_text_state BALANCE_HISTORY_SNAPSHOT_COMMIT_HASH_ALGO_KEY
     (delete_text_state BALANCE_HISTORY_SNAPSHOT_COMMIT_PROTOCOL_VERSION_KEY
     (delete_numeric_state BALANCE_HISTORY_SNAPSHOT_STABLE_LAG_KEY
     (delete_text_state BALANCE_HISTORY_SNAPSHOT_BLOCK_COMMIT_KEY
     (delete_text_state BALANCE_HISTORY_SNAPSHOT_BLOCK_HASH_KEY
     (delete_numeric_state BALANCE_HISTORY_SNAPSHOT_HEIGHT_KEY db)))))"

definition require :: "'a option \<Rightarrow> string \<Rightarrow> 'a result" where
  "require v msg = (case v of None \<Rightarrow> Inl (Err msg) | Some x \<Rightarrow> Inr x)"

definition get_balance_history_snapshot_anchor ::
  "pass_db \<Rightarrow> BalanceHistorySnapshotAnchor option result" where
  "get_balance_history_snapshot_anchor db =
     (case get_numeric_state BALANCE_HISTORY_SNAPSHOT_HEIGHT_KEY db of
        None \<Rightarrow> Inr None
      | Some height \<Rightarrow>
        if sint height < 0 then Inl (Err ''Invalid negative balance-history snapshot height'')
        else
        (case require (get_text_state BALANCE_HISTORY_SNAPSHOT_BLOCK_HASH_KEY db)
           ''Missing balance-history snapshot block hash in database'' of Inl e \<Rightarrow> Inl e
         | Inr hash \<Rightarrow>
        (case require (get_text_state BALANCE_HISTORY_SNAPSHOT_BLOCK_COMMIT_KEY db)
           ''Missing balance-history snapshot block commit in database'' of Inl e \<Rightarrow> Inl e
         | Inr commit \<Rightarrow>
        (case require (get_numeric_state BALANCE_HISTORY_SNAPSHOT_STABLE_LAG_KEY db)
           ''Missing balance-history snapshot stable lag in database'' of Inl e \<Rightarrow> Inl e
         | Inr lag \<Rightarrow>
        if sint lag < 0 then Inl (Err ''Invalid negative balance-history snapshot stable lag'')
        else
        (case require (get_text_state BALANCE_HISTORY_SNAPSHOT_COMMIT_PROTOCOL_VERSION_KEY db)
           ''Missing balance-history snapshot commit protocol version in database'' of Inl e \<Rightarrow> Inl e
         | Inr version \<Rightarrow>
        (case require (get_text_state BALANCE_HISTORY_SNAPSHOT_COMMIT_HASH_ALGO_KEY db)
           ''Missing balance-history snapshot commit hash algorithm in database'' of Inl e \<Rightarrow> Inl e
         | Inr algo \<Rightarrow>
           Inr (Some \<lparr>an_stable_height = u32_of_i64 height, an_stable_block_hash = hash,
             an_latest_block_commit = commit, an_stable_lag = u32_of_i64 lag,
             an_commit_protocol_version = version, an_commit_hash_algo = algo\<rparr>)))))))"

definition get_balance_history_snapshot_anchor_at_height ::
  "u32 \<Rightarrow> pass_db \<Rightarrow> BalanceHistorySnapshotAnchor option" where
  "get_balance_history_snapshot_anchor_at_height block_height db =
     select_key an_stable_height (db_snapshot_history db) block_height"

text \<open>The cursor loop over the stored heights of the range, in ascending order.\<close>

fun first_missing_loop :: "u32 list \<Rightarrow> u32 \<Rightarrow> u32 \<Rightarrow> u32 option" where
  "first_missing_loop [] expected end_height =
     (if expected \<le> end_height then Some expected else None)"
| "first_missing_loop (stored # hs) expected end_height =
     (if expected < stored then Some expected
      else if stored = expected then
        (let expected' = sat_add expected 1
         in if end_height < expected' then None else first_missing_loop hs expected' end_height)
      else first_missing_loop hs expected end_height)"

definition get_first_missing_balance_history_snapshot_history_height ::
  "u32 \<Rightarrow> u32 \<Rightarrow> pass_db \<Rightarrow> u32 option" where
  "get_first_missing_balance_history_snapshot_history_height start_height end_height db =
     (if end_height < start_height then None
      else first_missing_loop
        (sort (filter (\<lambda>h. start_height \<le> h \<and> h \<le> end_height)
           (map an_stable_height (db_snapshot_history db))))
        start_height end_height)"

section \<open>Pass block commits\<close>

definition upsert_pass_block_commit :: "PassBlockCommitEntry \<Rightarrow> pass_db \<Rightarrow> pass_db" where
  "upsert_pass_block_commit entry db =
     db\<lparr>db_commits := upsert_by pc_block_height entry (db_commits db)\<rparr>"

definition get_pass_block_commit :: "u32 \<Rightarrow> pass_db \<Rightarrow> PassBlockCommitEntry option" where
  "get_pass_block_commit block_height db = select_key pc_block_height (db_commits db) block_height"

definition get_latest_pass_block_commit_at_or_before ::
  "u32 \<Rightarrow> pass_db \<Rightarrow> PassBlockCommitEntry option" where
  "get_latest_pass_block_commit_at_or_before block_height db =
     select_max pc_block_height (filter (\<lambda>e. pc_block_height e \<le> block_height) (db_commits db))"

section \<open>Active balance snapshots\<close>

definition upsert_balance_row :: "ActiveBalanceRow \<Rightarrow> pass_db \<Rightarrow> pass_db" where
  "upsert_balance_row row db =
     db\<lparr>db_balance_snapshots := upsert_by ab_block_height row (db_balance_snapshots db)\<rparr>"

definition upsert_active_balance_snapshot :: "u32 \<Rightarrow> u64 \<Rightarrow> u32 \<Rightarrow> pass_db \<Rightarrow> pass_db" where
  "upsert_active_balance_snapshot block_height total_balance active_address_count =
     upsert_balance_row
       \<lparr>ab_block_height = block_height, ab_total_balance = total_balance,
        ab_active_address_count = i64_of_u32 active_address_count\<rparr>"

definition row_to_active_balance_snapshot :: "ActiveBalanceRow \<Rightarrow> ActiveBalanceSnapshot result" where
  "row_to_active_balance_snapshot row =
     (if sint (ab_total_balance row) < 0 \<or> sint (ab_active_address_count row) < 0
      then Inl (Err ''Invalid negative field in active balance snapshot row'')
      else Inr \<lparr>as_block_height = ab_block_height row, as_total_balance = ab_total_balance row,
        as_active_address_count = u32_of_i64 (ab_active_address_count row)\<rparr>)"

definition optional_row :: "'r option \<Rightarrow> ('r \<Rightarrow> 'a result) \<Rightarrow> 'a option result" where
  "optional_row r f =
     (case r of None \<Rightarrow> Inr None
      | Some row \<Rightarrow> (case f row of Inl e \<Rightarrow> Inl e | Inr x \<Rightarrow> Inr (Some x)))"

definition get_active_balance_snapshot ::
  "u32 \<Rightarrow> pass_db \<Rightarrow> ActiveBalanceSnapshot option result" where
  "get_active_balance_snapshot block_height db =
     optional_row (select_key ab_block_height (db_balance_snapshots db) block_height)
       row_to_active_balance_snapshot"

definition get_latest_active_balance_snapshot ::
  "pass_db \<Rightarrow> ActiveBalanceSnapshot option result" where
  "get_latest_active_balance_snapshot db =
     optional_row (select_max ab_block_height (db_balance_snapshots db))
       row_to_active_balance_snapshot"

definition clear_active_balance_snapshots_from_height :: "u32 \<Rightarrow> (pass_db, nat) op" where
  "clear_active_balance_snapshots_from_height from_block_height db =
     (Inr (length (filter (\<lambda>r. from_block_height \<le> ab_block_height r) (db_balance_snapshots db))),
      db\<lparr>db_balance_snapshots :=
        filter (\<lambda>r. \<not> from_block_height \<le> ab_block_height r) (db_balance_snapshots db)\<rparr>)"

definition assert_balance_snapshot_consistency :: "u32 \<Rightarrow> u32 \<Rightarrow> pass_db \<Rightarrow> unit result" where
  "assert_balance_snapshot_consistency synced_height genesis_block_height db =
     (case get_latest_active_balance_snapshot db of
        Inl e \<Rightarrow> Inl e
      | Inr latest \<Rightarrow>
          if synced_height < genesis_block_height then
            (case latest of None \<Rightarrow> Inr ()
             | Some _ \<Rightarrow> Inl (Err ''Unexpected balance snapshot before genesis''))
          else
            (case latest of
               None \<Rightarrow> Inl (Err ''Missing balance snapshot at synced height'')
             | Some snapshot \<Rightarrow>
                 if as_block_height snapshot \<noteq> synced_height
                 then Inl (Err ''Balance snapshot height mismatch'') else Inr ()))"

section \<open>Current pass rows\<close>

text \<open>The partial unique index \<open>idx_miner_pass_owner_active_unique\<close>.\<close>

definition active_owner_unique :: "MinerPassInfo list \<Rightarrow> bool" where
  "active_owner_unique rows \<longleftrightarrow> distinct (map mp_owner (filter (\<lambda>m. mp_state m = Active) rows))"

definition get_pass_by_inscription_id :: "InscriptionId \<Rightarrow> pass_db \<Rightarrow> MinerPassInfo option" where
  "get_pass_by_inscription_id inscription_id db =
     select_key mp_inscription_id (db_passes db) inscription_id"

definition get_last_active_mint_pass_by_owner ::
  "USDBScriptHash \<Rightarrow> pass_db \<Rightarrow> MinerPassInfo option" where
  "get_last_active_mint_pass_by_owner own db =
     select_max mp_mint_block_height
       (filter (\<lambda>m. mp_owner m = own \<and> mp_state m = Active) (db_passes db))"

text \<open>\<open>INSERT\<close> and \<open>UPDATE\<close> fail, and change nothing, when they would violate the primary key or
  the unique index.\<close>

definition insert_pass_record :: "MinerPassInfo \<Rightarrow> (pass_db, unit) op" where
  "insert_pass_record pass_info db =
     (if mp_inscription_id pass_info \<in> mp_inscription_id ` set (db_passes db) \<or>
         \<not> active_owner_unique (db_passes db @ [pass_info])
      then (Inl (Err ''Failed to insert new miner pass into database''), db)
      else (Inr (), db\<lparr>db_passes := db_passes db @ [pass_info]\<rparr>))"

text \<open>\<open>UPDATE miner_passes SET ... WHERE\<close>: the number of affected rows.\<close>

definition update_passes ::
  "(MinerPassInfo \<Rightarrow> bool) \<Rightarrow> (MinerPassInfo \<Rightarrow> MinerPassInfo) \<Rightarrow> string \<Rightarrow> (pass_db, nat) op" where
  "update_passes P f msg db =
     (let rows = map (\<lambda>m. if P m then f m else m) (db_passes db)
      in if active_owner_unique rows
         then (Inr (length (filter P (db_passes db))), db\<lparr>db_passes := rows\<rparr>)
         else (Inl (Err msg), db))"

definition append_pass_history_event ::
  "InscriptionId \<Rightarrow> u32 \<Rightarrow> string \<Rightarrow> MinerPassState option \<Rightarrow> MinerPassState \<Rightarrow>
   USDBScriptHash option \<Rightarrow> USDBScriptHash \<Rightarrow> SatPoint option \<Rightarrow> SatPoint \<Rightarrow> (pass_db, unit) op" where
  "append_pass_history_event inscription_id block_height event_type prev_state new_state
     prev_owner new_owner prev_satpoint new_satpoint =
     modify (\<lambda>db. db\<lparr>
       db_history_seq := Suc (db_history_seq db),
       db_history := db_history db @
         [\<lparr>ph_id = Suc (db_history_seq db), ph_inscription_id = inscription_id,
           ph_block_height = block_height, ph_event_type = event_type,
           ph_prev_state = prev_state, ph_new_state = new_state,
           ph_prev_owner = prev_owner, ph_new_owner = new_owner,
           ph_prev_satpoint = prev_satpoint, ph_new_satpoint = new_satpoint\<rparr>]\<rparr>)"

definition PASS_HISTORY_EVENT_MINT :: string where "PASS_HISTORY_EVENT_MINT = ''mint''"
definition PASS_HISTORY_EVENT_INVALID_MINT :: string where
  "PASS_HISTORY_EVENT_INVALID_MINT = ''invalid_mint''"
definition PASS_HISTORY_EVENT_STATE_UPDATE :: string where
  "PASS_HISTORY_EVENT_STATE_UPDATE = ''state_update''"
definition PASS_HISTORY_EVENT_OWNER_TRANSFER :: string where
  "PASS_HISTORY_EVENT_OWNER_TRANSFER = ''owner_transfer''"
definition PASS_HISTORY_EVENT_SATPOINT_UPDATE :: string where
  "PASS_HISTORY_EVENT_SATPOINT_UPDATE = ''satpoint_update''"

definition add_new_mint_pass :: "MinerPassInfo \<Rightarrow> (pass_db, unit) op" where
  "add_new_mint_pass pass_info =
     bindR (guardR (mp_state pass_info = Active)
       (Panic ''Newly minted pass must be in Active state'')) (\<lambda>_.
     bindR (guardR (mp_owner pass_info = mp_mint_owner pass_info)
       (Panic ''Newly minted pass owner must be the mint owner'')) (\<lambda>_.
     bindR (guardR (mp_invalid_code pass_info = None \<and> mp_invalid_reason pass_info = None)
       (Panic ''Active mint pass should not carry invalid reason metadata'')) (\<lambda>_.
     insert_pass_record pass_info)))"

definition add_new_mint_pass_at_height :: "MinerPassInfo \<Rightarrow> u32 \<Rightarrow> (pass_db, unit) op" where
  "add_new_mint_pass_at_height pass_info block_height =
     bindR (add_new_mint_pass pass_info) (\<lambda>_.
     append_pass_history_event (mp_inscription_id pass_info) block_height PASS_HISTORY_EVENT_MINT
       None (mp_state pass_info) None (mp_owner pass_info) None (mp_satpoint pass_info))"

definition add_invalid_mint_pass :: "MinerPassInfo \<Rightarrow> (pass_db, unit) op" where
  "add_invalid_mint_pass pass_info =
     bindR (guardR (mp_state pass_info = Invalid)
       (Panic ''Invalid mint pass must be in Invalid state'')) (\<lambda>_.
     bindR (guardR (mp_owner pass_info = mp_mint_owner pass_info)
       (Panic ''Invalid mint pass owner must be the mint owner'')) (\<lambda>_.
     bindR (guardR (mp_invalid_code pass_info \<noteq> None \<and> mp_invalid_reason pass_info \<noteq> None)
       (Panic ''Invalid mint pass must include invalid code and reason'')) (\<lambda>_.
     insert_pass_record pass_info)))"

definition add_invalid_mint_pass_at_height :: "MinerPassInfo \<Rightarrow> u32 \<Rightarrow> (pass_db, unit) op" where
  "add_invalid_mint_pass_at_height pass_info block_height =
     bindR (add_invalid_mint_pass pass_info) (\<lambda>_.
     append_pass_history_event (mp_inscription_id pass_info) block_height
       PASS_HISTORY_EVENT_INVALID_MINT
       None (mp_state pass_info) None (mp_owner pass_info) None (mp_satpoint pass_info))"

definition transfer_owner ::
  "InscriptionId \<Rightarrow> USDBScriptHash \<Rightarrow> SatPoint \<Rightarrow> (pass_db, unit) op" where
  "transfer_owner inscription_id new_owner new_satpoint =
     bindR (update_passes (\<lambda>m. mp_inscription_id m = inscription_id)
         (\<lambda>m. m\<lparr>mp_owner := new_owner, mp_satpoint := new_satpoint\<rparr>)
         ''Failed to transfer miner pass owner in database'') (\<lambda>affected.
     guardR (affected \<noteq> 0) (Err ''No miner pass found to transfer ownership''))"

definition require_pass :: "InscriptionId \<Rightarrow> string \<Rightarrow> (pass_db, MinerPassInfo) op" where
  "require_pass inscription_id msg =
     getsR (\<lambda>db. require (get_pass_by_inscription_id inscription_id db) msg)"

definition transfer_owner_at_height ::
  "InscriptionId \<Rightarrow> USDBScriptHash \<Rightarrow> SatPoint \<Rightarrow> u32 \<Rightarrow> (pass_db, unit) op" where
  "transfer_owner_at_height inscription_id new_owner new_satpoint block_height =
     bindR (require_pass inscription_id ''Miner pass not found before transfer history append'')
       (\<lambda>current.
     bindR (transfer_owner inscription_id new_owner new_satpoint) (\<lambda>_.
     append_pass_history_event inscription_id block_height PASS_HISTORY_EVENT_OWNER_TRANSFER
       (Some (mp_state current)) (mp_state current) (Some (mp_owner current)) new_owner
       (Some (mp_satpoint current)) new_satpoint))"

definition update_satpoint :: "InscriptionId \<Rightarrow> SatPoint \<Rightarrow> SatPoint \<Rightarrow> (pass_db, unit) op" where
  "update_satpoint inscription_id prev_satpoint new_satpoint =
     bindR (update_passes
         (\<lambda>m. mp_inscription_id m = inscription_id \<and> mp_satpoint m = prev_satpoint)
         (\<lambda>m. m\<lparr>mp_satpoint := new_satpoint\<rparr>)
         ''Failed to update miner pass satpoint in database'') (\<lambda>affected.
     guardR (affected \<noteq> 0) (Err ''No miner pass found to update to new satpoint''))"

definition update_satpoint_at_height ::
  "InscriptionId \<Rightarrow> SatPoint \<Rightarrow> SatPoint \<Rightarrow> u32 \<Rightarrow> (pass_db, unit) op" where
  "update_satpoint_at_height inscription_id prev_satpoint new_satpoint block_height =
     bindR (require_pass inscription_id ''Miner pass not found before satpoint history append'')
       (\<lambda>current.
     bindR (update_satpoint inscription_id prev_satpoint new_satpoint) (\<lambda>_.
     append_pass_history_event inscription_id block_height PASS_HISTORY_EVENT_SATPOINT_UPDATE
       (Some (mp_state current)) (mp_state current) (Some (mp_owner current)) (mp_owner current)
       (Some (mp_satpoint current)) new_satpoint))"

definition update_state ::
  "InscriptionId \<Rightarrow> MinerPassState \<Rightarrow> MinerPassState \<Rightarrow> (pass_db, unit) op" where
  "update_state inscription_id new_state prev_state =
     bindR (update_passes
         (\<lambda>m. mp_inscription_id m = inscription_id \<and> mp_state m = prev_state)
         (\<lambda>m. m\<lparr>mp_state := new_state\<rparr>)
         ''Failed to update miner pass state in database'') (\<lambda>affected.
     guardR (affected \<noteq> 0) (Err ''No miner pass found to update to new state''))"

definition update_state_at_height ::
  "InscriptionId \<Rightarrow> MinerPassState \<Rightarrow> MinerPassState \<Rightarrow> u32 \<Rightarrow> (pass_db, unit) op" where
  "update_state_at_height inscription_id new_state prev_state block_height =
     bindR (require_pass inscription_id ''Miner pass not found before state history append'')
       (\<lambda>current.
     bindR (update_state inscription_id new_state prev_state) (\<lambda>_.
     append_pass_history_event inscription_id block_height PASS_HISTORY_EVENT_STATE_UPDATE
       (Some (mp_state current)) new_state (Some (mp_owner current)) (mp_owner current)
       (Some (mp_satpoint current)) (mp_satpoint current)))"

end
