(* ===== verification/Pass_Rollback.thy ===== *)
theory Pass_Rollback
  imports Pass_Storage
begin

text \<open>
  \<open>usdb-indexer/src/storage/pass.rs\<close>, continued: savepoints, transactions, the rollback of the
  pass database to a block height and the guard that no data lies above a height.  The main
  results: every height-stamped write keeps the database consistent (unique ids, one active pass
  per owner, current rows equal to the latest history events), and rolling back to height \<open>t\<close>
  after any writes above \<open>t\<close> restores the pass rows, the history, the commits and the snapshots
  that were there at \<open>t\<close>.
\<close>

section \<open>Savepoints and transactions\<close>

record pass_store =
  ps_db :: pass_db
  ps_savepoints :: "pass_db list"

definition savepoint_begin :: "(pass_store, unit) op" where
  "savepoint_begin = modify (\<lambda>s. s\<lparr>ps_savepoints := ps_db s # ps_savepoints s\<rparr>)"

definition savepoint_commit :: "(pass_store, unit) op" where
  "savepoint_commit s =
     (case ps_savepoints s of
        [] \<Rightarrow> (Inl (Err ''Failed to commit savepoint''), s)
      | _ # sps \<Rightarrow> (Inr (), s\<lparr>ps_savepoints := sps\<rparr>))"

definition savepoint_rollback :: "(pass_store, unit) op" where
  "savepoint_rollback s =
     (case ps_savepoints s of
        [] \<Rightarrow> (Inl (Err ''Failed to rollback savepoint''), s)
      | db # _ \<Rightarrow> (Inr (), s\<lparr>ps_db := db\<rparr>))"

text \<open>Dropping an uncommitted guard: roll back, then release; both errors are only logged.\<close>

definition savepoint_guard_drop :: "pass_store \<Rightarrow> pass_store" where
  "savepoint_guard_drop s = snd (bindR savepoint_rollback (\<lambda>_. savepoint_commit) s)"

text \<open>A transaction cannot be opened inside a savepoint; an error drops its writes.\<close>

definition in_transaction :: "(pass_db, 'a) op \<Rightarrow> (pass_store, 'a) op" where
  "in_transaction m s =
     (if ps_savepoints s \<noteq> [] then (Inl (Err ''Failed to start transaction''), s)
      else (case m (ps_db s) of
              (Inl e, _) \<Rightarrow> (Inl e, s)
            | (Inr x, db) \<Rightarrow> (Inr x, s\<lparr>ps_db := db\<rparr>)))"

definition upsert_balance_history_snapshot_anchor ::
  "BalanceHistorySnapshotInfo \<Rightarrow> (pass_store, unit) op" where
  "upsert_balance_history_snapshot_anchor snapshot =
     in_transaction (upsert_balance_history_snapshot_anchor_with_conn snapshot)"

definition clear_balance_history_snapshot_anchor :: "(pass_store, unit) op" where
  "clear_balance_history_snapshot_anchor =
     in_transaction (modify clear_balance_history_snapshot_anchor_with_conn)"

section \<open>Rollback\<close>

text \<open>The common table expression \<open>latest\<close>, joined back to its rows.\<close>

definition latest_history :: "u32 \<Rightarrow> PassHistoryRow list \<Rightarrow> PassHistoryRow list" where
  "latest_history t rows =
     filter (\<lambda>r. ph_block_height r \<le> t \<and>
       list_all (\<lambda>r'. ph_inscription_id r' = ph_inscription_id r \<and> ph_block_height r' \<le> t \<longrightarrow>
         ph_id r' \<le> ph_id r) rows) rows"

definition rebuild_pass :: "MinerPassInfo \<Rightarrow> PassHistoryRow \<Rightarrow> MinerPassInfo" where
  "rebuild_pass m h =
     m\<lparr>mp_satpoint := ph_new_satpoint h, mp_owner := ph_new_owner h, mp_state := ph_new_state h\<rparr>"

definition rollback_surviving_passes :: "u32 \<Rightarrow> pass_db \<Rightarrow> MinerPassInfo list" where
  "rollback_surviving_passes t db =
     concat (map (\<lambda>m. map (rebuild_pass m)
         (filter (\<lambda>h. ph_inscription_id h = mp_inscription_id m) (latest_history t (db_history db))))
       (filter (\<lambda>m. mp_mint_block_height m \<le> t) (db_passes db)))"

text \<open>The four \<open>DELETE\<close> statements on the height-stamped tables.\<close>

definition delete_rows_above :: "u32 \<Rightarrow> pass_db \<Rightarrow> pass_db" where
  "delete_rows_above t db = db\<lparr>
     db_history := filter (\<lambda>r. ph_block_height r \<le> t) (db_history db),
     db_commits := filter (\<lambda>r. pc_block_height r \<le> t) (db_commits db),
     db_balance_snapshots := filter (\<lambda>r. ab_block_height r \<le> t) (db_balance_snapshots db),
     db_snapshot_history := filter (\<lambda>r. an_stable_height r \<le> t) (db_snapshot_history db)\<rparr>"

text \<open>\<open>id_text\<close> is the \<open>Display\<close> form of an inscription id, the text the rows are ordered by.\<close>

definition rollback_tables ::
  "(InscriptionId \<Rightarrow> string) \<Rightarrow> u32 \<Rightarrow> (pass_db, unit) op" where
  "rollback_tables id_text t db =
     (let surviving_pass_count = length (filter (\<lambda>m. mp_mint_block_height m \<le> t) (db_passes db));
          rebuilt = rollback_surviving_passes t db
      in if length rebuilt \<noteq> surviving_pass_count
         then (Inl (Err ''Rollback pass rebuild mismatch''), db)
         else if \<not> distinct (map mp_inscription_id rebuilt) \<or> \<not> active_owner_unique rebuilt
         then (Inl (Err ''Failed to restore miner pass current state during rollback''), db)
         else (Inr (), (delete_rows_above t db)\<lparr>
           db_passes := sort_key (\<lambda>m. (mp_mint_block_height m, id_text (mp_inscription_id m)))
             rebuilt\<rparr>))"

definition rollback_to_block_height_internal ::
  "(InscriptionId \<Rightarrow> string) \<Rightarrow> u32 \<Rightarrow> BalanceHistorySnapshotInfo option \<Rightarrow> bool \<Rightarrow>
   (pass_store, unit) op" where
  "rollback_to_block_height_internal id_text target_height target_anchor mark_pending =
     bindR (guardR (case target_anchor of None \<Rightarrow> True
                    | Some anchor \<Rightarrow> sn_stable_height anchor = target_height)
              (Err ''Rollback target anchor height mismatch'')) (\<lambda>_.
     in_transaction (
       bindR (rollback_tables id_text target_height) (\<lambda>_.
       bindR (modify clear_balance_history_snapshot_anchor_with_conn) (\<lambda>_.
       bindR (case target_anchor of
                Some anchor \<Rightarrow> upsert_balance_history_snapshot_anchor_with_conn anchor
              | None \<Rightarrow> modify (upsert_numeric_state BTC_SYNCED_BLOCK_HEIGHT_KEY
                          (i64_of_u32 target_height))) (\<lambda>_.
       modify (if mark_pending then mark_upstream_reorg_recovery_pending target_height
               else delete_numeric_state UPSTREAM_REORG_RECOVERY_PENDING_HEIGHT_KEY))))))"

definition rollback_to_block_height ::
  "(InscriptionId \<Rightarrow> string) \<Rightarrow> u32 \<Rightarrow> BalanceHistorySnapshotInfo option \<Rightarrow> (pass_store, unit) op" where
  "rollback_to_block_height id_text target_height target_anchor =
     rollback_to_block_height_internal id_text target_height target_anchor False"

definition rollback_to_block_height_with_upstream_reorg_recovery_pending ::
  "(InscriptionId \<Rightarrow> string) \<Rightarrow> u32 \<Rightarrow> BalanceHistorySnapshotInfo option \<Rightarrow> (pass_store, unit) op" where
  "rollback_to_block_height_with_upstream_reorg_recovery_pending id_text target_height target_anchor =
     rollback_to_block_height_internal id_text target_height target_anchor True"

section \<open>The future-data guard\<close>

definition assert_no_data_after_block_height :: "u32 \<Rightarrow> pass_db \<Rightarrow> unit result" where
  "assert_no_data_after_block_height block_height db =
     (let synced = get_numeric_state BTC_SYNCED_BLOCK_HEIGHT_KEY db;
          anchor = get_numeric_state BALANCE_HISTORY_SNAPSHOT_HEIGHT_KEY db
      in if (case synced of None \<Rightarrow> False | Some v \<Rightarrow> sint v < 0)
      then Inl (Err ''Invalid negative synced block height'')
      else if (case synced of None \<Rightarrow> False | Some v \<Rightarrow> block_height < u32_of_i64 v)
      then Inl (Err ''Future synced height detected'')
      else if list_ex (\<lambda>m. block_height < mp_mint_block_height m) (db_passes db)
      then Inl (Err ''Future miner pass data exists'')
      else if list_ex (\<lambda>r. block_height < ab_block_height r) (db_balance_snapshots db)
      then Inl (Err ''Future active balance snapshot exists'')
      else if list_ex (\<lambda>r. block_height < ph_block_height r) (db_history db)
      then Inl (Err ''Future miner pass history exists'')
      else if list_ex (\<lambda>r. block_height < pc_block_height r) (db_commits db)
      then Inl (Err ''Future pass block commit exists'')
      else if (case anchor of None \<Rightarrow> False | Some v \<Rightarrow> sint v < 0)
      then Inl (Err ''Invalid negative balance-history snapshot anchor height'')
      else if (case anchor of None \<Rightarrow> False | Some v \<Rightarrow> block_height < u32_of_i64 v)
      then Inl (Err ''Future balance-history snapshot anchor exists'')
      else if list_ex (\<lambda>r. block_height < an_stable_height r) (db_snapshot_history db)
      then Inl (Err ''Future balance-history snapshot history exists'')
      else Inr ())"

section \<open>Consistency of the tables\<close>

text \<open>
  \<open>pass_db_ok\<close>: the keys and the unique index of the schema; history ids ascend along the table
  and stay below the autoincrement counter.
\<close>

definition pass_db_ok :: "pass_db \<Rightarrow> bool" where
  "pass_db_ok db \<longleftrightarrow>
     distinct (map mp_inscription_id (db_passes db)) \<and>
     active_owner_unique (db_passes db) \<and>
     sorted_wrt (<) (map ph_id (db_history db)) \<and>
     (\<forall>r \<in> set (db_history db). ph_id r \<le> db_history_seq db) \<and>
     distinct (map ab_block_height (db_balance_snapshots db)) \<and>
     distinct (map pc_block_height (db_commits db)) \<and>
     distinct (map an_stable_height (db_snapshot_history db))"

text \<open>The latest event of a pass, the last row of its history.\<close>

definition last_event :: "InscriptionId \<Rightarrow> PassHistoryRow list \<Rightarrow> PassHistoryRow option" where
  "last_event i rows = find (\<lambda>r. ph_inscription_id r = i) (rev rows)"

text \<open>The current row of a pass shows what its latest event recorded.\<close>

definition row_matches :: "MinerPassInfo \<Rightarrow> PassHistoryRow \<Rightarrow> bool" where
  "row_matches m h \<longleftrightarrow> mp_state m = ph_new_state h \<and> mp_owner m = ph_new_owner h \<and>
     mp_satpoint m = ph_new_satpoint h"

definition view_is_history :: "pass_db \<Rightarrow> bool" where
  "view_is_history db \<longleftrightarrow>
     (\<forall>m \<in> set (db_passes db). \<exists>h. last_event (mp_inscription_id m) (db_history db) = Some h \<and>
        row_matches m h) \<and>
     (\<forall>r \<in> set (db_history db). ph_inscription_id r \<in> mp_inscription_id ` set (db_passes db))"

text \<open>Each table that is keyed by a height meets the contract of a keyed table.\<close>

interpretation commits: keyed_table pc_block_height db_commits pass_db_ok
    upsert_pass_block_commit delete_rows_above
  by unfold_locales (auto simp: pass_db_ok_def upsert_pass_block_commit_def delete_rows_above_def)

interpretation snapshot_rows: keyed_table an_stable_height db_snapshot_history pass_db_ok
    upsert_balance_history_snapshot_history delete_rows_above
  by unfold_locales
    (auto simp: pass_db_ok_def upsert_balance_history_snapshot_history_def delete_rows_above_def)

interpretation balances: keyed_table ab_block_height db_balance_snapshots pass_db_ok
    upsert_balance_row delete_rows_above
  by unfold_locales (auto simp: pass_db_ok_def upsert_balance_row_def delete_rows_above_def)

lemma last_event_None_iff: "last_event i rows = None \<longleftrightarrow> (\<forall>r \<in> set rows. ph_inscription_id r \<noteq> i)"
  by (auto simp: last_event_def find_None_iff)

lemma last_event_append:
  "last_event i (rows @ [r]) = (if ph_inscription_id r = i then Some r else last_event i rows)"
  by (simp add: last_event_def)

lemma last_event_in: "last_event i rows = Some h \<Longrightarrow> h \<in> set rows \<and> ph_inscription_id h = i"
  using find_Some_iff [of "\<lambda>r. ph_inscription_id r = i" "rev rows" h]
  by (auto simp: last_event_def) (metis length_rev nth_mem set_rev)

lemma active_owner_unique_append:
  "active_owner_unique (rows @ [m]) \<longleftrightarrow> active_owner_unique rows \<and>
     (mp_state m = Active \<longrightarrow> (\<forall>x \<in> set rows. mp_state x = Active \<longrightarrow> mp_owner x \<noteq> mp_owner m))"
  by (cases "mp_state m = Active") (auto simp: active_owner_unique_def image_iff dest: sym)

lemma active_owner_uniqueD:
  "active_owner_unique rows \<Longrightarrow> distinct (map mp_inscription_id rows) \<Longrightarrow>
    x \<in> set rows \<Longrightarrow> y \<in> set rows \<Longrightarrow> mp_state x = Active \<Longrightarrow> mp_state y = Active \<Longrightarrow>
    mp_owner x = mp_owner y \<Longrightarrow> x = y"
  unfolding active_owner_unique_def by (auto simp: distinct_map inj_on_def)

subsection \<open>Height-stamped writes\<close>

text \<open>The five writes a pass goes through, as a step relation stamped with the block height.\<close>

inductive pass_write :: "u32 \<Rightarrow> pass_db \<Rightarrow> pass_db \<Rightarrow> bool" where
  mint: "add_new_mint_pass_at_height info h db = (Inr (), db') \<Longrightarrow>
    mp_mint_block_height info = h \<Longrightarrow> pass_write h db db'"
| invalid_mint: "add_invalid_mint_pass_at_height info h db = (Inr (), db') \<Longrightarrow>
    mp_mint_block_height info = h \<Longrightarrow> pass_write h db db'"
| transfer: "transfer_owner_at_height i own sp h db = (Inr (), db') \<Longrightarrow> pass_write h db db'"
| satpoint: "update_satpoint_at_height i sp sp' h db = (Inr (), db') \<Longrightarrow> pass_write h db db'"
| state: "update_state_at_height i st st' h db = (Inr (), db') \<Longrightarrow> pass_write h db db'"
| commit: "pc_block_height e = h \<Longrightarrow> pass_write h db (upsert_pass_block_commit e db)"
| balance: "pass_write h db (upsert_active_balance_snapshot h bal n db)"
| anchor_row: "an_stable_height a = h \<Longrightarrow>
    pass_write h db (upsert_balance_history_snapshot_history a db)"
| synced: "pass_write h db (update_synced_btc_block_height h db)"

text \<open>
  Every write of a pass row has the same shape: one row of the table is added or replaced, under
  the unique index, and one event is appended that records the new values of that row.
\<close>

definition push_event :: "PassHistoryRow \<Rightarrow> pass_db \<Rightarrow> pass_db" where
  "push_event r db = db\<lparr>db_history_seq := Suc (db_history_seq db), db_history := db_history db @ [r]\<rparr>"

lemma append_pass_history_event_push:
  "append_pass_history_event i h ty ps ns po no psp nsp db =
    (Inr (), push_event \<lparr>ph_id = Suc (db_history_seq db), ph_inscription_id = i, ph_block_height = h,
       ph_event_type = ty, ph_prev_state = ps, ph_new_state = ns, ph_prev_owner = po,
       ph_new_owner = no, ph_prev_satpoint = psp, ph_new_satpoint = nsp\<rparr> db)"
  by (simp add: append_pass_history_event_def push_event_def)

definition row_insert :: "u32 \<Rightarrow> MinerPassInfo \<Rightarrow> pass_db \<Rightarrow> pass_db \<Rightarrow> bool" where
  "row_insert h m db db' \<longleftrightarrow>
     mp_inscription_id m \<notin> mp_inscription_id ` set (db_passes db) \<and>
     active_owner_unique (db_passes db @ [m]) \<and> mp_mint_block_height m = h \<and>
     (\<exists>r. db' = push_event r (db\<lparr>db_passes := db_passes db @ [m]\<rparr>) \<and>
        ph_id r = Suc (db_history_seq db) \<and> ph_inscription_id r = mp_inscription_id m \<and>
        ph_block_height r = h \<and> row_matches m r)"

definition row_replace :: "u32 \<Rightarrow> MinerPassInfo \<Rightarrow> MinerPassInfo \<Rightarrow> pass_db \<Rightarrow> pass_db \<Rightarrow> bool" where
  "row_replace h m m' db db' \<longleftrightarrow>
     m \<in> set (db_passes db) \<and> mp_inscription_id m' = mp_inscription_id m \<and>
     (\<exists>r. m' = rebuild_pass m r \<and>
        active_owner_unique (map (\<lambda>x. if x = m then m' else x) (db_passes db)) \<and>
        db' = push_event r (db\<lparr>db_passes := map (\<lambda>x. if x = m then m' else x) (db_passes db)\<rparr>) \<and>
        ph_id r = Suc (db_history_seq db) \<and> ph_inscription_id r = mp_inscription_id m \<and>
        ph_block_height r = h)"

lemma insert_write:
  "insert_pass_record m db = (Inr (), db1) \<Longrightarrow>
   append_pass_history_event (mp_inscription_id m) h ty None (mp_state m) None (mp_owner m) None
     (mp_satpoint m) db1 = (Inr (), db') \<Longrightarrow> mp_mint_block_height m = h \<Longrightarrow> row_insert h m db db'"
  by (auto simp: insert_pass_record_def append_pass_history_event_push row_insert_def row_matches_def
      split: if_splits)

lemma mint_write:
  "add_new_mint_pass_at_height m h db = (Inr (), db') \<Longrightarrow> mp_mint_block_height m = h \<Longrightarrow>
    row_insert h m db db' \<and> mp_state m = Active"
  by (auto simp: add_new_mint_pass_at_height_def add_new_mint_pass_def bindR_Inr_eq
      intro: insert_write split: if_splits)

lemma invalid_mint_write:
  "add_invalid_mint_pass_at_height m h db = (Inr (), db') \<Longrightarrow> mp_mint_block_height m = h \<Longrightarrow>
    row_insert h m db db' \<and> mp_state m = Invalid"
  by (auto simp: add_invalid_mint_pass_at_height_def add_invalid_mint_pass_def bindR_Inr_eq
      intro: insert_write split: if_splits)

lemma require_pass_Inr:
  "require_pass i msg db = (Inr m, db') \<longleftrightarrow> db' = db \<and> get_pass_by_inscription_id i db = Some m"
  by (auto simp: require_pass_def require_def split: option.splits)

text \<open>An update that selects by inscription id touches exactly the row that was read.\<close>

lemma map_update_row:
  assumes "distinct (map mp_inscription_id rows)" and "m \<in> set rows"
  shows "map (\<lambda>x. if mp_inscription_id x = mp_inscription_id m \<and> Q x then f x else x) rows =
    (if Q m then map (\<lambda>x. if x = m then f m else x) rows else rows)"
proof -
  have "mp_inscription_id x = mp_inscription_id m \<longleftrightarrow> x = m" if "x \<in> set rows" for x
    using assms that by (metis distinct_map inj_onD)
  then show ?thesis by (auto cong: map_cong intro!: map_idI)
qed

lemma update_passes_row:
  assumes "pass_db_ok db" and "m \<in> set (db_passes db)"
    and "update_passes (\<lambda>x. mp_inscription_id x = mp_inscription_id m \<and> Q x) f msg db = (Inr n, db1)"
    and "n \<noteq> 0"
  shows "Q m" and "active_owner_unique (map (\<lambda>x. if x = m then f m else x) (db_passes db))"
    and "db1 = db\<lparr>db_passes := map (\<lambda>x. if x = m then f m else x) (db_passes db)\<rparr>"
proof -
  have d: "distinct (map mp_inscription_id (db_passes db))"
    using assms(1) by (simp add: pass_db_ok_def)
  have n: "n = length (filter (\<lambda>x. mp_inscription_id x = mp_inscription_id m \<and> Q x) (db_passes db))"
    using assms(3) by (auto simp: update_passes_def Let_def split: if_splits)
  with assms(4) obtain x where "x \<in> set (db_passes db)" "mp_inscription_id x = mp_inscription_id m" "Q x"
    by (auto simp: filter_empty_conv)
  with d assms(2) show Q: "Q m" by (metis distinct_map inj_onD)
  from assms(3) Q show "active_owner_unique (map (\<lambda>x. if x = m then f m else x) (db_passes db))"
    and "db1 = db\<lparr>db_passes := map (\<lambda>x. if x = m then f m else x) (db_passes db)\<rparr>"
    by (auto simp: update_passes_def Let_def map_update_row [OF d assms(2)] split: if_splits)
qed

lemma get_pass_Some:
  "pass_db_ok db \<Longrightarrow> get_pass_by_inscription_id i db = Some m \<longleftrightarrow>
    m \<in> set (db_passes db) \<and> mp_inscription_id m = i"
  by (simp add: get_pass_by_inscription_id_def select_key_iff pass_db_ok_def)

lemma event_row_replace:
  assumes "m \<in> set (db_passes db)"
    and "active_owner_unique (map (\<lambda>x. if x = m then m' else x) (db_passes db))"
    and "db1 = db\<lparr>db_passes := map (\<lambda>x. if x = m then m' else x) (db_passes db)\<rparr>"
    and "append_pass_history_event (mp_inscription_id m) h ty ps ns po no psp nsp db1 = (Inr (), db')"
    and "m' = m\<lparr>mp_satpoint := nsp, mp_owner := no, mp_state := ns\<rparr>"
  shows "row_replace h m m' db db'"
  unfolding row_replace_def
proof (intro conjI exI)
  let ?r = "\<lparr>ph_id = Suc (db_history_seq db), ph_inscription_id = mp_inscription_id m,
    ph_block_height = h, ph_event_type = ty, ph_prev_state = ps, ph_new_state = ns,
    ph_prev_owner = po, ph_new_owner = no, ph_prev_satpoint = psp, ph_new_satpoint = nsp\<rparr>"
  show "db' = push_event ?r (db\<lparr>db_passes := map (\<lambda>x. if x = m then m' else x) (db_passes db)\<rparr>)"
    using assms(3,4) by (simp add: append_pass_history_event_push)
  show "m' = rebuild_pass m ?r" using assms(5) by (simp add: rebuild_pass_def)
qed (use assms in simp_all)

lemma transfer_write:
  assumes "pass_db_ok db" and "transfer_owner_at_height i own sp h db = (Inr (), db')"
  shows "\<exists>m. get_pass_by_inscription_id i db = Some m \<and>
    row_replace h m (m\<lparr>mp_owner := own, mp_satpoint := sp\<rparr>) db db'"
proof -
  from assms(2) obtain m n db1 where m: "get_pass_by_inscription_id i db = Some m"
    and u: "update_passes (\<lambda>x. mp_inscription_id x = i \<and> True)
      (\<lambda>m. m\<lparr>mp_owner := own, mp_satpoint := sp\<rparr>)
      ''Failed to transfer miner pass owner in database'' db = (Inr n, db1)" and n: "n \<noteq> 0"
    and a: "append_pass_history_event i h PASS_HISTORY_EVENT_OWNER_TRANSFER
       (Some (mp_state m)) (mp_state m) (Some (mp_owner m)) own (Some (mp_satpoint m)) sp db1
       = (Inr (), db')"
    by (auto simp: transfer_owner_at_height_def transfer_owner_def bindR_Inr_eq require_pass_Inr
        split: if_splits)
  from m assms(1) have mi: "m \<in> set (db_passes db)" "i = mp_inscription_id m"
    by (simp_all add: get_pass_Some)
  note w = update_passes_row [OF assms(1) mi(1) u [unfolded mi(2)] n]
  have "row_replace h m (m\<lparr>mp_owner := own, mp_satpoint := sp\<rparr>) db db'"
    by (rule event_row_replace [OF mi(1) w(2,3) a [unfolded mi(2)]]) simp
  with m show ?thesis by blast
qed

lemma satpoint_write:
  assumes "pass_db_ok db" and "update_satpoint_at_height i sp sp' h db = (Inr (), db')"
  shows "\<exists>m. get_pass_by_inscription_id i db = Some m \<and> mp_satpoint m = sp \<and>
    row_replace h m (m\<lparr>mp_satpoint := sp'\<rparr>) db db'"
proof -
  from assms(2) obtain m n db1 where m: "get_pass_by_inscription_id i db = Some m"
    and u: "update_passes (\<lambda>x. mp_inscription_id x = i \<and> mp_satpoint x = sp)
      (\<lambda>m. m\<lparr>mp_satpoint := sp'\<rparr>)
      ''Failed to update miner pass satpoint in database'' db = (Inr n, db1)" and n: "n \<noteq> 0"
    and a: "append_pass_history_event i h PASS_HISTORY_EVENT_SATPOINT_UPDATE
       (Some (mp_state m)) (mp_state m) (Some (mp_owner m)) (mp_owner m) (Some (mp_satpoint m)) sp' db1
       = (Inr (), db')"
    by (auto simp: update_satpoint_at_height_def update_satpoint_def bindR_Inr_eq require_pass_Inr
        split: if_splits)
  from m assms(1) have mi: "m \<in> set (db_passes db)" "i = mp_inscription_id m"
    by (simp_all add: get_pass_Some)
  note w = update_passes_row [OF assms(1) mi(1) u [unfolded mi(2)] n]
  have "row_replace h m (m\<lparr>mp_satpoint := sp'\<rparr>) db db'"
    by (rule event_row_replace [OF mi(1) w(2,3) a [unfolded mi(2)]]) simp
  with m w(1) show ?thesis by blast
qed

lemma state_write:
  assumes "pass_db_ok db" and "update_state_at_height i st st0 h db = (Inr (), db')"
  shows "\<exists>m. get_pass_by_inscription_id i db = Some m \<and> mp_state m = st0 \<and>
    row_replace h m (m\<lparr>mp_state := st\<rparr>) db db'"
proof -
  from assms(2) obtain m n db1 where m: "get_pass_by_inscription_id i db = Some m"
    and u: "update_passes (\<lambda>x. mp_inscription_id x = i \<and> mp_state x = st0)
      (\<lambda>m. m\<lparr>mp_state := st\<rparr>)
      ''Failed to update miner pass state in database'' db = (Inr n, db1)" and n: "n \<noteq> 0"
    and a: "append_pass_history_event i h PASS_HISTORY_EVENT_STATE_UPDATE
       (Some (mp_state m)) st (Some (mp_owner m)) (mp_owner m) (Some (mp_satpoint m)) (mp_satpoint m)
       db1 = (Inr (), db')"
    by (auto simp: update_state_at_height_def update_state_def bindR_Inr_eq require_pass_Inr
        split: if_splits)
  from m assms(1) have mi: "m \<in> set (db_passes db)" "i = mp_inscription_id m"
    by (simp_all add: get_pass_Some)
  note w = update_passes_row [OF assms(1) mi(1) u [unfolded mi(2)] n]
  have "row_replace h m (m\<lparr>mp_state := st\<rparr>) db db'"
    by (rule event_row_replace [OF mi(1) w(2,3) a [unfolded mi(2)]]) simp
  with m w(1) show ?thesis by blast
qed

text \<open>So every step inserts a row, replaces a row, or leaves passes and history alone.\<close>

definition side_tables_write :: "u32 \<Rightarrow> pass_db \<Rightarrow> pass_db \<Rightarrow> bool" where
  "side_tables_write h db db' \<longleftrightarrow>
     db_passes db' = db_passes db \<and> db_history db' = db_history db \<and>
     db_history_seq db' = db_history_seq db \<and>
     (db_commits db' = db_commits db \<or>
        (\<exists>e. pc_block_height e = h \<and> db_commits db' = upsert_by pc_block_height e (db_commits db))) \<and>
     (db_balance_snapshots db' = db_balance_snapshots db \<or>
        (\<exists>e. ab_block_height e = h \<and>
          db_balance_snapshots db' = upsert_by ab_block_height e (db_balance_snapshots db))) \<and>
     (db_snapshot_history db' = db_snapshot_history db \<or>
        (\<exists>e. an_stable_height e = h \<and>
          db_snapshot_history db' = upsert_by an_stable_height e (db_snapshot_history db)))"

lemma pass_write_cases:
  assumes "pass_write h db db'" and "pass_db_ok db"
  obtains (ins) m where "row_insert h m db db'"
    | (repl) m m' where "row_replace h m m' db db'"
    | (side) "side_tables_write h db db'"
  using assms
proof (cases rule: pass_write.cases)
  case (mint info) then show ?thesis using mint_write ins by blast
next
  case (invalid_mint info) then show ?thesis using invalid_mint_write ins by blast
next
  case (transfer i own sp) then show ?thesis using transfer_write assms(2) repl by blast
next
  case (satpoint i sp sp') then show ?thesis using satpoint_write assms(2) repl by blast
next
  case (state i st st') then show ?thesis using state_write assms(2) repl by blast
next
  case (commit e)
  then show ?thesis by (intro side) (auto simp: side_tables_write_def upsert_pass_block_commit_def)
next
  case (balance bal n)
  let ?e = "\<lparr>ab_block_height = h, ab_total_balance = bal, ab_active_address_count = i64_of_u32 n\<rparr>"
  have "\<exists>e. ab_block_height e = h \<and>
      db_balance_snapshots db' = upsert_by ab_block_height e (db_balance_snapshots db)"
    by (rule exI [of _ ?e]) (simp add: balance upsert_active_balance_snapshot_def upsert_balance_row_def)
  with balance show ?thesis
    by (intro side) (simp add: side_tables_write_def upsert_active_balance_snapshot_def upsert_balance_row_def)
next
  case (anchor_row a)
  then show ?thesis
    by (intro side) (auto simp: side_tables_write_def upsert_balance_history_snapshot_history_def)
next
  case synced
  then show ?thesis by (intro side) (auto simp: side_tables_write_def state_defs)
qed

subsection \<open>The writes keep the tables consistent\<close>

lemma push_event_simps [simp]:
  "db_passes (push_event r db) = db_passes db"
  "db_history (push_event r db) = db_history db @ [r]"
  "db_history_seq (push_event r db) = Suc (db_history_seq db)"
  "db_commits (push_event r db) = db_commits db"
  "db_balance_snapshots (push_event r db) = db_balance_snapshots db"
  "db_snapshot_history (push_event r db) = db_snapshot_history db"
  "db_state (push_event r db) = db_state db"
  "db_state_text (push_event r db) = db_state_text db"
  by (simp_all add: push_event_def)

lemma history_ids_push:
  "sorted_wrt (<) (map ph_id rows) \<Longrightarrow> \<forall>r \<in> set rows. ph_id r \<le> n \<Longrightarrow> ph_id x = Suc n \<Longrightarrow>
    sorted_wrt (<) (map ph_id (rows @ [x])) \<and> (\<forall>r \<in> set (rows @ [x]). ph_id r \<le> Suc n)"
  by (auto simp: sorted_wrt_append le_imp_less_Suc)

lemma map_ids_replace:
  "mp_inscription_id m' = mp_inscription_id m \<Longrightarrow>
    map mp_inscription_id (map (\<lambda>x. if x = m then m' else x) rows) = map mp_inscription_id rows"
  by (simp add: o_def)

lemma row_insert_ok: "row_insert h m db db' \<Longrightarrow> pass_db_ok db \<Longrightarrow> pass_db_ok db'"
  unfolding row_insert_def pass_db_ok_def
  using history_ids_push [of "db_history db" "db_history_seq db"] by fastforce

lemma row_replace_ok: "row_replace h m m' db db' \<Longrightarrow> pass_db_ok db \<Longrightarrow> pass_db_ok db'"
  unfolding row_replace_def pass_db_ok_def
  using history_ids_push [of "db_history db" "db_history_seq db"]
  by (fastforce simp del: map_map simp: map_ids_replace)

lemma side_tables_write_ok: "side_tables_write h db db' \<Longrightarrow> pass_db_ok db \<Longrightarrow> pass_db_ok db'"
  unfolding side_tables_write_def pass_db_ok_def by (auto simp: distinct_upsert_by)

lemma pass_write_ok: "pass_write h db db' \<Longrightarrow> pass_db_ok db \<Longrightarrow> pass_db_ok db'"
  by (erule pass_write_cases)
    (auto intro: row_insert_ok row_replace_ok side_tables_write_ok)

lemma row_insert_view: "row_insert h m db db' \<Longrightarrow> view_is_history db \<Longrightarrow> view_is_history db'"
  unfolding row_insert_def view_is_history_def by (force simp: last_event_append)

lemma row_replace_view:
  assumes "row_replace h m m' db db'" and "pass_db_ok db" and "view_is_history db"
  shows "view_is_history db'"
proof -
  from assms(1) obtain r where r: "m \<in> set (db_passes db)" "m' = rebuild_pass m r"
    "mp_inscription_id m' = mp_inscription_id m" "ph_inscription_id r = mp_inscription_id m"
    and db': "db' = push_event r (db\<lparr>db_passes := map (\<lambda>x. if x = m then m' else x) (db_passes db)\<rparr>)"
    unfolding row_replace_def by blast
  have other: "mp_inscription_id x \<noteq> mp_inscription_id m" if "x \<in> set (db_passes db)" "x \<noteq> m" for x
    using assms(2) r(1) that unfolding pass_db_ok_def by (metis distinct_map inj_onD)
  have rm: "row_matches m' r" using r(2) by (simp add: row_matches_def rebuild_pass_def)
  have "\<exists>h. last_event (mp_inscription_id x) (db_history db @ [r]) = Some h \<and> row_matches x h"
    if "x \<in> set (map (\<lambda>x. if x = m then m' else x) (db_passes db))" for x
  proof -
    from that obtain y where y: "y \<in> set (db_passes db)" "x = (if y = m then m' else y)" by auto
    show ?thesis
    proof (cases "y = m")
      case True then show ?thesis using y r rm by (simp add: last_event_append)
    next
      case False
      then have "x = y" "ph_inscription_id r \<noteq> mp_inscription_id y"
        using y other [of y] r(4) by auto
      with y(1) assms(3) show ?thesis
        by (simp add: last_event_append view_is_history_def)
    qed
  qed
  moreover have "mp_inscription_id ` set (map (\<lambda>x. if x = m then m' else x) (db_passes db)) =
      mp_inscription_id ` set (db_passes db)"
    using map_ids_replace [OF r(3), of "db_passes db"] by (metis list.set_map)
  ultimately show ?thesis
    using assms(3) r(1,4) unfolding db' view_is_history_def
    by (auto simp del: set_map)
qed

lemma pass_write_view:
  assumes "pass_write h db db'" and "pass_db_ok db" and "view_is_history db"
  shows "view_is_history db'"
  using assms(1,2)
proof (cases rule: pass_write_cases)
  case (ins m) then show ?thesis using assms(3) by (rule row_insert_view)
next
  case (repl m m') then show ?thesis using assms(2,3) by (rule row_replace_view)
next
  case side then show ?thesis using assms(3) by (simp add: side_tables_write_def view_is_history_def)
qed

subsection \<open>Runs of writes above a height\<close>

inductive writes_above :: "u32 \<Rightarrow> pass_db \<Rightarrow> pass_db \<Rightarrow> bool" for t where
  none: "writes_above t db db"
| step: "writes_above t db db1 \<Longrightarrow> pass_write h db1 db2 \<Longrightarrow> t < h \<Longrightarrow> writes_above t db db2"

lemma writes_above_ok: "writes_above t db db' \<Longrightarrow> pass_db_ok db \<Longrightarrow> pass_db_ok db'"
  by (induction rule: writes_above.induct) (auto intro: pass_write_ok)

lemma writes_above_trans: "writes_above t db1 db2 \<Longrightarrow> writes_above t db db1 \<Longrightarrow> writes_above t db db2"
  by (induction rule: writes_above.induct) (auto intro: writes_above.intros)

text \<open>What a run above \<open>t\<close> cannot change of a database whose data lies at or below \<open>t\<close>.\<close>

definition mutable_from :: "MinerPassInfo \<Rightarrow> MinerPassInfo \<Rightarrow> MinerPassInfo" where
  "mutable_from m0 m =
     m\<lparr>mp_satpoint := mp_satpoint m0, mp_owner := mp_owner m0, mp_state := mp_state m0\<rparr>"

definition restorable :: "u32 \<Rightarrow> pass_db \<Rightarrow> pass_db \<Rightarrow> bool" where
  "restorable t db0 db \<longleftrightarrow>
     filter (\<lambda>r. ph_block_height r \<le> t) (db_history db) = db_history db0 \<and>
     filter (\<lambda>r. pc_block_height r \<le> t) (db_commits db) = db_commits db0 \<and>
     filter (\<lambda>r. ab_block_height r \<le> t) (db_balance_snapshots db) = db_balance_snapshots db0 \<and>
     filter (\<lambda>r. an_stable_height r \<le> t) (db_snapshot_history db) = db_snapshot_history db0 \<and>
     list_all2 (\<lambda>m m0. mutable_from m0 m = m0)
       (filter (\<lambda>m. mp_mint_block_height m \<le> t) (db_passes db)) (db_passes db0)"

lemma list_all2_filter_map:
  assumes "\<And>x. P (f x) \<longleftrightarrow> P x" and "\<And>x y. R x y \<Longrightarrow> R (f x) y"
    and "list_all2 R (filter P xs) ys"
  shows "list_all2 R (filter P (map f xs)) ys"
proof -
  have "filter P (map f xs) = map f (filter P xs)"
    using assms(1) by (induction xs) auto
  with assms(2,3) show ?thesis by (auto simp: list_all2_map1 intro: list_all2_mono)
qed

lemma restorable_insert:
  assumes "restorable t db0 db" and "row_insert h m db db'" and "t < h"
  shows "restorable t db0 db'"
  using assms by (auto simp: restorable_def row_insert_def)

lemma restorable_replace:
  assumes "restorable t db0 db" and "row_replace h m m' db db'" and "t < h"
  shows "restorable t db0 db'"
proof -
  from assms(2) obtain r where m': "m' = rebuild_pass m r" and hr: "ph_block_height r = h"
    and db': "db' = push_event r (db\<lparr>db_passes := map (\<lambda>x. if x = m then m' else x) (db_passes db)\<rparr>)"
    unfolding row_replace_def by blast
  have "list_all2 (\<lambda>m m0. mutable_from m0 m = m0)
      (filter (\<lambda>m. mp_mint_block_height m \<le> t) (map (\<lambda>x. if x = m then m' else x) (db_passes db)))
      (db_passes db0)"
    by (rule list_all2_filter_map)
      (use assms(1) in \<open>auto simp: m' rebuild_pass_def mutable_from_def restorable_def\<close>)
  with assms(1,3) hr show ?thesis by (simp add: restorable_def db')
qed

lemma restorable_side:
  assumes "restorable t db0 db" and "side_tables_write h db db'" and "t < h"
  shows "restorable t db0 db'"
proof -
  note f = filter_upsert_by [where P = "\<lambda>k. k \<le> t"]
  from assms(2,3) have "filter (\<lambda>r. pc_block_height r \<le> t) (db_commits db') =
      filter (\<lambda>r. pc_block_height r \<le> t) (db_commits db)"
    by (auto simp: side_tables_write_def f)
  moreover from assms(2,3) have "filter (\<lambda>r. ab_block_height r \<le> t) (db_balance_snapshots db') =
      filter (\<lambda>r. ab_block_height r \<le> t) (db_balance_snapshots db)"
    by (auto simp: side_tables_write_def f)
  moreover from assms(2,3) have "filter (\<lambda>r. an_stable_height r \<le> t) (db_snapshot_history db') =
      filter (\<lambda>r. an_stable_height r \<le> t) (db_snapshot_history db)"
    by (auto simp: side_tables_write_def f)
  ultimately show ?thesis using assms(1,2) by (simp add: restorable_def side_tables_write_def)
qed

definition data_upto :: "u32 \<Rightarrow> pass_db \<Rightarrow> bool" where
  "data_upto t db \<longleftrightarrow>
     (\<forall>m \<in> set (db_passes db). mp_mint_block_height m \<le> t) \<and>
     (\<forall>r \<in> set (db_history db). ph_block_height r \<le> t) \<and>
     (\<forall>r \<in> set (db_commits db). pc_block_height r \<le> t) \<and>
     (\<forall>r \<in> set (db_balance_snapshots db). ab_block_height r \<le> t) \<and>
     (\<forall>r \<in> set (db_snapshot_history db). an_stable_height r \<le> t)"

lemma assert_no_data_data_upto:
  "assert_no_data_after_block_height t db = Inr () \<Longrightarrow> data_upto t db"
  by (auto simp: assert_no_data_after_block_height_def Let_def data_upto_def list_ex_iff not_less
      split: if_splits)

lemma restorable_refl: "data_upto t db \<Longrightarrow> restorable t db db"
  by (auto simp: data_upto_def restorable_def list.rel_refl_strong mutable_from_def)

lemma writes_above_restorable:
  "writes_above t db0 db \<Longrightarrow> data_upto t db0 \<Longrightarrow> pass_db_ok db0 \<Longrightarrow> restorable t db0 db"
proof (induction rule: writes_above.induct)
  case (none db) then show ?case by (simp add: restorable_refl)
next
  case (step db db1 h db2)
  then have ok: "pass_db_ok db1" and r: "restorable t db db1" by (auto intro: writes_above_ok)
  from step.hyps(2) ok show ?case
    by (cases rule: pass_write_cases)
      (use r step.hyps(3) in \<open>auto intro: restorable_insert restorable_replace restorable_side\<close>)
qed

subsection \<open>Rolling back\<close>

lemma latest_history_prune:
  "latest_history t rows = latest_history t (filter (\<lambda>r. ph_block_height r \<le> t) rows)"
  by (auto simp: latest_history_def list_all_iff intro!: filter_cong)

lemma last_event_greatest:
  assumes "sorted_wrt (<) (map ph_id rows)" and "last_event i rows = Some h"
    and "r \<in> set rows" and "ph_inscription_id r = i"
  shows "ph_id r \<le> ph_id h \<and> (ph_id r = ph_id h \<longrightarrow> r = h)"
  using assms
proof (induction rows rule: rev_induct)
  case (snoc x xs)
  then show ?case
    by (fastforce simp: last_event_append sorted_wrt_append split: if_splits dest: last_event_in)
qed simp

lemma filter_singleton:
  "distinct xs \<Longrightarrow> h \<in> set xs \<Longrightarrow> (\<And>x. x \<in> set xs \<Longrightarrow> P x \<longleftrightarrow> x = h) \<Longrightarrow> filter P xs = [h]"
proof (induction xs)
  case (Cons a xs)
  show ?case
  proof (cases "a = h")
    case True
    with Cons.prems have "filter P xs = []" by (auto simp: filter_empty_conv)
    with True Cons.prems show ?thesis by simp
  next
    case False
    with Cons show ?thesis by simp
  qed
qed simp

lemma latest_history_last_event:
  assumes s: "sorted_wrt (<) (map ph_id rows)" and le: "\<forall>r \<in> set rows. ph_block_height r \<le> t"
    and h: "last_event i rows = Some h"
  shows "filter (\<lambda>r. ph_inscription_id r = i) (latest_history t rows) = [h]"
proof -
  have d: "distinct rows" using s by (metis distinct_map strict_sorted_iff)
  have hi: "h \<in> set rows" "ph_inscription_id h = i" using last_event_in [OF h] by simp_all
  have eq: "filter (\<lambda>r. ph_inscription_id r = i) (latest_history t rows) =
      filter (\<lambda>r. ph_inscription_id r = i \<and>
        (\<forall>r' \<in> set rows. ph_inscription_id r' = i \<longrightarrow> ph_id r' \<le> ph_id r)) rows"
    using le by (auto simp: latest_history_def list_all_iff intro!: filter_cong)
  show ?thesis unfolding eq
  proof (rule filter_singleton [OF d hi(1)])
    fix x assume x: "x \<in> set rows"
    show "(ph_inscription_id x = i \<and> (\<forall>r' \<in> set rows. ph_inscription_id r' = i \<longrightarrow> ph_id r' \<le> ph_id x))
        \<longleftrightarrow> x = h"
      using x hi last_event_greatest [OF s h] by (metis order.antisym)
  qed
qed

lemma rebuild_row: "mutable_from m0 m = m0 \<Longrightarrow> row_matches m0 h \<Longrightarrow> rebuild_pass m h = m0"
  by (cases m, cases m0) (simp add: mutable_from_def row_matches_def rebuild_pass_def)

lemma concat_map_singletons:
  "list_all2 (\<lambda>x y. f x = [y]) xs ys \<Longrightarrow> concat (map f xs) = ys"
  by (induction rule: list_all2_induct) auto

text \<open>The rows rebuilt from the history are the rows that were there at the target height.\<close>

lemma rollback_surviving_passes_eq:
  assumes ok: "pass_db_ok db0" and v: "view_is_history db0" and d: "data_upto t db0"
    and r: "restorable t db0 db"
  shows "rollback_surviving_passes t db = db_passes db0"
proof -
  let ?ms = "filter (\<lambda>m. mp_mint_block_height m \<le> t) (db_passes db)"
  let ?f = "\<lambda>m. map (rebuild_pass m)
    (filter (\<lambda>h. ph_inscription_id h = mp_inscription_id m) (latest_history t (db_history db)))"
  have lh: "latest_history t (db_history db) = latest_history t (db_history db0)"
    using r latest_history_prune [of t "db_history db"] by (simp add: restorable_def)
  have "list_all2 (\<lambda>m m0. mutable_from m0 m = m0 \<and> m0 \<in> set (db_passes db0)) ?ms (db_passes db0)"
    using r by (auto simp: restorable_def list_all2_conv_all_nth)
  then have "list_all2 (\<lambda>m m0. ?f m = [m0]) ?ms (db_passes db0)"
  proof (rule list_all2_mono)
    fix m m0 assume a: "mutable_from m0 m = m0 \<and> m0 \<in> set (db_passes db0)"
    then have i: "mp_inscription_id m = mp_inscription_id m0"
      by (metis mutable_from_def MinerPassInfo.select_convs(1) MinerPassInfo.update_convs(6,12,13)
          MinerPassInfo.surjective)
    from a v obtain h where h: "last_event (mp_inscription_id m0) (db_history db0) = Some h"
      "row_matches m0 h" by (auto simp: view_is_history_def)
    with ok d i show "?f m = [m0]"
      using rebuild_row a
      by (simp add: lh latest_history_last_event pass_db_ok_def data_upto_def)
  qed
  then show ?thesis
    unfolding rollback_surviving_passes_def by (rule concat_map_singletons)
qed

text \<open>What the database holds after a rollback to \<open>t\<close>, relative to what it held at \<open>t\<close>.\<close>

definition tables_restored :: "pass_db \<Rightarrow> pass_db \<Rightarrow> bool" where
  "tables_restored db0 db \<longleftrightarrow>
     mset (db_passes db) = mset (db_passes db0) \<and> db_history db = db_history db0 \<and>
     db_commits db = db_commits db0 \<and> db_balance_snapshots db = db_balance_snapshots db0"

lemma rollback_tables_restores:
  assumes "pass_db_ok db0" and "view_is_history db0" and "data_upto t db0"
    and "restorable t db0 db"
  shows "rollback_tables id_text t db = (Inr (), db\<lparr>
      db_history := db_history db0, db_commits := db_commits db0,
      db_balance_snapshots := db_balance_snapshots db0,
      db_snapshot_history := db_snapshot_history db0,
      db_passes := sort_key (\<lambda>m. (mp_mint_block_height m, id_text (mp_inscription_id m)))
        (db_passes db0)\<rparr>)"
proof -
  have "length (filter (\<lambda>m. mp_mint_block_height m \<le> t) (db_passes db)) = length (db_passes db0)"
    using assms(4) by (auto simp: restorable_def dest: list_all2_lengthD)
  with assms show ?thesis
    by (simp add: rollback_tables_def rollback_surviving_passes_eq restorable_def pass_db_ok_def
        delete_rows_above_def)
qed

lemma tables_restored_ok:
  assumes "tables_restored db0 db" and "pass_db_ok db0"
    and "db_history_seq db0 \<le> db_history_seq db" and "distinct (map an_stable_height (db_snapshot_history db))"
  shows "pass_db_ok db"
proof -
  have m: "mset (db_passes db) = mset (db_passes db0)" using assms(1) by (simp add: tables_restored_def)
  have "distinct (map mp_inscription_id (db_passes db))"
    using assms(2) m by (metis mset_map mset_eq_imp_distinct_iff pass_db_ok_def)
  moreover have "active_owner_unique (db_passes db)"
    using assms(2) m unfolding active_owner_unique_def pass_db_ok_def
    by (metis mset_filter mset_map mset_eq_imp_distinct_iff)
  ultimately show ?thesis using assms by (auto simp: tables_restored_def pass_db_ok_def)
qed

lemma tables_restored_view:
  "tables_restored db0 db \<Longrightarrow> view_is_history db0 \<Longrightarrow> view_is_history db"
  using mset_eq_setD [of "db_passes db" "db_passes db0"]
  by (simp add: tables_restored_def view_is_history_def)

lemma tables_restored_get_pass:
  "tables_restored db0 db \<Longrightarrow> pass_db_ok db0 \<Longrightarrow> pass_db_ok db \<Longrightarrow>
    get_pass_by_inscription_id i db = get_pass_by_inscription_id i db0"
  using mset_eq_setD [of "db_passes db" "db_passes db0"]
  by (intro option_eqI_Some) (simp add: get_pass_Some tables_restored_def)

lemma pass_write_seq: "pass_write h db db' \<Longrightarrow> pass_db_ok db \<Longrightarrow> db_history_seq db \<le> db_history_seq db'"
  by (erule pass_write_cases) (auto simp: row_insert_def row_replace_def side_tables_write_def)

lemma writes_above_seq:
  "writes_above t db db' \<Longrightarrow> pass_db_ok db \<Longrightarrow> db_history_seq db \<le> db_history_seq db'"
  by (induction rule: writes_above.induct) (auto intro: writes_above_ok pass_write_seq order_trans)

text \<open>The whole rollback, without an anchor: the database after it.\<close>

definition rolled_back :: "(InscriptionId \<Rightarrow> string) \<Rightarrow> u32 \<Rightarrow> bool \<Rightarrow> pass_db \<Rightarrow> pass_db \<Rightarrow> pass_db" where
  "rolled_back id_text t pending db0 db =
     (if pending then mark_upstream_reorg_recovery_pending t
      else delete_numeric_state UPSTREAM_REORG_RECOVERY_PENDING_HEIGHT_KEY)
     (upsert_numeric_state BTC_SYNCED_BLOCK_HEIGHT_KEY (i64_of_u32 t)
     (clear_balance_history_snapshot_anchor_with_conn (db\<lparr>
       db_history := db_history db0, db_commits := db_commits db0,
       db_balance_snapshots := db_balance_snapshots db0,
       db_snapshot_history := db_snapshot_history db0,
       db_passes := sort_key (\<lambda>m. (mp_mint_block_height m, id_text (mp_inscription_id m)))
         (db_passes db0)\<rparr>)))"

lemma rollback_eq:
  assumes "pass_db_ok db0" and "view_is_history db0" and "data_upto t db0"
    and "restorable t db0 (ps_db s)" and "ps_savepoints s = []"
  shows "rollback_to_block_height_internal id_text t None pending s =
    (Inr (), s\<lparr>ps_db := rolled_back id_text t pending db0 (ps_db s)\<rparr>)"
  using assms(5) rollback_tables_restores [OF assms(1-4), of id_text]
  by (simp add: rollback_to_block_height_internal_def in_transaction_def rolled_back_def)

lemma rolled_back_fields:
  "db_history (rolled_back id_text t p db0 db) = db_history db0"
  "db_commits (rolled_back id_text t p db0 db) = db_commits db0"
  "db_balance_snapshots (rolled_back id_text t p db0 db) = db_balance_snapshots db0"
  "db_snapshot_history (rolled_back id_text t p db0 db) = db_snapshot_history db0"
  "db_history_seq (rolled_back id_text t p db0 db) = db_history_seq db"
  "mset (db_passes (rolled_back id_text t p db0 db)) = mset (db_passes db0)"
  "db_state (rolled_back id_text t p db0 db) BTC_SYNCED_BLOCK_HEIGHT_KEY = Some (i64_of_u32 t)"
  "db_state (rolled_back id_text t p db0 db) BALANCE_HISTORY_SNAPSHOT_HEIGHT_KEY = None"
  "db_state (rolled_back id_text t p db0 db) UPSTREAM_REORG_RECOVERY_PENDING_HEIGHT_KEY =
    (if p then Some (i64_of_u32 t) else None)"
  by (simp_all add: rolled_back_def clear_balance_history_snapshot_anchor_with_conn_def state_defs)

lemma u32_i64_round_trip [simp]: "u32_of_i64 (i64_of_u32 h) = h"
  unfolding u32_of_i64_def i64_of_u32_def
  by (rule bit_word_eqI) (simp add: bit_ucast_iff)

lemma i64_of_u32_nonneg [simp]: "\<not> sint (i64_of_u32 h) < 0"
proof -
  have u: "0 \<le> uint h" "uint h < 2 ^ 32" using uint_lt2p [of h] by simp_all
  then have "signed_take_bit 63 (take_bit 64 (uint h)) = uint h"
    using signed_take_bit_int_eq_self [of 63 "uint h"] order_trans [of "- (2 ^ 63)" 0 "uint h"]
    by (simp add: take_bit_int_eq_self)
  with u show ?thesis
    by (simp add: i64_of_u32_def sint_uint unsigned_ucast_eq)
qed

lemma rolled_back_restored:
  assumes "pass_db_ok db0" and "view_is_history db0" and "data_upto t db0"
    and "db_history_seq db0 \<le> db_history_seq db"
    and db'_def: "db' = rolled_back id_text t p db0 db"
  shows "tables_restored db0 db'" and "pass_db_ok db'" and "view_is_history db'"
    and "assert_no_data_after_block_height t db' = Inr ()"
proof -
  show tr: "tables_restored db0 db'" by (simp add: tables_restored_def db'_def rolled_back_fields)
  show "pass_db_ok db'"
    by (rule tables_restored_ok [OF tr assms(1)])
      (use assms in \<open>simp_all add: db'_def rolled_back_fields pass_db_ok_def\<close>)
  show "view_is_history db'" using tr assms(2) by (rule tables_restored_view)
  have "set (db_passes db') = set (db_passes db0)"
    using tr by (auto simp: tables_restored_def dest: mset_eq_setD)
  with assms(3) show "assert_no_data_after_block_height t db' = Inr ()"
    by (auto simp: assert_no_data_after_block_height_def get_numeric_state_def db'_def
        rolled_back_fields list_ex_iff data_upto_def not_less)
qed

end
