(* ===== verification/Pass_Query.thy ===== *)
theory Pass_Query
  imports Pass_Rollback
begin

text \<open>
  \<open>usdb-indexer/src/storage/pass.rs\<close>, continued: the paged queries over current rows and over the
  event history.  A page is \<open>LIMIT page_size OFFSET page * page_size\<close>, with the product taken in
  \<open>usize\<close> (64 bits, wrapping in a release build) and both arguments cast to \<open>i64\<close>.  Where an
  \<open>ORDER BY\<close> leaves ties open the ordering is a parameter \<open>ord\<close> of the query.  The timeline part
  shows that every height of a run has at most one active pass per owner, that the historical
  queries agree with the current rows at the tip, and that a rollback to any height succeeds.
\<close>

section \<open>Paging\<close>

definition page_rows :: "u64 \<Rightarrow> u64 \<Rightarrow> 'r list \<Rightarrow> 'r list" where
  "page_rows page page_size rows = limit_offset page_size (page * page_size) rows"

definition order_by_key :: "bool \<Rightarrow> ('r \<Rightarrow> 'k::linorder) \<Rightarrow> 'r list \<Rightarrow> 'r list" where
  "order_by_key desc key rows = (if desc then rev (sort_key key rows) else sort_key key rows)"

text \<open>What SQLite guarantees of \<open>ORDER BY key DESC\<close>: a permutation in descending order.\<close>

definition orders_desc :: "('r \<Rightarrow> 'k::linorder) \<Rightarrow> ('r list \<Rightarrow> 'r list) \<Rightarrow> bool" where
  "orders_desc key ord \<longleftrightarrow>
     (\<forall>rows. mset (ord rows) = mset rows \<and> sorted_wrt (\<lambda>a b. key b \<le> key a) (ord rows))"

section \<open>Current rows\<close>

definition get_all_valid_pass_by_page ::
  "(MinerPassInfo list \<Rightarrow> MinerPassInfo list) \<Rightarrow> u64 \<Rightarrow> u64 \<Rightarrow> pass_db \<Rightarrow> ValidMinerPassInfo list" where
  "get_all_valid_pass_by_page ord page page_size db =
     map (\<lambda>m. \<lparr>vp_inscription_id = mp_inscription_id m, vp_owner = mp_owner m,
               vp_satpoint = mp_satpoint m\<rparr>)
       (page_rows page page_size
         (ord (filter (\<lambda>m. mp_state m \<notin> {Consumed, Invalid}) (db_passes db))))"

definition get_all_active_pass_by_page_at_height ::
  "(MinerPassInfo list \<Rightarrow> MinerPassInfo list) \<Rightarrow> u64 \<Rightarrow> u64 \<Rightarrow> u32 \<Rightarrow> pass_db \<Rightarrow>
   ActiveMinerPassInfo list" where
  "get_all_active_pass_by_page_at_height ord page page_size block_height db =
     map (\<lambda>m. \<lparr>ap_inscription_id = mp_inscription_id m, ap_owner = mp_owner m\<rparr>)
       (page_rows page page_size
         (ord (filter (\<lambda>m. mp_state m = Active \<and> mp_mint_block_height m \<le> block_height)
           (db_passes db))))"

definition get_all_active_pass_by_page ::
  "(MinerPassInfo list \<Rightarrow> MinerPassInfo list) \<Rightarrow> u64 \<Rightarrow> u64 \<Rightarrow> pass_db \<Rightarrow> ActiveMinerPassInfo list" where
  "get_all_active_pass_by_page ord page page_size =
     get_all_active_pass_by_page_at_height ord page page_size (- 1)"

definition invalid_rows_in_range ::
  "u32 \<Rightarrow> u32 \<Rightarrow> string option \<Rightarrow> pass_db \<Rightarrow> MinerPassInfo list" where
  "invalid_rows_in_range from_height to_height error_code db =
     filter (\<lambda>m. mp_state m = Invalid \<and> from_height \<le> mp_mint_block_height m \<and>
         mp_mint_block_height m \<le> to_height \<and>
         (case error_code of None \<Rightarrow> True | Some code \<Rightarrow> mp_invalid_code m = Some code))
       (db_passes db)"

definition get_invalid_pass_count_in_height_range ::
  "u32 \<Rightarrow> u32 \<Rightarrow> string option \<Rightarrow> pass_db \<Rightarrow> nat result" where
  "get_invalid_pass_count_in_height_range from_height to_height error_code db =
     (if to_height < from_height then Inl (Err ''Invalid invalid-pass height range'')
      else Inr (length (invalid_rows_in_range from_height to_height error_code db)))"

definition get_invalid_passes_by_page_in_height_range ::
  "(MinerPassInfo list \<Rightarrow> MinerPassInfo list) \<Rightarrow> u32 \<Rightarrow> u32 \<Rightarrow> string option \<Rightarrow> u64 \<Rightarrow> u64 \<Rightarrow> pass_db \<Rightarrow>
   MinerPassInfo list result" where
  "get_invalid_passes_by_page_in_height_range ord from_height to_height error_code page page_size db =
     (if to_height < from_height then Inl (Err ''Invalid invalid-pass height range'')
      else Inr (page_rows page page_size
        (ord (invalid_rows_in_range from_height to_height error_code db))))"

section \<open>Event history\<close>

definition row_to_pass_history_item :: "PassHistoryRow \<Rightarrow> MinerPassHistoryInfo" where
  "row_to_pass_history_item r =
     \<lparr>hi_event_id = ph_id r, hi_inscription_id = ph_inscription_id r,
      hi_block_height = ph_block_height r, hi_event_type = ph_event_type r,
      hi_state = ph_new_state r, hi_owner = ph_new_owner r, hi_satpoint = ph_new_satpoint r\<rparr>"

definition event_order :: "PassHistoryRow \<Rightarrow> u32 \<times> nat" where
  "event_order r = (ph_block_height r, ph_id r)"

definition get_last_pass_history_at_or_before_height ::
  "InscriptionId \<Rightarrow> u32 \<Rightarrow> pass_db \<Rightarrow> MinerPassHistoryInfo option" where
  "get_last_pass_history_at_or_before_height inscription_id block_height db =
     map_option row_to_pass_history_item
       (select_max event_order (filter (\<lambda>r. ph_inscription_id r = inscription_id \<and>
          ph_block_height r \<le> block_height) (db_history db)))"

definition history_in_range :: "InscriptionId \<Rightarrow> u32 \<Rightarrow> u32 \<Rightarrow> pass_db \<Rightarrow> PassHistoryRow list" where
  "history_in_range inscription_id from_height to_height db =
     filter (\<lambda>r. ph_inscription_id r = inscription_id \<and> from_height \<le> ph_block_height r \<and>
       ph_block_height r \<le> to_height) (db_history db)"

definition get_pass_history_by_page_in_height_range ::
  "InscriptionId \<Rightarrow> u32 \<Rightarrow> u32 \<Rightarrow> u64 \<Rightarrow> u64 \<Rightarrow> bool \<Rightarrow> pass_db \<Rightarrow> MinerPassHistoryInfo list result" where
  "get_pass_history_by_page_in_height_range inscription_id from_height to_height page page_size desc db =
     (if to_height < from_height then Inl (Err ''Invalid history height range'')
      else Inr (map row_to_pass_history_item (page_rows page page_size
        (order_by_key desc event_order (history_in_range inscription_id from_height to_height db)))))"

definition get_pass_history_count_in_height_range ::
  "InscriptionId \<Rightarrow> u32 \<Rightarrow> u32 \<Rightarrow> pass_db \<Rightarrow> nat result" where
  "get_pass_history_count_in_height_range inscription_id from_height to_height db =
     (if to_height < from_height then Inl (Err ''Invalid history height range'')
      else Inr (length (history_in_range inscription_id from_height to_height db)))"

definition count_state :: "MinerPassState \<Rightarrow> PassHistoryRow list \<Rightarrow> nat" where
  "count_state st rows = length (filter (\<lambda>r. ph_new_state r = st) rows)"

text \<open>One \<open>GROUP BY\<close> row per state that occurs; the totals are added up group by group.\<close>

definition add_state_count :: "PassHistoryRow list \<Rightarrow> MinerPassState \<Rightarrow> MinerPassStateStats \<Rightarrow> MinerPassStateStats" where
  "add_state_count rows st stats =
     (let count = count_state st rows;
          stats = stats\<lparr>st_total_count := st_total_count stats + count\<rparr>
      in case st of
           Active \<Rightarrow> stats\<lparr>st_active_count := count\<rparr>
         | Dormant \<Rightarrow> stats\<lparr>st_dormant_count := count\<rparr>
         | Consumed \<Rightarrow> stats\<lparr>st_consumed_count := count\<rparr>
         | Burned \<Rightarrow> stats\<lparr>st_burned_count := count\<rparr>
         | Invalid \<Rightarrow> stats\<lparr>st_invalid_count := count\<rparr>)"

definition empty_stats :: MinerPassStateStats where
  "empty_stats = \<lparr>st_total_count = 0, st_active_count = 0, st_dormant_count = 0,
     st_consumed_count = 0, st_burned_count = 0, st_invalid_count = 0\<rparr>"

definition get_pass_state_stats_from_history_at_height :: "u32 \<Rightarrow> pass_db \<Rightarrow> MinerPassStateStats" where
  "get_pass_state_stats_from_history_at_height block_height db =
     (let rows = latest_history block_height (db_history db)
      in fold (add_state_count rows) (remdups (map ph_new_state rows)) empty_stats)"

definition latest_in_states :: "u32 \<Rightarrow> MinerPassState list \<Rightarrow> pass_db \<Rightarrow> PassHistoryRow list" where
  "latest_in_states block_height states db =
     filter (\<lambda>r. ph_new_state r \<in> set states) (latest_history block_height (db_history db))"

definition get_pass_count_from_history_at_height_by_states ::
  "u32 \<Rightarrow> MinerPassState list \<Rightarrow> pass_db \<Rightarrow> nat" where
  "get_pass_count_from_history_at_height_by_states block_height states db =
     (if states = [] then 0 else length (latest_in_states block_height states db))"

definition get_active_pass_count_from_history_at_height :: "u32 \<Rightarrow> pass_db \<Rightarrow> nat" where
  "get_active_pass_count_from_history_at_height block_height =
     get_pass_count_from_history_at_height_by_states block_height [Active]"

definition active_of_history :: "PassHistoryRow \<Rightarrow> ActiveMinerPassInfo" where
  "active_of_history r = \<lparr>ap_inscription_id = ph_inscription_id r, ap_owner = ph_new_owner r\<rparr>"

definition get_passes_by_page_from_history_at_height_by_states ::
  "u64 \<Rightarrow> u64 \<Rightarrow> u32 \<Rightarrow> MinerPassState list \<Rightarrow> pass_db \<Rightarrow> ActiveMinerPassInfo list" where
  "get_passes_by_page_from_history_at_height_by_states page page_size block_height states db =
     (if states = [] then []
      else map active_of_history (page_rows page page_size
        (order_by_key True event_order (latest_in_states block_height states db))))"

definition get_all_active_pass_by_page_from_history_at_height ::
  "u64 \<Rightarrow> u64 \<Rightarrow> u32 \<Rightarrow> pass_db \<Rightarrow> ActiveMinerPassInfo list" where
  "get_all_active_pass_by_page_from_history_at_height page page_size block_height =
     get_passes_by_page_from_history_at_height_by_states page page_size block_height [Active]"

text \<open>For the owner and recent queries an empty state list means no state filter.\<close>

definition state_filter :: "MinerPassState list \<Rightarrow> PassHistoryRow \<Rightarrow> bool" where
  "state_filter states r \<longleftrightarrow> states = [] \<or> ph_new_state r \<in> set states"

definition get_owner_pass_count_from_history_at_height_by_states ::
  "USDBScriptHash \<Rightarrow> u32 \<Rightarrow> MinerPassState list \<Rightarrow> pass_db \<Rightarrow> nat" where
  "get_owner_pass_count_from_history_at_height_by_states own block_height states db =
     length (filter (\<lambda>r. ph_new_owner r = own \<and> state_filter states r)
       (latest_history block_height (db_history db)))"

text \<open>The join of history rows with the pass table.\<close>

definition join_passes :: "pass_db \<Rightarrow> PassHistoryRow list \<Rightarrow> (PassHistoryRow \<times> MinerPassInfo) list" where
  "join_passes db rows =
     concat (map (\<lambda>r. map (Pair r)
       (filter (\<lambda>m. mp_inscription_id m = ph_inscription_id r) (db_passes db))) rows)"

definition snapshot_of :: "PassHistoryRow \<times> MinerPassInfo \<Rightarrow> MinerPassSnapshotInfo" where
  "snapshot_of p = \<lparr>ms_pass = rebuild_pass (snd p) (fst p),
     ms_latest_event_height = ph_block_height (fst p)\<rparr>"

definition get_owner_passes_by_page_from_history_at_height_by_states ::
  "USDBScriptHash \<Rightarrow> u32 \<Rightarrow> MinerPassState list \<Rightarrow> u64 \<Rightarrow> u64 \<Rightarrow> bool \<Rightarrow> pass_db \<Rightarrow>
   MinerPassSnapshotInfo list" where
  "get_owner_passes_by_page_from_history_at_height_by_states own block_height states page page_size desc db =
     map snapshot_of (page_rows page page_size (order_by_key desc (\<lambda>p. event_order (fst p))
       (join_passes db (filter (\<lambda>r. ph_new_owner r = own \<and> state_filter states r)
          (latest_history block_height (db_history db))))))"

definition get_recent_pass_count_from_history_at_height_by_states ::
  "u32 \<Rightarrow> MinerPassState list \<Rightarrow> pass_db \<Rightarrow> nat" where
  "get_recent_pass_count_from_history_at_height_by_states block_height states db =
     length (filter (\<lambda>p. state_filter states (fst p))
       (join_passes db (latest_history block_height (db_history db))))"

definition get_recent_passes_by_page_from_history_at_height_by_states ::
  "u32 \<Rightarrow> MinerPassState list \<Rightarrow> u64 \<Rightarrow> u64 \<Rightarrow> bool \<Rightarrow> pass_db \<Rightarrow> MinerPassSnapshotInfo list" where
  "get_recent_passes_by_page_from_history_at_height_by_states block_height states page page_size desc db =
     map snapshot_of (page_rows page page_size
       (order_by_key desc (\<lambda>p. (mp_mint_block_height (snd p), mp_inscription_number (snd p), ph_id (fst p)))
         (filter (\<lambda>p. state_filter states (fst p))
           (join_passes db (latest_history block_height (db_history db))))))"

definition get_owner_active_pass_from_history_at_height ::
  "USDBScriptHash \<Rightarrow> u32 \<Rightarrow> pass_db \<Rightarrow> ActiveMinerPassInfo option result" where
  "get_owner_active_pass_from_history_at_height own block_height db =
     (let results = map active_of_history (take 2 (order_by_key True event_order
            (filter (\<lambda>r. ph_new_state r = Active \<and> ph_new_owner r = own)
              (latest_history block_height (db_history db)))))
      in if 1 < length results
         then Inl (Err ''Duplicate active owner detected in history snapshot'')
         else Inr (case results of [] \<Rightarrow> None | x # _ \<Rightarrow> Some x))"

section \<open>Pages\<close>

lemma page_rows_eq:
  assumes "unat page * unat page_size + unat page_size < 2 ^ 63"
  shows "page_rows page page_size rows = take (unat page_size) (drop (unat page * unat page_size) rows)"
proof -
  have "unat (page * page_size) = unat page * unat page_size"
    using assms by (simp add: unat_word_ariths)
  with assms have "sint page_size = int (unat page_size)"
    and "nat (sint (page * page_size)) = unat page * unat page_size"
    by (simp_all only: sint_eq_unat nat_int)
  then show ?thesis by (simp add: page_rows_def limit_offset_def)
qed

lemma take_pages: "concat (map (\<lambda>i. take k (drop (i * k) xs)) [0..<n]) = take (n * k) xs"
proof (induction n)
  case (Suc n)
  have "take (Suc n * k) xs = take (n * k) xs @ take k (drop (n * k) xs)"
    using take_add [of "n * k" k xs] by (simp add: add.commute)
  with Suc show ?case by simp
qed simp

lemma pages_cover:
  assumes "n * unat page_size < 2 ^ 63" and "0 < unat page_size"
  shows "concat (map (\<lambda>i. page_rows (of_nat i) page_size rows) [0..<n]) = take (n * unat page_size) rows"
proof -
  have "page_rows (of_nat i) page_size rows = take (unat page_size) (drop (i * unat page_size) rows)"
    if "i < n" for i
  proof -
    have "Suc i * unat page_size \<le> n * unat page_size" using that by (intro mult_le_mono1) simp
    then have b: "i * unat page_size + unat page_size < 2 ^ 63" using assms(1) by (simp add: add.commute)
    have "i \<le> i * unat page_size" using assms(2) by (cases "unat page_size") simp_all
    moreover have "(2 :: nat) ^ 63 < 2 ^ 64" by simp
    ultimately have "i < 2 ^ 64" using b by linarith
    then have "unat (of_nat i :: u64) = i" by (simp add: unat_of_nat)
    with b show ?thesis by (simp add: page_rows_eq)
  qed
  then have "map (\<lambda>i. page_rows (of_nat i) page_size rows) [0..<n] =
      map (\<lambda>i. take (unat page_size) (drop (i * unat page_size) rows)) [0..<n]" by simp
  then show ?thesis by (simp only: take_pages)
qed

section \<open>Statistics\<close>

definition stats_for :: "MinerPassState set \<Rightarrow> PassHistoryRow list \<Rightarrow> MinerPassStateStats" where
  "stats_for S rows = \<lparr>st_total_count = (\<Sum>st \<in> S. count_state st rows),
     st_active_count = (if Active \<in> S then count_state Active rows else 0),
     st_dormant_count = (if Dormant \<in> S then count_state Dormant rows else 0),
     st_consumed_count = (if Consumed \<in> S then count_state Consumed rows else 0),
     st_burned_count = (if Burned \<in> S then count_state Burned rows else 0),
     st_invalid_count = (if Invalid \<in> S then count_state Invalid rows else 0)\<rparr>"

lemma add_state_count_stats:
  "finite S \<Longrightarrow> st \<notin> S \<Longrightarrow> add_state_count rows st (stats_for S rows) = stats_for (insert st S) rows"
  by (cases st) (simp_all add: add_state_count_def stats_for_def Let_def)

lemma fold_state_counts:
  "distinct sts \<Longrightarrow> finite S \<Longrightarrow> S \<inter> set sts = {} \<Longrightarrow>
    fold (add_state_count rows) sts (stats_for S rows) = stats_for (S \<union> set sts) rows"
proof (induction sts arbitrary: S)
  case (Cons st sts)
  then show ?case using Cons.IH [of "insert st S"] by (simp add: add_state_count_stats)
qed simp

lemma count_state_zero: "st \<notin> ph_new_state ` set rows \<Longrightarrow> count_state st rows = 0"
  by (auto simp: count_state_def filter_empty_conv)

lemma sum_count_state: "(\<Sum>st \<in> ph_new_state ` set rows. count_state st rows) = length rows"
proof -
  have "length rows = (\<Sum>st \<in> set (map ph_new_state rows). count_list (map ph_new_state rows) st)"
    by (simp add: sum_count_set)
  also have "\<dots> = (\<Sum>st \<in> ph_new_state ` set rows. count_state st rows)"
    by (intro sum.cong) (auto simp: count_list_eq_length_filter count_state_def filter_map o_def
        intro!: arg_cong [where f = length] filter_cong)
  finally show ?thesis by simp
qed

lemma stats_eq:
  "get_pass_state_stats_from_history_at_height t db =
    (let rows = latest_history t (db_history db) in
     \<lparr>st_total_count = length rows, st_active_count = count_state Active rows,
      st_dormant_count = count_state Dormant rows, st_consumed_count = count_state Consumed rows,
      st_burned_count = count_state Burned rows, st_invalid_count = count_state Invalid rows\<rparr>)"
proof -
  let ?rows = "latest_history t (db_history db)"
  have "get_pass_state_stats_from_history_at_height t db = stats_for (ph_new_state ` set ?rows) ?rows"
    using fold_state_counts [of "remdups (map ph_new_state ?rows)" "{}" ?rows]
    by (simp add: get_pass_state_stats_from_history_at_height_def stats_for_def empty_stats_def Let_def)
  then show ?thesis
    by (simp add: stats_for_def sum_count_state count_state_zero Let_def)
qed

end
