(* ===== verification/Pass_Timeline.thy ===== *)
theory Pass_Timeline
  imports Pass_Query
begin

text \<open>
  The life of the pass database: runs of height-stamped writes with ascending heights and of
  rollbacks.  \<open>timeline_ok\<close> is the invariant of such runs; it says what the history tables promise
  at every height, not only at the tip.
\<close>

section \<open>Latest events\<close>

lemma in_latest_history:
  assumes "sorted_wrt (<) (map ph_id rows)"
  shows "r \<in> set (latest_history t rows) \<longleftrightarrow>
    last_event (ph_inscription_id r) (filter (\<lambda>r. ph_block_height r \<le> t) rows) = Some r"
    (is "?l \<longleftrightarrow> last_event _ ?rows = _")
proof -
  have s: "sorted_wrt (<) (map ph_id ?rows)"
    using assms by (simp add: sorted_wrt_map sorted_wrt_filter)
  have iff: "?l \<longleftrightarrow> r \<in> set ?rows \<and>
      (\<forall>r' \<in> set ?rows. ph_inscription_id r' = ph_inscription_id r \<longrightarrow> ph_id r' \<le> ph_id r)"
    by (auto simp: latest_history_def list_all_iff)
  show ?thesis
  proof
    assume l: ?l
    then obtain h where h: "last_event (ph_inscription_id r) ?rows = Some h"
      using iff last_event_None_iff by fastforce
    with l iff last_event_greatest [OF s h] last_event_in [OF h]
    show "last_event (ph_inscription_id r) ?rows = Some r" by (metis order.antisym)
  next
    assume h: "last_event (ph_inscription_id r) ?rows = Some r"
    then show ?l using iff last_event_greatest [OF s h] last_event_in [OF h] by blast
  qed
qed

lemma distinct_latest_history:
  "sorted_wrt (<) (map ph_id rows) \<Longrightarrow> distinct (latest_history t rows)"
  using distinct_map [of ph_id rows] by (simp add: latest_history_def strict_sorted_iff)

lemma distinct_latest_ids:
  assumes "sorted_wrt (<) (map ph_id rows)"
  shows "distinct (map ph_inscription_id (latest_history t rows))"
  using assms distinct_latest_history in_latest_history [OF assms]
  by (metis (no_types, lifting) distinct_map inj_onI option.inject)

lemma latest_history_filter:
  "latest_history t (filter (\<lambda>r. ph_block_height r \<le> u) rows) = latest_history (min t u) rows"
  unfolding latest_history_def
  by (auto simp: list_all_iff min_def intro!: filter_cong)

lemma latest_history_future:
  "t < ph_block_height r \<Longrightarrow> latest_history t (rows @ [r]) = latest_history t rows"
  by (auto simp: latest_history_def not_le intro!: filter_cong)

section \<open>The invariant\<close>

text \<open>At every height, no owner has two active passes.\<close>

definition snapshots_unique :: "PassHistoryRow list \<Rightarrow> bool" where
  "snapshots_unique rows \<longleftrightarrow>
     (\<forall>t. \<forall>r \<in> set (latest_history t rows). \<forall>r' \<in> set (latest_history t rows).
        ph_new_state r = Active \<and> ph_new_state r' = Active \<and> ph_new_owner r = ph_new_owner r' \<longrightarrow>
        r = r')"

text \<open>The events of a pass start at its mint height.\<close>

definition mint_first :: "pass_db \<Rightarrow> bool" where
  "mint_first db \<longleftrightarrow>
     (\<forall>m \<in> set (db_passes db).
        (\<exists>r \<in> set (db_history db). ph_inscription_id r = mp_inscription_id m \<and>
           ph_block_height r = mp_mint_block_height m) \<and>
        (\<forall>r \<in> set (db_history db). ph_inscription_id r = mp_inscription_id m \<longrightarrow>
           mp_mint_block_height m \<le> ph_block_height r))"

definition timeline_ok :: "pass_db \<Rightarrow> bool" where
  "timeline_ok db \<longleftrightarrow> pass_db_ok db \<and> view_is_history db \<and> mint_first db \<and>
     snapshots_unique (db_history db) \<and> sorted (map ph_block_height (db_history db))"

definition history_upto :: "u32 \<Rightarrow> pass_db \<Rightarrow> bool" where
  "history_upto h db \<longleftrightarrow> (\<forall>r \<in> set (db_history db). ph_block_height r \<le> h)"

text \<open>With all events at or below \<open>t\<close>, the latest events are the current rows.\<close>

lemma latest_is_current:
  assumes ok: "pass_db_ok db" and v: "view_is_history db" and up: "history_upto t db"
    and r: "r \<in> set (latest_history t (db_history db))"
  obtains m where "m \<in> set (db_passes db)" and "mp_inscription_id m = ph_inscription_id r"
    and "row_matches m r"
proof -
  have f: "filter (\<lambda>r. ph_block_height r \<le> t) (db_history db) = db_history db"
    using up by (simp add: history_upto_def)
  have le: "last_event (ph_inscription_id r) (db_history db) = Some r"
    using r ok in_latest_history [of "db_history db" r t] f by (simp add: pass_db_ok_def)
  then have "ph_inscription_id r \<in> mp_inscription_id ` set (db_passes db)"
    using v last_event_in [OF le] by (simp add: view_is_history_def)
  then obtain m where m: "m \<in> set (db_passes db)" "mp_inscription_id m = ph_inscription_id r"
    by (metis imageE)
  moreover from v m le have "row_matches m r" by (auto simp: view_is_history_def)
  ultimately show thesis by (rule that)
qed

lemma current_is_latest:
  assumes ok: "pass_db_ok db" and v: "view_is_history db" and up: "history_upto t db"
    and m: "m \<in> set (db_passes db)"
  obtains r where "r \<in> set (latest_history t (db_history db))"
    and "ph_inscription_id r = mp_inscription_id m" and "row_matches m r"
proof -
  from v m obtain r where r: "last_event (mp_inscription_id m) (db_history db) = Some r"
    "row_matches m r" by (auto simp: view_is_history_def)
  have f: "filter (\<lambda>r. ph_block_height r \<le> t) (db_history db) = db_history db"
    using up by (simp add: history_upto_def)
  have "ph_inscription_id r = mp_inscription_id m" using last_event_in [OF r(1)] by simp
  moreover have "r \<in> set (latest_history t (db_history db))"
    using r ok in_latest_history [of "db_history db" r t] f calculation by (simp add: pass_db_ok_def)
  ultimately show thesis using r(2) that by blast
qed

lemma tip_unique:
  assumes ok: "pass_db_ok db" and v: "view_is_history db" and up: "history_upto t db"
    and r: "r \<in> set (latest_history t (db_history db))" "r' \<in> set (latest_history t (db_history db))"
    and a: "ph_new_state r = Active" "ph_new_state r' = Active" "ph_new_owner r = ph_new_owner r'"
  shows "r = r'"
proof -
  obtain m where m: "m \<in> set (db_passes db)" "mp_inscription_id m = ph_inscription_id r" "row_matches m r"
    using latest_is_current [OF ok v up r(1)] .
  obtain m' where m': "m' \<in> set (db_passes db)" "mp_inscription_id m' = ph_inscription_id r'"
    "row_matches m' r'"
    using latest_is_current [OF ok v up r(2)] .
  have "m = m'"
    using ok m m' a active_owner_uniqueD [of "db_passes db" m m']
    by (simp add: pass_db_ok_def row_matches_def)
  with m m' have "ph_inscription_id r = ph_inscription_id r'" by simp
  then show ?thesis
    using r ok distinct_latest_ids [of "db_history db" t]
    by (metis distinct_map inj_onD pass_db_ok_def)
qed

lemma snapshots_unique_push:
  assumes u: "snapshots_unique (db_history db)" and up: "history_upto h db"
    and push: "db_history db' = db_history db @ [r]" "ph_block_height r = h"
    and ok: "pass_db_ok db'" and v: "view_is_history db'"
  shows "snapshots_unique (db_history db')"
  unfolding snapshots_unique_def
proof (intro allI ballI impI)
  fix t x y
  assume xy: "x \<in> set (latest_history t (db_history db'))" "y \<in> set (latest_history t (db_history db'))"
    and a: "ph_new_state x = Active \<and> ph_new_state y = Active \<and> ph_new_owner x = ph_new_owner y"
  show "x = y"
  proof (cases "t < h")
    case True
    then have "latest_history t (db_history db') = latest_history t (db_history db)"
      using push by (simp add: latest_history_future)
    with u xy a show ?thesis by (auto simp: snapshots_unique_def)
  next
    case False
    then have "history_upto t db'" using up push by (auto simp: history_upto_def)
    with ok v xy a show ?thesis by (blast intro: tip_unique)
  qed
qed

lemma mint_first_insert:
  assumes "row_insert h m db db'" and "mint_first db" and "view_is_history db"
  shows "mint_first db'"
  using assms unfolding row_insert_def mint_first_def view_is_history_def by (force simp: image_iff)

lemma mint_first_replace:
  assumes "row_replace h m m' db db'" and "mint_first db" and "history_upto h db"
  shows "mint_first db'"
proof -
  from assms(1) obtain r where r: "m \<in> set (db_passes db)" "m' = rebuild_pass m r" "ph_block_height r = h"
    and db': "db' = push_event r (db\<lparr>db_passes := map (\<lambda>x. if x = m then m' else x) (db_passes db)\<rparr>)"
    unfolding row_replace_def by blast
  have le: "mp_mint_block_height x \<le> h" if "x \<in> set (db_passes db)" for x
    using assms(2,3) that unfolding mint_first_def history_upto_def by fastforce
  have same: "\<exists>y \<in> set (db_passes db). mp_inscription_id x = mp_inscription_id y \<and>
      mp_mint_block_height x = mp_mint_block_height y" if "x \<in> set (db_passes db')" for x
    using that r(1,2) by (auto simp: db' rebuild_pass_def)
  show ?thesis
    unfolding mint_first_def
  proof
    fix x assume "x \<in> set (db_passes db')"
    from same [OF this] obtain y where "y \<in> set (db_passes db)"
      "mp_inscription_id x = mp_inscription_id y" "mp_mint_block_height x = mp_mint_block_height y" by blast
    with assms(2) le r(3) show "(\<exists>r\<in>set (db_history db'). ph_inscription_id r = mp_inscription_id x \<and>
          ph_block_height r = mp_mint_block_height x) \<and>
        (\<forall>r\<in>set (db_history db'). ph_inscription_id r = mp_inscription_id x \<longrightarrow>
          mp_mint_block_height x \<le> ph_block_height r)"
      by (auto simp: mint_first_def db')
  qed
qed

lemma push_sorted:
  "sorted (map ph_block_height rows) \<Longrightarrow> \<forall>r \<in> set rows. ph_block_height r \<le> h \<Longrightarrow>
    ph_block_height x = h \<Longrightarrow> sorted (map ph_block_height (rows @ [x]))"
  by (simp add: sorted_append)

lemma event_write_timeline:
  assumes inv: "timeline_ok db" and up: "history_upto h db" and ok: "pass_db_ok db'"
    and v: "view_is_history db'" and mf: "mint_first db'"
    and push: "db_history db' = db_history db @ [r]" "ph_block_height r = h"
  shows "timeline_ok db'"
  unfolding timeline_ok_def
proof (intro conjI)
  show "snapshots_unique (db_history db')"
    by (rule snapshots_unique_push [OF _ up push ok v]) (use inv in \<open>simp add: timeline_ok_def\<close>)
  show "sorted (map ph_block_height (db_history db'))"
    unfolding push(1) by (rule push_sorted [OF _ _ push(2)])
      (use inv up in \<open>simp_all add: timeline_ok_def history_upto_def\<close>)
qed (use ok v mf in simp_all)

lemma pass_write_timeline:
  assumes w: "pass_write h db db'" and inv: "timeline_ok db" and up: "history_upto h db"
  shows "timeline_ok db'"
proof -
  from inv have ok: "pass_db_ok db" and v: "view_is_history db" and mf: "mint_first db"
    by (simp_all add: timeline_ok_def)
  have ok': "pass_db_ok db'" and v': "view_is_history db'"
    using w ok v by (auto intro: pass_write_ok pass_write_view)
  from w ok show ?thesis
  proof (cases rule: pass_write_cases)
    case (ins m)
    then obtain r where r: "db_history db' = db_history db @ [r]" "ph_block_height r = h"
      by (auto simp: row_insert_def)
    show ?thesis
      by (rule event_write_timeline [OF inv up ok' v' mint_first_insert [OF ins mf v] r])
  next
    case (repl m m')
    then obtain r where r: "db_history db' = db_history db @ [r]" "ph_block_height r = h"
      by (auto simp: row_replace_def)
    show ?thesis
      by (rule event_write_timeline [OF inv up ok' v' mint_first_replace [OF repl mf up] r])
  next
    case side
    with inv ok' v' show ?thesis
      by (simp add: timeline_ok_def side_tables_write_def mint_first_def)
  qed
qed

section \<open>Rollback from any point of the timeline\<close>

abbreviation events_upto :: "u32 \<Rightarrow> pass_db \<Rightarrow> PassHistoryRow list" where
  "events_upto t db \<equiv> filter (\<lambda>r. ph_block_height r \<le> t) (db_history db)"

definition row_at :: "u32 \<Rightarrow> pass_db \<Rightarrow> MinerPassInfo \<Rightarrow> MinerPassInfo" where
  "row_at t db m = rebuild_pass m (the (last_event (mp_inscription_id m) (events_upto t db)))"

definition rows_at :: "u32 \<Rightarrow> pass_db \<Rightarrow> MinerPassInfo list" where
  "rows_at t db = map (row_at t db) (filter (\<lambda>m. mp_mint_block_height m \<le> t) (db_passes db))"

lemma rebuild_pass_simps [simp]:
  "mp_inscription_id (rebuild_pass m h) = mp_inscription_id m"
  "mp_mint_block_height (rebuild_pass m h) = mp_mint_block_height m"
  "mp_owner (rebuild_pass m h) = ph_new_owner h"
  "mp_state (rebuild_pass m h) = ph_new_state h"
  "mp_satpoint (rebuild_pass m h) = ph_new_satpoint h"
  by (simp_all add: rebuild_pass_def)

lemma rows_at_simps [simp]:
  "mp_inscription_id (row_at t db m) = mp_inscription_id m"
  "mp_mint_block_height (row_at t db m) = mp_mint_block_height m"
  by (simp_all add: row_at_def)

lemma sorted_events_upto:
  "pass_db_ok db \<Longrightarrow> sorted_wrt (<) (map ph_id (events_upto t db))"
  by (simp add: pass_db_ok_def sorted_wrt_map sorted_wrt_filter)

lemma surviving_event:
  assumes "timeline_ok db" and "m \<in> set (db_passes db)" and "mp_mint_block_height m \<le> t"
  obtains h where "last_event (mp_inscription_id m) (events_upto t db) = Some h"
    and "row_at t db m = rebuild_pass m h" and "ph_inscription_id h = mp_inscription_id m"
    and "h \<in> set (latest_history t (db_history db))"
proof -
  from assms obtain r where "r \<in> set (events_upto t db)" "ph_inscription_id r = mp_inscription_id m"
    by (fastforce simp: timeline_ok_def mint_first_def)
  then obtain h where h: "last_event (mp_inscription_id m) (events_upto t db) = Some h"
    using last_event_None_iff by fastforce
  have i: "ph_inscription_id h = mp_inscription_id m" using last_event_in [OF h] by simp
  moreover have "h \<in> set (latest_history t (db_history db))"
    using assms(1) h i in_latest_history [of "db_history db" h t]
    by (simp add: timeline_ok_def pass_db_ok_def)
  ultimately show thesis using that h by (simp add: row_at_def)
qed

lemma rollback_surviving_passes_rows_at:
  assumes inv: "timeline_ok db"
  shows "rollback_surviving_passes t db = rows_at t db"
proof -
  have ok: "pass_db_ok db" using inv by (simp add: timeline_ok_def)
  have "map (rebuild_pass m) (filter (\<lambda>h. ph_inscription_id h = mp_inscription_id m)
      (latest_history t (db_history db))) = [row_at t db m]"
    if m: "m \<in> set (db_passes db)" "mp_mint_block_height m \<le> t" for m
  proof -
    obtain h where h: "last_event (mp_inscription_id m) (events_upto t db) = Some h"
      "row_at t db m = rebuild_pass m h" using surviving_event [OF inv m] .
    then show ?thesis
      using latest_history_last_event [OF sorted_events_upto [OF ok] _ h(1), of t]
        latest_history_prune [of t "db_history db"] by simp
  qed
  then show ?thesis
    unfolding rollback_surviving_passes_def rows_at_def
    by (intro concat_map_singletons) (auto simp: list_all2_map2 intro!: list.rel_refl_strong)
qed

lemma active_owner_uniqueI:
  assumes "distinct rows" and "\<And>x y. x \<in> set rows \<Longrightarrow> y \<in> set rows \<Longrightarrow> mp_state x = Active \<Longrightarrow>
    mp_state y = Active \<Longrightarrow> mp_owner x = mp_owner y \<Longrightarrow> x = y"
  shows "active_owner_unique rows"
  using assms by (auto simp: active_owner_unique_def distinct_map inj_on_def)

lemma rows_at_ok:
  assumes inv: "timeline_ok db"
  shows "distinct (map mp_inscription_id (rows_at t db))" and "active_owner_unique (rows_at t db)"
proof -
  have d: "distinct (map mp_inscription_id (db_passes db))"
    using inv by (simp add: timeline_ok_def pass_db_ok_def)
  have e: "map mp_inscription_id (rows_at t db) =
      map mp_inscription_id (filter (\<lambda>m. mp_mint_block_height m \<le> t) (db_passes db))"
    by (simp add: rows_at_def)
  show ids: "distinct (map mp_inscription_id (rows_at t db))"
    unfolding e using d by (rule distinct_map_filter)
  show "active_owner_unique (rows_at t db)"
  proof (rule active_owner_uniqueI)
    show "distinct (rows_at t db)" using ids by (simp add: distinct_map)
    fix x y
    assume xy: "x \<in> set (rows_at t db)" "y \<in> set (rows_at t db)"
      and a: "mp_state x = Active" "mp_state y = Active" "mp_owner x = mp_owner y"
    from xy obtain m n where m: "m \<in> set (db_passes db)" "mp_mint_block_height m \<le> t" "x = row_at t db m"
      and n: "n \<in> set (db_passes db)" "mp_mint_block_height n \<le> t" "y = row_at t db n"
      by (auto simp: rows_at_def)
    obtain h where h: "x = rebuild_pass m h" "h \<in> set (latest_history t (db_history db))"
      "ph_inscription_id h = mp_inscription_id m"
      using surviving_event [OF inv m(1,2)] m(3) by metis
    obtain k where k: "y = rebuild_pass n k" "k \<in> set (latest_history t (db_history db))"
      "ph_inscription_id k = mp_inscription_id n"
      using surviving_event [OF inv n(1,2)] n(3) by metis
    have "h = k" using inv a h k by (auto simp: timeline_ok_def snapshots_unique_def)
    with h k m(1) n(1) d have "m = n" by (metis distinct_map inj_onD)
    with m n show "x = y" by simp
  qed
qed

definition db_at :: "(InscriptionId \<Rightarrow> string) \<Rightarrow> u32 \<Rightarrow> pass_db \<Rightarrow> pass_db" where
  "db_at id_text t db = (delete_rows_above t db)\<lparr>db_passes :=
     sort_key (\<lambda>m. (mp_mint_block_height m, id_text (mp_inscription_id m))) (rows_at t db)\<rparr>"

lemma rollback_tables_timeline:
  assumes inv: "timeline_ok db"
  shows "rollback_tables id_text t db = (Inr (), db_at id_text t db)"
proof -
  have "length (rows_at t db) = length (filter (\<lambda>m. mp_mint_block_height m \<le> t) (db_passes db))"
    by (simp add: rows_at_def)
  then show ?thesis
    by (simp add: rollback_tables_def rollback_surviving_passes_rows_at [OF inv] rows_at_ok [OF inv]
        db_at_def)
qed

lemma db_at_fields:
  "db_history (db_at id_text t db) = events_upto t db"
  "db_commits (db_at id_text t db) = filter (\<lambda>r. pc_block_height r \<le> t) (db_commits db)"
  "db_balance_snapshots (db_at id_text t db) =
    filter (\<lambda>r. ab_block_height r \<le> t) (db_balance_snapshots db)"
  "db_snapshot_history (db_at id_text t db) =
    filter (\<lambda>r. an_stable_height r \<le> t) (db_snapshot_history db)"
  "db_history_seq (db_at id_text t db) = db_history_seq db"
  "mset (db_passes (db_at id_text t db)) = mset (rows_at t db)"
  "set (db_passes (db_at id_text t db)) = set (rows_at t db)"
  by (simp_all add: db_at_def delete_rows_above_def)

lemma db_at_ok:
  assumes inv: "timeline_ok db"
  shows "pass_db_ok (db_at id_text t db)"
proof -
  have ok: "pass_db_ok db" using inv by (simp add: timeline_ok_def)
  have "distinct (map mp_inscription_id (db_passes (db_at id_text t db)))"
    using rows_at_ok(1) [OF inv] db_at_fields(6) by (metis mset_map mset_eq_imp_distinct_iff)
  moreover have "active_owner_unique (db_passes (db_at id_text t db))"
    using rows_at_ok(2) [OF inv] db_at_fields(6) unfolding active_owner_unique_def
    by (metis mset_filter mset_map mset_eq_imp_distinct_iff)
  ultimately show ?thesis
    using ok sorted_events_upto [OF ok]
    by (simp add: pass_db_ok_def db_at_fields distinct_map_filter)
qed

lemma db_at_view:
  assumes inv: "timeline_ok db"
  shows "view_is_history (db_at id_text t db)"
proof -
  have "\<exists>h. last_event (mp_inscription_id x) (events_upto t db) = Some h \<and> row_matches x h"
    if x: "x \<in> set (rows_at t db)" for x
  proof -
    from x obtain m where m: "m \<in> set (db_passes db)" "mp_mint_block_height m \<le> t" "x = row_at t db m"
      by (auto simp: rows_at_def)
    obtain h where "last_event (mp_inscription_id m) (events_upto t db) = Some h" "row_at t db m = rebuild_pass m h"
      by (rule surviving_event [OF inv m(1,2)]) (rule that)
    then show ?thesis using m(3) by (simp add: row_matches_def)
  qed
  moreover have "ph_inscription_id r \<in> mp_inscription_id ` set (rows_at t db)"
    if r: "r \<in> set (events_upto t db)" for r
  proof -
    from r inv obtain m where m: "m \<in> set (db_passes db)" "mp_inscription_id m = ph_inscription_id r"
      by (fastforce simp: timeline_ok_def view_is_history_def)
    with r inv have "mp_mint_block_height m \<le> t"
      by (fastforce simp: timeline_ok_def mint_first_def)
    with m show ?thesis by (force simp: rows_at_def image_iff)
  qed
  ultimately show ?thesis by (simp add: view_is_history_def db_at_fields del: set_filter)
qed

lemma db_at_timeline:
  assumes inv: "timeline_ok db"
  shows "timeline_ok (db_at id_text t db)"
proof -
  have "mint_first (db_at id_text t db)"
    using inv by (fastforce simp: timeline_ok_def mint_first_def db_at_fields rows_at_def)
  moreover have "snapshots_unique (events_upto t db)"
    using inv by (auto simp: timeline_ok_def snapshots_unique_def latest_history_filter)
  moreover have "sorted (map ph_block_height (events_upto t db))"
    using inv by (simp add: timeline_ok_def sorted_filter)
  ultimately show ?thesis
    using db_at_ok [OF inv] db_at_view [OF inv] by (simp add: timeline_ok_def db_at_fields)
qed

section \<open>Runs\<close>

text \<open>
  A run of the database from the empty one: writes stamped with a height that is not below any
  event so far, rollbacks to any height, and the bookkeeping writes of the state tables.
\<close>

inductive pass_run :: "(InscriptionId \<Rightarrow> string) \<Rightarrow> pass_db \<Rightarrow> bool" for id_text where
  start: "pass_run id_text empty_pass_db"
| write_at: "pass_run id_text db \<Longrightarrow> history_upto h db \<Longrightarrow> pass_write h db db' \<Longrightarrow> pass_run id_text db'"
| rollback: "pass_run id_text db \<Longrightarrow>
    rollback_to_block_height_internal id_text t anchor pending \<lparr>ps_db = db, ps_savepoints = []\<rparr> =
      (Inr (), s') \<Longrightarrow> pass_run id_text (ps_db s')"

lemma timeline_empty: "timeline_ok empty_pass_db"
  by (simp add: timeline_ok_def empty_pass_db_def pass_db_ok_def active_owner_unique_def
      view_is_history_def mint_first_def snapshots_unique_def latest_history_def)

text \<open>The writes of state rows and of the anchor leave the timeline alone.\<close>

lemma timeline_side:
  "timeline_ok db \<Longrightarrow> side_tables_write h db db' \<Longrightarrow> timeline_ok db'"
  using side_tables_write_ok [of h db db']
  by (simp add: timeline_ok_def side_tables_write_def mint_first_def view_is_history_def)

lemma anchor_write_side:
  "upsert_balance_history_snapshot_anchor_with_conn a db = (Inr (), db') \<Longrightarrow>
    side_tables_write (sn_stable_height a) db db'"
  unfolding upsert_balance_history_snapshot_anchor_with_conn_def side_tables_write_def
  by (auto simp: state_defs upsert_balance_history_snapshot_history_def split: option.splits
      intro!: exI [of _ "anchor_of_snapshot a (the (sn_stable_block_hash a))
        (the (sn_latest_block_commit a))"]) (simp_all add: anchor_of_snapshot_def)

lemma rollback_timeline:
  assumes inv: "timeline_ok (ps_db s)"
    and r: "rollback_to_block_height_internal id_text t anchor pending s = (Inr (), s')"
  shows "timeline_ok (ps_db s')"
proof -
  note defs = state_defs clear_balance_history_snapshot_anchor_with_conn_def
  let ?db = "clear_balance_history_snapshot_anchor_with_conn (db_at id_text t (ps_db s))"
  have "side_tables_write t (db_at id_text t (ps_db s)) ?db"
    by (simp add: side_tables_write_def defs)
  with db_at_timeline [OF inv] have tl: "timeline_ok ?db" by (rule timeline_side)
  from r obtain db1 where
    step: "(case anchor of Some a \<Rightarrow> upsert_balance_history_snapshot_anchor_with_conn a
        | None \<Rightarrow> modify (upsert_numeric_state BTC_SYNCED_BLOCK_HEIGHT_KEY (i64_of_u32 t))) ?db =
      (Inr (), db1)"
    and s': "ps_db s' = (if pending then mark_upstream_reorg_recovery_pending t
        else delete_numeric_state UPSTREAM_REORG_RECOVERY_PENDING_HEIGHT_KEY) db1"
    using rollback_tables_timeline [OF inv, of id_text t]
    by (auto simp: rollback_to_block_height_internal_def bindR_Inr_eq in_transaction_def
        split: if_splits prod.splits sum.splits)
  have "timeline_ok db1"
  proof (cases anchor)
    case None
    with step have "side_tables_write t ?db db1" by (auto simp: side_tables_write_def state_defs)
    with tl show ?thesis by (rule timeline_side)
  next
    case (Some a)
    with step tl show ?thesis by (auto intro: timeline_side anchor_write_side)
  qed
  moreover have "side_tables_write t db1 (ps_db s')"
    by (simp add: s' side_tables_write_def state_defs)
  ultimately show ?thesis by (rule timeline_side)
qed

lemma pass_run_timeline: "pass_run id_text db \<Longrightarrow> timeline_ok db"
proof (induction rule: pass_run.induct)
  case start show ?case by (rule timeline_empty)
next
  case (write_at db h db') then show ?case by (blast intro: pass_write_timeline)
next
  case (rollback db t anchor pending s') 
  then show ?case using rollback_timeline [OF _ rollback.hyps(2)] by simp
qed

section \<open>Historical queries\<close>

lemma owner_rows_single:
  assumes inv: "timeline_ok db"
  shows "filter (\<lambda>r. ph_new_state r = Active \<and> ph_new_owner r = own) (latest_history t (db_history db)) = []
    \<or> (\<exists>r. filter (\<lambda>r. ph_new_state r = Active \<and> ph_new_owner r = own)
         (latest_history t (db_history db)) = [r])" (is "?f = [] \<or> _")
proof -
  have d: "distinct ?f"
    using inv distinct_latest_history [of "db_history db"] by (simp add: timeline_ok_def pass_db_ok_def)
  have u: "x = y" if "x \<in> set ?f" "y \<in> set ?f" for x y
    using inv that unfolding timeline_ok_def snapshots_unique_def by fastforce
  show ?thesis
  proof (cases ?f)
    case (Cons r rs)
    have "rs = []"
    proof (cases rs)
      case (Cons y ys)
      with \<open>?f = r # rs\<close> have "r = y" by (intro u) (simp_all only: list.set, blast+)
      with \<open>?f = r # rs\<close> Cons d show ?thesis by (simp only: distinct.simps list.set) blast
    qed simp
    with Cons show ?thesis by blast
  qed simp
qed

lemma order_by_key_singleton [simp]: "order_by_key desc key [x] = [x]" "order_by_key desc key [] = []"
  by (simp_all add: order_by_key_def)

lemma owner_active_lookup:
  assumes inv: "timeline_ok db"
  shows "get_owner_active_pass_from_history_at_height own t db =
    Inr (map_option active_of_history
      (find (\<lambda>r. ph_new_state r = Active \<and> ph_new_owner r = own) (latest_history t (db_history db))))"
proof -
  have f: "find P xs = (case filter P xs of [] \<Rightarrow> None | x # _ \<Rightarrow> Some x)"
    for P and xs :: "PassHistoryRow list" by (induction xs) auto
  show ?thesis
    using owner_rows_single [OF inv, of own t]
    by (auto simp: get_owner_active_pass_from_history_at_height_def f)
qed

lemma owner_active_iff:
  assumes inv: "timeline_ok db"
  shows "get_owner_active_pass_from_history_at_height own t db = Inr (Some p) \<longleftrightarrow>
    (\<exists>r \<in> set (latest_history t (db_history db)). ph_new_state r = Active \<and> ph_new_owner r = own \<and>
       p = active_of_history r)" (is "_ \<longleftrightarrow> ?r")
proof -
  let ?P = "\<lambda>r. ph_new_state r = Active \<and> ph_new_owner r = own"
  let ?rows = "latest_history t (db_history db)"
  have u: "x = y" if "x \<in> set ?rows" "y \<in> set ?rows" "?P x" "?P y" for x y
    using inv that unfolding timeline_ok_def snapshots_unique_def by fastforce
  have iff: "find ?P ?rows = Some r \<longleftrightarrow> r \<in> set ?rows \<and> ?P r" for r
  proof
    assume "find ?P ?rows = Some r"
    then show "r \<in> set ?rows \<and> ?P r" by (auto simp: find_Some_iff)
  next
    assume r: "r \<in> set ?rows \<and> ?P r"
    then obtain y where y: "find ?P ?rows = Some y" by (cases "find ?P ?rows") (auto simp: find_None_iff)
    then have "y \<in> set ?rows \<and> ?P y" by (auto simp: find_Some_iff)
    with r u y show "find ?P ?rows = Some r" by metis
  qed
  show ?thesis unfolding owner_active_lookup [OF inv] using iff by auto
qed

lemma active_by_owner_iff:
  assumes ok: "pass_db_ok db"
  shows "get_last_active_mint_pass_by_owner own db = Some m \<longleftrightarrow>
    m \<in> set (db_passes db) \<and> mp_owner m = own \<and> mp_state m = Active" (is "?g = _ \<longleftrightarrow> ?m m")
proof
  assume "?g = Some m"
  then show "?m m" unfolding get_last_active_mint_pass_by_owner_def by (auto dest: select_max_in)
next
  assume m: "?m m"
  show "?g = Some m"
    unfolding get_last_active_mint_pass_by_owner_def
    by (rule select_max_eqI)
      (use m ok active_owner_uniqueD [of "db_passes db"] in \<open>auto simp: pass_db_ok_def\<close>)
qed

lemma owner_active_tip:
  assumes inv: "timeline_ok db" and up: "history_upto t db"
  shows "get_owner_active_pass_from_history_at_height own t db =
    Inr (map_option (\<lambda>m. \<lparr>ap_inscription_id = mp_inscription_id m, ap_owner = mp_owner m\<rparr>)
      (get_last_active_mint_pass_by_owner own db))"
proof -
  from inv have ok: "pass_db_ok db" and v: "view_is_history db" by (simp_all add: timeline_ok_def)
  let ?q = "map_option active_of_history
      (find (\<lambda>r. ph_new_state r = Active \<and> ph_new_owner r = own) (latest_history t (db_history db)))"
  have "?q = Some p \<longleftrightarrow> map_option (\<lambda>m. \<lparr>ap_inscription_id = mp_inscription_id m, ap_owner = mp_owner m\<rparr>)
      (get_last_active_mint_pass_by_owner own db) = Some p" for p
  proof
    assume "?q = Some p"
    with owner_active_iff [OF inv, of own t p] owner_active_lookup [OF inv, of own t]
    obtain r where r: "r \<in> set (latest_history t (db_history db))" "ph_new_state r = Active"
      "ph_new_owner r = own" "p = active_of_history r" by auto
    obtain m where m: "m \<in> set (db_passes db)" "mp_inscription_id m = ph_inscription_id r"
      "row_matches m r" using latest_is_current [OF ok v up r(1)] .
    with r have "get_last_active_mint_pass_by_owner own db = Some m"
      by (simp add: active_by_owner_iff [OF ok] row_matches_def)
    with m r show "map_option (\<lambda>m. \<lparr>ap_inscription_id = mp_inscription_id m, ap_owner = mp_owner m\<rparr>)
      (get_last_active_mint_pass_by_owner own db) = Some p"
      by (simp add: active_of_history_def row_matches_def)
  next
    assume "map_option (\<lambda>m. \<lparr>ap_inscription_id = mp_inscription_id m, ap_owner = mp_owner m\<rparr>)
      (get_last_active_mint_pass_by_owner own db) = Some p"
    then obtain m where m: "m \<in> set (db_passes db)" "mp_owner m = own" "mp_state m = Active"
      "p = \<lparr>ap_inscription_id = mp_inscription_id m, ap_owner = mp_owner m\<rparr>"
      by (auto simp: active_by_owner_iff [OF ok])
    obtain r where r: "r \<in> set (latest_history t (db_history db))"
      "ph_inscription_id r = mp_inscription_id m" "row_matches m r"
      using current_is_latest [OF ok v up m(1)] .
    with m have "get_owner_active_pass_from_history_at_height own t db = Inr (Some p)"
      unfolding owner_active_iff [OF inv] by (intro bexI [of _ r]) (auto simp: active_of_history_def row_matches_def)
    then show "?q = Some p" by (simp add: owner_active_lookup [OF inv])
  qed
  then show ?thesis unfolding owner_active_lookup [OF inv] by (intro arg_cong [where f = Inr] option_eqI_Some)
qed

section \<open>A sample database\<close>

text \<open>Two passes of one owner: the first is minted at 100, made dormant and succeeded at 110.\<close>

definition sample_id :: "nat \<Rightarrow> InscriptionId" where
  "sample_id n = \<lparr>ii_txid = of_nat n, ii_index = 0\<rparr>"

definition sample_satpoint :: "nat \<Rightarrow> SatPoint" where
  "sample_satpoint n = \<lparr>sp_outpoint = \<lparr>op_txid = of_nat n, op_vout = 0\<rparr>, sp_offset = 0\<rparr>"

definition sample_pass :: "nat \<Rightarrow> USDBScriptHash \<Rightarrow> u32 \<Rightarrow> MinerPassInfo" where
  "sample_pass n own h = \<lparr>mp_inscription_id = sample_id n, mp_inscription_number = int n,
     mp_mint_txid = of_nat n, mp_mint_block_height = h, mp_mint_owner = own,
     mp_satpoint = sample_satpoint n, mp_eth_main = ''0x1'', mp_eth_collab = None, mp_prev = [],
     mp_invalid_code = None, mp_invalid_reason = None, mp_owner = own, mp_state = Active\<rparr>"

definition sample_text :: "InscriptionId \<Rightarrow> string" where
  "sample_text i = encode_hex (hash_bytes (ii_txid i))"

definition sample_db1 :: pass_db where
  "sample_db1 = snd (add_new_mint_pass_at_height (sample_pass 1 7 100) 100 empty_pass_db)"

definition sample_db2 :: pass_db where
  "sample_db2 = snd (update_state_at_height (sample_id 1) Dormant Active 110 sample_db1)"

definition sample_db3 :: pass_db where
  "sample_db3 = snd (add_new_mint_pass_at_height (sample_pass 2 7 110) 110 sample_db2)"

lemmas sample_defs = sample_id_def sample_satpoint_def sample_pass_def

lemma sample_steps:
  "add_new_mint_pass_at_height (sample_pass 1 7 100) 100 empty_pass_db = (Inr (), sample_db1)"
  "update_state_at_height (sample_id 1) Dormant Active 110 sample_db1 = (Inr (), sample_db2)"
  "add_new_mint_pass_at_height (sample_pass 2 7 110) 110 sample_db2 = (Inr (), sample_db3)"
  by (simp_all add: sample_db3_def sample_db2_def sample_db1_def prod_eq_iff) code_simp+

lemma sample_writes:
  "pass_write 100 empty_pass_db sample_db1" "pass_write 110 sample_db1 sample_db2"
  "pass_write 110 sample_db2 sample_db3"
  by (rule pass_write.mint [OF sample_steps(1)], simp add: sample_pass_def)
    (rule pass_write.state [OF sample_steps(2)],
     rule pass_write.mint [OF sample_steps(3)], simp add: sample_pass_def)

lemma sample_upto: "history_upto 100 empty_pass_db" "history_upto 110 sample_db1"
  "history_upto 110 sample_db2" "history_upto 110 sample_db3"
  unfolding history_upto_def by (simp add: empty_pass_db_def, code_simp+)

lemma sample_run: "pass_run sample_text sample_db1" "pass_run sample_text sample_db3"
proof -
  show r1: "pass_run sample_text sample_db1"
    by (rule pass_run.write_at [OF pass_run.start sample_upto(1) sample_writes(1)])
  have "pass_run sample_text sample_db2"
    by (rule pass_run.write_at [OF r1 sample_upto(2) sample_writes(2)])
  then show "pass_run sample_text sample_db3"
    by (rule pass_run.write_at [OF _ sample_upto(3) sample_writes(3)])
qed

lemma sample_writes_above: "writes_above 100 sample_db1 sample_db3"
  by (rule writes_above.step [OF writes_above.step [OF writes_above.none sample_writes(2)] sample_writes(3)])
    simp_all

section \<open>What the pass database promises\<close>

text \<open>C1: rolling the pass database back to height \<open>t\<close> undoes exactly the writes above \<open>t\<close>.  Take a
  consistent database whose data all lie at or below \<open>t\<close> (the program's own guard says so) and any
  sequence of mints, transfers, satpoint moves, state changes, commits and snapshots stamped above
  \<open>t\<close>.  Then the rollback succeeds, every pass lookup, the event history, the block commits and
  both snapshot tables are those of the earlier database, the synced height is \<open>t\<close>, the recovery
  marker is set exactly when asked for, and the guard holds again.\<close>

theorem rollback_restores:
  assumes "pass_run id_text db0" and "assert_no_data_after_block_height t db0 = Inr ()"
    and "writes_above t db0 db" and "s = \<lparr>ps_db = db, ps_savepoints = []\<rparr>"
  shows "\<exists>db'. rollback_to_block_height_internal id_text t None pending s =
      (Inr (), \<lparr>ps_db = db', ps_savepoints = []\<rparr>) \<and>
    (\<forall>i. get_pass_by_inscription_id i db' = get_pass_by_inscription_id i db0) \<and>
    mset (db_passes db') = mset (db_passes db0) \<and>
    db_history db' = db_history db0 \<and> db_commits db' = db_commits db0 \<and>
    db_balance_snapshots db' = db_balance_snapshots db0 \<and>
    db_snapshot_history db' = db_snapshot_history db0 \<and>
    get_synced_btc_block_height db' = Some t \<and>
    get_upstream_reorg_recovery_pending_height db' = Inr (if pending then Some t else None) \<and>
    assert_no_data_after_block_height t db' = Inr ()"
proof -
  from pass_run_timeline [OF assms(1)] have ok: "pass_db_ok db0" and v: "view_is_history db0"
    by (simp_all add: timeline_ok_def)
  have up: "data_upto t db0" by (rule assert_no_data_data_upto [OF assms(2)])
  have r: "restorable t db0 db" by (rule writes_above_restorable [OF assms(3) up ok])
  let ?db = "rolled_back id_text t pending db0 db"
  note rb = rolled_back_restored [OF ok v up writes_above_seq [OF assms(3) ok] refl,
      of id_text pending]
  have "rollback_to_block_height_internal id_text t None pending s =
      (Inr (), \<lparr>ps_db = ?db, ps_savepoints = []\<rparr>)"
    using rollback_eq [OF ok v up, of s id_text pending] r by (simp add: assms(4))
  moreover have "get_pass_by_inscription_id i ?db = get_pass_by_inscription_id i db0" for i
    by (rule tables_restored_get_pass [OF rb(1) ok rb(2)])
  ultimately show ?thesis
    by (intro exI [of _ ?db])
      (simp add: rolled_back_fields rb(4) get_synced_btc_block_height_def get_numeric_state_def
        get_upstream_reorg_recovery_pending_height_def)
qed

theorem rollback_restores_witness:
  "\<exists>db'. rollback_to_block_height_internal sample_text 100 None True
      \<lparr>ps_db = sample_db3, ps_savepoints = []\<rparr> = (Inr (), \<lparr>ps_db = db', ps_savepoints = []\<rparr>) \<and>
    get_pass_by_inscription_id (sample_id 1) db' = Some (sample_pass 1 7 100) \<and>
    get_pass_by_inscription_id (sample_id 2) db' = None"
proof -
  have g: "assert_no_data_after_block_height 100 sample_db1 = Inr ()" by code_simp
  have l: "get_pass_by_inscription_id (sample_id 1) sample_db1 = Some (sample_pass 1 7 100)"
    "get_pass_by_inscription_id (sample_id 2) sample_db1 = None" by code_simp+
  show ?thesis
    using rollback_restores [OF sample_run(1) g sample_writes_above refl, of True] l by auto
qed

text \<open>A rollback without an anchor never fails.  From every database that the indexer can reach
  by writes with ascending heights and by earlier rollbacks, the rollback to any height \<open>t\<close>, in
  the past or the future, succeeds, ends in a reachable database with no data above \<open>t\<close>, and keeps
  the rows the event history shows at \<open>t\<close>.\<close>

theorem rollback_always_succeeds:
  assumes "pass_run id_text db"
  shows "\<exists>db'. rollback_to_block_height_internal id_text t None pending
        \<lparr>ps_db = db, ps_savepoints = []\<rparr> = (Inr (), \<lparr>ps_db = db', ps_savepoints = []\<rparr>) \<and>
    pass_run id_text db' \<and> assert_no_data_after_block_height t db' = Inr () \<and>
    db_history db' = filter (\<lambda>r. ph_block_height r \<le> t) (db_history db) \<and>
    mp_inscription_id ` set (db_passes db') =
      mp_inscription_id ` {m \<in> set (db_passes db). mp_mint_block_height m \<le> t}"
proof -
  note inv = pass_run_timeline [OF assms]
  note defs = state_defs clear_balance_history_snapshot_anchor_with_conn_def
  let ?c = "clear_balance_history_snapshot_anchor_with_conn (db_at id_text t db)"
  let ?db = "(if pending then mark_upstream_reorg_recovery_pending t
      else delete_numeric_state UPSTREAM_REORG_RECOVERY_PENDING_HEIGHT_KEY)
    (upsert_numeric_state BTC_SYNCED_BLOCK_HEIGHT_KEY (i64_of_u32 t) ?c)"
  have r: "rollback_to_block_height_internal id_text t None pending \<lparr>ps_db = db, ps_savepoints = []\<rparr> =
      (Inr (), \<lparr>ps_db = ?db, ps_savepoints = []\<rparr>)"
    by (simp add: rollback_to_block_height_internal_def in_transaction_def
        rollback_tables_timeline [OF inv])
  have run: "pass_run id_text ?db" using pass_run.rollback [OF assms r] by simp
  have f: "db_history ?db = events_upto t db" "db_passes ?db = db_passes (db_at id_text t db)"
    "db_commits ?db = filter (\<lambda>r. pc_block_height r \<le> t) (db_commits db)"
    "db_balance_snapshots ?db = filter (\<lambda>r. ab_block_height r \<le> t) (db_balance_snapshots db)"
    "db_snapshot_history ?db = filter (\<lambda>r. an_stable_height r \<le> t) (db_snapshot_history db)"
    "db_state ?db BTC_SYNCED_BLOCK_HEIGHT_KEY = Some (i64_of_u32 t)"
    "db_state ?db BALANCE_HISTORY_SNAPSHOT_HEIGHT_KEY = None"
    by (simp_all add: db_at_fields defs)
  have "assert_no_data_after_block_height t ?db = Inr ()"
    unfolding assert_no_data_after_block_height_def get_numeric_state_def f Let_def
    by (auto simp: list_ex_iff not_less db_at_fields rows_at_def)
  moreover have "mp_inscription_id ` set (db_passes ?db) =
      mp_inscription_id ` {m \<in> set (db_passes db). mp_mint_block_height m \<le> t}"
    unfolding f by (simp add: db_at_fields rows_at_def image_image)
  ultimately show ?thesis using r run f(1) by blast
qed

theorem rollback_always_succeeds_witness:
  "\<exists>db'. rollback_to_block_height_internal sample_text 105 None False
        \<lparr>ps_db = sample_db3, ps_savepoints = []\<rparr> = (Inr (), \<lparr>ps_db = db', ps_savepoints = []\<rparr>) \<and>
    assert_no_data_after_block_height 105 db' = Inr () \<and>
    mp_inscription_id ` set (db_passes db') = {sample_id 1}"
proof -
  have "mp_inscription_id ` {m \<in> set (db_passes sample_db3). mp_mint_block_height m \<le> 105} = {sample_id 1}"
    unfolding sample_id_def by code_simp
  then show ?thesis using rollback_always_succeeds [OF sample_run(2), of 105 False] by auto
qed

text \<open>C24: at every height of every reachable history an owner has at most one active pass, so the
  historical lookup never fails with the duplicate-owner error, and it returns a pass exactly when
  the latest event of that pass at or below the height made it active for that owner.\<close>

theorem owner_active_lookup_exact:
  assumes "pass_run id_text db"
  shows "(\<exists>res. get_owner_active_pass_from_history_at_height own t db = Inr res) \<and>
    (\<forall>p. get_owner_active_pass_from_history_at_height own t db = Inr (Some p) \<longleftrightarrow>
       (\<exists>r. last_event (ap_inscription_id p)
              (filter (\<lambda>r. ph_block_height r \<le> t) (db_history db)) = Some r \<and>
            ph_new_state r = Active \<and> ph_new_owner r = own \<and> ap_owner p = own))"
proof -
  note inv = pass_run_timeline [OF assms]
  have s: "sorted_wrt (<) (map ph_id (db_history db))" using inv by (simp add: timeline_ok_def pass_db_ok_def)
  have "(\<exists>r \<in> set (latest_history t (db_history db)). ph_new_state r = Active \<and> ph_new_owner r = own \<and>
       p = active_of_history r) \<longleftrightarrow>
     (\<exists>r. last_event (ap_inscription_id p) (events_upto t db) = Some r \<and>
        ph_new_state r = Active \<and> ph_new_owner r = own \<and> ap_owner p = own)" (is "?l p \<longleftrightarrow> ?r p") for p
  proof
    assume "?l p"
    then show "?r p" unfolding Bex_def in_latest_history [OF s] by (auto simp: active_of_history_def)
  next
    assume "?r p"
    then obtain r where r: "last_event (ap_inscription_id p) (events_upto t db) = Some r"
      "ph_new_state r = Active" "ph_new_owner r = own" "ap_owner p = own" by blast
    have i: "ph_inscription_id r = ap_inscription_id p" using last_event_in [OF r(1)] by simp
    then have "r \<in> set (latest_history t (db_history db))" using r(1) by (simp add: in_latest_history [OF s])
    moreover have "p = active_of_history r" using i r(3,4) by (simp add: active_of_history_def)
    ultimately show "?l p" using r(2,3) by blast
  qed
  then show ?thesis using owner_active_lookup [OF inv] owner_active_iff [OF inv] by auto
qed

theorem owner_active_lookup_exact_witness:
  "get_owner_active_pass_from_history_at_height 7 105 sample_db3 =
      Inr (Some \<lparr>ap_inscription_id = sample_id 1, ap_owner = 7\<rparr>) \<and>
   get_owner_active_pass_from_history_at_height 7 110 sample_db3 =
      Inr (Some \<lparr>ap_inscription_id = sample_id 2, ap_owner = 7\<rparr>)"
proof -
  have "\<exists>r. last_event (sample_id 1) (events_upto 105 sample_db3) = Some r \<and>
      ph_new_state r = Active \<and> ph_new_owner r = 7"
    by (intro exI [of _ "the (last_event (sample_id 1) (events_upto 105 sample_db3))"]) code_simp
  moreover have "\<exists>r. last_event (sample_id 2) (events_upto 110 sample_db3) = Some r \<and>
      ph_new_state r = Active \<and> ph_new_owner r = 7"
    by (intro exI [of _ "the (last_event (sample_id 2) (events_upto 110 sample_db3))"]) code_simp
  ultimately show ?thesis
    using owner_active_lookup_exact [OF sample_run(2), of 7] by simp
qed

text \<open>At a height that covers all events, the two ways of finding the active pass of an owner,
  by the event history and by the current rows, agree.\<close>

theorem owner_active_history_agrees_with_current:
  assumes "pass_run id_text db" and "history_upto t db"
  shows "get_owner_active_pass_from_history_at_height own t db =
    Inr (map_option (\<lambda>m. \<lparr>ap_inscription_id = mp_inscription_id m, ap_owner = mp_owner m\<rparr>)
      (get_last_active_mint_pass_by_owner own db))"
  by (rule owner_active_tip [OF pass_run_timeline [OF assms(1)] assms(2)])

theorem owner_active_history_agrees_with_current_witness:
  "get_owner_active_pass_from_history_at_height 7 110 sample_db3 =
    Inr (map_option (\<lambda>m. \<lparr>ap_inscription_id = mp_inscription_id m, ap_owner = mp_owner m\<rparr>)
      (get_last_active_mint_pass_by_owner 7 sample_db3)) \<and>
   map_option mp_inscription_id (get_last_active_mint_pass_by_owner 7 sample_db3) = Some (sample_id 2)"
proof
  show "map_option mp_inscription_id (get_last_active_mint_pass_by_owner 7 sample_db3) = Some (sample_id 2)"
    by code_simp
qed (rule owner_active_history_agrees_with_current [OF sample_run(2) sample_upto(4)])

lemma last_history_is_last_event:
  assumes inv: "timeline_ok db"
  shows "get_last_pass_history_at_or_before_height i t db =
    map_option row_to_pass_history_item (last_event i (events_upto t db))"
proof -
  let ?F = "filter (\<lambda>r. ph_inscription_id r = i \<and> ph_block_height r \<le> t) (db_history db)"
  have F: "?F = filter (\<lambda>r. ph_inscription_id r = i) (events_upto t db)" by (auto intro: filter_cong)
  show ?thesis
  proof (cases "last_event i (events_upto t db)")
    case None
    then have "?F = []" unfolding F by (simp add: last_event_None_iff filter_empty_conv)
    with None show ?thesis by (simp add: get_last_pass_history_at_or_before_height_def)
  next
    case (Some h)
    have h: "h \<in> set ?F" using last_event_in [OF Some] by simp
    have "event_order r < event_order h" if "r \<in> set ?F" "r \<noteq> h" for r
    proof -
      have ok: "pass_db_ok db" and sh: "sorted (map ph_block_height (db_history db))"
        using inv by (simp_all add: timeline_ok_def)
      have "ph_id r \<le> ph_id h \<and> (ph_id r = ph_id h \<longrightarrow> r = h)"
        by (rule last_event_greatest [OF sorted_events_upto [OF ok] Some]) (use that in auto)
      with that(2) have id: "ph_id r < ph_id h" by auto
      have "sorted_wrt (\<lambda>a b. ph_id a < ph_id b) (db_history db)"
        "sorted_wrt (\<lambda>a b. ph_block_height a \<le> ph_block_height b) (db_history db)"
        using ok sh by (simp_all add: pass_db_ok_def sorted_wrt_map)
      then have "ph_block_height r \<le> ph_block_height h"
        using id that(1) h by (auto simp: in_set_conv_nth sorted_wrt_iff_nth_less)
          (metis linorder_neqE_nat order.asym)
      with id show ?thesis by (auto simp: event_order_def less_prod_def)
    qed
    with h have "select_max event_order ?F = Some h" by (rule select_max_eqI)
    with Some show ?thesis by (simp add: get_last_pass_history_at_or_before_height_def)
  qed
qed

text \<open>The two notions of "latest event" in the queries, the greatest event id of a pass and the
  last row in the order of block height and event id, pick the same event at every height of a
  reachable history; and at the tip that event shows the current row of the pass.\<close>

theorem latest_event_notions_agree:
  assumes "pass_run id_text db"
  shows "get_last_pass_history_at_or_before_height i t db =
      map_option row_to_pass_history_item
        (find (\<lambda>r. ph_inscription_id r = i) (latest_history t (db_history db))) \<and>
    (history_upto t db \<longrightarrow>
      map_option (\<lambda>m. (mp_state m, mp_owner m, mp_satpoint m)) (get_pass_by_inscription_id i db) =
      map_option (\<lambda>e. (hi_state e, hi_owner e, hi_satpoint e))
        (get_last_pass_history_at_or_before_height i t db))"
proof
  note inv = pass_run_timeline [OF assms]
  then have ok: "pass_db_ok db" and v: "view_is_history db" by (simp_all add: timeline_ok_def)
  have lk: "find (\<lambda>r. ph_inscription_id r = i) (latest_history t (db_history db)) =
      last_event i (events_upto t db)" (is "?l = ?r")
  proof (rule option_eqI_Some)
    fix h
    have "?l = Some h \<longleftrightarrow> h \<in> set (latest_history t (db_history db)) \<and> ph_inscription_id h = i"
      using select_key_iff [OF distinct_latest_ids, of "db_history db" t i h] ok
      by (simp add: select_key_def pass_db_ok_def)
    also have "\<dots> \<longleftrightarrow> ?r = Some h"
      using ok last_event_in by (auto simp: in_latest_history pass_db_ok_def)
    finally show "?l = Some h \<longleftrightarrow> ?r = Some h" .
  qed
  show "get_last_pass_history_at_or_before_height i t db = map_option row_to_pass_history_item ?l"
    by (simp add: last_history_is_last_event [OF inv] lk)
  show "history_upto t db \<longrightarrow>
      map_option (\<lambda>m. (mp_state m, mp_owner m, mp_satpoint m)) (get_pass_by_inscription_id i db) =
      map_option (\<lambda>e. (hi_state e, hi_owner e, hi_satpoint e))
        (get_last_pass_history_at_or_before_height i t db)"
  proof
    assume up: "history_upto t db"
    then have "events_upto t db = db_history db" by (simp add: history_upto_def)
    moreover have "last_event i (db_history db) = None" if "get_pass_by_inscription_id i db = None"
      using that v unfolding get_pass_by_inscription_id_def select_key_None_iff view_is_history_def
        last_event_None_iff by blast
    moreover have "\<exists>h. last_event i (db_history db) = Some h \<and> row_matches m h"
      if "get_pass_by_inscription_id i db = Some m" for m
      using that v by (auto simp: get_pass_Some [OF ok] view_is_history_def)
    ultimately show "map_option (\<lambda>m. (mp_state m, mp_owner m, mp_satpoint m)) (get_pass_by_inscription_id i db) =
      map_option (\<lambda>e. (hi_state e, hi_owner e, hi_satpoint e))
        (get_last_pass_history_at_or_before_height i t db)"
      unfolding last_history_is_last_event [OF inv]
      by (cases "get_pass_by_inscription_id i db")
        (auto simp: row_to_pass_history_item_def row_matches_def)
  qed
qed

theorem latest_event_notions_agree_witness:
  "map_option hi_state (get_last_pass_history_at_or_before_height (sample_id 1) 110 sample_db3) = Some Dormant"
proof -
  have "map_option mp_state (get_pass_by_inscription_id (sample_id 1) sample_db3) = Some Dormant"
    by code_simp
  then have "map_option fst (map_option (\<lambda>m. (mp_state m, mp_owner m, mp_satpoint m))
      (get_pass_by_inscription_id (sample_id 1) sample_db3)) = Some Dormant"
    by (simp add: option.map_comp o_def)
  with latest_event_notions_agree [OF sample_run(2), of "sample_id 1" 110] sample_upto(4)
  show ?thesis by (simp add: option.map_comp o_def)
qed

lemma first_missing_loop_correct:
  assumes "sorted hs" and "e \<le> l" and "l < - 1"
  shows "case first_missing_loop hs e l of
      None \<Rightarrow> \<forall>x. e \<le> x \<and> x \<le> l \<longrightarrow> x \<in> set hs
    | Some x \<Rightarrow> e \<le> x \<and> x \<le> l \<and> x \<notin> set hs \<and> (\<forall>y. e \<le> y \<and> y < x \<longrightarrow> y \<in> set hs)"
  using assms(1,2)
proof (induction hs arbitrary: e)
  case Nil
  then show ?case by auto
next
  case (Cons h hs)
  consider "e < h" | "h = e" | "h < e" by fastforce
  then show ?case
  proof cases
    case 1
    with Cons.prems show ?thesis by fastforce
  next
    case 2
    have e: "e < - 1" using Cons.prems(2) assms(3) by simp
    then have s: "sat_add e 1 = e + 1" and n: "unat (e + 1) = unat e + 1"
      by (simp_all add: sat_add_def word_less_nat_alt unat_minus_one_word_eq unat_word_ariths)
    have nx: "y = e \<or> e + 1 \<le> y" if "e \<le> y" for y
      using that n by (auto simp: word_le_nat_alt word_unat_eq_iff)
    show ?thesis
    proof (cases "l < e + 1")
      case True
      with nx have "x = e" if "e \<le> x" "x \<le> l" for x using that by fastforce
      with True 2 show ?thesis by (simp add: s Let_def)
    next
      case False
      have IH: "case first_missing_loop hs (e + 1) l of
          None \<Rightarrow> \<forall>x. e + 1 \<le> x \<and> x \<le> l \<longrightarrow> x \<in> set hs
        | Some x \<Rightarrow> e + 1 \<le> x \<and> x \<le> l \<and> x \<notin> set hs \<and> (\<forall>y. e + 1 \<le> y \<and> y < x \<longrightarrow> y \<in> set hs)"
        using Cons.IH [of "e + 1"] Cons.prems(1) False by simp
      have "e < e + 1" using n by (simp add: word_less_nat_alt)
      then have "e \<le> x \<and> x \<noteq> e" if "e + 1 \<le> x" for x using that by auto
      with IH nx 2 False show ?thesis
        by (simp add: s Let_def split: option.splits) blast+
    qed
  next
    case 3
    then have eq: "first_missing_loop (h # hs) e l = first_missing_loop hs e l" by auto
    have ne: "x \<noteq> h" if "e \<le> x" for x using that 3 by auto
    have s: "sorted hs" using Cons.prems(1) by simp
    show ?thesis
      using Cons.IH [OF s Cons.prems(2)] ne [of e] ne unfolding eq
      by (cases "first_missing_loop hs e l") auto
  qed
qed

text \<open>The coverage scan of the upstream snapshot history returns the least height of the range
  that has no stored row, and nothing exactly when every height of the range has one.\<close>

theorem first_missing_height_correct:
  assumes "start_height \<le> end_height" and "end_height < - 1"
  shows "case get_first_missing_balance_history_snapshot_history_height start_height end_height db of
      None \<Rightarrow> \<forall>h. start_height \<le> h \<and> h \<le> end_height \<longrightarrow>
        get_balance_history_snapshot_anchor_at_height h db \<noteq> None
    | Some h \<Rightarrow> start_height \<le> h \<and> h \<le> end_height \<and>
        get_balance_history_snapshot_anchor_at_height h db = None \<and>
        (\<forall>k. start_height \<le> k \<and> k < h \<longrightarrow> get_balance_history_snapshot_anchor_at_height k db \<noteq> None)"
proof -
  let ?hs = "sort (filter (\<lambda>h. start_height \<le> h \<and> h \<le> end_height)
      (map an_stable_height (db_snapshot_history db)))"
  have "get_balance_history_snapshot_anchor_at_height h db \<noteq> None \<longleftrightarrow> h \<in> set ?hs"
    if "start_height \<le> h" "h \<le> end_height" for h
    using that select_key_None_iff [of an_stable_height "db_snapshot_history db" h]
    by (auto simp: get_balance_history_snapshot_anchor_at_height_def)
  note stored = this
  have eq: "get_first_missing_balance_history_snapshot_history_height start_height end_height db =
      first_missing_loop ?hs start_height end_height"
    using assms(1) unfolding get_first_missing_balance_history_snapshot_history_height_def
    by (simp only: not_less [symmetric] if_False)
  note loop = first_missing_loop_correct [OF sorted_sort assms, of "filter (\<lambda>h. start_height \<le> h \<and>
      h \<le> end_height) (map an_stable_height (db_snapshot_history db))"]
  show ?thesis
  proof (cases "first_missing_loop ?hs start_height end_height")
    case None
    with loop stored show ?thesis unfolding eq by (simp only: option.case) blast
  next
    case (Some h)
    with loop have h: "start_height \<le> h" "h \<le> end_height" "h \<notin> set ?hs"
      "\<forall>k. start_height \<le> k \<and> k < h \<longrightarrow> k \<in> set ?hs"
      by (simp_all only: option.case) blast+
    then have "k \<le> end_height" if "k < h" for k using that by (meson less_imp_le order_trans)
    with Some h stored show ?thesis unfolding eq by (simp only: option.case) blast
  qed
qed

theorem first_missing_height_correct_witness:
  "get_first_missing_balance_history_snapshot_history_height 5 8 empty_pass_db = Some 5 \<and>
   get_balance_history_snapshot_anchor_at_height 5 empty_pass_db = None"
proof -
  have "get_first_missing_balance_history_snapshot_history_height 5 8 empty_pass_db = Some 5"
    by code_simp
  with first_missing_height_correct [of 5 8 empty_pass_db] show ?thesis by simp
qed

lemma latest_history_count:
  assumes inv: "timeline_ok db"
  shows "length (latest_history t (db_history db)) =
    length (filter (\<lambda>m. mp_mint_block_height m \<le> t) (db_passes db))"
proof -
  have ok: "pass_db_ok db" using inv by (simp add: timeline_ok_def)
  let ?L = "map ph_inscription_id (latest_history t (db_history db))"
  let ?R = "map mp_inscription_id (rows_at t db)"
  have s: "sorted_wrt (<) (map ph_id (db_history db))" using ok by (simp add: pass_db_ok_def)
  have "set ?L = ph_inscription_id ` set (events_upto t db)"
  proof (intro equalityI subsetI)
    fix i assume "i \<in> ph_inscription_id ` set (events_upto t db)"
    then have "last_event i (events_upto t db) \<noteq> None" unfolding last_event_None_iff by blast
    then obtain h where h: "last_event i (events_upto t db) = Some h" by blast
    with last_event_in [OF h] show "i \<in> set ?L" using in_latest_history [OF s, of h t] by auto
  qed (auto simp: latest_history_def)
  also have "\<dots> = set ?R"
  proof (intro equalityI subsetI)
    fix i assume "i \<in> ph_inscription_id ` set (events_upto t db)"
    then show "i \<in> set ?R"
      using db_at_view [OF inv, of "\<lambda>_. []" t] unfolding view_is_history_def db_at_fields by auto
  next
    fix i assume "i \<in> set ?R"
    then obtain m where m: "m \<in> set (db_passes db)" "mp_mint_block_height m \<le> t"
      "i = mp_inscription_id m" by (auto simp: rows_at_def)
    obtain h where h: "last_event (mp_inscription_id m) (events_upto t db) = Some h"
      using surviving_event [OF inv m(1,2)] .
    from last_event_in [OF h] m(3) show "i \<in> ph_inscription_id ` set (events_upto t db)"
      by (intro image_eqI [of _ _ h]) simp_all
  qed
  finally have "length ?L = length ?R"
    using distinct_latest_ids [OF s] rows_at_ok(1) [OF inv] by (metis distinct_card)
  then show ?thesis by (simp add: rows_at_def)
qed

text \<open>The state statistics at a height count every pass minted at or below it exactly once: the
  five state counts add up to the total, and the total is the number of such passes.\<close>

theorem state_stats_partition:
  assumes "pass_run id_text db"
  shows "let stats = get_pass_state_stats_from_history_at_height t db in
    st_total_count stats = st_active_count stats + st_dormant_count stats +
      st_consumed_count stats + st_burned_count stats + st_invalid_count stats \<and>
    st_total_count stats = length (filter (\<lambda>m. mp_mint_block_height m \<le> t) (db_passes db)) \<and>
    st_active_count stats = get_active_pass_count_from_history_at_height t db"
proof -
  let ?rows = "latest_history t (db_history db)"
  have all: "length rows = count_state Active rows + count_state Dormant rows +
      count_state Consumed rows + count_state Burned rows + count_state Invalid rows" for rows
  proof (induction rows)
    case (Cons r rows) then show ?case by (cases "ph_new_state r") (simp_all add: count_state_def)
  qed (simp add: count_state_def)
  show ?thesis
    unfolding stats_eq Let_def
    using all [of ?rows] latest_history_count [OF pass_run_timeline [OF assms(1)], of t]
    by (simp add: get_active_pass_count_from_history_at_height_def count_state_def
        get_pass_count_from_history_at_height_by_states_def latest_in_states_def)
qed

theorem state_stats_partition_witness:
  "st_total_count (get_pass_state_stats_from_history_at_height 110 sample_db3) = 2 \<and>
   st_total_count (get_pass_state_stats_from_history_at_height 105 sample_db3) = 1"
proof -
  have "length (filter (\<lambda>m. mp_mint_block_height m \<le> 110) (db_passes sample_db3)) = 2"
    "length (filter (\<lambda>m. mp_mint_block_height m \<le> 105) (db_passes sample_db3)) = 1" by code_simp+
  then show ?thesis
    using state_stats_partition [OF sample_run(2), of 110] state_stats_partition [OF sample_run(2), of 105]
    by (simp add: Let_def)
qed

end
