(* ===== verification/Pass_Commit.thy ===== *)
theory Pass_Commit
  imports Pass_Storage
begin

text \<open>
  \<open>usdb-indexer/src/index/pass_commit.rs\<close>: the per-block stream of pass mutations, its root hash and
  the rolling block commit.  SHA-256 and the JSON encoding of a mutation are the parameters \<open>sha256\<close>
  and \<open>enc\<close>; identifiers inside a mutation are kept as typed values, as in the pass tables.  The
  theorems show what the hashes bind: equal roots mean equal mutation streams, and equal commits at
  the end of two chains mean equal blocks all the way back, unless SHA-256 has a collision.
\<close>

section \<open>Mutations and the collector\<close>

datatype PassBlockMutation =
    Mint InscriptionId int USDBScriptHash SatPoint string "string option" "InscriptionId list"
  | InvalidMint InscriptionId int USDBScriptHash SatPoint string string
  | StateTransition InscriptionId MinerPassState MinerPassState USDBScriptHash SatPoint
  | OwnerTransfer InscriptionId MinerPassState USDBScriptHash USDBScriptHash SatPoint SatPoint
  | SatpointUpdate InscriptionId MinerPassState USDBScriptHash SatPoint SatPoint

record PassBlockMutationCollector =
  co_block_height :: u32
  co_mutations :: "PassBlockMutation list"

definition PassBlockMutationCollector_new :: "u32 \<Rightarrow> PassBlockMutationCollector" where
  "PassBlockMutationCollector_new block_height = \<lparr>co_block_height = block_height, co_mutations = []\<rparr>"

definition collector_push ::
  "PassBlockMutation \<Rightarrow> PassBlockMutationCollector \<Rightarrow> PassBlockMutationCollector" where
  "collector_push mutation c = c\<lparr>co_mutations := co_mutations c @ [mutation]\<rparr>"

definition PASS_COMMIT_PROTOCOL_VERSION :: string where
  "PASS_COMMIT_PROTOCOL_VERSION = ''1.0.0''"

definition PASS_COMMIT_HASH_ALGO :: string where
  "PASS_COMMIT_HASH_ALGO = ''sha256''"

text \<open>\<open>BlockCommitInfo\<close> of the balance-history service, as far as it is used here.\<close>

record BlockCommitInfo =
  bc_block_height :: u32
  bc_btc_block_hash :: string
  bc_balance_delta_root :: string
  bc_block_commit :: string
  bc_commit_protocol_version :: string
  bc_commit_hash_algo :: string

section \<open>Hashes\<close>

definition mutation_root_preimage ::
  "(PassBlockMutation \<Rightarrow> u8 list) \<Rightarrow> PassBlockMutationCollector \<Rightarrow> u8 list" where
  "mutation_root_preimage enc c =
     str_bytes PASS_COMMIT_PROTOCOL_VERSION @ str_bytes ''|'' @ u32_be (co_block_height c) @
     str_bytes ''|'' @ u32_be (of_nat (length (co_mutations c))) @
     concat (map (\<lambda>m. str_bytes ''|'' @ u32_be (of_nat (length (enc m))) @ enc m) (co_mutations c))"

definition mutation_root ::
  "(u8 list \<Rightarrow> u8 list) \<Rightarrow> (PassBlockMutation \<Rightarrow> u8 list) \<Rightarrow> PassBlockMutationCollector \<Rightarrow> string" where
  "mutation_root sha256 enc c = encode_hex (sha256 (mutation_root_preimage enc c))"

definition block_commit_preimage ::
  "u32 \<Rightarrow> string \<Rightarrow> u32 \<Rightarrow> string \<Rightarrow> string \<Rightarrow> u8 list" where
  "block_commit_preimage block_height previous_commit upstream_height upstream_commit root =
     str_bytes PASS_COMMIT_PROTOCOL_VERSION @ str_bytes ''|'' @ u32_be block_height @
     str_bytes ''|'' @ str_bytes previous_commit @ str_bytes ''|'' @ u32_be upstream_height @
     str_bytes ''|'' @ str_bytes upstream_commit @ str_bytes ''|'' @ str_bytes root"

definition build_commit_entry ::
  "(u8 list \<Rightarrow> u8 list) \<Rightarrow> (PassBlockMutation \<Rightarrow> u8 list) \<Rightarrow> PassBlockMutationCollector \<Rightarrow>
   BlockCommitInfo \<Rightarrow> PassBlockCommitEntry option \<Rightarrow> PassBlockCommitEntry result" where
  "build_commit_entry sha256 enc c upstream_commit prev_local_commit =
     (if bc_block_height upstream_commit \<noteq> co_block_height c
      then Inl (Err ''Balance-history block commit height mismatch'')
      else
        (let root = mutation_root sha256 enc c;
             previous_commit = (case prev_local_commit of Some entry \<Rightarrow> pc_block_commit entry
               | None \<Rightarrow> ''genesis'')
         in Inr \<lparr>pc_block_height = co_block_height c,
              pc_balance_history_block_height = bc_block_height upstream_commit,
              pc_balance_history_block_commit = bc_block_commit upstream_commit,
              pc_mutation_root = root,
              pc_block_commit = encode_hex (sha256 (block_commit_preimage (co_block_height c)
                previous_commit (bc_block_height upstream_commit) (bc_block_commit upstream_commit) root)),
              pc_commit_protocol_version = PASS_COMMIT_PROTOCOL_VERSION,
              pc_commit_hash_algo = PASS_COMMIT_HASH_ALGO\<rparr>))"

section \<open>What the hashes bind\<close>

text \<open>A collision of the hash function; no proof of equality can avoid this case.\<close>

definition collision :: "(u8 list \<Rightarrow> u8 list) \<Rightarrow> bool" where
  "collision sha256 \<longleftrightarrow> (\<exists>x y. x \<noteq> y \<and> sha256 x = sha256 y)"

text \<open>On the mutations at hand, the encoding tells them apart and its lengths fit the 32-bit prefix.\<close>

definition encoding_ok :: "(PassBlockMutation \<Rightarrow> u8 list) \<Rightarrow> PassBlockMutation set \<Rightarrow> bool" where
  "encoding_ok enc M \<longleftrightarrow> inj_on enc M \<and> (\<forall>m \<in> M. length (enc m) < 2 ^ 32)"

lemma of_nat_u32_inj: "m < 2 ^ 32 \<Longrightarrow> n < 2 ^ 32 \<Longrightarrow> (of_nat m :: u32) = of_nat n \<Longrightarrow> m = n"
  by (simp add: word_of_nat_eq_iff take_bit_nat_eq_self)

lemma encoding_ok_subset: "encoding_ok enc M \<Longrightarrow> N \<subseteq> M \<Longrightarrow> encoding_ok enc N"
  by (auto simp: encoding_ok_def intro: inj_on_subset)

lemma mutation_stream_inj:
  shows "length xs = length ys \<Longrightarrow> encoding_ok enc (set xs \<union> set ys) \<Longrightarrow>
    concat (map (\<lambda>m. str_bytes ''|'' @ u32_be (of_nat (length (enc m))) @ enc m) xs) =
    concat (map (\<lambda>m. str_bytes ''|'' @ u32_be (of_nat (length (enc m))) @ enc m) ys) \<Longrightarrow> xs = ys"
proof (induction xs ys rule: list_induct2)
  case (Cons x xs y ys)
  let ?f = "\<lambda>m. str_bytes ''|'' @ u32_be (of_nat (length (enc m))) @ enc m"
  from Cons.prems(2) have a: "u32_be (of_nat (length (enc x))) @ enc x @ concat (map ?f xs) =
      u32_be (of_nat (length (enc y))) @ enc y @ concat (map ?f ys)" by simp
  then have "(of_nat (length (enc x)) :: u32) = of_nat (length (enc y))"
    and b: "enc x @ concat (map ?f xs) = enc y @ concat (map ?f ys)"
    by (simp_all only: u32_be_append_eq)
  moreover have "length (enc x) < 2 ^ 32" "length (enc y) < 2 ^ 32"
    using Cons.prems(1) by (simp_all add: encoding_ok_def)
  ultimately have "length (enc x) = length (enc y)" by (intro of_nat_u32_inj)
  with b have e: "enc x = enc y" and c: "concat (map ?f xs) = concat (map ?f ys)" by simp_all
  have "inj_on enc (set (x # xs) \<union> set (y # ys))" using Cons.prems(1) by (simp only: encoding_ok_def)
  from inj_onD [OF this e] have "x = y" by simp
  moreover have "encoding_ok enc (set xs \<union> set ys)"
    by (rule encoding_ok_subset [OF Cons.prems(1)]) auto
  ultimately show ?case using Cons.IH c by blast
qed simp

lemma mutation_root_preimage_inj:
  assumes "encoding_ok enc (set (co_mutations c) \<union> set (co_mutations d))"
    and "length (co_mutations c) < 2 ^ 32" and "length (co_mutations d) < 2 ^ 32"
    and "mutation_root_preimage enc c = mutation_root_preimage enc d"
  shows "c = d"
proof -
  let ?f = "\<lambda>m. str_bytes ''|'' @ u32_be (of_nat (length (enc m))) @ enc m"
  from assms(4) have "u32_be (co_block_height c) @ str_bytes ''|'' @ u32_be (of_nat (length (co_mutations c))) @
      concat (map ?f (co_mutations c)) = u32_be (co_block_height d) @ str_bytes ''|'' @
      u32_be (of_nat (length (co_mutations d))) @ concat (map ?f (co_mutations d))"
    unfolding mutation_root_preimage_def by (simp only: same_append_eq)
  then have h: "co_block_height c = co_block_height d"
    and "(of_nat (length (co_mutations c)) :: u32) = of_nat (length (co_mutations d))"
    and s: "concat (map ?f (co_mutations c)) = concat (map ?f (co_mutations d))"
    by (simp_all only: u32_be_append_eq same_append_eq)
  then have "length (co_mutations c) = length (co_mutations d)"
    using of_nat_u32_inj assms(2,3) by blast
  from mutation_stream_inj [OF this assms(1) s] h show ?thesis by (cases c, cases d) simp
qed

lemma hex_hash_eq: "encode_hex (sha256 x) = encode_hex (sha256 y) \<Longrightarrow> x = y \<or> collision sha256"
  using encode_hex_inj unfolding collision_def by blast

text \<open>A mutation root commits to the block height and to the whole ordered mutation stream of the
  block: two collectors with the same root are equal, unless SHA-256 has a collision.\<close>

theorem mutation_root_binds:
  assumes "encoding_ok enc (set (co_mutations c) \<union> set (co_mutations d))"
    and "length (co_mutations c) < 2 ^ 32" and "length (co_mutations d) < 2 ^ 32"
    and "mutation_root sha256 enc c = mutation_root sha256 enc d"
  shows "c = d \<or> collision sha256"
  using hex_hash_eq [of sha256 "mutation_root_preimage enc c" "mutation_root_preimage enc d"]
    mutation_root_preimage_inj [OF assms(1-3)] assms(4) unfolding mutation_root_def by blast

definition sample_mutation :: "nat \<Rightarrow> PassBlockMutation" where
  "sample_mutation n = StateTransition \<lparr>ii_txid = of_nat n, ii_index = 0\<rparr> Active Dormant 7
     \<lparr>sp_outpoint = \<lparr>op_txid = 1, op_vout = 0\<rparr>, sp_offset = 0\<rparr>"

definition sample_enc :: "PassBlockMutation \<Rightarrow> u8 list" where
  "sample_enc m = (case m of StateTransition i _ _ _ _ \<Rightarrow> hash_bytes (ii_txid i) | _ \<Rightarrow> [])"

theorem mutation_root_binds_witness:
  "mutation_root (\<lambda>_. [0]) sample_enc \<lparr>co_block_height = 5, co_mutations = [sample_mutation 1]\<rparr> =
   mutation_root (\<lambda>_. [0]) sample_enc \<lparr>co_block_height = 5, co_mutations = [sample_mutation 2]\<rparr> \<and>
   collision (\<lambda>_. [0])"
proof -
  let ?c = "\<lambda>n. \<lparr>co_block_height = 5, co_mutations = [sample_mutation n]\<rparr>"
  have ne: "sample_mutation 1 \<noteq> sample_mutation 2" by (simp add: sample_mutation_def)
  have enc: "encoding_ok sample_enc (set (co_mutations (?c 1)) \<union> set (co_mutations (?c 2)))"
    by (auto simp: encoding_ok_def inj_on_def sample_enc_def sample_mutation_def hash_bytes_inj)
  have r: "mutation_root (\<lambda>_. [0]) sample_enc (?c 1) = mutation_root (\<lambda>_. [0]) sample_enc (?c 2)"
    by (simp add: mutation_root_def)
  show ?thesis using mutation_root_binds [OF enc _ _ r] r ne by simp
qed

section \<open>The commit chain\<close>

text \<open>The commit of the newest block, from the list of blocks, newest first.\<close>

fun commit_of_chain ::
  "(u8 list \<Rightarrow> u8 list) \<Rightarrow> (PassBlockMutation \<Rightarrow> u8 list) \<Rightarrow>
   (PassBlockMutationCollector \<times> BlockCommitInfo) list \<Rightarrow> PassBlockCommitEntry option result" where
  "commit_of_chain sha256 enc [] = Inr None"
| "commit_of_chain sha256 enc ((c, upstream) # older) =
     (case commit_of_chain sha256 enc older of Inl e \<Rightarrow> Inl e
      | Inr prev \<Rightarrow>
        (case build_commit_entry sha256 enc c upstream prev of Inl e \<Rightarrow> Inl e
         | Inr entry \<Rightarrow> Inr (Some entry)))"

text \<open>What a block of the chain consists of: its mutations and the upstream commit it is anchored to.\<close>

definition chain_view :: "(PassBlockMutationCollector \<times> BlockCommitInfo) list \<Rightarrow>
    (PassBlockMutationCollector \<times> u32 \<times> string) list" where
  "chain_view bs = map (\<lambda>(c, u). (c, bc_block_height u, bc_block_commit u)) bs"

definition chain_ok :: "(PassBlockMutationCollector \<times> BlockCommitInfo) list \<Rightarrow> bool" where
  "chain_ok bs \<longleftrightarrow> (\<forall>(c, u) \<in> set bs. length (co_mutations c) < 2 ^ 32 \<and> length (bc_block_commit u) = 64)"

definition chain_mutations :: "(PassBlockMutationCollector \<times> BlockCommitInfo) list \<Rightarrow> PassBlockMutation set" where
  "chain_mutations bs = (\<Union>(c, u) \<in> set bs. set (co_mutations c))"

lemma length_encode_hex: "length (encode_hex bs) = 2 * length bs"
  by (induction bs) (simp_all add: encode_hex_def)

lemma block_commit_preimage_inj:
  assumes "block_commit_preimage h p uh uc r = block_commit_preimage h' p' uh' uc' r'"
    and "length p = length p'" and "length uc = length uc'"
  shows "h = h' \<and> p = p' \<and> uh = uh' \<and> uc = uc' \<and> r = r'"
proof -
  from assms(1) have a: "h = h'"
    "str_bytes p @ str_bytes ''|'' @ u32_be uh @ str_bytes ''|'' @ str_bytes uc @ str_bytes ''|'' @ str_bytes r =
     str_bytes p' @ str_bytes ''|'' @ u32_be uh' @ str_bytes ''|'' @ str_bytes uc' @ str_bytes ''|'' @ str_bytes r'"
    unfolding block_commit_preimage_def by (simp_all only: same_append_eq u32_be_append_eq)
  then have b: "p = p'"
    "str_bytes ''|'' @ u32_be uh @ str_bytes ''|'' @ str_bytes uc @ str_bytes ''|'' @ str_bytes r =
     str_bytes ''|'' @ u32_be uh' @ str_bytes ''|'' @ str_bytes uc' @ str_bytes ''|'' @ str_bytes r'"
    using assms(2) by (simp_all add: append_eq_append_conv)
  then have c: "uh = uh'" "str_bytes uc @ str_bytes ''|'' @ str_bytes r = str_bytes uc' @ str_bytes ''|'' @ str_bytes r'"
    by (simp_all only: same_append_eq u32_be_append_eq)
  then have "uc = uc'" "str_bytes r = str_bytes r'"
    using assms(3) by (simp_all add: append_eq_append_conv)
  with a b c show ?thesis by simp
qed

lemma length_block_commit_preimage:
  "length (block_commit_preimage h p uh uc r) = 18 + length p + length uc + length r"
  by (simp add: block_commit_preimage_def PASS_COMMIT_PROTOCOL_VERSION_def)

lemma commit_of_chain_Cons:
  assumes "commit_of_chain sha256 enc ((c, u) # older) = Inr (Some e)"
  obtains prev where "commit_of_chain sha256 enc older = Inr prev"
    and "pc_block_commit e = encode_hex (sha256 (block_commit_preimage (co_block_height c)
        (case prev of Some en \<Rightarrow> pc_block_commit en | None \<Rightarrow> ''genesis'') (bc_block_height u)
        (bc_block_commit u) (mutation_root sha256 enc c)))"
  using assms by (auto simp: build_commit_entry_def Let_def split: sum.splits if_splits)

lemma commit_of_chain_None: "commit_of_chain sha256 enc bs = Inr None \<longleftrightarrow> bs = []"
  by (cases bs) (auto split: sum.splits)

lemma commit_length:
  assumes "\<forall>x. length (sha256 x) = 32" and "commit_of_chain sha256 enc bs = Inr (Some e)"
  shows "length (pc_block_commit e) = 64"
proof -
  obtain c u older where "bs = (c, u) # older" using assms(2) by (cases bs) auto
  then obtain x where "pc_block_commit e = encode_hex (sha256 x)"
    using assms(2) commit_of_chain_Cons by metis
  with assms(1) show ?thesis by (simp add: length_encode_hex)
qed

lemma chain_binds:
  assumes sha: "\<forall>x. length (sha256 x) = 32" and nc: "\<not> collision sha256"
  shows "encoding_ok enc (chain_mutations bs \<union> chain_mutations bs') \<Longrightarrow> chain_ok bs \<Longrightarrow> chain_ok bs' \<Longrightarrow>
    commit_of_chain sha256 enc bs = Inr (Some e) \<Longrightarrow> commit_of_chain sha256 enc bs' = Inr (Some e') \<Longrightarrow>
    pc_block_commit e = pc_block_commit e' \<Longrightarrow> chain_view bs = chain_view bs'"
proof (induction bs arbitrary: bs' e e')
  case (Cons b bs)
  obtain c u where b: "b = (c, u)" by (cases b)
  obtain c' u' rest where bs': "bs' = (c', u') # rest"
    using Cons.prems(5) by (cases bs') auto
  obtain prev where prev: "commit_of_chain sha256 enc bs = Inr prev"
    and pe: "pc_block_commit e = encode_hex (sha256 (block_commit_preimage (co_block_height c)
        (case prev of Some en \<Rightarrow> pc_block_commit en | None \<Rightarrow> ''genesis'') (bc_block_height u)
        (bc_block_commit u) (mutation_root sha256 enc c)))"
    using Cons.prems(4) commit_of_chain_Cons unfolding b by metis
  obtain prev' where prev': "commit_of_chain sha256 enc rest = Inr prev'"
    and pe': "pc_block_commit e' = encode_hex (sha256 (block_commit_preimage (co_block_height c')
        (case prev' of Some en \<Rightarrow> pc_block_commit en | None \<Rightarrow> ''genesis'') (bc_block_height u')
        (bc_block_commit u') (mutation_root sha256 enc c')))"
    using Cons.prems(5) commit_of_chain_Cons unfolding bs' by metis
  let ?p = "case prev of Some en \<Rightarrow> pc_block_commit en | None \<Rightarrow> ''genesis''"
  let ?p' = "case prev' of Some en \<Rightarrow> pc_block_commit en | None \<Rightarrow> ''genesis''"
  have pre: "block_commit_preimage (co_block_height c) ?p (bc_block_height u) (bc_block_commit u)
      (mutation_root sha256 enc c) = block_commit_preimage (co_block_height c') ?p' (bc_block_height u')
      (bc_block_commit u') (mutation_root sha256 enc c')"
    using Cons.prems(6) hex_hash_eq nc unfolding pe pe' by blast
  have lens: "length (bc_block_commit u) = 64" "length (bc_block_commit u') = 64"
    "length (mutation_root sha256 enc c) = 64" "length (mutation_root sha256 enc c') = 64"
    using Cons.prems(2,3) sha by (auto simp: b bs' chain_ok_def mutation_root_def length_encode_hex)
  have lp: "length ?p = length ?p'"
    using arg_cong [OF pre, of length] lens by (simp add: length_block_commit_preimage)
  have lu: "length (bc_block_commit u) = length (bc_block_commit u')" using lens by simp
  note eqs = block_commit_preimage_inj [OF pre lp lu]
  have enc: "encoding_ok enc (set (co_mutations c) \<union> set (co_mutations c'))"
    "encoding_ok enc (chain_mutations bs \<union> chain_mutations rest)"
    by (rule encoding_ok_subset [OF Cons.prems(1)], auto simp: b bs' chain_mutations_def)+
  have "mutation_root_preimage enc c = mutation_root_preimage enc c'"
    using eqs hex_hash_eq [of sha256] nc unfolding mutation_root_def by blast
  then have cc: "c = c'"
    by (intro mutation_root_preimage_inj [OF enc(1)]) (use Cons.prems(2,3) in \<open>auto simp: b bs' chain_ok_def\<close>)
  have "chain_view bs = chain_view rest"
  proof (cases prev)
    case None
    have "prev' = None"
    proof (rule ccontr)
      assume "prev' \<noteq> None"
      then obtain en where "prev' = Some en" by blast
      with lp None commit_length [OF sha] prev' show False by force
    qed
    with None prev prev' show ?thesis by (simp add: commit_of_chain_None)
  next
    case (Some en)
    have "prev' \<noteq> None"
    proof
      assume "prev' = None"
      with lp Some commit_length [OF sha] prev show False by force
    qed
    then obtain en' where en': "prev' = Some en'" by blast
    show ?thesis
      by (rule Cons.IH [OF enc(2), of en en'])
        (use Cons.prems(2,3) prev prev' Some en' eqs in \<open>auto simp: b bs' chain_ok_def\<close>)
  qed
  with cc eqs show ?case by (simp add: b bs' chain_view_def)
qed simp


definition sample_hash :: "u8 list \<Rightarrow> u8 list" where
  "sample_hash bs = replicate 32 (of_nat (length bs))"

definition sample_block :: "nat \<Rightarrow> PassBlockMutationCollector \<times> BlockCommitInfo" where
  "sample_block n = (\<lparr>co_block_height = of_nat n, co_mutations = [sample_mutation n]\<rparr>,
     \<lparr>bc_block_height = of_nat n, bc_btc_block_hash = [], bc_balance_delta_root = [],
      bc_block_commit = replicate 64 CHR ''a'', bc_commit_protocol_version = ''1.0.0'',
      bc_commit_hash_algo = ''sha256''\<rparr>)"


end
