(* ===== verification/Energy_Storage.thy ===== *)
theory Energy_Storage
  imports Kv_Store Usdb_Types Pass_Content
begin

text \<open>
  \<open>usdb-indexer/src/storage/energy.rs\<close>: the RocksDB store of pass energy records.  The record column
  family maps 40-byte keys (txid, index and block height, both integers big-endian) to values; the
  meta column family holds three heights as 4-byte strings.  Record values are kept decoded.  The
  abstract content of the store is \<open>get_pass_energy_record\<close>, a partial function of inscription id
  and height; every other query is shown to answer from it.
\<close>

section \<open>Records, keys and meta values\<close>

record PassEnergyKey =
  ek_inscription_id :: InscriptionId
  ek_block_height :: u32

record PassEnergyValue =
  ev_state :: MinerPassState
  ev_active_block_height :: u32
  ev_owner_address :: USDBScriptHash
  ev_owner_balance :: u64
  ev_owner_delta :: i64
  ev_energy :: u64

record PassEnergyRecord =
  er_inscription_id :: InscriptionId
  er_block_height :: u32
  er_state :: MinerPassState
  er_active_block_height :: u32
  er_owner_address :: USDBScriptHash
  er_owner_balance :: u64
  er_owner_delta :: i64
  er_energy :: u64

record energy_db =
  ed_records :: "(u8 list, PassEnergyValue) cf"
  ed_meta :: "string \<Rightarrow> u8 list option"

definition empty_energy_db :: energy_db where
  "empty_energy_db = \<lparr>ed_records = [], ed_meta = Map.empty\<rparr>"

definition META_KEY_SYNCED_BLOCK_HEIGHT :: string where
  "META_KEY_SYNCED_BLOCK_HEIGHT = ''synced_block_height''"
definition META_KEY_PENDING_BLOCK_HEIGHT :: string where
  "META_KEY_PENDING_BLOCK_HEIGHT = ''pending_block_height''"
definition META_KEY_MAX_RECORD_BLOCK_HEIGHT :: string where
  "META_KEY_MAX_RECORD_BLOCK_HEIGHT = ''max_record_block_height''"

lemmas meta_key_defs = META_KEY_SYNCED_BLOCK_HEIGHT_def META_KEY_PENDING_BLOCK_HEIGHT_def
  META_KEY_MAX_RECORD_BLOCK_HEIGHT_def

definition make_energy_key :: "InscriptionId \<Rightarrow> u32 \<Rightarrow> u8 list" where
  "make_energy_key inscription_id block_height =
     hash_bytes (ii_txid inscription_id) @ u32_be (ii_index inscription_id) @ u32_be block_height"

definition parse_energy_key :: "u8 list \<Rightarrow> PassEnergyKey result" where
  "parse_energy_key key_bytes =
     (if length key_bytes \<noteq> 40 then Inl (Err ''Invalid PassEnergyKey length'')
      else Inr \<lparr>ek_inscription_id =
          \<lparr>ii_txid = hash_of_bytes (take 32 key_bytes),
           ii_index = of_nat (be_decode (take 4 (drop 32 key_bytes)))\<rparr>,
        ek_block_height = of_nat (be_decode (drop 36 key_bytes))\<rparr>)"

definition value_of_record :: "PassEnergyRecord \<Rightarrow> PassEnergyValue" where
  "value_of_record r =
     \<lparr>ev_state = er_state r, ev_active_block_height = er_active_block_height r,
      ev_owner_address = er_owner_address r, ev_owner_balance = er_owner_balance r,
      ev_owner_delta = er_owner_delta r, ev_energy = er_energy r\<rparr>"

definition record_of :: "PassEnergyKey \<Rightarrow> PassEnergyValue \<Rightarrow> PassEnergyRecord" where
  "record_of k v =
     \<lparr>er_inscription_id = ek_inscription_id k, er_block_height = ek_block_height k,
      er_state = ev_state v, er_active_block_height = ev_active_block_height v,
      er_owner_address = ev_owner_address v, er_owner_balance = ev_owner_balance v,
      er_owner_delta = ev_owner_delta v, er_energy = ev_energy v\<rparr>"

section \<open>Meta heights\<close>

definition get_meta_u32 :: "string \<Rightarrow> energy_db \<Rightarrow> u32 option result" where
  "get_meta_u32 key db =
     (case ed_meta db key of
        None \<Rightarrow> Inr None
      | Some bytes \<Rightarrow>
          if length bytes \<noteq> 4 then Inl (Err ''Invalid energy meta value length'')
          else Inr (Some (of_nat (be_decode bytes))))"

definition set_meta_u32 :: "string \<Rightarrow> u32 \<Rightarrow> energy_db \<Rightarrow> energy_db" where
  "set_meta_u32 key val db = db\<lparr>ed_meta := (ed_meta db)(key \<mapsto> u32_be val)\<rparr>"

definition delete_meta_key :: "string \<Rightarrow> energy_db \<Rightarrow> energy_db" where
  "delete_meta_key key db = db\<lparr>ed_meta := (ed_meta db)(key := None)\<rparr>"

definition get_synced_block_height :: "energy_db \<Rightarrow> u32 option result" where
  "get_synced_block_height = get_meta_u32 META_KEY_SYNCED_BLOCK_HEIGHT"

definition set_synced_block_height :: "u32 \<Rightarrow> energy_db \<Rightarrow> energy_db" where
  "set_synced_block_height = set_meta_u32 META_KEY_SYNCED_BLOCK_HEIGHT"

definition get_pending_block_height :: "energy_db \<Rightarrow> u32 option result" where
  "get_pending_block_height = get_meta_u32 META_KEY_PENDING_BLOCK_HEIGHT"

definition set_pending_block_height :: "u32 \<Rightarrow> energy_db \<Rightarrow> energy_db" where
  "set_pending_block_height = set_meta_u32 META_KEY_PENDING_BLOCK_HEIGHT"

definition clear_pending_block_height :: "energy_db \<Rightarrow> energy_db" where
  "clear_pending_block_height = delete_meta_key META_KEY_PENDING_BLOCK_HEIGHT"

definition finalize_block_sync_meta :: "u32 \<Rightarrow> energy_db \<Rightarrow> energy_db" where
  "finalize_block_sync_meta block_height db =
     delete_meta_key META_KEY_PENDING_BLOCK_HEIGHT
       (set_meta_u32 META_KEY_SYNCED_BLOCK_HEIGHT block_height db)"

lemmas meta_defs = get_meta_u32_def set_meta_u32_def delete_meta_key_def get_synced_block_height_def
  set_synced_block_height_def get_pending_block_height_def set_pending_block_height_def
  clear_pending_block_height_def finalize_block_sync_meta_def

section \<open>Record operations\<close>

text \<open>One write batch: the record and, when it is the highest so far, the cached maximum.  A
  malformed cached maximum aborts before the batch is written.\<close>

definition insert_pass_energy_record :: "PassEnergyRecord \<Rightarrow> (energy_db, unit) op" where
  "insert_pass_energy_record r =
     bindR (getsR (get_meta_u32 META_KEY_MAX_RECORD_BLOCK_HEIGHT)) (\<lambda>current_max.
     modify (\<lambda>db.
       let db = db\<lparr>ed_records := cf_put (make_energy_key (er_inscription_id r) (er_block_height r))
                  (value_of_record r) (ed_records db)\<rparr>
       in if (case current_max of Some h \<Rightarrow> h < er_block_height r | None \<Rightarrow> True)
          then set_meta_u32 META_KEY_MAX_RECORD_BLOCK_HEIGHT (er_block_height r) db else db))"

definition get_pass_energy_record :: "InscriptionId \<Rightarrow> u32 \<Rightarrow> energy_db \<Rightarrow> PassEnergyValue option" where
  "get_pass_energy_record inscription_id block_height db =
     cf_get (ed_records db) (make_energy_key inscription_id block_height)"

fun find_last_loop ::
  "InscriptionId \<Rightarrow> u32 \<Rightarrow> (u8 list \<times> PassEnergyValue) list \<Rightarrow> PassEnergyRecord option result" where
  "find_last_loop inscription_id from_block_height [] = Inr None"
| "find_last_loop inscription_id from_block_height ((key_bytes, val) # rest) =
     (case parse_energy_key key_bytes of Inl e \<Rightarrow> Inl e
      | Inr key \<Rightarrow>
          if ek_inscription_id key = inscription_id \<and> ek_block_height key \<le> from_block_height
          then Inr (Some (record_of key val))
          else find_last_loop inscription_id from_block_height rest)"

definition find_last_pass_energy_record ::
  "InscriptionId \<Rightarrow> u32 \<Rightarrow> energy_db \<Rightarrow> PassEnergyRecord option result" where
  "find_last_pass_energy_record inscription_id from_block_height db =
     find_last_loop inscription_id from_block_height
       (iter_from_reverse (make_energy_key inscription_id from_block_height) (ed_records db))"

text \<open>The page loop: stop at the first key out of range, skip \<open>offset\<close> rows, collect until the
  page is full.  \<open>in_range\<close> is the negation of the loop's two \<open>break\<close> conditions on the key.\<close>

fun page_loop ::
  "(PassEnergyKey \<Rightarrow> bool) \<Rightarrow> nat \<Rightarrow> nat \<Rightarrow> (u8 list \<times> PassEnergyValue) list \<Rightarrow> nat \<Rightarrow>
   PassEnergyRecord list \<Rightarrow> PassEnergyRecord list result" where
  "page_loop in_range offset page_size [] skipped records = Inr records"
| "page_loop in_range offset page_size ((key_bytes, val) # rest) skipped records =
     (case parse_energy_key key_bytes of Inl e \<Rightarrow> Inl e
      | Inr key \<Rightarrow>
          if \<not> in_range key then Inr records
          else if skipped < offset then page_loop in_range offset page_size rest (skipped + 1) records
          else
            (let records = records @ [record_of key val]
             in if page_size \<le> length records then Inr records
                else page_loop in_range offset page_size rest skipped records))"

definition get_pass_energy_records_by_page_in_height_range ::
  "InscriptionId \<Rightarrow> u32 \<Rightarrow> u32 \<Rightarrow> u64 \<Rightarrow> u64 \<Rightarrow> energy_db \<Rightarrow> PassEnergyRecord list result" where
  "get_pass_energy_records_by_page_in_height_range inscription_id from_block_height to_block_height
     page page_size db =
     (if to_block_height < from_block_height then Inl (Err ''Invalid energy height range'')
      else case checked_mul page page_size of
        None \<Rightarrow> Inl (Err ''Pagination overflow when querying pass energy range'')
      | Some offset \<Rightarrow>
          page_loop (\<lambda>k. ek_inscription_id k = inscription_id \<and> \<not> to_block_height < ek_block_height k)
            (unat offset) (unat page_size)
            (iter_from_forward (make_energy_key inscription_id from_block_height) (ed_records db)) 0 [])"

definition get_pass_energy_records_by_page_in_height_range_desc ::
  "InscriptionId \<Rightarrow> u32 \<Rightarrow> u32 \<Rightarrow> u64 \<Rightarrow> u64 \<Rightarrow> energy_db \<Rightarrow> PassEnergyRecord list result" where
  "get_pass_energy_records_by_page_in_height_range_desc inscription_id from_block_height
     to_block_height page page_size db =
     (if to_block_height < from_block_height then Inl (Err ''Invalid energy height range'')
      else case checked_mul page page_size of
        None \<Rightarrow> Inl (Err ''Pagination overflow when querying pass energy range desc'')
      | Some offset \<Rightarrow>
          page_loop (\<lambda>k. ek_inscription_id k = inscription_id \<and> \<not> ek_block_height k < from_block_height)
            (unat offset) (unat page_size)
            (iter_from_reverse (make_energy_key inscription_id to_block_height) (ed_records db)) 0 [])"

fun count_loop ::
  "(PassEnergyKey \<Rightarrow> bool) \<Rightarrow> (u8 list \<times> PassEnergyValue) list \<Rightarrow> u64 \<Rightarrow> u64 result" where
  "count_loop in_range [] count = Inr count"
| "count_loop in_range ((key_bytes, val) # rest) count =
     (case parse_energy_key key_bytes of Inl e \<Rightarrow> Inl e
      | Inr key \<Rightarrow>
          if \<not> in_range key then Inr count
          else case checked_add count 1 of
            None \<Rightarrow> Inl (Err ''Pass energy record count overflow'')
          | Some count \<Rightarrow> count_loop in_range rest count)"

definition count_pass_energy_records_in_height_range ::
  "InscriptionId \<Rightarrow> u32 \<Rightarrow> u32 \<Rightarrow> energy_db \<Rightarrow> u64 result" where
  "count_pass_energy_records_in_height_range inscription_id from_block_height to_block_height db =
     (if to_block_height < from_block_height then Inl (Err ''Invalid energy height range'')
      else count_loop
        (\<lambda>k. ek_inscription_id k = inscription_id \<and> \<not> to_block_height < ek_block_height k)
        (iter_from_forward (make_energy_key inscription_id from_block_height) (ed_records db)) 0)"

definition max_opt :: "u32 option \<Rightarrow> u32 \<Rightarrow> u32 option" where
  "max_opt cur h = Some (case cur of Some c \<Rightarrow> max c h | None \<Rightarrow> h)"

fun clear_scan ::
  "u32 \<Rightarrow> (u8 list \<times> PassEnergyValue) list \<Rightarrow> u8 list list \<Rightarrow> u32 option \<Rightarrow>
   (u8 list list \<times> u32 option) result" where
  "clear_scan from_block_height [] keys_to_delete max_kept_height = Inr (keys_to_delete, max_kept_height)"
| "clear_scan from_block_height ((key_bytes, val) # rest) keys_to_delete max_kept_height =
     (case parse_energy_key key_bytes of Inl e \<Rightarrow> Inl e
      | Inr key \<Rightarrow>
          if from_block_height \<le> ek_block_height key
          then clear_scan from_block_height rest (keys_to_delete @ [key_bytes]) max_kept_height
          else clear_scan from_block_height rest keys_to_delete
            (max_opt max_kept_height (ek_block_height key)))"

definition clear_records_from_height :: "u32 \<Rightarrow> (energy_db, unit) op" where
  "clear_records_from_height from_block_height =
     bindR (getsR (\<lambda>db. clear_scan from_block_height (ed_records db) [] None)) (\<lambda>(keys, max_kept).
     bindR (modify (\<lambda>db. db\<lparr>ed_records := fold cf_delete keys (ed_records db)\<rparr>)) (\<lambda>_.
     modify (case max_kept of
         Some height \<Rightarrow> set_meta_u32 META_KEY_MAX_RECORD_BLOCK_HEIGHT height
       | None \<Rightarrow> delete_meta_key META_KEY_MAX_RECORD_BLOCK_HEIGHT)))"

fun scan_max_loop :: "(u8 list \<times> PassEnergyValue) list \<Rightarrow> u32 option \<Rightarrow> u32 option result" where
  "scan_max_loop [] max_height = Inr max_height"
| "scan_max_loop ((key_bytes, val) # rest) max_height =
     (case parse_energy_key key_bytes of Inl e \<Rightarrow> Inl e
      | Inr key \<Rightarrow> scan_max_loop rest (max_opt max_height (ek_block_height key)))"

definition scan_max_record_block_height :: "energy_db \<Rightarrow> u32 option result" where
  "scan_max_record_block_height db = scan_max_loop (ed_records db) None"

definition get_max_record_block_height :: "(energy_db, u32 option) op" where
  "get_max_record_block_height =
     bindR (getsR (get_meta_u32 META_KEY_MAX_RECORD_BLOCK_HEIGHT)) (\<lambda>cached.
     case cached of
       Some height \<Rightarrow> ret (Some height)
     | None \<Rightarrow>
         bindR (getsR scan_max_record_block_height) (\<lambda>scanned.
         case scanned of
           None \<Rightarrow> ret None
         | Some height \<Rightarrow>
             bindR (modify (set_meta_u32 META_KEY_MAX_RECORD_BLOCK_HEIGHT height)) (\<lambda>_.
             ret (Some height))))"

section \<open>Keys\<close>

lemma length_make_energy_key [simp]: "length (make_energy_key i h) = 40"
  by (simp add: make_energy_key_def)

lemma parse_make_energy_key [simp]:
  "parse_energy_key (make_energy_key i h) = Inr \<lparr>ek_inscription_id = i, ek_block_height = h\<rparr>"
  by (simp add: parse_energy_key_def make_energy_key_def)

lemma make_energy_key_inj [simp]: "make_energy_key i h = make_energy_key j k \<longleftrightarrow> i = j \<and> h = k"
  by (metis parse_make_energy_key PassEnergyKey.ext_inject sum.inject(2))

lemma parse_energy_key_make:
  assumes "parse_energy_key kb = Inr k"
  shows "kb = make_energy_key (ek_inscription_id k) (ek_block_height k)"
proof -
  from assms have l: "length kb = 40" by (auto simp: parse_energy_key_def split: if_splits)
  have "take 4 (drop 32 kb) @ drop 36 kb = drop 32 kb"
    using append_take_drop_id [of 4 "drop 32 kb"] by simp
  then have "kb = take 32 kb @ take 4 (drop 32 kb) @ drop 36 kb" by simp
  moreover have "hash_bytes (hash_of_bytes (take 32 kb)) = take 32 kb"
    "u32_be (of_nat (be_decode (take 4 (drop 32 kb)))) = take 4 (drop 32 kb)"
    "u32_be (of_nat (be_decode (drop 36 kb))) = drop 36 kb"
    using l by (simp_all add: hash_bytes_of_bytes u32_be_decode)
  ultimately show ?thesis
    using assms by (auto simp: parse_energy_key_def make_energy_key_def split: if_splits)
qed

definition id_bytes :: "InscriptionId \<Rightarrow> u8 list" where
  "id_bytes i = hash_bytes (ii_txid i) @ u32_be (ii_index i)"

lemma make_energy_key_less:
  "make_energy_key i h < make_energy_key j k \<longleftrightarrow> id_bytes i < id_bytes j \<or> id_bytes i = id_bytes j \<and> h < k"
  using append_lex_less [of "id_bytes i" "id_bytes j" "u32_be h" "u32_be k"]
  by (simp add: make_energy_key_def id_bytes_def)

lemma id_bytes_inj [simp]: "id_bytes i = id_bytes j \<longleftrightarrow> i = j"
proof
  assume "id_bytes i = id_bytes j"
  then have "make_energy_key i 0 = make_energy_key j 0"
    by (simp add: make_energy_key_def id_bytes_def)
  then show "i = j" by simp
qed simp

lemma make_energy_key_le:
  "make_energy_key i h \<le> make_energy_key j k \<longleftrightarrow> id_bytes i < id_bytes j \<or> i = j \<and> h \<le> k"
  by (auto simp: le_less make_energy_key_less)

section \<open>Store invariant and abstract content\<close>

definition energy_key :: "u8 list \<Rightarrow> PassEnergyKey" where
  "energy_key kb = (case parse_energy_key kb of Inr k \<Rightarrow> k | Inl _ \<Rightarrow> \<lparr>ek_inscription_id =
     \<lparr>ii_txid = 0, ii_index = 0\<rparr>, ek_block_height = 0\<rparr>)"

definition record_heights :: "energy_db \<Rightarrow> u32 set" where
  "record_heights db = {h. \<exists>i. get_pass_energy_record i h db \<noteq> None}"

definition energy_db_ok :: "energy_db \<Rightarrow> bool" where
  "energy_db_ok db \<longleftrightarrow>
     cf_ok (ed_records db) \<and> (\<forall>r \<in> set (ed_records db). \<exists>k. parse_energy_key (fst r) = Inr k) \<and>
     (case get_meta_u32 META_KEY_MAX_RECORD_BLOCK_HEIGHT db of
        Inl _ \<Rightarrow> False
      | Inr None \<Rightarrow> record_heights db = {}
      | Inr (Some m) \<Rightarrow> m \<in> record_heights db \<and> (\<forall>h \<in> record_heights db. h \<le> m))"

lemma energy_db_okI:
  assumes "cf_ok (ed_records db)" and "\<forall>r \<in> set (ed_records db). \<exists>k. parse_energy_key (fst r) = Inr k"
    and "get_meta_u32 META_KEY_MAX_RECORD_BLOCK_HEIGHT db = Inr mx"
    and "case mx of None \<Rightarrow> record_heights db = {}
      | Some m \<Rightarrow> m \<in> record_heights db \<and> (\<forall>h \<in> record_heights db. h \<le> m)"
  shows "energy_db_ok db"
  using assms by (simp add: energy_db_ok_def split: option.splits)

lemma energy_db_ok_keys:
  "energy_db_ok db \<Longrightarrow> (kb, v) \<in> set (ed_records db) \<Longrightarrow>
    \<exists>i h. kb = make_energy_key i h \<and> parse_energy_key kb = Inr \<lparr>ek_inscription_id = i, ek_block_height = h\<rparr>"
  unfolding energy_db_ok_def using parse_energy_key_make parse_make_energy_key by fastforce

lemma get_pass_energy_record_iff:
  "energy_db_ok db \<Longrightarrow> get_pass_energy_record i h db = Some v \<longleftrightarrow> (make_energy_key i h, v) \<in> set (ed_records db)"
  by (simp add: energy_db_ok_def get_pass_energy_record_def cf_get_Some_iff)

lemma get_meta_set [simp]:
  "get_meta_u32 k (set_meta_u32 k' h db) = (if k = k' then Inr (Some h) else get_meta_u32 k db)"
  "get_meta_u32 k (delete_meta_key k' db) = (if k = k' then Inr None else get_meta_u32 k db)"
  "get_meta_u32 k (ed_records_update f db) = get_meta_u32 k db"
  by (simp_all add: meta_defs)

lemma records_set_meta [simp]:
  "ed_records (set_meta_u32 k h db) = ed_records db" "ed_records (delete_meta_key k db) = ed_records db"
  "get_pass_energy_record i h (set_meta_u32 k x db) = get_pass_energy_record i h db"
  "get_pass_energy_record i h (delete_meta_key k db) = get_pass_energy_record i h db"
  "record_heights (set_meta_u32 k x db) = record_heights db"
  "record_heights (delete_meta_key k db) = record_heights db"
  by (simp_all add: meta_defs get_pass_energy_record_def record_heights_def)

lemma energy_db_ok_meta:
  "k \<noteq> META_KEY_MAX_RECORD_BLOCK_HEIGHT \<Longrightarrow> energy_db_ok (set_meta_u32 k h db) = energy_db_ok db"
  "k \<noteq> META_KEY_MAX_RECORD_BLOCK_HEIGHT \<Longrightarrow> energy_db_ok (delete_meta_key k db) = energy_db_ok db"
  by (simp_all add: energy_db_ok_def split: sum.splits option.splits)

lemma energy_db_ok_empty: "energy_db_ok empty_energy_db"
  by (simp add: energy_db_ok_def empty_energy_db_def meta_defs record_heights_def
      get_pass_energy_record_def cf_get_def)

subsection \<open>Insert\<close>

lemma cf_put_in: "(k, v) \<in> set (cf_put k v rs)"
  by (induction k v rs rule: cf_put.induct) auto

lemma set_cf_put_subset: "set (cf_put k v rs) \<subseteq> insert (k, v) (set rs)"
  by (induction k v rs rule: cf_put.induct) auto

lemma insert_result:
  assumes ok: "energy_db_ok db"
  obtains db' where "insert_pass_energy_record r db = (Inr (), db')" and "energy_db_ok db'"
    and "\<And>i h. get_pass_energy_record i h db' =
      (if i = er_inscription_id r \<and> h = er_block_height r then Some (value_of_record r)
       else get_pass_energy_record i h db)"
    and "\<And>k. k \<noteq> META_KEY_MAX_RECORD_BLOCK_HEIGHT \<Longrightarrow> get_meta_u32 k db' = get_meta_u32 k db"
proof -
  let ?key = "make_energy_key (er_inscription_id r) (er_block_height r)"
  let ?db1 = "db\<lparr>ed_records := cf_put ?key (value_of_record r) (ed_records db)\<rparr>"
  have get: "get_pass_energy_record i h ?db1 =
      (if i = er_inscription_id r \<and> h = er_block_height r then Some (value_of_record r)
       else get_pass_energy_record i h db)" for i h
    using ok by (simp add: get_pass_energy_record_def energy_db_ok_def cf_get_put)
  then have hs: "record_heights ?db1 = insert (er_block_height r) (record_heights db)"
    by (auto simp: record_heights_def)
  have cf: "cf_ok (ed_records ?db1)" using ok by (simp add: energy_db_ok_def cf_ok_put)
  have keys: "\<forall>x \<in> set (ed_records ?db1). \<exists>k. parse_energy_key (fst x) = Inr k"
    using ok set_cf_put_subset [of ?key "value_of_record r" "ed_records db"]
    by (auto simp: energy_db_ok_def)
  from ok obtain cur where cur: "get_meta_u32 META_KEY_MAX_RECORD_BLOCK_HEIGHT db = Inr cur"
    and inv: "case cur of None \<Rightarrow> record_heights db = {}
      | Some m \<Rightarrow> m \<in> record_heights db \<and> (\<forall>h \<in> record_heights db. h \<le> m)"
    by (auto simp: energy_db_ok_def split: sum.splits)
  let ?db' = "if (case cur of Some h \<Rightarrow> h < er_block_height r | None \<Rightarrow> True)
    then set_meta_u32 META_KEY_MAX_RECORD_BLOCK_HEIGHT (er_block_height r) ?db1 else ?db1"
  have "insert_pass_energy_record r db = (Inr (), ?db')"
    by (simp add: insert_pass_energy_record_def bindR_def cur Let_def)
  moreover have "energy_db_ok ?db'"
    using cf keys inv cur hs unfolding energy_db_ok_def
    by (auto split: option.splits if_splits)
  moreover have "get_pass_energy_record i h ?db' =
      (if i = er_inscription_id r \<and> h = er_block_height r then Some (value_of_record r)
       else get_pass_energy_record i h db)" for i h
    using get by simp
  ultimately show thesis by (rule that) simp
qed

subsection \<open>Scans\<close>

text \<open>A loop that parses each key before using it never fails on a well-formed store.\<close>

lemma find_last_loop_find:
  "\<forall>x \<in> set rows. \<exists>k. parse_energy_key (fst x) = Inr k \<Longrightarrow>
    find_last_loop i h rows = Inr (map_option (\<lambda>x. record_of (energy_key (fst x)) (snd x))
      (find (\<lambda>x. ek_inscription_id (energy_key (fst x)) = i \<and> ek_block_height (energy_key (fst x)) \<le> h) rows))"
  by (induction i h rows rule: find_last_loop.induct) (auto simp: energy_key_def)

lemma energy_key_make [simp]:
  "energy_key (make_energy_key i h) = \<lparr>ek_inscription_id = i, ek_block_height = h\<rparr>"
  by (simp add: energy_key_def)

lemma find_last_cases:
  assumes ok: "energy_db_ok db"
  obtains (none) "find_last_pass_energy_record i h db = Inr None"
      and "\<And>k. k \<le> h \<Longrightarrow> get_pass_energy_record i k db = None"
    | (some) k v where "find_last_pass_energy_record i h db =
        Inr (Some (record_of \<lparr>ek_inscription_id = i, ek_block_height = k\<rparr> v))"
      and "k \<le> h" and "get_pass_energy_record i k db = Some v"
      and "\<And>k'. k < k' \<Longrightarrow> k' \<le> h \<Longrightarrow> get_pass_energy_record i k' db = None"
proof -
  let ?rows = "iter_from_reverse (make_energy_key i h) (ed_records db)"
  let ?P = "\<lambda>x. ek_inscription_id (energy_key (fst x)) = i \<and> ek_block_height (energy_key (fst x)) \<le> h"
  have cf: "cf_ok (ed_records db)" using ok by (simp add: energy_db_ok_def)
  have "\<forall>x \<in> set ?rows. \<exists>k. parse_energy_key (fst x) = Inr k"
    using ok by (auto simp: iter_from_reverse_def energy_db_ok_def)
  note loop = find_last_loop_find [OF this, of i h, folded find_last_pass_energy_record_def]
  show thesis
  proof (cases "find ?P ?rows")
    case None
    have "get_pass_energy_record i k db = None" if k: "k \<le> h" for k
    proof (rule ccontr)
      assume "get_pass_energy_record i k db \<noteq> None"
      then obtain v where "cf_get (ed_records db) (make_energy_key i k) = Some v"
        by (auto simp: get_pass_energy_record_def)
      with cf.reverse_find_None [OF cf None, of "make_energy_key i k" v] k
      show False by (simp add: make_energy_key_le)
    qed
    then show thesis using none loop None by simp
  next
    case (Some x)
    obtain kb v where x: "x = (kb, v)" by (cases x)
    note g = cf.reverse_find_greatest [OF cf Some [unfolded x]]
    then have m: "(kb, v) \<in> set (ed_records db)" by (simp add: cf_get_Some_iff [OF cf])
    obtain i' k where kb: "kb = make_energy_key i' k" using energy_db_ok_keys [OF ok m] by blast
    with g have i: "i' = i" "k \<le> h" by simp_all
    show thesis
    proof (rule some)
      show "find_last_pass_energy_record i h db =
          Inr (Some (record_of \<lparr>ek_inscription_id = i, ek_block_height = k\<rparr> v))"
        using loop Some by (simp add: x kb i)
      show "get_pass_energy_record i k db = Some v" using g by (simp add: get_pass_energy_record_def kb i)
    next
      fix k' assume k': "k < k'" "k' \<le> h"
      show "get_pass_energy_record i k' db = None"
      proof (rule ccontr)
        assume "get_pass_energy_record i k' db \<noteq> None"
        then obtain w where "cf_get (ed_records db) (make_energy_key i k') = Some w"
          by (auto simp: get_pass_energy_record_def)
        with g k' have "make_energy_key i k' \<le> kb" by (simp add: make_energy_key_le)
        with k'(1) show False by (simp add: kb i make_energy_key_le)
      qed
    qed (rule i)
  qed
qed

subsection \<open>Clearing\<close>

lemma clear_scan_eq:
  "\<forall>x \<in> set rows. \<exists>k. parse_energy_key (fst x) = Inr k \<Longrightarrow>
    clear_scan h rows ks mx = Inr
      (ks @ map fst (filter (\<lambda>x. h \<le> ek_block_height (energy_key (fst x))) rows),
       fold (\<lambda>x m. max_opt m (ek_block_height (energy_key (fst x))))
         (filter (\<lambda>x. \<not> h \<le> ek_block_height (energy_key (fst x))) rows) mx)"
  by (induction h rows ks mx rule: clear_scan.induct) (auto simp: energy_key_def)

lemma fold_cf_delete: "fold cf_delete ks rs = filter (\<lambda>r. fst r \<notin> set ks) rs"
  by (induction ks arbitrary: rs) (auto simp: cf_delete_def intro: filter_cong)

lemma fold_max_opt:
  "fold (\<lambda>x m. max_opt m (f x)) xs (Some c) = Some (fold (\<lambda>x m. max m (f x)) xs c)"
  by (induction xs arbitrary: c) (simp_all add: max_opt_def)

lemma fold_max_greatest:
  fixes f :: "'x \<Rightarrow> 'k::linorder"
  shows "(fold (\<lambda>x m. max m (f x)) xs c = c \<or> (\<exists>x \<in> set xs. fold (\<lambda>x m. max m (f x)) xs c = f x)) \<and>
    c \<le> fold (\<lambda>x m. max m (f x)) xs c \<and> (\<forall>x \<in> set xs. f x \<le> fold (\<lambda>x m. max m (f x)) xs c)"
proof (induction xs arbitrary: c)
  case (Cons x xs)
  from Cons.IH [of "max c (f x)"] show ?case by (fastforce simp: max_def split: if_splits)
qed simp

lemma max_opt_fold_greatest:
  "case fold (\<lambda>x m. max_opt m (f x)) xs None of None \<Rightarrow> xs = []
    | Some m \<Rightarrow> (\<exists>x \<in> set xs. m = f x) \<and> (\<forall>x \<in> set xs. f x \<le> m)"
proof (cases xs)
  case (Cons x ys)
  then show ?thesis
    using fold_max_greatest [of f ys "f x"] by (auto simp: max_opt_def fold_max_opt [unfolded max_opt_def])
qed simp

lemma record_heights_iff:
  assumes ok: "energy_db_ok db"
  shows "h \<in> record_heights db \<longleftrightarrow> (\<exists>x \<in> set (ed_records db). h = ek_block_height (energy_key (fst x)))"
proof
  assume "h \<in> record_heights db"
  then obtain i v where "get_pass_energy_record i h db = Some v" by (auto simp: record_heights_def)
  then have "(make_energy_key i h, v) \<in> set (ed_records db)" by (simp add: get_pass_energy_record_iff [OF ok])
  then show "\<exists>x \<in> set (ed_records db). h = ek_block_height (energy_key (fst x))" by (force intro!: bexI)
next
  assume "\<exists>x \<in> set (ed_records db). h = ek_block_height (energy_key (fst x))"
  then obtain kb v where x: "(kb, v) \<in> set (ed_records db)" "h = ek_block_height (energy_key kb)" by auto
  from energy_db_ok_keys [OF ok x(1)] obtain i k where "kb = make_energy_key i k" by blast
  with x have "get_pass_energy_record i h db = Some v" by (simp add: get_pass_energy_record_iff [OF ok])
  then show "h \<in> record_heights db" by (auto simp: record_heights_def)
qed

lemma clear_result:
  assumes ok: "energy_db_ok db"
  obtains db' where "clear_records_from_height h db = (Inr (), db')" and "energy_db_ok db'"
    and "\<And>i k. get_pass_energy_record i k db' = (if k < h then get_pass_energy_record i k db else None)"
    and "\<And>k. k \<noteq> META_KEY_MAX_RECORD_BLOCK_HEIGHT \<Longrightarrow> get_meta_u32 k db' = get_meta_u32 k db"
proof -
  let ?hk = "\<lambda>x. ek_block_height (energy_key (fst x))"
  let ?rows = "filter (\<lambda>x. \<not> h \<le> ?hk x) (ed_records db)"
  let ?ks = "map fst (filter (\<lambda>x. h \<le> ?hk x) (ed_records db))"
  let ?mx = "fold (\<lambda>x m. max_opt m (?hk x)) ?rows None"
  let ?db1 = "db\<lparr>ed_records := ?rows\<rparr>"
  let ?db' = "(case ?mx of Some m \<Rightarrow> set_meta_u32 META_KEY_MAX_RECORD_BLOCK_HEIGHT m
     | None \<Rightarrow> delete_meta_key META_KEY_MAX_RECORD_BLOCK_HEIGHT) ?db1"
  have p: "\<forall>x \<in> set (ed_records db). \<exists>k. parse_energy_key (fst x) = Inr k"
    and cf: "cf_ok (ed_records db)" using ok by (simp_all add: energy_db_ok_def)
  have "fold cf_delete ?ks (ed_records db) = ?rows"
    unfolding fold_cf_delete by (rule filter_cong) auto
  then have c: "clear_records_from_height h db = (Inr (), ?db')"
    using clear_scan_eq [OF p, of h "[]" None]
    by (simp add: clear_records_from_height_def bindR_def)
  have eq: "ed_records ?db' = ?rows" by (simp split: option.split)
  have get: "get_pass_energy_record i k ?db' = (if k < h then get_pass_energy_record i k db else None)" for i k
    using cf_get_filter_key [of "\<lambda>kb. \<not> h \<le> ek_block_height (energy_key kb)" "ed_records db" "make_energy_key i k"]
    unfolding get_pass_energy_record_def eq by (simp add: not_le)
  have meta: "get_meta_u32 k ?db' = (if k = META_KEY_MAX_RECORD_BLOCK_HEIGHT then Inr ?mx else get_meta_u32 k db)" for k
    by (simp split: option.split)
  have cf': "cf_ok ?rows" using cf by (rule cf_ok_filter)
  have hs: "k \<in> record_heights ?db' \<longleftrightarrow> (\<exists>x \<in> set ?rows. k = ?hk x)" for k
  proof -
    have "k \<in> record_heights ?db' \<longleftrightarrow> k \<in> record_heights db \<and> k < h"
      using get by (auto simp: record_heights_def)
    also have "\<dots> \<longleftrightarrow> (\<exists>x \<in> set ?rows. k = ?hk x)"
      by (force simp: record_heights_iff [OF ok] not_le)
    finally show ?thesis .
  qed
  have hset: "record_heights ?db' = ?hk ` set ?rows" using hs by blast
  have "energy_db_ok ?db'"
  proof (rule energy_db_okI)
    show "cf_ok (ed_records ?db')" unfolding eq by (rule cf')
    show "\<forall>r \<in> set (ed_records ?db'). \<exists>k. parse_energy_key (fst r) = Inr k" unfolding eq using p by simp
    show "get_meta_u32 META_KEY_MAX_RECORD_BLOCK_HEIGHT ?db' = Inr ?mx" unfolding meta by simp
    show "case ?mx of None \<Rightarrow> record_heights ?db' = {}
      | Some m \<Rightarrow> m \<in> record_heights ?db' \<and> (\<forall>h \<in> record_heights ?db'. h \<le> m)"
      unfolding hset using max_opt_fold_greatest [where f = ?hk and xs = ?rows]
      by (cases ?mx) (simp_all only: option.case, blast+)
  qed
  from that [OF c this get] show thesis by (simp add: meta)
qed

subsection \<open>Pages and counts\<close>

definition rows_in_range ::
  "InscriptionId \<Rightarrow> u32 \<Rightarrow> u32 \<Rightarrow> energy_db \<Rightarrow> (u8 list \<times> PassEnergyValue) list" where
  "rows_in_range i from_h to_h db =
     filter (\<lambda>x. ek_inscription_id (energy_key (fst x)) = i \<and> from_h \<le> ek_block_height (energy_key (fst x)) \<and>
       ek_block_height (energy_key (fst x)) \<le> to_h) (ed_records db)"

definition row_record :: "u8 list \<times> PassEnergyValue \<Rightarrow> PassEnergyRecord" where
  "row_record x = record_of (energy_key (fst x)) (snd x)"

lemma page_loop_eq:
  "\<forall>x \<in> set rows. \<exists>k. parse_energy_key (fst x) = Inr k \<Longrightarrow> skipped \<le> offset \<Longrightarrow>
    length records < page_size \<Longrightarrow>
    page_loop P offset page_size rows skipped records =
      Inr (records @ take (page_size - length records) (map row_record
        (drop (offset - skipped) (takeWhile (\<lambda>x. P (energy_key (fst x))) rows))))"
proof (induction P offset page_size rows skipped records rule: page_loop.induct)
  case (2 P offset page_size kb v rest skipped records)
  from "2.prems"(1) obtain k where k: "parse_energy_key kb = Inr k" by auto
  then have ek: "energy_key kb = k" by (simp add: energy_key_def)
  show ?case
  proof (cases "P k")
    case False
    with k ek show ?thesis by simp
  next
    case True
    show ?thesis
    proof (cases "skipped < offset")
      case sk: True
      then obtain d where d: "offset - skipped = Suc d" "offset - (skipped + 1) = d"
        by (metis Suc_diff_Suc Suc_eq_plus1)
      with True sk k ek "2.IH"(1) [OF k _ sk] "2.prems" show ?thesis by simp
    next
      case sk: False
      with "2.prems" have o: "offset - skipped = 0" by simp
      let ?recs = "records @ [record_of k v]"
      show ?thesis
      proof (cases "page_size \<le> length ?recs")
        case True': True
        with "2.prems"(3) have "page_size - length records = 1" by simp
        with True True' sk k ek o show ?thesis by (simp add: row_record_def)
      next
        case False
        with "2.prems"(3) have n: "page_size - length records = Suc (page_size - length ?recs)" by simp
        with True False sk k ek o "2.IH"(2) [OF k _ sk refl] "2.prems" show ?thesis
          by (simp add: row_record_def)
      qed
    qed
  qed
qed simp

lemma takeWhile_filter_sorted:
  assumes "sorted_wrt R xs" and "\<And>x y. R x y \<Longrightarrow> x \<in> set xs \<Longrightarrow> y \<in> set xs \<Longrightarrow> P y \<Longrightarrow> P x"
  shows "takeWhile P xs = filter P xs"
  using assms
proof (induction xs)
  case (Cons x xs)
  show ?case
  proof (cases "P x")
    case True
    with Cons show ?thesis by (metis (no_types, lifting) filter.simps(2) list.set_intros(2)
          sorted_wrt.simps(2) takeWhile.simps(2))
  next
    case False
    with Cons.prems have "filter P xs = []" by (fastforce simp: filter_empty_conv)
    with False show ?thesis by simp
  qed
qed simp

lemma forward_range:
  assumes ok: "energy_db_ok db"
  shows "takeWhile (\<lambda>x. ek_inscription_id (energy_key (fst x)) = i \<and> \<not> t < ek_block_height (energy_key (fst x)))
      (iter_from_forward (make_energy_key i f) (ed_records db)) = rows_in_range i f t db"
    (is "takeWhile ?P ?rows = _")
proof -
  have cf: "sorted_wrt (\<lambda>x y. fst x < fst y) ?rows"
    using ok cf_forward_sorted [of "ed_records db"] by (simp add: energy_db_ok_def sorted_wrt_map)
  have "?P x" if "fst x < fst y" "x \<in> set ?rows" "y \<in> set ?rows" "?P y" for x y
  proof -
    obtain kb v kb' v' where xy: "x = (kb, v)" "y = (kb', v')" by (cases x, cases y)
    from that xy obtain j k j' k' where k: "kb = make_energy_key j k" "kb' = make_energy_key j' k'"
      using energy_db_ok_keys [OF ok] by (simp add: iter_from_forward_def) metis
    with that xy show ?thesis
      by (auto simp: iter_from_forward_def make_energy_key_le make_energy_key_less not_less)
  qed
  then have "takeWhile ?P ?rows = filter ?P ?rows" by (intro takeWhile_filter_sorted [OF cf]) blast
  also have "\<dots> = rows_in_range i f t db"
    unfolding iter_from_forward_def rows_in_range_def filter_filter
  proof (rule filter_cong [OF refl])
    fix x assume "x \<in> set (ed_records db)"
    then obtain j k where "fst x = make_energy_key j k"
      using energy_db_ok_keys [OF ok, of "fst x" "snd x"] by auto
    then show "(make_energy_key i f \<le> fst x \<and> ?P x) = (ek_inscription_id (energy_key (fst x)) = i \<and>
        f \<le> ek_block_height (energy_key (fst x)) \<and> ek_block_height (energy_key (fst x)) \<le> t)"
      by (auto simp: make_energy_key_le not_less)
  qed
  finally show ?thesis .
qed

lemma reverse_range:
  assumes ok: "energy_db_ok db"
  shows "takeWhile (\<lambda>x. ek_inscription_id (energy_key (fst x)) = i \<and> \<not> ek_block_height (energy_key (fst x)) < f)
      (iter_from_reverse (make_energy_key i t) (ed_records db)) = rev (rows_in_range i f t db)"
    (is "takeWhile ?P ?rows = _")
proof -
  have cf: "sorted_wrt (\<lambda>x y. fst y < fst x) ?rows"
    using ok cf_reverse_sorted [of "ed_records db"] by (simp add: energy_db_ok_def sorted_wrt_map)
  have "?P x" if "fst y < fst x" "x \<in> set ?rows" "y \<in> set ?rows" "?P y" for x y
  proof -
    obtain kb v kb' v' where xy: "x = (kb, v)" "y = (kb', v')" by (cases x, cases y)
    from that xy obtain j k j' k' where k: "kb = make_energy_key j k" "kb' = make_energy_key j' k'"
      using energy_db_ok_keys [OF ok] by (simp add: iter_from_reverse_def) metis
    with that xy show ?thesis
      by (auto simp: iter_from_reverse_def make_energy_key_le make_energy_key_less not_less)
  qed
  then have "takeWhile ?P ?rows = filter ?P ?rows" by (intro takeWhile_filter_sorted [OF cf]) blast
  also have "\<dots> = rev (rows_in_range i f t db)"
    unfolding iter_from_reverse_def rows_in_range_def rev_filter [symmetric] filter_filter
  proof (rule arg_cong [where f = rev], rule filter_cong [OF refl])
    fix x assume "x \<in> set (ed_records db)"
    then obtain j k where "fst x = make_energy_key j k"
      using energy_db_ok_keys [OF ok, of "fst x" "snd x"] by auto
    then show "(fst x \<le> make_energy_key i t \<and> ?P x) = (ek_inscription_id (energy_key (fst x)) = i \<and>
        f \<le> ek_block_height (energy_key (fst x)) \<and> ek_block_height (energy_key (fst x)) \<le> t)"
      by (auto simp: make_energy_key_le not_less)
  qed
  finally show ?thesis .
qed

lemma range_keys:
  "energy_db_ok db \<Longrightarrow> \<forall>x \<in> set (iter_from_forward k (ed_records db)). \<exists>key. parse_energy_key (fst x) = Inr key"
  "energy_db_ok db \<Longrightarrow> \<forall>x \<in> set (iter_from_reverse k (ed_records db)). \<exists>key. parse_energy_key (fst x) = Inr key"
  by (auto simp: iter_from_forward_def iter_from_reverse_def energy_db_ok_def)

lemma checked_mul_Some_unat: "checked_mul a b = Some c \<Longrightarrow> unat c = unat a * unat b"
  by (auto simp: checked_mul_def unat_word_ariths split: if_splits)

lemma count_loop_eq:
  "\<forall>x \<in> set rows. \<exists>k. parse_energy_key (fst x) = Inr k \<Longrightarrow>
    unat n + length (takeWhile (\<lambda>x. P (energy_key (fst x))) rows) < 2 ^ 64 \<Longrightarrow>
    \<exists>c. count_loop P rows n = Inr c \<and> unat c = unat n + length (takeWhile (\<lambda>x. P (energy_key (fst x))) rows)"
proof (induction P rows n rule: count_loop.induct)
  case (2 P kb v rest n)
  from "2.prems"(1) obtain k where k: "parse_energy_key kb = Inr k" by auto
  then have ek: "energy_key kb = k" by (simp add: energy_key_def)
  show ?case
  proof (cases "P k")
    case True
    with "2.prems"(2) ek have lt: "unat n + 1 < 2 ^ 64" by simp
    then have ca: "checked_add n 1 = Some (n + 1)" and un: "unat (n + 1) = unat n + 1"
      by (simp_all add: checked_add_def unat_word_ariths)
    from "2.IH" [OF k _ ca] True "2.prems" ek un
    obtain c where "count_loop P rest (n + 1) = Inr c"
      "unat c = unat n + 1 + length (takeWhile (\<lambda>x. P (energy_key (fst x))) rest)" by auto
    with True k ek ca show ?thesis by simp
  qed (use k ek in simp)
qed simp

lemma scan_max_eq:
  "\<forall>x \<in> set rows. \<exists>k. parse_energy_key (fst x) = Inr k \<Longrightarrow>
    scan_max_loop rows mx = Inr (fold (\<lambda>x m. max_opt m (ek_block_height (energy_key (fst x)))) rows mx)"
  by (induction rows mx rule: scan_max_loop.induct) (auto simp: energy_key_def)

section \<open>The contract of a height-versioned store\<close>

locale height_store =
  fixes ok :: "'s \<Rightarrow> bool"
    and get :: "'k \<Rightarrow> u32 \<Rightarrow> 's \<Rightarrow> 'v option"
    and put :: "'k \<Rightarrow> u32 \<Rightarrow> 'v \<Rightarrow> 's \<Rightarrow> 's"
    and find_last :: "'k \<Rightarrow> u32 \<Rightarrow> 's \<Rightarrow> (u32 \<times> 'v) option"
    and clear_from :: "u32 \<Rightarrow> 's \<Rightarrow> 's"
  assumes ok_put: "ok s \<Longrightarrow> ok (put k h v s)"
    and ok_clear: "ok s \<Longrightarrow> ok (clear_from h s)"
    and get_put: "ok s \<Longrightarrow> get k' h' (put k h v s) = (if k' = k \<and> h' = h then Some v else get k' h' s)"
    and get_clear: "ok s \<Longrightarrow> get k h (clear_from c s) = (if h < c then get k h s else None)"
    and find_last_Some: "ok s \<Longrightarrow> find_last k h s = Some (x, v) \<longleftrightarrow>
      x \<le> h \<and> get k x s = Some v \<and> (\<forall>y. x < y \<and> y \<le> h \<longrightarrow> get k y s = None)"
begin

text \<open>The answer at a height depends only on the content up to that height.\<close>

lemma find_last_cong:
  assumes "ok s" and "ok s'" and "\<And>y. y \<le> h \<Longrightarrow> get k y s' = get k y s"
  shows "find_last k h s' = find_last k h s"
proof (rule option_eqI_Some)
  fix xv :: "u32 \<times> 'v"
  obtain x v where "xv = (x, v)" by (cases xv)
  then show "find_last k h s' = Some xv \<longleftrightarrow> find_last k h s = Some xv"
    using assms(3) by (auto simp: find_last_Some [OF assms(1)] find_last_Some [OF assms(2)])
qed

lemma find_last_put_here: "ok s \<Longrightarrow> find_last k h (put k h v s) = Some (h, v)"
  by (auto simp: find_last_Some ok_put get_put)

lemma find_last_put_later: "ok s \<Longrightarrow> h < h' \<Longrightarrow> find_last k h (put k' h' v s) = find_last k h s"
  by (rule find_last_cong) (auto simp: ok_put get_put)

lemma find_last_put_other: "ok s \<Longrightarrow> k \<noteq> k' \<Longrightarrow> find_last k h (put k' h' v s) = find_last k h s"
  by (rule find_last_cong) (auto simp: ok_put get_put)

lemma find_last_shrink:
  "ok s \<Longrightarrow> find_last k h s = Some (x, v) \<Longrightarrow> x \<le> y \<Longrightarrow> y \<le> h \<Longrightarrow> find_last k y s = Some (x, v)"
  by (auto simp: find_last_Some)

lemma find_last_put_between:
  "ok s \<Longrightarrow> find_last k h s = Some (x, v) \<Longrightarrow> x \<le> y \<Longrightarrow> y \<le> h \<Longrightarrow>
    find_last k h (put k y w s) = Some (y, w)"
  by (fastforce simp: find_last_Some ok_put get_put)

text \<open>A last record stays the answer at every later height until a newer one is written.\<close>

lemma find_last_stays:
  "ok s \<Longrightarrow> find_last k h s = Some (x, v) \<Longrightarrow> h \<le> h' \<Longrightarrow> (\<And>y. h < y \<Longrightarrow> y \<le> h' \<Longrightarrow> get k y s = None) \<Longrightarrow>
    find_last k h' s = Some (x, v)"
  by (auto simp: find_last_Some) (meson not_le)

lemma find_last_clear: "ok s \<Longrightarrow> h < c \<Longrightarrow> find_last k h (clear_from c s) = find_last k h s"
  by (rule find_last_cong) (auto simp: ok_clear get_clear)

text \<open>Clearing from \<open>c\<close> undoes every write at or above \<open>c\<close>.\<close>

lemma clear_put: "ok s \<Longrightarrow> c \<le> h' \<Longrightarrow> get k h (clear_from c (put k' h' v s)) = get k h (clear_from c s)"
  by (simp add: get_clear get_put ok_put) (metis not_less)

end

definition energy_put :: "InscriptionId \<Rightarrow> u32 \<Rightarrow> PassEnergyValue \<Rightarrow> energy_db \<Rightarrow> energy_db" where
  "energy_put i h v db = snd (insert_pass_energy_record
     (record_of \<lparr>ek_inscription_id = i, ek_block_height = h\<rparr> v) db)"

definition energy_find_last :: "InscriptionId \<Rightarrow> u32 \<Rightarrow> energy_db \<Rightarrow> (u32 \<times> PassEnergyValue) option" where
  "energy_find_last i h db =
     (case find_last_pass_energy_record i h db of
        Inr (Some r) \<Rightarrow> Some (er_block_height r, value_of_record r) | _ \<Rightarrow> None)"

definition energy_clear :: "u32 \<Rightarrow> energy_db \<Rightarrow> energy_db" where
  "energy_clear h db = snd (clear_records_from_height h db)"

lemma value_record_of [simp]: "value_of_record (record_of k v) = v"
  by (simp add: value_of_record_def record_of_def)

lemma record_of_fields [simp]:
  "er_inscription_id (record_of k v) = ek_inscription_id k" "er_block_height (record_of k v) = ek_block_height k"
  by (simp_all add: record_of_def)

lemma energy_find_last_Some:
  assumes ok: "energy_db_ok db"
  shows "energy_find_last i h db = Some (x, v) \<longleftrightarrow> x \<le> h \<and> get_pass_energy_record i x db = Some v \<and>
    (\<forall>y. x < y \<and> y \<le> h \<longrightarrow> get_pass_energy_record i y db = None)"
proof (cases rule: find_last_cases [OF ok, of i h, case_names none some])
  case none
  then show ?thesis by (auto simp: energy_find_last_def)
next
  case (some k w)
  have "x = k" if "x \<le> h" "get_pass_energy_record i x db = Some v"
    "\<forall>y. x < y \<and> y \<le> h \<longrightarrow> get_pass_energy_record i y db = None"
  proof (rule ccontr)
    assume "x \<noteq> k"
    then consider "x < k" | "k < x" by fastforce
    then show False using that some by cases force+
  qed
  with some show ?thesis by (auto simp: energy_find_last_def)
qed

interpretation energy: height_store energy_db_ok get_pass_energy_record energy_put energy_find_last energy_clear
proof unfold_locales
  fix db k h v assume ok: "energy_db_ok db"
  let ?r = "record_of \<lparr>ek_inscription_id = k, ek_block_height = h\<rparr> v"
  obtain db' where db': "insert_pass_energy_record ?r db = (Inr (), db')" "energy_db_ok db'"
    "\<And>i x. get_pass_energy_record i x db' = (if i = er_inscription_id ?r \<and> x = er_block_height ?r
       then Some (value_of_record ?r) else get_pass_energy_record i x db)"
    by (rule insert_result [OF ok, of ?r]) (rule that)
  then show "energy_db_ok (energy_put k h v db)" by (simp add: energy_put_def)
  show "get_pass_energy_record k' h' (energy_put k h v db) =
      (if k' = k \<and> h' = h then Some v else get_pass_energy_record k' h' db)" for k' h'
    using db' by (simp add: energy_put_def)
next
  fix db h k c assume ok: "energy_db_ok db"
  obtain db' where db': "clear_records_from_height c db = (Inr (), db')" "energy_db_ok db'"
    "\<And>i k. get_pass_energy_record i k db' = (if k < c then get_pass_energy_record i k db else None)"
    by (rule clear_result [OF ok, of c]) (rule that)
  then show "get_pass_energy_record k h (energy_clear c db) =
      (if h < c then get_pass_energy_record k h db else None)" by (simp add: energy_clear_def)
  show "energy_db_ok (energy_clear c db)" using db' by (simp add: energy_clear_def)
qed (rule energy_find_last_Some)

section \<open>What the energy store promises\<close>

definition sample_energy_id :: InscriptionId where
  "sample_energy_id = \<lparr>ii_txid = 9, ii_index = 1\<rparr>"

definition sample_energy_record :: "u32 \<Rightarrow> u64 \<Rightarrow> PassEnergyRecord" where
  "sample_energy_record h e = \<lparr>er_inscription_id = sample_energy_id, er_block_height = h,
     er_state = Active, er_active_block_height = 100, er_owner_address = 7, er_owner_balance = 300000,
     er_owner_delta = 0, er_energy = e\<rparr>"

definition sample_energy_db :: energy_db where
  "sample_energy_db = snd (insert_pass_energy_record (sample_energy_record 120 5)
     (snd (insert_pass_energy_record (sample_energy_record 100 0) empty_energy_db)))"

lemma sample_energy_db_ok: "energy_db_ok sample_energy_db"
proof -
  obtain d where d: "insert_pass_energy_record (sample_energy_record 100 0) empty_energy_db = (Inr (), d)"
    "energy_db_ok d" by (rule insert_result [OF energy_db_ok_empty]) (rule that)
  obtain e where "insert_pass_energy_record (sample_energy_record 120 5) d = (Inr (), e)" "energy_db_ok e"
    by (rule insert_result [OF d(2)]) (rule that)
  with d show ?thesis by (simp add: sample_energy_db_def)
qed

text \<open>C27: on a well-formed store, looking up the energy of a pass at a height never fails and returns
  the record with the greatest height at or below it, and nothing exactly when there is none.  The
  byte order of the 40-byte keys is what makes the reverse scan find it.\<close>

theorem find_last_energy_exact:
  assumes "energy_db_ok db"
  shows "case find_last_pass_energy_record i h db of
      Inl _ \<Rightarrow> False
    | Inr None \<Rightarrow> \<forall>k. k \<le> h \<longrightarrow> get_pass_energy_record i k db = None
    | Inr (Some r) \<Rightarrow> er_inscription_id r = i \<and> er_block_height r \<le> h \<and>
        get_pass_energy_record i (er_block_height r) db = Some (value_of_record r) \<and>
        (\<forall>k. er_block_height r < k \<and> k \<le> h \<longrightarrow> get_pass_energy_record i k db = None)"
  by (rule find_last_cases [OF assms, of i h]) simp_all

theorem find_last_energy_exact_witness:
  "find_last_pass_energy_record sample_energy_id 119 sample_energy_db = Inr (Some (sample_energy_record 100 0)) \<and>
   get_pass_energy_record sample_energy_id 110 sample_energy_db = None"
proof -
  have e: "find_last_pass_energy_record sample_energy_id 119 sample_energy_db =
      Inr (Some (sample_energy_record 100 0))" by code_simp
  have "(100 :: u32) < 110 \<and> (110 :: u32) \<le> 119" by simp
  with e show ?thesis
    using find_last_energy_exact [OF sample_energy_db_ok, where i = sample_energy_id and h = 119]
    by (simp add: sample_energy_record_def)
qed

text \<open>The paged range queries return, in ascending and in descending order of height, exactly the
  requested slice of the records of the pass in the range; the count is their number; and a page
  offset that does not fit 64 bits is an error.\<close>

theorem energy_range_pages_exact:
  assumes "energy_db_ok db" and "from_h \<le> to_h" and "0 < unat page_size"
    and "length (ed_records db) < 2 ^ 64"
  shows "let rows = map row_record (rows_in_range i from_h to_h db); offset = unat page * unat page_size in
    get_pass_energy_records_by_page_in_height_range i from_h to_h page page_size db =
      (if offset < 2 ^ 64 then Inr (take (unat page_size) (drop offset rows))
       else Inl (Err ''Pagination overflow when querying pass energy range'')) \<and>
    get_pass_energy_records_by_page_in_height_range_desc i from_h to_h page page_size db =
      (if offset < 2 ^ 64 then Inr (take (unat page_size) (drop offset (rev rows)))
       else Inl (Err ''Pagination overflow when querying pass energy range desc'')) \<and>
    (\<exists>c. count_pass_energy_records_in_height_range i from_h to_h db = Inr c \<and> unat c = length rows)"
proof -
  have nl: "\<not> to_h < from_h" using assms(2) by simp
  have len: "length (rows_in_range i from_h to_h db) < 2 ^ 64"
    using assms(4) length_filter_le [of _ "ed_records db"] order.strict_trans1
    unfolding rows_in_range_def by blast
  have fwd: "page_loop (\<lambda>k. ek_inscription_id k = i \<and> \<not> to_h < ek_block_height k) n (unat page_size)
      (iter_from_forward (make_energy_key i from_h) (ed_records db)) 0 [] =
      Inr (take (unat page_size) (drop n (map row_record (rows_in_range i from_h to_h db))))" for n
    using page_loop_eq [OF range_keys(1) [OF assms(1)], of 0 n "[]"] assms(3)
    by (simp add: forward_range [OF assms(1)] drop_map)
  have bwd: "page_loop (\<lambda>k. ek_inscription_id k = i \<and> \<not> ek_block_height k < from_h) n (unat page_size)
      (iter_from_reverse (make_energy_key i to_h) (ed_records db)) 0 [] =
      Inr (take (unat page_size) (drop n (rev (map row_record (rows_in_range i from_h to_h db)))))" for n
    using page_loop_eq [OF range_keys(2) [OF assms(1)], of 0 n "[]"] assms(3)
    by (simp add: reverse_range [OF assms(1)] drop_map rev_map)
  have cnt: "\<exists>c. count_loop (\<lambda>k. ek_inscription_id k = i \<and> \<not> to_h < ek_block_height k)
      (iter_from_forward (make_energy_key i from_h) (ed_records db)) 0 = Inr c \<and>
      unat c = length (rows_in_range i from_h to_h db)"
    using count_loop_eq [OF range_keys(1) [OF assms(1), of "make_energy_key i from_h"],
        where n = 0 and P = "\<lambda>k. ek_inscription_id k = i \<and> \<not> to_h < ek_block_height k"] len
    by (simp add: forward_range [OF assms(1)])
  show ?thesis
    unfolding Let_def get_pass_energy_records_by_page_in_height_range_def
      get_pass_energy_records_by_page_in_height_range_desc_def
      count_pass_energy_records_in_height_range_def
    using nl fwd bwd cnt by (auto simp: checked_mul_def unat_word_ariths)
qed

theorem energy_range_pages_exact_witness:
  "get_pass_energy_records_by_page_in_height_range_desc sample_energy_id 100 130 0 1 sample_energy_db =
     Inr [sample_energy_record 120 5]"
proof -
  have "map row_record (rows_in_range sample_energy_id 100 130 sample_energy_db) =
      [sample_energy_record 100 0, sample_energy_record 120 5]" by code_simp
  moreover have "length (ed_records sample_energy_db) = 2" by code_simp
  ultimately show ?thesis
    using energy_range_pages_exact [OF sample_energy_db_ok, of 100 130 1 sample_energy_id 0]
    by (simp add: Let_def)
qed

text \<open>Clearing the store from a height removes exactly the records at or above it, keeps the
  store well-formed with a correct cached maximum, and leaves every energy lookup below the height
  as it was.\<close>

theorem clear_energy_records_exact:
  assumes "energy_db_ok db"
  shows "\<exists>db'. clear_records_from_height c db = (Inr (), db') \<and> energy_db_ok db' \<and>
    (\<forall>i h. get_pass_energy_record i h db' = (if h < c then get_pass_energy_record i h db else None)) \<and>
    (\<forall>i h. h < c \<longrightarrow> energy_find_last i h db' = energy_find_last i h db) \<and>
    get_synced_block_height db' = get_synced_block_height db \<and>
    get_pending_block_height db' = get_pending_block_height db"
proof -
  obtain db' where r: "clear_records_from_height c db = (Inr (), db')" "energy_db_ok db'"
    "\<And>i k. get_pass_energy_record i k db' = (if k < c then get_pass_energy_record i k db else None)"
    "\<And>k. k \<noteq> META_KEY_MAX_RECORD_BLOCK_HEIGHT \<Longrightarrow> get_meta_u32 k db' = get_meta_u32 k db"
    by (rule clear_result [OF assms]) (rule that)
  have "energy_find_last i h db' = energy_find_last i h db" if "h < c" for i h
    using energy.find_last_clear [OF assms that, of i] r(1) by (simp add: energy_clear_def)
  moreover have "get_synced_block_height db' = get_synced_block_height db"
    "get_pending_block_height db' = get_pending_block_height db"
    using r(4) by (simp_all add: get_synced_block_height_def get_pending_block_height_def meta_key_defs)
  ultimately show ?thesis using r(1-3) by blast
qed

theorem clear_energy_records_exact_witness:
  "\<exists>db'. clear_records_from_height 110 sample_energy_db = (Inr (), db') \<and> energy_db_ok db' \<and>
    get_pass_energy_record sample_energy_id 120 db' = None \<and>
    get_pass_energy_record sample_energy_id 100 db' = Some (value_of_record (sample_energy_record 100 0))"
proof -
  have "get_pass_energy_record sample_energy_id 100 sample_energy_db =
      Some (value_of_record (sample_energy_record 100 0))" by code_simp
  then show ?thesis using clear_energy_records_exact [OF sample_energy_db_ok, of 110] by auto
qed

end
