(* ===== verification/Energy_Formula.thy ===== *)
theory Energy_Formula
  imports Usdb_Prelude
begin

text \<open>
  The pass-energy formula: \<open>usdb-indexer/src/index/energy_formula.rs\<close> and
  \<open>calc_incremental_growth\<close> of \<open>usdb-indexer/src/index/energy.rs\<close>, on the machine words of the
  source.  The lemmas read the results as natural numbers, show that the 128-bit products never
  saturate, and that growth is additive over adjacent height windows.
\<close>

section \<open>Constants and formulas\<close>

definition ENERGY_BALANCE_THRESHOLD :: u64 where
  "ENERGY_BALANCE_THRESHOLD = 100000"

definition ENERGY_GROWTH_MULTIPLIER :: u64 where
  "ENERGY_GROWTH_MULTIPLIER = 10000"

definition ENERGY_PENALTY_MULTIPLIER :: u64 where
  "ENERGY_PENALTY_MULTIPLIER = 43200000"

definition u64_MAX :: u64 where
  "u64_MAX = - 1"

definition saturating_u128_to_u64 :: "u128 \<Rightarrow> u64" where
  "saturating_u128_to_u64 value = (if value > ucast u64_MAX then u64_MAX else ucast value)"

definition calc_growth_delta :: "u64 \<Rightarrow> u32 \<Rightarrow> u64" where
  "calc_growth_delta owner_balance r =
     (if owner_balance < ENERGY_BALANCE_THRESHOLD then 0
      else saturating_u128_to_u64
        (sat_mul (sat_mul (ucast owner_balance) (ucast ENERGY_GROWTH_MULTIPLIER)) (ucast r)))"

definition calc_penalty_from_delta :: "i64 \<Rightarrow> u64" where
  "calc_penalty_from_delta delta =
     (if sint delta \<ge> 0 then 0
      else saturating_u128_to_u64
        (sat_mul (ucast (unsigned_abs delta)) (ucast ENERGY_PENALTY_MULTIPLIER)))"

definition calc_incremental_growth :: "u64 \<Rightarrow> u32 \<Rightarrow> u32 \<Rightarrow> u32 \<Rightarrow> u64" where
  "calc_incremental_growth owner_balance active_block_height from_block_height to_block_height =
     (if to_block_height \<le> from_block_height then 0
      else sat_sub
        (calc_growth_delta owner_balance (sat_sub to_block_height active_block_height))
        (calc_growth_delta owner_balance (sat_sub from_block_height active_block_height)))"

section \<open>Readings as natural numbers\<close>

lemma unat_ucast_u64_u128 [simp]: "unat (ucast (a :: u64) :: u128) = unat a"
  using unat_less_2p [of a] by (simp add: unsigned_ucast_eq take_bit_nat_eq_self_iff)

lemma unat_ucast_u32_u128 [simp]: "unat (ucast (a :: u32) :: u128) = unat a"
  using unat_less_2p [of a] by (simp add: unsigned_ucast_eq take_bit_nat_eq_self_iff)

lemma unat_u64_MAX: "unat u64_MAX = 2 ^ 64 - 1"
  by (simp add: u64_MAX_def unat_minus_one_word_eq)

lemma unat_saturating_u128_to_u64:
  "unat (saturating_u128_to_u64 v) = min (unat v) (2 ^ 64 - 1)"
proof (cases "ucast u64_MAX < v")
  case True
  then have "2 ^ 64 - 1 < unat v"
    by (simp add: word_less_nat_alt unat_u64_MAX)
  with True show ?thesis
    by (simp add: saturating_u128_to_u64_def unat_u64_MAX)
next
  case False
  then have le: "unat v \<le> 2 ^ 64 - 1"
    by (simp add: word_less_nat_alt unat_u64_MAX)
  then have "unat (ucast v :: u64) = unat v"
    by (simp add: unsigned_ucast_eq take_bit_nat_eq_self_iff)
  with False le show ?thesis
    by (simp add: saturating_u128_to_u64_def)
qed

lemma unat_unsigned_abs: "unat (unsigned_abs d) = nat \<bar>sint d\<bar>"
proof (cases "sint d < 0")
  case True
  have "- (2 ^ 63) \<le> sint d" using sint_greater_eq [of d] by simp
  have "uint (- d) = (- uint d) mod 2 ^ 64"
    by (simp add: uint_word_ariths)
  also have "\<dots> = (- sint d) mod 2 ^ 64"
    by (simp add: uint_sint [of d] take_bit_eq_mod mod_minus_eq)
  also have "\<dots> = - sint d"
    using True \<open>- (2 ^ 63) \<le> sint d\<close> by simp
  finally show ?thesis using True by (simp add: unsigned_abs_def unat_eq_nat_uint)
next
  case False
  moreover have "sint d < 2 ^ 63" using sint_less [of d] by simp
  ultimately have "uint d = sint d"
    by (simp add: uint_sint take_bit_eq_mod)
  with False show ?thesis by (simp add: unsigned_abs_def unat_eq_nat_uint)
qed

text \<open>
  The products fit in 128 bits (64 + 14 + 32 and 63 + 26 bits), so the inner saturations never
  act: growth and penalty are the exact products clamped once to 64 bits.
\<close>

lemma unat_growth_product:
  "unat (sat_mul (sat_mul (ucast b) (ucast ENERGY_GROWTH_MULTIPLIER)) (ucast r) :: u128)
     = unat b * 10000 * unat r" for b :: u64 and r :: u32
proof -
  have b: "unat b < 2 ^ 64" and r: "unat r < 2 ^ 32"
    using unat_less_2p [of b] unat_less_2p [of r] by simp_all
  from b have 1: "unat b * 10000 < 2 ^ 78" by simp
  have "unat b * 10000 * unat r < 2 ^ 78 * 2 ^ 32"
    using 1 r by (intro mult_strict_mono) auto
  then have "unat b * 10000 * unat r < 2 ^ 128" by simp
  with 1 show ?thesis
    by (simp add: unat_sat_mul ENERGY_GROWTH_MULTIPLIER_def)
qed

lemma unat_calc_growth_delta:
  "unat (calc_growth_delta b r) =
     (if unat b < 100000 then 0 else min (unat b * 10000 * unat r) (2 ^ 64 - 1))"
  unfolding calc_growth_delta_def
  by (simp add: unat_saturating_u128_to_u64 unat_growth_product word_less_nat_alt
      ENERGY_BALANCE_THRESHOLD_def)

lemma unat_calc_penalty_from_delta:
  "unat (calc_penalty_from_delta d) = min (nat (- sint d) * 43200000) (2 ^ 64 - 1)"
proof (cases "sint d \<ge> 0")
  case True
  then show ?thesis by (simp add: calc_penalty_from_delta_def)
next
  case False
  have "unat (unsigned_abs d) < 2 ^ 64" using unat_less_2p [of "unsigned_abs d"] by simp
  then have "unat (unsigned_abs d) * 43200000 < 2 ^ 128" by simp
  with False show ?thesis
    by (simp add: calc_penalty_from_delta_def unat_saturating_u128_to_u64 unat_sat_mul
        ENERGY_PENALTY_MULTIPLIER_def unat_unsigned_abs)
qed

section \<open>Growth over height windows\<close>

lemma calc_growth_delta_mono: "r \<le> r' \<Longrightarrow> calc_growth_delta b r \<le> calc_growth_delta b r'"
proof -
  assume "r \<le> r'"
  then have "unat b * 10000 * unat r \<le> unat b * 10000 * unat r'"
    by (simp add: word_le_nat_alt)
  then show ?thesis
    by (auto simp only: word_le_nat_alt unat_calc_growth_delta intro: min.mono split: if_splits)
qed

lemma sat_sub_mono_left: "a \<le> a' \<Longrightarrow> sat_sub a b \<le> sat_sub a' b"
  by (auto simp: word_le_nat_alt unat_sat_sub)

lemma calc_incremental_growth_refl [simp]: "calc_incremental_growth b a h h = 0"
  by (simp add: calc_incremental_growth_def)

text \<open>
  Adjacent windows add up, exactly, although each end of a window is clamped to 64 bits.
\<close>

lemma unat_calc_incremental_growth:
  "f \<le> t \<Longrightarrow> unat (calc_incremental_growth b a f t) =
     unat (calc_growth_delta b (sat_sub t a)) - unat (calc_growth_delta b (sat_sub f a))"
  by (auto simp: calc_incremental_growth_def unat_sat_sub)

lemma calc_incremental_growth_split:
  assumes "f \<le> m" and "m \<le> t"
  shows "unat (calc_incremental_growth b a f t) =
    unat (calc_incremental_growth b a f m) + unat (calc_incremental_growth b a m t)"
proof -
  have "calc_growth_delta b (sat_sub f a) \<le> calc_growth_delta b (sat_sub m a)"
    "calc_growth_delta b (sat_sub m a) \<le> calc_growth_delta b (sat_sub t a)"
    using assms by (auto intro!: calc_growth_delta_mono sat_sub_mono_left)
  with assms show ?thesis
    by (simp add: unat_calc_incremental_growth word_le_nat_alt)
qed

lemma sat_add_incremental_growth:
  assumes "f \<le> m" and "m \<le> t"
  shows "sat_add (sat_add e (calc_incremental_growth b a f m)) (calc_incremental_growth b a m t) =
    sat_add e (calc_incremental_growth b a f t)"
  by (rule word_unat_eq_iff [THEN iffD2])
    (auto simp: unat_sat_add calc_incremental_growth_split [OF assms] min_def)

end
