(* ===== verification/Energy_Manager.thy ===== *)
theory Energy_Manager
  imports Energy_Storage Energy_Formula
begin

text \<open>
  \<open>usdb-indexer/src/index/energy.rs\<close>: the pass energy manager.  Its state is the energy store; the
  balance-history service it asks is the parameter \<open>bp\<close> (the trait \<open>BalanceProvider\<close>).  The
  theorems: crash recovery of the store, the exact effect of every balance change on the energy,
  equality of the eager settlement path with the lazy recomputation from the balance history, and
  that a pass keeps its energy once it is dormant and has none once it is consumed.
\<close>

section \<open>Data\<close>

record AddressBalance =
  bal_block_height :: u32
  bal_balance :: u64
  bal_delta :: i64

record balance_provider =
  bp_get_balance_at_height :: "USDBScriptHash \<Rightarrow> u32 \<Rightarrow> AddressBalance list result"
  bp_get_balance_at_range :: "USDBScriptHash \<Rightarrow> u32 \<Rightarrow> u32 \<Rightarrow> AddressBalance list result"

record PassEnergyResult =
  pe_energy :: u64
  pe_state :: MinerPassState

section \<open>Block sync markers\<close>

definition begin_block_sync :: "u32 \<Rightarrow> (energy_db, unit) op" where
  "begin_block_sync block_height =
     bindR (getsR get_pending_block_height) (\<lambda>pending.
     case pending of
       Some _ \<Rightarrow> fail (Err ''Previous pending energy block sync found before starting new block'')
     | None \<Rightarrow> modify (set_pending_block_height block_height))"

definition finalize_block_sync :: "u32 \<Rightarrow> (energy_db, unit) op" where
  "finalize_block_sync block_height =
     bindR (getsR get_pending_block_height) (\<lambda>pending.
     if pending \<noteq> Some block_height
     then fail (Err ''Energy pending block mismatch when finalizing block sync'')
     else modify (finalize_block_sync_meta block_height))"

definition abort_pending_block_sync :: "u32 \<Rightarrow> (energy_db, unit) op" where
  "abort_pending_block_sync block_height =
     bindR (getsR get_pending_block_height) (\<lambda>pending.
     if pending \<noteq> Some block_height
     then fail (Err ''Energy pending block mismatch when aborting block sync'')
     else bindR (clear_records_from_height block_height) (\<lambda>_. modify clear_pending_block_height))"

definition reconcile_with_pass_synced_height :: "u32 \<Rightarrow> (energy_db, unit) op" where
  "reconcile_with_pass_synced_height pass_synced_height =
     bindR (getsR get_pending_block_height) (\<lambda>pending.
     bindR (case pending of
         Some pending_height \<Rightarrow>
           bindR (clear_records_from_height pending_height) (\<lambda>_. modify clear_pending_block_height)
       | None \<Rightarrow> ret ()) (\<lambda>_.
     bindR get_max_record_block_height (\<lambda>max_height.
     bindR (case max_height of
         Some m \<Rightarrow> if pass_synced_height < m
                   then clear_records_from_height (sat_add pass_synced_height 1) else ret ()
       | None \<Rightarrow> ret ()) (\<lambda>_.
     bindR (getsR get_synced_block_height) (\<lambda>synced.
     case synced of
       Some energy_synced_height \<Rightarrow>
         if pass_synced_height < energy_synced_height
         then modify (set_synced_block_height pass_synced_height)
         else if energy_synced_height < pass_synced_height
         then fail (Err ''Energy synced height is behind pass synced height'')
         else ret ()
     | None \<Rightarrow> modify (set_synced_block_height pass_synced_height))))))"

definition rollback_to_pass_synced_height :: "u32 \<Rightarrow> (energy_db, unit) op" where
  "rollback_to_pass_synced_height = reconcile_with_pass_synced_height"

section \<open>Balance lookups\<close>

text \<open>\<open>balances.pop()\<close> after the assertion that there is at most one entry.\<close>

definition get_balance_at_height ::
  "balance_provider \<Rightarrow> USDBScriptHash \<Rightarrow> u32 \<Rightarrow> AddressBalance result" where
  "get_balance_at_height bp address block_height =
     (case bp_get_balance_at_height bp address block_height of
        Inl e \<Rightarrow> Inl e
      | Inr balances \<Rightarrow>
          if 1 < length balances
          then Inl (Panic ''Expected at most one balance entry for address at specific block height'')
          else (case balances of
                  [] \<Rightarrow> Inr \<lparr>bal_block_height = block_height, bal_balance = 0, bal_delta = 0\<rparr>
                | b # _ \<Rightarrow> Inr b))"

section \<open>Energy records\<close>

definition on_new_pass ::
  "balance_provider \<Rightarrow> InscriptionId \<Rightarrow> USDBScriptHash \<Rightarrow> u32 \<Rightarrow> u64 \<Rightarrow> (energy_db, unit) op" where
  "on_new_pass bp inscription_id owner_address block_height inherited_energy =
     (case get_balance_at_height bp owner_address block_height of
        Inl e \<Rightarrow> fail e
      | Inr balance \<Rightarrow> insert_pass_energy_record
          \<lparr>er_inscription_id = inscription_id, er_block_height = block_height, er_state = Active,
           er_active_block_height = block_height, er_owner_address = owner_address,
           er_owner_balance = bal_balance balance, er_owner_delta = bal_delta balance,
           er_energy = inherited_energy\<rparr>)"

definition project_energy_record_no_balance_change :: "PassEnergyRecord \<Rightarrow> u32 \<Rightarrow> PassEnergyResult" where
  "project_energy_record_no_balance_change r query_block_height =
     (if query_block_height \<le> er_block_height r \<or> er_state r \<noteq> Active
      then \<lparr>pe_energy = er_energy r, pe_state = er_state r\<rparr>
      else
        (let growth_at_query = calc_growth_delta (er_owner_balance r)
               (sat_sub query_block_height (er_active_block_height r));
             growth_at_record = calc_growth_delta (er_owner_balance r)
               (sat_sub (er_block_height r) (er_active_block_height r))
         in \<lparr>pe_energy = sat_add (er_energy r) (sat_sub growth_at_query growth_at_record),
             pe_state = er_state r\<rparr>))"

definition get_pass_energy_record_exact ::
  "InscriptionId \<Rightarrow> u32 \<Rightarrow> energy_db \<Rightarrow> PassEnergyRecord option" where
  "get_pass_energy_record_exact inscription_id block_height db =
     map_option (record_of \<lparr>ek_inscription_id = inscription_id, ek_block_height = block_height\<rparr>)
       (get_pass_energy_record inscription_id block_height db)"

definition get_pass_energy_record_at_or_before ::
  "InscriptionId \<Rightarrow> u32 \<Rightarrow> energy_db \<Rightarrow> PassEnergyRecord option result" where
  "get_pass_energy_record_at_or_before = find_last_pass_energy_record"

definition get_pass_energy :: "InscriptionId \<Rightarrow> u32 \<Rightarrow> energy_db \<Rightarrow> PassEnergyResult option result" where
  "get_pass_energy inscription_id block_height db =
     (case get_pass_energy_record_at_or_before inscription_id block_height db of
        Inl e \<Rightarrow> Inl e
      | Inr r \<Rightarrow> Inr (map_option (\<lambda>r. project_energy_record_no_balance_change r block_height) r))"

definition get_pass_energy_records_by_page_in_height_range_with_order ::
  "InscriptionId \<Rightarrow> u32 \<Rightarrow> u32 \<Rightarrow> u64 \<Rightarrow> u64 \<Rightarrow> bool \<Rightarrow> energy_db \<Rightarrow> PassEnergyRecord list result" where
  "get_pass_energy_records_by_page_in_height_range_with_order inscription_id from_block_height
     to_block_height page page_size desc =
     (if desc then get_pass_energy_records_by_page_in_height_range_desc else
        get_pass_energy_records_by_page_in_height_range)
       inscription_id from_block_height to_block_height page page_size"

text \<open>One turn of the loop of \<open>update_pass_energy\<close>: growth up to the change, then the penalty and a
  new growth window when the balance fell.\<close>

definition next_energy_record :: "InscriptionId \<Rightarrow> PassEnergyRecord \<Rightarrow> AddressBalance \<Rightarrow> PassEnergyRecord" where
  "next_energy_record inscription_id last_record b =
     (let energy_delta = calc_incremental_growth (er_owner_balance last_record) (er_active_block_height last_record)
            (er_block_height last_record) (bal_block_height b);
          new_energy = sat_add (er_energy last_record) energy_delta;
          active = (if sint (bal_delta b) < 0 then bal_block_height b else er_active_block_height last_record);
          new_energy = (if sint (bal_delta b) < 0
            then sat_sub new_energy (calc_penalty_from_delta (bal_delta b)) else new_energy)
      in \<lparr>er_inscription_id = inscription_id, er_block_height = bal_block_height b, er_state = Active,
          er_active_block_height = active, er_owner_address = er_owner_address last_record,
          er_owner_balance = bal_balance b, er_owner_delta = bal_delta b, er_energy = new_energy\<rparr>)"

definition update_energy_step ::
  "InscriptionId \<Rightarrow> AddressBalance \<Rightarrow> PassEnergyRecord \<Rightarrow> (energy_db, PassEnergyRecord) op" where
  "update_energy_step inscription_id b last_record =
     (let r = next_energy_record inscription_id last_record b
      in bindR (insert_pass_energy_record r) (\<lambda>_. ret r))"

definition update_pass_energy ::
  "balance_provider \<Rightarrow> InscriptionId \<Rightarrow> u32 \<Rightarrow> (energy_db, PassEnergyResult) op" where
  "update_pass_energy bp inscription_id block_height =
     bindR (getsR (find_last_pass_energy_record inscription_id block_height)) (\<lambda>found.
     case found of
       None \<Rightarrow> fail (Err ''No previous energy record found for inscription before block height'')
     | Some last_record \<Rightarrow>
       bindR (guardR (er_block_height last_record \<le> block_height)
         (Panic ''Last record block height should be less than or equal to current block height'')) (\<lambda>_.
       if er_state last_record \<noteq> Active
       then ret \<lparr>pe_energy = er_energy last_record, pe_state = er_state last_record\<rparr>
       else
         (case bp_get_balance_at_range bp (er_owner_address last_record)
                 (er_block_height last_record + 1) (block_height + 1) of
            Inl e \<Rightarrow> fail e
          | Inr balances \<Rightarrow>
              bindR (foldR (update_energy_step inscription_id) balances last_record) (\<lambda>last_record.
              ret (if er_block_height last_record < block_height
                   then \<lparr>pe_energy = sat_add (er_energy last_record)
                           (calc_incremental_growth (er_owner_balance last_record)
                             (er_active_block_height last_record) (er_block_height last_record)
                             block_height),
                         pe_state = er_state last_record\<rparr>
                   else \<lparr>pe_energy = er_energy last_record, pe_state = er_state last_record\<rparr>)))))"

definition apply_active_balance_change_internal ::
  "InscriptionId \<Rightarrow> USDBScriptHash \<Rightarrow> u32 \<Rightarrow> u64 \<Rightarrow> i64 \<Rightarrow> bool \<Rightarrow> (energy_db, bool) op" where
  "apply_active_balance_change_internal inscription_id owner_address block_height owner_balance
     owner_delta strict_settle_consistency =
     (if owner_delta = 0 then ret False
      else
     bindR (getsR (find_last_pass_energy_record inscription_id block_height)) (\<lambda>found.
     case found of
       None \<Rightarrow> fail (Err ''No previous energy record found when applying active balance change'')
     | Some last_record \<Rightarrow>
       if er_state last_record \<noteq> Active
       then fail (Err ''Energy state mismatch when applying active balance change'')
       else if er_owner_address last_record \<noteq> owner_address
       then fail (Err ''Energy owner mismatch when applying active balance change'')
       else if block_height < er_block_height last_record
       then fail (Err ''Energy record height is ahead of active balance update height'')
       else if er_block_height last_record = block_height
       then
         (if er_owner_balance last_record \<noteq> owner_balance \<or> er_owner_delta last_record \<noteq> owner_delta
          then if strict_settle_consistency
               then fail (Err ''Active balance change conflicts with existing record at same block'')
               else ret False
          else ret False)
       else if (sint owner_delta > 0 \<and> owner_balance < er_owner_balance last_record) \<or>
               (sint owner_delta < 0 \<and> er_owner_balance last_record < owner_balance)
       then
         (if strict_settle_consistency
          then fail (Err ''Active balance change has inconsistent settle direction'')
          else ret False)
       else
         (let growth_delta = calc_incremental_growth (er_owner_balance last_record)
                (er_active_block_height last_record) (er_block_height last_record) block_height;
              next_energy = sat_add (er_energy last_record) growth_delta;
              next_active_height =
                (if sint owner_delta < 0 then block_height else er_active_block_height last_record);
              next_energy = (if sint owner_delta < 0
                then sat_sub next_energy (calc_penalty_from_delta owner_delta) else next_energy)
          in bindR (insert_pass_energy_record
               \<lparr>er_inscription_id = inscription_id, er_block_height = block_height, er_state = Active,
                er_active_block_height = next_active_height, er_owner_address = owner_address,
                er_owner_balance = owner_balance, er_owner_delta = owner_delta,
                er_energy = next_energy\<rparr>) (\<lambda>_. ret True))))"

text \<open>Outside of tests the strict settle check is always on.\<close>

definition apply_active_balance_change ::
  "InscriptionId \<Rightarrow> USDBScriptHash \<Rightarrow> u32 \<Rightarrow> u64 \<Rightarrow> i64 \<Rightarrow> (energy_db, bool) op" where
  "apply_active_balance_change inscription_id owner_address block_height owner_balance owner_delta =
     apply_active_balance_change_internal inscription_id owner_address block_height owner_balance
       owner_delta True"

definition on_pass_dormant :: "balance_provider \<Rightarrow> InscriptionId \<Rightarrow> u32 \<Rightarrow> (energy_db, unit) op" where
  "on_pass_dormant bp inscription_id block_height =
     bindR (update_pass_energy bp inscription_id block_height) (\<lambda>finalized.
     bindR (getsR (find_last_pass_energy_record inscription_id block_height)) (\<lambda>found.
     case found of
       None \<Rightarrow> fail (Err ''No energy record found for dormant transition'')
     | Some last_record \<Rightarrow>
       bindR (insert_pass_energy_record
         \<lparr>er_inscription_id = inscription_id, er_block_height = block_height, er_state = Dormant,
          er_active_block_height = er_active_block_height last_record,
          er_owner_address = er_owner_address last_record,
          er_owner_balance = er_owner_balance last_record,
          er_owner_delta = (if er_block_height last_record = block_height
            then er_owner_delta last_record else 0),
          er_energy = pe_energy finalized\<rparr>) (\<lambda>_.
       bindR (gets (get_pass_energy_record_exact inscription_id block_height)) (\<lambda>stored.
       guardR (map_option (\<lambda>v. (er_state v, er_energy v)) stored = Some (Dormant, pe_energy finalized))
         (Err ''Dormant energy snapshot mismatch'')))))"

definition on_pass_consumed :: "InscriptionId \<Rightarrow> USDBScriptHash \<Rightarrow> u32 \<Rightarrow> (energy_db, unit) op" where
  "on_pass_consumed inscription_id owner_address block_height =
     insert_pass_energy_record
       \<lparr>er_inscription_id = inscription_id, er_block_height = block_height, er_state = Consumed,
        er_active_block_height = block_height, er_owner_address = owner_address,
        er_owner_balance = 0, er_owner_delta = 0, er_energy = 0\<rparr>"

section \<open>Operations over the store contract\<close>

definition with_height :: "InscriptionId \<Rightarrow> u32 \<times> PassEnergyValue \<Rightarrow> PassEnergyRecord" where
  "with_height i xv = record_of \<lparr>ek_inscription_id = i, ek_block_height = fst xv\<rparr> (snd xv)"

lemma with_height_fields [simp]:
  "er_inscription_id (with_height i (x, v)) = i" "er_block_height (with_height i (x, v)) = x"
  "er_state (with_height i (x, v)) = ev_state v" "er_energy (with_height i (x, v)) = ev_energy v"
  "er_active_block_height (with_height i (x, v)) = ev_active_block_height v"
  "er_owner_address (with_height i (x, v)) = ev_owner_address v"
  "er_owner_balance (with_height i (x, v)) = ev_owner_balance v"
  "er_owner_delta (with_height i (x, v)) = ev_owner_delta v"
  "value_of_record (with_height i (x, v)) = v"
  by (simp_all add: with_height_def record_of_def value_of_record_def)

lemma with_height_value [simp]:
  "with_height (er_inscription_id r) (er_block_height r, value_of_record r) = r"
  by (simp add: with_height_def record_of_def value_of_record_def)

lemma record_of_value: "record_of \<lparr>ek_inscription_id = er_inscription_id r, ek_block_height = er_block_height r\<rparr>
    (value_of_record r) = r"
  by (simp add: record_of_def value_of_record_def)

lemma insert_op:
  assumes "energy_db_ok db"
  shows "insert_pass_energy_record r db =
    (Inr (), energy_put (er_inscription_id r) (er_block_height r) (value_of_record r) db)"
proof -
  obtain db' where "insert_pass_energy_record r db = (Inr (), db')"
    by (rule insert_result [OF assms, of r]) (rule that)
  then show ?thesis by (simp add: energy_put_def record_of_value)
qed

lemma put_meta:
  assumes "energy_db_ok db" and "k \<noteq> META_KEY_MAX_RECORD_BLOCK_HEIGHT"
  shows "get_meta_u32 k (energy_put i h v db) = get_meta_u32 k db"
proof -
  obtain db' where "insert_pass_energy_record (with_height i (h, v)) db = (Inr (), db')"
    "\<And>k. k \<noteq> META_KEY_MAX_RECORD_BLOCK_HEIGHT \<Longrightarrow> get_meta_u32 k db' = get_meta_u32 k db"
    by (rule insert_result [OF assms(1)]) (rule that)
  with assms show ?thesis by (simp add: energy_put_def with_height_def)
qed

lemma clear_op:
  assumes "energy_db_ok db"
  shows "clear_records_from_height c db = (Inr (), energy_clear c db)"
proof -
  obtain db' where "clear_records_from_height c db = (Inr (), db')"
    by (rule clear_result [OF assms, of c]) (rule that)
  then show ?thesis by (simp add: energy_clear_def)
qed

lemma clear_meta:
  assumes "energy_db_ok db" and "k \<noteq> META_KEY_MAX_RECORD_BLOCK_HEIGHT"
  shows "get_meta_u32 k (energy_clear c db) = get_meta_u32 k db"
proof -
  obtain db' where "clear_records_from_height c db = (Inr (), db')"
    "\<And>k. k \<noteq> META_KEY_MAX_RECORD_BLOCK_HEIGHT \<Longrightarrow> get_meta_u32 k db' = get_meta_u32 k db"
    by (rule clear_result [OF assms(1), of c]) (rule that)
  with assms show ?thesis by (simp add: energy_clear_def)
qed

lemma find_last_op:
  assumes "energy_db_ok db"
  shows "find_last_pass_energy_record i h db = Inr (map_option (with_height i) (energy_find_last i h db))"
  by (rule find_last_cases [OF assms, of i h])
    (simp_all add: energy_find_last_def with_height_def)

lemmas markers = get_synced_block_height_def get_pending_block_height_def set_synced_block_height_def
  set_pending_block_height_def clear_pending_block_height_def finalize_block_sync_meta_def

lemma meta_keys_distinct [simp]:
  "META_KEY_SYNCED_BLOCK_HEIGHT \<noteq> META_KEY_MAX_RECORD_BLOCK_HEIGHT"
  "META_KEY_PENDING_BLOCK_HEIGHT \<noteq> META_KEY_MAX_RECORD_BLOCK_HEIGHT"
  "META_KEY_SYNCED_BLOCK_HEIGHT \<noteq> META_KEY_PENDING_BLOCK_HEIGHT"
  "META_KEY_PENDING_BLOCK_HEIGHT \<noteq> META_KEY_SYNCED_BLOCK_HEIGHT"
  by (simp_all add: meta_key_defs)

lemma max_op:
  assumes "energy_db_ok db"
  obtains m where "get_max_record_block_height db = (Inr m, db)"
    and "\<And>h. h \<in> record_heights db \<Longrightarrow> \<exists>x. m = Some x \<and> h \<le> x"
proof -
  from assms obtain m where m: "get_meta_u32 META_KEY_MAX_RECORD_BLOCK_HEIGHT db = Inr m"
    and inv: "case m of None \<Rightarrow> record_heights db = {}
      | Some x \<Rightarrow> x \<in> record_heights db \<and> (\<forall>h \<in> record_heights db. h \<le> x)"
    by (auto simp: energy_db_ok_def split: sum.splits)
  show thesis
  proof (cases m)
    case (Some x)
    with m inv show thesis by (intro that [of m]) (auto simp: get_max_record_block_height_def)
  next
    case None
    have "ed_records db = []"
    proof (rule ccontr)
      assume "ed_records db \<noteq> []"
      then have "hd (ed_records db) \<in> set (ed_records db)" by simp
      with record_heights_iff [OF assms] None inv show False by auto
    qed
    with m None inv show thesis
      by (intro that [of None]) (auto simp: get_max_record_block_height_def scan_max_record_block_height_def)
  qed
qed

section \<open>Crash recovery\<close>

definition kept_upto :: "u32 option \<Rightarrow> u32 \<Rightarrow> u32 \<Rightarrow> bool" where
  "kept_upto pending p h \<longleftrightarrow> h \<le> p \<and> (case pending of None \<Rightarrow> True | Some q \<Rightarrow> h < q)"

lemma reconcile_records:
  assumes ok: "energy_db_ok db" and pend: "get_pending_block_height db = Inr pending"
  obtains db1 where "energy_db_ok db1" and "get_pending_block_height db1 = Inr None"
    and "get_synced_block_height db1 = get_synced_block_height db"
    and "\<And>i h. get_pass_energy_record i h db1 =
      (if kept_upto pending p h then get_pass_energy_record i h db else None)"
    and "reconcile_with_pass_synced_height p db =
      (case get_synced_block_height db1 of Inl e \<Rightarrow> (Inl e, db1)
       | Inr None \<Rightarrow> (Inr (), set_synced_block_height p db1)
       | Inr (Some s) \<Rightarrow>
           if p < s then (Inr (), set_synced_block_height p db1)
           else if s < p then (Inl (Err ''Energy synced height is behind pass synced height''), db1)
           else (Inr (), db1))"
proof -
  define d1 where "d1 = (case pending of None \<Rightarrow> db
    | Some q \<Rightarrow> clear_pending_block_height (energy_clear q db))"
  have ok1: "energy_db_ok d1"
    using ok by (simp add: d1_def markers energy_db_ok_meta energy.ok_clear split: option.split)
  have pend1: "get_pending_block_height d1 = Inr None"
    using pend by (simp add: d1_def markers split: option.split)
  have syn1: "get_synced_block_height d1 = get_synced_block_height db"
    using ok by (simp add: d1_def markers clear_meta split: option.split)
  have get1: "get_pass_energy_record i h d1 =
      (if case pending of None \<Rightarrow> True | Some q \<Rightarrow> h < q then get_pass_energy_record i h db else None)" for i h
    using ok by (simp add: d1_def markers energy.get_clear split: option.split)
  obtain m where m: "get_max_record_block_height d1 = (Inr m, d1)"
    and mx: "\<And>h. h \<in> record_heights d1 \<Longrightarrow> \<exists>x. m = Some x \<and> h \<le> x"
    by (rule max_op [OF ok1]) (rule that)
  define cut where "cut \<longleftrightarrow> (\<exists>x. m = Some x \<and> p < x)"
  define d2 where "d2 = (if cut then energy_clear (sat_add p 1) d1 else d1)"
  have lt: "h < sat_add p 1 \<longleftrightarrow> h \<le> p" if cut for h
  proof -
    from that obtain x where "p < x" by (auto simp: cut_def)
    then have "unat p + 1 < 2 ^ 32"
      using unat_less_2p [of x] by (simp add: word_less_nat_alt)
    then show ?thesis by (auto simp: word_less_nat_alt word_le_nat_alt unat_sat_add min_def)
  qed
  have get2: "get_pass_energy_record i h d2 =
      (if kept_upto pending p h then get_pass_energy_record i h db else None)" for i h
  proof (cases cut)
    case True
    then show ?thesis
      using lt [OF True] get1 by (simp add: d2_def energy.get_clear [OF ok1] kept_upto_def)
  next
    case False
    have "get_pass_energy_record i h d1 = None" if "\<not> h \<le> p"
    proof (rule ccontr)
      assume "get_pass_energy_record i h d1 \<noteq> None"
      then have "h \<in> record_heights d1" by (auto simp: record_heights_def)
      from mx [OF this] that False show False by (auto simp: cut_def not_less)
    qed
    then show ?thesis using False get1 by (auto simp: d2_def kept_upto_def)
  qed
  show thesis
  proof (rule that [of d2])
    show "energy_db_ok d2" using ok1 by (simp add: d2_def energy.ok_clear)
    show "get_pending_block_height d2 = Inr None"
      using pend1 ok1 by (simp add: d2_def markers clear_meta)
    show "get_synced_block_height d2 = get_synced_block_height db"
      using syn1 ok1 by (simp add: d2_def markers clear_meta)
    show "get_pass_energy_record i h d2 =
      (if kept_upto pending p h then get_pass_energy_record i h db else None)" for i h by (rule get2)
    have s1: "(case pending of Some q \<Rightarrow> bindR (clear_records_from_height q) (\<lambda>_. modify clear_pending_block_height)
       | None \<Rightarrow> ret ()) db = (Inr (), d1)"
      using ok by (simp add: d1_def clear_op split: option.split)
    have s2: "(case m of Some m \<Rightarrow> if p < m then clear_records_from_height (sat_add p 1) else ret ()
       | None \<Rightarrow> ret ()) d1 = (Inr (), d2)"
      using ok1 by (auto simp: d2_def cut_def clear_op split: option.split)
    show "reconcile_with_pass_synced_height p db =
      (case get_synced_block_height d2 of Inl e \<Rightarrow> (Inl e, d2)
       | Inr None \<Rightarrow> (Inr (), set_synced_block_height p d2)
       | Inr (Some s) \<Rightarrow>
           if p < s then (Inr (), set_synced_block_height p d2)
           else if s < p then (Inl (Err ''Energy synced height is behind pass synced height''), d2)
           else (Inr (), d2))"
      unfolding reconcile_with_pass_synced_height_def
      by (simp add: pend s1 m s2) (auto simp: bindR_def split: sum.split option.split)
  qed
qed

lemma reconcile_effect:
  assumes "energy_db_ok db" and "get_pending_block_height db = Inr pending"
    and "get_synced_block_height db = Inr synced"
  shows "\<exists>db'. reconcile_with_pass_synced_height p db =
      (if case synced of Some s \<Rightarrow> s < p | None \<Rightarrow> False
       then Inl (Err ''Energy synced height is behind pass synced height'') else Inr (), db') \<and>
    energy_db_ok db' \<and> get_pending_block_height db' = Inr None \<and>
    (\<forall>i h. get_pass_energy_record i h db' =
       (if h \<le> p \<and> (case pending of None \<Rightarrow> True | Some q \<Rightarrow> h < q)
        then get_pass_energy_record i h db else None)) \<and>
    ((case synced of Some s \<Rightarrow> p \<le> s | None \<Rightarrow> True) \<longrightarrow> get_synced_block_height db' = Inr (Some p))"
proof -
  obtain d where ok: "energy_db_ok d" and pend: "get_pending_block_height d = Inr None"
    and syn: "get_synced_block_height d = get_synced_block_height db"
    and rec: "\<And>i h. get_pass_energy_record i h d =
      (if kept_upto pending p h then get_pass_energy_record i h db else None)"
    and eq: "reconcile_with_pass_synced_height p db =
      (case get_synced_block_height d of Inl e \<Rightarrow> (Inl e, d)
       | Inr None \<Rightarrow> (Inr (), set_synced_block_height p d)
       | Inr (Some s) \<Rightarrow>
           if p < s then (Inr (), set_synced_block_height p d)
           else if s < p then (Inl (Err ''Energy synced height is behind pass synced height''), d)
           else (Inr (), d))"
    by (rule reconcile_records [OF assms(1,2), of p]) (rule that)
  have put: "energy_db_ok (set_synced_block_height p d)"
    "get_pending_block_height (set_synced_block_height p d) = Inr None"
    "get_synced_block_height (set_synced_block_height p d) = Inr (Some p)"
    "\<And>i h. get_pass_energy_record i h (set_synced_block_height p d) = get_pass_energy_record i h d"
    using ok pend by (simp_all add: markers energy_db_ok_meta)
  show ?thesis
  proof (cases synced)
    case None
    with eq syn assms(3) put rec show ?thesis
      by (intro exI [of _ "set_synced_block_height p d"]) (simp add: kept_upto_def)
  next
    case (Some s)
    consider "p < s" | "s < p" | "s = p" by fastforce
    then show ?thesis
    proof cases
      case 1
      with Some eq syn assms(3) put rec show ?thesis
        by (intro exI [of _ "set_synced_block_height p d"]) (simp add: kept_upto_def not_less)
    next
      case 2
      with Some eq syn assms(3) ok pend rec show ?thesis
        by (intro exI [of _ d]) (simp add: kept_upto_def not_less)
    next
      case 3
      with Some eq syn assms(3) ok pend rec show ?thesis
        by (intro exI [of _ d]) (simp add: kept_upto_def)
    qed
  qed
qed



text \<open>Runs of energy writes at or above a height.\<close>

inductive energy_writes :: "u32 \<Rightarrow> energy_db \<Rightarrow> energy_db \<Rightarrow> bool" for h where
  none: "energy_writes h db db"
| insert: "energy_writes h db db1 \<Longrightarrow> h \<le> er_block_height r \<Longrightarrow>
    insert_pass_energy_record r db1 = (Inr (), db2) \<Longrightarrow> energy_writes h db db2"

lemma energy_writes_keep:
  assumes "energy_writes h db db'" and "energy_db_ok db"
  shows "energy_db_ok db' \<and> get_pending_block_height db' = get_pending_block_height db \<and>
    get_synced_block_height db' = get_synced_block_height db \<and>
    (\<forall>i k. k < h \<longrightarrow> get_pass_energy_record i k db' = get_pass_energy_record i k db)"
  using assms
proof (induction rule: energy_writes.induct)
  case (insert db db1 r db2)
  then have ok: "energy_db_ok db1" by simp
  with insert.hyps(3) have "db2 = energy_put (er_inscription_id r) (er_block_height r) (value_of_record r) db1"
    by (simp add: insert_op)
  with insert ok show ?case
    by (auto simp: energy.ok_put energy.get_put markers put_meta)
qed simp

text \<open>C22: aborting an interrupted block undoes it.  Begin block \<open>h\<close> on a store whose records all lie
  below \<open>h\<close>, write any energy records at or above \<open>h\<close>, then abort: every record and every energy
  lookup is what it was before the block, the synced marker is untouched, and the next block can
  begin.\<close>

theorem abort_undoes_block:
  assumes "energy_db_ok db" and "\<forall>k \<in> record_heights db. k < h"
    and "begin_block_sync h db = (Inr (), db1)" and "energy_writes h db1 db2"
  shows "\<exists>db3. abort_pending_block_sync h db2 = (Inr (), db3) \<and> energy_db_ok db3 \<and>
    (\<forall>i k. get_pass_energy_record i k db3 = get_pass_energy_record i k db) \<and>
    (\<forall>i k. energy_find_last i k db3 = energy_find_last i k db) \<and>
    get_synced_block_height db3 = get_synced_block_height db \<and>
    get_pending_block_height db3 = Inr None"
proof -
  have db1: "db1 = set_pending_block_height h db"
    using assms(3) by (auto simp: begin_block_sync_def bindR_Inr_eq split: option.splits)
  have ok1: "energy_db_ok db1" using assms(1) by (simp add: db1 markers energy_db_ok_meta)
  from energy_writes_keep [OF assms(4) ok1]
  have ok2: "energy_db_ok db2" and p2: "get_pending_block_height db2 = Inr (Some h)"
    and s2: "get_synced_block_height db2 = get_synced_block_height db"
    and r2: "\<And>i k. k < h \<Longrightarrow> get_pass_energy_record i k db2 = get_pass_energy_record i k db"
    by (simp_all add: db1 markers)
  let ?db3 = "clear_pending_block_height (energy_clear h db2)"
  have ok3: "energy_db_ok ?db3" using ok2 by (simp add: markers energy_db_ok_meta energy.ok_clear)
  have none: "get_pass_energy_record i k db = None" if "\<not> k < h" for i k
    using assms(2) that by (cases "get_pass_energy_record i k db") (auto simp: record_heights_def)
  have get3: "get_pass_energy_record i k ?db3 = get_pass_energy_record i k db" for i k
    using r2 none by (simp add: markers energy.get_clear [OF ok2])
  have "abort_pending_block_sync h db2 = (Inr (), ?db3)"
    using ok2 p2 by (simp add: abort_pending_block_sync_def clear_op)
  moreover have "energy_find_last i k ?db3 = energy_find_last i k db" for i k
    by (rule energy.find_last_cong [OF assms(1) ok3 get3])
  moreover have "get_synced_block_height ?db3 = get_synced_block_height db"
    using s2 ok2 by (simp add: markers clear_meta)
  moreover have "get_pending_block_height ?db3 = Inr None" by (simp add: markers)
  ultimately show ?thesis using ok3 get3 by blast
qed

theorem abort_undoes_block_witness:
  "\<exists>db1 db2 db3. begin_block_sync 130 sample_energy_db = (Inr (), db1) \<and>
    insert_pass_energy_record (sample_energy_record 130 9) db1 = (Inr (), db2) \<and>
    abort_pending_block_sync 130 db2 = (Inr (), db3) \<and>
    get_pass_energy_record sample_energy_id 130 db3 = None"
proof -
  let ?db1 = "set_pending_block_height 130 sample_energy_db"
  have "get_pending_block_height sample_energy_db = Inr None" by code_simp
  then have b: "begin_block_sync 130 sample_energy_db = (Inr (), ?db1)"
    by (simp add: begin_block_sync_def)
  have ok1: "energy_db_ok ?db1" using sample_energy_db_ok by (simp add: markers energy_db_ok_meta)
  let ?db2 = "snd (insert_pass_energy_record (sample_energy_record 130 9) ?db1)"
  have i: "insert_pass_energy_record (sample_energy_record 130 9) ?db1 = (Inr (), ?db2)"
    using insert_op [OF ok1] by simp
  have w: "energy_writes 130 ?db1 ?db2"
    by (rule energy_writes.insert [OF energy_writes.none _ i]) (simp add: sample_energy_record_def)
  have "ed_records sample_energy_db \<noteq> [] \<and>
      list_all (\<lambda>x. ek_block_height (energy_key (fst x)) < 130) (ed_records sample_energy_db)" by code_simp
  then have lt: "\<forall>k \<in> record_heights sample_energy_db. k < 130"
    by (auto simp: record_heights_iff [OF sample_energy_db_ok] list_all_iff)
  have "get_pass_energy_record sample_energy_id 130 sample_energy_db = None" by code_simp
  with abort_undoes_block [OF sample_energy_db_ok lt b w] b i show ?thesis by metis
qed

section \<open>Balance changes\<close>

text \<open>A list of balance changes of one owner after height \<open>x\<close> and up to \<open>h\<close>: ascending heights, no
  empty change, and each balance moves in the direction of its delta.\<close>

fun changes_ok :: "u32 \<Rightarrow> u64 \<Rightarrow> u32 \<Rightarrow> AddressBalance list \<Rightarrow> bool" where
  "changes_ok x bal h [] = True"
| "changes_ok x bal h (b # bs) \<longleftrightarrow>
     x < bal_block_height b \<and> bal_block_height b \<le> h \<and> bal_delta b \<noteq> 0 \<and>
     (sint (bal_delta b) > 0 \<longrightarrow> bal \<le> bal_balance b) \<and>
     (sint (bal_delta b) < 0 \<longrightarrow> bal_balance b \<le> bal) \<and>
     changes_ok (bal_block_height b) (bal_balance b) h bs"

text \<open>The eager path: one settlement per change, in order.\<close>

definition settle_changes :: "InscriptionId \<Rightarrow> USDBScriptHash \<Rightarrow> AddressBalance list \<Rightarrow> (energy_db, unit) op" where
  "settle_changes i own bs =
     forR bs (\<lambda>b. bindR (apply_active_balance_change i own (bal_block_height b) (bal_balance b) (bal_delta b))
       (\<lambda>_. ret ()))"

lemma next_energy_record_fields [simp]:
  "er_inscription_id (next_energy_record i r b) = i"
  "er_block_height (next_energy_record i r b) = bal_block_height b"
  "er_state (next_energy_record i r b) = Active"
  "er_owner_address (next_energy_record i r b) = er_owner_address r"
  "er_owner_balance (next_energy_record i r b) = bal_balance b"
  by (simp_all add: next_energy_record_def Let_def)

lemma apply_change_step:
  assumes ok: "energy_db_ok db" and fl: "energy_find_last i h db = Some (x, v)"
    and st: "ev_state v = Active" "ev_owner_address v = own"
    and ch: "changes_ok x (ev_owner_balance v) h (b # bs)"
  defines "r \<equiv> next_energy_record i (with_height i (x, v)) b"
  shows "apply_active_balance_change i own (bal_block_height b) (bal_balance b) (bal_delta b) db =
      (Inr True, energy_put i (bal_block_height b) (value_of_record r) db)"
    and "update_energy_step i b (with_height i (x, v)) db =
      (Inr r, energy_put i (bal_block_height b) (value_of_record r) db)"
    and "energy_find_last i h (energy_put i (bal_block_height b) (value_of_record r) db) =
      Some (bal_block_height b, value_of_record r)"
proof -
  have y: "x < bal_block_height b" "bal_block_height b \<le> h" using ch by simp_all
  have "energy_find_last i (bal_block_height b) db = Some (x, v)"
    by (rule energy.find_last_shrink [OF ok fl]) (use y in simp_all)
  then have f: "find_last_pass_energy_record i (bal_block_height b) db = Inr (Some (with_height i (x, v)))"
    by (simp add: find_last_op [OF ok])
  have ins: "insert_pass_energy_record r db =
      (Inr (), energy_put i (bal_block_height b) (value_of_record r) db)"
    using insert_op [OF ok, of r] by (simp add: r_def)
  show "update_energy_step i b (with_height i (x, v)) db =
      (Inr r, energy_put i (bal_block_height b) (value_of_record r) db)"
    using ins by (simp add: update_energy_step_def r_def [symmetric] Let_def)
  have eq: "\<lparr>er_inscription_id = i, er_block_height = bal_block_height b, er_state = Active,
      er_active_block_height = (if sint (bal_delta b) < 0 then bal_block_height b else ev_active_block_height v),
      er_owner_address = own, er_owner_balance = bal_balance b, er_owner_delta = bal_delta b,
      er_energy = (if sint (bal_delta b) < 0
        then sat_sub (sat_add (ev_energy v) (calc_incremental_growth (ev_owner_balance v)
          (ev_active_block_height v) x (bal_block_height b))) (calc_penalty_from_delta (bal_delta b))
        else sat_add (ev_energy v) (calc_incremental_growth (ev_owner_balance v)
          (ev_active_block_height v) x (bal_block_height b)))\<rparr> = r"
    using st by (simp add: r_def next_energy_record_def Let_def)
  show "apply_active_balance_change i own (bal_block_height b) (bal_balance b) (bal_delta b) db =
      (Inr True, energy_put i (bal_block_height b) (value_of_record r) db)"
    unfolding apply_active_balance_change_def apply_active_balance_change_internal_def
    using f ch st y ins eq by (auto simp: Let_def not_less)
  show "energy_find_last i h (energy_put i (bal_block_height b) (value_of_record r) db) =
      Some (bal_block_height b, value_of_record r)"
    by (rule energy.find_last_put_between [OF ok fl]) (use y in simp_all)
qed

lemma settle_and_update_agree:
  assumes "energy_db_ok db" and "energy_find_last i h db = Some (x, v)"
    and "ev_state v = Active" and "ev_owner_address v = own"
    and "changes_ok x (ev_owner_balance v) h bs"
  shows "\<exists>y w db'. settle_changes i own bs db = (Inr (), db') \<and>
    foldR (update_energy_step i) bs (with_height i (x, v)) db = (Inr (with_height i (y, w)), db') \<and>
    energy_db_ok db' \<and> energy_find_last i h db' = Some (y, w) \<and> ev_state w = Active \<and>
    ev_owner_balance w = fold (\<lambda>b _. bal_balance b) bs (ev_owner_balance v) \<and>
    (\<forall>j k. j \<noteq> i \<or> k \<le> x \<or> h < k \<longrightarrow> get_pass_energy_record j k db' = get_pass_energy_record j k db)"
  using assms
proof (induction bs arbitrary: db x v)
  case Nil
  then show ?case by (auto simp: settle_changes_def)
next
  case (Cons b bs)
  let ?r = "next_energy_record i (with_height i (x, v)) b"
  let ?db = "energy_put i (bal_block_height b) (value_of_record ?r) db"
  note step = apply_change_step [OF Cons.prems]
  have r: "with_height i (bal_block_height b, value_of_record ?r) = ?r"
    using with_height_value [of ?r] by simp
  have vr: "ev_state (value_of_record ?r) = Active" "ev_owner_address (value_of_record ?r) = own"
    "ev_owner_balance (value_of_record ?r) = bal_balance b"
    using Cons.prems(4) by (simp_all add: value_of_record_def)
  have "\<exists>y w db'. settle_changes i own bs ?db = (Inr (), db') \<and>
    foldR (update_energy_step i) bs (with_height i (bal_block_height b, value_of_record ?r)) ?db =
      (Inr (with_height i (y, w)), db') \<and>
    energy_db_ok db' \<and> energy_find_last i h db' = Some (y, w) \<and> ev_state w = Active \<and>
    ev_owner_balance w = fold (\<lambda>b _. bal_balance b) bs (ev_owner_balance (value_of_record ?r)) \<and>
    (\<forall>j k. j \<noteq> i \<or> k \<le> bal_block_height b \<or> h < k \<longrightarrow>
      get_pass_energy_record j k db' = get_pass_energy_record j k ?db)"
    by (rule Cons.IH [OF _ step(3)]) (use Cons.prems vr in \<open>simp_all add: energy.ok_put\<close>)
  moreover have "get_pass_energy_record j k ?db = get_pass_energy_record j k db"
    "j \<noteq> i \<or> k \<le> bal_block_height b \<or> h < k" if "j \<noteq> i \<or> k \<le> x \<or> h < k" for j k
    using that Cons.prems(1,5) by (auto simp: energy.get_put)
  ultimately show ?case using step(1,2) vr(3) by (simp add: settle_changes_def r) metis
qed

lemma project_incremental:
  "project_energy_record_no_balance_change r q =
    \<lparr>pe_energy = (if er_state r = Active then sat_add (er_energy r) (calc_incremental_growth
       (er_owner_balance r) (er_active_block_height r) (er_block_height r) q) else er_energy r),
     pe_state = er_state r\<rparr>"
  by (auto simp: project_energy_record_no_balance_change_def calc_incremental_growth_def Let_def not_le)

lemma get_pass_energy_op:
  assumes "energy_db_ok db"
  shows "get_pass_energy i h db = Inr (map_option (\<lambda>xv. project_energy_record_no_balance_change
    (with_height i xv) h) (energy_find_last i h db))"
  by (simp add: get_pass_energy_def get_pass_energy_record_at_or_before_def find_last_op [OF assms]
      option.map_comp o_def)

text \<open>The balance service promises to return the changes of an address in a height range.\<close>

definition serves_changes :: "balance_provider \<Rightarrow> USDBScriptHash \<Rightarrow> u32 \<Rightarrow> u32 \<Rightarrow> AddressBalance list \<Rightarrow> bool" where
  "serves_changes bp own x h bs \<longleftrightarrow> bp_get_balance_at_range bp own (x + 1) (h + 1) = Inr bs"

lemma update_pass_energy_op:
  assumes ok: "energy_db_ok db" and fl: "energy_find_last i h db = Some (x, v)"
    and act: "ev_state v = Active" and ch: "changes_ok x (ev_owner_balance v) h bs"
    and bp: "serves_changes bp (ev_owner_address v) x h bs"
  shows "\<exists>y w db'. settle_changes i (ev_owner_address v) bs db = (Inr (), db') \<and>
    update_pass_energy bp i h db =
      (Inr (project_energy_record_no_balance_change (with_height i (y, w)) h), db') \<and>
    energy_db_ok db' \<and> energy_find_last i h db' = Some (y, w) \<and> ev_state w = Active \<and>
    ev_owner_balance w = fold (\<lambda>b _. bal_balance b) bs (ev_owner_balance v) \<and>
    (\<forall>j k. j \<noteq> i \<or> k \<le> x \<or> h < k \<longrightarrow> get_pass_energy_record j k db' = get_pass_energy_record j k db)"
proof -
  obtain y w db' where a: "settle_changes i (ev_owner_address v) bs db = (Inr (), db')"
    "foldR (update_energy_step i) bs (with_height i (x, v)) db = (Inr (with_height i (y, w)), db')"
    "energy_db_ok db'" "energy_find_last i h db' = Some (y, w)" "ev_state w = Active"
    "ev_owner_balance w = fold (\<lambda>b _. bal_balance b) bs (ev_owner_balance v)"
    "\<forall>j k. j \<noteq> i \<or> k \<le> x \<or> h < k \<longrightarrow> get_pass_energy_record j k db' = get_pass_energy_record j k db"
    using settle_and_update_agree [OF ok fl act refl ch] by blast
  have "x \<le> h" using fl by (simp add: energy.find_last_Some [OF ok])
  moreover have "y \<le> h" using a(3,4) by (simp add: energy.find_last_Some)
  ultimately have "update_pass_energy bp i h db =
      (Inr (project_energy_record_no_balance_change (with_height i (y, w)) h), db')"
    using act bp a(2,5) by (auto simp: update_pass_energy_def find_last_op [OF ok] fl serves_changes_def
        project_incremental calc_incremental_growth_def)
  with a show ?thesis by blast
qed

text \<open>C20: eager settlement and lazy recomputation agree.  For an active pass and any well-formed list
  of balance changes of its owner since the last record, settling the changes one block at a time
  and recomputing the energy from the balance service at the end leave the same store, and the
  recomputed result is what a later energy query at that height returns.\<close>

theorem settlement_equals_recomputation:
  assumes "energy_db_ok db" and "energy_find_last i h db = Some (x, v)" and "ev_state v = Active"
    and "changes_ok x (ev_owner_balance v) h bs" and "serves_changes bp (ev_owner_address v) x h bs"
  shows "\<exists>db' res. settle_changes i (ev_owner_address v) bs db = (Inr (), db') \<and>
    update_pass_energy bp i h db = (Inr res, db') \<and> get_pass_energy i h db' = Inr (Some res)"
  using update_pass_energy_op [OF assms] get_pass_energy_op by fastforce

definition sample_changes :: "AddressBalance list" where
  "sample_changes = [\<lparr>bal_block_height = 130, bal_balance = 400000, bal_delta = 100000\<rparr>,
     \<lparr>bal_block_height = 135, bal_balance = 390000, bal_delta = - 10000\<rparr>]"

definition sample_provider :: balance_provider where
  "sample_provider = \<lparr>bp_get_balance_at_height = \<lambda>_ h. Inr [\<lparr>bal_block_height = h, bal_balance = 300000, bal_delta = 0\<rparr>],
     bp_get_balance_at_range = \<lambda>own f t. Inr (if own = 7 \<and> f = 121 \<and> t = 141 then sample_changes else [])\<rparr>"

lemma sample_find_last:
  "energy_find_last sample_energy_id 140 sample_energy_db = Some (120, value_of_record (sample_energy_record 120 5))"
  by code_simp

theorem settlement_equals_recomputation_witness:
  "\<exists>db' res. settle_changes sample_energy_id 7 sample_changes sample_energy_db = (Inr (), db') \<and>
    update_pass_energy sample_provider sample_energy_id 140 sample_energy_db = (Inr res, db') \<and>
    get_pass_energy sample_energy_id 140 db' = Inr (Some res)"
proof -
  have v: "ev_state (value_of_record (sample_energy_record 120 5)) = Active"
    "ev_owner_address (value_of_record (sample_energy_record 120 5)) = 7"
    "changes_ok 120 (ev_owner_balance (value_of_record (sample_energy_record 120 5))) 140 sample_changes"
    by code_simp+
  have "serves_changes sample_provider 7 120 140 sample_changes"
    by (simp add: serves_changes_def sample_provider_def)
  then show ?thesis
    using settlement_equals_recomputation [OF sample_energy_db_ok sample_find_last v(1,3)] v(2) by simp
qed

text \<open>C28: the energy of a pass between balance changes.  If the last record at \<open>h\<close> is still the last
  at \<open>h'\<close>, then a non-active pass has the recorded energy, an active one never loses energy, and the
  energy at \<open>h'\<close> is the energy at \<open>h\<close> plus the growth of the window, clamped to 64 bits, so asking
  in between does not change the answer.\<close>

theorem energy_growth_between_changes:
  assumes "energy_db_ok db" and "energy_find_last i h db = Some (x, v)" and "h \<le> h'"
    and "\<forall>y. h < y \<and> y \<le> h' \<longrightarrow> get_pass_energy_record i y db = None"
  shows "\<exists>e e'. get_pass_energy i h db = Inr (Some \<lparr>pe_energy = e, pe_state = ev_state v\<rparr>) \<and>
    get_pass_energy i h' db = Inr (Some \<lparr>pe_energy = e', pe_state = ev_state v\<rparr>) \<and> e \<le> e' \<and>
    e' = (if ev_state v = Active
      then sat_add e (calc_incremental_growth (ev_owner_balance v) (ev_active_block_height v) h h')
      else ev_energy v)"
proof -
  have fl': "energy_find_last i h' db = Some (x, v)"
    by (rule energy.find_last_stays [OF assms(1-3)]) (use assms(4) in blast)
  have x: "x \<le> h" using assms(2) by (simp add: energy.find_last_Some [OF assms(1)])
  let ?e = "\<lambda>k. if ev_state v = Active then sat_add (ev_energy v)
      (calc_incremental_growth (ev_owner_balance v) (ev_active_block_height v) x k) else ev_energy v"
  have split: "?e h' = (if ev_state v = Active
      then sat_add (?e h) (calc_incremental_growth (ev_owner_balance v) (ev_active_block_height v) h h')
      else ev_energy v)"
    by (simp add: sat_add_incremental_growth [OF x assms(3)])
  moreover have "?e h \<le> ?e h'" unfolding split by (simp add: sat_add_ge)
  moreover have "get_pass_energy i h db = Inr (Some \<lparr>pe_energy = ?e h, pe_state = ev_state v\<rparr>)"
    "get_pass_energy i h' db = Inr (Some \<lparr>pe_energy = ?e h', pe_state = ev_state v\<rparr>)"
    using assms(1,2) fl' by (simp_all add: get_pass_energy_op project_incremental)
  ultimately show ?thesis by blast
qed

theorem energy_growth_between_changes_witness:
  "\<exists>e e'. get_pass_energy sample_energy_id 120 sample_energy_db = Inr (Some \<lparr>pe_energy = e, pe_state = Active\<rparr>) \<and>
    get_pass_energy sample_energy_id 125 sample_energy_db = Inr (Some \<lparr>pe_energy = e', pe_state = Active\<rparr>) \<and>
    e' = sat_add e (calc_incremental_growth 300000 100 120 125)"
proof -
  have f: "energy_find_last sample_energy_id 120 sample_energy_db =
      Some (120, value_of_record (sample_energy_record 120 5))" by code_simp
  have "\<forall>y. 120 < y \<and> y \<le> 140 \<longrightarrow> get_pass_energy_record sample_energy_id y sample_energy_db = None"
    using sample_find_last unfolding energy.find_last_Some [OF sample_energy_db_ok] by blast
  moreover have "(y :: u32) \<le> 125 \<longrightarrow> y \<le> 140" for y by (rule impI, erule order_trans) simp
  ultimately have n: "\<forall>y. 120 < y \<and> y \<le> 125 \<longrightarrow> get_pass_energy_record sample_energy_id y sample_energy_db = None"
    by blast
  have v: "ev_state (value_of_record (sample_energy_record 120 5)) = Active"
    "ev_owner_balance (value_of_record (sample_energy_record 120 5)) = 300000"
    "ev_active_block_height (value_of_record (sample_energy_record 120 5)) = 100" by code_simp+
  show ?thesis
    using energy_growth_between_changes [OF sample_energy_db_ok f _ n] by (auto simp: v)
qed

section \<open>State changes\<close>

lemma apply_change_cases:
  assumes ok: "energy_db_ok db"
    and r: "apply_active_balance_change i own h bal d db = (r, db')"
  obtains (same) "r \<noteq> Inr True" and "db' = db"
    | (changed) x v where "r = Inr True" and "energy_find_last i h db = Some (x, v)" and "x < h"
        and "ev_state v = Active" and "ev_owner_address v = own" and "d \<noteq> 0"
        and "db' = energy_put i h (value_of_record (next_energy_record i (with_height i (x, v))
          \<lparr>bal_block_height = h, bal_balance = bal, bal_delta = d\<rparr>)) db"
proof -
  let ?b = "\<lparr>bal_block_height = h, bal_balance = bal, bal_delta = d\<rparr>"
  show thesis
  proof (cases "energy_find_last i h db")
    case None
    with r same show thesis
      by (auto simp: apply_active_balance_change_def apply_active_balance_change_internal_def
          find_last_op [OF ok] split: if_splits)
  next
    case (Some xv)
    obtain x v where xv: "xv = (x, v)" by (cases xv)
    have xh: "x \<le> h" using Some by (simp add: xv energy.find_last_Some [OF ok])
    note ins = insert_op [OF ok, of "next_energy_record i (with_height i (x, v)) ?b"]
    show thesis
    proof (cases "d = 0 \<or> ev_state v \<noteq> Active \<or> ev_owner_address v \<noteq> own \<or> x = h \<or>
        (sint d > 0 \<and> bal < ev_owner_balance v) \<or> (sint d < 0 \<and> ev_owner_balance v < bal)")
      case True
      with r Some same show thesis
        by (auto simp: apply_active_balance_change_def apply_active_balance_change_internal_def
            find_last_op [OF ok] xv split: if_splits)
    next
      case False
      with r Some xh have "r = Inr True" "db' = energy_put i h (value_of_record
          (next_energy_record i (with_height i (x, v)) ?b)) db"
        using ins by (auto simp: apply_active_balance_change_def apply_active_balance_change_internal_def
            find_last_op [OF ok] xv next_energy_record_def Let_def split: if_splits)
      with False Some xh show thesis by (intro changed) (auto simp: xv)
    qed
  qed
qed

text \<open>The exact effect of one settled balance change.  The store changes only when the call
  reports a change, and then by one record at the block height: the energy grew over the window
  since the last record, clamped to 64 bits, and a loss of \<open>n\<close> satoshi then costs \<open>43200000 n\<close>,
  down to zero, and restarts the growth window.  All other records stay.\<close>

theorem balance_change_effect:
  assumes "energy_db_ok db" and "apply_active_balance_change i own h bal d db = (r, db')"
  shows "(r \<noteq> Inr True \<longrightarrow> db' = db) \<and>
    (r = Inr True \<longrightarrow> (\<exists>x v w. energy_find_last i h db = Some (x, v) \<and> x < h \<and>
       ev_state v = Active \<and> ev_owner_address v = own \<and>
       (\<forall>j k. get_pass_energy_record j k db' =
          (if j = i \<and> k = h then Some w else get_pass_energy_record j k db)) \<and>
       ev_state w = Active \<and> ev_owner_address w = own \<and> ev_owner_balance w = bal \<and> ev_owner_delta w = d \<and>
       ev_active_block_height w = (if sint d < 0 then h else ev_active_block_height v) \<and>
       unat (ev_energy w) =
         min (unat (ev_energy v) + unat (calc_incremental_growth (ev_owner_balance v)
            (ev_active_block_height v) x h)) (2 ^ 64 - 1) -
         min (nat (- sint d) * 43200000) (2 ^ 64 - 1)))"
proof (cases rule: apply_change_cases [OF assms, case_names same changed])
  case same then show ?thesis by simp
next
  case (changed x v)
  let ?w = "value_of_record (next_energy_record i (with_height i (x, v))
    \<lparr>bal_block_height = h, bal_balance = bal, bal_delta = d\<rparr>)"
  have w: "ev_state ?w = Active" "ev_owner_address ?w = own" "ev_owner_balance ?w = bal"
    "ev_owner_delta ?w = d" "ev_active_block_height ?w = (if sint d < 0 then h else ev_active_block_height v)"
    using changed by (simp_all add: value_of_record_def next_energy_record_def Let_def)
  have e: "unat (ev_energy ?w) =
         min (unat (ev_energy v) + unat (calc_incremental_growth (ev_owner_balance v)
            (ev_active_block_height v) x h)) (2 ^ 64 - 1) -
         min (nat (- sint d) * 43200000) (2 ^ 64 - 1)"
    by (simp add: value_of_record_def next_energy_record_def Let_def unat_sat_sub unat_sat_add
        unat_calc_penalty_from_delta)
  show ?thesis
    using changed w e
    by (intro conjI impI exI [of _ x] exI [of _ v] exI [of _ ?w])
      (simp_all only: energy.get_put [OF assms(1)] simp_thms)
qed

theorem balance_change_effect_witness:
  "\<exists>db'. apply_active_balance_change sample_energy_id 7 130 290000 (- 10000) sample_energy_db = (Inr True, db') \<and>
    (\<exists>w. get_pass_energy_record sample_energy_id 130 db' = Some w \<and> ev_active_block_height w = 130 \<and>
      unat (ev_energy w) = 0)"
proof -
  let ?v = "value_of_record (sample_energy_record 120 5)"
  let ?b = "\<lparr>bal_block_height = 130, bal_balance = 290000, bal_delta = - 10000\<rparr>"
  have f: "energy_find_last sample_energy_id 130 sample_energy_db = Some (120, ?v)" by code_simp
  have s: "sint (- 10000 :: i64) = - 10000" by code_simp
  have v: "ev_state ?v = Active" "ev_owner_address ?v = 7" "ev_owner_balance ?v = 300000"
    "ev_active_block_height ?v = 100" "ev_energy ?v = 5"
    by (simp_all add: value_of_record_def sample_energy_record_def)
  have c: "changes_ok 120 (ev_owner_balance ?v) 130 [?b]" by (simp add: v s)
  obtain db' where t: "apply_active_balance_change sample_energy_id 7 130 290000 (- 10000) sample_energy_db =
      (Inr True, db')"
    using apply_change_step(1) [OF sample_energy_db_ok f v(1,2) c] by auto
  have g: "unat (calc_incremental_growth 300000 100 120 130) = 30000000000"
    by (simp add: unat_calc_incremental_growth unat_calc_growth_delta unat_sat_sub)
  show ?thesis
    using balance_change_effect [OF sample_energy_db_ok t] f t by (auto simp: v s g)
qed

lemma put_frozen:
  assumes "energy_db_ok db" and "\<forall>k. h < k \<longrightarrow> get_pass_energy_record i k db = None"
    and "ev_state w \<noteq> Active" and "h \<le> k"
  shows "get_pass_energy i k (energy_put i h w db) = Inr (Some \<lparr>pe_energy = ev_energy w, pe_state = ev_state w\<rparr>)"
proof -
  have "energy_find_last i k (energy_put i h w db) = Some (h, w)"
    by (rule energy.find_last_stays [OF energy.ok_put [OF assms(1)] energy.find_last_put_here [OF assms(1)] assms(4)])
      (use assms(1,2) in \<open>auto simp: energy.get_put\<close>)
  with assms(3) show ?thesis
    by (simp add: get_pass_energy_op [OF energy.ok_put [OF assms(1)]] project_incremental)
qed

lemma dormant_op:
  assumes ok: "energy_db_ok db" and fl: "energy_find_last i h db = Some (x, v)"
    and act: "ev_state v = Active" and ch: "changes_ok x (ev_owner_balance v) h bs"
    and bp: "serves_changes bp (ev_owner_address v) x h bs"
  shows "\<exists>res db1 w. update_pass_energy bp i h db = (Inr res, db1) \<and> energy_db_ok db1 \<and>
    on_pass_dormant bp i h db = (Inr (), energy_put i h w db1) \<and>
    ev_state w = Dormant \<and> ev_energy w = pe_energy res \<and>
    (\<forall>j k. j \<noteq> i \<or> k \<le> x \<or> h < k \<longrightarrow> get_pass_energy_record j k db1 = get_pass_energy_record j k db)"
proof -
  obtain y u db1 where u: "update_pass_energy bp i h db =
      (Inr (project_energy_record_no_balance_change (with_height i (y, u)) h), db1)"
    and ok1: "energy_db_ok db1" and fl1: "energy_find_last i h db1 = Some (y, u)"
    and fr: "\<forall>j k. j \<noteq> i \<or> k \<le> x \<or> h < k \<longrightarrow> get_pass_energy_record j k db1 = get_pass_energy_record j k db"
    using update_pass_energy_op [OF assms] by blast
  let ?res = "project_energy_record_no_balance_change (with_height i (y, u)) h"
  define d where "d = (if y = h then ev_owner_delta u else 0)"
  let ?r = "\<lparr>er_inscription_id = i, er_block_height = h, er_state = Dormant,
      er_active_block_height = ev_active_block_height u, er_owner_address = ev_owner_address u,
      er_owner_balance = ev_owner_balance u,
      er_owner_delta = d, er_energy = pe_energy ?res\<rparr>"
  let ?w = "value_of_record ?r"
  have ins: "insert_pass_energy_record ?r db1 = (Inr (), energy_put i h ?w db1)"
    using insert_op [OF ok1, of ?r] by simp
  have st: "get_pass_energy_record_exact i h (energy_put i h ?w db1) = Some ?r"
    using record_of_value [of ?r]
    by (simp add: get_pass_energy_record_exact_def energy.get_put [OF ok1])
  have "on_pass_dormant bp i h db = (Inr (), energy_put i h ?w db1)"
    unfolding on_pass_dormant_def using ins st
    by (cases "y = h") (simp_all add: u find_last_op [OF ok1] fl1 d_def)
  moreover have "ev_state ?w = Dormant" "ev_energy ?w = pe_energy ?res" by (simp_all add: value_of_record_def)
  ultimately show ?thesis using u ok1 fr by blast
qed

text \<open>Going dormant freezes the energy.  For an active pass with the balance changes of its owner
  served in order, the transition succeeds, and from its block on, at every later height, the pass
  is dormant with the energy that the recomputation at that block gives; the records of all other
  passes and the earlier records of this one are untouched.\<close>

theorem dormant_freezes_energy:
  assumes "energy_db_ok db" and "energy_find_last i h db = Some (x, v)" and "ev_state v = Active"
    and "changes_ok x (ev_owner_balance v) h bs" and "serves_changes bp (ev_owner_address v) x h bs"
    and "\<forall>k. h < k \<longrightarrow> get_pass_energy_record i k db = None"
  shows "\<exists>res db1 db'. update_pass_energy bp i h db = (Inr res, db1) \<and>
    on_pass_dormant bp i h db = (Inr (), db') \<and> energy_db_ok db' \<and>
    (\<forall>k. h \<le> k \<longrightarrow> get_pass_energy i k db' = Inr (Some \<lparr>pe_energy = pe_energy res, pe_state = Dormant\<rparr>)) \<and>
    (\<forall>j k. j \<noteq> i \<or> k < x \<longrightarrow> get_pass_energy_record j k db' = get_pass_energy_record j k db)"
proof -
  obtain res db1 w where d: "update_pass_energy bp i h db = (Inr res, db1)" "energy_db_ok db1"
    "on_pass_dormant bp i h db = (Inr (), energy_put i h w db1)"
    "ev_state w = Dormant" "ev_energy w = pe_energy res"
    and fr: "\<forall>j k. j \<noteq> i \<or> k \<le> x \<or> h < k \<longrightarrow> get_pass_energy_record j k db1 = get_pass_energy_record j k db"
    using dormant_op [OF assms(1-5)] by blast
  have x: "x \<le> h" using assms(2) by (simp add: energy.find_last_Some [OF assms(1)])
  have none: "\<forall>k. h < k \<longrightarrow> get_pass_energy_record i k db1 = None" using fr assms(6) by simp
  have "get_pass_energy i k (energy_put i h w db1) = Inr (Some \<lparr>pe_energy = pe_energy res, pe_state = Dormant\<rparr>)"
    if "h \<le> k" for k
    using put_frozen [OF d(2) none _ that, of w] d(4,5) by simp
  moreover have "get_pass_energy_record j k (energy_put i h w db1) = get_pass_energy_record j k db"
    if jk: "j \<noteq> i \<or> k < x" for j k
  proof -
    have "j \<noteq> i \<or> k \<le> x \<or> h < k" and "\<not> (j = i \<and> k = h)" using jk x by auto
    with fr show ?thesis by (simp only: energy.get_put [OF d(2)] if_False)
  qed
  ultimately show ?thesis using d(1,3) energy.ok_put [OF d(2)] by blast
qed

theorem dormant_freezes_energy_witness:
  "\<exists>res db1 db'. update_pass_energy sample_provider sample_energy_id 140 sample_energy_db = (Inr res, db1) \<and>
    on_pass_dormant sample_provider sample_energy_id 140 sample_energy_db = (Inr (), db') \<and>
    get_pass_energy sample_energy_id 900000 db' = Inr (Some \<lparr>pe_energy = pe_energy res, pe_state = Dormant\<rparr>)"
proof -
  let ?v = "value_of_record (sample_energy_record 120 5)"
  have v: "ev_state ?v = Active" "ev_owner_address ?v = 7" "changes_ok 120 (ev_owner_balance ?v) 140 sample_changes"
    by code_simp+
  have b: "serves_changes sample_provider (ev_owner_address ?v) 120 140 sample_changes"
    by (simp add: serves_changes_def sample_provider_def v(2))
  have "list_all (\<lambda>x. ek_block_height (energy_key (fst x)) \<le> 140) (ed_records sample_energy_db)" by code_simp
  then have "\<forall>k \<in> record_heights sample_energy_db. k \<le> 140"
    by (auto simp: record_heights_iff [OF sample_energy_db_ok] list_all_iff)
  then have "\<forall>k. 140 < k \<longrightarrow> get_pass_energy_record sample_energy_id k sample_energy_db = None"
    by (fastforce simp: record_heights_def)
  note none = this
  have "(140 :: u32) \<le> 900000" by simp
  with dormant_freezes_energy [OF sample_energy_db_ok sample_find_last v(1,3) b none]
  show ?thesis by blast
qed

text \<open>Consuming a pass leaves it with no energy from that block on, and a new pass starts with
  exactly the energy it inherits.\<close>

theorem consumed_has_no_energy_new_has_inherited:
  assumes "energy_db_ok db" and "\<forall>k. h < k \<longrightarrow> get_pass_energy_record i k db = None"
    and "get_balance_at_height bp own h = Inr b"
  shows "(\<exists>db'. on_pass_consumed i own h db = (Inr (), db') \<and>
      (\<forall>k. h \<le> k \<longrightarrow> get_pass_energy i k db' = Inr (Some \<lparr>pe_energy = 0, pe_state = Consumed\<rparr>))) \<and>
    (\<exists>db'. on_new_pass bp i own h inherited db = (Inr (), db') \<and>
      get_pass_energy i h db' = Inr (Some \<lparr>pe_energy = inherited, pe_state = Active\<rparr>))"
proof
  let ?c = "\<lparr>ev_state = Consumed, ev_active_block_height = h, ev_owner_address = own,
     ev_owner_balance = 0, ev_owner_delta = 0, ev_energy = 0\<rparr>"
  have "on_pass_consumed i own h db = (Inr (), energy_put i h ?c db)"
    by (simp add: on_pass_consumed_def insert_op [OF assms(1)] value_of_record_def)
  moreover have "get_pass_energy i k (energy_put i h ?c db) = Inr (Some \<lparr>pe_energy = 0, pe_state = Consumed\<rparr>)"
    if "h \<le> k" for k
    using put_frozen [OF assms(1,2) _ that, of ?c] by simp
  ultimately show "\<exists>db'. on_pass_consumed i own h db = (Inr (), db') \<and>
      (\<forall>k. h \<le> k \<longrightarrow> get_pass_energy i k db' = Inr (Some \<lparr>pe_energy = 0, pe_state = Consumed\<rparr>))" by blast
next
  let ?n = "\<lparr>ev_state = Active, ev_active_block_height = h, ev_owner_address = own,
     ev_owner_balance = bal_balance b, ev_owner_delta = bal_delta b, ev_energy = inherited\<rparr>"
  have "on_new_pass bp i own h inherited db = (Inr (), energy_put i h ?n db)"
    by (simp add: on_new_pass_def assms(3) insert_op [OF assms(1)] value_of_record_def)
  moreover have "get_pass_energy i h (energy_put i h ?n db) = Inr (Some \<lparr>pe_energy = inherited, pe_state = Active\<rparr>)"
    by (simp add: get_pass_energy_op [OF energy.ok_put [OF assms(1)]] energy.find_last_put_here [OF assms(1)]
        project_incremental)
  ultimately show "\<exists>db'. on_new_pass bp i own h inherited db = (Inr (), db') \<and>
      get_pass_energy i h db' = Inr (Some \<lparr>pe_energy = inherited, pe_state = Active\<rparr>)" by blast
qed

theorem consumed_has_no_energy_new_has_inherited_witness:
  "\<exists>db'. on_new_pass sample_provider sample_energy_id 7 200 55 empty_energy_db = (Inr (), db') \<and>
    get_pass_energy sample_energy_id 200 db' = Inr (Some \<lparr>pe_energy = 55, pe_state = Active\<rparr>)"
proof -
  have "get_balance_at_height sample_provider 7 200 =
      Inr \<lparr>bal_block_height = 200, bal_balance = 300000, bal_delta = 0\<rparr>"
    by (simp add: get_balance_at_height_def sample_provider_def)
  moreover have "\<forall>k. 200 < k \<longrightarrow> get_pass_energy_record sample_energy_id k empty_energy_db = None"
    by (simp add: get_pass_energy_record_def empty_energy_db_def cf_get_def)
  ultimately show ?thesis
    using consumed_has_no_energy_new_has_inherited [OF energy_db_ok_empty, of 200 sample_energy_id] by blast
qed

end
