(* ===== verification/Pass_Manager.thy ===== *)
theory Pass_Manager
  imports Pass_Timeline Pass_Commit Energy_Manager
begin

text \<open>
  \<open>usdb-indexer/src/index/pass.rs\<close>: the miner pass manager, which turns mint, transfer and burn
  events into writes of the pass database, of the energy store and of the mutation collector of the
  current block.  The writes a handler made before it failed stay in its state.
\<close>

section \<open>State and helpers\<close>

record PassMintInscriptionInfo =
  mi_inscription_id :: InscriptionId
  mi_inscription_number :: int
  mi_mint_txid :: Txid
  mi_mint_block_height :: u32
  mi_mint_owner :: USDBScriptHash
  mi_satpoint :: SatPoint
  mi_eth_main :: string
  mi_eth_collab :: "string option"
  mi_prev :: "InscriptionId list"

record InvalidPassMintInscriptionInfo =
  iv_inscription_id :: InscriptionId
  iv_inscription_number :: int
  iv_mint_txid :: Txid
  iv_mint_block_height :: u32
  iv_mint_owner :: USDBScriptHash
  iv_satpoint :: SatPoint
  iv_error_code :: string
  iv_error_reason :: string

record pass_mgr =
  mg_store :: pass_store
  mg_energy :: energy_db
  mg_collector :: "PassBlockMutationCollector option"

abbreviation mg_db :: "pass_mgr \<Rightarrow> pass_db" where
  "mg_db s \<equiv> ps_db (mg_store s)"

definition on_db :: "(pass_db, 'a) op \<Rightarrow> (pass_mgr, 'a) op" where
  "on_db = zoom mg_db (\<lambda>d s. s\<lparr>mg_store := (mg_store s)\<lparr>ps_db := d\<rparr>\<rparr>)"

definition on_energy :: "(energy_db, 'a) op \<Rightarrow> (pass_mgr, 'a) op" where
  "on_energy = zoom mg_energy (\<lambda>e s. s\<lparr>mg_energy := e\<rparr>)"

section \<open>The mutation collector of the block\<close>

definition begin_block_mutation_collection :: "u32 \<Rightarrow> (pass_mgr, unit) op" where
  "begin_block_mutation_collection block_height =
     bindR (gets mg_collector) (\<lambda>current.
     if current \<noteq> None
     then fail (Err ''Pass block mutation collector is already active when starting block'')
     else modify (\<lambda>s. s\<lparr>mg_collector := Some (PassBlockMutationCollector_new block_height)\<rparr>))"

text \<open>\<open>current.take()\<close> empties the slot also when the height then turns out to be wrong.\<close>

definition take_block_mutation_collector :: "u32 \<Rightarrow> (pass_mgr, PassBlockMutationCollector) op" where
  "take_block_mutation_collector block_height =
     bindR (gets mg_collector) (\<lambda>current.
     bindR (modify (\<lambda>s. s\<lparr>mg_collector := None\<rparr>)) (\<lambda>_.
     case current of
       None \<Rightarrow> fail (Err ''Pass block mutation collector is not active when finalizing block'')
     | Some collector \<Rightarrow>
         if co_block_height collector \<noteq> block_height
         then fail (Err ''Pass block mutation collector height mismatch'')
         else ret collector))"

definition clear_block_mutation_collection :: "pass_mgr \<Rightarrow> pass_mgr" where
  "clear_block_mutation_collection s = s\<lparr>mg_collector := None\<rparr>"

definition has_active_block_mutation_collection :: "pass_mgr \<Rightarrow> bool" where
  "has_active_block_mutation_collection s \<longleftrightarrow> mg_collector s \<noteq> None"

text \<open>Without an active collector the mutation is dropped with a warning.\<close>

definition push_block_mutation :: "PassBlockMutation \<Rightarrow> (pass_mgr, unit) op" where
  "push_block_mutation mutation =
     modify (\<lambda>s. s\<lparr>mg_collector := map_option (collector_push mutation) (mg_collector s)\<rparr>)"

section \<open>Handlers\<close>

definition dormant_last_pass :: "balance_provider \<Rightarrow> PassMintInscriptionInfo \<Rightarrow> (pass_mgr, unit) op" where
  "dormant_last_pass bp mint_info =
     bindR (gets (\<lambda>s. get_last_active_mint_pass_by_owner (mi_mint_owner mint_info) (mg_db s))) (\<lambda>existing.
     case existing of
       None \<Rightarrow> ret ()
     | Some last_pass \<Rightarrow>
       bindR (guardR (mp_state last_pass = Active) (Panic ''Existing pass should be active'')) (\<lambda>_.
       bindR (guardR (mp_mint_block_height last_pass \<le> mi_mint_block_height mint_info)
         (Panic ''Existing pass mint block height should be less than or equal to new mint'')) (\<lambda>_.
       bindR (on_db (update_state_at_height (mp_inscription_id last_pass) Dormant Active
         (mi_mint_block_height mint_info))) (\<lambda>_.
       bindR (push_block_mutation (StateTransition (mp_inscription_id last_pass) Active Dormant
         (mp_owner last_pass) (mp_satpoint last_pass))) (\<lambda>_.
       on_energy (on_pass_dormant bp (mp_inscription_id last_pass) (mi_mint_block_height mint_info)))))))"

definition consume_pass :: "InscriptionId \<Rightarrow> u32 \<Rightarrow> (pass_mgr, u64) op" where
  "consume_pass inscription_id block_height =
     bindR (gets (\<lambda>s. get_pass_by_inscription_id inscription_id (mg_db s))) (\<lambda>found.
     case found of
       None \<Rightarrow> fail (Err ''Miner Pass not found for consuming'')
     | Some pass \<Rightarrow>
       bindR (guardR (mp_state pass = Dormant) (Panic ''Miner Pass must be dormant before consuming'')) (\<lambda>_.
       bindR (on_db (update_state_at_height inscription_id Consumed (mp_state pass) block_height)) (\<lambda>_.
       bindR (push_block_mutation (StateTransition inscription_id (mp_state pass) Consumed
         (mp_owner pass) (mp_satpoint pass))) (\<lambda>_.
       bindR (on_energy (getsR (get_pass_energy inscription_id block_height))) (\<lambda>res.
       case res of
         None \<Rightarrow> fail (Err ''Miner Pass energy not found for consuming'')
       | Some energy \<Rightarrow>
         bindR (guardR (pe_state energy = Dormant)
           (Panic ''Miner Pass energy state must be Dormant before consuming'')) (\<lambda>_.
         bindR (on_energy (on_pass_consumed inscription_id (mp_owner pass) block_height)) (\<lambda>_.
         ret (pe_energy energy))))))))"

text \<open>The body of the loop over \<open>prev\<close>; \<open>inherited\<close> is the energy collected so far.\<close>

definition inherit_from :: "PassMintInscriptionInfo \<Rightarrow> InscriptionId \<Rightarrow> u64 \<Rightarrow> (pass_mgr, u64) op" where
  "inherit_from mint_info prev_id inherited =
     bindR (gets (\<lambda>s. get_pass_by_inscription_id prev_id (mg_db s))) (\<lambda>found.
     case found of
       None \<Rightarrow> ret inherited
     | Some prev_pass \<Rightarrow>
       if mp_owner prev_pass \<noteq> mi_mint_owner mint_info then ret inherited
       else
         bindR (guardR (mp_state prev_pass \<noteq> Active)
           (Panic ''Previous Miner Pass should not be active when minting new pass'')) (\<lambda>_.
         if mp_state prev_pass \<noteq> Dormant then ret inherited
         else
           bindR (consume_pass prev_id (mi_mint_block_height mint_info)) (\<lambda>energy.
           ret (sat_add inherited energy))))"

definition new_pass_info :: "PassMintInscriptionInfo \<Rightarrow> MinerPassInfo" where
  "new_pass_info mint_info =
     \<lparr>mp_inscription_id = mi_inscription_id mint_info,
      mp_inscription_number = mi_inscription_number mint_info, mp_mint_txid = mi_mint_txid mint_info,
      mp_mint_block_height = mi_mint_block_height mint_info, mp_mint_owner = mi_mint_owner mint_info,
      mp_satpoint = mi_satpoint mint_info, mp_eth_main = mi_eth_main mint_info,
      mp_eth_collab = mi_eth_collab mint_info, mp_prev = mi_prev mint_info,
      mp_invalid_code = None, mp_invalid_reason = None,
      mp_owner = mi_mint_owner mint_info, mp_state = Active\<rparr>"

definition on_mint_pass :: "balance_provider \<Rightarrow> PassMintInscriptionInfo \<Rightarrow> (pass_mgr, unit) op" where
  "on_mint_pass bp mint_info =
     bindR (dormant_last_pass bp mint_info) (\<lambda>_.
     let info = new_pass_info mint_info in
     bindR (on_db (add_new_mint_pass_at_height info (mi_mint_block_height mint_info))) (\<lambda>_.
     bindR (push_block_mutation (Mint (mp_inscription_id info) (mp_inscription_number info)
       (mp_mint_owner info) (mp_satpoint info) (mp_eth_main info) (mp_eth_collab info) (mp_prev info))) (\<lambda>_.
     bindR (foldR (inherit_from mint_info) (mi_prev mint_info) 0) (\<lambda>inherited_energy.
     on_energy (on_new_pass bp (mi_inscription_id mint_info) (mi_mint_owner mint_info)
       (mi_mint_block_height mint_info) inherited_energy)))))"

definition invalid_pass_info :: "InvalidPassMintInscriptionInfo \<Rightarrow> MinerPassInfo" where
  "invalid_pass_info invalid_info =
     \<lparr>mp_inscription_id = iv_inscription_id invalid_info,
      mp_inscription_number = iv_inscription_number invalid_info,
      mp_mint_txid = iv_mint_txid invalid_info,
      mp_mint_block_height = iv_mint_block_height invalid_info,
      mp_mint_owner = iv_mint_owner invalid_info, mp_satpoint = iv_satpoint invalid_info,
      mp_eth_main = '''', mp_eth_collab = None, mp_prev = [],
      mp_invalid_code = Some (iv_error_code invalid_info),
      mp_invalid_reason = Some (iv_error_reason invalid_info),
      mp_owner = iv_mint_owner invalid_info, mp_state = Invalid\<rparr>"

definition on_invalid_mint_pass :: "InvalidPassMintInscriptionInfo \<Rightarrow> (pass_mgr, unit) op" where
  "on_invalid_mint_pass invalid_info =
     (let info = invalid_pass_info invalid_info in
     bindR (on_db (add_invalid_mint_pass_at_height info (iv_mint_block_height invalid_info))) (\<lambda>_.
     push_block_mutation (InvalidMint (mp_inscription_id info) (mp_inscription_number info)
       (mp_mint_owner info) (mp_satpoint info) (iv_error_code invalid_info)
       (iv_error_reason invalid_info))))"

definition on_pass_transfer ::
  "balance_provider \<Rightarrow> InscriptionId \<Rightarrow> USDBScriptHash \<Rightarrow> SatPoint \<Rightarrow> u32 \<Rightarrow> (pass_mgr, unit) op" where
  "on_pass_transfer bp inscription_id new_owner satpoint block_height =
     bindR (gets (\<lambda>s. get_pass_by_inscription_id inscription_id (mg_db s))) (\<lambda>found.
     case found of
       None \<Rightarrow> fail (Err ''Miner Pass not found for transfer'')
     | Some pass \<Rightarrow>
       bindR (if mp_state pass = Active
              then bindR (on_energy (update_pass_energy bp inscription_id block_height)) (\<lambda>_. ret ())
              else ret ()) (\<lambda>_.
       if mp_owner pass = new_owner
       then
         bindR (on_db (update_satpoint_at_height inscription_id (mp_satpoint pass) satpoint block_height)) (\<lambda>_.
         push_block_mutation (SatpointUpdate inscription_id (mp_state pass) (mp_owner pass)
           (mp_satpoint pass) satpoint))
       else
         bindR (if mp_state pass = Active
                then
                  bindR (on_energy (on_pass_dormant bp inscription_id block_height)) (\<lambda>_.
                  bindR (on_db (update_state_at_height inscription_id Dormant Active block_height)) (\<lambda>_.
                  push_block_mutation (StateTransition inscription_id Active Dormant (mp_owner pass)
                    (mp_satpoint pass))))
                else ret ()) (\<lambda>_.
         bindR (on_db (transfer_owner_at_height inscription_id new_owner satpoint block_height)) (\<lambda>_.
         push_block_mutation (OwnerTransfer inscription_id
           (if mp_state pass = Active then Dormant else mp_state pass)
           (mp_owner pass) new_owner (mp_satpoint pass) satpoint)))))"

definition on_pass_burned :: "balance_provider \<Rightarrow> InscriptionId \<Rightarrow> u32 \<Rightarrow> (pass_mgr, unit) op" where
  "on_pass_burned bp inscription_id block_height =
     bindR (gets (\<lambda>s. get_pass_by_inscription_id inscription_id (mg_db s))) (\<lambda>found.
     case found of
       None \<Rightarrow> fail (Err ''Miner Pass not found for burning'')
     | Some pass \<Rightarrow>
       bindR (if mp_state pass = Active
              then bindR (on_energy (update_pass_energy bp inscription_id block_height)) (\<lambda>_. ret ())
              else ret ()) (\<lambda>_.
       bindR (on_db (update_state_at_height inscription_id Burned (mp_state pass) block_height)) (\<lambda>_.
       push_block_mutation (StateTransition inscription_id (mp_state pass) Burned (mp_owner pass)
         (mp_satpoint pass)))))"

section \<open>Handlers write only at their block height\<close>

lemma update_passes_none:
  "update_passes P f msg db = (Inr 0, db') \<Longrightarrow> db' = db"
  by (auto simp: update_passes_def Let_def filter_empty_conv split: if_splits intro!: map_idI
      pass_db.equality)

lemma storage_err_same:
  "update_state_at_height i st st0 h db = (Inl e, db') \<Longrightarrow> db' = db"
  "update_satpoint_at_height i sp sp' h db = (Inl e, db') \<Longrightarrow> db' = db"
  "transfer_owner_at_height i own sp h db = (Inl e, db') \<Longrightarrow> db' = db"
  "add_new_mint_pass_at_height info h db = (Inl e, db') \<Longrightarrow> db' = db"
  "add_invalid_mint_pass_at_height info h db = (Inl e, db') \<Longrightarrow> db' = db"
  by (auto simp: update_state_at_height_def update_state_def update_satpoint_at_height_def
      update_satpoint_def transfer_owner_at_height_def transfer_owner_def require_pass_def require_def
      add_new_mint_pass_at_height_def add_new_mint_pass_def add_invalid_mint_pass_at_height_def
      add_invalid_mint_pass_def insert_pass_record_def append_pass_history_event_def
      elim!: bindR_cases dest: update_passes_none split: if_splits option.splits)
    (auto simp: update_passes_def Let_def split: if_splits)

definition mgr_moves :: "u32 \<Rightarrow> pass_mgr \<Rightarrow> pass_mgr \<Rightarrow> bool" where
  "mgr_moves h s s' \<longleftrightarrow> (pass_write h)\<^sup>*\<^sup>* (mg_db s) (mg_db s') \<and>
     ps_savepoints (mg_store s') = ps_savepoints (mg_store s)"

lemma mgr_moves_preorder [simp]: "reflp (mgr_moves h)" "transp (mgr_moves h)"
  by (auto simp: mgr_moves_def reflp_def transp_def)

lemma moves_on_db:
  assumes "\<And>db r db'. m db = (r, db') \<Longrightarrow> db' = db \<or> pass_write h db db'"
  shows "moves (mgr_moves h) (on_db m)"
  unfolding moves_def on_db_def zoom_def mgr_moves_def
  using assms by (fastforce split: prod.splits)

lemma moves_on_energy [moves_intro]: "moves (mgr_moves h) (on_energy m)"
  by (simp add: moves_def on_energy_def zoom_def mgr_moves_def split: prod.splits)

lemma moves_push [moves_intro]: "moves (mgr_moves h) (push_block_mutation mu)"
  by (simp add: moves_def push_block_mutation_def mgr_moves_def)

lemma moves_update_state [moves_intro]:
  "moves (mgr_moves h) (on_db (update_state_at_height i st st0 h))"
proof (rule moves_on_db)
  fix db r db' assume a: "update_state_at_height i st st0 h db = (r, db')"
  show "db' = db \<or> pass_write h db db'"
    using a by (cases r) (auto dest: storage_err_same intro: pass_write.state)
qed

lemma moves_update_satpoint [moves_intro]:
  "moves (mgr_moves h) (on_db (update_satpoint_at_height i sp sp' h))"
proof (rule moves_on_db)
  fix db r db' assume a: "update_satpoint_at_height i sp sp' h db = (r, db')"
  show "db' = db \<or> pass_write h db db'"
    using a by (cases r) (auto dest: storage_err_same intro: pass_write.satpoint)
qed

lemma moves_transfer_owner [moves_intro]:
  "moves (mgr_moves h) (on_db (transfer_owner_at_height i own sp h))"
proof (rule moves_on_db)
  fix db r db' assume a: "transfer_owner_at_height i own sp h db = (r, db')"
  show "db' = db \<or> pass_write h db db'"
    using a by (cases r) (auto dest: storage_err_same intro: pass_write.transfer)
qed

lemma moves_add_mint [moves_intro]:
  assumes "mp_mint_block_height info = h"
  shows "moves (mgr_moves h) (on_db (add_new_mint_pass_at_height info h))"
    and "moves (mgr_moves h) (on_db (add_invalid_mint_pass_at_height info h))"
proof -
  show "moves (mgr_moves h) (on_db (add_new_mint_pass_at_height info h))"
  proof (rule moves_on_db)
    fix db r db' assume a: "add_new_mint_pass_at_height info h db = (r, db')"
    show "db' = db \<or> pass_write h db db'"
      using a assms by (cases r) (auto dest: storage_err_same intro: pass_write.mint)
  qed
  show "moves (mgr_moves h) (on_db (add_invalid_mint_pass_at_height info h))"
  proof (rule moves_on_db)
    fix db r db' assume a: "add_invalid_mint_pass_at_height info h db = (r, db')"
    show "db' = db \<or> pass_write h db db'"
      using a assms by (cases r) (auto dest: storage_err_same intro: pass_write.invalid_mint)
  qed
qed

lemma moves_dormant_last_pass [moves_intro]:
  "mi_mint_block_height mint_info = h \<Longrightarrow> moves (mgr_moves h) (dormant_last_pass bp mint_info)"
  unfolding dormant_last_pass_def by (auto intro!: moves_intro)

lemma moves_consume_pass [moves_intro]: "moves (mgr_moves h) (consume_pass i h)"
  unfolding consume_pass_def by (intro moves_intro mgr_moves_preorder)

lemma moves_inherit_from [moves_intro]:
  "mi_mint_block_height mint_info = h \<Longrightarrow> moves (mgr_moves h) (inherit_from mint_info i e)"
  unfolding inherit_from_def by (auto intro!: moves_intro)

lemma moves_handlers:
  "mi_mint_block_height mint_info = h \<Longrightarrow> moves (mgr_moves h) (on_mint_pass bp mint_info)"
  "iv_mint_block_height invalid_info = h \<Longrightarrow> moves (mgr_moves h) (on_invalid_mint_pass invalid_info)"
  "moves (mgr_moves h) (on_pass_transfer bp i own sp h)"
  "moves (mgr_moves h) (on_pass_burned bp i h)"
  unfolding on_mint_pass_def on_invalid_mint_pass_def on_pass_transfer_def on_pass_burned_def Let_def
  by (auto intro!: moves_intro simp: new_pass_info_def invalid_pass_info_def)

lemma pass_write_upto:
  assumes "pass_write h db db'" and "pass_db_ok db" and "history_upto h db"
  shows "history_upto h db'"
  using assms(1,2)
proof (cases rule: pass_write_cases)
  case (ins m) with assms(3) show ?thesis by (auto simp: row_insert_def history_upto_def)
next
  case (repl m m') with assms(3) show ?thesis by (auto simp: row_replace_def history_upto_def)
next
  case side with assms(3) show ?thesis by (simp add: side_tables_write_def history_upto_def)
qed

lemma pass_writes_run:
  "(pass_write h)\<^sup>*\<^sup>* db db' \<Longrightarrow> pass_run id_text db \<Longrightarrow> history_upto h db \<Longrightarrow>
    pass_run id_text db' \<and> history_upto h db'"
proof (induction rule: rtranclp_induct)
  case (step y z)
  then have y: "pass_run id_text y" "history_upto h y" by simp_all
  moreover have "pass_db_ok y" using pass_run_timeline [OF y(1)] by (simp add: timeline_ok_def)
  ultimately show ?case using step.hyps(2) by (auto intro: pass_run.write_at pass_write_upto)
qed simp


definition sample_mgr :: pass_mgr where
  "sample_mgr = \<lparr>mg_store = \<lparr>ps_db = sample_db3, ps_savepoints = []\<rparr>, mg_energy = empty_energy_db,
     mg_collector = None\<rparr>"


section \<open>Agreement of the pass database and the energy store\<close>

definition energy_upto :: "u32 \<Rightarrow> energy_db \<Rightarrow> bool" where
  "energy_upto h en \<longleftrightarrow> (\<forall>i k. h < k \<longrightarrow> get_pass_energy_record i k en = None)"

definition row_agrees :: "u32 \<Rightarrow> energy_db \<Rightarrow> MinerPassInfo \<Rightarrow> bool" where
  "row_agrees h en m \<longleftrightarrow>
     (mp_state m = Active \<longrightarrow> (\<exists>x v. energy_find_last (mp_inscription_id m) h en = Some (x, v) \<and>
        ev_state v = Active \<and> ev_owner_address v = mp_owner m)) \<and>
     (mp_state m = Dormant \<longrightarrow> (\<exists>x v. energy_find_last (mp_inscription_id m) h en = Some (x, v) \<and>
        ev_state v = Dormant))"

text \<open>The ids in \<open>X\<close> are exempt: a pass that is being minted has no energy record yet.\<close>

definition mgr_inv_but :: "InscriptionId set \<Rightarrow> u32 \<Rightarrow> pass_mgr \<Rightarrow> bool" where
  "mgr_inv_but X h s \<longleftrightarrow>
     pass_db_ok (mg_db s) \<and> energy_db_ok (mg_energy s) \<and> energy_upto h (mg_energy s) \<and>
     (\<forall>m \<in> set (db_passes (mg_db s)). mp_mint_block_height m \<le> h \<and>
        (mp_inscription_id m \<notin> X \<longrightarrow> row_agrees h (mg_energy s) m))"

definition mgr_inv :: "u32 \<Rightarrow> pass_mgr \<Rightarrow> bool" where
  "mgr_inv = mgr_inv_but {}"

text \<open>What the balance service documents: a range query returns entries of the range, a point query
  at most one entry, and failures are error values.\<close>

definition provider_ok :: "balance_provider \<Rightarrow> bool" where
  "provider_ok bp \<longleftrightarrow>
     (\<forall>own f t bs. bp_get_balance_at_range bp own f t = Inr bs \<longrightarrow>
        (\<forall>b \<in> set bs. f \<le> bal_block_height b \<and> bal_block_height b < t)) \<and>
     (\<forall>own h bs. bp_get_balance_at_height bp own h = Inr bs \<longrightarrow> length bs \<le> 1) \<and>
     (\<forall>own f t e. bp_get_balance_at_range bp own f t \<noteq> Inl (Panic e)) \<and>
     (\<forall>own h e. bp_get_balance_at_height bp own h \<noteq> Inl (Panic e))"

text \<open>The service answers every query.\<close>

definition provider_total :: "balance_provider \<Rightarrow> bool" where
  "provider_total bp \<longleftrightarrow> (\<forall>own f t. \<exists>bs. bp_get_balance_at_range bp own f t = Inr bs) \<and>
     (\<forall>own h. \<exists>bs. bp_get_balance_at_height bp own h = Inr bs)"

text \<open>No assertion failed.\<close>

definition no_panic :: "'a result \<Rightarrow> bool" where
  "no_panic r \<longleftrightarrow> (\<forall>e. r \<noteq> Inl (Panic e))"

lemma no_panic_simps [simp]: "no_panic (Inr x)" "no_panic (Inl (Err e))" "\<not> no_panic (Inl (Panic e))"
  by (auto simp: no_panic_def)

subsection \<open>Energy operations under the service contract\<close>

text \<open>The store changed only in records of \<open>i\<close> in the window \<open>(x, h]\<close>, and those are active records of
  \<open>own\<close>.\<close>

definition window_writes :: "InscriptionId \<Rightarrow> u32 \<Rightarrow> u32 \<Rightarrow> USDBScriptHash \<Rightarrow> energy_db \<Rightarrow> energy_db \<Rightarrow> bool" where
  "window_writes i x h own en en' \<longleftrightarrow>
     (\<forall>j k. j \<noteq> i \<or> k \<le> x \<or> h < k \<longrightarrow> get_pass_energy_record j k en' = get_pass_energy_record j k en) \<and>
     (\<forall>k v. x < k \<and> k \<le> h \<and> get_pass_energy_record i k en' = Some v \<longrightarrow>
        ev_state v = Active \<and> ev_owner_address v = own)"

lemma window_put:
  assumes "window_writes i x h own en en'" and "energy_db_ok en'" and "x < k" and "k \<le> h"
    and "ev_state v = Active" and "ev_owner_address v = own"
  shows "window_writes i x h own en (energy_put i k v en')"
  unfolding window_writes_def energy.get_put [OF assms(2)]
proof (intro conjI allI impI)
  fix j q assume jq: "j \<noteq> i \<or> q \<le> x \<or> h < q"
  with assms(3,4) have "\<not> (j = i \<and> q = k)" by auto
  with jq assms(1) show "(if j = i \<and> q = k then Some v else get_pass_energy_record j q en') =
      get_pass_energy_record j q en"
    by (simp only: if_False window_writes_def)
next
  fix q w
  assume q: "x < q \<and> q \<le> h \<and> (if i = i \<and> q = k then Some v else get_pass_energy_record i q en') = Some w"
  show "ev_state w = Active" using q assms by (cases "q = k") (auto simp: window_writes_def)
  show "ev_owner_address w = own" using q assms by (cases "q = k") (auto simp: window_writes_def)
qed

lemma update_loop_window:
  assumes "energy_db_ok en'" and "window_writes i x h own en en'"
    and "\<forall>b \<in> set bs. x < bal_block_height b \<and> bal_block_height b \<le> h"
    and "er_state l = Active" and "er_owner_address l = own"
  shows "\<exists>l' en''. foldR (update_energy_step i) bs l en' = (Inr l', en'') \<and> energy_db_ok en'' \<and>
    window_writes i x h own en en''"
  using assms
proof (induction bs arbitrary: l en')
  case (Cons b bs)
  let ?r = "next_energy_record i l b"
  let ?en = "energy_put i (bal_block_height b) (value_of_record ?r) en'"
  have step: "update_energy_step i b l en' = (Inr ?r, ?en)"
    using insert_op [OF Cons.prems(1), of ?r] by (simp add: update_energy_step_def Let_def)
  have "window_writes i x h own en ?en"
    by (rule window_put [OF Cons.prems(2,1)])
      (use Cons.prems(3-5) in \<open>auto simp: value_of_record_def\<close>)
  then have "\<exists>l' en''. foldR (update_energy_step i) bs ?r ?en = (Inr l', en'') \<and> energy_db_ok en'' \<and>
      window_writes i x h own en en''"
    by (intro Cons.IH) (use Cons.prems in \<open>auto simp: energy.ok_put\<close>)
  with step show ?case by simp
qed auto

lemma window_refl:
  assumes "energy_db_ok en" and "energy_find_last i h en = Some (x, v)"
  shows "window_writes i x h own en en"
  using assms by (auto simp: window_writes_def energy.find_last_Some)

lemma window_find_last:
  assumes ok: "energy_db_ok en" and fl: "energy_find_last i h en = Some (x, v)"
    and v: "ev_state v = Active" "ev_owner_address v = own"
    and ok': "energy_db_ok en'" and w: "window_writes i x h own en en'"
  obtains y u where "energy_find_last i h en' = Some (y, u)" and "ev_state u = Active"
    and "ev_owner_address u = own"
proof -
  have g: "x \<le> h" "get_pass_energy_record i x en' = Some v"
    using fl w by (auto simp: energy.find_last_Some [OF ok] window_writes_def)
  show thesis
  proof (cases rule: find_last_cases [OF ok', of i h, case_names none some])
    case none with g show thesis by auto
  next
    case (some y u)
    have "x \<le> y"
    proof (rule ccontr)
      assume "\<not> x \<le> y"
      then have "get_pass_energy_record i x en' = None" using some(4) [of x] g(1) by auto
      with g(2) show False by simp
    qed
    then consider "y = x" | "x < y" by fastforce
    then have "ev_state u = Active \<and> ev_owner_address u = own"
      using some(2,3) w g v by cases (auto simp: window_writes_def)
    moreover have "energy_find_last i h en' = Some (y, u)"
      using some by (auto simp: energy.find_last_Some [OF ok'])
    ultimately show thesis using that by blast
  qed
qed

lemma range_heights:
  fixes x h b :: u32
  assumes "x \<le> h" and "x + 1 \<le> b" and "b < h + 1"
  shows "x < b \<and> b \<le> h"
proof -
  have "h \<noteq> - 1" using assms(3) by auto
  then have "unat h \<noteq> unat (- 1 :: u32)" by (simp only: word_unat_eq_iff not_False_eq_True)
  then have "unat h < 2 ^ 32 - 1" using unat_le_max [of h] by (simp add: unat_minus_one_word_eq)
  with assms show ?thesis by (auto simp: word_le_nat_alt word_less_nat_alt unat_word_ariths)
qed

lemma update_energy_any:
  assumes ok: "energy_db_ok en" and fl: "energy_find_last i h en = Some (x, v)"
    and act: "ev_state v = Active" and bp: "provider_ok bp"
  obtains r en' where "update_pass_energy bp i h en = (r, en')" and "no_panic r" and "energy_db_ok en'"
    and "window_writes i x h (ev_owner_address v) en en'" and "provider_total bp \<Longrightarrow> \<exists>res. r = Inr res"
proof -
  have xh: "x \<le> h" using fl by (simp add: energy.find_last_Some [OF ok])
  have w0: "window_writes i x h (ev_owner_address v) en en" by (rule window_refl [OF ok fl])
  show thesis
  proof (cases "bp_get_balance_at_range bp (ev_owner_address v) (x + 1) (h + 1)")
    case (Inl e)
    then have "update_pass_energy bp i h en = (Inl e, en)"
      using act xh by (simp add: update_pass_energy_def find_last_op [OF ok] fl)
    moreover have "no_panic (Inl e)" using Inl bp by (cases e) (auto simp: provider_ok_def)
    moreover have "\<not> provider_total bp" using Inl unfolding provider_total_def by (metis Inl_Inr_False)
    ultimately show thesis using that ok w0 by blast
  next
    case (Inr bs)
    then have "\<forall>b \<in> set bs. x < bal_block_height b \<and> bal_block_height b \<le> h"
      using bp range_heights [OF xh] by (auto simp: provider_ok_def)
    then obtain l' en'' where f: "foldR (update_energy_step i) bs (with_height i (x, v)) en = (Inr l', en'')"
      "energy_db_ok en''" "window_writes i x h (ev_owner_address v) en en''"
      using update_loop_window [OF ok w0, of bs "with_height i (x, v)"] act by auto
    then have "\<exists>res. update_pass_energy bp i h en = (Inr res, en'')"
      using Inr act xh by (simp add: update_pass_energy_def find_last_op [OF ok] fl)
    then obtain res where "update_pass_energy bp i h en = (Inr res, en'')" by blast
    then show thesis by (rule that) (use f in simp_all)
  qed
qed

lemma dormant_any:
  assumes ok: "energy_db_ok en" and fl: "energy_find_last i h en = Some (x, v)"
    and act: "ev_state v = Active" and bp: "provider_ok bp"
  obtains r en' where "on_pass_dormant bp i h en = (r, en')" and "no_panic r" and "energy_db_ok en'"
    and "\<And>j k. j \<noteq> i \<or> h < k \<Longrightarrow> get_pass_energy_record j k en' = get_pass_energy_record j k en"
    and "r = Inr () \<Longrightarrow> \<exists>u. energy_find_last i h en' = Some (h, u) \<and> ev_state u = Dormant"
    and "provider_total bp \<Longrightarrow> r = Inr ()"
proof -
  obtain r1 en1 where u: "update_pass_energy bp i h en = (r1, en1)" and np: "no_panic r1"
    and ok1: "energy_db_ok en1" and w: "window_writes i x h (ev_owner_address v) en en1"
    and tot: "provider_total bp \<Longrightarrow> \<exists>res. r1 = Inr res"
    by (rule update_energy_any [OF assms]) (rule that)
  have fr: "get_pass_energy_record j k en1 = get_pass_energy_record j k en" if "j \<noteq> i \<or> h < k" for j k
    using w that by (auto simp: window_writes_def)
  show thesis
  proof (cases r1)
    case (Inl e)
    then have d: "on_pass_dormant bp i h en = (Inl e, en1)"
      unfolding on_pass_dormant_def using u by (simp del: guardR_apply)
    have "no_panic (Inl e :: unit result)" using np Inl by (cases e) simp_all
    then show thesis by (intro that [OF d _ ok1 fr]) (use tot Inl in auto)
  next
    case (Inr res)
    obtain y z where fl1: "energy_find_last i h en1 = Some (y, z)"
      using window_find_last [OF ok fl act refl ok1 w] by blast
    define d where "d = (if y = h then ev_owner_delta z else 0)"
    let ?r = "\<lparr>er_inscription_id = i, er_block_height = h, er_state = Dormant,
      er_active_block_height = ev_active_block_height z, er_owner_address = ev_owner_address z,
      er_owner_balance = ev_owner_balance z, er_owner_delta = d, er_energy = pe_energy res\<rparr>"
    let ?en = "energy_put i h (value_of_record ?r) en1"
    have ins: "insert_pass_energy_record ?r en1 = (Inr (), ?en)" using insert_op [OF ok1, of ?r] by simp
    have st: "get_pass_energy_record_exact i h ?en = Some ?r"
      using record_of_value [of ?r] by (simp add: get_pass_energy_record_exact_def energy.get_put [OF ok1])
    have "on_pass_dormant bp i h en = (Inr (), ?en)"
      unfolding on_pass_dormant_def using u Inr ins st
      by (cases "y = h") (simp_all add: find_last_op [OF ok1] fl1 d_def)
    moreover have "energy_find_last i h ?en = Some (h, value_of_record ?r)"
      by (rule energy.find_last_put_here [OF ok1])
    moreover have "ev_state (value_of_record ?r) = Dormant" by (simp add: value_of_record_def)
    moreover have "get_pass_energy_record j k ?en = get_pass_energy_record j k en" if "j \<noteq> i \<or> h < k" for j k
      using that fr by (auto simp: energy.get_put [OF ok1])
    ultimately show thesis using that energy.ok_put [OF ok1] by fastforce
  qed
qed

subsection \<open>Rows that change\<close>

lemma row_agrees_cong:
  assumes "energy_db_ok en" and "energy_db_ok en'"
    and "\<And>k. get_pass_energy_record (mp_inscription_id m) k en' = get_pass_energy_record (mp_inscription_id m) k en"
  shows "row_agrees h en' m \<longleftrightarrow> row_agrees h en m"
  using energy.find_last_cong [OF assms(1,2), of h "mp_inscription_id m"] assms(3)
  by (simp add: row_agrees_def)

lemma active_owner_unique_deactivate:
  assumes "active_owner_unique rows" and "distinct (map mp_inscription_id rows)" and "m \<in> set rows"
    and "mp_state m' \<noteq> Active \<or> mp_state m = Active \<and> mp_owner m' = mp_owner m"
    and "mp_inscription_id m' = mp_inscription_id m"
  shows "active_owner_unique (map (\<lambda>x. if x = m then m' else x) rows)"
proof (rule active_owner_uniqueI)
  show "distinct (map (\<lambda>x. if x = m then m' else x) rows)"
  proof -
    have "distinct (map mp_inscription_id (map (\<lambda>x. if x = m then m' else x) rows))"
      by (simp only: map_ids_replace [OF assms(5)] assms(2))
    then show ?thesis by (simp only: distinct_map [where f = mp_inscription_id])
  qed
  fix x y
  assume xy: "x \<in> set (map (\<lambda>x. if x = m then m' else x) rows)" "y \<in> set (map (\<lambda>x. if x = m then m' else x) rows)"
    and a: "mp_state x = Active" "mp_state y = Active" "mp_owner x = mp_owner y"
  from xy obtain x0 y0 where x0: "x0 \<in> set rows" "x = (if x0 = m then m' else x0)"
    and y0: "y0 \<in> set rows" "y = (if y0 = m then m' else y0)" by auto
  have "mp_state x0 = Active \<and> mp_owner x0 = mp_owner x" using x0 a(1) assms(4) by (auto split: if_splits)
  moreover have "mp_state y0 = Active \<and> mp_owner y0 = mp_owner y" using y0 a(2) assms(4) by (auto split: if_splits)
  ultimately have "x0 = y0" using active_owner_uniqueD [OF assms(1,2) x0(1) y0(1)] a(3) by simp
  with x0 y0 show "x = y" by simp
qed

text \<open>A state change away from active always succeeds on the row it was read from.\<close>

lemma update_state_succeeds:
  assumes ok: "pass_db_ok db" and m: "m \<in> set (db_passes db)" and st: "st \<noteq> Active"
  obtains db' where "update_state_at_height (mp_inscription_id m) st (mp_state m) h db = (Inr (), db')"
    and "db_passes db' = map (\<lambda>x. if x = m then m\<lparr>mp_state := st\<rparr> else x) (db_passes db)"
    and "pass_db_ok db'"
proof -
  have d: "distinct (map mp_inscription_id (db_passes db))" "active_owner_unique (db_passes db)"
    using ok by (simp_all add: pass_db_ok_def)
  have g: "get_pass_by_inscription_id (mp_inscription_id m) db = Some m"
    using m by (simp add: get_pass_Some [OF ok])
  let ?P = "\<lambda>x. mp_inscription_id x = mp_inscription_id m \<and> mp_state x = mp_state m"
  let ?rows = "map (\<lambda>x. if x = m then m\<lparr>mp_state := st\<rparr> else x) (db_passes db)"
  have rows: "map (\<lambda>x. if ?P x then x\<lparr>mp_state := st\<rparr> else x) (db_passes db) = ?rows"
    using map_update_row [OF d(1) m, of "\<lambda>x. mp_state x = mp_state m" "\<lambda>x. x\<lparr>mp_state := st\<rparr>"] by simp
  have u: "active_owner_unique ?rows"
    by (rule active_owner_unique_deactivate [OF d(2,1) m]) (use st in simp_all)
  have n: "length (filter ?P (db_passes db)) \<noteq> 0" using m by (auto simp: filter_empty_conv)
  have up: "update_state (mp_inscription_id m) st (mp_state m) db = (Inr (), db\<lparr>db_passes := ?rows\<rparr>)"
    unfolding update_state_def using u n
    by (simp add: update_passes_def Let_def rows bindR_def del: length_greater_0_conv)
  obtain db' where db': "update_state_at_height (mp_inscription_id m) st (mp_state m) h db = (Inr (), db')"
    "db_passes db' = ?rows"
    unfolding update_state_at_height_def require_pass_def
    using g up by (simp add: require_def append_pass_history_event_def)
  moreover have "pass_db_ok db'" using pass_write_ok [OF pass_write.state [OF db'(1)] ok] .
  ultimately show thesis by (rule that)
qed

lemma on_db_apply: "on_db m s = (case m (mg_db s) of (r, d) \<Rightarrow> (r, s\<lparr>mg_store := (mg_store s)\<lparr>ps_db := d\<rparr>\<rparr>))"
  by (simp add: on_db_def zoom_def)

lemma on_energy_apply: "on_energy m s = (case m (mg_energy s) of (r, e) \<Rightarrow> (r, s\<lparr>mg_energy := e\<rparr>))"
  by (simp add: on_energy_def zoom_def)

lemma push_apply: "push_block_mutation mu s =
    (Inr (), s\<lparr>mg_collector := map_option (collector_push mu) (mg_collector s)\<rparr>)"
  by (simp add: push_block_mutation_def)

lemma inv_replace:
  assumes inv: "mgr_inv_but X h s" and m: "m \<in> set (db_passes (mg_db s))"
    and db': "db_passes (mg_db s') = map (\<lambda>x. if x = m then m' else x) (db_passes (mg_db s))" "pass_db_ok (mg_db s')"
    and m': "mp_inscription_id m' = mp_inscription_id m" "mp_mint_block_height m' = mp_mint_block_height m"
    and en: "energy_db_ok (mg_energy s')"
      "\<And>j k. j \<noteq> mp_inscription_id m \<or> h < k \<Longrightarrow>
         get_pass_energy_record j k (mg_energy s') = get_pass_energy_record j k (mg_energy s)"
    and ag: "mp_inscription_id m \<notin> X \<Longrightarrow> row_agrees h (mg_energy s') m'"
  shows "mgr_inv_but X h s'"
  unfolding mgr_inv_but_def
proof (intro conjI ballI)
  have ok: "energy_db_ok (mg_energy s)" "pass_db_ok (mg_db s)" using inv by (simp_all add: mgr_inv_but_def)
  show "energy_upto h (mg_energy s')" using inv en(2) by (simp add: mgr_inv_but_def energy_upto_def)
  fix x assume "x \<in> set (db_passes (mg_db s'))"
  then obtain x0 where x0: "x0 \<in> set (db_passes (mg_db s))" "x = (if x0 = m then m' else x0)"
    by (auto simp: db'(1))
  show "mp_mint_block_height x \<le> h" using inv x0 m m'(2) by (auto simp: mgr_inv_but_def)
  show "mp_inscription_id x \<notin> X \<longrightarrow> row_agrees h (mg_energy s') x"
  proof (cases "x0 = m")
    case True with x0 ag m'(1) show ?thesis by simp
  next
    case False
    then have "mp_inscription_id x0 \<noteq> mp_inscription_id m"
      using x0(1) m ok(2) by (metis distinct_map inj_onD pass_db_ok_def)
    with en(2) have "row_agrees h (mg_energy s') x0 \<longleftrightarrow> row_agrees h (mg_energy s) x0"
      by (intro row_agrees_cong [OF ok(1) en(1)]) simp
    with False x0 inv show ?thesis by (simp add: mgr_inv_but_def)
  qed
qed (rule db'(2), rule en(1))

lemma get_pass_replace:
  assumes ok: "pass_db_ok db" and ok': "pass_db_ok db'" and m: "m \<in> set (db_passes db)"
    and "db_passes db' = map (\<lambda>x. if x = m then m' else x) (db_passes db)"
    and "mp_inscription_id m' = mp_inscription_id m"
  shows "get_pass_by_inscription_id i db' =
    (if i = mp_inscription_id m then Some m' else get_pass_by_inscription_id i db)"
proof (cases "i = mp_inscription_id m")
  case True
  then show ?thesis using assms by (auto simp: get_pass_Some [OF ok'])
next
  case False
  have "get_pass_by_inscription_id i db' = Some x \<longleftrightarrow> get_pass_by_inscription_id i db = Some x" for x
    using False assms(4,5) by (auto simp: get_pass_Some [OF ok] get_pass_Some [OF ok'])
  with False show ?thesis by (simp add: option_eqI_Some)
qed

subsection \<open>The steps of a mint\<close>

lemma dormant_last_pass_inv:
  assumes inv: "mgr_inv h s" and bp: "provider_ok bp" and h: "mi_mint_block_height mint_info = h"
  obtains r s' where "dormant_last_pass bp mint_info s = (r, s')" and "no_panic r"
    and "r = Inr () \<Longrightarrow> mgr_inv h s' \<and>
      get_last_active_mint_pass_by_owner (mi_mint_owner mint_info) (mg_db s') = None \<and>
      mp_inscription_id ` set (db_passes (mg_db s')) = mp_inscription_id ` set (db_passes (mg_db s)) \<and>
      (\<forall>i. get_pass_by_inscription_id i (mg_db s') = map_option (\<lambda>m.
         if mp_state m = Active \<and> mp_owner m = mi_mint_owner mint_info then m\<lparr>mp_state := Dormant\<rparr> else m)
         (get_pass_by_inscription_id i (mg_db s)))"
    and "provider_total bp \<Longrightarrow> r = Inr ()"
proof (cases "get_last_active_mint_pass_by_owner (mi_mint_owner mint_info) (mg_db s)")
  case None
  have ok: "pass_db_ok (mg_db s)" using inv by (simp add: mgr_inv_def mgr_inv_but_def)
  have "\<not> (mp_state m = Active \<and> mp_owner m = mi_mint_owner mint_info)"
    if "get_pass_by_inscription_id i (mg_db s) = Some m" for i m
    using that None active_by_owner_iff [OF ok, of "mi_mint_owner mint_info" m] by (auto simp: get_pass_Some [OF ok])
  then have "get_pass_by_inscription_id i (mg_db s) = map_option (\<lambda>m.
         if mp_state m = Active \<and> mp_owner m = mi_mint_owner mint_info then m\<lparr>mp_state := Dormant\<rparr> else m)
         (get_pass_by_inscription_id i (mg_db s))" for i
    by (cases "get_pass_by_inscription_id i (mg_db s)") auto
  moreover have "dormant_last_pass bp mint_info s = (Inr (), s)" using None by (simp add: dormant_last_pass_def)
  ultimately show thesis using that inv None by fastforce
next
  case (Some m)
  have ok: "pass_db_ok (mg_db s)" and eok: "energy_db_ok (mg_energy s)"
    using inv by (simp_all add: mgr_inv_def mgr_inv_but_def)
  have m: "m \<in> set (db_passes (mg_db s))" "mp_owner m = mi_mint_owner mint_info" "mp_state m = Active"
    using Some by (simp_all add: active_by_owner_iff [OF ok])
  have mh: "mp_mint_block_height m \<le> h" and "row_agrees h (mg_energy s) m"
    using inv m(1) by (auto simp: mgr_inv_def mgr_inv_but_def)
  then obtain x v where fl: "energy_find_last (mp_inscription_id m) h (mg_energy s) = Some (x, v)" "ev_state v = Active"
    using m(3) by (auto simp: row_agrees_def)
  obtain db' where u: "update_state_at_height (mp_inscription_id m) Dormant Active h (mg_db s) = (Inr (), db')"
    "db_passes db' = map (\<lambda>x. if x = m then m\<lparr>mp_state := Dormant\<rparr> else x) (db_passes (mg_db s))" "pass_db_ok db'"
    using update_state_succeeds [OF ok m(1), of Dormant h] m(3) by auto
  obtain r en' where d: "on_pass_dormant bp (mp_inscription_id m) h (mg_energy s) = (r, en')" "no_panic r"
    "energy_db_ok en'"
    "\<And>j k. j \<noteq> mp_inscription_id m \<or> h < k \<Longrightarrow> get_pass_energy_record j k en' = get_pass_energy_record j k (mg_energy s)"
    "r = Inr () \<Longrightarrow> \<exists>u. energy_find_last (mp_inscription_id m) h en' = Some (h, u) \<and> ev_state u = Dormant"
    "provider_total bp \<Longrightarrow> r = Inr ()"
    by (rule dormant_any [OF eok fl bp]) (rule that)
  let ?mu = "StateTransition (mp_inscription_id m) Active Dormant (mp_owner m) (mp_satpoint m)"
  let ?s' = "s\<lparr>mg_store := (mg_store s)\<lparr>ps_db := db'\<rparr>,
    mg_collector := map_option (collector_push ?mu) (mg_collector s), mg_energy := en'\<rparr>"
  have e: "dormant_last_pass bp mint_info s = (r, ?s')"
    using Some m mh h u(1) d(1)
    by (simp add: dormant_last_pass_def on_db_apply on_energy_apply push_apply)
  have fin: "mgr_inv h ?s' \<and> get_last_active_mint_pass_by_owner (mi_mint_owner mint_info) (mg_db ?s') = None \<and>
      mp_inscription_id ` set (db_passes (mg_db ?s')) = mp_inscription_id ` set (db_passes (mg_db s)) \<and>
      (\<forall>i. get_pass_by_inscription_id i (mg_db ?s') = map_option (\<lambda>m.
         if mp_state m = Active \<and> mp_owner m = mi_mint_owner mint_info then m\<lparr>mp_state := Dormant\<rparr> else m)
         (get_pass_by_inscription_id i (mg_db s)))" if r: "r = Inr ()"
  proof (intro conjI allI)
    show "mgr_inv h ?s'"
      unfolding mgr_inv_def
      by (rule inv_replace [OF inv [unfolded mgr_inv_def] m(1), where m' = "m\<lparr>mp_state := Dormant\<rparr>"])
        (use u d r in \<open>auto simp: row_agrees_def\<close>)
    have none: "\<not> (mp_state x = Active \<and> mp_owner x = mi_mint_owner mint_info)" if x: "x \<in> set (db_passes db')" for x
    proof -
      from x obtain x0 where x0: "x0 \<in> set (db_passes (mg_db s))"
        "x = (if x0 = m then m\<lparr>mp_state := Dormant\<rparr> else x0)" by (auto simp: u(2))
      show ?thesis
      proof (cases "x0 = m")
        case False
        then show ?thesis
          using x0 m active_owner_uniqueD [of "db_passes (mg_db s)" x0 m] ok by (auto simp: pass_db_ok_def)
      qed (use x0 in simp)
    qed
    then show "get_last_active_mint_pass_by_owner (mi_mint_owner mint_info) (mg_db ?s') = None"
      using active_by_owner_iff [OF u(3)]
      by (cases "get_last_active_mint_pass_by_owner (mi_mint_owner mint_info) db'") auto
    have "map mp_inscription_id (db_passes db') = map mp_inscription_id (db_passes (mg_db s))"
      unfolding u(2) by (rule map_ids_replace) simp
    then have "set (map mp_inscription_id (db_passes db')) = set (map mp_inscription_id (db_passes (mg_db s)))"
      by (rule arg_cong)
    then show "mp_inscription_id ` set (db_passes (mg_db ?s')) = mp_inscription_id ` set (db_passes (mg_db s))"
      by simp
    fix i
    have keep: "\<not> (mp_state x = Active \<and> mp_owner x = mi_mint_owner mint_info)"
      if "get_pass_by_inscription_id i (mg_db s) = Some x" "i \<noteq> mp_inscription_id m" for x
      using that m active_owner_uniqueD [of "db_passes (mg_db s)" x m] ok
      by (auto simp: get_pass_Some [OF ok] pass_db_ok_def)
    have "get_pass_by_inscription_id (mp_inscription_id m) (mg_db s) = Some m"
      using m(1) by (simp add: get_pass_Some [OF ok])
    then show "get_pass_by_inscription_id i (mg_db ?s') = map_option (\<lambda>m.
         if mp_state m = Active \<and> mp_owner m = mi_mint_owner mint_info then m\<lparr>mp_state := Dormant\<rparr> else m)
         (get_pass_by_inscription_id i (mg_db s))"
      using get_pass_replace [OF ok u(3) m(1) u(2)] keep m(2,3)
      by (cases "get_pass_by_inscription_id i (mg_db s)") auto
  qed
  show thesis by (rule that [OF e d(2) fin d(6)])
qed

definition pass_of :: "pass_mgr \<Rightarrow> InscriptionId \<Rightarrow> MinerPassInfo option" where
  "pass_of s i = get_pass_by_inscription_id i (mg_db s)"

definition energy_of :: "pass_mgr \<Rightarrow> u32 \<Rightarrow> InscriptionId \<Rightarrow> PassEnergyResult option" where
  "energy_of s h i = (case get_pass_energy i h (mg_energy s) of Inr e \<Rightarrow> e | Inl _ \<Rightarrow> None)"

lemma get_pass_energy_frame:
  assumes "energy_db_ok en" and "energy_db_ok en'"
    and "\<And>k. get_pass_energy_record i k en' = get_pass_energy_record i k en"
  shows "get_pass_energy i h en' = get_pass_energy i h en"
  using energy.find_last_cong [OF assms(1,2), of h i] assms(3)
  by (simp add: get_pass_energy_op [OF assms(1)] get_pass_energy_op [OF assms(2)])

lemma consume_pass_ok:
  assumes inv: "mgr_inv_but X h s" and p: "pass_of s i = Some m" and st: "mp_state m = Dormant" and X: "i \<notin> X"
  obtains e s' where "consume_pass i h s = (Inr (pe_energy e), s')" and "energy_of s h i = Some e"
    and "pe_state e = Dormant" and "mgr_inv_but X h s'"
    and "\<And>j. pass_of s' j = (if j = i then Some (m\<lparr>mp_state := Consumed\<rparr>) else pass_of s j)"
    and "\<And>j. energy_of s' h j = (if j = i then Some \<lparr>pe_energy = 0, pe_state = Consumed\<rparr> else energy_of s h j)"
proof -
  have ok: "pass_db_ok (mg_db s)" and eok: "energy_db_ok (mg_energy s)" and up: "energy_upto h (mg_energy s)"
    using inv by (simp_all add: mgr_inv_but_def)
  have m: "m \<in> set (db_passes (mg_db s))" "mp_inscription_id m = i"
    using p by (simp_all add: pass_of_def get_pass_Some [OF ok])
  have "row_agrees h (mg_energy s) m" using inv m X by (auto simp: mgr_inv_but_def)
  then obtain x v where fl: "energy_find_last i h (mg_energy s) = Some (x, v)" "ev_state v = Dormant"
    using st m(2) by (auto simp: row_agrees_def)
  let ?e = "\<lparr>pe_energy = ev_energy v, pe_state = Dormant\<rparr>"
  have ge: "get_pass_energy i h (mg_energy s) = Inr (Some ?e)"
    using fl by (simp add: get_pass_energy_op [OF eok] project_incremental)
  obtain db' where u: "update_state_at_height i Consumed Dormant h (mg_db s) = (Inr (), db')"
    "db_passes db' = map (\<lambda>x. if x = m then m\<lparr>mp_state := Consumed\<rparr> else x) (db_passes (mg_db s))" "pass_db_ok db'"
    using update_state_succeeds [OF ok m(1), of Consumed h] st m(2) by auto
  let ?c = "\<lparr>ev_state = Consumed, ev_active_block_height = h, ev_owner_address = mp_owner m,
     ev_owner_balance = 0, ev_owner_delta = 0, ev_energy = 0\<rparr>"
  let ?en = "energy_put i h ?c (mg_energy s)"
  have c: "on_pass_consumed i (mp_owner m) h (mg_energy s) = (Inr (), ?en)"
    by (simp add: on_pass_consumed_def insert_op [OF eok] value_of_record_def)
  let ?mu = "StateTransition i Dormant Consumed (mp_owner m) (mp_satpoint m)"
  let ?s' = "s\<lparr>mg_store := (mg_store s)\<lparr>ps_db := db'\<rparr>,
    mg_collector := map_option (collector_push ?mu) (mg_collector s), mg_energy := ?en\<rparr>"
  have run: "consume_pass i h s = (Inr (pe_energy ?e), ?s')"
    using p st u(1) ge c
    by (simp add: consume_pass_def pass_of_def on_db_apply on_energy_apply push_apply)
  have fr: "get_pass_energy_record j k ?en = get_pass_energy_record j k (mg_energy s)" if "j \<noteq> i \<or> h < k" for j k
    using that by (auto simp: energy.get_put [OF eok])
  have inv': "mgr_inv_but X h ?s'"
    by (rule inv_replace [OF inv m(1), where m' = "m\<lparr>mp_state := Consumed\<rparr>"])
      (use u m(2) fr energy.ok_put [OF eok] in \<open>auto simp: row_agrees_def\<close>)
  have none: "\<forall>k. h < k \<longrightarrow> get_pass_energy_record i k (mg_energy s) = None"
    using up by (simp add: energy_upto_def)
  have pass: "pass_of ?s' j = (if j = i then Some (m\<lparr>mp_state := Consumed\<rparr>) else pass_of s j)" for j
    using get_pass_replace [OF ok u(3) m(1) u(2)] m(2) by (simp add: pass_of_def)
  have en: "energy_of ?s' h j = (if j = i then Some \<lparr>pe_energy = 0, pe_state = Consumed\<rparr> else energy_of s h j)" for j
    using put_frozen [OF eok none, of ?c h] get_pass_energy_frame [OF eok energy.ok_put [OF eok, of i h ?c], of j h] fr
    by (simp add: energy_of_def)
  show thesis by (rule that [OF run _ _ inv' pass en]) (simp_all add: energy_of_def ge)
qed

definition consumable :: "pass_mgr \<Rightarrow> USDBScriptHash \<Rightarrow> InscriptionId \<Rightarrow> bool" where
  "consumable s own i \<longleftrightarrow> (\<exists>m. pass_of s i = Some m \<and> mp_owner m = own \<and> mp_state m = Dormant)"

definition energy_nat :: "pass_mgr \<Rightarrow> u32 \<Rightarrow> InscriptionId \<Rightarrow> nat" where
  "energy_nat s h i = (case energy_of s h i of Some e \<Rightarrow> unat (pe_energy e) | None \<Rightarrow> 0)"

lemma inherit_loop:
  assumes "mgr_inv_but X h s" and "mi_mint_block_height mint_info = h" and "X \<inter> set prev = {}"
    and "\<forall>i \<in> set prev. \<forall>m. pass_of s i = Some m \<and> mp_owner m = mi_mint_owner mint_info \<longrightarrow> mp_state m \<noteq> Active"
  defines "C \<equiv> {i \<in> set prev. consumable s (mi_mint_owner mint_info) i}"
  shows "\<exists>e s'. foldR (inherit_from mint_info) prev acc s = (Inr e, s') \<and>
    unat e = min (unat acc + (\<Sum>i \<in> C. energy_nat s h i)) (2 ^ 64 - 1) \<and> mgr_inv_but X h s' \<and>
    (\<forall>j. pass_of s' j = (if j \<in> C then map_option (\<lambda>m. m\<lparr>mp_state := Consumed\<rparr>) (pass_of s j) else pass_of s j)) \<and>
    (\<forall>j. energy_of s' h j = (if j \<in> C then Some \<lparr>pe_energy = 0, pe_state = Consumed\<rparr> else energy_of s h j))"
  using assms(1,3,4) unfolding C_def
proof (induction prev arbitrary: s acc)
  case Nil
  then show ?case using unat_le_max [of acc] by simp
next
  case (Cons p ps)
  let ?own = "mi_mint_owner mint_info"
  show ?case
  proof (cases "consumable s ?own p")
    case False
    have skip: "inherit_from mint_info p acc s = (Inr acc, s)"
      using False Cons.prems(3) unfolding inherit_from_def consumable_def pass_of_def
      by (cases "get_pass_by_inscription_id p (mg_db s)") auto
    have "{i \<in> set (p # ps). consumable s ?own i} = {i \<in> set ps. consumable s ?own i}" using False by auto
    with Cons.IH [of s acc] Cons.prems skip show ?thesis by simp
  next
    case True
    then obtain m where m: "pass_of s p = Some m" "mp_owner m = ?own" "mp_state m = Dormant"
      by (auto simp: consumable_def)
    have pX: "p \<notin> X" using Cons.prems(2) by auto
    obtain e s1 where c: "consume_pass p h s = (Inr (pe_energy e), s1)" "energy_of s h p = Some e"
      "mgr_inv_but X h s1"
      and ps1: "\<And>j. pass_of s1 j = (if j = p then Some (m\<lparr>mp_state := Consumed\<rparr>) else pass_of s j)"
      and en1: "\<And>j. energy_of s1 h j = (if j = p then Some \<lparr>pe_energy = 0, pe_state = Consumed\<rparr> else energy_of s h j)"
      by (rule consume_pass_ok [OF Cons.prems(1) m(1,3) pX]) (rule that)
    have step: "inherit_from mint_info p acc s = (Inr (sat_add acc (pe_energy e)), s1)"
      using m c(1) assms(2) by (simp add: inherit_from_def pass_of_def)
    let ?C = "{i \<in> set (p # ps). consumable s ?own i}"
    let ?C1 = "{i \<in> set ps. consumable s1 ?own i}"
    have C: "?C = insert p ?C1" "p \<notin> ?C1"
      using True ps1 by (auto simp: consumable_def split: if_splits)
    have en: "energy_nat s1 h i = energy_nat s h i" if "i \<in> ?C1" for i
      using that C(2) en1 by (auto simp: energy_nat_def)
    have sum: "(\<Sum>i \<in> ?C. energy_nat s h i) = unat (pe_energy e) + (\<Sum>i \<in> ?C1. energy_nat s1 h i)"
    proof -
      have "(\<Sum>i \<in> ?C1. energy_nat s h i) = (\<Sum>i \<in> ?C1. energy_nat s1 h i)"
        by (rule sum.cong) (simp_all only: en)
      moreover have "energy_nat s h p = unat (pe_energy e)" using c(2) by (simp add: energy_nat_def)
      ultimately show ?thesis unfolding C(1) using C(2) by simp
    qed
    have disj: "X \<inter> set ps = {}" using Cons.prems(2) by auto
    have noact: "\<forall>i \<in> set ps. \<forall>m. pass_of s1 i = Some m \<and> mp_owner m = ?own \<longrightarrow> mp_state m \<noteq> Active"
      using Cons.prems(3) by (auto simp: ps1)
    obtain e2 s2 where r: "foldR (inherit_from mint_info) ps (sat_add acc (pe_energy e)) s1 = (Inr e2, s2)"
      "unat e2 = min (unat (sat_add acc (pe_energy e)) + (\<Sum>i \<in> ?C1. energy_nat s1 h i)) (2 ^ 64 - 1)"
      "mgr_inv_but X h s2"
      "\<forall>j. pass_of s2 j = (if j \<in> ?C1 then map_option (\<lambda>m. m\<lparr>mp_state := Consumed\<rparr>) (pass_of s1 j) else pass_of s1 j)"
      "\<forall>j. energy_of s2 h j = (if j \<in> ?C1 then Some \<lparr>pe_energy = 0, pe_state = Consumed\<rparr> else energy_of s1 h j)"
      using Cons.IH [OF c(3) disj noact, of "sat_add acc (pe_energy e)"] by (elim exE conjE) (rule that)
    have u: "unat e2 = min (unat acc + (\<Sum>i \<in> ?C. energy_nat s h i)) (2 ^ 64 - 1)"
      unfolding r(2) sum by (simp add: unat_sat_add)
    define S where "S = ?C1"
    note S = C [folded S_def] r(4,5) [folded S_def]
    have "\<forall>j. pass_of s2 j = (if j \<in> ?C then map_option (\<lambda>m. m\<lparr>mp_state := Consumed\<rparr>) (pass_of s j) else pass_of s j)"
      unfolding S(1) using S(2) by (auto simp: S(3) ps1 m(1))
    moreover have "\<forall>j. energy_of s2 h j = (if j \<in> ?C then Some \<lparr>pe_energy = 0, pe_state = Consumed\<rparr> else energy_of s h j)"
      unfolding S(1) using S(2) by (auto simp: S(4) en1)
    moreover have "foldR (inherit_from mint_info) (p # ps) acc s = (Inr e2, s2)" using step r(1) by simp
    ultimately show ?thesis using r(3) u by blast
  qed
qed

end
