(* ===== verification/Pass_Lifecycle.thy ===== *)
theory Pass_Lifecycle
  imports Pass_Manager
begin

text \<open>
  What the handlers of \<open>usdb-indexer/src/index/pass.rs\<close> do to the passes and their energy, given the
  agreement of the pass database with the energy store: no assertion of the code can fail, and the
  agreement is kept.
\<close>

lemma mgr_invD:
  assumes "mgr_inv h s"
  shows "pass_db_ok (mg_db s)" "energy_db_ok (mg_energy s)" "energy_upto h (mg_energy s)"
    and "pass_of s i = Some m \<Longrightarrow> m \<in> set (db_passes (mg_db s)) \<and> mp_inscription_id m = i \<and>
      row_agrees h (mg_energy s) m"
proof -
  show ok: "pass_db_ok (mg_db s)" and "energy_db_ok (mg_energy s)" "energy_upto h (mg_energy s)"
    using assms by (simp_all add: mgr_inv_def mgr_inv_but_def)
  show "pass_of s i = Some m \<Longrightarrow> m \<in> set (db_passes (mg_db s)) \<and> mp_inscription_id m = i \<and>
      row_agrees h (mg_energy s) m"
    using assms by (simp add: pass_of_def get_pass_Some [OF ok] mgr_inv_def mgr_inv_but_def)
qed

section \<open>Mint\<close>

lemma add_mint_ok:
  assumes ok: "pass_db_ok db" and new: "mp_inscription_id info \<notin> mp_inscription_id ` set (db_passes db)"
    and noact: "get_last_active_mint_pass_by_owner (mp_owner info) db = None"
    and info: "mp_state info = Active" "mp_owner info = mp_mint_owner info" "mp_invalid_code info = None"
      "mp_invalid_reason info = None" "mp_mint_block_height info = h"
  obtains db' where "add_new_mint_pass_at_height info h db = (Inr (), db')"
    and "db_passes db' = db_passes db @ [info]" and "pass_db_ok db'"
proof -
  have "\<not> (mp_state x = Active \<and> mp_owner x = mp_owner info)" if "x \<in> set (db_passes db)" for x
    using that noact active_by_owner_iff [OF ok, of "mp_owner info" x] by auto
  then have "active_owner_unique (db_passes db @ [info])"
    using ok info(1) by (fastforce simp: pass_db_ok_def active_owner_unique_def)
  then obtain db' where db': "add_new_mint_pass_at_height info h db = (Inr (), db')"
    "db_passes db' = db_passes db @ [info]"
    using new info by (simp add: add_new_mint_pass_at_height_def add_new_mint_pass_def insert_pass_record_def
        append_pass_history_event_def bindR_def)
  moreover have "pass_db_ok db'" using pass_write_ok [OF pass_write.mint [OF db'(1)] ok] info by simp
  ultimately show thesis by (rule that)
qed

lemma add_mint_dup:
  assumes "mp_inscription_id info \<in> mp_inscription_id ` set (db_passes db)"
    and "mp_state info = Active" "mp_owner info = mp_mint_owner info" "mp_invalid_code info = None"
      "mp_invalid_reason info = None"
  shows "add_new_mint_pass_at_height info h db =
    (Inl (Err ''Failed to insert new miner pass into database''), db)"
  using assms by (simp add: add_new_mint_pass_at_height_def add_new_mint_pass_def insert_pass_record_def bindR_def)

lemma get_pass_append:
  assumes "pass_db_ok db" and "pass_db_ok db'" and "db_passes db' = db_passes db @ [info]"
    and "mp_inscription_id info \<notin> mp_inscription_id ` set (db_passes db)"
  shows "get_pass_by_inscription_id i db' =
    (if i = mp_inscription_id info then Some info else get_pass_by_inscription_id i db)"
proof -
  have new: "mp_inscription_id x \<noteq> mp_inscription_id info" if "x \<in> set (db_passes db)" for x
    using that assms(4) by (metis imageI)
  have "get_pass_by_inscription_id i db' = Some x \<longleftrightarrow>
      (if i = mp_inscription_id info then Some info else get_pass_by_inscription_id i db) = Some x" for x
    using assms(3) new [of x] by (auto simp: get_pass_Some [OF assms(1)] get_pass_Some [OF assms(2)])
  then show ?thesis by (rule option_eqI_Some)
qed

lemma inv_insert:
  assumes inv: "mgr_inv h s" and db': "db_passes (mg_db s') = db_passes (mg_db s) @ [info]" "pass_db_ok (mg_db s')"
    and en: "mg_energy s' = mg_energy s" and hh: "mp_mint_block_height info \<le> h"
  shows "mgr_inv_but {mp_inscription_id info} h s'"
  using assms by (auto simp: mgr_inv_def mgr_inv_but_def)

text \<open>The last step of a mint: the energy record of the new pass.\<close>

lemma new_pass_any:
  assumes ok: "energy_db_ok en" and bp: "provider_ok bp"
  obtains (err) e where "on_new_pass bp i own h inh en = (Inl e, en)" and "no_panic (Inl e :: unit result)"
      "\<not> provider_total bp"
  | (ok) v where "on_new_pass bp i own h inh en = (Inr (), energy_put i h v en)" and "ev_state v = Active"
    and "ev_owner_address v = own" and "ev_energy v = inh" and "ev_active_block_height v = h"
proof (cases "get_balance_at_height bp own h")
  case (Inl e)
  have "no_panic (Inl e :: unit result)"
    using Inl bp unfolding get_balance_at_height_def provider_ok_def no_panic_def
    by (fastforce split: sum.splits list.splits if_splits)
  moreover have "\<not> provider_total bp"
  proof
    assume "provider_total bp"
    then obtain bs where "bp_get_balance_at_height bp own h = Inr bs" unfolding provider_total_def by blast
    moreover from this have "length bs \<le> 1" using bp by (simp add: provider_ok_def)
    ultimately show False using Inl by (simp add: get_balance_at_height_def split: list.splits)
  qed
  ultimately show ?thesis using Inl err by (simp add: on_new_pass_def)
next
  case (Inr b)
  show ?thesis
    by (rule ok [of "\<lparr>ev_state = Active, ev_active_block_height = h, ev_owner_address = own,
       ev_owner_balance = bal_balance b, ev_owner_delta = bal_delta b, ev_energy = inh\<rparr>"])
      (simp_all add: on_new_pass_def Inr insert_op [OF assms(1)] value_of_record_def)
qed

definition inheritable :: "pass_mgr \<Rightarrow> PassMintInscriptionInfo \<Rightarrow> InscriptionId \<Rightarrow> bool" where
  "inheritable s mint_info i \<longleftrightarrow> i \<in> set (mi_prev mint_info) \<and>
     (case pass_of s i of None \<Rightarrow> False
      | Some m \<Rightarrow> mp_owner m = mi_mint_owner mint_info \<and> (mp_state m = Active \<or> mp_state m = Dormant))"

text \<open>The pass of \<open>i\<close> after the mint, from the pass before it.\<close>

definition pass_after_mint :: "pass_mgr \<Rightarrow> PassMintInscriptionInfo \<Rightarrow> InscriptionId \<Rightarrow> MinerPassInfo option" where
  "pass_after_mint s mint_info i =
     (if i = mi_inscription_id mint_info then Some (new_pass_info mint_info)
      else map_option (\<lambda>m.
        if inheritable s mint_info i then m\<lparr>mp_state := Consumed\<rparr>
        else if mp_state m = Active \<and> mp_owner m = mi_mint_owner mint_info then m\<lparr>mp_state := Dormant\<rparr>
        else m) (pass_of s i))"

lemma new_pass_info_simps [simp]:
  "mp_inscription_id (new_pass_info mi) = mi_inscription_id mi" "mp_state (new_pass_info mi) = Active"
  "mp_owner (new_pass_info mi) = mi_mint_owner mi" "mp_mint_owner (new_pass_info mi) = mi_mint_owner mi"
  "mp_invalid_code (new_pass_info mi) = None" "mp_invalid_reason (new_pass_info mi) = None"
  "mp_mint_block_height (new_pass_info mi) = mi_mint_block_height mi"
  by (simp_all add: new_pass_info_def)

lemma inv_new_energy:
  assumes inv: "mgr_inv_but {i} h s" and p: "pass_of s i = Some m" and st: "mp_state m = Active"
    and v: "ev_state v = Active" "ev_owner_address v = mp_owner m"
    and s': "mg_energy s' = energy_put i h v (mg_energy s)" "mg_db s' = mg_db s"
  shows "mgr_inv h s'"
proof -
  have ok: "pass_db_ok (mg_db s)" and eok: "energy_db_ok (mg_energy s)" and up: "energy_upto h (mg_energy s)"
    using inv by (simp_all add: mgr_inv_but_def)
  have m: "m \<in> set (db_passes (mg_db s))" "mp_inscription_id m = i"
    using p by (simp_all add: pass_of_def get_pass_Some [OF ok])
  have "row_agrees h (mg_energy s') x" if x: "x \<in> set (db_passes (mg_db s))" for x
  proof (cases "mp_inscription_id x = i")
    case True
    then have "x = m" using x m ok by (metis distinct_map inj_onD pass_db_ok_def)
    then show ?thesis
      using st v m(2) energy.find_last_put_here [OF eok] by (simp add: row_agrees_def s'(1))
  next
    case False
    then have "row_agrees h (mg_energy s') x \<longleftrightarrow> row_agrees h (mg_energy s) x"
      unfolding s'(1) by (intro row_agrees_cong [OF eok energy.ok_put [OF eok]]) (simp add: energy.get_put [OF eok])
    with False x inv show ?thesis by (simp add: mgr_inv_but_def)
  qed
  moreover have "energy_upto h (mg_energy s')"
    using up by (auto simp: energy_upto_def s'(1) energy.get_put [OF eok])
  ultimately show ?thesis
    using inv energy.ok_put [OF eok] by (simp add: mgr_inv_def mgr_inv_but_def s')
qed

lemma mint_after_dormant:
  assumes inv: "mgr_inv h s1" and bp: "provider_ok bp" and h: "mi_mint_block_height mi = h"
    and noact: "get_last_active_mint_pass_by_owner (mi_mint_owner mi) (mg_db s1) = None"
    and new: "mi_inscription_id mi \<notin> mp_inscription_id ` set (db_passes (mg_db s1))"
    and prev: "mi_inscription_id mi \<notin> set (mi_prev mi)"
    and run: "on_mint_pass bp mi s = (r, s')" "dormant_last_pass bp mi s = (Inr (), s1)"
  defines "C \<equiv> {i \<in> set (mi_prev mi). consumable s1 (mi_mint_owner mi) i}"
  shows "no_panic r \<and> (provider_total bp \<longrightarrow> r = Inr ()) \<and> (r = Inr () \<longrightarrow> mgr_inv h s' \<and>
    (\<forall>i. pass_of s' i = (if i = mi_inscription_id mi then Some (new_pass_info mi)
       else if i \<in> C then map_option (\<lambda>m. m\<lparr>mp_state := Consumed\<rparr>) (pass_of s1 i) else pass_of s1 i)) \<and>
    (\<exists>inh. energy_of s' h (mi_inscription_id mi) = Some \<lparr>pe_energy = inh, pe_state = Active\<rparr> \<and>
       unat inh = min (\<Sum>i \<in> C. energy_nat s1 h i) (2 ^ 64 - 1)) \<and>
    (\<forall>i. i \<noteq> mi_inscription_id mi \<longrightarrow> energy_of s' h i =
       (if i \<in> C then Some \<lparr>pe_energy = 0, pe_state = Consumed\<rparr> else energy_of s1 h i)))"
proof -
  let ?id = "mi_inscription_id mi" and ?own = "mi_mint_owner mi" and ?info = "new_pass_info mi"
  have ok1: "pass_db_ok (mg_db s1)" using inv by (simp add: mgr_inv_def mgr_inv_but_def)
  obtain db2 where add: "add_new_mint_pass_at_height ?info h (mg_db s1) = (Inr (), db2)"
    "db_passes db2 = db_passes (mg_db s1) @ [?info]" "pass_db_ok db2"
    by (rule add_mint_ok [OF ok1, of ?info h]) (use new noact h in simp_all)
  define mu where "mu = Mint (mp_inscription_id ?info) (mp_inscription_number ?info)
       (mp_mint_owner ?info) (mp_satpoint ?info) (mp_eth_main ?info) (mp_eth_collab ?info) (mp_prev ?info)"
  define s2 where "s2 = s1\<lparr>mg_store := (mg_store s1)\<lparr>ps_db := db2\<rparr>,
    mg_collector := map_option (collector_push mu) (mg_collector s1)\<rparr>"
  have inv2: "mgr_inv_but {?id} h s2"
    using inv_insert [OF inv, of s2 ?info] add h by (simp add: s2_def)
  have p2: "pass_of s2 i = (if i = ?id then Some ?info else pass_of s1 i)" for i
    using get_pass_append [OF ok1 add(3,2), of i] new by (simp add: pass_of_def s2_def)
  have e2: "energy_of s2 h i = energy_of s1 h i" for i by (simp add: energy_of_def s2_def)
  have C: "{i \<in> set (mi_prev mi). consumable s2 ?own i} = C"
    using prev by (auto simp: C_def consumable_def p2)
  have na: "\<forall>i \<in> set (mi_prev mi). \<forall>m. pass_of s2 i = Some m \<and> mp_owner m = ?own \<longrightarrow> mp_state m \<noteq> Active"
  proof (intro ballI allI impI notI)
    fix i m
    assume a: "i \<in> set (mi_prev mi)" "pass_of s2 i = Some m \<and> mp_owner m = ?own" "mp_state m = Active"
    then have "pass_of s1 i = Some m" using prev by (auto simp: p2 split: if_splits)
    with a noact active_by_owner_iff [OF ok1, of ?own m] show False by (simp add: pass_of_def get_pass_Some [OF ok1])
  qed
  have disj: "{?id} \<inter> set (mi_prev mi) = {}" using prev by simp
  obtain inh s3 where f: "foldR (inherit_from mi) (mi_prev mi) 0 s2 = (Inr inh, s3)"
    "unat inh = min (unat (0 :: u64) + (\<Sum>i \<in> C. energy_nat s2 h i)) (2 ^ 64 - 1)" "mgr_inv_but {?id} h s3"
    "\<forall>j. pass_of s3 j = (if j \<in> C then map_option (\<lambda>m. m\<lparr>mp_state := Consumed\<rparr>) (pass_of s2 j) else pass_of s2 j)"
    "\<forall>j. energy_of s3 h j = (if j \<in> C then Some \<lparr>pe_energy = 0, pe_state = Consumed\<rparr> else energy_of s2 h j)"
    using inherit_loop [OF inv2 h disj na, of 0, unfolded C] by (elim exE conjE) (rule that)
  have e: "on_mint_pass bp mi s = on_energy (on_new_pass bp ?id ?own h inh) s3"
    using run(2) add(1) f(1) h
    by (simp add: on_mint_pass_def bindR_def on_db_apply push_apply s2_def mu_def Let_def)
  have eok: "energy_db_ok (mg_energy s3)" using f(3) by (simp add: mgr_inv_but_def)
  have idC: "?id \<notin> C" using prev by (simp add: C_def)
  show ?thesis
  proof (cases rule: new_pass_any [OF eok bp, of ?id ?own h inh])
    case (1 err)
    then have "r = Inl err" using run(1) e by (simp add: on_energy_apply)
    with 1(2,3) show ?thesis by simp
  next
    case (2 v)
    then have r: "r = Inr ()" "s' = s3\<lparr>mg_energy := energy_put ?id h v (mg_energy s3)\<rparr>"
      using run(1) e by (simp_all add: on_energy_apply)
    have "pass_of s3 ?id = Some ?info" using f(4) idC p2 by simp
    then have "mgr_inv h s'" using inv_new_energy [OF f(3), of ?info v s'] 2 r by simp
    moreover have "\<forall>i. pass_of s' i = (if i = ?id then Some ?info
       else if i \<in> C then map_option (\<lambda>m. m\<lparr>mp_state := Consumed\<rparr>) (pass_of s1 i) else pass_of s1 i)"
      using f(4) idC p2 r(2) by (simp add: pass_of_def)
    moreover have "energy_of s' h ?id = Some \<lparr>pe_energy = inh, pe_state = Active\<rparr>"
      using 2 r(2) by (simp add: energy_of_def get_pass_energy_op [OF energy.ok_put [OF eok]]
          energy.find_last_put_here [OF eok] project_incremental)
    moreover have "unat inh = min (\<Sum>i \<in> C. energy_nat s1 h i) (2 ^ 64 - 1)"
      using f(2) by (simp add: energy_nat_def e2)
    moreover have "energy_of s' h i = energy_of s3 h i" if "i \<noteq> ?id" for i
      using that r(2) get_pass_energy_frame [OF eok energy.ok_put [OF eok], of i ?id h v h]
      by (simp add: energy_of_def energy.get_put [OF eok])
    ultimately show ?thesis using r(1) f(5) e2 by simp
  qed
qed

lemma mint_pass_all:
  assumes "mgr_inv h s" and "provider_ok bp" and "mi_mint_block_height mi = h"
    and "mi_inscription_id mi \<notin> set (mi_prev mi)" and "on_mint_pass bp mi s = (r, s')"
    and "s1 = snd (dormant_last_pass bp mi s)"
  shows "no_panic r \<and> (provider_total bp \<and> pass_of s (mi_inscription_id mi) = None \<longrightarrow> r = Inr ()) \<and>
    (r = Inr () \<longrightarrow> mgr_inv h s' \<and> (\<forall>i. pass_of s' i = pass_after_mint s mi i) \<and>
    (\<forall>i. inheritable s mi i \<longrightarrow> energy_of s' h i = Some \<lparr>pe_energy = 0, pe_state = Consumed\<rparr>) \<and>
    (\<exists>inh. energy_of s' h (mi_inscription_id mi) = Some \<lparr>pe_energy = inh, pe_state = Active\<rparr> \<and>
       unat inh = min (\<Sum>i | inheritable s mi i. energy_nat s1 h i) (2 ^ 64 - 1)))"
proof -
  obtain r1 s2 where d: "dormant_last_pass bp mi s = (r1, s2)" "no_panic r1"
    and k: "r1 = Inr () \<Longrightarrow> mgr_inv h s2 \<and>
      get_last_active_mint_pass_by_owner (mi_mint_owner mi) (mg_db s2) = None \<and>
      mp_inscription_id ` set (db_passes (mg_db s2)) = mp_inscription_id ` set (db_passes (mg_db s)) \<and>
      (\<forall>i. get_pass_by_inscription_id i (mg_db s2) = map_option (\<lambda>m.
         if mp_state m = Active \<and> mp_owner m = mi_mint_owner mi then m\<lparr>mp_state := Dormant\<rparr> else m)
         (get_pass_by_inscription_id i (mg_db s)))"
    and tot: "provider_total bp \<Longrightarrow> r1 = Inr ()"
    by (rule dormant_last_pass_inv [OF assms(1-3)]) (rule that)
  have s1: "s1 = s2" using assms(6) d(1) by simp
  show ?thesis
  proof (cases r1)
    case (Inl e)
    then have "r = Inl e" using assms(5) d(1) by (simp add: on_mint_pass_def bindR_def)
    moreover have "no_panic (Inl e :: unit result)" using d(2) Inl by (cases e) simp_all
    ultimately show ?thesis using tot Inl by auto
  next
    case (Inr u)
    then have d0: "dormant_last_pass bp mi s = (Inr (), s1)" using d(1) s1 by simp
    have k1: "mgr_inv h s1" "get_last_active_mint_pass_by_owner (mi_mint_owner mi) (mg_db s1) = None"
      "\<And>i. pass_of s1 i = map_option (\<lambda>m.
         if mp_state m = Active \<and> mp_owner m = mi_mint_owner mi then m\<lparr>mp_state := Dormant\<rparr> else m) (pass_of s i)"
      using k Inr s1 by (simp_all add: pass_of_def)
    have C: "{i \<in> set (mi_prev mi). consumable s1 (mi_mint_owner mi) i} = {i. inheritable s mi i}"
    proof (rule set_eqI)
      fix i
      show "i \<in> {i \<in> set (mi_prev mi). consumable s1 (mi_mint_owner mi) i} \<longleftrightarrow> i \<in> {i. inheritable s mi i}"
        by (cases "pass_of s i") (auto simp: consumable_def inheritable_def k1(3))
    qed
    show ?thesis
    proof (cases "mi_inscription_id mi \<in> mp_inscription_id ` set (db_passes (mg_db s1))")
      case True
      then have "add_new_mint_pass_at_height (new_pass_info mi) h (mg_db s1) =
          (Inl (Err ''Failed to insert new miner pass into database''), mg_db s1)"
        by (intro add_mint_dup) simp_all
      then have "r = Inl (Err ''Failed to insert new miner pass into database'')"
        using assms(3,5) d0 by (simp add: on_mint_pass_def bindR_def on_db_apply Let_def)
      moreover have "pass_of s (mi_inscription_id mi) \<noteq> None"
      proof -
        have "pass_of s1 (mi_inscription_id mi) \<noteq> None"
          using True get_pass_Some [OF mgr_invD(1) [OF k1(1)]] by (fastforce simp: pass_of_def)
        then show ?thesis by (simp add: k1(3))
      qed
      ultimately show ?thesis by simp
    next
      case False
      have ii: "\<not> inheritable s mi (mi_inscription_id mi)" using assms(4) by (simp add: inheritable_def)
      note m = mint_after_dormant [OF k1(1) assms(2,3) k1(2) False assms(4,5) d0, unfolded C]
      have pa: "pass_after_mint s mi i = (if i = mi_inscription_id mi then Some (new_pass_info mi)
         else if i \<in> {i. inheritable s mi i} then map_option (\<lambda>m. m\<lparr>mp_state := Consumed\<rparr>) (pass_of s1 i)
         else pass_of s1 i)" for i
        by (auto simp: pass_after_mint_def k1(3) option.map_comp o_def intro!: option.map_cong)
      have "i \<noteq> mi_inscription_id mi" if "inheritable s mi i" for i using that ii by blast
      with m show ?thesis unfolding pa by simp
    qed
  qed
qed

lemma mint_pass_inv:
  assumes "mgr_inv h s" and "provider_ok bp" and "mi_mint_block_height mi = h"
    and "mi_inscription_id mi \<notin> set (mi_prev mi)" and "on_mint_pass bp mi s = (r, s')"
  shows "no_panic r \<and> (r = Inr () \<longrightarrow> mgr_inv h s')"
  using mint_pass_all [OF assms refl] by blast

section \<open>Invalid mints, transfers and burns\<close>

lemma add_invalid_cases:
  assumes ok: "pass_db_ok db" and info: "mp_state info = Invalid" "mp_owner info = mp_mint_owner info"
      "mp_invalid_code info \<noteq> None" "mp_invalid_reason info \<noteq> None" "mp_mint_block_height info = h"
  obtains (dup) e where "add_invalid_mint_pass_at_height info h db = (Inl (Err e), db)"
    | (new) db' where "add_invalid_mint_pass_at_height info h db = (Inr (), db')"
      "db_passes db' = db_passes db @ [info]" "pass_db_ok db'"
proof (cases "mp_inscription_id info \<in> mp_inscription_id ` set (db_passes db)")
  case True
  then show ?thesis
    using info dup by (simp add: add_invalid_mint_pass_at_height_def add_invalid_mint_pass_def
        insert_pass_record_def bindR_def)
next
  case False
  have "active_owner_unique (db_passes db @ [info])"
    using ok info(1) by (simp add: pass_db_ok_def active_owner_unique_def)
  then obtain db' where db': "add_invalid_mint_pass_at_height info h db = (Inr (), db')"
    "db_passes db' = db_passes db @ [info]"
    using False info by (simp add: add_invalid_mint_pass_at_height_def add_invalid_mint_pass_def
        insert_pass_record_def append_pass_history_event_def bindR_def)
  moreover have "pass_db_ok db'" using pass_write_ok [OF pass_write.invalid_mint [OF db'(1)] ok] info by simp
  ultimately show ?thesis by (rule new)
qed

lemma invalid_mint_inv:
  assumes inv: "mgr_inv h s" and h: "iv_mint_block_height iv = h" and run: "on_invalid_mint_pass iv s = (r, s')"
  shows "no_panic r \<and> (r = Inr () \<longrightarrow> mgr_inv h s')"
proof -
  have ok: "pass_db_ok (mg_db s)" using inv by (simp add: mgr_inv_def mgr_inv_but_def)
  let ?i = "invalid_pass_info iv"
  have i: "mp_state ?i = Invalid" "mp_owner ?i = mp_mint_owner ?i" "mp_invalid_code ?i \<noteq> None"
    "mp_invalid_reason ?i \<noteq> None" "mp_mint_block_height ?i = h"
    using h by (simp_all add: invalid_pass_info_def)
  show ?thesis
  proof (cases rule: add_invalid_cases [OF ok i])
    case (1 e)
    then have "r = Inl (Err e)"
      using run h by (simp add: on_invalid_mint_pass_def Let_def on_db_apply bindR_def)
    then show ?thesis by simp
  next
    case (2 db')
    then have s': "r = Inr ()" "mg_db s' = db'" "mg_energy s' = mg_energy s"
      using run h by (auto simp: on_invalid_mint_pass_def Let_def on_db_apply bindR_def push_apply)
    moreover have "row_agrees h (mg_energy s) ?i" using i(1) by (simp add: row_agrees_def)
    ultimately show ?thesis
      using inv 2 i(5) by (auto simp: mgr_inv_def mgr_inv_but_def)
  qed
qed

lemma update_row:
  assumes ok: "pass_db_ok db" and m: "m \<in> set (db_passes db)" and Q: "Q m"
    and f: "mp_inscription_id (f m) = mp_inscription_id m"
      "mp_state (f m) \<noteq> Active \<or> mp_state m = Active \<and> mp_owner (f m) = mp_owner m"
  obtains n where "update_passes (\<lambda>x. mp_inscription_id x = mp_inscription_id m \<and> Q x) f msg db =
    (Inr n, db\<lparr>db_passes := map (\<lambda>x. if x = m then f m else x) (db_passes db)\<rparr>)" and "n \<noteq> 0"
proof -
  have d: "distinct (map mp_inscription_id (db_passes db))" "active_owner_unique (db_passes db)"
    using ok by (simp_all add: pass_db_ok_def)
  let ?n = "length (filter (\<lambda>x. mp_inscription_id x = mp_inscription_id m \<and> Q x) (db_passes db))"
  show thesis
  proof (rule that [of ?n])
    show "update_passes (\<lambda>x. mp_inscription_id x = mp_inscription_id m \<and> Q x) f msg db =
        (Inr ?n, db\<lparr>db_passes := map (\<lambda>x. if x = m then f m else x) (db_passes db)\<rparr>)"
      using active_owner_unique_deactivate [OF d(2,1) m f(2,1)]
      unfolding update_passes_def Let_def map_update_row [OF d(1) m, of Q f, unfolded if_P [OF Q]] by simp
    show "?n \<noteq> 0" using m Q by (auto simp: filter_empty_conv)
  qed
qed

lemma update_satpoint_succeeds:
  assumes ok: "pass_db_ok db" and m: "m \<in> set (db_passes db)"
  obtains db' where "update_satpoint_at_height (mp_inscription_id m) (mp_satpoint m) sp h db = (Inr (), db')"
    and "db_passes db' = map (\<lambda>x. if x = m then m\<lparr>mp_satpoint := sp\<rparr> else x) (db_passes db)" and "pass_db_ok db'"
proof -
  have g: "get_pass_by_inscription_id (mp_inscription_id m) db = Some m" using m by (simp add: get_pass_Some [OF ok])
  have k: "mp_state (m\<lparr>mp_satpoint := sp\<rparr>) \<noteq> Active \<or>
      mp_state m = Active \<and> mp_owner (m\<lparr>mp_satpoint := sp\<rparr>) = mp_owner m" by simp
  obtain n where n: "update_passes (\<lambda>x. mp_inscription_id x = mp_inscription_id m \<and> mp_satpoint x = mp_satpoint m)
      (\<lambda>x. x\<lparr>mp_satpoint := sp\<rparr>) ''Failed to update miner pass satpoint in database'' db =
    (Inr n, db\<lparr>db_passes := map (\<lambda>x. if x = m then m\<lparr>mp_satpoint := sp\<rparr> else x) (db_passes db)\<rparr>)" "n \<noteq> 0"
    by (rule update_row [OF ok m, of "\<lambda>x. mp_satpoint x = mp_satpoint m" "\<lambda>x. x\<lparr>mp_satpoint := sp\<rparr>"])
      (use k in \<open>auto intro: that\<close>)
  then obtain db' where db': "update_satpoint_at_height (mp_inscription_id m) (mp_satpoint m) sp h db = (Inr (), db')"
    "db_passes db' = map (\<lambda>x. if x = m then m\<lparr>mp_satpoint := sp\<rparr> else x) (db_passes db)"
    using g by (simp add: update_satpoint_at_height_def update_satpoint_def require_pass_def require_def
        append_pass_history_event_def bindR_def)
  moreover have "pass_db_ok db'" using pass_write_ok [OF pass_write.satpoint [OF db'(1)] ok] .
  ultimately show thesis by (rule that)
qed

lemma transfer_owner_succeeds:
  assumes ok: "pass_db_ok db" and m: "m \<in> set (db_passes db)" and st: "mp_state m \<noteq> Active"
  obtains db' where "transfer_owner_at_height (mp_inscription_id m) own sp h db = (Inr (), db')"
    and "db_passes db' = map (\<lambda>x. if x = m then m\<lparr>mp_owner := own, mp_satpoint := sp\<rparr> else x) (db_passes db)"
    and "pass_db_ok db'"
proof -
  have g: "get_pass_by_inscription_id (mp_inscription_id m) db = Some m" using m by (simp add: get_pass_Some [OF ok])
  let ?f = "\<lambda>x. x\<lparr>mp_owner := own, mp_satpoint := sp\<rparr>"
  obtain n where n: "update_passes (\<lambda>x. mp_inscription_id x = mp_inscription_id m)
      ?f ''Failed to transfer miner pass owner in database'' db =
    (Inr n, db\<lparr>db_passes := map (\<lambda>x. if x = m then ?f m else x) (db_passes db)\<rparr>)" "n \<noteq> 0"
    by (rule update_row [OF ok m, of "\<lambda>x. True" ?f]) (use st in \<open>auto intro: that\<close>)
  then obtain db' where db': "transfer_owner_at_height (mp_inscription_id m) own sp h db = (Inr (), db')"
    "db_passes db' = map (\<lambda>x. if x = m then ?f m else x) (db_passes db)"
    using g by (simp add: transfer_owner_at_height_def transfer_owner_def require_pass_def require_def
        append_pass_history_event_def bindR_def)
  moreover have "pass_db_ok db'" using pass_write_ok [OF pass_write.transfer [OF db'(1)] ok] .
  ultimately show thesis by (rule that)
qed

text \<open>An operation that fails no assertion, succeeds if \<open>t\<close>, and ends in \<open>Q\<close> when it succeeds.\<close>

definition safe :: "bool \<Rightarrow> ('s, 'a) op \<Rightarrow> 's \<Rightarrow> ('a \<Rightarrow> 's \<Rightarrow> bool) \<Rightarrow> bool" where
  "safe t m s Q \<longleftrightarrow> no_panic (fst (m s)) \<and> (t \<longrightarrow> (\<exists>x. fst (m s) = Inr x)) \<and> (\<forall>x. fst (m s) = Inr x \<longrightarrow> Q x (snd (m s)))"

lemma safe_bind_gets: "safe t (bindR (gets f) k) s Q \<longleftrightarrow> safe t (k (f s)) s Q"
  by (simp add: safe_def bindR_def gets_def)

lemma safe_run: "safe t m s Q \<Longrightarrow> m s = (r, s') \<Longrightarrow> no_panic r \<and> (t \<longrightarrow> (\<exists>x. r = Inr x)) \<and> (\<forall>x. r = Inr x \<longrightarrow> Q x s')"
  by (auto simp: safe_def)

lemma safeI: "m s = (r, s') \<Longrightarrow> no_panic r \<Longrightarrow> (t \<Longrightarrow> \<exists>x. r = Inr x) \<Longrightarrow> (\<And>x. r = Inr x \<Longrightarrow> Q x s') \<Longrightarrow> safe t m s Q"
  by (simp add: safe_def)

lemma safe_bind: "safe t m s Q \<Longrightarrow> (\<And>x s'. Q x s' \<Longrightarrow> safe t (f x) s' R) \<Longrightarrow> safe t (bindR m f) s R"
  by (cases "m s"; cases "fst (m s)") (auto simp: safe_def bindR_def no_panic_def split: sum.splits prod.splits)

lemma safe_ret: "Q x s \<Longrightarrow> safe t (ret x) s Q"
  by (simp add: safe_def)

lemma safe_push: "Q () (s\<lparr>mg_collector := map_option (collector_push mu) (mg_collector s)\<rparr>) \<Longrightarrow>
    safe t (push_block_mutation mu) s Q"
  by (rule safeI [OF push_apply]) simp_all

lemma mgr_inv_collector [simp]: "mgr_inv h (s\<lparr>mg_collector := c\<rparr>) = mgr_inv h s"
  by (simp add: mgr_inv_def mgr_inv_but_def)

lemma pass_of_collector [simp]: "pass_of (s\<lparr>mg_collector := c\<rparr>) i = pass_of s i"
  by (simp add: pass_of_def)

lemma safe_settle:
  assumes inv: "mgr_inv h s" and p: "pass_of s i = Some m" "mp_state m = Active" and bp: "provider_ok bp"
    and tot: "t \<longrightarrow> provider_total bp"
  shows "safe t (on_energy (update_pass_energy bp i h)) s (\<lambda>_ s'. mgr_inv h s' \<and> mg_db s' = mg_db s)"
proof -
  note d = mgr_invD(1-3) [OF inv] mgr_invD(4) [OF inv p(1)]
  then obtain x v where fl: "energy_find_last i h (mg_energy s) = Some (x, v)" "ev_state v = Active"
    "ev_owner_address v = mp_owner m"
    using p(2) by (auto simp: row_agrees_def)
  obtain r en' where u: "update_pass_energy bp i h (mg_energy s) = (r, en')" "no_panic r" "energy_db_ok en'"
    "window_writes i x h (ev_owner_address v) (mg_energy s) en'" "provider_total bp \<Longrightarrow> \<exists>res. r = Inr res"
    by (rule update_energy_any [OF d(2) fl(1,2) bp]) (rule that)
  obtain y w where y: "energy_find_last i h en' = Some (y, w)" "ev_state w = Active" "ev_owner_address w = mp_owner m"
    using window_find_last [OF d(2) fl(1,2) refl u(3,4)] fl(3) by metis
  let ?s = "s\<lparr>mg_energy := en'\<rparr>"
  have "mgr_inv h ?s"
    unfolding mgr_inv_def
    by (rule inv_replace [OF inv [unfolded mgr_inv_def], of m ?s m])
      (use d(1,4) u(3,4) y p(2) in \<open>auto simp: row_agrees_def window_writes_def intro: map_idI [symmetric]\<close>)
  with u(1,2,5) tot show ?thesis by (intro safeI [of _ _ r ?s]) (simp_all add: on_energy_apply)
qed

lemma safe_dormant:
  assumes inv: "mgr_inv h s" and p: "pass_of s i = Some m" "mp_state m = Active" and bp: "provider_ok bp"
    and tot: "t \<longrightarrow> provider_total bp"
  shows "safe t (on_energy (on_pass_dormant bp i h)) s (\<lambda>_ s'. mgr_inv_but {i} h s' \<and> mg_db s' = mg_db s \<and>
    (\<exists>u. energy_find_last i h (mg_energy s') = Some (h, u) \<and> ev_state u = Dormant))"
proof -
  note d = mgr_invD(1-3) [OF inv] mgr_invD(4) [OF inv p(1)]
  then obtain x v where fl: "energy_find_last i h (mg_energy s) = Some (x, v)" "ev_state v = Active"
    using p(2) by (auto simp: row_agrees_def)
  obtain r en' where e: "on_pass_dormant bp i h (mg_energy s) = (r, en')" "no_panic r" "energy_db_ok en'"
    "\<And>j k. j \<noteq> i \<or> h < k \<Longrightarrow> get_pass_energy_record j k en' = get_pass_energy_record j k (mg_energy s)"
    "r = Inr () \<Longrightarrow> \<exists>u. energy_find_last i h en' = Some (h, u) \<and> ev_state u = Dormant"
    "provider_total bp \<Longrightarrow> r = Inr ()"
    by (rule dormant_any [OF d(2) fl bp]) (rule that)
  let ?s = "s\<lparr>mg_energy := en'\<rparr>"
  have inv0: "mgr_inv_but {i} h s" using inv by (simp add: mgr_inv_def mgr_inv_but_def)
  have "mgr_inv_but {i} h ?s"
    by (rule inv_replace [OF inv0, of m ?s m]) (use d(1,4) e(3,4) in \<open>auto intro: map_idI [symmetric]\<close>)
  with e(1,2,5,6) tot show ?thesis by (intro safeI [of _ _ r ?s]) (auto simp: on_energy_apply)
qed

text \<open>A write of one row that succeeds and keeps the agreement.\<close>

lemma safe_row_write:
  assumes inv: "mgr_inv_but X h s" and p: "pass_of s i = Some m"
    and w: "f (mg_db s) = (Inr (), db')" "db_passes db' = map (\<lambda>x. if x = m then m' else x) (db_passes (mg_db s))"
      "pass_db_ok db'"
    and m': "mp_inscription_id m' = i" "mp_mint_block_height m' = mp_mint_block_height m"
    and ag: "row_agrees h (mg_energy s) m'" and X: "X \<subseteq> {i}"
  shows "safe t (on_db f) s (\<lambda>_ s'. mgr_inv h s' \<and> mg_energy s' = mg_energy s \<and>
    (\<forall>j. pass_of s' j = (if j = i then Some m' else pass_of s j)))"
proof -
  let ?s = "s\<lparr>mg_store := (mg_store s)\<lparr>ps_db := db'\<rparr>\<rparr>"
  have ok: "pass_db_ok (mg_db s)" "energy_db_ok (mg_energy s)" using inv by (simp_all add: mgr_inv_but_def)
  have m: "m \<in> set (db_passes (mg_db s))" "mp_inscription_id m = i"
    using p by (simp_all add: pass_of_def get_pass_Some [OF ok(1)])
  have a: "mgr_inv_but X h ?s"
    by (rule inv_replace [OF inv m(1), of ?s m']) (simp_all add: w(2,3) m(2) m' ag ok(2))
  have ps: "pass_of ?s j = (if j = i then Some m' else pass_of s j)" for j
    using get_pass_replace [OF ok(1) w(3) m(1) w(2)] m m'(1) by (simp add: pass_of_def)
  have "mp_inscription_id x = i \<Longrightarrow> x \<in> set (db_passes db') \<Longrightarrow> row_agrees h (mg_energy s) x" for x
    using ps [of i] ag get_pass_Some [OF w(3), of i x] by (simp add: pass_of_def)
  then have inv': "mgr_inv h ?s" using a X by (auto simp: mgr_inv_def mgr_inv_but_def)
  have run: "on_db f s = (Inr (), ?s)" by (simp add: on_db_apply w(1))
  show ?thesis by (rule safeI [of "on_db f" s, OF run], simp, simp, intro conjI allI inv' ps) simp
qed

text \<open>The pass after a transfer.\<close>

definition pass_after_transfer :: "USDBScriptHash \<Rightarrow> SatPoint \<Rightarrow> MinerPassInfo \<Rightarrow> MinerPassInfo" where
  "pass_after_transfer new_owner satpoint m =
     (if mp_owner m = new_owner then m\<lparr>mp_satpoint := satpoint\<rparr>
      else m\<lparr>mp_owner := new_owner, mp_satpoint := satpoint,
             mp_state := (if mp_state m = Active then Dormant else mp_state m)\<rparr>)"

abbreviation replaced :: "pass_mgr \<Rightarrow> u32 \<Rightarrow> InscriptionId \<Rightarrow> MinerPassInfo \<Rightarrow> unit \<Rightarrow> pass_mgr \<Rightarrow> bool" where
  "replaced s h i m' \<equiv> \<lambda>_ s'. mgr_inv h s' \<and> (\<forall>j. pass_of s' j = (if j = i then Some m' else pass_of s j))"

lemma safe_settle_first:
  assumes inv: "mgr_inv h s" and p: "pass_of s i = Some m" and bp: "provider_ok bp"
    and tot: "t \<longrightarrow> provider_total bp"
  shows "safe t (if mp_state m = Active then bindR (on_energy (update_pass_energy bp i h)) (\<lambda>_. ret ()) else ret ()) s
    (\<lambda>_ s'. mgr_inv h s' \<and> mg_db s' = mg_db s)"
proof (cases "mp_state m = Active")
  case True
  then show ?thesis using safe_settle [OF inv p True bp tot] by (auto intro!: safe_bind safe_ret)
next
  case False
  then show ?thesis using inv by (simp add: safe_ret)
qed

lemma safe_satpoint:
  assumes inv: "mgr_inv h s" and p: "pass_of s i = Some m"
  shows "safe t (bindR (on_db (update_satpoint_at_height i (mp_satpoint m) sp h)) (\<lambda>_. push_block_mutation mu)) s
    (replaced s h i (m\<lparr>mp_satpoint := sp\<rparr>))"
proof -
  note d = mgr_invD(1) [OF inv] mgr_invD(4) [OF inv p]
  obtain db' where w: "update_satpoint_at_height i (mp_satpoint m) sp h (mg_db s) = (Inr (), db')"
    "db_passes db' = map (\<lambda>x. if x = m then m\<lparr>mp_satpoint := sp\<rparr> else x) (db_passes (mg_db s))" "pass_db_ok db'"
    using update_satpoint_succeeds [OF d(1) conjunct1 [OF d(2)], of sp h thesis] that d(2) by simp
  have "safe t (on_db (update_satpoint_at_height i (mp_satpoint m) sp h)) s (\<lambda>_ s'. mgr_inv h s' \<and>
      mg_energy s' = mg_energy s \<and> (\<forall>j. pass_of s' j = (if j = i then Some (m\<lparr>mp_satpoint := sp\<rparr>) else pass_of s j)))"
    by (rule safe_row_write [where X = "{}" and m = m and db' = db']) (use inv p w d(2) in \<open>auto simp: row_agrees_def mgr_inv_def\<close>)
  then show ?thesis by (rule safe_bind) (rule safe_push, simp)
qed

lemma safe_deactivate:
  assumes inv: "mgr_inv h s" and p: "pass_of s i = Some m" and bp: "provider_ok bp"
    and tot: "t \<longrightarrow> provider_total bp"
  shows "safe t (if mp_state m = Active
     then bindR (on_energy (on_pass_dormant bp i h)) (\<lambda>_.
          bindR (on_db (update_state_at_height i Dormant Active h)) (\<lambda>_. push_block_mutation mu))
     else ret ()) s (replaced s h i (m\<lparr>mp_state := (if mp_state m = Active then Dormant else mp_state m)\<rparr>))"
proof (cases "mp_state m = Active")
  case True
  note d = mgr_invD(1) [OF inv] mgr_invD(4) [OF inv p]
  let ?m = "m\<lparr>mp_state := Dormant\<rparr>"
  obtain db' where w: "update_state_at_height i Dormant Active h (mg_db s) = (Inr (), db')"
    "db_passes db' = map (\<lambda>x. if x = m then ?m else x) (db_passes (mg_db s))" "pass_db_ok db'"
    using update_state_succeeds [OF d(1) conjunct1 [OF d(2)], of Dormant h thesis] that d(2) True by simp
  have st: "safe t (on_db (update_state_at_height i Dormant Active h)) s' (replaced s h i ?m)"
    if s': "mgr_inv_but {i} h s'" "mg_db s' = mg_db s"
      "\<exists>u. energy_find_last i h (mg_energy s') = Some (h, u) \<and> ev_state u = Dormant" for s'
  proof -
    have p': "pass_of s' j = pass_of s j" for j using s'(2) by (simp add: pass_of_def)
    have ag: "row_agrees h (mg_energy s') ?m" using s'(3) d(2) by (auto simp: row_agrees_def)
    have "safe t (on_db (update_state_at_height i Dormant Active h)) s' (\<lambda>_ s2. mgr_inv h s2 \<and>
      mg_energy s2 = mg_energy s' \<and> (\<forall>j. pass_of s2 j = (if j = i then Some ?m else pass_of s' j)))"
      by (rule safe_row_write [OF s'(1) _ _ _ w(3), of i m]) (use p p' w s'(2) ag d(2) in auto)
    then show ?thesis using p' by (simp add: safe_def)
  qed
  have "safe t (bindR (on_energy (on_pass_dormant bp i h)) (\<lambda>_.
          bindR (on_db (update_state_at_height i Dormant Active h)) (\<lambda>_. push_block_mutation mu))) s (replaced s h i ?m)"
    by (rule safe_bind [OF safe_dormant [OF inv p True bp tot]], rule safe_bind [OF st])
      (simp_all only:, rule safe_push, simp)
  with True show ?thesis by simp
next
  case False
  then show ?thesis using inv p by (simp add: safe_ret)
qed

lemma safe_transfer_owner:
  assumes inv: "mgr_inv h s" and p: "pass_of s i = Some m" and st: "mp_state m \<noteq> Active"
  shows "safe t (bindR (on_db (transfer_owner_at_height i own sp h)) (\<lambda>_. push_block_mutation mu)) s
    (replaced s h i (m\<lparr>mp_owner := own, mp_satpoint := sp\<rparr>))"
proof -
  note d = mgr_invD(1) [OF inv] mgr_invD(4) [OF inv p]
  let ?m = "m\<lparr>mp_owner := own, mp_satpoint := sp\<rparr>"
  obtain db' where w: "transfer_owner_at_height i own sp h (mg_db s) = (Inr (), db')"
    "db_passes db' = map (\<lambda>x. if x = m then ?m else x) (db_passes (mg_db s))" "pass_db_ok db'"
    using transfer_owner_succeeds [OF d(1) conjunct1 [OF d(2)] st, of own sp h thesis] that d(2) by simp
  have "safe t (on_db (transfer_owner_at_height i own sp h)) s (\<lambda>_ s'. mgr_inv h s' \<and>
      mg_energy s' = mg_energy s \<and> (\<forall>j. pass_of s' j = (if j = i then Some ?m else pass_of s j)))"
    by (rule safe_row_write [where X = "{}" and m = m and db' = db']) (use inv p w d(2) st in \<open>auto simp: row_agrees_def mgr_inv_def\<close>)
  then show ?thesis by (rule safe_bind) (rule safe_push, simp)
qed

lemma safe_transfer:
  assumes inv: "mgr_inv h s" and bp: "provider_ok bp" and p: "pass_of s i = Some m"
    and tot: "t \<longrightarrow> provider_total bp"
  shows "safe t (on_pass_transfer bp i own sp h) s (replaced s h i (pass_after_transfer own sp m))"
proof -
  have c: "safe t (if mp_owner m = own then
         bindR (on_db (update_satpoint_at_height i (mp_satpoint m) sp h)) (\<lambda>_.
         push_block_mutation (SatpointUpdate i (mp_state m) (mp_owner m) (mp_satpoint m) sp))
       else
         bindR (if mp_state m = Active
                then
                  bindR (on_energy (on_pass_dormant bp i h)) (\<lambda>_.
                  bindR (on_db (update_state_at_height i Dormant Active h)) (\<lambda>_.
                  push_block_mutation (StateTransition i Active Dormant (mp_owner m) (mp_satpoint m))))
                else ret ()) (\<lambda>_.
         bindR (on_db (transfer_owner_at_height i own sp h)) (\<lambda>_.
         push_block_mutation (OwnerTransfer i (if mp_state m = Active then Dormant else mp_state m)
           (mp_owner m) own (mp_satpoint m) sp)))) s1 (replaced s h i (pass_after_transfer own sp m))"
    if s1: "mgr_inv h s1 \<and> mg_db s1 = mg_db s" for s1
  proof (cases "mp_owner m = own")
    case True
    have "pass_of s1 j = pass_of s j" for j using s1 by (simp add: pass_of_def)
    with True safe_satpoint [of h s1 i m t sp] s1 p show ?thesis by (simp add: pass_after_transfer_def safe_def)
  next
    case False
    have p1: "pass_of s1 j = pass_of s j" for j using s1 by (simp add: pass_of_def)
    let ?d = "m\<lparr>mp_state := (if mp_state m = Active then Dormant else mp_state m)\<rparr>"
    have t: "safe t (bindR (on_db (transfer_owner_at_height i own sp h)) (\<lambda>_. push_block_mutation mu)) s2
        (replaced s h i (pass_after_transfer own sp m))" if "replaced s1 h i ?d x s2" for x s2 mu
    proof -
      have "pass_of s2 i = Some ?d" "mgr_inv h s2" using that by simp_all
      then have "safe t (bindR (on_db (transfer_owner_at_height i own sp h)) (\<lambda>_. push_block_mutation mu)) s2
          (replaced s2 h i (?d\<lparr>mp_owner := own, mp_satpoint := sp\<rparr>))" by (intro safe_transfer_owner) simp_all
      moreover have "?d\<lparr>mp_owner := own, mp_satpoint := sp\<rparr> = pass_after_transfer own sp m"
        using False by (simp add: pass_after_transfer_def)
      ultimately have "safe t (bindR (on_db (transfer_owner_at_height i own sp h)) (\<lambda>_. push_block_mutation mu)) s2
          (replaced s2 h i (pass_after_transfer own sp m))" by (simp only:)
      then show ?thesis using that p1 by (simp add: safe_def)
    qed
    have p1i: "pass_of s1 i = Some m" using p p1 by simp
    show ?thesis unfolding if_not_P [OF False] by (rule safe_bind [OF safe_deactivate [OF conjunct1 [OF s1] p1i bp tot] t])
  qed
  show ?thesis
    unfolding on_pass_transfer_def safe_bind_gets pass_of_def [symmetric] p option.case
    by (rule safe_bind [OF safe_settle_first [OF inv p bp tot] c])
qed

lemma safe_burn:
  assumes inv: "mgr_inv h s" and bp: "provider_ok bp" and p: "pass_of s i = Some m"
    and tot: "t \<longrightarrow> provider_total bp"
  shows "safe t (on_pass_burned bp i h) s (replaced s h i (m\<lparr>mp_state := Burned\<rparr>))"
proof -
  have c: "safe t (bindR (on_db (update_state_at_height i Burned (mp_state m) h)) (\<lambda>_. push_block_mutation mu)) s1
      (replaced s h i (m\<lparr>mp_state := Burned\<rparr>))" if s1: "mgr_inv h s1 \<and> mg_db s1 = mg_db s" for s1 mu
  proof -
    have p1: "pass_of s1 j = pass_of s j" for j using s1 by (simp add: pass_of_def)
    then have p1i: "pass_of s1 i = Some m" using p by simp
    note d = mgr_invD(1) [OF conjunct1 [OF s1]] mgr_invD(4) [OF conjunct1 [OF s1] p1i]
    obtain db' where w: "update_state_at_height i Burned (mp_state m) h (mg_db s1) = (Inr (), db')"
      "db_passes db' = map (\<lambda>x. if x = m then m\<lparr>mp_state := Burned\<rparr> else x) (db_passes (mg_db s1))" "pass_db_ok db'"
      using update_state_succeeds [OF d(1) conjunct1 [OF d(2)], of Burned h thesis] that d(2) by simp
    have "safe t (on_db (update_state_at_height i Burned (mp_state m) h)) s1 (\<lambda>_ s'. mgr_inv h s' \<and>
      mg_energy s' = mg_energy s1 \<and> (\<forall>j. pass_of s' j = (if j = i then Some (m\<lparr>mp_state := Burned\<rparr>) else pass_of s1 j)))"
      by (rule safe_row_write [where X = "{}" and m = m and db' = db'])
        (use s1 p1i w d(2) in \<open>auto simp: row_agrees_def mgr_inv_def\<close>)
    then show ?thesis by (rule safe_bind) (rule safe_push, simp add: p1)
  qed
  show ?thesis
    unfolding on_pass_burned_def safe_bind_gets pass_of_def [symmetric] p option.case
    by (rule safe_bind [OF safe_settle_first [OF inv p bp tot] c])
qed

section \<open>Runs of the manager\<close>

text \<open>One event of a block at height \<open>h\<close>, with its result.\<close>

inductive pass_event :: "balance_provider \<Rightarrow> u32 \<Rightarrow> pass_mgr \<Rightarrow> unit result \<Rightarrow> pass_mgr \<Rightarrow> bool" for bp where
  mint: "on_mint_pass bp mi s = (r, s') \<Longrightarrow> mi_mint_block_height mi = h \<Longrightarrow>
    mi_inscription_id mi \<notin> set (mi_prev mi) \<Longrightarrow> pass_event bp h s r s'"
| invalid_mint: "on_invalid_mint_pass iv s = (r, s') \<Longrightarrow> iv_mint_block_height iv = h \<Longrightarrow> pass_event bp h s r s'"
| transfer: "on_pass_transfer bp i own sp h s = (r, s') \<Longrightarrow> pass_event bp h s r s'"
| burn: "on_pass_burned bp i h s = (r, s') \<Longrightarrow> pass_event bp h s r s'"

text \<open>The states of the manager after successful events at heights that never go down.\<close>

inductive mgr_run :: "balance_provider \<Rightarrow> u32 \<Rightarrow> pass_mgr \<Rightarrow> bool" for bp where
  start: "mgr_run bp 0 \<lparr>mg_store = \<lparr>ps_db = empty_pass_db, ps_savepoints = []\<rparr>, mg_energy = empty_energy_db,
     mg_collector = None\<rparr>"
| event: "mgr_run bp h s \<Longrightarrow> h \<le> h' \<Longrightarrow> pass_event bp h' s (Inr ()) s' \<Longrightarrow> mgr_run bp h' s'"

lemma no_pass_event:
  assumes "pass_of s i = None"
  shows "no_panic (fst (on_pass_transfer bp i own sp h s)) \<and> (\<forall>x. fst (on_pass_transfer bp i own sp h s) \<noteq> Inr x)"
    and "no_panic (fst (on_pass_burned bp i h s)) \<and> (\<forall>x. fst (on_pass_burned bp i h s) \<noteq> Inr x)"
  using assms by (simp_all add: on_pass_transfer_def on_pass_burned_def pass_of_def bindR_def gets_def fail_def)

lemma mgr_inv_mono:
  assumes inv: "mgr_inv h s" and le: "h \<le> h'"
  shows "mgr_inv h' s"
proof -
  note d = mgr_invD(1-3) [OF inv]
  have "energy_find_last i h' (mg_energy s) = Some (x, v)"
    if "energy_find_last i h (mg_energy s) = Some (x, v)" for i x v
    by (rule energy.find_last_stays [OF d(2) that le]) (use d(3) in \<open>simp add: energy_upto_def\<close>)
  then have "row_agrees h' (mg_energy s) m" if "row_agrees h (mg_energy s) m" for m
    using that by (auto simp: row_agrees_def)
  moreover have "energy_upto h' (mg_energy s)" using d(3) le by (auto simp: energy_upto_def)
  ultimately show ?thesis using inv le by (auto simp: mgr_inv_def mgr_inv_but_def intro: order_trans)
qed

lemma mgr_inv_start:
  "mgr_inv h \<lparr>mg_store = \<lparr>ps_db = empty_pass_db, ps_savepoints = sps\<rparr>, mg_energy = empty_energy_db, mg_collector = c\<rparr>"
  using energy_db_ok_empty
  by (auto simp: mgr_inv_def mgr_inv_but_def pass_db_ok_def empty_pass_db_def active_owner_unique_def
      energy_upto_def get_pass_energy_record_def empty_energy_db_def cf_get_def)

lemma pass_event_inv:
  assumes "pass_event bp h s r s'" and inv: "mgr_inv h s" and bp: "provider_ok bp"
  shows "no_panic r \<and> (r = Inr () \<longrightarrow> mgr_inv h s')"
  using assms(1)
proof cases
  case (mint mi)
  then show ?thesis using mint_pass_inv [OF inv bp] by blast
next
  case (invalid_mint iv)
  then show ?thesis using invalid_mint_inv [OF inv] by blast
next
  case (transfer i own sp)
  then show ?thesis
    using no_pass_event(1) [of s i bp own sp h] safe_run [OF safe_transfer [OF inv bp, of i _ False]]
    by (cases "pass_of s i") (simp, blast)
next
  case (burn i)
  then show ?thesis
    using no_pass_event(2) [of s i bp h] safe_run [OF safe_burn [OF inv bp, of i _ False]]
    by (cases "pass_of s i") (simp, blast)
qed

lemma mgr_run_inv: "mgr_run bp h s \<Longrightarrow> provider_ok bp \<Longrightarrow> mgr_inv h s"
  by (induction rule: mgr_run.induct) (auto simp: mgr_inv_start dest: pass_event_inv mgr_inv_mono)

section \<open>A concrete run\<close>

definition sample_mint :: "nat \<Rightarrow> USDBScriptHash \<Rightarrow> u32 \<Rightarrow> InscriptionId list \<Rightarrow> PassMintInscriptionInfo" where
  "sample_mint n own h prev = \<lparr>mi_inscription_id = sample_id n, mi_inscription_number = int n, mi_mint_txid = of_nat n,
     mi_mint_block_height = h, mi_mint_owner = own, mi_satpoint = sample_satpoint n, mi_eth_main = ''0x1'',
     mi_eth_collab = None, mi_prev = prev\<rparr>"

definition sample_mgr0 :: pass_mgr where
  "sample_mgr0 = \<lparr>mg_store = \<lparr>ps_db = empty_pass_db, ps_savepoints = []\<rparr>, mg_energy = empty_energy_db,
     mg_collector = None\<rparr>"

definition sample_mgr1 :: pass_mgr where
  "sample_mgr1 = snd (on_mint_pass sample_provider (sample_mint 1 7 100 []) sample_mgr0)"

definition sample_mgr2 :: pass_mgr where
  "sample_mgr2 = snd (on_mint_pass sample_provider (sample_mint 2 7 110 [sample_id 1]) sample_mgr1)"

lemma sample_provider_ok: "provider_ok sample_provider"
  by (auto simp: provider_ok_def sample_provider_def sample_changes_def)

lemma sample_mint_simps [simp]:
  "mi_inscription_id (sample_mint n own h prev) = sample_id n" "mi_mint_block_height (sample_mint n own h prev) = h"
  "mi_prev (sample_mint n own h prev) = prev" "mi_mint_owner (sample_mint n own h prev) = own"
  by (simp_all add: sample_mint_def)

lemma sample_provider_total: "provider_total sample_provider"
  by (simp add: provider_total_def sample_provider_def)

lemma sample_id_12: "sample_id 2 \<noteq> sample_id (Suc 0)" "sample_id 2 \<noteq> sample_id 1"
  by code_simp+

lemma sample_mint1: "on_mint_pass sample_provider (sample_mint 1 7 100 []) sample_mgr0 = (Inr (), sample_mgr1)"
  and sample_mgr1_inv: "mgr_inv 100 sample_mgr1"
  and sample_mgr1_pass: "\<And>i. pass_of sample_mgr1 i = (if i = sample_id 1 then Some (new_pass_info (sample_mint 1 7 100 [])) else None)"
proof -
  let ?mi = "sample_mint 1 7 100 []"
  obtain r where r: "on_mint_pass sample_provider ?mi sample_mgr0 = (r, sample_mgr1)"
    unfolding sample_mgr1_def by (metis prod.collapse)
  have i0: "mgr_inv 100 sample_mgr0" using mgr_inv_start by (simp add: sample_mgr0_def)
  have p0: "pass_of sample_mgr0 i = None" for i
    by (simp add: sample_mgr0_def pass_of_def get_pass_by_inscription_id_def empty_pass_db_def select_key_def)
  note m = mint_pass_all [OF i0 sample_provider_ok, of ?mi, OF _ _ r refl]
  with p0 sample_provider_total have r0: "r = Inr ()" by simp
  with r show "on_mint_pass sample_provider ?mi sample_mgr0 = (Inr (), sample_mgr1)" by simp
  show "mgr_inv 100 sample_mgr1" using m r0 by simp
  show "pass_of sample_mgr1 i = (if i = sample_id 1 then Some (new_pass_info ?mi) else None)" for i
    using m r0 p0 by (simp add: pass_after_mint_def)
qed

lemma sample_mint2: "on_mint_pass sample_provider (sample_mint 2 7 110 [sample_id 1]) sample_mgr1 = (Inr (), sample_mgr2)"
proof -
  obtain r where r: "on_mint_pass sample_provider (sample_mint 2 7 110 [sample_id 1]) sample_mgr1 = (r, sample_mgr2)"
    unfolding sample_mgr2_def by (metis prod.collapse)
  have "mgr_inv 110 sample_mgr1" by (rule mgr_inv_mono [OF sample_mgr1_inv]) simp
  from mint_pass_all [OF this sample_provider_ok _ _ r refl] r sample_provider_total sample_id_12 show ?thesis
    by (simp add: sample_mgr1_pass)
qed

lemma sample_mgr1_run: "mgr_run sample_provider 100 sample_mgr1"
  by (rule mgr_run.event [OF mgr_run.start, of 100]) (use sample_mint1 in \<open>auto intro!: pass_event.mint simp: sample_mgr0_def\<close>)

section \<open>What the handlers promise\<close>

text \<open>C19: minting.  When the pass database agrees with the energy store and the new pass does not list
  itself as a predecessor, \<open>on_mint_pass\<close> fails no assertion, and succeeds when the balance service answers and the id is new.  When it
  succeeds the new pass is active,
  the predecessors it lists that belong to its owner and are active or dormant are consumed with no
  energy left, the owner's other active pass is dormant, every other pass is unchanged, and the new
  pass starts with the sum of the energies of the consumed predecessors at that block, capped at the
  largest 64-bit value.  The agreement is kept.\<close>

theorem mint_pass_effect:
  assumes "mgr_inv h s" and "provider_ok bp" and "mi_mint_block_height mi = h"
    and "mi_inscription_id mi \<notin> set (mi_prev mi)" and "on_mint_pass bp mi s = (r, s')"
    and "s1 = snd (dormant_last_pass bp mi s)"
  shows "no_panic r \<and> (provider_total bp \<and> pass_of s (mi_inscription_id mi) = None \<longrightarrow> r = Inr ()) \<and>
    (r = Inr () \<longrightarrow> mgr_inv h s' \<and> (\<forall>i. pass_of s' i = pass_after_mint s mi i) \<and>
    (\<forall>i. inheritable s mi i \<longrightarrow> energy_of s' h i = Some \<lparr>pe_energy = 0, pe_state = Consumed\<rparr>) \<and>
    (\<exists>inh. energy_of s' h (mi_inscription_id mi) = Some \<lparr>pe_energy = inh, pe_state = Active\<rparr> \<and>
       unat inh = min (\<Sum>i | inheritable s mi i. energy_nat s1 h i) (2 ^ 64 - 1)))"
  by (rule mint_pass_all [OF assms])

theorem mint_pass_effect_witness:
  "\<exists>m. pass_of sample_mgr2 (sample_id 1) = Some m \<and> mp_state m = Consumed \<and>
    energy_of sample_mgr2 110 (sample_id 1) = Some \<lparr>pe_energy = 0, pe_state = Consumed\<rparr> \<and>
    pass_of sample_mgr2 (sample_id 2) = Some (new_pass_info (sample_mint 2 7 110 [sample_id 1]))"
proof -
  let ?mi = "sample_mint 2 7 110 [sample_id 1]"
  have inv: "mgr_inv 110 sample_mgr1" by (rule mgr_inv_mono [OF sample_mgr1_inv]) simp
  let ?m = "new_pass_info (sample_mint 1 7 100 [])"
  have m: "pass_of sample_mgr1 (sample_id 1) = Some ?m" by (simp add: sample_mgr1_pass)
  have i: "inheritable sample_mgr1 ?mi (sample_id 1)" using m by (simp add: inheritable_def)
  have "pass_after_mint sample_mgr1 ?mi (sample_id 1) = Some (?m\<lparr>mp_state := Consumed\<rparr>)"
    using m i sample_id_12 by (simp add: pass_after_mint_def)
  moreover have "pass_after_mint sample_mgr1 ?mi (sample_id 2) = Some (new_pass_info ?mi)"
    by (simp add: pass_after_mint_def)
  ultimately show ?thesis
    using mint_pass_effect [OF inv sample_provider_ok _ _ sample_mint2 refl] i sample_id_12 by simp
qed





end
