(* ===== verification/Transfer_Tracker.thy ===== *)
theory Transfer_Tracker
  imports Pass_Query "HOL-Library.AList"
begin

text \<open>
  \<open>usdb-indexer/src/btc/tx.rs\<close>, \<open>btc/utxo.rs\<close>, \<open>index/transfer.rs\<close> and the items of
  \<open>inscription/types.rs\<close>: where a satoshi goes in a transaction, the cache of UTXO values, and the
  tracker that follows the satoshis of the miner passes through a block in a staged copy which is
  committed or rolled back with the block.  The transaction id, the script hash and the answers of
  the bitcoin node are parameters.
\<close>

section \<open>Satoshis through a transaction\<close>

record TxOut =
  to_value :: u64
  to_script :: "u8 list"

text \<open>\<open>tx_txid\<close> is the value of \<open>compute_txid()\<close>; an input is its previous output.\<close>

record Transaction =
  tx_txid :: Txid
  tx_input :: "OutPoint list"
  tx_output :: "TxOut list"

record SatPointResult =
  sr_satpoint :: SatPoint
  sr_value :: u64
  sr_address :: "USDBScriptHash option"

type_synonym utxo_cache = "OutPoint \<rightharpoonup> u64"

definition get_utxo :: "(OutPoint \<Rightarrow> u64 result) \<Rightarrow> OutPoint \<Rightarrow> (utxo_cache, u64) op" where
  "get_utxo client outpoint =
     bindR (gets (\<lambda>cache. cache outpoint)) (\<lambda>cached.
     case cached of
       Some amount \<Rightarrow> ret amount
     | None \<Rightarrow>
         bindR (getsR (\<lambda>_. client outpoint)) (\<lambda>amount.
         bindR (modify (\<lambda>cache. cache(outpoint \<mapsto> amount))) (\<lambda>_. ret amount)))"

fun vin_position :: "OutPoint \<Rightarrow> OutPoint list \<Rightarrow> nat option" where
  "vin_position outpoint [] = None"
| "vin_position outpoint (v # vs) =
     (if v = outpoint then Some 0 else map_option Suc (vin_position outpoint vs))"

text \<open>The loop over the outputs, from output \<open>i\<close> with \<open>current\<close> satoshis before it.\<close>

fun find_output :: "u64 \<Rightarrow> u64 \<Rightarrow> nat \<Rightarrow> TxOut list \<Rightarrow> (nat \<times> u64 \<times> TxOut) option" where
  "find_output pos current i [] = None"
| "find_output pos current i (vout_item # rest) =
     (if current \<le> pos \<and> pos < current + to_value vout_item
      then Some (i, pos - current, vout_item)
      else find_output pos (current + to_value vout_item) (Suc i) rest)"

definition output_result ::
  "(u8 list \<Rightarrow> USDBScriptHash) \<Rightarrow> Transaction \<Rightarrow> (nat \<times> u64 \<times> TxOut) option \<Rightarrow> SatPointResult" where
  "output_result script_hash tx found =
     (case found of
        Some (i, offset, vout_item) \<Rightarrow>
          \<lparr>sr_satpoint = \<lparr>sp_outpoint = \<lparr>op_txid = tx_txid tx, op_vout = of_nat i\<rparr>, sp_offset = offset\<rparr>,
           sr_value = to_value vout_item, sr_address = Some (script_hash (to_script vout_item))\<rparr>
      | None \<Rightarrow>
          \<lparr>sr_satpoint = \<lparr>sp_outpoint = \<lparr>op_txid = tx_txid tx, op_vout = of_nat (length (tx_output tx))\<rparr>,
             sp_offset = 0\<rparr>, sr_value = 0, sr_address = None\<rparr>)"

definition calc_output_satpoint ::
  "(OutPoint \<Rightarrow> u64 result) \<Rightarrow> (u8 list \<Rightarrow> USDBScriptHash) \<Rightarrow> Transaction \<Rightarrow> SatPoint \<Rightarrow>
   (utxo_cache, SatPointResult option) op" where
  "calc_output_satpoint client script_hash tx satpoint =
     (case vin_position (sp_outpoint satpoint) (tx_input tx) of
        None \<Rightarrow> ret None
      | Some vin_index \<Rightarrow>
          bindR (foldR (\<lambda>vin_outpoint pos.
              bindR (get_utxo client vin_outpoint) (\<lambda>amount. ret (pos + amount)))
            (take vin_index (tx_input tx)) 0) (\<lambda>pos.
          ret (Some (output_result script_hash tx
            (find_output (pos + sp_offset satpoint) 0 0 (tx_output tx))))))"

section \<open>The tracker\<close>

record InscriptionTransferItem =
  ti_inscription_id :: InscriptionId
  ti_block_height :: u32
  ti_prev_satpoint :: SatPoint
  ti_satpoint :: SatPoint
  ti_from_address :: USDBScriptHash
  ti_to_address :: "USDBScriptHash option"

record TransferTrackSeed =
  ts_inscription_id :: InscriptionId
  ts_owner :: USDBScriptHash
  ts_satpoint :: SatPoint

record InscriptionCreateInfo =
  ci_satpoint :: SatPoint
  ci_value :: u64
  ci_address :: "USDBScriptHash option"
  ci_commit_txid :: Txid
  ci_commit_outpoint :: OutPoint

type_synonym MultiMap = "OutPoint \<rightharpoonup> ValidMinerPassInfo list"

fun replace_or_push :: "ValidMinerPassInfo \<Rightarrow> ValidMinerPassInfo list \<Rightarrow> ValidMinerPassInfo list" where
  "replace_or_push v [] = [v]"
| "replace_or_push v (item # rest) =
     (if vp_inscription_id item = vp_inscription_id v then v # rest
      else item # replace_or_push v rest)"

definition mm_insert :: "OutPoint \<Rightarrow> ValidMinerPassInfo \<Rightarrow> MultiMap \<Rightarrow> MultiMap" where
  "mm_insert key v m =
     (case m key of Some vec \<Rightarrow> m(key \<mapsto> replace_or_push v vec) | None \<Rightarrow> m(key \<mapsto> [v]))"

definition mm_delete_value :: "OutPoint \<Rightarrow> InscriptionId \<Rightarrow> MultiMap \<Rightarrow> MultiMap" where
  "mm_delete_value key inscription_id m =
     (case m key of
        None \<Rightarrow> m
      | Some vec \<Rightarrow>
          (let vec = filter (\<lambda>item. vp_inscription_id item \<noteq> inscription_id) vec
           in if vec = [] then m(key := None) else m(key \<mapsto> vec)))"

text \<open>\<open>staged_blocks\<close> is an association list with one entry per height.\<close>

record InscriptionTransferTracker =
  tr_inscriptions :: MultiMap
  tr_staged_blocks :: "(u32 \<times> MultiMap) list"
  tr_utxo :: utxo_cache

definition on_utxo :: "(utxo_cache, 'a) op \<Rightarrow> (InscriptionTransferTracker, 'a) op" where
  "on_utxo = zoom tr_utxo (\<lambda>c t. t\<lparr>tr_utxo := c\<rparr>)"

subsection \<open>Loading from the pass database\<close>

definition PAGE_SIZE :: u64 where
  "PAGE_SIZE = 1024"

text \<open>The loop over the pages; \<open>None\<close> when the fuel runs out.\<close>

fun load_pages ::
  "nat \<Rightarrow> (MinerPassInfo list \<Rightarrow> MinerPassInfo list) \<Rightarrow> u64 \<Rightarrow> pass_db \<Rightarrow> MultiMap \<Rightarrow> MultiMap option" where
  "load_pages 0 ord page_index db m = None"
| "load_pages (Suc fuel) ord page_index db m =
     (let passes = get_all_valid_pass_by_page ord page_index PAGE_SIZE db;
          m' = fold (\<lambda>pass. mm_insert (sp_outpoint (vp_satpoint pass)) pass) passes m
      in if passes = [] then Some m
         else if length passes < unat PAGE_SIZE then Some m'
         else load_pages fuel ord (page_index + 1) db m')"

definition reload_from_storage ::
  "nat \<Rightarrow> (MinerPassInfo list \<Rightarrow> MinerPassInfo list) \<Rightarrow> pass_db \<Rightarrow> InscriptionTransferTracker \<Rightarrow>
   InscriptionTransferTracker option" where
  "reload_from_storage fuel ord db t =
     map_option (\<lambda>m. t\<lparr>tr_inscriptions := m, tr_staged_blocks := []\<rparr>) (load_pages fuel ord 0 db Map.empty)"

subsection \<open>Single inscriptions\<close>

definition remove_inscriptions_on_block_complete ::
  "InscriptionTransferItem list \<Rightarrow> InscriptionTransferTracker \<Rightarrow> InscriptionTransferTracker" where
  "remove_inscriptions_on_block_complete items t =
     t\<lparr>tr_inscriptions := fold (\<lambda>item. mm_delete_value (sp_outpoint (ti_satpoint item)) (ti_inscription_id item))
         items (tr_inscriptions t)\<rparr>"

definition add_new_inscription ::
  "InscriptionId \<Rightarrow> USDBScriptHash \<Rightarrow> SatPoint \<Rightarrow> InscriptionTransferTracker \<Rightarrow> InscriptionTransferTracker" where
  "add_new_inscription inscription_id own satpoint t =
     t\<lparr>tr_inscriptions := mm_insert (sp_outpoint satpoint)
         \<lparr>vp_inscription_id = inscription_id, vp_owner = own, vp_satpoint = satpoint\<rparr> (tr_inscriptions t)\<rparr>"

text \<open>\<open>envelope_inputs\<close> lists the input index of each inscription envelope of a transaction, in order.\<close>

definition calc_create_satpoint ::
  "(OutPoint \<Rightarrow> u64 result) \<Rightarrow> (u8 list \<Rightarrow> USDBScriptHash) \<Rightarrow> (Txid \<Rightarrow> Transaction result) \<Rightarrow>
   (Transaction \<Rightarrow> nat list) \<Rightarrow> InscriptionId \<Rightarrow> (InscriptionTransferTracker, InscriptionCreateInfo) op" where
  "calc_create_satpoint client script_hash get_transaction envelope_inputs inscription_id =
     bindR (getsR (\<lambda>_. get_transaction (ii_txid inscription_id))) (\<lambda>tx.
     let envelopes = envelope_inputs tx; index = unat (ii_index inscription_id) in
     if length envelopes \<le> index then fail (Err ''Invalid inscription index for transaction'')
     else
     let input_index = envelopes ! index in
     if length (tx_input tx) \<le> input_index then fail (Err ''Invalid envelope input index'')
     else
     let commit_outpoint = tx_input tx ! input_index in
     bindR (on_utxo (calc_output_satpoint client script_hash tx
         \<lparr>sp_outpoint = commit_outpoint, sp_offset = 0\<rparr>)) (\<lambda>res.
     case res of
       None \<Rightarrow> fail (Err ''No satpoint found for inscription'')
     | Some r \<Rightarrow> ret \<lparr>ci_satpoint = sr_satpoint r, ci_value = sr_value r, ci_address = sr_address r,
         ci_commit_txid = op_txid commit_outpoint, ci_commit_outpoint = commit_outpoint\<rparr>))"

subsection \<open>A block\<close>

definition transfer_item ::
  "u32 \<Rightarrow> ValidMinerPassInfo \<Rightarrow> SatPointResult \<Rightarrow> InscriptionTransferItem" where
  "transfer_item block_height existing_item r =
     \<lparr>ti_inscription_id = vp_inscription_id existing_item, ti_block_height = block_height,
      ti_prev_satpoint = vp_satpoint existing_item, ti_satpoint = sr_satpoint r,
      ti_from_address = vp_owner existing_item, ti_to_address = sr_address r\<rparr>"

text \<open>The working copy after one tracked pass was moved.\<close>

definition move_item :: "ValidMinerPassInfo \<Rightarrow> SatPointResult \<Rightarrow> MultiMap \<Rightarrow> MultiMap" where
  "move_item existing_item r working =
     (let working = mm_delete_value (sp_outpoint (vp_satpoint existing_item))
            (vp_inscription_id existing_item) working
      in case sr_address r of
           Some new_owner \<Rightarrow> mm_insert (sp_outpoint (sr_satpoint r))
             \<lparr>vp_inscription_id = vp_inscription_id existing_item, vp_owner = new_owner,
              vp_satpoint = sr_satpoint r\<rparr> working
         | None \<Rightarrow> working)"

definition process_existing ::
  "(OutPoint \<Rightarrow> u64 result) \<Rightarrow> (u8 list \<Rightarrow> USDBScriptHash) \<Rightarrow> u32 \<Rightarrow> Transaction \<Rightarrow> ValidMinerPassInfo \<Rightarrow>
   MultiMap \<times> InscriptionTransferItem list \<Rightarrow> (utxo_cache, MultiMap \<times> InscriptionTransferItem list) op" where
  "process_existing client script_hash block_height tx existing_item wi =
     bindR (calc_output_satpoint client script_hash tx (vp_satpoint existing_item)) (\<lambda>res.
     case res of
       None \<Rightarrow> fail (Err ''Failed to calculate output satpoint'')
     | Some r \<Rightarrow> ret (move_item existing_item r (fst wi), snd wi @ [transfer_item block_height existing_item r]))"

definition process_vin ::
  "(OutPoint \<Rightarrow> u64 result) \<Rightarrow> (u8 list \<Rightarrow> USDBScriptHash) \<Rightarrow> u32 \<Rightarrow> Transaction \<Rightarrow> OutPoint \<Rightarrow>
   MultiMap \<times> InscriptionTransferItem list \<Rightarrow> (utxo_cache, MultiMap \<times> InscriptionTransferItem list) op" where
  "process_vin client script_hash block_height tx vin wi =
     (case fst wi vin of
        None \<Rightarrow> ret wi
      | Some existing_items \<Rightarrow>
          foldR (process_existing client script_hash block_height tx) existing_items wi)"

definition process_tx ::
  "(OutPoint \<Rightarrow> u64 result) \<Rightarrow> (u8 list \<Rightarrow> USDBScriptHash) \<Rightarrow> u32 \<Rightarrow> Transaction \<Rightarrow>
   MultiMap \<times> InscriptionTransferItem list \<Rightarrow> (utxo_cache, MultiMap \<times> InscriptionTransferItem list) op" where
  "process_tx client script_hash block_height tx wi =
     foldR (process_vin client script_hash block_height tx) (tx_input tx) wi"

definition add_seed :: "TransferTrackSeed \<Rightarrow> MultiMap \<Rightarrow> MultiMap" where
  "add_seed seed = mm_insert (sp_outpoint (ts_satpoint seed))
     \<lparr>vp_inscription_id = ts_inscription_id seed, vp_owner = ts_owner seed, vp_satpoint = ts_satpoint seed\<rparr>"

definition process_block_with_hint ::
  "(OutPoint \<Rightarrow> u64 result) \<Rightarrow> (u8 list \<Rightarrow> USDBScriptHash) \<Rightarrow> (u32 \<Rightarrow> Transaction list result) \<Rightarrow> u32 \<Rightarrow>
   Transaction list option \<Rightarrow> TransferTrackSeed list \<Rightarrow>
   (InscriptionTransferTracker, InscriptionTransferItem list) op" where
  "process_block_with_hint client script_hash get_block block_height block_hint extra =
     bindR (gets tr_staged_blocks) (\<lambda>staged.
     if staged \<noteq> [] then fail (Err ''Uncommitted staged transfer state exists before processing block'')
     else
     bindR (getsR (\<lambda>_. case block_hint of Some block \<Rightarrow> Inr block | None \<Rightarrow> get_block block_height)) (\<lambda>txdata.
     bindR (gets (\<lambda>t. fold add_seed extra (tr_inscriptions t))) (\<lambda>working.
     bindR (on_utxo (foldR (process_tx client script_hash block_height) txdata (working, []))) (\<lambda>(working, items).
     bindR (gets tr_staged_blocks) (\<lambda>staged.
     bindR (modify (\<lambda>t. t\<lparr>tr_staged_blocks := AList.update block_height working (tr_staged_blocks t)\<rparr>)) (\<lambda>_.
     bindR (guardR (map_of staged block_height = None)
       (Err ''Staged transfer state already exists when processing the block'')) (\<lambda>_.
     ret items)))))))"

definition process_block ::
  "(OutPoint \<Rightarrow> u64 result) \<Rightarrow> (u8 list \<Rightarrow> USDBScriptHash) \<Rightarrow> (u32 \<Rightarrow> Transaction list result) \<Rightarrow> u32 \<Rightarrow>
   (InscriptionTransferTracker, InscriptionTransferItem list) op" where
  "process_block client script_hash get_block block_height =
     process_block_with_hint client script_hash get_block block_height None []"

definition commit_staged_block :: "u32 \<Rightarrow> (InscriptionTransferTracker, unit) op" where
  "commit_staged_block block_height =
     bindR (gets (\<lambda>t. map_of (tr_staged_blocks t) block_height)) (\<lambda>staged_map.
     case staged_map of
       None \<Rightarrow> fail (Err ''No staged transfer state found for commit'')
     | Some staged_map \<Rightarrow>
         modify (\<lambda>t. t\<lparr>tr_staged_blocks := AList.delete block_height (tr_staged_blocks t),
                       tr_inscriptions := staged_map\<rparr>))"

definition rollback_staged_block :: "u32 \<Rightarrow> (InscriptionTransferTracker, unit) op" where
  "rollback_staged_block block_height =
     bindR (gets (\<lambda>t. map_of (tr_staged_blocks t) block_height)) (\<lambda>staged_map.
     case staged_map of
       None \<Rightarrow> fail (Err ''No staged transfer state found for rollback'')
     | Some _ \<Rightarrow> modify (\<lambda>t. t\<lparr>tr_staged_blocks := AList.delete block_height (tr_staged_blocks t)\<rparr>))"

section \<open>Where a satoshi goes\<close>

text \<open>What the tracker needs of the source of UTXO values: it answers, and always the same.\<close>

locale utxo_source =
  fixes fetch :: "OutPoint \<Rightarrow> ('s, u64) op" and ok :: "'s \<Rightarrow> bool" and amount :: "OutPoint \<Rightarrow> u64"
  assumes fetch_ok: "ok s \<Longrightarrow> \<exists>s'. fetch p s = (Inr (amount p), s') \<and> ok s'"
begin

lemma sum_fetched:
  "ok s \<Longrightarrow> \<exists>s'. foldR (\<lambda>v pos. bindR (fetch v) (\<lambda>a. ret (pos + a))) vs p s =
     (Inr (p + sum_list (map amount vs)), s') \<and> ok s'"
proof (induction vs arbitrary: p s)
  case (Cons v vs)
  from fetch_ok [OF Cons.prems, of v] obtain s1 where s1: "fetch v s = (Inr (amount v), s1)" "ok s1" by blast
  from Cons.IH [OF s1(2), of "p + amount v"] s1(1) show ?case by (simp add: bindR_def ac_simps)
qed simp

end

definition cache_ok :: "(OutPoint \<Rightarrow> u64) \<Rightarrow> utxo_cache \<Rightarrow> bool" where
  "cache_ok amount c \<longleftrightarrow> (\<forall>p v. c p = Some v \<longrightarrow> v = amount p)"

interpretation cached: utxo_source "get_utxo (\<lambda>p. Inr (amount p))" "cache_ok amount" amount for amount
proof
  fix s p assume ok: "cache_ok amount s"
  show "\<exists>s'. get_utxo (\<lambda>p. Inr (amount p)) p s = (Inr (amount p), s') \<and> cache_ok amount s'"
  proof (cases "s p")
    case None
    with ok show ?thesis by (simp add: get_utxo_def cache_ok_def)
  next
    case (Some a)
    with ok show ?thesis by (simp add: get_utxo_def cache_ok_def)
  qed
qed

text \<open>The reference: the satoshis of the inputs, in order, fill the outputs, in order.\<close>

definition satpoint_after ::
  "(OutPoint \<Rightarrow> u64) \<Rightarrow> (u8 list \<Rightarrow> USDBScriptHash) \<Rightarrow> Transaction \<Rightarrow> SatPoint \<Rightarrow> SatPointResult option" where
  "satpoint_after amount script_hash tx sp =
     map_option (\<lambda>k. output_result script_hash tx
         (find_output (sum_list (map amount (take k (tx_input tx))) + sp_offset sp) 0 0 (tx_output tx)))
       (vin_position (sp_outpoint sp) (tx_input tx))"

lemma calc_output_satpoint_pure:
  assumes "cache_ok amount c"
  obtains c' where "calc_output_satpoint (\<lambda>p. Inr (amount p)) script_hash tx sp c =
      (Inr (satpoint_after amount script_hash tx sp), c')" and "cache_ok amount c'"
proof (cases "vin_position (sp_outpoint sp) (tx_input tx)")
  case None
  then show thesis using that assms by (simp add: calc_output_satpoint_def satpoint_after_def)
next
  case (Some k)
  obtain c' where "foldR (\<lambda>v pos. bindR (get_utxo (\<lambda>p. Inr (amount p)) v) (\<lambda>a. ret (pos + a)))
      (take k (tx_input tx)) 0 c = (Inr (0 + sum_list (map amount (take k (tx_input tx)))), c')" "cache_ok amount c'"
    using cached.sum_fetched [OF assms, of "take k (tx_input tx)" 0] by blast
  then show thesis using that Some by (simp add: calc_output_satpoint_def satpoint_after_def)
qed

lemma vin_position_Some:
  "vin_position p vs = Some k \<Longrightarrow> k < length vs \<and> vs ! k = p \<and> p \<notin> set (take k vs)"
  by (induction vs arbitrary: k) (auto split: if_splits)

lemma vin_position_None [simp]: "vin_position p vs = None \<longleftrightarrow> p \<notin> set vs"
  by (induction vs) auto

definition values_before :: "nat \<Rightarrow> TxOut list \<Rightarrow> nat" where
  "values_before i outs = sum_list (map (\<lambda>t. unat (to_value t)) (take i outs))"

lemma values_before_simps [simp]:
  "values_before 0 outs = 0" "values_before (Suc i) (t # outs) = unat (to_value t) + values_before i outs"
  by (simp_all add: values_before_def)

lemma find_output_exact:
  assumes "unat cur + values_before (length outs) outs < 2 ^ 64" and "cur \<le> pos"
  shows "case find_output pos cur j outs of
      Some (i, off, t) \<Rightarrow> \<exists>n < length outs. i = j + n \<and> t = outs ! n \<and>
        unat pos = unat cur + values_before n outs + unat off \<and> off < to_value t
    | None \<Rightarrow> unat cur + values_before (length outs) outs \<le> unat pos"
  using assms
proof (induction outs arbitrary: cur j)
  case Nil
  then show ?case by (simp add: word_le_nat_alt)
next
  case (Cons t outs)
  have u: "unat (cur + to_value t) = unat cur + unat (to_value t)"
    using Cons.prems(1) by (simp add: unat_word_ariths)
  show ?case
  proof (cases "pos < cur + to_value t")
    case True
    have s: "unat (pos - cur) = unat pos - unat cur" using Cons.prems(2) by (rule unat_sub)
    have le: "unat cur \<le> unat pos" using Cons.prems(2) by (simp add: word_le_nat_alt)
    have "unat pos < unat cur + unat (to_value t)" using True u by (simp add: word_less_nat_alt)
    with s le have "unat (pos - cur) < unat (to_value t)" by simp
    then have "pos - cur < to_value t" by (simp add: word_less_nat_alt)
    with True Cons.prems(2) s le show ?thesis by (auto intro!: exI [of _ 0])
  next
    case False
    have "case find_output pos (cur + to_value t) (Suc j) outs of
        Some (i, off, t') \<Rightarrow> \<exists>n < length outs. i = Suc j + n \<and> t' = outs ! n \<and>
          unat pos = unat (cur + to_value t) + values_before n outs + unat off \<and> off < to_value t'
      | None \<Rightarrow> unat (cur + to_value t) + values_before (length outs) outs \<le> unat pos"
      by (rule Cons.IH) (use Cons.prems(1) False u in \<open>simp_all add: not_less\<close>)
    with False u show ?thesis
      by (cases "find_output pos (cur + to_value t) (Suc j) outs") (force intro: exI [of _ "Suc _"])+
  qed
qed

lemma unat_sum_list:
  "sum_list (map (\<lambda>x. unat (f x :: u64)) xs) < 2 ^ 64 \<Longrightarrow> unat (sum_list (map f xs)) = sum_list (map (\<lambda>x. unat (f x)) xs)"
proof (induction xs)
  case (Cons x xs)
  then have "unat (sum_list (map f xs)) = sum_list (map (\<lambda>x. unat (f x)) xs)" by simp
  with Cons.prems show ?case by (simp add: unat_word_ariths)
qed simp

text \<open>The position of a satoshi among the satoshis of the inputs, before the sum is taken in 64 bits.\<close>

definition sat_position :: "(OutPoint \<Rightarrow> u64) \<Rightarrow> Transaction \<Rightarrow> SatPoint \<Rightarrow> nat" where
  "sat_position amount tx sp = sum_list (map (\<lambda>p. unat (amount p)) (takeWhile (\<lambda>p. p \<noteq> sp_outpoint sp) (tx_input tx))) +
     unat (sp_offset sp)"

text \<open>A transaction of the chain: no input twice, none of its own outputs, and values that fit.\<close>

definition tx_ok :: "(OutPoint \<Rightarrow> u64) \<Rightarrow> Transaction \<Rightarrow> bool" where
  "tx_ok amount tx \<longleftrightarrow> distinct (tx_input tx) \<and> (\<forall>p \<in> set (tx_input tx). op_txid p \<noteq> tx_txid tx) \<and>
     sum_list (map (\<lambda>p. unat (amount p)) (tx_input tx)) < 2 ^ 64 \<and>
     values_before (length (tx_output tx)) (tx_output tx) < 2 ^ 64 \<and> length (tx_output tx) < 2 ^ 32"

lemma take_vin_position: "vin_position p vs = Some k \<Longrightarrow> take k vs = takeWhile (\<lambda>q. q \<noteq> p) vs"
  by (induction vs arbitrary: k) (auto split: if_splits)

lemma sum_list_take_le: "sum_list (map f (take k xs)) \<le> (sum_list (map f xs) :: nat)"
  by (metis append_take_drop_id le_add1 map_append sum_list_append)

lemma sat_position_word:
  assumes ok: "tx_ok amount tx" and sp: "sp_outpoint sp \<in> set (tx_input tx)"
    and off: "sp_offset sp < amount (sp_outpoint sp)" and k: "vin_position (sp_outpoint sp) (tx_input tx) = Some k"
  shows "unat (sum_list (map amount (take k (tx_input tx))) + sp_offset sp) = sat_position amount tx sp"
proof -
  let ?u = "\<lambda>p. unat (amount p)"
  have kk: "k < length (tx_input tx)" "tx_input tx ! k = sp_outpoint sp" using vin_position_Some [OF k] by simp_all
  have "sum_list (map ?u (take (Suc k) (tx_input tx))) \<le> sum_list (map ?u (tx_input tx))" by (rule sum_list_take_le)
  then have "sum_list (map ?u (take k (tx_input tx))) + ?u (sp_outpoint sp) < 2 ^ 64"
    using ok kk by (simp add: tx_ok_def take_Suc_conv_app_nth)
  moreover have "unat (sp_offset sp) < ?u (sp_outpoint sp)" using off by (simp add: word_less_nat_alt)
  ultimately have b: "sum_list (map ?u (take k (tx_input tx))) + unat (sp_offset sp) < 2 ^ 64" by linarith
  then have "unat (sum_list (map amount (take k (tx_input tx)))) = sum_list (map ?u (take k (tx_input tx)))"
    by (intro unat_sum_list) linarith
  with b take_vin_position [OF k] show ?thesis by (simp add: unat_word_ariths sat_position_def)
qed

text \<open>Where the reference puts a satoshi: output \<open>n\<close> at an offset, or the fee.\<close>

lemma satpoint_after_cases:
  assumes ok: "tx_ok amount tx" and sp: "sp_outpoint sp \<in> set (tx_input tx)"
    and off: "sp_offset sp < amount (sp_outpoint sp)"
  obtains (out) n r where "satpoint_after amount script_hash tx sp = Some r" "n < length (tx_output tx)"
      "op_txid (sp_outpoint (sr_satpoint r)) = tx_txid tx" "unat (op_vout (sp_outpoint (sr_satpoint r))) = n"
      "sat_position amount tx sp = values_before n (tx_output tx) + unat (sp_offset (sr_satpoint r))"
      "sp_offset (sr_satpoint r) < to_value (tx_output tx ! n)"
      "sr_address r = Some (script_hash (to_script (tx_output tx ! n)))"
  | (fee) r where "satpoint_after amount script_hash tx sp = Some r" "sr_address r = None"
      "values_before (length (tx_output tx)) (tx_output tx) \<le> sat_position amount tx sp"
proof -
  from sp obtain k where k: "vin_position (sp_outpoint sp) (tx_input tx) = Some k"
    by (cases "vin_position (sp_outpoint sp) (tx_input tx)") auto
  let ?pos = "sum_list (map amount (take k (tx_input tx))) + sp_offset sp"
  note pos = sat_position_word [OF ok sp off k]
  have b: "unat (0 :: u64) + values_before (length (tx_output tx)) (tx_output tx) < 2 ^ 64" "0 \<le> ?pos"
    using ok by (simp_all add: tx_ok_def)
  have r: "satpoint_after amount script_hash tx sp = Some (output_result script_hash tx (find_output ?pos 0 0 (tx_output tx)))"
    by (simp add: satpoint_after_def k)
  show thesis
  proof (cases "find_output ?pos 0 0 (tx_output tx)")
    case None
    then show thesis using fee [OF r] find_output_exact [OF b, of 0] pos by (simp add: output_result_def)
  next
    case (Some x)
    obtain i o' t where x: "x = (i, o', t)" by (cases x)
    have e: "i < length (tx_output tx)" "t = tx_output tx ! i" "unat ?pos = values_before i (tx_output tx) + unat o'"
      "o' < to_value t" using find_output_exact [OF b, of 0] by (auto simp: Some x)
    have "unat (of_nat i :: u32) = i" using e(1) ok by (simp add: tx_ok_def unat_of_nat)
    then show thesis using out [OF r e(1)] e pos by (simp add: output_result_def Some x)
  qed
qed

text \<open>C29: where a satoshi goes.  In a transaction of the chain, for a satoshi of one of its inputs,
  \<open>calc_output_satpoint\<close> succeeds whatever is cached, and answers by ordinal theory: counting the
  satoshis of the inputs in order, the satoshi at position P lands in the output \<open>n\<close> and at the offset
  with P = values of the outputs before \<open>n\<close> + offset and offset below the value of \<open>n\<close>, and its owner is
  the script hash of that output; it is spent as fee exactly when P is beyond all outputs.\<close>

theorem calc_output_satpoint_exact:
  assumes "tx_ok amount tx" and "sp_outpoint sp \<in> set (tx_input tx)" and "sp_offset sp < amount (sp_outpoint sp)"
    and "cache_ok amount c"
  shows "\<exists>r c'. calc_output_satpoint (\<lambda>p. Inr (amount p)) script_hash tx sp c = (Inr (Some r), c') \<and> cache_ok amount c' \<and>
    (sr_address r = None \<longleftrightarrow> values_before (length (tx_output tx)) (tx_output tx) \<le> sat_position amount tx sp) \<and>
    (sr_address r \<noteq> None \<longrightarrow> (\<exists>n < length (tx_output tx).
       sp_outpoint (sr_satpoint r) = \<lparr>op_txid = tx_txid tx, op_vout = of_nat n\<rparr> \<and>
       sat_position amount tx sp = values_before n (tx_output tx) + unat (sp_offset (sr_satpoint r)) \<and>
       sp_offset (sr_satpoint r) < to_value (tx_output tx ! n) \<and>
       sr_address r = Some (script_hash (to_script (tx_output tx ! n)))))"
proof -
  obtain c' where c': "calc_output_satpoint (\<lambda>p. Inr (amount p)) script_hash tx sp c =
      (Inr (satpoint_after amount script_hash tx sp), c')" "cache_ok amount c'"
    by (rule calc_output_satpoint_pure [OF assms(4)]) (rule that)
  show ?thesis
  proof (cases rule: satpoint_after_cases [OF assms(1-3), of script_hash, case_names out fee])
    case (out n r)
    have "values_before n (tx_output tx) + unat (to_value (tx_output tx ! n)) = values_before (Suc n) (tx_output tx)"
      using out(2) by (simp add: values_before_def take_Suc_conv_app_nth)
    also have "\<dots> \<le> values_before (length (tx_output tx)) (tx_output tx)"
      using sum_list_take_le [of "\<lambda>t. unat (to_value t)" "Suc n" "tx_output tx"] by (simp add: values_before_def)
    finally have "sat_position amount tx sp < values_before (length (tx_output tx)) (tx_output tx)"
      using out(5,6) by (simp add: word_less_nat_alt)
    moreover have "sp_outpoint (sr_satpoint r) = \<lparr>op_txid = tx_txid tx, op_vout = of_nat n\<rparr>"
      using out(3,4) by (auto intro!: OutPoint.equality)
    ultimately show ?thesis using c' out by auto
  next
    case (fee r)
    then show ?thesis using c' by auto
  qed
qed

definition sample_tx :: Transaction where
  "sample_tx = \<lparr>tx_txid = 9, tx_input = [\<lparr>op_txid = 1, op_vout = 0\<rparr>, \<lparr>op_txid = 2, op_vout = 0\<rparr>],
     tx_output = [\<lparr>to_value = 600, to_script = [1]\<rparr>, \<lparr>to_value = 800, to_script = [2]\<rparr>]\<rparr>"

definition sample_script_hash :: "u8 list \<Rightarrow> USDBScriptHash" where
  "sample_script_hash bs = ucast (hd bs)"

lemma sample_tx_ok: "tx_ok (\<lambda>_. 1000) sample_tx"
  by (simp add: tx_ok_def sample_tx_def values_before_def)

theorem calc_output_satpoint_exact_witness:
  "\<exists>r c'. calc_output_satpoint (\<lambda>_. Inr 1000) sample_script_hash sample_tx
      \<lparr>sp_outpoint = \<lparr>op_txid = 2, op_vout = 0\<rparr>, sp_offset = 50\<rparr> Map.empty = (Inr (Some r), c') \<and>
    sr_address r \<noteq> None"
proof -
  let ?sp = "\<lparr>sp_outpoint = \<lparr>op_txid = 2, op_vout = 0\<rparr>, sp_offset = 50\<rparr> :: SatPoint"
  have "sp_outpoint ?sp \<in> set (tx_input sample_tx)" by (simp add: sample_tx_def)
  moreover have "\<not> values_before (length (tx_output sample_tx)) (tx_output sample_tx) \<le> sat_position (\<lambda>_. 1000) sample_tx ?sp"
    by (simp add: sample_tx_def values_before_def sat_position_def)
  moreover have "cache_ok (\<lambda>_. 1000) Map.empty" by (simp add: cache_ok_def)
  ultimately show ?thesis
    using calc_output_satpoint_exact [OF sample_tx_ok, of ?sp Map.empty sample_script_hash] by fastforce
qed

lemma sat_position_inj:
  assumes ok: "tx_ok amount tx" and a: "sp_outpoint a \<in> set (tx_input tx)" "sp_offset a < amount (sp_outpoint a)"
    and b: "sp_outpoint b \<in> set (tx_input tx)" "sp_offset b < amount (sp_outpoint b)"
    and eq: "sat_position amount tx a = sat_position amount tx b"
  shows "a = b"
proof -
  have step: False
    if k: "vin_position (sp_outpoint x) (tx_input tx) = Some k" "vin_position (sp_outpoint y) (tx_input tx) = Some l"
      "k < l" and xo: "sp_offset x < amount (sp_outpoint x)" and e: "sat_position amount tx x = sat_position amount tx y"
    for x y k l
  proof -
    let ?u = "\<lambda>p. unat (amount p)"
    have kk: "k < length (tx_input tx)" "tx_input tx ! k = sp_outpoint x" using vin_position_Some [OF k(1)] by simp_all
    have "sum_list (map ?u (take k (tx_input tx))) + ?u (sp_outpoint x) = sum_list (map ?u (take (Suc k) (tx_input tx)))"
      using kk by (simp add: take_Suc_conv_app_nth)
    also have "\<dots> \<le> sum_list (map ?u (take l (tx_input tx)))"
      using sum_list_take_le [of ?u "Suc k" "take l (tx_input tx)"] k(3) by (simp add: min_def)
    finally show False
      using e xo k by (simp add: sat_position_def take_vin_position [symmetric] word_less_nat_alt)
  qed
  obtain k where k: "vin_position (sp_outpoint a) (tx_input tx) = Some k" using a(1) by (metis vin_position_None not_None_eq)
  obtain l where l: "vin_position (sp_outpoint b) (tx_input tx) = Some l" using b(1) by (metis vin_position_None not_None_eq)
  have "\<not> k < l" using step [OF k l _ a(2) eq] by blast
  moreover have "\<not> l < k" using step [OF l k _ b(2) eq [symmetric]] by blast
  ultimately have "k = l" by simp
  then have "sp_outpoint a = sp_outpoint b" using vin_position_Some [OF k] vin_position_Some [OF l] by simp
  moreover from this have "sp_offset a = sp_offset b" using eq by (simp add: sat_position_def word_unat_eq_iff)
  ultimately show ?thesis by (auto intro: SatPoint.equality)
qed

text \<open>C30: two inscriptions on different satoshis never meet.  If two satoshis of inputs of a transaction
  of the chain land on the same satpoint of an output, they are the same satoshi.\<close>

theorem distinct_satoshis_stay_distinct:
  assumes "tx_ok amount tx" and "sp_outpoint a \<in> set (tx_input tx)" and "sp_offset a < amount (sp_outpoint a)"
    and "sp_outpoint b \<in> set (tx_input tx)" and "sp_offset b < amount (sp_outpoint b)"
    and "calc_output_satpoint (\<lambda>p. Inr (amount p)) script_hash tx a c = (Inr (Some ra), ca)"
    and "calc_output_satpoint (\<lambda>p. Inr (amount p)) script_hash tx b d = (Inr (Some rb), cb)"
    and "cache_ok amount c" and "cache_ok amount d"
    and "sr_address ra \<noteq> None" and "sr_address rb \<noteq> None" and "sr_satpoint ra = sr_satpoint rb"
  shows "a = b"
proof -
  have ra: "satpoint_after amount script_hash tx a = Some ra"
    using assms(6) calc_output_satpoint_pure [OF assms(8), of script_hash tx a] by (metis Inr_inject prod.inject)
  have rb: "satpoint_after amount script_hash tx b = Some rb"
    using assms(7) calc_output_satpoint_pure [OF assms(9), of script_hash tx b] by (metis Inr_inject prod.inject)
  have "sat_position amount tx a = sat_position amount tx b"
  proof (cases rule: satpoint_after_cases [OF assms(1-3), of script_hash, case_names out fee])
    case (out n r)
    note o1 = out
    show ?thesis
    proof (cases rule: satpoint_after_cases [OF assms(1,4,5), of script_hash, case_names out fee])
      case (out n' r')
      with o1 ra rb assms(12) show ?thesis by simp
    qed (use rb assms(11) in simp)
  qed (use ra assms(10) in simp)
  with assms(1-5) show ?thesis by (rule sat_position_inj)
qed

definition sample_sat :: "u64 \<Rightarrow> SatPoint" where
  "sample_sat off = \<lparr>sp_outpoint = \<lparr>op_txid = 2, op_vout = 0\<rparr>, sp_offset = off\<rparr>"

lemma sample_sat_moves:
  assumes "off = 50 \<or> off = 51"
  obtains c' r where "calc_output_satpoint (\<lambda>_. Inr 1000) sample_script_hash sample_tx (sample_sat off) Map.empty =
    (Inr (Some r), c')" and "sr_address r \<noteq> None"
proof -
  have "satpoint_after (\<lambda>_. 1000) sample_script_hash sample_tx (sample_sat off) \<noteq> None \<and>
      sr_address (the (satpoint_after (\<lambda>_. 1000) sample_script_hash sample_tx (sample_sat off))) \<noteq> None"
    using assms by (auto simp: satpoint_after_def sample_sat_def sample_tx_def output_result_def)
  moreover obtain c' where "calc_output_satpoint (\<lambda>_. Inr 1000) sample_script_hash sample_tx (sample_sat off) Map.empty =
      (Inr (satpoint_after (\<lambda>_. 1000) sample_script_hash sample_tx (sample_sat off)), c')"
    by (rule calc_output_satpoint_pure [of "\<lambda>_. 1000" Map.empty]) (simp add: cache_ok_def, rule that)
  ultimately show thesis using that by auto
qed

theorem distinct_satoshis_stay_distinct_witness:
  "\<exists>ra rb ca cb.
    calc_output_satpoint (\<lambda>_. Inr 1000) sample_script_hash sample_tx (sample_sat 50) Map.empty = (Inr (Some ra), ca) \<and>
    calc_output_satpoint (\<lambda>_. Inr 1000) sample_script_hash sample_tx (sample_sat 51) Map.empty = (Inr (Some rb), cb) \<and>
    sr_satpoint ra \<noteq> sr_satpoint rb"
proof -
  obtain ca ra where a: "calc_output_satpoint (\<lambda>_. Inr 1000) sample_script_hash sample_tx (sample_sat 50) Map.empty =
    (Inr (Some ra), ca)" "sr_address ra \<noteq> None" by (rule sample_sat_moves [of 50]) (simp, rule that)
  obtain cb rb where b: "calc_output_satpoint (\<lambda>_. Inr 1000) sample_script_hash sample_tx (sample_sat 51) Map.empty =
    (Inr (Some rb), cb)" "sr_address rb \<noteq> None" by (rule sample_sat_moves [of 51]) (simp, rule that)
  have i: "sp_outpoint (sample_sat off) \<in> set (tx_input sample_tx)" for off by (simp add: sample_tx_def sample_sat_def)
  have o: "sp_offset (sample_sat 50) < 1000" "sp_offset (sample_sat 51) < 1000" by (simp_all add: sample_sat_def)
  have c: "cache_ok (\<lambda>_. 1000) Map.empty" by (simp add: cache_ok_def)
  have "sample_sat 50 \<noteq> sample_sat 51" by (simp add: sample_sat_def)
  then have "sr_satpoint ra \<noteq> sr_satpoint rb"
    using distinct_satoshis_stay_distinct [OF sample_tx_ok i o(1) i o(2) a(1) b(1) c c a(2) b(2)] by blast
  with a b show ?thesis by blast
qed

end
