(* ===== verification/Transfer_Blocks.thy ===== *)
theory Transfer_Blocks
  imports Transfer_Tracker
begin

text \<open>
  The transfer tracker of \<open>index/transfer.rs\<close> on whole blocks: its table as a set of tracked passes,
  what a transaction and a block do to that set, the staged copy, and the reload from the pass
  database.
\<close>

section \<open>The table as a set of passes\<close>

abbreviation outpoint_of :: "ValidMinerPassInfo \<Rightarrow> OutPoint" where
  "outpoint_of v \<equiv> sp_outpoint (vp_satpoint v)"

definition tracked :: "MultiMap \<Rightarrow> ValidMinerPassInfo set" where
  "tracked m = {v. \<exists>vec. m (outpoint_of v) = Some vec \<and> v \<in> set vec}"

lemma tracked_iff: "v \<in> tracked m \<longleftrightarrow> (case m (outpoint_of v) of None \<Rightarrow> False | Some vec \<Rightarrow> v \<in> set vec)"
  by (auto simp: tracked_def split: option.splits)

definition mm_ok :: "MultiMap \<Rightarrow> bool" where
  "mm_ok m \<longleftrightarrow> (\<forall>p vec. m p = Some vec \<longrightarrow> vec \<noteq> [] \<and> (\<forall>v \<in> set vec. outpoint_of v = p) \<and> distinct vec) \<and>
     inj_on vp_inscription_id (tracked m)"

lemma mm_ok_empty: "mm_ok Map.empty" and tracked_empty [simp]: "tracked Map.empty = {}"
  by (simp_all add: mm_ok_def tracked_def)

lemma mm_okD:
  assumes ok: "mm_ok m" and p: "m p = Some vec"
  shows "set vec = {v \<in> tracked m. outpoint_of v = p}" and "distinct vec" and "vec \<noteq> []"
proof -
  have k: "vec \<noteq> []" "\<forall>v \<in> set vec. outpoint_of v = p" "distinct vec"
    using ok p unfolding mm_ok_def by blast+
  then show "distinct vec" "vec \<noteq> []" by blast+
  show "set vec = {v \<in> tracked m. outpoint_of v = p}"
  proof (rule set_eqI)
    fix v
    show "v \<in> set vec \<longleftrightarrow> v \<in> {v \<in> tracked m. outpoint_of v = p}"
      using p bspec [OF k(2), of v] by (cases "outpoint_of v = p") (simp_all add: tracked_iff, blast)
  qed
qed

lemma mm_ok_None: "mm_ok m \<Longrightarrow> m p = None \<Longrightarrow> {v \<in> tracked m. outpoint_of v = p} = {}"
  by (auto simp: tracked_def)

lemma replace_or_push_new:
  "vp_inscription_id v \<notin> vp_inscription_id ` set vec \<Longrightarrow> replace_or_push v vec = vec @ [v]"
  by (induction vec) auto

lemma mm_insert_new:
  assumes ok: "mm_ok m" and new: "vp_inscription_id v \<notin> vp_inscription_id ` tracked m"
  shows "mm_ok (mm_insert (outpoint_of v) v m)" and "tracked (mm_insert (outpoint_of v) v m) = insert v (tracked m)"
proof -
  have e: "mm_insert (outpoint_of v) v m = m(outpoint_of v \<mapsto> (case m (outpoint_of v) of None \<Rightarrow> [] | Some vec \<Rightarrow> vec) @ [v])"
  proof (cases "m (outpoint_of v)")
    case (Some vec)
    then have "vp_inscription_id v \<notin> vp_inscription_id ` set vec" using new mm_okD(1) [OF ok Some] by auto
    with Some show ?thesis by (simp add: mm_insert_def replace_or_push_new)
  qed (simp add: mm_insert_def)
  show t: "tracked (mm_insert (outpoint_of v) v m) = insert v (tracked m)"
    unfolding e by (auto simp: tracked_def split: option.splits)
  have "v \<notin> tracked m" using new by blast
  with ok new show "mm_ok (mm_insert (outpoint_of v) v m)"
    unfolding mm_ok_def t unfolding e by (auto simp: tracked_def split: option.splits if_splits)
qed

lemma mm_delete_tracked:
  assumes ok: "mm_ok m" and v: "v \<in> tracked m"
  shows "mm_ok (mm_delete_value (outpoint_of v) (vp_inscription_id v) m)"
    and "tracked (mm_delete_value (outpoint_of v) (vp_inscription_id v) m) = tracked m - {v}"
proof -
  obtain vec where vec: "m (outpoint_of v) = Some vec" "v \<in> set vec" using v by (auto simp: tracked_def)
  have f: "filter (\<lambda>x. vp_inscription_id x \<noteq> vp_inscription_id v) vec = filter (\<lambda>x. x \<noteq> v) vec"
  proof (rule filter_cong [OF refl])
    fix x assume "x \<in> set vec"
    then have "x \<in> tracked m" using mm_okD(1) [OF ok vec(1)] by simp
    with v ok show "vp_inscription_id x \<noteq> vp_inscription_id v \<longleftrightarrow> x \<noteq> v" by (auto simp: mm_ok_def dest: inj_onD)
  qed
  let ?m = "mm_delete_value (outpoint_of v) (vp_inscription_id v) m"
  have e: "?m p = (if p = outpoint_of v then (if filter (\<lambda>x. x \<noteq> v) vec = [] then None else Some (filter (\<lambda>x. x \<noteq> v) vec))
      else m p)" for p
    using vec f by (simp add: mm_delete_value_def Let_def)
  show t: "tracked ?m = tracked m - {v}"
  proof (rule set_eqI)
    fix x
    show "x \<in> tracked ?m \<longleftrightarrow> x \<in> tracked m - {v}"
    proof (cases "outpoint_of x = outpoint_of v")
      case True
      have "x \<in> tracked m \<longleftrightarrow> x \<in> set vec" unfolding tracked_iff True vec(1) by simp
      moreover have "x \<in> tracked ?m \<longleftrightarrow> x \<in> set (filter (\<lambda>x. x \<noteq> v) vec)" unfolding tracked_iff e True
        by (simp add: filter_empty_conv)
      ultimately show ?thesis by simp
    next
      case False
      then have "x \<in> tracked ?m \<longleftrightarrow> x \<in> tracked m" unfolding tracked_iff e by simp
      with False show ?thesis by auto
    qed
  qed
  have "inj_on vp_inscription_id (tracked m - {v})" using ok by (auto simp: mm_ok_def intro: inj_on_subset)
  moreover have "\<forall>p vec. ?m p = Some vec \<longrightarrow> vec \<noteq> [] \<and> (\<forall>v \<in> set vec. outpoint_of v = p) \<and> distinct vec"
    unfolding e using ok vec(1) by (auto simp: mm_ok_def split: if_splits)
  ultimately show "mm_ok ?m" unfolding mm_ok_def t by blast
qed

section \<open>One transaction\<close>

text \<open>The pass after it was moved to where its satoshi went; a fee loses it.\<close>

definition moved_to :: "ValidMinerPassInfo \<Rightarrow> SatPointResult \<Rightarrow> ValidMinerPassInfo option" where
  "moved_to v r = map_option (\<lambda>own. \<lparr>vp_inscription_id = vp_inscription_id v, vp_owner = own,
     vp_satpoint = sr_satpoint r\<rparr>) (sr_address r)"

definition move_pass ::
  "(OutPoint \<Rightarrow> u64) \<Rightarrow> (u8 list \<Rightarrow> USDBScriptHash) \<Rightarrow> Transaction \<Rightarrow> ValidMinerPassInfo \<Rightarrow> ValidMinerPassInfo option" where
  "move_pass amount sh tx v =
     (case satpoint_after amount sh tx (vp_satpoint v) of None \<Rightarrow> Some v | Some r \<Rightarrow> moved_to v r)"

definition move_items ::
  "(OutPoint \<Rightarrow> u64) \<Rightarrow> (u8 list \<Rightarrow> USDBScriptHash) \<Rightarrow> u32 \<Rightarrow> Transaction \<Rightarrow> ValidMinerPassInfo \<Rightarrow> InscriptionTransferItem list" where
  "move_items amount sh h tx v =
     (case satpoint_after amount sh tx (vp_satpoint v) of None \<Rightarrow> [] | Some r \<Rightarrow> [transfer_item h v r])"

lemma move_pass_id: "move_pass amount sh tx v = Some w \<Longrightarrow> vp_inscription_id w = vp_inscription_id v"
  by (auto simp: move_pass_def moved_to_def split: option.splits)

lemma satpoint_after_None [simp]: "satpoint_after amount sh tx sp = None \<longleftrightarrow> sp_outpoint sp \<notin> set (tx_input tx)"
  by (simp add: satpoint_after_def)

lemma satpoint_after_txid: "satpoint_after amount sh tx sp = Some r \<Longrightarrow> op_txid (sp_outpoint (sr_satpoint r)) = tx_txid tx"
  by (auto simp: satpoint_after_def output_result_def split: option.splits)

lemma move_pass_untouched: "outpoint_of v \<notin> set (tx_input tx) \<Longrightarrow> move_pass amount sh tx v = Some v"
  by (simp add: move_pass_def satpoint_after_None [THEN iffD2])

lemma move_pass_txid:
  "move_pass amount sh tx v = Some w \<Longrightarrow> outpoint_of v \<in> set (tx_input tx) \<Longrightarrow> op_txid (outpoint_of w) = tx_txid tx"
  by (auto simp: move_pass_def moved_to_def satpoint_after_txid split: option.splits)

lemma move_item_tracked:
  assumes ok: "mm_ok m" and v: "v \<in> tracked m"
  shows "mm_ok (move_item v r m)" and "tracked (move_item v r m) = tracked m - {v} \<union> set_option (moved_to v r)"
proof -
  let ?d = "mm_delete_value (outpoint_of v) (vp_inscription_id v) m"
  note d = mm_delete_tracked [OF ok v]
  have new: "vp_inscription_id v \<notin> vp_inscription_id ` tracked ?d"
    unfolding d(2) using ok v by (auto simp: mm_ok_def dest: inj_onD)
  show "mm_ok (move_item v r m)" and "tracked (move_item v r m) = tracked m - {v} \<union> set_option (moved_to v r)"
    using d mm_insert_new [OF d(1), of "\<lparr>vp_inscription_id = vp_inscription_id v, vp_owner = own, vp_satpoint = sr_satpoint r\<rparr>" for own] new
    by (auto simp: move_item_def moved_to_def Let_def split: option.splits)
qed

lemma process_existing_all:
  assumes "mm_ok m" and "cache_ok amount c" and "set vec \<subseteq> tracked m" and "distinct vec"
    and "\<forall>v \<in> set vec. outpoint_of v \<in> set (tx_input tx)" and "\<forall>p \<in> set (tx_input tx). op_txid p \<noteq> tx_txid tx"
  shows "\<exists>m' c'. foldR (process_existing (\<lambda>p. Inr (amount p)) sh h tx) vec (m, items) c =
      (Inr (m', items @ concat (map (move_items amount sh h tx) vec)), c') \<and> cache_ok amount c' \<and> mm_ok m' \<and>
      tracked m' = tracked m - set vec \<union> {w. \<exists>v \<in> set vec. move_pass amount sh tx v = Some w}"
  using assms
proof (induction vec arbitrary: m items c)
  case Nil
  then show ?case by auto
next
  case (Cons v vec)
  obtain r where r: "satpoint_after amount sh tx (vp_satpoint v) = Some r"
    using Cons.prems(5) satpoint_after_None [of amount sh tx "vp_satpoint v"] by fastforce
  obtain c1 where c1: "calc_output_satpoint (\<lambda>p. Inr (amount p)) sh tx (vp_satpoint v) c =
      (Inr (satpoint_after amount sh tx (vp_satpoint v)), c1)" "cache_ok amount c1"
    by (rule calc_output_satpoint_pure [OF Cons.prems(2)]) (rule that)
  let ?m = "move_item v r m"
  have v: "v \<in> tracked m" using Cons.prems(3) by simp
  note mv = move_item_tracked [OF Cons.prems(1) v, of r]
  have mp: "move_pass amount sh tx v = moved_to v r" by (simp add: move_pass_def r)
  have far: "w \<notin> set vec" if "moved_to v r = Some w" for w
    using that mp move_pass_txid [of amount sh tx v w] Cons.prems(5,6) by auto
  have sub: "set vec \<subseteq> tracked ?m" unfolding mv(2) using Cons.prems(3,4) by auto
  have "\<exists>m' c'. foldR (process_existing (\<lambda>p. Inr (amount p)) sh h tx) vec (?m, items @ [transfer_item h v r]) c1 =
      (Inr (m', (items @ [transfer_item h v r]) @ concat (map (move_items amount sh h tx) vec)), c') \<and>
      cache_ok amount c' \<and> mm_ok m' \<and>
      tracked m' = tracked ?m - set vec \<union> {w. \<exists>v \<in> set vec. move_pass amount sh tx v = Some w}"
    by (rule Cons.IH [OF mv(1) c1(2) sub]) (use Cons.prems in auto)
  then obtain m' c' where k: "foldR (process_existing (\<lambda>p. Inr (amount p)) sh h tx) vec (?m, items @ [transfer_item h v r]) c1 =
      (Inr (m', (items @ [transfer_item h v r]) @ concat (map (move_items amount sh h tx) vec)), c')"
      "cache_ok amount c'" "mm_ok m'"
      "tracked m' = tracked ?m - set vec \<union> {w. \<exists>v \<in> set vec. move_pass amount sh tx v = Some w}" by blast
  have step: "process_existing (\<lambda>p. Inr (amount p)) sh h tx v (m, items) c =
      (Inr (?m, items @ [transfer_item h v r]), c1)"
    using c1(1) r by (simp add: process_existing_def)
  have "tracked m' = tracked m - set (v # vec) \<union> {w. \<exists>u \<in> set (v # vec). move_pass amount sh tx u = Some w}"
    unfolding k(4) mv(2) using far by (auto simp: mp)
  moreover have "foldR (process_existing (\<lambda>p. Inr (amount p)) sh h tx) (v # vec) (m, items) c =
      (Inr (m', items @ concat (map (move_items amount sh h tx) (v # vec))), c')"
    using step k(1) by (simp add: move_items_def [of _ _ _ _ v] r)
  ultimately show ?case using k(2,3) by blast
qed

text \<open>The items of a block, per pass: those of pass \<open>v\<close> are \<open>f v\<close>, in order, and there are no others.\<close>

definition trails ::
  "ValidMinerPassInfo set \<Rightarrow> (ValidMinerPassInfo \<Rightarrow> InscriptionTransferItem list) \<Rightarrow> InscriptionTransferItem list \<Rightarrow> bool" where
  "trails S f its \<longleftrightarrow> (\<forall>v \<in> S. filter (\<lambda>t. ti_inscription_id t = vp_inscription_id v) its = f v) \<and>
     ti_inscription_id ` set its \<subseteq> vp_inscription_id ` S"

lemma trails_other: "trails S f its \<Longrightarrow> i \<notin> vp_inscription_id ` S \<Longrightarrow> filter (\<lambda>t. ti_inscription_id t = i) its = []"
  by (auto simp: trails_def filter_empty_conv)

lemma move_items_ids: "t \<in> set (move_items amount sh h tx v) \<Longrightarrow> ti_inscription_id t = vp_inscription_id v"
  by (auto simp: move_items_def transfer_item_def split: option.splits)

lemma move_items_filter:
  "filter (\<lambda>t. ti_inscription_id t = i) (move_items amount sh h tx v) =
    (if i = vp_inscription_id v then move_items amount sh h tx v else [])"
  by (auto simp: move_items_def transfer_item_def split: option.splits)

lemma move_items_untouched: "outpoint_of v \<notin> set (tx_input tx) \<Longrightarrow> move_items amount sh h tx v = []"
  by (simp add: move_items_def satpoint_after_None [THEN iffD2])

lemma trails_concat:
  assumes "inj_on vp_inscription_id S" and "set vec \<subseteq> S" and "distinct vec"
  shows "trails S (\<lambda>v. if v \<in> set vec then move_items amount sh h tx v else []) (concat (map (move_items amount sh h tx) vec))"
  using assms(2,3)
proof (induction vec)
  case (Cons x vec)
  have e: "vp_inscription_id v = vp_inscription_id x \<longleftrightarrow> v = x" if "v \<in> S" for v
    using that Cons.prems(1) assms(1) by (auto dest: inj_onD)
  from Cons have "trails S (\<lambda>v. if v \<in> set vec then move_items amount sh h tx v else [])
      (concat (map (move_items amount sh h tx) vec))" by simp
  with e Cons.prems show ?case
    unfolding trails_def by (fastforce simp: move_items_filter dest: move_items_ids)
qed (simp add: trails_def)

text \<open>Following the pass through two stages of the same table.\<close>

lemma trails_append:
  assumes S: "inj_on vp_inscription_id S" and t1: "trails S f its1" and t2: "trails S' g its2"
    and S': "S' = {w. \<exists>v \<in> S. mv v = Some w}" and mv: "\<And>v w. v \<in> S \<Longrightarrow> mv v = Some w \<Longrightarrow> vp_inscription_id w = vp_inscription_id v"
  shows "trails S (\<lambda>v. f v @ (case mv v of None \<Rightarrow> [] | Some w \<Rightarrow> g w)) (its1 @ its2)"
  unfolding trails_def
proof (intro conjI ballI)
  fix v assume v: "v \<in> S"
  have "filter (\<lambda>t. ti_inscription_id t = vp_inscription_id v) its2 = (case mv v of None \<Rightarrow> [] | Some w \<Rightarrow> g w)"
  proof (cases "mv v")
    case None
    have "vp_inscription_id v \<notin> vp_inscription_id ` S'"
    proof
      assume "vp_inscription_id v \<in> vp_inscription_id ` S'"
      then obtain u w where u: "u \<in> S" "mv u = Some w" "vp_inscription_id v = vp_inscription_id w" by (auto simp: S')
      then have "v = u" using mv [OF u(1,2)] v inj_onD [OF S] by simp
      with None u(2) show False by simp
    qed
    then show ?thesis using trails_other [OF t2] None by simp
  next
    case (Some w)
    have "w \<in> S'" unfolding S' using v Some by blast
    then have "filter (\<lambda>t. ti_inscription_id t = vp_inscription_id w) its2 = g w" using t2 unfolding trails_def by blast
    then show ?thesis using mv [OF v Some] Some by simp
  qed
  then show "filter (\<lambda>t. ti_inscription_id t = vp_inscription_id v) (its1 @ its2) =
      f v @ (case mv v of None \<Rightarrow> [] | Some w \<Rightarrow> g w)"
    using t1 v by (simp add: trails_def)
next
  have "vp_inscription_id ` S' \<subseteq> vp_inscription_id ` S" using mv by (auto simp: S')
  then show "ti_inscription_id ` set (its1 @ its2) \<subseteq> vp_inscription_id ` S"
    using t1 t2 unfolding trails_def set_append image_Un by blast
qed

lemma process_vin_step:
  assumes ok: "mm_ok m" and c: "cache_ok amount c" and vin: "vin \<in> set (tx_input tx)"
    and tx: "\<forall>p \<in> set (tx_input tx). op_txid p \<noteq> tx_txid tx"
  obtains m' c' its where "process_vin (\<lambda>p. Inr (amount p)) sh h tx vin (m, items) c = (Inr (m', items @ its), c')"
    and "cache_ok amount c'" and "mm_ok m'"
    and "tracked m' = {w. \<exists>v \<in> tracked m. (if outpoint_of v = vin then move_pass amount sh tx v else Some v) = Some w}"
    and "trails (tracked m) (\<lambda>v. if outpoint_of v = vin then move_items amount sh h tx v else []) its"
proof (cases "m vin")
  case None
  then have none: "outpoint_of v \<noteq> vin" if "v \<in> tracked m" for v using that by (auto simp: tracked_iff)
  have "trails (tracked m) (\<lambda>v. if outpoint_of v = vin then move_items amount sh h tx v else []) []"
    using none by (simp add: trails_def)
  moreover have "tracked m = {w. \<exists>v \<in> tracked m. (if outpoint_of v = vin then move_pass amount sh tx v else Some v) = Some w}"
    using none by auto
  ultimately show thesis using that [of m "[]" c] None ok c by (simp add: process_vin_def)
next
  case (Some vec)
  note vec = mm_okD [OF ok Some]
  have "\<exists>m' c'. foldR (process_existing (\<lambda>p. Inr (amount p)) sh h tx) vec (m, items) c =
      (Inr (m', items @ concat (map (move_items amount sh h tx) vec)), c') \<and> cache_ok amount c' \<and> mm_ok m' \<and>
      tracked m' = tracked m - set vec \<union> {w. \<exists>v \<in> set vec. move_pass amount sh tx v = Some w}"
    by (rule process_existing_all [OF ok c]) (use vec vin tx in auto)
  then obtain m' c' where k: "foldR (process_existing (\<lambda>p. Inr (amount p)) sh h tx) vec (m, items) c =
      (Inr (m', items @ concat (map (move_items amount sh h tx) vec)), c')" "cache_ok amount c'" "mm_ok m'"
      "tracked m' = tracked m - set vec \<union> {w. \<exists>v \<in> set vec. move_pass amount sh tx v = Some w}" by blast
  have inj: "inj_on vp_inscription_id (tracked m)" using ok by (simp add: mm_ok_def)
  have "trails (tracked m) (\<lambda>v. if v \<in> set vec then move_items amount sh h tx v else [])
      (concat (map (move_items amount sh h tx) vec))"
    by (rule trails_concat [OF inj]) (use vec in auto)
  then have t: "trails (tracked m) (\<lambda>v. if outpoint_of v = vin then move_items amount sh h tx v else [])
      (concat (map (move_items amount sh h tx) vec))"
    unfolding trails_def vec(1) by simp
  have "tracked m' = {w. \<exists>v \<in> tracked m. (if outpoint_of v = vin then move_pass amount sh tx v else Some v) = Some w}"
    unfolding k(4) vec(1) by auto
  with that k t Some show thesis by (simp add: process_vin_def)
qed

lemma process_vins:
  assumes "mm_ok m" and "cache_ok amount c" and "distinct vs" and "set vs \<subseteq> set (tx_input tx)"
    and tx: "\<forall>p \<in> set (tx_input tx). op_txid p \<noteq> tx_txid tx"
  shows "\<exists>m' c' its. foldR (process_vin (\<lambda>p. Inr (amount p)) sh h tx) vs (m, items) c = (Inr (m', items @ its), c') \<and>
    cache_ok amount c' \<and> mm_ok m' \<and>
    tracked m' = {w. \<exists>v \<in> tracked m. (if outpoint_of v \<in> set vs then move_pass amount sh tx v else Some v) = Some w} \<and>
    trails (tracked m) (\<lambda>v. if outpoint_of v \<in> set vs then move_items amount sh h tx v else []) its"
  using assms(1-4)
proof (induction vs arbitrary: m items c)
  case Nil
  then show ?case by (intro exI [of _ m] exI [of _ c] exI [of _ "[]"]) (auto simp: trails_def)
next
  case (Cons vin vs)
  have vin: "vin \<in> set (tx_input tx)" using Cons.prems(4) by simp
  obtain m1 c1 its1 where 1: "process_vin (\<lambda>p. Inr (amount p)) sh h tx vin (m, items) c = (Inr (m1, items @ its1), c1)"
    "cache_ok amount c1" "mm_ok m1"
    "tracked m1 = {w. \<exists>v \<in> tracked m. (if outpoint_of v = vin then move_pass amount sh tx v else Some v) = Some w}"
    "trails (tracked m) (\<lambda>v. if outpoint_of v = vin then move_items amount sh h tx v else []) its1"
    by (rule process_vin_step [OF Cons.prems(1,2) vin tx]) (rule that)
  have d: "distinct vs" "set vs \<subseteq> set (tx_input tx)" "vin \<notin> set vs" using Cons.prems(3,4) by auto
  obtain m2 c2 its2 where 2: "foldR (process_vin (\<lambda>p. Inr (amount p)) sh h tx) vs (m1, items @ its1) c1 = (Inr (m2, (items @ its1) @ its2), c2)"
    "cache_ok amount c2" "mm_ok m2"
    "tracked m2 = {w. \<exists>v \<in> tracked m1. (if outpoint_of v \<in> set vs then move_pass amount sh tx v else Some v) = Some w}"
    "trails (tracked m1) (\<lambda>v. if outpoint_of v \<in> set vs then move_items amount sh h tx v else []) its2"
    using Cons.IH [OF 1(3,2) d(1,2), of "items @ its1"] by blast
  let ?mv = "\<lambda>v. if outpoint_of v = vin then move_pass amount sh tx v else Some v"
  have far: "outpoint_of w \<notin> set vs" if "outpoint_of v = vin" "move_pass amount sh tx v = Some w" for v w
    using move_pass_txid [OF that(2)] that(1) vin d(2) tx by auto
  have inj: "inj_on vp_inscription_id (tracked m)" using Cons.prems(1) by (simp add: mm_ok_def)
  have t: "trails (tracked m) (\<lambda>v. (if outpoint_of v = vin then move_items amount sh h tx v else []) @
      (case ?mv v of None \<Rightarrow> [] | Some w \<Rightarrow> if outpoint_of w \<in> set vs then move_items amount sh h tx w else [])) (its1 @ its2)"
    by (rule trails_append [OF inj 1(5) 2(5) 1(4)]) (auto dest: move_pass_id split: if_splits)
  have f: "(if outpoint_of v = vin then move_items amount sh h tx v else []) @
      (case ?mv v of None \<Rightarrow> [] | Some w \<Rightarrow> if outpoint_of w \<in> set vs then move_items amount sh h tx w else []) =
      (if outpoint_of v \<in> set (vin # vs) then move_items amount sh h tx v else [])" for v
    using far d(3) by (cases "outpoint_of v = vin") (auto split: option.splits)
  have tr: "tracked m2 = {w. \<exists>v \<in> tracked m. (if outpoint_of v \<in> set (vin # vs) then move_pass amount sh tx v else Some v) = Some w}"
    (is "_ = ?R")
  proof (rule set_eqI)
    fix w
    have "w \<in> tracked m2 \<longleftrightarrow> (\<exists>v \<in> tracked m. \<exists>u. ?mv v = Some u \<and>
        (if outpoint_of u \<in> set vs then move_pass amount sh tx u else Some u) = Some w)"
      unfolding 2(4) 1(4) by blast
    also have "\<dots> \<longleftrightarrow> w \<in> ?R"
      using far d(3) by (intro iffI; clarsimp split: if_splits; fastforce)
    finally show "w \<in> tracked m2 \<longleftrightarrow> w \<in> ?R" .
  qed
  have "foldR (process_vin (\<lambda>p. Inr (amount p)) sh h tx) (vin # vs) (m, items) c = (Inr (m2, items @ its1 @ its2), c2)"
    using 1(1) 2(1) by simp
  with 2(2,3) tr t [unfolded f] show ?case by blast
qed

lemma process_tx_effect:
  assumes ok: "mm_ok m" and c: "cache_ok amount c" and tx: "tx_ok amount tx"
  obtains m' c' its where "process_tx (\<lambda>p. Inr (amount p)) sh h tx (m, items) c = (Inr (m', items @ its), c')"
    and "cache_ok amount c'" and "mm_ok m'"
    and "tracked m' = {w. \<exists>v \<in> tracked m. move_pass amount sh tx v = Some w}"
    and "trails (tracked m) (move_items amount sh h tx) its"
proof -
  have d: "distinct (tx_input tx)" "\<forall>p \<in> set (tx_input tx). op_txid p \<noteq> tx_txid tx" using tx by (simp_all add: tx_ok_def)
  obtain m' c' its where k: "process_tx (\<lambda>p. Inr (amount p)) sh h tx (m, items) c = (Inr (m', items @ its), c')"
    "cache_ok amount c'" "mm_ok m'"
    "tracked m' = {w. \<exists>v \<in> tracked m. (if outpoint_of v \<in> set (tx_input tx) then move_pass amount sh tx v else Some v) = Some w}"
    "trails (tracked m) (\<lambda>v. if outpoint_of v \<in> set (tx_input tx) then move_items amount sh h tx v else []) its"
    using process_vins [OF ok c d(1) subset_refl d(2), of sh h items] unfolding process_tx_def by blast
  have "(if outpoint_of v \<in> set (tx_input tx) then move_pass amount sh tx v else Some v) = move_pass amount sh tx v"
    "(if outpoint_of v \<in> set (tx_input tx) then move_items amount sh h tx v else []) = move_items amount sh h tx v" for v
    by (simp_all add: move_pass_untouched move_items_untouched)
  with that k show thesis by simp
qed

section \<open>A block\<close>

fun move_block ::
  "(OutPoint \<Rightarrow> u64) \<Rightarrow> (u8 list \<Rightarrow> USDBScriptHash) \<Rightarrow> Transaction list \<Rightarrow> ValidMinerPassInfo \<Rightarrow> ValidMinerPassInfo option" where
  "move_block amount sh [] v = Some v"
| "move_block amount sh (tx # txs) v =
     (case move_pass amount sh tx v of None \<Rightarrow> None | Some w \<Rightarrow> move_block amount sh txs w)"

fun block_trail ::
  "(OutPoint \<Rightarrow> u64) \<Rightarrow> (u8 list \<Rightarrow> USDBScriptHash) \<Rightarrow> u32 \<Rightarrow> Transaction list \<Rightarrow> ValidMinerPassInfo \<Rightarrow>
   InscriptionTransferItem list" where
  "block_trail amount sh h [] v = []"
| "block_trail amount sh h (tx # txs) v = move_items amount sh h tx v @
     (case move_pass amount sh tx v of None \<Rightarrow> [] | Some w \<Rightarrow> block_trail amount sh h txs w)"

lemma process_txs:
  assumes "mm_ok m" and "cache_ok amount c" and "\<forall>tx \<in> set txs. tx_ok amount tx"
  shows "\<exists>m' c' its. foldR (process_tx (\<lambda>p. Inr (amount p)) sh h) txs (m, items) c = (Inr (m', items @ its), c') \<and>
    cache_ok amount c' \<and> mm_ok m' \<and> tracked m' = {w. \<exists>v \<in> tracked m. move_block amount sh txs v = Some w} \<and>
    trails (tracked m) (block_trail amount sh h txs) its"
  using assms
proof (induction txs arbitrary: m items c)
  case Nil
  then show ?case by (intro exI [of _ m] exI [of _ c] exI [of _ "[]"]) (simp add: trails_def)
next
  case (Cons tx txs)
  have tx: "tx_ok amount tx" using Cons.prems(3) by simp
  obtain m1 c1 its1 where 1: "process_tx (\<lambda>p. Inr (amount p)) sh h tx (m, items) c = (Inr (m1, items @ its1), c1)"
    "cache_ok amount c1" "mm_ok m1" "tracked m1 = {w. \<exists>v \<in> tracked m. move_pass amount sh tx v = Some w}"
    "trails (tracked m) (move_items amount sh h tx) its1"
    by (rule process_tx_effect [OF Cons.prems(1,2) tx]) (rule that)
  obtain m2 c2 its2 where 2: "foldR (process_tx (\<lambda>p. Inr (amount p)) sh h) txs (m1, items @ its1) c1 = (Inr (m2, (items @ its1) @ its2), c2)"
    "cache_ok amount c2" "mm_ok m2" "tracked m2 = {w. \<exists>v \<in> tracked m1. move_block amount sh txs v = Some w}"
    "trails (tracked m1) (block_trail amount sh h txs) its2"
    using Cons.IH [OF 1(3,2), of "items @ its1"] Cons.prems(3) by auto
  have inj: "inj_on vp_inscription_id (tracked m)" using Cons.prems(1) by (simp add: mm_ok_def)
  have "trails (tracked m) (\<lambda>v. move_items amount sh h tx v @
      (case move_pass amount sh tx v of None \<Rightarrow> [] | Some w \<Rightarrow> block_trail amount sh h txs w)) (its1 @ its2)"
    by (rule trails_append [OF inj 1(5) 2(5) 1(4)]) (rule move_pass_id)
  then have "trails (tracked m) (block_trail amount sh h (tx # txs)) (its1 @ its2)" by (simp add: trails_def)
  moreover have "tracked m2 = {w. \<exists>v \<in> tracked m. move_block amount sh (tx # txs) v = Some w}"
    unfolding 2(4) 1(4) by (auto split: option.splits)
  moreover have "foldR (process_tx (\<lambda>p. Inr (amount p)) sh h) (tx # txs) (m, items) c = (Inr (m2, items @ its1 @ its2), c2)"
    using 1(1) 2(1) by simp
  ultimately show ?case using 2(2,3) by blast
qed

lemma mm_insert_all:
  assumes "mm_ok m" and "distinct (map vp_inscription_id vs)" and "vp_inscription_id ` set vs \<inter> vp_inscription_id ` tracked m = {}"
  shows "mm_ok (fold (\<lambda>v. mm_insert (outpoint_of v) v) vs m) \<and>
    tracked (fold (\<lambda>v. mm_insert (outpoint_of v) v) vs m) = set vs \<union> tracked m"
  using assms
proof (induction vs arbitrary: m)
  case (Cons v vs)
  have new: "vp_inscription_id v \<notin> vp_inscription_id ` tracked m" using Cons.prems(3) by auto
  note i = mm_insert_new [OF Cons.prems(1) new]
  have "mm_ok (fold (\<lambda>v. mm_insert (outpoint_of v) v) vs (mm_insert (outpoint_of v) v m)) \<and>
    tracked (fold (\<lambda>v. mm_insert (outpoint_of v) v) vs (mm_insert (outpoint_of v) v m)) =
      set vs \<union> tracked (mm_insert (outpoint_of v) v m)"
    by (rule Cons.IH [OF i(1)]) (use Cons.prems(2,3) i(2) in auto)
  with i(2) show ?case by simp
qed simp

definition seed_pass :: "TransferTrackSeed \<Rightarrow> ValidMinerPassInfo" where
  "seed_pass s = \<lparr>vp_inscription_id = ts_inscription_id s, vp_owner = ts_owner s, vp_satpoint = ts_satpoint s\<rparr>"

lemma add_seed_insert: "add_seed s = mm_insert (outpoint_of (seed_pass s)) (seed_pass s)"
  by (simp add: add_seed_def seed_pass_def)

lemma add_seeds: "fold add_seed seeds m = fold (\<lambda>v. mm_insert (outpoint_of v) v) (map seed_pass seeds) m"
  by (induction seeds arbitrary: m) (simp_all add: add_seed_insert)

lemma process_block_effect:
  assumes "mm_ok (tr_inscriptions t)" and "tr_staged_blocks t = []" and "cache_ok amount (tr_utxo t)"
    and "\<forall>tx \<in> set txs. tx_ok amount tx" and "distinct (map ts_inscription_id seeds)"
    and "ts_inscription_id ` set seeds \<inter> vp_inscription_id ` tracked (tr_inscriptions t) = {}"
    and "T = seed_pass ` set seeds \<union> tracked (tr_inscriptions t)"
  shows "\<exists>items t' m'. process_block_with_hint (\<lambda>p. Inr (amount p)) sh get_block h (Some txs) seeds t = (Inr items, t') \<and>
    tr_inscriptions t' = tr_inscriptions t \<and> tr_staged_blocks t' = [(h, m')] \<and> mm_ok m' \<and>
    tracked m' = {w. \<exists>v \<in> T. move_block amount sh txs v = Some w} \<and>
    trails T (block_trail amount sh h txs) items \<and>
    commit_staged_block h t' = (Inr (), t'\<lparr>tr_inscriptions := m', tr_staged_blocks := []\<rparr>) \<and>
    rollback_staged_block h t' = (Inr (), t'\<lparr>tr_staged_blocks := []\<rparr>)"
proof -
  let ?w = "fold add_seed seeds (tr_inscriptions t)"
  have w: "mm_ok ?w" "tracked ?w = T"
  proof -
    have "mm_ok ?w \<and> tracked ?w = set (map seed_pass seeds) \<union> tracked (tr_inscriptions t)"
      unfolding add_seeds
      by (rule mm_insert_all [OF assms(1)]) (use assms(5,6) in \<open>simp_all add: image_image o_def seed_pass_def\<close>)
    then show "mm_ok ?w" "tracked ?w = T" by (simp_all add: assms(7))
  qed
  obtain m' c' its where k: "foldR (process_tx (\<lambda>p. Inr (amount p)) sh h) txs (?w, []) (tr_utxo t) = (Inr (m', [] @ its), c')"
    "cache_ok amount c'" "mm_ok m'" "tracked m' = {w. \<exists>v \<in> T. move_block amount sh txs v = Some w}"
    "trails T (block_trail amount sh h txs) its"
    using process_txs [OF w(1) assms(3,4), of sh h "[]"] unfolding w(2) by blast
  let ?t = "t\<lparr>tr_utxo := c', tr_staged_blocks := [(h, m')]\<rparr>"
  have "process_block_with_hint (\<lambda>p. Inr (amount p)) sh get_block h (Some txs) seeds t = (Inr its, ?t)"
    using assms(2) k(1) by (simp add: process_block_with_hint_def bindR_def on_utxo_def zoom_def)
  moreover have "commit_staged_block h ?t = (Inr (), ?t\<lparr>tr_inscriptions := m', tr_staged_blocks := []\<rparr>)"
    "rollback_staged_block h ?t = (Inr (), ?t\<lparr>tr_staged_blocks := []\<rparr>)"
    by (simp_all add: commit_staged_block_def rollback_staged_block_def)
  ultimately show ?thesis using k(3-5) by (intro exI [of _ its] exI [of _ ?t] exI [of _ m']) simp
qed

text \<open>C31: a block through the transfer tracker.  On a well-formed table with no block staged, for a block of
  chain transactions and new inscriptions with new ids, \<open>process_block_with_hint\<close> succeeds and stages
  exactly the passes moved to where the block's transactions carry their satoshis, and the transfer
  items of each pass are, in order, its moves; the committed table is untouched.  A commit of the
  block then publishes the staged table, a rollback drops it, and neither leaves anything staged.\<close>

theorem process_block_follows_satoshis:
  assumes "mm_ok (tr_inscriptions t)" and "tr_staged_blocks t = []" and "cache_ok amount (tr_utxo t)"
    and "\<forall>tx \<in> set txs. tx_ok amount tx" and "distinct (map ts_inscription_id seeds)"
    and "ts_inscription_id ` set seeds \<inter> vp_inscription_id ` tracked (tr_inscriptions t) = {}"
    and "T = seed_pass ` set seeds \<union> tracked (tr_inscriptions t)"
  shows "\<exists>items t' m'. process_block_with_hint (\<lambda>p. Inr (amount p)) sh get_block h (Some txs) seeds t = (Inr items, t') \<and>
    tr_inscriptions t' = tr_inscriptions t \<and> tr_staged_blocks t' = [(h, m')] \<and> mm_ok m' \<and>
    tracked m' = {w. \<exists>v \<in> T. move_block amount sh txs v = Some w} \<and>
    trails T (block_trail amount sh h txs) items \<and>
    commit_staged_block h t' = (Inr (), t'\<lparr>tr_inscriptions := m', tr_staged_blocks := []\<rparr>) \<and>
    rollback_staged_block h t' = (Inr (), t'\<lparr>tr_staged_blocks := []\<rparr>)"
  by (rule process_block_effect [OF assms])

definition sample_tracked :: ValidMinerPassInfo where
  "sample_tracked = \<lparr>vp_inscription_id = \<lparr>ii_txid = 2, ii_index = 0\<rparr>, vp_owner = 7, vp_satpoint = sample_sat 50\<rparr>"

definition sample_tracker :: InscriptionTransferTracker where
  "sample_tracker = \<lparr>tr_inscriptions = [sp_outpoint (sample_sat 50) \<mapsto> [sample_tracked]], tr_staged_blocks = [], tr_utxo = Map.empty\<rparr>"

lemma sample_tracker_ok: "mm_ok (tr_inscriptions sample_tracker)" "tracked (tr_inscriptions sample_tracker) = {sample_tracked}"
proof -
  have "mm_insert (outpoint_of sample_tracked) sample_tracked Map.empty = tr_inscriptions sample_tracker"
    by (simp add: mm_insert_def sample_tracker_def sample_tracked_def)
  then show "mm_ok (tr_inscriptions sample_tracker)" "tracked (tr_inscriptions sample_tracker) = {sample_tracked}"
    using mm_insert_new [OF mm_ok_empty, of sample_tracked] by simp_all
qed

theorem process_block_follows_satoshis_witness:
  "\<exists>items t' m'. process_block_with_hint (\<lambda>_. Inr 1000) sample_script_hash (\<lambda>_. Inr []) 120 (Some [sample_tx]) [] sample_tracker =
      (Inr items, t') \<and> tr_staged_blocks t' = [(120, m')] \<and>
    tracked m' = {w. \<exists>v \<in> {sample_tracked}. move_block (\<lambda>_. 1000) sample_script_hash [sample_tx] v = Some w} \<and>
    map_option vp_owner (move_block (\<lambda>_. 1000) sample_script_hash [sample_tx] sample_tracked) = Some 2"
proof -
  have o: "map_option vp_owner (move_block (\<lambda>_. 1000) sample_script_hash [sample_tx] sample_tracked) = Some 2"
    by (simp add: move_pass_def satpoint_after_def sample_tracked_def sample_sat_def sample_tx_def output_result_def
        moved_to_def sample_script_hash_def)
  have c: "cache_ok (\<lambda>_. 1000) (tr_utxo sample_tracker)" "tr_staged_blocks sample_tracker = []"
    by (simp_all add: cache_ok_def sample_tracker_def)
  have "\<forall>tx \<in> set [sample_tx]. tx_ok (\<lambda>_. 1000) tx" using sample_tx_ok by simp
  note k = process_block_follows_satoshis [OF sample_tracker_ok(1) c(2,1) this, of "[]" "{sample_tracked}"
      sample_script_hash "\<lambda>_. Inr []" 120]
  have "distinct (map ts_inscription_id [])" "ts_inscription_id ` set [] \<inter> vp_inscription_id ` tracked (tr_inscriptions sample_tracker) = {}"
    "{sample_tracked} = seed_pass ` set [] \<union> tracked (tr_inscriptions sample_tracker)"
    by (simp_all add: sample_tracker_ok(2))
  from k [OF this] o show ?thesis by (elim exE conjE) (intro exI conjI)
qed

section \<open>Loading the table from the pass database\<close>

definition valid_row :: "MinerPassInfo \<Rightarrow> ValidMinerPassInfo" where
  "valid_row m = \<lparr>vp_inscription_id = mp_inscription_id m, vp_owner = mp_owner m, vp_satpoint = mp_satpoint m\<rparr>"

lemma load_pages_all:
  fixes ord db defines "rows \<equiv> ord (filter (\<lambda>m. mp_state m \<notin> {Consumed, Invalid}) (db_passes db))"
  assumes "length rows < (unat page + fuel) * 1024" and "unat page * 1024 \<le> length rows" and "length rows < 2 ^ 62"
  shows "load_pages fuel ord page db m =
    Some (fold (\<lambda>v. mm_insert (outpoint_of v) v) (map valid_row (drop (unat page * 1024) rows)) m)"
  using assms(2,3)
proof (induction fuel arbitrary: page m)
  case (Suc fuel)
  have b: "unat page * unat PAGE_SIZE + unat PAGE_SIZE < 2 ^ 63"
    using Suc.prems(2) assms(4) by (simp add: PAGE_SIZE_def)
  let ?d = "drop (unat page * 1024) rows"
  have pg: "get_all_valid_pass_by_page ord page PAGE_SIZE db = map valid_row (take 1024 ?d)"
    using page_rows_eq [OF b, of rows]
    by (simp add: get_all_valid_pass_by_page_def valid_row_def rows_def PAGE_SIZE_def)
  show ?case
  proof (cases "length ?d < 1024")
    case True
    then have "take 1024 ?d = ?d" by simp
    with pg True show ?thesis by (cases ?d) (simp_all add: PAGE_SIZE_def Let_def)
  next
    case False
    have u: "unat (page + 1) = unat page + 1"
      using Suc.prems(2) assms(4) by (simp add: unat_word_ariths)
    have ne: "take 1024 ?d \<noteq> []" "length (take 1024 ?d) = 1024" using False by (auto simp: not_less)
    have "load_pages fuel ord (page + 1) db (fold (\<lambda>v. mm_insert (outpoint_of v) v) (map valid_row (take 1024 ?d)) m) =
        Some (fold (\<lambda>v. mm_insert (outpoint_of v) v) (map valid_row (drop (unat (page + 1) * 1024) rows))
          (fold (\<lambda>v. mm_insert (outpoint_of v) v) (map valid_row (take 1024 ?d)) m))"
      by (rule Suc.IH) (use Suc.prems False u in \<open>simp_all add: algebra_simps not_less\<close>)
    moreover have "map valid_row ?d = map valid_row (take 1024 ?d) @ map valid_row (drop (unat (page + 1) * 1024) rows)"
    proof -
      have "?d = take 1024 ?d @ drop (unat (page + 1) * 1024) rows"
        unfolding u using append_take_drop_id [of 1024 ?d] by (simp add: algebra_simps)
      then show ?thesis by (metis map_append)
    qed
    ultimately show ?thesis using pg ne by (simp add: PAGE_SIZE_def Let_def)
  qed
qed simp

lemma reload_valid:
  assumes "pass_db_ok db" and "orders_desc mp_mint_block_height ord" and "length (db_passes db) < 2 ^ 62"
    and "length (db_passes db) < fuel * 1024"
  shows "\<exists>t'. reload_from_storage fuel ord db t = Some t' \<and> tr_staged_blocks t' = [] \<and> mm_ok (tr_inscriptions t') \<and>
    tracked (tr_inscriptions t') = {valid_row m | m. m \<in> set (db_passes db) \<and> mp_state m \<notin> {Consumed, Invalid}}"
proof -
  let ?f = "filter (\<lambda>m. mp_state m \<notin> {Consumed, Invalid}) (db_passes db)"
  have ms: "mset (ord ?f) = mset ?f" using assms(2) by (simp add: orders_desc_def)
  have len: "length (ord ?f) \<le> length (db_passes db)" unfolding mset_eq_length [OF ms] by (rule length_filter_le)
  have st: "set (ord ?f) = set ?f" by (rule mset_eq_setD [OF ms])
  have "distinct (map mp_inscription_id ?f)"
    using assms(1) by (simp add: pass_db_ok_def distinct_map_filter)
  moreover have "mset (map mp_inscription_id (ord ?f)) = mset (map mp_inscription_id ?f)" using ms by simp
  ultimately have "distinct (map mp_inscription_id (ord ?f))" by (metis mset_eq_imp_distinct_iff)
  then have d: "distinct (map vp_inscription_id (map valid_row (ord ?f)))" by (simp add: o_def valid_row_def)
  let ?m = "fold (\<lambda>v. mm_insert (outpoint_of v) v) (map valid_row (ord ?f)) Map.empty"
  have "load_pages fuel ord 0 db Map.empty =
      Some (fold (\<lambda>v. mm_insert (outpoint_of v) v) (map valid_row (drop (unat (0 :: u64) * 1024) (ord ?f))) Map.empty)"
    by (rule load_pages_all) (use len assms(3,4) in simp_all)
  moreover have "mm_ok ?m \<and> tracked ?m = set (map valid_row (ord ?f)) \<union> tracked Map.empty"
    by (rule mm_insert_all [OF mm_ok_empty d]) simp
  moreover have "set (map valid_row (ord ?f)) = {valid_row m | m. m \<in> set (db_passes db) \<and> mp_state m \<notin> {Consumed, Invalid}}"
    unfolding set_map st by auto
  ultimately show ?thesis by (simp add: reload_from_storage_def)
qed

text \<open>Reloading.  From a well-formed pass database, in whatever order SQLite breaks ties, the reload
  ends after at most one page more than needed and the table tracks exactly the rows of the database
  that are neither consumed nor invalid, each at its satpoint, with nothing staged.\<close>

theorem reload_tracks_valid_passes:
  assumes "pass_db_ok db" and "orders_desc mp_mint_block_height ord" and "length (db_passes db) < 2 ^ 62"
    and "length (db_passes db) < fuel * 1024"
  shows "\<exists>t'. reload_from_storage fuel ord db t = Some t' \<and> tr_staged_blocks t' = [] \<and> mm_ok (tr_inscriptions t') \<and>
    tracked (tr_inscriptions t') = {valid_row m | m. m \<in> set (db_passes db) \<and> mp_state m \<notin> {Consumed, Invalid}}"
  by (rule reload_valid [OF assms])

definition sample_order :: "MinerPassInfo list \<Rightarrow> MinerPassInfo list" where
  "sample_order rows = rev (sort_key mp_mint_block_height rows)"

lemma sample_order_desc: "orders_desc mp_mint_block_height sample_order"
  unfolding orders_desc_def
proof
  fix rows
  show "mset (sample_order rows) = mset rows \<and>
      sorted_wrt (\<lambda>a b. mp_mint_block_height b \<le> mp_mint_block_height a) (sample_order rows)"
    using sorted_sort_key [of mp_mint_block_height rows]
    by (simp add: sample_order_def sorted_wrt_rev sorted_wrt_map)
qed

definition sample_row :: "MinerPassState \<Rightarrow> MinerPassInfo" where
  "sample_row st = \<lparr>mp_inscription_id = vp_inscription_id sample_tracked, mp_inscription_number = 1, mp_mint_txid = 2,
     mp_mint_block_height = 100, mp_mint_owner = 7, mp_satpoint = sample_sat 50, mp_eth_main = ''0x1'', mp_eth_collab = None,
     mp_prev = [], mp_invalid_code = None, mp_invalid_reason = None, mp_owner = 7, mp_state = st\<rparr>"

definition sample_row_db :: "MinerPassState \<Rightarrow> pass_db" where
  "sample_row_db st = empty_pass_db\<lparr>db_passes := [sample_row st]\<rparr>"

lemma sample_row_db_ok: "pass_db_ok (sample_row_db st)"
  by (auto simp: pass_db_ok_def sample_row_db_def empty_pass_db_def active_owner_unique_def)

theorem reload_tracks_valid_passes_witness:
  "\<exists>t'. reload_from_storage 1 sample_order (sample_row_db Dormant) sample_tracker = Some t' \<and>
    tracked (tr_inscriptions t') = {sample_tracked}"
proof -
  have "valid_row (sample_row Dormant) = sample_tracked" by (simp add: valid_row_def sample_row_def sample_tracked_def)
  then have e: "{valid_row m | m. m \<in> set (db_passes (sample_row_db Dormant)) \<and> mp_state m \<notin> {Consumed, Invalid}} = {sample_tracked}"
    by (auto simp: sample_row_db_def sample_row_def empty_pass_db_def)
  have "length (db_passes (sample_row_db Dormant)) = 1" by (simp add: sample_row_db_def empty_pass_db_def)
  then have "\<exists>t'. reload_from_storage 1 sample_order (sample_row_db Dormant) sample_tracker = Some t' \<and> tr_staged_blocks t' = [] \<and>
      mm_ok (tr_inscriptions t') \<and> tracked (tr_inscriptions t') =
        {valid_row m | m. m \<in> set (db_passes (sample_row_db Dormant)) \<and> mp_state m \<notin> {Consumed, Invalid}}"
    by (intro reload_tracks_valid_passes [OF sample_row_db_ok sample_order_desc]) simp_all
  then show ?thesis unfolding e by blast
qed

section \<open>A restart forgets the consumed passes\<close>



end
