(* ===== verification/Block_Events.thy ===== *)
theory Block_Events
  imports Pass_Lifecycle Transfer_Blocks
begin

text \<open>
  \<open>usdb-indexer/src/inscription/source.rs\<close> and \<open>types.rs\<close> (the items of a block), and
  \<open>index/indexer/block_events.rs\<close>: the planner that orders the mints and transfers of a block and the
  executor that runs them on the pass manager, with the helpers of \<open>index/indexer.rs\<close> they use.
\<close>

section \<open>Items of a block\<close>

datatype InscriptionOperation = Inscribe | TransferOp

fun InscriptionOperation_as_str :: "InscriptionOperation \<Rightarrow> string" where
  "InscriptionOperation_as_str Inscribe = ''inscribe''"
| "InscriptionOperation_as_str TransferOp = ''transfer''"

fun need_track_transfer :: "InscriptionOperation \<Rightarrow> bool" where
  "need_track_transfer Inscribe = True"
| "need_track_transfer TransferOp = True"

definition InscriptionOperation_from_str :: "string \<Rightarrow> InscriptionOperation result" where
  "InscriptionOperation_from_str s =
     (if s = ''inscribe'' then Inr Inscribe
      else if s = ''transfer'' then Inr TransferOp
      else Inl (Err ''Invalid inscription operation''))"

fun USDBInscription_op :: "USDBInscription \<Rightarrow> InscriptionOperation" where
  "USDBInscription_op (Pass_Content.Mint m) = Inscribe"

fun as_mint :: "USDBInscription \<Rightarrow> USDBMint option" where
  "as_mint (Pass_Content.Mint m) = Some m"

record DiscoveredInscription =
  di_inscription_id :: InscriptionId
  di_inscription_number :: int
  di_block_height :: u32
  di_timestamp :: u32
  di_satpoint :: "SatPoint option"
  di_content_type :: "string option"
  di_content_string :: "string option"

record DiscoveredMint =
  dm_inscription_id :: InscriptionId
  dm_inscription_number :: int
  dm_block_height :: u32
  dm_timestamp :: u32
  dm_satpoint :: "SatPoint option"
  dm_content_string :: string
  dm_content :: USDBInscription

record DiscoveredInvalidMint =
  dv_inscription_id :: InscriptionId
  dv_inscription_number :: int
  dv_block_height :: u32
  dv_timestamp :: u32
  dv_satpoint :: "SatPoint option"
  dv_content_string :: string
  dv_error_code :: MintValidationErrorCode
  dv_error_reason :: string

record DiscoveredMintBatch =
  mb_valid_mints :: "DiscoveredMint list"
  mb_invalid_mints :: "DiscoveredInvalidMint list"

definition to_invalid_mint ::
  "DiscoveredInscription \<Rightarrow> string \<Rightarrow> MintValidationErrorCode \<Rightarrow> string \<Rightarrow> DiscoveredInvalidMint" where
  "to_invalid_mint inscription content_string code reason =
     \<lparr>dv_inscription_id = di_inscription_id inscription, dv_inscription_number = di_inscription_number inscription,
      dv_block_height = di_block_height inscription, dv_timestamp = di_timestamp inscription,
      dv_satpoint = di_satpoint inscription, dv_content_string = content_string,
      dv_error_code = code, dv_error_reason = reason\<rparr>"

text \<open>\<open>parse_json\<close>, \<open>parse_id\<close> and the wording \<open>reason_of\<close> of a validation error are parameters.\<close>

definition classify_one ::
  "(string \<Rightarrow> json option) \<Rightarrow> (string \<Rightarrow> InscriptionId option) \<Rightarrow> (string \<Rightarrow> MintValidationErrorCode \<Rightarrow> string) \<Rightarrow>
   DiscoveredInscription \<Rightarrow> DiscoveredMintBatch \<Rightarrow> DiscoveredMintBatch" where
  "classify_one parse_json parse_id reason_of inscription batch =
     (case di_content_string inscription of
        None \<Rightarrow> batch
      | Some content_string \<Rightarrow>
          (case classify_mint_content_str parse_json parse_id content_string of
             NotUsdbMint \<Rightarrow> batch
           | Valid content \<Rightarrow> batch\<lparr>mb_valid_mints := mb_valid_mints batch @
               [\<lparr>dm_inscription_id = di_inscription_id inscription, dm_inscription_number = di_inscription_number inscription,
                 dm_block_height = di_block_height inscription, dm_timestamp = di_timestamp inscription,
                 dm_satpoint = di_satpoint inscription, dm_content_string = content_string, dm_content = content\<rparr>]\<rparr>
           | InvalidContent code \<Rightarrow> batch\<lparr>mb_invalid_mints := mb_invalid_mints batch @
               [to_invalid_mint inscription content_string code (reason_of content_string code)]\<rparr>))"

definition classify_usdb_mints_from_inscriptions ::
  "(string \<Rightarrow> json option) \<Rightarrow> (string \<Rightarrow> InscriptionId option) \<Rightarrow> (string \<Rightarrow> MintValidationErrorCode \<Rightarrow> string) \<Rightarrow>
   DiscoveredInscription list \<Rightarrow> DiscoveredMintBatch" where
  "classify_usdb_mints_from_inscriptions parse_json parse_id reason_of inscriptions =
     fold (classify_one parse_json parse_id reason_of) inscriptions \<lparr>mb_valid_mints = [], mb_invalid_mints = []\<rparr>"

definition map_usdb_mints_from_inscriptions ::
  "(string \<Rightarrow> json option) \<Rightarrow> (string \<Rightarrow> InscriptionId option) \<Rightarrow> (string \<Rightarrow> MintValidationErrorCode \<Rightarrow> string) \<Rightarrow>
   DiscoveredInscription list \<Rightarrow> DiscoveredMint list" where
  "map_usdb_mints_from_inscriptions parse_json parse_id reason_of inscriptions =
     mb_valid_mints (classify_usdb_mints_from_inscriptions parse_json parse_id reason_of inscriptions)"

record InscriptionNewItem =
  ni_inscription_id :: InscriptionId
  ni_inscription_number :: int
  ni_block_height :: u32
  ni_timestamp :: u32
  ni_address :: USDBScriptHash
  ni_satpoint :: SatPoint
  ni_value :: u64
  ni_content_string :: string
  ni_content :: USDBInscription
  ni_op :: InscriptionOperation
  ni_commit_txid :: Txid

definition ni_txid :: "InscriptionNewItem \<Rightarrow> Txid" where
  "ni_txid item = op_txid (sp_outpoint (ni_satpoint item))"

definition ti_txid :: "InscriptionTransferItem \<Rightarrow> Txid" where
  "ti_txid item = op_txid (sp_outpoint (ti_satpoint item))"

section \<open>Planning\<close>

datatype BlockProcessEvent = MintEvent InscriptionNewItem | TransferEvent InscriptionTransferItem

text \<open>\<open>EventSortKey\<close> with the inscription id text as the last component of the comparison.\<close>

type_synonym event_key = "nat \<times> nat \<times> nat \<times> u32 \<times> string"

definition usize_MAX :: nat where
  "usize_MAX = 2 ^ 64 - 1"

fun tx_positions_from :: "nat \<Rightarrow> Transaction list \<Rightarrow> (Txid \<rightharpoonup> nat) \<Rightarrow> Txid \<rightharpoonup> nat" where
  "tx_positions_from i [] m = m"
| "tx_positions_from i (tx # txs) m = tx_positions_from (Suc i) txs (m(tx_txid tx \<mapsto> i))"

definition build_block_tx_position_map :: "Transaction list \<Rightarrow> Txid \<rightharpoonup> nat" where
  "build_block_tx_position_map txdata = tx_positions_from 0 txdata Map.empty"

text \<open>\<open>entry(...).or_insert(...)\<close> keeps the first input with an outpoint.\<close>

definition build_transfer_input_index_map :: "Transaction list \<Rightarrow> Txid \<rightharpoonup> (OutPoint \<rightharpoonup> nat)" where
  "build_transfer_input_index_map txdata =
     fold (\<lambda>tx m. m(tx_txid tx \<mapsto> (\<lambda>p. vin_position p (tx_input tx)))) txdata Map.empty"

definition mint_key ::
  "(InscriptionId \<Rightarrow> string) \<Rightarrow> (Txid \<rightharpoonup> nat) \<Rightarrow> InscriptionNewItem \<Rightarrow> (event_key \<times> BlockProcessEvent) result" where
  "mint_key id_text tx_positions item =
     (case tx_positions (ii_txid (ni_inscription_id item)) of
        None \<Rightarrow> Inl (Err ''Mint transaction not found in block when ordering events'')
      | Some tx_position \<Rightarrow>
          Inr ((tx_position, 1, usize_MAX, ii_index (ni_inscription_id item), id_text (ni_inscription_id item)),
               MintEvent item))"

definition transfer_key ::
  "(InscriptionId \<Rightarrow> string) \<Rightarrow> (Txid \<rightharpoonup> nat) \<Rightarrow> (Txid \<rightharpoonup> (OutPoint \<rightharpoonup> nat)) \<Rightarrow> InscriptionTransferItem \<Rightarrow>
   (event_key \<times> BlockProcessEvent) result" where
  "transfer_key id_text tx_positions inputs item =
     (case tx_positions (ti_txid item) of
        None \<Rightarrow> Inl (Err ''Transfer transaction not found in block when ordering events'')
      | Some tx_position \<Rightarrow>
          (case Option.bind (inputs (ti_txid item)) (\<lambda>m. m (sp_outpoint (ti_prev_satpoint item))) of
             None \<Rightarrow> Inl (Err ''Transfer input not found in transaction'')
           | Some input_index \<Rightarrow>
               Inr ((tx_position, 0, input_index, ii_index (ti_inscription_id item), id_text (ti_inscription_id item)),
                    TransferEvent item)))"

definition plan ::
  "(InscriptionId \<Rightarrow> string) \<Rightarrow> Transaction list \<Rightarrow> InscriptionNewItem list \<Rightarrow> InscriptionTransferItem list \<Rightarrow>
   BlockProcessEvent list result" where
  "plan id_text txdata mint_items transfer_items =
     (if mint_items = [] \<and> transfer_items = [] then Inr []
      else
        (let tx_positions = build_block_tx_position_map txdata;
             inputs = build_transfer_input_index_map txdata
         in case mapR (mint_key id_text tx_positions) mint_items of
              Inl e \<Rightarrow> Inl e
            | Inr mints \<Rightarrow>
                (case mapR (transfer_key id_text tx_positions inputs) transfer_items of
                   Inl e \<Rightarrow> Inl e
                 | Inr transfers \<Rightarrow> Inr (map snd (sort_key fst (mints @ transfers))))))"

section \<open>Executing\<close>

definition on_new_inscription ::
  "balance_provider \<Rightarrow> (string \<Rightarrow> InscriptionId option) \<Rightarrow> InscriptionNewItem \<Rightarrow> (pass_mgr, unit) op" where
  "on_new_inscription bp parse_id item =
     (case as_mint (ni_content item) of
        None \<Rightarrow> fail (Panic ''called Option::unwrap() on a None value'')
      | Some mint_content \<Rightarrow>
          (case prev_inscription_ids parse_id mint_content of
             Inl e \<Rightarrow> fail (Err ''Failed to parse prev inscription ids for inscription'')
           | Inr prev \<Rightarrow> on_mint_pass bp
               \<lparr>mi_inscription_id = ni_inscription_id item, mi_inscription_number = ni_inscription_number item,
                mi_mint_txid = ni_txid item, mi_mint_block_height = ni_block_height item,
                mi_mint_owner = ni_address item, mi_satpoint = ni_satpoint item,
                mi_eth_main = um_eth_main mint_content, mi_eth_collab = um_eth_collab mint_content,
                mi_prev = prev\<rparr>))"

definition execute_event ::
  "balance_provider \<Rightarrow> (string \<Rightarrow> InscriptionId option) \<Rightarrow> BlockProcessEvent \<Rightarrow> nat \<times> nat \<Rightarrow> (pass_mgr, nat \<times> nat) op" where
  "execute_event bp parse_id event counts =
     (case event of
        MintEvent item \<Rightarrow>
          bindR (on_new_inscription bp parse_id item) (\<lambda>_. ret (fst counts + 1, snd counts))
      | TransferEvent item \<Rightarrow>
          bindR (case ti_to_address item of
              Some addr \<Rightarrow> on_pass_transfer bp (ti_inscription_id item) addr (ti_satpoint item) (ti_block_height item)
            | None \<Rightarrow> on_pass_burned bp (ti_inscription_id item) (ti_block_height item)) (\<lambda>_.
          ret (fst counts, snd counts + 1)))"

definition execute ::
  "balance_provider \<Rightarrow> (string \<Rightarrow> InscriptionId option) \<Rightarrow> BlockProcessEvent list \<Rightarrow> (pass_mgr, nat \<times> nat) op" where
  "execute bp parse_id ordered_events = foldR (execute_event bp parse_id) ordered_events (0, 0)"

definition process_invalid_mints :: "InvalidPassMintInscriptionInfo list \<Rightarrow> (pass_mgr, nat) op" where
  "process_invalid_mints invalid_mints =
     foldR (\<lambda>item processed. bindR (on_invalid_mint_pass item) (\<lambda>_. ret (processed + 1))) invalid_mints 0"

definition build_transfer_track_seeds :: "InscriptionNewItem list \<Rightarrow> TransferTrackSeed list" where
  "build_transfer_track_seeds mint_items =
     map (\<lambda>item. \<lparr>ts_inscription_id = ni_inscription_id item, ts_owner = ni_address item,
                  ts_satpoint = ni_satpoint item\<rparr>) mint_items"

section \<open>Collecting the mints of a block\<close>

record CollectedMintItems =
  cm_valid_items :: "InscriptionNewItem list"
  cm_invalid_items :: "InvalidPassMintInscriptionInfo list"

text \<open>\<open>create\<close> is \<open>calc_create_satpoint\<close>; the loop that pairs each mint with its create info.\<close>

definition create_info ::
  "(InscriptionId \<Rightarrow> ('s, InscriptionCreateInfo) op) \<Rightarrow> InscriptionId \<Rightarrow> string \<Rightarrow>
   ('s, InscriptionCreateInfo \<times> USDBScriptHash) op" where
  "create_info create inscription_id msg =
     bindR (create inscription_id) (\<lambda>info.
     case ci_address info of
       None \<Rightarrow> fail (Err msg)
     | Some address \<Rightarrow> ret (info, address))"

definition invalid_item ::
  "InscriptionId \<Rightarrow> int \<Rightarrow> u32 \<Rightarrow> InscriptionCreateInfo \<Rightarrow> USDBScriptHash \<Rightarrow> string \<Rightarrow> string \<Rightarrow>
   InvalidPassMintInscriptionInfo" where
  "invalid_item inscription_id number height info address code reason =
     \<lparr>iv_inscription_id = inscription_id, iv_inscription_number = number,
      iv_mint_txid = op_txid (sp_outpoint (ci_satpoint info)), iv_mint_block_height = height,
      iv_mint_owner = address, iv_satpoint = ci_satpoint info, iv_error_code = code, iv_error_reason = reason\<rparr>"

definition new_item :: "DiscoveredMint \<Rightarrow> InscriptionCreateInfo \<Rightarrow> USDBScriptHash \<Rightarrow> InscriptionNewItem" where
  "new_item mint info address =
     \<lparr>ni_inscription_id = dm_inscription_id mint, ni_inscription_number = dm_inscription_number mint,
      ni_block_height = dm_block_height mint, ni_timestamp = dm_timestamp mint, ni_address = address,
      ni_satpoint = ci_satpoint info, ni_value = ci_value info, ni_content_string = dm_content_string mint,
      ni_content = dm_content mint, ni_op = USDBInscription_op (dm_content mint), ni_commit_txid = ci_commit_txid info\<rparr>"

text \<open>A mint whose reveal input is shared with another mint of the block is recorded as invalid.\<close>

definition split_candidate ::
  "(OutPoint \<Rightarrow> InscriptionId \<Rightarrow> string) \<Rightarrow> OutPoint list \<Rightarrow> DiscoveredMint \<times> InscriptionCreateInfo \<times> USDBScriptHash \<Rightarrow>
   CollectedMintItems \<Rightarrow> CollectedMintItems" where
  "split_candidate ambiguous_reason reveal_inputs cand items =
     (case cand of (mint, info, address) \<Rightarrow>
        if 1 < length (filter (\<lambda>p. p = ci_commit_outpoint info) reveal_inputs)
        then items\<lparr>cm_invalid_items := cm_invalid_items items @
          [invalid_item (dm_inscription_id mint) (dm_inscription_number mint) (dm_block_height mint) info address
            (MintValidationErrorCode_as_str AmbiguousRevealInput)
            (ambiguous_reason (ci_commit_outpoint info) (dm_inscription_id mint))]\<rparr>
        else items\<lparr>cm_valid_items := cm_valid_items items @ [new_item mint info address]\<rparr>)"

definition collect_block_inscription_mints ::
  "(OutPoint \<Rightarrow> InscriptionId \<Rightarrow> string) \<Rightarrow> (InscriptionId \<Rightarrow> ('s, InscriptionCreateInfo) op) \<Rightarrow> DiscoveredMintBatch \<Rightarrow>
   ('s, CollectedMintItems) op" where
  "collect_block_inscription_mints ambiguous_reason create batch =
     (if mb_valid_mints batch = [] \<and> mb_invalid_mints batch = []
      then ret \<lparr>cm_valid_items = [], cm_invalid_items = []\<rparr>
      else
        bindR (foldR (\<lambda>mint cands.
            bindR (create_info create (dm_inscription_id mint) ''Inscription has no creator address'') (\<lambda>(info, address).
            ret (cands @ [(mint, info, address)]))) (mb_valid_mints batch) []) (\<lambda>cands.
        let reveal_inputs = map (\<lambda>(mint, info, address). ci_commit_outpoint info) cands;
            items = fold (split_candidate ambiguous_reason reveal_inputs) cands \<lparr>cm_valid_items = [], cm_invalid_items = []\<rparr>
        in foldR (\<lambda>invalid items.
            bindR (create_info create (dv_inscription_id invalid) ''Invalid inscription has no creator address'')
              (\<lambda>(info, address).
            ret (items\<lparr>cm_invalid_items := cm_invalid_items items @
              [invalid_item (dv_inscription_id invalid) (dv_inscription_number invalid) (dv_block_height invalid) info address
                (MintValidationErrorCode_as_str (dv_error_code invalid)) (dv_error_reason invalid)]\<rparr>)))
          (mb_invalid_mints batch) items))"

section \<open>What the plan guarantees\<close>

definition event_key_of :: "(InscriptionId \<Rightarrow> string) \<Rightarrow> Transaction list \<Rightarrow> BlockProcessEvent \<Rightarrow> event_key option" where
  "event_key_of id_text txdata e =
     (case e of
        MintEvent item \<Rightarrow> map_option (\<lambda>p. (p, 1, usize_MAX, ii_index (ni_inscription_id item), id_text (ni_inscription_id item)))
          (build_block_tx_position_map txdata (ii_txid (ni_inscription_id item)))
      | TransferEvent item \<Rightarrow>
          Option.bind (build_block_tx_position_map txdata (ti_txid item)) (\<lambda>p.
          map_option (\<lambda>k. (p, 0, k, ii_index (ti_inscription_id item), id_text (ti_inscription_id item)))
            (Option.bind (build_transfer_input_index_map txdata (ti_txid item)) (\<lambda>m. m (sp_outpoint (ti_prev_satpoint item))))))"

lemma mint_key_eq:
  "mint_key id_text (build_block_tx_position_map txs) i = Inr ke \<longleftrightarrow>
     snd ke = MintEvent i \<and> event_key_of id_text txs (MintEvent i) = Some (fst ke)"
  by (cases ke) (auto simp: mint_key_def event_key_of_def split: option.splits)

lemma transfer_key_eq:
  "transfer_key id_text (build_block_tx_position_map txs) (build_transfer_input_index_map txs) i = Inr ke \<longleftrightarrow>
     snd ke = TransferEvent i \<and> event_key_of id_text txs (TransferEvent i) = Some (fst ke)"
  by (cases ke) (auto simp: transfer_key_def event_key_of_def split: option.splits)

definition block_events :: "InscriptionNewItem list \<Rightarrow> InscriptionTransferItem list \<Rightarrow> BlockProcessEvent list" where
  "block_events mints transfers = map MintEvent mints @ map TransferEvent transfers"

text \<open>The keyed events the planner sorts.\<close>

definition keyed_events ::
  "(InscriptionId \<Rightarrow> string) \<Rightarrow> Transaction list \<Rightarrow> BlockProcessEvent list \<Rightarrow> (event_key \<times> BlockProcessEvent) list" where
  "keyed_events id_text txs evs = map (\<lambda>e. (the (event_key_of id_text txs e), e)) evs"

lemma mapR_keys:
  assumes "\<And>x ke. f x = Inr ke \<longleftrightarrow> snd ke = g x \<and> key (g x) = Some (fst ke)"
  shows "mapR f xs = Inr kes \<longleftrightarrow>
    (\<forall>x \<in> set xs. key (g x) \<noteq> None) \<and> kes = map (\<lambda>e. (the (key e), e)) (map g xs)"
proof (induction xs arbitrary: kes)
  case (Cons x xs)
  show ?case
  proof (cases "key (g x)")
    case None
    then have "f x \<noteq> Inr ke" for ke using assms by simp
    then obtain e where "f x = Inl e" by (cases "f x") blast+
    then have "mapR f (x # xs) \<noteq> Inr kes" by simp
    with None show ?thesis by simp
  next
    case (Some k)
    then have fx: "f x = Inr (k, g x)" using assms [of x "(k, g x)"] by simp
    show ?thesis
    proof (cases "mapR f xs")
      case (Inl e)
      then have "\<not> (\<forall>x \<in> set xs. key (g x) \<noteq> None)"
        using Cons.IH [of "map (\<lambda>e. (the (key e), e)) (map g xs)"] by simp
      with fx Inl show ?thesis by simp
    next
      case (Inr rest)
      then have "(\<forall>x \<in> set xs. key (g x) \<noteq> None) \<and> rest = map (\<lambda>e. (the (key e), e)) (map g xs)"
        using Cons.IH by simp
      with fx Inr Some show ?thesis by auto
    qed
  qed
qed auto

lemmas mapR_keyed = mapR_keys [where key = "event_key_of id_text txs" for id_text txs, folded keyed_events_def]

lemma plan_eq:
  "plan id_text txs mints transfers = Inr evs \<longleftrightarrow>
    (\<forall>e \<in> set (block_events mints transfers). event_key_of id_text txs e \<noteq> None) \<and>
    evs = map snd (sort_key fst (keyed_events id_text txs (block_events mints transfers)))"
proof -
  note m = mapR_keyed [of "mint_key id_text (build_block_tx_position_map txs)" MintEvent, OF mint_key_eq]
  note t = mapR_keyed [of "transfer_key id_text (build_block_tx_position_map txs) (build_transfer_input_index_map txs)"
      TransferEvent, OF transfer_key_eq]
  have app: "keyed_events id_text txs (block_events mints transfers) =
      keyed_events id_text txs (map MintEvent mints) @ keyed_events id_text txs (map TransferEvent transfers)"
    by (simp add: keyed_events_def block_events_def)
  show ?thesis
  proof (cases "mints = [] \<and> transfers = []")
    case True
    then show ?thesis by (auto simp: plan_def block_events_def keyed_events_def)
  next
    case False
    have "plan id_text txs mints transfers = Inr evs \<longleftrightarrow> (\<exists>a b.
        mapR (mint_key id_text (build_block_tx_position_map txs)) mints = Inr a \<and>
        mapR (transfer_key id_text (build_block_tx_position_map txs) (build_transfer_input_index_map txs)) transfers = Inr b \<and>
        evs = map snd (sort_key fst (a @ b)))"
      using False by (auto simp: plan_def Let_def split: sum.splits)
    also have "\<dots> \<longleftrightarrow> (\<forall>e \<in> set (block_events mints transfers). event_key_of id_text txs e \<noteq> None) \<and>
        evs = map snd (sort_key fst (keyed_events id_text txs (block_events mints transfers)))"
      unfolding m t app by (auto simp: block_events_def)
    finally show ?thesis .
  qed
qed

lemma keyed_events_map_snd [simp]: "map snd (keyed_events id_text txs evs) = evs"
  by (simp add: keyed_events_def o_def)

lemma plan_sorted:
  assumes "plan id_text txs mints transfers = Inr evs"
  shows "mset evs = mset (block_events mints transfers)"
    and "sorted (map (\<lambda>e. the (event_key_of id_text txs e)) evs)"
proof -
  let ?k = "keyed_events id_text txs (block_events mints transfers)"
  have e: "evs = map snd (sort_key fst ?k)" using assms by (simp add: plan_eq)
  have "mset evs = image_mset snd (mset ?k)" unfolding e by simp
  also have "\<dots> = mset (map snd ?k)" by (simp only: mset_map)
  finally show "mset evs = mset (block_events mints transfers)" by simp
  have "\<forall>x \<in> set (sort_key fst ?k). the (event_key_of id_text txs (snd x)) = fst x"
    by (auto simp: keyed_events_def)
  then have "map (\<lambda>e. the (event_key_of id_text txs e)) evs = map fst (sort_key fst ?k)"
    unfolding e by (simp add: o_def)
  then show "sorted (map (\<lambda>e. the (event_key_of id_text txs e)) evs)" by simp
qed

lemma tx_positions_from_Some:
  "tx_positions_from i txs m t = Some p \<Longrightarrow>
    m t = Some p \<or> (i \<le> p \<and> p < i + length txs \<and> tx_txid (txs ! (p - i)) = t)"
proof (induction txs arbitrary: i m)
  case (Cons tx txs)
  have "(m(tx_txid tx \<mapsto> i)) t = Some p \<or> (Suc i \<le> p \<and> p < Suc i + length txs \<and> tx_txid (txs ! (p - Suc i)) = t)"
    by (rule Cons.IH [of "Suc i" "m(tx_txid tx \<mapsto> i)"]) (use Cons.prems in \<open>simp only: tx_positions_from.simps\<close>)
  then show ?case
  proof
    assume "(m(tx_txid tx \<mapsto> i)) t = Some p"
    then show ?thesis by (auto split: if_splits)
  next
    assume a: "Suc i \<le> p \<and> p < Suc i + length txs \<and> tx_txid (txs ! (p - Suc i)) = t"
    then have "p - i = Suc (p - Suc i)" by (auto simp: Suc_diff_Suc Suc_le_eq)
    with a show ?thesis by simp
  qed
qed simp

lemma tx_position_txid: "build_block_tx_position_map txs t = Some p \<Longrightarrow> p < length txs \<and> tx_txid (txs ! p) = t"
  using tx_positions_from_Some [of 0 txs Map.empty t p] by (simp add: build_block_tx_position_map_def)

text \<open>The kind, the inscription and the transaction of an event.\<close>

fun event_id :: "BlockProcessEvent \<Rightarrow> bool \<times> InscriptionId \<times> Txid" where
  "event_id (MintEvent i) = (True, ni_inscription_id i, ii_txid (ni_inscription_id i))"
| "event_id (TransferEvent i) = (False, ti_inscription_id i, ti_txid i)"

definition inscription_of :: "BlockProcessEvent \<Rightarrow> InscriptionId" where
  "inscription_of e = fst (snd (event_id e))"

lemma event_key_event_id:
  assumes "inj_on id_text (set (map inscription_of evs))" and ab_in: "a \<in> set evs" "b \<in> set evs" and "event_key_of id_text txs a = Some k" and "event_key_of id_text txs b = Some k"
  shows "event_id a = event_id b"
proof -
  note assms = assms(1,4,5)
  have e: "\<exists>p q. k = (p, if fst (event_id e) then 1 else 0, q, ii_index (fst (snd (event_id e))), id_text (fst (snd (event_id e)))) \<and>
      build_block_tx_position_map txs (snd (snd (event_id e))) = Some p" if "event_key_of id_text txs e = Some k" for e
    using that by (cases e) (auto simp: event_key_of_def bind_eq_Some_conv)
  obtain p q where a: "k = (p, if fst (event_id a) then 1 else 0, q, ii_index (fst (snd (event_id a))), id_text (fst (snd (event_id a))))"
    "build_block_tx_position_map txs (snd (snd (event_id a))) = Some p" using e [OF assms(2)] by blast
  obtain p' q' where b: "k = (p', if fst (event_id b) then 1 else 0, q', ii_index (fst (snd (event_id b))), id_text (fst (snd (event_id b))))"
    "build_block_tx_position_map txs (snd (snd (event_id b))) = Some p'" using e [OF assms(3)] by blast
  have "p = p'" "fst (event_id a) = fst (event_id b)" "id_text (fst (snd (event_id a))) = id_text (fst (snd (event_id b)))"
    using a(1) unfolding b(1) by (simp_all only: prod.inject split: if_splits) (simp_all add: eq_commute)
  moreover from this have "snd (snd (event_id a)) = snd (snd (event_id b))"
    using tx_position_txid [OF a(2)] tx_position_txid [OF b(2)] by simp
  moreover have "fst (snd (event_id a)) = fst (snd (event_id b))"
    by (rule inj_onD [OF assms(1) calculation(3)]) (use ab_in in \<open>simp_all add: inscription_of_def\<close>)
  ultimately show ?thesis by (simp add: prod_eq_iff)
qed

section \<open>A concrete block\<close>

text \<open>One transaction that moves the pass 1 and reveals a mint.\<close>

definition sample_new_item :: InscriptionNewItem where
  "sample_new_item = \<lparr>ni_inscription_id = sample_id 9, ni_inscription_number = 2, ni_block_height = 100, ni_timestamp = 0,
     ni_address = 9, ni_satpoint = sample_satpoint 9, ni_value = 600, ni_content_string = [],
     ni_content = Pass_Content.Mint \<lparr>um_eth_main = ''0x1'', um_eth_collab = None, um_prev = []\<rparr>, ni_op = Inscribe,
     ni_commit_txid = 2\<rparr>"

definition sample_transfer_item :: InscriptionTransferItem where
  "sample_transfer_item = \<lparr>ti_inscription_id = sample_id 1, ti_block_height = 100, ti_prev_satpoint = sample_satpoint 1,
     ti_satpoint = sample_satpoint 9, ti_from_address = 7, ti_to_address = Some 8\<rparr>"

lemma sample_event_keys:
  "event_key_of sample_text [sample_tx] (MintEvent sample_new_item) = Some (0, 1, usize_MAX, 0, sample_text (sample_id 9))"
  "event_key_of sample_text [sample_tx] (TransferEvent sample_transfer_item) = Some (0, 0, 0, 0, sample_text (sample_id 1))"
  by (simp_all add: event_key_of_def sample_new_item_def sample_transfer_item_def sample_tx_def sample_id_def
      sample_satpoint_def ti_txid_def build_block_tx_position_map_def build_transfer_input_index_map_def)

lemma sample_plan:
  "plan sample_text [sample_tx] [sample_new_item] [sample_transfer_item] =
    Inr [TransferEvent sample_transfer_item, MintEvent sample_new_item]"
  by (simp add: plan_eq block_events_def sample_event_keys keyed_events_def)

section \<open>The order of a block\<close>

text \<open>C33: the plan of a block.  The planner succeeds exactly when the transaction of every event, and for a
  transfer its spent input, are in the block.  The plan then is a permutation of the mints and
  transfers, in ascending order of (transaction position, transfers before mints, input index,
  inscription index, inscription id).\<close>

theorem plan_orders_block_events:
  "((\<exists>evs. plan id_text txs mints transfers = Inr evs) \<longleftrightarrow>
      (\<forall>e \<in> set (block_events mints transfers). event_key_of id_text txs e \<noteq> None)) \<and>
    (plan id_text txs mints transfers = Inr evs \<longrightarrow>
      mset evs = mset (block_events mints transfers) \<and>
      sorted (map (\<lambda>e. the (event_key_of id_text txs e)) evs))"
  using plan_sorted [of id_text txs mints transfers evs] by (auto simp: plan_eq)

theorem plan_orders_block_events_witness:
  "mset [TransferEvent sample_transfer_item, MintEvent sample_new_item] =
      mset (block_events [sample_new_item] [sample_transfer_item]) \<and>
    sorted (map (\<lambda>e. the (event_key_of sample_text [sample_tx] e))
      [TransferEvent sample_transfer_item, MintEvent sample_new_item])"
  using plan_orders_block_events [of sample_text "[sample_tx]" "[sample_new_item]" "[sample_transfer_item]"
      "[TransferEvent sample_transfer_item, MintEvent sample_new_item]"] sample_plan by blast

text \<open>The plan does not depend on the order in which events were found.  If no inscription has two events
  of the same kind in one transaction and the texts of their ids are different, permuting the lists of mints and of
  transfers given to the planner does not change the plan, so that every indexer executes the events
  of a block in the same order.\<close>

theorem plan_is_canonical:
  assumes "inj_on id_text (set (map inscription_of (block_events mints transfers)))"
    and "inj_on event_id (set (block_events mints transfers))"
    and "plan id_text txs mints transfers = Inr evs"
    and "mset mints' = mset mints" and "mset transfers' = mset transfers"
  shows "plan id_text txs mints' transfers' = Inr evs"
proof -
  let ?b = "block_events mints transfers" and ?b' = "block_events mints' transfers'"
  have bb: "mset ?b' = mset ?b" using assms(4,5) by (simp add: block_events_def)
  then have sb: "set ?b' = set ?b" by (rule mset_eq_setD)
  have loc: "\<forall>e \<in> set ?b. event_key_of id_text txs e \<noteq> None"
    and evs: "evs = map snd (sort_key fst (keyed_events id_text txs ?b))"
    using assms(3) by (simp_all add: plan_eq)
  have inj: "inj_on fst (set (keyed_events id_text txs ?b'))"
  proof (rule inj_onI)
    fix x y assume x: "x \<in> set (keyed_events id_text txs ?b')" and y: "y \<in> set (keyed_events id_text txs ?b')" and xy: "fst x = fst y"
    from x y obtain a b where ab: "a \<in> set ?b" "x = (the (event_key_of id_text txs a), a)"
      "b \<in> set ?b" "y = (the (event_key_of id_text txs b), b)" by (auto simp: keyed_events_def sb)
    have "event_key_of id_text txs a = Some (the (event_key_of id_text txs a))" using loc ab(1) by (simp del: not_None_eq)
    moreover have "event_key_of id_text txs b = Some (the (event_key_of id_text txs b))" using loc ab(3) by (simp del: not_None_eq)
    ultimately have "event_key_of id_text txs a = Some (fst x)" "event_key_of id_text txs b = Some (fst x)"
      using ab xy by simp_all
    then have "event_id a = event_id b" by (rule event_key_event_id [OF assms(1) ab(1,3)])
    then have "a = b" using assms(2) ab(1,3) by (simp add: inj_onD)
    then show "x = y" using ab by simp
  qed
  have "mset (keyed_events id_text txs ?b') = mset (keyed_events id_text txs ?b)"
    using bb by (simp add: keyed_events_def)
  then have "mset (keyed_events id_text txs ?b') = mset (sort_key fst (keyed_events id_text txs ?b))" by simp
  then have "sort_key fst (keyed_events id_text txs ?b') = sort_key fst (keyed_events id_text txs ?b)"
    using inj by (rule sort_key_inj_key_eq) simp
  then show ?thesis using loc sb by (simp add: plan_eq evs)
qed

theorem plan_is_canonical_witness:
  "plan sample_text [sample_tx] [sample_new_item] [sample_transfer_item] =
    Inr [TransferEvent sample_transfer_item, MintEvent sample_new_item]"
proof (rule plan_is_canonical [OF _ _ sample_plan refl refl])
  have "sample_text (sample_id 1) \<noteq> sample_text (sample_id 9)" by code_simp
  then show "inj_on sample_text (set (map inscription_of (block_events [sample_new_item] [sample_transfer_item])))"
    by (auto simp: block_events_def inscription_of_def sample_new_item_def sample_transfer_item_def)
  show "inj_on event_id (set (block_events [sample_new_item] [sample_transfer_item]))"
    by (simp add: block_events_def)
qed

section \<open>What executing a plan does to the passes\<close>

text \<open>The passes as a map, and what one event does to it.\<close>

type_synonym pass_map = "InscriptionId \<rightharpoonup> MinerPassInfo"

definition abs_mint :: "PassMintInscriptionInfo \<Rightarrow> pass_map \<Rightarrow> pass_map" where
  "abs_mint mi P = (\<lambda>i.
     if i = mi_inscription_id mi then Some (new_pass_info mi)
     else map_option (\<lambda>m.
       if i \<in> set (mi_prev mi) \<and> mp_owner m = mi_mint_owner mi \<and> (mp_state m = Active \<or> mp_state m = Dormant)
       then m\<lparr>mp_state := Consumed\<rparr>
       else if mp_state m = Active \<and> mp_owner m = mi_mint_owner mi then m\<lparr>mp_state := Dormant\<rparr>
       else m) (P i))"

definition mint_info :: "(string \<Rightarrow> InscriptionId option) \<Rightarrow> InscriptionNewItem \<Rightarrow> PassMintInscriptionInfo option" where
  "mint_info parse_id item =
     (case ni_content item of Pass_Content.Mint c \<Rightarrow>
        (case prev_inscription_ids parse_id c of
           Inl e \<Rightarrow> None
         | Inr prev \<Rightarrow> Some
             \<lparr>mi_inscription_id = ni_inscription_id item, mi_inscription_number = ni_inscription_number item,
              mi_mint_txid = ni_txid item, mi_mint_block_height = ni_block_height item,
              mi_mint_owner = ni_address item, mi_satpoint = ni_satpoint item,
              mi_eth_main = um_eth_main c, mi_eth_collab = um_eth_collab c, mi_prev = prev\<rparr>))"

fun abs_event :: "(string \<Rightarrow> InscriptionId option) \<Rightarrow> BlockProcessEvent \<Rightarrow> pass_map \<Rightarrow> pass_map" where
  "abs_event parse_id (MintEvent item) P =
     (case mint_info parse_id item of None \<Rightarrow> P | Some mi \<Rightarrow> abs_mint mi P)"
| "abs_event parse_id (TransferEvent item) P =
     (case P (ti_inscription_id item) of
        None \<Rightarrow> P
      | Some m \<Rightarrow> P(ti_inscription_id item \<mapsto>
          (case ti_to_address item of
             Some addr \<Rightarrow> pass_after_transfer addr (ti_satpoint item) m
           | None \<Rightarrow> m\<lparr>mp_state := Burned\<rparr>)))"

text \<open>An event that can be applied: a mint whose predecessors parse and whose pass is new, a transfer of a
  known pass.\<close>

fun event_applies :: "(string \<Rightarrow> InscriptionId option) \<Rightarrow> BlockProcessEvent \<Rightarrow> pass_map \<Rightarrow> bool" where
  "event_applies parse_id (MintEvent item) P \<longleftrightarrow>
     mint_info parse_id item \<noteq> None \<and> P (ni_inscription_id item) = None"
| "event_applies parse_id (TransferEvent item) P \<longleftrightarrow> P (ti_inscription_id item) \<noteq> None"

fun events_apply :: "(string \<Rightarrow> InscriptionId option) \<Rightarrow> BlockProcessEvent list \<Rightarrow> pass_map \<Rightarrow> bool" where
  "events_apply parse_id [] P \<longleftrightarrow> True"
| "events_apply parse_id (e # es) P \<longleftrightarrow> event_applies parse_id e P \<and> events_apply parse_id es (abs_event parse_id e P)"

text \<open>An event of the block at height \<open>h\<close>; a mint does not list itself as a predecessor.\<close>

fun event_at :: "(string \<Rightarrow> InscriptionId option) \<Rightarrow> u32 \<Rightarrow> BlockProcessEvent \<Rightarrow> bool" where
  "event_at parse_id h (MintEvent item) \<longleftrightarrow> ni_block_height item = h \<and>
     (case mint_info parse_id item of None \<Rightarrow> True | Some mi \<Rightarrow> mi_inscription_id mi \<notin> set (mi_prev mi))"
| "event_at parse_id h (TransferEvent item) \<longleftrightarrow> ti_block_height item = h"

fun is_mint :: "BlockProcessEvent \<Rightarrow> bool" where
  "is_mint (MintEvent item) = True"
| "is_mint (TransferEvent item) = False"

lemma pass_after_mint_abs: "pass_after_mint s mi = abs_mint mi (pass_of s)"
  by (rule ext) (auto simp: pass_after_mint_def abs_mint_def inheritable_def map_option_case split: option.splits)

lemma on_new_inscription_eq:
  "on_new_inscription bp parse_id item = (case mint_info parse_id item of
     None \<Rightarrow> fail (Err ''Failed to parse prev inscription ids for inscription'')
   | Some mi \<Rightarrow> on_mint_pass bp mi)"
  by (cases "ni_content item") (simp add: on_new_inscription_def mint_info_def split: sum.splits)

lemma mint_info_simps:
  "mint_info parse_id item = Some mi \<Longrightarrow>
    mi_inscription_id mi = ni_inscription_id item \<and> mi_mint_block_height mi = ni_block_height item"
  by (cases "ni_content item") (auto simp: mint_info_def split: sum.splits)

lemma safe_fail: "no_panic (Inl e :: 'a result) \<Longrightarrow> \<not> t \<Longrightarrow> safe t (fail e :: ('s, 'a) op) s Q"
  by (simp add: safe_def fail_def)

lemma safe_weaken: "safe t m s Q \<Longrightarrow> (\<And>x s'. Q x s' \<Longrightarrow> R x s') \<Longrightarrow> safe t m s R"
  by (simp add: safe_def)

lemma safe_mint:
  assumes "mgr_inv h s" and "provider_ok bp" and "mi_mint_block_height mi = h" and "mi_inscription_id mi \<notin> set (mi_prev mi)"
    and "t \<longrightarrow> provider_total bp \<and> pass_of s (mi_inscription_id mi) = None"
  shows "safe t (on_mint_pass bp mi) s (\<lambda>_ s'. mgr_inv h s' \<and> pass_of s' = abs_mint mi (pass_of s))"
proof -
  obtain r s' where run: "on_mint_pass bp mi s = (r, s')" by fastforce
  note m = mint_pass_all [OF assms(1-4) run refl]
  have "no_panic r" and "t \<Longrightarrow> r = Inr ()" using m assms(5) by simp_all
  moreover have "mgr_inv h s' \<and> pass_of s' = abs_mint mi (pass_of s)" if "r = Inr ()"
    unfolding pass_after_mint_abs [symmetric] using m that by (auto intro!: ext)
  ultimately show ?thesis using run by (simp add: safe_def)
qed

lemma safe_moved_pass:
  assumes inv: "mgr_inv h s" and bp: "provider_ok bp" and t: "t \<longrightarrow> provider_total bp \<and> pass_of s i \<noteq> None"
  shows "safe t (case to of Some addr \<Rightarrow> on_pass_transfer bp i addr sp h | None \<Rightarrow> on_pass_burned bp i h) s
    (\<lambda>_ s'. mgr_inv h s' \<and> pass_of s' = (case pass_of s i of None \<Rightarrow> pass_of s
      | Some m \<Rightarrow> (pass_of s)(i \<mapsto> (case to of Some addr \<Rightarrow> pass_after_transfer addr sp m | None \<Rightarrow> m\<lparr>mp_state := Burned\<rparr>))))"
proof (cases "pass_of s i")
  case None
  then show ?thesis
    using t no_pass_event(1) [OF None, where bp = bp and sp = sp and h = h] no_pass_event(2) [OF None, of bp h]
    by (cases to) (auto simp: safe_def)
next
  case (Some m)
  have tt: "t \<longrightarrow> provider_total bp" using t by simp
  show ?thesis
  proof (cases to)
    case None
    show ?thesis unfolding None Some option.case
      by (rule safe_weaken [OF safe_burn [OF inv bp Some tt]]) auto
  next
    case to: (Some addr)
    show ?thesis unfolding to Some option.case
      by (rule safe_weaken [OF safe_transfer [OF inv bp Some tt]]) auto
  qed
qed

lemma safe_execute_event:
  assumes "mgr_inv h s" and "provider_ok bp" and "event_at parse_id h e"
    and "t \<longrightarrow> provider_total bp \<and> event_applies parse_id e (pass_of s)"
  shows "safe t (execute_event bp parse_id e (a, b)) s (\<lambda>c s'. mgr_inv h s' \<and>
    pass_of s' = abs_event parse_id e (pass_of s) \<and> c = (if is_mint e then (Suc a, b) else (a, Suc b)))"
proof (cases e)
  case (MintEvent item)
  show ?thesis
  proof (cases "mint_info parse_id item")
    case None
    then show ?thesis
      using assms(4) MintEvent
      by (auto simp: execute_event_def on_new_inscription_eq safe_def bindR_def fail_def)
  next
    case (Some mi)
    have "safe t (on_mint_pass bp mi) s (\<lambda>_ s'. mgr_inv h s' \<and> pass_of s' = abs_mint mi (pass_of s))"
      by (rule safe_mint [OF assms(1,2)]) (use assms(3,4) MintEvent Some mint_info_simps [OF Some] in auto)
    then show ?thesis
      unfolding execute_event_def MintEvent BlockProcessEvent.case on_new_inscription_eq Some option.case
      by (rule safe_bind) (rule safe_ret, use Some in simp)
  qed
next
  case (TransferEvent item)
  have h: "ti_block_height item = h" using assms(3) TransferEvent by simp
  have "t \<longrightarrow> provider_total bp \<and> pass_of s (ti_inscription_id item) \<noteq> None" using assms(4) TransferEvent by simp
  note sm = safe_moved_pass [OF assms(1,2) this, where to = "ti_to_address item" and sp = "ti_satpoint item"]
  show ?thesis
    unfolding execute_event_def TransferEvent BlockProcessEvent.case h
    by (rule safe_bind [OF sm]) (rule safe_ret, simp split: option.splits)
qed

lemma safe_foldR_events:
  assumes "mgr_inv h s" and "provider_ok bp" and "\<forall>e \<in> set evs. event_at parse_id h e"
    and "t \<longrightarrow> provider_total bp \<and> events_apply parse_id evs (pass_of s)"
  shows "safe t (foldR (execute_event bp parse_id) evs (a, b)) s (\<lambda>c s'. mgr_inv h s' \<and>
    pass_of s' = fold (abs_event parse_id) evs (pass_of s) \<and>
    c = (a + length (filter is_mint evs), b + length (filter (\<lambda>e. \<not> is_mint e) evs)))"
  using assms
proof (induction evs arbitrary: s a b)
  case Nil
  then show ?case by (simp add: safe_def)
next
  case (Cons e evs)
  have e: "event_at parse_id h e" "t \<longrightarrow> provider_total bp \<and> event_applies parse_id e (pass_of s)"
    using Cons.prems by simp_all
  show ?case
    unfolding foldR.simps
  proof (rule safe_bind [OF safe_execute_event [OF Cons.prems(1,2) e]])
    fix c s1 assume s1: "mgr_inv h s1 \<and> pass_of s1 = abs_event parse_id e (pass_of s) \<and>
      c = (if is_mint e then (Suc a, b) else (a, Suc b))"
    have "t \<longrightarrow> provider_total bp \<and> events_apply parse_id evs (pass_of s1)" using Cons.prems(4) s1 by simp
    note IH = Cons.IH [OF conjunct1 [OF s1] Cons.prems(2) _ this]
    show "safe t (foldR (execute_event bp parse_id) evs c) s1 (\<lambda>c s'. mgr_inv h s' \<and>
      pass_of s' = fold (abs_event parse_id) (e # evs) (pass_of s) \<and>
      c = (a + length (filter is_mint (e # evs)), b + length (filter (\<lambda>e. \<not> is_mint e) (e # evs))))"
      by (cases "is_mint e") (use s1 Cons.prems(3) in \<open>auto intro!: safe_weaken [OF IH]\<close>)
  qed
qed

text \<open>C38: executing a plan refines the map of passes.  For the events of one block, with the database in
  agreement with the energy store and a balance service that keeps its contract, \<open>execute\<close> fails no
  assertion; when it succeeds it has counted the mints and transfers and the passes are those of the
  abstract map after the same events in the same order.  It does succeed when the balance service
  answers, minted passes are new and transferred passes are known.\<close>

theorem execute_refines_pass_map:
  assumes "mgr_inv h s" and "provider_ok bp" and "\<forall>e \<in> set evs. event_at parse_id h e"
    and "execute bp parse_id evs s = (r, s')"
  shows "no_panic r \<and> (provider_total bp \<and> events_apply parse_id evs (pass_of s) \<longrightarrow> (\<exists>c. r = Inr c)) \<and>
    (\<forall>c. r = Inr c \<longrightarrow> mgr_inv h s' \<and> pass_of s' = fold (abs_event parse_id) evs (pass_of s) \<and>
      c = (length (filter is_mint evs), length (filter (\<lambda>e. \<not> is_mint e) evs)))"
  using safe_run [OF safe_foldR_events [OF assms(1-3), of "provider_total bp \<and> events_apply parse_id evs (pass_of s)" 0 0]
      assms(4) [unfolded execute_def]] by auto

theorem execute_refines_pass_map_witness:
  "\<exists>s'. execute sample_provider (\<lambda>_. None) [TransferEvent sample_transfer_item, MintEvent sample_new_item] sample_mgr1 =
      (Inr (1, 1), s') \<and>
    map_option mp_owner (pass_of s' (sample_id 1)) = Some 8 \<and>
    map_option mp_state (pass_of s' (sample_id 1)) = Some Dormant \<and>
    map_option mp_state (pass_of s' (sample_id 9)) = Some Active"
proof -
  let ?evs = "[TransferEvent sample_transfer_item, MintEvent sample_new_item]"
  obtain r s' where run: "execute sample_provider (\<lambda>_. None) ?evs sample_mgr1 = (r, s')" by fastforce
  have d: "sample_id 9 \<noteq> sample_id 1" by code_simp
  obtain mi where mi: "mint_info (\<lambda>_. None) sample_new_item = Some mi" "mi_prev mi = []"
    "mi_inscription_id mi = sample_id 9" "mi_mint_owner mi = 9"
    by (simp add: mint_info_def sample_new_item_def prev_inscription_ids_def)
  have at: "\<forall>e \<in> set ?evs. event_at (\<lambda>_. None) 100 e"
    using mi by (simp add: sample_new_item_def sample_transfer_item_def)
  have i: "ti_inscription_id sample_transfer_item = sample_id 1" "ti_to_address sample_transfer_item = Some 8"
    "ni_inscription_id sample_new_item = sample_id 9" by (simp_all add: sample_new_item_def sample_transfer_item_def)
  have ap: "events_apply (\<lambda>_. None) ?evs (pass_of sample_mgr1)"
    using mi i d by (simp add: sample_mgr1_pass)
  note ex = execute_refines_pass_map [OF sample_mgr1_inv sample_provider_ok at run]
  then obtain c where c: "r = Inr c" using ap sample_provider_total by blast
  then have "c = (1, 1)" and p: "pass_of s' = fold (abs_event (\<lambda>_. None)) ?evs (pass_of sample_mgr1)"
    using ex by simp_all
  with run c show ?thesis
    using d by (simp add: p mi i abs_mint_def sample_mgr1_pass pass_after_transfer_def)
qed

end
