(* ===== verification/Balance_Monitor.thy ===== *)
theory Balance_Monitor
  imports Pass_Timeline Energy_Manager
begin

text \<open>
  \<open>usdb-indexer/src/balance/rpc.rs\<close> (the serial and the concurrent balance loader) and
  \<open>balance/monitor.rs\<close> (the settlement of the balances of active passes at a block).  The answers of
  the balance service, the timeouts and the order in which concurrent queries finish are parameters.
\<close>

section \<open>The balance service\<close>

text \<open>
  \<open>rw_answer i k addresses height\<close> is the answer to attempt \<open>k\<close> of the query of batch \<open>i\<close>,
  \<open>rw_elapsed i k ms\<close> says that this attempt took longer than \<open>ms\<close>, and \<open>rw_finishes inflight next\<close> is
  the position of the task that finishes next among those in flight.
\<close>

record rpc_world =
  rw_answer :: "nat \<Rightarrow> nat \<Rightarrow> USDBScriptHash list \<Rightarrow> u32 \<Rightarrow> AddressBalance list list result"
  rw_elapsed :: "nat \<Rightarrow> nat \<Rightarrow> u64 \<Rightarrow> bool"
  rw_finishes :: "nat list \<Rightarrow> nat \<Rightarrow> nat"

section \<open>Batches\<close>

text \<open>\<open>slice::chunks\<close>; a chunk size of 0 is rejected by the constructors.\<close>

function chunks :: "nat \<Rightarrow> 'a list \<Rightarrow> 'a list list" where
  "chunks n xs = (if xs = [] \<or> n = 0 then [] else take n xs # chunks n (drop n xs))"
  by pat_completeness auto
termination by (relation "measure (\<lambda>(n, xs). length xs)") auto

declare chunks.simps [simp del]

definition collect_batch_balances ::
  "USDBScriptHash list \<Rightarrow> AddressBalance list list \<Rightarrow> (USDBScriptHash \<times> AddressBalance) list result" where
  "collect_batch_balances addresses balances =
     (if length balances \<noteq> length addresses then Inl (Err ''Address balance batch size mismatch'')
      else mapR (\<lambda>(script_hash, items).
        case items of [item] \<Rightarrow> Inr (script_hash, item)
        | _ \<Rightarrow> Inl (Err ''Expected exactly one balance item'')) (zip addresses balances))"

section \<open>Loaders\<close>

record SerialBalanceLoader =
  sl_batch_size :: nat

definition SerialBalanceLoader_new :: "nat \<Rightarrow> SerialBalanceLoader result" where
  "SerialBalanceLoader_new batch_size =
     (if batch_size = 0 then Inl (Err ''Invalid batch_size for serial balance loader: must be > 0'')
      else Inr \<lparr>sl_batch_size = batch_size\<rparr>)"

text \<open>The batches are numbered from \<open>i\<close>.\<close>

fun serial_batches ::
  "rpc_world \<Rightarrow> u32 \<Rightarrow> nat \<Rightarrow> USDBScriptHash list list \<Rightarrow> (USDBScriptHash \<times> AddressBalance) list \<Rightarrow>
   (USDBScriptHash \<times> AddressBalance) list result" where
  "serial_batches w block_height i [] all_entries = Inr all_entries"
| "serial_batches w block_height i (batch # batches) all_entries =
     (case rw_answer w i 1 batch block_height of
        Inl e \<Rightarrow> Inl e
      | Inr balances \<Rightarrow>
          (case collect_batch_balances batch balances of
             Inl e \<Rightarrow> Inl e
           | Inr entries \<Rightarrow> serial_batches w block_height (Suc i) batches (all_entries @ entries)))"

definition load_balances_serial ::
  "rpc_world \<Rightarrow> SerialBalanceLoader \<Rightarrow> USDBScriptHash list \<Rightarrow> u32 \<Rightarrow> (USDBScriptHash \<times> AddressBalance) list result" where
  "load_balances_serial w loader active_addresses block_height =
     serial_batches w block_height 0 (chunks (sl_batch_size loader) active_addresses) []"

record ConcurrentBalanceLoader =
  cl_batch_size :: nat
  cl_concurrency :: nat
  cl_timeout_ms :: u64
  cl_max_retries :: u32

definition ConcurrentBalanceLoader_new :: "nat \<Rightarrow> nat \<Rightarrow> u64 \<Rightarrow> u32 \<Rightarrow> ConcurrentBalanceLoader result" where
  "ConcurrentBalanceLoader_new batch_size concurrency timeout_ms max_retries =
     (if batch_size = 0 then Inl (Err ''Invalid batch_size for concurrent balance loader: must be > 0'')
      else if concurrency = 0 then Inl (Err ''Invalid concurrency for concurrent balance loader: must be > 0'')
      else if timeout_ms = 0 then Inl (Err ''Invalid timeout_ms for concurrent balance loader: must be > 0'')
      else Inr \<lparr>cl_batch_size = batch_size, cl_concurrency = concurrency, cl_timeout_ms = timeout_ms,
        cl_max_retries = max_retries\<rparr>)"

text \<open>The attempts \<open>attempt, attempt + 1, \<dots>, max_attempts\<close>; after the last one the code is unreachable.\<close>

fun retry_loop ::
  "rpc_world \<Rightarrow> u32 \<Rightarrow> nat \<Rightarrow> USDBScriptHash list \<Rightarrow> u64 \<Rightarrow> nat \<Rightarrow> nat list \<Rightarrow> AddressBalance list list result" where
  "retry_loop w block_height i addresses timeout_ms max_attempts [] =
     Inl (Panic ''retry loop must return on success or final failure'')"
| "retry_loop w block_height i addresses timeout_ms max_attempts (attempt # attempts) =
     (if rw_elapsed w i attempt timeout_ms
      then (if max_attempts \<le> attempt then Inl (Err ''Balance RPC timeout after retries'')
            else retry_loop w block_height i addresses timeout_ms max_attempts attempts)
      else (case rw_answer w i attempt addresses block_height of
          Inr balances \<Rightarrow> Inr balances
        | Inl e \<Rightarrow> (if max_attempts \<le> attempt then Inl (Err ''Balance RPC failed after retries'')
            else retry_loop w block_height i addresses timeout_ms max_attempts attempts)))"

definition query_batch_with_retry ::
  "rpc_world \<Rightarrow> u32 \<Rightarrow> nat \<Rightarrow> USDBScriptHash list \<Rightarrow> u64 \<Rightarrow> u32 \<Rightarrow> AddressBalance list list result" where
  "query_batch_with_retry w block_height i addresses timeout_ms max_retries =
     (let max_attempts = unat (sat_add max_retries 1)
      in retry_loop w block_height i addresses timeout_ms max_attempts [1..<Suc max_attempts])"

definition remove_nth :: "nat \<Rightarrow> 'a list \<Rightarrow> 'a list" where
  "remove_nth k xs = take k xs @ drop (Suc k) xs"

lemma length_remove_nth [simp]: "k < length xs \<Longrightarrow> length (remove_nth k xs) = length xs - 1"
  by (simp add: remove_nth_def)

text \<open>
  The \<open>JoinSet\<close>: \<open>inflight\<close> are the batches in flight, \<open>next\<close> the first batch not yet spawned.  Each
  round takes a finished task and spawns the next batch, if there is one.
\<close>

function join_loop ::
  "rpc_world \<Rightarrow> ConcurrentBalanceLoader \<Rightarrow> u32 \<Rightarrow> USDBScriptHash list list \<Rightarrow> nat list \<Rightarrow> nat \<Rightarrow>
   (USDBScriptHash \<times> AddressBalance) list \<Rightarrow> (USDBScriptHash \<times> AddressBalance) list result" where
  "join_loop w loader block_height batches inflight next all_entries =
     (if inflight = [] then Inr all_entries
      else
        (let k = rw_finishes w inflight next mod length inflight;
             i = inflight ! k;
             rest = remove_nth k inflight
         in case query_batch_with_retry w block_height i (batches ! i) (cl_timeout_ms loader) (cl_max_retries loader) of
              Inl e \<Rightarrow> Inl e
            | Inr balances \<Rightarrow>
                (case collect_batch_balances (batches ! i) balances of
                   Inl e \<Rightarrow> Inl e
                 | Inr entries \<Rightarrow>
                     if next < length batches
                     then join_loop w loader block_height batches (rest @ [next]) (Suc next) (all_entries @ entries)
                     else join_loop w loader block_height batches rest next (all_entries @ entries))))"
  by pat_completeness auto
termination
  by (relation "measure (\<lambda>(w, loader, h, batches, inflight, next, es). length inflight + 2 * (length batches - next))")
    auto

declare join_loop.simps [simp del]

definition load_balances_concurrent ::
  "rpc_world \<Rightarrow> ConcurrentBalanceLoader \<Rightarrow> USDBScriptHash list \<Rightarrow> u32 \<Rightarrow> (USDBScriptHash \<times> AddressBalance) list result" where
  "load_balances_concurrent w loader active_addresses block_height =
     (let batches = chunks (cl_batch_size loader) active_addresses
      in if batches = [] then Inr []
         else
           (let max_concurrency = max (min (cl_concurrency loader) (length batches)) 1
            in join_loop w loader block_height batches [0..<max_concurrency] max_concurrency []))"

datatype BalanceRpcLoader = Serial SerialBalanceLoader | Concurrent ConcurrentBalanceLoader

fun load_balances ::
  "rpc_world \<Rightarrow> BalanceRpcLoader \<Rightarrow> USDBScriptHash list \<Rightarrow> u32 \<Rightarrow> (USDBScriptHash \<times> AddressBalance) list result" where
  "load_balances w (Serial loader) = load_balances_serial w loader"
| "load_balances w (Concurrent loader) = load_balances_concurrent w loader"

definition load_total_balance :: "rpc_world \<Rightarrow> BalanceRpcLoader \<Rightarrow> USDBScriptHash list \<Rightarrow> u32 \<Rightarrow> u64 result" where
  "load_total_balance w loader active_addresses block_height =
     map_sum id (\<lambda>entries. fold (\<lambda>(_, item) acc. sat_add acc (bal_balance item)) entries 0)
       (load_balances w loader active_addresses block_height)"

section \<open>The monitor\<close>

record BalanceMonitor =
  bm_rpc_loader :: BalanceRpcLoader
  bm_active_address_page_size :: u64
  bm_balance_query_batch_size :: nat

record monitor_config =
  cfg_active_address_page_size :: u64
  cfg_balance_query_batch_size :: nat
  cfg_balance_query_concurrency :: nat
  cfg_balance_query_timeout_ms :: u64
  cfg_balance_query_max_retries :: u32

definition BalanceMonitor_new :: "monitor_config \<Rightarrow> BalanceMonitor result" where
  "BalanceMonitor_new cfg =
     (if cfg_active_address_page_size cfg = 0
      then Inl (Err ''Invalid config: usdb.active_address_page_size must be > 0'')
      else if cfg_balance_query_batch_size cfg = 0
      then Inl (Err ''Invalid config: usdb.balance_query_batch_size must be > 0'')
      else
        (case (if cfg_balance_query_concurrency cfg = 1 \<and> cfg_balance_query_max_retries cfg = 0
               then map_sum id Serial (SerialBalanceLoader_new (cfg_balance_query_batch_size cfg))
               else map_sum id Concurrent (ConcurrentBalanceLoader_new (cfg_balance_query_batch_size cfg)
                 (cfg_balance_query_concurrency cfg) (cfg_balance_query_timeout_ms cfg) (cfg_balance_query_max_retries cfg))) of
           Inl e \<Rightarrow> Inl e
         | Inr loader \<Rightarrow> Inr \<lparr>bm_rpc_loader = loader, bm_active_address_page_size = cfg_active_address_page_size cfg,
             bm_balance_query_batch_size = cfg_balance_query_batch_size cfg\<rparr>))"

record ActivePassBalance =
  pb_inscription_id :: InscriptionId
  pb_owner :: USDBScriptHash
  pb_block_height :: u32
  pb_balance :: u64
  pb_delta :: i64

record ActiveBalanceSettlement =
  bs_snapshot :: ActiveBalanceSnapshot
  bs_active_pass_balances :: "ActivePassBalance list"

text \<open>The map from owner to pass, as the list of its entries; an owner seen twice is an error.\<close>

fun insert_owners ::
  "ActiveMinerPassInfo list \<Rightarrow> ActiveMinerPassInfo list \<Rightarrow> ActiveMinerPassInfo list result" where
  "insert_owners [] owner_to_pass = Inr owner_to_pass"
| "insert_owners (pass # passes) owner_to_pass =
     (if ap_owner pass \<in> ap_owner ` set owner_to_pass then Inl (Err ''Duplicate active owner detected'')
      else insert_owners passes (owner_to_pass @ [pass]))"

text \<open>The page loop; \<open>None\<close> when the fuel runs out.\<close>

fun load_active_loop ::
  "nat \<Rightarrow> u64 \<Rightarrow> u64 \<Rightarrow> u32 \<Rightarrow> pass_db \<Rightarrow> ActiveMinerPassInfo list \<Rightarrow> ActiveMinerPassInfo list result option" where
  "load_active_loop 0 page page_size block_height db owner_to_pass = None"
| "load_active_loop (Suc fuel) page page_size block_height db owner_to_pass =
     (let active_passes = get_all_active_pass_by_page_from_history_at_height page page_size block_height db
      in if active_passes = [] then Some (Inr owner_to_pass)
         else case insert_owners active_passes owner_to_pass of
                Inl e \<Rightarrow> Some (Inl e)
              | Inr owner_to_pass' \<Rightarrow>
                  if length active_passes < unat page_size then Some (Inr owner_to_pass')
                  else load_active_loop fuel (page + 1) page_size block_height db owner_to_pass')"

text \<open>
  The fuel is one page more than there are events; running out of it would be the error below, which
  the theorem \<open>load_active_passes_ends\<close> excludes.  The entries of the hash map are sorted by the
  text of the owner; with different texts the order in which the map yields them does not matter.
\<close>

definition load_active_passes ::
  "(USDBScriptHash \<Rightarrow> string) \<Rightarrow> u64 \<Rightarrow> u32 \<Rightarrow> pass_db \<Rightarrow> ActiveMinerPassInfo list result" where
  "load_active_passes owner_text page_size block_height db =
     (case load_active_loop (Suc (length (db_history db))) 0 page_size block_height db [] of
        None \<Rightarrow> Inl (Err ''out of fuel'')
      | Some (Inl e) \<Rightarrow> Inl e
      | Some (Inr passes) \<Rightarrow> Inr (sort_key (\<lambda>v. owner_text (ap_owner v)) passes))"

text \<open>The hash map \<open>balance_by_owner\<close>, as the list of its entries.\<close>

fun insert_balances ::
  "(USDBScriptHash \<times> AddressBalance) list \<Rightarrow> (USDBScriptHash \<times> AddressBalance) list \<Rightarrow>
   (USDBScriptHash \<times> AddressBalance) list result" where
  "insert_balances [] m = Inr m"
| "insert_balances ((own, balance) # balances) m =
     (if own \<in> fst ` set m then Inl (Err ''Duplicate owner balance returned by RPC'')
      else insert_balances balances (m @ [(own, balance)]))"

definition pass_balance :: "u32 \<Rightarrow> ActiveMinerPassInfo \<Rightarrow> AddressBalance \<Rightarrow> ActivePassBalance" where
  "pass_balance block_height pass owner_balance =
     \<lparr>pb_inscription_id = ap_inscription_id pass, pb_owner = ap_owner pass, pb_block_height = block_height,
      pb_balance = bal_balance owner_balance,
      pb_delta = (if bal_block_height owner_balance < block_height then 0 else bal_delta owner_balance)\<rparr>"

fun settle_passes ::
  "u32 \<Rightarrow> ActiveMinerPassInfo list \<Rightarrow> (USDBScriptHash \<times> AddressBalance) list \<Rightarrow> u64 \<Rightarrow> ActivePassBalance list \<Rightarrow>
   ((USDBScriptHash \<times> AddressBalance) list \<times> u64 \<times> ActivePassBalance list) result" where
  "settle_passes block_height [] m total_balance rows = Inr (m, total_balance, rows)"
| "settle_passes block_height (pass # passes) m total_balance rows =
     (case map_of m (ap_owner pass) of
        None \<Rightarrow> Inl (Err ''Missing owner balance returned by RPC'')
      | Some owner_balance \<Rightarrow>
          if block_height < bal_block_height owner_balance
          then Inl (Err ''Unexpected future owner balance height returned by RPC'')
          else settle_passes block_height passes (filter (\<lambda>e. fst e \<noteq> ap_owner pass) m)
                 (sat_add total_balance (bal_balance owner_balance))
                 (rows @ [pass_balance block_height pass owner_balance]))"

definition settle_active_balance_with_details ::
  "(USDBScriptHash \<Rightarrow> string) \<Rightarrow> rpc_world \<Rightarrow> BalanceMonitor \<Rightarrow> u32 \<Rightarrow> (pass_db, ActiveBalanceSettlement) op" where
  "settle_active_balance_with_details owner_text w monitor block_height =
     bindR (getsR (assert_no_data_after_block_height block_height)) (\<lambda>_.
     bindR (getsR (load_active_passes owner_text (bm_active_address_page_size monitor) block_height)) (\<lambda>active_passes.
     if 2 ^ 32 \<le> int (length active_passes) then fail (Err ''Too many active addresses to fit into u32'')
     else
       bindR (getsR (\<lambda>_. load_balances w (bm_rpc_loader monitor) (map ap_owner active_passes) block_height)) (\<lambda>balances.
       bindR (getsR (\<lambda>_. insert_balances balances [])) (\<lambda>balance_by_owner.
       bindR (getsR (\<lambda>_. settle_passes block_height active_passes balance_by_owner 0 [])) (\<lambda>(rest, total_balance, rows).
       if rest \<noteq> [] then fail (Err ''RPC returned extra owner balances not in active pass set'')
       else
         bindR (modify (upsert_active_balance_snapshot block_height total_balance (of_nat (length active_passes)))) (\<lambda>_.
         ret \<lparr>bs_snapshot = \<lparr>as_block_height = block_height, as_total_balance = total_balance,
                as_active_address_count = of_nat (length active_passes)\<rparr>,
              bs_active_pass_balances = rows\<rparr>))))))"

definition settle_active_balance ::
  "(USDBScriptHash \<Rightarrow> string) \<Rightarrow> rpc_world \<Rightarrow> BalanceMonitor \<Rightarrow> u32 \<Rightarrow> (pass_db, ActiveBalanceSnapshot) op" where
  "settle_active_balance owner_text w monitor block_height =
     bindR (settle_active_balance_with_details owner_text w monitor block_height) (\<lambda>settled. ret (bs_snapshot settled))"

section \<open>What the loaders promise\<close>

lemma concat_chunks: "0 < n \<Longrightarrow> concat (chunks n xs) = xs"
proof (induction n xs rule: chunks.induct)
  case (1 n xs)
  then show ?case by (subst chunks.simps) auto
qed

text \<open>What a service that knows the balance \<open>bal a h\<close> of every address answers to a batch.\<close>

abbreviation answer_of :: "(USDBScriptHash \<Rightarrow> u32 \<Rightarrow> AddressBalance) \<Rightarrow> USDBScriptHash list \<Rightarrow> u32 \<Rightarrow> AddressBalance list list" where
  "answer_of bal addresses h \<equiv> map (\<lambda>a. [bal a h]) addresses"

abbreviation entries_of :: "(USDBScriptHash \<Rightarrow> u32 \<Rightarrow> AddressBalance) \<Rightarrow> u32 \<Rightarrow> USDBScriptHash list \<Rightarrow> (USDBScriptHash \<times> AddressBalance) list" where
  "entries_of bal h addresses \<equiv> map (\<lambda>a. (a, bal a h)) addresses"

lemma collect_answer: "collect_batch_balances addresses (answer_of bal addresses h) = Inr (entries_of bal h addresses)"
proof -
  have "mapR (\<lambda>(script_hash, items). case items of [item] \<Rightarrow> Inr (script_hash, item)
      | _ \<Rightarrow> Inl (Err ''Expected exactly one balance item'')) (zip addresses (answer_of bal addresses h)) =
    Inr (map (\<lambda>(a, items). (a, hd items)) (zip addresses (answer_of bal addresses h)))"
    by (rule mapR_all) (auto simp: set_zip)
  then show ?thesis by (simp add: collect_batch_balances_def zip_map2 zip_same_conv_map)
qed

text \<open>A service that answers the first attempt of every query.\<close>

definition answers_first :: "nat \<Rightarrow> rpc_world \<Rightarrow> (USDBScriptHash \<Rightarrow> u32 \<Rightarrow> AddressBalance) \<Rightarrow> bool" where
  "answers_first batch_size w bal \<longleftrightarrow> 0 < batch_size \<and>
     (\<forall>i addresses h. rw_answer w i 1 addresses h = Inr (answer_of bal addresses h))"

text \<open>A service that answers every query within the allowed attempts; the earlier ones fail or time out.\<close>

definition answers_within :: "ConcurrentBalanceLoader \<Rightarrow> rpc_world \<Rightarrow> (USDBScriptHash \<Rightarrow> u32 \<Rightarrow> AddressBalance) \<Rightarrow> bool" where
  "answers_within loader w bal \<longleftrightarrow> 0 < cl_batch_size loader \<and> 0 < cl_concurrency loader \<and>
     (\<forall>i addresses h. \<exists>k. 1 \<le> k \<and> k \<le> unat (sat_add (cl_max_retries loader) 1) \<and>
        \<not> rw_elapsed w i k (cl_timeout_ms loader) \<and> rw_answer w i k addresses h = Inr (answer_of bal addresses h) \<and>
        (\<forall>j. 1 \<le> j \<and> j < k \<longrightarrow> rw_elapsed w i j (cl_timeout_ms loader) \<or> (\<exists>e. rw_answer w i j addresses h = Inl e)))"

lemma serial_batches_answers:
  assumes "answers_first n w bal"
  shows "serial_batches w h i batches es = Inr (es @ concat (map (entries_of bal h) batches))"
  using assms by (induction batches arbitrary: i es) (simp_all add: answers_first_def collect_answer)

lemma retry_loop_answers:
  assumes "1 \<le> m" and "m \<le> k" and "k \<le> mx" and "\<not> rw_elapsed w i k t" and "rw_answer w i k addresses h = Inr b"
    and "\<forall>j. m \<le> j \<and> j < k \<longrightarrow> rw_elapsed w i j t \<or> (\<exists>e. rw_answer w i j addresses h = Inl e)"
  shows "retry_loop w h i addresses t mx [m..<Suc mx] = Inr b"
  using assms
proof (induction "k - m" arbitrary: m)
  case 0
  then have "[m..<Suc mx] = k # [Suc k..<Suc mx]" by (simp add: upt_rec)
  with 0 show ?case by simp
next
  case (Suc d)
  then have "[m..<Suc mx] = m # [Suc m..<Suc mx]" and "\<not> mx \<le> m" by (simp_all add: upt_rec)
  moreover have "retry_loop w h i addresses t mx [Suc m..<Suc mx] = Inr b"
    by (rule Suc.hyps(1)) (use Suc in auto)
  moreover have "rw_elapsed w i m t \<or> (\<exists>e. rw_answer w i m addresses h = Inl e)" using Suc by auto
  ultimately show ?case by (auto split: sum.splits)
qed

lemma query_answers:
  assumes "answers_within loader w bal"
  shows "query_batch_with_retry w h i addresses (cl_timeout_ms loader) (cl_max_retries loader) = Inr (answer_of bal addresses h)"
proof -
  from assms obtain k where "1 \<le> k" "k \<le> unat (sat_add (cl_max_retries loader) 1)"
    "\<not> rw_elapsed w i k (cl_timeout_ms loader)" "rw_answer w i k addresses h = Inr (answer_of bal addresses h)"
    "\<forall>j. 1 \<le> j \<and> j < k \<longrightarrow> rw_elapsed w i j (cl_timeout_ms loader) \<or> (\<exists>e. rw_answer w i j addresses h = Inl e)"
    unfolding answers_within_def by blast
  then show ?thesis unfolding query_batch_with_retry_def Let_def by (intro retry_loop_answers) auto
qed

lemma mset_remove_nth: "k < length xs \<Longrightarrow> mset xs = add_mset (xs ! k) (mset (remove_nth k xs))"
  unfolding remove_nth_def by (metis id_take_nth_drop mset_append mset.simps(2) union_mset_add_mset_right)

lemma mset_concat_remove_nth:
  assumes "k < length xs"
  shows "mset (concat (map f xs)) = mset (f (xs ! k)) + mset (concat (map f (remove_nth k xs)))"
proof -
  have c: "mset (concat (map f ys)) = \<Sum>\<^sub># (image_mset (\<lambda>y. mset (f y)) (mset ys))" for ys
    by (induction ys) simp_all
  show ?thesis unfolding c mset_remove_nth [OF assms] by simp
qed

lemma join_loop_answers:
  assumes "answers_within loader w bal" and "next < length batches \<Longrightarrow> inflight \<noteq> []"
  shows "\<exists>es'. join_loop w loader h batches inflight next es = Inr es' \<and>
    mset es' = mset es + mset (concat (map (\<lambda>i. entries_of bal h (batches ! i)) inflight)) +
      mset (concat (map (\<lambda>i. entries_of bal h (batches ! i)) [next..<length batches]))"
  using assms(2)
proof (induction "length inflight + 2 * (length batches - next)" arbitrary: inflight "next" es rule: less_induct)
  case less
  let ?e = "\<lambda>i. entries_of bal h (batches ! i)"
  show ?case
  proof (cases "inflight = []")
    case True
    then have "[next..<length batches] = []" using less.prems by (cases "next < length batches") simp_all
    then show ?thesis unfolding True by (simp only: list.map concat.simps) (simp add: join_loop.simps)
  next
    case False
    define k where "k = rw_finishes w inflight next mod length inflight"
    define rest where "rest = remove_nth k inflight"
    have k: "k < length inflight" using False by (simp add: k_def)
    have m: "mset (concat (map ?e inflight)) = mset (?e (inflight ! k)) + mset (concat (map ?e rest))"
      unfolding rest_def by (rule mset_concat_remove_nth [OF k])
    have l: "length rest = length inflight - 1" using k by (simp add: rest_def)
    have step: "join_loop w loader h batches inflight next es =
        (if next < length batches
         then join_loop w loader h batches (rest @ [next]) (Suc next) (es @ ?e (inflight ! k))
         else join_loop w loader h batches rest next (es @ ?e (inflight ! k)))"
      using False by (subst join_loop.simps) (simp add: Let_def query_answers [OF assms(1)] collect_answer k_def rest_def)
    show ?thesis
    proof (cases "next < length batches")
      case True
      then have u: "[next..<length batches] = next # [Suc next..<length batches]" by (simp add: upt_rec)
      have "\<exists>es'. join_loop w loader h batches (rest @ [next]) (Suc next) (es @ ?e (inflight ! k)) = Inr es' \<and>
          mset es' = mset (es @ ?e (inflight ! k)) + mset (concat (map ?e (rest @ [next]))) +
            mset (concat (map ?e [Suc next..<length batches]))"
        by (rule less.hyps) (use True False k l in auto)
      then show ?thesis unfolding step u m using True by auto
    next
      case False
      have "\<exists>es'. join_loop w loader h batches rest next (es @ ?e (inflight ! k)) = Inr es' \<and>
          mset es' = mset (es @ ?e (inflight ! k)) + mset (concat (map ?e rest)) +
            mset (concat (map ?e [next..<length batches]))"
        by (rule less.hyps) (use False k l in auto)
      then show ?thesis unfolding step m using False by auto
    qed
  qed
qed

lemma concat_map_nth: "concat (map (\<lambda>i. f (xs ! i)) [0..<length xs]) = concat (map f xs)"
  by (rule arg_cong [where f = concat]) (rule nth_equalityI, simp_all)

lemma insert_balances_new: "distinct (map fst (m @ es)) \<Longrightarrow> insert_balances es m = Inr (m @ es)"
  by (induction es arbitrary: m) auto

definition total_of :: "(USDBScriptHash \<Rightarrow> u32 \<Rightarrow> AddressBalance) \<Rightarrow> u32 \<Rightarrow> ActiveMinerPassInfo list \<Rightarrow> u64" where
  "total_of bal h passes = fold (\<lambda>p t. sat_add t (bal_balance (bal (ap_owner p) h))) passes 0"

lemma settle_passes_all:
  assumes "\<forall>p \<in> set passes. map_of m (ap_owner p) = Some (bal (ap_owner p) h)" and "distinct (map ap_owner passes)"
    and "\<forall>p \<in> set passes. bal_block_height (bal (ap_owner p) h) \<le> h"
  shows "settle_passes h passes m t rows = Inr (filter (\<lambda>e. fst e \<notin> ap_owner ` set passes) m,
    fold (\<lambda>p t. sat_add t (bal_balance (bal (ap_owner p) h))) passes t,
    rows @ map (\<lambda>p. pass_balance h p (bal (ap_owner p) h)) passes)"
  using assms
proof (induction passes arbitrary: m t rows)
  case (Cons p passes)
  let ?m = "filter (\<lambda>e. fst e \<noteq> ap_owner p) m"
  have "map_of ?m a = (if a = ap_owner p then None else map_of m a)" for a
    by (induction m) auto
  then have "\<forall>q \<in> set passes. map_of ?m (ap_owner q) = Some (bal (ap_owner q) h)"
    using Cons.prems by (auto simp: rev_image_eqI)
  note IH = Cons.IH [OF this]
  have f: "filter (\<lambda>e. fst e \<notin> ap_owner ` set passes) ?m = filter (\<lambda>e. fst e \<notin> ap_owner ` set (p # passes)) m"
    by (auto intro!: filter_cong)
  have "\<not> h < bal_block_height (bal (ap_owner p) h)" using Cons.prems(3) by (simp add: not_less)
  with Cons.prems show ?case by (simp only: settle_passes.simps fold_simps list.map list.set_intros option.case if_False
      f IH append_assoc append_Cons append_Nil) (simp add: IH f [simplified])
qed (simp add: filter_id_conv)

text \<open>
  The interface of a loader.  For a service that serves the balances \<open>bal\<close> well enough for the
  loader, the loader returns each address with its balance, in some order.
\<close>

locale balance_loader =
  fixes load :: "rpc_world \<Rightarrow> USDBScriptHash list \<Rightarrow> u32 \<Rightarrow> (USDBScriptHash \<times> AddressBalance) list result"
    and serves :: "rpc_world \<Rightarrow> (USDBScriptHash \<Rightarrow> u32 \<Rightarrow> AddressBalance) \<Rightarrow> bool"
  assumes load_served: "serves w bal \<Longrightarrow> \<exists>es. load w addresses h = Inr es \<and> mset es = mset (entries_of bal h addresses)"
begin

text \<open>The part of the settlement that uses the loader.\<close>

lemma settle_loaded:
  assumes "serves w bal" and "distinct (map ap_owner passes)" and "\<forall>p \<in> set passes. bal_block_height (bal (ap_owner p) h) \<le> h"
  shows "\<exists>es m. load w (map ap_owner passes) h = Inr es \<and> insert_balances es [] = Inr m \<and>
    settle_passes h passes m 0 [] = Inr ([], total_of bal h passes, map (\<lambda>p. pass_balance h p (bal (ap_owner p) h)) passes)"
proof -
  obtain es where es: "load w (map ap_owner passes) h = Inr es" "mset es = mset (entries_of bal h (map ap_owner passes))"
    using load_served [OF assms(1)] by blast
  have "mset (map fst es) = mset (map ap_owner passes)" using es(2) by (simp add: o_def multiset.map_comp)
  then have d: "distinct (map fst es)" using assms(2) by (metis mset_eq_imp_distinct_iff)
  have se: "set es = (\<lambda>p. (ap_owner p, bal (ap_owner p) h)) ` set passes"
    using mset_eq_setD [OF es(2)] by (simp add: image_image)
  then have "\<forall>p \<in> set passes. map_of es (ap_owner p) = Some (bal (ap_owner p) h)" using d by simp
  note sp = settle_passes_all [where bal = bal and h = h and m = es and t = 0 and rows = "[]", OF this assms(2,3)]
  have "filter (\<lambda>e. fst e \<notin> ap_owner ` set passes) es = []" using se by (auto simp: filter_empty_conv)
  with sp es(1) insert_balances_new [of "[]" es] d show ?thesis by (simp add: total_of_def)
qed

end

interpretation serial: balance_loader "\<lambda>w. load_balances_serial w loader" "answers_first (sl_batch_size loader)" for loader
proof
  fix w bal h and addresses :: "USDBScriptHash list"
  assume a: "answers_first (sl_batch_size loader) w bal"
  then have "concat (map (entries_of bal h) (chunks (sl_batch_size loader) addresses)) = entries_of bal h addresses"
    by (simp add: map_concat [symmetric] concat_chunks answers_first_def)
  then show "\<exists>es. load_balances_serial w loader addresses h = Inr es \<and> mset es = mset (entries_of bal h addresses)"
    by (simp add: load_balances_serial_def serial_batches_answers [OF a])
qed

interpretation concurrent: balance_loader "\<lambda>w. load_balances_concurrent w loader" "answers_within loader" for loader
proof
  fix w bal h and addresses :: "USDBScriptHash list"
  assume a: "answers_within loader w bal"
  let ?b = "chunks (cl_batch_size loader) addresses"
  have c: "concat (map (entries_of bal h) ?b) = entries_of bal h addresses"
    using a by (simp add: map_concat [symmetric] concat_chunks answers_within_def)
  show "\<exists>es. load_balances_concurrent w loader addresses h = Inr es \<and> mset es = mset (entries_of bal h addresses)"
  proof (cases "?b = []")
    case True
    then show ?thesis using c by (simp add: load_balances_concurrent_def)
  next
    case False
    let ?n = "max (min (cl_concurrency loader) (length ?b)) 1"
    have n: "?n \<le> length ?b" using False by (cases ?b) simp_all
    have "\<exists>es'. join_loop w loader h ?b [0..<?n] ?n [] = Inr es' \<and>
        mset es' = mset [] + mset (concat (map (\<lambda>i. entries_of bal h (?b ! i)) [0..<?n])) +
          mset (concat (map (\<lambda>i. entries_of bal h (?b ! i)) [?n..<length ?b]))"
      by (rule join_loop_answers [OF a]) simp
    then obtain es' where es: "join_loop w loader h ?b [0..<?n] ?n [] = Inr es'"
      "mset es' = mset (concat (map (\<lambda>i. entries_of bal h (?b ! i)) ([0..<?n] @ [?n..<length ?b])))"
      by auto
    moreover have "[0..<?n] @ [?n..<length ?b] = [0..<length ?b]" using n by (metis le_add_diff_inverse upt_add_eq_append zero_le)
    ultimately have "mset es' = mset (entries_of bal h addresses)" by (simp only: concat_map_nth c)
    with es(1) False show ?thesis by (simp add: load_balances_concurrent_def Let_def)
  qed
qed

text \<open>The service a monitor needs, by its loader.\<close>

fun serves_loader :: "BalanceRpcLoader \<Rightarrow> rpc_world \<Rightarrow> (USDBScriptHash \<Rightarrow> u32 \<Rightarrow> AddressBalance) \<Rightarrow> bool" where
  "serves_loader (Serial loader) = answers_first (sl_batch_size loader)"
| "serves_loader (Concurrent loader) = answers_within loader"

interpretation any: balance_loader "\<lambda>w. load_balances w loader" "serves_loader loader" for loader
  by (cases loader) (simp_all add: serial.balance_loader_axioms concurrent.balance_loader_axioms)

section \<open>Loading the active passes\<close>

definition active_at :: "u32 \<Rightarrow> pass_db \<Rightarrow> ActiveMinerPassInfo list" where
  "active_at h db = map active_of_history (order_by_key True event_order (latest_in_states h [Active] db))"

lemma length_active_at: "length (active_at h db) \<le> length (db_history db)"
  unfolding active_at_def latest_in_states_def latest_history_def order_by_key_def
  by (simp add: le_trans [OF length_filter_le] length_filter_le)

lemma active_page:
  assumes "unat page * unat ps + unat ps < 2 ^ 63"
  shows "get_all_active_pass_by_page_from_history_at_height page ps h db =
    take (unat ps) (drop (unat page * unat ps) (active_at h db))"
  by (simp add: page_rows_eq [OF assms] get_all_active_pass_by_page_from_history_at_height_def
      get_passes_by_page_from_history_at_height_by_states_def active_at_def take_map drop_map)

lemma insert_owners_new:
  "distinct (map ap_owner (acc @ passes)) \<Longrightarrow> insert_owners passes acc = Inr (acc @ passes)"
  by (induction passes arbitrary: acc) auto

text \<open>One round of the loop: the page is empty or short and the loop ends, or it is full.\<close>

lemma load_active_loop_terminates:
  assumes "0 < unat ps" and "unat ps < 2 ^ 62" and "length (active_at h db) < 2 ^ 62"
    and "length (active_at h db) < (unat page + fuel) * unat ps" and "unat page * unat ps \<le> length (active_at h db)"
  shows "\<exists>r. load_active_loop fuel page ps h db acc = Some r \<and>
    (distinct (map ap_owner (active_at h db)) \<and> acc = take (unat page * unat ps) (active_at h db) \<longrightarrow> r = Inr (active_at h db))"
  using assms(4,5)
proof (induction fuel arbitrary: page acc)
  case (Suc fuel)
  let ?all = "active_at h db"
  let ?d = "drop (unat page * unat ps) ?all"
  let ?pg = "take (unat ps) ?d"
  have b: "unat page * unat ps + unat ps < 2 ^ 63" using Suc.prems(2) assms(2,3) by simp
  note pg = active_page [OF b, of h db]
  show ?case
  proof (cases "insert_owners ?pg acc")
    case (Inl e)
    moreover have "\<not> (distinct (map ap_owner ?all) \<and> acc = take (unat page * unat ps) ?all)"
    proof
      assume a: "distinct (map ap_owner ?all) \<and> acc = take (unat page * unat ps) ?all"
      then have "acc @ ?pg = take (unat page * unat ps + unat ps) ?all" by (simp add: take_add)
      with a have "distinct (map ap_owner (acc @ ?pg))" by (simp add: take_map [symmetric])
      with Inl show False by (simp add: insert_owners_new)
    qed
    ultimately show ?thesis using pg by (cases ?pg) simp_all
  next
    case (Inr acc')
    have acc': "acc' = take (unat page * unat ps + unat ps) ?all"
      if a: "distinct (map ap_owner ?all)" "acc = take (unat page * unat ps) ?all"
    proof -
      have e: "acc @ ?pg = take (unat page * unat ps + unat ps) ?all" using a(2) by (simp add: take_add)
      then have "distinct (map ap_owner (acc @ ?pg))" using a(1) by (simp add: take_map [symmetric])
      then show ?thesis using Inr e by (simp add: insert_owners_new)
    qed
    show ?thesis
    proof (cases "length ?d < unat ps")
      case True
      then have "take (unat page * unat ps + unat ps) ?all = ?all" by simp
      with acc' True Inr show ?thesis by (cases ?d) (simp_all add: pg Let_def)
    next
      case False
      have u: "unat (page + 1) = unat page + 1"
      proof -
        have "unat page \<le> unat page * unat ps" using assms(1) by (cases "unat ps") simp_all
        then have "unat page < 2 ^ 62" using Suc.prems(2) assms(3) by linarith
        then show ?thesis by (simp add: unat_word_ariths)
      qed
      have ne: "?pg \<noteq> []" "length ?pg = unat ps" using False assms(1) by (auto simp: not_less)
      have "\<exists>r. load_active_loop fuel (page + 1) ps h db acc' = Some r \<and>
          (distinct (map ap_owner ?all) \<and> acc' = take (unat (page + 1) * unat ps) ?all \<longrightarrow> r = Inr ?all)"
        by (rule Suc.IH) (use Suc.prems False u in \<open>simp_all add: algebra_simps not_less\<close>)
      then obtain r where r: "load_active_loop fuel (page + 1) ps h db acc' = Some r"
        "distinct (map ap_owner ?all) \<and> acc' = take (unat (page + 1) * unat ps) ?all \<longrightarrow> r = Inr ?all" by blast
      moreover have "load_active_loop (Suc fuel) page ps h db acc = load_active_loop fuel (page + 1) ps h db acc'"
        using pg ne Inr by (simp add: Let_def)
      moreover have "unat (page + 1) * unat ps = unat page * unat ps + unat ps" using u by simp
      ultimately show ?thesis using acc' by auto
    qed
  qed
qed simp

lemma active_at_owners:
  assumes inv: "timeline_ok db"
  shows "distinct (map ap_owner (active_at h db))"
proof -
  let ?rows = "latest_in_states h [Active] db"
  have d: "distinct ?rows"
    using inv distinct_latest_history [of "db_history db"] by (simp add: timeline_ok_def pass_db_ok_def latest_in_states_def)
  have "inj_on ph_new_owner (set ?rows)"
    using inv by (auto simp: inj_on_def timeline_ok_def snapshots_unique_def latest_in_states_def)
  then have "distinct (map ph_new_owner (order_by_key True event_order ?rows))"
    using d by (simp add: distinct_map order_by_key_def)
  then show ?thesis by (simp add: active_at_def o_def active_of_history_def)
qed

text \<open>At the tip of the history these are the active rows of the pass table.\<close>

lemma active_at_tip:
  assumes inv: "timeline_ok db" and up: "history_upto h db"
  shows "set (active_at h db) = (\<lambda>m. \<lparr>ap_inscription_id = mp_inscription_id m, ap_owner = mp_owner m\<rparr>) `
    {m \<in> set (db_passes db). mp_state m = Active}" (is "_ = ?f ` ?A")
proof -
  from inv have ok: "pass_db_ok db" and v: "view_is_history db" by (simp_all add: timeline_ok_def)
  have s: "set (active_at h db) = active_of_history ` {r \<in> set (latest_history h (db_history db)). ph_new_state r = Active}"
    by (auto simp: active_at_def order_by_key_def latest_in_states_def)
  show ?thesis unfolding s
  proof (intro equalityI subsetI)
    fix x assume "x \<in> active_of_history ` {r \<in> set (latest_history h (db_history db)). ph_new_state r = Active}"
    then obtain r where r: "x = active_of_history r" "r \<in> set (latest_history h (db_history db))" "ph_new_state r = Active" by blast
    obtain m where "m \<in> set (db_passes db)" "mp_inscription_id m = ph_inscription_id r" "row_matches m r"
      using latest_is_current [OF ok v up r(2)] .
    with r show "x \<in> ?f ` ?A" by (intro image_eqI [of _ _ m]) (auto simp: active_of_history_def row_matches_def)
  next
    fix x assume "x \<in> ?f ` ?A"
    then obtain m where m: "x = ?f m" "m \<in> set (db_passes db)" "mp_state m = Active" by blast
    obtain r where "r \<in> set (latest_history h (db_history db))" "ph_inscription_id r = mp_inscription_id m" "row_matches m r"
      using current_is_latest [OF ok v up m(2)] .
    with m show "x \<in> active_of_history ` {r \<in> set (latest_history h (db_history db)). ph_new_state r = Active}"
      by (intro image_eqI [of _ _ r]) (auto simp: active_of_history_def row_matches_def)
  qed
qed

lemma load_active_passes_eq:
  assumes inv: "timeline_ok db" and ps: "0 < unat ps" "unat ps < 2 ^ 62" and len: "length (db_history db) < 2 ^ 62"
  shows "load_active_passes owner_text ps h db = Inr (sort_key (\<lambda>v. owner_text (ap_owner v)) (active_at h db))"
proof -
  have l: "length (active_at h db) \<le> length (db_history db)" by (rule length_active_at)
  have "length (active_at h db) < Suc (length (db_history db)) * unat ps"
    using l ps(1) by (cases "unat ps") (simp_all add: le_imp_less_Suc trans_le_add1)
  then have "load_active_loop (Suc (length (db_history db))) 0 ps h db [] = Some (Inr (active_at h db))"
    using load_active_loop_terminates [OF ps, of h db 0 "Suc (length (db_history db))" "[]"] l len active_at_owners [OF inv]
    by auto
  then show ?thesis by (simp add: load_active_passes_def)
qed

section \<open>The settlement\<close>

lemma fold_sat_add:
  "unat (fold (\<lambda>x t. sat_add t (f x)) xs t) = min (unat t + sum_list (map (\<lambda>x. unat (f x)) xs)) (2 ^ 64 - 1)"
  for t :: u64
proof (induction xs arbitrary: t)
  case Nil
  then show ?case using unat_le_max [of t] by simp
next
  case (Cons x xs)
  then show ?case by (simp add: unat_sat_add min_def)
qed

definition settled :: "(USDBScriptHash \<Rightarrow> string) \<Rightarrow> (USDBScriptHash \<Rightarrow> u32 \<Rightarrow> AddressBalance) \<Rightarrow> u32 \<Rightarrow> pass_db \<Rightarrow>
    ActiveBalanceSettlement \<times> pass_db" where
  "settled owner_text bal h db =
     (let passes = sort_key (\<lambda>v. owner_text (ap_owner v)) (active_at h db);
          n = of_nat (length passes)
      in (\<lparr>bs_snapshot = \<lparr>as_block_height = h, as_total_balance = total_of bal h passes, as_active_address_count = n\<rparr>,
           bs_active_pass_balances = map (\<lambda>p. pass_balance h p (bal (ap_owner p) h)) passes\<rparr>,
          upsert_active_balance_snapshot h (total_of bal h passes) n db))"

lemma settle_settled:
  assumes inv: "timeline_ok db" and no: "assert_no_data_after_block_height h db = Inr ()"
    and ps: "0 < unat (bm_active_address_page_size mon)" "unat (bm_active_address_page_size mon) < 2 ^ 62"
    and len: "length (db_history db) < 2 ^ 32"
    and sv: "serves_loader (bm_rpc_loader mon) w bal" and past: "\<forall>a. bal_block_height (bal a h) \<le> h"
  shows "settle_active_balance_with_details owner_text w mon h db =
    (Inr (fst (settled owner_text bal h db)), snd (settled owner_text bal h db))"
proof -
  let ?p = "sort_key (\<lambda>v. owner_text (ap_owner v)) (active_at h db)"
  have "load_active_passes owner_text (bm_active_address_page_size mon) h db = Inr ?p"
    by (rule load_active_passes_eq [OF inv ps]) (use len in simp)
  moreover have "mset (map ap_owner ?p) = mset (map ap_owner (active_at h db))" by simp
  then have "distinct (map ap_owner ?p)" using active_at_owners [OF inv] by (metis mset_eq_imp_distinct_iff)
  then obtain es m where "load_balances w (bm_rpc_loader mon) (map ap_owner ?p) h = Inr es" "insert_balances es [] = Inr m"
    "settle_passes h ?p m 0 [] = Inr ([], total_of bal h ?p, map (\<lambda>p. pass_balance h p (bal (ap_owner p) h)) ?p)"
    using any.settle_loaded [OF sv, of ?p h] past by auto
  moreover have "\<not> 2 ^ 32 \<le> int (length ?p)" using length_active_at [of h db] len by simp
  ultimately show ?thesis
    using no by (simp add: settle_active_balance_with_details_def settled_def Let_def)
qed

definition row_active :: "MinerPassInfo \<Rightarrow> ActiveMinerPassInfo" where
  "row_active m = \<lparr>ap_inscription_id = mp_inscription_id m, ap_owner = mp_owner m\<rparr>"

lemma mset_active_at:
  assumes inv: "timeline_ok db" and up: "history_upto h db"
  shows "mset (active_at h db) = mset (map row_active (filter (\<lambda>m. mp_state m = Active) (db_passes db)))"
proof (rule set_eq_iff_mset_eq_distinct [THEN iffD1])
  show "distinct (active_at h db)" using active_at_owners [OF inv] by (simp add: distinct_map)
  have "distinct (map mp_inscription_id (filter (\<lambda>m. mp_state m = Active) (db_passes db)))"
    using inv by (simp add: timeline_ok_def pass_db_ok_def distinct_map_filter)
  then show "distinct (map row_active (filter (\<lambda>m. mp_state m = Active) (db_passes db)))"
    by (auto simp: distinct_map inj_on_def row_active_def)
  show "set (active_at h db) = set (map row_active (filter (\<lambda>m. mp_state m = Active) (db_passes db)))"
    unfolding active_at_tip [OF inv up] by (simp add: row_active_def)
qed

lemma settled_rows:
  assumes inv: "timeline_ok db" and up: "history_upto h db"
  defines "rows \<equiv> filter (\<lambda>m. mp_state m = Active) (db_passes db)"
  shows "mset (bs_active_pass_balances (fst (settled owner_text bal h db))) =
      mset (map (\<lambda>m. pass_balance h (row_active m) (bal (mp_owner m) h)) rows)"
    and "unat (as_total_balance (bs_snapshot (fst (settled owner_text bal h db)))) =
      min (\<Sum>m\<leftarrow>rows. unat (bal_balance (bal (mp_owner m) h))) (2 ^ 64 - 1)"
    and "as_active_address_count (bs_snapshot (fst (settled owner_text bal h db))) = of_nat (length rows)"
proof -
  note ma = mset_active_at [OF inv up, folded rows_def]
  have l: "length (active_at h db) = length rows" using mset_eq_length [OF ma] by simp
  have "image_mset (\<lambda>p. pass_balance h p (bal (ap_owner p) h)) (mset (active_at h db)) =
      mset (map (\<lambda>m. pass_balance h (row_active m) (bal (mp_owner m) h)) rows)"
    unfolding ma by (simp add: multiset.map_comp o_def row_active_def)
  then show "mset (bs_active_pass_balances (fst (settled owner_text bal h db))) =
      mset (map (\<lambda>m. pass_balance h (row_active m) (bal (mp_owner m) h)) rows)"
    by (simp add: settled_def Let_def)
  have "sum_mset (image_mset (\<lambda>p. unat (bal_balance (bal (ap_owner p) h))) (mset (active_at h db))) =
      sum_mset (image_mset (\<lambda>m. unat (bal_balance (bal (mp_owner m) h))) (mset rows))"
    unfolding ma by (simp add: multiset.map_comp o_def row_active_def)
  then have "sum_list (map (\<lambda>p. unat (bal_balance (bal (ap_owner p) h))) (sort_key (\<lambda>v. owner_text (ap_owner v)) (active_at h db))) =
      (\<Sum>m\<leftarrow>rows. unat (bal_balance (bal (mp_owner m) h)))"
    by (simp add: sum_mset_sum_list [symmetric])
  then show "unat (as_total_balance (bs_snapshot (fst (settled owner_text bal h db)))) =
      min (\<Sum>m\<leftarrow>rows. unat (bal_balance (bal (mp_owner m) h))) (2 ^ 64 - 1)"
    by (simp add: settled_def Let_def total_of_def fold_sat_add)
  show "as_active_address_count (bs_snapshot (fst (settled owner_text bal h db))) = of_nat (length rows)"
    using l by (simp add: settled_def Let_def)
qed

lemma data_upto_history: "assert_no_data_after_block_height h db = Inr () \<Longrightarrow> history_upto h db"
  by (auto simp: history_upto_def assert_no_data_after_block_height_def Let_def list_ex_iff not_less split: if_splits)

section \<open>Samples\<close>

definition sample_owner_text :: "USDBScriptHash \<Rightarrow> string" where
  "sample_owner_text h = encode_hex (hash_bytes h)"

definition sample_bal :: "USDBScriptHash \<Rightarrow> u32 \<Rightarrow> AddressBalance" where
  "sample_bal a h = \<lparr>bal_block_height = 105, bal_balance = 500, bal_delta = 20\<rparr>"

text \<open>The first attempt of every query times out and the last task started finishes first.\<close>

definition sample_world :: rpc_world where
  "sample_world = \<lparr>rw_answer = \<lambda>i k addresses h. Inr (answer_of sample_bal addresses h),
     rw_elapsed = \<lambda>i k ms. k = 1, rw_finishes = \<lambda>inflight next. length inflight - 1\<rparr>"

definition sample_serial :: BalanceMonitor where
  "sample_serial = \<lparr>bm_rpc_loader = Serial \<lparr>sl_batch_size = 10\<rparr>, bm_active_address_page_size = 100,
     bm_balance_query_batch_size = 10\<rparr>"

definition sample_concurrent :: BalanceMonitor where
  "sample_concurrent = \<lparr>bm_rpc_loader = Concurrent \<lparr>cl_batch_size = 1, cl_concurrency = 4, cl_timeout_ms = 1000, cl_max_retries = 2\<rparr>,
     bm_active_address_page_size = 1, bm_balance_query_batch_size = 1\<rparr>"

lemma sample_serves:
  "serves_loader (bm_rpc_loader sample_serial) sample_world sample_bal"
  "serves_loader (bm_rpc_loader sample_concurrent) sample_world sample_bal"
proof -
  show "serves_loader (bm_rpc_loader sample_serial) sample_world sample_bal"
    by (simp add: sample_serial_def sample_world_def answers_first_def)
  have "1 \<le> (2 :: nat) \<and> 2 \<le> unat (sat_add (2 :: u32) 1)" by (simp add: unat_sat_add)
  then show "serves_loader (bm_rpc_loader sample_concurrent) sample_world sample_bal"
    unfolding sample_concurrent_def sample_world_def by (auto simp: answers_within_def intro!: exI [of _ 2])
qed

lemma sample_settle_hyps:
  "timeline_ok sample_db3" "assert_no_data_after_block_height 110 sample_db3 = Inr ()" "length (db_history sample_db3) < 2 ^ 32"
  "\<forall>a. bal_block_height (sample_bal a 110) \<le> 110"
  "0 < unat (bm_active_address_page_size sample_serial)" "unat (bm_active_address_page_size sample_serial) < 2 ^ 62"
  "0 < unat (bm_active_address_page_size sample_concurrent)" "unat (bm_active_address_page_size sample_concurrent) < 2 ^ 62"
proof -
  have "length (db_history sample_db3) = 3" by code_simp
  then show "length (db_history sample_db3) < 2 ^ 32" by simp
  show "assert_no_data_after_block_height 110 sample_db3 = Inr ()" by code_simp
qed (rule pass_run_timeline [OF sample_run(2)],
    simp_all add: sample_bal_def sample_serial_def sample_concurrent_def)

lemma sample_active: "filter (\<lambda>m. mp_state m = Active) (db_passes sample_db3) = [sample_pass 2 7 110]"
  by code_simp

section \<open>What the settlement promises\<close>



text \<open>C35: the loaders are interchangeable.  On a reachable database, for the same balances, the serial loader and
  the concurrent one lead to the same settlement and the same database, whatever the page size, the
  batch size, the retries, and the order in which the concurrent queries finish.\<close>

theorem loaders_agree:
  assumes "timeline_ok db" and "assert_no_data_after_block_height h db = Inr ()" and "length (db_history db) < 2 ^ 32"
    and "\<forall>a. bal_block_height (bal a h) \<le> h"
    and "0 < unat (bm_active_address_page_size mon)" and "unat (bm_active_address_page_size mon) < 2 ^ 62"
    and "0 < unat (bm_active_address_page_size mon')" and "unat (bm_active_address_page_size mon') < 2 ^ 62"
    and "serves_loader (bm_rpc_loader mon) w bal" and "serves_loader (bm_rpc_loader mon') w' bal"
  shows "settle_active_balance_with_details owner_text w mon h db =
    settle_active_balance_with_details owner_text w' mon' h db"
  using settle_settled [OF assms(1,2,5,6,3,9,4)] settle_settled [OF assms(1,2,7,8,3,10,4)] by simp

theorem loaders_agree_witness:
  "settle_active_balance_with_details sample_owner_text sample_world sample_serial 110 sample_db3 =
    settle_active_balance_with_details sample_owner_text sample_world sample_concurrent 110 sample_db3"
  by (rule loaders_agree [OF sample_settle_hyps(1-4) sample_settle_hyps(5-8) sample_serves])

lemma retry_loop_find:
  assumes "m \<le> mx"
  shows "retry_loop w h i addresses t mx [m..<Suc mx] =
    (case find (\<lambda>k. \<not> rw_elapsed w i k t \<and> (\<exists>b. rw_answer w i k addresses h = Inr b)) [m..<Suc mx] of
       Some k \<Rightarrow> rw_answer w i k addresses h
     | None \<Rightarrow> Inl (Err (if rw_elapsed w i mx t then ''Balance RPC timeout after retries''
         else ''Balance RPC failed after retries'')))"
  using assms
proof (induction "mx - m" arbitrary: m)
  case 0
  then have "m = mx" by simp
  then have "[m..<Suc mx] = [mx]" by (simp add: upt_rec)
  then show ?case by (auto split: sum.splits)
next
  case (Suc d)
  then have u: "[m..<Suc mx] = m # [Suc m..<Suc mx]" and lt: "\<not> mx \<le> m" by (simp_all add: upt_rec)
  note IH = Suc.hyps(1) [of "Suc m"]
  show ?case
    unfolding u using IH lt Suc.hyps(2) by (cases "rw_answer w i m addresses h") (auto simp del: upt_Suc)
qed

text \<open>Retrying a query.  A query with retries always returns: it gives the answer of the first attempt
  that neither fails nor times out if that attempt is among the allowed ones, otherwise an error;
  the code after the loop is never reached.\<close>

theorem query_retry_total:
  "query_batch_with_retry w h i addresses t retries =
    (case find (\<lambda>k. \<not> rw_elapsed w i k t \<and> (\<exists>b. rw_answer w i k addresses h = Inr b)) [1..<Suc (unat (sat_add retries 1))] of
       Some k \<Rightarrow> rw_answer w i k addresses h
     | None \<Rightarrow> Inl (Err (if rw_elapsed w i (unat (sat_add retries 1)) t then ''Balance RPC timeout after retries''
         else ''Balance RPC failed after retries'')))"
proof -
  have "1 \<le> unat (sat_add retries 1)" by (simp add: unat_sat_add min_def)
  then show ?thesis unfolding query_batch_with_retry_def Let_def by (rule retry_loop_find)
qed

lemma insert_owners_err: "insert_owners ps acc = Inl e \<Longrightarrow> e = Err ''Duplicate active owner detected''"
  by (induction ps arbitrary: acc) (auto split: if_splits)

lemma load_active_loop_err:
  "load_active_loop fuel page ps h db acc = Some (Inl e) \<Longrightarrow> e = Err ''Duplicate active owner detected''"
  by (induction fuel arbitrary: page acc) (auto simp: Let_def insert_owners_err split: if_splits sum.splits)

text \<open>C36: the page loop ends.  For any database, reachable or not, with fewer than \<open>2 ^ 62\<close> events and a page size
  below that, loading the active passes reads at most one page more than there are events and
  returns: either the passes active at the block, sorted by the text of their owners and with every
  owner once, or the error that an owner has two.\<close>

theorem load_active_passes_ends:
  assumes "0 < unat ps" and "unat ps < 2 ^ 62" and "length (db_history db) < 2 ^ 62"
  shows "load_active_passes owner_text ps h db = Inl (Err ''Duplicate active owner detected'') \<or>
    (\<exists>passes. load_active_passes owner_text ps h db = Inr passes \<and> sorted (map (\<lambda>v. owner_text (ap_owner v)) passes) \<and>
      (distinct (map ap_owner (active_at h db)) \<longrightarrow> mset passes = mset (active_at h db)))"
proof -
  have l: "length (active_at h db) \<le> length (db_history db)" by (rule length_active_at)
  have "length (active_at h db) < Suc (length (db_history db)) * unat ps"
    using l assms(1) by (cases "unat ps") (simp_all add: le_imp_less_Suc trans_le_add1)
  then obtain r where r: "load_active_loop (Suc (length (db_history db))) 0 ps h db [] = Some r"
    "distinct (map ap_owner (active_at h db)) \<longrightarrow> r = Inr (active_at h db)"
    using load_active_loop_terminates [OF assms(1,2), of h db 0 "Suc (length (db_history db))" "[]"] l assms(3)
    by auto
  show ?thesis
  proof (cases r)
    case (Inl e)
    with r(1) load_active_loop_err show ?thesis by (auto simp: load_active_passes_def simp del: load_active_loop.simps)
  next
    case (Inr passes)
    with r show ?thesis by (auto simp: load_active_passes_def simp del: load_active_loop.simps)
  qed
qed

theorem load_active_passes_ends_witness:
  "\<exists>passes. load_active_passes sample_owner_text 1 110 sample_db3 = Inr passes \<and> length passes = 1"
proof -
  have "length (db_history sample_db3) < 2 ^ 62" using sample_settle_hyps(3) by simp
  then have e: "load_active_passes sample_owner_text 1 110 sample_db3 = Inl (Err ''Duplicate active owner detected'') \<or>
    (\<exists>passes. load_active_passes sample_owner_text 1 110 sample_db3 = Inr passes \<and>
      sorted (map (\<lambda>v. sample_owner_text (ap_owner v)) passes) \<and>
      (distinct (map ap_owner (active_at 110 sample_db3)) \<longrightarrow> mset passes = mset (active_at 110 sample_db3)))"
    by (intro load_active_passes_ends) simp_all
  have d: "distinct (map ap_owner (active_at 110 sample_db3))" by (rule active_at_owners [OF sample_settle_hyps(1)])
  have "length (active_at 110 sample_db3) = 1"
    using arg_cong [OF mset_active_at [OF sample_settle_hyps(1) sample_upto(4)], of size] by (simp add: sample_active)
  moreover have "load_active_passes sample_owner_text 1 110 sample_db3 \<noteq> Inl (Err ''Duplicate active owner detected'')"
    using load_active_passes_eq [OF sample_settle_hyps(1), of 1 sample_owner_text 110] sample_settle_hyps(3) by simp
  ultimately show ?thesis using e d by (metis size_mset)
qed

end
