(* ===== verification/Indexer_Sync.thy ===== *)
theory Indexer_Sync
  imports Block_Events Balance_Monitor
begin

text \<open>
  The block synchronisation of \<open>usdb-indexer/src/index/indexer.rs\<close>: one block through the inscription
  source, the transfer tracker, the event executor, the balance settlement and the energy store, its
  commit, and the recovery of every store when a step fails.  \<open>index/sync_state.rs\<close> is not used by it.
\<close>

section \<open>The indexer and its surroundings\<close>

text \<open>
  The answers of the services the indexer calls are parameters, collected in \<open>indexer_env\<close>: the block
  hint, the discovered mints, the bitcoin node, the balance-history commits and state references, the
  balance service, SHA-256, the JSON encoding of mutations and the texts of ids.  \<open>en_synced_write_fails\<close>
  and \<open>en_release_fails\<close> say at which heights SQLite fails to store the synced height or to release the
  savepoint.
\<close>

record HistoricalSnapshotStateRef =
  sr_block_height :: u32
  sr_stable_block_hash :: string
  sr_latest_block_commit :: string
  sr_consensus_identity :: ConsensusSnapshotIdentity
  sr_snapshot_id :: string
  sr_snapshot_id_hash_algo :: string
  sr_snapshot_id_version :: string
  sr_commit_protocol_version :: string
  sr_commit_hash_algo :: string

record indexer_env =
  en_genesis_block_height :: u32
  en_block_hint :: "u32 \<Rightarrow> Transaction list option result"
  en_mint_batch :: "u32 \<Rightarrow> Transaction list \<Rightarrow> DiscoveredMintBatch result"
  en_utxo :: "OutPoint \<Rightarrow> u64 result"
  en_script_hash :: "u8 list \<Rightarrow> USDBScriptHash"
  en_block :: "u32 \<Rightarrow> Transaction list result"
  en_transaction :: "Txid \<Rightarrow> Transaction result"
  en_envelope_inputs :: "Transaction \<Rightarrow> nat list"
  en_ambiguous_reason :: "OutPoint \<Rightarrow> InscriptionId \<Rightarrow> string"
  en_parse_id :: "string \<Rightarrow> InscriptionId option"
  en_id_text :: "InscriptionId \<Rightarrow> string"
  en_owner_text :: "USDBScriptHash \<Rightarrow> string"
  en_provider :: balance_provider
  en_rpc :: rpc_world
  en_monitor :: BalanceMonitor
  en_block_commit :: "u32 \<Rightarrow> BlockCommitInfo option result"
  en_state_ref :: "u32 \<Rightarrow> HistoricalSnapshotStateRef result"
  en_sha256 :: "u8 list \<Rightarrow> u8 list"
  en_encode :: "PassBlockMutation \<Rightarrow> u8 list"
  en_row_order :: "MinerPassInfo list \<Rightarrow> MinerPassInfo list"
  en_synced_write_fails :: "u32 \<Rightarrow> bool"
  en_release_fails :: "u32 \<Rightarrow> bool"

text \<open>The fields of \<open>InscriptionIndexer\<close> that change, with the status fields it sets.\<close>

record indexer =
  ix_mgr :: pass_mgr
  ix_tracker :: InscriptionTransferTracker
  ix_energy_failure_budget :: u32
  ix_transfer_reload_failure_budget :: u32
  ix_status_current :: u32
  ix_status_total :: u32
  ix_reorg_recovery_pending :: bool

abbreviation ix_db :: "indexer \<Rightarrow> pass_db" where
  "ix_db s \<equiv> mg_db (ix_mgr s)"

abbreviation ix_energy :: "indexer \<Rightarrow> energy_db" where
  "ix_energy s \<equiv> mg_energy (ix_mgr s)"

definition on_mgr :: "(pass_mgr, 'a) op \<Rightarrow> (indexer, 'a) op" where
  "on_mgr = zoom ix_mgr (\<lambda>m s. s\<lparr>ix_mgr := m\<rparr>)"

definition on_tracker :: "(InscriptionTransferTracker, 'a) op \<Rightarrow> (indexer, 'a) op" where
  "on_tracker = zoom ix_tracker (\<lambda>t s. s\<lparr>ix_tracker := t\<rparr>)"

definition on_store :: "(pass_store, 'a) op \<Rightarrow> (indexer, 'a) op" where
  "on_store m = on_mgr (zoom mg_store (\<lambda>p s. s\<lparr>mg_store := p\<rparr>) m)"

definition update_index_status :: "u32 option \<Rightarrow> u32 option \<Rightarrow> indexer \<Rightarrow> indexer" where
  "update_index_status current total_opt s =
     s\<lparr>ix_status_total := (case total_opt of Some t \<Rightarrow> t | None \<Rightarrow> ix_status_total s),
       ix_status_current := (case current of Some c \<Rightarrow> c | None \<Rightarrow> ix_status_current s)\<rparr>"

section \<open>Recovery of a failed block\<close>

text \<open>\<open>Result::err\<close>: the message of an error value; a panic goes on.\<close>

definition err :: "('s, 'a) op \<Rightarrow> ('s, string option) op" where
  "err m s = (case m s of
     (Inl (Err e), s') \<Rightarrow> (Inr (Some e), s')
   | (Inl (Panic e), s') \<Rightarrow> (Inl (Panic e), s')
   | (Inr x, s') \<Rightarrow> (Inr None, s'))"

definition merge_block_failure_with_recovery :: "string \<Rightarrow> string option \<Rightarrow> string \<Rightarrow> string" where
  "merge_block_failure_with_recovery original_error recovery_error recovery_context =
     (case recovery_error of
        Some e \<Rightarrow> original_error @ ''; '' @ recovery_context @ '' failed: '' @ e
      | None \<Rightarrow> original_error)"

definition pass_synced_height :: "indexer \<Rightarrow> u32" where
  "pass_synced_height s = (case get_synced_btc_block_height (ix_db s) of Some h \<Rightarrow> h | None \<Rightarrow> 0)"

definition recover_failed_block_sync :: "u32 \<Rightarrow> bool \<Rightarrow> bool \<Rightarrow> string \<Rightarrow> (indexer, string) op" where
  "recover_failed_block_sync block_height transfer_staged energy_finalized original_error =
     bindR (if energy_finalized
            then bindR (gets pass_synced_height) (\<lambda>h. err (on_mgr (on_energy (rollback_to_pass_synced_height h))))
            else err (on_mgr (on_energy (abort_pending_block_sync block_height)))) (\<lambda>energy_recovery_result.
     let recovery_context = (if energy_finalized then ''energy rollback after finalized block failure''
           else ''energy abort after pending block failure'');
         msg = merge_block_failure_with_recovery original_error energy_recovery_result recovery_context
     in if \<not> transfer_staged then ret msg
        else
          bindR (err (on_tracker (rollback_staged_block block_height))) (\<lambda>transfer_rollback_error.
          ret (merge_block_failure_with_recovery msg transfer_rollback_error ''transfer rollback after block failure'')))"

text \<open>A step after the transfers are staged: an error value is reported after the recovery.\<close>

definition recovering :: "u32 \<Rightarrow> bool \<Rightarrow> (indexer, 'a) op \<Rightarrow> (indexer, 'a) op" where
  "recovering block_height energy_finalized m s =
     (case m s of
        (Inl (Err e), s') \<Rightarrow>
          bindR (recover_failed_block_sync block_height True energy_finalized e) (\<lambda>msg. fail (Err msg)) s'
      | other \<Rightarrow> other)"

section \<open>One block\<close>

definition persist_pass_block_commit :: "indexer_env \<Rightarrow> u32 \<Rightarrow> PassBlockMutationCollector \<Rightarrow> (indexer, unit) op" where
  "persist_pass_block_commit env block_height collector =
     bindR (getsR (\<lambda>_. en_block_commit env block_height)) (\<lambda>commit.
     case commit of
       None \<Rightarrow> fail (Err ''Balance-history block commit is missing for synced block height'')
     | Some upstream_commit \<Rightarrow>
         bindR (gets (\<lambda>s. if block_height = 0 then None else get_pass_block_commit (block_height - 1) (ix_db s))) (\<lambda>prev.
         bindR (getsR (\<lambda>_. build_commit_entry (en_sha256 env) (en_encode env) collector upstream_commit prev)) (\<lambda>entry.
         on_mgr (on_db (modify (upsert_pass_block_commit entry))))))"

definition collect_mints :: "indexer_env \<Rightarrow> u32 \<Rightarrow> Transaction list \<Rightarrow> (indexer, CollectedMintItems) op" where
  "collect_mints env block_height block_hint =
     bindR (getsR (\<lambda>_. en_mint_batch env block_height block_hint)) (\<lambda>batch.
     on_tracker (collect_block_inscription_mints (en_ambiguous_reason env)
       (calc_create_satpoint (en_utxo env) (en_script_hash env) (en_transaction env) (en_envelope_inputs env)) batch))"

definition collect_block_inscription_transfer_items ::
  "indexer_env \<Rightarrow> u32 \<Rightarrow> Transaction list option \<Rightarrow> TransferTrackSeed list \<Rightarrow> (indexer, InscriptionTransferItem list) op" where
  "collect_block_inscription_transfer_items env block_height block_hint extra =
     on_tracker (process_block_with_hint (en_utxo env) (en_script_hash env) (en_block env) block_height block_hint extra)"

definition apply_settlement_row :: "ActivePassBalance \<Rightarrow> nat \<Rightarrow> (indexer, nat) op" where
  "apply_settlement_row row energy_update_count =
     (if pb_delta row = 0 then ret energy_update_count
      else
        bindR (on_mgr (on_energy (apply_active_balance_change (pb_inscription_id row) (pb_owner row)
            (pb_block_height row) (pb_balance row) (pb_delta row)))) (\<lambda>changed.
        ret (if changed then energy_update_count + 1 else energy_update_count)))"

text \<open>The steps after the transfers of the block are staged.\<close>

definition apply_block ::
  "indexer_env \<Rightarrow> u32 \<Rightarrow> Transaction list \<Rightarrow> CollectedMintItems \<Rightarrow> InscriptionTransferItem list \<Rightarrow> (indexer, unit) op" where
  "apply_block env height block_hint collected transfer_items =
     bindR (recovering height False (getsR (\<lambda>_. plan (en_id_text env) block_hint (cm_valid_items collected) transfer_items)))
       (\<lambda>ordered_events.
     bindR (recovering height False (on_mgr (execute (en_provider env) (en_parse_id env) ordered_events))) (\<lambda>counts.
     bindR (recovering height False (on_mgr (process_invalid_mints (cm_invalid_items collected)))) (\<lambda>invalid_mints_count.
     bindR (recovering height False (on_mgr (on_db (settle_active_balance_with_details (en_owner_text env) (en_rpc env)
         (en_monitor env) height)))) (\<lambda>settlement.
     bindR (recovering height False (foldR apply_settlement_row (bs_active_pass_balances settlement) 0)) (\<lambda>energy_update_count.
     bindR (recovering height False (on_mgr (on_energy (finalize_block_sync height)))) (\<lambda>_.
     bindR (recovering height True (on_mgr (take_block_mutation_collector height))) (\<lambda>collector.
     bindR (recovering height True (persist_pass_block_commit env height collector)) (\<lambda>_.
     recovering height True (on_tracker (commit_staged_block height))))))))))"

text \<open>\<open>BlockMutationCollectionGuard\<close>: a block that fails leaves no collector behind.\<close>

definition with_collection_guard :: "(indexer, 'a) op \<Rightarrow> (indexer, 'a) op" where
  "with_collection_guard m s =
     (case m s of
        (Inl e, s') \<Rightarrow> (Inl e, s'\<lparr>ix_mgr := clear_block_mutation_collection (ix_mgr s')\<rparr>)
      | other \<Rightarrow> other)"

definition sync_block :: "indexer_env \<Rightarrow> u32 \<Rightarrow> (indexer, unit) op" where
  "sync_block env height =
     bindR (on_mgr (on_energy (begin_block_sync height))) (\<lambda>_.
     bindR (on_mgr (begin_block_mutation_collection height)) (\<lambda>_.
     with_collection_guard (
       bindR (getsR (\<lambda>_. en_block_hint env height)) (\<lambda>block_hint.
       case block_hint of
         None \<Rightarrow> fail (Err ''Missing required block hint. Aborting for protocol safety.'')
       | Some block_hint \<Rightarrow>
           bindR (collect_mints env height block_hint) (\<lambda>collected.
           bindR (collect_block_inscription_transfer_items env height (Some block_hint)
               (build_transfer_track_seeds (cm_valid_items collected))) (\<lambda>transfer_items.
           apply_block env height block_hint collected transfer_items))))))"

section \<open>A range of blocks\<close>

text \<open>A failed write after the block: the energy store is rolled back to the durable height.\<close>

definition fail_with_energy_rollback :: "u32 \<Rightarrow> string \<Rightarrow> string \<Rightarrow> (indexer, unit) op" where
  "fail_with_energy_rollback durable_pass_synced_height e recovery_context =
     bindR (err (on_mgr (on_energy (rollback_to_pass_synced_height durable_pass_synced_height)))) (\<lambda>recovery_error.
     fail (Err (merge_block_failure_with_recovery e recovery_error recovery_context)))"

definition sync_block_in_savepoint :: "indexer_env \<Rightarrow> u32 \<Rightarrow> u32 \<Rightarrow> (indexer, unit) op" where
  "sync_block_in_savepoint env durable height =
     bindR (sync_block env height) (\<lambda>_.
     bindR (if en_synced_write_fails env height
            then fail_with_energy_rollback durable ''Failed to update synced height''
              ''energy rollback after synced-height update failure''
            else on_mgr (on_db (modify (update_synced_btc_block_height height)))) (\<lambda>_.
     if en_release_fails env height
     then fail_with_energy_rollback durable ''Failed to commit savepoint''
       ''energy rollback after sqlite savepoint failure''
     else on_store savepoint_commit))"

text \<open>The body of the loop of \<open>sync_blocks\<close>, with the savepoint guard.\<close>

definition sync_one :: "indexer_env \<Rightarrow> u32 \<Rightarrow> (indexer, unit) op" where
  "sync_one env height =
     bindR (gets pass_synced_height) (\<lambda>durable_pass_synced_height.
     bindR (on_store savepoint_begin) (\<lambda>_.
     bindR (\<lambda>s. case sync_block_in_savepoint env durable_pass_synced_height height s of
         (Inl e, s') \<Rightarrow> (Inl e, snd (on_store (modify savepoint_guard_drop) s'))
       | other \<Rightarrow> other) (\<lambda>_.
     modify (update_index_status (Some height) None))))"

fun sync_blocks_loop :: "indexer_env \<Rightarrow> u32 list \<Rightarrow> u32 \<Rightarrow> (indexer, u32) op" where
  "sync_blocks_loop env [] current_height = ret current_height"
| "sync_blocks_loop env (height # heights) current_height =
     bindR (sync_one env height) (\<lambda>_. sync_blocks_loop env heights height)"

text \<open>The inclusive range \<open>start..=end\<close>.\<close>

definition block_range :: "u32 \<Rightarrow> u32 \<Rightarrow> u32 list" where
  "block_range start_height end_height = map of_nat [unat start_height..<Suc (unat end_height)]"

definition sync_blocks :: "indexer_env \<Rightarrow> u32 \<Rightarrow> u32 \<Rightarrow> (indexer, u32) op" where
  "sync_blocks env start_height end_height =
     bindR (guardR (start_height \<le> end_height) (Panic ''Block range should not be empty'')) (\<lambda>_.
     sync_blocks_loop env (block_range start_height end_height) start_height)"

end
