(* ===== verification/Balance_Service.thy ===== *)
theory Balance_Service
  imports Balance_Indexer Indexer_Sync
begin

text \<open>
  \<open>balance-history/src/service/server.rs\<close>, the RPC server of the balance-history service, with the types of
  \<open>service/rpc.rs\<close>, the state references of \<open>service/state_ref.rs\<close>, the status of \<open>status.rs\<close> and the snapshot
  provenance of \<open>snapshot_provenance.rs\<close>.  Every method is a function of the server: its configuration, its status and
  its database.  What the server takes from the bitcoin, hash and JSON crates is the record \<open>service_env\<close>.  The HTTP
  transport is left out.
\<close>

section \<open>Status\<close>

datatype SyncPhase = Phase_Initializing | Phase_Loading | Phase_Indexing | Phase_Synced

record SyncStatus =
  sy_phase :: SyncPhase
  sy_current :: u64
  sy_total :: u64
  sy_message :: "string option"

record RuntimeReadinessStatus =
  rr_rpc_alive :: bool
  rr_rollback_in_progress :: bool
  rr_shutdown_requested :: bool

record SyncStatusManager =
  sm_status :: SyncStatus
  sm_runtime_readiness :: RuntimeReadinessStatus

definition SyncStatusManager_new :: SyncStatusManager where
  "SyncStatusManager_new =
     \<lparr>sm_status = \<lparr>sy_phase = Phase_Initializing, sy_current = 0, sy_total = 0, sy_message = None\<rparr>,
      sm_runtime_readiness = \<lparr>rr_rpc_alive = False, rr_rollback_in_progress = False, rr_shutdown_requested = False\<rparr>\<rparr>"

definition keep_message :: "string option \<Rightarrow> SyncStatus \<Rightarrow> SyncStatus" where
  "keep_message msg st = (if msg \<noteq> None then st\<lparr>sy_message := msg\<rparr> else st)"

definition update_phase :: "SyncPhase \<Rightarrow> string option \<Rightarrow> SyncStatusManager \<Rightarrow> SyncStatusManager" where
  "update_phase phase msg m = m\<lparr>sm_status := keep_message msg ((sm_status m)\<lparr>sy_phase := phase\<rparr>)\<rparr>"

definition update_total :: "u64 \<Rightarrow> string option \<Rightarrow> SyncStatusManager \<Rightarrow> SyncStatusManager" where
  "update_total total_height msg m = m\<lparr>sm_status := keep_message msg ((sm_status m)\<lparr>sy_total := total_height\<rparr>)\<rparr>"

definition update_current :: "u64 \<Rightarrow> string option \<Rightarrow> SyncStatusManager \<Rightarrow> SyncStatusManager" where
  "update_current current msg m = m\<lparr>sm_status := keep_message msg ((sm_status m)\<lparr>sy_current := current\<rparr>)\<rparr>"

definition update_message :: "string option \<Rightarrow> SyncStatusManager \<Rightarrow> SyncStatusManager" where
  "update_message msg m = m\<lparr>sm_status := (sm_status m)\<lparr>sy_message := msg\<rparr>\<rparr>"

definition update_status :: "u64 \<Rightarrow> u64 \<Rightarrow> string option \<Rightarrow> SyncStatusManager \<Rightarrow> SyncStatusManager" where
  "update_status current total_height msg m =
     m\<lparr>sm_status := (sm_status m)\<lparr>sy_current := current, sy_total := total_height, sy_message := msg\<rparr>\<rparr>"

definition get_status :: "SyncStatusManager \<Rightarrow> SyncStatus" where
  "get_status = sm_status"

definition set_rpc_alive :: "bool \<Rightarrow> SyncStatusManager \<Rightarrow> SyncStatusManager" where
  "set_rpc_alive b m = m\<lparr>sm_runtime_readiness := (sm_runtime_readiness m)\<lparr>rr_rpc_alive := b\<rparr>\<rparr>"

definition set_rollback_status :: "bool \<Rightarrow> SyncStatusManager \<Rightarrow> SyncStatusManager" where
  "set_rollback_status b m = m\<lparr>sm_runtime_readiness := (sm_runtime_readiness m)\<lparr>rr_rollback_in_progress := b\<rparr>\<rparr>"

definition set_shutdown_requested :: "bool \<Rightarrow> SyncStatusManager \<Rightarrow> SyncStatusManager" where
  "set_shutdown_requested b m = m\<lparr>sm_runtime_readiness := (sm_runtime_readiness m)\<lparr>rr_shutdown_requested := b\<rparr>\<rparr>"

definition get_runtime_readiness :: "SyncStatusManager \<Rightarrow> RuntimeReadinessStatus" where
  "get_runtime_readiness = sm_runtime_readiness"

section \<open>Snapshot provenance\<close>

datatype SnapshotInstallOrigin = SnapshotInstall

datatype SnapshotVerificationState = ManifestMissing | ManifestVerified | SignatureVerified

datatype SnapshotTrustMode = Dev | Manifest | Signed

record SnapshotInstallProvenance =
  pv_origin :: SnapshotInstallOrigin
  pv_trust_mode :: SnapshotTrustMode
  pv_verification_state :: SnapshotVerificationState
  pv_manifest_present :: bool
  pv_manifest_verified :: bool
  pv_signature_present :: bool
  pv_signature_verified :: bool
  pv_manifest_version :: "string option"
  pv_signature_scheme :: "string option"
  pv_signing_key_id :: "string option"
  pv_snapshot_file_sha256 :: "string option"
  pv_snapshot_id :: "string option"
  pv_installed_block_height :: u32

definition is_consensus_verified :: "SnapshotInstallProvenance \<Rightarrow> bool" where
  "is_consensus_verified p \<longleftrightarrow> pv_verification_state p = ManifestVerified \<or> pv_verification_state p = SignatureVerified"

definition legacy_manifest_verified :: "SnapshotInstallProvenance \<Rightarrow> bool" where
  "legacy_manifest_verified = pv_manifest_verified"

definition META_KEY_SNAPSHOT_INSTALL_PROVENANCE :: string where
  "META_KEY_SNAPSHOT_INSTALL_PROVENANCE = ''snapshot_install_provenance''"

section \<open>The server\<close>

text \<open>
  The hexadecimal texts of block hashes, script hashes and transaction ids, SHA-256, the JSON parser of a stored
  provenance, the estimated number of keys of the script registry, the address of a script on a network and the script
  classes.
\<close>

record service_env =
  sv_sha256 :: "u8 list \<Rightarrow> u8 list"
  sv_block_hash_hex :: "BlockHash \<Rightarrow> string"
  sv_script_hash_hex :: "USDBScriptHash \<Rightarrow> string"
  sv_txid_text :: "Txid \<Rightarrow> string"
  sv_parse_provenance :: "u8 list \<Rightarrow> SnapshotInstallProvenance option"
  sv_registry_count :: "u64 result"
  sv_address_of_script :: "string \<Rightarrow> ScriptBuf \<Rightarrow> string option"
  sv_is_p2tr :: "ScriptBuf \<Rightarrow> bool"
  sv_is_p2wpkh :: "ScriptBuf \<Rightarrow> bool"
  sv_is_p2wsh :: "ScriptBuf \<Rightarrow> bool"
  sv_is_p2sh :: "ScriptBuf \<Rightarrow> bool"
  sv_is_p2pkh :: "ScriptBuf \<Rightarrow> bool"
  sv_is_op_return :: "ScriptBuf \<Rightarrow> bool"

record BalanceHistoryRpcServer =
  rs_network :: string
  rs_status :: SyncStatusManager
  rs_db :: BalanceHistoryDB
  rs_shutdown_receivers :: bool
  rs_server_handle :: bool

definition MAX_ADDRESS_AGGREGATE_BUCKETS :: u64 where
  "MAX_ADDRESS_AGGREGATE_BUCKETS = 2000"
definition MAX_SCRIPT_RESOLUTION_ITEMS :: nat where
  "MAX_SCRIPT_RESOLUTION_ITEMS = 1000"
definition SCRIPT_REGISTRY_POLICY :: string where
  "SCRIPT_REGISTRY_POLICY = ''auxiliary_seen_scripts_non_consensus_v1''"
definition BALANCE_HISTORY_API_VERSION :: string where
  "BALANCE_HISTORY_API_VERSION = ''1.0.0''"
definition BALANCE_HISTORY_SEMANTICS_VERSION :: string where
  "BALANCE_HISTORY_SEMANTICS_VERSION = ''balance-snapshot-at-or-before:v1''"
definition COMMIT_PROTOCOL_VERSION :: string where
  "COMMIT_PROTOCOL_VERSION = ''1.0.0''"
definition COMMIT_HASH_ALGO :: string where
  "COMMIT_HASH_ALGO = ''sha256''"
definition CONSENSUS_SOURCE_CHAIN_BTC :: string where
  "CONSENSUS_SOURCE_CHAIN_BTC = ''BTC''"
definition CONSENSUS_SNAPSHOT_ID_HASH_ALGO :: string where
  "CONSENSUS_SNAPSHOT_ID_HASH_ALGO = ''sha256''"
definition USDB_INDEX_FORMULA_VERSION :: string where
  "USDB_INDEX_FORMULA_VERSION = ''pass-energy-formula:v1''"
definition USDB_INDEX_PROTOCOL_VERSION :: string where
  "USDB_INDEX_PROTOCOL_VERSION = ''1.0.0''"
definition BALANCE_HISTORY_SERVICE_NAME :: string where
  "BALANCE_HISTORY_SERVICE_NAME = ''balance-history''"

record ConsensusQueryContext =
  qc_requested_height :: "u32 option"
  qc_expected_state :: ConsensusStateReference

record ConsensusRpcErrorData =
  ed_service :: string
  ed_requested_height :: "u32 option"
  ed_local_synced_height :: "u32 option"
  ed_upstream_stable_height :: "u32 option"
  ed_consensus_ready :: "bool option"
  ed_expected_state :: ConsensusStateReference
  ed_actual_state :: ConsensusStateReference
  ed_detail :: "string option"

definition ConsensusStateReference_default :: ConsensusStateReference where
  "ConsensusStateReference_default =
     \<lparr>cr_snapshot_id = None, cr_stable_height = None, cr_stable_block_hash = None, cr_balance_history_api_version = None,
      cr_balance_history_semantics_version = None, cr_usdb_index_protocol_version = None, cr_local_state_commit = None,
      cr_system_state_id = None\<rparr>"

definition ConsensusRpcErrorData_new :: "string \<Rightarrow> ConsensusRpcErrorData" where
  "ConsensusRpcErrorData_new service =
     \<lparr>ed_service = service, ed_requested_height = None, ed_local_synced_height = None, ed_upstream_stable_height = None,
      ed_consensus_ready = None, ed_expected_state = ConsensusStateReference_default,
      ed_actual_state = ConsensusStateReference_default, ed_detail = None\<rparr>"

section \<open>Results and errors\<close>

text \<open>An error of a method is a JSON-RPC error; an assertion of the database ends the call without an answer.\<close>

datatype ErrorCode = InternalError | InvalidParams | ServerError int

record JsonError =
  je_code :: ErrorCode
  je_message :: string
  je_data :: "ConsensusRpcErrorData option"

datatype rpc_error = Json JsonError | Abort string

type_synonym 'a JsonResult = "rpc_error + 'a"

definition bindJ :: "'a JsonResult \<Rightarrow> ('a \<Rightarrow> 'b JsonResult) \<Rightarrow> 'b JsonResult" where
  "bindJ m f = (case m of Inl e \<Rightarrow> Inl e | Inr x \<Rightarrow> f x)"

lemma bindJ_simps [simp]: "bindJ (Inl e) f = Inl e" "bindJ (Inr x) f = f x"
  by (simp_all add: bindJ_def)

definition to_internal_error :: "string \<Rightarrow> JsonError" where
  "to_internal_error message = \<lparr>je_code = InternalError, je_message = message, je_data = None\<rparr>"

definition to_invalid_params :: "string \<Rightarrow> JsonError" where
  "to_invalid_params message = \<lparr>je_code = InvalidParams, je_message = message, je_data = None\<rparr>"

definition to_consensus_error :: "ConsensusRpcErrorCode \<Rightarrow> ConsensusRpcErrorData \<Rightarrow> JsonError" where
  "to_consensus_error code data =
     \<lparr>je_code = ServerError (ConsensusRpcErrorCode_code code), je_message = ConsensusRpcErrorCode_as_str code, je_data = Some data\<rparr>"

text \<open>\<open>map_err\<close> of a database result.\<close>

definition internal :: "string \<Rightarrow> 'a result \<Rightarrow> 'a JsonResult" where
  "internal message r =
     (case r of Inr x \<Rightarrow> Inr x | Inl (Err _) \<Rightarrow> Inl (Json (to_internal_error message)) | Inl (Panic m) \<Rightarrow> Inl (Abort m))"

lemma internal_simps [simp]: "internal m (Inr x) = Inr x" "internal m (Inl (Err e)) = Inl (Json (to_internal_error m))"
  by (simp_all add: internal_def)

text \<open>The provenance of an installed snapshot and its two older markers.\<close>

definition get_snapshot_install_provenance :: "service_env \<Rightarrow> BalanceHistoryDB \<Rightarrow> SnapshotInstallProvenance option result" where
  "get_snapshot_install_provenance env db =
     (case get_cf META_CF (str_bytes META_KEY_SNAPSHOT_INSTALL_PROVENANCE) db of
        None \<Rightarrow> Inr None
      | Some v \<Rightarrow> (case sv_parse_provenance env v of
          None \<Rightarrow> Inl (Err ''Failed to parse JSON meta key'') | Some p \<Rightarrow> Inr (Some p)))"

definition get_snapshot_install_used :: "service_env \<Rightarrow> BalanceHistoryDB \<Rightarrow> bool result" where
  "get_snapshot_install_used env db =
     (case get_snapshot_install_provenance env db of
        Inl e \<Rightarrow> Inl e
      | Inr (Some _) \<Rightarrow> Inr True
      | Inr None \<Rightarrow> (case get_u32_meta META_KEY_SNAPSHOT_INSTALL_USED db of Inl e \<Rightarrow> Inl e | Inr v \<Rightarrow> Inr (v = Some 1)))"

definition get_snapshot_install_manifest_verified :: "service_env \<Rightarrow> BalanceHistoryDB \<Rightarrow> bool option result" where
  "get_snapshot_install_manifest_verified env db =
     (case get_snapshot_install_provenance env db of
        Inl e \<Rightarrow> Inl e
      | Inr (Some p) \<Rightarrow> Inr (Some (legacy_manifest_verified p))
      | Inr None \<Rightarrow>
          (case get_u32_meta META_KEY_SNAPSHOT_INSTALL_MANIFEST_VERIFIED db of
             Inl e \<Rightarrow> Inl e
           | Inr None \<Rightarrow> Inr None
           | Inr (Some v) \<Rightarrow>
               if v = 0 then Inr (Some False) else if v = 1 then Inr (Some True)
               else Inl (Err ''Invalid snapshot install manifest verification meta value'')))"

section \<open>Snapshots and state references\<close>

record SnapshotInfo =
  sf_stable_height :: u32
  sf_stable_block_hash :: "string option"
  sf_latest_block_commit :: "string option"
  sf_stable_lag :: u32
  sf_balance_history_api_version :: string
  sf_balance_history_semantics_version :: string
  sf_commit_protocol_version :: string
  sf_commit_hash_algo :: string

definition build_snapshot_info :: "service_env \<Rightarrow> BalanceHistoryRpcServer \<Rightarrow> SnapshotInfo result" where
  "build_snapshot_info env sv =
     (case get_btc_block_height (rs_db sv) of
        Inl e \<Rightarrow> Inl e
      | Inr stable_height \<Rightarrow>
          (case get_block_commit stable_height (rs_db sv) of
             Inl e \<Rightarrow> Inl e
           | Inr latest_commit \<Rightarrow> Inr
               \<lparr>sf_stable_height = stable_height,
                sf_stable_block_hash = map_option (\<lambda>c. sv_block_hash_hex env (ce_btc_block_hash c)) latest_commit,
                sf_latest_block_commit = map_option (\<lambda>c. encode_hex (hash_bytes (ce_block_commit c))) latest_commit,
                sf_stable_lag = BALANCE_HISTORY_STABLE_LAG,
                sf_balance_history_api_version = BALANCE_HISTORY_API_VERSION,
                sf_balance_history_semantics_version = BALANCE_HISTORY_SEMANTICS_VERSION,
                sf_commit_protocol_version = COMMIT_PROTOCOL_VERSION,
                sf_commit_hash_algo = COMMIT_HASH_ALGO\<rparr>))"

definition build_consensus_snapshot_identity :: "string \<Rightarrow> u32 \<Rightarrow> string \<Rightarrow> ConsensusSnapshotIdentity" where
  "build_consensus_snapshot_identity network stable_height stable_block_hash =
     \<lparr>si_source_chain = CONSENSUS_SOURCE_CHAIN_BTC, si_network = network, si_stable_height = stable_height,
      si_stable_block_hash = stable_block_hash, si_stable_lag = BALANCE_HISTORY_STABLE_LAG,
      si_balance_history_api_version = BALANCE_HISTORY_API_VERSION,
      si_balance_history_semantics_version = BALANCE_HISTORY_SEMANTICS_VERSION,
      si_usdb_index_formula_version = USDB_INDEX_FORMULA_VERSION,
      si_usdb_index_protocol_version = USDB_INDEX_PROTOCOL_VERSION\<rparr>"

definition build_historical_state_ref_at_height ::
  "service_env \<Rightarrow> string \<Rightarrow> BalanceHistoryDB \<Rightarrow> u32 \<Rightarrow> HistoricalSnapshotStateRef option result" where
  "build_historical_state_ref_at_height env network db block_height =
     (case get_block_commit block_height db of
        Inl e \<Rightarrow> Inl e
      | Inr None \<Rightarrow> Inr None
      | Inr (Some commit) \<Rightarrow>
          let stable_block_hash = sv_block_hash_hex env (ce_btc_block_hash commit);
              consensus_identity = build_consensus_snapshot_identity network block_height stable_block_hash in
          Inr (Some
            \<lparr>sr_block_height = block_height, sr_stable_block_hash = stable_block_hash,
             sr_latest_block_commit = encode_hex (hash_bytes (ce_block_commit commit)),
             sr_consensus_identity = consensus_identity,
             sr_snapshot_id = build_consensus_snapshot_id (sv_sha256 env) consensus_identity,
             sr_snapshot_id_hash_algo = CONSENSUS_SNAPSHOT_ID_HASH_ALGO, sr_snapshot_id_version = CONSENSUS_SNAPSHOT_ID_VERSION,
             sr_commit_protocol_version = COMMIT_PROTOCOL_VERSION, sr_commit_hash_algo = COMMIT_HASH_ALGO\<rparr>))"

text \<open>The reference of the current snapshot (\<open>From<SnapshotStateReferenceSeed>\<close>) and of a historical one.\<close>

definition reference_of_seed :: "service_env \<Rightarrow> string \<Rightarrow> SnapshotInfo \<Rightarrow> ConsensusStateReference" where
  "reference_of_seed env network snapshot =
     \<lparr>cr_snapshot_id = map_option (\<lambda>stable_block_hash. build_consensus_snapshot_id (sv_sha256 env)
        \<lparr>si_source_chain = CONSENSUS_SOURCE_CHAIN_BTC, si_network = network, si_stable_height = sf_stable_height snapshot,
         si_stable_block_hash = stable_block_hash, si_stable_lag = sf_stable_lag snapshot,
         si_balance_history_api_version = sf_balance_history_api_version snapshot,
         si_balance_history_semantics_version = sf_balance_history_semantics_version snapshot,
         si_usdb_index_formula_version = USDB_INDEX_FORMULA_VERSION,
         si_usdb_index_protocol_version = USDB_INDEX_PROTOCOL_VERSION\<rparr>) (sf_stable_block_hash snapshot),
      cr_stable_height = Some (sf_stable_height snapshot),
      cr_stable_block_hash = sf_stable_block_hash snapshot,
      cr_balance_history_api_version = Some (sf_balance_history_api_version snapshot),
      cr_balance_history_semantics_version = Some (sf_balance_history_semantics_version snapshot),
      cr_usdb_index_protocol_version = Some USDB_INDEX_PROTOCOL_VERSION,
      cr_local_state_commit = None, cr_system_state_id = None\<rparr>"

definition reference_of_state_ref :: "HistoricalSnapshotStateRef \<Rightarrow> ConsensusStateReference" where
  "reference_of_state_ref state_ref =
     \<lparr>cr_snapshot_id = Some (sr_snapshot_id state_ref), cr_stable_height = Some (sr_block_height state_ref),
      cr_stable_block_hash = Some (sr_stable_block_hash state_ref),
      cr_balance_history_api_version = Some (si_balance_history_api_version (sr_consensus_identity state_ref)),
      cr_balance_history_semantics_version = Some (si_balance_history_semantics_version (sr_consensus_identity state_ref)),
      cr_usdb_index_protocol_version = Some (si_usdb_index_protocol_version (sr_consensus_identity state_ref)),
      cr_local_state_commit = None, cr_system_state_id = None\<rparr>"

definition SnapshotInfo_from_state_ref :: "HistoricalSnapshotStateRef \<Rightarrow> SnapshotInfo" where
  "SnapshotInfo_from_state_ref state_ref =
     \<lparr>sf_stable_height = sr_block_height state_ref, sf_stable_block_hash = Some (sr_stable_block_hash state_ref),
      sf_latest_block_commit = Some (sr_latest_block_commit state_ref),
      sf_stable_lag = si_stable_lag (sr_consensus_identity state_ref),
      sf_balance_history_api_version = si_balance_history_api_version (sr_consensus_identity state_ref),
      sf_balance_history_semantics_version = si_balance_history_semantics_version (sr_consensus_identity state_ref),
      sf_commit_protocol_version = sr_commit_protocol_version state_ref, sf_commit_hash_algo = sr_commit_hash_algo state_ref\<rparr>"

definition build_consensus_state_reference :: "service_env \<Rightarrow> BalanceHistoryRpcServer \<Rightarrow> SnapshotInfo option \<Rightarrow> ConsensusStateReference" where
  "build_consensus_state_reference env sv snapshot =
     (case snapshot of None \<Rightarrow> ConsensusStateReference_default | Some s \<Rightarrow> reference_of_seed env (rs_network sv) s)"

section \<open>Readiness\<close>

datatype ReadinessBlocker =
    RpcNotListening | Initializing | Loading | CatchingUp | RollbackInProgress | ShutdownRequested
  | StableBlockHashMissing | LatestBlockCommitMissing | SnapshotInstallUnverified

record ScriptRegistryStatus =
  sg_available :: bool
  sg_count :: "u64 option"
  sg_policy :: string

record ReadinessInfo =
  ri_service :: string
  ri_rpc_alive :: bool
  ri_query_ready :: bool
  ri_consensus_ready :: bool
  ri_phase :: SyncPhase
  ri_current :: u64
  ri_total :: u64
  ri_message :: "string option"
  ri_stable_height :: "u32 option"
  ri_stable_block_hash :: "string option"
  ri_latest_block_commit :: "string option"
  ri_snapshot_origin :: "SnapshotInstallOrigin option"
  ri_snapshot_verification_state :: "SnapshotVerificationState option"
  ri_snapshot_signing_key_id :: "string option"
  ri_script_registry :: ScriptRegistryStatus
  ri_blockers :: "ReadinessBlocker list"

definition script_registry_status :: "service_env \<Rightarrow> ScriptRegistryStatus" where
  "script_registry_status env =
     (case sv_registry_count env of
        Inr n \<Rightarrow> \<lparr>sg_available = True, sg_count = Some n, sg_policy = SCRIPT_REGISTRY_POLICY\<rparr>
      | Inl _ \<Rightarrow> \<lparr>sg_available = False, sg_count = None, sg_policy = SCRIPT_REGISTRY_POLICY\<rparr>)"

text \<open>The list of blockers and the two flags, from what the method has read.\<close>

definition readiness_blockers ::
  "RuntimeReadinessStatus \<Rightarrow> SyncStatus \<Rightarrow> bool \<Rightarrow> bool \<Rightarrow> bool \<Rightarrow> bool option \<Rightarrow> ReadinessBlocker list" where
  "readiness_blockers runtime sync_status hash_missing commit_missing install_used manifest_verified =
     (if \<not> rr_rpc_alive runtime then [RpcNotListening] else []) @
     (case sy_phase sync_status of
        Phase_Initializing \<Rightarrow> [Initializing] | Phase_Loading \<Rightarrow> [Loading] | Phase_Indexing \<Rightarrow> [] | Phase_Synced \<Rightarrow> []) @
     (if rr_rollback_in_progress runtime then [RollbackInProgress] else []) @
     (if rr_shutdown_requested runtime then [ShutdownRequested] else []) @
     (if sy_phase sync_status = Phase_Indexing \<and> 0 < sy_total sync_status \<and> sy_current sync_status < sy_total sync_status
      then [CatchingUp] else []) @
     (if hash_missing then [StableBlockHashMissing] else []) @
     (if commit_missing then [LatestBlockCommitMissing] else []) @
     (if install_used \<and> manifest_verified = Some False then [SnapshotInstallUnverified] else [])"

definition query_ready_now :: "RuntimeReadinessStatus \<Rightarrow> SyncStatus \<Rightarrow> bool" where
  "query_ready_now runtime sync_status \<longleftrightarrow>
     rr_rpc_alive runtime \<and> \<not> rr_rollback_in_progress runtime \<and> \<not> rr_shutdown_requested runtime \<and>
     \<not> (sy_phase sync_status = Phase_Initializing \<or> sy_phase sync_status = Phase_Loading)"

definition readiness_info :: "service_env \<Rightarrow> BalanceHistoryRpcServer \<Rightarrow> ReadinessInfo result" where
  "readiness_info env sv =
     (let sync_status = get_status (rs_status sv); runtime = get_runtime_readiness (rs_status sv) in
      case get_btc_block_height (rs_db sv) of
        Inl e \<Rightarrow> Inl e
      | Inr stable_height \<Rightarrow>
     (case get_block_commit stable_height (rs_db sv) of
        Inl e \<Rightarrow> Inl e
      | Inr latest_commit \<Rightarrow>
     (case get_snapshot_install_provenance env (rs_db sv) of
        Inl e \<Rightarrow> Inl e
      | Inr provenance \<Rightarrow>
     (case (if provenance \<noteq> None then Inr True else get_snapshot_install_used env (rs_db sv)) of
        Inl e \<Rightarrow> Inl e
      | Inr install_used \<Rightarrow>
     (case (case provenance of Some p \<Rightarrow> Inr (Some (legacy_manifest_verified p))
            | None \<Rightarrow> get_snapshot_install_manifest_verified env (rs_db sv)) of
        Inl e \<Rightarrow> Inl e
      | Inr manifest_verified \<Rightarrow>
          let stable_block_hash = map_option (\<lambda>c. sv_block_hash_hex env (ce_btc_block_hash c)) latest_commit;
              latest_block_commit = map_option (\<lambda>c. encode_hex (hash_bytes (ce_block_commit c))) latest_commit;
              query_ready = query_ready_now runtime sync_status;
              consensus_ready = (query_ready \<and> sy_total sync_status \<le> sy_current sync_status \<and> stable_block_hash \<noteq> None \<and>
                latest_block_commit \<noteq> None \<and> \<not> (install_used \<and> manifest_verified = Some False)) in
          Inr \<lparr>ri_service = BALANCE_HISTORY_SERVICE_NAME, ri_rpc_alive = rr_rpc_alive runtime,
            ri_query_ready = query_ready, ri_consensus_ready = consensus_ready, ri_phase = sy_phase sync_status,
            ri_current = sy_current sync_status, ri_total = sy_total sync_status, ri_message = sy_message sync_status,
            ri_stable_height = Some stable_height, ri_stable_block_hash = stable_block_hash,
            ri_latest_block_commit = latest_block_commit, ri_snapshot_origin = map_option pv_origin provenance,
            ri_snapshot_verification_state = map_option pv_verification_state provenance,
            ri_snapshot_signing_key_id = Option.bind provenance pv_signing_key_id,
            ri_script_registry = script_registry_status env,
            ri_blockers = readiness_blockers runtime sync_status (stable_block_hash = None) (latest_block_commit = None)
              install_used manifest_verified\<rparr>)))))"

section \<open>Validation of requests\<close>

definition build_consensus_error_data_for_state ::
  "service_env \<Rightarrow> BalanceHistoryRpcServer \<Rightarrow> u32 option \<Rightarrow> ConsensusStateReference \<Rightarrow> ConsensusStateReference \<Rightarrow> string option \<Rightarrow>
   ConsensusRpcErrorData" where
  "build_consensus_error_data_for_state env sv requested_height expected_state actual_state detail =
     (ConsensusRpcErrorData_new BALANCE_HISTORY_SERVICE_NAME)
       \<lparr>ed_requested_height := requested_height,
        ed_upstream_stable_height := cr_stable_height actual_state,
        ed_consensus_ready := (case readiness_info env sv of Inr r \<Rightarrow> Some (ri_consensus_ready r) | Inl _ \<Rightarrow> None),
        ed_expected_state := expected_state, ed_actual_state := actual_state, ed_detail := detail\<rparr>"

definition build_consensus_error_data ::
  "service_env \<Rightarrow> BalanceHistoryRpcServer \<Rightarrow> u32 option \<Rightarrow> SnapshotInfo option \<Rightarrow> string option \<Rightarrow> ConsensusRpcErrorData" where
  "build_consensus_error_data env sv requested_height snapshot detail =
     build_consensus_error_data_for_state env sv requested_height ConsensusStateReference_default
       (build_consensus_state_reference env sv snapshot) detail"

definition validate_consensus_query_context :: "u32 \<Rightarrow> ConsensusQueryContext option \<Rightarrow> ConsensusStateReference JsonResult" where
  "validate_consensus_query_context block_height context =
     (case context of
        None \<Rightarrow> Inr ConsensusStateReference_default
      | Some c \<Rightarrow>
          (case qc_requested_height c of
             Some requested_height \<Rightarrow>
               if requested_height \<noteq> block_height
               then Inl (Json (to_invalid_params ''ConsensusQueryContext.requested_height does not match block_height''))
               else Inr (qc_expected_state c)
           | None \<Rightarrow> Inr (qc_expected_state c)))"

text \<open>One selector of the caller: absent, or equal to the value of the state reference.\<close>

definition check_selector :: "'a option \<Rightarrow> 'a \<Rightarrow> JsonError \<Rightarrow> unit JsonResult" where
  "check_selector expected actual failure =
     (case expected of Some x \<Rightarrow> if x \<noteq> actual then Inl (Json failure) else Inr () | None \<Rightarrow> Inr ())"

definition validate_historical_state_ref_expected_state ::
  "service_env \<Rightarrow> BalanceHistoryRpcServer \<Rightarrow> u32 \<Rightarrow> HistoricalSnapshotStateRef \<Rightarrow> ConsensusStateReference \<Rightarrow> unit JsonResult" where
  "validate_historical_state_ref_expected_state env sv block_height state_ref expected_state =
     (if ConsensusStateReference_is_empty expected_state then Inr ()
      else
        let actual_state = reference_of_state_ref state_ref;
            mismatch = (\<lambda>code detail. to_consensus_error code
              (build_consensus_error_data_for_state env sv (Some block_height) expected_state actual_state (Some detail))) in
        bindJ (check_selector (cr_snapshot_id expected_state) (sr_snapshot_id state_ref)
          (mismatch SnapshotIdMismatch ''Expected historical snapshot_id'')) (\<lambda>_.
        bindJ (check_selector (cr_stable_height expected_state) (sr_block_height state_ref)
          (mismatch SnapshotIdMismatch ''Expected historical stable height'')) (\<lambda>_.
        bindJ (check_selector (cr_stable_block_hash expected_state) (sr_stable_block_hash state_ref)
          (mismatch BlockHashMismatch ''Expected historical stable block hash'')) (\<lambda>_.
        bindJ (check_selector (cr_balance_history_api_version expected_state)
          (si_balance_history_api_version (sr_consensus_identity state_ref))
          (mismatch VersionMismatch ''Expected balance-history API version'')) (\<lambda>_.
        bindJ (check_selector (cr_balance_history_semantics_version expected_state)
          (si_balance_history_semantics_version (sr_consensus_identity state_ref))
          (mismatch VersionMismatch ''Expected balance-history semantics version'')) (\<lambda>_.
        check_selector (cr_usdb_index_protocol_version expected_state)
          (si_usdb_index_protocol_version (sr_consensus_identity state_ref))
          (mismatch VersionMismatch ''Expected usdb-index protocol version'')))))))"

definition resolve_queryable_snapshot :: "service_env \<Rightarrow> BalanceHistoryRpcServer \<Rightarrow> SnapshotInfo JsonResult" where
  "resolve_queryable_snapshot env sv =
     bindJ (internal ''Failed to build snapshot info'' (build_snapshot_info env sv)) (\<lambda>snapshot.
     if sf_stable_block_hash snapshot = None \<or> sf_latest_block_commit snapshot = None
     then Inl (Json (to_consensus_error SnapshotNotReady (build_consensus_error_data env sv None (Some snapshot)
       (Some ''Current stable snapshot is incomplete: missing stable block hash or latest block commit''))))
     else Inr snapshot)"

definition validate_requested_height :: "service_env \<Rightarrow> BalanceHistoryRpcServer \<Rightarrow> u32 \<Rightarrow> SnapshotInfo JsonResult" where
  "validate_requested_height env sv requested_height =
     bindJ (resolve_queryable_snapshot env sv) (\<lambda>snapshot.
     if sf_stable_height snapshot < requested_height
     then Inl (Json (to_consensus_error HeightNotSynced (build_consensus_error_data env sv (Some requested_height) (Some snapshot)
       (Some ''Requested height is above current stable height''))))
     else Inr snapshot)"

type_synonym u32_range = "u32 \<times> u32"

definition range_is_empty :: "u32_range \<Rightarrow> bool" where
  "range_is_empty rng \<longleftrightarrow> \<not> fst rng < snd rng"

definition validate_requested_range :: "service_env \<Rightarrow> BalanceHistoryRpcServer \<Rightarrow> u32_range \<Rightarrow> SnapshotInfo JsonResult" where
  "validate_requested_range env sv rng =
     bindJ (resolve_queryable_snapshot env sv) (\<lambda>snapshot.
     if \<not> range_is_empty rng \<and> sf_stable_height snapshot < sat_sub (snd rng) 1
     then Inl (Json (to_consensus_error HeightNotSynced (build_consensus_error_data env sv (Some (sat_sub (snd rng) 1)) (Some snapshot)
       (Some ''Requested range exceeds current stable height''))))
     else Inr snapshot)"

definition validate_aggregate_range :: "service_env \<Rightarrow> BalanceHistoryRpcServer \<Rightarrow> u32_range \<Rightarrow> SnapshotInfo JsonResult" where
  "validate_aggregate_range env sv rng =
     (if range_is_empty rng then Inl (Json (to_invalid_params ''Block range must be non-empty''))
      else validate_requested_range env sv rng)"

definition validate_bucket_params :: "u32_range \<Rightarrow> u32 \<Rightarrow> u64 JsonResult" where
  "validate_bucket_params rng bucket_size =
     (if bucket_size = 0 then Inl (Json (to_invalid_params ''bucket_size must be greater than 0''))
      else
        let span = ucast (snd rng - fst rng) :: u64; size = ucast bucket_size :: u64;
            bucket_count = (span + size - 1) div size in
        if MAX_ADDRESS_AGGREGATE_BUCKETS < bucket_count then Inl (Json (to_invalid_params ''Bucket count exceeds maximum''))
        else Inr bucket_count)"

definition build_state_ref_at_height :: "service_env \<Rightarrow> BalanceHistoryRpcServer \<Rightarrow> u32 \<Rightarrow> HistoricalSnapshotStateRef JsonResult" where
  "build_state_ref_at_height env sv block_height =
     bindJ (validate_requested_height env sv block_height) (\<lambda>_.
     bindJ (internal ''Failed to get block commit while building state ref at height''
       (build_historical_state_ref_at_height env (rs_network sv) (rs_db sv) block_height)) (\<lambda>state_ref.
     case state_ref of
       Some r \<Rightarrow> Inr r
     | None \<Rightarrow> Inl (Json (to_consensus_error HistoryNotAvailable (build_consensus_error_data env sv (Some block_height)
         (case build_snapshot_info env sv of Inr s \<Rightarrow> Some s | Inl _ \<Rightarrow> None)
         (Some ''Missing block commit while building historical state ref''))))))"

section \<open>Queries\<close>

record GetBalanceParams =
  gp_script_hash :: USDBScriptHash
  gp_block_height :: "u32 option"
  gp_block_range :: "u32_range option"

record GetBalancesParams =
  gb_script_hashes :: "USDBScriptHash list"
  gb_block_height :: "u32 option"
  gb_block_range :: "u32_range option"

definition address_balance :: "BalanceHistoryData \<Rightarrow> AddressBalance" where
  "address_balance b = \<lparr>bal_block_height = hd_block_height b, bal_balance = hd_balance b, bal_delta = hd_delta b\<rparr>"

definition get_network_type :: "BalanceHistoryRpcServer \<Rightarrow> string JsonResult" where
  "get_network_type sv = Inr (rs_network sv)"

definition get_block_height_rpc :: "BalanceHistoryRpcServer \<Rightarrow> u64 JsonResult" where
  "get_block_height_rpc sv =
     bindJ (internal ''Failed to get block height'' (get_btc_block_height (rs_db sv))) (\<lambda>height. Inr (ucast height))"

definition get_sync_status :: "BalanceHistoryRpcServer \<Rightarrow> SyncStatus JsonResult" where
  "get_sync_status sv = Inr (get_status (rs_status sv))"

definition get_snapshot_info :: "service_env \<Rightarrow> BalanceHistoryRpcServer \<Rightarrow> SnapshotInfo JsonResult" where
  "get_snapshot_info = resolve_queryable_snapshot"

definition get_readiness :: "service_env \<Rightarrow> BalanceHistoryRpcServer \<Rightarrow> ReadinessInfo JsonResult" where
  "get_readiness env sv = internal ''Failed to build readiness info'' (readiness_info env sv)"

definition get_snapshot_provenance :: "service_env \<Rightarrow> BalanceHistoryRpcServer \<Rightarrow> SnapshotInstallProvenance option JsonResult" where
  "get_snapshot_provenance env sv =
     internal ''Failed to get snapshot provenance'' (get_snapshot_install_provenance env (rs_db sv))"

definition get_state_ref_at_height ::
  "service_env \<Rightarrow> BalanceHistoryRpcServer \<Rightarrow> u32 \<Rightarrow> ConsensusQueryContext option \<Rightarrow> HistoricalSnapshotStateRef JsonResult" where
  "get_state_ref_at_height env sv block_height context =
     bindJ (validate_consensus_query_context block_height context) (\<lambda>expected_state.
     bindJ (build_state_ref_at_height env sv block_height) (\<lambda>state_ref.
     bindJ (validate_historical_state_ref_expected_state env sv block_height state_ref expected_state) (\<lambda>_.
     Inr state_ref)))"

definition get_block_commit_rpc :: "service_env \<Rightarrow> BalanceHistoryRpcServer \<Rightarrow> u32 \<Rightarrow> BlockCommitInfo option JsonResult" where
  "get_block_commit_rpc env sv block_height =
     bindJ (internal ''Failed to get block commit at height'' (get_block_commit block_height (rs_db sv))) (\<lambda>commit.
     Inr (map_option (\<lambda>entry. \<lparr>bc_block_height = ce_block_height entry,
       bc_btc_block_hash = sv_block_hash_hex env (ce_btc_block_hash entry),
       bc_balance_delta_root = encode_hex (hash_bytes (ce_balance_delta_root entry)),
       bc_block_commit = encode_hex (hash_bytes (ce_block_commit entry)),
       bc_commit_protocol_version = COMMIT_PROTOCOL_VERSION, bc_commit_hash_algo = COMMIT_HASH_ALGO\<rparr>) commit))"

definition get_address_balance :: "service_env \<Rightarrow> BalanceHistoryRpcServer \<Rightarrow> GetBalanceParams \<Rightarrow> AddressBalance list JsonResult" where
  "get_address_balance env sv params =
     (case gp_block_height params of
        Some height \<Rightarrow>
          bindJ (validate_requested_height env sv height) (\<lambda>_.
          bindJ (internal ''Failed to get balance at block height''
            (get_balance_at_block_height (gp_script_hash params) height (rs_db sv))) (\<lambda>r.
          Inr [address_balance r]))
      | None \<Rightarrow>
     (case gp_block_range params of
        Some rng \<Rightarrow>
          if range_is_empty rng then Inr []
          else
            bindJ (validate_requested_range env sv rng) (\<lambda>_.
            bindJ (internal ''Failed to get balance in block range''
              (get_balance_in_range (gp_script_hash params) (fst rng) (snd rng) (rs_db sv))) (\<lambda>rs.
            Inr (map address_balance rs)))
      | None \<Rightarrow>
          bindJ (resolve_queryable_snapshot env sv) (\<lambda>_.
          bindJ (internal ''Failed to get latest balance'' (get_latest_balance (gp_script_hash params) (rs_db sv))) (\<lambda>r.
          Inr [address_balance r]))))"

definition get_address_balance_delta :: "BalanceHistoryRpcServer \<Rightarrow> GetBalanceParams \<Rightarrow> AddressBalance option list JsonResult" where
  "get_address_balance_delta sv params =
     (case gp_block_height params of
        Some height \<Rightarrow>
          bindJ (internal ''Failed to get balance delta at block height''
            (get_balance_delta_at_block_height (gp_script_hash params) height (rs_db sv))) (\<lambda>r.
          Inr [map_option address_balance r])
      | None \<Rightarrow>
     (case gp_block_range params of
        Some rng \<Rightarrow>
          if range_is_empty rng then Inr []
          else
            bindJ (internal ''Failed to get balance in block range''
              (get_balance_in_range (gp_script_hash params) (fst rng) (snd rng) (rs_db sv))) (\<lambda>rs.
            Inr (map (\<lambda>b. Some (address_balance b)) rs))
      | None \<Rightarrow> Inl (Json (to_invalid_params ''Block height or block range must be specified to get balance delta''))))"

text \<open>
  \<open>collect\<close> of the per-address results, which the parallel iterator keeps in the order of the request.  When several
  addresses fail, the iterator may return any of the errors; the model returns the first.
\<close>

fun collectJ :: "'a JsonResult list \<Rightarrow> 'a list JsonResult" where
  "collectJ [] = Inr []"
| "collectJ (r # rs) = bindJ r (\<lambda>x. bindJ (collectJ rs) (\<lambda>xs. Inr (x # xs)))"

definition single_params :: "GetBalancesParams \<Rightarrow> USDBScriptHash \<Rightarrow> GetBalanceParams" where
  "single_params params sh =
     \<lparr>gp_script_hash = sh, gp_block_height = gb_block_height params, gp_block_range = gb_block_range params\<rparr>"

definition get_addresses_balances :: "service_env \<Rightarrow> BalanceHistoryRpcServer \<Rightarrow> GetBalancesParams \<Rightarrow> AddressBalance list list JsonResult" where
  "get_addresses_balances env sv params =
     collectJ (map (\<lambda>sh. get_address_balance env sv (single_params params sh)) (gb_script_hashes params))"

definition get_addresses_balances_delta :: "BalanceHistoryRpcServer \<Rightarrow> GetBalancesParams \<Rightarrow> AddressBalance option list list JsonResult" where
  "get_addresses_balances_delta sv params =
     collectJ (map (\<lambda>sh. get_address_balance_delta sv (single_params params sh)) (gb_script_hashes params))"

section \<open>Aggregates\<close>

record AddressBalanceSummary =
  as_range_start :: u32
  as_range_end :: u32
  as_start_balance :: u64
  as_end_balance :: u64
  as_change_count :: u64
  as_total_inflow :: u64
  as_total_outflow :: u64
  as_net_delta :: i64
  as_first_movement_height :: "u32 option"
  as_latest_movement_height :: "u32 option"
  as_peak_balance :: u64
  as_peak_height :: u32
  as_low_balance :: u64
  as_low_height :: u32

record AddressBalanceTimeseriesPoint =
  tp_bucket_start :: u32
  tp_bucket_end :: u32
  tp_balance :: u64
  tp_net_delta :: i64
  tp_change_count :: u64
  tp_latest_movement_height :: "u32 option"

record AddressFlowBucket =
  fb_bucket_start :: u32
  fb_bucket_end :: u32
  fb_inflow :: u64
  fb_outflow :: u64
  fb_net_delta :: i64
  fb_change_count :: u64

definition get_balance_before_range :: "BalanceHistoryRpcServer \<Rightarrow> USDBScriptHash \<Rightarrow> u32 \<Rightarrow> BalanceHistoryData JsonResult" where
  "get_balance_before_range sv script_hash range_start =
     (if range_start = 0 then Inr \<lparr>hd_block_height = 0, hd_delta = 0, hd_balance = 0\<rparr>
      else internal ''Failed to get range-start balance before height''
        (get_balance_at_block_height script_hash (range_start - 1) (rs_db sv)))"

definition get_balance_at_range_end :: "BalanceHistoryRpcServer \<Rightarrow> USDBScriptHash \<Rightarrow> u32 \<Rightarrow> BalanceHistoryData JsonResult" where
  "get_balance_at_range_end sv script_hash range_end =
     internal ''Failed to get range-end balance before height''
       (get_balance_at_block_height script_hash (range_end - 1) (rs_db sv))"

definition get_range_balance_rows :: "BalanceHistoryRpcServer \<Rightarrow> USDBScriptHash \<Rightarrow> u32_range \<Rightarrow> BalanceHistoryData list JsonResult" where
  "get_range_balance_rows sv script_hash rng =
     internal ''Failed to get balance rows in block range'' (get_balance_in_range script_hash (fst rng) (snd rng) (rs_db sv))"

text \<open>The inflow and the outflow of one row.\<close>

definition row_inflow :: "BalanceHistoryData \<Rightarrow> u64" where
  "row_inflow row = (if 0 \<le> sint (hd_delta row) then hd_delta row else 0)"

definition row_outflow :: "BalanceHistoryData \<Rightarrow> u64" where
  "row_outflow row = (if 0 \<le> sint (hd_delta row) then 0 else - hd_delta row)"

definition summary_step :: "BalanceHistoryData \<Rightarrow> AddressBalanceSummary \<Rightarrow> AddressBalanceSummary" where
  "summary_step row s0 =
     (let s1 = s0\<lparr>as_change_count := as_change_count s0 + 1, as_net_delta := as_net_delta s0 + hd_delta row,
            as_total_inflow := as_total_inflow s0 + row_inflow row, as_total_outflow := as_total_outflow s0 + row_outflow row,
            as_first_movement_height := Some (case as_first_movement_height s0 of Some h \<Rightarrow> h | None \<Rightarrow> hd_block_height row),
            as_latest_movement_height := Some (hd_block_height row)\<rparr>;
          s2 = (if as_peak_balance s1 < hd_balance row
                then s1\<lparr>as_peak_balance := hd_balance row, as_peak_height := hd_block_height row\<rparr> else s1) in
      if hd_balance row < as_low_balance s2
      then s2\<lparr>as_low_balance := hd_balance row, as_low_height := hd_block_height row\<rparr> else s2)"

definition build_address_balance_summary ::
  "BalanceHistoryRpcServer \<Rightarrow> USDBScriptHash \<Rightarrow> u32_range \<Rightarrow> BalanceHistoryData list \<Rightarrow> AddressBalanceSummary JsonResult" where
  "build_address_balance_summary sv script_hash rng rows =
     bindJ (get_balance_before_range sv script_hash (fst rng)) (\<lambda>s.
     bindJ (get_balance_at_range_end sv script_hash (snd rng)) (\<lambda>e.
     Inr (fold summary_step rows
       \<lparr>as_range_start = fst rng, as_range_end = snd rng, as_start_balance = hd_balance s, as_end_balance = hd_balance e,
        as_change_count = 0, as_total_inflow = 0, as_total_outflow = 0, as_net_delta = 0, as_first_movement_height = None,
        as_latest_movement_height = None, as_peak_balance = hd_balance s, as_peak_height = fst rng,
        as_low_balance = hd_balance s, as_low_height = fst rng\<rparr>)))"

definition get_address_balance_summary ::
  "service_env \<Rightarrow> BalanceHistoryRpcServer \<Rightarrow> USDBScriptHash \<Rightarrow> u32_range \<Rightarrow> AddressBalanceSummary JsonResult" where
  "get_address_balance_summary env sv script_hash rng =
     bindJ (validate_aggregate_range env sv rng) (\<lambda>_.
     bindJ (get_range_balance_rows sv script_hash rng) (\<lambda>rows.
     build_address_balance_summary sv script_hash rng rows))"

text \<open>
  The inner loop of both bucket methods: the rows below the end of the bucket are folded into its state, and the others
  stay for the next buckets.
\<close>

fun scan_bucket :: "(BalanceHistoryData \<Rightarrow> 's \<Rightarrow> 's) \<Rightarrow> u32 \<Rightarrow> BalanceHistoryData list \<Rightarrow> 's \<Rightarrow> 's \<times> BalanceHistoryData list" where
  "scan_bucket f bucket_end [] st = (st, [])"
| "scan_bucket f bucket_end (row # rows) st =
     (if hd_block_height row < bucket_end then scan_bucket f bucket_end rows (f row st) else (st, row # rows))"

definition next_bucket_end :: "u32 \<Rightarrow> u32 \<Rightarrow> u32 \<Rightarrow> u32" where
  "next_bucket_end bucket_start bucket_size range_end = min (sat_add bucket_start bucket_size) range_end"

text \<open>The current balance, the net delta, the number of changes and the last height of a bucket.\<close>

definition point_step :: "BalanceHistoryData \<Rightarrow> u64 \<times> i64 \<times> u64 \<times> u32 option \<Rightarrow> u64 \<times> i64 \<times> u64 \<times> u32 option" where
  "point_step row = (\<lambda>(current_balance, net_delta, change_count, latest_movement_height).
     (hd_balance row, net_delta + hd_delta row, change_count + 1, Some (hd_block_height row)))"

text \<open>
  The outer loops.  A bucket size of 0, with which the loop would not advance, is refused by
  \<open>validate_bucket_params\<close> before.
\<close>

lemma next_bucket_end_less:
  assumes "s < e" and "0 < (k :: u32)"
  shows "s < next_bucket_end s k e"
proof -
  have "unat s < unat (sat_add s k)" using assms unat_less_2p [of e]
    by (auto simp: unat_sat_add word_less_nat_alt)
  then show ?thesis using assms by (simp add: next_bucket_end_def word_less_nat_alt min_def)
qed

lemma next_bucket_end_le: "next_bucket_end s k e \<le> e"
  by (simp add: next_bucket_end_def)

function timeseries_loop ::
  "u32 \<Rightarrow> u32 \<Rightarrow> u32 \<Rightarrow> u64 \<Rightarrow> BalanceHistoryData list \<Rightarrow> AddressBalanceTimeseriesPoint list" where
  "timeseries_loop bucket_size range_end bucket_start current_balance rows =
     (if bucket_start < range_end \<and> 0 < bucket_size then
        let bucket_end = next_bucket_end bucket_start bucket_size range_end in
        (case scan_bucket point_step bucket_end rows (current_balance, 0, 0, None) of
           ((balance, net_delta, change_count, latest_movement_height), rest) \<Rightarrow>
             \<lparr>tp_bucket_start = bucket_start, tp_bucket_end = bucket_end, tp_balance = balance, tp_net_delta = net_delta,
              tp_change_count = change_count, tp_latest_movement_height = latest_movement_height\<rparr> #
             timeseries_loop bucket_size range_end bucket_end balance rest)
      else [])"
  by pat_completeness auto
termination
  by (relation "measure (\<lambda>(k, e, s, _). unat e - unat s)")
    (use next_bucket_end_less next_bucket_end_le in \<open>auto simp: word_less_nat_alt word_le_nat_alt intro: diff_less_mono2\<close>)

declare timeseries_loop.simps [simp del]

definition flow_step :: "BalanceHistoryData \<Rightarrow> u64 \<times> u64 \<times> i64 \<times> u64 \<Rightarrow> u64 \<times> u64 \<times> i64 \<times> u64" where
  "flow_step row = (\<lambda>(inflow, outflow, net_delta, change_count).
     (inflow + row_inflow row, outflow + row_outflow row, net_delta + hd_delta row, change_count + 1))"

function flow_loop :: "u32 \<Rightarrow> u32 \<Rightarrow> u32 \<Rightarrow> BalanceHistoryData list \<Rightarrow> AddressFlowBucket list" where
  "flow_loop bucket_size range_end bucket_start rows =
     (if bucket_start < range_end \<and> 0 < bucket_size then
        let bucket_end = next_bucket_end bucket_start bucket_size range_end in
        (case scan_bucket flow_step bucket_end rows (0, 0, 0, 0) of
           ((inflow, outflow, net_delta, change_count), rest) \<Rightarrow>
             \<lparr>fb_bucket_start = bucket_start, fb_bucket_end = bucket_end, fb_inflow = inflow, fb_outflow = outflow,
              fb_net_delta = net_delta, fb_change_count = change_count\<rparr> #
             flow_loop bucket_size range_end bucket_end rest)
      else [])"
  by pat_completeness auto
termination
  by (relation "measure (\<lambda>(k, e, s, _). unat e - unat s)")
    (use next_bucket_end_less next_bucket_end_le in \<open>auto simp: word_less_nat_alt word_le_nat_alt intro: diff_less_mono2\<close>)

declare flow_loop.simps [simp del]

definition get_address_balance_timeseries ::
  "service_env \<Rightarrow> BalanceHistoryRpcServer \<Rightarrow> USDBScriptHash \<Rightarrow> u32_range \<Rightarrow> u32 \<Rightarrow> AddressBalanceTimeseriesPoint list JsonResult" where
  "get_address_balance_timeseries env sv script_hash rng bucket_size =
     bindJ (validate_aggregate_range env sv rng) (\<lambda>_.
     bindJ (validate_bucket_params rng bucket_size) (\<lambda>_.
     bindJ (get_range_balance_rows sv script_hash rng) (\<lambda>rows.
     bindJ (get_balance_before_range sv script_hash (fst rng)) (\<lambda>start_balance.
     Inr (timeseries_loop bucket_size (snd rng) (fst rng) (hd_balance start_balance) rows)))))"

definition get_address_flow_buckets ::
  "service_env \<Rightarrow> BalanceHistoryRpcServer \<Rightarrow> USDBScriptHash \<Rightarrow> u32_range \<Rightarrow> u32 \<Rightarrow> AddressFlowBucket list JsonResult" where
  "get_address_flow_buckets env sv script_hash rng bucket_size =
     bindJ (validate_aggregate_range env sv rng) (\<lambda>_.
     bindJ (validate_bucket_params rng bucket_size) (\<lambda>_.
     bindJ (get_range_balance_rows sv script_hash rng) (\<lambda>rows.
     Inr (flow_loop bucket_size (snd rng) (fst rng) rows))))"

section \<open>Outputs and scripts\<close>

record UtxoInfo =
  ui_txid :: string
  ui_vout :: u32
  ui_script_hash :: string
  ui_value :: u64

record ScriptHashResolution =
  sx_script_hash :: string
  sx_found :: bool
  sx_script_pubkey :: "string option"
  sx_address :: "string option"
  sx_address_type :: "string option"
  sx_standard :: bool

record ScriptHashResolutionResponse =
  sp_network :: string
  sp_items :: "ScriptHashResolution list"

definition get_live_utxo :: "service_env \<Rightarrow> BalanceHistoryRpcServer \<Rightarrow> OutPoint \<Rightarrow> UtxoInfo option JsonResult" where
  "get_live_utxo env sv outpoint =
     bindJ (internal ''Failed to get utxo'' (Balance_Db.get_utxo outpoint (rs_db sv))) (\<lambda>utxo.
     Inr (map_option (\<lambda>entry. \<lparr>ui_txid = sv_txid_text env (op_txid outpoint), ui_vout = op_vout outpoint,
       ui_script_hash = sv_script_hash_hex env (uv_script_hash entry), ui_value = uv_value entry\<rparr>) utxo))"

definition classify_script :: "service_env \<Rightarrow> ScriptBuf \<Rightarrow> string" where
  "classify_script env script =
     (if sv_is_p2tr env script then ''p2tr''
      else if sv_is_p2wpkh env script then ''p2wpkh''
      else if sv_is_p2wsh env script then ''p2wsh''
      else if sv_is_p2sh env script then ''p2sh''
      else if sv_is_p2pkh env script then ''p2pkh''
      else if sv_is_op_return env script then ''op_return''
      else ''non_standard'')"

definition validate_script_resolution_params :: "USDBScriptHash list \<Rightarrow> unit JsonResult" where
  "validate_script_resolution_params script_hashes =
     (if MAX_SCRIPT_RESOLUTION_ITEMS < length script_hashes
      then Inl (Json (to_invalid_params ''script_hashes length exceeds maximum'')) else Inr ())"

definition resolve_script :: "service_env \<Rightarrow> string \<Rightarrow> bool \<Rightarrow> USDBScriptHash \<Rightarrow> ScriptBuf option \<Rightarrow> ScriptHashResolution" where
  "resolve_script env network include_script_pubkey script_hash entry =
     (case entry of
        None \<Rightarrow> \<lparr>sx_script_hash = sv_script_hash_hex env script_hash, sx_found = False, sx_script_pubkey = None,
          sx_address = None, sx_address_type = None, sx_standard = False\<rparr>
      | Some script_pubkey \<Rightarrow>
          let address = sv_address_of_script env network script_pubkey in
          \<lparr>sx_script_hash = sv_script_hash_hex env script_hash, sx_found = True,
           sx_script_pubkey = (if include_script_pubkey then Some (encode_hex script_pubkey) else None),
           sx_address = address, sx_address_type = Some (classify_script env script_pubkey), sx_standard = (address \<noteq> None)\<rparr>)"

definition resolve_script_hashes ::
  "service_env \<Rightarrow> BalanceHistoryRpcServer \<Rightarrow> USDBScriptHash list \<Rightarrow> bool option \<Rightarrow> ScriptHashResolutionResponse JsonResult" where
  "resolve_script_hashes env sv script_hashes include_script_pubkey =
     bindJ (validate_script_resolution_params script_hashes) (\<lambda>_.
     let include_key = (case include_script_pubkey of Some b \<Rightarrow> b | None \<Rightarrow> False);
         entries = get_script_registry_entries script_hashes (rs_db sv) in
     Inr \<lparr>sp_network = rs_network sv,
       sp_items = map (\<lambda>(sh, e). resolve_script env (rs_network sv) include_key sh e) (zip script_hashes entries)\<rparr>)"

section \<open>Shutdown\<close>

definition stop :: "BalanceHistoryRpcServer \<Rightarrow> unit JsonResult \<times> BalanceHistoryRpcServer" where
  "stop sv =
     (let sv1 = sv\<lparr>rs_status := set_shutdown_requested True (rs_status sv)\<rparr> in
      if \<not> rs_shutdown_receivers sv then (Inl (Json (to_internal_error ''Failed to send shutdown signal'')), sv1)
      else (Inr (), sv1\<lparr>rs_server_handle := False\<rparr>))"

definition close :: "BalanceHistoryRpcServer \<Rightarrow> BalanceHistoryRpcServer" where
  "close sv =
     (if rs_server_handle sv then sv\<lparr>rs_server_handle := False, rs_status := set_rpc_alive False (rs_status sv)\<rparr> else sv)"

end
