(* ===== verification/Balance_Store.thy ===== *)
theory Balance_Store
  imports Balance_Undo
begin

text \<open>
  What the balance-history database holds: the effect of a write batch on a single row, the type of the rows
  of each column family, the decoding of every stored value, and the exact answers of the balance queries.
\<close>

section \<open>Codecs\<close>

lemma be_word_be [simp]:
  "be_word (u32_be a) = a" "be_word (u64_be b) = b" "be_word (u16_be c) = c"
proof -
  show "be_word (u32_be a) = a" "be_word (u64_be b) = b" by (simp_all add: be_word_def)
  show "be_word (u16_be c) = c"
    using be_decode_encode [of "unat c" 2] unat_less_2p [of c] by (simp add: be_word_def u16_be_def)
qed

lemma be_word_bytes: "length bs = 4 \<Longrightarrow> u32_be (be_word bs) = bs" "length bs = 8 \<Longrightarrow> u64_be (be_word bs) = bs"
  by (simp_all add: be_word_def u32_be_decode u64_be_decode)

lemma length_u16_be [simp]: "length (u16_be w) = 2"
  by (simp add: u16_be_def)

lemma length_keys [simp]:
  "length (make_balance_history_key sh h) = 36" "length (make_utxo_key p) = 36" "length (make_block_undo_utxo_key h n) = 8"
  "length (make_block_undo_balance_index_key h sh) = 36" "length (make_block_commit_key h) = 4" "length (make_block_undo_meta_key h) = 4"
  by (simp_all add: make_balance_history_key_def make_utxo_key_def OutPointCodec_encode_def make_block_undo_utxo_key_def
      make_block_undo_balance_index_key_def make_block_commit_key_def make_block_undo_meta_key_def)

lemma length_values [simp]:
  "length (balance_value d b) = 16" "length (UTXOValue_encode sh v) = 40" "length (serialize_block_undo_meta_value m) = 46"
  "length (serialize_block_undo_utxo_value u) = 76" "length (serialize_block_commit_value c) = 96"
  by (simp_all add: balance_value_def UTXOValue_encode_def serialize_block_undo_meta_value_def
      serialize_block_undo_utxo_value_def serialize_block_commit_value_def)

lemma keys_inj [simp]:
  "make_balance_history_key a h = make_balance_history_key b k \<longleftrightarrow> a = b \<and> h = k"
  "make_block_undo_utxo_key h n = make_block_undo_utxo_key k m \<longleftrightarrow> h = k \<and> n = m"
  "make_block_undo_balance_index_key h a = make_block_undo_balance_index_key k b \<longleftrightarrow> h = k \<and> a = b"
  "make_block_commit_key h = make_block_commit_key k \<longleftrightarrow> h = k" "make_block_undo_meta_key h = make_block_undo_meta_key k \<longleftrightarrow> h = k"
  by (simp_all add: make_balance_history_key_def make_block_undo_utxo_key_def
      make_block_undo_balance_index_key_def make_block_commit_key_def make_block_undo_meta_key_def)

lemma utxo_key_inj [simp]: "make_utxo_key p = make_utxo_key q \<longleftrightarrow> p = q"
  unfolding make_utxo_key_def using OutPointCodec_decode_encode by (metis Inr_inject)

lemma balance_key_less [simp]:
  "make_balance_history_key a h < make_balance_history_key b k \<longleftrightarrow> a < b \<or> a = b \<and> h < k"
  "make_balance_history_key a h \<le> make_balance_history_key b k \<longleftrightarrow> a < b \<or> a = b \<and> h \<le> k"
proof -
  show 1: "make_balance_history_key a h < make_balance_history_key b k \<longleftrightarrow> a < b \<or> a = b \<and> h < k" for a b h k
    by (simp add: make_balance_history_key_def append_lex_less)
  show "make_balance_history_key a h \<le> make_balance_history_key b k \<longleftrightarrow> a < b \<or> a = b \<and> h \<le> k"
    using 1 [of b k a h] by (auto simp: not_less [symmetric] simp del: 1)
qed

text \<open>A key of the right length is the key of what it spells.\<close>

lemma balance_key_spelled:
  assumes "length k = 36"
  obtains sh h where "k = make_balance_history_key sh h"
proof
  show "k = make_balance_history_key (hash_of_bytes (take 32 k)) (be_word (drop 32 k))"
    using assms by (simp add: make_balance_history_key_def hash_bytes_of_bytes be_word_bytes)
qed

lemma balance_key_parts [simp]:
  "take 32 (make_balance_history_key sh h) = hash_bytes sh" "take 4 (drop 32 (make_balance_history_key sh h)) = u32_be h"
  by (simp_all add: make_balance_history_key_def)

lemma parse_balance_key [simp]: "parse_block_height_from_key (make_balance_history_key sh h) = Inr h"
  by (simp add: parse_block_height_from_key_def)

lemma parse_balance_value [simp]: "parse_balance_from_value (balance_value d b) = Inr (d, b)"
  by (simp add: parse_balance_from_value_def) (simp add: balance_value_def)

lemma parse_utxo_value [simp]:
  "parse_utxo_from_value (UTXOValue_encode sh v) = Inr \<lparr>uv_script_hash = sh, uv_value = v\<rparr>"
  using UTXOValue_from_to [of "\<lparr>uv_script_hash = sh, uv_value = v\<rparr>"] by (simp add: parse_utxo_from_value_def UTXOValue_to_vec_def)

lemma parse_undo_utxo_value [simp]: "parse_block_undo_utxo_value (serialize_block_undo_utxo_value u) = Inr u"
proof -
  have "take 36 (serialize_block_undo_utxo_value u) = OutPointCodec_encode (uu_outpoint u)"
    "take 32 (drop 36 (serialize_block_undo_utxo_value u)) = hash_bytes (uu_script_hash u)"
    "drop 68 (serialize_block_undo_utxo_value u) = u64_be (uu_value u)"
    by (simp_all add: serialize_block_undo_utxo_value_def make_utxo_key_def OutPointCodec_encode_def)
  then show ?thesis by (simp add: parse_block_undo_utxo_value_def OutPointCodec_decode_encode)
qed

lemma parse_commit_value [simp]:
  "parse_block_commit_value (ce_block_height c) (serialize_block_commit_value c) = Inr c"
  by (simp add: parse_block_commit_value_def) (simp add: serialize_block_commit_value_def)

lemma parse_undo_meta_value [simp]:
  "parse_block_undo_meta_value (um_block_height m) (serialize_block_undo_meta_value m) = Inr m"
  by (simp add: parse_block_undo_meta_value_def) (simp add: serialize_block_undo_meta_value_def)

section \<open>Write batches\<close>

definition rows_sorted :: "BalanceHistoryDB \<Rightarrow> bool" where
  "rows_sorted db \<longleftrightarrow> (\<forall>c. cf_ok (db c))"

fun op_effect :: "WriteOp \<Rightarrow> ColumnFamily \<Rightarrow> u8 list \<Rightarrow> u8 list option option" where
  "op_effect (PutCf c' k' v) c k = (if c = c' \<and> k = k' then Some (Some v) else None)"
| "op_effect (DeleteCf c' k') c k = (if c = c' \<and> k = k' then Some None else None)"

text \<open>The last write of a batch to a row decides.\<close>

fun effect :: "WriteBatch \<Rightarrow> ColumnFamily \<Rightarrow> u8 list \<Rightarrow> u8 list option option" where
  "effect [] c k = None"
| "effect (x # xs) c k = (case effect xs c k of None \<Rightarrow> op_effect x c k | Some r \<Rightarrow> Some r)"

lemma effect_append [simp]: "effect (xs @ ys) c k = (case effect ys c k of None \<Rightarrow> effect xs c k | Some r \<Rightarrow> Some r)"
  by (induction xs) (auto split: option.splits)

lemma write_op_sorted: "rows_sorted db \<Longrightarrow> rows_sorted (write_op x db)"
  by (cases x) (simp_all add: write_op.simps rows_sorted_def cf_ok_put cf_ok_delete)

lemma write_batch_sorted: "rows_sorted db \<Longrightarrow> rows_sorted (write_batch b db)"
  unfolding write_batch_def by (induction b arbitrary: db) (simp_all add: write_op_sorted)

lemma get_write_op:
  "rows_sorted db \<Longrightarrow> get_cf c k (write_op x db) = (case op_effect x c k of None \<Rightarrow> get_cf c k db | Some r \<Rightarrow> r)"
  by (cases x) (auto simp: write_op.simps get_cf_def rows_sorted_def cf_get_put cf_get_delete)

lemma get_write_batch:
  "rows_sorted db \<Longrightarrow> get_cf c k (write_batch b db) = (case effect b c k of None \<Rightarrow> get_cf c k db | Some r \<Rightarrow> r)"
proof (induction b arbitrary: db)
  case (Cons x b)
  then have "get_cf c k (write_batch b (write_op x db)) =
      (case effect b c k of None \<Rightarrow> get_cf c k (write_op x db) | Some r \<Rightarrow> r)" by (simp add: write_op_sorted)
  then show ?case using Cons.prems by (simp add: write_batch_def get_write_op split: option.splits)
qed (simp add: write_batch_def)

lemma effect_None: "(\<And>x. x \<in> set xs \<Longrightarrow> op_effect x c k = None) \<Longrightarrow> effect xs c k = None"
  by (induction xs) auto

lemma effect_puts:
  "effect (map (\<lambda>x. PutCf c (key x) (val x)) xs) c' k =
     (if c' = c then map_option Some (map_of (rev (map (\<lambda>x. (key x, val x)) xs)) k) else None)"
  by (induction xs) (auto simp: map_add_def split: option.splits)

lemma effect_deletes:
  "effect (map (\<lambda>x. DeleteCf c (key x)) xs) c' k = (if c' = c \<and> k \<in> key ` set xs then Some None else None)"
  by (induction xs) auto

section \<open>Typed rows\<close>

text \<open>The lengths of keys and values of each column family, which the parsers check or assume.\<close>

fun row_typed :: "ColumnFamily \<Rightarrow> u8 list \<Rightarrow> u8 list \<Rightarrow> bool" where
  "row_typed BALANCE_HISTORY_CF k v \<longleftrightarrow> length k = 36 \<and> length v = 16"
| "row_typed META_CF k v \<longleftrightarrow> length v = 4"
| "row_typed UTXO_CF k v \<longleftrightarrow> length k = 36 \<and> length v = 40"
| "row_typed SCRIPT_REGISTRY_CF k v \<longleftrightarrow> length k = 32"
| "row_typed BLOCKS_CF k v \<longleftrightarrow> length k = 32 \<and> length v = 16"
| "row_typed BLOCK_HEIGHTS_CF k v \<longleftrightarrow> length k = 4 \<and> length v = 32"
| "row_typed BLOCK_COMMITS_CF k v \<longleftrightarrow> length k = 4 \<and> length v = 96"
| "row_typed BLOCK_UNDO_META_CF k v \<longleftrightarrow> length k = 4 \<and> length v = 46"
| "row_typed BLOCK_UNDO_CREATED_UTXOS_CF k v \<longleftrightarrow> length k = 8 \<and> length v = 76"
| "row_typed BLOCK_UNDO_SPENT_UTXOS_CF k v \<longleftrightarrow> length k = 8 \<and> length v = 76"
| "row_typed BLOCK_UNDO_BALANCE_INDEX_CF k v \<longleftrightarrow> length k = 36"

definition db_typed :: "BalanceHistoryDB \<Rightarrow> bool" where
  "db_typed db \<longleftrightarrow> rows_sorted db \<and> (\<forall>c k v. get_cf c k db = Some v \<longrightarrow> row_typed c k v)"

fun op_typed :: "WriteOp \<Rightarrow> bool" where
  "op_typed (PutCf c k v) = row_typed c k v"
| "op_typed (DeleteCf c k) = True"

lemma db_typed_write_op:
  assumes "db_typed db" and "op_typed x"
  shows "db_typed (write_op x db)"
  using assms by (cases x) (auto simp: db_typed_def get_write_op write_op_sorted split: if_splits option.splits)

lemma db_typed_write_batch: "db_typed db \<Longrightarrow> \<forall>x \<in> set b. op_typed x \<Longrightarrow> db_typed (write_batch b db)"
  unfolding write_batch_def by (induction b arbitrary: db) (simp_all add: db_typed_write_op)

lemma op_typed_ops [simp]:
  "op_typed (balance_entry_op e)" "op_typed (block_commit_op c)" "op_typed (btc_height_op h)" "op_typed (utxo_put_op u)"
  "op_typed (utxo_delete_op p)"
  by (simp_all add: balance_entry_op_def block_commit_op_def btc_height_op_def utxo_put_op_def utxo_delete_op_def split: prod.splits)

lemma op_typed_registry: "x \<in> set (append_script_registry_entries_to_batch es) \<Longrightarrow> op_typed x"
  by (auto simp: append_script_registry_entries_to_batch_def)

lemma op_typed_undo: "x \<in> set (append_block_undo_bundles_to_batch bs) \<Longrightarrow> op_typed x"
  by (auto simp: append_block_undo_bundles_to_batch_def undo_bundle_ops_def undo_utxo_ops_def)

lemma op_typed_boundary: "undo_boundary_ops bs db = Inr b \<Longrightarrow> x \<in> set b \<Longrightarrow> op_typed x"
  by (auto simp: undo_boundary_ops_def Let_def split: if_splits sum.splits)

lemma keeps_typed_put_u32 [keeps_intro]: "keeps db_typed (put_u32_meta key v)"
  by (simp add: keeps_def put_u32_meta_def db_typed_write_op)

lemma keeps_typed_delete_meta [keeps_intro]: "keeps db_typed (delete_meta_key key)"
  by (simp add: keeps_def delete_meta_key_def db_typed_write_op)

lemma keeps_typed_clear [keeps_intro]: "keeps db_typed clear_rollback_state"
  unfolding clear_rollback_state_def by (intro keeps_intro)

lemma keeps_typed_update: "keeps db_typed (update_block_state_batch_async u)"
proof (rule keepsI)
  fix db assume ty: "db_typed db"
  show "db_typed (snd (update_block_state_batch_async u db))"
  proof (cases "undo_boundary_ops (su_undo_bundles u) db")
    case (Inr b)
    then show ?thesis using ty
      by (auto simp: update_block_state_batch_async_def intro!: db_typed_write_batch
          dest: op_typed_registry op_typed_undo op_typed_boundary [OF Inr])
  qed (simp add: update_block_state_batch_async_def ty)
qed

lemma keeps_typed_puts: "keeps db_typed (put_utxos us)"
  unfolding put_utxos_def by (rule keepsI) (auto intro!: db_typed_write_batch)

lemma keeps_typed_registry: "keeps db_typed (put_script_registry_entries es)"
  unfolding put_script_registry_entries_def by (rule keepsI) (auto intro!: db_typed_write_batch dest: op_typed_registry)

text \<open>The batches of a rollback hold typed operations, whatever the journal holds.\<close>

lemma op_typed_delete_bundle:
  "append_delete_block_undo_bundle_to_batch h db = Inr b \<Longrightarrow> x \<in> set b \<Longrightarrow> op_typed x"
  by (auto simp: append_delete_block_undo_bundle_to_batch_def split: sum.splits)

lemma op_typed_rollback: "x \<in> set (rollback_ops ub h) \<Longrightarrow> op_typed x"
  by (auto simp: rollback_ops_def)

text \<open>A batch computed from the database, and what follows it.\<close>

lemma keeps_typed_batch:
  assumes "\<And>db b x. f db = Inr b \<Longrightarrow> x \<in> set (g b) \<Longrightarrow> op_typed x"
  shows "keeps db_typed (bindR (getsR f) (\<lambda>b. modify (write_batch (g b))))"
    and "(\<And>b. keeps db_typed (m b)) \<Longrightarrow> keeps db_typed (bindR (getsR f) (\<lambda>b. bindR (modify (write_batch (g b))) (\<lambda>_. m b)))"
proof -
  have w: "db_typed (write_batch (g b) db)" if "db_typed db" "f db = Inr b" for db b
    using that(1) by (rule db_typed_write_batch) (use assms that(2) in blast)
  show "keeps db_typed (bindR (getsR f) (\<lambda>b. modify (write_batch (g b))))"
    using w by (auto simp: keeps_def bindR_def split: sum.splits)
  show "keeps db_typed (bindR (getsR f) (\<lambda>b. bindR (modify (write_batch (g b))) (\<lambda>_. m b)))"
    if "\<And>b. keeps db_typed (m b)" using w that by (auto simp: keeps_def bindR_def split: sum.splits)
qed

lemma keeps_typed_rollback_one [keeps_intro]: "keeps db_typed (rollback_one_block h)"
  unfolding rollback_one_block_def
  by (rule keeps_bindR [OF keeps_getsR], rule keeps_bindR [OF keeps_guardR], rule keeps_bindR [OF keeps_getsR],
      rule keeps_option_case [OF keeps_fail], rule keeps_typed_batch(1))
    (auto dest: op_typed_rollback op_typed_delete_bundle)

lemma keeps_typed_loop [keeps_intro]: "keeps db_typed (rollback_loop t n)"
  by (induction t n rule: rollback_loop.induct) (subst rollback_loop.simps, auto intro!: keeps_intro)

lemma keeps_typed_rollback:
  "keeps db_typed (rollback_to_block_height t)" "keeps db_typed resume_rollback_if_needed"
  unfolding rollback_to_block_height_def resume_rollback_if_needed_def by (intro keeps_intro)+

lemma op_typed_delete_bundles:
  "mapR (\<lambda>h. append_delete_block_undo_bundle_to_batch h db) hs = Inr bs \<Longrightarrow> b \<in> set bs \<Longrightarrow> x \<in> set b \<Longrightarrow> op_typed x"
  by (induction hs arbitrary: bs) (fastforce split: sum.splits dest: op_typed_delete_bundle)+

lemma keeps_typed_prune: "keeps db_typed (prune_undo_before_height m)"
proof -
  have "keeps db_typed (bindR (getsR (\<lambda>db. mapR (\<lambda>h. append_delete_block_undo_bundle_to_batch h db) hs)) (\<lambda>batches.
      bindR (modify (write_batch (concat batches @ [PutCf META_CF (str_bytes key) (u32_be e)]))) (\<lambda>_. ret n)))" for hs key e n
    by (rule keeps_typed_batch(2)) (auto dest: op_typed_delete_bundles intro: keeps_ret)
  note last = this
  have put: "keeps db_typed (bindR (put_undo_retained_from_height e) (\<lambda>_. ret n))" for e n
    unfolding put_undo_retained_from_height_def by (intro keeps_intro)
  show ?thesis
    unfolding prune_undo_before_height_def Let_def
    by (rule keeps_bindR [OF keeps_getsR], rule keeps_if [OF keeps_ret], rule keeps_bindR [OF keeps_getsR],
        rule keeps_option_case [OF keeps_ret], rule keeps_bindR [OF keeps_getsR], rule keeps_if [OF keeps_ret],
        rule keeps_bindR [OF keeps_getsR], rule keeps_if [OF put last])
qed

section \<open>Balance queries\<close>

text \<open>The content of the balance column family: the delta and balance of an address at a height.\<close>

definition balance_record :: "USDBScriptHash \<Rightarrow> u32 \<Rightarrow> BalanceHistoryDB \<Rightarrow> (i64 \<times> u64) option" where
  "balance_record sh h db =
     map_option (\<lambda>v. (be_word (take 8 v), be_word (drop 8 v))) (get_cf BALANCE_HISTORY_CF (make_balance_history_key sh h) db)"

lemma typed_row: "db_typed db \<Longrightarrow> (k, v) \<in> set (db c) \<Longrightarrow> row_typed c k v"
  by (simp add: db_typed_def rows_sorted_def get_cf_def cf_get_Some_iff)

lemma typed_cf_ok: "db_typed db \<Longrightarrow> cf_ok (db c)"
  by (simp add: db_typed_def rows_sorted_def)

lemma balance_row_parse:
  assumes "length v = 16"
  shows "balance_of_row (make_balance_history_key sh h) v =
    Inr \<lparr>hd_block_height = h, hd_delta = be_word (take 8 v), hd_balance = be_word (drop 8 v)\<rparr>"
  using assms by (simp add: balance_of_row_def parse_balance_from_value_def)

lemma balance_rows:
  assumes "db_typed db" and "(k, v) \<in> set (db BALANCE_HISTORY_CF)"
  obtains sh h where "k = make_balance_history_key sh h" and "length v = 16"
    and "balance_record sh h db = Some (be_word (take 8 v), be_word (drop 8 v))"
proof -
  have ty: "length k = 36" "length v = 16" using typed_row [OF assms] by simp_all
  obtain sh h where k: "k = make_balance_history_key sh h" using ty(1) by (rule balance_key_spelled)
  have "get_cf BALANCE_HISTORY_CF k db = Some v"
    using assms(2) typed_cf_ok [OF assms(1)] by (simp add: get_cf_def cf_get_Some_iff)
  then have "balance_record sh h db = Some (be_word (take 8 v), be_word (drop 8 v))" by (simp add: balance_record_def k)
  then show thesis using k ty(2) that by blast
qed

lemma reverse_greatest:
  assumes "cf_ok rs" and "iter_from_reverse k rs = (q, v) # rest"
  shows "q \<le> k" and "(q, v) \<in> set rs" and "\<And>q' v'. (q', v') \<in> set rs \<Longrightarrow> q' \<le> k \<Longrightarrow> q' \<le> q"
proof -
  have "find (\<lambda>_. True) (iter_from_reverse k rs) = Some (q, v)" using assms(2) by simp
  from cf.reverse_find_greatest [OF assms(1) this] show "q \<le> k" "(q, v) \<in> set rs"
    "\<And>q' v'. (q', v') \<in> set rs \<Longrightarrow> q' \<le> k \<Longrightarrow> q' \<le> q"
    using assms(1) by (auto simp: cf_get_Some_iff)
qed

lemma record_row:
  "db_typed db \<Longrightarrow> balance_record sh h db = Some x \<Longrightarrow> \<exists>v. (make_balance_history_key sh h, v) \<in> set (db BALANCE_HISTORY_CF)"
  using typed_cf_ok by (auto simp: balance_record_def get_cf_def cf_get_Some_iff)

definition last_balance :: "USDBScriptHash \<Rightarrow> u32 \<Rightarrow> BalanceHistoryDB \<Rightarrow> BalanceHistoryData \<Rightarrow> bool" where
  "last_balance sh t db e \<longleftrightarrow>
     (e = no_balance \<and> (\<forall>h \<le> t. balance_record sh h db = None)) \<or>
     (hd_block_height e \<le> t \<and> balance_record sh (hd_block_height e) db = Some (hd_delta e, hd_balance e) \<and>
      (\<forall>h. hd_block_height e < h \<and> h \<le> t \<longrightarrow> balance_record sh h db = None))"

lemma last_balance_unique:
  assumes "last_balance sh t db e" and "last_balance sh t db e'"
  shows "e = e'"
proof -
  have "hd_block_height e = hd_block_height e'"
    if "hd_block_height e \<le> t" "balance_record sh (hd_block_height e) db = Some x" "hd_block_height e' \<le> t"
      "balance_record sh (hd_block_height e') db = Some x'" "\<forall>h. hd_block_height e < h \<and> h \<le> t \<longrightarrow> balance_record sh h db = None"
      "\<forall>h. hd_block_height e' < h \<and> h \<le> t \<longrightarrow> balance_record sh h db = None" for x x'
    using that by (metis linorder_neqE option.distinct(1))
  then show ?thesis using assms by (auto simp: last_balance_def)
qed

text \<open>The first row of the reverse scan from a key of an address is the last record of that address, if it has one.\<close>

lemma reverse_scan_address:
  assumes ty: "db_typed db"
  shows "case iter_from_reverse (make_balance_history_key sh t) (db BALANCE_HISTORY_CF) of
      [] \<Rightarrow> \<forall>h \<le> t. balance_record sh h db = None
    | (k, v) # _ \<Rightarrow> length k = 36 \<and>
        (if take 32 k = hash_bytes sh
         then \<exists>e. balance_of_row k v = Inr e \<and> hd_block_height e \<le> t \<and> last_balance sh t db e
         else \<forall>h \<le> t. balance_record sh h db = None)"
proof (cases "iter_from_reverse (make_balance_history_key sh t) (db BALANCE_HISTORY_CF)")
  case Nil
  have "balance_record sh h db = None" if "h \<le> t" for h
  proof (rule ccontr)
    assume "balance_record sh h db \<noteq> None"
    then obtain v where "(make_balance_history_key sh h, v) \<in> set (db BALANCE_HISTORY_CF)" using record_row [OF ty] by blast
    then have "(make_balance_history_key sh h, v) \<in> set (iter_from_reverse (make_balance_history_key sh t) (db BALANCE_HISTORY_CF))"
      using that by (simp add: iter_from_reverse_def)
    with Nil show False by simp
  qed
  with Nil show ?thesis by simp
next
  case (Cons kv rest)
  obtain k v where kv: "kv = (k, v)" by (cases kv)
  note g = reverse_greatest [OF typed_cf_ok [OF ty] Cons [unfolded kv]]
  obtain sh' h' where k: "k = make_balance_history_key sh' h'" "length v = 16"
    "balance_record sh' h' db = Some (be_word (take 8 v), be_word (drop 8 v))" by (rule balance_rows [OF ty g(2)]) (rule that)
  have le: "sh' < sh \<or> sh' = sh \<and> h' \<le> t" using g(1) by (simp add: k)
  have up: "sh < sh' \<or> sh = sh' \<and> h \<le> h'" if "h \<le> t" "balance_record sh h db = Some x" for h x
  proof -
    from record_row [OF ty that(2)] obtain w where "(make_balance_history_key sh h, w) \<in> set (db BALANCE_HISTORY_CF)" by blast
    from g(3) [OF this] that(1) show ?thesis by (simp add: k)
  qed
  show ?thesis
  proof (cases "sh' = sh")
    case True
    let ?e = "\<lparr>hd_block_height = h', hd_delta = be_word (take 8 v), hd_balance = be_word (drop 8 v)\<rparr>"
    have "balance_record sh h db = None" if "h' < h" "h \<le> t" for h
      using up [OF that(2)] that(1) True by (cases "balance_record sh h db") auto
    then have "last_balance sh t db ?e" using le True k(3) by (auto simp: last_balance_def)
    then show ?thesis using Cons kv k True le by (simp add: balance_row_parse)
  next
    case False
    have "balance_record sh h db = None" if "h \<le> t" for h
      using up [OF that] le False by (cases "balance_record sh h db") auto
    then show ?thesis using Cons kv k False by simp
  qed
qed

lemma balance_at_height_last:
  assumes ty: "db_typed db"
  shows "\<exists>e. get_balance_at_block_height sh t db = Inr e \<and> last_balance sh t db e"
proof -
  let ?it = "iter_from_reverse (make_balance_history_key sh t) (db BALANCE_HISTORY_CF)"
  have none: "last_balance sh t db no_balance" if "\<forall>h \<le> t. balance_record sh h db = None"
    using that by (simp add: last_balance_def)
  show ?thesis
  proof (cases ?it)
    case Nil
    then show ?thesis using reverse_scan_address [OF ty, where sh = sh and t = t] none
      by (simp add: get_balance_at_block_height_def same_prefix_def)
  next
    case (Cons kv rest)
    obtain k v where kv: "kv = (k, v)" by (cases kv)
    note sc = reverse_scan_address [OF ty, where sh = sh and t = t, unfolded Cons kv, simplified]
    show ?thesis
    proof (cases "take 32 k = hash_bytes sh")
      case True
      then obtain e where "balance_of_row k v = Inr e" "hd_block_height e \<le> t" "last_balance sh t db e" using sc by auto
      then show ?thesis using Cons kv True sc by (simp add: get_balance_at_block_height_def same_prefix_def)
    next
      case False
      then show ?thesis using Cons kv sc none by (simp add: get_balance_at_block_height_def same_prefix_def)
    qed
  qed
qed

lemma latest_balance_last:
  assumes ty: "db_typed db"
  shows "\<exists>e. get_latest_balance sh db = Inr e \<and> last_balance sh (- 1) db e"
proof -
  let ?it = "iter_from_reverse (make_balance_history_key sh (- 1)) (db BALANCE_HISTORY_CF)"
  have none: "last_balance sh (- 1) db no_balance" if "\<forall>h \<le> - 1. balance_record sh h db = None"
    using that unfolding last_balance_def by blast
  show ?thesis
  proof (cases ?it)
    case Nil
    then show ?thesis using reverse_scan_address [OF ty, where sh = sh and t = "- 1"] none by (simp add: get_latest_balance_def)
  next
    case (Cons kv rest)
    obtain k v where kv: "kv = (k, v)" by (cases kv)
    note sc = reverse_scan_address [OF ty, where sh = sh and t = "- 1", unfolded Cons kv list.case prod.case]
    show ?thesis
    proof (cases "take 32 k = hash_bytes sh")
      case True
      with sc obtain e where "balance_of_row k v = Inr e" "last_balance sh (- 1) db e" by auto
      then show ?thesis using Cons kv True sc by (simp add: get_latest_balance_def)
    next
      case False
      then have "last_balance sh (- 1) db no_balance" using sc by (intro none) simp
      then show ?thesis using Cons kv sc False by (simp add: get_latest_balance_def)
    qed
  qed
qed

subsection \<open>Ranges\<close>

lemma takeWhile_eq_filter: "sorted_wrt (\<lambda>x y. P y \<longrightarrow> P x) xs \<Longrightarrow> takeWhile P xs = filter P xs"
  by (induction xs) (auto simp: filter_empty_conv)

lemma sorted_wrt_mono_in: "sorted_wrt R xs \<Longrightarrow> (\<And>x y. x \<in> set xs \<Longrightarrow> y \<in> set xs \<Longrightarrow> R x y \<Longrightarrow> S x y) \<Longrightarrow> sorted_wrt S xs"
  by (rule sorted_wrt_mono_rel)

definition row_height :: "u8 list \<Rightarrow> u32" where
  "row_height k = be_word (take 4 (drop 32 k))"

definition row_data :: "u8 list \<times> u8 list \<Rightarrow> BalanceHistoryData" where
  "row_data r = \<lparr>hd_block_height = row_height (fst r), hd_delta = be_word (take 8 (snd r)), hd_balance = be_word (drop 8 (snd r))\<rparr>"

lemma row_height_key [simp]: "row_height (make_balance_history_key sh h) = h"
  by (simp add: row_height_def)

lemma range_loop_rows:
  assumes "\<And>k v. (k, v) \<in> set rows \<Longrightarrow> length k = 36 \<and> length v = 16 \<and> take 32 k = hash_bytes sh"
  shows "balance_range_loop sh b rows = Inr (map row_data (takeWhile (\<lambda>r. row_height (fst r) < b) rows))"
  using assms
proof (induction rows)
  case (Cons r rows)
  obtain k v where r: "r = (k, v)" by (cases r)
  have kv: "length k = 36" "length v = 16" "take 32 k = hash_bytes sh" using Cons.prems r by auto
  have "balance_of_row k v = Inr (row_data r)"
    using kv by (simp add: balance_of_row_def parse_block_height_from_key_def parse_balance_from_value_def row_data_def r row_height_def)
  moreover have "balance_range_loop sh b rows = Inr (map row_data (takeWhile (\<lambda>r. row_height (fst r) < b) rows))"
    by (rule Cons.IH) (use Cons.prems in auto)
  moreover have "parse_block_height_from_key k = Inr (row_height k)"
    using kv by (simp add: parse_block_height_from_key_def row_height_def)
  ultimately show ?case using kv by (cases "row_height k < b") (simp_all add: r not_less not_le)
qed simp

lemma range_rows:
  assumes ty: "db_typed db" and ab: "a < b"
  shows "get_balance_in_range sh a b db = Inr (map row_data (filter (\<lambda>r. take 32 (fst r) = hash_bytes sh \<and>
    a \<le> row_height (fst r) \<and> row_height (fst r) < b) (db BALANCE_HISTORY_CF)))"
proof -
  let ?rows = "db BALANCE_HISTORY_CF" and ?s = "make_balance_history_key sh a"
  let ?fw = "iter_from_forward ?s ?rows" and ?p = "\<lambda>r :: u8 list \<times> u8 list. take 32 (fst r) = hash_bytes sh"
  have srt: "sorted_wrt (\<lambda>x y. fst x < fst y) ?rows" using typed_cf_ok [OF ty] by (simp add: sorted_wrt_map)
  have spell: "\<exists>sh' h. fst r = make_balance_history_key sh' h" if "r \<in> set ?rows" for r
  proof -
    have "length (fst r) = 36" using typed_row [OF ty, of "fst r" "snd r" BALANCE_HISTORY_CF] that by simp
    then show ?thesis by (rule balance_key_spelled) blast
  qed
  have "sorted_wrt (\<lambda>x y. ?p y \<longrightarrow> ?p x) ?fw"
  proof (rule sorted_wrt_mono_in)
    show "sorted_wrt (\<lambda>x y. fst x < fst y) ?fw" unfolding iter_from_forward_def by (rule sorted_wrt_filter [OF srt])
    fix x y assume xy: "x \<in> set ?fw" "y \<in> set ?fw" "fst x < fst y"
    then obtain s1 h1 s2 h2 where k: "fst x = make_balance_history_key s1 h1" "fst y = make_balance_history_key s2 h2"
      using spell [of x] spell [of y] by (auto simp: iter_from_forward_def)
    have "?s \<le> fst x" using xy(1) by (simp add: iter_from_forward_def)
    then show "?p y \<longrightarrow> ?p x" using xy(3) by (auto simp: k)
  qed
  then have sp: "same_prefix 32 ?s ?fw = filter ?p ?fw" by (simp add: same_prefix_def takeWhile_eq_filter)
  have "sorted_wrt (\<lambda>x y. row_height (fst y) < b \<longrightarrow> row_height (fst x) < b) (filter ?p ?fw)"
  proof (rule sorted_wrt_mono_in)
    show "sorted_wrt (\<lambda>x y. fst x < fst y) (filter ?p ?fw)" unfolding iter_from_forward_def by (intro sorted_wrt_filter srt)
    fix x y assume xy: "x \<in> set (filter ?p ?fw)" "y \<in> set (filter ?p ?fw)" "fst x < fst y"
    then obtain s1 h1 s2 h2 where k: "fst x = make_balance_history_key s1 h1" "fst y = make_balance_history_key s2 h2"
      using spell [of x] spell [of y] by (auto simp: iter_from_forward_def)
    show "row_height (fst y) < b \<longrightarrow> row_height (fst x) < b" using xy by (auto simp: k)
  qed
  then have tw: "takeWhile (\<lambda>r. row_height (fst r) < b) (filter ?p ?fw) = filter (\<lambda>r. row_height (fst r) < b) (filter ?p ?fw)"
    by (rule takeWhile_eq_filter)
  have "balance_range_loop sh b (filter ?p ?fw) = Inr (map row_data (takeWhile (\<lambda>r. row_height (fst r) < b) (filter ?p ?fw)))"
    by (rule range_loop_rows) (use typed_row [OF ty, where c = BALANCE_HISTORY_CF] in \<open>auto simp: iter_from_forward_def\<close>)
  moreover have "filter (\<lambda>r. row_height (fst r) < b) (filter ?p ?fw) =
      filter (\<lambda>r. ?p r \<and> a \<le> row_height (fst r) \<and> row_height (fst r) < b) ?rows"
    unfolding iter_from_forward_def filter_filter by (rule filter_cong [OF refl]) (use spell in fastforce)
  ultimately show ?thesis using ab sp tw by (simp add: get_balance_in_range_def Let_def)
qed

lemma range_exact:
  assumes ty: "db_typed db" and ab: "a < b"
  shows "\<exists>rs. get_balance_in_range sh a b db = Inr rs \<and> sorted_wrt (<) (map hd_block_height rs) \<and>
    (\<forall>x. x \<in> set rs \<longleftrightarrow> a \<le> hd_block_height x \<and> hd_block_height x < b \<and>
       balance_record sh (hd_block_height x) db = Some (hd_delta x, hd_balance x))"
proof -
  let ?Q = "\<lambda>r :: u8 list \<times> u8 list. take 32 (fst r) = hash_bytes sh \<and> a \<le> row_height (fst r) \<and> row_height (fst r) < b"
  let ?rows = "filter ?Q (db BALANCE_HISTORY_CF)"
  have key: "\<exists>h. fst r = make_balance_history_key sh h \<and> a \<le> h \<and> h < b \<and> length (snd r) = 16 \<and>
      balance_record sh h db = Some (be_word (take 8 (snd r)), be_word (drop 8 (snd r)))" if "r \<in> set ?rows" for r
  proof -
    have r: "(fst r, snd r) \<in> set (db BALANCE_HISTORY_CF)" "?Q r" using that by simp_all
    obtain sh' h where "fst r = make_balance_history_key sh' h" "length (snd r) = 16"
      "balance_record sh' h db = Some (be_word (take 8 (snd r)), be_word (drop 8 (snd r)))"
      by (rule balance_rows [OF ty r(1)]) (rule that)
    with r(2) show ?thesis by auto
  qed
  have "sorted_wrt (\<lambda>x y. row_height (fst x) < row_height (fst y)) ?rows"
  proof (rule sorted_wrt_mono_in)
    show "sorted_wrt (\<lambda>x y. fst x < fst y) ?rows"
      using typed_cf_ok [OF ty, of BALANCE_HISTORY_CF] by (intro sorted_wrt_filter) (simp add: sorted_wrt_map)
    fix x y assume xy: "x \<in> set ?rows" "y \<in> set ?rows" "fst x < fst y"
    from key [OF xy(1)] key [OF xy(2)] xy(3) show "row_height (fst x) < row_height (fst y)" by auto
  qed
  then have "sorted_wrt (<) (map hd_block_height (map row_data ?rows))" by (simp add: sorted_wrt_map row_data_def)
  moreover have "x \<in> set (map row_data ?rows) \<longleftrightarrow> a \<le> hd_block_height x \<and> hd_block_height x < b \<and>
       balance_record sh (hd_block_height x) db = Some (hd_delta x, hd_balance x)" for x
  proof
    assume "x \<in> set (map row_data ?rows)"
    then obtain r where "r \<in> set ?rows" "x = row_data r" by auto
    then show "a \<le> hd_block_height x \<and> hd_block_height x < b \<and>
       balance_record sh (hd_block_height x) db = Some (hd_delta x, hd_balance x)" using key by (fastforce simp: row_data_def)
  next
    assume x: "a \<le> hd_block_height x \<and> hd_block_height x < b \<and>
       balance_record sh (hd_block_height x) db = Some (hd_delta x, hd_balance x)"
    then obtain v where v: "get_cf BALANCE_HISTORY_CF (make_balance_history_key sh (hd_block_height x)) db = Some v"
      "hd_delta x = be_word (take 8 v)" "hd_balance x = be_word (drop 8 v)" by (auto simp: balance_record_def)
    have "(make_balance_history_key sh (hd_block_height x), v) \<in> set (db BALANCE_HISTORY_CF)"
      using v(1) typed_cf_ok [OF ty] by (simp add: get_cf_def cf_get_Some_iff)
    then have "(make_balance_history_key sh (hd_block_height x), v) \<in> set ?rows" using x by simp
    moreover have "x = row_data (make_balance_history_key sh (hd_block_height x), v)" using v(2,3) by (simp add: row_data_def)
    ultimately show "x \<in> set (map row_data ?rows)" unfolding set_map by (intro image_eqI)
  qed
  ultimately show ?thesis using range_rows [OF ty ab, of sh] by blast
qed

text \<open>C39: the balance queries are exact.  On a database with typed rows none of their assertions fails.  The balance
  at a height is the record of the greatest height at or below it, or zero when there is none; the latest balance is
  that of the greatest height; and a range query returns exactly the records of the half-open range, by ascending
  height.\<close>

theorem balance_queries_exact:
  assumes "db_typed db" and "a < b"
  shows "\<exists>e l rs. get_balance_at_block_height sh t db = Inr e \<and> last_balance sh t db e \<and>
    get_latest_balance sh db = Inr l \<and> last_balance sh (- 1) db l \<and>
    get_balance_in_range sh a b db = Inr rs \<and> sorted_wrt (<) (map hd_block_height rs) \<and>
    (\<forall>x. x \<in> set rs \<longleftrightarrow> a \<le> hd_block_height x \<and> hd_block_height x < b \<and>
       balance_record sh (hd_block_height x) db = Some (hd_delta x, hd_balance x))"
proof -
  obtain e where e: "get_balance_at_block_height sh t db = Inr e" "last_balance sh t db e"
    using balance_at_height_last [OF assms(1)] by blast
  obtain l where l: "get_latest_balance sh db = Inr l" "last_balance sh (- 1) db l"
    using latest_balance_last [OF assms(1)] by blast
  from range_exact [OF assms, of sh] obtain rs where "get_balance_in_range sh a b db = Inr rs \<and>
    sorted_wrt (<) (map hd_block_height rs) \<and>
    (\<forall>x. x \<in> set rs \<longleftrightarrow> a \<le> hd_block_height x \<and> hd_block_height x < b \<and>
       balance_record sh (hd_block_height x) db = Some (hd_delta x, hd_balance x))" ..
  with e l show ?thesis by (intro exI conjI; (assumption | elim conjE))
qed

text \<open>A database with two records of one address and one of another.\<close>

definition empty_db :: BalanceHistoryDB where
  "empty_db = (\<lambda>c. [])"

definition sample_entry :: "USDBScriptHash \<Rightarrow> u32 \<Rightarrow> i64 \<Rightarrow> u64 \<Rightarrow> BalanceHistoryEntry" where
  "sample_entry sh h d b = \<lparr>bh_script_hash = sh, bh_block_height = h, bh_delta = d, bh_balance = b\<rparr>"

definition sample_balances :: BalanceHistoryDB where
  "sample_balances = write_batch (map balance_entry_op [sample_entry 7 100 50 50, sample_entry 7 120 (- 20) 30, sample_entry 9 110 5 5]) empty_db"

lemma empty_db_typed: "db_typed empty_db"
  by (simp add: db_typed_def rows_sorted_def empty_db_def get_cf_def cf_get_def)

lemma sample_balances_typed: "db_typed sample_balances"
  unfolding sample_balances_def by (rule db_typed_write_batch [OF empty_db_typed]) auto

theorem balance_queries_exact_witness:
  "db_typed sample_balances \<and> (100 :: u32) < 120 \<and>
   (\<exists>e l rs. get_balance_at_block_height 7 110 sample_balances = Inr e \<and> last_balance 7 110 sample_balances e \<and>
    get_latest_balance 7 sample_balances = Inr l \<and> last_balance 7 (- 1) sample_balances l \<and>
    get_balance_in_range 7 100 120 sample_balances = Inr rs \<and> sorted_wrt (<) (map hd_block_height rs) \<and>
    (\<forall>x. x \<in> set rs \<longleftrightarrow> 100 \<le> hd_block_height x \<and> hd_block_height x < 120 \<and>
       balance_record 7 (hd_block_height x) sample_balances = Some (hd_delta x, hd_balance x)))"
  using sample_balances_typed balance_queries_exact [OF sample_balances_typed, where a = 100 and b = 120 and sh = 7 and t = 110] by simp

section \<open>Reads of a typed database\<close>

lemma typed_get: "db_typed db \<Longrightarrow> get_cf c k db = Some v \<Longrightarrow> row_typed c k v"
  by (simp add: db_typed_def)

lemma typed_meta: "db_typed db \<Longrightarrow> \<exists>v. get_u32_meta key db = Inr v" "db_typed db \<Longrightarrow> \<exists>h. get_btc_block_height db = Inr h"
  by (auto simp: get_u32_meta_def get_btc_block_height_def dest: typed_get split: option.split)

lemma typed_commit: "db_typed db \<Longrightarrow> \<exists>c. get_block_commit h db = Inr c"
  by (auto simp: get_block_commit_def parse_block_commit_value_def dest: typed_get split: option.split)

lemma typed_utxo: "db_typed db \<Longrightarrow> \<exists>u. get_utxo p db = Inr u"
  by (auto simp: get_utxo_def parse_utxo_from_value_def UTXOValue_from_slice_def dest: typed_get split: option.split)

lemma undo_utxo_loop_typed:
  "(\<And>k v. (k, v) \<in> set rows \<Longrightarrow> length v = 76) \<Longrightarrow> \<exists>us. undo_utxo_loop h rows = Inr us"
proof (induction rows)
  case (Cons r rows)
  obtain k v where r: "r = (k, v)" by (cases r)
  obtain us where "undo_utxo_loop h rows = Inr us" using Cons by force
  moreover have "\<exists>u. parse_block_undo_utxo_value v = Inr u"
    using Cons.prems [of k v] r by (simp add: parse_block_undo_utxo_value_def OutPointCodec_decode_def OUTPOINT_SIZE_def)
  ultimately show ?case by (auto simp: r)
qed simp

lemma touched_loop_typed: "(\<And>k v. (k, v) \<in> set rows \<Longrightarrow> length k = 36) \<Longrightarrow> \<exists>hs. touched_loop h rows = Inr hs"
proof (induction rows)
  case (Cons r rows)
  obtain k v where r: "r = (k, v)" by (cases r)
  obtain hs where "touched_loop h rows = Inr hs" using Cons by force
  moreover have "length k = 36" using Cons.prems r by auto
  ultimately show ?case by (auto simp: r)
qed simp

lemma same_prefix_iter_in: "r \<in> set (same_prefix n k (iter_from_forward k' rows)) \<Longrightarrow> r \<in> set rows"
  by (auto simp: same_prefix_def iter_from_forward_def dest: set_takeWhileD)

lemma typed_undo_utxos:
  "db_typed db \<Longrightarrow> \<exists>us. get_block_undo_created_utxos h db = Inr us" "db_typed db \<Longrightarrow> \<exists>us. get_block_undo_spent_utxos h db = Inr us"
  unfolding get_block_undo_created_utxos_def get_block_undo_spent_utxos_def get_block_undo_utxos_from_cf_def Let_def
  by (rule undo_utxo_loop_typed, fastforce dest!: same_prefix_iter_in typed_row)+

lemma typed_touched: "db_typed db \<Longrightarrow> \<exists>hs. get_block_undo_touched_script_hashes h db = Inr hs"
  unfolding get_block_undo_touched_script_hashes_def Let_def
  by (rule touched_loop_typed, fastforce dest!: same_prefix_iter_in typed_row)

lemma typed_undo_meta: "db_typed db \<Longrightarrow> \<exists>m. get_block_undo_meta h db = Inr m"
  by (auto simp: get_block_undo_meta_def parse_block_undo_meta_value_def dest: typed_get split: option.split)

lemma typed_bundle: "db_typed db \<Longrightarrow> \<exists>b. get_block_undo_bundle h db = Inr b"
  using typed_undo_meta [of db h] typed_undo_utxos [of db h] typed_touched [of db h]
  by (auto simp: get_block_undo_bundle_def split: option.split)



end
