(* ===== verification/Balance_Ledger.thy ===== *)
theory Balance_Ledger
  imports Balance_Block Balance_Store
begin

text \<open>
  The reference semantics of the balance-history service: a block transforms the set of unspent outputs, and the
  balance of an address is the sum of its unspent outputs.  The second half shows that the preloading of a batch
  computes the spent output of every input: what the input's outpoint held just before its transaction.
\<close>

section \<open>Unspent outputs\<close>

type_synonym utxo_set = "OutPoint \<rightharpoonup> UTXOValue"

definition tx_outs :: "block_env \<Rightarrow> BtcTx \<Rightarrow> (OutPoint \<times> UTXOValue) list" where
  "tx_outs env tx = map (\<lambda>vout. (vo_outpoint vout, vo_cache_tx_out vout)) (preload_vouts env tx)"

definition tx_ins :: "BtcTx \<Rightarrow> OutPoint list" where
  "tx_ins tx = (if bt_is_coinbase tx then [] else bt_input tx)"

definition apply_tx :: "block_env \<Rightarrow> BtcTx \<Rightarrow> utxo_set \<Rightarrow> utxo_set" where
  "apply_tx env tx U = (U |` (- set (tx_ins tx))) ++ map_of (tx_outs env tx)"

definition apply_txs :: "block_env \<Rightarrow> BtcTx list \<Rightarrow> utxo_set \<Rightarrow> utxo_set" where
  "apply_txs env = fold (apply_tx env)"

definition txs_outs :: "block_env \<Rightarrow> BtcTx list \<Rightarrow> (OutPoint \<times> UTXOValue) list" where
  "txs_outs env txs = concat (map (tx_outs env) txs)"

text \<open>Every input spends an output that exists, and none twice.\<close>

fun spends_ok :: "block_env \<Rightarrow> BtcTx list \<Rightarrow> utxo_set \<Rightarrow> bool" where
  "spends_ok env [] U \<longleftrightarrow> True"
| "spends_ok env (tx # txs) U \<longleftrightarrow> distinct (tx_ins tx) \<and> set (tx_ins tx) \<subseteq> dom U \<and> spends_ok env txs (apply_tx env tx U)"

lemma apply_txs_simps [simp]:
  "apply_txs env [] U = U" "apply_txs env (tx # txs) U = apply_txs env txs (apply_tx env tx U)"
  by (simp_all add: apply_txs_def)

lemma txs_outs_simps [simp]:
  "txs_outs env [] = []" "txs_outs env (tx # txs) = tx_outs env tx @ txs_outs env txs"
  by (simp_all add: txs_outs_def)

lemma apply_txs_append [simp]: "apply_txs env (xs @ ys) U = apply_txs env ys (apply_txs env xs U)"
  by (simp add: apply_txs_def)

lemma spends_ok_append: "spends_ok env (xs @ ys) U \<longleftrightarrow> spends_ok env xs U \<and> spends_ok env ys (apply_txs env xs U)"
  by (induction xs arbitrary: U) auto

text \<open>The balance of an address, as the 64-bit sum the code computes with and as a number.\<close>

definition wsum :: "utxo_set \<Rightarrow> USDBScriptHash \<Rightarrow> u64" where
  "wsum U sh = (\<Sum>p \<in> dom U. if uv_script_hash (the (U p)) = sh then uv_value (the (U p)) else 0)"

definition total :: "utxo_set \<Rightarrow> USDBScriptHash \<Rightarrow> nat" where
  "total U sh = (\<Sum>p \<in> dom U. if uv_script_hash (the (U p)) = sh then unat (uv_value (the (U p))) else 0)"

lemma wsum_total: "wsum U sh = of_nat (total U sh)"
proof -
  have "of_nat (\<Sum>p \<in> A. if P p then unat (f p) else 0) = (\<Sum>p \<in> A. if P p then f p else 0)" for A P and f :: "OutPoint \<Rightarrow> u64"
    by (induction A rule: infinite_finite_induct) (simp_all split: if_split)
  then show ?thesis by (simp add: wsum_def total_def)
qed

lemma unat_wsum: "total U sh < 2 ^ 64 \<Longrightarrow> unat (wsum U sh) = total U sh"
  by (simp add: wsum_total unat_of_nat)

lemma sint_wsum:
  assumes "total U sh < 2 ^ 63"
  shows "sint (wsum U sh) = int (total U sh)"
proof -
  have "total U sh < 2 ^ 64" using assms by simp
  then have "unat (wsum U sh) = total U sh" by (rule unat_wsum)
  then show ?thesis using sint_eq_unat [of "wsum U sh"] assms by simp
qed

text \<open>The amount of a list of outputs that belongs to an address.\<close>

definition amount :: "UTXOValue list \<Rightarrow> USDBScriptHash \<Rightarrow> u64" where
  "amount us sh = sum_list (map (\<lambda>u. if uv_script_hash u = sh then uv_value u else 0) us)"

lemma amount_simps [simp]:
  "amount [] sh = 0" "amount (u # us) sh = (if uv_script_hash u = sh then uv_value u else 0) + amount us sh"
  "amount (us @ vs) sh = amount us sh + amount vs sh"
  by (simp_all add: amount_def)

lemma amount_other: "sh \<notin> uv_script_hash ` set us \<Longrightarrow> amount us sh = 0"
  by (induction us) auto

lemma wsum_upd:
  assumes "finite (dom U)" and "p \<notin> dom U"
  shows "wsum (U(p \<mapsto> u)) sh = wsum U sh + amount [u] sh"
proof -
  have "(\<Sum>q \<in> dom U. if uv_script_hash (the ((U(p \<mapsto> u)) q)) = sh then uv_value (the ((U(p \<mapsto> u)) q)) else 0) = wsum U sh"
    unfolding wsum_def using assms(2) by (intro sum.cong) auto
  then show ?thesis using assms by (simp add: wsum_def add.commute)
qed

lemma wsum_remove:
  assumes "finite (dom U)" and "U p = Some u"
  shows "wsum (U(p := None)) sh = wsum U sh - amount [u] sh"
proof -
  have "wsum U sh = wsum ((U(p := None))(p \<mapsto> u)) sh" using assms(2) by (simp add: fun_upd_idem)
  also have "\<dots> = wsum (U(p := None)) sh + amount [u] sh" using assms(1) by (intro wsum_upd) auto
  finally show ?thesis by simp
qed

lemma finite_apply_tx: "finite (dom U) \<Longrightarrow> finite (dom (apply_tx env tx U))"
  by (auto simp: apply_tx_def dom_restrict finite_dom_map_of)

lemma finite_apply_txs: "finite (dom U) \<Longrightarrow> finite (dom (apply_txs env txs U))"
  by (induction txs arbitrary: U) (simp_all add: finite_apply_tx)

lemma wsum_restrict:
  assumes "finite (dom U)" and "distinct ps" and "set ps \<subseteq> dom U"
  shows "wsum (U |` (- set ps)) sh = wsum U sh - amount (map (\<lambda>p. the (U p)) ps) sh"
  using assms
proof (induction ps arbitrary: U)
  case (Cons p ps)
  let ?U = "U(p := None)"
  have "U |` (- set (p # ps)) = ?U |` (- set ps)" by (auto simp: restrict_map_def)
  moreover have "wsum (?U |` (- set ps)) sh = wsum ?U sh - amount (map (\<lambda>q. the (?U q)) ps) sh"
    using Cons.prems by (intro Cons.IH) (auto simp del: fun_upd_apply)
  moreover have eq: "map (\<lambda>q. the (?U q)) ps = map (\<lambda>q. the (U q)) ps" using Cons.prems(2) by auto
  moreover obtain u where u: "U p = Some u" using Cons.prems(3) by auto
  ultimately have "wsum (U |` (- set (p # ps))) sh = wsum U sh - amount [u] sh - amount (map (\<lambda>q. the (U q)) ps) sh"
    using wsum_remove [OF Cons.prems(1) u] by (simp only:)
  then show ?case by (simp add: u)
qed (simp add: restrict_map_def)

lemma wsum_outs:
  assumes "finite (dom U)" and "distinct (map fst xs)" and "fst ` set xs \<inter> dom U = {}"
  shows "wsum (U ++ map_of xs) sh = wsum U sh + amount (map snd xs) sh"
  using assms(2,3)
proof (induction xs)
  case (Cons x xs)
  obtain p u where x: "x = (p, u)" by (cases x)
  have "wsum ((U ++ map_of xs)(p \<mapsto> u)) sh = wsum (U ++ map_of xs) sh + amount [u] sh"
  proof (rule wsum_upd)
    show "finite (dom (U ++ map_of xs))" using assms(1) by (simp add: finite_dom_map_of)
    show "p \<notin> dom (U ++ map_of xs)" using Cons.prems x by (auto simp: dom_map_of_conv_image_fst)
  qed
  moreover have "wsum (U ++ map_of xs) sh = wsum U sh + amount (map snd xs) sh" using Cons by auto
  moreover have "U ++ map_of (x # xs) = (U ++ map_of xs)(p \<mapsto> u)" by (simp only: x map_of.simps fst_conv snd_conv map_add_upd)
  ultimately show ?case by (simp only: x list.map snd_conv amount_simps) (simp add: add.commute add.left_commute)
qed simp

text \<open>What a transaction does to a balance.\<close>

lemma wsum_apply_tx:
  assumes "finite (dom U)" and "distinct (tx_ins tx)" and "set (tx_ins tx) \<subseteq> dom U"
    and "distinct (map fst (tx_outs env tx))" and "fst ` set (tx_outs env tx) \<inter> dom U = {}"
  shows "wsum (apply_tx env tx U) sh =
    wsum U sh - amount (map (\<lambda>p. the (U p)) (tx_ins tx)) sh + amount (map snd (tx_outs env tx)) sh"
proof -
  have "wsum (apply_tx env tx U) sh = wsum (U |` (- set (tx_ins tx))) sh + amount (map snd (tx_outs env tx)) sh"
    unfolding apply_tx_def using assms by (intro wsum_outs) (auto simp: dom_restrict intro: finite_subset)
  then show ?thesis using assms by (simp add: wsum_restrict)
qed

section \<open>Resolved inputs\<close>

text \<open>
  The transactions of a block with the spent output of every input.  An input is written back on a rollback, and its
  row deleted, unless its output was created in the same block; \<open>born\<close> gives the block of the batch that creates an
  outpoint.
\<close>

definition resolve_vin :: "(OutPoint \<rightharpoonup> u32) \<Rightarrow> u32 \<Rightarrow> utxo_set \<Rightarrow> OutPoint \<Rightarrow> PreloadVIn" where
  "resolve_vin born k U p = \<lparr>vi_outpoint = p, vi_cache_tx_out = U p,
     vi_need_flush = (case born p of None \<Rightarrow> True | Some h \<Rightarrow> h < k)\<rparr>"

fun resolve_txs :: "block_env \<Rightarrow> (OutPoint \<rightharpoonup> u32) \<Rightarrow> u32 \<Rightarrow> utxo_set \<Rightarrow> BtcTx list \<Rightarrow> PreloadTx list" where
  "resolve_txs env born k U [] = []"
| "resolve_txs env born k U (tx # txs) =
     \<lparr>pt_txid = bt_txid tx, pt_vin = map (resolve_vin born k U) (tx_ins tx), pt_vout = preload_vouts env tx\<rparr> #
     resolve_txs env born k (apply_tx env tx U) txs"

fun resolve_blocks :: "block_env \<Rightarrow> (OutPoint \<rightharpoonup> u32) \<Rightarrow> utxo_set \<Rightarrow> (u32 \<times> BtcBlock) list \<Rightarrow> PreloadBlock list" where
  "resolve_blocks env born U [] = []"
| "resolve_blocks env born U ((k, b) # bs) =
     \<lparr>pb_height = k, pb_block_hash = bb_block_hash b, pb_txdata = resolve_txs env born k U (bb_txdata b)\<rparr> #
     resolve_blocks env born (apply_txs env (bb_txdata b) U) bs"

text \<open>An input whose output is still to be loaded from the database.\<close>

definition vin_rel :: "utxo_set \<Rightarrow> PreloadVIn \<Rightarrow> PreloadVIn \<Rightarrow> bool" where
  "vin_rel U0 v w \<longleftrightarrow> vi_cache_tx_out w \<noteq> None \<and>
     (v = w \<or> v = w\<lparr>vi_cache_tx_out := None\<rparr> \<and> vi_cache_tx_out w = U0 (vi_outpoint w))"

definition tx_rel :: "utxo_set \<Rightarrow> PreloadTx \<Rightarrow> PreloadTx \<Rightarrow> bool" where
  "tx_rel U0 t r \<longleftrightarrow> pt_txid t = pt_txid r \<and> pt_vout t = pt_vout r \<and> list_all2 (vin_rel U0) (pt_vin t) (pt_vin r)"

lemma fill_vins_rel:
  "list_all2 (vin_rel U0) vs ws \<Longrightarrow>
   fill_vins vs (map (\<lambda>p. the (U0 p)) (map vi_outpoint (filter (\<lambda>v. vi_cache_tx_out v = None) vs)) @ rest) = (ws, rest)"
proof (induction vs ws rule: list_all2_induct)
  case (Cons v vs w ws)
  then show ?case by (auto simp: vin_rel_def Let_def)
qed simp

lemma fill_txs_rel:
  "list_all2 (tx_rel U0) ts rs \<Longrightarrow> fill_txs ts (map (\<lambda>p. the (U0 p)) (missing_vins ts) @ rest) = rs"
proof (induction ts rs rule: list_all2_induct)
  case (Cons t ts r rs)
  let ?m = "map (\<lambda>p. the (U0 p)) (missing_vins ts) @ rest"
  have "fill_vins (pt_vin t) (map (\<lambda>p. the (U0 p)) (map vi_outpoint (filter (\<lambda>v. vi_cache_tx_out v = None) (pt_vin t))) @ ?m) =
      (pt_vin r, ?m)" using Cons.hyps(1) by (intro fill_vins_rel) (simp add: tx_rel_def)
  then have "fill_txs (t # ts) (map (\<lambda>p. the (U0 p)) (missing_vins (t # ts)) @ rest) = t\<lparr>pt_vin := pt_vin r\<rparr> # rs"
    using Cons.IH by (simp add: missing_vins_def)
  moreover have "t\<lparr>pt_vin := pt_vin r\<rparr> = r" using Cons.hyps(1) by (cases t; cases r) (simp add: tx_rel_def)
  ultimately show ?case by simp
qed simp

lemma fill_vins_none: "fill_vins vs [] = (vs, [])"
  by (induction vs) simp_all

lemma fill_txs_none: "fill_txs ts [] = ts"
  by (induction ts) (simp_all add: fill_vins_none)

lemma missing_rel: "list_all2 (tx_rel U0) ts rs \<Longrightarrow> p \<in> set (missing_vins ts) \<Longrightarrow> U0 p \<noteq> None"
proof (induction ts rs rule: list_all2_induct)
  case (Cons t ts r rs)
  have "U0 p \<noteq> None" if "p \<in> vi_outpoint ` {v \<in> set (pt_vin t). vi_cache_tx_out v = None}"
  proof -
    from that obtain v where v: "v \<in> set (pt_vin t)" "vi_cache_tx_out v = None" "p = vi_outpoint v" by auto
    have "list_all2 (vin_rel U0) (pt_vin t) (pt_vin r)" using Cons.hyps(1) by (simp add: tx_rel_def)
    with v(1) obtain w where "vin_rel U0 v w" by (auto simp: list_all2_conv_all_nth in_set_conv_nth)
    then show ?thesis using v by (auto simp: vin_rel_def)
  qed
  then show ?case using Cons by (auto simp: missing_vins_def)
qed (simp add: missing_vins_def)

text \<open>The map of the batch's outputs while the blocks are scanned: \<open>C\<close> gives every output with its block, \<open>D\<close> those
  created so far.\<close>

definition vout_ok :: "(UTXOValue \<times> u32) option \<Rightarrow> UTXOValue option \<Rightarrow> bool \<Rightarrow> UTXOValue option \<Rightarrow> VOutUtxoInfo option \<Rightarrow> bool" where
  "vout_ok c u0 d u m \<longleftrightarrow> (case m of
       None \<Rightarrow> c = None \<and> (u = None \<or> u = u0)
     | Some i \<Rightarrow> c = Some (vu_item i, vu_block_height i) \<and> u0 = None \<and>
         u = (if d \<and> \<not> vu_spend i then Some (vu_item i) else None) \<and> (\<not> d \<longrightarrow> \<not> vu_spend i))"

definition vouts_ok :: "(OutPoint \<rightharpoonup> UTXOValue \<times> u32) \<Rightarrow> utxo_set \<Rightarrow> OutPoint set \<Rightarrow> utxo_set \<Rightarrow>
  (OutPoint \<times> VOutUtxoInfo) list \<Rightarrow> bool" where
  "vouts_ok C U0 D U M \<longleftrightarrow> distinct (map fst M) \<and> (\<forall>p. vout_ok (C p) (U0 p) (p \<in> D) (U p) (map_of M p))"

lemma vouts_okD: "vouts_ok C U0 D U M \<Longrightarrow> vout_ok (C p) (U0 p) (p \<in> D) (U p) (map_of M p)"
  by (simp add: vouts_ok_def)

abbreviation born_in :: "(OutPoint \<rightharpoonup> UTXOValue \<times> u32) \<Rightarrow> OutPoint \<rightharpoonup> u32" where
  "born_in C \<equiv> \<lambda>p. map_option snd (C p)"

definition blank_vin :: "OutPoint \<Rightarrow> PreloadVIn" where
  "blank_vin p = \<lparr>vi_outpoint = p, vi_cache_tx_out = None, vi_need_flush = True\<rparr>"

lemma preload_vin_ok:
  assumes ok: "vouts_ok C U0 D U M" and c: "cache \<subseteq>\<^sub>m U0" and p: "p \<in> dom U"
  shows "\<exists>v M'. preload_vin cache k (blank_vin p) M = Inr (v, M') \<and> vin_rel U0 v (resolve_vin (born_in C) k U p) \<and>
    vouts_ok C U0 D (U(p := None)) M'"
proof (cases "map_of M p")
  case None
  obtain u where u: "U p = Some u" using p by auto
  then have "C p = None" "U0 p = Some u" using vouts_okD [OF ok, of p] by (auto simp: vout_ok_def None)
  moreover have "cache p = Some x \<Longrightarrow> U0 p = Some x" for x using c by (auto simp: map_le_def dom_def)
  moreover have "vout_ok (C q) (U0 q) (q \<in> D) ((U(p := None)) q) (map_of M q)" for q
    using vouts_okD [OF ok, of q] None by (cases "q = p") (simp_all add: vout_ok_def)
  then have "vouts_ok C U0 D (U(p := None)) M" using ok by (simp add: vouts_ok_def)
  ultimately show ?thesis using None u
    by (cases "cache p") (auto simp: preload_vin_def blank_vin_def vin_rel_def resolve_vin_def)
next
  case (Some i)
  have i: "C p = Some (vu_item i, vu_block_height i)" "p \<in> D" "\<not> vu_spend i" "U p = Some (vu_item i)" "U0 p = None"
    using vouts_okD [OF ok, of p] p by (auto simp: vout_ok_def Some split: if_splits)
  have "vout_ok (C q) (U0 q) (q \<in> D) ((U(p := None)) q) (map_of (AList.update p (i\<lparr>vu_spend := True\<rparr>) M) q)" for q
    using vouts_okD [OF ok, of q] i by (cases "q = p") (simp_all add: AList.update_conv' vout_ok_def)
  then have "vouts_ok C U0 D (U(p := None)) (AList.update p (i\<lparr>vu_spend := True\<rparr>) M)"
    using ok by (simp add: vouts_ok_def AList.distinct_update)
  then show ?thesis using Some i
    by (simp add: preload_vin_def blank_vin_def vin_rel_def resolve_vin_def created_before_def)
qed

lemma preload_vins_ok:
  assumes "vouts_ok C U0 D U M" and c: "cache \<subseteq>\<^sub>m U0" and "distinct ps" and "set ps \<subseteq> dom U"
  shows "\<exists>vs M'. preload_vins cache k (map blank_vin ps) M = Inr (vs, M') \<and>
    list_all2 (vin_rel U0) vs (map (resolve_vin (born_in C) k U) ps) \<and> vouts_ok C U0 D (U |` (- set ps)) M'"
  using assms(1,3,4)
proof (induction ps arbitrary: U M)
  case (Cons p ps)
  have "p \<in> dom U" using Cons.prems(3) by simp
  from preload_vin_ok [OF Cons.prems(1) c this, of k] obtain v M1 where
    1: "preload_vin cache k (blank_vin p) M = Inr (v, M1)" "vin_rel U0 v (resolve_vin (born_in C) k U p)"
      "vouts_ok C U0 D (U(p := None)) M1" by blast
  have "set ps \<subseteq> dom (U(p := None))" "distinct ps" using Cons.prems(2,3) by auto
  from Cons.IH [OF 1(3) this(2,1)] obtain vs M2 where
    2: "preload_vins cache k (map blank_vin ps) M1 = Inr (vs, M2)"
      "list_all2 (vin_rel U0) vs (map (resolve_vin (born_in C) k (U(p := None))) ps)"
      "vouts_ok C U0 D (U(p := None) |` (- set ps)) M2" by blast
  have eq: "map (resolve_vin (born_in C) k (U(p := None))) ps = map (resolve_vin (born_in C) k U) ps"
    using Cons.prems(2) by (auto simp: resolve_vin_def)
  have eq': "U(p := None) |` (- set ps) = U |` (- set (p # ps))" by (auto simp: restrict_map_def)
  show ?case using 1(1,2) 2(1) 2(2) [unfolded eq] 2(3) [unfolded eq'] by simp
qed (simp add: restrict_map_def)

lemma vouts_ok_outs:
  assumes ok: "vouts_ok C U0 D U M" and new: "\<And>p v. (p, v) \<in> set xs \<Longrightarrow> C p = Some (v, k) \<and> p \<notin> D"
  shows "vouts_ok C U0 (D \<union> fst ` set xs) (U ++ map_of xs) M"
proof -
  have "vout_ok (C p) (U0 p) (p \<in> D \<union> fst ` set xs) ((U ++ map_of xs) p) (map_of M p)" for p
  proof (cases "map_of xs p")
    case None
    then have "p \<notin> fst ` set xs" by (simp add: map_of_eq_None_iff)
    moreover have "(U ++ map_of xs) p = U p" using None by (simp add: map_add_def)
    ultimately show ?thesis using vouts_okD [OF ok, of p] by simp
  next
    case (Some v)
    then have pv: "(p, v) \<in> set xs" by (rule map_of_SomeD)
    from new [OF this] have "C p = Some (v, k)" "p \<notin> D" by auto
    moreover have "p \<in> fst ` set xs" using pv by force
    moreover have "(U ++ map_of xs) p = Some v" using Some by simp
    ultimately show ?thesis using vouts_okD [OF ok, of p] by (simp add: vout_ok_def split: option.splits)
  qed
  then show ?thesis using ok by (simp add: vouts_ok_def)
qed

lemma preload_tx_simps: "pt_vin (preload_tx env tx) = map blank_vin (tx_ins tx)" "pt_txid (preload_tx env tx) = bt_txid tx"
  "pt_vout (preload_tx env tx) = preload_vouts env tx"
  by (simp_all add: preload_tx_def tx_ins_def blank_vin_def)

lemma preload_txs_ok:
  assumes "vouts_ok C U0 D U M" and c: "cache \<subseteq>\<^sub>m U0" and "spends_ok env txs U" and "distinct (map fst (txs_outs env txs))"
    and "\<And>p v. (p, v) \<in> set (txs_outs env txs) \<Longrightarrow> C p = Some (v, k) \<and> p \<notin> D"
  shows "\<exists>ts M'. preload_txs cache k (map (preload_tx env) txs) M = Inr (ts, M') \<and>
    list_all2 (tx_rel U0) ts (resolve_txs env (born_in C) k U txs) \<and>
    vouts_ok C U0 (D \<union> fst ` set (txs_outs env txs)) (apply_txs env txs U) M'"
  using assms(1,3-5)
proof (induction txs arbitrary: D U M)
  case (Cons tx txs)
  have tx: "distinct (tx_ins tx)" "set (tx_ins tx) \<subseteq> dom U" "spends_ok env txs (apply_tx env tx U)" using Cons.prems(2) by simp_all
  from preload_vins_ok [OF Cons.prems(1) c tx(1,2), of k] obtain vs M1 where
    1: "preload_vins cache k (map blank_vin (tx_ins tx)) M = Inr (vs, M1)"
      "list_all2 (vin_rel U0) vs (map (resolve_vin (born_in C) k U) (tx_ins tx))" "vouts_ok C U0 D (U |` (- set (tx_ins tx))) M1"
    by blast
  have "vouts_ok C U0 (D \<union> fst ` set (tx_outs env tx)) (apply_tx env tx U) M1"
    unfolding apply_tx_def by (rule vouts_ok_outs [OF 1(3)]) (use Cons.prems(4) in auto)
  moreover have "distinct (map fst (txs_outs env txs))" using Cons.prems(3) by simp
  moreover have "C p = Some (v, k) \<and> p \<notin> D \<union> fst ` set (tx_outs env tx)" if "(p, v) \<in> set (txs_outs env txs)" for p v
  proof -
    have "p \<in> fst ` set (txs_outs env txs)" using that by force
    then have "p \<notin> fst ` set (tx_outs env tx)" using Cons.prems(3) by auto
    then show ?thesis using Cons.prems(4) [of p v] that by simp
  qed
  ultimately obtain ts M2 where
    2: "preload_txs cache k (map (preload_tx env) txs) M1 = Inr (ts, M2)"
      "list_all2 (tx_rel U0) ts (resolve_txs env (born_in C) k (apply_tx env tx U) txs)"
      "vouts_ok C U0 (D \<union> fst ` set (tx_outs env tx) \<union> fst ` set (txs_outs env txs)) (apply_txs env txs (apply_tx env tx U)) M2"
    using Cons.IH [OF _ tx(3)] by blast
  have "tx_rel U0 ((preload_tx env tx)\<lparr>pt_vin := vs\<rparr>) \<lparr>pt_txid = bt_txid tx, pt_vin = map (resolve_vin (born_in C) k U) (tx_ins tx),
      pt_vout = preload_vouts env tx\<rparr>" using 1(2) by (simp add: tx_rel_def preload_tx_simps)
  then show ?case using 1(1) 2 by (simp add: preload_tx_simps Un_assoc image_Un)
qed simp

definition utxos :: "BalanceHistoryDB \<Rightarrow> utxo_set" where
  "utxos db p = (case get_utxo p db of Inr u \<Rightarrow> u | Inl _ \<Rightarrow> None)"

lemma get_utxo_typed: "db_typed db \<Longrightarrow> get_utxo p db = Inr (utxos db p)"
  using typed_utxo [of db p] by (auto simp: utxos_def)

lemma fetch_utxos_found:
  assumes "db_typed db" and "\<And>p. p \<in> set ps \<Longrightarrow> utxos db p \<noteq> None"
  shows "fetch_utxos env ps db = Inr (map (\<lambda>p. the (utxos db p)) ps)"
proof -
  have "get_utxos_bulk ps db = Inr (map (utxos db) ps)"
    unfolding get_utxos_bulk_def by (rule mapR_all) (simp add: get_utxo_typed [OF assms(1)])
  moreover have "mapR (\<lambda>(p, item). fetch_one env p item) (map (\<lambda>p. (p, utxos db p)) ps) =
      Inr (map (\<lambda>x. the (snd x)) (map (\<lambda>p. (p, utxos db p)) ps))"
    by (rule mapR_all) (use assms(2) in \<open>force simp: fetch_one_def split: option.split\<close>)
  moreover have "zip ps (map (utxos db) ps) = map (\<lambda>p. (p, utxos db p)) ps" by (simp add: zip_map2 zip_same_conv_map)
  ultimately show ?thesis by (simp add: fetch_utxos_def comp_def)
qed

definition pre_block :: "block_env \<Rightarrow> u32 \<times> BtcBlock \<Rightarrow> PreloadBlock" where
  "pre_block env kb = \<lparr>pb_height = fst kb, pb_block_hash = bb_block_hash (snd kb),
     pb_txdata = map (preload_tx env) (bb_txdata (snd kb))\<rparr>"

lemma preload_utxos_ok:
  assumes ty: "db_typed (st_db s)" and U0: "utxos (st_db s) = U0" and c: "st_utxo_cache s \<subseteq>\<^sub>m U0"
    and ok: "vouts_ok C U0 D U (bk_vout_utxos data)" and sp: "spends_ok env (bb_txdata b) U"
    and d: "distinct (map fst (txs_outs env (bb_txdata b)))"
    and new: "\<And>p v. (p, v) \<in> set (txs_outs env (bb_txdata b)) \<Longrightarrow> C p = Some (v, k) \<and> p \<notin> D"
  shows "\<exists>M'. preload_utxos env s (pre_block env (k, b)) data =
      Inr (\<lparr>pb_height = k, pb_block_hash = bb_block_hash b, pb_txdata = resolve_txs env (born_in C) k U (bb_txdata b)\<rparr>,
        data\<lparr>bk_vout_utxos := M'\<rparr>) \<and>
    vouts_ok C U0 (D \<union> fst ` set (txs_outs env (bb_txdata b))) (apply_txs env (bb_txdata b) U) M'"
proof -
  from preload_txs_ok [OF ok c sp d new] obtain ts M' where
    1: "preload_txs (st_utxo_cache s) k (map (preload_tx env) (bb_txdata b)) (bk_vout_utxos data) = Inr (ts, M')"
      "list_all2 (tx_rel U0) ts (resolve_txs env (born_in C) k U (bb_txdata b))"
      "vouts_ok C U0 (D \<union> fst ` set (txs_outs env (bb_txdata b))) (apply_txs env (bb_txdata b) U) M'" by blast
  have f: "fetch_utxos env (missing_vins ts) (st_db s) = Inr (map (\<lambda>p. the (U0 p)) (missing_vins ts))"
    using fetch_utxos_found [OF ty, of "missing_vins ts" env] missing_rel [OF 1(2)] U0 by auto
  have fill: "fill_txs ts (map (\<lambda>p. the (U0 p)) (missing_vins ts)) = resolve_txs env (born_in C) k U (bb_txdata b)"
    using fill_txs_rel [OF 1(2), of "[]"] by simp
  have same: "ts = resolve_txs env (born_in C) k U (bb_txdata b)" if "missing_vins ts = []"
    using fill fill_txs_none that by simp
  have "preload_utxos env s (pre_block env (k, b)) data =
      Inr (\<lparr>pb_height = k, pb_block_hash = bb_block_hash b, pb_txdata = resolve_txs env (born_in C) k U (bb_txdata b)\<rparr>,
        data\<lparr>bk_vout_utxos := M'\<rparr>)"
    using 1(1) f fill same by (cases "missing_vins ts = []") (simp_all add: preload_utxos_def pre_block_def)
  with 1(3) show ?thesis by blast
qed

section \<open>A batch of blocks\<close>

definition batch_txs :: "(u32 \<times> BtcBlock) list \<Rightarrow> BtcTx list" where
  "batch_txs bs = concat (map (\<lambda>kb. bb_txdata (snd kb)) bs)"

text \<open>The outputs of the batch with the height of their block.\<close>

definition batch_outs :: "block_env \<Rightarrow> (u32 \<times> BtcBlock) list \<Rightarrow> (OutPoint \<times> UTXOValue \<times> u32) list" where
  "batch_outs env bs = concat (map (\<lambda>kb. map (\<lambda>(p, v). (p, v, fst kb)) (txs_outs env (bb_txdata (snd kb)))) bs)"

lemma batch_simps [simp]:
  "batch_txs [] = []" "batch_txs (kb # bs) = bb_txdata (snd kb) @ batch_txs bs"
  "batch_outs env [] = []" "batch_outs env (kb # bs) = map (\<lambda>(p, v). (p, v, fst kb)) (txs_outs env (bb_txdata (snd kb))) @ batch_outs env bs"
  by (simp_all add: batch_txs_def batch_outs_def)

lemma txs_outs_append [simp]: "txs_outs env (xs @ ys) = txs_outs env xs @ txs_outs env ys"
  by (simp add: txs_outs_def)

lemma batch_outs_keys: "map fst (batch_outs env bs) = map fst (txs_outs env (batch_txs bs))"
  by (induction bs) (simp_all add: comp_def case_prod_beta)

text \<open>A batch that a valid chain puts on top of a set of unspent outputs: every output is new, every input spends an
  existing output, and no output is spent twice.\<close>

definition batch_valid :: "block_env \<Rightarrow> (u32 \<times> BtcBlock) list \<Rightarrow> utxo_set \<Rightarrow> bool" where
  "batch_valid env bs U \<longleftrightarrow> distinct (map fst (txs_outs env (batch_txs bs))) \<and>
     fst ` set (txs_outs env (batch_txs bs)) \<inter> dom U = {} \<and> spends_ok env (batch_txs bs) U"

lemma preload_utxos_all_ok:
  assumes ty: "db_typed (st_db s)" and U0: "utxos (st_db s) = U0" and c: "st_utxo_cache s \<subseteq>\<^sub>m U0"
    and "vouts_ok C U0 D U (bk_vout_utxos data)" and "spends_ok env (batch_txs bs) U"
    and "distinct (map fst (batch_outs env bs))"
    and "\<And>p v k. (p, v, k) \<in> set (batch_outs env bs) \<Longrightarrow> C p = Some (v, k) \<and> p \<notin> D"
  shows "\<exists>M'. preload_utxos_all env s (map (pre_block env) bs) data =
      Inr (data\<lparr>bk_vout_utxos := M', bk_blocks := bk_blocks data @ resolve_blocks env (born_in C) U bs\<rparr>) \<and>
    vouts_ok C U0 (D \<union> fst ` set (batch_outs env bs)) (apply_txs env (batch_txs bs) U) M'"
  using assms(4-7)
proof (induction bs arbitrary: D U data)
  case Nil
  then show ?case by (auto intro!: exI [of _ "bk_vout_utxos data"])
next
  case (Cons kb bs)
  obtain k b where kb: "kb = (k, b)" by (cases kb)
  let ?txs = "bb_txdata b"
  have sp: "spends_ok env ?txs U" "spends_ok env (batch_txs bs) (apply_txs env ?txs U)"
    using Cons.prems(2) by (simp_all add: spends_ok_append kb)
  have d: "distinct (map fst (txs_outs env ?txs))" using Cons.prems(3) by (simp add: kb comp_def case_prod_beta)
  have new: "C p = Some (v, k) \<and> p \<notin> D" if "(p, v) \<in> set (txs_outs env ?txs)" for p v
    using Cons.prems(4) [of p v k] that by (force simp: kb)
  obtain M1 where 1: "preload_utxos env s (pre_block env (k, b)) data =
      Inr (\<lparr>pb_height = k, pb_block_hash = bb_block_hash b, pb_txdata = resolve_txs env (born_in C) k U ?txs\<rparr>, data\<lparr>bk_vout_utxos := M1\<rparr>)"
    "vouts_ok C U0 (D \<union> fst ` set (txs_outs env ?txs)) (apply_txs env ?txs U) M1"
    using preload_utxos_ok [OF ty U0 c Cons.prems(1) sp(1) d new] by blast
  let ?data = "data\<lparr>bk_vout_utxos := M1, bk_blocks := bk_blocks data @
    [\<lparr>pb_height = k, pb_block_hash = bb_block_hash b, pb_txdata = resolve_txs env (born_in C) k U ?txs\<rparr>]\<rparr>"
  have "C p = Some (v, h) \<and> p \<notin> D \<union> fst ` set (txs_outs env ?txs)" if "(p, v, h) \<in> set (batch_outs env bs)" for p v h
  proof -
    have "p \<in> fst ` set (batch_outs env bs)" using that by force
    then have "p \<notin> fst ` set (txs_outs env ?txs)" using Cons.prems(3) by (auto simp: kb image_image case_prod_beta)
    then show ?thesis using Cons.prems(4) [of p v h] that by simp
  qed
  moreover have "distinct (map fst (batch_outs env bs))" using Cons.prems(3) by simp
  moreover have "vouts_ok C U0 (D \<union> fst ` set (txs_outs env ?txs)) (apply_txs env ?txs U) (bk_vout_utxos ?data)" using 1(2) by simp
  ultimately obtain M2 where 2: "preload_utxos_all env s (map (pre_block env) bs) ?data =
      Inr (?data\<lparr>bk_vout_utxos := M2, bk_blocks := bk_blocks ?data @ resolve_blocks env (born_in C) (apply_txs env ?txs U) bs\<rparr>)"
    "vouts_ok C U0 (D \<union> fst ` set (txs_outs env ?txs) \<union> fst ` set (batch_outs env bs))
      (apply_txs env (batch_txs bs) (apply_txs env ?txs U)) M2"
    using Cons.IH [OF _ sp(2)] by blast
  have "preload_utxos_all env s (map (pre_block env) (kb # bs)) data =
      Inr (data\<lparr>bk_vout_utxos := M2, bk_blocks := bk_blocks data @ resolve_blocks env (born_in C) U (kb # bs)\<rparr>)"
    using 1(1) 2(1) by (simp add: kb)
  moreover have "vouts_ok C U0 (D \<union> fst ` set (batch_outs env (kb # bs))) (apply_txs env (batch_txs (kb # bs)) U) M2"
    using 2(2) by (simp add: kb image_Un image_image case_prod_beta Un_assoc)
  ultimately show ?case by blast
qed

text \<open>The preprocessing fills the map of outputs.\<close>

definition batch_registry :: "block_env \<Rightarrow> (u32 \<times> BtcBlock) list \<Rightarrow> ScriptRegistryEntry list" where
  "batch_registry env bs = concat (map (\<lambda>kb. concat (map (tx_registry_entries env) (bb_txdata (snd kb)))) bs)"

definition insert_out :: "OutPoint \<times> UTXOValue \<times> u32 \<Rightarrow> (OutPoint \<times> VOutUtxoInfo) list \<Rightarrow> (OutPoint \<times> VOutUtxoInfo) list" where
  "insert_out x = AList.update (fst x) \<lparr>vu_item = fst (snd x), vu_block_height = snd (snd x), vu_spend = False\<rparr>"

lemma fold_insert_vout:
  "fold (insert_vout k) (concat (map pt_vout (map (preload_tx env) txs))) M = fold insert_out (map (\<lambda>(p, v). (p, v, k)) (txs_outs env txs)) M"
proof -
  have "fold (insert_vout k) vs M = fold insert_out (map (\<lambda>v. (vo_outpoint v, vo_cache_tx_out v, k)) vs) M" for vs M
    by (induction vs arbitrary: M) (simp_all add: insert_vout_def insert_out_def)
  moreover have "map (\<lambda>(p, v). (p, v, k)) (txs_outs env txs) =
      map (\<lambda>v. (vo_outpoint v, vo_cache_tx_out v, k)) (concat (map (preload_vouts env) txs))"
    by (simp add: txs_outs_def tx_outs_def map_concat comp_def)
  ultimately show ?thesis by (simp add: comp_def preload_tx_simps)
qed

lemma preprocess_blocks_eq:
  "preprocess_blocks env bs data = (map (pre_block env) bs,
     data\<lparr>bk_script_registry := bk_script_registry data @ batch_registry env bs,
       bk_vout_utxos := fold insert_out (batch_outs env bs) (bk_vout_utxos data)\<rparr>)"
proof (induction bs arbitrary: data)
  case (Cons kb bs)
  obtain k b where "kb = (k, b)" by (cases kb)
  then show ?case using Cons fold_insert_vout
    by (simp add: preprocess_block_def pre_block_def batch_registry_def del: map_map)
qed (simp add: batch_registry_def)

lemma insert_outs:
  assumes "distinct (map fst xs)" and "distinct (map fst M)" and "fst ` set xs \<inter> fst ` set M = {}"
  shows "distinct (map fst (fold insert_out xs M)) \<and> map_of (fold insert_out xs M) = map_of M ++
      (\<lambda>p. map_option (\<lambda>(v, k). \<lparr>vu_item = v, vu_block_height = k, vu_spend = False\<rparr>) (map_of xs p))"
  using assms
proof (induction xs arbitrary: M)
  case (Cons x xs)
  obtain p v k where x: "x = (p, v, k)" by (cases x)
  let ?M = "insert_out x M" and ?f = "\<lambda>(v, k). \<lparr>vu_item = v, vu_block_height = k, vu_spend = False\<rparr>"
  have d: "distinct (map fst ?M)" "fst ` set ?M = insert p (fst ` set M)"
    using Cons.prems(2) by (simp_all add: insert_out_def x AList.distinct_update AList.dom_update)
  then have dis: "fst ` set xs \<inter> fst ` set ?M = {}" using Cons.prems x by auto
  have "p \<notin> fst ` set xs" using Cons.prems(1) x by simp
  then have "map_of xs p = None" by (simp add: map_of_eq_None_iff)
  then have "map_of ?M ++ (\<lambda>q. map_option ?f (map_of xs q)) = map_of M ++ (\<lambda>q. map_option ?f (map_of (x # xs) q))"
    by (auto simp: x insert_out_def AList.update_conv' map_add_def fun_eq_iff split: option.splits)
  then show ?case using Cons.IH [OF _ d(1) dis] Cons.prems(1) by simp
qed simp

end
