(* ===== verification/Balance_Process.thy ===== *)
theory Balance_Process
  imports Balance_Ledger
begin

text \<open>
  The balance changes of a batch: the deltas the code sums per block are the differences of the address's unspent
  outputs, and the balances it carries through the blocks are their sums.
\<close>

section \<open>The amounts of a block\<close>

fun spent_values :: "block_env \<Rightarrow> utxo_set \<Rightarrow> BtcTx list \<Rightarrow> UTXOValue list" where
  "spent_values env U [] = []"
| "spent_values env U (tx # txs) = map (\<lambda>p. the (U p)) (tx_ins tx) @ spent_values env (apply_tx env tx U) txs"

definition touched :: "block_env \<Rightarrow> utxo_set \<Rightarrow> BtcTx list \<Rightarrow> USDBScriptHash set" where
  "touched env U txs = uv_script_hash ` (set (spent_values env U txs) \<union> set (map snd (txs_outs env txs)))"

lemma dom_apply_tx: "dom (apply_tx env tx U) \<subseteq> dom U \<union> fst ` set (tx_outs env tx)"
  by (auto simp: apply_tx_def dom_map_of_conv_image_fst)

lemma disjoint_step: "A \<inter> B = {} \<Longrightarrow> B \<inter> X = {} \<Longrightarrow> Y \<subseteq> X \<union> A \<Longrightarrow> B \<inter> Y = {}"
  by blast

lemma wsum_apply_txs:
  assumes "finite (dom U)" and "spends_ok env txs U" and "distinct (map fst (txs_outs env txs))"
    and "fst ` set (txs_outs env txs) \<inter> dom U = {}"
  shows "wsum (apply_txs env txs U) sh = wsum U sh + (amount (map snd (txs_outs env txs)) sh - amount (spent_values env U txs) sh)"
  using assms
proof (induction txs arbitrary: U)
  case (Cons tx txs)
  have "fst ` set (tx_outs env tx) \<inter> fst ` set (txs_outs env txs) = {}" "fst ` set (txs_outs env txs) \<inter> dom U = {}"
    using Cons.prems(3,4) by (simp_all add: image_Un Int_Un_distrib2)
  then have "fst ` set (txs_outs env txs) \<inter> dom (apply_tx env tx U) = {}" using dom_apply_tx by (rule disjoint_step)
  then have "wsum (apply_txs env txs (apply_tx env tx U)) sh = wsum (apply_tx env tx U) sh +
      (amount (map snd (txs_outs env txs)) sh - amount (spent_values env (apply_tx env tx U) txs) sh)"
    using Cons.prems by (intro Cons.IH) (simp_all add: finite_apply_tx)
  moreover have "wsum (apply_tx env tx U) sh =
      wsum U sh - amount (map (\<lambda>p. the (U p)) (tx_ins tx)) sh + amount (map snd (tx_outs env tx)) sh"
    using Cons.prems by (intro wsum_apply_tx) (auto simp: image_Un)
  ultimately show ?case by (simp add: algebra_simps)
qed simp

lemma untouched_amounts:
  assumes "sh \<notin> touched env U txs"
  shows "amount (spent_values env U txs) sh = 0" "amount (map snd (txs_outs env txs)) sh = 0"
  using assms by (auto simp: touched_def intro!: amount_other)

section \<open>The history of a block\<close>

definition history_of :: "u32 \<Rightarrow> (USDBScriptHash \<Rightarrow> i64) \<Rightarrow> USDBScriptHash set \<Rightarrow> (USDBScriptHash \<times> BalanceHistoryData) list \<Rightarrow> bool" where
  "history_of k f T m \<longleftrightarrow> distinct (map fst m) \<and> (\<forall>sh. sh \<notin> T \<longrightarrow> f sh = 0) \<and>
     map_of m = (\<lambda>sh. if sh \<in> T then Some \<lparr>hd_block_height = k, hd_delta = f sh, hd_balance = 0\<rparr> else None)"

lemma add_delta_history:
  "history_of k f T m \<Longrightarrow> history_of k (f(sh := f sh + d)) (insert sh T) (add_delta k sh d m)"
  by (auto simp: history_of_def add_delta_def AList.distinct_update AList.update_conv' fun_eq_iff)

lemma add_outs_history:
  assumes "history_of k f T m"
  shows "history_of k (\<lambda>sh. f sh + amount us sh) (T \<union> uv_script_hash ` set us)
    (fold (\<lambda>u. add_delta k (uv_script_hash u) (uv_value u)) us m)"
  using assms
proof (induction us arbitrary: f T m)
  case (Cons u us)
  have "(\<lambda>sh. (f(uv_script_hash u := f (uv_script_hash u) + uv_value u)) sh + amount us sh) = (\<lambda>sh. f sh + amount (u # us) sh)"
    by (auto simp: fun_eq_iff)
  then show ?case using Cons.IH [OF add_delta_history [OF Cons.prems, of "uv_script_hash u" "uv_value u"]] by simp
qed simp

lemma add_ins_history:
  assumes "history_of k f T m"
  shows "history_of k (\<lambda>sh. f sh - amount us sh) (T \<union> uv_script_hash ` set us)
    (fold (\<lambda>u. add_delta k (uv_script_hash u) (- uv_value u)) us m)"
  using assms
proof (induction us arbitrary: f T m)
  case (Cons u us)
  have "(\<lambda>sh. (f(uv_script_hash u := f (uv_script_hash u) + - uv_value u)) sh - amount us sh) = (\<lambda>sh. f sh - amount (u # us) sh)"
    by (auto simp: fun_eq_iff)
  then show ?case using Cons.IH [OF add_delta_history [OF Cons.prems, of "uv_script_hash u" "- uv_value u"]] by simp
qed simp

lemma vin_utxo_resolved: "set ps \<subseteq> dom U \<Longrightarrow> mapR vin_utxo (map (resolve_vin born k U) ps) = Inr (map (\<lambda>p. the (U p)) ps)"
proof (induction ps)
  case (Cons p ps)
  then obtain u where "U p = Some u" by auto
  then show ?case using Cons by (simp add: vin_utxo_def resolve_vin_def)
qed simp

lemma txs_history_resolved:
  assumes "history_of k f T m" and "spends_ok env txs U"
  shows "\<exists>m'. txs_history k (resolve_txs env born k U txs) m = Inr m' \<and>
    history_of k (\<lambda>sh. f sh + (amount (map snd (txs_outs env txs)) sh - amount (spent_values env U txs) sh)) (T \<union> touched env U txs) m'"
  using assms
proof (induction txs arbitrary: U f T m)
  case (Cons tx txs)
  let ?ins = "map (\<lambda>p. the (U p)) (tx_ins tx)" and ?outs = "map snd (tx_outs env tx)"
  let ?m = "fold (\<lambda>u. add_delta k (uv_script_hash u) (uv_value u)) ?outs
    (fold (\<lambda>u. add_delta k (uv_script_hash u) (- uv_value u)) ?ins m)"
  have in_dom: "set (tx_ins tx) \<subseteq> dom U" "spends_ok env txs (apply_tx env tx U)" using Cons.prems(2) by simp_all
  have "tx_history k \<lparr>pt_txid = bt_txid tx, pt_vin = map (resolve_vin born k U) (tx_ins tx), pt_vout = preload_vouts env tx\<rparr> m = Inr ?m"
    using in_dom(1) by (simp add: tx_history_def vin_utxo_resolved tx_outs_def fold_map comp_def)
  moreover have "history_of k (\<lambda>sh. f sh - amount ?ins sh + amount ?outs sh)
      (T \<union> uv_script_hash ` set ?ins \<union> uv_script_hash ` set ?outs) ?m"
    by (intro add_outs_history add_ins_history Cons.prems(1))
  from Cons.IH [OF this in_dom(2)] obtain m' where
    "txs_history k (resolve_txs env born k (apply_tx env tx U) txs) ?m = Inr m'"
    "history_of k (\<lambda>sh. f sh - amount ?ins sh + amount ?outs sh +
        (amount (map snd (txs_outs env txs)) sh - amount (spent_values env (apply_tx env tx U) txs) sh))
      (T \<union> uv_script_hash ` set ?ins \<union> uv_script_hash ` set ?outs \<union> touched env (apply_tx env tx U) txs) m'" by blast
  moreover have "(\<lambda>sh. f sh - amount ?ins sh + amount ?outs sh +
        (amount (map snd (txs_outs env txs)) sh - amount (spent_values env (apply_tx env tx U) txs) sh)) =
      (\<lambda>sh. f sh + (amount (map snd (txs_outs env (tx # txs))) sh - amount (spent_values env U (tx # txs)) sh))"
    by (simp add: algebra_simps)
  moreover have "T \<union> uv_script_hash ` set ?ins \<union> uv_script_hash ` set ?outs \<union> touched env (apply_tx env tx U) txs =
      T \<union> touched env U (tx # txs)" by (auto simp: touched_def image_Un)
  ultimately show ?case by simp
qed (simp add: touched_def)

section \<open>Carrying the balances through the blocks\<close>

lemma settle_history_ok:
  assumes "distinct (map fst m)"
    and "\<And>sh h. (sh, h) \<in> set m \<Longrightarrow> \<exists>e. map_of bal sh = Some e \<and> hd_balance e + hd_delta h = g sh \<and> 0 \<le> sint (g sh)"
    and "distinct (map fst bal)"
  shows "\<exists>bal'. settle_history m bal = Inr (map (\<lambda>(sh, h). (sh, h\<lparr>hd_balance := g sh\<rparr>)) m, bal') \<and>
    distinct (map fst bal') \<and>
    map_of bal' = (\<lambda>sh. case map_of m sh of Some h \<Rightarrow> Some (h\<lparr>hd_balance := g sh\<rparr>) | None \<Rightarrow> map_of bal sh)"
  using assms
proof (induction m arbitrary: bal)
  case (Cons x m)
  obtain s h where x: "x = (s, h)" by (cases x)
  obtain e where e: "map_of bal s = Some e" "hd_balance e + hd_delta h = g s" "0 \<le> sint (g s)"
    using Cons.prems(2) [of s h] x by auto
  let ?h = "h\<lparr>hd_balance := g s\<rparr>" and ?bal = "AList.update s (h\<lparr>hd_balance := g s\<rparr>) bal"
  have s: "s \<notin> fst ` set m" using Cons.prems(1) x by simp
  have "\<exists>e. map_of ?bal sh = Some e \<and> hd_balance e + hd_delta h' = g sh \<and> 0 \<le> sint (g sh)" if "(sh, h') \<in> set m" for sh h'
  proof -
    have "sh \<noteq> s" using s that by force
    then show ?thesis using Cons.prems(2) [of sh h'] that by (simp add: AList.update_conv')
  qed
  moreover have "distinct (map fst ?bal)" "distinct (map fst m)"
    using Cons.prems(1,3) by (simp_all add: AList.distinct_update)
  ultimately obtain bal' where b: "settle_history m ?bal = Inr (map (\<lambda>(sh, h). (sh, h\<lparr>hd_balance := g sh\<rparr>)) m, bal')"
    "distinct (map fst bal')"
    "map_of bal' = (\<lambda>sh. case map_of m sh of Some h \<Rightarrow> Some (h\<lparr>hd_balance := g sh\<rparr>) | None \<Rightarrow> map_of ?bal sh)"
    using Cons.IH [of ?bal] by blast
  have "map_of m s = None" using s by (simp add: map_of_eq_None_iff)
  then have "map_of bal' = (\<lambda>sh. case map_of (x # m) sh of Some h \<Rightarrow> Some (h\<lparr>hd_balance := g sh\<rparr>) | None \<Rightarrow> map_of bal sh)"
    unfolding b(3) x by (auto simp: fun_eq_iff AList.update_conv' split: option.splits)
  then show ?case using b(1,2) e by (simp add: x Let_def)
qed simp

text \<open>The settled entries of the blocks of a batch.\<close>

definition block_entries :: "block_env \<Rightarrow> utxo_set \<Rightarrow> u32 \<Rightarrow> BtcTx list \<Rightarrow> USDBScriptHash \<rightharpoonup> BalanceHistoryData" where
  "block_entries env U k txs = (\<lambda>sh. if sh \<in> touched env U txs
     then Some \<lparr>hd_block_height = k, hd_delta = wsum (apply_txs env txs U) sh - wsum U sh,
       hd_balance = wsum (apply_txs env txs U) sh\<rparr> else None)"

fun entries_ok :: "block_env \<Rightarrow> utxo_set \<Rightarrow> (u32 \<times> BtcBlock) list \<Rightarrow> (USDBScriptHash \<times> BalanceHistoryData) list list \<Rightarrow> bool" where
  "entries_ok env U [] ess \<longleftrightarrow> ess = []"
| "entries_ok env U (kb # bs) ess \<longleftrightarrow> (\<exists>es ess'. ess = es # ess' \<and> distinct (map fst es) \<and>
     map_of es = block_entries env U (fst kb) (bb_txdata (snd kb)) \<and>
     entries_ok env (apply_txs env (bb_txdata (snd kb)) U) bs ess')"

fun batch_touched :: "block_env \<Rightarrow> utxo_set \<Rightarrow> (u32 \<times> BtcBlock) list \<Rightarrow> USDBScriptHash set" where
  "batch_touched env U [] = {}"
| "batch_touched env U (kb # bs) = touched env U (bb_txdata (snd kb)) \<union> batch_touched env (apply_txs env (bb_txdata (snd kb)) U) bs"

text \<open>No address ever holds more than \<open>i64::MAX\<close>.\<close>

fun totals_ok :: "block_env \<Rightarrow> utxo_set \<Rightarrow> (u32 \<times> BtcBlock) list \<Rightarrow> bool" where
  "totals_ok env U [] \<longleftrightarrow> True"
| "totals_ok env U (kb # bs) \<longleftrightarrow> (\<forall>sh. total (apply_txs env (bb_txdata (snd kb)) U) sh < 2 ^ 63) \<and>
     totals_ok env (apply_txs env (bb_txdata (snd kb)) U) bs"

definition carries :: "(USDBScriptHash \<times> BalanceHistoryData) list \<Rightarrow> utxo_set \<Rightarrow> u32 \<Rightarrow> USDBScriptHash set \<Rightarrow> bool" where
  "carries bal U n T \<longleftrightarrow> distinct (map fst bal) \<and> dom (map_of bal) = T \<and>
     (\<forall>sh e. map_of bal sh = Some e \<longrightarrow> hd_balance e = wsum U sh \<and> hd_block_height e \<le> n)"

text \<open>What a batch needs of its blocks, one block at a time.\<close>

lemma batch_valid_Cons:
  assumes "batch_valid env (kb # bs) U"
  shows "spends_ok env (bb_txdata (snd kb)) U" "distinct (map fst (txs_outs env (bb_txdata (snd kb))))"
    "fst ` set (txs_outs env (bb_txdata (snd kb))) \<inter> dom U = {}"
    "batch_valid env bs (apply_txs env (bb_txdata (snd kb)) U)"
proof -
  let ?txs = "bb_txdata (snd kb)"
  have dom: "dom (apply_txs env txs V) \<subseteq> dom V \<union> fst ` set (txs_outs env txs)" for txs V
  proof (induction txs arbitrary: V)
    case (Cons tx txs)
    show ?case using Cons [of "apply_tx env tx V"] dom_apply_tx [of env tx V] by (auto simp: image_Un)
  qed simp
  show 1: "spends_ok env ?txs U" "distinct (map fst (txs_outs env ?txs))" "fst ` set (txs_outs env ?txs) \<inter> dom U = {}"
    using assms by (auto simp: batch_valid_def spends_ok_append image_Un Int_Un_distrib2)
  have "fst ` set (txs_outs env ?txs) \<inter> fst ` set (txs_outs env (batch_txs bs)) = {}"
    "fst ` set (txs_outs env (batch_txs bs)) \<inter> dom U = {}"
    using assms by (simp_all add: batch_valid_def image_Un Int_Un_distrib2)
  then have "fst ` set (txs_outs env (batch_txs bs)) \<inter> dom (apply_txs env ?txs U) = {}" using dom by (rule disjoint_step)
  then show "batch_valid env bs (apply_txs env ?txs U)" using assms by (simp add: batch_valid_def spends_ok_append)
qed

lemma map_of_map_settled: "map_of (map (\<lambda>(sh, h). (sh, h\<lparr>hd_balance := g sh\<rparr>)) m) sh = map_option (\<lambda>h. h\<lparr>hd_balance := g sh\<rparr>) (map_of m sh)"
  by (induction m) auto

lemma settle_block_ok:
  assumes fin: "finite (dom U)" and sp: "spends_ok env txs U" and d: "distinct (map fst (txs_outs env txs))"
    and new: "fst ` set (txs_outs env txs) \<inter> dom U = {}" and tot: "\<And>sh. total (apply_txs env txs U) sh < 2 ^ 63"
    and c: "carries bal U n T" and T: "touched env U txs \<subseteq> T" and n: "n \<le> k"
  shows "\<exists>m es bal'. block_history \<lparr>pb_height = k, pb_block_hash = bh, pb_txdata = resolve_txs env born k U txs\<rparr> = Inr m \<and>
    settle_history m bal = Inr (es, bal') \<and> distinct (map fst es) \<and> map_of es = block_entries env U k txs \<and>
    carries bal' (apply_txs env txs U) k T"
proof -
  let ?U = "apply_txs env txs U" and ?T = "touched env U txs"
  let ?f = "\<lambda>sh. amount (map snd (txs_outs env txs)) sh - amount (spent_values env U txs) sh"
  have "history_of k (\<lambda>sh. 0) {} []" by (simp add: history_of_def)
  from txs_history_resolved [OF this sp, of born] obtain m where
    m: "block_history \<lparr>pb_height = k, pb_block_hash = bh, pb_txdata = resolve_txs env born k U txs\<rparr> = Inr m"
      "distinct (map fst m)" "map_of m = (\<lambda>sh. if sh \<in> ?T then Some \<lparr>hd_block_height = k, hd_delta = ?f sh, hd_balance = 0\<rparr> else None)"
    by (auto simp: block_history_def history_of_def)
  have f: "wsum ?U sh = wsum U sh + ?f sh" for sh using wsum_apply_txs [OF fin sp d new] .
  have pre: "\<exists>e. map_of bal sh = Some e \<and> hd_balance e + hd_delta h = wsum ?U sh \<and> 0 \<le> sint (wsum ?U sh)" if "(sh, h) \<in> set m" for sh h
  proof -
    have h: "map_of m sh = Some h" using m(2) that by simp
    then have sh: "sh \<in> ?T" "hd_delta h = ?f sh" unfolding m(3) by (auto split: if_splits)
    then have "sh \<in> dom (map_of bal)" using c T by (auto simp only: carries_def)
    then obtain e where "map_of bal sh = Some e" by blast
    then show ?thesis using c sh(2) f sint_wsum [OF tot] by (auto simp: carries_def)
  qed
  obtain bal' where b: "settle_history m bal = Inr (map (\<lambda>(sh, h). (sh, h\<lparr>hd_balance := wsum ?U sh\<rparr>)) m, bal')" "distinct (map fst bal')"
    "map_of bal' = (\<lambda>sh. case map_of m sh of Some h \<Rightarrow> Some (h\<lparr>hd_balance := wsum ?U sh\<rparr>) | None \<Rightarrow> map_of bal sh)"
    using settle_history_ok [OF m(2) pre] c by (auto simp: carries_def)
  let ?es = "map (\<lambda>(sh, h). (sh, h\<lparr>hd_balance := wsum ?U sh\<rparr>)) m"
  have "map_of ?es = block_entries env U k txs"
    by (rule ext) (simp add: map_of_map_settled m(3) block_entries_def f)
  moreover have "distinct (map fst ?es)" using m(2) by (simp add: comp_def case_prod_beta)
  moreover have "carries bal' ?U k T"
  proof -
    have "dom (map_of bal') = ?T \<union> dom (map_of bal)" unfolding b(3) m(3) by (auto simp: dom_def split: if_splits)
    also have "\<dots> = T" using c T by (simp add: carries_def Un_absorb1)
    finally have "dom (map_of bal') = T" .
    moreover have "hd_balance e = wsum ?U sh \<and> hd_block_height e \<le> k" if "map_of bal' sh = Some e" for sh e
    proof (cases "sh \<in> ?T")
      case True
      then show ?thesis using that unfolding b(3) m(3) by auto
    next
      case False
      then have "map_of bal sh = Some e" using that unfolding b(3) m(3) by simp
      then have "hd_balance e = wsum U sh" "hd_block_height e \<le> n" using c unfolding carries_def by blast+
      then show ?thesis using n untouched_amounts [OF False] f [of sh] order_trans [of "hd_block_height e" n k] by simp
    qed
    ultimately show ?thesis using b(2) by (simp add: carries_def)
  qed
  ultimately show ?thesis using m(1) b(1) by blast
qed

lemma settle_blocks_ok:
  assumes "finite (dom U)" and "batch_valid env bs U" and "totals_ok env U bs" and "carries bal U n T"
    and "batch_touched env U bs \<subseteq> T" and "sorted (n # map fst bs)"
  shows "\<exists>ms ess bal'. mapR block_history (resolve_blocks env born U bs) = Inr ms \<and> settle_blocks ms bal = Inr (ess, bal') \<and>
    entries_ok env U bs ess \<and> carries bal' (apply_txs env (batch_txs bs) U) (last (n # map fst bs)) T"
  using assms
proof (induction bs arbitrary: U bal n)
  case (Cons kb bs)
  obtain k b where kb: "kb = (k, b)" by (cases kb)
  let ?txs = "bb_txdata b"
  note v = batch_valid_Cons [OF Cons.prems(2), unfolded kb snd_conv]
  have tot: "total (apply_txs env ?txs U) sh < 2 ^ 63" for sh using Cons.prems(3) by (simp add: kb)
  have "touched env U ?txs \<subseteq> T" "n \<le> k" using Cons.prems(5,6) by (simp_all add: kb)
  then obtain m es bal1 where
    1: "block_history \<lparr>pb_height = k, pb_block_hash = bb_block_hash b, pb_txdata = resolve_txs env born k U ?txs\<rparr> = Inr m"
      "settle_history m bal = Inr (es, bal1)" "distinct (map fst es)" "map_of es = block_entries env U k ?txs"
      "carries bal1 (apply_txs env ?txs U) k T"
    using settle_block_ok [OF Cons.prems(1) v(1-3) tot Cons.prems(4)] by blast
  have "\<exists>ms ess bal'. mapR block_history (resolve_blocks env born (apply_txs env ?txs U) bs) = Inr ms \<and>
      settle_blocks ms bal1 = Inr (ess, bal') \<and> entries_ok env (apply_txs env ?txs U) bs ess \<and>
      carries bal' (apply_txs env (batch_txs bs) (apply_txs env ?txs U)) (last (k # map fst bs)) T"
    by (rule Cons.IH) (use Cons.prems(1,3,5,6) v(4) 1(5) in \<open>simp_all add: kb finite_apply_txs\<close>)
  then obtain ms ess bal' where 2: "mapR block_history (resolve_blocks env born (apply_txs env ?txs U) bs) = Inr ms"
      "settle_blocks ms bal1 = Inr (ess, bal')" "entries_ok env (apply_txs env ?txs U) bs ess"
      "carries bal' (apply_txs env (batch_txs bs) (apply_txs env ?txs U)) (last (k # map fst bs)) T" by blast
  have "entries_ok env U (kb # bs) (es # ess)" using 1(3,4) 2(3) by (simp add: kb)
  moreover have "mapR block_history (resolve_blocks env born U (kb # bs)) = Inr (m # ms)" using 1(1) 2(1) by (simp add: kb)
  moreover have "settle_blocks (m # ms) bal = Inr (es # ess, bal')" using 1(2) 2(2) by simp
  ultimately show ?case using 2(4) by (fastforce simp: kb)
qed simp

section \<open>Preloading and processing a batch\<close>

lemma mapR_Inr:
  assumes "\<And>x. x \<in> set xs \<Longrightarrow> \<exists>y. f x = Inr y \<and> Q x y"
  shows "\<exists>ys. mapR f xs = Inr ys \<and> list_all2 Q xs ys"
  using assms
proof (induction xs)
  case (Cons x xs)
  obtain y where "f x = Inr y" "Q x y" using Cons.prems [of x] by auto
  moreover obtain ys where "mapR f xs = Inr ys" "list_all2 Q xs ys" using Cons by auto
  ultimately show ?case by auto
qed simp

lemma mapR_append: "mapR f xs = Inr ys \<Longrightarrow> mapR f xs' = Inr ys' \<Longrightarrow> mapR f (xs @ xs') = Inr (ys @ ys')"
  by (induction xs arbitrary: ys) (auto split: sum.splits)

lemma tx_addresses_resolved:
  "spends_ok env txs U \<Longrightarrow> \<exists>as. mapR tx_addresses (resolve_txs env born k U txs) = Inr as \<and> set (concat as) = touched env U txs"
proof (induction txs arbitrary: U)
  case (Cons tx txs)
  have tx: "set (tx_ins tx) \<subseteq> dom U" "spends_ok env txs (apply_tx env tx U)" using Cons.prems by simp_all
  from Cons.IH [OF tx(2)] obtain as where
    as: "mapR tx_addresses (resolve_txs env born k (apply_tx env tx U) txs) = Inr as" "set (concat as) = touched env (apply_tx env tx U) txs"
    by blast
  let ?a = "map uv_script_hash (map (\<lambda>p. the (U p)) (tx_ins tx)) @ map (\<lambda>v. uv_script_hash (vo_cache_tx_out v)) (preload_vouts env tx)"
  have "tx_addresses \<lparr>pt_txid = bt_txid tx, pt_vin = map (resolve_vin born k U) (tx_ins tx), pt_vout = preload_vouts env tx\<rparr> = Inr ?a"
    using tx(1) by (simp add: tx_addresses_def vin_utxo_resolved)
  then have "mapR tx_addresses (resolve_txs env born k U (tx # txs)) = Inr (?a # as)" using as(1) by simp
  moreover have "set (concat (?a # as)) = touched env U (tx # txs)"
    using as(2) by (simp add: touched_def tx_outs_def image_Un image_image Un_assoc Un_left_commute)
  ultimately show ?case by blast
qed (simp add: touched_def)

lemma batch_addresses:
  "spends_ok env (batch_txs bs) U \<Longrightarrow> \<exists>as. mapR tx_addresses (concat (map pb_txdata (resolve_blocks env born U bs))) = Inr as \<and>
     set (concat as) = batch_touched env U bs"
proof (induction bs arbitrary: U)
  case (Cons kb bs)
  obtain k b where kb: "kb = (k, b)" by (cases kb)
  let ?txs = "bb_txdata b"
  have sp: "spends_ok env ?txs U" "spends_ok env (batch_txs bs) (apply_txs env ?txs U)"
    using Cons.prems by (simp_all add: kb spends_ok_append)
  obtain as where as: "mapR tx_addresses (resolve_txs env born k U ?txs) = Inr as" "set (concat as) = touched env U ?txs"
    using tx_addresses_resolved [OF sp(1)] by blast
  obtain as' where as': "mapR tx_addresses (concat (map pb_txdata (resolve_blocks env born (apply_txs env ?txs U) bs))) = Inr as'"
    "set (concat as') = batch_touched env (apply_txs env ?txs U) bs" using Cons.IH [OF sp(2)] by blast
  have "set (concat (as @ as')) = batch_touched env U (kb # bs)" using as(2) as'(2) by (simp add: kb)
  then show ?case using mapR_append [OF as(1) as'(1)] by (auto simp: kb)
qed simp

text \<open>The balance an address has before the batch, from the cache or the database.\<close>

definition loads :: "bh_state \<Rightarrow> utxo_set \<Rightarrow> u32 \<Rightarrow> bool" where
  "loads s U n \<longleftrightarrow> (\<forall>sh. \<exists>e. load_balance s n sh = Inr (sh, e) \<and> hd_balance e = wsum U sh \<and> hd_block_height e \<le> n)"

lemma preload_balances_ok:
  assumes "loads s U n" and "spends_ok env (batch_txs bs) U" and "bk_blocks data = resolve_blocks env born U bs"
  shows "\<exists>bal. preload_balances s n data = Inr (data\<lparr>bk_balances := bal\<rparr>) \<and> carries bal U n (batch_touched env U bs)"
proof -
  obtain as where as: "mapR tx_addresses (concat (map pb_txdata (bk_blocks data))) = Inr as"
    "set (concat as) = batch_touched env U bs" using batch_addresses [OF assms(2), of born] assms(3) by auto
  let ?as = "sort (remdups (concat as))"
  let ?Q = "\<lambda>sh x. fst x = sh \<and> hd_balance (snd x) = wsum U sh \<and> hd_block_height (snd x) \<le> n"
  have "\<exists>y. load_balance s n sh = Inr y \<and> ?Q sh y" for sh using assms(1) unfolding loads_def by fastforce
  then obtain bal where bal: "mapR (load_balance s n) ?as = Inr bal" "list_all2 ?Q ?as bal"
    using mapR_Inr [of ?as "load_balance s n" ?Q] by blast
  have "map fst bal = ?as" using bal(2) by (auto simp: list_all2_conv_all_nth intro!: nth_equalityI)
  moreover from this have "distinct (map fst bal)" "dom (map_of bal) = batch_touched env U bs"
    using as(2) by (simp_all add: dom_map_of_conv_image_fst del: set_concat set_map add: set_map [symmetric])
  moreover have "hd_balance e = wsum U sh \<and> hd_block_height e \<le> n" if "map_of bal sh = Some e" for sh e
    using bal(2) map_of_SomeD [OF that] by (auto simp: list_all2_conv_all_nth in_set_conv_nth)
  ultimately have "carries bal U n (batch_touched env U bs)" by (simp add: carries_def)
  moreover have "preload_balances s n data = Inr (data\<lparr>bk_balances := bal\<rparr>)"
    using as(1) bal(1) by (simp add: preload_balances_def Let_def)
  ultimately show ?thesis by blast
qed

lemma resolve_blocks_heights: "map pb_height (resolve_blocks env born U bs) = map fst bs"
  by (induction bs arbitrary: U) auto

lemma range_heights_sorted: "sorted_wrt (<) (range_heights a b)"
proof -
  have "(of_nat x :: u32) < of_nat y" if "x < y" "y < unat b" for x y
    using that unat_less_2p [of b] by (simp add: word_less_nat_alt unat_of_nat)
  then show ?thesis unfolding range_heights_def sorted_wrt_map
    by (intro sorted_wrt_mono_in [OF sorted_wrt_upt]) auto
qed

lemma set_range_heights: "set (range_heights a b) = {k. a \<le> k \<and> k < b}"
proof (intro set_eqI iffI)
  fix k assume "k \<in> {k. a \<le> k \<and> k < b}"
  then show "k \<in> set (range_heights a b)" unfolding range_heights_def
    by (auto simp: word_le_nat_alt word_less_nat_alt intro!: image_eqI [where x = "unat k"])
next
  fix k assume "k \<in> set (range_heights a b)"
  then obtain x where "k = of_nat x" "unat a \<le> x" "x < unat b" by (auto simp: range_heights_def)
  then show "k \<in> {k. a \<le> k \<and> k < b}" using unat_less_2p [of b] by (simp add: word_le_nat_alt word_less_nat_alt unat_of_nat)
qed

text \<open>The data of a processed batch.\<close>

definition batch_deltas :: "(u32 \<times> BtcBlock) list \<Rightarrow> (USDBScriptHash \<times> BalanceHistoryData) list list \<Rightarrow> BlockBalanceDelta list" where
  "batch_deltas bs ess = map (\<lambda>(kb, es). \<lparr>bl_block_height = fst kb, bl_block_hash = bb_block_hash (snd kb),
     bl_entries = history_entries es\<rparr>) (zip bs ess)"

definition batch_result :: "block_env \<Rightarrow> utxo_set \<Rightarrow> u32 \<times> u32 \<Rightarrow> (u32 \<times> BtcBlock) list \<Rightarrow> BatchBlockData \<Rightarrow> bool" where
  "batch_result env U r bs data \<longleftrightarrow> (\<exists>M bal ess.
     data = \<lparr>bk_block_range = r, bk_blocks = resolve_blocks env (born_in (map_of (batch_outs env bs))) U bs, bk_vout_utxos = M,
       bk_balances = bal,
       bk_balance_history = sort_key (\<lambda>e. (bh_script_hash e, bh_block_height e)) (concat (map history_entries ess)),
       bk_block_balance_deltas = batch_deltas bs ess, bk_script_registry = batch_registry env bs\<rparr> \<and>
     vouts_ok (map_of (batch_outs env bs)) U (fst ` set (batch_outs env bs)) (apply_txs env (batch_txs bs) U) M \<and>
     entries_ok env U bs ess \<and> carries bal (apply_txs env (batch_txs bs) U) (snd r - 1) (batch_touched env U bs))"

lemma vouts_start:
  assumes "batch_valid env bs U"
  shows "vouts_ok (map_of (batch_outs env bs)) U {} U (fold insert_out (batch_outs env bs) [])"
proof -
  let ?xs = "batch_outs env bs"
  have d: "distinct (map fst ?xs)" and new: "fst ` set ?xs \<inter> dom U = {}"
    using assms by (simp_all add: batch_valid_def batch_outs_keys set_map [symmetric] del: set_map)
  have i: "distinct (map fst (fold insert_out ?xs []))" "map_of (fold insert_out ?xs []) =
      (\<lambda>p. map_option (\<lambda>(v, k). \<lparr>vu_item = v, vu_block_height = k, vu_spend = False\<rparr>) (map_of ?xs p))"
    using insert_outs [OF d, of "[]"] by simp_all
  have "U p = None" if "map_of ?xs p = Some x" for p x
  proof -
    have "p \<in> fst ` set ?xs" using that by (metis map_of_eq_None_iff option.distinct(1))
    then show ?thesis using new by blast
  qed
  then have "vout_ok (map_of ?xs p) (U p) (p \<in> {}) (U p) (map_of (fold insert_out ?xs []) p)" for p
    by (cases "map_of ?xs p") (auto simp: i(2) vout_ok_def)
  then show ?thesis using i(1) by (simp add: vouts_ok_def)
qed

lemma zip_deltas:
  "length ess = length bs \<Longrightarrow>
   map (\<lambda>(b, es). \<lparr>bl_block_height = pb_height b, bl_block_hash = pb_block_hash b, bl_entries = es\<rparr>)
     (zip (resolve_blocks env born U bs) (map history_entries ess)) = batch_deltas bs ess"
proof (induction bs arbitrary: U ess)
  case (Cons kb bs)
  then show ?case by (cases ess; cases kb) (simp_all add: batch_deltas_def)
qed (simp add: batch_deltas_def)

lemma entries_ok_length: "entries_ok env U bs ess \<Longrightarrow> length ess = length bs"
  by (induction bs arbitrary: U ess) auto

lemma load_blocks_heights: "mapR (load_block env) hs = Inr bs \<Longrightarrow> map fst bs = hs"
  by (induction hs arbitrary: bs) (auto simp: load_block_def split: sum.splits)

lemma last_range:
  assumes "a < (b :: u32)"
  shows "last (range_heights a b) = b - 1" "range_heights a b \<noteq> []"
proof -
  have "unat a < unat b" using assms by (simp add: word_less_nat_alt)
  moreover have "b \<noteq> 0" using assms by auto
  then have "of_nat (unat b - 1) = b - 1" by (simp add: of_nat_diff Suc_le_eq unat_gt_0)
  ultimately show "last (range_heights a b) = b - 1" "range_heights a b \<noteq> []"
    unfolding range_heights_def by (simp_all add: last_map)
qed

lemma batch_data:
  assumes ty: "db_typed (st_db s)" and U: "utxos (st_db s) = U" and fin: "finite (dom U)" and c: "st_utxo_cache s \<subseteq>\<^sub>m U"
    and ab: "0 < a" "a < b" and bs: "mapR (load_block env) (range_heights a b) = Inr bs"
    and v: "batch_valid env bs U" and tot: "totals_ok env U bs" and l: "loads s U (a - 1)"
  shows "\<exists>data data'. preload env s (a, b) = Inr data \<and> process data = Inr data' \<and> batch_result env U (a, b) bs data'"
proof -
  let ?C = "map_of (batch_outs env bs)" and ?xs = "batch_outs env bs"
  let ?data0 = "BatchBlockData_new (a, b)\<lparr>bk_script_registry := batch_registry env bs, bk_vout_utxos := fold insert_out ?xs []\<rparr>"
  have d: "distinct (map fst ?xs)" and sp: "spends_ok env (batch_txs bs) U"
    using v by (simp_all add: batch_valid_def batch_outs_keys)
  have v0: "vouts_ok ?C U {} U (bk_vout_utxos ?data0)" using vouts_start [OF v] by simp
  have "?C p = Some (w, k) \<and> p \<notin> {}" if "(p, w, k) \<in> set ?xs" for p w k using that d by simp
  from preload_utxos_all_ok [OF ty U c v0 sp d this] obtain M where M: "preload_utxos_all env s (map (pre_block env) bs) ?data0 =
      Inr (?data0\<lparr>bk_vout_utxos := M, bk_blocks := bk_blocks ?data0 @ resolve_blocks env (born_in ?C) U bs\<rparr>)"
    "vouts_ok ?C U (fst ` set ?xs) (apply_txs env (batch_txs bs) U) M"
    unfolding Un_empty_left by blast
  have hs: "map fst bs = range_heights a b" using load_blocks_heights [OF bs] .
  then have "sorted (map pb_height (resolve_blocks env (born_in ?C) U bs))"
    using range_heights_sorted [of a b] by (simp add: resolve_blocks_heights strict_sorted_imp_sorted)
  then have srt: "sort_key pb_height (resolve_blocks env (born_in ?C) U bs) = resolve_blocks env (born_in ?C) U bs"
    by (rule sort_key_id_if_sorted)
  let ?data1 = "?data0\<lparr>bk_vout_utxos := M, bk_blocks := resolve_blocks env (born_in ?C) U bs\<rparr>"
  obtain bal where bal: "preload_balances s (a - 1) ?data1 = Inr (?data1\<lparr>bk_balances := bal\<rparr>)"
    "carries bal U (a - 1) (batch_touched env U bs)"
    using preload_balances_ok [OF l sp, of ?data1 "born_in ?C"] by auto
  have pre: "preload env s (a, b) = Inr (?data1\<lparr>bk_balances := bal\<rparr>)"
    using ab bs M(1) bal(1) srt by (simp add: preload_def preprocess_blocks_eq BatchBlockData_new_def Let_def)
  have "sorted ((a - 1) # map fst bs)"
  proof -
    have "a - 1 \<le> k" if "k \<in> set (range_heights a b)" for k
      using that ab(1) by (auto simp: set_range_heights word_le_nat_alt unat_minus_one unat_gt_0 intro: order_trans [rotated])
    then show ?thesis unfolding hs using range_heights_sorted [of a b] by (simp add: strict_sorted_imp_sorted)
  qed
  then obtain ms ess bal' where p: "mapR block_history (resolve_blocks env (born_in ?C) U bs) = Inr ms" "settle_blocks ms bal = Inr (ess, bal')"
    "entries_ok env U bs ess" "carries bal' (apply_txs env (batch_txs bs) U) (last ((a - 1) # map fst bs)) (batch_touched env U bs)"
    using settle_blocks_ok [OF fin v tot bal(2) order_refl] by blast
  have last: "last ((a - 1) # map fst bs) = b - 1" unfolding hs using last_range [OF ab(2)] by simp
  let ?data = "?data1\<lparr>bk_balances := bal',
    bk_balance_history := sort_key (\<lambda>e. (bh_script_hash e, bh_block_height e)) (concat (map history_entries ess)),
    bk_block_balance_deltas := batch_deltas bs ess\<rparr>"
  have pr: "process (?data1\<lparr>bk_balances := bal\<rparr>) = Inr ?data"
    using p(1,2) zip_deltas [OF entries_ok_length [OF p(3)]] by (simp add: process_def BatchBlockData_new_def Let_def)
  have "batch_result env U (a, b) bs ?data"
    unfolding batch_result_def by (rule exI [of _ M], rule exI [of _ bal'], rule exI [of _ ess])
      (use M(2) p(3,4) last in \<open>simp add: BatchBlockData_new_def\<close>)
  with pre pr show ?thesis by blast
qed

end
