(* ===== verification/Balance_Journal.thy ===== *)
theory Balance_Journal
  imports Balance_Ledger
begin

text \<open>
  The undo journal read back: the rows of a bundle are the bundle, whatever else the column families hold, and a
  rollback removes exactly them.  The ledger ties the database to the unspent outputs after every block.
\<close>

section \<open>Scanning the rows of a height\<close>

lemma take_mono_lex:
  fixes xs ys :: "'a::linorder list"
  shows "xs \<le> ys \<Longrightarrow> take n xs \<le> take n ys"
proof (induction n arbitrary: xs ys)
  case (Suc n)
  then show ?case by (cases xs; cases ys) auto
qed simp

lemma prefix_rows:
  assumes ok: "cf_ok rows" and low: "\<And>r. r \<in> set rows \<Longrightarrow> take n (fst r) = take n start \<Longrightarrow> start \<le> fst r"
  shows "same_prefix n start (iter_from_forward start rows) = filter (\<lambda>r. take n (fst r) = take n start) rows"
proof -
  let ?P = "\<lambda>r. take n (fst r) = take n start" and ?fw = "iter_from_forward start rows"
  have "sorted_wrt (\<lambda>x y. ?P y \<longrightarrow> ?P x) ?fw"
  proof (rule sorted_wrt_mono_in)
    show "sorted_wrt (\<lambda>x y. fst x < fst y) ?fw"
      unfolding iter_from_forward_def using ok by (intro sorted_wrt_filter) (simp add: sorted_wrt_map)
    fix x y assume xy: "x \<in> set ?fw" "y \<in> set ?fw" "fst x < fst y"
    have "take n start \<le> take n (fst x)" "take n (fst x) \<le> take n (fst y)"
      using xy by (auto simp: iter_from_forward_def intro!: take_mono_lex)
    then show "?P y \<longrightarrow> ?P x" by auto
  qed
  then have "same_prefix n start ?fw = filter ?P ?fw" by (simp add: same_prefix_def takeWhile_eq_filter)
  also have "\<dots> = filter ?P rows" unfolding iter_from_forward_def filter_filter by (rule filter_cong) (use low in auto)
  finally show ?thesis .
qed

lemma rows_unique:
  assumes "cf_ok xs" and "cf_ok ys" and "set xs = set ys"
  shows "xs = ys"
proof -
  have d: "distinct (map fst xs)" "distinct (map fst ys)" using assms(1,2) by (auto dest: cf_ok_distinct)
  have s: "sorted (map fst xs)" "sorted (map fst ys)" using assms(1,2) by (auto dest: strict_sorted_imp_sorted)
  have "inj_on fst (set xs \<union> set ys)" using d(1) assms(3) by (simp add: distinct_map)
  then show ?thesis using s d assms(3) by (intro map_sorted_distinct_set_unique)
qed

lemma undo_key_parts [simp]:
  "take 4 (make_block_undo_utxo_key h n) = u32_be h" "take 4 (make_block_undo_balance_index_key h sh) = u32_be h"
  "drop 4 (make_block_undo_balance_index_key h sh) = hash_bytes sh"
  by (simp_all add: make_block_undo_utxo_key_def make_block_undo_balance_index_key_def)

lemma undo_key_le [simp]:
  "make_block_undo_utxo_key h n \<le> make_block_undo_utxo_key h m \<longleftrightarrow> n \<le> m"
  "make_block_undo_utxo_key h n < make_block_undo_utxo_key h m \<longleftrightarrow> n < m"
  "make_block_undo_balance_index_key h a \<le> make_block_undo_balance_index_key h b \<longleftrightarrow> a \<le> b"
  "make_block_undo_balance_index_key h a < make_block_undo_balance_index_key h b \<longleftrightarrow> a < b"
proof -
  have less: "make_block_undo_utxo_key h n < make_block_undo_utxo_key h m \<longleftrightarrow> n < m"
    "make_block_undo_balance_index_key h a < make_block_undo_balance_index_key h b \<longleftrightarrow> a < b" for n m a b
    by (simp_all add: make_block_undo_utxo_key_def make_block_undo_balance_index_key_def append_lex_less)
  then show "make_block_undo_utxo_key h n < make_block_undo_utxo_key h m \<longleftrightarrow> n < m"
    "make_block_undo_balance_index_key h a < make_block_undo_balance_index_key h b \<longleftrightarrow> a < b" by blast+
  show "make_block_undo_utxo_key h n \<le> make_block_undo_utxo_key h m \<longleftrightarrow> n \<le> m"
    "make_block_undo_balance_index_key h a \<le> make_block_undo_balance_index_key h b \<longleftrightarrow> a \<le> b"
    by (metis less not_le)+
qed

lemma undo_utxo_key_spelled:
  assumes "length k = 8"
  obtains h n where "k = make_block_undo_utxo_key h n"
proof
  show "k = make_block_undo_utxo_key (be_word (take 4 k)) (be_word (drop 4 k))"
    using assms by (simp add: make_block_undo_utxo_key_def be_word_bytes)
qed

lemma undo_index_key_spelled:
  assumes "length k = 36"
  obtains h sh where "k = make_block_undo_balance_index_key h sh"
proof
  show "k = make_block_undo_balance_index_key (be_word (take 4 k)) (hash_of_bytes (drop 4 k))"
    using assms by (simp add: make_block_undo_balance_index_key_def be_word_bytes hash_bytes_of_bytes)
qed

section \<open>Stored bundles\<close>

definition undo_list_at :: "ColumnFamily \<Rightarrow> u32 \<Rightarrow> BlockUndoUtxoEntry list \<Rightarrow> BalanceHistoryDB \<Rightarrow> bool" where
  "undo_list_at c h us db \<longleftrightarrow> length us < 2 ^ 32 \<and>
     (\<forall>n. get_cf c (make_block_undo_utxo_key h n) db =
        (if unat n < length us then Some (serialize_block_undo_utxo_value (us ! unat n)) else None))"

definition undo_index_at :: "u32 \<Rightarrow> USDBScriptHash list \<Rightarrow> BalanceHistoryDB \<Rightarrow> bool" where
  "undo_index_at h shs db \<longleftrightarrow> sorted_wrt (<) shs \<and>
     (\<forall>sh. get_cf BLOCK_UNDO_BALANCE_INDEX_CF (make_block_undo_balance_index_key h sh) db = (if sh \<in> set shs then Some [1] else None))"

definition undo_meta_of :: "BlockUndoBundle \<Rightarrow> BlockUndoMetaEntry" where
  "undo_meta_of ub = \<lparr>um_block_height = ub_block_height ub, um_format_version = 1, um_btc_block_hash = ub_btc_block_hash ub,
     um_created_utxo_count = of_nat (length (ub_created_utxos ub)), um_spent_utxo_count = of_nat (length (ub_spent_utxos ub)),
     um_balance_entry_count = of_nat (length (ub_touched_script_hashes ub))\<rparr>"

definition undo_at :: "BlockUndoBundle \<Rightarrow> BalanceHistoryDB \<Rightarrow> bool" where
  "undo_at ub db \<longleftrightarrow>
     get_cf BLOCK_UNDO_META_CF (make_block_undo_meta_key (ub_block_height ub)) db = Some (serialize_block_undo_meta_value (undo_meta_of ub)) \<and>
     undo_list_at BLOCK_UNDO_CREATED_UTXOS_CF (ub_block_height ub) (ub_created_utxos ub) db \<and>
     undo_list_at BLOCK_UNDO_SPENT_UTXOS_CF (ub_block_height ub) (ub_spent_utxos ub) db \<and>
     undo_index_at (ub_block_height ub) (ub_touched_script_hashes ub) db"

definition no_undo :: "u32 \<Rightarrow> BalanceHistoryDB \<Rightarrow> bool" where
  "no_undo h db \<longleftrightarrow> get_cf BLOCK_UNDO_META_CF (make_block_undo_meta_key h) db = None \<and>
     undo_list_at BLOCK_UNDO_CREATED_UTXOS_CF h [] db \<and> undo_list_at BLOCK_UNDO_SPENT_UTXOS_CF h [] db \<and> undo_index_at h [] db"

lemma undo_utxo_loop_rows:
  assumes "\<And>r. r \<in> set rs \<Longrightarrow> take 4 (fst r) = u32_be h" and "\<And>r. r \<in> set rs \<Longrightarrow> parse_block_undo_utxo_value (snd r) = Inr (f r)"
  shows "undo_utxo_loop h rs = Inr (map f rs)"
  using assms
proof (induction rs)
  case (Cons r rs)
  obtain k v where r: "r = (k, v)" by (cases r)
  have t: "take 4 k = u32_be h" using Cons.prems(1) [of r] r by simp
  then have "4 \<le> length k" by (metis length_take length_u32_be min.cobounded1)
  then have "block_height_prefix_matches k h" using t by (simp add: block_height_prefix_matches_def)
  moreover have "parse_block_undo_utxo_value v = Inr (f r)" using Cons.prems(2) [of r] r by simp
  ultimately show ?case using Cons by (simp add: r)
qed simp

lemma undo_list_rows:
  assumes ty: "db_typed db" and l: "undo_list_at c h us db" and c: "c = BLOCK_UNDO_CREATED_UTXOS_CF \<or> c = BLOCK_UNDO_SPENT_UTXOS_CF"
  shows "filter (\<lambda>r. take 4 (fst r) = u32_be h) (db c) =
    map (\<lambda>i. (make_block_undo_utxo_key h (of_nat i), serialize_block_undo_utxo_value (us ! i))) [0..<length us]" (is "?l = ?r")
proof (rule rows_unique)
  have ok: "cf_ok (db c)" using ty by (rule typed_cf_ok)
  then show "cf_ok ?l" by (rule cf_ok_filter)
  have len: "length us < 2 ^ 32" using l by (simp add: undo_list_at_def)
  have w: "unat (of_nat i :: u32) = i" if "i < length us" for i using that len by (simp add: unat_of_nat)
  have "(of_nat i :: u32) < of_nat j" if "i < j" "j < length us" for i j using that w by (simp add: word_less_nat_alt)
  then show "cf_ok ?r" unfolding sorted_wrt_map by (intro sorted_wrt_mono_in [OF sorted_wrt_upt]) auto
  show "set ?l = set ?r"
  proof (intro set_eqI iffI)
    fix r assume "r \<in> set ?l"
    moreover obtain k v where kv: "r = (k, v)" by (cases r)
    ultimately have r: "r = (k, v)" "(k, v) \<in> set (db c)" "take 4 k = u32_be h" by simp_all
    have "length k = 8" using typed_row [OF ty r(2)] c by auto
    then obtain h' n where k: "k = make_block_undo_utxo_key h' n" by (rule undo_utxo_key_spelled)
    have "h' = h" using r(3) k by simp
    moreover have "get_cf c k db = Some v" using r(2) ok by (simp add: get_cf_def cf_get_Some_iff)
    ultimately have "unat n < length us" "v = serialize_block_undo_utxo_value (us ! unat n)"
      using l k by (auto simp: undo_list_at_def split: if_splits)
    then show "r \<in> set ?r" using r(1) k \<open>h' = h\<close> by (auto intro!: image_eqI [where x = "unat n"])
  next
    fix r assume "r \<in> set ?r"
    then obtain i where i: "i < length us" "r = (make_block_undo_utxo_key h (of_nat i), serialize_block_undo_utxo_value (us ! i))" by auto
    have "get_cf c (make_block_undo_utxo_key h (of_nat i)) db = Some (serialize_block_undo_utxo_value (us ! i))"
      using l i(1) w [OF i(1)] by (simp add: undo_list_at_def)
    then show "r \<in> set ?l" using i ok by (simp add: get_cf_def cf_get_Some_iff)
  qed
qed

lemma read_undo_list:
  assumes ty: "db_typed db" and l: "undo_list_at c h us db" and c: "c = BLOCK_UNDO_CREATED_UTXOS_CF \<or> c = BLOCK_UNDO_SPENT_UTXOS_CF"
  shows "get_block_undo_utxos_from_cf c h db = Inr us"
proof -
  let ?rows = "map (\<lambda>i. (make_block_undo_utxo_key h (of_nat i), serialize_block_undo_utxo_value (us ! i))) [0..<length us]"
  have "same_prefix 4 (make_block_undo_utxo_key h 0) (iter_from_forward (make_block_undo_utxo_key h 0) (db c)) =
      filter (\<lambda>r. take 4 (fst r) = take 4 (make_block_undo_utxo_key h 0)) (db c)"
  proof (rule prefix_rows [OF typed_cf_ok [OF ty]])
    fix r assume r: "r \<in> set (db c)" "take 4 (fst r) = take 4 (make_block_undo_utxo_key h 0)"
    have "length (fst r) = 8" using typed_row [OF ty, of "fst r" "snd r" c] r(1) c by auto
    then obtain h' n where "fst r = make_block_undo_utxo_key h' n" by (rule undo_utxo_key_spelled)
    then show "make_block_undo_utxo_key h 0 \<le> fst r" using r(2) by simp
  qed
  also have "\<dots> = ?rows" using undo_list_rows [OF ty l c] by simp
  finally have "get_block_undo_utxos_from_cf c h db = undo_utxo_loop h ?rows" by (simp add: get_block_undo_utxos_from_cf_def)
  also have "\<dots> = Inr (map (\<lambda>r. projr (parse_block_undo_utxo_value (snd r))) ?rows)"
    by (rule undo_utxo_loop_rows) auto
  also have "\<dots> = Inr us" by (simp add: comp_def map_nth)
  finally show ?thesis .
qed

lemma touched_loop_rows:
  "touched_loop h (map (\<lambda>sh. (make_block_undo_balance_index_key h sh, [1])) shs) = Inr shs"
  by (induction shs) (simp_all add: block_height_prefix_matches_def)

lemma read_undo_index:
  assumes ty: "db_typed db" and l: "undo_index_at h shs db"
  shows "get_block_undo_touched_script_hashes h db = Inr shs"
proof -
  let ?c = BLOCK_UNDO_BALANCE_INDEX_CF and ?start = "make_block_undo_balance_index_key h 0"
  let ?rows = "map (\<lambda>sh. (make_block_undo_balance_index_key h sh, [1 :: u8])) shs"
  have ok: "cf_ok (db ?c)" using ty by (rule typed_cf_ok)
  have spell: "\<exists>h' sh. fst r = make_block_undo_balance_index_key h' sh" if "r \<in> set (db ?c)" for r
  proof -
    have "length (fst r) = 36" using typed_row [OF ty, of "fst r" "snd r" ?c] that by simp
    then show ?thesis by (rule undo_index_key_spelled) blast
  qed
  have "same_prefix 4 ?start (iter_from_forward ?start (db ?c)) = filter (\<lambda>r. take 4 (fst r) = take 4 ?start) (db ?c)"
  proof (rule prefix_rows [OF ok])
    fix r assume r: "r \<in> set (db ?c)" "take 4 (fst r) = take 4 ?start"
    then obtain h' sh where "fst r = make_block_undo_balance_index_key h' sh" using spell by blast
    then show "?start \<le> fst r" using r(2) by simp
  qed
  also have "\<dots> = ?rows"
  proof (rule rows_unique)
    show "cf_ok (filter (\<lambda>r. take 4 (fst r) = take 4 ?start) (db ?c))" using ok by (rule cf_ok_filter)
    show "cf_ok ?rows" using l by (simp add: undo_index_at_def sorted_wrt_map)
    have "(k, v) \<in> set (db ?c) \<and> take 4 k = u32_be h \<longleftrightarrow> (\<exists>sh \<in> set shs. k = make_block_undo_balance_index_key h sh \<and> v = [1])" for k v
    proof -
      have g: "(k, v) \<in> set (db ?c) \<longleftrightarrow> get_cf ?c k db = Some v" using ok by (simp add: get_cf_def cf_get_Some_iff)
      have at: "get_cf ?c (make_block_undo_balance_index_key h sh) db = (if sh \<in> set shs then Some [1] else None)" for sh
        using l by (simp add: undo_index_at_def)
      show ?thesis
      proof
        assume a: "(k, v) \<in> set (db ?c) \<and> take 4 k = u32_be h"
        then obtain h' sh where k: "k = make_block_undo_balance_index_key h' sh" using spell [of "(k, v)"] by auto
        have "h' = h" using a k by simp
        moreover have "get_cf ?c k db = Some v" using a g by blast
        ultimately show "\<exists>sh \<in> set shs. k = make_block_undo_balance_index_key h sh \<and> v = [1]" using k at [of sh] by (auto split: if_splits)
      next
        assume "\<exists>sh \<in> set shs. k = make_block_undo_balance_index_key h sh \<and> v = [1]"
        then obtain sh where k: "sh \<in> set shs" "k = make_block_undo_balance_index_key h sh" "v = [1]" by blast
        then have "get_cf ?c k db = Some v" using at [of sh] by simp
        then show "(k, v) \<in> set (db ?c) \<and> take 4 k = u32_be h" using g k(2) by simp
      qed
    qed
    then have "(k, v) \<in> set (filter (\<lambda>r. take 4 (fst r) = take 4 ?start) (db ?c)) \<longleftrightarrow> (k, v) \<in> set ?rows" for k v
      by (simp add: image_iff)
    then show "set (filter (\<lambda>r. take 4 (fst r) = take 4 ?start) (db ?c)) = set ?rows" by (intro equalityI subrelI) blast+
  qed
  finally show ?thesis using touched_loop_rows by (simp add: get_block_undo_touched_script_hashes_def)
qed

lemma read_bundle:
  assumes ty: "db_typed db" and u: "undo_at ub db"
  shows "get_block_undo_bundle (ub_block_height ub) db = Inr (Some ub)"
    "get_block_undo_created_utxos (ub_block_height ub) db = Inr (ub_created_utxos ub)"
    "get_block_undo_spent_utxos (ub_block_height ub) db = Inr (ub_spent_utxos ub)"
    "get_block_undo_touched_script_hashes (ub_block_height ub) db = Inr (ub_touched_script_hashes ub)"
proof -
  show l: "get_block_undo_created_utxos (ub_block_height ub) db = Inr (ub_created_utxos ub)"
    "get_block_undo_spent_utxos (ub_block_height ub) db = Inr (ub_spent_utxos ub)"
    "get_block_undo_touched_script_hashes (ub_block_height ub) db = Inr (ub_touched_script_hashes ub)"
    using u unfolding undo_at_def get_block_undo_created_utxos_def get_block_undo_spent_utxos_def
    by (auto intro!: read_undo_list [OF ty] read_undo_index [OF ty])
  have "um_block_height (undo_meta_of ub) = ub_block_height ub" by (simp add: undo_meta_of_def)
  then have "parse_block_undo_meta_value (ub_block_height ub) (serialize_block_undo_meta_value (undo_meta_of ub)) = Inr (undo_meta_of ub)"
    using parse_undo_meta_value [of "undo_meta_of ub"] by simp
  then have "get_block_undo_meta (ub_block_height ub) db = Inr (Some (undo_meta_of ub))"
    using u by (simp add: get_block_undo_meta_def undo_at_def)
  then show "get_block_undo_bundle (ub_block_height ub) db = Inr (Some ub)"
    using l by (simp add: get_block_undo_bundle_def) (simp add: undo_meta_of_def)
qed

section \<open>The ledger\<close>

definition utxo_row :: "u8 list \<Rightarrow> UTXOValue" where
  "utxo_row v = projr (UTXOValue_from_slice v)"

lemma utxo_row_encode [simp]: "utxo_row (UTXOValue_encode sh v) = \<lparr>uv_script_hash = sh, uv_value = v\<rparr>"
  using UTXOValue_from_to [of "\<lparr>uv_script_hash = sh, uv_value = v\<rparr>"] by (simp add: utxo_row_def UTXOValue_to_vec_def)

lemma utxos_get: "db_typed db \<Longrightarrow> utxos db p = map_option utxo_row (get_cf UTXO_CF (make_utxo_key p) db)"
  by (auto simp: utxos_def get_utxo_def parse_utxo_from_value_def utxo_row_def UTXOValue_from_slice_def dest: typed_get split: option.splits)

definition undo_value :: "BlockUndoUtxoEntry \<Rightarrow> UTXOValue" where
  "undo_value u = \<lparr>uv_script_hash = uu_script_hash u, uv_value = uu_value u\<rparr>"

text \<open>The unspent outputs that applying a bundle leaves.\<close>

definition restore :: "BlockUndoBundle \<Rightarrow> utxo_set \<Rightarrow> utxo_set" where
  "restore ub U = (U |` (- uu_outpoint ` set (ub_created_utxos ub))) ++
     map_of (rev (map (\<lambda>u. (uu_outpoint u, undo_value u)) (ub_spent_utxos ub)))"

text \<open>
  The ledger of a chain: \<open>H h\<close> are the unspent outputs after block \<open>h\<close>, for the heights from \<open>lo\<close> on.  At height \<open>n\<close> the
  database holds the outputs of \<open>H n\<close>, the balance of every address at every height up to \<open>n\<close> is the sum of its
  outputs, every record holds the change of its block, nothing is stored above \<open>n\<close>, every block has its commit, and every undo bundle that is stored restores the
  outputs before its block and knows every address whose balance the block changed.
\<close>

definition undo_ok :: "(u32 \<Rightarrow> utxo_set) \<Rightarrow> u32 \<Rightarrow> BalanceHistoryDB \<Rightarrow> bool" where
  "undo_ok H h db \<longleftrightarrow> no_undo h db \<or> (\<exists>ub. ub_block_height ub = h \<and> undo_at ub db \<and> restore ub (H h) = H (h - 1) \<and>
     (\<forall>sh. balance_record sh h db \<noteq> None \<longrightarrow> sh \<in> set (ub_touched_script_hashes ub)))"

definition balances_ok :: "(u32 \<Rightarrow> utxo_set) \<Rightarrow> u32 \<Rightarrow> BalanceHistoryDB \<Rightarrow> bool" where
  "balances_ok H t db \<longleftrightarrow> (\<forall>sh e. last_balance sh t db e \<longrightarrow> hd_balance e = wsum (H t) sh)"

definition clean_above :: "u32 \<Rightarrow> BalanceHistoryDB \<Rightarrow> bool" where
  "clean_above n db \<longleftrightarrow> (\<forall>h > n. no_undo h db \<and> (\<forall>sh. balance_record sh h db = None) \<and>
     get_cf BLOCK_COMMITS_CF (make_block_commit_key h) db = None)"

definition stored_hash :: "u32 \<Rightarrow> BalanceHistoryDB \<Rightarrow> BlockHash option" where
  "stored_hash h db = map_option (\<lambda>v. hash_of_bytes (take 32 v)) (get_cf BLOCK_COMMITS_CF (make_block_commit_key h) db)"

text \<open>A record holds what its block added to the balance.\<close>

definition deltas_ok :: "(u32 \<Rightarrow> utxo_set) \<Rightarrow> u32 \<Rightarrow> BalanceHistoryDB \<Rightarrow> bool" where
  "deltas_ok H h db \<longleftrightarrow> (\<forall>sh d b. balance_record sh h db = Some (d, b) \<longrightarrow> d = wsum (H h) sh - wsum (H (h - 1)) sh)"

definition ledger :: "(u32 \<Rightarrow> BlockHash) \<Rightarrow> (u32 \<Rightarrow> utxo_set) \<Rightarrow> u32 \<Rightarrow> u32 \<Rightarrow> BalanceHistoryDB \<Rightarrow> bool" where
  "ledger B H lo n db \<longleftrightarrow> db_typed db \<and> get_btc_block_height db = Inr n \<and> lo \<le> n \<and> utxos db = H n \<and> clean_above n db \<and>
     (\<forall>t. lo \<le> t \<and> t \<le> n \<longrightarrow> balances_ok H t db) \<and> (\<forall>h. lo < h \<and> h \<le> n \<longrightarrow> undo_ok H h db) \<and>
     (\<forall>h. lo \<le> h \<and> h \<le> n \<and> 0 < h \<longrightarrow> stored_hash h db = Some (B h)) \<and> (\<forall>h. lo < h \<and> h \<le> n \<longrightarrow> deltas_ok H h db)"

lemma ledgerD:
  assumes "ledger B H lo n db"
  shows "db_typed db" "get_btc_block_height db = Inr n" "lo \<le> n" "utxos db = H n" "clean_above n db"
    "\<And>t. lo \<le> t \<Longrightarrow> t \<le> n \<Longrightarrow> balances_ok H t db" "\<And>h. lo < h \<Longrightarrow> h \<le> n \<Longrightarrow> undo_ok H h db"
    "\<And>h. lo \<le> h \<Longrightarrow> h \<le> n \<Longrightarrow> 0 < h \<Longrightarrow> stored_hash h db = Some (B h)"
    "\<And>h. lo < h \<Longrightarrow> h \<le> n \<Longrightarrow> deltas_ok H h db"
  using assms unfolding ledger_def by blast+

text \<open>Two databases with the same rows at a height.\<close>

definition same_at :: "u32 \<Rightarrow> BalanceHistoryDB \<Rightarrow> BalanceHistoryDB \<Rightarrow> bool" where
  "same_at h db db' \<longleftrightarrow> (\<forall>sh. get_cf BALANCE_HISTORY_CF (make_balance_history_key sh h) db' = get_cf BALANCE_HISTORY_CF (make_balance_history_key sh h) db) \<and>
     get_cf BLOCK_COMMITS_CF (make_block_commit_key h) db' = get_cf BLOCK_COMMITS_CF (make_block_commit_key h) db \<and>
     get_cf BLOCK_UNDO_META_CF (make_block_undo_meta_key h) db' = get_cf BLOCK_UNDO_META_CF (make_block_undo_meta_key h) db \<and>
     (\<forall>c n. c = BLOCK_UNDO_CREATED_UTXOS_CF \<or> c = BLOCK_UNDO_SPENT_UTXOS_CF \<longrightarrow>
        get_cf c (make_block_undo_utxo_key h n) db' = get_cf c (make_block_undo_utxo_key h n) db) \<and>
     (\<forall>sh. get_cf BLOCK_UNDO_BALANCE_INDEX_CF (make_block_undo_balance_index_key h sh) db' =
        get_cf BLOCK_UNDO_BALANCE_INDEX_CF (make_block_undo_balance_index_key h sh) db)"

lemma same_at_facts:
  assumes "same_at h db db'"
  shows "no_undo h db' \<longleftrightarrow> no_undo h db" "ub_block_height ub = h \<Longrightarrow> undo_at ub db' \<longleftrightarrow> undo_at ub db"
    "balance_record sh h db' = balance_record sh h db" "undo_ok H h db' \<longleftrightarrow> undo_ok H h db" "deltas_ok H h db' \<longleftrightarrow> deltas_ok H h db"
proof -
  show 1: "no_undo h db' \<longleftrightarrow> no_undo h db" "ub_block_height ub = h \<Longrightarrow> undo_at ub db' \<longleftrightarrow> undo_at ub db"
    "balance_record sh h db' = balance_record sh h db" for ub sh
    using assms by (auto simp: same_at_def no_undo_def undo_at_def undo_list_at_def undo_index_at_def balance_record_def)
  show "undo_ok H h db' \<longleftrightarrow> undo_ok H h db" unfolding undo_ok_def using 1 by metis
  show "deltas_ok H h db' \<longleftrightarrow> deltas_ok H h db" unfolding deltas_ok_def 1(3) ..
qed

lemma last_balance_same:
  "(\<And>h. h \<le> t \<Longrightarrow> balance_record sh h db' = balance_record sh h db) \<Longrightarrow> last_balance sh t db' e \<longleftrightarrow> last_balance sh t db e"
  unfolding last_balance_def by auto

lemma balances_ok_same: "(\<And>h. h \<le> t \<Longrightarrow> same_at h db db') \<Longrightarrow> balances_ok H t db' \<longleftrightarrow> balances_ok H t db"
  unfolding balances_ok_def using last_balance_same same_at_facts(3) by meson

text \<open>A ledger one or more blocks lower, with everything above its height gone.\<close>

lemma ledger_same:
  assumes l: "ledger B H lo n db" and m: "lo \<le> m" "m \<le> n" and ty: "db_typed db'" "get_btc_block_height db' = Inr m" "utxos db' = H m"
    and same: "\<And>h. h \<le> m \<Longrightarrow> same_at h db db'" and clean: "clean_above m db'"
  shows "ledger B H lo m db'"
  unfolding ledger_def
proof (intro conjI allI impI)
  fix t assume t: "lo \<le> t \<and> t \<le> m"
  then have "balances_ok H t db" using ledgerD(6) [OF l] m(2) by auto
  moreover have "same_at h db db'" if "h \<le> t" for h using that t same [of h] by auto
  ultimately show "balances_ok H t db'" using balances_ok_same by blast
next
  fix h assume h: "lo < h \<and> h \<le> m"
  then have "undo_ok H h db" using ledgerD(7) [OF l] m(2) by auto
  then show "undo_ok H h db'" using h same same_at_facts(4) by blast
next
  fix h assume h: "lo \<le> h \<and> h \<le> m \<and> 0 < h"
  then have "stored_hash h db = Some (B h)" using ledgerD(8) [OF l] m(2) by auto
  then show "stored_hash h db' = Some (B h)" using h same [of h] by (simp add: same_at_def stored_hash_def)
next
  fix h assume h: "lo < h \<and> h \<le> m"
  then have "deltas_ok H h db" using ledgerD(9) [OF l] m(2) by auto
  then show "deltas_ok H h db'" using h same same_at_facts(5) by blast
qed (use m(1) ty clean in auto)

section \<open>Rolling back one block\<close>

definition delete_bundle_ops :: "BlockUndoBundle \<Rightarrow> WriteBatch" where
  "delete_bundle_ops ub =
     [DeleteCf BLOCK_UNDO_META_CF (make_block_undo_meta_key (ub_block_height ub))] @
     map (\<lambda>seq. DeleteCf BLOCK_UNDO_CREATED_UTXOS_CF (make_block_undo_utxo_key (ub_block_height ub) (of_nat seq)))
       [0..<length (ub_created_utxos ub)] @
     map (\<lambda>seq. DeleteCf BLOCK_UNDO_SPENT_UTXOS_CF (make_block_undo_utxo_key (ub_block_height ub) (of_nat seq)))
       [0..<length (ub_spent_utxos ub)] @
     map (\<lambda>sh. DeleteCf BLOCK_UNDO_BALANCE_INDEX_CF (make_block_undo_balance_index_key (ub_block_height ub) sh)) (ub_touched_script_hashes ub)"

lemma append_delete_eq:
  assumes "db_typed db" and "undo_at ub db"
  shows "append_delete_block_undo_bundle_to_batch (ub_block_height ub) db = Inr (delete_bundle_ops ub)"
  using read_bundle(2-4) [OF assms] by (simp add: append_delete_block_undo_bundle_to_batch_def delete_bundle_ops_def)

lemma effect_utxo_puts:
  "effect (map (\<lambda>u. utxo_put_op (f u, g u)) us) UTXO_CF (make_utxo_key p) =
     map_option (\<lambda>v. Some (UTXOValue_encode (uv_script_hash v) (uv_value v))) (map_of (rev (map (\<lambda>u. (f u, g u)) us)) p)"
  by (induction us) (auto simp: utxo_put_op_def map_add_def split: option.splits)

lemma effect_other_puts: "c \<noteq> UTXO_CF \<Longrightarrow> effect (map (\<lambda>u. utxo_put_op (f u, g u)) us) c k = None"
  by (induction us) (simp_all add: utxo_put_op_def)

lemma effect_utxo_deletes:
  "effect (map (\<lambda>x. utxo_delete_op (f x)) us) UTXO_CF (make_utxo_key p) = (if p \<in> f ` set us then Some None else None)"
  by (induction us) (auto simp: utxo_delete_op_def)

lemma effect_other_deletes: "c \<noteq> UTXO_CF \<Longrightarrow> effect (map (\<lambda>x. utxo_delete_op (f x)) us) c k = None"
  by (induction us) (simp_all add: utxo_delete_op_def)

lemmas rollback_effects = rollback_ops_def delete_bundle_ops_def effect_utxo_puts effect_other_puts effect_utxo_deletes
  effect_other_deletes effect_deletes btc_height_op_def

definition rollback_batch :: "BlockUndoBundle \<Rightarrow> u32 \<Rightarrow> WriteBatch" where
  "rollback_batch ub n = rollback_ops ub n @ delete_bundle_ops ub @ [btc_height_op (n - 1)]"

lemma rollback_batch_utxo:
  "effect (rollback_batch ub n) UTXO_CF (make_utxo_key p) =
     (case map_of (rev (map (\<lambda>u. (uu_outpoint u, undo_value u)) (ub_spent_utxos ub))) p of
        Some v \<Rightarrow> Some (Some (UTXOValue_encode (uv_script_hash v) (uv_value v)))
      | None \<Rightarrow> if p \<in> uu_outpoint ` set (ub_created_utxos ub) then Some None else None)"
  unfolding rollback_batch_def undo_value_def by (simp add: rollback_effects split: option.splits)

lemma rollback_batch_effects:
  assumes "ub_block_height ub = n"
  shows "effect (rollback_batch ub n) BALANCE_HISTORY_CF (make_balance_history_key sh h) =
      (if h = n \<and> sh \<in> set (ub_touched_script_hashes ub) then Some None else None)"
    "effect (rollback_batch ub n) BLOCK_COMMITS_CF (make_block_commit_key h) = (if h = n then Some None else None)"
    "effect (rollback_batch ub n) BLOCK_UNDO_META_CF (make_block_undo_meta_key h) = (if h = n then Some None else None)"
    "effect (rollback_batch ub n) BLOCK_UNDO_BALANCE_INDEX_CF (make_block_undo_balance_index_key h sh) =
      (if h = n \<and> sh \<in> set (ub_touched_script_hashes ub) then Some None else None)"
    "effect (rollback_batch ub n) META_CF k = (if k = str_bytes META_KEY_BTC_BLOCK_HEIGHT then Some (Some (u32_be (n - 1))) else None)"
  using assms by (auto simp: rollback_batch_def rollback_effects)

lemma rollback_batch_lists:
  assumes "ub_block_height ub = n" and "length (ub_created_utxos ub) < 2 ^ 32" and "length (ub_spent_utxos ub) < 2 ^ 32"
  shows "effect (rollback_batch ub n) BLOCK_UNDO_CREATED_UTXOS_CF (make_block_undo_utxo_key h q) =
      (if h = n \<and> unat q < length (ub_created_utxos ub) then Some None else None)"
    "effect (rollback_batch ub n) BLOCK_UNDO_SPENT_UTXOS_CF (make_block_undo_utxo_key h q) =
      (if h = n \<and> unat q < length (ub_spent_utxos ub) then Some None else None)"
proof -
  have "make_block_undo_utxo_key h q \<in> (\<lambda>seq. make_block_undo_utxo_key n (of_nat seq)) ` {0..<l} \<longleftrightarrow> h = n \<and> unat q < l" if "l < 2 ^ 32" for l
    using that by (auto simp: unat_of_nat intro!: image_eqI [where x = "unat q"])
  with assms show "effect (rollback_batch ub n) BLOCK_UNDO_CREATED_UTXOS_CF (make_block_undo_utxo_key h q) =
      (if h = n \<and> unat q < length (ub_created_utxos ub) then Some None else None)"
    "effect (rollback_batch ub n) BLOCK_UNDO_SPENT_UTXOS_CF (make_block_undo_utxo_key h q) =
      (if h = n \<and> unat q < length (ub_spent_utxos ub) then Some None else None)"
    by (simp_all add: rollback_batch_def rollback_effects)
qed

lemma rollback_one_run:
  assumes l: "ledger B H lo n db" and n: "0 < n" and u: "undo_at ub db" "ub_block_height ub = n"
  shows "rollback_one_block n db = (Inr (), write_batch (rollback_batch ub n) db)"
proof -
  have ty: "db_typed db" "get_btc_block_height db = Inr n" using ledgerD [OF l] by blast+
  have b: "get_block_undo_bundle n db = Inr (Some ub)" using read_bundle(1) [OF ty(1) u(1)] u(2) by simp
  have a: "append_delete_block_undo_bundle_to_batch n db = Inr (delete_bundle_ops ub)" using append_delete_eq [OF ty(1) u(1)] u(2) by simp
  have "sat_sub n 1 = n - 1" using n by (simp add: sat_sub_def word_le_nat_alt word_less_nat_alt)
  then show ?thesis using ty(2) b a by (simp add: rollback_one_block_def bindR_def rollback_batch_def)
qed

end
