(* ===== verification/Balance_Flush.thy ===== *)
theory Balance_Flush
  imports Balance_Process Balance_Journal
begin

text \<open>
  The write of a processed batch: the undo bundles it stores restore the outputs before each block, and the single
  write batch takes the ledger from the height before the batch to its last height.
\<close>

section \<open>Undoing a block\<close>

fun spent_pairs :: "block_env \<Rightarrow> utxo_set \<Rightarrow> BtcTx list \<Rightarrow> (OutPoint \<times> UTXOValue) list" where
  "spent_pairs env U [] = []"
| "spent_pairs env U (tx # txs) = map (\<lambda>p. (p, the (U p))) (tx_ins tx) @ spent_pairs env (apply_tx env tx U) txs"

lemma map_of_graph: "map_of (rev (filter (\<lambda>x. P (fst x)) (map (\<lambda>p. (p, f p)) ps))) p = (if p \<in> set ps \<and> P p then Some (f p) else None)"
  by (induction ps) (auto simp: map_add_def)

text \<open>Outside the outputs the block itself creates, putting the spent outputs back undoes it.\<close>

lemma undo_spends:
  assumes "spends_ok env txs U" and "fst ` set (txs_outs env txs) \<subseteq> O'" and "p \<notin> O'"
  shows "(apply_txs env txs U ++ map_of (rev (filter (\<lambda>x. fst x \<notin> O') (spent_pairs env U txs)))) p = U p"
  using assms(1,2)
proof (induction txs arbitrary: U)
  case (Cons tx txs)
  let ?U = "apply_tx env tx U"
  let ?A = "map_of (rev (filter (\<lambda>x. fst x \<notin> O') (map (\<lambda>p. (p, the (U p))) (tx_ins tx))))"
    and ?B = "map_of (rev (filter (\<lambda>x. fst x \<notin> O') (spent_pairs env ?U txs)))"
  have ih: "(apply_txs env txs ?U ++ ?B) p = ?U p" using Cons.prems by (intro Cons.IH) auto
  have "p \<notin> fst ` set (tx_outs env tx)" using Cons.prems(2) assms(3) by auto
  then have U: "?U p = (if p \<in> set (tx_ins tx) then None else U p)"
    by (simp add: apply_tx_def map_add_def restrict_map_def map_of_eq_None_iff [THEN iffD2] split: option.split)
  have A: "?A p = (if p \<in> set (tx_ins tx) then Some (the (U p)) else None)" 
    using assms(3) map_of_graph [of "\<lambda>q. q \<notin> O'" "\<lambda>q. the (U q)" "tx_ins tx" p] by (simp only:) simp
  have dom: "p \<in> set (tx_ins tx) \<Longrightarrow> Some (the (U p)) = U p" using Cons.prems(1) by auto
  have "(apply_txs env (tx # txs) U ++ map_of (rev (filter (\<lambda>x. fst x \<notin> O') (spent_pairs env U (tx # txs))))) p =
      (case ?B p of Some v \<Rightarrow> Some v | None \<Rightarrow> case ?A p of Some v \<Rightarrow> Some v | None \<Rightarrow> apply_txs env txs ?U p)"
    by (simp add: map_add_def split: option.split)
  also have "\<dots> = U p"
  proof (cases "?B p")
    case None
    then have "apply_txs env txs ?U p = ?U p" using ih by (simp add: map_add_def)
    then show ?thesis using U A dom None by (cases "p \<in> set (tx_ins tx)") (simp_all split: option.split)
  next
    case (Some v)
    then have "Some v = ?U p" using ih by (simp add: map_add_def)
    then have "U p = Some v" using U by (metis option.distinct(1))
    then show ?thesis using Some by simp
  qed
  finally show ?case .
qed simp

definition undo_entry :: "OutPoint \<times> UTXOValue \<Rightarrow> BlockUndoUtxoEntry" where
  "undo_entry x = \<lparr>uu_outpoint = fst x, uu_script_hash = uv_script_hash (snd x), uu_value = uv_value (snd x)\<rparr>"

lemma undo_entry_simps [simp]: "uu_outpoint (undo_entry x) = fst x" "undo_value (undo_entry x) = snd x"
  "uu_script_hash (undo_entry x) = uv_script_hash (snd x)"
  by (simp_all add: undo_entry_def undo_value_def)

text \<open>The bundle the code builds for a block.\<close>

definition bundle_of :: "block_env \<Rightarrow> utxo_set \<Rightarrow> u32 \<times> BtcBlock \<Rightarrow> USDBScriptHash list \<Rightarrow> BlockUndoBundle" where
  "bundle_of env U kb shs = (let outs = txs_outs env (bb_txdata (snd kb));
       spent = filter (\<lambda>x. fst x \<notin> fst ` set outs) (spent_pairs env U (bb_txdata (snd kb)))
     in \<lparr>ub_block_height = fst kb, ub_btc_block_hash = bb_block_hash (snd kb), ub_created_utxos = map undo_entry outs,
       ub_spent_utxos = map undo_entry spent,
       ub_touched_script_hashes = sort (remdups (map (\<lambda>x. uv_script_hash (snd x)) outs @ map (\<lambda>x. uv_script_hash (snd x)) spent @ shs))\<rparr>)"

lemma restore_bundle:
  assumes "spends_ok env (bb_txdata (snd kb)) U" and "fst ` set (txs_outs env (bb_txdata (snd kb))) \<inter> dom U = {}"
  shows "restore (bundle_of env U kb shs) (apply_txs env (bb_txdata (snd kb)) U) = U"
proof
  fix p
  let ?txs = "bb_txdata (snd kb)" and ?O = "fst ` set (txs_outs env (bb_txdata (snd kb)))"
  let ?S = "filter (\<lambda>x. fst x \<notin> ?O) (spent_pairs env U ?txs)"
  have r: "restore (bundle_of env U kb shs) (apply_txs env ?txs U) p = ((apply_txs env ?txs U |` (- ?O)) ++ map_of (rev ?S)) p"
    by (simp add: restore_def bundle_of_def Let_def image_image comp_def)
  show "restore (bundle_of env U kb shs) (apply_txs env ?txs U) p = U p"
  proof (cases "p \<in> ?O")
    case True
    have "p \<notin> fst ` set (rev ?S)" using True by force
    then have "map_of (rev ?S) p = None" by (rule map_of_eq_None_iff [THEN iffD2])
    moreover have "U p = None" using assms(2) True by blast
    ultimately show ?thesis using True unfolding r by (simp add: map_add_def)
  next
    case False
    then show ?thesis unfolding r using undo_spends [OF assms(1) order_refl False] by (simp add: map_add_def restrict_map_def split: option.split)
  qed
qed

section \<open>The bundles of a batch\<close>

lemma created_entries_resolved: "created_entries \<lparr>pb_height = k, pb_block_hash = bh, pb_txdata = resolve_txs env born k U txs\<rparr> = map undo_entry (txs_outs env txs)"
proof -
  have "concat (map (\<lambda>tx. map (\<lambda>vout. \<lparr>uu_outpoint = vo_outpoint vout, uu_script_hash = uv_script_hash (vo_cache_tx_out vout),
       uu_value = uv_value (vo_cache_tx_out vout)\<rparr>) (pt_vout tx)) (resolve_txs env born k U txs)) = map undo_entry (txs_outs env txs)"
    by (induction txs arbitrary: U) (simp_all add: tx_outs_def undo_entry_def)
  then show ?thesis by (simp add: created_entries_def)
qed

text \<open>Within a batch, an input is written back exactly when its output is not of the same block.\<close>

lemma mapR_spent:
  assumes "spends_ok env txs U" and "\<And>p. p \<in> fst ` set (spent_pairs env U txs) \<Longrightarrow> (case born p of None \<Rightarrow> True | Some h \<Rightarrow> h < k) \<longleftrightarrow> p \<notin> O'"
  shows "mapR spent_entry (filter vi_need_flush (concat (map pt_vin (resolve_txs env born k U txs)))) =
    Inr (map undo_entry (filter (\<lambda>x. fst x \<notin> O') (spent_pairs env U txs)))"
  using assms
proof (induction txs arbitrary: U)
  case (Cons tx txs)
  have vins: "mapR spent_entry (filter vi_need_flush (map (resolve_vin born k U) ps)) =
      Inr (map undo_entry (filter (\<lambda>x. fst x \<notin> O') (map (\<lambda>p. (p, the (U p))) ps)))"
    if "set ps \<subseteq> set (tx_ins tx)" for ps
    using that
  proof (induction ps)
    case (Cons p ps)
    have "p \<in> dom U" "p \<in> fst ` set (spent_pairs env U (tx # txs))" using Cons.prems \<open>spends_ok env (tx # txs) U\<close> by force+
    then obtain u where "U p = Some u" "(case born p of None \<Rightarrow> True | Some h \<Rightarrow> h < k) \<longleftrightarrow> p \<notin> O'"
      using \<open>\<And>p. p \<in> fst ` set (spent_pairs env U (tx # txs)) \<Longrightarrow> _ p\<close> by blast
    then show ?case using Cons by (simp add: resolve_vin_def spent_entry_def undo_entry_def)
  qed simp
  have "mapR spent_entry (filter vi_need_flush (concat (map pt_vin (resolve_txs env born k (apply_tx env tx U) txs)))) =
      Inr (map undo_entry (filter (\<lambda>x. fst x \<notin> O') (spent_pairs env (apply_tx env tx U) txs)))"
    using Cons.prems by (intro Cons.IH) auto
  from mapR_append [OF vins [OF order_refl] this] show ?case by simp
qed simp

section \<open>The blocks of a batch on a chain\<close>

text \<open>The blocks follow height \<open>n\<close> one by one, and \<open>H\<close> are the outputs after each.\<close>

fun chain_ok :: "block_env \<Rightarrow> (u32 \<Rightarrow> utxo_set) \<Rightarrow> u32 \<Rightarrow> (u32 \<times> BtcBlock) list \<Rightarrow> bool" where
  "chain_ok env H n [] \<longleftrightarrow> True"
| "chain_ok env H n (kb # bs) \<longleftrightarrow> fst kb = n + 1 \<and> n < fst kb \<and> H (fst kb) = apply_txs env (bb_txdata (snd kb)) (H n) \<and>
     chain_ok env H (fst kb) bs"

definition batch_top :: "u32 \<Rightarrow> (u32 \<times> BtcBlock) list \<Rightarrow> u32" where
  "batch_top n bs = last (n # map fst bs)"

lemma batch_top_simps [simp]: "batch_top n [] = n" "batch_top n (kb # bs) = batch_top (fst kb) bs"
  by (simp_all add: batch_top_def)

lemma chain_append: "chain_ok env H n (xs @ ys) \<longleftrightarrow> chain_ok env H n xs \<and> chain_ok env H (batch_top n xs) ys"
  by (induction xs arbitrary: n) auto

lemma chain_Cons:
  assumes "chain_ok env H n (kb # bs)"
  shows "fst kb = n + 1" "fst kb - 1 = n" "n < fst kb" "H (fst kb) = apply_txs env (bb_txdata (snd kb)) (H n)" "chain_ok env H (fst kb) bs"
proof -
  show "fst kb = n + 1" "n < fst kb" "H (fst kb) = apply_txs env (bb_txdata (snd kb)) (H n)" "chain_ok env H (fst kb) bs"
    using assms unfolding chain_ok.simps by blast+
  then show "fst kb - 1 = n" by simp
qed

lemma chain_state: "chain_ok env H n bs \<Longrightarrow> apply_txs env (batch_txs bs) (H n) = H (batch_top n bs)"
proof (induction bs arbitrary: n)
  case (Cons kb bs)
  show ?case using Cons.IH [OF chain_Cons(5) [OF Cons.prems]] chain_Cons(4) [OF Cons.prems] by simp
qed simp

lemma chain_heights: "chain_ok env H n bs \<Longrightarrow> sorted_wrt (<) (n # map fst bs)"
proof (induction bs arbitrary: n)
  case (Cons kb bs)
  have "sorted_wrt (<) (fst kb # map fst bs)" "n < fst kb" using Cons.IH [OF chain_Cons(5)] chain_Cons(3) Cons.prems by blast+
  then show ?case by (auto intro: less_trans)
qed simp

lemma chain_resolve:
  "chain_ok env H n bs \<Longrightarrow> resolve_blocks env born (H n) bs = map (\<lambda>kb. \<lparr>pb_height = fst kb, pb_block_hash = bb_block_hash (snd kb),
     pb_txdata = resolve_txs env born (fst kb) (H (fst kb - 1)) (bb_txdata (snd kb))\<rparr>) bs"
proof (induction bs arbitrary: n)
  case (Cons kb bs)
  show ?case using Cons.IH [OF chain_Cons(5) [OF Cons.prems]] chain_Cons(2,4) [OF Cons.prems] by (cases kb) simp
qed simp

lemma chain_entries:
  "chain_ok env H n bs \<Longrightarrow> entries_ok env (H n) bs ess \<Longrightarrow>
   list_all2 (\<lambda>kb es. distinct (map fst es) \<and> map_of es = block_entries env (H (fst kb - 1)) (fst kb) (bb_txdata (snd kb))) bs ess"
proof (induction bs arbitrary: n ess)
  case (Cons kb bs)
  note c = chain_Cons(4,5,2) [OF Cons.prems(1)]
  obtain es ess' where e: "ess = es # ess'" "distinct (map fst es)" "map_of es = block_entries env (H n) (fst kb) (bb_txdata (snd kb))"
    "entries_ok env (H (fst kb)) bs ess'" using Cons.prems(2) c(1) by auto
  then show ?case using Cons.IH [OF c(2) e(4)] c(3) by simp
qed simp

lemma chain_valid: "chain_ok env H n xs \<Longrightarrow> batch_valid env (xs @ ys) (H n) \<Longrightarrow> batch_valid env ys (H (batch_top n xs))"
proof (induction xs arbitrary: n)
  case (Cons kb xs)
  show ?case using batch_valid_Cons(4) [of env kb "xs @ ys" "H n"] Cons.prems(2) Cons.IH [OF chain_Cons(5) [OF Cons.prems(1)]]
      chain_Cons(4) [OF Cons.prems(1)] by simp
qed simp

lemma spent_pairs_dom: "spends_ok env txs U \<Longrightarrow> fst ` set (spent_pairs env U txs) \<subseteq> dom U \<union> fst ` set (txs_outs env txs)"
proof (induction txs arbitrary: U)
  case (Cons tx txs)
  then have "fst ` set (spent_pairs env (apply_tx env tx U) txs) \<subseteq> dom (apply_tx env tx U) \<union> fst ` set (txs_outs env txs)" by simp
  then have "fst ` set (spent_pairs env (apply_tx env tx U) txs) \<subseteq> dom U \<union> fst ` set (txs_outs env (tx # txs))"
    using dom_apply_tx [of env tx U] by (simp add: image_Un) blast
  moreover have "fst ` set (map (\<lambda>p. (p, the (U p))) (tx_ins tx)) \<subseteq> dom U" using Cons.prems by (simp add: image_image)
  ultimately show ?case by (simp only: spent_pairs.simps set_append image_Un) blast
qed simp

definition flush_exact :: "block_env \<Rightarrow> (OutPoint \<rightharpoonup> u32) \<Rightarrow> utxo_set \<Rightarrow> u32 \<times> BtcBlock \<Rightarrow> bool" where
  "flush_exact env born U kb \<longleftrightarrow> (\<forall>p \<in> fst ` set (spent_pairs env U (bb_txdata (snd kb))).
     (case born p of None \<Rightarrow> True | Some h \<Rightarrow> h < fst kb) \<longleftrightarrow> p \<notin> fst ` set (txs_outs env (bb_txdata (snd kb))))"

text \<open>The height of the block that creates an outpoint decides whether its spend is written back.\<close>

lemma batch_outs_append [simp]: "batch_outs env (xs @ ys) = batch_outs env xs @ batch_outs env ys" "batch_txs (xs @ ys) = batch_txs xs @ batch_txs ys"
  by (simp_all add: batch_outs_def batch_txs_def)

lemma batch_outs_height: "(p, v, h) \<in> set (batch_outs env bs) \<Longrightarrow> h \<in> fst ` set bs \<and> p \<in> fst ` set (txs_outs env (batch_txs bs))"
  by (induction bs) (force simp: image_Un)+

lemma block_flush_exact:
  assumes ch: "chain_ok env H n (pre @ kb # post)" and v: "batch_valid env (pre @ kb # post) (H n)"
  shows "flush_exact env (born_in (map_of (batch_outs env (pre @ kb # post)))) (H (batch_top n pre)) kb"
  unfolding flush_exact_def
proof
  let ?txs = "bb_txdata (snd kb)" and ?U = "H (batch_top n pre)" and ?xs = "batch_outs env (pre @ kb # post)"
  fix p assume "p \<in> fst ` set (spent_pairs env ?U ?txs)"
  have suf: "batch_valid env (kb # post) ?U" using chain_valid ch v unfolding chain_append by blast
  have d: "distinct (map fst ?xs)" using v by (simp add: batch_valid_def batch_outs_keys del: batch_outs_append)
  have "p \<in> dom ?U \<union> fst ` set (txs_outs env ?txs)"
    using spent_pairs_dom [OF batch_valid_Cons(1) [OF suf]] \<open>p \<in> _\<close> by blast
  show "(case born_in (map_of ?xs) p of None \<Rightarrow> True | Some h \<Rightarrow> h < fst kb) \<longleftrightarrow> p \<notin> fst ` set (txs_outs env ?txs)"
  proof (cases "p \<in> fst ` set (txs_outs env ?txs)")
    case True
    then obtain v where "(p, v, fst kb) \<in> set ?xs" by force
    then have "map_of ?xs p = Some (v, fst kb)" using d by (rule map_of_is_SomeI [rotated])
    then show ?thesis using True by (simp only: option.map snd_conv option.case) simp
  next
    case False
    then have p: "p \<in> dom ?U" using \<open>p \<in> dom ?U \<union> _\<close> by blast
    have "h < fst kb" if "map_of ?xs p = Some (v, h)" for v h
    proof -
      have "(p, v, h) \<in> set ?xs" using that by (rule map_of_SomeD)
      then consider "(p, v, h) \<in> set (batch_outs env pre)" | "(p, v, h) \<in> set (batch_outs env (kb # post))"
        unfolding batch_outs_append by (simp only: set_append) blast
      then show ?thesis
      proof cases
        case 1
        then have "h \<in> set (map fst pre)" using batch_outs_height by fastforce
        then show ?thesis using chain_heights [OF ch] by (auto simp: sorted_wrt_append)
      next
        case 2
        then have "p \<in> fst ` set (txs_outs env (batch_txs (kb # post)))" using batch_outs_height by blast
        then show ?thesis using suf p unfolding batch_valid_def by blast
      qed
    qed
    then show ?thesis using False by (auto split: option.split)
  qed
qed

text \<open>What holds of every block of the batch.\<close>

lemma chain_block:
  assumes ch: "chain_ok env H n bs" and v: "batch_valid env bs (H n)" and kb: "kb \<in> set bs"
  shows "spends_ok env (bb_txdata (snd kb)) (H (fst kb - 1))" "distinct (map fst (txs_outs env (bb_txdata (snd kb))))"
    "fst ` set (txs_outs env (bb_txdata (snd kb))) \<inter> dom (H (fst kb - 1)) = {}"
    "H (fst kb) = apply_txs env (bb_txdata (snd kb)) (H (fst kb - 1))"
    "flush_exact env (born_in (map_of (batch_outs env bs))) (H (fst kb - 1)) kb" "n < fst kb" "fst kb \<le> batch_top n bs"
proof -
  obtain pre post where bs: "bs = pre @ kb # post" using kb by (meson split_list)
  have "chain_ok env H (batch_top n pre) (kb # post)" using ch unfolding bs chain_append by blast
  note c = chain_Cons(1,4) [OF this] and t = chain_Cons(2) [OF this]
  have suf: "batch_valid env (kb # post) (H (batch_top n pre))" using chain_valid ch v unfolding bs chain_append by blast
  note b = batch_valid_Cons [OF suf]
  show "spends_ok env (bb_txdata (snd kb)) (H (fst kb - 1))" "distinct (map fst (txs_outs env (bb_txdata (snd kb))))"
    "fst ` set (txs_outs env (bb_txdata (snd kb))) \<inter> dom (H (fst kb - 1)) = {}"
    "H (fst kb) = apply_txs env (bb_txdata (snd kb)) (H (fst kb - 1))"
    using b(1-3) c(2) unfolding t by auto
  show "flush_exact env (born_in (map_of (batch_outs env bs))) (H (fst kb - 1)) kb"
    using block_flush_exact ch v unfolding bs t by blast
  have s: "sorted_wrt (<) (n # map fst bs)" using chain_heights [OF ch] .
  then show "n < fst kb" using kb by auto
  have "sorted_wrt (<) (fst kb # map fst post)" using s by (simp add: bs sorted_wrt_append)
  then show "fst kb \<le> batch_top n bs" by (cases post rule: rev_cases) (auto simp: bs batch_top_def intro: less_imp_le)
qed

end
