(* ===== verification/Balance_Write.thy ===== *)
theory Balance_Write
  imports Balance_Flush
begin

text \<open>The rows a batch writes, column family by column family.\<close>

section \<open>Outputs\<close>

lemma apply_txs_none: "U p = None \<Longrightarrow> p \<notin> fst ` set (txs_outs env txs) \<Longrightarrow> apply_txs env txs U p = None"
proof (induction txs arbitrary: U)
  case (Cons tx txs)
  have "map_of (tx_outs env tx) p = None" using Cons.prems(2) by (simp add: map_of_eq_None_iff image_Un)
  then have "apply_tx env tx U p = None" using Cons.prems(1) by (simp add: apply_tx_def map_add_def restrict_map_def)
  then show ?case using Cons by (simp add: image_Un)
qed simp

lemma apply_txs_other:
  "p \<notin> fst ` set (spent_pairs env U txs) \<Longrightarrow> p \<notin> fst ` set (txs_outs env txs) \<Longrightarrow> apply_txs env txs U p = U p"
proof (induction txs arbitrary: U)
  case (Cons tx txs)
  have "map_of (tx_outs env tx) p = None" using Cons.prems(2) by (simp add: map_of_eq_None_iff image_Un)
  moreover have "p \<notin> set (tx_ins tx)" using Cons.prems(1) by (auto simp: image_Un image_image)
  ultimately have "apply_tx env tx U p = U p" by (simp add: apply_tx_def map_add_def restrict_map_def)
  then show ?case using Cons by (simp add: image_Un)
qed simp

text \<open>What a valid sequence of transactions spends is gone after it.\<close>

lemma apply_txs_spent:
  assumes "spends_ok env txs U" and "distinct (map fst (txs_outs env txs))" and "fst ` set (txs_outs env txs) \<inter> dom U = {}"
    and "p \<in> fst ` set (spent_pairs env U txs)"
  shows "apply_txs env txs U p = None"
  using assms
proof (induction txs arbitrary: U)
  case (Cons tx txs)
  let ?U = "apply_tx env tx U"
  have dj: "fst ` set (tx_outs env tx) \<inter> fst ` set (txs_outs env txs) = {}" "fst ` set (txs_outs env txs) \<inter> dom U = {}"
    using Cons.prems(2,3) by (simp_all add: image_Un Int_Un_distrib2)
  have new: "fst ` set (txs_outs env txs) \<inter> dom ?U = {}" using dj dom_apply_tx by (rule disjoint_step)
  from Cons.prems(4) consider "p \<in> set (tx_ins tx)" | "p \<in> fst ` set (spent_pairs env ?U txs)" by (auto simp: image_Un)
  then show ?case
  proof cases
    case 1
    have "p \<in> dom U" using 1 Cons.prems(1) by auto
    then have p: "p \<notin> fst ` set (tx_outs env tx)" "p \<notin> fst ` set (txs_outs env txs)"
      using Cons.prems(3) by (simp only: txs_outs_simps set_append image_Un, blast)+
    then have "map_of (tx_outs env tx) p = None" by (simp add: map_of_eq_None_iff)
    then have "?U p = None" using 1 by (simp add: apply_tx_def map_add_def restrict_map_def)
    then show ?thesis using p(2) by (simp add: apply_txs_none)
  next
    case 2
    then show ?thesis using Cons.IH [of ?U] Cons.prems(1,2) new by simp
  qed
qed simp

lemma spent_pairs_append: "spent_pairs env U (xs @ ys) = spent_pairs env U xs @ spent_pairs env (apply_txs env xs U) ys"
  by (induction xs arbitrary: U) simp_all

lemma batch_spent_pairs:
  "chain_ok env H n bs \<Longrightarrow> set (spent_pairs env (H n) (batch_txs bs)) = (\<Union>kb \<in> set bs. set (spent_pairs env (H (fst kb - 1)) (bb_txdata (snd kb))))"
proof (induction bs arbitrary: n)
  case (Cons kb bs)
  note c = chain_Cons [OF Cons.prems]
  show ?case using Cons.IH [OF c(5)] c(2,4) by (simp add: spent_pairs_append)
qed simp

text \<open>The inputs a block has deleted.\<close>

lemma flushed_vins:
  "set (concat (map (\<lambda>tx. map vi_outpoint (filter vi_need_flush (pt_vin tx))) (resolve_txs env born k U txs))) =
     {p \<in> fst ` set (spent_pairs env U txs). case born p of None \<Rightarrow> True | Some h \<Rightarrow> h < k}"
proof (induction txs arbitrary: U)
  case (Cons tx txs)
  have "set (map vi_outpoint (filter vi_need_flush (map (resolve_vin born k U) (tx_ins tx)))) =
      {p \<in> fst ` set (map (\<lambda>p. (p, the (U p))) (tx_ins tx)). case born p of None \<Rightarrow> True | Some h \<Rightarrow> h < k}"
    by (simp add: filter_map comp_def image_image resolve_vin_def)
  then show ?case using Cons [of "apply_tx env tx U"] by (simp add: image_Un) blast
qed simp

definition flushed :: "block_env \<Rightarrow> (u32 \<Rightarrow> utxo_set) \<Rightarrow> (u32 \<times> BtcBlock) list \<Rightarrow> OutPoint set" where
  "flushed env H bs = (\<Union>kb \<in> set bs. fst ` set (spent_pairs env (H (fst kb - 1)) (bb_txdata (snd kb))) - fst ` set (txs_outs env (bb_txdata (snd kb))))"

lemma spent_list_set:
  assumes ch: "chain_ok env H n bs" and v: "batch_valid env bs (H n)"
  shows "set (concat (map (\<lambda>block. concat (map (\<lambda>tx. map vi_outpoint (filter vi_need_flush (pt_vin tx))) (pb_txdata block)))
    (resolve_blocks env (born_in (map_of (batch_outs env bs))) (H n) bs))) = flushed env H bs"
proof -
  let ?born = "born_in (map_of (batch_outs env bs))"
  have "set (concat (map (\<lambda>tx. map vi_outpoint (filter vi_need_flush (pt_vin tx))) (resolve_txs env ?born (fst kb) (H (fst kb - 1)) (bb_txdata (snd kb))))) =
      fst ` set (spent_pairs env (H (fst kb - 1)) (bb_txdata (snd kb))) - fst ` set (txs_outs env (bb_txdata (snd kb)))" if "kb \<in> set bs" for kb
    using chain_block(5) [OF ch v that] unfolding flushed_vins flush_exact_def by blast
  then show ?thesis unfolding chain_resolve [OF ch] flushed_def by simp
qed

lemma txs_outs_batch: "set (txs_outs env (batch_txs bs)) = (\<Union>kb \<in> set bs. set (txs_outs env (bb_txdata (snd kb))))"
  by (induction bs) simp_all

text \<open>Together with the unspent outputs of the batch, the deletions give the outputs after it.\<close>

lemma batch_utxos:
  assumes ch: "chain_ok env H n bs" and v: "batch_valid env bs (H n)"
    and M: "vouts_ok (map_of (batch_outs env bs)) (H n) (fst ` set (batch_outs env bs)) (H (batch_top n bs)) M"
  shows "H (batch_top n bs) p = (if p \<in> flushed env H bs then None
    else case map_of M p of Some i \<Rightarrow> if vu_spend i then H n p else Some (vu_item i) | None \<Rightarrow> H n p)"
proof -
  let ?outs = "txs_outs env (batch_txs bs)" and ?sp = "spent_pairs env (H n) (batch_txs bs)"
  have bv: "spends_ok env (batch_txs bs) (H n)" "distinct (map fst ?outs)" "fst ` set ?outs \<inter> dom (H n) = {}"
    using v by (simp_all add: batch_valid_def)
  have top: "H (batch_top n bs) = apply_txs env (batch_txs bs) (H n)" using chain_state [OF ch] by simp
  have gone: "H (batch_top n bs) p = None" if "p \<in> flushed env H bs"
    unfolding top by (rule apply_txs_spent [OF bv]) (use that batch_spent_pairs [OF ch] in \<open>auto simp: flushed_def\<close>)
  have keys: "fst ` set (batch_outs env bs) = fst ` set ?outs" by (simp add: batch_outs_keys set_map [symmetric] del: set_map)
  show ?thesis
  proof (cases "map_of M p")
    case None
    then have "map_of (batch_outs env bs) p = None" using vouts_okD [OF M, of p] by (simp add: vout_ok_def)
    then have out: "p \<notin> fst ` set ?outs" by (simp add: map_of_eq_None_iff keys)
    have "H (batch_top n bs) p = H n p" if "p \<notin> flushed env H bs"
      unfolding top using that out batch_spent_pairs [OF ch] unfolding txs_outs_batch flushed_def by (intro apply_txs_other) (auto simp: txs_outs_batch)
    then show ?thesis using None gone by simp
  next
    case (Some i)
    then have i: "H n p = None" "H (batch_top n bs) p = (if p \<in> fst ` set (batch_outs env bs) \<and> \<not> vu_spend i then Some (vu_item i) else None)"
      "map_of (batch_outs env bs) p \<noteq> None" using vouts_okD [OF M, of p] by (simp_all add: vout_ok_def)
    then have "p \<in> fst ` set (batch_outs env bs)" by (simp add: map_of_eq_None_iff)
    then show ?thesis using Some i gone by auto
  qed
qed

section \<open>Balances\<close>

lemma set_history_entries:
  "set (history_entries es) = (\<lambda>(sh, d). \<lparr>bh_script_hash = sh, bh_block_height = hd_block_height d, bh_delta = hd_delta d, bh_balance = hd_balance d\<rparr>) ` set es"
  by (simp add: history_entries_def)

lemma effect_balance_ops:
  assumes "\<And>e e'. e \<in> set es \<Longrightarrow> e' \<in> set es \<Longrightarrow> bh_script_hash e = bh_script_hash e' \<Longrightarrow> bh_block_height e = bh_block_height e' \<Longrightarrow> e = e'"
  shows "effect (map balance_entry_op es) BALANCE_HISTORY_CF (make_balance_history_key sh h) = Some (Some w) \<longleftrightarrow>
    (\<exists>e \<in> set es. bh_script_hash e = sh \<and> bh_block_height e = h \<and> w = balance_value (bh_delta e) (bh_balance e))"
    and "effect (map balance_entry_op es) BALANCE_HISTORY_CF (make_balance_history_key sh h) \<noteq> Some None"
    and "c \<noteq> BALANCE_HISTORY_CF \<Longrightarrow> effect (map balance_entry_op es) c k = None"
proof -
  let ?k = "\<lambda>e. make_balance_history_key (bh_script_hash e) (bh_block_height e)" and ?v = "\<lambda>e. balance_value (bh_delta e) (bh_balance e)"
  have ops: "map balance_entry_op es = map (\<lambda>e. PutCf BALANCE_HISTORY_CF (?k e) (?v e)) es" by (simp add: balance_entry_op_def)
  show "c \<noteq> BALANCE_HISTORY_CF \<Longrightarrow> effect (map balance_entry_op es) c k = None"
    "effect (map balance_entry_op es) BALANCE_HISTORY_CF (make_balance_history_key sh h) \<noteq> Some None"
    unfolding ops effect_puts by auto
  have "map_of (rev (map (\<lambda>e. (?k e, ?v e)) es)) (make_balance_history_key sh h) = Some w \<longleftrightarrow>
      (\<exists>e \<in> set es. bh_script_hash e = sh \<and> bh_block_height e = h \<and> w = ?v e)"
    using assms
  proof (induction es arbitrary: w)
    case (Cons e es)
    have ih: "map_of (rev (map (\<lambda>e. (?k e, ?v e)) es)) (make_balance_history_key sh h) = Some w \<longleftrightarrow>
      (\<exists>e \<in> set es. bh_script_hash e = sh \<and> bh_block_height e = h \<and> w = ?v e)" for w
      by (rule Cons.IH) (use Cons.prems in auto)
    show ?case
    proof (cases "map_of (rev (map (\<lambda>e. (?k e, ?v e)) es)) (make_balance_history_key sh h)")
      case None
      then show ?thesis using ih by (auto simp: map_add_def)
    next
      case (Some w')
      then obtain e' where "e' \<in> set es" "bh_script_hash e' = sh" "bh_block_height e' = h" using ih by blast
      then show ?thesis using ih [of w] Some Cons.prems [of e e'] by (auto simp: map_add_def)
    qed
  qed simp
  then show "effect (map balance_entry_op es) BALANCE_HISTORY_CF (make_balance_history_key sh h) = Some (Some w) \<longleftrightarrow>
    (\<exists>e \<in> set es. bh_script_hash e = sh \<and> bh_block_height e = h \<and> w = ?v e)"
    unfolding ops effect_puts by auto
qed

text \<open>The entries of the batch: one for every address a block touches.\<close>

lemma batch_entry_iff:
  assumes ch: "chain_ok env H n bs" and e: "entries_ok env (H n) bs ess"
  shows "x \<in> set (concat (map history_entries ess)) \<longleftrightarrow>
    (\<exists>kb \<in> set bs. bh_block_height x = fst kb \<and> bh_script_hash x \<in> touched env (H (fst kb - 1)) (bb_txdata (snd kb)) \<and>
      bh_balance x = wsum (apply_txs env (bb_txdata (snd kb)) (H (fst kb - 1))) (bh_script_hash x) \<and>
      bh_delta x = wsum (apply_txs env (bb_txdata (snd kb)) (H (fst kb - 1))) (bh_script_hash x) - wsum (H (fst kb - 1)) (bh_script_hash x))"
proof -
  have one: "x \<in> set (history_entries es) \<longleftrightarrow> bh_block_height x = fst kb \<and> bh_script_hash x \<in> touched env (H (fst kb - 1)) (bb_txdata (snd kb)) \<and>
      bh_balance x = wsum (apply_txs env (bb_txdata (snd kb)) (H (fst kb - 1))) (bh_script_hash x) \<and>
      bh_delta x = wsum (apply_txs env (bb_txdata (snd kb)) (H (fst kb - 1))) (bh_script_hash x) - wsum (H (fst kb - 1)) (bh_script_hash x)"
    if d: "distinct (map fst es)" and m: "map_of es = block_entries env (H (fst kb - 1)) (fst kb) (bb_txdata (snd kb))" for kb es
  proof -
    have "x \<in> set (history_entries es) \<longleftrightarrow>
        (bh_script_hash x, \<lparr>hd_block_height = bh_block_height x, hd_delta = bh_delta x, hd_balance = bh_balance x\<rparr>) \<in> set es"
    proof
      assume "x \<in> set (history_entries es)"
      then obtain sh d where "(sh, d) \<in> set es"
        "x = \<lparr>bh_script_hash = sh, bh_block_height = hd_block_height d, bh_delta = hd_delta d, bh_balance = hd_balance d\<rparr>"
        unfolding set_history_entries by auto
      then show "(bh_script_hash x, \<lparr>hd_block_height = bh_block_height x, hd_delta = bh_delta x, hd_balance = bh_balance x\<rparr>) \<in> set es" by (cases d) simp
    qed (simp add: set_history_entries, rule image_eqI, simp_all)
    also have "\<dots> \<longleftrightarrow> map_of es (bh_script_hash x) = Some \<lparr>hd_block_height = bh_block_height x, hd_delta = bh_delta x, hd_balance = bh_balance x\<rparr>"
      using d by simp
    finally show ?thesis unfolding m block_entries_def by auto
  qed
  from chain_entries [OF ch e] show ?thesis
    by (induction bs ess rule: list_all2_induct) (use one in auto)
qed

lemma batch_entries_unique:
  assumes ch: "chain_ok env H n bs" and e: "entries_ok env (H n) bs ess"
    and x: "x \<in> set (concat (map history_entries ess))" "y \<in> set (concat (map history_entries ess))"
    and eq: "bh_script_hash x = bh_script_hash y" "bh_block_height x = bh_block_height y"
  shows "x = y"
proof -
  obtain kb kb' where k: "kb \<in> set bs" "kb' \<in> set bs" "bh_block_height x = fst kb" "bh_block_height y = fst kb'"
    "bh_balance x = wsum (apply_txs env (bb_txdata (snd kb)) (H (fst kb - 1))) (bh_script_hash x)"
    "bh_balance y = wsum (apply_txs env (bb_txdata (snd kb')) (H (fst kb' - 1))) (bh_script_hash y)"
    "bh_delta x = wsum (apply_txs env (bb_txdata (snd kb)) (H (fst kb - 1))) (bh_script_hash x) - wsum (H (fst kb - 1)) (bh_script_hash x)"
    "bh_delta y = wsum (apply_txs env (bb_txdata (snd kb')) (H (fst kb' - 1))) (bh_script_hash y) - wsum (H (fst kb' - 1)) (bh_script_hash y)"
    using x batch_entry_iff [OF ch e] by metis
  have "distinct (map fst bs)" using chain_heights [OF ch] strict_sorted_iff by auto
  then have "kb = kb'" using k(1-4) eq(2) by (metis eq_key_imp_eq_value prod.collapse)
  then show ?thesis using k eq by (cases x; cases y) simp
qed

text \<open>The balance rows after the batch.\<close>

definition batch_record :: "block_env \<Rightarrow> (u32 \<Rightarrow> utxo_set) \<Rightarrow> (u32 \<times> BtcBlock) list \<Rightarrow> USDBScriptHash \<Rightarrow> u32 \<Rightarrow> (i64 \<times> u64) option" where
  "batch_record env H bs sh h = (case map_of bs h of
     Some b \<Rightarrow> if sh \<in> touched env (H (h - 1)) (bb_txdata b) then Some (wsum (H h) sh - wsum (H (h - 1)) sh, wsum (H h) sh) else None
   | None \<Rightarrow> None)"

lemma balance_row_value: "be_word (take 8 (balance_value d b)) = d" "be_word (drop 8 (balance_value d b)) = b"
  by (simp_all add: balance_value_def)

lemma batch_balance_effect:
  assumes ch: "chain_ok env H n bs" and v: "batch_valid env bs (H n)" and e: "entries_ok env (H n) bs ess"
  shows "effect (map balance_entry_op (sort_key f (concat (map history_entries ess)))) BALANCE_HISTORY_CF (make_balance_history_key sh h) =
    map_option (\<lambda>(d, b). Some (balance_value d b)) (batch_record env H bs sh h)"
proof -
  let ?es = "sort_key f (concat (map history_entries ess))"
  have u: "\<And>x y. x \<in> set ?es \<Longrightarrow> y \<in> set ?es \<Longrightarrow> bh_script_hash x = bh_script_hash y \<Longrightarrow> bh_block_height x = bh_block_height y \<Longrightarrow> x = y"
    using batch_entries_unique [OF ch e] by simp
  have eff: "effect (map balance_entry_op ?es) BALANCE_HISTORY_CF (make_balance_history_key sh h) = Some (Some w) \<longleftrightarrow>
      (\<exists>e \<in> set ?es. bh_script_hash e = sh \<and> bh_block_height e = h \<and> w = balance_value (bh_delta e) (bh_balance e))"
    "effect (map balance_entry_op ?es) BALANCE_HISTORY_CF (make_balance_history_key sh h) \<noteq> Some None" for sh h w
    by (rule effect_balance_ops(1,2), rule u, assumption+)+
  have d: "distinct (map fst bs)" using chain_heights [OF ch] strict_sorted_iff by auto
  have H: "H (fst kb) = apply_txs env (bb_txdata (snd kb)) (H (fst kb - 1))" if "kb \<in> set bs" for kb using chain_block(4) [OF ch v that] .
  have iff: "x \<in> set ?es \<longleftrightarrow> batch_record env H bs (bh_script_hash x) (bh_block_height x) = Some (bh_delta x, bh_balance x)" for x
  proof (cases "map_of bs (bh_block_height x)")
    case None
    then have "bh_block_height x \<notin> fst ` set bs" by (simp add: map_of_eq_None_iff)
    then show ?thesis using None batch_entry_iff [OF ch e, of x] by (auto simp: batch_record_def)
  next
    case (Some b)
    then have b: "(bh_block_height x, b) \<in> set bs" by (rule map_of_SomeD)
    have "kb = (bh_block_height x, b)" if "kb \<in> set bs" "bh_block_height x = fst kb" for kb
      using that b d by (metis eq_key_imp_eq_value prod.collapse)
    then have "x \<in> set ?es \<longleftrightarrow> bh_script_hash x \<in> touched env (H (bh_block_height x - 1)) (bb_txdata b) \<and>
      bh_balance x = wsum (H (bh_block_height x)) (bh_script_hash x) \<and>
      bh_delta x = wsum (H (bh_block_height x)) (bh_script_hash x) - wsum (H (bh_block_height x - 1)) (bh_script_hash x)"
      using batch_entry_iff [OF ch e, of x] b H [OF b] by (simp only: set_sort) (metis fst_conv snd_conv)
    then show ?thesis using Some by (auto simp: batch_record_def)
  qed
  show ?thesis
  proof (cases "batch_record env H bs sh h")
    case None
    have "bh_script_hash e \<noteq> sh \<or> bh_block_height e \<noteq> h" if "e \<in> set ?es" for e using that None iff [of e] by auto
    then have "effect (map balance_entry_op ?es) BALANCE_HISTORY_CF (make_balance_history_key sh h) \<noteq> Some (Some w)" for w
      using eff(1) [of sh h w] by blast
    moreover have "effect (map balance_entry_op ?es) BALANCE_HISTORY_CF (make_balance_history_key sh h) \<noteq> Some None" by (rule eff(2))
    ultimately have "effect (map balance_entry_op ?es) BALANCE_HISTORY_CF (make_balance_history_key sh h) = None" by (metis not_None_eq)
    then show ?thesis using None by simp
  next
    case (Some db)
    let ?x = "\<lparr>bh_script_hash = sh, bh_block_height = h, bh_delta = fst db, bh_balance = snd db\<rparr>"
    have x: "?x \<in> set ?es" using iff [of ?x] Some by simp
    have "effect (map balance_entry_op ?es) BALANCE_HISTORY_CF (make_balance_history_key sh h) = Some (Some (balance_value (fst db) (snd db)))"
      by (rule eff(1) [THEN iffD2]) (rule bexI [OF _ x], simp)
    then show ?thesis using Some by (simp add: case_prod_beta)
  qed
qed

end
