(* ===== verification/Balance_Batch.thy ===== *)
theory Balance_Batch
  imports Balance_Write
begin

text \<open>
  The write batch of a processed batch of blocks as a whole, and the ledger it leaves: the unspent outputs, the balance
  of every address at every height, the commits and the undo bundles of the new blocks.
\<close>

section \<open>Undo bundles\<close>

definition undo_cf :: "ColumnFamily \<Rightarrow> bool" where
  "undo_cf c \<longleftrightarrow> c \<in> {BLOCK_UNDO_META_CF, BLOCK_UNDO_CREATED_UTXOS_CF, BLOCK_UNDO_SPENT_UTXOS_CF, BLOCK_UNDO_BALANCE_INDEX_CF}"

lemma enumerate_puts: "undo_utxo_ops c h us = map (\<lambda>i. PutCf c (make_block_undo_utxo_key h (of_nat i)) (serialize_block_undo_utxo_value (us ! i))) [0..<length us]"
  by (rule nth_equalityI) (simp_all add: undo_utxo_ops_def nth_enumerate_eq)

lemma map_of_undo_rows:
  "l \<le> 2 ^ 32 \<Longrightarrow> map_of (rev (map (\<lambda>i. (make_block_undo_utxo_key h (of_nat i), f i)) [0..<l])) (make_block_undo_utxo_key h q) =
     (if unat q < l then Some (f (unat q)) else None)"
proof (induction l)
  case (Suc l)
  then have "unat (of_nat l :: u32) = l" by (simp add: unat_of_nat)
  then have "q = of_nat l \<longleftrightarrow> unat q = l" by auto
  then show ?case using Suc by (auto simp: less_Suc_eq)
qed simp

lemma effect_undo_list:
  "length us < 2 ^ 32 \<Longrightarrow> effect (undo_utxo_ops c h us) c (make_block_undo_utxo_key h q) =
     (if unat q < length us then Some (Some (serialize_block_undo_utxo_value (us ! unat q))) else None)"
  "c' \<noteq> c \<or> take 4 k \<noteq> u32_be h \<Longrightarrow> effect (undo_utxo_ops c h us) c' k = None"
proof -
  show "length us < 2 ^ 32 \<Longrightarrow> effect (undo_utxo_ops c h us) c (make_block_undo_utxo_key h q) =
     (if unat q < length us then Some (Some (serialize_block_undo_utxo_value (us ! unat q))) else None)"
    unfolding enumerate_puts effect_puts
    using map_of_undo_rows [of "length us" h "\<lambda>i. serialize_block_undo_utxo_value (us ! i)" q] by simp
  show "c' \<noteq> c \<or> take 4 k \<noteq> u32_be h \<Longrightarrow> effect (undo_utxo_ops c h us) c' k = None"
    unfolding enumerate_puts effect_puts by (auto simp: map_of_eq_None_iff)
qed

lemma effect_undo_index:
  "effect (map (\<lambda>sh. PutCf BLOCK_UNDO_BALANCE_INDEX_CF (make_block_undo_balance_index_key h sh) [1]) xs)
     BLOCK_UNDO_BALANCE_INDEX_CF (make_block_undo_balance_index_key h sh) = (if sh \<in> set xs then Some (Some [1]) else None)"
  "c \<noteq> BLOCK_UNDO_BALANCE_INDEX_CF \<or> take 4 k \<noteq> u32_be h \<Longrightarrow>
   effect (map (\<lambda>sh. PutCf BLOCK_UNDO_BALANCE_INDEX_CF (make_block_undo_balance_index_key h sh) [1]) xs) c k = None"
  by (induction xs) (auto split: option.splits)

lemma undo_ops_other:
  assumes "\<not> undo_cf c \<or> take 4 k \<noteq> u32_be (ub_block_height ub)"
  shows "effect (undo_bundle_ops ub) c k = None"
proof -
  have "c \<noteq> BLOCK_UNDO_META_CF \<or> k \<noteq> make_block_undo_meta_key (ub_block_height ub)"
    using assms by (auto simp: undo_cf_def make_block_undo_meta_key_def)
  then show ?thesis using assms by (auto simp: undo_bundle_ops_def undo_cf_def effect_undo_list(2) effect_undo_index(2))
qed

lemma undo_ops_rows:
  assumes "length (ub_created_utxos ub) < 2 ^ 32" and "length (ub_spent_utxos ub) < 2 ^ 32" and "ub_block_height ub = h"
  shows "effect (undo_bundle_ops ub) BLOCK_UNDO_META_CF (make_block_undo_meta_key h) = Some (Some (serialize_block_undo_meta_value (undo_meta_of ub)))"
    "effect (undo_bundle_ops ub) BLOCK_UNDO_CREATED_UTXOS_CF (make_block_undo_utxo_key h q) =
      (if unat q < length (ub_created_utxos ub) then Some (Some (serialize_block_undo_utxo_value (ub_created_utxos ub ! unat q))) else None)"
    "effect (undo_bundle_ops ub) BLOCK_UNDO_SPENT_UTXOS_CF (make_block_undo_utxo_key h q) =
      (if unat q < length (ub_spent_utxos ub) then Some (Some (serialize_block_undo_utxo_value (ub_spent_utxos ub ! unat q))) else None)"
    "effect (undo_bundle_ops ub) BLOCK_UNDO_BALANCE_INDEX_CF (make_block_undo_balance_index_key h sh) =
      (if sh \<in> set (ub_touched_script_hashes ub) then Some (Some [1]) else None)"
  using assms by (simp_all add: undo_bundle_ops_def effect_undo_list effect_undo_index undo_meta_of_def)

lemma undo_batch_other:
  assumes "\<not> undo_cf c \<or> (\<forall>ub \<in> set ubs. take 4 k \<noteq> u32_be (ub_block_height ub))"
  shows "effect (append_block_undo_bundles_to_batch ubs) c k = None"
  using assms unfolding append_block_undo_bundles_to_batch_def by (induction ubs) (auto simp: undo_ops_other)

lemma undo_batch_one:
  assumes "distinct (map ub_block_height ubs)" and "ub \<in> set ubs" and "take 4 k = u32_be (ub_block_height ub)"
  shows "effect (append_block_undo_bundles_to_batch ubs) c k = effect (undo_bundle_ops ub) c k"
  using assms(1,2)
proof (induction ubs)
  case (Cons u ubs)
  have app: "effect (append_block_undo_bundles_to_batch (u # ubs)) c k =
      (case effect (append_block_undo_bundles_to_batch ubs) c k of None \<Rightarrow> effect (undo_bundle_ops u) c k | Some r \<Rightarrow> Some r)"
    by (simp add: append_block_undo_bundles_to_batch_def)
  show ?case
  proof (cases "ub \<in> set ubs")
    case True
    then have "ub_block_height ub \<noteq> ub_block_height u" using Cons.prems(1) by (force simp: image_iff)
    then have "effect (undo_bundle_ops u) c k = None" using assms(3) by (intro undo_ops_other) simp
    then show ?thesis using Cons True unfolding app by (simp split: option.split)
  next
    case False
    then have u: "u = ub" using Cons.prems(2) by simp
    have "effect (append_block_undo_bundles_to_batch ubs) c k = None"
      by (rule undo_batch_other) (use Cons.prems(1) u assms(3) in \<open>force simp: image_iff\<close>)
    then show ?thesis using app u by simp
  qed
qed simp

section \<open>The batch\<close>

definition update_batch :: "BlockStateUpdateBatch \<Rightarrow> WriteBatch \<Rightarrow> WriteBatch" where
  "update_batch u boundary = map utxo_put_op (su_new_utxos u) @ map utxo_delete_op (su_remove_utxos u) @ map balance_entry_op (su_entries_list u) @
     map block_commit_op (su_block_commits u) @ [btc_height_op (su_block_height u)] @
     append_script_registry_entries_to_batch (su_script_registry_entries u) @ append_block_undo_bundles_to_batch (su_undo_bundles u) @ boundary"

lemma effect_registry: "c \<noteq> SCRIPT_REGISTRY_CF \<Longrightarrow> effect (append_script_registry_entries_to_batch rs) c k = None"
  unfolding append_script_registry_entries_to_batch_def by (simp add: effect_puts)

lemma effect_boundary:
  "undo_boundary_ops ubs db = Inr b \<Longrightarrow> c \<noteq> META_CF \<or> k = str_bytes META_KEY_BTC_BLOCK_HEIGHT \<Longrightarrow> effect b c k = None"
  by (auto simp: undo_boundary_ops_def Let_def META_KEY_BTC_BLOCK_HEIGHT_def META_KEY_ROLLBACK_SUPPORTED_FROM_HEIGHT_def
      META_KEY_UNDO_RETAINED_FROM_HEIGHT_def split: sum.splits if_splits)

lemma effect_commits:
  "effect (map block_commit_op cs) BLOCK_COMMITS_CF (make_block_commit_key h) \<noteq> Some None"
  "effect (map block_commit_op cs) BLOCK_COMMITS_CF (make_block_commit_key h) = None \<longleftrightarrow> h \<notin> ce_block_height ` set cs"
  "c \<noteq> BLOCK_COMMITS_CF \<Longrightarrow> effect (map block_commit_op cs) c k = None"
  "effect (map block_commit_op cs) BLOCK_COMMITS_CF (make_block_commit_key h) = Some (Some v) \<Longrightarrow>
     \<exists>c \<in> set cs. ce_block_height c = h \<and> v = serialize_block_commit_value c"
  by (induction cs) (auto simp: block_commit_op_def split: option.splits if_splits)

lemma effect_utxo_list:
  "effect (map utxo_put_op us) UTXO_CF (make_utxo_key p) = map_option (\<lambda>v. Some (UTXOValue_encode (uv_script_hash v) (uv_value v))) (map_of (rev us) p)"
  "c \<noteq> UTXO_CF \<Longrightarrow> effect (map utxo_put_op us) c k = None"
  "effect (map utxo_delete_op ps) UTXO_CF (make_utxo_key p) = (if p \<in> set ps then Some None else None)"
  "c \<noteq> UTXO_CF \<Longrightarrow> effect (map utxo_delete_op ps) c k = None"
  using effect_utxo_puts [of fst snd us] effect_other_puts [of c fst snd us k] effect_utxo_deletes [of id ps] effect_other_deletes [of c id ps k]
  by simp_all

lemma effect_balance_other: "c \<noteq> BALANCE_HISTORY_CF \<Longrightarrow> effect (map balance_entry_op es) c k = None"
  by (induction es) (simp_all add: balance_entry_op_def)

lemmas update_parts = effect_registry effect_commits(3) effect_utxo_list effect_balance_other undo_batch_other [OF disjI1] btc_height_op_def

lemma update_effects:
  assumes b: "undo_boundary_ops (su_undo_bundles u) db = Inr bd"
  shows "effect (update_batch u bd) UTXO_CF (make_utxo_key p) = (if p \<in> set (su_remove_utxos u) then Some None
      else map_option (\<lambda>v. Some (UTXOValue_encode (uv_script_hash v) (uv_value v))) (map_of (rev (su_new_utxos u)) p))"
    "effect (update_batch u bd) BALANCE_HISTORY_CF k = effect (map balance_entry_op (su_entries_list u)) BALANCE_HISTORY_CF k"
    "effect (update_batch u bd) BLOCK_COMMITS_CF k = effect (map block_commit_op (su_block_commits u)) BLOCK_COMMITS_CF k"
    "undo_cf c \<Longrightarrow> effect (update_batch u bd) c k = effect (append_block_undo_bundles_to_batch (su_undo_bundles u)) c k"
    "effect (update_batch u bd) META_CF (str_bytes META_KEY_BTC_BLOCK_HEIGHT) = Some (Some (u32_be (su_block_height u)))"
  using effect_boundary [OF b] by (auto simp: update_batch_def update_parts undo_cf_def split: option.split)

section \<open>The ledger after the batch\<close>

lemma distinct_keys_sort: "distinct (map fst xs) \<Longrightarrow> distinct (map fst (rev (sort_key f xs)))"
  by (simp add: distinct_map)

lemma new_utxos_map:
  assumes "distinct (map fst M)"
  shows "map_of (rev (sort_key f (map (\<lambda>(p, i). (p, vu_item i)) (filter (\<lambda>(p, i). \<not> vu_spend i) M)))) p =
    (case map_of M p of Some i \<Rightarrow> if vu_spend i then None else Some (vu_item i) | None \<Rightarrow> None)"
proof -
  let ?xs = "map (\<lambda>(p, i). (p, vu_item i)) (filter (\<lambda>(p, i). \<not> vu_spend i) M)"
  have keys: "map fst ?xs = map fst (filter (\<lambda>(p, i). \<not> vu_spend i) M)" by (simp add: comp_def case_prod_beta)
  have d: "distinct (map fst ?xs)" unfolding keys using assms by (rule distinct_map_filter)
  then have d': "distinct (map fst (rev (sort_key f ?xs)))" by (rule distinct_keys_sort)
  have "map_of (rev (sort_key f ?xs)) p = Some v \<longleftrightarrow> (\<exists>i. map_of M p = Some i \<and> \<not> vu_spend i \<and> v = vu_item i)" for v
    unfolding map_of_eq_Some_iff [OF d'] using assms by (auto simp: image_iff)
  then show ?thesis by (intro option_eqI_Some) (auto split: option.split)
qed

lemma chain_map_of: "chain_ok env H n bs \<Longrightarrow> map_of bs h = Some b \<longleftrightarrow> (h, b) \<in> set bs"
  using chain_heights [of env H n bs] by (intro map_of_eq_Some_iff) (auto simp: strict_sorted_iff)

lemma chain_range:
  assumes ch: "chain_ok env H n bs" and h: "n < h" "h \<le> batch_top n bs"
  shows "\<exists>b. (h, b) \<in> set bs"
  using assms
proof (induction bs arbitrary: n)
  case (Cons kb bs)
  note c = chain_Cons [OF Cons.prems(1)]
  have "n + 1 \<le> h" using Cons.prems(2) by (rule inc_le)
  then have "h = fst kb \<or> fst kb < h" unfolding c(1) by auto
  then show ?case
  proof
    assume "fst kb < h"
    then show ?thesis using Cons.IH [OF c(5)] Cons.prems(3) by auto
  qed (cases kb, auto)
qed simp

lemma batch_record_outside:
  assumes ch: "chain_ok env H n bs" and v: "batch_valid env bs (H n)" and h: "h \<le> n \<or> batch_top n bs < h"
  shows "batch_record env H bs sh h = None" "h \<notin> fst ` set bs"
proof -
  show out: "h \<notin> fst ` set bs"
  proof
    assume "h \<in> fst ` set bs"
    then obtain kb where "kb \<in> set bs" "h = fst kb" by auto
    then show False using chain_block(6,7) [OF ch v] h by (metis leD)
  qed
  then have "map_of bs h = None" by (simp add: map_of_eq_None_iff)
  then show "batch_record env H bs sh h = None" by (simp add: batch_record_def)
qed

text \<open>What the update of a batch has to contain.\<close>

definition updates :: "block_env \<Rightarrow> (u32 \<Rightarrow> BlockHash) \<Rightarrow> (u32 \<Rightarrow> utxo_set) \<Rightarrow> u32 \<Rightarrow> (u32 \<times> BtcBlock) list \<Rightarrow> BlockStateUpdateBatch \<Rightarrow> bool" where
  "updates env B H n bs u \<longleftrightarrow>
     (\<forall>p. H (batch_top n bs) p = (if p \<in> set (su_remove_utxos u) then None else case map_of (rev (su_new_utxos u)) p of Some v \<Rightarrow> Some v | None \<Rightarrow> H n p)) \<and>
     (\<forall>sh h. effect (map balance_entry_op (su_entries_list u)) BALANCE_HISTORY_CF (make_balance_history_key sh h) =
        map_option (\<lambda>(d, b). Some (balance_value d b)) (batch_record env H bs sh h)) \<and>
     su_block_height u = batch_top n bs \<and> (\<lambda>c. (ce_block_height c, ce_btc_block_hash c)) ` set (su_block_commits u) = (\<lambda>kb. (fst kb, B (fst kb))) ` set bs \<and>
     distinct (map ub_block_height (su_undo_bundles u)) \<and>
     (\<forall>ub \<in> set (su_undo_bundles u). \<exists>kb \<in> set bs. ub_block_height ub = fst kb \<and> restore ub (H (fst kb)) = H (fst kb - 1) \<and>
        touched env (H (fst kb - 1)) (bb_txdata (snd kb)) \<subseteq> set (ub_touched_script_hashes ub) \<and> sorted_wrt (<) (ub_touched_script_hashes ub) \<and>
        length (ub_created_utxos ub) < 2 ^ 32 \<and> length (ub_spent_utxos ub) < 2 ^ 32)"

lemma typed_rows: "db_typed db \<Longrightarrow> rows_sorted db"
  by (simp add: db_typed_def)

lemma updated_typed:
  assumes "db_typed db" and "undo_boundary_ops (su_undo_bundles u) db = Inr bd"
  shows "update_block_state_batch_async u db = (Inr (), write_batch (update_batch u bd) db)" "db_typed (write_batch (update_batch u bd) db)"
proof -
  show r: "update_block_state_batch_async u db = (Inr (), write_batch (update_batch u bd) db)"
    using assms(2) by (simp add: update_block_state_batch_async_def bindR_def update_batch_def)
  show "db_typed (write_batch (update_batch u bd) db)" 
    using keeps_typed_update [of u] r assms(1) unfolding keeps_def by (metis snd_conv)
qed

lemma updates_bundle:
  assumes "updates env B H n bs u" and "ub \<in> set (su_undo_bundles u)"
  obtains kb where "kb \<in> set bs" and "ub_block_height ub = fst kb" and "restore ub (H (fst kb)) = H (fst kb - 1)"
    and "touched env (H (fst kb - 1)) (bb_txdata (snd kb)) \<subseteq> set (ub_touched_script_hashes ub)" and "sorted_wrt (<) (ub_touched_script_hashes ub)"
    and "length (ub_created_utxos ub) < 2 ^ 32" and "length (ub_spent_utxos ub) < 2 ^ 32"
  using assms unfolding updates_def by blast

lemma updates_commits: "updates env B H n bs u \<Longrightarrow> ce_block_height ` set (su_block_commits u) = fst ` set bs"
proof -
  assume "updates env B H n bs u"
  then have "fst ` (\<lambda>c. (ce_block_height c, ce_btc_block_hash c)) ` set (su_block_commits u) = fst ` (\<lambda>kb. (fst kb, B (fst kb))) ` set bs"
    unfolding updates_def by blast
  then show ?thesis by (simp add: image_image)
qed

text \<open>The rows of the heights that are not in the batch stay.\<close>

lemma updated_same:
  assumes ty: "db_typed db" and ch: "chain_ok env H n bs" and v: "batch_valid env bs (H n)" and up: "updates env B H n bs u"
    and bd: "undo_boundary_ops (su_undo_bundles u) db = Inr bd" and h: "h \<le> n \<or> batch_top n bs < h"
  shows "same_at h db (write_batch (update_batch u bd) db)"
proof -
  note eff = update_effects [OF bd] and out = batch_record_outside [OF ch v h]
  have bal: "effect (update_batch u bd) BALANCE_HISTORY_CF (make_balance_history_key sh h) = None" for sh
    using up out(1) unfolding eff updates_def by simp
  have "ce_block_height ` set (su_block_commits u) = fst ` set bs" using up by (rule updates_commits)
  then have com: "effect (update_batch u bd) BLOCK_COMMITS_CF (make_block_commit_key h) = None"
    using out(2) unfolding eff effect_commits(2) by simp
  have "take 4 k \<noteq> u32_be (ub_block_height ub)" if k: "take 4 k = u32_be h" and ub: "ub \<in> set (su_undo_bundles u)" for k ub
  proof -
    obtain kb where "kb \<in> set bs" "ub_block_height ub = fst kb" using up ub unfolding updates_def by blast
    then show ?thesis using out(2) k by auto
  qed
  then have und: "effect (update_batch u bd) c k = None" if "undo_cf c" "take 4 k = u32_be h" for c k
    unfolding eff(4) [OF that(1)] using that(2) by (intro undo_batch_other) blast
  have meta: "take 4 (make_block_undo_meta_key h) = u32_be h" by (simp add: make_block_undo_meta_key_def)
  show ?thesis unfolding same_at_def get_write_batch [OF typed_rows [OF ty]]
    using bal com und meta by (auto simp: undo_cf_def)
qed

lemma updated_undo:
  assumes l: "ledger B H lo n db" and ch: "chain_ok env H n bs" and v: "batch_valid env bs (H n)" and up: "updates env B H n bs u"
    and bd: "undo_boundary_ops (su_undo_bundles u) db = Inr bd" and h: "n < h" "h \<le> batch_top n bs"
  shows "undo_ok H h (write_batch (update_batch u bd) db)"
proof -
  let ?db = "write_batch (update_batch u bd) db"
  have ty: "db_typed db" using ledgerD(1) [OF l] .
  note g = get_write_batch [OF typed_rows [OF ty], where b = "update_batch u bd"] and eff = update_effects [OF bd]
  have clean: "no_undo h db" "\<And>sh. balance_record sh h db = None" using ledgerD(5) [OF l] h(1) by (simp_all add: clean_above_def)
  have meta: "take 4 (make_block_undo_meta_key h) = u32_be h" by (simp add: make_block_undo_meta_key_def)
  show ?thesis
  proof (cases "h \<in> ub_block_height ` set (su_undo_bundles u)")
    case False
    have "effect (update_batch u bd) c k = None" if "undo_cf c" "take 4 k = u32_be h" for c k
      unfolding eff(4) [OF that(1)] using that(2) False by (intro undo_batch_other) auto
    then have "no_undo h ?db" using clean(1) meta by (auto simp: no_undo_def undo_list_at_def undo_index_at_def g undo_cf_def)
    then show ?thesis by (simp add: undo_ok_def)
  next
    case True
    then obtain ub where ub: "ub \<in> set (su_undo_bundles u)" "ub_block_height ub = h" by auto
    obtain kb where kb: "kb \<in> set bs" "h = fst kb" "restore ub (H h) = H (h - 1)"
      "touched env (H (h - 1)) (bb_txdata (snd kb)) \<subseteq> set (ub_touched_script_hashes ub)" "sorted_wrt (<) (ub_touched_script_hashes ub)"
      "length (ub_created_utxos ub) < 2 ^ 32" "length (ub_spent_utxos ub) < 2 ^ 32"
      by (rule updates_bundle [OF up ub(1)]) (simp add: ub(2) that)
    have dist: "distinct (map ub_block_height (su_undo_bundles u))" using up by (simp add: updates_def)
    have one: "effect (update_batch u bd) c k = effect (undo_bundle_ops ub) c k" if "undo_cf c" "take 4 k = u32_be h" for c k
      unfolding eff(4) [OF that(1)] using that(2) ub by (intro undo_batch_one [OF dist]) simp_all
    note rows = undo_ops_rows [OF kb(6,7) ub(2)]
    have m: "effect (update_batch u bd) BLOCK_UNDO_META_CF (make_block_undo_meta_key h) = Some (Some (serialize_block_undo_meta_value (undo_meta_of ub)))"
      using one [OF _ meta] rows(1) by (simp only: undo_cf_def insert_iff simp_thms)
    have "undo_at ub ?db"
      using clean(1) kb(5-7) m unfolding undo_at_def undo_list_at_def undo_index_at_def no_undo_def ub(2) g
      by (simp add: one undo_cf_def rows)
    moreover have "sh \<in> set (ub_touched_script_hashes ub)" if "balance_record sh h ?db \<noteq> None" for sh
    proof -
      have "effect (update_batch u bd) BALANCE_HISTORY_CF (make_balance_history_key sh h) \<noteq> None"
        using that clean(2) [of sh] by (auto simp: balance_record_def g split: option.splits)
      then have "batch_record env H bs sh h \<noteq> None" using up unfolding eff updates_def by auto
      moreover have "map_of bs h = Some (snd kb)" using chain_map_of [OF ch] kb(1,2) by simp
      ultimately have "sh \<in> touched env (H (h - 1)) (bb_txdata (snd kb))" by (simp add: batch_record_def split: if_splits)
      then show ?thesis using kb(4) by blast
    qed
    ultimately show ?thesis using ub(2) kb(3) unfolding undo_ok_def by blast
  qed
qed

lemma word_pred:
  assumes "0 < (t :: u32)"
  shows "h \<le> t - 1 \<longleftrightarrow> h < t" "t - 1 < t" "unat (t - 1) < unat t"
proof -
  have "unat (t - 1) = unat t - 1" "0 < unat t" using assms by (auto simp: unat_minus_one unat_gt_0)
  then show "h \<le> t - 1 \<longleftrightarrow> h < t" "t - 1 < t" "unat (t - 1) < unat t"
    unfolding word_le_nat_alt word_less_nat_alt by linarith+
qed

lemma last_balance_at: "last_balance sh t db e \<Longrightarrow> balance_record sh t db = Some (d, b) \<Longrightarrow> hd_balance e = b"
  unfolding last_balance_def by (metis Pair_inject less_le option.distinct(1) option.inject order_refl)

lemma last_balance_before:
  assumes "last_balance sh t db e" and "balance_record sh t db = None" and "0 < t"
  shows "last_balance sh (t - 1) db e"
  using assms word_pred(1) [OF assms(3)] unfolding last_balance_def by (metis less_le option.distinct(1))

lemma chain_finite: "chain_ok env H n bs \<Longrightarrow> finite (dom (H n)) \<Longrightarrow> kb \<in> set bs \<Longrightarrow> finite (dom (H (fst kb - 1)))"
proof (induction bs arbitrary: n)
  case (Cons kb' bs)
  note c = chain_Cons [OF Cons.prems(1)]
  have "finite (dom (H (fst kb')))" unfolding c(4) using Cons.prems(2) by (rule finite_apply_txs)
  then show ?case using Cons c by auto
qed simp

lemma chain_wsum:
  assumes ch: "chain_ok env H n bs" and v: "batch_valid env bs (H n)" and fin: "finite (dom (H n))" and kb: "kb \<in> set bs"
    and sh: "sh \<notin> touched env (H (fst kb - 1)) (bb_txdata (snd kb))"
  shows "wsum (H (fst kb)) sh = wsum (H (fst kb - 1)) sh"
  unfolding chain_block(4) [OF ch v kb]
  using wsum_apply_txs [OF chain_finite [OF ch fin kb] chain_block(1-3) [OF ch v kb], of sh] untouched_amounts [OF sh] by simp

lemma updated_record:
  assumes "db_typed db" and "updates env B H n bs u" and "undo_boundary_ops (su_undo_bundles u) db = Inr bd"
  shows "balance_record sh h (write_batch (update_batch u bd) db) =
    (case batch_record env H bs sh h of Some x \<Rightarrow> Some x | None \<Rightarrow> balance_record sh h db)"
proof -
  have "effect (update_batch u bd) BALANCE_HISTORY_CF (make_balance_history_key sh h) = map_option (\<lambda>(d, b). Some (balance_value d b)) (batch_record env H bs sh h)"
    using assms(2) unfolding update_effects(2) [OF assms(3)] updates_def by blast
  then show ?thesis by (cases "batch_record env H bs sh h") (auto simp: balance_record_def get_write_batch [OF typed_rows [OF assms(1)]] balance_row_value)
qed

lemma updated_balances:
  assumes l: "ledger B H lo n db" and ch: "chain_ok env H n bs" and v: "batch_valid env bs (H n)" and fin: "finite (dom (H n))"
    and up: "updates env B H n bs u" and bd: "undo_boundary_ops (su_undo_bundles u) db = Inr bd" and t: "n \<le> t" "t \<le> batch_top n bs"
  shows "balances_ok H t (write_batch (update_batch u bd) db)"
  using t
proof (induction "unat t" arbitrary: t rule: less_induct)
  case less
  let ?db = "write_batch (update_batch u bd) db"
  have ty: "db_typed db" using ledgerD(1) [OF l] .
  show ?case
  proof (cases "t = n")
    case True
    have "same_at h db ?db" if "h \<le> t" for h by (rule updated_same [OF ty ch v up bd]) (use that True in simp)
    then show ?thesis using balances_ok_same ledgerD(6) [OF l ledgerD(3) [OF l] order_refl] True by blast
  next
    case False
    then have nt: "n < t" using less.prems(1) by simp
    then have pos: "0 < t" by (rule order_le_less_trans [OF word_zero_le])
    obtain b where b: "(t, b) \<in> set bs" using chain_range [OF ch nt less.prems(2)] by blast
    then have mb: "map_of bs t = Some b" using chain_map_of [OF ch] by blast
    have ih: "balances_ok H (t - 1) ?db"
      by (rule less.hyps) (use nt less.prems(2) word_pred [OF pos] in \<open>auto intro: order_trans less_imp_le\<close>)
    show ?thesis unfolding balances_ok_def
    proof (intro allI impI)
      fix sh e assume e: "last_balance sh t ?db e"
      show "hd_balance e = wsum (H t) sh"
      proof (cases "sh \<in> touched env (H (t - 1)) (bb_txdata b)")
        case True
        then have "batch_record env H bs sh t = Some (wsum (H t) sh - wsum (H (t - 1)) sh, wsum (H t) sh)"
          using mb by (simp add: batch_record_def)
        then show ?thesis using last_balance_at [OF e] updated_record [OF ty up bd] by simp
      next
        case False
        then have "batch_record env H bs sh t = None" using mb by (simp add: batch_record_def)
        moreover have "balance_record sh t db = None" using ledgerD(5) [OF l] nt by (simp add: clean_above_def)
        ultimately have "balance_record sh t ?db = None" using updated_record [OF ty up bd] by simp
        then have "hd_balance e = wsum (H (t - 1)) sh" using ih last_balance_before [OF e _ pos] by (simp add: balances_ok_def)
        then show ?thesis using chain_wsum [OF ch v fin b] False by simp
      qed
    qed
  qed
qed

lemma ledger_update:
  assumes l: "ledger B H lo n db" and ch: "chain_ok env H n bs" and v: "batch_valid env bs (H n)" and fin: "finite (dom (H n))"
    and up: "updates env B H n bs u" and bd: "undo_boundary_ops (su_undo_bundles u) db = Inr bd" and top: "n \<le> batch_top n bs"
  shows "ledger B H lo (batch_top n bs) (write_batch (update_batch u bd) db)"
proof -
  let ?db = "write_batch (update_batch u bd) db" and ?m = "batch_top n bs"
  note d = ledgerD [OF l] and eff = update_effects [OF bd]
  note g = get_write_batch [OF typed_rows [OF d(1)], where b = "update_batch u bd"] and same = updated_same [OF d(1) ch v up bd]
  have ty: "db_typed ?db" by (rule updated_typed(2) [OF d(1) bd])
  have "utxos ?db p = H ?m p" for p
  proof -
    have "H ?m p = (if p \<in> set (su_remove_utxos u) then None else case map_of (rev (su_new_utxos u)) p of Some v \<Rightarrow> Some v | None \<Rightarrow> H n p)"
      using up by (simp add: updates_def)
    moreover have "H n p = map_option utxo_row (get_cf UTXO_CF (make_utxo_key p) db)" using d(4) utxos_get [OF d(1)] by metis
    ultimately show ?thesis unfolding utxos_get [OF ty] g eff(1) by (auto split: option.split)
  qed
  then have ux: "utxos ?db = H ?m" by blast
  have com: "stored_hash h ?db = Some (B h)" if "lo \<le> h" "h \<le> ?m" "0 < h" for h
  proof (cases "h \<le> n")
    case True
    then show ?thesis using same [of h] d(8) that by (simp add: same_at_def stored_hash_def)
  next
    case False
    then have "h \<in> ce_block_height ` set (su_block_commits u)" unfolding updates_commits [OF up] using chain_range [OF ch _ that(2)] by force
    then obtain v where e: "effect (map block_commit_op (su_block_commits u)) BLOCK_COMMITS_CF (make_block_commit_key h) = Some (Some v)"
      using effect_commits(1,2) [of "su_block_commits u" h] by (metis not_None_eq)
    then obtain c where c: "c \<in> set (su_block_commits u)" "ce_block_height c = h" "v = serialize_block_commit_value c" using effect_commits(4) by blast
    then have "(h, ce_btc_block_hash c) \<in> (\<lambda>kb. (fst kb, B (fst kb))) ` set bs" using up unfolding updates_def by (metis (mono_tags, lifting) imageI)
    then have "ce_btc_block_hash c = B h" by auto
    then show ?thesis using e c(3) unfolding stored_hash_def g eff by (simp add: serialize_block_commit_value_def)
  qed
  have bal: "balances_ok H t ?db" if "lo \<le> t" "t \<le> ?m" for t
  proof (cases "n \<le> t")
    case True
    then show ?thesis using updated_balances [OF l ch v fin up bd] that(2) by blast
  next
    case False
    then have "same_at h db ?db" if "h \<le> t" for h using that by (intro same) auto
    then have "balances_ok H t ?db \<longleftrightarrow> balances_ok H t db" by (rule balances_ok_same)
    then show ?thesis using d(6) [OF that(1)] False by simp
  qed
  have und: "undo_ok H h ?db" if "lo < h" "h \<le> ?m" for h
  proof (cases "h \<le> n")
    case True
    then show ?thesis using same_at_facts(4) [OF same] d(7) [OF that(1)] by blast
  qed (use updated_undo [OF l ch v up bd _ that(2)] in auto)
  have del: "deltas_ok H h ?db" if "lo < h" "h \<le> ?m" for h
  proof (cases "h \<le> n")
    case True
    then show ?thesis using same_at_facts(5) [OF same] d(9) [OF that(1)] by blast
  next
    case False
    then have "balance_record sh h ?db = batch_record env H bs sh h" for sh
      using updated_record [OF d(1) up bd, of sh h] d(5) by (auto simp: clean_above_def split: option.splits)
    then show ?thesis by (auto simp: deltas_ok_def batch_record_def split: option.splits if_splits)
  qed
  have "clean_above ?m ?db" unfolding clean_above_def
  proof (intro allI impI)
    fix h assume h: "?m < h"
    then have s: "same_at h db ?db" by (intro same) simp
    have "n < h" using top h by simp
    then show "no_undo h ?db \<and> (\<forall>sh. balance_record sh h ?db = None) \<and> get_cf BLOCK_COMMITS_CF (make_block_commit_key h) ?db = None"
      using d(5) same_at_facts [OF s] s by (simp add: clean_above_def same_at_def)
  qed
  moreover have "get_btc_block_height ?db = Inr ?m" using up by (simp add: get_btc_block_height_def g eff updates_def)
  moreover have "lo \<le> ?m" using d(3) top by simp
  ultimately show ?thesis using ty ux com bal und del unfolding ledger_def by blast
qed

end
