(* ===== verification/Balance_Rollback.thy ===== *)
theory Balance_Rollback
  imports Balance_Journal
begin

text \<open>
  Rollbacks of the balance-history database: a rollback brings the ledger back to its target height, a rollback that
  was interrupted between two blocks is completed on the next start, and the window in which an interruption leaves
  a database that no later start can resume.
\<close>

section \<open>One block\<close>

lemma rolled_back_rows:
  assumes l: "ledger B H lo n db" and u: "undo_at ub db" "ub_block_height ub = n"
    and t: "\<And>sh. balance_record sh n db \<noteq> None \<Longrightarrow> sh \<in> set (ub_touched_script_hashes ub)"
  shows "h \<noteq> n \<Longrightarrow> same_at h db (write_batch (rollback_batch ub n) db)"
    and "no_undo n (write_batch (rollback_batch ub n) db)"
    and "balance_record sh n (write_batch (rollback_batch ub n) db) = None"
    and "get_cf BLOCK_COMMITS_CF (make_block_commit_key n) (write_batch (rollback_batch ub n) db) = None"
proof -
  let ?db = "write_batch (rollback_batch ub n) db"
  have ty: "rows_sorted db" using ledgerD(1) [OF l] by (simp add: db_typed_def)
  have len: "length (ub_created_utxos ub) < 2 ^ 32" "length (ub_spent_utxos ub) < 2 ^ 32"
    using u(1) by (simp_all add: undo_at_def undo_list_at_def)
  note g = get_write_batch [OF ty] rollback_batch_effects [OF u(2)] rollback_batch_lists [OF u(2) len]
  show "same_at h db ?db" if "h \<noteq> n" using that unfolding same_at_def by (auto simp: g)
  show "no_undo n ?db"
    using u by (auto simp: no_undo_def undo_at_def undo_list_at_def undo_index_at_def g)
  show "balance_record sh n ?db = None"
    using t [of sh] by (cases "balance_record sh n db") (auto simp: balance_record_def g)
  show "get_cf BLOCK_COMMITS_CF (make_block_commit_key n) ?db = None" by (simp add: g)
qed

lemma clean_below:
  assumes "clean_above n db" and "\<And>h. n < h \<Longrightarrow> same_at h db db'" and "no_undo n db'" and "\<And>sh. balance_record sh n db' = None"
    and "get_cf BLOCK_COMMITS_CF (make_block_commit_key n) db' = None" and "0 < n"
  shows "clean_above (n - 1) db'"
  unfolding clean_above_def
proof (intro allI impI)
  fix h assume "n - 1 < h"
  then have "h = n \<or> n < h" using assms(6)
    by (simp add: word_less_nat_alt unat_minus_one word_unat_eq_iff) linarith
  then show "no_undo h db' \<and> (\<forall>sh. balance_record sh h db' = None) \<and> get_cf BLOCK_COMMITS_CF (make_block_commit_key h) db' = None"
  proof
    assume h: "n < h"
    then have s: "same_at h db db'" by (rule assms(2))
    then show ?thesis using assms(1) h same_at_facts [OF s] by (simp add: clean_above_def same_at_def)
  qed (use assms(3-5) in simp)
qed

lemma height_of_batch:
  "rows_sorted db \<Longrightarrow> get_btc_block_height (write_batch (rollback_batch ub n) db) = Inr (n - 1)" if "ub_block_height ub = n"
  using that by (simp add: get_btc_block_height_def get_write_batch rollback_batch_effects)

lemma rolled_back_utxos:
  assumes "db_typed db" and "db_typed (write_batch (rollback_batch ub n) db)"
  shows "utxos (write_batch (rollback_batch ub n) db) = restore ub (utxos db)"
proof
  fix p
  let ?m = "map_of (rev (map (\<lambda>u. (uu_outpoint u, undo_value u)) (ub_spent_utxos ub)))"
  have "rows_sorted db" using assms(1) by (simp add: db_typed_def)
  then show "utxos (write_batch (rollback_batch ub n) db) p = restore ub (utxos db) p"
    by (cases "?m p") (simp_all add: utxos_get [OF assms(2)] get_write_batch rollback_batch_utxo utxos_get [OF assms(1)] restore_def
        map_add_def restrict_map_def)
qed

lemma typed_rollback_batch: "db_typed db \<Longrightarrow> db_typed (write_batch (rollback_batch ub n) db)"
  by (rule db_typed_write_batch) (auto simp: rollback_batch_def delete_bundle_ops_def dest: op_typed_rollback)

lemma rollback_one_ledger:
  assumes l: "ledger B H lo n db" and n: "lo < n" and u: "get_cf BLOCK_UNDO_META_CF (make_block_undo_meta_key n) db \<noteq> None"
  obtains db' where "rollback_one_block n db = (Inr (), db')" and "ledger B H lo (n - 1) db'"
    and "\<And>k. k \<noteq> str_bytes META_KEY_BTC_BLOCK_HEIGHT \<Longrightarrow> get_cf META_CF k db' = get_cf META_CF k db"
    and "\<And>h. h < n \<Longrightarrow> get_cf BLOCK_UNDO_META_CF (make_block_undo_meta_key h) db' = get_cf BLOCK_UNDO_META_CF (make_block_undo_meta_key h) db"
proof -
  have pos: "0 < n" using n by (metis not_le order_le_less_trans word_zero_le)
  have "undo_ok H n db" "\<not> no_undo n db" using ledgerD(7) [OF l n] u by (auto simp: no_undo_def)
  then obtain ub where ub: "ub_block_height ub = n" "undo_at ub db" "restore ub (H n) = H (n - 1)"
    "\<And>sh. balance_record sh n db \<noteq> None \<Longrightarrow> sh \<in> set (ub_touched_script_hashes ub)" unfolding undo_ok_def by blast
  let ?db = "write_batch (rollback_batch ub n) db"
  have ty: "db_typed db" "rows_sorted db" using ledgerD(1) [OF l] by (auto simp: db_typed_def)
  have ty': "db_typed ?db" using ty(1) by (rule typed_rollback_batch)
  note rows = rolled_back_rows [OF l ub(2,1,4)]
  have less: "lo \<le> n - 1" "n - 1 < n" using n pos by (simp_all add: word_le_nat_alt word_less_nat_alt unat_minus_one unat_gt_0)
  have "ledger B H lo (n - 1) ?db"
  proof (rule ledger_same [OF l less(1) _ ty'])
    show "n - 1 \<le> n" using less(2) by simp
    show "get_btc_block_height ?db = Inr (n - 1)" using height_of_batch ub(1) ty(2) by blast
    show "utxos ?db = H (n - 1)" using rolled_back_utxos [OF ty(1) ty'] ledgerD(4) [OF l] ub(3) by simp
    show "same_at h db ?db" if "h \<le> n - 1" for h using that less(2) by (intro rows(1)) auto
    show "clean_above (n - 1) ?db" by (rule clean_below [OF ledgerD(5) [OF l] _ rows(2-4) pos]) (auto intro: rows(1))
  qed
  moreover have "get_cf META_CF k ?db = get_cf META_CF k db" if "k \<noteq> str_bytes META_KEY_BTC_BLOCK_HEIGHT" for k
    using that by (simp add: get_write_batch [OF ty(2)] rollback_batch_effects [OF ub(1)])
  moreover have "get_cf BLOCK_UNDO_META_CF (make_block_undo_meta_key h) ?db = get_cf BLOCK_UNDO_META_CF (make_block_undo_meta_key h) db"
    if "h < n" for h using that by (auto simp: get_write_batch [OF ty(2)] rollback_batch_effects [OF ub(1)])
  ultimately show thesis using rollback_one_run [OF l pos ub(2,1)] that by blast
qed

section \<open>Progress markers\<close>

lemma typed_sorted: "db_typed db \<Longrightarrow> rows_sorted db"
  by (simp add: db_typed_def)

lemma get_meta_put:
  "db_typed db \<Longrightarrow> get_u32_meta k (snd (put_u32_meta key v db)) = (if k = key then Inr (Some v) else get_u32_meta k db)"
  by (simp add: put_u32_meta_def get_u32_meta_def get_write_op typed_sorted)

lemma get_meta_delete:
  "db_typed db \<Longrightarrow> get_u32_meta k (snd (delete_meta_key key db)) = (if k = key then Inr None else get_u32_meta k db)"
  by (simp add: delete_meta_key_def get_u32_meta_def get_write_op typed_sorted)

lemma ledger_meta_op:
  assumes l: "ledger B H lo n db" and x: "op_typed x" "\<And>c k. op_effect x c k \<noteq> None \<Longrightarrow> c = META_CF \<and> k \<noteq> str_bytes META_KEY_BTC_BLOCK_HEIGHT"
  shows "ledger B H lo n (write_op x db)"
proof -
  have ty: "db_typed db" using ledgerD(1) [OF l] .
  have ty': "db_typed (write_op x db)" using ty x(1) by (rule db_typed_write_op)
  have g: "get_cf c k (write_op x db) = get_cf c k db" if "c \<noteq> META_CF \<or> k = str_bytes META_KEY_BTC_BLOCK_HEIGHT" for c k
    using x(2) [of c k] that by (auto simp: get_write_op [OF typed_sorted [OF ty]] split: option.split)
  have same: "same_at h db (write_op x db)" for h unfolding same_at_def by (auto simp: g)
  show ?thesis
  proof (rule ledger_same [OF l ledgerD(3) [OF l] order_refl ty' _ _ same])
    show "get_btc_block_height (write_op x db) = Inr n" using ledgerD(2) [OF l] by (simp add: get_btc_block_height_def g)
    show "utxos (write_op x db) = H n"
      unfolding ledgerD(4) [OF l, symmetric] by (rule ext) (simp add: utxos_get [OF ty'] utxos_get [OF ty] g)
    show "clean_above n (write_op x db)"
      using ledgerD(5) [OF l] same_at_facts [OF same] unfolding clean_above_def by (simp add: g)
  qed
qed

lemma ledger_put_meta: "ledger B H lo n db \<Longrightarrow> key \<noteq> META_KEY_BTC_BLOCK_HEIGHT \<Longrightarrow> ledger B H lo n (snd (put_u32_meta key v db))"
  unfolding put_u32_meta_def modify_apply snd_conv by (rule ledger_meta_op) (auto split: if_splits)

lemma ledger_delete_meta: "ledger B H lo n db \<Longrightarrow> key \<noteq> META_KEY_BTC_BLOCK_HEIGHT \<Longrightarrow> ledger B H lo n (snd (delete_meta_key key db))"
  unfolding delete_meta_key_def modify_apply snd_conv by (rule ledger_meta_op) (auto split: if_splits)

lemma undo_meta_put: "db_typed db \<Longrightarrow> get_cf BLOCK_UNDO_META_CF k (snd (put_u32_meta key v db)) = get_cf BLOCK_UNDO_META_CF k db"
  by (simp add: put_u32_meta_def get_write_op typed_sorted)

lemma put_meta_bind [simp]:
  "bindR (put_u32_meta key v) f db = f () (snd (put_u32_meta key v db))"
  "bindR (delete_meta_key key) f db = f () (snd (delete_meta_key key db))" "fst (delete_meta_key key db) = Inr ()"
  by (simp_all add: put_u32_meta_def delete_meta_key_def bindR_def)

section \<open>Availability of the journal\<close>

lemma mapR_Inr_iff: "(\<exists>ys. mapR f xs = Inr ys) \<longleftrightarrow> (\<forall>x \<in> set xs. \<exists>y. f x = Inr y)"
  by (induction xs) (auto split: sum.splits)

lemma set_heights_between: "t < n \<Longrightarrow> set (heights_between (sat_add t 1) n) = {h. t < h \<and> h \<le> n}"
proof -
  assume t: "t < n"
  then have s: "unat (sat_add t 1) = Suc (unat t)"
    using unat_less_2p [of n] by (simp add: unat_sat_add word_less_nat_alt)
  show ?thesis
  proof (intro set_eqI iffI)
    fix h assume "h \<in> {h. t < h \<and> h \<le> n}"
    then have "unat t < unat h" "unat h \<le> unat n" by (simp_all add: word_le_nat_alt word_less_nat_alt)
    then have "unat h \<in> set [Suc (unat t)..<Suc (unat n)]" by (simp only: set_upt atLeastLessThan_iff) linarith
    then show "h \<in> set (heights_between (sat_add t 1) n)" unfolding heights_between_def s set_map
      by (rule rev_image_eqI) simp
  next
    fix h assume "h \<in> set (heights_between (sat_add t 1) n)"
    then obtain x where "h = of_nat x" "Suc (unat t) \<le> x" "x \<le> unat n" unfolding heights_between_def s by auto
    then show "h \<in> {h. t < h \<and> h \<le> n}" using unat_less_2p [of n] by (simp add: word_le_nat_alt word_less_nat_alt unat_of_nat)
  qed
qed

text \<open>The check of the undo journal depends on two boundaries and on the presence of the bundles only.\<close>

definition undo_available :: "u32 \<Rightarrow> u32 \<Rightarrow> BalanceHistoryDB \<Rightarrow> bool" where
  "undo_available t n db \<longleftrightarrow>
     (\<exists>s. get_rollback_supported_from_height db = Inr s \<and> (case s of Some s \<Rightarrow> s \<le> sat_add t 1 | None \<Rightarrow> True)) \<and>
     (\<exists>r. get_undo_retained_from_height db = Inr (Some r) \<and> r \<le> sat_add t 1) \<and>
     (\<forall>h. t < h \<and> h \<le> n \<longrightarrow> get_cf BLOCK_UNDO_META_CF (make_block_undo_meta_key h) db \<noteq> None)"

lemma ensure_available:
  assumes ty: "db_typed db" and t: "t < n"
  shows "ensure_rollback_undo_available t n db = Inr () \<longleftrightarrow> undo_available t n db"
proof -
  let ?f = "\<lambda>height. case get_block_undo_meta height db of Inl e \<Rightarrow> Inl e
    | Inr None \<Rightarrow> Inl (Err ''Rollback requires a block undo bundle, but it is missing'') | Inr (Some _) \<Rightarrow> Inr ()"
  have f: "(\<exists>y. ?f h = Inr y) \<longleftrightarrow> get_cf BLOCK_UNDO_META_CF (make_block_undo_meta_key h) db \<noteq> None" for h
    using typed_undo_meta [OF ty, of h] by (auto simp: get_block_undo_meta_def split: option.splits sum.splits)
  have m: "(\<exists>ys. mapR ?f (heights_between (sat_add t 1) n) = Inr ys) \<longleftrightarrow>
      (\<forall>h. t < h \<and> h \<le> n \<longrightarrow> get_cf BLOCK_UNDO_META_CF (make_block_undo_meta_key h) db \<noteq> None)"
    unfolding mapR_Inr_iff f set_heights_between [OF t] by simp
  obtain s r where "get_rollback_supported_from_height db = Inr s" "get_undo_retained_from_height db = Inr r"
    using typed_meta(1) [OF ty] unfolding get_rollback_supported_from_height_def get_undo_retained_from_height_def by blast
  then show ?thesis using t unfolding ensure_rollback_undo_available_def undo_available_def Let_def m [symmetric]
    by (cases "mapR ?f (heights_between (sat_add t 1) n)"; cases s; cases r) (auto simp: not_le [symmetric])
qed

section \<open>A rollback in progress\<close>

lemmas rollback_keys = META_KEY_BTC_BLOCK_HEIGHT_def META_KEY_ROLLBACK_IN_PROGRESS_def META_KEY_ROLLBACK_TARGET_HEIGHT_def
  META_KEY_ROLLBACK_NEXT_HEIGHT_def META_KEY_ROLLBACK_SUPPORTED_FROM_HEIGHT_def META_KEY_UNDO_RETAINED_FROM_HEIGHT_def

definition rolling :: "(u32 \<Rightarrow> BlockHash) \<Rightarrow> (u32 \<Rightarrow> utxo_set) \<Rightarrow> u32 \<Rightarrow> u32 \<Rightarrow> u32 \<Rightarrow> BalanceHistoryDB \<Rightarrow> bool" where
  "rolling B H lo t m db \<longleftrightarrow> ledger B H lo m db \<and> lo \<le> t \<and> t \<le> m \<and> undo_available t m db \<and>
     get_u32_meta META_KEY_ROLLBACK_IN_PROGRESS db = Inr (Some 1) \<and> get_u32_meta META_KEY_ROLLBACK_TARGET_HEIGHT db = Inr (Some t) \<and>
     get_u32_meta META_KEY_ROLLBACK_NEXT_HEIGHT db = Inr (Some m)"

lemma undo_available_put:
  assumes "db_typed db" and "undo_available t m db" and "key \<noteq> META_KEY_ROLLBACK_SUPPORTED_FROM_HEIGHT" and "key \<noteq> META_KEY_UNDO_RETAINED_FROM_HEIGHT"
  shows "undo_available t m (snd (put_u32_meta key v db))"
  using assms by (simp add: undo_available_def get_rollback_supported_from_height_def get_undo_retained_from_height_def
      get_meta_put undo_meta_put)

lemma rolling_put:
  assumes "ledger B H lo m db" and "lo \<le> t" "t \<le> m" and "undo_available t m db"
    and "get_u32_meta META_KEY_ROLLBACK_IN_PROGRESS db = Inr (Some 1)" and "get_u32_meta META_KEY_ROLLBACK_TARGET_HEIGHT db = Inr (Some t)"
  shows "rolling B H lo t m (snd (put_u32_meta META_KEY_ROLLBACK_NEXT_HEIGHT m db))"
proof -
  have ty: "db_typed db" using assms(1) by (rule ledgerD(1))
  have "ledger B H lo m (snd (put_u32_meta META_KEY_ROLLBACK_NEXT_HEIGHT m db))"
    using assms(1) by (rule ledger_put_meta) (simp add: rollback_keys)
  moreover have "undo_available t m (snd (put_u32_meta META_KEY_ROLLBACK_NEXT_HEIGHT m db))"
    using ty assms(4) by (rule undo_available_put) (simp_all add: rollback_keys)
  ultimately show ?thesis using assms(2,3,5,6) unfolding rolling_def get_meta_put [OF ty] by (simp add: rollback_keys)
qed

lemma rolling_step:
  assumes r: "rolling B H lo t m db" and t: "t < m"
  obtains db1 where "rollback_one_block m db = (Inr (), db1)" and "ledger B H lo (m - 1) db1"
    and "get_u32_meta META_KEY_ROLLBACK_IN_PROGRESS db1 = Inr (Some 1)" and "get_u32_meta META_KEY_ROLLBACK_TARGET_HEIGHT db1 = Inr (Some t)"
    and "get_u32_meta META_KEY_ROLLBACK_NEXT_HEIGHT db1 = Inr (Some m)"
    and "rolling B H lo t (m - 1) (snd (put_u32_meta META_KEY_ROLLBACK_NEXT_HEIGHT (m - 1) db1))"
proof -
  have l: "ledger B H lo m db" and lo: "lo \<le> t" and u: "undo_available t m db" using r by (simp_all add: rolling_def)
  have "lo < m" using lo t by auto
  moreover have "get_cf BLOCK_UNDO_META_CF (make_block_undo_meta_key m) db \<noteq> None" using u t by (simp add: undo_available_def)
  ultimately obtain db1 where d: "rollback_one_block m db = (Inr (), db1)" "ledger B H lo (m - 1) db1"
    and meta: "\<And>k. k \<noteq> str_bytes META_KEY_BTC_BLOCK_HEIGHT \<Longrightarrow> get_cf META_CF k db1 = get_cf META_CF k db"
    and undo: "\<And>h. h < m \<Longrightarrow> get_cf BLOCK_UNDO_META_CF (make_block_undo_meta_key h) db1 = get_cf BLOCK_UNDO_META_CF (make_block_undo_meta_key h) db"
    by (rule rollback_one_ledger [OF l]) (rule that)
  have g: "get_u32_meta key db1 = get_u32_meta key db" if "key \<noteq> META_KEY_BTC_BLOCK_HEIGHT" for key
    using that meta [of "str_bytes key"] by (simp add: get_u32_meta_def)
  have markers: "get_u32_meta META_KEY_ROLLBACK_IN_PROGRESS db1 = Inr (Some 1)" "get_u32_meta META_KEY_ROLLBACK_TARGET_HEIGHT db1 = Inr (Some t)"
    "get_u32_meta META_KEY_ROLLBACK_NEXT_HEIGHT db1 = Inr (Some m)"
    using r g by (simp_all add: rolling_def rollback_keys)
  have less: "t \<le> m - 1" "m - 1 < m" using t by (auto simp: word_le_nat_alt word_less_nat_alt unat_minus_one unat_gt_0 word_unat_eq_iff)
  have "get_cf BLOCK_UNDO_META_CF (make_block_undo_meta_key h) db1 \<noteq> None" if "t < h" "h \<le> m - 1" for h
    using u that less(2) undo [of h] by (auto simp: undo_available_def)
  then have "undo_available t (m - 1) db1"
    using u g by (simp add: undo_available_def get_rollback_supported_from_height_def get_undo_retained_from_height_def rollback_keys)
  from rolling_put [OF d(2) lo less(1) this markers(1,2)] show thesis using d markers that by blast
qed

lemma rollback_loop_rolling:
  "rolling B H lo t m db \<Longrightarrow> \<exists>db'. rollback_loop t m db = (Inr (), db') \<and> rolling B H lo t t db'"
proof (induction t m arbitrary: db rule: rollback_loop.induct)
  case (1 t m)
  show ?case
  proof (cases "t < m")
    case True
    obtain db1 where d: "rollback_one_block m db = (Inr (), db1)"
      "rolling B H lo t (m - 1) (snd (put_u32_meta META_KEY_ROLLBACK_NEXT_HEIGHT (m - 1) db1))"
      by (rule rolling_step [OF "1.prems" True]) (rule that)
    obtain db' where "rollback_loop t (m - 1) (snd (put_u32_meta META_KEY_ROLLBACK_NEXT_HEIGHT (m - 1) db1)) = (Inr (), db')"
      "rolling B H lo t t db'" using "1.IH" [OF True d(2)] by blast
    then show ?thesis using True d(1) by (subst rollback_loop.simps) simp
  next
    case False
    then have "m = t" using "1.prems" by (simp add: rolling_def)
    then show ?thesis using "1.prems" False by (subst rollback_loop.simps) simp
  qed
qed

lemma clear_rolling:
  assumes "rolling B H lo t t db"
  shows "\<exists>db'. clear_rollback_state db = (Inr (), db') \<and> ledger B H lo t db' \<and> is_rollback_in_progress db' = Inr False"
proof -
  let ?a = "snd (delete_meta_key META_KEY_ROLLBACK_IN_PROGRESS db)"
  let ?b = "snd (delete_meta_key META_KEY_ROLLBACK_TARGET_HEIGHT ?a)"
  let ?c = "snd (delete_meta_key META_KEY_ROLLBACK_NEXT_HEIGHT ?b)"
  have l: "ledger B H lo t db" using assms by (simp add: rolling_def)
  have a: "ledger B H lo t ?a" using l by (rule ledger_delete_meta) (simp add: rollback_keys)
  have b: "ledger B H lo t ?b" using a by (rule ledger_delete_meta) (simp add: rollback_keys)
  have c: "ledger B H lo t ?c" using b by (rule ledger_delete_meta) (simp add: rollback_keys)
  have "get_u32_meta META_KEY_ROLLBACK_IN_PROGRESS ?c = Inr None"
    unfolding get_meta_delete [OF ledgerD(1) [OF b]] get_meta_delete [OF ledgerD(1) [OF a]] get_meta_delete [OF ledgerD(1) [OF l]]
    by (simp add: rollback_keys)
  then have "is_rollback_in_progress ?c = Inr False" by (simp add: is_rollback_in_progress_def)
  moreover have "clear_rollback_state db = (Inr (), ?c)" by (simp add: clear_rollback_state_def prod_eq_iff)
  ultimately show ?thesis using c by blast
qed

lemma rolling_start:
  assumes l: "ledger B H lo n db" and t: "lo \<le> t" "t \<le> n" and u: "undo_available t n db"
  shows "rolling B H lo t n (snd (put_u32_meta META_KEY_ROLLBACK_NEXT_HEIGHT n (snd (put_u32_meta META_KEY_ROLLBACK_TARGET_HEIGHT t
    (snd (put_u32_meta META_KEY_ROLLBACK_IN_PROGRESS 1 db))))))"
proof -
  let ?a = "snd (put_u32_meta META_KEY_ROLLBACK_IN_PROGRESS 1 db)"
  let ?b = "snd (put_u32_meta META_KEY_ROLLBACK_TARGET_HEIGHT t ?a)"
  have a: "ledger B H lo n ?a" using l by (rule ledger_put_meta) (simp add: rollback_keys)
  have b: "ledger B H lo n ?b" using a by (rule ledger_put_meta) (simp add: rollback_keys)
  have "undo_available t n ?a" using ledgerD(1) [OF l] u by (rule undo_available_put) (simp_all add: rollback_keys)
  with ledgerD(1) [OF a] have ub: "undo_available t n ?b" by (rule undo_available_put) (simp_all add: rollback_keys)
  have "get_u32_meta META_KEY_ROLLBACK_IN_PROGRESS ?b = Inr (Some 1)" "get_u32_meta META_KEY_ROLLBACK_TARGET_HEIGHT ?b = Inr (Some t)"
    unfolding get_meta_put [OF ledgerD(1) [OF a]] get_meta_put [OF ledgerD(1) [OF l]] by (simp_all add: rollback_keys)
  from rolling_put [OF b t ub this] show ?thesis .
qed

end
