(* ===== verification/Balance_Sync.thy ===== *)
theory Balance_Sync
  imports Balance_Batch Balance_Rollback
begin

text \<open>
  Processing a batch of blocks end to end: on a valid chain the batch succeeds, its single write takes the ledger to the
  last block, and the caches stay below it.
\<close>

section \<open>State of the service\<close>

text \<open>An evicting cache keeps a part of what it held.\<close>

definition evicts :: "block_env \<Rightarrow> bool" where
  "evicts env \<longleftrightarrow> (\<forall>m. ev_evict_utxo env m \<subseteq>\<^sub>m m) \<and> (\<forall>m. ev_evict_balance env m \<subseteq>\<^sub>m m)"

definition synced :: "(u32 \<Rightarrow> BlockHash) \<Rightarrow> (u32 \<Rightarrow> utxo_set) \<Rightarrow> u32 \<Rightarrow> u32 \<Rightarrow> bh_state \<Rightarrow> bool" where
  "synced B H lo n s \<longleftrightarrow> ledger B H lo n (st_db s) \<and> st_utxo_cache s \<subseteq>\<^sub>m H n \<and>
     (\<forall>sh e. st_balance_cache s sh = Some e \<longrightarrow> hd_balance e = wsum (H n) sh \<and> hd_block_height e \<le> n)"

lemma finite_utxos: "db_typed db \<Longrightarrow> finite (dom (utxos db))"
proof -
  assume ty: "db_typed db"
  have "make_utxo_key ` dom (utxos db) \<subseteq> fst ` set (db UTXO_CF)"
  proof
    fix k assume "k \<in> make_utxo_key ` dom (utxos db)"
    then obtain p v where "k = make_utxo_key p" "get_cf UTXO_CF (make_utxo_key p) db = Some v" by (auto simp: utxos_get [OF ty])
    then show "k \<in> fst ` set (db UTXO_CF)" using typed_cf_ok [OF ty] by (force simp: get_cf_def cf_get_Some_iff)
  qed
  then have "finite (make_utxo_key ` dom (utxos db))" by (rule finite_subset) simp
  then show ?thesis by (rule finite_imageD) (simp add: inj_on_def)
qed

lemma synced_loads:
  assumes "synced B H lo n s"
  shows "loads s (H n) n"
  unfolding loads_def
proof
  fix sh
  have l: "ledger B H lo n (st_db s)" using assms by (simp add: synced_def)
  show "\<exists>e. load_balance s n sh = Inr (sh, e) \<and> hd_balance e = wsum (H n) sh \<and> hd_block_height e \<le> n"
  proof (cases "st_balance_cache s sh")
    case None
    obtain e where e: "get_balance_at_block_height sh n (st_db s) = Inr e" "last_balance sh n (st_db s) e"
      using balance_at_height_last [OF ledgerD(1) [OF l]] by blast
    have "hd_balance e = wsum (H n) sh" using ledgerD(6) [OF l ledgerD(3) [OF l] order_refl] e(2) by (simp add: balances_ok_def)
    moreover have "hd_block_height e \<le> n" using e(2) by (auto simp: last_balance_def no_balance_def)
    ultimately show ?thesis using None e(1) by (simp add: load_balance_def balance_cache_get_def)
  next
    case (Some e)
    then show ?thesis using assms by (auto simp: synced_def load_balance_def balance_cache_get_def)
  qed
qed

section \<open>The parts of the flush\<close>

definition block_small :: "BtcTx list \<Rightarrow> bool" where
  "block_small txs \<longleftrightarrow> sum_list (map (\<lambda>tx. length (bt_output tx)) txs) < 2 ^ 32 \<and> sum_list (map (\<lambda>tx. length (bt_input tx)) txs) < 2 ^ 32"

lemma length_outs: "length (txs_outs env txs) \<le> sum_list (map (\<lambda>tx. length (bt_output tx)) txs)"
proof (induction txs)
  case (Cons tx txs)
  have "length (tx_outs env tx) \<le> length (bt_output tx)"
    using length_filter_le [of _ "enumerate 0 (bt_output tx)"] by (simp add: tx_outs_def preload_vouts_def)
  then show ?case using Cons by simp
qed simp

lemma length_spent: "length (spent_pairs env U txs) \<le> sum_list (map (\<lambda>tx. length (bt_input tx)) txs)"
proof (induction txs arbitrary: U)
  case (Cons tx txs)
  show ?case using Cons [of "apply_tx env tx U"] by (simp add: tx_ins_def)
qed simp

text \<open>The script registry has no conflict when no two scripts of the batch collide.\<close>

definition collision_free :: "block_env \<Rightarrow> (u32 \<times> BtcBlock) list \<Rightarrow> bool" where
  "collision_free env bs \<longleftrightarrow> inj_on (ev_script_hash env) (rg_script_pubkey ` set (batch_registry env bs))"

definition functional_registry :: "ScriptRegistryEntry set \<Rightarrow> bool" where
  "functional_registry R \<longleftrightarrow> (\<forall>x \<in> R. \<forall>y \<in> R. rg_script_hash x = rg_script_hash y \<longrightarrow> rg_script_pubkey x = rg_script_pubkey y)"

lemma dedup_ok: "functional_registry (set acc \<union> set xs) \<Longrightarrow> \<exists>r. dedup_registry acc xs = Inr r"
proof (induction xs arbitrary: acc)
  case (Cons x xs)
  have same: "rg_script_pubkey (last acc) = rg_script_pubkey x" if "acc \<noteq> []" "rg_script_hash (last acc) = rg_script_hash x"
    using Cons.prems that last_in_set [OF that(1)] unfolding functional_registry_def by (metis UnI1 UnI2 list.set_intros(1))
  have "functional_registry (set acc \<union> set xs)" using Cons.prems unfolding functional_registry_def by (metis UnCI UnE list.set_intros(2))
  moreover have "functional_registry (set (acc @ [x]) \<union> set xs)" using Cons.prems by (simp add: insert_commute)
  ultimately show ?case using Cons.IH [of acc] Cons.IH [of "acc @ [x]"] same by simp
qed simp

lemma registry_ok:
  assumes "collision_free env bs" and "bk_script_registry data = batch_registry env bs"
  shows "\<exists>r. collect_script_registry_updates data = Inr r"
proof -
  have h: "rg_script_hash x = ev_script_hash env (rg_script_pubkey x)" if "x \<in> set (batch_registry env bs)" for x
    using that by (auto simp: batch_registry_def tx_registry_entries_def)
  have "rg_script_pubkey x = rg_script_pubkey y"
    if "x \<in> set (batch_registry env bs)" "y \<in> set (batch_registry env bs)" "rg_script_hash x = rg_script_hash y" for x y
  proof -
    have "ev_script_hash env (rg_script_pubkey x) = ev_script_hash env (rg_script_pubkey y)" using that h by simp
    then show ?thesis using assms(1) that(1,2) unfolding collision_free_def 
      by (intro inj_onD [of "ev_script_hash env" "rg_script_pubkey ` set (batch_registry env bs)"]) auto
  qed
  then have "functional_registry (set (batch_registry env bs))" unfolding functional_registry_def by blast
  then show ?thesis unfolding collect_script_registry_updates_def assms(2) by (intro dedup_ok) simp
qed

lemma commit_heights:
  "map (\<lambda>c. (ce_block_height c, ce_btc_block_hash c)) (build_block_commits sha ds prev) = map (\<lambda>d. (bl_block_height d, bl_block_hash d)) ds"
  by (induction ds arbitrary: prev) (simp_all add: Let_def)

lemma balance_updates_ok:
  assumes l: "ledger B H lo n db" and r: "bk_block_range data = (n + 1, b)" and n: "n < n + 1"
  shows "\<exists>cs. collect_balance_updates env db data = Inr (bk_balance_history data, cs, b - 1) \<and>
    map (\<lambda>c. (ce_block_height c, ce_btc_block_hash c)) cs = map (\<lambda>d. (bl_block_height d, bl_block_hash d)) (bk_block_balance_deltas data)"
proof -
  have "n + 1 \<noteq> 0" using n by auto
  then have prev: "(if fst (bk_block_range data) = 0 then None else Some (fst (bk_block_range data) - 1)) = Some n" by (simp add: r)
  obtain c where c: "get_block_commit n db = Inr c" using typed_commit [OF ledgerD(1) [OF l]] by blast
  have "c \<noteq> None" if "n \<noteq> 0"
  proof -
    have "0 < n" using that by (simp add: word_neq_0_conv)
    then have "stored_hash n db = Some (B n)" using ledgerD(8) [OF l ledgerD(3) [OF l] order_refl] by blast
    then show ?thesis using c by (auto simp: stored_hash_def get_block_commit_def split: option.splits sum.splits)
  qed
  then have "\<exists>p. resolve_previous_commit (Some n) c = Inr p" by (cases c) (auto simp: resolve_previous_commit_def)
  then obtain p where "resolve_previous_commit (Some n) c = Inr p" by blast
  then show ?thesis using c unfolding collect_balance_updates_def Let_def prev by (simp add: r commit_heights)
qed

text \<open>The undo bundles.\<close>

definition touched_by :: "(u32 \<times> BtcBlock) list \<Rightarrow> (USDBScriptHash \<times> BalanceHistoryData) list list \<Rightarrow> u32 \<rightharpoonup> USDBScriptHash list" where
  "touched_by bs ess = map_of (rev (map (\<lambda>b. (bl_block_height b, map bh_script_hash (bl_entries b))) (batch_deltas bs ess)))"

definition touched_list :: "(u32 \<times> BtcBlock) list \<Rightarrow> (USDBScriptHash \<times> BalanceHistoryData) list list \<Rightarrow> u32 \<Rightarrow> USDBScriptHash list" where
  "touched_list bs ess h = (case touched_by bs ess h of None \<Rightarrow> [] | Some l \<Rightarrow> l)"

lemma touched_listed:
  assumes ch: "chain_ok env H n bs" and e: "entries_ok env (H n) bs ess" and kb: "kb \<in> set bs"
  shows "touched env (H (fst kb - 1)) (bb_txdata (snd kb)) \<subseteq> set (touched_list bs ess (fst kb))"
proof -
  have all: "list_all2 (\<lambda>kb es. distinct (map fst es) \<and> map_of es = block_entries env (H (fst kb - 1)) (fst kb) (bb_txdata (snd kb))) bs ess"
    by (rule chain_entries [OF ch e])
  obtain i where i: "i < length bs" "bs ! i = kb" using kb by (auto simp: in_set_conv_nth)
  let ?es = "ess ! i" and ?xs = "rev (map (\<lambda>b. (bl_block_height b, map bh_script_hash (bl_entries b))) (batch_deltas bs ess))"
  have es: "map_of ?es = block_entries env (H (fst kb - 1)) (fst kb) (bb_txdata (snd kb))" "length ess = length bs"
    using all i by (auto simp: list_all2_conv_all_nth)
  have "map fst (map fst (zip bs ess)) = map fst bs" using es(2) by (simp only: map_fst_zip)
  then have "map fst ?xs = rev (map fst bs)" by (simp add: batch_deltas_def rev_map [symmetric] comp_def case_prod_beta)
  then have d: "distinct (map fst ?xs)" using chain_heights [OF ch] by (simp add: strict_sorted_iff)
  have "(kb, ?es) \<in> set (zip bs ess)" using i es(2) by (force simp: set_zip)
  then have "(fst kb, map bh_script_hash (history_entries ?es)) \<in> set ?xs" by (force simp: batch_deltas_def)
  then have "touched_by bs ess (fst kb) = Some (map bh_script_hash (history_entries ?es))" using d unfolding touched_by_def by (intro map_of_is_SomeI)
  moreover have "touched env (H (fst kb - 1)) (bb_txdata (snd kb)) \<subseteq> dom (map_of ?es)" unfolding es(1) block_entries_def by (auto simp: dom_def)
  moreover have "dom (map_of ?es) = fst ` set ?es" by (rule dom_map_of_conv_image_fst)
  moreover have "bh_script_hash ` set (history_entries ?es) = fst ` set ?es" unfolding set_history_entries by (force simp: image_image)
  ultimately show ?thesis by (simp add: touched_list_def)
qed

lemma block_undo_bundle_resolved:
  assumes ch: "chain_ok env H n bs" and v: "batch_valid env bs (H n)" and kb: "kb \<in> set bs"
  shows "block_undo_bundle (touched_by bs ess) \<lparr>pb_height = fst kb, pb_block_hash = bb_block_hash (snd kb),
      pb_txdata = resolve_txs env (born_in (map_of (batch_outs env bs))) (fst kb) (H (fst kb - 1)) (bb_txdata (snd kb))\<rparr> =
    Inr (bundle_of env (H (fst kb - 1)) kb (touched_list bs ess (fst kb)))"
proof -
  let ?O = "fst ` set (txs_outs env (bb_txdata (snd kb)))"
  have "mapR spent_entry (filter vi_need_flush (concat (map pt_vin (resolve_txs env (born_in (map_of (batch_outs env bs))) (fst kb) (H (fst kb - 1)) (bb_txdata (snd kb)))))) =
      Inr (map undo_entry (filter (\<lambda>x. fst x \<notin> ?O) (spent_pairs env (H (fst kb - 1)) (bb_txdata (snd kb)))))"
    by (rule mapR_spent [OF chain_block(1) [OF ch v kb]]) (use chain_block(5) [OF ch v kb] in \<open>unfold flush_exact_def, blast\<close>)
  then show ?thesis
    unfolding block_undo_bundle_def by (simp add: created_entries_resolved bundle_of_def Let_def comp_def touched_list_def)
qed

definition persisted :: "u32 \<times> u32 \<Rightarrow> u32 \<Rightarrow> u32 \<Rightarrow> u32 \<Rightarrow> bool" where
  "persisted r latest retention h \<longleftrightarrow> should_persist_any_undo_for_range r latest retention \<and> should_persist_undo_for_block h latest retention"

lemma undo_bundles_ok:
  assumes ch: "chain_ok env H n bs" and v: "batch_valid env bs (H n)"
    and data: "bk_blocks data = resolve_blocks env (born_in (map_of (batch_outs env bs))) (H n) bs" "bk_block_balance_deltas data = batch_deltas bs ess"
  shows "collect_undo_bundles latest retention data = Inr (map (\<lambda>kb. bundle_of env (H (fst kb - 1)) kb (touched_list bs ess (fst kb)))
    (filter (\<lambda>kb. persisted (bk_block_range data) latest retention (fst kb)) bs))"
proof (cases "should_persist_any_undo_for_range (bk_block_range data) latest retention")
  case True
  let ?born = "born_in (map_of (batch_outs env bs))" and ?P = "\<lambda>h. should_persist_undo_for_block h latest retention"
  let ?r = "\<lambda>kb. \<lparr>pb_height = fst kb, pb_block_hash = bb_block_hash (snd kb), pb_txdata = resolve_txs env ?born (fst kb) (H (fst kb - 1)) (bb_txdata (snd kb))\<rparr>"
  have blocks: "filter (\<lambda>b. ?P (pb_height b)) (bk_blocks data) = map ?r (filter (\<lambda>kb. ?P (fst kb)) bs)"
    unfolding data(1) chain_resolve [OF ch] by (simp add: filter_map comp_def)
  have "mapR (block_undo_bundle (touched_by bs ess)) (map ?r ks) = Inr (map (\<lambda>kb. bundle_of env (H (fst kb - 1)) kb (touched_list bs ess (fst kb))) ks)"
    if "set ks \<subseteq> set bs" for ks using that by (induction ks) (simp_all add: block_undo_bundle_resolved [OF ch v])
  from this [of "filter (\<lambda>kb. ?P (fst kb)) bs"] show ?thesis
    using True blocks unfolding collect_undo_bundles_def Let_def data(2) touched_by_def persisted_def by simp
qed (simp add: collect_undo_bundles_def persisted_def)

section \<open>The caches\<close>

lemma utxo_puts_le:
  assumes "evicts env"
  shows "fold (\<lambda>(p, v). utxo_cache_put env p v) xs c \<subseteq>\<^sub>m c ++ map_of (rev xs)"
proof (induction xs arbitrary: c)
  case (Cons x xs)
  obtain p v where x: "x = (p, v)" by (cases x)
  let ?c = "ev_evict_utxo env (c(p \<mapsto> v))"
  have c: "?c \<subseteq>\<^sub>m c(p \<mapsto> v)" using assms by (simp add: evicts_def)
  have put: "utxo_cache_put env p v c = ?c" by (simp add: utxo_cache_put_def)
  have "fold (\<lambda>(p, v). utxo_cache_put env p v) (x # xs) c \<subseteq>\<^sub>m ?c ++ map_of (rev xs)"
    using Cons [of ?c] by (simp add: x put)
  also have "\<dots> \<subseteq>\<^sub>m c(p \<mapsto> v) ++ map_of (rev xs)" using c by (auto simp: map_le_def map_add_def dom_def split: option.splits)
  also have "\<dots> = c ++ map_of (rev (x # xs))" by (simp add: x map_add_upd_left)
  finally show ?case .
qed simp

lemma utxo_spends: "fold (\<lambda>p c. snd (utxo_cache_spend p c)) ps c = c |` (- set ps)"
  by (induction ps arbitrary: c) (auto simp: utxo_cache_spend_def restrict_map_def fun_eq_iff)

lemma balance_puts:
  assumes "evicts env"
  shows "fold (\<lambda>(sh, d). balance_cache_put env sh d) xs c sh = Some e \<Longrightarrow> (sh, e) \<in> set xs \<or> c sh = Some e \<and> sh \<notin> fst ` set xs"
proof (induction xs arbitrary: c)
  case (Cons x xs)
  obtain k d where x: "x = (k, d)" by (cases x)
  have "ev_evict_balance env (c(k \<mapsto> d)) \<subseteq>\<^sub>m c(k \<mapsto> d)" using assms by (simp add: evicts_def)
  then have "ev_evict_balance env (c(k \<mapsto> d)) sh = Some e \<Longrightarrow> (c(k \<mapsto> d)) sh = Some e" by (metis domI map_le_def)
  then have put: "balance_cache_put env k d c sh = Some e \<Longrightarrow> sh = k \<and> e = d \<or> sh \<noteq> k \<and> c sh = Some e"
    unfolding balance_cache_put_def fun_upd_apply by (simp split: if_splits)
  show ?case using Cons.IH [of "balance_cache_put env k d c"] Cons.prems put by (auto simp: x)
qed simp

lemma untouched_batch:
  "chain_ok env H n bs \<Longrightarrow> batch_valid env bs (H n) \<Longrightarrow> finite (dom (H n)) \<Longrightarrow> sh \<notin> batch_touched env (H n) bs \<Longrightarrow>
   wsum (H (batch_top n bs)) sh = wsum (H n) sh"
proof (induction bs arbitrary: n)
  case (Cons kb bs)
  note c = chain_Cons [OF Cons.prems(1)]
  have "wsum (H (fst kb)) sh = wsum (H n) sh"
    using chain_wsum [OF Cons.prems(1-3), of kb sh] Cons.prems(4) c(2) by simp
  moreover have "batch_valid env bs (H (fst kb))" using batch_valid_Cons(4) [OF Cons.prems(2)] c(4) by simp
  moreover have "finite (dom (H (fst kb)))" unfolding c(4) using Cons.prems(3) by (rule finite_apply_txs)
  moreover have "sh \<notin> batch_touched env (H (fst kb)) bs" using Cons.prems(4) c(4) by simp
  ultimately show ?case using Cons.IH [OF c(5)] by simp
qed simp

lemma chain_totals:
  "chain_ok env H n bs \<Longrightarrow> (\<And>kb sh. kb \<in> set bs \<Longrightarrow> total (H (fst kb)) sh < 2 ^ 63) \<Longrightarrow> totals_ok env (H n) bs"
proof (induction bs arbitrary: n)
  case (Cons kb bs)
  note c = chain_Cons [OF Cons.prems(1)]
  have "totals_ok env (H (fst kb)) bs" by (rule Cons.IH [OF c(5)], rule Cons.prems(2), simp)
  then show ?case using Cons.prems(2) [of kb] c(4) by simp
qed simp

section \<open>The flush\<close>

lemma boundary_ok: "db_typed db \<Longrightarrow> \<exists>bd. undo_boundary_ops ubs db = Inr bd"
  using typed_meta(1) [of db META_KEY_UNDO_RETAINED_FROM_HEIGHT] typed_meta(1) [of db META_KEY_ROLLBACK_SUPPORTED_FROM_HEIGHT]
  by (auto simp: undo_boundary_ops_def Let_def get_undo_retained_from_height_def get_rollback_supported_from_height_def split: option.split)

lemma bundle_fits:
  assumes ch: "chain_ok env H n bs" and v: "batch_valid env bs (H n)" and kb: "kb \<in> set bs" and small: "block_small (bb_txdata (snd kb))"
  shows "restore (bundle_of env (H (fst kb - 1)) kb shs) (H (fst kb)) = H (fst kb - 1)"
    "length (ub_created_utxos (bundle_of env U kb shs)) < 2 ^ 32" "length (ub_spent_utxos (bundle_of env U kb shs)) < 2 ^ 32"
    "sorted_wrt (<) (ub_touched_script_hashes (bundle_of env U kb shs))" "set shs \<subseteq> set (ub_touched_script_hashes (bundle_of env U kb shs))"
    "ub_block_height (bundle_of env U kb shs) = fst kb"
proof -
  note b = chain_block [OF ch v kb]
  show "restore (bundle_of env (H (fst kb - 1)) kb shs) (H (fst kb)) = H (fst kb - 1)" unfolding b(4) by (rule restore_bundle) (use b in auto)
  show "length (ub_created_utxos (bundle_of env U kb shs)) < 2 ^ 32"
    using length_outs [of env "bb_txdata (snd kb)"] small by (simp add: bundle_of_def Let_def block_small_def)
  have "length (filter P (spent_pairs env U (bb_txdata (snd kb)))) \<le> sum_list (map (\<lambda>tx. length (bt_input tx)) (bb_txdata (snd kb)))" for P
    by (rule order_trans [OF length_filter_le length_spent])
  then have "length (ub_spent_utxos (bundle_of env U kb shs)) \<le> sum_list (map (\<lambda>tx. length (bt_input tx)) (bb_txdata (snd kb)))"
    by (simp add: bundle_of_def Let_def)
  then show "length (ub_spent_utxos (bundle_of env U kb shs)) < 2 ^ 32"
    using small by (simp add: block_small_def)
  show "sorted_wrt (<) (ub_touched_script_hashes (bundle_of env U kb shs))" "set shs \<subseteq> set (ub_touched_script_hashes (bundle_of env U kb shs))"
    by (auto simp: bundle_of_def Let_def strict_sorted_iff)
qed (simp add: bundle_of_def Let_def)

text \<open>When every block of the batch keeps its undo bundle, the batch can be rolled back.\<close>

definition boundaries_before :: "u32 \<Rightarrow> BalanceHistoryDB \<Rightarrow> bool" where
  "boundaries_before h db \<longleftrightarrow>
     (case get_rollback_supported_from_height db of Inr (Some s) \<Rightarrow> s \<le> h | _ \<Rightarrow> True) \<and>
     (case get_undo_retained_from_height db of Inr (Some r) \<Rightarrow> r \<le> h | _ \<Rightarrow> True)"

lemma update_meta:
  assumes "db_typed db" and "undo_boundary_ops (su_undo_bundles u) db = Inr bd" and "key \<noteq> META_KEY_BTC_BLOCK_HEIGHT"
  shows "effect bd META_CF (str_bytes key) = None \<Longrightarrow> get_u32_meta key (write_batch (update_batch u bd) db) = get_u32_meta key db"
    "effect bd META_CF (str_bytes key) = Some (Some (u32_be v)) \<Longrightarrow> get_u32_meta key (write_batch (update_batch u bd) db) = Inr (Some v)"
proof -
  have "effect (update_batch u bd) META_CF (str_bytes key) = effect bd META_CF (str_bytes key)"
    using assms(3) by (simp add: update_batch_def update_parts undo_cf_def split: option.split)
  then show "effect bd META_CF (str_bytes key) = None \<Longrightarrow> get_u32_meta key (write_batch (update_batch u bd) db) = get_u32_meta key db"
    "effect bd META_CF (str_bytes key) = Some (Some (u32_be v)) \<Longrightarrow> get_u32_meta key (write_batch (update_batch u bd) db) = Inr (Some v)"
    by (simp_all add: get_u32_meta_def get_write_batch [OF typed_rows [OF assms(1)]])
qed

lemma updated_boundaries:
  assumes ty: "db_typed db" and bd: "undo_boundary_ops (su_undo_bundles u) db = Inr bd" and b: "boundaries_before h db"
    and ub: "ub \<in> set (su_undo_bundles u)" "ub_block_height ub \<le> h"
  shows "\<exists>s. get_rollback_supported_from_height (write_batch (update_batch u bd) db) = Inr (Some s) \<and> s \<le> h"
    "\<exists>r. get_undo_retained_from_height (write_batch (update_batch u bd) db) = Inr (Some r) \<and> r \<le> h"
proof -
  let ?m = "Min (set (map ub_block_height (su_undo_bundles u)))"
  have "?m \<le> ub_block_height ub" using ub(1) by (intro Min_le) auto
  then have m: "?m \<le> h" using ub(2) by (rule order_trans)
  have ne: "su_undo_bundles u \<noteq> []" using ub(1) by auto
  obtain s r where sr: "get_rollback_supported_from_height db = Inr s" "get_undo_retained_from_height db = Inr r"
    using typed_meta(1) [OF ty] unfolding get_rollback_supported_from_height_def get_undo_retained_from_height_def by blast
  have ops: "bd = (if s = None then [PutCf META_CF (str_bytes META_KEY_ROLLBACK_SUPPORTED_FROM_HEIGHT) (u32_be ?m)] else []) @
      (if r = None then [PutCf META_CF (str_bytes META_KEY_UNDO_RETAINED_FROM_HEIGHT) (u32_be ?m)] else [])"
    using bd ne sr by (cases s; cases r) (simp_all add: undo_boundary_ops_def Let_def)
  note defs = get_rollback_supported_from_height_def get_undo_retained_from_height_def
  have eff: "effect bd META_CF (str_bytes META_KEY_ROLLBACK_SUPPORTED_FROM_HEIGHT) = (if s = None then Some (Some (u32_be ?m)) else None)"
    "effect bd META_CF (str_bytes META_KEY_UNDO_RETAINED_FROM_HEIGHT) = (if r = None then Some (Some (u32_be ?m)) else None)"
    unfolding ops by (simp_all add: rollback_keys)
  have key: "META_KEY_ROLLBACK_SUPPORTED_FROM_HEIGHT \<noteq> META_KEY_BTC_BLOCK_HEIGHT" "META_KEY_UNDO_RETAINED_FROM_HEIGHT \<noteq> META_KEY_BTC_BLOCK_HEIGHT"
    by (simp_all add: rollback_keys)
  have "get_rollback_supported_from_height (write_batch (update_batch u bd) db) = Inr (Some (case s of None \<Rightarrow> ?m | Some x \<Rightarrow> x))"
    using update_meta [OF ty bd key(1)] eff(1) sr(1) unfolding defs by (cases s) auto
  moreover have "get_undo_retained_from_height (write_batch (update_batch u bd) db) = Inr (Some (case r of None \<Rightarrow> ?m | Some x \<Rightarrow> x))"
    using update_meta [OF ty bd key(2)] eff(2) sr(2) unfolding defs by (cases r) auto
  ultimately show "\<exists>s. get_rollback_supported_from_height (write_batch (update_batch u bd) db) = Inr (Some s) \<and> s \<le> h"
    "\<exists>r. get_undo_retained_from_height (write_batch (update_batch u bd) db) = Inr (Some r) \<and> r \<le> h"
    using m b sr unfolding boundaries_before_def by (auto split: option.splits)
qed

lemma updated_available:
  assumes ty: "db_typed db" and ch: "chain_ok env H n bs" and up: "updates env B H n bs u"
    and bd: "undo_boundary_ops (su_undo_bundles u) db = Inr bd" and n: "n < n + 1" and bs: "bs \<noteq> []"
    and all: "fst ` set bs \<subseteq> ub_block_height ` set (su_undo_bundles u)" and b: "boundaries_before (n + 1) db"
  shows "undo_available n (batch_top n bs) (write_batch (update_batch u bd) db)"
proof -
  let ?db = "write_batch (update_batch u bd) db"
  have "unat n + 1 < 2 ^ 32"
  proof (rule ccontr)
    assume "\<not> unat n + 1 < 2 ^ 32"
    then have "unat n + 1 = 2 ^ 32" using unat_less_2p [of n] by simp
    then have "unat (n + 1) = 0" by (simp add: unat_word_ariths)
    then show False using n by (simp add: word_less_nat_alt)
  qed
  then have sat: "sat_add n 1 = n + 1" by (simp add: sat_add_def)
  have "fst (hd bs) = n + 1" using ch bs by (cases bs) auto
  then have "n + 1 \<in> ub_block_height ` set (su_undo_bundles u)" using all bs by (metis image_subset_iff list.set_sel(1))
  then obtain ub where ub: "ub \<in> set (su_undo_bundles u)" "ub_block_height ub \<le> n + 1" by auto
  have "get_cf BLOCK_UNDO_META_CF (make_block_undo_meta_key h) ?db \<noteq> None" if h: "n < h" "h \<le> batch_top n bs" for h
  proof -
    have "h \<in> fst ` set bs" using chain_range [OF ch h] by force
    then obtain ub where ub: "ub \<in> set (su_undo_bundles u)" "ub_block_height ub = h" using all by auto
    have len: "length (ub_created_utxos ub) < 2 ^ 32" "length (ub_spent_utxos ub) < 2 ^ 32" and d: "distinct (map ub_block_height (su_undo_bundles u))"
      using up ub(1) unfolding updates_def by blast+
    have "effect (update_batch u bd) BLOCK_UNDO_META_CF (make_block_undo_meta_key h) = effect (undo_bundle_ops ub) BLOCK_UNDO_META_CF (make_block_undo_meta_key h)"
      unfolding update_effects(4) [OF bd, of BLOCK_UNDO_META_CF, unfolded undo_cf_def, simplified]
      by (rule undo_batch_one [OF d ub(1)]) (simp add: make_block_undo_meta_key_def ub(2))
    then show ?thesis using undo_ops_rows(1) [OF len ub(2)] by (simp add: get_write_batch [OF typed_rows [OF ty]])
  qed
  then show ?thesis using updated_boundaries [OF ty bd b ub] unfolding undo_available_def sat by fastforce
qed

lemma all_persisted:
  assumes hs: "map fst bs = range_heights a b" and ab: "a < b" and P: "\<forall>h \<in> set (range_heights a b). should_persist_undo_for_block h latest retention"
    and kb: "kb \<in> set bs"
  shows "persisted (a, b) latest retention (fst kb)"
proof -
  have m: "fst kb \<in> set (range_heights a b)" unfolding hs [symmetric] using kb by simp
  have "0 < b" using ab by (rule order_le_less_trans [OF word_zero_le])
  then have "a \<in> set (range_heights a b)" "b - 1 \<in> set (range_heights a b)"
    using ab word_pred [of b] unfolding set_range_heights by simp_all
  then have "should_persist_any_undo_for_range (a, b) latest retention"
    using ab P unfolding should_persist_any_undo_for_range_def should_persist_undo_for_block_def by force
  then show ?thesis using P m by (simp add: persisted_def)
qed

lemma collected_updates:
  assumes ch: "chain_ok env H n bs" and hash: "\<And>kb. kb \<in> set bs \<Longrightarrow> bb_block_hash (snd kb) = B (fst kb)" and v: "batch_valid env bs (H n)" and small: "\<And>kb. kb \<in> set bs \<Longrightarrow> block_small (bb_txdata (snd kb))"
    and M: "vouts_ok (map_of (batch_outs env bs)) (H n) (fst ` set (batch_outs env bs)) (H (batch_top n bs)) M"
    and e: "entries_ok env (H n) bs ess"
    and u: "su_new_utxos u = fst (collect_utxo_updates data)" "su_remove_utxos u = snd (collect_utxo_updates data)"
      "su_entries_list u = sort_key (\<lambda>e. (bh_script_hash e, bh_block_height e)) (concat (map history_entries ess))"
      "su_block_height u = batch_top n bs" "map (\<lambda>c. (ce_block_height c, ce_btc_block_hash c)) (su_block_commits u) = map (\<lambda>d. (bl_block_height d, bl_block_hash d)) (batch_deltas bs ess)"
      "su_undo_bundles u = map (\<lambda>kb. bundle_of env (H (fst kb - 1)) kb (touched_list bs ess (fst kb))) (filter (\<lambda>kb. P (fst kb)) bs)"
    and data: "bk_vout_utxos data = M" "bk_blocks data = resolve_blocks env (born_in (map_of (batch_outs env bs))) (H n) bs"
  shows "updates env B H n bs u"
proof -
  have d: "distinct (map fst M)" using M by (simp add: vouts_ok_def)
  have rem: "set (su_remove_utxos u) = flushed env H bs"
    using spent_list_set [OF ch v] unfolding u(2) collect_utxo_updates_def snd_conv set_sort data(2) .
  have new: "map_of (rev (su_new_utxos u)) p = (case map_of M p of Some i \<Rightarrow> if vu_spend i then None else Some (vu_item i) | None \<Rightarrow> None)" for p
    unfolding u(1) collect_utxo_updates_def fst_conv data(1) by (rule new_utxos_map [OF d])
  have ux: "H (batch_top n bs) p = (if p \<in> set (su_remove_utxos u) then None else case map_of (rev (su_new_utxos u)) p of Some v \<Rightarrow> Some v | None \<Rightarrow> H n p)" for p
    unfolding rem new using batch_utxos [OF ch v M, of p] by (auto split: option.split)
  have bal: "effect (map balance_entry_op (su_entries_list u)) BALANCE_HISTORY_CF (make_balance_history_key sh h) =
      map_option (\<lambda>(d, b). Some (balance_value d b)) (batch_record env H bs sh h)" for sh h
    unfolding u(3) by (rule batch_balance_effect [OF ch v e])
  have z: "map fst (zip bs ess) = bs" using entries_ok_length [OF e] by (simp only: map_fst_zip)
  have "map (\<lambda>c. (ce_block_height c, ce_btc_block_hash c)) (su_block_commits u) = map (\<lambda>kb. (fst kb, bb_block_hash (snd kb))) (map fst (zip bs ess))"
    unfolding u(5) by (simp add: batch_deltas_def comp_def case_prod_beta)
  also have "\<dots> = map (\<lambda>kb. (fst kb, B (fst kb))) bs" unfolding z using hash by simp
  finally have "set (map (\<lambda>c. (ce_block_height c, ce_btc_block_hash c)) (su_block_commits u)) = set (map (\<lambda>kb. (fst kb, B (fst kb))) bs)" by (rule arg_cong)
  then have com: "(\<lambda>c. (ce_block_height c, ce_btc_block_hash c)) ` set (su_block_commits u) = (\<lambda>kb. (fst kb, B (fst kb))) ` set bs"
    by (simp only: set_map)
  note fits = bundle_fits [OF ch v _ small]
  have hs: "map ub_block_height (su_undo_bundles u) = map fst (filter (\<lambda>kb. P (fst kb)) bs)"
    unfolding u(6) by (simp add: bundle_of_def Let_def)
  have "distinct (map fst bs)" using chain_heights [OF ch] by (simp add: strict_sorted_iff)
  then have dist: "distinct (map ub_block_height (su_undo_bundles u))" unfolding hs by (rule distinct_map_filter)
  have "\<exists>kb \<in> set bs. ub_block_height ub = fst kb \<and> restore ub (H (fst kb)) = H (fst kb - 1) \<and>
        touched env (H (fst kb - 1)) (bb_txdata (snd kb)) \<subseteq> set (ub_touched_script_hashes ub) \<and> sorted_wrt (<) (ub_touched_script_hashes ub) \<and>
        length (ub_created_utxos ub) < 2 ^ 32 \<and> length (ub_spent_utxos ub) < 2 ^ 32" if ub: "ub \<in> set (su_undo_bundles u)" for ub
  proof -
    obtain kb where kb: "kb \<in> set bs" "ub = bundle_of env (H (fst kb - 1)) kb (touched_list bs ess (fst kb))" using ub unfolding u(6) by auto
    have "touched env (H (fst kb - 1)) (bb_txdata (snd kb)) \<subseteq> set (ub_touched_script_hashes ub)"
      using touched_listed [OF ch e kb(1)] fits(5) [OF kb(1) kb(1)] unfolding kb(2) by (rule order_trans)
    then show ?thesis using kb fits [OF kb(1) kb(1)] by blast
  qed
  then show ?thesis unfolding updates_def using ux bal u(4) com dist by blast
qed

text \<open>The state after a batch: the ledger of the last block, the rollback markers as they were, and a batch that can be
  rolled back when every block of it kept its undo bundle.\<close>

definition same_markers :: "BalanceHistoryDB \<Rightarrow> BalanceHistoryDB \<Rightarrow> bool" where
  "same_markers db db' \<longleftrightarrow> (\<forall>key \<in> {META_KEY_ROLLBACK_IN_PROGRESS, META_KEY_ROLLBACK_TARGET_HEIGHT, META_KEY_ROLLBACK_NEXT_HEIGHT}.
     get_u32_meta key db' = get_u32_meta key db)"

definition advanced :: "(u32 \<Rightarrow> BlockHash) \<Rightarrow> (u32 \<Rightarrow> utxo_set) \<Rightarrow> u32 \<Rightarrow> u32 \<Rightarrow> u32 \<Rightarrow> u32 \<Rightarrow> u32 \<Rightarrow> bh_state \<Rightarrow> bh_state \<Rightarrow> bool" where
  "advanced B H lo n b latest retention s s' \<longleftrightarrow> synced B H lo (b - 1) s' \<and> same_markers (st_db s) (st_db s') \<and>
     ((\<forall>h \<in> set (range_heights (n + 1) b). should_persist_undo_for_block h latest retention) \<and> boundaries_before (n + 1) (st_db s) \<longrightarrow>
      undo_available n (b - 1) (st_db s'))"

lemma update_markers:
  assumes "db_typed db" and "undo_boundary_ops (su_undo_bundles u) db = Inr bd"
  shows "same_markers db (write_batch (update_batch u bd) db)"
proof -
  have "effect bd META_CF (str_bytes key) = None" if "key \<noteq> META_KEY_ROLLBACK_SUPPORTED_FROM_HEIGHT" "key \<noteq> META_KEY_UNDO_RETAINED_FROM_HEIGHT" for key
    using that assms(2) by (auto simp: undo_boundary_ops_def Let_def split: sum.splits if_splits)
  then show ?thesis unfolding same_markers_def using update_meta(1) [OF assms] by (simp add: rollback_keys)
qed

lemma flush_synced:
  assumes sy: "synced B H lo n s" and ev: "evicts env" and n: "n < n + 1" and b: "n + 1 < b" and hs: "map fst bs = range_heights (n + 1) b"
    and ch: "chain_ok env H n bs" and v: "batch_valid env bs (H n)" and small: "\<And>kb. kb \<in> set bs \<Longrightarrow> block_small (bb_txdata (snd kb))"
    and cf: "collision_free env bs" and hash: "\<And>kb. kb \<in> set bs \<Longrightarrow> bb_block_hash (snd kb) = B (fst kb)" and data: "batch_result env (H n) (n + 1, b) bs data"
  shows "\<exists>s'. flush env latest retention data s = (Inr (), s') \<and> advanced B H lo n b latest retention s s'"
proof -
  have top: "batch_top n bs = b - 1" unfolding batch_top_def hs using last_range [OF b] by simp
  have st: "apply_txs env (batch_txs bs) (H n) = H (b - 1)" using chain_state [OF ch] top by simp
  obtain M bal ess where dt: "data = \<lparr>bk_block_range = (n + 1, b), bk_blocks = resolve_blocks env (born_in (map_of (batch_outs env bs))) (H n) bs,
       bk_vout_utxos = M, bk_balances = bal,
       bk_balance_history = sort_key (\<lambda>e. (bh_script_hash e, bh_block_height e)) (concat (map history_entries ess)),
       bk_block_balance_deltas = batch_deltas bs ess, bk_script_registry = batch_registry env bs\<rparr>"
    and M: "vouts_ok (map_of (batch_outs env bs)) (H n) (fst ` set (batch_outs env bs)) (H (batch_top n bs)) M"
    and e: "entries_ok env (H n) bs ess" and bal: "carries bal (H (b - 1)) (b - 1) (batch_touched env (H n) bs)"
    using data unfolding batch_result_def st top by auto
  have l: "ledger B H lo n (st_db s)" and c: "st_utxo_cache s \<subseteq>\<^sub>m H n"
    and bc: "\<And>sh e. st_balance_cache s sh = Some e \<Longrightarrow> hd_balance e = wsum (H n) sh \<and> hd_block_height e \<le> n"
    using sy by (auto simp: synced_def)
  note ty = ledgerD(1) [OF l]
  have fin: "finite (dom (H n))" using finite_utxos [OF ty] ledgerD(4) [OF l] by simp
  obtain cs where cs: "collect_balance_updates env (st_db s) data = Inr (bk_balance_history data, cs, b - 1)"
    "map (\<lambda>c. (ce_block_height c, ce_btc_block_hash c)) cs = map (\<lambda>d. (bl_block_height d, bl_block_hash d)) (batch_deltas bs ess)"
    using balance_updates_ok [OF l _ n, of data b env] by (auto simp: dt)
  obtain rg where rg: "collect_script_registry_updates data = Inr rg" using registry_ok [OF cf, of data] by (auto simp: dt)
  let ?P = "persisted (n + 1, b) latest retention"
  have ks: "collect_undo_bundles latest retention data =
      Inr (map (\<lambda>kb. bundle_of env (H (fst kb - 1)) kb (touched_list bs ess (fst kb))) (filter (\<lambda>kb. ?P (fst kb)) bs))"
    using undo_bundles_ok [OF ch v, of data ess latest retention] by (simp add: dt)
  define u where "u = \<lparr>su_new_utxos = fst (collect_utxo_updates data), su_remove_utxos = snd (collect_utxo_updates data),
    su_entries_list = bk_balance_history data, su_block_height = b - 1, su_block_commits = cs, su_script_registry_entries = rg,
    su_undo_bundles = map (\<lambda>kb. bundle_of env (H (fst kb - 1)) kb (touched_list bs ess (fst kb))) (filter (\<lambda>kb. ?P (fst kb)) bs)\<rparr>"
  have up: "updates env B H n bs u"
    by (rule collected_updates [OF ch hash v small M e, where data = data and P = ?P]) (simp_all add: u_def top cs(2) dt)
  obtain bd where bd: "undo_boundary_ops (su_undo_bundles u) (st_db s) = Inr bd" using boundary_ok [OF ty] by blast
  let ?db = "write_batch (update_batch u bd) (st_db s)"
  have pos: "0 < b" using b by (rule order_le_less_trans [OF word_zero_le])
  then have le: "n \<le> b - 1" using less_trans [OF n b] word_pred(1) by blast
  then have "n \<le> batch_top n bs" unfolding top .
  then have led: "ledger B H lo (b - 1) ?db" using ledger_update [OF l ch v fin up bd] unfolding top by blast
  let ?s = "apply_cache_updates env data (su_new_utxos u) (su_remove_utxos u) (s\<lparr>st_db := ?db\<rparr>)"
  have "flush env latest retention data s = (Inr (), ?s)"
    using cs(1) rg ks updated_typed(1) [OF ty bd]
    by (simp add: flush_def bindR_def getsR_def zoom_def modify_def u_def case_prod_beta)
  moreover have "same_markers (st_db s) (st_db ?s)" using update_markers [OF ty bd] by (simp add: apply_cache_updates_def)
  moreover have "undo_available n (b - 1) (st_db ?s)"
    if p: "\<forall>h \<in> set (range_heights (n + 1) b). should_persist_undo_for_block h latest retention" "boundaries_before (n + 1) (st_db s)"
  proof -
    have "filter (\<lambda>kb. ?P (fst kb)) bs = bs" using all_persisted [OF hs b p(1)] by simp
    then have "fst ` set bs \<subseteq> ub_block_height ` set (su_undo_bundles u)" by (simp add: u_def image_image bundle_of_def Let_def)
    moreover have "bs \<noteq> []" using hs last_range(2) [OF b] by auto
    ultimately show ?thesis using updated_available [OF ty ch up bd n _ _ p(2)] top by (simp add: apply_cache_updates_def)
  qed
  moreover have "synced B H lo (b - 1) ?s"
  proof -
    let ?c = "fold (\<lambda>(p, v). utxo_cache_put env p v) (su_new_utxos u) (st_utxo_cache s)"
    have cache: "st_utxo_cache ?s = ?c |` (- set (su_remove_utxos u))" "st_db ?s = ?db"
      "st_balance_cache ?s = fold (\<lambda>(sh, d). balance_cache_put env sh d) bal (st_balance_cache s)"
      by (simp_all add: apply_cache_updates_def utxo_spends dt)
    have "H (b - 1) p = Some v" if "st_utxo_cache ?s p = Some v" for p v
    proof -
      have p: "p \<notin> set (su_remove_utxos u)" "?c p = Some v" using that unfolding cache(1) by (auto simp: restrict_map_def split: if_splits)
      then have "(st_utxo_cache s ++ map_of (rev (su_new_utxos u))) p = Some v" using utxo_puts_le [OF ev] by (metis domI map_le_def)
      then have "(case map_of (rev (su_new_utxos u)) p of Some v \<Rightarrow> Some v | None \<Rightarrow> H n p) = Some v"
        using c by (auto simp: map_le_def dom_def split: option.splits)
      then show ?thesis using up p(1) unfolding updates_def top by metis
    qed
    then have "st_utxo_cache ?s \<subseteq>\<^sub>m H (b - 1)" by (auto simp: map_le_def)
    moreover have "hd_balance e = wsum (H (b - 1)) sh \<and> hd_block_height e \<le> b - 1" if "st_balance_cache ?s sh = Some e" for sh e
    proof -
      consider "(sh, e) \<in> set bal" | "st_balance_cache s sh = Some e" "sh \<notin> fst ` set bal"
        using balance_puts [OF ev] \<open>st_balance_cache ?s sh = Some e\<close> unfolding cache(3) by blast
      then show ?thesis
      proof cases
        case 1
        then have "map_of bal sh = Some e" using bal by (simp add: carries_def)
        then show ?thesis using bal unfolding carries_def by blast
      next
        case 2
        then have "sh \<notin> batch_touched env (H n) bs" using bal by (auto simp: carries_def dom_map_of_conv_image_fst)
        then have "wsum (H (b - 1)) sh = wsum (H n) sh" using untouched_batch [OF ch v fin] unfolding top by blast
        then show ?thesis using bc [OF 2(1)] le by (metis order_trans)
      qed
    qed
    ultimately show ?thesis using led unfolding synced_def cache(2) by blast
  qed
  ultimately show ?thesis unfolding advanced_def by blast
qed

lemma process_blocks_synced:
  assumes sy: "synced B H lo n s" and ev: "evicts env" and n: "n < n + 1" and b: "n + 1 < b"
    and ld: "mapR (load_block env) (range_heights (n + 1) b) = Inr bs" and ch: "chain_ok env H n bs" and v: "batch_valid env bs (H n)"
    and tot: "\<And>kb sh. kb \<in> set bs \<Longrightarrow> total (H (fst kb)) sh < 2 ^ 63"
    and small: "\<And>kb. kb \<in> set bs \<Longrightarrow> block_small (bb_txdata (snd kb))" and cf: "collision_free env bs"
    and hash: "\<And>kb. kb \<in> set bs \<Longrightarrow> bb_block_hash (snd kb) = B (fst kb)"
  shows "\<exists>s'. process_blocks env (n + 1, b) latest retention s = (Inr (), s') \<and> advanced B H lo n b latest retention s s'"
proof -
  have l: "ledger B H lo n (st_db s)" and c: "st_utxo_cache s \<subseteq>\<^sub>m H n" using sy by (auto simp: synced_def)
  note ty = ledgerD(1) [OF l]
  have fin: "finite (dom (H n))" using finite_utxos [OF ty] ledgerD(4) [OF l] by simp
  have pos: "0 < n + 1" using n by (rule order_le_less_trans [OF word_zero_le])
  have ls: "loads s (H n) (n + 1 - 1)" using synced_loads [OF sy] by simp
  obtain data data' where d: "preload env s (n + 1, b) = Inr data" "process data = Inr data'" "batch_result env (H n) (n + 1, b) bs data'"
    using batch_data [OF ty ledgerD(4) [OF l] fin c pos b ld v chain_totals [OF ch tot] ls] by blast
  have "process_blocks env (n + 1, b) latest retention s = flush env latest retention data' s"
    using d(1,2) by (simp add: process_blocks_def bindR_def getsR_def)
  then show ?thesis using flush_synced [OF sy ev n b load_blocks_heights [OF ld] ch v small cf hash d(3)] by metis
qed

end
