(* ===== verification/Balance_Recover.thy ===== *)
theory Balance_Recover
  imports Balance_Sync
begin

text \<open>
  The balance-history service over a chain: batches of blocks take the ledger forward, a rollback takes it back, and
  what a process that stops between two writes of a rollback finds at its next start.
\<close>

section \<open>Blocks that follow the ledger\<close>

text \<open>
  What the bitcoin node has to answer: the next blocks load, every block spends outputs that exist and creates new ones,
  \<open>H\<close> are the unspent outputs after each and \<open>B\<close> the block hashes, no address holds more than \<open>i64::MAX\<close>, a block has fewer than \<open>2 ^ 32\<close> inputs
  and outputs, and no two scripts of the batch share a script hash.
\<close>

definition valid_next_blocks :: "block_env \<Rightarrow> (u32 \<Rightarrow> BlockHash) \<Rightarrow> (u32 \<Rightarrow> utxo_set) \<Rightarrow> u32 \<Rightarrow> u32 \<Rightarrow> bool" where
  "valid_next_blocks env B H n b \<longleftrightarrow> n < n + 1 \<and> n + 1 < b \<and> (\<exists>bs. mapR (load_block env) (range_heights (n + 1) b) = Inr bs \<and>
     chain_ok env H n bs \<and> batch_valid env bs (H n) \<and> (\<forall>kb \<in> set bs. bb_block_hash (snd kb) = B (fst kb) \<and> block_small (bb_txdata (snd kb)) \<and> (\<forall>sh. total (H (fst kb)) sh < 2 ^ 63)) \<and>
     collision_free env bs)"

lemma process_valid_blocks:
  assumes sy: "synced B H lo n s" and ev: "evicts env" and v: "valid_next_blocks env B H n b"
  shows "\<exists>s'. process_blocks env (n + 1, b) latest retention s = (Inr (), s') \<and> advanced B H lo n b latest retention s s'"
proof -
  obtain bs where bs: "mapR (load_block env) (range_heights (n + 1) b) = Inr bs" "chain_ok env H n bs" "batch_valid env bs (H n)"
    "\<forall>kb \<in> set bs. bb_block_hash (snd kb) = B (fst kb) \<and> block_small (bb_txdata (snd kb)) \<and> (\<forall>sh. total (H (fst kb)) sh < 2 ^ 63)" "collision_free env bs"
    using v unfolding valid_next_blocks_def by blast
  have n: "n < n + 1" "n + 1 < b" using v by (simp_all add: valid_next_blocks_def)
  have "total (H (fst kb)) sh < 2 ^ 63" "block_small (bb_txdata (snd kb))" "bb_block_hash (snd kb) = B (fst kb)" if "kb \<in> set bs" for kb sh using bs(4) that by blast+
  then show ?thesis using process_blocks_synced [OF sy ev n bs(1-3) _ _ bs(5)] by presburger
qed

lemma synced_queries:
  assumes "synced B H lo n s"
  shows "get_utxo p (st_db s) = Inr (H n p)"
    "lo \<le> t \<Longrightarrow> t \<le> n \<Longrightarrow> \<exists>e. get_balance_at_block_height sh t (st_db s) = Inr e \<and> hd_balance e = wsum (H t) sh"
proof -
  have l: "ledger B H lo n (st_db s)" using assms by (simp add: synced_def)
  show "get_utxo p (st_db s) = Inr (H n p)" using get_utxo_typed [OF ledgerD(1) [OF l]] ledgerD(4) [OF l] by simp
  assume t: "lo \<le> t" "t \<le> n"
  obtain e where e: "get_balance_at_block_height sh t (st_db s) = Inr e" "last_balance sh t (st_db s) e"
    using balance_at_height_last [OF ledgerD(1) [OF l]] by blast
  then show "\<exists>e. get_balance_at_block_height sh t (st_db s) = Inr e \<and> hd_balance e = wsum (H t) sh"
    using ledgerD(6) [OF l t] by (auto simp: balances_ok_def)
qed

section \<open>Rollbacks\<close>

lemma rollback_ledger:
  assumes l: "ledger B H lo n db" and t: "lo \<le> t" "t < n" and u: "ensure_rollback_undo_available t n db = Inr ()"
  shows "\<exists>db'. rollback_to_block_height t db = (Inr (), db') \<and> ledger B H lo t db' \<and> is_rollback_in_progress db' = Inr False"
proof -
  have av: "undo_available t n db" using u ensure_available [OF ledgerD(1) [OF l] t(2)] by blast
  obtain db1 where d1: "rollback_loop t n (snd (put_u32_meta META_KEY_ROLLBACK_NEXT_HEIGHT n (snd (put_u32_meta META_KEY_ROLLBACK_TARGET_HEIGHT t
    (snd (put_u32_meta META_KEY_ROLLBACK_IN_PROGRESS 1 db)))))) = (Inr (), db1)" "rolling B H lo t t db1"
    using rollback_loop_rolling [OF rolling_start [OF l t(1) less_imp_le [OF t(2)] av]] by blast
  obtain db' where d2: "clear_rollback_state db1 = (Inr (), db')" "ledger B H lo t db'" "is_rollback_in_progress db' = Inr False"
    using clear_rolling [OF d1(2)] by blast
  have "rollback_to_block_height t db = (Inr (), db')"
    using ledgerD(2) [OF l] less_imp_le [OF t(2)] less_imp_neq [OF t(2)] u d1(1) d2(1) by (simp add: rollback_to_block_height_def)
  then show ?thesis using d2(2,3) by blast
qed

lemma rollback_refused:
  assumes "ledger B H lo n db" and "t < n" and "ensure_rollback_undo_available t n db = Inl e"
  shows "rollback_to_block_height t db = (Inl e, db)"
  using ledgerD(2) [OF assms(1)] less_imp_le [OF assms(2)] less_imp_neq [OF assms(2)] assms(3) by (simp add: rollback_to_block_height_def)

section \<open>Interrupted rollbacks\<close>

text \<open>
  Every put, delete and write batch of a rollback reaches RocksDB on its own, so a process can stop between any two of
  them.  A phase names the last write that was made.
\<close>

datatype rollback_phase =
    Marked
  | Aimed
  | Ready u32
  | Undone u32
  | Unmarked
  | Unaimed
  | Finished

inductive rollback_point :: "u32 \<Rightarrow> u32 \<Rightarrow> BalanceHistoryDB \<Rightarrow> rollback_phase \<Rightarrow> BalanceHistoryDB \<Rightarrow> bool" for t n db where
  mark: "ensure_rollback_undo_available t n db = Inr () \<Longrightarrow> put_u32_meta META_KEY_ROLLBACK_IN_PROGRESS 1 db = (Inr (), d) \<Longrightarrow> rollback_point t n db Marked d"
| aim: "rollback_point t n db Marked d \<Longrightarrow> put_u32_meta META_KEY_ROLLBACK_TARGET_HEIGHT t d = (Inr (), d') \<Longrightarrow> rollback_point t n db Aimed d'"
| start: "rollback_point t n db Aimed d \<Longrightarrow> put_u32_meta META_KEY_ROLLBACK_NEXT_HEIGHT n d = (Inr (), d') \<Longrightarrow> rollback_point t n db (Ready n) d'"
| undo: "rollback_point t n db (Ready m) d \<Longrightarrow> t < m \<Longrightarrow> rollback_one_block m d = (Inr (), d') \<Longrightarrow> rollback_point t n db (Undone (m - 1)) d'"
| advance: "rollback_point t n db (Undone m) d \<Longrightarrow> put_u32_meta META_KEY_ROLLBACK_NEXT_HEIGHT m d = (Inr (), d') \<Longrightarrow> rollback_point t n db (Ready m) d'"
| unmark: "rollback_point t n db (Ready t) d \<Longrightarrow> delete_meta_key META_KEY_ROLLBACK_IN_PROGRESS d = (Inr (), d') \<Longrightarrow> rollback_point t n db Unmarked d'"
| unaim: "rollback_point t n db Unmarked d \<Longrightarrow> delete_meta_key META_KEY_ROLLBACK_TARGET_HEIGHT d = (Inr (), d') \<Longrightarrow> rollback_point t n db Unaimed d'"
| finish: "rollback_point t n db Unaimed d \<Longrightarrow> delete_meta_key META_KEY_ROLLBACK_NEXT_HEIGHT d = (Inr (), d') \<Longrightarrow> rollback_point t n db Finished d'"

text \<open>The markers and the ledger in every phase.\<close>

definition idle :: "(u32 \<Rightarrow> BlockHash) \<Rightarrow> (u32 \<Rightarrow> utxo_set) \<Rightarrow> u32 \<Rightarrow> u32 \<Rightarrow> BalanceHistoryDB \<Rightarrow> bool" where
  "idle B H lo n db \<longleftrightarrow> ledger B H lo n db \<and> get_u32_meta META_KEY_ROLLBACK_IN_PROGRESS db = Inr None \<and>
     get_u32_meta META_KEY_ROLLBACK_TARGET_HEIGHT db = Inr None \<and> get_u32_meta META_KEY_ROLLBACK_NEXT_HEIGHT db = Inr None"

fun phase_ok :: "(u32 \<Rightarrow> BlockHash) \<Rightarrow> (u32 \<Rightarrow> utxo_set) \<Rightarrow> u32 \<Rightarrow> u32 \<Rightarrow> u32 \<Rightarrow> rollback_phase \<Rightarrow> BalanceHistoryDB \<Rightarrow> bool" where
  "phase_ok B H lo t n Marked d \<longleftrightarrow> ledger B H lo n d \<and> undo_available t n d \<and> get_u32_meta META_KEY_ROLLBACK_IN_PROGRESS d = Inr (Some 1) \<and>
     get_u32_meta META_KEY_ROLLBACK_TARGET_HEIGHT d = Inr None \<and> get_u32_meta META_KEY_ROLLBACK_NEXT_HEIGHT d = Inr None"
| "phase_ok B H lo t n Aimed d \<longleftrightarrow> ledger B H lo n d \<and> undo_available t n d \<and> get_u32_meta META_KEY_ROLLBACK_IN_PROGRESS d = Inr (Some 1) \<and>
     get_u32_meta META_KEY_ROLLBACK_TARGET_HEIGHT d = Inr (Some t) \<and> get_u32_meta META_KEY_ROLLBACK_NEXT_HEIGHT d = Inr None"
| "phase_ok B H lo t n (Ready m) d \<longleftrightarrow> rolling B H lo t m d"
| "phase_ok B H lo t n (Undone m) d \<longleftrightarrow> m < m + 1 \<and> ledger B H lo m d \<and> get_u32_meta META_KEY_ROLLBACK_IN_PROGRESS d = Inr (Some 1) \<and>
     get_u32_meta META_KEY_ROLLBACK_TARGET_HEIGHT d = Inr (Some t) \<and> get_u32_meta META_KEY_ROLLBACK_NEXT_HEIGHT d = Inr (Some (m + 1)) \<and>
     rolling B H lo t m (snd (put_u32_meta META_KEY_ROLLBACK_NEXT_HEIGHT m d))"
| "phase_ok B H lo t n ph d \<longleftrightarrow> ledger B H lo t d \<and> get_u32_meta META_KEY_ROLLBACK_IN_PROGRESS d = Inr None"

lemma pair_snd: "m s = (r, s') \<Longrightarrow> s' = snd (m s)"
  by simp

lemma rollback_point_ok:
  assumes p: "rollback_point t n db ph d" and i: "idle B H lo n db" and t: "lo \<le> t" "t < n"
  shows "phase_ok B H lo t n ph d"
  using p
proof induction
  case (mark d)
  have l: "ledger B H lo n db" using i by (simp add: idle_def)
  note ty = ledgerD(1) [OF l] and d = pair_snd [of "put_u32_meta META_KEY_ROLLBACK_IN_PROGRESS 1" db, OF mark(2)]
  have "undo_available t n db" using mark(1) ensure_available [OF ty t(2)] by blast
  then have "undo_available t n d" unfolding d using ty by (intro undo_available_put) (simp_all add: rollback_keys)
  moreover have "ledger B H lo n d" unfolding d using l by (rule ledger_put_meta) (simp add: rollback_keys)
  ultimately show ?case using i unfolding d by (simp add: get_meta_put [OF ty] idle_def rollback_keys)
next
  case (aim d d')
  then have l: "ledger B H lo n d" and u: "undo_available t n d" by simp_all
  note ty = ledgerD(1) [OF l] and d = pair_snd [of "put_u32_meta META_KEY_ROLLBACK_TARGET_HEIGHT t" d, OF aim(2)]
  have "undo_available t n d'" unfolding d using ty u by (rule undo_available_put) (simp_all add: rollback_keys)
  moreover have "ledger B H lo n d'" unfolding d using l by (rule ledger_put_meta) (simp add: rollback_keys)
  ultimately show ?case using aim(3) unfolding d by (simp add: get_meta_put [OF ty] rollback_keys)
next
  case (start d d')
  note d = pair_snd [of "put_u32_meta META_KEY_ROLLBACK_NEXT_HEIGHT n" d, OF start(2)]
  show ?case using start(3) t unfolding d by (simp add: rolling_put)
next
  case (undo m d d')
  then have r: "rolling B H lo t m d" by simp
  obtain d1 where d: "rollback_one_block m d = (Inr (), d1)" "ledger B H lo (m - 1) d1"
    "get_u32_meta META_KEY_ROLLBACK_IN_PROGRESS d1 = Inr (Some 1)" "get_u32_meta META_KEY_ROLLBACK_TARGET_HEIGHT d1 = Inr (Some t)"
    "get_u32_meta META_KEY_ROLLBACK_NEXT_HEIGHT d1 = Inr (Some m)" "rolling B H lo t (m - 1) (snd (put_u32_meta META_KEY_ROLLBACK_NEXT_HEIGHT (m - 1) d1))"
    by (rule rolling_step [OF r undo(2)]) (rule that)
  have "0 < m" using undo(2) by (rule order_le_less_trans [OF word_zero_le])
  then show ?case using d undo(3) word_pred(2) by simp
next
  case (advance m d d')
  then show ?case using pair_snd [of "put_u32_meta META_KEY_ROLLBACK_NEXT_HEIGHT m" d] by simp
next
  case (unmark d d')
  then have l: "ledger B H lo t d" by (simp add: rolling_def)
  note d = pair_snd [of "delete_meta_key META_KEY_ROLLBACK_IN_PROGRESS" d, OF unmark(2)]
  have "ledger B H lo t d'" unfolding d using l by (rule ledger_delete_meta) (simp add: rollback_keys)
  then show ?case unfolding d by (simp add: get_meta_delete [OF ledgerD(1) [OF l]])
next
  case (unaim d d')
  then have l: "ledger B H lo t d" by simp
  note d = pair_snd [of "delete_meta_key META_KEY_ROLLBACK_TARGET_HEIGHT" d, OF unaim(2)]
  have "ledger B H lo t d'" unfolding d using l by (rule ledger_delete_meta) (simp add: rollback_keys)
  then show ?case using unaim(3) unfolding d by (simp add: get_meta_delete [OF ledgerD(1) [OF l]] rollback_keys)
next
  case (finish d d')
  then have l: "ledger B H lo t d" by simp
  note d = pair_snd [of "delete_meta_key META_KEY_ROLLBACK_NEXT_HEIGHT" d, OF finish(2)]
  have "ledger B H lo t d'" unfolding d using l by (rule ledger_delete_meta) (simp add: rollback_keys)
  then show ?case using finish(3) unfolding d by (simp add: get_meta_delete [OF ledgerD(1) [OF l]] rollback_keys)
qed

lemma resume_rolling:
  assumes r: "rolling B H lo t m d"
  shows "\<exists>d'. resume_rollback_if_needed d = (Inr True, d') \<and> ledger B H lo t d' \<and> is_rollback_in_progress d' = Inr False"
proof -
  have l: "ledger B H lo m d" and tm: "t \<le> m" and u: "undo_available t m d" using r by (simp_all add: rolling_def)
  have e: "ensure_rollback_undo_available t m d = Inr ()"
  proof (cases "t < m")
    case True
    then show ?thesis using u ensure_available [OF ledgerD(1) [OF l]] by blast
  qed (simp add: ensure_rollback_undo_available_def not_less)
  obtain d1 where d1: "rollback_loop t m d = (Inr (), d1)" "rolling B H lo t t d1" using rollback_loop_rolling [OF r] by blast
  obtain d' where d2: "clear_rollback_state d1 = (Inr (), d')" "ledger B H lo t d'" "is_rollback_in_progress d' = Inr False"
    using clear_rolling [OF d1(2)] by blast
  have "resume_rollback_if_needed d = (Inr True, d')"
    using r tm e d1(1) d2(1) ledgerD(2) [OF l] by (simp add: resume_rollback_if_needed_def rolling_def)
  then show ?thesis using d2(2,3) by blast
qed

text \<open>A rollback that is not interrupted passes through the phases.\<close>

lemma rollback_loop_points:
  "rolling B H lo t m d \<Longrightarrow> rollback_point t n db (Ready m) d \<Longrightarrow> rollback_point t n db (Ready t) (snd (rollback_loop t m d))"
proof (induction t m arbitrary: d rule: rollback_loop.induct)
  case (1 t m)
  show ?case
  proof (cases "t < m")
    case True
    obtain d1 where d: "rollback_one_block m d = (Inr (), d1)"
      "rolling B H lo t (m - 1) (snd (put_u32_meta META_KEY_ROLLBACK_NEXT_HEIGHT (m - 1) d1))"
      by (rule rolling_step [OF "1.prems"(1) True]) (rule that)
    have "rollback_point t n db (Undone (m - 1)) d1" using "1.prems"(2) True d(1) by (rule undo)
    then have "rollback_point t n db (Ready (m - 1)) (snd (put_u32_meta META_KEY_ROLLBACK_NEXT_HEIGHT (m - 1) d1))"
      by (rule advance) (simp add: put_u32_meta_def)
    from "1.IH" [OF True d(2) this] show ?thesis using True d(1) by (subst rollback_loop.simps) simp
  next
    case False
    then have "m = t" using "1.prems" by (simp add: rolling_def)
    then show ?thesis using "1.prems"(2) by (subst rollback_loop.simps) simp
  qed
qed

lemma rollback_points:
  assumes l: "ledger B H lo n db" and t: "lo \<le> t" "t < n" and u: "ensure_rollback_undo_available t n db = Inr ()"
  shows "rollback_point t n db Finished (snd (rollback_to_block_height t db))"
proof -
  let ?d = "snd (put_u32_meta META_KEY_ROLLBACK_NEXT_HEIGHT n (snd (put_u32_meta META_KEY_ROLLBACK_TARGET_HEIGHT t
    (snd (put_u32_meta META_KEY_ROLLBACK_IN_PROGRESS 1 db)))))"
  have av: "undo_available t n db" using u ensure_available [OF ledgerD(1) [OF l] t(2)] by blast
  have r: "rolling B H lo t n ?d" by (rule rolling_start [OF l t(1) less_imp_le [OF t(2)] av])
  obtain d1 where d1: "rollback_loop t n ?d = (Inr (), d1)" using rollback_loop_rolling [OF r] by blast
  have "rollback_point t n db (Ready n) ?d"
    by (rule start [OF aim [OF mark [OF u]]]) (simp_all add: put_u32_meta_def)
  from rollback_loop_points [OF r this] have "rollback_point t n db (Ready t) d1" unfolding d1 by simp
  then have "rollback_point t n db Finished (snd (clear_rollback_state d1))"
    unfolding clear_rollback_state_def by (intro finish [OF unaim [OF unmark]]) (simp_all add: delete_meta_key_def)
  moreover have "rollback_to_block_height t db = clear_rollback_state d1"
    using ledgerD(2) [OF l] less_imp_le [OF t(2)] less_imp_neq [OF t(2)] u d1 by (simp add: rollback_to_block_height_def)
  ultimately show ?thesis by simp
qed

section \<open>A sample chain\<close>

text \<open>One block with hash \<open>b\<close> on an empty database: a coinbase with id \<open>t\<close> that pays 50.\<close>

definition sample_coinbase :: "Txid \<Rightarrow> BtcTx" where
  "sample_coinbase t = \<lparr>bt_txid = t, bt_is_coinbase = True, bt_input = [], bt_output = [\<lparr>to_script_pubkey = [81], to_value = 50\<rparr>]\<rparr>"

definition sample_node :: "BlockHash \<Rightarrow> Txid \<Rightarrow> block_env" where
  "sample_node b t = \<lparr>ev_get_block_by_height = (\<lambda>h. Inr \<lparr>bb_block_hash = b, bb_txdata = [sample_coinbase t]\<rparr>), ev_get_block_hash = (\<lambda>h. Inr b),
     ev_get_utxo = (\<lambda>p. Inl (Err ''missing'')), ev_is_op_return = (\<lambda>s. False), ev_script_hash = (\<lambda>s. 7), ev_sha256 = (\<lambda>b. 0),
     ev_evict_utxo = (\<lambda>m. m), ev_evict_balance = (\<lambda>m. m)\<rparr>"

definition sample_outputs :: "Txid \<Rightarrow> u32 \<Rightarrow> utxo_set" where
  "sample_outputs t h = (if h = 0 then Map.empty else [\<lparr>op_txid = t, op_vout = 0\<rparr> \<mapsto> \<lparr>uv_script_hash = 7, uv_value = 50\<rparr>])"

definition sample_block_hash :: "BlockHash \<Rightarrow> u32 \<Rightarrow> BlockHash" where
  "sample_block_hash b h = b"

definition sample_genesis :: bh_state where
  "sample_genesis = \<lparr>st_db = empty_db, st_utxo_cache = Map.empty, st_balance_cache = Map.empty\<rparr>"

definition sample_synced :: bh_state where
  "sample_synced = snd (process_blocks (sample_node 5 17) (0 + 1, 2) 1 10 sample_genesis)"

lemma sample_evicts: "evicts (sample_node b t)"
  by (simp add: evicts_def sample_node_def)

lemma empty_get: "get_cf c k empty_db = None"
  by (simp add: get_cf_def cf_get_def empty_db_def)

lemma empty_utxos: "utxos empty_db = Map.empty"
  by (rule ext) (simp add: utxos_get [OF empty_db_typed] empty_get)

lemma empty_no_undo: "no_undo h empty_db"
  by (simp add: no_undo_def undo_list_at_def undo_index_at_def empty_get)

lemma sample_genesis_synced: "synced (sample_block_hash 5) (sample_outputs 17) 0 0 sample_genesis"
proof -
  have rec: "balance_record sh h empty_db = None" for sh h by (simp add: balance_record_def empty_get)
  have "balances_ok (sample_outputs 17) 0 empty_db"
    unfolding balances_ok_def last_balance_def by (auto simp: rec no_balance_def wsum_def sample_outputs_def)
  then have "ledger (sample_block_hash 5) (sample_outputs 17) 0 0 empty_db"
    unfolding ledger_def using empty_db_typed
    by (auto simp: get_btc_block_height_def empty_get empty_utxos sample_outputs_def clean_above_def empty_no_undo rec)
  then show ?thesis by (simp add: synced_def sample_genesis_def)
qed

abbreviation sample_bs :: "BlockHash \<Rightarrow> Txid \<Rightarrow> (u32 \<times> BtcBlock) list" where
  "sample_bs b t \<equiv> [(1, \<lparr>bb_block_hash = b, bb_txdata = [sample_coinbase t]\<rparr>)]"

lemma sample_outs: "tx_outs (sample_node b t) (sample_coinbase t) = [(\<lparr>op_txid = t, op_vout = 0\<rparr>, \<lparr>uv_script_hash = 7, uv_value = 50\<rparr>)]" "tx_ins (sample_coinbase t) = []"
  by (simp_all add: tx_outs_def tx_ins_def preload_vouts_def sample_node_def sample_coinbase_def enumerate_eq_zip)

lemma sample_chain: "chain_ok (sample_node b t) (sample_outputs t) 0 (sample_bs b t)" "batch_valid (sample_node b t) (sample_bs b t) (sample_outputs t 0)"
  by (simp_all add: sample_outputs_def apply_tx_def sample_outs batch_valid_def fun_eq_iff batch_txs_def)

lemma sample_total: "total (sample_outputs t 1) sh < 2 ^ 63"
proof -
  have "dom (sample_outputs t 1) = {\<lparr>op_txid = t, op_vout = 0\<rparr>}" by (auto simp: sample_outputs_def split: if_splits)
  then show ?thesis unfolding total_def by (simp only: sum.empty sum.insert finite.emptyI empty_iff simp_thms) (simp add: sample_outputs_def)
qed

lemma sample_valid: "valid_next_blocks (sample_node b t) (sample_block_hash b) (sample_outputs t) 0 2"
proof -
  have "range_heights (0 + 1) 2 = [1]" by (simp add: range_heights_def upt_conv_Cons)
  then have "mapR (load_block (sample_node b t)) (range_heights (0 + 1) 2) = Inr (sample_bs b t)"
    by (simp add: load_block_def sample_node_def)
  moreover have "collision_free (sample_node b t) (sample_bs b t)"
    by (simp add: collision_free_def batch_registry_def tx_registry_entries_def sample_coinbase_def)
  moreover have "block_small [sample_coinbase t]" by (simp add: block_small_def sample_coinbase_def)
  ultimately show ?thesis using sample_chain sample_total unfolding valid_next_blocks_def by (intro conjI exI [of _ "sample_bs b t"]) (simp_all add: sample_block_hash_def)
qed

lemma sample_persists: "h \<in> set (range_heights (0 + 1) 2) \<Longrightarrow> should_persist_undo_for_block h 1 10"
proof -
  have "sat_sub (1 :: u32) 9 = 0" by (simp add: sat_sub_def word_le_nat_alt)
  then show "h \<in> set (range_heights (0 + 1) 2) \<Longrightarrow> should_persist_undo_for_block h 1 10"
    by (simp add: range_heights_def upt_conv_Cons should_persist_undo_for_block_def)
qed

lemma sample_boundaries: "boundaries_before (0 + 1) (st_db sample_genesis)"
  by (simp add: boundaries_before_def sample_genesis_def get_rollback_supported_from_height_def get_undo_retained_from_height_def get_u32_meta_def empty_get)

lemma sample_synced_ok: "synced (sample_block_hash 5) (sample_outputs 17) 0 1 sample_synced" "undo_available 0 1 (st_db sample_synced)"
  "same_markers (st_db sample_genesis) (st_db sample_synced)"
proof -
  obtain s' where "process_blocks (sample_node 5 17) (0 + 1, 2) 1 10 sample_genesis = (Inr (), s')" "synced (sample_block_hash 5) (sample_outputs 17) 0 (2 - 1) s'"
    "undo_available 0 (2 - 1) (st_db s')"
    "same_markers (st_db sample_genesis) (st_db s')"
    using process_valid_blocks [OF sample_genesis_synced sample_evicts sample_valid, of 1 10] sample_persists sample_boundaries
    unfolding advanced_def by blast
  then show "synced (sample_block_hash 5) (sample_outputs 17) 0 1 sample_synced" "undo_available 0 1 (st_db sample_synced)" "same_markers (st_db sample_genesis) (st_db sample_synced)"
    by (simp_all add: sample_synced_def)
qed

lemma sample_ensured: "ensure_rollback_undo_available 0 1 (st_db sample_synced) = Inr ()"
proof -
  have "db_typed (st_db sample_synced)" using sample_synced_ok(1) ledgerD(1) by (auto simp: synced_def)
  from ensure_available [OF this, of 0 1] show ?thesis using sample_synced_ok(2) by simp
qed

lemma sample_idle: "idle (sample_block_hash 5) (sample_outputs 17) 0 1 (st_db sample_synced)"
  using sample_synced_ok(1,3) unfolding idle_def synced_def same_markers_def by (simp add: sample_genesis_def get_u32_meta_def empty_get)

section \<open>Properties\<close>

text \<open>C5: processing blocks implements the ledger of the chain.  From a database and caches that agree with the unspent
  outputs \<open>H n\<close>, a batch of valid blocks above \<open>n\<close> is processed without an error or a panic and leaves a database and
  caches that agree with the outputs after the last block: every output is found exactly when it is unspent, and for
  every address and every height from \<open>lo\<close> on, the balance query gives the sum of the unspent outputs it has at that height.\<close>

theorem process_blocks_ledger:
  assumes "synced B H lo n s" and "evicts env" and "valid_next_blocks env B H n b"
  shows "\<exists>s'. process_blocks env (n + 1, b) latest retention s = (Inr (), s') \<and> synced B H lo (b - 1) s' \<and>
    (\<forall>p. get_utxo p (st_db s') = Inr (H (b - 1) p)) \<and>
    (\<forall>sh t. lo \<le> t \<and> t \<le> b - 1 \<longrightarrow> (\<exists>e. get_balance_at_block_height sh t (st_db s') = Inr e \<and> hd_balance e = wsum (H t) sh))"
proof -
  obtain s' where s': "process_blocks env (n + 1, b) latest retention s = (Inr (), s')" "synced B H lo (b - 1) s'"
    using process_valid_blocks [OF assms] unfolding advanced_def by blast
  show ?thesis using s' synced_queries [OF s'(2)] by blast
qed

theorem process_blocks_ledger_witness:
  "\<exists>s'. process_blocks (sample_node 5 17) (0 + 1, 2) 1 10 sample_genesis = (Inr (), s') \<and>
     get_utxo \<lparr>op_txid = 17, op_vout = 0\<rparr> (st_db s') = Inr (Some \<lparr>uv_script_hash = 7, uv_value = 50\<rparr>)"
  using process_blocks_ledger [OF sample_genesis_synced sample_evicts sample_valid, of 1 10] by (auto simp: sample_outputs_def)

text \<open>C6: processing and rolling back are inverse.  When every block of a batch is inside the window in which undo bundles
  are kept and no older boundary forbids it, the batch can be rolled back, and the rollback gives the ledger of the
  height before the batch.\<close>

theorem batch_then_rollback:
  assumes "synced B H lo n s" and "evicts env" and "valid_next_blocks env B H n b"
    and "\<And>h. h \<in> set (range_heights (n + 1) b) \<Longrightarrow> should_persist_undo_for_block h latest retention"
    and "boundaries_before (n + 1) (st_db s)"
  shows "\<exists>s' db'. process_blocks env (n + 1, b) latest retention s = (Inr (), s') \<and>
    rollback_to_block_height n (st_db s') = (Inr (), db') \<and> ledger B H lo n db' \<and> is_rollback_in_progress db' = Inr False"
proof -
  obtain s' where s': "process_blocks env (n + 1, b) latest retention s = (Inr (), s')" "synced B H lo (b - 1) s'"
    "undo_available n (b - 1) (st_db s')"
    using process_valid_blocks [OF assms(1-3)] assms(4,5) unfolding advanced_def by blast
  have l: "ledger B H lo (b - 1) (st_db s')" and lo: "lo \<le> n" using s'(2) assms(1) ledgerD(3) by (auto simp: synced_def)
  have b: "n + 1 < b" using assms(3) by (simp add: valid_next_blocks_def)
  then have "0 < b" by (rule order_le_less_trans [OF word_zero_le])
  then have n: "n < b - 1" using b assms(3) word_pred(1) [of b "n + 1"] by (auto simp: valid_next_blocks_def)
  have "ensure_rollback_undo_available n (b - 1) (st_db s') = Inr ()" using ensure_available [OF ledgerD(1) [OF l] n] s'(3) by blast
  from rollback_ledger [OF l lo n this] show ?thesis using s'(1) by blast
qed

theorem batch_then_rollback_witness:
  "\<exists>s' db'. process_blocks (sample_node 5 17) (0 + 1, 2) 1 10 sample_genesis = (Inr (), s') \<and>
    rollback_to_block_height 0 (st_db s') = (Inr (), db') \<and> ledger (sample_block_hash 5) (sample_outputs 17) 0 0 db' \<and> is_rollback_in_progress db' = Inr False"
  using batch_then_rollback [OF sample_genesis_synced sample_evicts sample_valid sample_persists sample_boundaries] by blast

text \<open>C7: a rollback reaches its target or changes nothing.  From a ledger at height \<open>n\<close> and for a lower target, a missing
  undo journal is reported before anything is written; otherwise the rollback succeeds, the database is the ledger of
  the target height, no rollback is marked as in progress, and the writes it made are those of \<open>rollback_point\<close>.\<close>

theorem rollback_restores_ledger:
  assumes "ledger B H lo n db" and "lo \<le> t" and "t < n"
  shows "case ensure_rollback_undo_available t n db of
      Inl e \<Rightarrow> rollback_to_block_height t db = (Inl e, db)
    | Inr _ \<Rightarrow> \<exists>db'. rollback_to_block_height t db = (Inr (), db') \<and> ledger B H lo t db' \<and> is_rollback_in_progress db' = Inr False \<and>
        rollback_point t n db Finished db'"
proof (cases "ensure_rollback_undo_available t n db")
  case (Inl e)
  then show ?thesis using rollback_refused [OF assms(1,3)] by simp
next
  case (Inr x)
  then have u: "ensure_rollback_undo_available t n db = Inr ()" by simp
  obtain db' where d: "rollback_to_block_height t db = (Inr (), db')" "ledger B H lo t db'" "is_rollback_in_progress db' = Inr False"
    using rollback_ledger [OF assms u] by blast
  moreover have "rollback_point t n db Finished db'" using rollback_points [OF assms u] d(1) by simp
  ultimately show ?thesis using u by simp
qed

theorem rollback_restores_ledger_witness:
  "\<exists>db'. rollback_to_block_height 0 (st_db sample_synced) = (Inr (), db') \<and> ledger (sample_block_hash 5) (sample_outputs 17) 0 0 db'"
proof -
  have l: "ledger (sample_block_hash 5) (sample_outputs 17) 0 1 (st_db sample_synced)" using sample_synced_ok(1) by (simp add: synced_def)
  from rollback_restores_ledger [OF l, of 0] show ?thesis using sample_ensured by auto
qed



end
