(* ===== verification/Balance_Prune.thy ===== *)
theory Balance_Prune
  imports Balance_Recover
begin

text \<open>
  Pruning the undo journal of the balance-history database: it removes bundles below the retention window only and
  leaves the ledger, the rollback markers and every rollback inside the window as they are.
\<close>

section \<open>Rows of an undo bundle\<close>

definition undo_key :: "u32 \<Rightarrow> ColumnFamily \<Rightarrow> u8 list \<Rightarrow> bool" where
  "undo_key h c k \<longleftrightarrow> c = BLOCK_UNDO_META_CF \<and> k = make_block_undo_meta_key h \<or>
     (c = BLOCK_UNDO_CREATED_UTXOS_CF \<or> c = BLOCK_UNDO_SPENT_UTXOS_CF) \<and> (\<exists>q. k = make_block_undo_utxo_key h q) \<or>
     c = BLOCK_UNDO_BALANCE_INDEX_CF \<and> (\<exists>sh. k = make_block_undo_balance_index_key h sh)"

lemma no_undo_iff: "no_undo h db \<longleftrightarrow> (\<forall>c k. undo_key h c k \<longrightarrow> get_cf c k db = None)"
  unfolding no_undo_def undo_list_at_def undo_index_at_def undo_key_def by auto

lemma undo_key_prefix: "undo_key h c k \<Longrightarrow> take 4 k = u32_be h"
  by (auto simp: undo_key_def make_block_undo_meta_key_def)

lemma delete_effect_covers:
  assumes u: "undo_at ub db" and k: "undo_key (ub_block_height ub) c k" "get_cf c k db \<noteq> None"
  shows "effect (delete_bundle_ops ub) c k = Some None"
proof -
  let ?h = "ub_block_height ub"
  have seq: "make_block_undo_utxo_key ?h q \<in> (\<lambda>seq. make_block_undo_utxo_key ?h (of_nat seq)) ` {0..<l}" if "unat q < l" for q l
    using that by (intro image_eqI [where x = "unat q"]) auto
  have "get_cf BLOCK_UNDO_CREATED_UTXOS_CF (make_block_undo_utxo_key ?h q) db = (if unat q < length (ub_created_utxos ub) then Some (serialize_block_undo_utxo_value (ub_created_utxos ub ! unat q)) else None)"
    "get_cf BLOCK_UNDO_SPENT_UTXOS_CF (make_block_undo_utxo_key ?h q) db = (if unat q < length (ub_spent_utxos ub) then Some (serialize_block_undo_utxo_value (ub_spent_utxos ub ! unat q)) else None)"
    "get_cf BLOCK_UNDO_BALANCE_INDEX_CF (make_block_undo_balance_index_key ?h sh) db = (if sh \<in> set (ub_touched_script_hashes ub) then Some [1] else None)" for q sh
    using u unfolding undo_at_def undo_list_at_def undo_index_at_def by blast+
  then have rows: "get_cf BLOCK_UNDO_CREATED_UTXOS_CF (make_block_undo_utxo_key ?h q) db \<noteq> None \<Longrightarrow> unat q < length (ub_created_utxos ub)"
    "get_cf BLOCK_UNDO_SPENT_UTXOS_CF (make_block_undo_utxo_key ?h q) db \<noteq> None \<Longrightarrow> unat q < length (ub_spent_utxos ub)"
    "get_cf BLOCK_UNDO_BALANCE_INDEX_CF (make_block_undo_balance_index_key ?h sh) db \<noteq> None \<Longrightarrow> sh \<in> set (ub_touched_script_hashes ub)" for q sh
    by (metis option.distinct(1))+
  consider "c = BLOCK_UNDO_META_CF" "k = make_block_undo_meta_key ?h"
    | q where "c = BLOCK_UNDO_CREATED_UTXOS_CF" "k = make_block_undo_utxo_key ?h q" "unat q < length (ub_created_utxos ub)"
    | q where "c = BLOCK_UNDO_SPENT_UTXOS_CF" "k = make_block_undo_utxo_key ?h q" "unat q < length (ub_spent_utxos ub)"
    | sh where "c = BLOCK_UNDO_BALANCE_INDEX_CF" "k = make_block_undo_balance_index_key ?h sh" "sh \<in> set (ub_touched_script_hashes ub)"
    using k rows unfolding undo_key_def by blast
  then show ?thesis by cases (simp_all add: delete_bundle_ops_def effect_deletes seq)
qed

section \<open>The deletions\<close>

lemma delete_batch_effect:
  assumes "append_delete_block_undo_bundle_to_batch h db = Inr b" and "effect b c k = Some r"
  shows "r = None \<and> undo_cf c \<and> take 4 k = u32_be h"
  using assms
  by (auto simp: append_delete_block_undo_bundle_to_batch_def effect_deletes undo_cf_def make_block_undo_meta_key_def
      split: sum.splits option.splits if_splits)

lemma delete_batches_effect:
  "mapR (\<lambda>h. append_delete_block_undo_bundle_to_batch h db) hs = Inr bs \<Longrightarrow> effect (concat bs) c k = Some r \<Longrightarrow>
   r = None \<and> undo_cf c \<and> (\<exists>h \<in> set hs. take 4 k = u32_be h)"
proof (induction hs arbitrary: bs)
  case (Cons h hs)
  then obtain b bs' where b: "append_delete_block_undo_bundle_to_batch h db = Inr b"
    "mapR (\<lambda>h. append_delete_block_undo_bundle_to_batch h db) hs = Inr bs'" "bs = b # bs'" by (auto split: sum.splits)
  have "effect (concat bs') c k = Some r \<or> effect b c k = Some r" using Cons.prems(2) b(3) by (auto split: option.splits)
  then show ?case using Cons.IH [OF b(2)] delete_batch_effect [OF b(1)] by auto
qed simp

lemma delete_batches_cover:
  "mapR (\<lambda>h. append_delete_block_undo_bundle_to_batch h db) hs = Inr bs \<Longrightarrow> h \<in> set hs \<Longrightarrow>
   append_delete_block_undo_bundle_to_batch h db = Inr b \<Longrightarrow> effect b c k = Some None \<Longrightarrow> effect (concat bs) c k = Some None"
proof (induction hs arbitrary: bs)
  case (Cons h' hs)
  then obtain b' bs' where b: "append_delete_block_undo_bundle_to_batch h' db = Inr b'"
    "mapR (\<lambda>h. append_delete_block_undo_bundle_to_batch h db) hs = Inr bs'" "bs = b' # bs'" by (auto split: sum.splits)
  have "effect (concat bs') c k = Some r \<Longrightarrow> r = None" for r using delete_batches_effect [OF b(2)] by blast
  then show ?case using Cons.IH [OF b(2)] Cons.prems b by (cases "h \<in> set hs") (auto split: option.splits)
qed simp

lemma deletes_available: "db_typed db \<Longrightarrow> \<exists>bs. mapR (\<lambda>h. append_delete_block_undo_bundle_to_batch h db) hs = Inr bs"
  unfolding mapR_Inr_iff append_delete_block_undo_bundle_to_batch_def
  using typed_undo_utxos [of db] typed_touched [of db] by (metis (no_types, lifting) old.sum.simps(6))

lemma prune_scan_typed:
  "(\<And>k v. (k, v) \<in> set rows \<Longrightarrow> length k = 4) \<Longrightarrow> \<exists>hs. prune_scan m rows = Inr hs \<and> (\<forall>h \<in> set hs. h < m)"
proof (induction rows)
  case (Cons r rows)
  obtain k v where r: "r = (k, v)" by (cases r)
  obtain hs where "prune_scan m rows = Inr hs" "\<forall>h \<in> set hs. h < m" using Cons by force
  moreover have "length k = 4" using Cons.prems r by auto
  ultimately show ?case by (auto simp: r parse_u32_be_key_def)
qed simp

section \<open>The ledger\<close>

lemma ledger_prune:
  assumes l: "ledger B H lo n db" and bs: "mapR (\<lambda>h. append_delete_block_undo_bundle_to_batch h db) hs = Inr bs"
    and db': "db' = write_batch (concat bs @ [PutCf META_CF (str_bytes META_KEY_UNDO_RETAINED_FROM_HEIGHT) (u32_be e)]) db"
  shows "ledger B H lo n db'"
    "key \<noteq> META_KEY_UNDO_RETAINED_FROM_HEIGHT \<Longrightarrow> get_u32_meta key db' = get_u32_meta key db"
    "get_u32_meta META_KEY_UNDO_RETAINED_FROM_HEIGHT db' = Inr (Some e)"
    "h \<notin> set hs \<Longrightarrow> get_cf BLOCK_UNDO_META_CF (make_block_undo_meta_key h) db' = get_cf BLOCK_UNDO_META_CF (make_block_undo_meta_key h) db"
proof -
  note d = ledgerD [OF l]
  have g: "get_cf c k db' = (if c = META_CF \<and> k = str_bytes META_KEY_UNDO_RETAINED_FROM_HEIGHT then Some (u32_be e)
      else if effect (concat bs) c k = None then get_cf c k db else None)" for c k
    unfolding db' get_write_batch [OF typed_rows [OF d(1)]] using delete_batches_effect [OF bs, of c k]
    by (auto split: option.splits)
  have keep: "get_cf c k db' = get_cf c k db" if "\<not> undo_cf c" "c \<noteq> META_CF \<or> k \<noteq> str_bytes META_KEY_UNDO_RETAINED_FROM_HEIGHT" for c k
    using that delete_batches_effect [OF bs, of c k] by (auto simp: g)
  have row: "get_cf c k db' = get_cf c k db" if "undo_key h c k" "h \<notin> set hs" for c k h
  proof -
    have "effect (concat bs) c k = None" using delete_batches_effect [OF bs, of c k] that undo_key_prefix [OF that(1)] by (cases "effect (concat bs) c k") auto
    then show ?thesis using that(1) by (auto simp: g undo_key_def)
  qed
  have ty: "db_typed db'" unfolding db' by (rule db_typed_write_batch [OF d(1)]) (auto dest: op_typed_delete_bundles [OF bs])
  have gone: "no_undo h db'" if "no_undo h db" for h using that unfolding no_undo_iff by (auto simp: g undo_key_def)
  have rec: "balance_record sh h db' = balance_record sh h db" for sh h by (simp add: balance_record_def keep undo_cf_def)
  have und: "undo_ok H h db'" if h: "lo < h" "h \<le> n" for h
  proof (cases "h \<in> set hs")
    case True
    from d(7) [OF h] consider "no_undo h db" | ub where "ub_block_height ub = h" "undo_at ub db" unfolding undo_ok_def by blast
    then have "no_undo h db'"
    proof cases
      case (2 ub)
      have del: "append_delete_block_undo_bundle_to_batch h db = Inr (delete_bundle_ops ub)" using append_delete_eq [OF d(1) 2(2)] 2(1) by simp
      have "get_cf c k db' = None" if k: "undo_key h c k" for c k
      proof (cases "get_cf c k db = None")
        case False
        then have "effect (concat bs) c k = Some None"
          using delete_effect_covers [OF 2(2)] k 2(1) by (intro delete_batches_cover [OF bs True del]) auto
        then show ?thesis using k by (auto simp: g undo_key_def)
      qed (use k in \<open>auto simp: g undo_key_def\<close>)
      then show ?thesis unfolding no_undo_iff by blast
    qed (rule gone)
    then show ?thesis by (simp add: undo_ok_def)
  next
    case False
    have "same_at h db db'" unfolding same_at_def using row [OF _ False] by (auto simp: keep undo_cf_def undo_key_def)
    then show ?thesis using same_at_facts(4) d(7) [OF h] by blast
  qed
  have "balances_ok H t db'" if "lo \<le> t" "t \<le> n" for t
  proof -
    have "last_balance sh t db' e \<longleftrightarrow> last_balance sh t db e" for sh e by (rule last_balance_same) (rule rec)
    then show ?thesis using d(6) [OF that] unfolding balances_ok_def by blast
  qed
  moreover have "clean_above n db'" using d(5) gone rec by (simp add: clean_above_def keep undo_cf_def)
  moreover have "utxos db' = H n" unfolding d(4) [symmetric] by (rule ext) (simp add: utxos_get [OF ty] utxos_get [OF d(1)] keep undo_cf_def)
  moreover have "get_btc_block_height db' = Inr n" using d(2) by (simp add: get_btc_block_height_def keep undo_cf_def rollback_keys)
  moreover have "get_cf BLOCK_COMMITS_CF k db' = get_cf BLOCK_COMMITS_CF k db" for k by (rule keep) (simp_all add: undo_cf_def)
  then have "stored_hash h db' = Some (B h)" if "lo \<le> h" "h \<le> n" "0 < h" for h using d(8) [OF that] by (simp add: stored_hash_def)
  moreover have "deltas_ok H h db'" if "lo < h" "h \<le> n" for h using d(9) [OF that] by (simp add: deltas_ok_def rec)
  ultimately show "ledger B H lo n db'" using ty d(3) und unfolding ledger_def by blast
  show "key \<noteq> META_KEY_UNDO_RETAINED_FROM_HEIGHT \<Longrightarrow> get_u32_meta key db' = get_u32_meta key db"
    by (simp add: get_u32_meta_def keep undo_cf_def)
  show "get_u32_meta META_KEY_UNDO_RETAINED_FROM_HEIGHT db' = Inr (Some e)" by (simp add: get_u32_meta_def g)
  show "h \<notin> set hs \<Longrightarrow> get_cf BLOCK_UNDO_META_CF (make_block_undo_meta_key h) db' = get_cf BLOCK_UNDO_META_CF (make_block_undo_meta_key h) db"
    by (rule row) (simp_all add: undo_key_def)
qed

text \<open>A rollback inside the window stays possible.\<close>

lemma pruned_available:
  assumes av: "undo_available t n db" and e: "e \<le> sat_add t 1" and hs: "\<forall>h \<in> set hs. h < e"
    and meta: "\<And>key. key \<noteq> META_KEY_UNDO_RETAINED_FROM_HEIGHT \<Longrightarrow> get_u32_meta key db' = get_u32_meta key db"
      "get_u32_meta META_KEY_UNDO_RETAINED_FROM_HEIGHT db' = Inr (Some e)"
    and row: "\<And>h. h \<notin> set hs \<Longrightarrow> get_cf BLOCK_UNDO_META_CF (make_block_undo_meta_key h) db' = get_cf BLOCK_UNDO_META_CF (make_block_undo_meta_key h) db"
  shows "undo_available t n db'"
proof -
  have "h \<notin> set hs" if "t < h" for h
  proof
    assume "h \<in> set hs"
    then have "h < sat_add t 1" using hs e by (meson order_less_le_trans)
    then show False using that by (simp add: word_less_nat_alt unat_sat_add)
  qed
  then show ?thesis using av meta e row unfolding undo_available_def get_rollback_supported_from_height_def get_undo_retained_from_height_def
    by (simp add: rollback_keys)
qed

lemma prune_keeps_ledger:
  assumes l: "ledger B H lo n db"
  obtains k db' where "prune_undo_before_height m db = (Inr k, db')" and "ledger B H lo n db'" and "same_markers db db'"
    and "\<And>t. undo_available t n db \<Longrightarrow> m \<le> sat_add t 1 \<Longrightarrow> undo_available t n db'"
    and "get_rollback_supported_from_height db' = get_rollback_supported_from_height db"
proof -
  note ty = ledgerD(1) [OF l]
  obtain i where i: "get_u32_meta META_KEY_ROLLBACK_IN_PROGRESS db = Inr i" using typed_meta(1) [OF ty] by blast
  obtain s r where sr: "get_rollback_supported_from_height db = Inr s" "get_undo_retained_from_height db = Inr r"
    using typed_meta(1) [OF ty] unfolding get_rollback_supported_from_height_def get_undo_retained_from_height_def by blast
  have same: "same_markers db db" by (simp add: same_markers_def)
  show thesis
  proof (cases "i = Some 1 \<or> s = None \<or> (\<exists>s' r'. s = Some s' \<and> r = Some r' \<and> max m s' \<le> r')")
    case True
    then have "prune_undo_before_height m db = (Inr 0, db)"
    proof (elim disjE exE conjE)
      fix s' r' assume "s = Some s'" "r = Some r'" "max m s' \<le> r'"
      then show ?thesis using i sr by (cases "i = Some 1") (simp_all add: prune_undo_before_height_def Let_def del: max.bounded_iff)
    qed (use i sr in \<open>simp_all add: prune_undo_before_height_def\<close>)
    then show thesis using l same by (rule that) simp_all
  next
    case False
    then obtain s' where s': "s = Some s'" by auto
    let ?e = "max m s'"
    have nr: "\<not> (case r of Some r \<Rightarrow> ?e \<le> r | None \<Rightarrow> False)" using False s' by (auto split: option.split)
    obtain hs where hs: "prune_scan ?e (iter_from_forward (u32_be 0) (db BLOCK_UNDO_META_CF)) = Inr hs" "\<forall>h \<in> set hs. h < ?e"
      using prune_scan_typed [of "iter_from_forward (u32_be 0) (db BLOCK_UNDO_META_CF)" ?e] typed_row [OF ty, of _ _ BLOCK_UNDO_META_CF]
      by (force simp: iter_from_forward_def)
    obtain bs where bs: "mapR (\<lambda>h. append_delete_block_undo_bundle_to_batch h db) hs = Inr bs" using deletes_available [OF ty] by blast
    let ?db = "write_batch (concat bs @ [PutCf META_CF (str_bytes META_KEY_UNDO_RETAINED_FROM_HEIGHT) (u32_be ?e)]) db"
    note p = ledger_prune [OF l bs refl]
    have "prune_undo_before_height m db = (Inr (length hs), ?db)"
      using i sr s' False nr hs(1) bs
      by (cases hs) (simp_all add: prune_undo_before_height_def Let_def put_undo_retained_from_height_def put_u32_meta_def write_batch_def)
    moreover have "ledger B H lo n ?db" by (rule p(1))
    moreover have "same_markers db ?db" unfolding same_markers_def using p(2) by (simp add: rollback_keys)
    moreover have "undo_available t n ?db" if "undo_available t n db" "m \<le> sat_add t 1" for t
    proof -
      have "s' \<le> sat_add t 1" using that(1) sr(1) s' by (auto simp: undo_available_def)
      then show ?thesis using that hs(2) by (intro pruned_available [OF that(1) _ hs(2) p(2-4)]) simp_all
    qed
    moreover have "get_rollback_supported_from_height ?db = get_rollback_supported_from_height db"
      unfolding get_rollback_supported_from_height_def by (rule p(2)) (simp add: rollback_keys)
    ultimately show thesis by (rule that)
  qed
qed

end
