(* ===== verification/Balance_Chain.thy ===== *)
theory Balance_Chain
  imports Balance_Prune Balance_Indexer
begin

text \<open>
  The synchronisation loop of the balance-history service follows the chain of its node: the search for the common
  ancestor is exact, and one iteration takes the ledger to the stable tip of the node, whatever was reorganised.
\<close>

section \<open>The common ancestor\<close>

lemma ledger_commit:
  assumes l: "ledger B H lo n db" and h: "lo \<le> h" "h \<le> n" "0 < h"
  shows "\<exists>c. get_block_commit h db = Inr (Some c) \<and> ce_btc_block_hash c = B h"
proof -
  obtain v where v: "get_cf BLOCK_COMMITS_CF (make_block_commit_key h) db = Some v" "hash_of_bytes (take 32 v) = B h"
    using ledgerD(8) [OF l h] by (auto simp: stored_hash_def)
  then have "row_typed BLOCK_COMMITS_CF (make_block_commit_key h) v" using typed_get [OF ledgerD(1) [OF l]] by blast
  then show ?thesis using v by (auto simp: get_block_commit_def parse_block_commit_value_def)
qed

definition answers_hashes :: "block_env \<Rightarrow> (u32 \<Rightarrow> BlockHash) \<Rightarrow> u32 \<Rightarrow> bool" where
  "answers_hashes env B' latest \<longleftrightarrow> (\<forall>h \<le> latest. ev_get_block_hash env h = Inr (B' h))"

lemma commit_matches_ledger:
  assumes "ledger B H lo n db" and "answers_hashes env B' latest" and "lo \<le> h" "h \<le> n" "0 < h" "h \<le> latest"
  shows "commit_matches msg env db h = Inr (B h = B' h)"
  using ledger_commit [OF assms(1,3-5)] assms(2,6) by (auto simp: commit_matches_def answers_hashes_def)

text \<open>The greatest height up to \<open>m\<close> at which two chains have the same block, or 0.\<close>

definition common_ancestor :: "(u32 \<Rightarrow> BlockHash) \<Rightarrow> (u32 \<Rightarrow> BlockHash) \<Rightarrow> u32 \<Rightarrow> u32 \<Rightarrow> bool" where
  "common_ancestor B B' m a \<longleftrightarrow> a \<le> m \<and> (0 < a \<longrightarrow> B a = B' a) \<and> (\<forall>h. a < h \<and> h \<le> m \<longrightarrow> B h \<noteq> B' h)"

lemma ancestor_search_exact:
  assumes l: "ledger B H 0 n db" and a: "answers_hashes env B' latest" and k: "k \<le> unat n" "k \<le> unat latest"
  shows "\<exists>a. ancestor_search env db (rev (map of_nat [1..<Suc k])) = Inr a \<and> common_ancestor B B' (of_nat k) a"
  using k
proof (induction k)
  case 0
  then show ?case by (simp add: common_ancestor_def)
next
  case (Suc k)
  let ?h = "of_nat (Suc k) :: u32"
  have less: "Suc k < 2 ^ 32" using Suc.prems(1) unat_less_2p [of n] by simp
  then have u: "unat ?h = Suc k" "unat (of_nat k :: u32) = k" by (simp_all add: unat_of_nat del: of_nat_Suc)
  have h: "0 < ?h" "?h \<le> n" "?h \<le> latest" using Suc.prems u(1) by (simp_all add: word_less_nat_alt word_le_nat_alt)
  have m: "commit_matches msg env db ?h = Inr (B ?h = B' ?h)" for msg by (rule commit_matches_ledger [OF l a _ h(2,1,3)]) simp
  obtain a' where a': "ancestor_search env db (rev (map of_nat [1..<Suc k])) = Inr a'" "common_ancestor B B' (of_nat k) a'"
    using Suc by auto
  have up: "g \<le> ?h \<longleftrightarrow> g \<le> of_nat k \<or> g = ?h" for g :: u32
    using u by (auto simp: word_le_nat_alt word_unat_eq_iff simp del: of_nat_Suc)
  show ?case
  proof (cases "B ?h = B' ?h")
    case True
    then have "common_ancestor B B' ?h ?h" by (auto simp: common_ancestor_def)
    then show ?thesis using m True by (auto simp del: of_nat_Suc)
  next
    case False
    then have "common_ancestor B B' ?h a'" using a'(2) unfolding common_ancestor_def up by auto
    then show ?thesis using m False a'(1) by (auto simp del: of_nat_Suc)
  qed
qed

lemma find_ancestor:
  assumes l: "ledger B H 0 n db" and a: "answers_hashes env B' latest"
  shows "n = 0 \<or> n \<le> latest \<and> B n = B' n \<Longrightarrow> find_reorg_common_ancestor_height env db n latest = Inr None"
    "\<not> (n = 0 \<or> n \<le> latest \<and> B n = B' n) \<Longrightarrow>
      \<exists>a. find_reorg_common_ancestor_height env db n latest = Inr (Some a) \<and> common_ancestor B B' (min n latest) a \<and> a < n"
proof -
  have tip: "commit_matches msg env db n = Inr (B n = B' n)" if "n \<noteq> 0" "n \<le> latest" for msg
    using commit_matches_ledger [OF l a _ order_refl _ that(2)] that(1) by (simp add: word_neq_0_conv)
  show "n = 0 \<or> n \<le> latest \<and> B n = B' n \<Longrightarrow> find_reorg_common_ancestor_height env db n latest = Inr None"
    using tip by (auto simp: find_reorg_common_ancestor_height_def)
  assume c: "\<not> (n = 0 \<or> n \<le> latest \<and> B n = B' n)"
  have "unat (min n latest) \<le> unat n" "unat (min n latest) \<le> unat latest" by (simp_all add: word_le_nat_alt [symmetric])
  then obtain a where s: "ancestor_search env db (rev (map of_nat [1..<Suc (unat (min n latest))])) = Inr a" "common_ancestor B B' (min n latest) a"
    using ancestor_search_exact [OF l a, of "unat (min n latest)"] by (auto simp del: upt_Suc)
  then have "find_reorg_common_ancestor_height env db n latest = Inr (Some a)"
    using c tip by (auto simp: find_reorg_common_ancestor_height_def simp del: upt_Suc)
  moreover have "a < n"
  proof (cases "n \<le> latest")
    case True
    then have "a \<noteq> n" using s(2) c by (auto simp: common_ancestor_def word_neq_0_conv)
    then show ?thesis using s(2) True by (simp add: common_ancestor_def less_le)
  next
    case False
    then show ?thesis using s(2) by (auto simp: common_ancestor_def)
  qed
  ultimately show "\<exists>a. find_reorg_common_ancestor_height env db n latest = Inr (Some a) \<and> common_ancestor B B' (min n latest) a \<and> a < n"
    using s(2) by blast
qed

section \<open>Batches\<close>

lemma synced_agree:
  assumes s: "synced B H lo n s" and agree: "\<And>h. lo \<le> h \<Longrightarrow> h \<le> n \<Longrightarrow> H' h = H h \<and> (0 < h \<longrightarrow> B' h = B h)"
  shows "synced B' H' lo n s"
proof -
  have l: "ledger B H lo n (st_db s)" using s by (simp add: synced_def)
  note d = ledgerD [OF l]
  have n: "H' n = H n" using agree [OF d(3) order_refl] by blast
  have "undo_ok H' h (st_db s)" if "lo < h" "h \<le> n" for h
  proof -
    have "0 < h" using that(1) by (rule order_le_less_trans [OF word_zero_le])
    then have "lo \<le> h - 1" "h - 1 \<le> n" using that word_pred [of h] by (auto intro: order_trans less_imp_le)
    then show ?thesis using d(7) [OF that] agree [of "h - 1"] agree [of h] that unfolding undo_ok_def by simp
  qed
  moreover have "balances_ok H' t (st_db s)" if "lo \<le> t" "t \<le> n" for t using d(6) [OF that] agree [OF that] by (simp add: balances_ok_def)
  moreover have "stored_hash h (st_db s) = Some (B' h)" if "lo \<le> h" "h \<le> n" "0 < h" for h using d(8) [OF that] agree that by simp
  moreover have "deltas_ok H' h (st_db s)" if "lo < h" "h \<le> n" for h
  proof -
    have "0 < h" using that(1) by (rule order_le_less_trans [OF word_zero_le])
    then have "lo \<le> h - 1" "h - 1 \<le> n" using that word_pred [of h] by (auto intro: order_trans less_imp_le)
    then show ?thesis using d(9) [OF that] agree [of "h - 1"] agree [of h] that unfolding deltas_ok_def by simp
  qed
  ultimately have "ledger B' H' lo n (st_db s)" using d(1-5) n unfolding ledger_def by (simp add: n)
  then show ?thesis using s n by (simp add: synced_def)
qed

text \<open>The service between two iterations.\<close>

definition resting :: "(u32 \<Rightarrow> BlockHash) \<Rightarrow> (u32 \<Rightarrow> utxo_set) \<Rightarrow> u32 \<Rightarrow> BalanceHistoryIndexer \<Rightarrow> bool" where
  "resting B H n s \<longleftrightarrow> synced B H 0 n (bi_state s) \<and> is_rollback_in_progress (st_db (bi_state s)) = Inr False \<and> \<not> bi_rollback_in_progress s"

lemma same_markers_progress: "same_markers db db' \<Longrightarrow> is_rollback_in_progress db' = is_rollback_in_progress db"
  by (simp add: same_markers_def is_rollback_in_progress_def)

lemma on_db_of_apply:
  "on_db_of m s = (case m (st_db (bi_state s)) of (r, db) \<Rightarrow> (r, s\<lparr>bi_state := (bi_state s)\<lparr>st_db := db\<rparr>\<rparr>))"
  by (simp add: on_db_of_def zoom_def)

lemma prune_resting:
  assumes r: "resting B H n s" and t: "\<And>h. \<exists>x. ii_tip_after inp h = Inr x"
  shows "\<exists>s'. prune_undo_journal_if_needed inp config a n s = (Inr (), s') \<and> resting B H n s'"
proof -
  let ?min = "sat_sub n (sat_sub (sc_undo_retention_blocks config) 1)"
  have sy: "synced B H 0 n (bi_state s)" using r by (simp add: resting_def)
  then have l: "ledger B H 0 n (st_db (bi_state s))" by (simp add: synced_def)
  obtain k db' where p: "prune_undo_before_height ?min (st_db (bi_state s)) = (Inr k, db')" "ledger B H 0 n db'"
    "same_markers (st_db (bi_state s)) db'" by (rule prune_keeps_ledger [OF l]) (rule that)
  let ?s = "s\<lparr>bi_state := (bi_state s)\<lparr>st_db := db'\<rparr>\<rparr>"
  have run: "on_db_of (prune_undo_before_height ?min) s = (Inr k, ?s)" using p(1) by (simp add: on_db_of_apply)
  have "resting B H n ?s" using r p(2) same_markers_progress [OF p(3)] by (simp add: resting_def synced_def)
  moreover obtain x where "ii_tip_after inp n = Inr x" using t by blast
  ultimately show ?thesis using r run by (auto simp: prune_undo_journal_if_needed_def Let_def get_latest_block_height_def)
qed

lemma batch_resting:
  assumes r: "resting B H n s" and ev: "evicts (ii_env inp)" and v: "valid_next_blocks (ii_env inp) B H n b" and t: "\<And>h. \<exists>x. ii_tip_after inp h = Inr x"
  shows "\<exists>s'. process_block_batch inp config (n + 1, b) latest s = (Inr (b - 1), s') \<and> resting B H (b - 1) s' \<and> bi_current s' = ucast (b - 1)"
proof -
  have sy: "synced B H 0 n (bi_state s)" using r by (simp add: resting_def)
  obtain c where c: "process_blocks (ii_env inp) (n + 1, b) latest (sc_undo_retention_blocks config) (bi_state s) = (Inr (), c)"
    "synced B H 0 (b - 1) c" "same_markers (st_db (bi_state s)) (st_db c)"
    using process_valid_blocks [OF sy ev v] unfolding advanced_def by blast
  let ?s = "s\<lparr>bi_state := c\<rparr>"
  have "resting B H (b - 1) ?s" using r c(2) same_markers_progress [OF c(3)] by (simp add: resting_def)
  then obtain s' where s': "prune_undo_journal_if_needed inp config (n + 1) (b - 1) ?s = (Inr (), s')" "resting B H (b - 1) s'"
    using prune_resting t by blast
  have "zoom bi_state (\<lambda>b s. s\<lparr>bi_state := b\<rparr>) (process_blocks (ii_env inp) (n + 1, b) latest (sc_undo_retention_blocks config)) s = (Inr (), ?s)"
    using c(1) by (simp add: zoom_def)
  moreover have "n + 1 < b" using v by (simp add: valid_next_blocks_def)
  ultimately have "process_block_batch inp config (n + 1, b) latest s = (Inr (b - 1), update_current_height (ucast (b - 1)) s')"
    using s'(1) by (simp add: process_block_batch_def)
  then show ?thesis using s'(2) by (simp add: resting_def update_current_height_def)
qed

text \<open>A chain the node serves: every run of blocks above a height up to the tip is valid.\<close>

definition serves_chain :: "block_env \<Rightarrow> (u32 \<Rightarrow> BlockHash) \<Rightarrow> (u32 \<Rightarrow> utxo_set) \<Rightarrow> u32 \<Rightarrow> bool" where
  "serves_chain env B H latest \<longleftrightarrow> answers_hashes env B latest \<and>
     (\<forall>m b. m < m + 1 \<and> m + 1 < b \<and> b \<le> latest + 1 \<longrightarrow> valid_next_blocks env B H m b)"

text \<open>The end of a batch.\<close>

lemma batch_end:
  fixes current latest size :: u32
  assumes "current \<le> latest" and "0 < size" and "unat latest + unat size < 2 ^ 32"
  defines "e \<equiv> min (current + size - 1) latest"
  shows "current \<le> e" "e \<le> latest" "e < e + 1" "e + 1 \<le> latest + 1"
proof -
  have c: "unat current \<le> unat latest" "0 < unat size" using assms(1,2) by (simp_all add: word_le_nat_alt word_less_nat_alt)
  have "unat (current + size) = unat current + unat size" using c assms(3) by (intro unat_add_lem [THEN iffD1]) simp
  moreover have "current + size \<noteq> 0" using calculation c(2) by (metis add_is_0 less_numeral_extra(3) unat_0)
  ultimately have s: "unat (current + size - 1) = unat current + unat size - 1" by (simp add: unat_minus_one)
  show le: "current \<le> e" "e \<le> latest" unfolding e_def using c s by (auto simp: word_le_nat_alt min_def)
  have suc: "unat (x + 1) = unat x + 1" if "unat x \<le> unat latest" for x :: u32
    using that c(2) assms(3) unat_add_lem [of x 1] by simp
  have u: "unat e \<le> unat latest" using le(2) by (simp add: word_le_nat_alt)
  show "e < e + 1" "e + 1 \<le> latest + 1" using suc [OF u] suc [OF order_refl] u by (simp_all add: word_less_nat_alt word_le_nat_alt)
qed

lemma batches_resting:
  assumes ev: "evicts (ii_env inp)" and v: "serves_chain (ii_env inp) B H latest" and t: "\<And>h. \<exists>x. ii_tip_after inp h = Inr x"
    and down: "\<And>h. \<not> ii_shutdown_after inp h" and size: "0 < (ucast (sc_batch_size config) :: u32)"
    and fit: "unat latest + unat (ucast (sc_batch_size config) :: u32) < 2 ^ 32"
  shows "resting B H m s \<Longrightarrow> m < m + 1 \<Longrightarrow> current = m + 1 \<Longrightarrow> m \<le> latest \<Longrightarrow> bi_current s = ucast m \<Longrightarrow>
    \<exists>s'. sync_batches inp config latest current s = (Inr (latest + 1), s') \<and> resting B H latest s' \<and> bi_current s' = ucast latest"
proof (induction "2 ^ 32 - unat current" arbitrary: m current s rule: less_induct)
  case less
  show ?case
  proof (cases "current \<le> latest")
    case False
    have "m = latest"
    proof (rule ccontr)
      assume "m \<noteq> latest"
      then have "m < latest" using less.prems(4) by simp
      then show False using False less.prems(3) inc_le by blast
    qed
    then have c: "current = latest + 1" using less.prems(3) by simp
    have "sync_batches inp config latest current s = (Inr current, s)" using False by (subst sync_batches.simps) (simp only: if_True not_False_eq_True)
    then have "sync_batches inp config latest current s = (Inr (latest + 1), s)" unfolding c .
    moreover have "resting B H latest s" "bi_current s = ucast latest" using less.prems(1,5) \<open>m = latest\<close> by simp_all
    ultimately show ?thesis by (intro exI [of _ s] conjI)
  next
    case True
    let ?e = "min (current + ucast (sc_batch_size config) - 1) latest"
    note e = batch_end [OF True size fit]
    have "m + 1 < ?e + 1" using order_le_less_trans [OF e(1) e(3)] unfolding less.prems(3) .
    then have v': "valid_next_blocks (ii_env inp) B H m (?e + 1)" using v less.prems(2) e(4) unfolding serves_chain_def by blast
    obtain s1 where s1: "process_block_batch inp config (m + 1, ?e + 1) latest s = (Inr (?e + 1 - 1), s1)" "resting B H (?e + 1 - 1) s1"
      "bi_current s1 = ucast (?e + 1 - 1)" using batch_resting [OF less.prems(1) ev v' t] by blast
    have eq: "?e + 1 - 1 = ?e" by simp
    have "2 ^ 32 - unat (?e + 1) < 2 ^ 32 - unat current"
      using batch_progress [of inp config current ?e latest s "?e + 1 - 1" s1] s1(1) less.prems(3) by simp
    then obtain s' where s': "sync_batches inp config latest (?e + 1) s1 = (Inr (latest + 1), s')" "resting B H latest s'" "bi_current s' = ucast latest"
      using less.hyps [of "?e + 1" ?e s1] s1(2,3) e(2,3) unfolding eq by blast
    have "sync_batches inp config latest current s = sync_batches inp config latest (?e + 1) s1"
      using True s1(1) less.prems(3) down by (subst sync_batches.simps) (simp add: Let_def)
    then show ?thesis using s' by simp
  qed
qed

section \<open>One iteration\<close>

text \<open>
  Two chains with the same block at a height have the same blocks, and so the same outputs, at every height below: the hash
  of a block determines its ancestors.
\<close>

definition hash_linked :: "(u32 \<Rightarrow> BlockHash) \<Rightarrow> (u32 \<Rightarrow> utxo_set) \<Rightarrow> (u32 \<Rightarrow> BlockHash) \<Rightarrow> (u32 \<Rightarrow> utxo_set) \<Rightarrow> bool" where
  "hash_linked B H B' H' \<longleftrightarrow> H' 0 = H 0 \<and> (\<forall>h k. 0 < h \<and> B h = B' h \<and> k \<le> h \<longrightarrow> H' k = H k \<and> (0 < k \<longrightarrow> B' k = B k))"

lemma linked_synced:
  assumes "hash_linked B H B' H'" and "synced B H 0 a s" and "0 < a \<longrightarrow> B a = B' a"
  shows "synced B' H' 0 a s"
proof (rule synced_agree [OF assms(2)])
  fix h assume h: "h \<le> a"
  show "H' h = H h \<and> (0 < h \<longrightarrow> B' h = B h)"
  proof (cases "a = 0")
    case True
    then have "h = 0" using h by simp
    then show ?thesis using assms(1) by (simp add: hash_linked_def)
  next
    case False
    then have "0 < a" by (simp add: word_neq_0_conv)
    then show ?thesis using assms(1,3) h unfolding hash_linked_def by blast
  qed
qed

lemma resume_resting: "resting B H n s \<Longrightarrow> resume_pending_rollback_if_needed s = (Inr False, s)"
proof -
  assume r: "resting B H n s"
  then obtain x where x: "get_u32_meta META_KEY_ROLLBACK_IN_PROGRESS (st_db (bi_state s)) = Inr x" "x \<noteq> Some 1" "\<not> bi_rollback_in_progress s"
    by (auto simp: resting_def is_rollback_in_progress_def split: sum.splits)
  have "on_db_of (getsR is_rollback_in_progress) s = (Inr False, s)" "on_db_of resume_rollback_if_needed s = (Inr False, s)"
    using x(1,2) by (simp_all add: on_db_of_apply is_rollback_in_progress_def resume_rollback_if_needed_def)
  then show ?thesis using x(3) by (simp add: resume_pending_rollback_if_needed_def set_rollback_in_progress_def)
qed

lemma reconcile_resting:
  assumes r: "resting B H n s" and a: "answers_hashes env B' latest" and link: "hash_linked B H B' H'"
    and undo: "\<And>a. common_ancestor B B' (min n latest) a \<Longrightarrow> a < n \<Longrightarrow> undo_available a n (st_db (bi_state s))"
  shows "\<exists>m s'. reconcile_reorg_if_needed env n latest s = (Inr m, s') \<and> resting B' H' m s' \<and> m \<le> latest \<and> (0 < m \<longrightarrow> B m = B' m)"
proof (cases "n = 0 \<or> n \<le> latest \<and> B n = B' n")
  case True
  have sy: "synced B H 0 n (bi_state s)" using r by (simp add: resting_def)
  then have l: "ledger B H 0 n (st_db (bi_state s))" by (simp add: synced_def)
  have "reconcile_reorg_if_needed env n latest s = (Inr n, s)"
    using find_ancestor(1) [OF l a True] by (simp add: reconcile_reorg_if_needed_def on_db_of_apply)
  moreover have "resting B' H' n s" using r linked_synced [OF link sy] True by (auto simp: resting_def)
  ultimately show ?thesis using True by auto
next
  case False
  have l: "ledger B H 0 n (st_db (bi_state s))" using r by (simp add: resting_def synced_def)
  obtain c where c: "find_reorg_common_ancestor_height env (st_db (bi_state s)) n latest = Inr (Some c)" "common_ancestor B B' (min n latest) c" "c < n"
    using find_ancestor(2) [OF l a False] by blast
  have "ensure_rollback_undo_available c n (st_db (bi_state s)) = Inr ()" using ensure_available [OF ledgerD(1) [OF l] c(3)] undo [OF c(2,3)] by blast
  from rollback_ledger [OF l _ c(3) this] obtain db' where db': "rollback_to_block_height c (st_db (bi_state s)) = (Inr (), db')"
    "ledger B H 0 c db'" "is_rollback_in_progress db' = Inr False" by auto
  let ?s = "s\<lparr>bi_state := \<lparr>st_db = db', st_utxo_cache = Map.empty, st_balance_cache = Map.empty\<rparr>, bi_rollback_in_progress := False\<rparr>"
  have "synced B H 0 c (bi_state ?s)" using db'(2) by (simp add: synced_def)
  then have "synced B' H' 0 c (bi_state ?s)" using linked_synced [OF link] c(2) unfolding common_ancestor_def by blast
  then have "resting B' H' c ?s" using db'(3) by (simp add: resting_def)
  moreover have "reconcile_reorg_if_needed env n latest s = (Inr c, ?s)"
    using c(1) db'(1) by (simp add: reconcile_reorg_if_needed_def on_db_of_apply set_rollback_in_progress_def clear_caches_def)
  ultimately show ?thesis using c(2) by (auto simp: common_ancestor_def)
qed

lemma sync_once_resting:
  assumes r: "resting B H n s" and ev: "evicts (ii_env inp)" and tip: "get_latest_block_height config (ii_tip inp) = Inr latest"
    and v: "serves_chain (ii_env inp) B' H' latest" and link: "hash_linked B H B' H'"
    and undo: "\<And>a. common_ancestor B B' (min n latest) a \<Longrightarrow> a < n \<Longrightarrow> undo_available a n (st_db (bi_state s))"
    and t: "\<And>h. \<exists>x. ii_tip_after inp h = Inr x" and down: "\<And>h. \<not> ii_shutdown_after inp h"
    and size: "0 < (ucast (sc_batch_size config) :: u32)" and fit: "unat latest + unat (ucast (sc_batch_size config) :: u32) < 2 ^ 32"
  shows "\<exists>s'. sync_once inp config s = (Inr latest, s') \<and> resting B' H' latest s' \<and> bi_current s' = ucast latest"
proof -
  let ?out = "\<lambda>m s. if \<not> bi_index_started s then start_index (ucast latest) (ucast m) s
         else update_current_height (ucast m) (update_total_block_height (ucast latest) s)"
  have h: "get_btc_block_height (st_db (bi_state s)) = Inr n" using r ledgerD(2) by (auto simp: resting_def synced_def)
  have a: "answers_hashes (ii_env inp) B' latest" using v by (simp add: serves_chain_def)
  obtain m s1 where m: "reconcile_reorg_if_needed (ii_env inp) n latest s = (Inr m, s1)" "resting B' H' m s1" "m \<le> latest"
    using reconcile_resting [OF r a link undo] by blast
  have s2: "resting B' H' m (?out m s1)" "bi_current (?out m s1) = ucast m"
    using m(2) by (simp_all add: resting_def start_index_def update_current_height_def update_total_block_height_def)
  have start: "sync_once inp config s = (if latest \<le> m then (Inr m, ?out m s1)
      else bindR (sync_batches inp config latest (m + 1)) (\<lambda>current_height. ret (current_height - 1)) (?out m s1))"
  proof -
    let ?get = "getsR (\<lambda>_. get_latest_block_height config (ii_tip inp))" and ?rec = "reconcile_reorg_if_needed (ii_env inp) n latest"
    have p: "?get s = (Inr latest, s)" "on_db_of (getsR get_btc_block_height) s = (Inr n, s)" using tip h by (simp_all add: on_db_of_apply)
    note steps = bindR_ok [of resume_pending_rollback_if_needed s False s, OF resume_resting [OF r]] bindR_ok [of ?get s latest s, OF p(1)]
      bindR_ok [of "on_db_of (getsR get_btc_block_height)" s n s, OF p(2)] bindR_ok [of ?rec s m s1, OF m(1)]
    show ?thesis unfolding sync_once_def steps by simp
  qed
  show ?thesis
  proof (cases "latest \<le> m")
    case True
    then have "m = latest" using m(3) by simp
    then show ?thesis using start s2 by simp
  next
    case False
    then have "unat m < unat latest" by (simp add: word_le_nat_alt)
    then have "unat (m + 1) = unat m + 1" using unat_less_2p [of latest] unat_add_lem [of m 1] by simp
    then have lt: "m < m + 1" by (simp add: word_less_nat_alt)
    obtain s' where "sync_batches inp config latest (m + 1) (?out m s1) = (Inr (latest + 1), s')" "resting B' H' latest s'" "bi_current s' = ucast latest"
      using batches_resting [OF ev v t down size fit s2(1) lt refl m(3) s2(2)] by blast
    then show ?thesis using start False by simp
  qed
qed

section \<open>Properties\<close>

text \<open>C15: the search for the common ancestor is exact.  For a ledger with the block hashes \<open>B\<close> and a node that answers with the hashes
  \<open>B'\<close>, no reorganisation is reported exactly when nothing is synchronised or the newest local block is a block of the node's
  chain; otherwise the height returned is the greatest height, below the local one and not above the node's tip, at which both chains have the same
  block, and 0 when there is none.  The search never fails.\<close>

theorem reorg_ancestor_exact:
  assumes "ledger B H 0 n db" and "answers_hashes env B' latest"
  shows "if n = 0 \<or> n \<le> latest \<and> B n = B' n then find_reorg_common_ancestor_height env db n latest = Inr None
    else \<exists>a. find_reorg_common_ancestor_height env db n latest = Inr (Some a) \<and> a < n \<and> a \<le> latest \<and> (0 < a \<longrightarrow> B a = B' a) \<and>
      (\<forall>h. a < h \<and> h \<le> n \<and> h \<le> latest \<longrightarrow> B h \<noteq> B' h)"
proof (cases "n = 0 \<or> n \<le> latest \<and> B n = B' n")
  case False
  then obtain a where "find_reorg_common_ancestor_height env db n latest = Inr (Some a)" "common_ancestor B B' (min n latest) a" "a < n"
    using find_ancestor(2) [OF assms] by blast
  then show ?thesis using False by (auto simp: common_ancestor_def)
qed (use find_ancestor(1) [OF assms] in simp)

theorem reorg_ancestor_exact_witness:
  "find_reorg_common_ancestor_height (sample_node 5 17) (st_db sample_synced) 1 1 = Inr None"
proof -
  have l: "ledger (sample_block_hash 5) (sample_outputs 17) 0 1 (st_db sample_synced)" using sample_idle by (simp add: idle_def)
  have "answers_hashes (sample_node 5 17) (sample_block_hash 5) 1" by (simp add: answers_hashes_def sample_node_def sample_block_hash_def)
  from reorg_ancestor_exact [OF l this] show ?thesis by simp
qed

text \<open>C4: one iteration follows the chain of the node.  The service rests on the ledger of a chain with block hashes \<open>B\<close> and outputs
  \<open>H\<close>; the node serves a chain \<open>B'\<close>, \<open>H'\<close> of valid blocks, which may have left the first one at any height that the undo journal
  covers.  Then the iteration succeeds: it rolls back what is no longer on the node's chain, processes the node's blocks in batches,
  prunes the journal and rests on the ledger of the node's chain at its stable tip, with no rollback in progress.  Every output and
  the balance of every address at every height is that of the node's chain.\<close>

theorem sync_once_follows_node:
  assumes "resting B H n s" and "evicts (ii_env inp)" and "get_latest_block_height config (ii_tip inp) = Inr latest"
    and "serves_chain (ii_env inp) B' H' latest" and "hash_linked B H B' H'"
    and "\<And>a. common_ancestor B B' (min n latest) a \<Longrightarrow> a < n \<Longrightarrow> undo_available a n (st_db (bi_state s))"
    and "\<And>h. \<exists>x. ii_tip_after inp h = Inr x" and "\<And>h. \<not> ii_shutdown_after inp h"
    and "0 < (ucast (sc_batch_size config) :: u32)" and "unat latest + unat (ucast (sc_batch_size config) :: u32) < 2 ^ 32"
  shows "\<exists>s'. sync_once inp config s = (Inr latest, s') \<and> resting B' H' latest s' \<and> bi_current s' = ucast latest \<and>
    (\<forall>p. get_utxo p (st_db (bi_state s')) = Inr (H' latest p)) \<and>
    (\<forall>sh t. t \<le> latest \<longrightarrow> (\<exists>e. get_balance_at_block_height sh t (st_db (bi_state s')) = Inr e \<and> hd_balance e = wsum (H' t) sh))"
proof -
  obtain s' where s': "sync_once inp config s = (Inr latest, s')" "resting B' H' latest s'" "bi_current s' = ucast latest"
    using sync_once_resting [OF assms] by blast
  then have "synced B' H' 0 latest (bi_state s')" by (simp add: resting_def)
  from synced_queries [OF this] show ?thesis using s' by (intro exI [of _ s'] conjI allI impI) simp_all
qed

definition sample_config :: IndexConfig where
  "sample_config = \<lparr>sc_batch_size = 4, sc_max_sync_block_height = 100, sc_undo_retention_blocks = 10, sc_undo_cleanup_interval_blocks = 5\<rparr>"

definition sample_inputs :: indexer_inputs where
  "sample_inputs = \<lparr>ii_env = sample_node 6 18, ii_tip = Inr 1, ii_tip_after = (\<lambda>h. Inr 1), ii_shutdown_after = (\<lambda>h. False)\<rparr>"

definition sample_indexer :: BalanceHistoryIndexer where
  "sample_indexer = \<lparr>bi_state = sample_synced, bi_rollback_in_progress = False, bi_index_started = True, bi_current = 1, bi_total = 1\<rparr>"

lemma sample_resting: "resting (sample_block_hash 5) (sample_outputs 17) 1 sample_indexer"
  using sample_synced_ok(1) sample_idle by (simp add: resting_def sample_indexer_def idle_def is_rollback_in_progress_def)

lemma sample_node_serves: "serves_chain (sample_node b t) (sample_block_hash b) (sample_outputs t) 1"
  unfolding serves_chain_def
proof (intro conjI allI impI)
  show "answers_hashes (sample_node b t) (sample_block_hash b) 1" by (simp add: answers_hashes_def sample_node_def sample_block_hash_def)
  fix m c :: u32 assume a: "m < m + 1 \<and> m + 1 < c \<and> c \<le> 1 + 1"
  then have "unat m < unat (m + 1)" "unat (m + 1) < unat c" "unat c \<le> 2" by (simp_all add: word_less_nat_alt word_le_nat_alt)
  then have "unat m = 0" "unat c = 2" by linarith+
  then have "m = 0" "unat c = unat (2 :: u32)" by (simp_all add: unat_eq_zero)
  then have "m = 0" "c = 2" by (simp_all only: word_unat_eq_iff)
  then show "valid_next_blocks (sample_node b t) (sample_block_hash b) (sample_outputs t) m c" using sample_valid by simp
qed

theorem sync_once_follows_node_witness:
  "\<exists>s'. sync_once sample_inputs sample_config sample_indexer = (Inr 1, s') \<and>
     get_utxo \<lparr>op_txid = 17, op_vout = 0\<rparr> (st_db (bi_state s')) = Inr None \<and>
     get_utxo \<lparr>op_txid = 18, op_vout = 0\<rparr> (st_db (bi_state s')) = Inr (Some \<lparr>uv_script_hash = 7, uv_value = 50\<rparr>)"
proof -
  have tip: "get_latest_block_height sample_config (ii_tip sample_inputs) = Inr 1"
    by (simp add: get_latest_block_height_def compute_stable_sync_target_height_def sample_config_def sample_inputs_def BALANCE_HISTORY_STABLE_LAG_def
        sat_sub_def min_def word_le_nat_alt)
  have link: "hash_linked (sample_block_hash 5) (sample_outputs 17) (sample_block_hash 6) (sample_outputs 18)"
    by (simp add: hash_linked_def sample_block_hash_def sample_outputs_def)
  have undo: "undo_available a 1 (st_db (bi_state sample_indexer))" if "a < 1" for a :: u32
  proof -
    have "unat a = 0" using that by (simp add: word_less_nat_alt)
    then have "a = 0" by (simp add: unat_eq_zero)
    then show ?thesis using sample_synced_ok(2) by (simp add: sample_indexer_def)
  qed
  have serves: "serves_chain (ii_env sample_inputs) (sample_block_hash 6) (sample_outputs 18) 1" using sample_node_serves by (simp add: sample_inputs_def)
  have ev: "evicts (ii_env sample_inputs)" using sample_evicts by (simp add: sample_inputs_def)
  have "\<exists>s'. sync_once sample_inputs sample_config sample_indexer = (Inr 1, s') \<and>
    (\<forall>p. get_utxo p (st_db (bi_state s')) = Inr (sample_outputs 18 1 p))"
    using sync_once_follows_node [OF sample_resting ev tip serves link] undo by (auto simp: sample_inputs_def sample_config_def)
  then show ?thesis by (auto simp: sample_outputs_def)
qed

end
