(* ===== verification/Balance_Queries.thy ===== *)
theory Balance_Queries
  imports Balance_Service Balance_Chain
begin

text \<open>
  The answers of the balance-history service on a ledger: the rows of a range add up to the change of the unspent outputs,
  and the summary, the time series and the flow buckets are those of the chain.
\<close>

section \<open>Rows of an address\<close>

text \<open>The records of an address above height \<open>x\<close> and up to height \<open>y\<close>, in order.\<close>

definition rows_in :: "USDBScriptHash \<Rightarrow> u32 \<Rightarrow> u32 \<Rightarrow> BalanceHistoryDB \<Rightarrow> BalanceHistoryData list \<Rightarrow> bool" where
  "rows_in sh x y db rows \<longleftrightarrow> sorted_wrt (<) (map hd_block_height rows) \<and>
     (\<forall>r. r \<in> set rows \<longleftrightarrow> x < hd_block_height r \<and> hd_block_height r \<le> y \<and>
        balance_record sh (hd_block_height r) db = Some (hd_delta r, hd_balance r))"

lemma rows_in_Nil: "rows_in sh x y db [] \<Longrightarrow> x < k \<Longrightarrow> k \<le> y \<Longrightarrow> balance_record sh k db = None"
proof (rule ccontr)
  assume a: "rows_in sh x y db []" "x < k" "k \<le> y" "balance_record sh k db \<noteq> None"
  then obtain d b where "balance_record sh k db = Some (d, b)" by auto
  then show False using a(1-3) unfolding rows_in_def
    by (auto dest: spec [where x = "\<lparr>hd_block_height = k, hd_delta = d, hd_balance = b\<rparr>"])
qed

lemma rows_in_Cons:
  assumes "rows_in sh x y db (r # rows)"
  shows "x < hd_block_height r" "hd_block_height r \<le> y" "balance_record sh (hd_block_height r) db = Some (hd_delta r, hd_balance r)"
    "rows_in sh (hd_block_height r) y db rows" "\<And>k. x < k \<Longrightarrow> k < hd_block_height r \<Longrightarrow> balance_record sh k db = None"
proof -
  have m: "s \<in> set (r # rows) \<longleftrightarrow> x < hd_block_height s \<and> hd_block_height s \<le> y \<and>
      balance_record sh (hd_block_height s) db = Some (hd_delta s, hd_balance s)" for s using assms unfolding rows_in_def by blast
  have srt: "sorted_wrt (<) (map hd_block_height rows)" "\<And>s. s \<in> set rows \<Longrightarrow> hd_block_height r < hd_block_height s"
    using assms by (auto simp: rows_in_def)
  show 1: "x < hd_block_height r" "hd_block_height r \<le> y" "balance_record sh (hd_block_height r) db = Some (hd_delta r, hd_balance r)"
    using m [of r] by simp_all
  have "s = r" if "balance_record sh (hd_block_height s) db = Some (hd_delta s, hd_balance s)" "hd_block_height s = hd_block_height r" for s
    using that 1(3) by (cases s; cases r) simp
  then have "s \<in> set rows \<longleftrightarrow> hd_block_height r < hd_block_height s \<and> hd_block_height s \<le> y \<and>
      balance_record sh (hd_block_height s) db = Some (hd_delta s, hd_balance s)" for s
    using m [of s] srt(2) [of s] 1(1) by (auto dest: less_trans)
  then show "rows_in sh (hd_block_height r) y db rows" using srt(1) by (simp add: rows_in_def)
  show "balance_record sh k db = None" if "x < k" "k < hd_block_height r" for k
  proof (rule ccontr)
    assume "balance_record sh k db \<noteq> None"
    then obtain d b where "balance_record sh k db = Some (d, b)" by auto
    then have "\<lparr>hd_block_height = k, hd_delta = d, hd_balance = b\<rparr> \<in> set (r # rows)"
      unfolding m using that less_le_trans [OF that(2) 1(2)] by simp
    then consider "k = hd_block_height r" | "hd_block_height r < k" using srt(2) by fastforce
    then show False using that(2) by cases auto
  qed
qed

lemma range_rows_in:
  assumes "db_typed db" and "0 < a" and "a < b"
  obtains rows where "get_balance_in_range sh a b db = Inr rows" and "rows_in sh (a - 1) (b - 1) db rows"
proof -
  from range_exact [OF assms(1,3)] obtain rows where r: "get_balance_in_range sh a b db = Inr rows"
    "sorted_wrt (<) (map hd_block_height rows)" "\<And>x. x \<in> set rows \<longleftrightarrow> a \<le> hd_block_height x \<and> hd_block_height x < b \<and>
       balance_record sh (hd_block_height x) db = Some (hd_delta x, hd_balance x)" by blast
  have "0 < b" using assms(3) by (rule order_le_less_trans [OF word_zero_le])
  then have "a - 1 < k \<longleftrightarrow> a \<le> k" "k \<le> b - 1 \<longleftrightarrow> k < b" for k
    unfolding not_le [of k "a - 1", symmetric] word_pred(1) [OF assms(2)] not_less by (simp_all only: word_pred(1))
  then have "rows_in sh (a - 1) (b - 1) db rows" using r(2,3) by (simp add: rows_in_def)
  with r(1) show thesis by (rule that)
qed

section \<open>Balances along the chain\<close>

lemma ledger_balance:
  assumes "ledger B H lo n db" and "lo \<le> h" and "h \<le> n"
  obtains e where "get_balance_at_block_height sh h db = Inr e" and "last_balance sh h db e" and "hd_balance e = wsum (H h) sh"
proof -
  obtain e where e: "get_balance_at_block_height sh h db = Inr e" "last_balance sh h db e"
    using balance_at_height_last [OF ledgerD(1) [OF assms(1)]] by blast
  moreover have "hd_balance e = wsum (H h) sh" using ledgerD(6) [OF assms] e(2) by (simp add: balances_ok_def)
  ultimately show thesis by (rule that)
qed

lemma wsum_constant:
  assumes l: "ledger B H lo n db" and xy: "lo \<le> x" "x \<le> y" "y \<le> n" and no: "\<And>k. x < k \<Longrightarrow> k \<le> y \<Longrightarrow> balance_record sh k db = None"
  shows "wsum (H y) sh = wsum (H x) sh"
proof -
  obtain e where e: "last_balance sh y db e" "hd_balance e = wsum (H y) sh"
    using ledger_balance [OF l order_trans [OF xy(1,2)] xy(3), where sh = sh] by blast
  have "last_balance sh x db e" unfolding last_balance_def
  proof (rule disjE [OF e(1) [unfolded last_balance_def]])
    assume "e = no_balance \<and> (\<forall>h\<le>y. balance_record sh h db = None)"
    then have "e = no_balance \<and> (\<forall>h\<le>x. balance_record sh h db = None)" using xy(2) order_trans by blast
    then show "e = no_balance \<and> (\<forall>h\<le>x. balance_record sh h db = None) \<or> hd_block_height e \<le> x \<and>
      balance_record sh (hd_block_height e) db = Some (hd_delta e, hd_balance e) \<and>
      (\<forall>h. hd_block_height e < h \<and> h \<le> x \<longrightarrow> balance_record sh h db = None)" ..
  next
    assume a: "hd_block_height e \<le> y \<and> balance_record sh (hd_block_height e) db = Some (hd_delta e, hd_balance e) \<and>
      (\<forall>h. hd_block_height e < h \<and> h \<le> y \<longrightarrow> balance_record sh h db = None)"
    then have "hd_block_height e \<le> x" using no [of "hd_block_height e"] by (cases "x < hd_block_height e") auto
    then show "e = no_balance \<and> (\<forall>h\<le>x. balance_record sh h db = None) \<or> hd_block_height e \<le> x \<and>
      balance_record sh (hd_block_height e) db = Some (hd_delta e, hd_balance e) \<and>
      (\<forall>h. hd_block_height e < h \<and> h \<le> x \<longrightarrow> balance_record sh h db = None)" using a xy(2) order_trans by blast
  qed
  moreover have "balances_ok H x db" using xy by (intro ledgerD(6) [OF l]) auto
  ultimately show ?thesis using e(2) by (simp add: balances_ok_def)
qed

lemma row_facts:
  assumes l: "ledger B H lo n db" and xy: "lo \<le> x" "y \<le> n" and r: "rows_in sh x y db (r # rows)"
  shows "hd_balance r = wsum (H (hd_block_height r)) sh" "hd_delta r = wsum (H (hd_block_height r)) sh - wsum (H x) sh"
proof -
  let ?k = "hd_block_height r"
  note c = rows_in_Cons [OF r]
  have k: "lo < ?k" "?k \<le> n" "lo \<le> ?k" using xy c(1,2) by auto
  then have pos: "0 < ?k" using order_le_less_trans [OF word_zero_le] by blast
  have "last_balance sh ?k db r" using c(3) by (auto simp: last_balance_def)
  then show "hd_balance r = wsum (H ?k) sh" using ledgerD(6) [OF l k(3,2)] by (simp add: balances_ok_def)
  have "x \<le> ?k - 1" "?k - 1 \<le> n" using c(1) k(2) word_pred [OF pos] by (auto intro: order_trans less_imp_le)
  then have "wsum (H (?k - 1)) sh = wsum (H x) sh"
    using c(5) word_pred(1) [OF pos] by (intro wsum_constant [OF l xy(1)]) auto
  then show "hd_delta r = wsum (H ?k) sh - wsum (H x) sh" using ledgerD(9) [OF l k(1,2)] c(3) unfolding deltas_ok_def by metis
qed

lemma rows_walk:
  assumes l: "ledger B H lo n db" and "lo \<le> x" and "x \<le> y" and yn: "y \<le> n" and "rows_in sh x y db rows"
  shows "sum_list (map hd_delta rows) = wsum (H y) sh - wsum (H x) sh \<and>
    fold (\<lambda>r _. hd_balance r) rows (wsum (H x) sh) = wsum (H y) sh"
  using assms(2,3,5)
proof (induction rows arbitrary: x)
  case Nil
  then have "wsum (H y) sh = wsum (H x) sh" using rows_in_Nil by (intro wsum_constant [OF l _ _ yn]) auto
  then show ?case by simp
next
  case (Cons r rows)
  note c = rows_in_Cons [OF Cons.prems(3)] and f = row_facts [OF l Cons.prems(1) yn Cons.prems(3)]
  have "lo \<le> hd_block_height r" using c(1) Cons.prems(1) by auto
  from Cons.IH [OF this c(2,4)] show ?case using f by simp
qed

section \<open>Buckets\<close>

text \<open>The heights of a range with a record, and how the rows of a range split at the end of a bucket.\<close>

definition moved :: "USDBScriptHash \<Rightarrow> u32 \<Rightarrow> u32 \<Rightarrow> BalanceHistoryDB \<Rightarrow> u32 set" where
  "moved sh a b db = {h. a \<le> h \<and> h < b \<and> balance_record sh h db \<noteq> None}"

lemma word_pred_less: "0 < (a :: u32) \<Longrightarrow> a - 1 < k \<longleftrightarrow> a \<le> k"
  unfolding not_le [of k "a - 1", symmetric] by (simp only: word_pred(1) not_less)

lemma rows_in_moved:
  assumes r: "rows_in sh (a - 1) (b - 1) db rows" and ab: "0 < a" "0 < b"
  shows "hd_block_height ` set rows = moved sh a b db" "of_nat (length rows) = (of_nat (card (moved sh a b db)) :: u64)"
proof -
  have m: "x \<in> set rows \<longleftrightarrow> a \<le> hd_block_height x \<and> hd_block_height x < b \<and>
      balance_record sh (hd_block_height x) db = Some (hd_delta x, hd_balance x)" for x
    using r unfolding rows_in_def word_pred_less [OF ab(1)] word_pred(1) [OF ab(2)] by blast
  show 1: "hd_block_height ` set rows = moved sh a b db"
  proof (rule set_eqI)
    fix h
    show "h \<in> hd_block_height ` set rows \<longleftrightarrow> h \<in> moved sh a b db"
    proof
      assume "h \<in> moved sh a b db"
      then obtain d c where "balance_record sh h db = Some (d, c)" "a \<le> h" "h < b" by (auto simp: moved_def)
      then have "\<lparr>hd_block_height = h, hd_delta = d, hd_balance = c\<rparr> \<in> set rows" unfolding m by simp
      then show "h \<in> hd_block_height ` set rows" by force
    qed (auto simp: moved_def m)
  qed
  have "distinct (map hd_block_height rows)" using r by (simp add: rows_in_def strict_sorted_iff)
  from distinct_card [OF this] show "of_nat (length rows) = (of_nat (card (moved sh a b db)) :: u64)" by (simp add: 1)
qed

lemma rows_in_last:
  "sorted_wrt (<) (map hd_block_height rows) \<Longrightarrow>
   fold (\<lambda>r _. Some (hd_block_height r)) rows None =
     (if rows = [] then None else Some (Max (hd_block_height ` set rows)))"
proof (induction rows rule: rev_induct)
  case (snoc r rows)
  have "Max (hd_block_height ` set (rows @ [r])) = hd_block_height r"
    using snoc.prems by (intro Max_eqI) (auto simp: sorted_wrt_append intro: less_imp_le)
  then show ?case by simp
qed simp

lemma scan_bucket_eq:
  "scan_bucket f b rows st = (fold f (takeWhile (\<lambda>r. hd_block_height r < b) rows) st, dropWhile (\<lambda>r. hd_block_height r < b) rows)"
  by (induction rows arbitrary: st) simp_all

lemma takeWhile_below:
  assumes "sorted_wrt (<) (map hd_block_height rows)"
  shows "takeWhile (\<lambda>r. hd_block_height r < b) rows = filter (\<lambda>r. hd_block_height r < b) rows \<and>
    dropWhile (\<lambda>r. hd_block_height r < b) rows = filter (\<lambda>r. \<not> hd_block_height r < b) rows"
  using assms
proof (induction rows)
  case (Cons a rows)
  have "\<not> hd_block_height r < b" if "\<not> hd_block_height a < b" "r \<in> set rows" for r
    using that Cons.prems less_trans [of "hd_block_height a" "hd_block_height r" b] by auto
  then have "filter (\<lambda>r. hd_block_height r < b) rows = []" "filter (\<lambda>r. \<not> hd_block_height r < b) rows = rows"
    if "\<not> hd_block_height a < b" using that by (simp_all add: filter_empty_conv filter_id_conv)
  then show ?case using Cons by auto
qed simp

lemma rows_in_split:
  assumes r: "rows_in sh x (e - 1) db rows" and b: "0 < b" "x < b" "b \<le> e"
  shows "rows_in sh x (b - 1) db (takeWhile (\<lambda>r. hd_block_height r < b) rows)"
    "rows_in sh (b - 1) (e - 1) db (dropWhile (\<lambda>r. hd_block_height r < b) rows)"
proof -
  have e: "0 < e" using b(1,3) by auto
  have srt: "sorted_wrt (<) (map hd_block_height rows)" using r by (simp add: rows_in_def)
  have m: "s \<in> set rows \<longleftrightarrow> x < hd_block_height s \<and> hd_block_height s < e \<and>
      balance_record sh (hd_block_height s) db = Some (hd_delta s, hd_balance s)" for s
    using r unfolding rows_in_def word_pred(1) [OF e] by blast
  have f: "sorted_wrt (<) (map hd_block_height (filter P rows))" for P
    using srt by (simp add: sorted_wrt_map sorted_wrt_filter)
  have lt: "k < e" if "k < b" for k using that b(3) by (rule less_le_trans)
  show "rows_in sh x (b - 1) db (takeWhile (\<lambda>r. hd_block_height r < b) rows)"
    unfolding rows_in_def takeWhile_below [OF srt, THEN conjunct1] word_pred(1) [OF b(1)] using f lt by (auto simp: m)
  have gt: "x < k" if "b \<le> k" for k using b(2) that by (rule less_le_trans)
  show "rows_in sh (b - 1) (e - 1) db (dropWhile (\<lambda>r. hd_block_height r < b) rows)"
    unfolding rows_in_def takeWhile_below [OF srt, THEN conjunct2] word_pred(1) [OF e] word_pred_less [OF b(1)] using f gt by (auto simp: m not_less)
qed

text \<open>The buckets of a range: consecutive, of the requested size, the last one cut at the end of the range.\<close>

fun tiles :: "u32 \<Rightarrow> u32 \<Rightarrow> u32 \<Rightarrow> (u32 \<times> u32) list \<Rightarrow> bool" where
  "tiles k e s [] \<longleftrightarrow> s = e"
| "tiles k e s ((a, b) # bs) \<longleftrightarrow> a = s \<and> s < b \<and> unat b = min (unat s + unat k) (unat e) \<and> tiles k e b bs"

lemma unat_next_bucket_end: "unat (next_bucket_end s k e) = min (unat s + unat k) (unat e)"
proof -
  have "unat (min a b) = min (unat a) (unat b)" for a b :: u32 by (simp add: min_def word_le_nat_alt)
  then show ?thesis using unat_le_max [of e] by (simp add: next_bucket_end_def unat_sat_add)
qed

lemma point_fold:
  "fold point_step rows (c, d, m, q) = (fold (\<lambda>r _. hd_balance r) rows c, d + sum_list (map hd_delta rows),
     m + of_nat (length rows), fold (\<lambda>r _. Some (hd_block_height r)) rows q)"
  by (induction rows arbitrary: c d m q) (simp_all add: point_step_def add.assoc add.commute)

lemma inflow_outflow: "row_inflow r - row_outflow r = hd_delta r"
  by (simp add: row_inflow_def row_outflow_def)

lemma flow_fold:
  "fold flow_step rows (i, o', d, m) = (i + sum_list (map row_inflow rows), o' + sum_list (map row_outflow rows),
     d + sum_list (map hd_delta rows), m + of_nat (length rows))"
  by (induction rows arbitrary: i o' d m) (simp_all add: flow_step_def add.assoc add.commute)

lemma sum_flows: "sum_list (map row_inflow rows) - sum_list (map row_outflow rows) = sum_list (map hd_delta rows)"
  by (induction rows) (simp_all add: inflow_outflow [symmetric] algebra_simps)

text \<open>What a point and a flow bucket promise.\<close>

definition point_ok :: "(u32 \<Rightarrow> utxo_set) \<Rightarrow> BalanceHistoryDB \<Rightarrow> USDBScriptHash \<Rightarrow> AddressBalanceTimeseriesPoint \<Rightarrow> bool" where
  "point_ok H db sh p \<longleftrightarrow>
     tp_balance p = wsum (H (tp_bucket_end p - 1)) sh \<and>
     tp_net_delta p = wsum (H (tp_bucket_end p - 1)) sh - wsum (H (tp_bucket_start p - 1)) sh \<and>
     tp_change_count p = of_nat (card (moved sh (tp_bucket_start p) (tp_bucket_end p) db)) \<and>
     tp_latest_movement_height p =
       (if moved sh (tp_bucket_start p) (tp_bucket_end p) db = {} then None
        else Some (Max (moved sh (tp_bucket_start p) (tp_bucket_end p) db)))"

definition flow_ok :: "(u32 \<Rightarrow> utxo_set) \<Rightarrow> BalanceHistoryDB \<Rightarrow> USDBScriptHash \<Rightarrow> AddressFlowBucket \<Rightarrow> bool" where
  "flow_ok H db sh p \<longleftrightarrow>
     fb_net_delta p = wsum (H (fb_bucket_end p - 1)) sh - wsum (H (fb_bucket_start p - 1)) sh \<and>
     fb_inflow p - fb_outflow p = fb_net_delta p \<and>
     fb_change_count p = of_nat (card (moved sh (fb_bucket_start p) (fb_bucket_end p) db))"

text \<open>One turn of the outer loops.\<close>

lemma bucket_turn:
  assumes l: "ledger B H 0 n db" and s: "0 < s" "s < e" "e - 1 \<le> n" and k: "0 < (k :: u32)" and r: "rows_in sh (s - 1) (e - 1) db rows"
  defines "b \<equiv> next_bucket_end s k e"
  defines "now \<equiv> takeWhile (\<lambda>r. hd_block_height r < b) rows"
  shows "0 < b" "s < b" "b \<le> e" "rows_in sh (s - 1) (b - 1) db now" "rows_in sh (b - 1) (e - 1) db (dropWhile (\<lambda>r. hd_block_height r < b) rows)"
    "sum_list (map hd_delta now) = wsum (H (b - 1)) sh - wsum (H (s - 1)) sh"
    "fold (\<lambda>r _. hd_balance r) now (wsum (H (s - 1)) sh) = wsum (H (b - 1)) sh"
    "of_nat (length now) = (of_nat (card (moved sh s b db)) :: u64)"
    "fold (\<lambda>r _. Some (hd_block_height r)) now None = (if moved sh s b db = {} then None else Some (Max (moved sh s b db)))"
proof -
  show b: "s < b" "b \<le> e" unfolding b_def by (rule next_bucket_end_less [OF s(2) k], rule next_bucket_end_le)
  then show pb: "0 < b" using order_le_less_trans [OF word_zero_le] by blast
  have e: "0 < e" using s(1,2) by (rule less_trans)
  have x: "s - 1 < b" using b(1) word_pred(2) [OF s(1)] by (rule less_trans [rotated])
  show now: "rows_in sh (s - 1) (b - 1) db now" "rows_in sh (b - 1) (e - 1) db (dropWhile (\<lambda>r. hd_block_height r < b) rows)"
    unfolding now_def by (rule rows_in_split [OF r pb x b(2)])+
  have "s - 1 \<le> b - 1" using x unfolding word_pred(1) [OF pb] .
  moreover have "b - 1 \<le> e - 1" unfolding word_pred(1) [OF e] using word_pred(2) [OF pb] b(2) by (rule less_le_trans)
  then have "b - 1 \<le> n" using s(3) by (rule order_trans)
  ultimately have "sum_list (map hd_delta now) = wsum (H (b - 1)) sh - wsum (H (s - 1)) sh \<and>
      fold (\<lambda>r _. hd_balance r) now (wsum (H (s - 1)) sh) = wsum (H (b - 1)) sh"
    by (intro rows_walk [OF l _ _ _ now(1)]) simp_all
  then show "sum_list (map hd_delta now) = wsum (H (b - 1)) sh - wsum (H (s - 1)) sh"
    "fold (\<lambda>r _. hd_balance r) now (wsum (H (s - 1)) sh) = wsum (H (b - 1)) sh" by blast+
  note m = rows_in_moved [OF now(1) s(1) pb]
  show "of_nat (length now) = (of_nat (card (moved sh s b db)) :: u64)" by (rule m(2))
  have "sorted_wrt (<) (map hd_block_height now)" using now(1) by (simp add: rows_in_def)
  from rows_in_last [OF this] show "fold (\<lambda>r _. Some (hd_block_height r)) now None =
      (if moved sh s b db = {} then None else Some (Max (moved sh s b db)))" unfolding m(1) [symmetric] by simp
qed

lemma timeseries_exact:
  assumes l: "ledger B H 0 n db" and "0 < s" "s \<le> e" "e - 1 \<le> n" and k: "0 < (k :: u32)" and "rows_in sh (s - 1) (e - 1) db rows"
  shows "tiles k e s (map (\<lambda>p. (tp_bucket_start p, tp_bucket_end p)) (timeseries_loop k e s (wsum (H (s - 1)) sh) rows)) \<and>
    list_all (point_ok H db sh) (timeseries_loop k e s (wsum (H (s - 1)) sh) rows)"
  using assms(2-4,6)
proof (induction "unat e - unat s" arbitrary: s rows rule: less_induct)
  case less
  show ?case
  proof (cases "s < e")
    case False
    then show ?thesis using less.prems(2) by (subst timeseries_loop.simps, subst timeseries_loop.simps) simp
  next
    case True
    let ?b = "next_bucket_end s k e"
    let ?now = "takeWhile (\<lambda>r. hd_block_height r < ?b) rows" and ?rest = "dropWhile (\<lambda>r. hd_block_height r < ?b) rows"
    let ?c = "wsum (H (s - 1)) sh" and ?c' = "wsum (H (?b - 1)) sh"
    let ?p = "\<lparr>tp_bucket_start = s, tp_bucket_end = ?b, tp_balance = ?c', tp_net_delta = ?c' - ?c,
      tp_change_count = of_nat (card (moved sh s ?b db)),
      tp_latest_movement_height = (if moved sh s ?b db = {} then None else Some (Max (moved sh s ?b db)))\<rparr>"
    note t = bucket_turn [OF l less.prems(1) True less.prems(3) k less.prems(4)]
    have "unat e - unat ?b < unat e - unat s" using t(2,3) True by (simp add: word_less_nat_alt word_le_nat_alt)
    note ih = less.hyps [OF this t(1,3) less.prems(3) t(5)]
    have "timeseries_loop k e s ?c rows = ?p # timeseries_loop k e ?b ?c' ?rest"
      by (subst timeseries_loop.simps) (simp add: True k scan_bucket_eq point_fold t(6-9) Let_def)
    moreover have "point_ok H db sh ?p" by (simp add: point_ok_def)
    ultimately show ?thesis using ih t(2) by (simp add: unat_next_bucket_end)
  qed
qed

lemma flow_exact:
  assumes l: "ledger B H 0 n db" and "0 < s" "s \<le> e" "e - 1 \<le> n" and k: "0 < (k :: u32)" and "rows_in sh (s - 1) (e - 1) db rows"
  shows "tiles k e s (map (\<lambda>p. (fb_bucket_start p, fb_bucket_end p)) (flow_loop k e s rows)) \<and> list_all (flow_ok H db sh) (flow_loop k e s rows)"
  using assms(2-4,6)
proof (induction "unat e - unat s" arbitrary: s rows rule: less_induct)
  case less
  show ?case
  proof (cases "s < e")
    case False
    then show ?thesis using less.prems(2) by (subst flow_loop.simps, subst flow_loop.simps) simp
  next
    case True
    let ?b = "next_bucket_end s k e"
    let ?now = "takeWhile (\<lambda>r. hd_block_height r < ?b) rows" and ?rest = "dropWhile (\<lambda>r. hd_block_height r < ?b) rows"
    let ?p = "\<lparr>fb_bucket_start = s, fb_bucket_end = ?b, fb_inflow = sum_list (map row_inflow ?now), fb_outflow = sum_list (map row_outflow ?now),
      fb_net_delta = sum_list (map hd_delta ?now), fb_change_count = of_nat (length ?now)\<rparr>"
    note t = bucket_turn [OF l less.prems(1) True less.prems(3) k less.prems(4)]
    have "unat e - unat ?b < unat e - unat s" using t(2,3) True by (simp add: word_less_nat_alt word_le_nat_alt)
    note ih = less.hyps [OF this t(1,3) less.prems(3) t(5)]
    have "flow_loop k e s rows = ?p # flow_loop k e ?b ?rest"
      by (subst flow_loop.simps) (simp add: True k scan_bucket_eq flow_fold Let_def)
    moreover have "flow_ok H db sh ?p" using t(6,8) sum_flows [of ?now] by (simp add: flow_ok_def)
    ultimately show ?thesis using ih t(2) by (simp add: unat_next_bucket_end)
  qed
qed

section \<open>The summary\<close>

lemma summary_step_fields:
  "as_change_count (summary_step r s) = as_change_count s + 1" "as_net_delta (summary_step r s) = as_net_delta s + hd_delta r"
  "as_total_inflow (summary_step r s) = as_total_inflow s + row_inflow r" "as_total_outflow (summary_step r s) = as_total_outflow s + row_outflow r"
  "as_first_movement_height (summary_step r s) = Some (case as_first_movement_height s of Some h \<Rightarrow> h | None \<Rightarrow> hd_block_height r)"
  "as_latest_movement_height (summary_step r s) = Some (hd_block_height r)"
  "as_peak_balance (summary_step r s) = max (hd_balance r) (as_peak_balance s)"
  "as_low_balance (summary_step r s) = min (hd_balance r) (as_low_balance s)"
  "as_start_balance (summary_step r s) = as_start_balance s" "as_end_balance (summary_step r s) = as_end_balance s"
  "as_range_start (summary_step r s) = as_range_start s" "as_range_end (summary_step r s) = as_range_end s"
  by (auto simp: summary_step_def Let_def max_def min_def)

lemma summary_fold:
  "as_change_count (fold summary_step rows s) = as_change_count s + of_nat (length rows)"
  "as_net_delta (fold summary_step rows s) = as_net_delta s + sum_list (map hd_delta rows)"
  "as_total_inflow (fold summary_step rows s) = as_total_inflow s + sum_list (map row_inflow rows)"
  "as_total_outflow (fold summary_step rows s) = as_total_outflow s + sum_list (map row_outflow rows)"
  "as_latest_movement_height (fold summary_step rows s) = fold (\<lambda>r _. Some (hd_block_height r)) rows (as_latest_movement_height s)"
  "as_peak_balance (fold summary_step rows s) = fold max (map hd_balance rows) (as_peak_balance s)"
  "as_low_balance (fold summary_step rows s) = fold min (map hd_balance rows) (as_low_balance s)"
  "as_start_balance (fold summary_step rows s) = as_start_balance s" "as_end_balance (fold summary_step rows s) = as_end_balance s"
  "as_range_start (fold summary_step rows s) = as_range_start s" "as_range_end (fold summary_step rows s) = as_range_end s"
  by (induction rows arbitrary: s) (simp_all add: summary_step_fields add.assoc add.commute)

lemma summary_first:
  "as_first_movement_height (fold summary_step rows s) =
     (case as_first_movement_height s of Some h \<Rightarrow> Some h | None \<Rightarrow> if rows = [] then None else Some (hd_block_height (hd rows)))"
  by (induction rows arbitrary: s) (simp_all add: summary_step_fields split: option.split)

text \<open>The balances an address has had between two heights.\<close>

definition balances_between :: "(u32 \<Rightarrow> utxo_set) \<Rightarrow> USDBScriptHash \<Rightarrow> u32 \<Rightarrow> u32 \<Rightarrow> u64 set" where
  "balances_between H sh x y = (\<lambda>h. wsum (H h) sh) ` {x..y}"

lemma rows_balances:
  assumes l: "ledger B H lo n db" and "lo \<le> x" and "x \<le> y" and yn: "y \<le> n" and "rows_in sh x y db rows"
  shows "insert (wsum (H x) sh) (hd_balance ` set rows) = balances_between H sh x y"
  using assms(2,3,5)
proof (induction rows arbitrary: x)
  case Nil
  have "wsum (H h) sh = wsum (H x) sh" if "h \<in> {x..y}" for h
  proof (rule wsum_constant [OF l Nil(1)])
    show "x \<le> h" "h \<le> n" using that yn by (auto elim: order_trans)
    show "balance_record sh k db = None" if k: "x < k" "k \<le> h" for k
      using rows_in_Nil [OF Nil(3) k(1)] order_trans [OF k(2)] \<open>h \<in> {x..y}\<close> by simp
  qed
  then have "(\<lambda>h. wsum (H h) sh) ` {x..y} = (\<lambda>_. wsum (H x) sh) ` {x..y}" by (rule image_cong [OF refl])
  then show ?case using Nil(2) by (simp add: balances_between_def image_constant_conv)
next
  case (Cons r rows)
  let ?k = "hd_block_height r"
  note c = rows_in_Cons [OF Cons.prems(3)] and f = row_facts [OF l Cons.prems(1) yn Cons.prems(3)]
  have k: "lo \<le> ?k" "x \<le> ?k" "?k \<le> n"
    using order_trans [OF Cons.prems(1) less_imp_le [OF c(1)]] less_imp_le [OF c(1)] order_trans [OF c(2) yn] by simp_all
  have same: "wsum (H h) sh = wsum (H x) sh" if "x \<le> h" "h < ?k" for h
  proof (rule wsum_constant [OF l Cons.prems(1) that(1)])
    show "h \<le> n" using less_imp_le [OF that(2)] k(3) by (rule order_trans)
    show "balance_record sh i db = None" if "x < i" "i \<le> h" for i
      using that(1) le_less_trans [OF that(2) \<open>h < ?k\<close>] by (rule c(5))
  qed
  have "{x..y} = {x..<?k} \<union> {?k..y}" using k(2) c(2) by auto
  moreover have "(\<lambda>h. wsum (H h) sh) ` {x..<?k} = (\<lambda>_. wsum (H x) sh) ` {x..<?k}" by (rule image_cong [OF refl]) (simp add: same)
  then have "(\<lambda>h. wsum (H h) sh) ` {x..<?k} = {wsum (H x) sh}" using c(1) by (simp add: image_constant_conv)
  ultimately have "balances_between H sh x y = insert (wsum (H x) sh) (balances_between H sh ?k y)"
    by (simp add: balances_between_def image_Un)
  then show ?case using Cons.IH [OF k(1) c(2,4)] f(1) by (auto simp: insert_commute)
qed

definition summary_ok :: "(u32 \<Rightarrow> utxo_set) \<Rightarrow> BalanceHistoryDB \<Rightarrow> USDBScriptHash \<Rightarrow> u32 \<Rightarrow> u32 \<Rightarrow> AddressBalanceSummary \<Rightarrow> bool" where
  "summary_ok H db sh a b s \<longleftrightarrow> as_range_start s = a \<and> as_range_end s = b \<and>
     as_start_balance s = wsum (H (a - 1)) sh \<and> as_end_balance s = wsum (H (b - 1)) sh \<and>
     as_net_delta s = as_end_balance s - as_start_balance s \<and> as_total_inflow s - as_total_outflow s = as_net_delta s \<and>
     as_change_count s = of_nat (card (moved sh a b db)) \<and>
     as_first_movement_height s = (if moved sh a b db = {} then None else Some (Min (moved sh a b db))) \<and>
     as_latest_movement_height s = (if moved sh a b db = {} then None else Some (Max (moved sh a b db))) \<and>
     as_peak_balance s = Max (balances_between H sh (a - 1) (b - 1)) \<and> as_low_balance s = Min (balances_between H sh (a - 1) (b - 1))"

lemma rows_in_first:
  "sorted_wrt (<) (map hd_block_height rows) \<Longrightarrow> rows \<noteq> [] \<Longrightarrow> hd_block_height (hd rows) = Min (hd_block_height ` set rows)"
  by (cases rows) (auto intro!: Min_eqI [symmetric] intro: less_imp_le)

lemma summary_exact:
  assumes l: "ledger B H 0 n (rs_db sv)" and ab: "0 < a" "a < b" "b - 1 \<le> n" and r: "rows_in sh (a - 1) (b - 1) (rs_db sv) rows"
  obtains s where "build_address_balance_summary sv sh (a, b) rows = Inr s" and "summary_ok H (rs_db sv) sh a b s"
proof -
  have b: "0 < b" using ab(1,2) by (rule less_trans)
  have le: "a - 1 \<le> b - 1" unfolding word_pred(1) [OF b] using word_pred(2) [OF ab(1)] ab(2) by (rule less_trans)
  then have n: "a - 1 \<le> n" using ab(3) by (rule order_trans)
  obtain e where e: "get_balance_at_block_height sh (a - 1) (rs_db sv) = Inr e" "hd_balance e = wsum (H (a - 1)) sh"
    using ledger_balance [OF l word_zero_le n, where sh = sh] by blast
  obtain g where g: "get_balance_at_block_height sh (b - 1) (rs_db sv) = Inr g" "hd_balance g = wsum (H (b - 1)) sh"
    using ledger_balance [OF l word_zero_le ab(3), where sh = sh] by blast
  define s where "s = fold summary_step rows
    \<lparr>as_range_start = a, as_range_end = b, as_start_balance = hd_balance e, as_end_balance = hd_balance g,
     as_change_count = 0, as_total_inflow = 0, as_total_outflow = 0, as_net_delta = 0, as_first_movement_height = None,
     as_latest_movement_height = None, as_peak_balance = hd_balance e, as_peak_height = a,
     as_low_balance = hd_balance e, as_low_height = a\<rparr>"
  have "build_address_balance_summary sv sh (a, b) rows = Inr s"
    using ab(1) e(1) g(1) by (simp add: build_address_balance_summary_def get_balance_before_range_def get_balance_at_range_end_def s_def)
  moreover have "summary_ok H (rs_db sv) sh a b s"
  proof -
    have srt: "sorted_wrt (<) (map hd_block_height rows)" using r by (simp add: rows_in_def)
    note m = rows_in_moved [OF r ab(1) b] and w = rows_walk [OF l word_zero_le le ab(3) r]
    have bb: "set (hd_balance e # map hd_balance rows) = balances_between H sh (a - 1) (b - 1)"
      using rows_balances [OF l word_zero_le le ab(3) r] by (simp add: e(2))
    have "fold max (map hd_balance rows) (hd_balance e) = Max (balances_between H sh (a - 1) (b - 1))"
      "fold min (map hd_balance rows) (hd_balance e) = Min (balances_between H sh (a - 1) (b - 1))"
      unfolding bb [symmetric] by (simp_all only: Max.set_eq_fold Min.set_eq_fold)
    then show ?thesis
      using w m(2) sum_flows [of rows] rows_in_last [OF srt] rows_in_first [OF srt]
      unfolding summary_ok_def s_def m(1) [symmetric] by (simp add: summary_fold summary_first e(2) g(2))
  qed
  ultimately show thesis by (rule that)
qed

section \<open>A server on a ledger\<close>

lemma serving_snapshot:
  assumes "ledger B H 0 n (rs_db sv)" and "0 < n"
  obtains s where "resolve_queryable_snapshot env sv = Inr s" and "sf_stable_height s = n"
proof -
  obtain c where "get_block_commit n (rs_db sv) = Inr (Some c)" using ledger_commit [OF assms(1) word_zero_le order_refl assms(2)] by blast
  then have "resolve_queryable_snapshot env sv = Inr (projr (build_snapshot_info env sv)) \<and> sf_stable_height (projr (build_snapshot_info env sv)) = n"
    using ledgerD(2) [OF assms(1)] by (simp add: resolve_queryable_snapshot_def build_snapshot_info_def)
  then show thesis using that by blast
qed

lemma serving_height:
  assumes "ledger B H 0 n (rs_db sv)" and "0 < n"
  shows "h \<le> n \<Longrightarrow> \<exists>s. validate_requested_height env sv h = Inr s"
    and "n < h \<Longrightarrow> \<exists>data. validate_requested_height env sv h = Inl (Json (to_consensus_error HeightNotSynced data))"
  by (rule serving_snapshot [OF assms, of env], auto simp: validate_requested_height_def)+

lemma serving_range:
  assumes "ledger B H 0 n (rs_db sv)" and "0 < n" and "a < b" and "b - 1 \<le> n"
  shows "\<exists>s. validate_requested_range env sv (a, b) = Inr s" "\<exists>s. validate_aggregate_range env sv (a, b) = Inr s"
proof -
  have "0 < b" using order_le_less_trans [OF word_zero_le assms(3)] .
  then have "sat_sub b 1 = b - 1" by (simp add: sat_sub_def word_le_nat_alt word_less_nat_alt)
  then show 1: "\<exists>s. validate_requested_range env sv (a, b) = Inr s"
    by (rule_tac serving_snapshot [OF assms(1,2), of env]) (use assms(4) in \<open>simp add: validate_requested_range_def not_less\<close>)
  show "\<exists>s. validate_aggregate_range env sv (a, b) = Inr s" using 1 assms(3) by (simp add: validate_aggregate_range_def range_is_empty_def)
qed

text \<open>The number of buckets is computed in 64 bits and does not overflow.\<close>

lemma unat_ucast_u64: "unat (ucast (w :: u32) :: u64) = unat w"
  using unat_less_2p [of w] by (simp add: unsigned_ucast_eq take_bit_nat_eq_self)

lemma bucket_params:
  assumes "a \<le> b" and "0 < k" and "(unat b - unat a + unat k - 1) div unat k \<le> 2000"
  shows "\<exists>c. validate_bucket_params (a, b) k = Inr c"
proof -
  let ?span = "ucast (b - a) :: u64" and ?k = "ucast k :: u64"
  have u: "unat ?span = unat b - unat a" "unat ?k = unat k"
    using assms(1) unat_ucast_u64 [of "b - a"] unat_ucast_u64 [of k] by (simp_all add: unat_sub)
  have less: "unat b < 2 ^ 32" "unat k < 2 ^ 32" using unat_less_2p [of b] unat_less_2p [of k] by simp_all
  have "1 \<le> unat k" using assms(2) by (simp add: word_less_nat_alt)
  then have kp: "1 \<le> ?k" using u(2) by (simp add: word_le_nat_alt)
  have "unat (?span + ?k) = unat ?span + unat ?k" using less u by (intro unat_add_lem [THEN iffD1]) simp
  moreover from this have "unat (?span + ?k - 1) = unat (?span + ?k) - 1"
    using kp u \<open>1 \<le> unat k\<close> by (subst unat_sub) (simp_all add: word_le_nat_alt)
  ultimately have "unat ((?span + ?k - 1) div ?k) = (unat b - unat a + unat k - 1) div unat k" by (simp add: unat_div u)
  then have "\<not> MAX_ADDRESS_AGGREGATE_BUCKETS < (?span + ?k - 1) div ?k"
    using assms(3) by (simp add: MAX_ADDRESS_AGGREGATE_BUCKETS_def word_less_nat_alt)
  then show ?thesis using assms(2) by (simp add: validate_bucket_params_def Let_def)
qed

section \<open>Aggregates\<close>

text \<open>C17: the aggregate queries of the balance-history service are exact.  On a database that holds the ledger of a chain
  up to height \<open>n\<close>, for a range of stable heights and an admissible bucket size: the summary gives the balances before and
  at the end of the range, their difference as net delta, inflow minus outflow equal to it, the number, the first and the last
  of the heights with a movement, and the highest and the lowest balance the address had; the buckets of the time series
  and of the flows tile the range; every point gives the balance at the end of its bucket, what the bucket changed and its
  movements; every flow bucket balances.\<close>

theorem aggregates_exact:
  assumes "ledger B H 0 n (rs_db sv)" and "0 < n" and "0 < a" and "a < b" and "b - 1 \<le> n"
    and "0 < k" and "(unat b - unat a + unat k - 1) div unat k \<le> 2000"
  shows "\<exists>s ps fs. get_address_balance_summary env sv sh (a, b) = Inr s \<and> summary_ok H (rs_db sv) sh a b s \<and>
    get_address_balance_timeseries env sv sh (a, b) k = Inr ps \<and>
    tiles k b a (map (\<lambda>p. (tp_bucket_start p, tp_bucket_end p)) ps) \<and> list_all (point_ok H (rs_db sv) sh) ps \<and>
    get_address_flow_buckets env sv sh (a, b) k = Inr fs \<and>
    tiles k b a (map (\<lambda>p. (fb_bucket_start p, fb_bucket_end p)) fs) \<and> list_all (flow_ok H (rs_db sv) sh) fs"
proof -
  note l = assms(1)
  have ab: "a \<le> b" using assms(4) by simp
  obtain v where v: "validate_aggregate_range env sv (a, b) = Inr v" using serving_range(2) [OF l assms(2,4,5)] by blast
  obtain c where c: "validate_bucket_params (a, b) k = Inr c" using bucket_params [OF ab assms(6,7)] by blast
  obtain rows where r: "get_balance_in_range sh a b (rs_db sv) = Inr rows" "rows_in sh (a - 1) (b - 1) (rs_db sv) rows"
    by (rule range_rows_in [OF ledgerD(1) [OF l] assms(3,4)]) (rule that)
  have rows: "get_range_balance_rows sv sh (a, b) = Inr rows" using r(1) by (simp add: get_range_balance_rows_def)
  obtain s where s: "build_address_balance_summary sv sh (a, b) rows = Inr s" "summary_ok H (rs_db sv) sh a b s"
    by (rule summary_exact [OF l assms(3-5) r(2)]) (rule that)
  have "a - 1 \<le> n" using assms(5) word_pred(2) [OF assms(3)] less_trans [OF word_pred(2) [OF assms(3)] assms(4)]
      word_pred(1) [of b "a - 1"] order_le_less_trans [OF word_zero_le assms(4)] order_trans by blast
  then obtain e where e: "get_balance_at_block_height sh (a - 1) (rs_db sv) = Inr e" "hd_balance e = wsum (H (a - 1)) sh"
    using ledger_balance [OF l word_zero_le, where sh = sh] by blast
  have "get_address_balance_timeseries env sv sh (a, b) k = Inr (timeseries_loop k b a (wsum (H (a - 1)) sh) rows)"
    using v c rows e assms(3) by (auto simp: get_address_balance_timeseries_def get_balance_before_range_def)
  moreover have "get_address_flow_buckets env sv sh (a, b) k = Inr (flow_loop k b a rows)"
    using v c rows by (simp add: get_address_flow_buckets_def)
  moreover have "get_address_balance_summary env sv sh (a, b) = Inr s"
    using v rows s(1) by (simp add: get_address_balance_summary_def)
  ultimately show ?thesis
    using s(2) timeseries_exact [OF l assms(3) ab assms(5,6) r(2)] flow_exact [OF l assms(3) ab assms(5,6) r(2)] by blast
qed

text \<open>A server on the database of the sample chain: the coinbase of block 1 pays 50 to address 7.\<close>

definition sample_service_env :: service_env where
  "sample_service_env = \<lparr>sv_sha256 = \<lambda>bs. [], sv_block_hash_hex = \<lambda>b. encode_hex (rev (hash_bytes b)),
     sv_script_hash_hex = \<lambda>s. encode_hex (hash_bytes s), sv_txid_text = \<lambda>t. encode_hex (rev (hash_bytes t)),
     sv_parse_provenance = \<lambda>_. None, sv_registry_count = Inr 0, sv_address_of_script = \<lambda>_ _. None, sv_is_p2tr = \<lambda>_. False,
     sv_is_p2wpkh = \<lambda>_. False, sv_is_p2wsh = \<lambda>_. False, sv_is_p2sh = \<lambda>_. False, sv_is_p2pkh = \<lambda>_. False, sv_is_op_return = \<lambda>_. False\<rparr>"

definition sample_server :: BalanceHistoryRpcServer where
  "sample_server = \<lparr>rs_network = ''regtest'', rs_status = set_rpc_alive True (update_phase Phase_Synced None SyncStatusManager_new),
     rs_db = st_db sample_synced, rs_shutdown_receivers = True, rs_server_handle = True\<rparr>"

lemma sample_server_ledger: "ledger (sample_block_hash 5) (sample_outputs 17) 0 1 (rs_db sample_server)"
  using sample_synced_ok(1) by (simp add: synced_def sample_server_def)

lemma sample_wsum: "wsum (sample_outputs t 0) sh = 0" "wsum (sample_outputs t 1) 7 = 50"
proof -
  have d: "dom (sample_outputs t 0) = {}" "dom (sample_outputs t 1) = {\<lparr>op_txid = t, op_vout = 0\<rparr>}"
    by (auto simp: sample_outputs_def split: if_splits)
  show "wsum (sample_outputs t 0) sh = 0" unfolding wsum_def d by simp
  show "wsum (sample_outputs t 1) 7 = 50" unfolding wsum_def d
    by (simp only: sum.empty sum.insert finite.emptyI empty_iff simp_thms) (simp add: sample_outputs_def)
qed

theorem aggregates_exact_witness:
  "\<exists>s ps. get_address_balance_summary sample_service_env sample_server 7 (1, 2) = Inr s \<and>
     as_start_balance s = 0 \<and> as_end_balance s = 50 \<and> as_net_delta s = 50 \<and>
     get_address_balance_timeseries sample_service_env sample_server 7 (1, 2) 1 = Inr ps \<and> tiles 1 2 1 (map (\<lambda>p. (tp_bucket_start p, tp_bucket_end p)) ps)"
  using aggregates_exact [OF sample_server_ledger, of 1 2 1 sample_service_env 7] by (auto simp: summary_ok_def sample_wsum)

end
