(* ===== verification/Balance_Contract.thy ===== *)
theory Balance_Contract
  imports Balance_Queries
begin

text \<open>
  The two services together: what the usdb-indexer relies on when it asks the balance-history service for balances
  (\<open>RpcBalanceProvider\<close> of \<open>usdb-indexer/src/index/energy.rs\<close>, \<open>BalanceHistoryBackend\<close> of \<open>balance/rpc.rs\<close>) as an
  interface, the server of \<open>Balance_Service\<close> as its implementation, and the energy of a pass computed against it; the
  service serves a state reference exactly when the caller's selectors match.
\<close>

section \<open>The clients\<close>

text \<open>
  A call over a transport that delivers: an error of the server, and a request it does not answer, is an error text.
  The envelope of a response has \<open>result: Option<T>\<close>, so a result that is JSON \<open>null\<close>, as \<open>None\<close> and \<open>()\<close> are, reads as a
  missing result.
\<close>

definition rpc_call :: "('a \<Rightarrow> bool) \<Rightarrow> 'a JsonResult \<Rightarrow> 'a result" where
  "rpc_call is_null r =
     (case r of
        Inr x \<Rightarrow> if is_null x then Inl (Err ''RPC response missing both result and error'') else Inr x
      | Inl _ \<Rightarrow> Inl (Err ''RPC Error''))"

lemma rpc_call_simps [simp]:
  "rpc_call nul (Inr x) = (if nul x then Inl (Err ''RPC response missing both result and error'') else Inr x)"
  "rpc_call nul (Inl e) = Inl (Err ''RPC Error'')"
  by (simp_all add: rpc_call_def)

definition RpcBalanceProvider :: "service_env \<Rightarrow> BalanceHistoryRpcServer \<Rightarrow> balance_provider" where
  "RpcBalanceProvider env sv =
     \<lparr>bp_get_balance_at_height = \<lambda>address block_height.
        rpc_call (\<lambda>_. False) (get_address_balance env sv \<lparr>gp_script_hash = address, gp_block_height = Some block_height, gp_block_range = None\<rparr>),
      bp_get_balance_at_range = \<lambda>address f t.
        rpc_call (\<lambda>_. False) (get_address_balance env sv \<lparr>gp_script_hash = address, gp_block_height = None, gp_block_range = Some (f, t)\<rparr>)\<rparr>"

definition BalanceHistoryBackend :: "service_env \<Rightarrow> BalanceHistoryRpcServer \<Rightarrow> USDBScriptHash list \<Rightarrow> u32 \<Rightarrow> AddressBalance list list result" where
  "BalanceHistoryBackend env sv addresses block_height =
     rpc_call (\<lambda>_. False) (get_addresses_balances env sv \<lparr>gb_script_hashes = addresses, gb_block_height = Some block_height, gb_block_range = None\<rparr>)"

definition RpcClient_get_block_commit :: "service_env \<Rightarrow> BalanceHistoryRpcServer \<Rightarrow> u32 \<Rightarrow> BlockCommitInfo option result" where
  "RpcClient_get_block_commit env sv block_height = rpc_call (\<lambda>x. x = None) (get_block_commit_rpc env sv block_height)"

definition RpcClient_get_state_ref_at_height :: "service_env \<Rightarrow> BalanceHistoryRpcServer \<Rightarrow> u32 \<Rightarrow> HistoricalSnapshotStateRef result" where
  "RpcClient_get_state_ref_at_height env sv block_height = rpc_call (\<lambda>_. False) (get_state_ref_at_height env sv block_height None)"

definition RpcClient_stop :: "BalanceHistoryRpcServer \<Rightarrow> unit result \<times> BalanceHistoryRpcServer" where
  "RpcClient_stop sv = (case stop sv of (r, sv') \<Rightarrow> (rpc_call (\<lambda>_. True) r, sv'))"

section \<open>The interface\<close>

text \<open>
  A balance service that serves the chain \<open>H\<close> up to height \<open>n\<close>: the balance at a height is the sum of the unspent outputs, and
  the changes of a range are listed in ascending order with the balance after and the difference made by each block.
\<close>

fun change_list :: "(u32 \<Rightarrow> u64) \<Rightarrow> u32 \<Rightarrow> u32 \<Rightarrow> AddressBalance list \<Rightarrow> bool" where
  "change_list f x h [] \<longleftrightarrow> f h = f x"
| "change_list f x h (b # bs) \<longleftrightarrow> x < bal_block_height b \<and> bal_block_height b \<le> h \<and>
     bal_balance b = f (bal_block_height b) \<and> bal_delta b = f (bal_block_height b) - f x \<and> change_list f (bal_block_height b) h bs"

locale balance_service =
  fixes serves :: "(u32 \<Rightarrow> utxo_set) \<Rightarrow> u32 \<Rightarrow> 's \<Rightarrow> bool"
    and provider :: "'s \<Rightarrow> balance_provider"
  assumes point: "serves H n s \<Longrightarrow> h \<le> n \<Longrightarrow>
      \<exists>b. bp_get_balance_at_height (provider s) own h = Inr [b] \<and> bal_block_height b \<le> h \<and> bal_balance b = wsum (H h) own"
    and future: "serves H n s \<Longrightarrow> n < h \<Longrightarrow> \<exists>e. bp_get_balance_at_height (provider s) own h = Inl (Err e)"
    and changes: "serves H n s \<Longrightarrow> x \<le> h \<Longrightarrow> h \<le> n \<Longrightarrow> h \<noteq> - 1 \<Longrightarrow>
      \<exists>bs. bp_get_balance_at_range (provider s) own (x + 1) (h + 1) = Inr bs \<and> change_list (\<lambda>k. wsum (H k) own) x h bs"
begin

lemma serves_change_list:
  assumes "serves H n s" and "x \<le> h" and "h \<le> n" and "h \<noteq> - 1"
  obtains bs where "serves_changes (provider s) own x h bs" and "change_list (\<lambda>k. wsum (H k) own) x h bs"
  using changes [OF assms] that unfolding serves_changes_def by blast

end

text \<open>Balances below 2 to the 63 do not wrap, so a delta has the sign of the change.\<close>

lemma sint_diff:
  assumes "a < 2 ^ 63" and "b < 2 ^ 63"
  shows "sint (of_nat a - of_nat b :: i64) = int a - int b"
proof -
  have eq: "(of_nat a - of_nat b :: i64) = word_of_int (int a - int b)" by simp
  have "- (2 ^ 63) \<le> int a - int b" "int a - int b < 2 ^ 63" using assms by auto
  then show ?thesis unfolding eq sint_sbintrunc' by (simp add: signed_take_bit_int_eq_self)
qed

lemma change_list_ok:
  assumes "change_list (\<lambda>k. wsum (H k) own) x h bs" and "\<forall>k \<le> h. total (H k) own < 2 ^ 63" and "x \<le> h"
    and "list_all (\<lambda>b. bal_delta b \<noteq> 0) bs"
  shows "changes_ok x (wsum (H x) own) h bs \<and> fold (\<lambda>b _. bal_balance b) bs (wsum (H x) own) = wsum (H h) own"
  using assms(1,3,4)
proof (induction bs arbitrary: x)
  case (Cons b bs)
  let ?k = "bal_block_height b"
  have b: "x < ?k" "?k \<le> h" "bal_balance b = wsum (H ?k) own" "bal_delta b = wsum (H ?k) own - wsum (H x) own"
    "change_list (\<lambda>k. wsum (H k) own) ?k h bs" using Cons.prems(1) by simp_all
  have t: "total (H ?k) own < 2 ^ 63" "total (H x) own < 2 ^ 63" using assms(2) b(2) Cons.prems(2) by blast+
  then have s: "sint (bal_delta b) = int (total (H ?k) own) - int (total (H x) own)"
    unfolding b(4) wsum_total by (rule sint_diff)
  have le: "wsum (H i) own \<le> wsum (H j) own \<longleftrightarrow> total (H i) own \<le> total (H j) own"
    if "total (H i) own < 2 ^ 63" "total (H j) own < 2 ^ 63" for i j
    using that by (simp add: word_le_nat_alt unat_wsum)
  have "changes_ok ?k (wsum (H ?k) own) h bs \<and> fold (\<lambda>b _. bal_balance b) bs (wsum (H ?k) own) = wsum (H h) own"
    using Cons.prems(3) by (intro Cons.IH [OF b(5,2)]) simp
  then show ?case using Cons.prems(3) b(1-3) s le [OF t] le [OF t(2,1)] by simp
qed simp

section \<open>The server implements it\<close>

definition serves_ledger :: "(u32 \<Rightarrow> utxo_set) \<Rightarrow> u32 \<Rightarrow> BalanceHistoryRpcServer \<Rightarrow> bool" where
  "serves_ledger H n sv \<longleftrightarrow> 0 < n \<and> (\<exists>B. ledger B H 0 n (rs_db sv))"

lemma rows_change_list:
  assumes l: "ledger B H lo n db" and "lo \<le> x" and yn: "h \<le> n" and "rows_in own x h db rows" and "x \<le> h"
  shows "change_list (\<lambda>k. wsum (H k) own) x h (map address_balance rows)"
  using assms(2,4,5)
proof (induction rows arbitrary: x)
  case Nil
  then show ?case using rows_in_Nil by (auto intro: wsum_constant [OF l _ _ yn])
next
  case (Cons r rows)
  note c = rows_in_Cons [OF Cons.prems(2)] and f = row_facts [OF l Cons.prems(1) yn Cons.prems(2)]
  have "lo \<le> hd_block_height r" using Cons.prems(1) less_imp_le [OF c(1)] by (rule order_trans)
  from Cons.IH [OF this c(4,2)] show ?case using c(1,2) f by (simp add: address_balance_def)
qed

lemma word_succ:
  assumes "h \<noteq> (- 1 :: u32)"
  shows "0 < h + 1" "h + 1 - 1 = h" "x \<le> h \<Longrightarrow> x \<noteq> - 1"
proof -
  have "h + 1 \<noteq> 0" using assms by (simp add: eq_neg_iff_add_eq_0)
  then show "0 < h + 1" by (rule word_coorder.not_eq_extremum [THEN iffD1])
  show "h + 1 - 1 = h" by simp
  show "x \<le> h \<Longrightarrow> x \<noteq> - 1" using assms word_order.extremum_uniqueI by blast
qed

lemma server_point:
  assumes "ledger B H 0 n (rs_db sv)" and "0 < n" and "h \<le> n"
  obtains e where "get_balance_at_block_height own h (rs_db sv) = Inr e" and "last_balance own h (rs_db sv) e" and "hd_balance e = wsum (H h) own"
    and "get_address_balance env sv \<lparr>gp_script_hash = own, gp_block_height = Some h, gp_block_range = g\<rparr> = Inr [address_balance e]"
proof -
  obtain e where e: "get_balance_at_block_height own h (rs_db sv) = Inr e" "last_balance own h (rs_db sv) e" "hd_balance e = wsum (H h) own"
    by (rule ledger_balance [OF assms(1) word_zero_le assms(3)]) (rule that)
  obtain v where "validate_requested_height env sv h = Inr v" using serving_height(1) [OF assms] by blast
  then have "get_address_balance env sv \<lparr>gp_script_hash = own, gp_block_height = Some h, gp_block_range = g\<rparr> = Inr [address_balance e]"
    using e(1) by (simp add: get_address_balance_def)
  with e show thesis by (rule that)
qed

lemma server_changes:
  assumes l: "ledger B H 0 n (rs_db sv)" and n: "0 < n" and h: "x \<le> h" "h \<le> n" "h \<noteq> - 1"
  shows "\<exists>bs. bp_get_balance_at_range (RpcBalanceProvider env sv) own (x + 1) (h + 1) = Inr bs \<and> change_list (\<lambda>k. wsum (H k) own) x h bs"
proof (cases "x = h")
  case True
  then show ?thesis by (simp add: RpcBalanceProvider_def get_address_balance_def range_is_empty_def)
next
  case False
  note s = word_succ [OF h(3)]
  have x1: "0 < x + 1" using word_succ(1) [OF s(3) [OF h(1)]] .
  have lt: "x + 1 < h + 1"
    using le_neq_trans [OF h(1) False] word_pred(1) [OF s(1), of "x + 1"] word_pred_less [OF x1, of h] s(2) by simp
  obtain rows where r: "get_balance_in_range own (x + 1) (h + 1) (rs_db sv) = Inr rows" "rows_in own (x + 1 - 1) (h + 1 - 1) (rs_db sv) rows"
    by (rule range_rows_in [OF ledgerD(1) [OF l] x1 lt]) (rule that)
  obtain v where "validate_requested_range env sv (x + 1, h + 1) = Inr v" using serving_range(1) [OF l n lt] h(2) by auto
  then have "bp_get_balance_at_range (RpcBalanceProvider env sv) own (x + 1) (h + 1) = Inr (map address_balance rows)"
    using r(1) lt by (simp add: RpcBalanceProvider_def get_address_balance_def range_is_empty_def)
  moreover have "rows_in own x h (rs_db sv) rows" using r(2) by simp
  ultimately show ?thesis using rows_change_list [OF l word_zero_le h(2) _ h(1)] by blast
qed

interpretation rpc: balance_service serves_ledger "RpcBalanceProvider env" for env
proof unfold_locales
  fix H n h own and sv :: BalanceHistoryRpcServer
  assume "serves_ledger H n sv"
  then obtain B where l: "ledger B H 0 n (rs_db sv)" "0 < n" by (auto simp: serves_ledger_def)
  show "\<exists>b. bp_get_balance_at_height (RpcBalanceProvider env sv) own h = Inr [b] \<and> bal_block_height b \<le> h \<and> bal_balance b = wsum (H h) own" if "h \<le> n"
  proof -
    obtain e where e: "last_balance own h (rs_db sv) e" "hd_balance e = wsum (H h) own"
      "get_address_balance env sv \<lparr>gp_script_hash = own, gp_block_height = Some h, gp_block_range = None\<rparr> = Inr [address_balance e]"
      by (rule server_point [OF l \<open>h \<le> n\<close>, of own env None]) (rule that)
    have "hd_block_height e \<le> h" using e(1) by (auto simp: last_balance_def no_balance_def)
    then show ?thesis using e(2,3) by (simp add: RpcBalanceProvider_def address_balance_def)
  qed
  show "\<exists>e. bp_get_balance_at_height (RpcBalanceProvider env sv) own h = Inl (Err e)" if "n < h"
    using serving_height(2) [OF l that, of env] by (auto simp: RpcBalanceProvider_def get_address_balance_def)
  show "\<exists>bs. bp_get_balance_at_range (RpcBalanceProvider env sv) own (x + 1) (h + 1) = Inr bs \<and> change_list (\<lambda>k. wsum (H k) own) x h bs"
    if "x \<le> h" "h \<le> n" "h \<noteq> - 1" for x by (rule server_changes [OF l that])
qed

section \<open>Clients of the interface\<close>

context balance_service
begin

lemma energy_follows:
  assumes s: "serves H n s" and h: "h \<le> n" "h \<noteq> - 1" and t: "\<forall>k \<le> h. total (H k) own < 2 ^ 63"
    and ok: "energy_db_ok db" and fl: "energy_find_last i h db = Some (x, v)"
    and v: "ev_state v = Active" "ev_owner_address v = own" "ev_owner_balance v = wsum (H x) own"
    and nz: "\<forall>bs. serves_changes (provider s) own x h bs \<longrightarrow> list_all (\<lambda>b. bal_delta b \<noteq> 0) bs"
  shows "\<exists>bs db' res y w. serves_changes (provider s) own x h bs \<and> settle_changes i own bs db = (Inr (), db') \<and>
    update_pass_energy (provider s) i h db = (Inr res, db') \<and> get_pass_energy i h db' = Inr (Some res) \<and>
    energy_find_last i h db' = Some (y, w) \<and> ev_owner_balance w = wsum (H h) own"
proof -
  have x: "x \<le> h" using fl by (simp add: energy.find_last_Some [OF ok])
  obtain bs where bs: "serves_changes (provider s) own x h bs" "change_list (\<lambda>k. wsum (H k) own) x h bs"
    by (rule serves_change_list [OF s x h]) (rule that)
  have nz': "list_all (\<lambda>b. bal_delta b \<noteq> 0) bs" using nz bs(1) by blast
  have c: "changes_ok x (ev_owner_balance v) h bs" "fold (\<lambda>b _. bal_balance b) bs (ev_owner_balance v) = wsum (H h) own"
    unfolding v(3) using change_list_ok [OF bs(2) t x nz'] by blast+
  from update_pass_energy_op [OF ok fl v(1) c(1), unfolded v(2), OF bs(1)]
  obtain y w db' where u: "settle_changes i own bs db = (Inr (), db')"
    "update_pass_energy (provider s) i h db = (Inr (project_energy_record_no_balance_change (with_height i (y, w)) h), db')"
    "energy_db_ok db'" "energy_find_last i h db' = Some (y, w)" "ev_owner_balance w = wsum (H h) own"
    unfolding c(2) by blast
  have "get_pass_energy i h db' = Inr (Some (project_energy_record_no_balance_change (with_height i (y, w)) h))"
    by (simp add: get_pass_energy_op [OF u(3)] u(4))
  with bs(1) u show ?thesis by blast
qed

end

section \<open>State references\<close>

text \<open>A selector of the caller agrees with a state when it is absent or names the value of the state.\<close>

definition agrees :: "ConsensusStateReference \<Rightarrow> ConsensusStateReference \<Rightarrow> bool" where
  "agrees e a \<longleftrightarrow> cr_snapshot_id e \<in> {None, cr_snapshot_id a} \<and> cr_stable_height e \<in> {None, cr_stable_height a} \<and>
     cr_stable_block_hash e \<in> {None, cr_stable_block_hash a} \<and>
     cr_balance_history_api_version e \<in> {None, cr_balance_history_api_version a} \<and>
     cr_balance_history_semantics_version e \<in> {None, cr_balance_history_semantics_version a} \<and>
     cr_usdb_index_protocol_version e \<in> {None, cr_usdb_index_protocol_version a}"

lemma check_selector_ok: "check_selector e a je = Inr () \<longleftrightarrow> e \<in> {None, Some a}"
  by (cases e) (auto simp: check_selector_def)

lemma bindJ_Inr: "bindJ m f = Inr y \<longleftrightarrow> (\<exists>x. m = Inr x \<and> f x = Inr y)"
  by (cases m) auto

lemma validate_agrees:
  "validate_historical_state_ref_expected_state env sv h r e = Inr () \<longleftrightarrow> agrees e (reference_of_state_ref r)"
  unfolding validate_historical_state_ref_expected_state_def agrees_def reference_of_state_ref_def
    ConsensusStateReference_is_empty_def Let_def
  by (simp add: bindJ_Inr check_selector_ok)

lemma server_state_ref:
  assumes l: "ledger B H 0 n (rs_db sv)" and h: "0 < h" "h \<le> n"
  obtains r where "build_state_ref_at_height env sv h = Inr r" and "sr_block_height r = h"
    and "sr_stable_block_hash r = sv_block_hash_hex env (B h)"
    and "sr_consensus_identity r = build_consensus_snapshot_identity (rs_network sv) h (sv_block_hash_hex env (B h))"
    and "sr_snapshot_id r = build_consensus_snapshot_id (sv_sha256 env) (sr_consensus_identity r)"
proof -
  have n: "0 < n" using h by (rule less_le_trans)
  obtain c where c: "get_block_commit h (rs_db sv) = Inr (Some c)" "ce_btc_block_hash c = B h"
    using ledger_commit [OF l word_zero_le h(2,1)] by blast
  obtain v where v: "validate_requested_height env sv h = Inr v" using serving_height(1) [OF l n h(2)] by blast
  have "build_state_ref_at_height env sv h = Inr (the (projr (build_historical_state_ref_at_height env (rs_network sv) (rs_db sv) h)))"
    using c v by (simp add: build_state_ref_at_height_def build_historical_state_ref_at_height_def Let_def)
  then show thesis by (rule that) (simp_all add: build_historical_state_ref_at_height_def Let_def c)
qed

lemma check_selector_fails: "check_selector e a je = Inl x \<Longrightarrow> x = Json je"
  by (auto simp: check_selector_def split: option.splits if_splits)

lemma bindJ_Inl: "bindJ m f = Inl e \<longleftrightarrow> m = Inl e \<or> (\<exists>x. m = Inr x \<and> f x = Inl e)"
  by (cases m) auto

lemma validate_disagrees:
  assumes "\<not> agrees e (reference_of_state_ref r)"
  shows "\<exists>code data. validate_historical_state_ref_expected_state env sv h r e = Inl (Json (to_consensus_error code data)) \<and>
    code \<in> {SnapshotIdMismatch, BlockHashMismatch, VersionMismatch} \<and> ed_expected_state data = e \<and>
    ed_actual_state data = reference_of_state_ref r"
proof -
  have data: "ed_expected_state (build_consensus_error_data_for_state env sv a e b d) = e"
    "ed_actual_state (build_consensus_error_data_for_state env sv a e b d) = b" for a b d
    by (simp_all add: build_consensus_error_data_for_state_def)
  obtain x where x: "validate_historical_state_ref_expected_state env sv h r e = Inl x"
    using assms validate_agrees [of env sv h r e] by (cases "validate_historical_state_ref_expected_state env sv h r e") auto
  let ?err = "\<lambda>code detail. to_consensus_error code
    (build_consensus_error_data_for_state env sv (Some h) e (reference_of_state_ref r) (Some detail))"
  from x consider detail where "x = Json (?err SnapshotIdMismatch detail)" | detail where "x = Json (?err BlockHashMismatch detail)"
    | detail where "x = Json (?err VersionMismatch detail)"
    unfolding validate_historical_state_ref_expected_state_def Let_def
    by (auto simp: bindJ_Inl split: if_splits dest!: check_selector_fails)
  then show ?thesis using x data by cases blast+
qed

lemma server_provider_ok:
  assumes l: "ledger B H 0 n (rs_db sv)" and n: "0 < n"
  shows "provider_ok (RpcBalanceProvider env sv)"
proof -
  have range: "f \<le> bal_block_height b \<and> bal_block_height b < t"
    if q: "bp_get_balance_at_range (RpcBalanceProvider env sv) own f t = Inr bs" and b: "b \<in> set bs" for own f t bs b
  proof -
    have ft: "f < t" using q b by (cases "f < t") (auto simp: RpcBalanceProvider_def get_address_balance_def range_is_empty_def)
    from range_exact [OF ledgerD(1) [OF l] this] obtain rs where rs: "get_balance_in_range own f t (rs_db sv) = Inr rs"
      "\<And>x. x \<in> set rs \<Longrightarrow> f \<le> hd_block_height x \<and> hd_block_height x < t" by blast
    have "bs = map address_balance rs"
      using q ft rs(1) by (cases "validate_requested_range env sv (f, t)") (auto simp: RpcBalanceProvider_def get_address_balance_def range_is_empty_def)
    then show ?thesis using b rs(2) by (auto simp: address_balance_def)
  qed
  have point: "length bs \<le> 1" if "bp_get_balance_at_height (RpcBalanceProvider env sv) own h = Inr bs" for own h bs
    using that by (auto simp: RpcBalanceProvider_def get_address_balance_def rpc_call_def bindJ_Inr split: sum.splits)
  have "rpc_call (\<lambda>_. False) r \<noteq> Inl (Panic e)" for r :: "AddressBalance list JsonResult" and e by (cases r) simp_all
  then show ?thesis using range point by (simp add: provider_ok_def RpcBalanceProvider_def)
qed

section \<open>Readiness\<close>

text \<open>
  A service that reports itself ready for consensus has no blocker.  The converse fails in one case only: outside the
  indexing phase a current height below the total keeps the service from being ready without a blocker that says so.
\<close>

lemma no_blockers_iff:
  "readiness_blockers runtime sync a b u m = [] \<longleftrightarrow> query_ready_now runtime sync \<and> \<not> a \<and> \<not> b \<and> \<not> (u \<and> m = Some False) \<and>
     \<not> (sy_phase sync = Phase_Indexing \<and> sy_current sync < sy_total sync)"
  by (cases "sy_phase sync") (auto simp: readiness_blockers_def query_ready_now_def word_gt_0 not_less)

lemma consensus_ready_blockers:
  assumes "readiness_info env sv = Inr r"
  shows "ri_consensus_ready r \<longleftrightarrow> ri_blockers r = [] \<and> ri_total r \<le> ri_current r"
    and "ri_phase r = Phase_Indexing \<Longrightarrow> ri_consensus_ready r \<longleftrightarrow> ri_blockers r = []"
proof -
  obtain runtime sync a b u m where "ri_blockers r = readiness_blockers runtime sync a b u m" "ri_phase r = sy_phase sync"
    "ri_total r = sy_total sync" "ri_current r = sy_current sync"
    "ri_consensus_ready r \<longleftrightarrow> query_ready_now runtime sync \<and> sy_total sync \<le> sy_current sync \<and> \<not> a \<and> \<not> b \<and> \<not> (u \<and> m = Some False)"
    using assms unfolding readiness_info_def Let_def by (auto split: sum.splits)
  then show "ri_consensus_ready r \<longleftrightarrow> ri_blockers r = [] \<and> ri_total r \<le> ri_current r"
    "ri_phase r = Phase_Indexing \<Longrightarrow> ri_consensus_ready r \<longleftrightarrow> ri_blockers r = []"
    by (auto simp: no_blockers_iff not_less)
qed

section \<open>Properties\<close>



text \<open>C10: the energy of a pass follows the chain through both services.  For an active pass whose last record holds the balance
  its owner had on the chain at that height, recomputing the energy from the balance-history service and settling the
  changes block by block leave the same store and the same energy, which a later query returns, and the last record then
  holds the balance the owner has on the chain at the height asked for.  Balances are below 2 to the 63, and no block in
  between moves the owner's outputs without changing the balance.\<close>

theorem energy_follows_chain:
  assumes "ledger B H 0 n (rs_db sv)" and "0 < n" and "h \<le> n" and "h \<noteq> - 1" and "\<forall>k \<le> h. total (H k) own < 2 ^ 63"
    and "energy_db_ok db" and "energy_find_last i h db = Some (x, v)"
    and "ev_state v = Active" and "ev_owner_address v = own" and "ev_owner_balance v = wsum (H x) own"
    and "\<forall>bs. serves_changes (RpcBalanceProvider env sv) own x h bs \<longrightarrow> list_all (\<lambda>b. bal_delta b \<noteq> 0) bs"
  shows "\<exists>bs db' res y w. serves_changes (RpcBalanceProvider env sv) own x h bs \<and> settle_changes i own bs db = (Inr (), db') \<and>
    update_pass_energy (RpcBalanceProvider env sv) i h db = (Inr res, db') \<and> get_pass_energy i h db' = Inr (Some res) \<and>
    energy_find_last i h db' = Some (y, w) \<and> ev_owner_balance w = wsum (H h) own"
proof -
  have "serves_ledger H n sv" using assms(1,2) by (auto simp: serves_ledger_def)
  from rpc.energy_follows [OF this assms(3-11)] show ?thesis .
qed

text \<open>A pass of address 7 whose last record is at the start of the sample chain.\<close>

definition sample_start :: PassEnergyValue where
  "sample_start = \<lparr>ev_state = Active, ev_active_block_height = 0, ev_owner_address = 7, ev_owner_balance = 0, ev_owner_delta = 0, ev_energy = 0\<rparr>"

definition sample_start_db :: energy_db where
  "sample_start_db = energy_put sample_energy_id 0 sample_start empty_energy_db"

lemma sample_start_ok: "energy_db_ok sample_start_db" "energy_find_last sample_energy_id 1 sample_start_db = Some (0, sample_start)"
proof -
  show ok: "energy_db_ok sample_start_db" unfolding sample_start_db_def by (rule energy.ok_put [OF energy_db_ok_empty])
  have "get_pass_energy_record sample_energy_id y empty_energy_db = None" for y
    by (simp add: get_pass_energy_record_def empty_energy_db_def cf_get_def)
  then show "energy_find_last sample_energy_id 1 sample_start_db = Some (0, sample_start)"
    unfolding energy.find_last_Some [OF ok] by (auto simp: sample_start_db_def energy.get_put [OF energy_db_ok_empty])
qed

lemma sample_change_list:
  assumes "change_list (\<lambda>k. wsum (sample_outputs 17 k) 7) 0 1 bs"
  shows "list_all (\<lambda>b. bal_delta b \<noteq> 0) bs"
proof (cases bs)
  case (Cons b bs')
  then have b: "0 < bal_block_height b" "bal_block_height b \<le> 1" "change_list (\<lambda>k. wsum (sample_outputs 17 k) 7) (bal_block_height b) 1 bs'"
    "bal_delta b = wsum (sample_outputs 17 (bal_block_height b)) 7 - wsum (sample_outputs 17 0) 7" using assms by simp_all
  have 1: "bal_block_height b = 1" using b(1,2) by (simp add: word_le_nat_alt word_less_nat_alt word_unat_eq_iff)
  then have "bs' = []" using b(3) by (cases bs') (auto dest: leD)
  then show ?thesis using Cons b(4) by (simp add: 1 sample_wsum)
qed simp

theorem energy_follows_chain_witness:
  "\<exists>db' res y w. update_pass_energy (RpcBalanceProvider sample_service_env sample_server) sample_energy_id 1 sample_start_db = (Inr res, db') \<and>
     energy_find_last sample_energy_id 1 db' = Some (y, w) \<and> ev_owner_balance w = 50"
proof -
  have one: "(1 :: u32) \<noteq> - 1" by (simp add: word_unat_eq_iff unat_minus_one_word_eq)
  have s: "serves_ledger (sample_outputs 17) 1 sample_server" using sample_server_ledger by (auto simp: serves_ledger_def)
  have "list_all (\<lambda>b. bal_delta b \<noteq> 0) bs" if "serves_changes (RpcBalanceProvider sample_service_env sample_server) 7 0 1 bs" for bs
  proof -
    obtain bs' where "serves_changes (RpcBalanceProvider sample_service_env sample_server) 7 0 1 bs'"
      "change_list (\<lambda>k. wsum (sample_outputs 17 k) 7) 0 1 bs'" 
      using rpc.changes [OF s, of 0 1 sample_service_env 7] one by (auto simp: serves_changes_def)
    then show ?thesis using that sample_change_list by (simp add: serves_changes_def)
  qed
  moreover have "total (sample_outputs 17 k) 7 < 2 ^ 63" for k
    using sample_total [of 17 7] by (cases "k = 0") (simp_all add: sample_outputs_def total_def)
  ultimately have "\<exists>bs db' res y w. serves_changes (RpcBalanceProvider sample_service_env sample_server) 7 0 1 bs \<and>
      settle_changes sample_energy_id 7 bs sample_start_db = (Inr (), db') \<and>
      update_pass_energy (RpcBalanceProvider sample_service_env sample_server) sample_energy_id 1 sample_start_db = (Inr res, db') \<and>
      get_pass_energy sample_energy_id 1 db' = Inr (Some res) \<and> energy_find_last sample_energy_id 1 db' = Some (y, w) \<and>
      ev_owner_balance w = wsum (sample_outputs 17 1) 7"
    by (intro energy_follows_chain [OF sample_server_ledger _ _ _ _ sample_start_ok]) (simp_all add: sample_start_def sample_wsum)
  then show ?thesis by (auto simp: sample_wsum)
qed

text \<open>C16: a historical state reference is served exactly when the caller's selectors match.  For a committed height of the ledger
  there is one state reference, with the block hash of the chain and the snapshot id derived from it; a request without
  selectors gets it; a request with a context gets it exactly when the requested height and each of the six selectors is
  absent or equal to it, and otherwise an error which, unless the height was wrong, names the caller's and the actual state.\<close>

theorem state_ref_exact:
  assumes "ledger B H 0 n (rs_db sv)" and "0 < h" and "h \<le> n"
  shows "\<exists>r. sr_block_height r = h \<and> sr_stable_block_hash r = sv_block_hash_hex env (B h) \<and>
    sr_consensus_identity r = build_consensus_snapshot_identity (rs_network sv) h (sv_block_hash_hex env (B h)) \<and>
    sr_snapshot_id r = build_consensus_snapshot_id (sv_sha256 env) (sr_consensus_identity r) \<and>
    get_state_ref_at_height env sv h None = Inr r \<and>
    (\<forall>c r'. get_state_ref_at_height env sv h (Some c) = Inr r' \<longleftrightarrow>
       r' = r \<and> qc_requested_height c \<in> {None, Some h} \<and> agrees (qc_expected_state c) (reference_of_state_ref r)) \<and>
    (\<forall>c. qc_requested_height c \<in> {None, Some h} \<and> \<not> agrees (qc_expected_state c) (reference_of_state_ref r) \<longrightarrow>
       (\<exists>code data. get_state_ref_at_height env sv h (Some c) = Inl (Json (to_consensus_error code data)) \<and>
          code \<in> {SnapshotIdMismatch, BlockHashMismatch, VersionMismatch} \<and> ed_expected_state data = qc_expected_state c \<and>
          ed_actual_state data = reference_of_state_ref r))"
proof -
  obtain r where r: "build_state_ref_at_height env sv h = Inr r" "sr_block_height r = h"
    "sr_stable_block_hash r = sv_block_hash_hex env (B h)"
    "sr_consensus_identity r = build_consensus_snapshot_identity (rs_network sv) h (sv_block_hash_hex env (B h))"
    "sr_snapshot_id r = build_consensus_snapshot_id (sv_sha256 env) (sr_consensus_identity r)"
    by (rule server_state_ref [OF assms]) (rule that)
  have none: "get_state_ref_at_height env sv h None = Inr r"
    using validate_agrees [of env sv h r ConsensusStateReference_default]
    by (simp add: get_state_ref_at_height_def validate_consensus_query_context_def r(1) agrees_def ConsensusStateReference_default_def)
  have ctx: "validate_consensus_query_context h (Some c) = (if qc_requested_height c \<in> {None, Some h} then Inr (qc_expected_state c)
      else Inl (Json (to_invalid_params ''ConsensusQueryContext.requested_height does not match block_height'')))" for c
    by (auto simp: validate_consensus_query_context_def split: option.splits)
  have some: "get_state_ref_at_height env sv h (Some c) = Inr r' \<longleftrightarrow>
      r' = r \<and> qc_requested_height c \<in> {None, Some h} \<and> agrees (qc_expected_state c) (reference_of_state_ref r)" for c r'
    using validate_agrees [of env sv h r "qc_expected_state c"]
    by (auto simp: get_state_ref_at_height_def ctx r(1) bindJ_Inr)
  have "\<exists>code data. get_state_ref_at_height env sv h (Some c) = Inl (Json (to_consensus_error code data)) \<and>
      code \<in> {SnapshotIdMismatch, BlockHashMismatch, VersionMismatch} \<and> ed_expected_state data = qc_expected_state c \<and>
      ed_actual_state data = reference_of_state_ref r"
    if "qc_requested_height c \<in> {None, Some h}" "\<not> agrees (qc_expected_state c) (reference_of_state_ref r)" for c
  proof -
    from validate_disagrees [OF that(2), of env sv h] obtain code data where d:
      "validate_historical_state_ref_expected_state env sv h r (qc_expected_state c) = Inl (Json (to_consensus_error code data))"
      "code \<in> {SnapshotIdMismatch, BlockHashMismatch, VersionMismatch}" "ed_expected_state data = qc_expected_state c"
      "ed_actual_state data = reference_of_state_ref r" by blast
    have "get_state_ref_at_height env sv h (Some c) = Inl (Json (to_consensus_error code data))"
      unfolding get_state_ref_at_height_def ctx using that(1) d(1) by (simp add: r(1))
    with d(2-4) show ?thesis by blast
  qed
  with r none some show ?thesis by blast
qed

theorem state_ref_exact_witness:
  "\<exists>r. get_state_ref_at_height sample_service_env sample_server 1 None = Inr r \<and> sr_stable_block_hash r = encode_hex (rev (hash_bytes 5))"
proof -
  have "(0 :: u32) < 1" by simp
  from state_ref_exact [OF sample_server_ledger this order_refl, of sample_service_env] obtain r where
    "sr_stable_block_hash r = sv_block_hash_hex sample_service_env (sample_block_hash 5 1)"
    "get_state_ref_at_height sample_service_env sample_server 1 None = Inr r" by blast
  then show ?thesis by (auto simp: sample_service_env_def sample_block_hash_def)
qed

text \<open>The client reports an error when the server has stopped, and for every height without a commit.\<close>

lemma client_stop_fails: "\<exists>e. fst (RpcClient_stop sv) = Inl (Err e)"
  by (cases "stop sv") (auto simp: RpcClient_stop_def rpc_call_def split: sum.split)

lemma client_absent_commit:
  assumes "ledger B H lo n (rs_db sv)" and "n < h"
  shows "get_block_commit_rpc env sv h = Inr None"
    and "RpcClient_get_block_commit env sv h = Inl (Err ''RPC response missing both result and error'')"
proof -
  have "get_cf BLOCK_COMMITS_CF (make_block_commit_key h) (rs_db sv) = None"
    using ledgerD(5) [OF assms(1)] assms(2) by (simp add: clean_above_def)
  then show "get_block_commit_rpc env sv h = Inr None" by (simp add: get_block_commit_rpc_def get_block_commit_def)
  then show "RpcClient_get_block_commit env sv h = Inl (Err ''RPC response missing both result and error'')"
    by (simp add: RpcClient_get_block_commit_def)
qed

end
