(* ===== verification/Energy_Block.thy ===== *)
theory Energy_Block
  imports Pass_Lifecycle
begin

text \<open>
  What the energy operations of a block may do to the energy store: everything at or below the durable
  height \<open>t\<close> keeps its meaning, so that the block can be undone.
\<close>

section \<open>Writes of a block\<close>

text \<open>The state and owner of the last record of a pass at or below \<open>t\<close>.\<close>

definition last_sig :: "u32 \<Rightarrow> InscriptionId \<Rightarrow> energy_db \<Rightarrow> (MinerPassState \<times> USDBScriptHash) option" where
  "last_sig t i en = map_option (\<lambda>(x, v). (ev_state v, ev_owner_address v)) (energy_find_last i t en)"

text \<open>No record at or below \<open>t\<close> is lost or changed; a record settled late there is of the same state and
  owner as the last one before it.\<close>

definition block_writes :: "u32 \<Rightarrow> energy_db \<Rightarrow> energy_db \<Rightarrow> bool" where
  "block_writes t en en' \<longleftrightarrow> (energy_db_ok en \<longrightarrow> energy_db_ok en' \<and>
     get_pending_block_height en' = get_pending_block_height en \<and>
     get_synced_block_height en' = get_synced_block_height en \<and>
     (\<forall>i k v. k \<le> t \<and> get_pass_energy_record i k en = Some v \<longrightarrow> get_pass_energy_record i k en' = Some v) \<and>
     (\<forall>i k. k \<le> t \<longrightarrow> last_sig k i en' = last_sig k i en))"

lemma block_writes_preorder [simp]: "reflp (block_writes t)" "transp (block_writes t)"
  by (auto simp: block_writes_def reflp_def transp_def)

lemma find_last_below:
  assumes "energy_db_ok en" and "energy_db_ok en'"
    and "\<And>k. k \<le> t \<Longrightarrow> get_pass_energy_record i k en' = get_pass_energy_record i k en"
  shows "energy_find_last i t en' = energy_find_last i t en"
  by (rule option_eqI_Some) (auto simp: energy.find_last_Some [OF assms(1)] energy.find_last_Some [OF assms(2)] assms(3))

lemma block_writes_put: "t < k \<Longrightarrow> block_writes t en (energy_put i k v en)"
proof (unfold block_writes_def, intro impI conjI allI)
  fix j l assume tk: "t < k" and ok: "energy_db_ok en" and lt: "l \<le> t"
  have "energy_find_last j l (energy_put i k v en) = energy_find_last j l en"
    by (rule find_last_below [OF ok energy.ok_put [OF ok]]) (use tk lt in \<open>auto simp: energy.get_put [OF ok]\<close>)
  then show "last_sig l j (energy_put i k v en) = last_sig l j en" by (simp add: last_sig_def)
qed (auto simp: energy.ok_put energy.get_put markers put_meta)

lemma moves_insert_above:
  assumes "t < er_block_height r"
  shows "moves (block_writes t) (insert_pass_energy_record r)"
  unfolding moves_def
proof
  fix en
  show "block_writes t en (snd (insert_pass_energy_record r en))"
  proof (cases "energy_db_ok en")
    case True
    then show ?thesis using block_writes_put [OF assms] by (simp add: insert_op)
  qed (simp add: block_writes_def)
qed

text \<open>Settling the balance changes up to block \<open>h\<close> adds records after the last one only.\<close>

definition same_markers :: "energy_db \<Rightarrow> energy_db \<Rightarrow> bool" where
  "same_markers en en' \<longleftrightarrow> (energy_db_ok en \<longrightarrow> energy_db_ok en' \<and>
     get_pending_block_height en' = get_pending_block_height en \<and>
     get_synced_block_height en' = get_synced_block_height en)"

lemma same_markers_preorder [simp]: "reflp same_markers" "transp same_markers"
  by (auto simp: same_markers_def reflp_def transp_def)

lemma moves_update_step: "moves same_markers (update_energy_step i b l)"
proof -
  have "moves same_markers (insert_pass_energy_record r)" for r
    by (auto simp: moves_def same_markers_def insert_op energy.ok_put markers put_meta)
  then show ?thesis unfolding update_energy_step_def Let_def by (intro moves_bindR moves_ret) simp_all
qed

lemma moves_update_markers: "moves same_markers (update_pass_energy bp i h)"
  unfolding update_pass_energy_def
  by (auto intro!: moves_bindR moves_foldR moves_update_step moves_intro split: option.splits sum.splits)

lemma window_last_sig:
  assumes ok: "energy_db_ok en" and fl: "energy_find_last i h en = Some (x, v)" and th: "t < h"
    and act: "ev_state v = Active"
    and ok': "energy_db_ok en'" and w: "window_writes i x h (ev_owner_address v) en en'"
  shows "last_sig t j en' = last_sig t j en"
proof (cases "j = i \<and> x \<le> t")
  case False
  have "j = i \<longrightarrow> k \<le> x" if "k \<le> t" for k using False that by auto
  then have "energy_find_last j t en' = energy_find_last j t en"
    by (intro find_last_below [OF ok ok']) (use w in \<open>auto simp: window_writes_def\<close>)
  then show ?thesis by (simp add: last_sig_def)
next
  case True
  have rx: "get_pass_energy_record i x en = Some v" and none: "\<And>k. x < k \<Longrightarrow> k \<le> h \<Longrightarrow> get_pass_energy_record i k en = None"
    using fl by (auto simp: energy.find_last_Some [OF ok])
  have "energy_find_last i t en = Some (x, v)"
    using True th rx none by (auto simp: energy.find_last_Some [OF ok])
  moreover have "\<exists>y u. energy_find_last i t en' = Some (y, u) \<and> ev_state u = Active \<and> ev_owner_address u = ev_owner_address v"
  proof (cases rule: find_last_cases [OF ok', of i t, case_names none some])
    case none
    have "get_pass_energy_record i x en' = Some v" using rx w by (auto simp: window_writes_def)
    with none True show ?thesis by auto
  next
    case (some y u)
    have rx': "get_pass_energy_record i x en' = Some v" using rx w by (auto simp: window_writes_def)
    have xy: "x \<le> y"
    proof (rule ccontr)
      assume "\<not> x \<le> y"
      then have "get_pass_energy_record i x en' = None" using some(4) [of x] True by auto
      with rx' show False by simp
    qed
    have "ev_state u = Active \<and> ev_owner_address u = ev_owner_address v"
    proof (cases "y = x")
      case True
      with some(3) rx' act show ?thesis by simp
    next
      case False
      with xy have "x < y" by simp
      moreover have "y \<le> h" using some(2) th by simp
      ultimately show ?thesis using some(3) w by (auto simp: window_writes_def)
    qed
    moreover have "energy_find_last i t en' = Some (y, u)" using some by (auto simp: energy.find_last_Some [OF ok'])
    ultimately show ?thesis by blast
  qed
  ultimately show ?thesis using True act by (auto simp: last_sig_def)
qed

lemma moves_update_pass_energy:
  assumes bp: "provider_ok bp" and th: "t < h"
  shows "moves (block_writes t) (update_pass_energy bp i h)"
  unfolding moves_def
proof
  fix en
  show "block_writes t en (snd (update_pass_energy bp i h en))"
  proof (cases "energy_db_ok en")
    case ok: True
    show ?thesis
    proof (cases "energy_find_last i h en")
      case None
      then have "snd (update_pass_energy bp i h en) = en" by (simp add: update_pass_energy_def find_last_op [OF ok])
      then show ?thesis by (simp add: block_writes_def)
    next
      case (Some xv)
      obtain x v where xv: "xv = (x, v)" by (cases xv)
      note fl = Some [unfolded xv]
      have xh: "x \<le> h" using fl by (simp add: energy.find_last_Some [OF ok])
      show ?thesis
      proof (cases "ev_state v = Active")
        case False
        then have "snd (update_pass_energy bp i h en) = en"
          using xh by (simp add: update_pass_energy_def find_last_op [OF ok] fl)
        then show ?thesis by (simp add: block_writes_def)
      next
        case act: True
        obtain r en' where u: "update_pass_energy bp i h en = (r, en')" "energy_db_ok en'"
          "window_writes i x h (ev_owner_address v) en en'"
          by (rule update_energy_any [OF ok fl act bp]) (rule that)
        have "same_markers en en'" using moves_update_markers [of bp i h] u(1) by (rule movesD)
        moreover have "get_pass_energy_record j k en' = Some w"
          if "k \<le> t" "get_pass_energy_record j k en = Some w" for j k w
        proof (cases "j = i \<and> x < k")
          case True
          then have "get_pass_energy_record i k en = None" using fl that(1) th by (auto simp: energy.find_last_Some [OF ok])
          with True that(2) show ?thesis by simp
        next
          case False
          then show ?thesis using u(3) that(2) by (auto simp: window_writes_def not_less)
        qed
        ultimately show ?thesis
          using u ok window_last_sig [OF ok fl _ act u(2,3)] th by (auto simp: block_writes_def same_markers_def)
      qed
    qed
  qed (simp add: block_writes_def)
qed

lemma moves_energy_ops [block_intro]:
  assumes "t < h"
  shows "provider_ok bp \<Longrightarrow> moves (block_writes t) (on_pass_dormant bp i h)"
    and "moves (block_writes t) (on_pass_consumed i own h)"
    and "moves (block_writes t) (on_new_pass bp i own h e)"
proof -
  show "provider_ok bp \<Longrightarrow> moves (block_writes t) (on_pass_dormant bp i h)"
    unfolding on_pass_dormant_def
    by (intro moves_bindR moves_update_pass_energy moves_getsR moves_gets moves_option_case moves_fail moves_guardR
        moves_insert_above) (use assms in simp_all)
  show "moves (block_writes t) (on_pass_consumed i own h)"
    unfolding on_pass_consumed_def by (rule moves_insert_above) (use assms in simp)
  show "moves (block_writes t) (on_new_pass bp i own h e)"
    unfolding on_new_pass_def by (cases "get_balance_at_height bp own h")
      (auto intro!: moves_insert_above moves_fail simp: assms)
qed

lemma moves_apply_change:
  assumes "t < h"
  shows "moves (block_writes t) (apply_active_balance_change i own h bal d)"
  unfolding moves_def
proof
  fix en
  show "block_writes t en (snd (apply_active_balance_change i own h bal d en))"
  proof (cases "energy_db_ok en")
    case ok: True
    obtain r en' where r: "apply_active_balance_change i own h bal d en = (r, en')" by fastforce
    show ?thesis
    proof (cases rule: apply_change_cases [OF ok r, case_names same changed])
      case same
      then show ?thesis using r by (simp add: block_writes_def)
    next
      case (changed x v)
      then show ?thesis using r block_writes_put [OF assms] by simp
    qed
  qed (simp add: block_writes_def)
qed

section \<open>The manager during a block\<close>

definition mgr_block :: "u32 \<Rightarrow> pass_mgr \<Rightarrow> pass_mgr \<Rightarrow> bool" where
  "mgr_block t s s' \<longleftrightarrow> block_writes t (mg_energy s) (mg_energy s') \<and>
     map_option co_block_height (mg_collector s') = map_option co_block_height (mg_collector s)"

lemma mgr_block_preorder [simp]: "reflp (mgr_block t)" "transp (mgr_block t)"
  using block_writes_preorder [of t] by (auto simp: mgr_block_def reflp_def transp_def)

lemma mgr_block_on_energy [block_intro]: "moves (block_writes t) m \<Longrightarrow> moves (mgr_block t) (on_energy m)"
  by (auto simp: moves_def mgr_block_def on_energy_def zoom_def split: prod.splits) (metis snd_conv)

lemma mgr_block_on_db [block_intro]: "moves (mgr_block t) (on_db m)"
  by (auto simp: moves_def mgr_block_def on_db_def zoom_def block_writes_def split: prod.splits)

lemma mgr_block_push [block_intro]: "moves (mgr_block t) (push_block_mutation mu)"
  by (auto simp: moves_def mgr_block_def push_block_mutation_def block_writes_def option.map_comp o_def collector_push_def)

lemma mgr_block_consume: "t < h \<Longrightarrow> moves (mgr_block t) (consume_pass i h)"
  unfolding consume_pass_def by (intro moves_intro block_intro mgr_block_preorder) simp_all

lemma mgr_block_handlers:
  assumes th: "t < h" and bp: "provider_ok bp"
  shows "mi_mint_block_height mi = h \<Longrightarrow> moves (mgr_block t) (on_mint_pass bp mi)"
    and "moves (mgr_block t) (on_invalid_mint_pass iv)"
    and "moves (mgr_block t) (on_pass_transfer bp i own sp h)"
    and "moves (mgr_block t) (on_pass_burned bp i h)"
proof -
  note rules = moves_intro block_intro mgr_block_preorder mgr_block_consume moves_update_pass_energy
  show "moves (mgr_block t) (on_mint_pass bp mi)" if "mi_mint_block_height mi = h"
    unfolding on_mint_pass_def dormant_last_pass_def inherit_from_def Let_def
    by (intro rules) (use that th bp in auto)
  show "moves (mgr_block t) (on_invalid_mint_pass iv)"
    unfolding on_invalid_mint_pass_def Let_def by (intro rules)
  show "moves (mgr_block t) (on_pass_transfer bp i own sp h)"
    unfolding on_pass_transfer_def by (intro rules) (use th bp in auto)
  show "moves (mgr_block t) (on_pass_burned bp i h)"
    unfolding on_pass_burned_def by (intro rules) (use th bp in auto)
qed

end
