(* ===== verification/Indexer_Steps.thy ===== *)
theory Indexer_Steps
  imports Indexer_Sync Energy_Block
begin

text \<open>
  What one step of a block can do: the outcomes of an operation, the parts of the manager and of the
  tracker a step leaves alone, and the panics it cannot raise.
\<close>

section \<open>Outcomes of an operation\<close>

text \<open>No assertion fails; a success ends in \<open>Q\<close>, an error in \<open>E\<close>.\<close>

definition triple :: "('s, 'a) op \<Rightarrow> 's \<Rightarrow> ('a \<Rightarrow> 's \<Rightarrow> bool) \<Rightarrow> ('s \<Rightarrow> bool) \<Rightarrow> bool" where
  "triple m s Q E \<longleftrightarrow> no_panic (fst (m s)) \<and> (\<forall>x. fst (m s) = Inr x \<longrightarrow> Q x (snd (m s))) \<and>
     (\<forall>e. fst (m s) = Inl (Err e) \<longrightarrow> E (snd (m s)))"

lemma triple_cases:
  assumes "triple m s Q E"
  obtains (ok) x s' where "m s = (Inr x, s')" and "Q x s'"
    | (err) e s' where "m s = (Inl (Err e), s')" and "E s'"
proof (cases "fst (m s)")
  case (Inl e)
  then show thesis using assms err by (cases e) (auto simp: triple_def prod_eq_iff)
next
  case (Inr x)
  then show thesis using assms ok by (auto simp: triple_def prod_eq_iff)
qed

lemma triple_ok: "m s = (Inr x, s') \<Longrightarrow> Q x s' \<Longrightarrow> triple m s Q E"
  by (simp add: triple_def)

lemma triple_err: "m s = (Inl (Err e), s') \<Longrightarrow> E s' \<Longrightarrow> triple m s Q E"
  by (simp add: triple_def)

lemma triple_bind:
  assumes "triple m s P E" and "\<And>x s'. P x s' \<Longrightarrow> triple (f x) s' Q E"
  shows "triple (bindR m f) s Q E"
  using assms(1)
proof (cases rule: triple_cases)
  case (ok x s')
  then show ?thesis using assms(2) [of x s'] by (simp add: triple_def)
next
  case (err e s')
  then show ?thesis by (simp add: triple_def)
qed

lemma triple_conseq:
  "triple m s Q E \<Longrightarrow> (\<And>x s'. Q x s' \<Longrightarrow> Q' x s') \<Longrightarrow> (\<And>s'. E s' \<Longrightarrow> E' s') \<Longrightarrow> triple m s Q' E'"
  by (simp add: triple_def)

lemma triple_safe:
  "safe False m s Q \<Longrightarrow> moves R m \<Longrightarrow> triple m s (\<lambda>x s'. Q x s' \<and> R s s') (R s)"
  by (simp add: triple_def safe_def moves_def)

lemma triple_getsR: "no_panic (f s) \<Longrightarrow> (\<And>x. f s = Inr x \<Longrightarrow> Q x s) \<Longrightarrow> E s \<Longrightarrow> triple (getsR f) s Q E"
  by (simp add: triple_def)

lemma triple_ret: "Q x s \<Longrightarrow> triple (ret x) s Q E"
  by (simp add: triple_def)

lemma triple_fail: "E s \<Longrightarrow> triple (fail (Err e)) s Q E"
  by (simp add: triple_def)

lemma triple_on_mgr:
  "triple m (ix_mgr s) (\<lambda>x g. Q x (s\<lparr>ix_mgr := g\<rparr>)) (\<lambda>g. E (s\<lparr>ix_mgr := g\<rparr>)) \<Longrightarrow> triple (on_mgr m) s Q E"
  by (auto simp: triple_def on_mgr_def zoom_def split: prod.splits)

lemma triple_on_tracker:
  "triple m (ix_tracker s) (\<lambda>x g. Q x (s\<lparr>ix_tracker := g\<rparr>)) (\<lambda>g. E (s\<lparr>ix_tracker := g\<rparr>)) \<Longrightarrow> triple (on_tracker m) s Q E"
  by (auto simp: triple_def on_tracker_def zoom_def split: prod.splits)

lemma triple_on_energy:
  "triple m (mg_energy s) (\<lambda>x g. Q x (s\<lparr>mg_energy := g\<rparr>)) (\<lambda>g. E (s\<lparr>mg_energy := g\<rparr>)) \<Longrightarrow> triple (on_energy m) s Q E"
  by (auto simp: triple_def on_energy_def zoom_def split: prod.splits)

lemma triple_on_db:
  "triple m (mg_db s) (\<lambda>x g. Q x (s\<lparr>mg_store := (mg_store s)\<lparr>ps_db := g\<rparr>\<rparr>))
     (\<lambda>g. E (s\<lparr>mg_store := (mg_store s)\<lparr>ps_db := g\<rparr>\<rparr>)) \<Longrightarrow> triple (on_db m) s Q E"
  by (auto simp: triple_def on_db_def zoom_def split: prod.splits)

section \<open>What the events of a block leave alone\<close>

text \<open>The state rows, among them the synced height, are not written by the events of a block.\<close>

definition same_state :: "pass_db \<Rightarrow> pass_db \<Rightarrow> bool" where
  "same_state db db' \<longleftrightarrow> db_state db' = db_state db"

lemma same_state_preorder [simp]: "reflp same_state" "transp same_state"
  by (simp_all add: same_state_def reflp_def transp_def)

lemma same_state_ops:
  "moves same_state (update_passes P f msg)" "moves same_state (append_pass_history_event i h ty ps ns po no psp nsp)"
  "moves same_state (insert_pass_record info)"
  by (simp_all add: moves_def same_state_def update_passes_def append_pass_history_event_def insert_pass_record_def Let_def)

lemma same_state_writes:
  "moves same_state (update_state_at_height i st st' h)" "moves same_state (update_satpoint_at_height i sp sp' h)"
  "moves same_state (transfer_owner_at_height i own sp h)" "moves same_state (add_new_mint_pass_at_height info h)"
  "moves same_state (add_invalid_mint_pass_at_height info h)"
  unfolding update_state_at_height_def update_state_def update_satpoint_at_height_def update_satpoint_def
    transfer_owner_at_height_def transfer_owner_def add_new_mint_pass_at_height_def add_new_mint_pass_def
    add_invalid_mint_pass_at_height_def add_invalid_mint_pass_def require_pass_def
  by (intro moves_intro same_state_ops same_state_preorder)+

definition mgr_same_state :: "pass_mgr \<Rightarrow> pass_mgr \<Rightarrow> bool" where
  "mgr_same_state s s' \<longleftrightarrow> same_state (mg_db s) (mg_db s')"

lemma mgr_same_state_preorder [simp]: "reflp mgr_same_state" "transp mgr_same_state"
  using same_state_preorder by (auto simp: mgr_same_state_def reflp_def transp_def)

lemma mgr_same_state_ops:
  "moves same_state m \<Longrightarrow> moves mgr_same_state (on_db m)" "moves mgr_same_state (on_energy m')"
  "moves mgr_same_state (push_block_mutation mu)"
  by (auto simp: moves_def mgr_same_state_def on_db_def on_energy_def zoom_def push_block_mutation_def same_state_def
      split: prod.splits) (metis snd_conv)

lemma mgr_same_state_handlers:
  "moves mgr_same_state (on_mint_pass bp mi)" "moves mgr_same_state (on_invalid_mint_pass iv)"
  "moves mgr_same_state (on_pass_transfer bp i own sp h)" "moves mgr_same_state (on_pass_burned bp i h)"
  unfolding on_mint_pass_def dormant_last_pass_def inherit_from_def consume_pass_def on_invalid_mint_pass_def
    on_pass_transfer_def on_pass_burned_def Let_def
  by (intro moves_intro mgr_same_state_preorder mgr_same_state_ops same_state_writes)+

text \<open>Everything at once: what a block at \<open>h\<close> above the durable height \<open>t\<close> does to the manager.\<close>

definition mgr_step :: "u32 \<Rightarrow> u32 \<Rightarrow> pass_mgr \<Rightarrow> pass_mgr \<Rightarrow> bool" where
  "mgr_step t h s s' \<longleftrightarrow> mgr_block t s s' \<and> mgr_moves h s s' \<and> mgr_same_state s s'"

lemma mgr_step_preorder [simp]: "reflp (mgr_step t h)" "transp (mgr_step t h)"
  using mgr_block_preorder [of t] mgr_moves_preorder [of h] mgr_same_state_preorder
  unfolding mgr_step_def reflp_def transp_def by blast+

lemma mgr_stepI:
  "moves (mgr_block t) m \<Longrightarrow> moves (mgr_moves h) m \<Longrightarrow> moves mgr_same_state m \<Longrightarrow> moves (mgr_step t h) m"
  by (simp add: moves_def mgr_step_def)

lemma mgr_step_handlers:
  assumes "t < h" and "provider_ok bp"
  shows "mi_mint_block_height mi = h \<Longrightarrow> moves (mgr_step t h) (on_mint_pass bp mi)"
    and "iv_mint_block_height iv = h \<Longrightarrow> moves (mgr_step t h) (on_invalid_mint_pass iv)"
    and "moves (mgr_step t h) (on_pass_transfer bp i own sp h)"
    and "moves (mgr_step t h) (on_pass_burned bp i h)"
  by (simp_all add: mgr_stepI mgr_block_handlers [OF assms] moves_handlers mgr_same_state_handlers)

lemma mgr_step_execute:
  assumes "t < h" and "provider_ok bp" and "\<forall>e \<in> set evs. event_at parse_id h e"
  shows "moves (mgr_step t h) (execute bp parse_id evs)"
  unfolding execute_def
proof (rule moves_foldR_in)
  fix e c assume "e \<in> set evs"
  then have e: "event_at parse_id h e" using assms(3) by blast
  show "moves (mgr_step t h) (execute_event bp parse_id e c)"
  proof (cases e)
    case (MintEvent item)
    have "moves (mgr_step t h) (on_new_inscription bp parse_id item)"
    proof (cases "mint_info parse_id item")
      case None
      then show ?thesis by (simp add: on_new_inscription_eq moves_fail)
    next
      case (Some mi)
      then show ?thesis
        using mgr_step_handlers(1) [OF assms(1,2)] mint_info_simps [OF Some] e MintEvent by (simp add: on_new_inscription_eq)
    qed
    then show ?thesis unfolding execute_event_def MintEvent BlockProcessEvent.case by (intro moves_bindR moves_ret) simp_all
  next
    case (TransferEvent item)
    have "ti_block_height item = h" using e TransferEvent by simp
    then show ?thesis
      unfolding execute_event_def TransferEvent BlockProcessEvent.case
      by (intro moves_bindR moves_ret moves_option_case) (simp_all add: mgr_step_handlers [OF assms(1,2)])
  qed
qed simp_all

lemma mgr_step_invalid_mints:
  assumes "t < h" and "\<forall>iv \<in> set ivs. iv_mint_block_height iv = h"
  shows "moves (mgr_step t h) (process_invalid_mints ivs)"
  unfolding process_invalid_mints_def
proof (rule moves_foldR_in)
  fix iv c assume "iv \<in> set ivs"
  then have "iv_mint_block_height iv = h" using assms(2) by blast
  moreover have "moves (mgr_block t) (on_invalid_mint_pass iv)"
    unfolding on_invalid_mint_pass_def Let_def by (intro moves_intro block_intro mgr_block_preorder)
  ultimately have "moves (mgr_step t h) (on_invalid_mint_pass iv)"
    by (simp add: mgr_stepI moves_handlers mgr_same_state_handlers)
  then show "moves (mgr_step t h) (bindR (on_invalid_mint_pass iv) (\<lambda>_. ret (c + 1)))"
    by (intro moves_bindR moves_ret) simp_all
qed simp_all

lemma safe_invalid_mints:
  assumes "mgr_inv h s" and "\<forall>iv \<in> set ivs. iv_mint_block_height iv = h"
  shows "safe False (process_invalid_mints ivs) s (\<lambda>_. mgr_inv h)"
proof -
  have "safe False (foldR (\<lambda>item n. bindR (on_invalid_mint_pass item) (\<lambda>_. ret (n + 1))) ivs n) s (\<lambda>_. mgr_inv h)" for n :: nat
    using assms
  proof (induction ivs arbitrary: s n)
    case Nil
    then show ?case by (simp add: safe_def)
  next
    case (Cons iv ivs)
    obtain r s' where r: "on_invalid_mint_pass iv s = (r, s')" by fastforce
    have i: "no_panic r \<and> (r = Inr () \<longrightarrow> mgr_inv h s')"
      by (rule invalid_mint_inv [OF Cons.prems(1) _ r]) (use Cons.prems(2) in simp)
    then have "safe False (on_invalid_mint_pass iv) s (\<lambda>_. mgr_inv h)" using r by (simp add: safe_def)
    then have "safe False (bindR (on_invalid_mint_pass iv) (\<lambda>_. ret (n + 1))) s (\<lambda>_. mgr_inv h)"
      by (rule safe_bind) (simp add: safe_ret)
    then show ?case unfolding foldR.simps by (rule safe_bind) (rule Cons.IH, use Cons.prems(2) in simp_all)
  qed
  then show ?thesis by (simp add: process_invalid_mints_def)
qed

section \<open>Operations that fail no assertion\<close>

definition panic_free :: "('s, 'a) op \<Rightarrow> bool" where
  "panic_free m \<longleftrightarrow> (\<forall>s. no_panic (fst (m s)))"

lemma panic_free_basic:
  "panic_free (ret x)" "panic_free (fail (Err e))" "panic_free (gets f)" "panic_free (modify g)"
  "(\<And>s. no_panic (f' s)) \<Longrightarrow> panic_free (getsR f')" "panic_free (guardR b (Err e))"
  by (auto simp: panic_free_def)

lemma panic_free_bindR:
  assumes "panic_free m" and "\<And>x. panic_free (f x)"
  shows "panic_free (bindR m f)"
  unfolding panic_free_def
proof
  fix s
  obtain r s' where m: "m s = (r, s')" by fastforce
  have "no_panic r" using assms(1) m by (metis fst_conv panic_free_def)
  then show "no_panic (fst (bindR m f s))"
    using assms(2) m by (cases r) (auto simp: panic_free_def no_panic_def)
qed

lemma panic_free_if: "(b \<Longrightarrow> panic_free m) \<Longrightarrow> (\<not> b \<Longrightarrow> panic_free n) \<Longrightarrow> panic_free (if b then m else n)"
  by simp

lemma panic_free_option:
  "panic_free m \<Longrightarrow> (\<And>x. panic_free (f x)) \<Longrightarrow> panic_free (case v of None \<Rightarrow> m | Some x \<Rightarrow> f x)"
  by (simp split: option.splits)

lemma panic_free_foldR: "(\<And>x b. panic_free (f x b)) \<Longrightarrow> panic_free (foldR f xs b)"
  by (induction xs arbitrary: b) (simp_all add: panic_free_basic panic_free_bindR)

lemma panic_free_case_prod: "(\<And>a b. panic_free (f a b)) \<Longrightarrow> panic_free (case p of (a, b) \<Rightarrow> f a b)"
  by (simp split: prod.splits)

lemma panic_free_zoom: "panic_free m \<Longrightarrow> panic_free (zoom get put m)"
  by (auto simp: panic_free_def zoom_def split: prod.splits) (metis fst_conv)

lemmas panic_free_intro = panic_free_basic panic_free_bindR panic_free_if panic_free_option panic_free_foldR
  panic_free_case_prod

lemma triple_moves:
  assumes "panic_free m" and "moves R m" and "\<And>x s'. m s = (Inr x, s') \<Longrightarrow> R s s' \<Longrightarrow> Q x s'" and "\<And>s'. R s s' \<Longrightarrow> E s'"
  shows "triple m s Q E"
proof -
  obtain r s' where m: "m s = (r, s')" by fastforce
  have "no_panic r" using assms(1) m by (metis fst_conv panic_free_def)
  moreover have "R s s'" using assms(2) m by (rule movesD)
  ultimately show ?thesis using assms(3,4) m by (auto simp: triple_def)
qed

lemma foldR_inv:
  assumes "foldR f xs b s = (Inr b', s')" and "P b"
    and "\<And>x b s b' s'. x \<in> set xs \<Longrightarrow> P b \<Longrightarrow> f x b s = (Inr b', s') \<Longrightarrow> P b'"
  shows "P b'"
  using assms
proof (induction xs arbitrary: b s)
  case (Cons x xs)
  from Cons.prems(1) obtain c s1 where c: "f x b s = (Inr c, s1)" "foldR f xs c s1 = (Inr b', s')"
    by (auto simp: bindR_Inr_eq)
  have "P c" by (rule Cons.prems(3) [OF _ Cons.prems(2) c(1)]) simp
  then show ?case
    by (rule Cons.IH [OF c(2)]) (rule Cons.prems(3), auto)
qed simp

section \<open>The transfer tracker during a block\<close>

text \<open>What the services promise: a failure is an error value, the mints found in a block are at its
  height and none lists itself as a predecessor, and the balance provider keeps its contract.\<close>

definition mint_ok :: "(string \<Rightarrow> InscriptionId option) \<Rightarrow> u32 \<Rightarrow> DiscoveredMint \<Rightarrow> bool" where
  "mint_ok parse_id h m \<longleftrightarrow> dm_block_height m = h \<and>
     (case dm_content m of Pass_Content.Mint c \<Rightarrow>
        (case prev_inscription_ids parse_id c of Inl e \<Rightarrow> True | Inr prev \<Rightarrow> dm_inscription_id m \<notin> set prev))"

definition env_ok :: "indexer_env \<Rightarrow> bool" where
  "env_ok env \<longleftrightarrow> provider_ok (en_provider env) \<and>
     (\<forall>h. no_panic (en_block_hint env h)) \<and> (\<forall>h b. no_panic (en_mint_batch env h b)) \<and>
     (\<forall>p. no_panic (en_utxo env p)) \<and> (\<forall>h. no_panic (en_block env h)) \<and> (\<forall>i. no_panic (en_transaction env i)) \<and>
     (\<forall>i k as h. no_panic (rw_answer (en_rpc env) i k as h)) \<and>
     (\<forall>h. no_panic (en_block_commit env h)) \<and> (\<forall>h. no_panic (en_state_ref env h)) \<and>
     (\<forall>h b batch. en_mint_batch env h b = Inr batch \<longrightarrow>
        (\<forall>m \<in> set (mb_valid_mints batch). mint_ok (en_parse_id env) h m) \<and>
        (\<forall>m \<in> set (mb_invalid_mints batch). dv_block_height m = h))"

lemma panic_free_get_utxo: "(\<And>p. no_panic (client p)) \<Longrightarrow> panic_free (get_utxo client p)"
  unfolding get_utxo_def by (intro panic_free_intro) simp_all

lemma panic_free_calc_output:
  "(\<And>p. no_panic (client p)) \<Longrightarrow> panic_free (calc_output_satpoint client sh tx sp)"
  unfolding calc_output_satpoint_def by (intro panic_free_intro panic_free_get_utxo) simp_all

definition tracker_frame :: "InscriptionTransferTracker \<Rightarrow> InscriptionTransferTracker \<Rightarrow> bool" where
  "tracker_frame t t' \<longleftrightarrow> tr_inscriptions t' = tr_inscriptions t \<and> tr_staged_blocks t' = tr_staged_blocks t"

lemma tracker_frame_preorder [simp]: "reflp tracker_frame" "transp tracker_frame"
  by (simp_all add: tracker_frame_def reflp_def transp_def)

lemma moves_on_utxo: "moves tracker_frame (on_utxo m)"
  by (simp add: moves_def tracker_frame_def on_utxo_def zoom_def split: prod.splits)

lemma create_satpoint_frame:
  "moves tracker_frame (calc_create_satpoint client sh get_tx env_inputs i)"
  unfolding calc_create_satpoint_def Let_def by (intro moves_intro moves_on_utxo tracker_frame_preorder)

lemma create_satpoint_panic_free:
  "(\<And>p. no_panic (client p)) \<Longrightarrow> (\<And>i. no_panic (get_tx i)) \<Longrightarrow> panic_free (calc_create_satpoint client sh get_tx env_inputs i)"
  unfolding calc_create_satpoint_def Let_def on_utxo_def
  by (intro panic_free_intro panic_free_zoom panic_free_calc_output) simp_all

lemma collect_frame:
  "(\<And>i. moves tracker_frame (create i)) \<Longrightarrow> moves tracker_frame (collect_block_inscription_mints reason create batch)"
  unfolding collect_block_inscription_mints_def create_info_def Let_def
  by (auto intro!: moves_intro split: prod.splits)

lemma collect_panic_free:
  "(\<And>i. panic_free (create i)) \<Longrightarrow> panic_free (collect_block_inscription_mints reason create batch)"
  unfolding collect_block_inscription_mints_def create_info_def Let_def
  by (intro panic_free_intro) simp_all

text \<open>Where the collected items come from.\<close>

definition items_of :: "DiscoveredMintBatch \<Rightarrow> CollectedMintItems \<Rightarrow> bool" where
  "items_of batch items \<longleftrightarrow>
     (\<forall>it \<in> set (cm_valid_items items). \<exists>m \<in> set (mb_valid_mints batch). ni_inscription_id it = dm_inscription_id m \<and>
        ni_block_height it = dm_block_height m \<and> ni_content it = dm_content m) \<and>
     (\<forall>iv \<in> set (cm_invalid_items items).
        (\<exists>m \<in> set (mb_valid_mints batch). iv_mint_block_height iv = dm_block_height m) \<or>
        (\<exists>m \<in> set (mb_invalid_mints batch). iv_mint_block_height iv = dv_block_height m))"

lemma fold_split_items:
  assumes "\<forall>c \<in> set cands. fst c \<in> set (mb_valid_mints batch)" and "items_of batch items"
  shows "items_of batch (fold (split_candidate reason ins) cands items)"
  using assms
proof (induction cands arbitrary: items)
  case (Cons c cands)
  have "items_of batch (split_candidate reason ins c items)"
    using Cons.prems by (cases c) (auto simp: items_of_def split_candidate_def new_item_def invalid_item_def)
  then show ?case using Cons by simp
qed simp

lemma collect_items:
  assumes "collect_block_inscription_mints reason create batch s = (Inr items, s')"
  shows "items_of batch items"
proof (cases "mb_valid_mints batch = [] \<and> mb_invalid_mints batch = []")
  case True
  then show ?thesis using assms by (auto simp: collect_block_inscription_mints_def items_of_def)
next
  case False
  let ?e = "\<lparr>cm_valid_items = [], cm_invalid_items = []\<rparr>"
  from assms False obtain cands s1 where c: "foldR (\<lambda>mint cands.
            bindR (create_info create (dm_inscription_id mint) ''Inscription has no creator address'') (\<lambda>(info, address).
            ret (cands @ [(mint, info, address)]))) (mb_valid_mints batch) [] s = (Inr cands, s1)"
    and f: "foldR (\<lambda>invalid items.
            bindR (create_info create (dv_inscription_id invalid) ''Invalid inscription has no creator address'')
              (\<lambda>(info, address).
            ret (items\<lparr>cm_invalid_items := cm_invalid_items items @
              [invalid_item (dv_inscription_id invalid) (dv_inscription_number invalid) (dv_block_height invalid) info address
                (MintValidationErrorCode_as_str (dv_error_code invalid)) (dv_error_reason invalid)]\<rparr>)))
          (mb_invalid_mints batch) (fold (split_candidate reason (map (\<lambda>(mint, info, address). ci_commit_outpoint info) cands)) cands ?e)
          s1 = (Inr items, s')"
    by (auto simp: collect_block_inscription_mints_def bindR_Inr_eq Let_def)
  have "\<forall>c \<in> set cands. fst c \<in> set (mb_valid_mints batch)"
    by (rule foldR_inv [OF c, where P = "\<lambda>cs. \<forall>c \<in> set cs. fst c \<in> set (mb_valid_mints batch)"])
      (auto simp: bindR_Inr_eq)
  then have i: "items_of batch (fold (split_candidate reason (map (\<lambda>(mint, info, address). ci_commit_outpoint info) cands)) cands ?e)"
    by (rule fold_split_items) (simp add: items_of_def)
  show ?thesis
    by (rule foldR_inv [OF f, where P = "items_of batch", OF i]) (fastforce simp: bindR_Inr_eq items_of_def invalid_item_def)
qed

lemma items_of_events:
  assumes it: "items_of batch items" and ok: "\<forall>m \<in> set (mb_valid_mints batch). mint_ok parse_id h m"
    and inv: "\<forall>m \<in> set (mb_invalid_mints batch). dv_block_height m = h"
  shows "\<forall>i \<in> set (cm_valid_items items). event_at parse_id h (MintEvent i)"
    and "\<forall>iv \<in> set (cm_invalid_items items). iv_mint_block_height iv = h"
proof -
  show "\<forall>iv \<in> set (cm_invalid_items items). iv_mint_block_height iv = h"
    using it ok inv by (fastforce simp: items_of_def mint_ok_def)
  show "\<forall>i \<in> set (cm_valid_items items). event_at parse_id h (MintEvent i)"
  proof
    fix i assume "i \<in> set (cm_valid_items items)"
    then obtain m where m: "m \<in> set (mb_valid_mints batch)" "ni_inscription_id i = dm_inscription_id m"
      "ni_block_height i = dm_block_height m" "ni_content i = dm_content m" using it by (auto simp: items_of_def)
    with ok have "mint_ok parse_id h m" by blast
    with m show "event_at parse_id h (MintEvent i)"
      by (cases "dm_content m") (auto simp: mint_ok_def mint_info_def split: sum.splits)
  qed
qed

lemma triple_bind_gets: "triple (bindR (gets f) k) s Q E \<longleftrightarrow> triple (k (f s)) s Q E"
  by (simp add: triple_def)

lemma triple_bind_modify: "triple (bindR (modify f) k) s Q E \<longleftrightarrow> triple (k ()) (f s) Q E"
  by (simp add: triple_def)

lemma process_tx_heights:
  assumes "foldR (process_tx client sh h) txs wi c = (Inr wi', c')" and "\<forall>it \<in> set (snd wi). ti_block_height it = h"
  shows "\<forall>it \<in> set (snd wi'). ti_block_height it = h"
proof (rule foldR_inv [OF assms(1), where P = "\<lambda>wi. \<forall>it \<in> set (snd wi). ti_block_height it = h", OF assms(2)])
  fix tx wi c wi' c'
  assume wi: "\<forall>it \<in> set (snd wi). ti_block_height it = h" and "process_tx client sh h tx wi c = (Inr wi', c')"
  then have v: "foldR (process_vin client sh h tx) (tx_input tx) wi c = (Inr wi', c')" by (simp add: process_tx_def)
  show "\<forall>it \<in> set (snd wi'). ti_block_height it = h"
  proof (rule foldR_inv [OF v, where P = "\<lambda>wi. \<forall>it \<in> set (snd wi). ti_block_height it = h", OF wi])
    fix p wi c wi' c'
    assume wi: "\<forall>it \<in> set (snd wi). ti_block_height it = h" and p: "process_vin client sh h tx p wi c = (Inr wi', c')"
    show "\<forall>it \<in> set (snd wi'). ti_block_height it = h"
    proof (cases "fst wi p")
      case None
      then show ?thesis using p wi by (simp add: process_vin_def)
    next
      case (Some items)
      then have e: "foldR (process_existing client sh h tx) items wi c = (Inr wi', c')" using p by (simp add: process_vin_def)
      show ?thesis
        by (rule foldR_inv [OF e, where P = "\<lambda>wi. \<forall>it \<in> set (snd wi). ti_block_height it = h", OF wi])
          (auto simp: process_existing_def bindR_Inr_eq transfer_item_def split: option.splits)
    qed
  qed
qed

lemma process_tx_panic_free: "(\<And>p. no_panic (client p)) \<Longrightarrow> panic_free (process_tx client sh h tx wi)"
  unfolding process_tx_def process_vin_def process_existing_def
  by (intro panic_free_intro panic_free_calc_output) simp_all

lemma process_block_triple:
  assumes "\<And>p. no_panic (client p)" and "\<And>h. no_panic (gb h)" and st: "tr_staged_blocks t = []"
  shows "triple (process_block_with_hint client sh gb h hint extra) t
    (\<lambda>items t'. tr_inscriptions t' = tr_inscriptions t \<and> (\<exists>m. tr_staged_blocks t' = [(h, m)]) \<and>
       (\<forall>it \<in> set items. ti_block_height it = h)) (tracker_frame t)"
proof -
  let ?w = "\<lambda>t. fold add_seed extra (tr_inscriptions t)"
  have blk: "no_panic (case hint of Some block \<Rightarrow> Inr block | None \<Rightarrow> gb h)" using assms(2) by (simp split: option.splits)
  have u: "triple (on_utxo (foldR (process_tx client sh h) txdata (?w t, []))) t
      (\<lambda>wi t'. tracker_frame t t' \<and> (\<forall>it \<in> set (snd wi). ti_block_height it = h)) (tracker_frame t)" for txdata
  proof (rule triple_moves [where R = tracker_frame])
    show "panic_free (on_utxo (foldR (process_tx client sh h) txdata (?w t, [])))"
      unfolding on_utxo_def by (intro panic_free_zoom panic_free_foldR process_tx_panic_free assms(1))
    show "moves tracker_frame (on_utxo (foldR (process_tx client sh h) txdata (?w t, [])))" by (rule moves_on_utxo)
    fix wi t' assume "on_utxo (foldR (process_tx client sh h) txdata (?w t, [])) t = (Inr wi, t')" and fr: "tracker_frame t t'"
    then obtain c' where "foldR (process_tx client sh h) txdata (?w t, []) (tr_utxo t) = (Inr wi, c')"
      by (auto simp: on_utxo_def zoom_def split: prod.splits)
    then show "tracker_frame t t' \<and> (\<forall>it \<in> set (snd wi). ti_block_height it = h)"
      using fr process_tx_heights by (metis empty_iff list.set(1) snd_conv)
  qed
  show ?thesis
    unfolding process_block_with_hint_def triple_bind_gets st
  proof (simp, rule triple_bind [where P = "\<lambda>_ t'. t' = t"])
    show "triple (getsR (\<lambda>_. case hint of None \<Rightarrow> gb h | Some block \<Rightarrow> Inr block)) t (\<lambda>_ t'. t' = t) (tracker_frame t)"
      using blk by (intro triple_getsR) (simp_all add: tracker_frame_def)
    fix txdata t' assume t': "t' = t"
    show "triple (bindR (gets ?w) (\<lambda>working.
         bindR (on_utxo (foldR (process_tx client sh h) txdata (working, []))) (\<lambda>(working, items).
         bindR (gets tr_staged_blocks) (\<lambda>staged.
         bindR (modify (\<lambda>t. t\<lparr>tr_staged_blocks := AList.update h working (tr_staged_blocks t)\<rparr>)) (\<lambda>_.
         bindR (guardR (map_of staged h = None) (Err ''Staged transfer state already exists when processing the block'')) (\<lambda>_.
         ret items)))))) t'
       (\<lambda>items t'. tr_inscriptions t' = tr_inscriptions t \<and> (\<exists>m. tr_staged_blocks t' = [(h, m)]) \<and>
          (\<forall>it \<in> set items. ti_block_height it = h)) (tracker_frame t)"
      unfolding t' triple_bind_gets
      by (rule triple_bind [OF u]) (auto simp: triple_bind_gets triple_bind_modify tracker_frame_def st triple_def)
  qed
qed

section \<open>The settlement during a block\<close>

lemma mapR_no_panic: "(\<And>x. no_panic (f x)) \<Longrightarrow> no_panic (mapR f xs)"
proof (induction xs)
  case (Cons x xs)
  have "no_panic (f x)" "no_panic (mapR f xs)" using Cons by auto
  then show ?case by (auto simp: no_panic_def split: sum.splits)
qed (simp add: no_panic_def)

lemma collect_batch_no_panic: "no_panic (collect_batch_balances as bs)"
  unfolding collect_batch_balances_def
  by (auto intro!: mapR_no_panic split: list.splits)

lemma serial_no_panic:
  assumes "\<And>i k as h. no_panic (rw_answer w i k as h)"
  shows "no_panic (serial_batches w h i batches es)"
  using collect_batch_no_panic assms
  by (induction batches arbitrary: i es) (auto simp: no_panic_def split: sum.splits)

lemma query_no_panic:
  assumes "\<And>i k as h. no_panic (rw_answer w i k as h)"
  shows "no_panic (query_batch_with_retry w h i as t n)"
proof -
  have "1 \<le> unat (sat_add n 1)" by (simp add: unat_sat_add min_def)
  note f = retry_loop_find [OF this]
  show ?thesis
    unfolding query_batch_with_retry_def Let_def f by (simp only: option.split_asm option.split assms) (simp add: no_panic_def)
qed

lemma join_no_panic:
  assumes "\<And>i k as h. no_panic (rw_answer w i k as h)"
  shows "no_panic (join_loop w loader h batches inflight next es)"
  using assms
proof (induction w loader h batches inflight "next" es rule: join_loop.induct)
  case (1 w loader h batches inflight "next" es)
  show ?case
  proof (cases "inflight = []")
    case True
    then show ?thesis by (simp add: join_loop.simps)
  next
    case False
    define i where "i = inflight ! (rw_finishes w inflight next mod length inflight)"
    note IH = 1(1,2) [OF False refl i_def refl]
    show ?thesis
    proof (cases "query_batch_with_retry w h i (batches ! i) (cl_timeout_ms loader) (cl_max_retries loader)")
      case (Inl e)
      then have "no_panic (Inl e :: AddressBalance list list result)" using query_no_panic [OF 1(3)] by metis
      then show ?thesis using Inl False
        by (subst join_loop.simps) (simp add: Let_def i_def no_panic_def)
    next
      case q: (Inr balances)
      show ?thesis
      proof (cases "collect_batch_balances (batches ! i) balances")
        case (Inl e)
        then show ?thesis using collect_batch_no_panic [of "batches ! i" balances] False q
          by (subst join_loop.simps) (simp add: Let_def i_def no_panic_def)
      next
        case (Inr entries)
        then show ?thesis using IH [OF q Inr] 1(3) False q
          by (subst join_loop.simps) (simp add: Let_def i_def)
      qed
    qed
  qed
qed

lemma load_balances_no_panic:
  assumes "\<And>i k as h. no_panic (rw_answer w i k as h)"
  shows "no_panic (load_balances w loader as h)"
  by (cases loader) (simp_all add: load_balances_serial_def load_balances_concurrent_def Let_def
      serial_no_panic [OF assms] join_no_panic [OF assms])

lemma load_active_no_panic: "no_panic (load_active_passes ot ps h db)"
proof -
  have "load_active_loop fuel page ps h db acc \<noteq> Some (Inl (Panic e))" for fuel page acc e
    using load_active_loop_err by blast
  then show ?thesis
    unfolding load_active_passes_def
    by (auto simp: no_panic_def simp del: load_active_loop.simps split: option.splits sum.splits)
qed

lemma insert_balances_no_panic: "no_panic (insert_balances es m)"
  by (induction es m rule: insert_balances.induct) auto

lemma settle_passes_no_panic: "no_panic (settle_passes h ps m t rows)"
  by (induction ps arbitrary: m t rows) (auto split: option.splits)

lemma assert_no_data_no_panic: "no_panic (assert_no_data_after_block_height h db)"
  by (simp add: assert_no_data_after_block_height_def Let_def)

lemma settle_panic_free:
  assumes "\<And>i k as h. no_panic (rw_answer w i k as h)"
  shows "panic_free (settle_active_balance_with_details ot w mon h)"
  unfolding settle_active_balance_with_details_def
  by (intro panic_free_intro assert_no_data_no_panic load_active_no_panic load_balances_no_panic assms
      insert_balances_no_panic settle_passes_no_panic)

lemma settle_passes_heights:
  "settle_passes h ps m t rows = Inr (m', t', rows') \<Longrightarrow> \<forall>r \<in> set rows. pb_block_height r = h \<Longrightarrow>
    \<forall>r \<in> set rows'. pb_block_height r = h"
proof (induction ps arbitrary: m t rows)
  case (Cons p ps)
  have row: "pb_block_height (pass_balance h p b) = h" for b by (simp add: pass_balance_def)
  from Cons.prems(1) obtain b where "settle_passes h ps (filter (\<lambda>e. fst e \<noteq> ap_owner p) m) (sat_add t (bal_balance b))
      (rows @ [pass_balance h p b]) = Inr (m', t', rows')" by (simp split: option.splits if_splits)
  then show ?case by (rule Cons.IH) (use Cons.prems(2) row in auto)
qed simp

lemma settle_cases:
  assumes "settle_active_balance_with_details ot w mon h db = (r, db')"
  obtains (err) e where "r = Inl e" and "db' = db"
    | (ok) st total n where "r = Inr st" and "db' = upsert_active_balance_snapshot h total n db"
        and "\<forall>row \<in> set (bs_active_pass_balances st). pb_block_height row = h"
proof (cases r)
  case (Inl e)
  then have "db' = db"
    using assms by (auto simp: settle_active_balance_with_details_def elim!: bindR_cases split: if_splits prod.splits)
  with Inl show thesis by (rule err)
next
  case (Inr st)
  from assms [unfolded Inr settle_active_balance_with_details_def] obtain ps m total rows
    where "settle_passes h ps m 0 [] = Inr ([], total, rows)"
      and "st = \<lparr>bs_snapshot = \<lparr>as_block_height = h, as_total_balance = total, as_active_address_count = of_nat (length ps)\<rparr>,
              bs_active_pass_balances = rows\<rparr>"
      and "db' = upsert_active_balance_snapshot h total (of_nat (length ps)) db"
    by (auto simp: bindR_Inr_eq split: if_splits prod.splits)
  moreover from this(1) have "\<forall>row \<in> set rows. pb_block_height row = h" by (rule settle_passes_heights) simp
  ultimately show thesis using Inr by (intro ok) auto
qed

end
