(* ===== verification/Indexer_Atomic.thy ===== *)
theory Indexer_Atomic
  imports Indexer_Steps
begin

text \<open>
  A block is all or nothing.  \<open>ix_ok t\<close> is the state of an indexer that has synced height \<open>t\<close>; one more
  block either succeeds and establishes it for the next height, or fails and leaves the pass database,
  the tracked passes and the meaning of the energy records as they were.
\<close>

section \<open>Undoing the energy records of a block\<close>

text \<open>The store \<open>en\<close> after a failed block: nothing above the durable height \<open>t\<close>, nothing lost, the same
  last state and owner of every pass.\<close>

definition undone :: "u32 \<Rightarrow> energy_db \<Rightarrow> energy_db \<Rightarrow> bool" where
  "undone t en0 en \<longleftrightarrow> energy_db_ok en \<and> energy_upto t en \<and> get_synced_block_height en = Inr (Some t) \<and>
     (\<forall>i k v. get_pass_energy_record i k en0 = Some v \<longrightarrow> get_pass_energy_record i k en = Some v) \<and>
     (\<forall>i. last_sig t i en = last_sig t i en0)"

lemma last_sig_cong:
  assumes "energy_db_ok en" and "energy_db_ok en'"
    and "\<And>i k. k \<le> t \<Longrightarrow> get_pass_energy_record i k en' = get_pass_energy_record i k en"
  shows "last_sig t i en' = last_sig t i en"
  using find_last_below [OF assms(1,2), of t i] assms(3) by (simp add: last_sig_def)

lemma meta_records [simp]:
  "get_pass_energy_record i k (set_pending_block_height h en) = get_pass_energy_record i k en"
  "get_pass_energy_record i k (finalize_block_sync_meta h en) = get_pass_energy_record i k en"
  "energy_db_ok (set_pending_block_height h en) = energy_db_ok en"
  "energy_db_ok (finalize_block_sync_meta h en) = energy_db_ok en"
  by (simp_all add: markers energy_db_ok_meta)

lemma meta_markers [simp]:
  "get_pending_block_height (set_pending_block_height h en) = Inr (Some h)"
  "get_synced_block_height (set_pending_block_height h en) = get_synced_block_height en"
  "get_pending_block_height (finalize_block_sync_meta h en) = Inr None"
  "get_synced_block_height (finalize_block_sync_meta h en) = Inr (Some h)"
  by (simp_all add: markers)

lemma meta_last_sig [simp]:
  assumes "energy_db_ok en"
  shows "last_sig t i (set_pending_block_height h en) = last_sig t i en"
    and "last_sig t i (finalize_block_sync_meta h en) = last_sig t i en"
  by (rule last_sig_cong; simp add: assms)+

lemma cut_undone:
  assumes ok0: "energy_db_ok en0" and up: "energy_upto t en0"
    and w: "block_writes t (set_pending_block_height h en0) en" and ok: "energy_db_ok en'"
    and cut: "\<And>i k. get_pass_energy_record i k en' = (if k \<le> t then get_pass_energy_record i k en else None)"
    and s: "get_synced_block_height en' = Inr (Some t)"
  shows "undone t en0 en'"
proof -
  have okp: "energy_db_ok (set_pending_block_height h en0)" using ok0 by simp
  have oke: "energy_db_ok en" using w okp by (simp add: block_writes_def)
  have keep: "get_pass_energy_record i k en = Some v" if "k \<le> t" "get_pass_energy_record i k en0 = Some v" for i k v
    using w okp that by (simp add: block_writes_def)
  have "last_sig t i en' = last_sig t i en" for i by (rule last_sig_cong [OF oke ok]) (simp add: cut)
  moreover have "last_sig t i en = last_sig t i en0" for i using w okp ok0 by (simp add: block_writes_def)
  moreover have "k \<le> t" if "get_pass_energy_record i k en0 = Some v" for i k v
    using up that by (auto simp: energy_upto_def not_less [symmetric])
  ultimately show ?thesis
    using ok s keep by (auto simp: undone_def energy_upto_def cut)
qed

text \<open>An aborted block, a block rolled back after it was finalized, and a block that only began.\<close>

lemma abort_undone:
  assumes ok: "energy_db_ok en0" and up: "energy_upto t en0" and s: "get_synced_block_height en0 = Inr (Some t)"
    and w: "block_writes t (set_pending_block_height h en0) en" and ht: "\<And>k. k < h \<longleftrightarrow> k \<le> t"
  obtains en' where "abort_pending_block_sync h en = (Inr (), en')" and "undone t en0 en'"
    and "get_pending_block_height en' = Inr None"
proof -
  have okp: "energy_db_ok (set_pending_block_height h en0)" using ok by simp
  have e: "energy_db_ok en" "get_pending_block_height en = Inr (Some h)" "get_synced_block_height en = Inr (Some t)"
    using w okp s by (simp_all add: block_writes_def)
  let ?en = "clear_pending_block_height (energy_clear h en)"
  have a: "abort_pending_block_sync h en = (Inr (), ?en)"
    using e by (simp add: abort_pending_block_sync_def clear_op)
  have ok': "energy_db_ok ?en" using e(1) by (simp add: markers energy_db_ok_meta energy.ok_clear)
  have s': "get_synced_block_height ?en = Inr (Some t)" using e by (simp add: markers clear_meta)
  have "undone t en0 ?en"
    by (rule cut_undone [OF ok up w ok' _ s']) (simp add: markers energy.get_clear [OF e(1)] ht)
  moreover have "get_pending_block_height ?en = Inr None" by (simp add: markers)
  ultimately show thesis using a that by blast
qed

lemma rollback_undone:
  assumes ok: "energy_db_ok en0" and up: "energy_upto t en0"
    and w: "block_writes t (set_pending_block_height h en0) en" and th: "t < h"
  obtains en' where "rollback_to_pass_synced_height t (finalize_block_sync_meta h en) = (Inr (), en')"
    and "undone t en0 en'" and "get_pending_block_height en' = Inr None"
proof -
  have oke: "energy_db_ok en" using w ok by (simp add: block_writes_def)
  then have "energy_db_ok (finalize_block_sync_meta h en)" by simp
  from reconcile_effect [OF this meta_markers(3,4), of t] obtain en' where
    r: "reconcile_with_pass_synced_height t (finalize_block_sync_meta h en) = (Inr (), en')" "energy_db_ok en'"
    "get_pending_block_height en' = Inr None" "get_synced_block_height en' = Inr (Some t)"
    "\<And>i k. get_pass_energy_record i k en' = (if k \<le> t then get_pass_energy_record i k en else None)"
    using th by (auto simp: not_less)
  have "undone t en0 en'" by (rule cut_undone [OF ok up w r(2,5,4)])
  with r show thesis by (intro that) (simp_all add: rollback_to_pass_synced_height_def)
qed

lemma begun_undone:
  assumes "energy_db_ok en" and "energy_upto t en" and "get_synced_block_height en = Inr (Some t)"
  shows "undone t en (set_pending_block_height h en)"
  by (rule cut_undone [OF assms(1,2), where h = h and en = "set_pending_block_height h en"])
    (use assms in \<open>auto simp: block_writes_def energy_upto_def not_le\<close>)

text \<open>The next start reconciles an undone store.\<close>

lemma reconcile_undone:
  assumes u: "undone t en0 en" and p: "get_pending_block_height en = Inr p" "p = None \<or> p = Some h" and th: "t < h"
  obtains en' where "reconcile_with_pass_synced_height t en = (Inr (), en')" and "undone t en0 en'"
    and "get_pending_block_height en' = Inr None"
proof -
  from u have ok: "energy_db_ok en" and up: "energy_upto t en" and s: "get_synced_block_height en = Inr (Some t)"
    by (simp_all add: undone_def)
  from reconcile_effect [OF ok p(1) s, of t] obtain en' where
    r: "reconcile_with_pass_synced_height t en = (Inr (), en')" "energy_db_ok en'"
    "get_pending_block_height en' = Inr None" "get_synced_block_height en' = Inr (Some t)"
    "\<And>i k. get_pass_energy_record i k en' =
       (if k \<le> t \<and> (case p of None \<Rightarrow> True | Some q \<Rightarrow> k < q) then get_pass_energy_record i k en else None)"
    by auto
  have g: "get_pass_energy_record i k en' = get_pass_energy_record i k en" for i k
  proof (cases "k \<le> t")
    case True
    then show ?thesis using p(2) th r(5) by auto
  next
    case False
    then show ?thesis using up r(5) by (simp add: energy_upto_def not_le)
  qed
  have "last_sig t i en' = last_sig t i en" for i by (rule last_sig_cong [OF ok r(2) g])
  then have "undone t en0 en'" using u r(2,4) g by (simp add: undone_def energy_upto_def)
  with r show thesis using that by blast
qed

section \<open>The state between two blocks\<close>

text \<open>Everything but the savepoints of the connection, and with none.\<close>

definition at_height :: "u32 \<Rightarrow> indexer \<Rightarrow> bool" where
  "at_height t s \<longleftrightarrow> mgr_inv t (ix_mgr s) \<and> timeline_ok (ix_db s) \<and> data_upto t (ix_db s) \<and>
     get_synced_btc_block_height (ix_db s) = Some t \<and> mg_collector (ix_mgr s) = None \<and>
     get_synced_block_height (ix_energy s) = Inr (Some t) \<and> get_pending_block_height (ix_energy s) = Inr None \<and>
     tr_staged_blocks (ix_tracker s) = []"

definition ix_ok :: "u32 \<Rightarrow> indexer \<Rightarrow> bool" where
  "ix_ok t s \<longleftrightarrow> at_height t s \<and> ps_savepoints (mg_store (ix_mgr s)) = []"

lemma at_height_energy:
  assumes "at_height t s"
  shows "energy_db_ok (ix_energy s)" and "energy_upto t (ix_energy s)" and "get_synced_block_height (ix_energy s) = Inr (Some t)"
  using assms by (simp_all add: at_height_def mgr_inv_def mgr_inv_but_def)

section \<open>Recovery of a failed block\<close>

text \<open>The manager when block \<open>h\<close> has begun, the states during the block, and the states after its energy
  records were finalized.\<close>

definition begun :: "u32 \<Rightarrow> indexer \<Rightarrow> pass_mgr" where
  "begun h s = (ix_mgr s)\<lparr>mg_energy := set_pending_block_height h (ix_energy s),
     mg_collector := Some (PassBlockMutationCollector_new h)\<rparr>"

definition staged_over :: "u32 \<Rightarrow> indexer \<Rightarrow> indexer \<Rightarrow> bool" where
  "staged_over h s0 s \<longleftrightarrow> tr_inscriptions (ix_tracker s) = tr_inscriptions (ix_tracker s0) \<and>
     (\<exists>m. tr_staged_blocks (ix_tracker s) = [(h, m)])"

definition in_block :: "u32 \<Rightarrow> u32 \<Rightarrow> indexer \<Rightarrow> indexer \<Rightarrow> bool" where
  "in_block t h s0 s \<longleftrightarrow> mgr_step t h (begun h s0) (ix_mgr s) \<and> staged_over h s0 s"

definition finalized :: "u32 \<Rightarrow> u32 \<Rightarrow> indexer \<Rightarrow> indexer \<Rightarrow> bool" where
  "finalized t h s0 s \<longleftrightarrow>
     (\<exists>en. block_writes t (set_pending_block_height h (ix_energy s0)) en \<and> ix_energy s = finalize_block_sync_meta h en) \<and>
     mgr_moves h (ix_mgr s0) (ix_mgr s) \<and> mgr_same_state (ix_mgr s0) (ix_mgr s) \<and> staged_over h s0 s"

text \<open>What a failed block leaves, up to the pass database, which its savepoint restores.\<close>

definition failed :: "u32 \<Rightarrow> u32 \<Rightarrow> indexer \<Rightarrow> indexer \<Rightarrow> bool" where
  "failed t h s0 s \<longleftrightarrow> undone t (ix_energy s0) (ix_energy s) \<and>
     (\<exists>p. get_pending_block_height (ix_energy s) = Inr p \<and> (p = None \<or> p = Some h)) \<and>
     ps_savepoints (mg_store (ix_mgr s)) = ps_savepoints (mg_store (ix_mgr s0)) \<and>
     tr_inscriptions (ix_tracker s) = tr_inscriptions (ix_tracker s0) \<and> tr_staged_blocks (ix_tracker s) = []"

lemma same_state_synced: "same_state db db' \<Longrightarrow> get_synced_btc_block_height db' = get_synced_btc_block_height db"
  by (simp add: same_state_def get_synced_btc_block_height_def get_numeric_state_def)

lemma err_Inr: "m s = (Inr x, s') \<Longrightarrow> err m s = (Inr None, s')"
  by (simp add: err_def)

lemma on_energy_run:
  "m (ix_energy s) = (r, en) \<Longrightarrow> on_mgr (on_energy m) s = (r, s\<lparr>ix_mgr := (ix_mgr s)\<lparr>mg_energy := en\<rparr>\<rparr>)"
  by (simp add: on_mgr_def on_energy_def zoom_def)

lemma on_store_run:
  "m (mg_store (ix_mgr s)) = (r, p) \<Longrightarrow> on_store m s = (r, s\<lparr>ix_mgr := (ix_mgr s)\<lparr>mg_store := p\<rparr>\<rparr>)"
  by (simp add: on_store_def on_mgr_def zoom_def)

lemma on_tracker_run:
  "m (ix_tracker s) = (r, tr) \<Longrightarrow> on_tracker m s = (r, s\<lparr>ix_tracker := tr\<rparr>)"
  by (simp add: on_tracker_def zoom_def)

text \<open>Both recoveries end with the staged transfers dropped.\<close>

lemma recover_run:
  assumes e: "(if fin then rollback_to_pass_synced_height (pass_synced_height s) else abort_pending_block_sync h) (ix_energy s) =
      (Inr (), en)"
    and st: "staged_over h s0 s"
    and u: "undone t (ix_energy s0) en" and p: "get_pending_block_height en = Inr None"
    and sp: "ps_savepoints (mg_store (ix_mgr s)) = ps_savepoints (mg_store (ix_mgr s0))"
  shows "\<exists>s'. recover_failed_block_sync h True fin msg s = (Inr msg, s') \<and> failed t h s0 s'"
proof -
  let ?s1 = "s\<lparr>ix_mgr := (ix_mgr s)\<lparr>mg_energy := en\<rparr>\<rparr>"
  let ?s2 = "?s1\<lparr>ix_tracker := (ix_tracker s)\<lparr>tr_staged_blocks := []\<rparr>\<rparr>"
  from st obtain m where m: "tr_staged_blocks (ix_tracker s) = [(h, m)]" by (auto simp: staged_over_def)
  have "err (on_mgr (on_energy (if fin then rollback_to_pass_synced_height (pass_synced_height s)
      else abort_pending_block_sync h))) s = (Inr None, ?s1)"
    by (rule err_Inr, rule on_energy_run) (rule e)
  moreover have "err (on_tracker (rollback_staged_block h)) ?s1 = (Inr None, ?s2)"
    by (rule err_Inr [OF on_tracker_run]) (simp add: rollback_staged_block_def m AList.delete_eq)
  ultimately have "recover_failed_block_sync h True fin msg s = (Inr msg, ?s2)"
    by (cases fin) (simp_all add: recover_failed_block_sync_def merge_block_failure_with_recovery_def Let_def)
  moreover have "failed t h s0 ?s2" using st u p sp by (simp add: failed_def staged_over_def)
  ultimately show ?thesis by blast
qed

lemma recover_in_block:
  assumes at: "at_height t s0" and ht: "\<And>k. k < h \<longleftrightarrow> k \<le> t" and b: "in_block t h s0 s"
  shows "\<exists>s'. recover_failed_block_sync h True False msg s = (Inr msg, s') \<and> failed t h s0 s'"
proof -
  have w: "block_writes t (set_pending_block_height h (ix_energy s0)) (ix_energy s)"
    using b by (simp add: in_block_def mgr_step_def mgr_block_def begun_def)
  obtain en where "abort_pending_block_sync h (ix_energy s) = (Inr (), en)" "undone t (ix_energy s0) en"
    "get_pending_block_height en = Inr None"
    by (rule abort_undone [OF at_height_energy [OF at] w ht]) (rule that)
  moreover have "ps_savepoints (mg_store (ix_mgr s)) = ps_savepoints (mg_store (ix_mgr s0))"
    using b by (simp add: in_block_def mgr_step_def mgr_moves_def begun_def)
  moreover have "staged_over h s0 s" using b by (simp add: in_block_def)
  ultimately show ?thesis by (intro recover_run [of False s h en s0 t msg]) simp_all
qed

lemma recover_finalized:
  assumes at: "at_height t s0" and th: "t < h" and b: "finalized t h s0 s"
  shows "\<exists>s'. recover_failed_block_sync h True True msg s = (Inr msg, s') \<and> failed t h s0 s'"
proof -
  from b obtain en where w: "block_writes t (set_pending_block_height h (ix_energy s0)) en"
    and e: "ix_energy s = finalize_block_sync_meta h en" by (auto simp: finalized_def)
  have "same_state (ix_db s0) (ix_db s)" using b by (simp add: finalized_def mgr_same_state_def)
  then have "pass_synced_height s = t"
    using at by (simp add: pass_synced_height_def at_height_def same_state_synced)
  moreover obtain en' where "rollback_to_pass_synced_height t (finalize_block_sync_meta h en) = (Inr (), en')"
    "undone t (ix_energy s0) en'" "get_pending_block_height en' = Inr None"
    by (rule rollback_undone [OF at_height_energy(1,2) [OF at] w th]) (rule that)
  moreover have "ps_savepoints (mg_store (ix_mgr s)) = ps_savepoints (mg_store (ix_mgr s0))"
    using b by (simp add: finalized_def mgr_moves_def)
  moreover have "staged_over h s0 s" using b by (simp add: finalized_def)
  ultimately show ?thesis by (intro recover_run [of True s h en' s0 t msg]) (simp_all add: e)
qed

lemma triple_recovering:
  assumes "triple m s Q E" and "\<And>s' msg. E s' \<Longrightarrow> \<exists>s''. recover_failed_block_sync h True fin msg s' = (Inr msg, s'') \<and> F s''"
  shows "triple (recovering h fin m) s Q F"
  using assms(1)
proof (cases rule: triple_cases)
  case (ok x s')
  then show ?thesis by (simp add: triple_def recovering_def)
next
  case (err e s')
  with assms(2) [of s' e] obtain s'' where "recover_failed_block_sync h True fin e s' = (Inr e, s'')" "F s''" by blast
  with err show ?thesis by (simp add: triple_def recovering_def)
qed

lemma recovering_in_block:
  assumes "at_height t s0" and "\<And>k. k < h \<longleftrightarrow> k \<le> t" and "triple m s Q (in_block t h s0)"
  shows "triple (recovering h False m) s Q (failed t h s0)"
  by (rule triple_recovering [OF assms(3)]) (rule recover_in_block [OF assms(1,2)])

lemma recovering_finalized:
  assumes "at_height t s0" and "t < h" and "triple m s Q (finalized t h s0)"
  shows "triple (recovering h True m) s Q (failed t h s0)"
  by (rule triple_recovering [OF assms(3)]) (rule recover_finalized [OF assms(1,2)])

section \<open>The steps of a block\<close>

text \<open>A step of the manager during the block.\<close>

lemma triple_in_block:
  assumes m: "safe False m (ix_mgr s) Q" and mv: "moves (mgr_step t h) m" and b: "in_block t h s0 s"
  shows "triple (on_mgr m) s (\<lambda>x s'. Q x (ix_mgr s') \<and> in_block t h s0 s') (in_block t h s0)"
proof (rule triple_on_mgr, rule triple_conseq [OF triple_safe [OF m mv]])
  have "in_block t h s0 (s\<lparr>ix_mgr := g\<rparr>)" if "mgr_step t h (ix_mgr s) g" for g
    using b that transpD [OF mgr_step_preorder(2)] unfolding in_block_def staged_over_def by fastforce
  then show "Q x g \<and> mgr_step t h (ix_mgr s) g \<Longrightarrow> Q x (ix_mgr (s\<lparr>ix_mgr := g\<rparr>)) \<and> in_block t h s0 (s\<lparr>ix_mgr := g\<rparr>)"
    and "mgr_step t h (ix_mgr s) g \<Longrightarrow> in_block t h s0 (s\<lparr>ix_mgr := g\<rparr>)" for x g
    by simp_all
qed

lemma execute_triple:
  assumes "mgr_inv h (ix_mgr s)" and "in_block t h s0 s" and "t < h" and "provider_ok bp"
    and "\<forall>e \<in> set evs. event_at parse_id h e"
  shows "triple (on_mgr (execute bp parse_id evs)) s (\<lambda>_ s'. mgr_inv h (ix_mgr s') \<and> in_block t h s0 s') (in_block t h s0)"
proof (rule triple_in_block [OF _ mgr_step_execute [OF assms(3-5)] assms(2)])
  show "safe False (execute bp parse_id evs) (ix_mgr s) (\<lambda>_. mgr_inv h)"
    unfolding execute_def by (rule safe_weaken [OF safe_foldR_events [OF assms(1,4,5)]]) simp_all
qed

lemma invalid_mints_triple:
  assumes "mgr_inv h (ix_mgr s)" and "in_block t h s0 s" and "t < h" and "\<forall>iv \<in> set ivs. iv_mint_block_height iv = h"
  shows "triple (on_mgr (process_invalid_mints ivs)) s (\<lambda>_ s'. mgr_inv h (ix_mgr s') \<and> in_block t h s0 s') (in_block t h s0)"
  by (rule triple_in_block [OF safe_invalid_mints [OF assms(1,4)] mgr_step_invalid_mints [OF assms(3,4)] assms(2)])

text \<open>Writes of the side tables of the database.\<close>

lemma mgr_inv_side:
  assumes "mgr_inv h g" and "pass_write h (mg_db g) db" and "db_passes db = db_passes (mg_db g)"
  shows "mgr_inv h (g\<lparr>mg_store := (mg_store g)\<lparr>ps_db := db\<rparr>\<rparr>)"
  using assms pass_write_ok [OF assms(2)] by (simp add: mgr_inv_def mgr_inv_but_def)

lemma settle_triple:
  assumes inv: "mgr_inv h (ix_mgr s)" and b: "in_block t h s0 s"
    and w: "\<And>i k as h. no_panic (rw_answer w i k as h)"
  shows "triple (on_mgr (on_db (settle_active_balance_with_details ot w mon h))) s
    (\<lambda>st s'. (\<forall>row \<in> set (bs_active_pass_balances st). pb_block_height row = h) \<and>
       h \<in> ab_block_height ` set (db_balance_snapshots (ix_db s')) \<and> mgr_inv h (ix_mgr s') \<and> in_block t h s0 s')
    (in_block t h s0)"
proof -
  let ?m = "settle_active_balance_with_details ot w mon h"
  let ?put = "\<lambda>db. (ix_mgr s)\<lparr>mg_store := (mg_store (ix_mgr s))\<lparr>ps_db := db\<rparr>\<rparr>"
  have mv: "moves (mgr_step t h) (on_db ?m)"
  proof (rule mgr_stepI [OF mgr_block_on_db])
    show "moves (mgr_moves h) (on_db ?m)"
      by (rule moves_on_db) (erule settle_cases, auto intro: pass_write.balance)
    have "moves same_state ?m"
      unfolding moves_def
    proof
      fix db
      show "same_state db (snd (?m db))"
        by (rule settle_cases [of ot w mon h db "fst (?m db)" "snd (?m db)"])
          (auto simp: same_state_def upsert_active_balance_snapshot_def upsert_balance_row_def)
    qed
    then show "moves mgr_same_state (on_db ?m)" by (rule mgr_same_state_ops)
  qed
  obtain r db' where m: "?m (ix_db s) = (r, db')" by fastforce
  have o: "on_db ?m (ix_mgr s) = (r, ?put db')" by (simp add: on_db_def zoom_def m)
  have "safe False (on_db ?m) (ix_mgr s) (\<lambda>st g. (\<forall>row \<in> set (bs_active_pass_balances st). pb_block_height row = h) \<and>
      h \<in> ab_block_height ` set (db_balance_snapshots (mg_db g)) \<and> mgr_inv h g)"
  proof (rule safeI [where r = r and s' = "?put db'"], rule o)
    show "no_panic r" using settle_panic_free [OF w, of ot mon h] m by (metis fst_conv panic_free_def)
    fix st assume st: "r = Inr st"
    show "(\<forall>row \<in> set (bs_active_pass_balances st). pb_block_height row = h) \<and>
      h \<in> ab_block_height ` set (db_balance_snapshots (mg_db (?put db'))) \<and> mgr_inv h (?put db')"
    proof (cases rule: settle_cases [OF m, case_names bad good])
      case bad
      with st show ?thesis by simp
    next
      case (good st' total n)
      have "mgr_inv h (?put db')"
        by (rule mgr_inv_side [OF inv])
          (auto simp: good(2) upsert_active_balance_snapshot_def upsert_balance_row_def
            intro: pass_write.balance [unfolded upsert_active_balance_snapshot_def upsert_balance_row_def])
      moreover have "h \<in> ab_block_height ` set (db_balance_snapshots db')"
        by (simp add: good(2) upsert_active_balance_snapshot_def upsert_balance_row_def keys_upsert_by)
      ultimately show ?thesis using good st by simp
    qed
  qed simp_all
  then show ?thesis by (rule triple_conseq [OF triple_in_block [OF _ mv b]]) simp_all
qed

text \<open>The balance changes of the block.\<close>

lemma apply_change_inv:
  assumes inv: "mgr_inv h g" and r: "apply_active_balance_change i own h bal d (mg_energy g) = (r, en')"
  shows "no_panic r \<and> mgr_inv h (g\<lparr>mg_energy := en'\<rparr>)"
proof -
  have ok: "energy_db_ok (mg_energy g)" and up: "energy_upto h (mg_energy g)"
    using inv by (simp_all add: mgr_inv_def mgr_inv_but_def)
  have p: "no_panic r"
    using r by (auto simp: apply_active_balance_change_def apply_active_balance_change_internal_def find_last_op [OF ok]
        insert_op [OF ok] Let_def no_panic_def bindR_def split: if_splits option.splits)
  show ?thesis
  proof (cases rule: apply_change_cases [OF ok r, case_names same changed])
    case same
    then show ?thesis using p inv by simp
  next
    case (changed x v)
    let ?w = "value_of_record (next_energy_record i (with_height i (x, v))
          \<lparr>bal_block_height = h, bal_balance = bal, bal_delta = d\<rparr>)"
    have w: "ev_state ?w = Active" "ev_owner_address ?w = own"
      using changed(4,5) by (simp_all add: value_of_record_def next_energy_record_def with_height_def record_of_def Let_def)
    have "row_agrees h en' m" if "m \<in> set (db_passes (mg_db g))" for m
    proof (cases "mp_inscription_id m = i")
      case True
      have "row_agrees h (mg_energy g) m" using inv that by (simp add: mgr_inv_def mgr_inv_but_def)
      then show ?thesis
        using True w changed by (auto simp: row_agrees_def energy.find_last_put_here [OF ok])
    next
      case False
      then have "get_pass_energy_record (mp_inscription_id m) k en' = get_pass_energy_record (mp_inscription_id m) k (mg_energy g)" for k
        by (simp add: changed(7) energy.get_put [OF ok])
      then show ?thesis
        using row_agrees_cong [OF ok, of en' m h] inv that energy.ok_put [OF ok] changed(7)
        by (simp add: mgr_inv_def mgr_inv_but_def)
    qed
    moreover have "energy_upto h en'" using up by (auto simp: changed(7) energy_upto_def energy.get_put [OF ok])
    ultimately show ?thesis
      using p inv changed(7) energy.ok_put [OF ok] by (simp add: mgr_inv_def mgr_inv_but_def)
  qed
qed

lemma apply_row_triple:
  assumes inv: "mgr_inv h (ix_mgr s)" and b: "in_block t h s0 s" and th: "t < h" and row: "pb_block_height row = h"
  shows "triple (apply_settlement_row row n) s (\<lambda>_ s'. mgr_inv h (ix_mgr s') \<and> in_block t h s0 s') (in_block t h s0)"
proof (cases "pb_delta row = 0")
  case True
  show ?thesis unfolding apply_settlement_row_def if_P [OF True] by (rule triple_ret) (use inv b in simp)
next
  case False
  let ?m = "apply_active_balance_change (pb_inscription_id row) (pb_owner row) h (pb_balance row) (pb_delta row)"
  obtain r en' where m: "?m (ix_energy s) = (r, en')" by fastforce
  have o: "on_energy ?m (ix_mgr s) = (r, (ix_mgr s)\<lparr>mg_energy := en'\<rparr>)" by (simp add: on_energy_def zoom_def m)
  have sf: "safe False (on_energy ?m) (ix_mgr s) (\<lambda>_. mgr_inv h)"
    using apply_change_inv [OF inv m] o by (simp add: safe_def)
  have "moves (mgr_step t h) (on_energy ?m)"
    by (intro mgr_stepI mgr_block_on_energy moves_apply_change th mgr_same_state_ops)
      (auto simp: moves_def mgr_moves_def on_energy_def zoom_def split: prod.splits)
  note t = triple_in_block [OF sf this b]
  show ?thesis
    unfolding apply_settlement_row_def row if_not_P [OF False] by (rule triple_bind [OF t]) (rule triple_ret, simp)
qed

lemma apply_rows_triple:
  assumes "mgr_inv h (ix_mgr s)" and "in_block t h s0 s" and "t < h" and "\<forall>row \<in> set rows. pb_block_height row = h"
    and "P (ix_db s)"
  shows "triple (foldR apply_settlement_row rows n) s
    (\<lambda>_ s'. P (ix_db s') \<and> mgr_inv h (ix_mgr s') \<and> in_block t h s0 s') (in_block t h s0)"
  using assms
proof (induction rows arbitrary: s n)
  case Nil
  show ?case unfolding foldR.simps by (rule triple_ret) (use Nil in simp)
next
  case (Cons row rows)
  have same: "ix_db s' = ix_db s" if "apply_settlement_row row n s = (x, s')" for x s'
    using that by (auto simp: apply_settlement_row_def bindR_def on_mgr_def on_energy_def zoom_def split: prod.splits sum.splits if_splits)
  have t: "triple (apply_settlement_row row n) s (\<lambda>_ s'. mgr_inv h (ix_mgr s') \<and> in_block t h s0 s') (in_block t h s0)"
    by (rule apply_row_triple [OF Cons.prems(1-3)]) (use Cons.prems(4) in simp)
  then have "triple (apply_settlement_row row n) s
      (\<lambda>_ s'. P (ix_db s') \<and> mgr_inv h (ix_mgr s') \<and> in_block t h s0 s') (in_block t h s0)"
    using same Cons.prems(5) by (cases "apply_settlement_row row n s") (auto simp: triple_def)
  then show ?case unfolding foldR.simps
    by (rule triple_bind) (rule Cons.IH, use Cons.prems(3,4) in simp_all)
qed

section \<open>After the energy records are final\<close>

lemma finalize_triple:
  assumes inv: "mgr_inv h (ix_mgr s)" and b: "in_block t h s0 s" and ok: "energy_db_ok (ix_energy s0)" and P: "P (ix_db s)"
  shows "triple (on_mgr (on_energy (finalize_block_sync h))) s
    (\<lambda>_ s'. P (ix_db s') \<and> mgr_inv h (ix_mgr s') \<and> finalized t h s0 s' \<and>
       map_option co_block_height (mg_collector (ix_mgr s')) = Some h) E"
proof (rule triple_ok)
  let ?s = "s\<lparr>ix_mgr := (ix_mgr s)\<lparr>mg_energy := finalize_block_sync_meta h (ix_energy s)\<rparr>\<rparr>"
  have w: "block_writes t (set_pending_block_height h (ix_energy s0)) (ix_energy s)"
    and c: "map_option co_block_height (mg_collector (ix_mgr s)) = Some h"
    and mv: "mgr_moves h (ix_mgr s0) (ix_mgr s)" "mgr_same_state (ix_mgr s0) (ix_mgr s)"
    using b by (simp_all add: in_block_def mgr_step_def mgr_block_def begun_def PassBlockMutationCollector_new_def
        mgr_moves_def mgr_same_state_def)
  have oke: "energy_db_ok (ix_energy s)" "get_pending_block_height (ix_energy s) = Inr (Some h)"
    using w ok by (simp_all add: block_writes_def)
  show "on_mgr (on_energy (finalize_block_sync h)) s = (Inr (), ?s)"
    by (rule on_energy_run) (simp add: finalize_block_sync_def oke)
  have "row_agrees h (finalize_block_sync_meta h (ix_energy s)) m = row_agrees h (ix_energy s) m" for m
    by (rule row_agrees_cong) (simp_all add: oke)
  then have "mgr_inv h (ix_mgr ?s)" using inv by (simp add: mgr_inv_def mgr_inv_but_def energy_upto_def)
  moreover have "finalized t h s0 ?s"
    using w mv b by (auto simp: finalized_def in_block_def staged_over_def mgr_moves_def mgr_same_state_def)
  ultimately show "P (ix_db ?s) \<and> mgr_inv h (ix_mgr ?s) \<and> finalized t h s0 ?s \<and>
      map_option co_block_height (mg_collector (ix_mgr ?s)) = Some h"
    using P c by simp
qed

lemma take_triple:
  assumes inv: "mgr_inv h (ix_mgr s)" and b: "finalized t h s0 s" and P: "P (ix_db s)"
    and c: "map_option co_block_height (mg_collector (ix_mgr s)) = Some h"
  shows "triple (on_mgr (take_block_mutation_collector h)) s
    (\<lambda>c s'. co_block_height c = h \<and> P (ix_db s') \<and> mgr_inv h (ix_mgr s') \<and> finalized t h s0 s' \<and>
       mg_collector (ix_mgr s') = None) E"
proof -
  from c obtain col where col: "mg_collector (ix_mgr s) = Some col" "co_block_height col = h" by auto
  let ?s = "s\<lparr>ix_mgr := (ix_mgr s)\<lparr>mg_collector := None\<rparr>\<rparr>"
  have "on_mgr (take_block_mutation_collector h) s = (Inr col, ?s)"
    by (simp add: on_mgr_def zoom_def take_block_mutation_collector_def col)
  then show ?thesis
    by (rule triple_ok)
      (use col P inv b in \<open>simp add: mgr_inv_def mgr_inv_but_def finalized_def mgr_moves_def mgr_same_state_def staged_over_def\<close>)
qed

lemma persist_triple:
  assumes inv: "mgr_inv h (ix_mgr s)" and b: "finalized t h s0 s" and c: "mg_collector (ix_mgr s) = None"
    and env: "\<And>k. no_panic (en_block_commit env k)" and col: "co_block_height col = h"
    and bal: "h \<in> ab_block_height ` set (db_balance_snapshots (ix_db s))"
  shows "triple (persist_pass_block_commit env h col) s
    (\<lambda>_ s'. (\<exists>entry. get_pass_block_commit h (ix_db s') = Some entry) \<and>
       h \<in> ab_block_height ` set (db_balance_snapshots (ix_db s')) \<and>
       mgr_inv h (ix_mgr s') \<and> finalized t h s0 s' \<and> mg_collector (ix_mgr s') = None)
    (finalized t h s0)"
proof (cases "en_block_commit env h")
  case (Inl e)
  then show ?thesis using env [of h] b by (cases e) (auto simp: persist_pass_block_commit_def triple_def)
next
  case (Inr up)
  show ?thesis
  proof (cases up)
    case None
    then show ?thesis using Inr b by (simp add: persist_pass_block_commit_def triple_def)
  next
    case (Some u)
    let ?prev = "if h = 0 then None else get_pass_block_commit (h - 1) (ix_db s)"
    show ?thesis
    proof (cases "build_commit_entry (en_sha256 env) (en_encode env) col u ?prev")
      case (Inl e)
      then have "\<exists>m. e = Err m" by (auto simp: build_commit_entry_def Let_def split: if_splits)
      then show ?thesis using Inr Some Inl b by (auto simp: persist_pass_block_commit_def triple_def)
    next
      case entry: (Inr entry)
      then have h: "pc_block_height entry = h" using col by (auto simp: build_commit_entry_def Let_def split: if_splits)
      let ?db = "upsert_pass_block_commit entry (ix_db s)"
      let ?g = "(ix_mgr s)\<lparr>mg_store := (mg_store (ix_mgr s))\<lparr>ps_db := ?db\<rparr>\<rparr>"
      have run: "persist_pass_block_commit env h col s = (Inr (), s\<lparr>ix_mgr := ?g\<rparr>)"
        using Inr Some entry by (simp add: persist_pass_block_commit_def on_mgr_def on_db_def zoom_def)
      have w: "pass_write h (ix_db s) ?db" using h by (rule pass_write.commit)
      have "mgr_inv h ?g" by (rule mgr_inv_side [OF inv w]) (simp add: upsert_pass_block_commit_def)
      moreover have "finalized t h s0 (s\<lparr>ix_mgr := ?g\<rparr>)"
        using b w by (auto simp: finalized_def mgr_moves_def mgr_same_state_def same_state_def staged_over_def
            upsert_pass_block_commit_def intro: rtranclp.rtrancl_into_rtrancl)
      ultimately show ?thesis
        using c h bal run
        by (simp add: triple_def upsert_pass_block_commit_def get_pass_block_commit_def select_upsert_by)
    qed
  qed
qed

lemma plan_no_panic: "no_panic (plan id_text txs mints transfers)"
proof -
  have m: "no_panic (mapR (mint_key id_text p) mints)" for p
    by (rule mapR_no_panic) (simp add: mint_key_def split: option.splits)
  have t: "no_panic (mapR (transfer_key id_text p i) transfers)" for p i
    by (rule mapR_no_panic) (simp add: transfer_key_def split: option.splits)
  show ?thesis
    unfolding plan_def Let_def using m t
    by (auto simp: no_panic_def split: sum.splits)
qed

text \<open>A block that is done: its commit and balance row are stored, the markers are moved, nothing is staged.\<close>

definition block_done :: "u32 \<Rightarrow> indexer \<Rightarrow> indexer \<Rightarrow> bool" where
  "block_done h s0 s \<longleftrightarrow> (\<exists>entry. get_pass_block_commit h (ix_db s) = Some entry) \<and>
     h \<in> ab_block_height ` set (db_balance_snapshots (ix_db s)) \<and>
     mgr_inv h (ix_mgr s) \<and> mgr_moves h (ix_mgr s0) (ix_mgr s) \<and> mgr_same_state (ix_mgr s0) (ix_mgr s) \<and>
     mg_collector (ix_mgr s) = None \<and> get_synced_block_height (ix_energy s) = Inr (Some h) \<and>
     get_pending_block_height (ix_energy s) = Inr None \<and> tr_staged_blocks (ix_tracker s) = []"

lemma commit_staged_triple:
  assumes "(\<exists>entry. get_pass_block_commit h (ix_db s) = Some entry)"
    and "h \<in> ab_block_height ` set (db_balance_snapshots (ix_db s))" and "mgr_inv h (ix_mgr s)"
    and b: "finalized t h s0 s" and "mg_collector (ix_mgr s) = None"
  shows "triple (on_tracker (commit_staged_block h)) s (\<lambda>_ s'. block_done h s0 s' \<and>
    (\<exists>en. block_writes t (set_pending_block_height h (ix_energy s0)) en \<and> ix_energy s' = finalize_block_sync_meta h en)) E"
proof -
  from b obtain m where m: "tr_staged_blocks (ix_tracker s) = [(h, m)]" by (auto simp: finalized_def staged_over_def)
  let ?s = "s\<lparr>ix_tracker := (ix_tracker s)\<lparr>tr_staged_blocks := [], tr_inscriptions := m\<rparr>\<rparr>"
  have run: "on_tracker (commit_staged_block h) s = (Inr (), ?s)"
    by (rule on_tracker_run) (simp add: commit_staged_block_def m AList.delete_eq)
  show ?thesis
    by (rule triple_ok, rule run) (use assms in \<open>auto simp: block_done_def finalized_def\<close>)
qed

lemma apply_block_triple:
  assumes at: "at_height t s0" and ht: "\<And>k. k < h \<longleftrightarrow> k \<le> t" and env: "env_ok env"
    and b: "in_block t h s0 s" and inv: "mgr_inv h (ix_mgr s)"
    and mints: "\<forall>i \<in> set (cm_valid_items items). event_at (en_parse_id env) h (MintEvent i)"
    and ivs: "\<forall>iv \<in> set (cm_invalid_items items). iv_mint_block_height iv = h"
    and ts: "\<forall>it \<in> set transfers. ti_block_height it = h"
  shows "triple (apply_block env h block items transfers) s (\<lambda>_ s'. block_done h s0 s' \<and>
    (\<exists>en. block_writes t (set_pending_block_height h (ix_energy s0)) en \<and> ix_energy s' = finalize_block_sync_meta h en))
    (failed t h s0)"
proof -
  have th: "t < h" using ht by auto
  note ok0 = at_height_energy(1) [OF at]
  note A = recovering_in_block [OF at ht] and B = recovering_finalized [OF at th]
  have bp: "provider_ok (en_provider env)" and rpc: "\<And>i k as h. no_panic (rw_answer (en_rpc env) i k as h)"
    and bc: "\<And>k. no_panic (en_block_commit env k)" using env by (simp_all add: env_ok_def)
  let ?plan = "plan (en_id_text env) block (cm_valid_items items) transfers"
  let ?I = "\<lambda>s'. mgr_inv h (ix_mgr s') \<and> in_block t h s0 s'"
  let ?bal = "\<lambda>db. h \<in> ab_block_height ` set (db_balance_snapshots db)"
  show ?thesis
    unfolding apply_block_def
  proof (rule triple_bind [OF A])
    show "triple (getsR (\<lambda>_. ?plan)) s (\<lambda>evs s'. (\<forall>e \<in> set evs. event_at (en_parse_id env) h e) \<and> ?I s') (in_block t h s0)"
    proof (rule triple_getsR)
      show "no_panic ?plan" by (rule plan_no_panic)
      fix evs assume "?plan = Inr evs"
      then have "set evs = set (block_events (cm_valid_items items) transfers)" by (metis plan_sorted(1) set_mset_mset)
      then show "(\<forall>e \<in> set evs. event_at (en_parse_id env) h e) \<and> ?I s"
        using mints ts inv b by (auto simp: block_events_def)
    qed (rule b)
    fix evs s1 assume e: "(\<forall>e \<in> set evs. event_at (en_parse_id env) h e) \<and> ?I s1"
    have "triple (on_mgr (execute (en_provider env) (en_parse_id env) evs)) s1 (\<lambda>_. ?I) (in_block t h s0)"
      by (rule execute_triple [OF _ _ th bp]) (use e in simp_all)
    then show "triple (bindR (recovering h False (on_mgr (execute (en_provider env) (en_parse_id env) evs))) (\<lambda>counts.
        bindR (recovering h False (on_mgr (process_invalid_mints (cm_invalid_items items)))) (\<lambda>invalid_mints_count.
        bindR (recovering h False (on_mgr (on_db (settle_active_balance_with_details (en_owner_text env) (en_rpc env)
            (en_monitor env) h)))) (\<lambda>settlement.
        bindR (recovering h False (foldR apply_settlement_row (bs_active_pass_balances settlement) 0)) (\<lambda>energy_update_count.
        bindR (recovering h False (on_mgr (on_energy (finalize_block_sync h)))) (\<lambda>_.
        bindR (recovering h True (on_mgr (take_block_mutation_collector h))) (\<lambda>collector.
        bindR (recovering h True (persist_pass_block_commit env h collector)) (\<lambda>_.
        recovering h True (on_tracker (commit_staged_block h))))))))))
      s1 (\<lambda>_ s'. block_done h s0 s' \<and>
        (\<exists>en. block_writes t (set_pending_block_height h (ix_energy s0)) en \<and> ix_energy s' = finalize_block_sync_meta h en))
      (failed t h s0)"
    proof (rule triple_bind [OF A], goal_cases)
      case (1 counts s2)
      show ?case
      proof (rule triple_bind [OF A [OF invalid_mints_triple [OF _ _ th ivs]]], goal_cases)
        case (3 n s3)
        show ?case
        proof (rule triple_bind [OF A [OF settle_triple [OF _ _ rpc]]], goal_cases)
          case (3 st s4)
          show ?case
          proof (rule triple_bind [OF A [OF apply_rows_triple [where P = ?bal, OF _ _ th]]], goal_cases)
            case (5 n s5)
            show ?case
            proof (rule triple_bind [OF A [OF finalize_triple [where P = ?bal and t = t, OF _ _ ok0]]], goal_cases)
              case (4 u s6)
              show ?case
              proof (rule triple_bind [OF B [OF take_triple [where P = ?bal and t = t and ?s0.0 = s0]]], goal_cases)
                case (5 col s7)
                show ?case
                proof (rule triple_bind [OF B [OF persist_triple [OF _ _ _ bc]]], goal_cases)
                  case (6 u s8)
                  show ?case by (rule B, rule commit_staged_triple) (use 6 in simp_all)
                qed (use 5 in simp_all)
              qed (use 4 in simp_all)
            qed (use 5 in simp_all)
          qed (use 3 in simp_all)
        qed (use 3 in simp_all)
      qed (use 1 in simp_all)
    qed
  qed
qed

section \<open>One block\<close>

lemma mgr_inv_begun:
  assumes "at_height t s" and "t \<le> h"
  shows "mgr_inv h (begun h s)"
proof -
  have "mgr_inv t (ix_mgr s)" using assms(1) by (simp add: at_height_def)
  then have inv: "mgr_inv h (ix_mgr s)" using assms(2) by (rule mgr_inv_mono)
  then have ok: "energy_db_ok (ix_energy s)" by (simp add: mgr_inv_def mgr_inv_but_def)
  have "row_agrees h (set_pending_block_height h (ix_energy s)) m = row_agrees h (ix_energy s) m" for m
    by (rule row_agrees_cong) (simp_all add: ok)
  with inv show ?thesis by (simp add: begun_def mgr_inv_def mgr_inv_but_def energy_upto_def)
qed

lemma begun_failed:
  assumes "at_height t s0" and "ix_mgr s = begun h s0" and "tracker_frame (ix_tracker s0) (ix_tracker s)"
  shows "failed t h s0 s"
  using begun_undone [OF at_height_energy [OF assms(1)]] assms by (simp add: failed_def begun_def tracker_frame_def at_height_def)

lemma begun_in_block: "ix_mgr s = begun h s0 \<Longrightarrow> staged_over h s0 s \<Longrightarrow> in_block t h s0 s"
  using mgr_step_preorder(1) [of t h] by (simp add: in_block_def reflp_def)

lemma triple_guard:
  assumes "triple m s Q E" and "\<And>s'. E s' \<Longrightarrow> F (s'\<lparr>ix_mgr := clear_block_mutation_collection (ix_mgr s')\<rparr>)"
  shows "triple (with_collection_guard m) s Q F"
  using assms(1) by (cases rule: triple_cases) (auto simp: triple_def with_collection_guard_def assms(2))

lemma begin_run:
  assumes "at_height t s"
  shows "on_mgr (on_energy (begin_block_sync h)) s =
      (Inr (), s\<lparr>ix_mgr := (ix_mgr s)\<lparr>mg_energy := set_pending_block_height h (ix_energy s)\<rparr>\<rparr>)"
    and "on_mgr (begin_block_mutation_collection h)
        (s\<lparr>ix_mgr := (ix_mgr s)\<lparr>mg_energy := set_pending_block_height h (ix_energy s)\<rparr>\<rparr>) = (Inr (), s\<lparr>ix_mgr := begun h s\<rparr>)"
proof -
  show "on_mgr (on_energy (begin_block_sync h)) s =
      (Inr (), s\<lparr>ix_mgr := (ix_mgr s)\<lparr>mg_energy := set_pending_block_height h (ix_energy s)\<rparr>\<rparr>)"
    by (rule on_energy_run) (use assms in \<open>simp add: begin_block_sync_def at_height_def\<close>)
  show "on_mgr (begin_block_mutation_collection h)
        (s\<lparr>ix_mgr := (ix_mgr s)\<lparr>mg_energy := set_pending_block_height h (ix_energy s)\<rparr>\<rparr>) = (Inr (), s\<lparr>ix_mgr := begun h s\<rparr>)"
    using assms by (simp add: on_mgr_def zoom_def begin_block_mutation_collection_def at_height_def begun_def)
qed

text \<open>The steps before the transfers are staged.\<close>

lemma collect_mints_triple:
  assumes env: "env_ok env" and g: "ix_mgr s = g" and f: "tracker_frame (ix_tracker s0) (ix_tracker s)"
  shows "triple (collect_mints env h block) s
    (\<lambda>items s'. (\<forall>i \<in> set (cm_valid_items items). event_at (en_parse_id env) h (MintEvent i)) \<and>
       (\<forall>iv \<in> set (cm_invalid_items items). iv_mint_block_height iv = h) \<and>
       ix_mgr s' = g \<and> tracker_frame (ix_tracker s0) (ix_tracker s'))
    (\<lambda>s'. ix_mgr s' = g \<and> tracker_frame (ix_tracker s0) (ix_tracker s'))"
proof -
  let ?c = "calc_create_satpoint (en_utxo env) (en_script_hash env) (en_transaction env) (en_envelope_inputs env)"
  let ?m = "\<lambda>batch. collect_block_inscription_mints (en_ambiguous_reason env) ?c batch"
  have fr: "moves tracker_frame (?m batch)" for batch by (rule collect_frame) (rule create_satpoint_frame)
  have pf: "panic_free (?m batch)" for batch
    by (rule collect_panic_free, rule create_satpoint_panic_free) (use env in \<open>simp_all add: env_ok_def\<close>)
  have tr: "tracker_frame (ix_tracker s0) t'" if "tracker_frame (ix_tracker s) t'" for t'
    using transpD [OF tracker_frame_preorder(2) f that] .
  show ?thesis
    unfolding collect_mints_def
  proof (rule triple_bind [where P = "\<lambda>batch s'. s' = s \<and> en_mint_batch env h block = Inr batch"])
    show "triple (getsR (\<lambda>_. en_mint_batch env h block)) s (\<lambda>batch s'. s' = s \<and> en_mint_batch env h block = Inr batch)
      (\<lambda>s'. ix_mgr s' = g \<and> tracker_frame (ix_tracker s0) (ix_tracker s'))"
      by (rule triple_getsR) (use env g f in \<open>simp_all add: env_ok_def\<close>)
    fix batch s' assume b: "s' = s \<and> en_mint_batch env h block = Inr batch"
    then have mo: "\<forall>m \<in> set (mb_valid_mints batch). mint_ok (en_parse_id env) h m"
      "\<forall>m \<in> set (mb_invalid_mints batch). dv_block_height m = h" using env by (auto simp: env_ok_def)
    have "triple (on_tracker (?m batch)) s
      (\<lambda>items s'. (\<forall>i \<in> set (cm_valid_items items). event_at (en_parse_id env) h (MintEvent i)) \<and>
         (\<forall>iv \<in> set (cm_invalid_items items). iv_mint_block_height iv = h) \<and>
         ix_mgr s' = g \<and> tracker_frame (ix_tracker s0) (ix_tracker s'))
      (\<lambda>s'. ix_mgr s' = g \<and> tracker_frame (ix_tracker s0) (ix_tracker s'))"
    proof (rule triple_on_tracker, rule triple_moves [OF pf fr])
      fix items t' assume "?m batch (ix_tracker s) = (Inr items, t')" and t': "tracker_frame (ix_tracker s) t'"
      then have "items_of batch items" by (intro collect_items)
      from items_of_events [OF this mo] show
        "(\<forall>i \<in> set (cm_valid_items items). event_at (en_parse_id env) h (MintEvent i)) \<and>
         (\<forall>iv \<in> set (cm_invalid_items items). iv_mint_block_height iv = h) \<and>
         ix_mgr (s\<lparr>ix_tracker := t'\<rparr>) = g \<and> tracker_frame (ix_tracker s0) (ix_tracker (s\<lparr>ix_tracker := t'\<rparr>))"
        using g tr [OF t'] by simp
    next
      fix t' assume "tracker_frame (ix_tracker s) t'"
      then show "ix_mgr (s\<lparr>ix_tracker := t'\<rparr>) = g \<and> tracker_frame (ix_tracker s0) (ix_tracker (s\<lparr>ix_tracker := t'\<rparr>))"
        using g tr by simp
    qed
    with b show "triple (on_tracker (?m batch)) s'
      (\<lambda>items s'. (\<forall>i \<in> set (cm_valid_items items). event_at (en_parse_id env) h (MintEvent i)) \<and>
         (\<forall>iv \<in> set (cm_invalid_items items). iv_mint_block_height iv = h) \<and>
         ix_mgr s' = g \<and> tracker_frame (ix_tracker s0) (ix_tracker s'))
      (\<lambda>s'. ix_mgr s' = g \<and> tracker_frame (ix_tracker s0) (ix_tracker s'))" by simp
  qed
qed

lemma transfers_triple:
  assumes env: "env_ok env" and g: "ix_mgr s = g" and f: "tracker_frame (ix_tracker s0) (ix_tracker s)"
    and st: "tr_staged_blocks (ix_tracker s0) = []"
  shows "triple (collect_block_inscription_transfer_items env h hint extra) s
    (\<lambda>items s'. (\<forall>it \<in> set items. ti_block_height it = h) \<and> ix_mgr s' = g \<and> staged_over h s0 s')
    (\<lambda>s'. ix_mgr s' = g \<and> tracker_frame (ix_tracker s0) (ix_tracker s'))"
  unfolding collect_block_inscription_transfer_items_def
proof (rule triple_on_tracker, rule triple_conseq, rule process_block_triple)
  show "no_panic (en_utxo env p)" "no_panic (en_block env k)" for p k using env by (simp_all add: env_ok_def)
  show "tr_staged_blocks (ix_tracker s) = []" using f st by (simp add: tracker_frame_def)
qed (use f g st in \<open>auto simp: staged_over_def tracker_frame_def\<close>)

text \<open>The result of a block whose energy records became final.\<close>

definition block_synced :: "u32 \<Rightarrow> u32 \<Rightarrow> indexer \<Rightarrow> indexer \<Rightarrow> bool" where
  "block_synced t h s0 s \<longleftrightarrow> block_done h s0 s \<and>
     (\<exists>en. block_writes t (set_pending_block_height h (ix_energy s0)) en \<and> ix_energy s = finalize_block_sync_meta h en)"

lemma block_body_triple:
  assumes at: "at_height t s0" and ht: "\<And>k. k < h \<longleftrightarrow> k \<le> t" and env: "env_ok env"
    and g: "ix_mgr s = begun h s0" and f: "tracker_frame (ix_tracker s0) (ix_tracker s)"
  shows "triple (bindR (collect_mints env h block) (\<lambda>collected.
       bindR (collect_block_inscription_transfer_items env h (Some block)
           (build_transfer_track_seeds (cm_valid_items collected))) (\<lambda>transfer_items.
       apply_block env h block collected transfer_items))) s (\<lambda>_. block_synced t h s0) (failed t h s0)"
proof (rule triple_bind)
  have th: "t \<le> h" using ht by (meson less_imp_le order.refl)
  have st: "tr_staged_blocks (ix_tracker s0) = []" using at by (simp add: at_height_def)
  let ?C = "\<lambda>(items :: CollectedMintItems) (s' :: indexer). (\<forall>i \<in> set (cm_valid_items items). event_at (en_parse_id env) h (MintEvent i)) \<and>
    (\<forall>iv \<in> set (cm_invalid_items items). iv_mint_block_height iv = h) \<and>
    ix_mgr s' = begun h s0 \<and> tracker_frame (ix_tracker s0) (ix_tracker s')"
  show "triple (collect_mints env h block) s ?C (failed t h s0)"
    by (rule triple_conseq [OF collect_mints_triple [OF env g f]]) (auto intro: begun_failed [OF at])
  fix items s1 assume c: "?C items s1"
  show "triple (bindR (collect_block_inscription_transfer_items env h (Some block)
         (build_transfer_track_seeds (cm_valid_items items))) (\<lambda>transfer_items.
       apply_block env h block items transfer_items)) s1 (\<lambda>_. block_synced t h s0) (failed t h s0)"
  proof (rule triple_bind)
    show "triple (collect_block_inscription_transfer_items env h (Some block)
        (build_transfer_track_seeds (cm_valid_items items))) s1
      (\<lambda>items s'. (\<forall>it \<in> set items. ti_block_height it = h) \<and> ix_mgr s' = begun h s0 \<and> staged_over h s0 s') (failed t h s0)"
      by (rule triple_conseq [OF transfers_triple [OF env _ _ st]]) (use c in \<open>auto intro: begun_failed [OF at]\<close>)
    fix transfers :: "InscriptionTransferItem list" and s2 :: indexer
    assume t: "(\<forall>it \<in> set transfers. ti_block_height it = h) \<and> ix_mgr s2 = begun h s0 \<and> staged_over h s0 s2"
    have b: "in_block t h s0 s2" by (rule begun_in_block) (use t in simp_all)
    have i: "mgr_inv h (ix_mgr s2)" using mgr_inv_begun [OF at th] t by simp
    show "triple (apply_block env h block items transfers) s2 (\<lambda>_. block_synced t h s0) (failed t h s0)"
      unfolding block_synced_def by (rule apply_block_triple [OF at ht env b i]) (use c t in simp_all)
  qed
qed

lemma sync_block_triple:
  assumes at: "at_height t s0" and ht: "\<And>k. k < h \<longleftrightarrow> k \<le> t" and env: "env_ok env"
  shows "triple (sync_block env h) s0 (\<lambda>_. block_synced t h s0) (\<lambda>s'. failed t h s0 s' \<and> mg_collector (ix_mgr s') = None)"
proof -
  let ?s = "s0\<lparr>ix_mgr := begun h s0\<rparr>"
  let ?body = "bindR (getsR (\<lambda>_. en_block_hint env h)) (\<lambda>block_hint.
       case block_hint of
         None \<Rightarrow> fail (Err ''Missing required block hint. Aborting for protocol safety.'')
       | Some block_hint \<Rightarrow>
           bindR (collect_mints env h block_hint) (\<lambda>collected.
           bindR (collect_block_inscription_transfer_items env h (Some block_hint)
               (build_transfer_track_seeds (cm_valid_items collected))) (\<lambda>transfer_items.
           apply_block env h block_hint collected transfer_items)))"
  have fr: "tracker_frame (ix_tracker s0) (ix_tracker ?s)" by (simp add: tracker_frame_def)
  have BE: "failed t h s0 ?s" by (rule begun_failed [OF at _ fr]) simp
  have "triple ?body ?s (\<lambda>_. block_synced t h s0) (failed t h s0)"
  proof (rule triple_bind [where P = "\<lambda>_ s'. s' = ?s"])
    show "triple (getsR (\<lambda>_. en_block_hint env h)) ?s (\<lambda>_ s'. s' = ?s) (failed t h s0)"
      by (rule triple_getsR) (use env BE in \<open>simp_all add: env_ok_def\<close>)
    fix hint s' assume s': "s' = ?s"
    show "triple (case hint of
         None \<Rightarrow> fail (Err ''Missing required block hint. Aborting for protocol safety.'')
       | Some block_hint \<Rightarrow>
           bindR (collect_mints env h block_hint) (\<lambda>collected.
           bindR (collect_block_inscription_transfer_items env h (Some block_hint)
               (build_transfer_track_seeds (cm_valid_items collected))) (\<lambda>transfer_items.
           apply_block env h block_hint collected transfer_items))) s' (\<lambda>_. block_synced t h s0) (failed t h s0)"
    proof (cases hint)
      case None
      show ?thesis unfolding None s' option.case by (rule triple_fail) (rule BE)
    next
      case (Some block)
      show ?thesis unfolding Some s' option.case by (rule block_body_triple [OF at ht env _ fr]) simp
    qed
  qed
  then have "triple (with_collection_guard ?body) ?s (\<lambda>_. block_synced t h s0)
      (\<lambda>s'. failed t h s0 s' \<and> mg_collector (ix_mgr s') = None)"
    by (rule triple_guard) (simp add: failed_def clear_block_mutation_collection_def)
  then show ?thesis unfolding sync_block_def by (simp add: triple_def begin_run [OF at])
qed

section \<open>The block in its savepoint\<close>

text \<open>After a failed block, with the savepoint still to be rolled back; \<open>fault\<close> says that SQLite failed to
  store the height or to release the savepoint, after the tracker had committed the block.\<close>

definition block_undone :: "u32 \<Rightarrow> u32 \<Rightarrow> bool \<Rightarrow> indexer \<Rightarrow> indexer \<Rightarrow> bool" where
  "block_undone t h fault s0 s \<longleftrightarrow> undone t (ix_energy s0) (ix_energy s) \<and>
     (\<exists>p. get_pending_block_height (ix_energy s) = Inr p \<and> (p = None \<or> p = Some h)) \<and>
     ps_savepoints (mg_store (ix_mgr s)) = ps_savepoints (mg_store (ix_mgr s0)) \<and> mg_collector (ix_mgr s) = None \<and>
     tr_staged_blocks (ix_tracker s) = [] \<and>
     (fault \<or> tr_inscriptions (ix_tracker s) = tr_inscriptions (ix_tracker s0))"

lemma fail_with_rollback_triple:
  assumes at: "at_height t s0" and th: "t < h"
    and w: "block_writes t (set_pending_block_height h (ix_energy s0)) en" and e: "ix_energy s = finalize_block_sync_meta h en"
    and "ps_savepoints (mg_store (ix_mgr s)) = ps_savepoints (mg_store (ix_mgr s0))"
    and "mg_collector (ix_mgr s) = None" and "tr_staged_blocks (ix_tracker s) = []"
  shows "triple (fail_with_energy_rollback t msg ctx) s Q (block_undone t h True s0)"
proof -
  obtain en' where r: "rollback_to_pass_synced_height t (finalize_block_sync_meta h en) = (Inr (), en')"
    "undone t (ix_energy s0) en'" "get_pending_block_height en' = Inr None"
    by (rule rollback_undone [OF at_height_energy(1,2) [OF at] w th]) (rule that)
  let ?s = "s\<lparr>ix_mgr := (ix_mgr s)\<lparr>mg_energy := en'\<rparr>\<rparr>"
  have "err (on_mgr (on_energy (rollback_to_pass_synced_height t))) s = (Inr None, ?s)"
    by (rule err_Inr, rule on_energy_run) (simp add: e r(1))
  then have run: "fail_with_energy_rollback t msg ctx s = (Inl (Err msg), ?s)"
    by (simp add: fail_with_energy_rollback_def merge_block_failure_with_recovery_def)
  show ?thesis by (rule triple_err, rule run) (use assms r in \<open>simp add: block_undone_def\<close>)
qed

lemma savepoint_triple:
  assumes at: "at_height t s0" and ht: "\<And>k. k < h \<longleftrightarrow> k \<le> t" and env: "env_ok env"
    and sp: "ps_savepoints (mg_store (ix_mgr s0)) = d # sps"
  shows "triple (sync_block_in_savepoint env t h) s0
    (\<lambda>_ s'. \<exists>s. block_synced t h s0 s \<and> ix_db s' = update_synced_btc_block_height h (ix_db s) \<and>
       ps_savepoints (mg_store (ix_mgr s')) = sps \<and> ix_energy s' = ix_energy s \<and>
       mg_collector (ix_mgr s') = None \<and> ix_tracker s' = ix_tracker s)
    (block_undone t h (en_synced_write_fails env h \<or> en_release_fails env h) s0)"
  unfolding sync_block_in_savepoint_def
proof (rule triple_bind)
  have th: "t < h" using ht by auto
  let ?f = "en_synced_write_fails env h \<or> en_release_fails env h"
  let ?S = "\<lambda>s s'. block_synced t h s0 s \<and>
    s' = s\<lparr>ix_mgr := (ix_mgr s)\<lparr>mg_store := (mg_store (ix_mgr s))\<lparr>ps_db := update_synced_btc_block_height h (ix_db s)\<rparr>\<rparr>\<rparr>"
  show "triple (sync_block env h) s0 (\<lambda>_. block_synced t h s0) (block_undone t h ?f s0)"
    by (rule triple_conseq [OF sync_block_triple [OF at ht env]]) (simp_all add: failed_def block_undone_def)
  fix u s assume s: "block_synced t h s0 s"
  then obtain en where en: "block_writes t (set_pending_block_height h (ix_energy s0)) en"
    "ix_energy s = finalize_block_sync_meta h en" by (auto simp: block_synced_def)
  from s have f: "ps_savepoints (mg_store (ix_mgr s)) = ps_savepoints (mg_store (ix_mgr s0))"
    "mg_collector (ix_mgr s) = None" "tr_staged_blocks (ix_tracker s) = []"
    by (simp_all add: block_synced_def block_done_def mgr_moves_def)
  show "triple (bindR (if en_synced_write_fails env h
            then fail_with_energy_rollback t ''Failed to update synced height''
              ''energy rollback after synced-height update failure''
            else on_mgr (on_db (modify (update_synced_btc_block_height h)))) (\<lambda>_.
     if en_release_fails env h
     then fail_with_energy_rollback t ''Failed to commit savepoint''
       ''energy rollback after sqlite savepoint failure''
     else on_store savepoint_commit)) s
    (\<lambda>_ s'. \<exists>s. block_synced t h s0 s \<and> ix_db s' = update_synced_btc_block_height h (ix_db s) \<and>
       ps_savepoints (mg_store (ix_mgr s')) = sps \<and> ix_energy s' = ix_energy s \<and>
       mg_collector (ix_mgr s') = None \<and> ix_tracker s' = ix_tracker s)
    (block_undone t h ?f s0)"
  proof (rule triple_bind [where P = "\<lambda>_. ?S s"])
    show "triple (if en_synced_write_fails env h
            then fail_with_energy_rollback t ''Failed to update synced height''
              ''energy rollback after synced-height update failure''
            else on_mgr (on_db (modify (update_synced_btc_block_height h)))) s (\<lambda>_. ?S s) (block_undone t h ?f s0)"
    proof (cases "en_synced_write_fails env h")
      case True
      show ?thesis unfolding if_P [OF True]
        by (rule triple_conseq [OF fail_with_rollback_triple [OF at th en f, where Q = "\<lambda>_ _. False"]])
          (use True in simp_all)
    next
      case False
      then show ?thesis using s by (simp add: triple_def on_mgr_def on_db_def zoom_def)
    qed
    fix u' s' assume s': "?S s s'"
    then have e': "ix_energy s' = finalize_block_sync_meta h en" and
      f': "ps_savepoints (mg_store (ix_mgr s')) = ps_savepoints (mg_store (ix_mgr s0))"
        "mg_collector (ix_mgr s') = None" "tr_staged_blocks (ix_tracker s') = []" using en(2) f by simp_all
    show "triple (if en_release_fails env h
         then fail_with_energy_rollback t ''Failed to commit savepoint''
           ''energy rollback after sqlite savepoint failure''
         else on_store savepoint_commit) s'
      (\<lambda>_ s'. \<exists>s. block_synced t h s0 s \<and> ix_db s' = update_synced_btc_block_height h (ix_db s) \<and>
         ps_savepoints (mg_store (ix_mgr s')) = sps \<and> ix_energy s' = ix_energy s \<and>
         mg_collector (ix_mgr s') = None \<and> ix_tracker s' = ix_tracker s)
      (block_undone t h ?f s0)"
    proof (cases "en_release_fails env h")
      case True
      show ?thesis unfolding if_P [OF True]
        by (rule triple_conseq [OF fail_with_rollback_triple [OF at th en(1) e' f', where Q = "\<lambda>_ _. False"]])
          (use True in simp_all)
    next
      case False
      have c: "on_store savepoint_commit s' = (Inr (), s'\<lparr>ix_mgr := (ix_mgr s')\<lparr>mg_store := (mg_store (ix_mgr s'))\<lparr>ps_savepoints := sps\<rparr>\<rparr>\<rparr>)"
        using f'(1) sp by (simp add: on_store_def on_mgr_def zoom_def savepoint_commit_def)
      show ?thesis unfolding if_not_P [OF False]
        by (rule triple_ok, rule c) (rule exI [of _ s], use s' f(2) in simp)
    qed
  qed
qed

lemma side_rows_upto:
  fixes h :: u32
  assumes "rows' = rows \<or> (\<exists>e. key e = h \<and> rows' = upsert_by key e rows)" and "\<forall>x \<in> set rows. key x \<le> h"
  shows "\<forall>x \<in> set rows'. key x \<le> h"
  using assms(1)
proof
  assume "\<exists>e. key e = h \<and> rows' = upsert_by key e rows"
  then obtain e where "key e = h" "rows' = upsert_by key e rows" by blast
  then have "key ` set rows' = insert h (key ` set rows)" using keys_upsert_by [of key e rows] by simp
  moreover have "\<forall>k \<in> insert h (key ` set rows). k \<le> h" using assms(2) by simp
  ultimately show ?thesis by (metis imageI)
qed (use assms(2) in simp)

lemma side_data_upto:
  assumes s: "side_tables_write h db db'" and d: "data_upto h db"
  shows "data_upto h db'"
proof -
  have "\<forall>r \<in> set (db_commits db'). pc_block_height r \<le> h"
    by (rule side_rows_upto [of _ "db_commits db"]) (use s d in \<open>simp_all add: side_tables_write_def data_upto_def\<close>)
  moreover have "\<forall>r \<in> set (db_balance_snapshots db'). ab_block_height r \<le> h"
    by (rule side_rows_upto [of _ "db_balance_snapshots db"]) (use s d in \<open>simp_all add: side_tables_write_def data_upto_def\<close>)
  moreover have "\<forall>r \<in> set (db_snapshot_history db'). an_stable_height r \<le> h"
    by (rule side_rows_upto [of _ "db_snapshot_history db"]) (use s d in \<open>simp_all add: side_tables_write_def data_upto_def\<close>)
  ultimately show ?thesis using s d by (simp add: side_tables_write_def data_upto_def)
qed

lemma pass_write_data_upto:
  assumes w: "pass_write h db db'" and ok: "timeline_ok db" and d: "data_upto h db"
  shows "data_upto h db'"
proof (rule pass_write_cases [OF w])
  show "pass_db_ok db" using ok by (simp add: timeline_ok_def)
  show "data_upto h db'" if "row_insert h m db db'" for m
    using that d by (auto simp: row_insert_def data_upto_def push_event_def)
  show "data_upto h db'" if "row_replace h m m' db db'" for m m'
    using that d by (auto simp: row_replace_def data_upto_def push_event_def)
  show "data_upto h db'" if "side_tables_write h db db'" using that d by (rule side_data_upto)
qed

lemma pass_writes_keep:
  "(pass_write h)\<^sup>*\<^sup>* db db' \<Longrightarrow> timeline_ok db \<Longrightarrow> data_upto h db \<Longrightarrow> timeline_ok db' \<and> data_upto h db'"
proof (induction rule: rtranclp_induct)
  case (step y z)
  then have y: "timeline_ok y" "data_upto h y" by simp_all
  then have "history_upto h y" by (simp add: data_upto_def history_upto_def)
  then have "timeline_ok z" by (rule pass_write_timeline [OF step.hyps(2) y(1)])
  moreover have "data_upto h z" by (rule pass_write_data_upto [OF step.hyps(2) y])
  ultimately show ?case by simp
qed simp

lemma data_upto_mono: "data_upto t db \<Longrightarrow> t \<le> h \<Longrightarrow> data_upto h db"
  by (auto simp: data_upto_def dest: order_trans)

lemma next_height: "unat h = Suc (unat t) \<Longrightarrow> k < h \<longleftrightarrow> k \<le> t" for h :: u32
  by (auto simp: word_less_nat_alt word_le_nat_alt)

lemma synced_height_read [simp]: "get_synced_btc_block_height (update_synced_btc_block_height h db) = Some h"
  by (simp add: state_defs)

text \<open>The height after a success.\<close>

lemma synced_ix_ok:
  assumes at: "at_height t s0" and th: "t \<le> h" and b: "block_synced t h s0 s"
    and db: "ix_db s' = update_synced_btc_block_height h (ix_db s)" and e: "ix_energy s' = ix_energy s"
    and "mg_collector (ix_mgr s') = None" and "ix_tracker s' = ix_tracker s"
  shows "at_height h s'" and "(pass_write h)\<^sup>*\<^sup>* (ix_db s0) (ix_db s')"
proof -
  have "(pass_write h)\<^sup>*\<^sup>* (ix_db s0) (ix_db s)" using b by (simp add: block_synced_def block_done_def mgr_moves_def)
  then show w: "(pass_write h)\<^sup>*\<^sup>* (ix_db s0) (ix_db s')"
    unfolding db by (rule rtranclp.rtrancl_into_rtrancl) (rule pass_write.synced)
  have k: "timeline_ok (ix_db s') \<and> data_upto h (ix_db s')"
    by (rule pass_writes_keep [OF w]) (use at th in \<open>auto simp: at_height_def intro: data_upto_mono\<close>)
  have p: "db_passes (ix_db s') = db_passes (ix_db s)" by (simp add: db state_defs)
  have "mgr_inv h (ix_mgr s)" using b by (simp add: block_synced_def block_done_def)
  then have "mgr_inv h (ix_mgr s')" using k p e by (simp add: mgr_inv_def mgr_inv_but_def timeline_ok_def)
  with k assms show "at_height h s'" by (simp add: at_height_def block_synced_def block_done_def)
qed

lemma sync_one_cases:
  assumes ok: "ix_ok t s" and env: "env_ok env" and h: "unat h = Suc (unat t)" and run: "sync_one env h s = (r, s')"
  obtains (synced) "r = Inr ()" and "ix_ok h s'" and "(pass_write h)\<^sup>*\<^sup>* (ix_db s) (ix_db s')"
      and "\<exists>entry. get_pass_block_commit h (ix_db s') = Some entry"
      and "h \<in> ab_block_height ` set (db_balance_snapshots (ix_db s'))" and "ix_status_current s' = h"
      and "\<exists>en. block_writes t (set_pending_block_height h (ix_energy s)) en \<and> ix_energy s' = finalize_block_sync_meta h en"
    | (undone) e where "r = Inl (Err e)" and "ix_db s' = ix_db s"
      and "block_undone t h (en_synced_write_fails env h \<or> en_release_fails env h) s s'"
proof -
  let ?f = "en_synced_write_fails env h \<or> en_release_fails env h"
  let ?s0 = "s\<lparr>ix_mgr := (ix_mgr s)\<lparr>mg_store := (mg_store (ix_mgr s))\<lparr>ps_savepoints := [ix_db s]\<rparr>\<rparr>\<rparr>"
  note ht = next_height [OF h]
  have th: "t \<le> h" using ht by (meson less_imp_le order.refl)
  have at: "at_height t ?s0" using ok by (simp add: ix_ok_def at_height_def mgr_inv_def mgr_inv_but_def)
  have d: "pass_synced_height s = t" using ok by (simp add: ix_ok_def at_height_def pass_synced_height_def)
  have b: "on_store savepoint_begin s = (Inr (), ?s0)"
    using ok by (simp add: ix_ok_def on_store_def on_mgr_def zoom_def savepoint_begin_def)
  have t: "triple (sync_block_in_savepoint env t h) ?s0
    (\<lambda>_ s'. \<exists>s. block_synced t h ?s0 s \<and> ix_db s' = update_synced_btc_block_height h (ix_db s) \<and>
       ps_savepoints (mg_store (ix_mgr s')) = [] \<and> ix_energy s' = ix_energy s \<and>
       mg_collector (ix_mgr s') = None \<and> ix_tracker s' = ix_tracker s) (block_undone t h ?f ?s0)"
    by (rule savepoint_triple [OF at ht env]) simp
  from t show thesis
  proof (cases rule: triple_cases)
    case (ok x s1)
    then obtain s2 where s2: "block_synced t h ?s0 s2" "ix_db s1 = update_synced_btc_block_height h (ix_db s2)"
      "ps_savepoints (mg_store (ix_mgr s1)) = []" "ix_energy s1 = ix_energy s2" "mg_collector (ix_mgr s1) = None"
      "ix_tracker s1 = ix_tracker s2" by blast
    note r = synced_ix_ok [OF at th s2(1,2,4-6)]
    have "r = Inr () \<and> s' = update_index_status (Some h) None s1"
      using run ok(1) by (simp add: sync_one_def d b)
    then show thesis
      using r s2 by (intro synced) (simp_all add: update_index_status_def ix_ok_def at_height_def block_synced_def block_done_def
        state_defs get_pass_block_commit_def)
  next
    case (err e s1)
    have "on_store (modify savepoint_guard_drop) s1 =
        (Inr (), s1\<lparr>ix_mgr := (ix_mgr s1)\<lparr>mg_store := savepoint_guard_drop (mg_store (ix_mgr s1))\<rparr>\<rparr>)"
      by (simp add: on_store_def on_mgr_def zoom_def)
    then have "r = Inl (Err e) \<and> s' = s1\<lparr>ix_mgr := (ix_mgr s1)\<lparr>mg_store := savepoint_guard_drop (mg_store (ix_mgr s1))\<rparr>\<rparr>"
      using run err(1) by (simp add: sync_one_def d b)
    moreover have "savepoint_guard_drop (mg_store (ix_mgr s1)) = (mg_store (ix_mgr s1))\<lparr>ps_db := ix_db s, ps_savepoints := []\<rparr>"
      using err(2) by (simp add: savepoint_guard_drop_def savepoint_rollback_def savepoint_commit_def block_undone_def)
    ultimately show thesis
      using err(2) assms(1) by (intro undone) (simp_all add: block_undone_def ix_ok_def)
  qed
qed

section \<open>The next attempt\<close>

lemma row_agrees_sig:
  "row_agrees h en m \<longleftrightarrow>
     (mp_state m = Active \<longrightarrow> last_sig h (mp_inscription_id m) en = Some (Active, mp_owner m)) \<and>
     (mp_state m = Dormant \<longrightarrow> (\<exists>own. last_sig h (mp_inscription_id m) en = Some (Dormant, own)))"
  by (auto simp: row_agrees_def last_sig_def)

lemma undone_retry:
  assumes ok: "ix_ok t s" and u: "block_undone t h f s s'" and db: "ix_db s' = ix_db s" and h: "unat h = Suc (unat t)"
  obtains en where "reconcile_with_pass_synced_height t (ix_energy s') = (Inr (), en)"
    and "ix_ok t (s'\<lparr>ix_mgr := (ix_mgr s')\<lparr>mg_energy := en\<rparr>\<rparr>)"
proof -
  have th: "t < h" using next_height [OF h] by auto
  from u obtain p where p: "get_pending_block_height (ix_energy s') = Inr p" "p = None \<or> p = Some h"
    by (auto simp: block_undone_def)
  have "undone t (ix_energy s) (ix_energy s')" using u by (simp add: block_undone_def)
  from reconcile_undone [OF this p th] obtain en where
    en: "reconcile_with_pass_synced_height t (ix_energy s') = (Inr (), en)" "undone t (ix_energy s) en"
      "get_pending_block_height en = Inr None" by blast
  have "row_agrees t en m = row_agrees t (ix_energy s) m" for m
    using en(2) by (simp add: row_agrees_sig undone_def)
  then have "mgr_inv t ((ix_mgr s')\<lparr>mg_energy := en\<rparr>)"
    using ok en(2) db by (simp add: ix_ok_def at_height_def mgr_inv_def mgr_inv_but_def undone_def)
  then have "ix_ok t (s'\<lparr>ix_mgr := (ix_mgr s')\<lparr>mg_energy := en\<rparr>\<rparr>)"
    using ok u en db by (simp add: ix_ok_def at_height_def undone_def block_undone_def)
  with en(1) show thesis by (rule that)
qed


section \<open>A range of blocks\<close>

lemma ix_ok_synced: "ix_ok t s \<Longrightarrow> get_synced_btc_block_height (ix_db s) = Some t"
  by (simp add: ix_ok_def at_height_def)

text \<open>A state that the next start brings back to height \<open>c\<close>.\<close>

definition resumes_at :: "u32 \<Rightarrow> indexer \<Rightarrow> bool" where
  "resumes_at c s \<longleftrightarrow> get_synced_btc_block_height (ix_db s) = Some c \<and>
     (\<exists>en. reconcile_with_pass_synced_height c (ix_energy s) = (Inr (), en) \<and>
        ix_ok c (s\<lparr>ix_mgr := (ix_mgr s)\<lparr>mg_energy := en\<rparr>\<rparr>))"

lemma sync_loop_progress:
  assumes "env_ok env" and "ix_ok t s" and "unat t + n < 2 ^ 32"
    and "sync_blocks_loop env (map of_nat [Suc (unat t)..<Suc (unat t + n)]) cur s = (r, s')"
  shows "(r = Inr (if n = 0 then cur else of_nat (unat t + n)) \<and> ix_ok (of_nat (unat t + n)) s') \<or>
    (\<exists>e c. r = Inl (Err e) \<and> t \<le> c \<and> unat c < unat t + n \<and> resumes_at c s')"
  using assms
proof (induction n arbitrary: t s cur)
  case 0
  then show ?case by simp
next
  case (Suc n)
  let ?h = "of_nat (Suc (unat t)) :: u32"
  have "Suc (unat t) < 2 ^ 32" using Suc.prems(3) by linarith
  then have h: "unat ?h = Suc (unat t)" by (simp add: unsigned_of_nat take_bit_nat_eq_self del: of_nat_Suc)
  have th: "t \<le> ?h" using next_height [OF h] by (meson less_imp_le order.refl)
  have l: "[Suc (unat t)..<Suc (unat t + Suc n)] = Suc (unat t) # [Suc (unat ?h)..<Suc (unat ?h + n)]"
    using upt_conv_Cons [of "Suc (unat t)" "Suc (unat t + Suc n)"] unfolding h by simp
  obtain r1 s1 where one: "sync_one env ?h s = (r1, s1)" by fastforce
  from Suc.prems(4) have run: "bindR (sync_one env ?h) (\<lambda>_. sync_blocks_loop env (map of_nat [Suc (unat ?h)..<Suc (unat ?h + n)]) ?h) s = (r, s')"
    unfolding l list.map sync_blocks_loop.simps .
  show ?case
  proof (cases rule: sync_one_cases [OF Suc.prems(2,1) h one, case_names synced undone])
    case synced
    have n: "unat ?h + n < 2 ^ 32" using Suc.prems(3) unfolding h by simp
    have "sync_blocks_loop env (map of_nat [Suc (unat ?h)..<Suc (unat ?h + n)]) ?h s1 = (r, s')"
      using run one synced(1) by simp
    note IH = Suc.IH [OF Suc.prems(1) synced(2) n this]
    have c: "t \<le> c" if "?h \<le> c" for c using th that by (rule order_trans)
    have z: "r = Inr (of_nat (unat t + Suc n)) \<Longrightarrow> r = Inr (if Suc n = 0 then cur else of_nat (unat t + Suc n))" by simp
    show ?thesis
      using IH c unfolding h by (cases "n = 0") (auto simp del: of_nat_Suc of_nat_add)
  next
    case (undone e)
    then have "r = Inl (Err e)" "s' = s1" using run one by simp_all
    moreover obtain en where "reconcile_with_pass_synced_height t (ix_energy s1) = (Inr (), en)"
      "ix_ok t (s1\<lparr>ix_mgr := (ix_mgr s1)\<lparr>mg_energy := en\<rparr>\<rparr>)"
      by (rule undone_retry [OF Suc.prems(2) undone(3,2) h]) (rule that)
    moreover have "get_synced_btc_block_height (ix_db s1) = Some t" using undone(2) ix_ok_synced [OF Suc.prems(2)] by simp
    ultimately show ?thesis by (auto simp: resumes_at_def)
  qed
qed

text \<open>C3: a range of blocks never gets stuck half-way.  Syncing \<open>t + 1\<close> to \<open>b\<close> from the state after \<open>t\<close> either
  returns \<open>b\<close> in the state after \<open>b\<close>, or returns an error with some block \<open>c < b\<close> as the durable height, and the
  reconciliation of the next start then succeeds and gives the state after \<open>c\<close>, from which the next block can be
  tried again.\<close>

theorem sync_blocks_progress:
  assumes "ix_ok t s" and "env_ok env" and "unat a = Suc (unat t)" and "a \<le> b" and "sync_blocks env a b s = (r, s')"
  shows "(r = Inr b \<and> ix_ok b s') \<or> (\<exists>e c. r = Inl (Err e) \<and> t \<le> c \<and> c < b \<and> resumes_at c s')"
proof -
  define n where "n = unat b - unat t"
  have b: "unat b = unat t + n" "0 < n" using assms(3,4) by (simp_all add: n_def word_le_nat_alt)
  have lt: "unat t + n < 2 ^ 32" using unat_less_2p [of b] unfolding b(1) by simp
  have bn: "of_nat (unat t + n) = b" unfolding b(1) [symmetric] by simp
  have "sync_blocks_loop env (map of_nat [Suc (unat t)..<Suc (unat t + n)]) a s = (r, s')"
    using assms(3-5) b(1) by (simp add: sync_blocks_def block_range_def del: upt_Suc)
  from sync_loop_progress [OF assms(2,1) lt this] show ?thesis
    using b(2) unfolding bn b(1) [symmetric] by (auto simp: word_less_nat_alt)
qed

section \<open>A savepoint that is not released\<close>

lemma release_fields [simp]:
  "en_block_hint (env\<lparr>en_release_fails := f\<rparr>) = en_block_hint env" "en_mint_batch (env\<lparr>en_release_fails := f\<rparr>) = en_mint_batch env"
  "en_utxo (env\<lparr>en_release_fails := f\<rparr>) = en_utxo env" "en_script_hash (env\<lparr>en_release_fails := f\<rparr>) = en_script_hash env"
  "en_block (env\<lparr>en_release_fails := f\<rparr>) = en_block env" "en_transaction (env\<lparr>en_release_fails := f\<rparr>) = en_transaction env"
  "en_envelope_inputs (env\<lparr>en_release_fails := f\<rparr>) = en_envelope_inputs env"
  "en_ambiguous_reason (env\<lparr>en_release_fails := f\<rparr>) = en_ambiguous_reason env"
  "en_parse_id (env\<lparr>en_release_fails := f\<rparr>) = en_parse_id env" "en_id_text (env\<lparr>en_release_fails := f\<rparr>) = en_id_text env"
  "en_owner_text (env\<lparr>en_release_fails := f\<rparr>) = en_owner_text env" "en_provider (env\<lparr>en_release_fails := f\<rparr>) = en_provider env"
  "en_rpc (env\<lparr>en_release_fails := f\<rparr>) = en_rpc env" "en_monitor (env\<lparr>en_release_fails := f\<rparr>) = en_monitor env"
  "en_block_commit (env\<lparr>en_release_fails := f\<rparr>) = en_block_commit env" "en_sha256 (env\<lparr>en_release_fails := f\<rparr>) = en_sha256 env"
  "en_encode (env\<lparr>en_release_fails := f\<rparr>) = en_encode env"
  by simp_all

lemma sync_block_release: "sync_block (env\<lparr>en_release_fails := f\<rparr>) h = sync_block env h"
  unfolding sync_block_def apply_block_def collect_mints_def collect_block_inscription_transfer_items_def
    persist_pass_block_commit_def release_fields ..


section \<open>A concrete indexer\<close>

definition sample_ix :: indexer where
  "sample_ix = \<lparr>ix_mgr = \<lparr>mg_store = \<lparr>ps_db = update_synced_btc_block_height 100 empty_pass_db, ps_savepoints = []\<rparr>,
       mg_energy = set_synced_block_height 100 empty_energy_db, mg_collector = None\<rparr>,
     ix_tracker = sample_tracker, ix_energy_failure_budget = 0, ix_transfer_reload_failure_budget = 0,
     ix_status_current = 100, ix_status_total = 0, ix_reorg_recovery_pending = False\<rparr>"

text \<open>Empty blocks; the commits of the balance service are known below a height.\<close>

definition sample_env :: "u32 \<Rightarrow> indexer_env" where
  "sample_env known = \<lparr>en_genesis_block_height = 90, en_block_hint = \<lambda>_. Inr (Some []),
     en_mint_batch = \<lambda>_ _. Inr \<lparr>mb_valid_mints = [], mb_invalid_mints = []\<rparr>, en_utxo = \<lambda>_. Inr 1000, en_script_hash = \<lambda>_. 7,
     en_block = \<lambda>_. Inr [], en_transaction = \<lambda>_. Inr sample_tx, en_envelope_inputs = \<lambda>_. [],
     en_ambiguous_reason = \<lambda>_ _. [], en_parse_id = \<lambda>_. None, en_id_text = sample_text, en_owner_text = sample_owner_text,
     en_provider = sample_provider, en_rpc = sample_world, en_monitor = sample_serial,
     en_block_commit = \<lambda>h. Inr (if h < known then Some \<lparr>bc_block_height = h, bc_btc_block_hash = [], bc_balance_delta_root = [],
       bc_block_commit = ''c'', bc_commit_protocol_version = [], bc_commit_hash_algo = []\<rparr> else None),
     en_state_ref = \<lambda>_. Inl (Err ''unknown''), en_sha256 = \<lambda>_. [], en_encode = \<lambda>_. [], en_row_order = \<lambda>rows. rows,
     en_synced_write_fails = \<lambda>_. False, en_release_fails = \<lambda>_. False\<rparr>"

lemma sample_env_ok: "env_ok (sample_env b)" "env_ok ((sample_env b)\<lparr>en_release_fails := f\<rparr>)"
  by (simp_all add: env_ok_def sample_env_def sample_provider_ok sample_world_def)

lemma sample_ix_ok: "ix_ok 100 sample_ix"
proof -
  have "timeline_ok (update_synced_btc_block_height 100 empty_pass_db)"
    by (rule pass_write_timeline [OF pass_write.synced timeline_empty]) (simp add: history_upto_def empty_pass_db_def)
  moreover have "energy_upto 100 empty_energy_db"
    by (simp add: energy_upto_def empty_energy_db_def get_pass_energy_record_def cf_get_def)
  ultimately show ?thesis
    by (simp add: ix_ok_def at_height_def sample_ix_def mgr_inv_def mgr_inv_but_def timeline_ok_def data_upto_def
        energy_db_ok_empty energy_db_ok_meta markers energy_upto_def sample_tracker_def)
      (simp add: state_defs empty_pass_db_def meta_defs empty_energy_db_def)
qed

text \<open>An empty block over an empty database, step by step.\<close>

lemma recovering_ok [simp]: "m s = (Inr x, s') \<Longrightarrow> recovering h f m s = (Inr x, s')"
  by (simp add: recovering_def)

lemma on_part_run:
  "m (ix_mgr s) = (r, g) \<Longrightarrow> on_mgr m s = (r, s\<lparr>ix_mgr := g\<rparr>)"
  "m' (mg_db g) = (r', d) \<Longrightarrow> on_db m' g = (r', g\<lparr>mg_store := (mg_store g)\<lparr>ps_db := d\<rparr>\<rparr>)"
  "m'' (mg_energy g) = (r'', en) \<Longrightarrow> on_energy m'' g = (r'', g\<lparr>mg_energy := en\<rparr>)"
  by (simp_all add: on_mgr_def on_db_def on_energy_def zoom_def)

lemma sample_env_fields:
  "en_block_hint (sample_env n) h = Inr (Some [])" "en_provider (sample_env n) = sample_provider"
  "en_rpc (sample_env n) = sample_world" "en_monitor (sample_env n) = sample_serial"
  "\<not> en_synced_write_fails (sample_env n) h" "\<not> en_release_fails (sample_env n) h"
  by (simp_all add: sample_env_def)

lemma empty_plan: "plan id_text txs [] [] = Inr []" "execute bp p [] g = (Inr (0, 0), g)" "process_invalid_mints [] g = (Inr 0, g)"
  by (simp_all add: plan_def execute_def process_invalid_mints_def)

lemma empty_settlement:
  "db_history db = [] \<Longrightarrow> assert_no_data_after_block_height h db = Inr () \<Longrightarrow>
    settle_active_balance_with_details ot sample_world sample_serial h db =
      (Inr \<lparr>bs_snapshot = \<lparr>as_block_height = h, as_total_balance = 0, as_active_address_count = 0\<rparr>, bs_active_pass_balances = []\<rparr>,
       upsert_active_balance_snapshot h 0 0 db)"
  by (simp add: settle_active_balance_with_details_def sample_serial_def load_active_passes_def
      get_all_active_pass_by_page_from_history_at_height_def get_passes_by_page_from_history_at_height_by_states_def
      latest_in_states_def latest_history_def page_rows_def limit_offset_def order_by_key_def load_balances_serial_def chunks.simps)

lemma empty_commit:
  assumes "co_block_height c = h" and "h < n"
  obtains entry where "persist_pass_block_commit (sample_env n) h c s = (Inr (), s\<lparr>ix_mgr := (ix_mgr s)\<lparr>mg_store :=
      (mg_store (ix_mgr s))\<lparr>ps_db := upsert_pass_block_commit entry (ix_db s)\<rparr>\<rparr>\<rparr>)"
proof -
  let ?u = "\<lparr>bc_block_height = h, bc_btc_block_hash = [], bc_balance_delta_root = [],
       bc_block_commit = ''c'', bc_commit_protocol_version = [], bc_commit_hash_algo = []\<rparr>"
  have "en_block_commit (sample_env n) h = Inr (Some ?u)" using assms(2) by (simp add: sample_env_def)
  moreover obtain entry where "build_commit_entry (en_sha256 (sample_env n)) (en_encode (sample_env n)) c ?u
      (if h = 0 then None else get_pass_block_commit (h - 1) (ix_db s)) = Inr entry"
    using assms(1) by (simp add: build_commit_entry_def Let_def)
  ultimately show thesis by (intro that) (simp add: persist_pass_block_commit_def on_part_run)
qed

lemma apply_empty:
  assumes "tr_staged_blocks (ix_tracker s) = [(h, m)]" and "get_pending_block_height (ix_energy s) = Inr (Some h)"
    and "mg_collector (ix_mgr s) = Some c" and "co_block_height c = h" and "db_history (ix_db s) = []"
    and "assert_no_data_after_block_height h (ix_db s) = Inr ()" and "h < n"
  shows "fst (apply_block (sample_env n) h [] \<lparr>cm_valid_items = [], cm_invalid_items = []\<rparr> [] s) = Inr ()"
proof -
  have f: "finalize_block_sync h (ix_energy s) = (Inr (), finalize_block_sync_meta h (ix_energy s))"
    using assms(2) by (simp add: finalize_block_sync_def)
  let ?s = "s\<lparr>ix_mgr := (ix_mgr s)\<lparr>mg_store := (mg_store (ix_mgr s))\<lparr>ps_db := upsert_active_balance_snapshot h 0 0 (ix_db s)\<rparr>,
     mg_energy := finalize_block_sync_meta h (ix_energy s), mg_collector := None\<rparr>\<rparr>"
  obtain entry where p: "persist_pass_block_commit (sample_env n) h c ?s = (Inr (), ?s\<lparr>ix_mgr := (ix_mgr ?s)\<lparr>mg_store :=
      (mg_store (ix_mgr ?s))\<lparr>ps_db := upsert_pass_block_commit entry (ix_db ?s)\<rparr>\<rparr>\<rparr>)"
    by (rule empty_commit [OF assms(4,7)]) (rule that)
  have t: "on_mgr (take_block_mutation_collector h) (s\<lparr>ix_mgr := (ix_mgr s)\<lparr>mg_store := (mg_store (ix_mgr s))\<lparr>ps_db :=
      upsert_active_balance_snapshot h 0 0 (ix_db s)\<rparr>, mg_energy := finalize_block_sync_meta h (ix_energy s)\<rparr>\<rparr>) = (Inr c, ?s)"
    using assms(3,4) by (simp add: on_part_run take_block_mutation_collector_def)
  have "on_tracker (commit_staged_block h) s' = (Inr (), s'\<lparr>ix_tracker := (ix_tracker s')\<lparr>tr_staged_blocks := [], tr_inscriptions := m\<rparr>\<rparr>)"
    if "tr_staged_blocks (ix_tracker s') = [(h, m)]" for s'
    by (rule on_tracker_run) (simp add: that commit_staged_block_def AList.delete_eq)
  then show ?thesis
    using assms(1,5,6) f p t by (simp add: apply_block_def empty_plan sample_env_fields on_part_run empty_settlement)
qed

lemma sample_sync_block:
  assumes at: "at_height t s" and s: "db_history (ix_db s) = []" "assert_no_data_after_block_height h (ix_db s) = Inr ()" "h < n"
  shows "fst (sync_block (sample_env n) h s) = Inr ()"
proof -
  let ?s = "s\<lparr>ix_mgr := begun h s\<rparr>"
  let ?s' = "?s\<lparr>ix_tracker := (ix_tracker s)\<lparr>tr_staged_blocks := [(h, tr_inscriptions (ix_tracker s))]\<rparr>\<rparr>"
  have m: "collect_mints (sample_env n) h [] ?s = (Inr \<lparr>cm_valid_items = [], cm_invalid_items = []\<rparr>, ?s)"
    by (simp add: collect_mints_def sample_env_def on_tracker_def zoom_def collect_block_inscription_mints_def)
  have tr: "collect_block_inscription_transfer_items (sample_env n) h (Some []) [] ?s = (Inr [], ?s')"
    using at by (simp add: collect_block_inscription_transfer_items_def sample_env_def on_tracker_def zoom_def
        process_block_with_hint_def on_utxo_def at_height_def)
  have a: "fst (apply_block (sample_env n) h [] \<lparr>cm_valid_items = [], cm_invalid_items = []\<rparr> [] ?s') = Inr ()"
    by (rule apply_empty [where c = "PassBlockMutationCollector_new h"])
      (use s in \<open>simp_all add: begun_def PassBlockMutationCollector_new_def\<close>)
  obtain s2 where "apply_block (sample_env n) h [] \<lparr>cm_valid_items = [], cm_invalid_items = []\<rparr> [] ?s' = (Inr (), s2)"
    using a by (metis prod.collapse)
  then show ?thesis
    using begin_run [OF at, of h] m tr
    by (simp add: sync_block_def with_collection_guard_def sample_env_fields build_transfer_track_seeds_def)
qed

lemma sample_sync_from:
  assumes ok: "ix_ok 100 s" and db: "ix_db s = ix_db sample_ix"
  obtains s1 where "sync_one (sample_env 200) 101 s = (Inr (), s1)"
proof -
  let ?s0 = "s\<lparr>ix_mgr := (ix_mgr s)\<lparr>mg_store := (mg_store (ix_mgr s))\<lparr>ps_savepoints := [ix_db s]\<rparr>\<rparr>\<rparr>"
  have at: "at_height 100 ?s0" using ok by (simp add: ix_ok_def at_height_def mgr_inv_def mgr_inv_but_def)
  have d: "pass_synced_height s = 100" using ok by (simp add: ix_ok_def at_height_def pass_synced_height_def)
  have b: "on_store savepoint_begin s = (Inr (), ?s0)"
    using ok by (simp add: ix_ok_def on_store_def on_mgr_def zoom_def savepoint_begin_def)
  have "assert_no_data_after_block_height 101 (ix_db sample_ix) = Inr ()" by code_simp
  then have "assert_no_data_after_block_height 101 (ix_db s) = Inr ()" by (simp add: db)
  moreover have "db_history (ix_db s) = []" unfolding db by (simp add: sample_ix_def state_defs empty_pass_db_def)
  ultimately have f: "fst (sync_block (sample_env 200) 101 ?s0) = Inr ()" by (intro sample_sync_block [OF at]) simp_all
  then obtain s3 where s3: "sync_block (sample_env 200) 101 ?s0 = (Inr (), s3)" by (metis prod.collapse)
  have "ps_savepoints (mg_store (ix_mgr s3)) = [ix_db s]"
    using sync_block_triple [OF at next_height sample_env_ok(1), of 101 200] s3
    by (simp add: triple_def block_synced_def block_done_def mgr_moves_def)
  then have "\<exists>s1. sync_one (sample_env 200) 101 s = (Inr (), s1)"
    by (simp add: sync_one_def d b sync_block_in_savepoint_def s3 sample_env_fields on_part_run on_store_run savepoint_commit_def)
  then show thesis using that by blast
qed

lemma sample_sync_one: obtains s1 where "sync_one (sample_env 200) 101 sample_ix = (Inr (), s1)"
  by (rule sample_sync_from [OF sample_ix_ok refl])


theorem sync_blocks_progress_witness:
  "\<exists>s'. sync_blocks (sample_env 200) 101 101 sample_ix = (Inr 101, s') \<and> ix_ok 101 s'"
proof -
  obtain s1 where "sync_one (sample_env 200) 101 sample_ix = (Inr (), s1)" by (rule sample_sync_one) (rule that)
  then have r: "sync_blocks (sample_env 200) 101 101 sample_ix = (Inr 101, s1)"
    by (simp add: sync_blocks_def block_range_def)
  from sync_blocks_progress [OF sample_ix_ok sample_env_ok(1) _ _ r] r show ?thesis by simp
qed


end
