(* ===== verification/Indexer_Reorg.thy ===== *)
theory Indexer_Reorg
  imports Indexer_Atomic
begin

text \<open>
  The main loop of \<open>usdb-indexer/src/index/indexer.rs\<close>: detection of an upstream reorganisation, the
  common ancestor, the resumable recovery, the snapshot anchors and \<open>sync_once\<close>.  The values polled
  from the status of the balance service are arguments.
\<close>

section \<open>Matching local and upstream state\<close>

definition stored_pass_commit_matches_upstream :: "PassBlockCommitEntry \<Rightarrow> BlockCommitInfo \<Rightarrow> bool" where
  "stored_pass_commit_matches_upstream local_commit upstream_commit \<longleftrightarrow>
     pc_balance_history_block_height local_commit = bc_block_height upstream_commit \<and>
     pc_balance_history_block_commit local_commit = bc_block_commit upstream_commit \<and>
     pc_commit_protocol_version local_commit = bc_commit_protocol_version upstream_commit \<and>
     pc_commit_hash_algo local_commit = bc_commit_hash_algo upstream_commit"

definition snapshot_anchor_matches_upstream ::
  "BalanceHistorySnapshotAnchor \<Rightarrow> BalanceHistorySnapshotInfo \<Rightarrow> bool result" where
  "snapshot_anchor_matches_upstream local_anchor upstream_snapshot =
     (case sn_stable_block_hash upstream_snapshot of
        None \<Rightarrow> Inl (Err ''Balance-history snapshot missing stable block hash'')
      | Some upstream_block_hash \<Rightarrow>
        (case sn_latest_block_commit upstream_snapshot of
           None \<Rightarrow> Inl (Err ''Balance-history snapshot missing latest block commit'')
         | Some upstream_block_commit \<Rightarrow>
             Inr (an_stable_height local_anchor = sn_stable_height upstream_snapshot \<and>
               an_stable_block_hash local_anchor = upstream_block_hash \<and>
               an_latest_block_commit local_anchor = upstream_block_commit \<and>
               an_commit_protocol_version local_anchor = sn_commit_protocol_version upstream_snapshot \<and>
               an_commit_hash_algo local_anchor = sn_commit_hash_algo upstream_snapshot)))"

definition stored_snapshot_anchor_matches_historical_state_ref ::
  "BalanceHistorySnapshotAnchor \<Rightarrow> HistoricalSnapshotStateRef \<Rightarrow> bool" where
  "stored_snapshot_anchor_matches_historical_state_ref local_anchor upstream_state_ref \<longleftrightarrow>
     an_stable_height local_anchor = sr_block_height upstream_state_ref \<and>
     an_stable_block_hash local_anchor = sr_stable_block_hash upstream_state_ref \<and>
     an_latest_block_commit local_anchor = sr_latest_block_commit upstream_state_ref \<and>
     an_stable_lag local_anchor = si_stable_lag (sr_consensus_identity upstream_state_ref) \<and>
     an_commit_protocol_version local_anchor = sr_commit_protocol_version upstream_state_ref \<and>
     an_commit_hash_algo local_anchor = sr_commit_hash_algo upstream_state_ref"

text \<open>The conversion of a historic state reference into a snapshot.\<close>

definition snapshot_of_state_ref :: "HistoricalSnapshotStateRef \<Rightarrow> BalanceHistorySnapshotInfo" where
  "snapshot_of_state_ref state_ref =
     \<lparr>sn_stable_height = sr_block_height state_ref, sn_stable_block_hash = Some (sr_stable_block_hash state_ref),
      sn_latest_block_commit = Some (sr_latest_block_commit state_ref),
      sn_stable_lag = si_stable_lag (sr_consensus_identity state_ref),
      sn_commit_protocol_version = sr_commit_protocol_version state_ref,
      sn_commit_hash_algo = sr_commit_hash_algo state_ref\<rparr>"

section \<open>The common ancestor\<close>

text \<open>The downward loop over \<open>(genesis..=tip).rev()\<close>.\<close>

fun ancestor_loop :: "indexer_env \<Rightarrow> pass_db \<Rightarrow> u32 \<Rightarrow> u32 list \<Rightarrow> u32 result" where
  "ancestor_loop env db rollback_floor [] = Inr rollback_floor"
| "ancestor_loop env db rollback_floor (height # heights) =
     (case get_pass_block_commit height db of
        None \<Rightarrow> Inr rollback_floor
      | Some local_commit \<Rightarrow>
        (case en_block_commit env height of
           Inl e \<Rightarrow> Inl e
         | Inr None \<Rightarrow> Inl (Err ''Balance-history block commit is missing during common-ancestor search'')
         | Inr (Some upstream_commit) \<Rightarrow>
           (case get_balance_history_snapshot_anchor_at_height height db of
              None \<Rightarrow>
                if stored_pass_commit_matches_upstream local_commit upstream_commit then Inr height
                else ancestor_loop env db rollback_floor heights
            | Some local_snapshot_anchor \<Rightarrow>
              (case en_state_ref env height of
                 Inl (Panic e) \<Rightarrow> Inl (Panic e)
               | Inl (Err e) \<Rightarrow> Inl (Err ''Balance-history historical state ref is missing during common-ancestor search'')
               | Inr upstream_state_ref \<Rightarrow>
                   if stored_pass_commit_matches_upstream local_commit upstream_commit \<and>
                      stored_snapshot_anchor_matches_historical_state_ref local_snapshot_anchor upstream_state_ref
                   then Inr height else ancestor_loop env db rollback_floor heights))))"

definition find_common_ancestor_height :: "indexer_env \<Rightarrow> u32 \<Rightarrow> u32 \<Rightarrow> u32 \<Rightarrow> pass_db \<Rightarrow> u32 result" where
  "find_common_ancestor_height env current_height latest_height genesis_block_height db =
     (let rollback_floor = sat_sub genesis_block_height 1; search_tip = min current_height latest_height
      in if search_tip < genesis_block_height then Inr rollback_floor
         else ancestor_loop env db rollback_floor (rev (block_range genesis_block_height search_tip)))"

text \<open>The reasons of a drift, by their fixed texts; no reason means no reorganisation.\<close>

definition anchor_drift :: "u32 \<Rightarrow> u32 \<Rightarrow> BalanceHistorySnapshotInfo \<Rightarrow> pass_db \<Rightarrow> string list result" where
  "anchor_drift current_height latest_height snapshot db =
     (if current_height \<noteq> latest_height then Inr []
      else case get_balance_history_snapshot_anchor db of
        Inl e \<Rightarrow> Inl e
      | Inr None \<Rightarrow> Inr []
      | Inr (Some local_anchor) \<Rightarrow>
          (case snapshot_anchor_matches_upstream local_anchor snapshot of
             Inl e \<Rightarrow> Inl e
           | Inr matches \<Rightarrow> Inr (if matches then [] else [''upstream snapshot anchor drifted at stable height''])))"

definition commit_drift :: "indexer_env \<Rightarrow> u32 \<Rightarrow> u32 \<Rightarrow> pass_db \<Rightarrow> string list result" where
  "commit_drift env current_height genesis_block_height db =
     (if current_height < genesis_block_height then Inr []
      else case get_pass_block_commit current_height db of
        None \<Rightarrow> Inr []
      | Some local_commit \<Rightarrow>
          (case en_block_commit env current_height of
             Inl e \<Rightarrow> Inl e
           | Inr None \<Rightarrow> Inr [''upstream block commit missing at height'']
           | Inr (Some upstream_commit) \<Rightarrow>
               Inr (if stored_pass_commit_matches_upstream local_commit upstream_commit then []
                 else [''upstream block commit drifted at height''])))"

definition detect_upstream_reorg_target ::
  "indexer_env \<Rightarrow> u32 \<Rightarrow> u32 \<Rightarrow> BalanceHistorySnapshotInfo \<Rightarrow> u32 \<Rightarrow> pass_db \<Rightarrow> (u32 \<times> string list) option result" where
  "detect_upstream_reorg_target env current_height latest_height snapshot genesis_block_height db =
     (let regressed = (if latest_height < current_height then [''upstream stable height regressed''] else [])
      in case anchor_drift current_height latest_height snapshot db of
        Inl e \<Rightarrow> Inl e
      | Inr anchor \<Rightarrow>
          (case commit_drift env current_height genesis_block_height db of
             Inl e \<Rightarrow> Inl e
           | Inr commit \<Rightarrow>
               if regressed @ anchor @ commit = [] then Inr None
               else (case find_common_ancestor_height env current_height latest_height genesis_block_height db of
                 Inl e \<Rightarrow> Inl e
               | Inr rollback_target \<Rightarrow> Inr (Some (rollback_target, regressed @ anchor @ commit)))))"

section \<open>Recovery\<close>

text \<open>\<open>map_err\<close>: an error value gets the fixed text of its context; a panic goes on.\<close>

definition map_err :: "string \<Rightarrow> ('s, 'a) op \<Rightarrow> ('s, 'a) op" where
  "map_err msg m s = (case m s of (Inl (Err e), s') \<Rightarrow> (Inl (Err msg), s') | other \<Rightarrow> other)"

text \<open>The failure budgets of \<open>ReorgRecoveryFaultInjector\<close>; the compare-and-swap loop has no competitor.\<close>

definition consume_budget :: "u32 \<Rightarrow> u32 option \<times> u32" where
  "consume_budget remaining = (if remaining = 0 then (None, remaining) else (Some (remaining - 1), remaining - 1))"

definition maybe_fail_energy_recovery :: "(indexer, unit) op" where
  "maybe_fail_energy_recovery s =
     (let (consumed, left) = consume_budget (ix_energy_failure_budget s);
          s' = s\<lparr>ix_energy_failure_budget := left\<rparr>
      in case consumed of None \<Rightarrow> (Inr (), s') | Some _ \<Rightarrow> (Inl (Err ''Injected reorg recovery energy failure''), s'))"

definition maybe_fail_transfer_reload :: "(indexer, unit) op" where
  "maybe_fail_transfer_reload s =
     (let (consumed, left) = consume_budget (ix_transfer_reload_failure_budget s);
          s' = s\<lparr>ix_transfer_reload_failure_budget := left\<rparr>
      in case consumed of None \<Rightarrow> (Inr (), s') | Some _ \<Rightarrow> (Inl (Err ''Injected reorg recovery transfer reload failure''), s'))"

text \<open>Reloading the tracker; the page loop has fuel for every page of the table.\<close>

definition reload_tracker :: "indexer_env \<Rightarrow> (indexer, unit) op" where
  "reload_tracker env s =
     (case reload_from_storage (Suc (length (db_passes (ix_db s)))) (en_row_order env) (ix_db s) (ix_tracker s) of
        None \<Rightarrow> (Inl (Err ''out of fuel''), s)
      | Some t \<Rightarrow> (Inr (), s\<lparr>ix_tracker := t\<rparr>))"

definition set_upstream_reorg_recovery_pending :: "bool \<Rightarrow> indexer \<Rightarrow> indexer" where
  "set_upstream_reorg_recovery_pending pending s = s\<lparr>ix_reorg_recovery_pending := pending\<rparr>"

definition resume_pending_upstream_reorg_recovery :: "indexer_env \<Rightarrow> u32 \<Rightarrow> (indexer, unit) op" where
  "resume_pending_upstream_reorg_recovery env genesis_block_height =
     bindR (getsR (\<lambda>s. get_upstream_reorg_recovery_pending_height (ix_db s))) (\<lambda>pending.
     case pending of
       None \<Rightarrow> modify (set_upstream_reorg_recovery_pending False)
     | Some pending_height \<Rightarrow>
         bindR (modify (set_upstream_reorg_recovery_pending True)) (\<lambda>_.
         bindR (gets pass_synced_height) (\<lambda>synced_height.
         bindR (guardR (synced_height = pending_height) (Err ''Pending upstream reorg recovery height mismatch'')) (\<lambda>_.
         bindR (modify (update_index_status (Some synced_height) None)) (\<lambda>_.
         bindR (map_err ''Failed to inject pending upstream reorg energy recovery fault'' maybe_fail_energy_recovery) (\<lambda>_.
         bindR (map_err ''Failed to rollback energy state during pending upstream reorg recovery''
             (on_mgr (on_energy (rollback_to_pass_synced_height pending_height)))) (\<lambda>_.
         bindR (map_err ''Failed to inject pending upstream reorg transfer reload fault'' maybe_fail_transfer_reload) (\<lambda>_.
         bindR (map_err ''Failed to reload transfer tracker during pending upstream reorg recovery'' (reload_tracker env)) (\<lambda>_.
         bindR (map_err ''Data consistency check failed after pending upstream reorg recovery''
             (getsR (\<lambda>s. assert_no_data_after_block_height pending_height (ix_db s)))) (\<lambda>_.
         bindR (map_err ''Balance snapshot consistency check failed after pending upstream reorg recovery''
             (getsR (\<lambda>s. assert_balance_snapshot_consistency pending_height genesis_block_height (ix_db s)))) (\<lambda>_.
         bindR (on_mgr (on_db (modify clear_upstream_reorg_recovery_pending_height))) (\<lambda>_.
         modify (set_upstream_reorg_recovery_pending False)))))))))))))"

definition reconcile_upstream_reorg ::
  "indexer_env \<Rightarrow> u32 \<Rightarrow> u32 \<Rightarrow> BalanceHistorySnapshotInfo \<Rightarrow> u32 \<Rightarrow> (indexer, u32) op" where
  "reconcile_upstream_reorg env current_height latest_height snapshot genesis_block_height =
     bindR (getsR (\<lambda>s. detect_upstream_reorg_target env current_height latest_height snapshot genesis_block_height (ix_db s)))
       (\<lambda>target.
     case target of
       None \<Rightarrow> ret current_height
     | Some (rollback_target, drift_reasons) \<Rightarrow>
         bindR (modify (update_index_status (Some current_height) (Some latest_height))) (\<lambda>_.
         bindR (modify (set_upstream_reorg_recovery_pending True)) (\<lambda>_.
         bindR (\<lambda>s. case on_store (rollback_to_block_height_with_upstream_reorg_recovery_pending (en_id_text env) rollback_target None) s of
             (Inl (Err e), s') \<Rightarrow>
               (Inl (Err ''Failed to rollback miner pass storage after upstream anchor drift''),
                set_upstream_reorg_recovery_pending False s')
           | other \<Rightarrow> other) (\<lambda>_.
         bindR (resume_pending_upstream_reorg_recovery env genesis_block_height) (\<lambda>_.
         ret rollback_target)))))"

section \<open>Snapshot anchors\<close>

fun backfill_loop :: "indexer_env \<Rightarrow> u32 list \<Rightarrow> (indexer, unit) op" where
  "backfill_loop env [] = ret ()"
| "backfill_loop env (height # heights) =
     bindR (gets (\<lambda>s. get_balance_history_snapshot_anchor_at_height height (ix_db s))) (\<lambda>stored.
     if stored \<noteq> None then backfill_loop env heights
     else
       bindR (map_err ''Failed to load balance-history historical state ref while backfilling upstream snapshot history''
           (getsR (\<lambda>_. en_state_ref env height))) (\<lambda>state_ref.
       bindR (map_err ''Failed to persist backfilled balance-history snapshot history''
           (on_mgr (on_db (upsert_balance_history_snapshot_history_entry (snapshot_of_state_ref state_ref))))) (\<lambda>_.
       backfill_loop env heights)))"

definition backfill_balance_history_snapshot_history :: "indexer_env \<Rightarrow> u32 \<Rightarrow> u32 \<Rightarrow> (indexer, unit) op" where
  "backfill_balance_history_snapshot_history env start_height end_height =
     (if end_height < start_height then ret ()
      else
        bindR (gets (\<lambda>s. get_first_missing_balance_history_snapshot_history_height start_height end_height (ix_db s)))
          (\<lambda>first_missing.
        case first_missing of
          None \<Rightarrow> ret ()
        | Some first_missing_height \<Rightarrow> backfill_loop env (block_range first_missing_height end_height)))"

definition persist_balance_history_snapshot_anchor :: "u32 \<Rightarrow> BalanceHistorySnapshotInfo \<Rightarrow> (indexer, unit) op" where
  "persist_balance_history_snapshot_anchor synced_height snapshot =
     bindR (guardR (sn_stable_height snapshot = synced_height)
       (Err ''Balance-history snapshot height mismatch when persisting anchor'')) (\<lambda>_.
     map_err ''Failed to persist adopted balance-history snapshot anchor''
       (on_store (upsert_balance_history_snapshot_anchor snapshot)))"

section \<open>The main loop\<close>

text \<open>The unchecked subtraction \<open>genesis_block_height - 1\<close> traps when the genesis height is 0.\<close>

definition genesis_floor :: "u32 \<Rightarrow> u32 result" where
  "genesis_floor genesis_block_height =
     (if genesis_block_height = 0 then Inl (Panic ''attempt to subtract with overflow'') else Inr (genesis_block_height - 1))"

definition finish_sync :: "indexer_env \<Rightarrow> u32 \<Rightarrow> u32 \<Rightarrow> BalanceHistorySnapshotInfo \<Rightarrow> (indexer, unit) op" where
  "finish_sync env genesis_block_height current_height snapshot =
     bindR (persist_balance_history_snapshot_anchor current_height snapshot) (\<lambda>_.
     backfill_balance_history_snapshot_history env genesis_block_height current_height)"

text \<open>One round, with the snapshot and the stable height as two separate readings of the status.\<close>

definition sync_once ::
  "indexer_env \<Rightarrow> BalanceHistorySnapshotInfo option \<Rightarrow> u32 option \<Rightarrow> (indexer, u32) op" where
  "sync_once env status_snapshot status_stable_height =
     (let genesis_block_height = en_genesis_block_height env in
     case status_snapshot of
       None \<Rightarrow> fail (Err ''Balance-history snapshot is not ready yet'')
     | Some snapshot \<Rightarrow>
     (case status_stable_height of
       None \<Rightarrow> fail (Err ''Balance-history stable height is not ready yet'')
     | Some latest_height \<Rightarrow>
     bindR (gets pass_synced_height) (\<lambda>synced.
     bindR (getsR (\<lambda>_. genesis_floor genesis_block_height)) (\<lambda>lowest.
     let current_height = max synced lowest in
     bindR (resume_pending_upstream_reorg_recovery env genesis_block_height) (\<lambda>_.
     bindR (gets (\<lambda>s. case get_synced_btc_block_height (ix_db s) of Some h \<Rightarrow> h | None \<Rightarrow> current_height)) (\<lambda>resumed.
     let current_height = max resumed lowest in
     if latest_height < genesis_block_height
     then bindR (modify (update_index_status (Some latest_height) (Some latest_height))) (\<lambda>_. ret latest_height)
     else
     bindR (reconcile_upstream_reorg env current_height latest_height snapshot genesis_block_height) (\<lambda>current_height.
     bindR (map_err ''Data consistency check failed before syncing''
         (getsR (\<lambda>s. assert_no_data_after_block_height current_height (ix_db s)))) (\<lambda>_.
     bindR (map_err ''Balance snapshot consistency check failed before syncing''
         (getsR (\<lambda>s. assert_balance_snapshot_consistency current_height genesis_block_height (ix_db s)))) (\<lambda>_.
     bindR (map_err ''Energy consistency check failed before syncing''
         (on_mgr (on_energy (reconcile_with_pass_synced_height current_height)))) (\<lambda>_.
     if latest_height \<le> current_height
     then
       bindR (finish_sync env genesis_block_height current_height snapshot) (\<lambda>_.
       bindR (modify (update_index_status (Some current_height) (Some latest_height))) (\<lambda>_.
       ret current_height))
     else
       bindR (modify (update_index_status (Some current_height) (Some latest_height))) (\<lambda>_.
       bindR (map_err ''Failed to sync inscriptions from block range'' (sync_blocks env (current_height + 1) latest_height))
         (\<lambda>current_height.
       bindR (finish_sync env genesis_block_height current_height snapshot) (\<lambda>_.
       ret current_height)))))))))))))"

text \<open>The idle loop over the polled snapshots, each with whether a shutdown was requested after it; \<open>None\<close> while it
  is still waiting.\<close>

fun wait_for_new_blocks ::
  "indexer_env \<Rightarrow> pass_db \<Rightarrow> u32 \<Rightarrow> (BalanceHistorySnapshotInfo option \<times> bool) list \<Rightarrow> u32 result option" where
  "wait_for_new_blocks env db last_synced_height [] = None"
| "wait_for_new_blocks env db last_synced_height ((latest_snapshot, shutdown) # polls) =
     (let latest_height = (case latest_snapshot of Some snapshot \<Rightarrow> sn_stable_height snapshot | None \<Rightarrow> last_synced_height)
      in if last_synced_height < latest_height then Some (Inr latest_height)
         else case (case latest_snapshot of
             None \<Rightarrow> Inr None
           | Some snapshot \<Rightarrow>
               detect_upstream_reorg_target env last_synced_height latest_height snapshot (en_genesis_block_height env) db) of
           Inl e \<Rightarrow> Some (Inl e)
         | Inr (Some _) \<Rightarrow> Some (Inr latest_height)
         | Inr None \<Rightarrow>
             if shutdown then Some (Inr last_synced_height)
             else wait_for_new_blocks env db last_synced_height polls)"

end
