(* ===== verification/Indexer_Recovery.thy ===== *)
theory Indexer_Recovery
  imports Indexer_Reorg
begin

text \<open>
  What the reorganisation logic of \<open>Indexer_Reorg\<close> promises: the height it rolls back to, the state after a
  completed recovery, and that an interrupted recovery is completed by later attempts.
\<close>

section \<open>The common ancestor\<close>

text \<open>Local and upstream state agree at a height: the pass commit names the upstream commit, and the stored
  snapshot anchor, if any, is the upstream state reference.\<close>

definition agrees_at :: "indexer_env \<Rightarrow> pass_db \<Rightarrow> u32 \<Rightarrow> bool" where
  "agrees_at env db k \<longleftrightarrow>
     (case (get_pass_block_commit k db, en_block_commit env k) of
        (Some local_commit, Inr (Some upstream_commit)) \<Rightarrow>
          stored_pass_commit_matches_upstream local_commit upstream_commit \<and>
          (case get_balance_history_snapshot_anchor_at_height k db of
             None \<Rightarrow> True
           | Some anchor \<Rightarrow>
               (case en_state_ref env k of
                  Inl _ \<Rightarrow> False
                | Inr state_ref \<Rightarrow> stored_snapshot_anchor_matches_historical_state_ref anchor state_ref))
      | _ \<Rightarrow> False)"

text \<open>The upstream service knows every height of a range.\<close>

definition upstream_serves :: "indexer_env \<Rightarrow> u32 set \<Rightarrow> bool" where
  "upstream_serves env ks \<longleftrightarrow>
     (\<forall>k \<in> ks. (\<exists>c. en_block_commit env k = Inr (Some c)) \<and> (\<exists>r. en_state_ref env k = Inr r))"

lemma ancestor_loop_cases:
  assumes "ancestor_loop env db floor hs = Inr a"
  obtains (found) xs ys where "hs = xs @ a # ys" and "agrees_at env db a" and "\<And>k. k \<in> set xs \<Longrightarrow> \<not> agrees_at env db k"
  | (bottom) xs ys where "a = floor" and "hs = xs @ ys" and "\<And>k. k \<in> set xs \<Longrightarrow> \<not> agrees_at env db k"
      and "ys = [] \<or> get_pass_block_commit (hd ys) db = None"
  using assms
proof (induction hs arbitrary: thesis)
  case Nil
  then show ?case by (auto intro: Nil(2) [of "[]" "[]"])
next
  case (Cons k hs)
  show ?case
  proof (cases "get_pass_block_commit k db")
    case None
    then show ?thesis using Cons.prems(3) by (intro Cons.prems(2) [of "[]" "k # hs"]) simp_all
  next
    case (Some c)
    show ?thesis
    proof (cases "agrees_at env db k")
      case True
      then have "a = k" using Cons.prems(3) Some
        by (auto simp: agrees_at_def split: sum.splits option.splits error.splits if_splits)
      with True show ?thesis by (intro Cons.prems(1) [of "[]" hs]) simp_all
    next
      case False
      then have "ancestor_loop env db floor hs = Inr a" using Cons.prems(3) Some
        by (auto simp: agrees_at_def split: sum.splits option.splits error.splits if_splits)
      then show ?thesis
      proof (rule Cons.IH [rotated 2])
        fix xs ys assume h: "hs = xs @ a # ys" "agrees_at env db a" "\<And>j. j \<in> set xs \<Longrightarrow> \<not> agrees_at env db j"
        show thesis by (rule Cons.prems(1) [of "k # xs" ys]) (use h False in auto)
      next
        fix xs ys assume h: "a = floor" "hs = xs @ ys" "\<And>j. j \<in> set xs \<Longrightarrow> \<not> agrees_at env db j"
          "ys = [] \<or> get_pass_block_commit (hd ys) db = None"
        show thesis by (rule Cons.prems(2) [of "k # xs" ys]) (use h False in auto)
      qed
    qed
  qed
qed

lemma ancestor_loop_total: "upstream_serves env (set hs) \<Longrightarrow> \<exists>a. ancestor_loop env db floor hs = Inr a"
  by (induction hs) (fastforce simp: upstream_serves_def split: option.splits)+

lemma set_block_range: "set (block_range a b) = {a..b}"
proof -
  have "k \<in> set (block_range a b) \<longleftrightarrow> k \<in> {a..b}" for k :: u32
  proof
    assume "k \<in> set (block_range a b)"
    then obtain n where n: "k = of_nat n" "unat a \<le> n" "n \<le> unat b" by (auto simp: block_range_def)
    have "n < 2 ^ 32" using n(3) unat_less_2p [of b] by simp
    then have "unat k = n" unfolding n(1) by (simp add: unat_of_nat)
    with n(2,3) show "k \<in> {a..b}" by (simp add: word_le_nat_alt)
  next
    assume "k \<in> {a..b}"
    then show "k \<in> set (block_range a b)"
      by (auto simp: block_range_def word_le_nat_alt image_iff intro!: bexI [of _ "unat k"] simp del: upt_Suc)
  qed
  then show ?thesis by blast
qed

lemma sorted_block_range: "sorted_wrt (<) (block_range a b)"
proof -
  have "sorted_wrt (\<lambda>x y. (of_nat x :: u32) < of_nat y) [unat a..<Suc (unat b)]"
  proof (rule sorted_wrt_mono_rel [OF _ sorted_wrt_upt])
    fix x y assume "x \<in> set [unat a..<Suc (unat b)]" "y \<in> set [unat a..<Suc (unat b)]" "x < y"
    moreover have "unat b < 2 ^ 32" using unat_less_2p [of b] by simp
    ultimately have "x < 2 ^ 32" "y < 2 ^ 32" "x < y" by auto
    then show "(of_nat x :: u32) < of_nat y" by (simp add: word_less_nat_alt unat_of_nat)
  qed
  then show ?thesis by (simp add: block_range_def sorted_wrt_map del: upt_Suc)
qed

lemma common_ancestor_cases:
  fixes g tip :: u32
  assumes tip: "tip = min current_height latest_height" "g \<le> tip"
    and r: "find_common_ancestor_height env current_height latest_height g db = Inr a"
  shows "(g \<le> a \<and> a \<le> tip \<and> agrees_at env db a \<and> (\<forall>k. a < k \<and> k \<le> tip \<longrightarrow> \<not> agrees_at env db k)) \<or>
    (a = sat_sub g 1 \<and> (\<forall>k. g \<le> k \<and> k \<le> tip \<and> agrees_at env db k \<longrightarrow> (\<exists>j > k. j \<le> tip \<and> get_pass_block_commit j db = None)))"
proof -
  let ?hs = "rev (block_range g tip)"
  have st: "set ?hs = {g..tip}" and desc: "sorted_wrt (>) ?hs"
    using sorted_block_range [of g tip] by (simp_all add: set_block_range sorted_wrt_rev)
  have "ancestor_loop env db (sat_sub g 1) ?hs = Inr a"
    using r tip(2) by (simp add: find_common_ancestor_height_def Let_def tip(1) [symmetric] not_less [symmetric])
  then show ?thesis
  proof (cases rule: ancestor_loop_cases)
    case (found xs ys)
    have "a \<in> {g..tip}" unfolding st [symmetric] found(1) by simp
    moreover have "k \<in> set xs" if "a < k" "k \<le> tip" for k
    proof -
      have "k \<in> set (xs @ a # ys)" unfolding found(1) [symmetric] st using that \<open>a \<in> {g..tip}\<close> by auto
      moreover have "\<forall>y \<in> set ys. y < a" using desc unfolding found(1) by (simp add: sorted_wrt_append)
      ultimately show ?thesis using that(1) by fastforce
    qed
    ultimately show ?thesis using found(2,3) by auto
  next
    case (bottom xs ys)
    have "\<exists>j > k. j \<le> tip \<and> get_pass_block_commit j db = None" if k: "g \<le> k" "k \<le> tip" "agrees_at env db k" for k
    proof -
      have "k \<in> set (xs @ ys)" unfolding bottom(2) [symmetric] st using k by simp
      with bottom(3) k(3) have ky: "k \<in> set ys" by auto
      then obtain j zs where ys: "ys = j # zs" by (cases ys) auto
      have j: "get_pass_block_commit j db = None" using bottom(4) ys by simp
      then have "k \<noteq> j" using k(3) by (auto simp: agrees_at_def)
      with ky ys have "k < j" using desc unfolding bottom(2) by (auto simp: sorted_wrt_append)
      moreover have "j \<le> tip" using st unfolding bottom(2) ys by auto
      ultimately show ?thesis using j by blast
    qed
    with bottom(1) show ?thesis by blast
  qed
qed

text \<open>C14: the height a reorganisation rolls back to.  Searching down from the lower of the two tips, the result is
  the greatest height at or above genesis where local and upstream state agree; when it is the block before genesis
  instead, every agreeing height lies below one whose local commit is missing.  A search that the upstream service
  can answer at every height never fails.\<close>

theorem common_ancestor_exact:
  "(find_common_ancestor_height env current_height latest_height g db = Inr a \<longrightarrow>
      (g \<le> a \<and> a \<le> min current_height latest_height \<and> agrees_at env db a \<and>
        (\<forall>k. a < k \<and> k \<le> min current_height latest_height \<longrightarrow> \<not> agrees_at env db k)) \<or>
      (a = sat_sub g 1 \<and> (\<forall>k. g \<le> k \<and> k \<le> min current_height latest_height \<and> agrees_at env db k \<longrightarrow>
        (\<exists>j > k. j \<le> min current_height latest_height \<and> get_pass_block_commit j db = None)))) \<and>
   (upstream_serves env {g..min current_height latest_height} \<longrightarrow>
      (\<exists>a. find_common_ancestor_height env current_height latest_height g db = Inr a))"
proof (cases "g \<le> min current_height latest_height")
  case True
  have "\<exists>a. find_common_ancestor_height env current_height latest_height g db = Inr a"
    if "upstream_serves env {g..min current_height latest_height}"
    using ancestor_loop_total [of env "rev (block_range g (min current_height latest_height))"] that
    by (simp add: find_common_ancestor_height_def Let_def set_block_range)
  with common_ancestor_cases [OF refl True] show ?thesis by blast
next
  case False
  then have "find_common_ancestor_height env current_height latest_height g db = Inr (sat_sub g 1)"
    by (auto simp: find_common_ancestor_height_def Let_def min_less_iff_disj not_le)
  with False show ?thesis by (auto simp: not_le)
qed

definition sample_commit :: "u32 \<Rightarrow> string \<Rightarrow> PassBlockCommitEntry" where
  "sample_commit h c = \<lparr>pc_block_height = h, pc_balance_history_block_height = h, pc_balance_history_block_commit = c,
     pc_mutation_root = [], pc_block_commit = [], pc_commit_protocol_version = [], pc_commit_hash_algo = []\<rparr>"

text \<open>Block 101 is shared with the upstream, block 102 is not.\<close>

definition sample_drift_db :: pass_db where
  "sample_drift_db = empty_pass_db\<lparr>db_commits := [sample_commit 101 ''c'', sample_commit 102 ''d'']\<rparr>"

theorem common_ancestor_exact_witness:
  "find_common_ancestor_height (sample_env 200) 102 103 101 sample_drift_db = Inr 101 \<and>
    agrees_at (sample_env 200) sample_drift_db 101 \<and> \<not> agrees_at (sample_env 200) sample_drift_db 102"
proof -
  have "find_common_ancestor_height (sample_env 200) 102 103 101 sample_drift_db = Inr 101" by code_simp
  with common_ancestor_exact [of "sample_env 200" 102 103 101 sample_drift_db 101] show ?thesis by (auto simp: sat_sub_def)
qed

section \<open>Blocks after a height\<close>

text \<open>From the state \<open>s0\<close> after block \<open>t\<close>: blocks synced one by one, each with the services as they were then, and
  snapshot anchors adopted in between.\<close>

inductive follows :: "u32 \<Rightarrow> indexer \<Rightarrow> u32 \<Rightarrow> indexer \<Rightarrow> bool" for t s0 where
  start: "follows t s0 t s0"
| block: "follows t s0 c s \<Longrightarrow> env_ok env \<Longrightarrow> unat h = Suc (unat c) \<Longrightarrow> sync_one env h s = (Inr (), s') \<Longrightarrow> follows t s0 h s'"
| anchor: "follows t s0 c s \<Longrightarrow> t < c \<Longrightarrow> persist_balance_history_snapshot_anchor c snapshot s = (Inr (), s') \<Longrightarrow> follows t s0 c s'"

definition energy_kept :: "u32 \<Rightarrow> energy_db \<Rightarrow> energy_db \<Rightarrow> bool" where
  "energy_kept t en0 en \<longleftrightarrow>
     (\<forall>i k v. get_pass_energy_record i k en0 = Some v \<longrightarrow> get_pass_energy_record i k en = Some v) \<and>
     (\<forall>i. last_sig t i en = last_sig t i en0)"

lemma energy_kept_block:
  assumes ok: "energy_db_ok en" and up: "energy_upto c en" and tc: "t \<le> c" and k: "energy_kept t en0 en"
    and w: "block_writes c (set_pending_block_height h en) en1"
  shows "energy_kept t en0 (finalize_block_sync_meta h en1)"
proof -
  have okp: "energy_db_ok (set_pending_block_height h en)" using ok by simp
  have ok1: "energy_db_ok en1" using w okp by (simp add: block_writes_def)
  have "get_pass_energy_record i j en1 = Some v" if "get_pass_energy_record i j en = Some v" for i j v
  proof -
    have "j \<le> c" using up that by (auto simp: energy_upto_def not_less [symmetric])
    with w okp that show ?thesis by (simp add: block_writes_def)
  qed
  moreover have "last_sig t i en1 = last_sig t i en" for i
    using w okp tc ok by (simp add: block_writes_def)
  ultimately show ?thesis using k ok1 by (simp add: energy_kept_def)
qed

lemma persist_anchor_writes:
  assumes "persist_balance_history_snapshot_anchor c snapshot s = (Inr (), s')" and "ps_savepoints (mg_store (ix_mgr s)) = []"
  obtains db' where "s' = s\<lparr>ix_mgr := (ix_mgr s)\<lparr>mg_store := (mg_store (ix_mgr s))\<lparr>ps_db := db'\<rparr>\<rparr>\<rparr>"
    and "side_tables_write c (ix_db s) db'" and "get_synced_btc_block_height db' = Some c"
    and "db_history_seq db' = db_history_seq (ix_db s)"
proof -
  from assms(1) have h: "sn_stable_height snapshot = c"
    and u: "on_store (upsert_balance_history_snapshot_anchor snapshot) s = (Inr (), s')"
    by (auto simp: persist_balance_history_snapshot_anchor_def map_err_def bindR_Inr_eq split: if_splits prod.splits sum.splits error.splits)
  from u assms(2) obtain db' where db': "upsert_balance_history_snapshot_anchor_with_conn snapshot (ix_db s) = (Inr (), db')"
    "s' = s\<lparr>ix_mgr := (ix_mgr s)\<lparr>mg_store := (mg_store (ix_mgr s))\<lparr>ps_db := db'\<rparr>\<rparr>\<rparr>"
    by (auto simp: on_store_def on_mgr_def zoom_def upsert_balance_history_snapshot_anchor_def in_transaction_def
        split: prod.splits sum.splits)
  have "side_tables_write c (ix_db s) db'" using anchor_write_side [OF db'(1)] h by simp
  moreover have "get_synced_btc_block_height db' = Some c" "db_history_seq db' = db_history_seq (ix_db s)"
    using db'(1) h by (auto simp: upsert_balance_history_snapshot_anchor_with_conn_def state_defs
        upsert_balance_history_snapshot_history_def split: option.splits)
  ultimately show thesis using db'(2) that by blast
qed

lemma restorable_write:
  assumes "restorable t db0 db" and "pass_write h db db'" and "pass_db_ok db" and "t < h"
  shows "restorable t db0 db'"
  using assms(2,3)
  by (cases rule: pass_write_cases)
    (use assms(1,4) in \<open>auto intro: restorable_insert restorable_replace restorable_side\<close>)

lemma restorable_writes:
  "(pass_write h)\<^sup>*\<^sup>* db db' \<Longrightarrow> pass_db_ok db \<Longrightarrow> t < h \<Longrightarrow> restorable t db0 db \<and> db_history_seq db0 \<le> db_history_seq db \<Longrightarrow>
    pass_db_ok db' \<and> restorable t db0 db' \<and> db_history_seq db0 \<le> db_history_seq db'"
  by (induction rule: rtranclp_induct) (auto intro: restorable_write pass_write_ok pass_write_seq order_trans)

text \<open>The state while the indexer follows the chain above \<open>t\<close>.\<close>

definition above :: "u32 \<Rightarrow> indexer \<Rightarrow> u32 \<Rightarrow> indexer \<Rightarrow> bool" where
  "above t s0 c s \<longleftrightarrow> ix_ok c s \<and> t \<le> c \<and> restorable t (ix_db s0) (ix_db s) \<and>
     db_history_seq (ix_db s0) \<le> db_history_seq (ix_db s) \<and> energy_kept t (ix_energy s0) (ix_energy s)"

lemma ix_ok_db: "ix_ok t s \<Longrightarrow> pass_db_ok (ix_db s)" "ix_ok t s \<Longrightarrow> timeline_ok (ix_db s)" "ix_ok t s \<Longrightarrow> data_upto t (ix_db s)"
  by (simp_all add: ix_ok_def at_height_def timeline_ok_def)

lemma ix_ok_energy: "ix_ok t s \<Longrightarrow> energy_db_ok (ix_energy s)" "ix_ok t s \<Longrightarrow> energy_upto t (ix_energy s)"
  using at_height_energy by (auto simp: ix_ok_def)

lemma side_write_ix_ok:
  assumes ok: "ix_ok c s" and w: "side_tables_write c (ix_db s) db'" and y: "get_synced_btc_block_height db' = Some c"
  shows "ix_ok c (s\<lparr>ix_mgr := (ix_mgr s)\<lparr>mg_store := (mg_store (ix_mgr s))\<lparr>ps_db := db'\<rparr>\<rparr>\<rparr>)"
proof -
  have tl: "timeline_ok db'" by (rule timeline_side [OF ix_ok_db(2) [OF ok] w])
  moreover have "data_upto c db'" by (rule side_data_upto [OF w ix_ok_db(3) [OF ok]])
  moreover have "db_passes db' = db_passes (ix_db s)" using w by (simp add: side_tables_write_def)
  ultimately show ?thesis
    using ok y by (simp add: ix_ok_def at_height_def mgr_inv_def mgr_inv_but_def timeline_ok_def)
qed

lemma follows_above:
  assumes "ix_ok t s0" and "follows t s0 c s"
  shows "above t s0 c s"
  using assms(2)
proof induction
  case start
  show ?case using assms(1) ix_ok_db(3) [OF assms(1)] by (simp add: above_def restorable_refl energy_kept_def)
next
  case (block c s env h s')
  then have ok: "ix_ok c s" and tc: "t \<le> c" and r: "restorable t (ix_db s0) (ix_db s) \<and> db_history_seq (ix_db s0) \<le> db_history_seq (ix_db s)"
    and k: "energy_kept t (ix_energy s0) (ix_energy s)" by (simp_all add: above_def)
  have th: "t < h" using next_height [OF block.hyps(3), of t] tc by simp
  show ?case
  proof (rule sync_one_cases [OF ok block.hyps(2-4)])
    assume ok': "ix_ok h s'" and w: "(pass_write h)\<^sup>*\<^sup>* (ix_db s) (ix_db s')"
      and "\<exists>en. block_writes c (set_pending_block_height h (ix_energy s)) en \<and> ix_energy s' = finalize_block_sync_meta h en"
    then obtain en where en: "block_writes c (set_pending_block_height h (ix_energy s)) en" "ix_energy s' = finalize_block_sync_meta h en" by blast
    have "energy_kept t (ix_energy s0) (ix_energy s')"
      unfolding en(2) by (rule energy_kept_block [OF ix_ok_energy [OF ok] tc k en(1)])
    then show ?thesis
      using restorable_writes [OF w ix_ok_db(1) [OF ok] th r] ok' th by (simp add: above_def)
  qed simp
next
  case (anchor c s snapshot s')
  then have ok: "ix_ok c s" by (simp add: above_def)
  then have sp: "ps_savepoints (mg_store (ix_mgr s)) = []" by (simp add: ix_ok_def)
  obtain db' where db': "s' = s\<lparr>ix_mgr := (ix_mgr s)\<lparr>mg_store := (mg_store (ix_mgr s))\<lparr>ps_db := db'\<rparr>\<rparr>\<rparr>"
    "side_tables_write c (ix_db s) db'" "get_synced_btc_block_height db' = Some c"
    "db_history_seq db' = db_history_seq (ix_db s)"
    by (rule persist_anchor_writes [OF anchor.hyps(3) sp]) (rule that)
  have "ix_ok c s'" unfolding db'(1) by (rule side_write_ix_ok [OF ok db'(2,3)])
  moreover have "restorable t (ix_db s0) db'"
    using anchor.IH anchor.hyps(2) by (intro restorable_side [OF _ db'(2)]) (simp_all add: above_def)
  ultimately show ?case using anchor.IH db' by (simp add: above_def)
qed

section \<open>The recovery\<close>

text \<open>While a recovery to \<open>t\<close> is pending, the pass database is back at \<open>t\<close> and nothing the energy store needs is lost;
  once it is done, every store and the tracker are.\<close>

definition recovering_to :: "u32 \<Rightarrow> indexer \<Rightarrow> indexer \<Rightarrow> bool" where
  "recovering_to t s0 s \<longleftrightarrow> tables_restored (ix_db s0) (ix_db s) \<and>
     db_snapshot_history (ix_db s) = db_snapshot_history (ix_db s0) \<and> timeline_ok (ix_db s) \<and>
     assert_no_data_after_block_height t (ix_db s) = Inr () \<and> get_synced_btc_block_height (ix_db s) = Some t \<and>
     get_upstream_reorg_recovery_pending_height (ix_db s) = Inr (Some t) \<and>
     ps_savepoints (mg_store (ix_mgr s)) = [] \<and> mg_collector (ix_mgr s) = None \<and>
     energy_db_ok (ix_energy s) \<and> get_pending_block_height (ix_energy s) = Inr None \<and>
     (\<exists>c \<ge> t. get_synced_block_height (ix_energy s) = Inr (Some c)) \<and> energy_kept t (ix_energy s0) (ix_energy s)"

definition recovered :: "u32 \<Rightarrow> indexer \<Rightarrow> indexer \<Rightarrow> bool" where
  "recovered t s0 s \<longleftrightarrow> ix_ok t s \<and> tables_restored (ix_db s0) (ix_db s) \<and>
     db_snapshot_history (ix_db s) = db_snapshot_history (ix_db s0) \<and> undone t (ix_energy s0) (ix_energy s) \<and>
     tracked (tr_inscriptions (ix_tracker s)) =
       {valid_row m | m. m \<in> set (db_passes (ix_db s0)) \<and> mp_state m \<notin> {Consumed, Invalid}} \<and>
     get_upstream_reorg_recovery_pending_height (ix_db s) = Inr None \<and> \<not> ix_reorg_recovery_pending s"

lemma rolled_back_recovering:
  assumes ok0: "ix_ok t s0" and a: "above t s0 c s" and g: "s' = s\<lparr>ix_mgr := (ix_mgr s)\<lparr>mg_store :=
      (mg_store (ix_mgr s))\<lparr>ps_db := rolled_back id_text t True (ix_db s0) (ix_db s)\<rparr>\<rparr>\<rparr>"
  shows "recovering_to t s0 s'"
proof -
  let ?db = "rolled_back id_text t True (ix_db s0) (ix_db s)"
  have ok: "ix_ok c s" using a by (simp add: above_def)
  have tl0: "timeline_ok (ix_db s0)" by (rule ix_ok_db(2) [OF ok0])
  then have v: "pass_db_ok (ix_db s0)" "view_is_history (ix_db s0)" by (simp_all add: timeline_ok_def)
  have sq: "db_history_seq (ix_db s0) \<le> db_history_seq (ix_db s)" using a by (simp add: above_def)
  note rb = rolled_back_restored [OF v ix_ok_db(3) [OF ok0] sq refl, of id_text True]
  have "set (db_passes ?db) = set (db_passes (ix_db s0))"
    using rb(1) by (auto simp: tables_restored_def dest: mset_eq_setD)
  then have "timeline_ok ?db"
    using rb tl0 by (simp add: timeline_ok_def mint_first_def rolled_back_fields)
  moreover have "energy_db_ok (ix_energy s)" "get_pending_block_height (ix_energy s) = Inr None"
    "get_synced_block_height (ix_energy s) = Inr (Some c)"
    using ok ix_ok_energy [OF ok] by (simp_all add: ix_ok_def at_height_def)
  ultimately show ?thesis
    using rb a ok unfolding g recovering_to_def
    by (simp add: rolled_back_fields above_def ix_ok_def at_height_def get_synced_btc_block_height_def get_numeric_state_def
        get_upstream_reorg_recovery_pending_height_def)
qed

lemma recovering_rollback:
  assumes ok0: "ix_ok t s0" and a: "above t s0 c s"
  obtains s' where "on_store (rollback_to_block_height_with_upstream_reorg_recovery_pending id_text t None) s = (Inr (), s')"
    and "recovering_to t s0 s'" and "ix_energy_failure_budget s' = ix_energy_failure_budget s"
    and "ix_transfer_reload_failure_budget s' = ix_transfer_reload_failure_budget s"
proof -
  let ?s' = "s\<lparr>ix_mgr := (ix_mgr s)\<lparr>mg_store := (mg_store (ix_mgr s))\<lparr>ps_db := rolled_back id_text t True (ix_db s0) (ix_db s)\<rparr>\<rparr>\<rparr>"
  have v: "pass_db_ok (ix_db s0)" "view_is_history (ix_db s0)" using ix_ok_db(2) [OF ok0] by (simp_all add: timeline_ok_def)
  have "restorable t (ix_db s0) (ix_db s)" "ps_savepoints (mg_store (ix_mgr s)) = []"
    using a by (simp_all add: above_def ix_ok_def)
  note eq = rollback_eq [OF v ix_ok_db(3) [OF ok0] this, of id_text True]
  have "on_store (rollback_to_block_height_with_upstream_reorg_recovery_pending id_text t None) s = (Inr (), ?s')"
    by (simp add: on_store_def on_mgr_def zoom_def rollback_to_block_height_with_upstream_reorg_recovery_pending_def eq)
  then show thesis by (rule that [OF _ rolled_back_recovering [OF ok0 a refl]]) simp_all
qed

lemma recovering_energy:
  assumes ok0: "ix_ok t s0" and r: "recovering_to t s0 s"
  obtains en where "rollback_to_pass_synced_height t (ix_energy s) = (Inr (), en)" and "undone t (ix_energy s0) en"
    and "get_pending_block_height en = Inr None"
proof -
  from r obtain c where ok: "energy_db_ok (ix_energy s)" and p: "get_pending_block_height (ix_energy s) = Inr None"
    and c: "get_synced_block_height (ix_energy s) = Inr (Some c)" "t \<le> c" and k: "energy_kept t (ix_energy s0) (ix_energy s)"
    by (auto simp: recovering_to_def)
  from reconcile_effect [OF ok p c(1), of t] c(2) obtain en where
    e: "reconcile_with_pass_synced_height t (ix_energy s) = (Inr (), en)" "energy_db_ok en"
      "get_pending_block_height en = Inr None" "get_synced_block_height en = Inr (Some t)"
      "\<And>i h. get_pass_energy_record i h en = (if h \<le> t then get_pass_energy_record i h (ix_energy s) else None)"
    by (auto simp: not_less)
  have up: "h \<le> t" if "get_pass_energy_record i h (ix_energy s0) = Some v" for i h v
    using ix_ok_energy(2) [OF ok0] that by (auto simp: energy_upto_def not_less [symmetric])
  have "last_sig t i en = last_sig t i (ix_energy s)" for i by (rule last_sig_cong [OF ok e(2)]) (simp add: e(5))
  then have "undone t (ix_energy s0) en"
    using k e(2,4) up by (auto simp: undone_def energy_kept_def e(5) energy_upto_def)
  with e(1,3) show thesis by (intro that) (simp_all add: rollback_to_pass_synced_height_def)
qed

lemma undone_kept: "undone t en0 en \<Longrightarrow> energy_kept t en0 en \<and> energy_db_ok en \<and> get_synced_block_height en = Inr (Some t)"
  by (simp add: undone_def energy_kept_def)

text \<open>The injected failures left.\<close>

definition failures_left :: "indexer \<Rightarrow> nat" where
  "failures_left s = unat (ix_energy_failure_budget s) + unat (ix_transfer_reload_failure_budget s)"

lemma unat_pred: "b \<noteq> 0 \<Longrightarrow> unat b = Suc (unat (b - 1))" for b :: u32
  by (simp add: unat_minus_one) (metis Suc_pred unat_gt_0 unat_minus_one)

text \<open>The start of an attempt, and the energy step when no failure is injected there.\<close>

definition attempt_start :: "u32 \<Rightarrow> indexer \<Rightarrow> indexer" where
  "attempt_start t s = update_index_status (Some t) None (set_upstream_reorg_recovery_pending True s)"

lemma attempt_start_fields [simp]:
  "ix_mgr (attempt_start t s) = ix_mgr s" "ix_tracker (attempt_start t s) = ix_tracker s"
  "ix_energy_failure_budget (attempt_start t s) = ix_energy_failure_budget s"
  "ix_transfer_reload_failure_budget (attempt_start t s) = ix_transfer_reload_failure_budget s"
  by (simp_all add: attempt_start_def update_index_status_def set_upstream_reorg_recovery_pending_def)

lemma recovering_same: "recovering_to t s0 s \<Longrightarrow> ix_mgr s' = ix_mgr s \<Longrightarrow> recovering_to t s0 s'"
  by (simp add: recovering_to_def)

lemma resume_energy_failure:
  assumes r: "recovering_to t s0 s" and b: "ix_energy_failure_budget s \<noteq> 0"
  shows "\<exists>e s'. resume_pending_upstream_reorg_recovery env g s = (Inl (Err e), s') \<and> recovering_to t s0 s' \<and>
    failures_left s = Suc (failures_left s')"
proof -
  have p: "get_upstream_reorg_recovery_pending_height (ix_db s) = Inr (Some t)" "pass_synced_height s = t"
    using r by (simp_all add: recovering_to_def pass_synced_height_def)
  let ?s' = "(attempt_start t s)\<lparr>ix_energy_failure_budget := ix_energy_failure_budget s - 1\<rparr>"
  have "resume_pending_upstream_reorg_recovery env g s =
      (Inl (Err ''Failed to inject pending upstream reorg energy recovery fault''), ?s')"
    using p b by (simp add: resume_pending_upstream_reorg_recovery_def bindR_def pass_synced_height_def set_upstream_reorg_recovery_pending_def
        map_err_def maybe_fail_energy_recovery_def consume_budget_def attempt_start_def update_index_status_def)
  moreover have "recovering_to t s0 ?s'" by (rule recovering_same [OF r]) simp
  moreover have "failures_left s = Suc (failures_left ?s')" using unat_pred [OF b] by (simp add: failures_left_def)
  ultimately show ?thesis by blast
qed

lemma resume_transfer_failure:
  assumes ok0: "ix_ok t s0" and r: "recovering_to t s0 s" and e0: "ix_energy_failure_budget s = 0"
    and b: "ix_transfer_reload_failure_budget s \<noteq> 0"
  shows "\<exists>e s'. resume_pending_upstream_reorg_recovery env g s = (Inl (Err e), s') \<and> recovering_to t s0 s' \<and>
    failures_left s = Suc (failures_left s')"
proof -
  have p: "get_upstream_reorg_recovery_pending_height (ix_db s) = Inr (Some t)" "pass_synced_height s = t"
    using r by (simp_all add: recovering_to_def pass_synced_height_def)
  obtain en where en: "rollback_to_pass_synced_height t (ix_energy s) = (Inr (), en)" "undone t (ix_energy s0) en"
    "get_pending_block_height en = Inr None" by (rule recovering_energy [OF ok0 r]) (rule that)
  let ?s' = "(attempt_start t s)\<lparr>ix_mgr := (ix_mgr s)\<lparr>mg_energy := en\<rparr>, ix_transfer_reload_failure_budget := ix_transfer_reload_failure_budget s - 1\<rparr>"
  have "resume_pending_upstream_reorg_recovery env g s =
      (Inl (Err ''Failed to inject pending upstream reorg transfer reload fault''), ?s')"
    using p b e0 en(1) by (simp add: resume_pending_upstream_reorg_recovery_def bindR_def pass_synced_height_def set_upstream_reorg_recovery_pending_def
        map_err_def maybe_fail_energy_recovery_def maybe_fail_transfer_reload_def consume_budget_def attempt_start_def update_index_status_def
        on_mgr_def on_energy_def zoom_def)
  moreover have "recovering_to t s0 ?s'" using r undone_kept [OF en(2)] en(3) by (simp add: recovering_to_def)
  moreover have "failures_left s = Suc (failures_left ?s')" using unat_pred [OF b] e0 by (simp add: failures_left_def)
  ultimately show ?thesis by blast
qed

lemma consistency_cong:
  "db_balance_snapshots db' = db_balance_snapshots db \<Longrightarrow>
    assert_balance_snapshot_consistency h g db' = assert_balance_snapshot_consistency h g db"
  by (simp add: assert_balance_snapshot_consistency_def get_latest_active_balance_snapshot_def)

lemma clear_pending_tables [simp]:
  "db_passes (clear_upstream_reorg_recovery_pending_height db) = db_passes db"
  "db_history (clear_upstream_reorg_recovery_pending_height db) = db_history db"
  "db_history_seq (clear_upstream_reorg_recovery_pending_height db) = db_history_seq db"
  "db_commits (clear_upstream_reorg_recovery_pending_height db) = db_commits db"
  "db_balance_snapshots (clear_upstream_reorg_recovery_pending_height db) = db_balance_snapshots db"
  "db_snapshot_history (clear_upstream_reorg_recovery_pending_height db) = db_snapshot_history db"
  "get_synced_btc_block_height (clear_upstream_reorg_recovery_pending_height db) = get_synced_btc_block_height db"
  "get_upstream_reorg_recovery_pending_height (clear_upstream_reorg_recovery_pending_height db) = Inr None"
  by (simp_all add: state_defs get_upstream_reorg_recovery_pending_height_def)

lemma clear_pending_timeline: "timeline_ok db \<Longrightarrow> timeline_ok (clear_upstream_reorg_recovery_pending_height db)"
  by (erule timeline_side) (simp add: side_tables_write_def)

text \<open>The last step: the stores and the tracker together.\<close>

lemma recovered_final:
  assumes ok0: "ix_ok t s0" and r: "recovering_to t s0 s" and u: "undone t (ix_energy s0) en"
    and p: "get_pending_block_height en = Inr None" and tr: "tr_staged_blocks tr = []"
    and v: "tracked (tr_inscriptions tr) = {valid_row m | m. m \<in> set (db_passes (ix_db s)) \<and> mp_state m \<notin> {Consumed, Invalid}}"
    and s': "ix_mgr s' = (ix_mgr s)\<lparr>mg_energy := en, mg_store := (mg_store (ix_mgr s))\<lparr>ps_db :=
        clear_upstream_reorg_recovery_pending_height (ix_db s)\<rparr>\<rparr>" "ix_tracker s' = tr" "\<not> ix_reorg_recovery_pending s'"
  shows "recovered t s0 s'"
proof -
  have st: "set (db_passes (ix_db s)) = set (db_passes (ix_db s0))"
    using r by (auto simp: recovering_to_def tables_restored_def dest: mset_eq_setD)
  have tl: "timeline_ok (ix_db s')" using r clear_pending_timeline by (simp add: recovering_to_def s'(1))
  have "data_upto t (ix_db s)" using r assert_no_data_data_upto by (simp add: recovering_to_def)
  then have d: "data_upto t (ix_db s')" by (simp add: s'(1) data_upto_def)
  have "row_agrees t en m = row_agrees t (ix_energy s0) m" for m
    using u by (simp add: row_agrees_sig undone_def)
  then have "mgr_inv t (ix_mgr s')"
    using ok0 tl u st by (simp add: ix_ok_def at_height_def mgr_inv_def mgr_inv_but_def timeline_ok_def undone_def s'(1))
  then have "ix_ok t s'"
    using r tl d u p tr by (simp add: ix_ok_def at_height_def undone_def recovering_to_def s')
  then show ?thesis using r u v s' st by (simp add: recovered_def recovering_to_def tables_restored_def)
qed

lemma resume_completes:
  assumes ok0: "ix_ok t s0" and r: "recovering_to t s0 s" and f: "failures_left s = 0"
    and ord: "orders_desc mp_mint_block_height (en_row_order env)" and len: "length (db_passes (ix_db s0)) < 2 ^ 62"
    and cons: "assert_balance_snapshot_consistency t g (ix_db s0) = Inr ()"
  shows "\<exists>s'. resume_pending_upstream_reorg_recovery env g s = (Inr (), s') \<and> recovered t s0 s'"
proof -
  have b: "ix_energy_failure_budget s = 0" "ix_transfer_reload_failure_budget s = 0"
    using f by (simp_all add: failures_left_def unat_eq_zero)
  have p: "get_upstream_reorg_recovery_pending_height (ix_db s) = Inr (Some t)" "pass_synced_height s = t"
    "assert_no_data_after_block_height t (ix_db s) = Inr ()" "pass_db_ok (ix_db s)"
    using r by (simp_all add: recovering_to_def pass_synced_height_def timeline_ok_def)
  have m: "mset (db_passes (ix_db s)) = mset (db_passes (ix_db s0))" and bs: "db_balance_snapshots (ix_db s) = db_balance_snapshots (ix_db s0)"
    using r by (simp_all add: recovering_to_def tables_restored_def)
  have c: "assert_balance_snapshot_consistency t g (ix_db s) = Inr ()" using cons consistency_cong [OF bs] by simp
  obtain en where en: "rollback_to_pass_synced_height t (ix_energy s) = (Inr (), en)" "undone t (ix_energy s0) en"
    "get_pending_block_height en = Inr None" by (rule recovering_energy [OF ok0 r]) (rule that)
  have "length (db_passes (ix_db s)) < 2 ^ 62" using len mset_eq_length [OF m] by simp
  then have "\<exists>tr. reload_from_storage (Suc (length (db_passes (ix_db s)))) (en_row_order env) (ix_db s) (ix_tracker s) = Some tr \<and>
      tr_staged_blocks tr = [] \<and> mm_ok (tr_inscriptions tr) \<and>
      tracked (tr_inscriptions tr) = {valid_row m | m. m \<in> set (db_passes (ix_db s)) \<and> mp_state m \<notin> {Consumed, Invalid}}"
    by (rule reload_valid [OF p(4) ord]) simp
  then obtain tr where tr: "reload_from_storage (Suc (length (db_passes (ix_db s)))) (en_row_order env) (ix_db s) (ix_tracker s) = Some tr"
    "tr_staged_blocks tr = []"
    "tracked (tr_inscriptions tr) = {valid_row m | m. m \<in> set (db_passes (ix_db s)) \<and> mp_state m \<notin> {Consumed, Invalid}}" by blast
  let ?s' = "set_upstream_reorg_recovery_pending False ((attempt_start t s)\<lparr>ix_mgr := (ix_mgr s)\<lparr>mg_energy := en,
      mg_store := (mg_store (ix_mgr s))\<lparr>ps_db := clear_upstream_reorg_recovery_pending_height (ix_db s)\<rparr>\<rparr>, ix_tracker := tr\<rparr>)"
  have "resume_pending_upstream_reorg_recovery env g s = (Inr (), ?s')"
    using p b en(1) c tr(1) by (simp add: resume_pending_upstream_reorg_recovery_def bindR_def pass_synced_height_def set_upstream_reorg_recovery_pending_def
        map_err_def maybe_fail_energy_recovery_def maybe_fail_transfer_reload_def consume_budget_def attempt_start_def update_index_status_def
        on_mgr_def on_energy_def on_db_def zoom_def reload_tracker_def)
  moreover have "recovered t s0 ?s'"
    by (rule recovered_final [OF ok0 r en(2,3) tr(2,3)]) (simp_all add: set_upstream_reorg_recovery_pending_def)
  ultimately show ?thesis by blast
qed

section \<open>The whole reorganisation\<close>

lemma reconcile_run:
  assumes ok0: "ix_ok t s0" and a: "above t s0 c s"
    and d: "detect_upstream_reorg_target env c latest_height snapshot g (ix_db s) = Inr (Some (t, reasons))"
  obtains s1 where "recovering_to t s0 s1" and "failures_left s1 = failures_left s"
    and "reconcile_upstream_reorg env c latest_height snapshot g s =
      (case resume_pending_upstream_reorg_recovery env g s1 of (Inl e, s') \<Rightarrow> (Inl e, s') | (Inr _, s') \<Rightarrow> (Inr t, s'))"
proof -
  let ?s = "set_upstream_reorg_recovery_pending True (update_index_status (Some c) (Some latest_height) s)"
  have "above t s0 c ?s"
    using a by (simp add: above_def ix_ok_def at_height_def set_upstream_reorg_recovery_pending_def update_index_status_def)
  then obtain s1 where s1: "on_store (rollback_to_block_height_with_upstream_reorg_recovery_pending (en_id_text env) t None) ?s = (Inr (), s1)"
    "recovering_to t s0 s1" "ix_energy_failure_budget s1 = ix_energy_failure_budget ?s"
    "ix_transfer_reload_failure_budget s1 = ix_transfer_reload_failure_budget ?s"
    by (rule recovering_rollback [OF ok0]) (rule that)
  have "failures_left s1 = failures_left s"
    using s1(3,4) by (simp add: failures_left_def set_upstream_reorg_recovery_pending_def update_index_status_def)
  moreover have "reconcile_upstream_reorg env c latest_height snapshot g s =
      (case resume_pending_upstream_reorg_recovery env g s1 of (Inl e, s') \<Rightarrow> (Inl e, s') | (Inr _, s') \<Rightarrow> (Inr t, s'))"
    using d s1(1) by (simp add: reconcile_upstream_reorg_def bindR_def split: prod.splits sum.splits)
  ultimately show thesis using s1(2) that by blast
qed

text \<open>The state after a number of further attempts, which \<open>sync_once\<close> makes one by one.\<close>

primrec resume_again :: "indexer_env \<Rightarrow> u32 \<Rightarrow> nat \<Rightarrow> indexer \<Rightarrow> indexer" where
  "resume_again env g 0 s = s"
| "resume_again env g (Suc n) s = resume_again env g n (snd (resume_pending_upstream_reorg_recovery env g s))"

lemma resume_failure:
  assumes "ix_ok t s0" and "recovering_to t s0 s" and "0 < failures_left s"
  shows "\<exists>e s'. resume_pending_upstream_reorg_recovery env g s = (Inl (Err e), s') \<and> recovering_to t s0 s' \<and>
    failures_left s = Suc (failures_left s')"
proof (cases "ix_energy_failure_budget s = 0")
  case True
  then have "ix_transfer_reload_failure_budget s \<noteq> 0" using assms(3) by (auto simp: failures_left_def)
  with True show ?thesis by (intro resume_transfer_failure [OF assms(1,2)])
qed (rule resume_energy_failure [OF assms(2)])

lemma resume_attempts:
  assumes "ix_ok t s0" and "recovering_to t s0 s" and "n \<le> failures_left s"
  shows "recovering_to t s0 (resume_again env g n s) \<and> failures_left (resume_again env g n s) = failures_left s - n"
  using assms(2,3)
proof (induction n arbitrary: s)
  case (Suc n)
  then obtain e s' where s': "resume_pending_upstream_reorg_recovery env g s = (Inl (Err e), s')" "recovering_to t s0 s'"
    "failures_left s = Suc (failures_left s')" using resume_failure [OF assms(1) Suc.prems(1)] by (metis Suc_le_lessD zero_less_Suc less_le_trans)
  then show ?case using Suc.IH [OF s'(2)] Suc.prems(2) by simp
qed simp

text \<open>C12: a reorganisation restores every store.  Let the indexer be in the state \<open>s0\<close> after block \<open>t\<close>, then sync blocks
  and adopt snapshots up to \<open>c\<close>.  If the drift found there leads back to \<open>t\<close> and no failure is injected, the recovery
  succeeds in one go: the tables are those of \<open>s0\<close>, no energy record of \<open>s0\<close> is lost, none is left above \<open>t\<close>,
  every pass has the same last energy state and owner, the tracker follows exactly the valid passes of \<open>s0\<close>, the
  recovery marker is cleared, and the indexer is ready for block \<open>t + 1\<close>.\<close>

theorem reorg_restores_state:
  assumes "ix_ok t s0" and "assert_balance_snapshot_consistency t g (ix_db s0) = Inr ()"
    and "length (db_passes (ix_db s0)) < 2 ^ 62" and "follows t s0 c s"
    and "detect_upstream_reorg_target env c latest_height snapshot g (ix_db s) = Inr (Some (t, reasons))"
    and "orders_desc mp_mint_block_height (en_row_order env)" and "failures_left s = 0"
  shows "\<exists>s'. reconcile_upstream_reorg env c latest_height snapshot g s = (Inr t, s') \<and> recovered t s0 s'"
proof -
  obtain s1 where s1: "recovering_to t s0 s1" "failures_left s1 = failures_left s"
    "reconcile_upstream_reorg env c latest_height snapshot g s =
      (case resume_pending_upstream_reorg_recovery env g s1 of (Inl e, s') \<Rightarrow> (Inl e, s') | (Inr _, s') \<Rightarrow> (Inr t, s'))"
    by (rule reconcile_run [OF assms(1) follows_above [OF assms(1,4)] assms(5)]) (rule that)
  have "failures_left s1 = 0" using s1(2) assms(7) by simp
  from resume_completes [OF assms(1) s1(1) this assms(6,3,2)] s1(3) show ?thesis by auto
qed

text \<open>C13: an interrupted recovery is completed.  With \<open>n > 0\<close> failures to be injected into the energy and transfer steps,
  the reorganisation and the next \<open>n - 1\<close> attempts to resume it return an error, each from the persisted marker and
  with the pass database already rolled back, and the attempt after them completes the recovery.\<close>

theorem reorg_recovery_resumes:
  assumes "ix_ok t s0" and "assert_balance_snapshot_consistency t g (ix_db s0) = Inr ()"
    and "length (db_passes (ix_db s0)) < 2 ^ 62" and "follows t s0 c s"
    and "detect_upstream_reorg_target env c latest_height snapshot g (ix_db s) = Inr (Some (t, reasons))"
    and "orders_desc mp_mint_block_height (en_row_order env)" and "failures_left s = Suc n"
  shows "\<exists>e s1 s'. reconcile_upstream_reorg env c latest_height snapshot g s = (Inl (Err e), s1) \<and>
    (\<forall>k < n. \<exists>e'. fst (resume_pending_upstream_reorg_recovery env g (resume_again env g k s1)) = Inl (Err e') \<and>
      get_upstream_reorg_recovery_pending_height (ix_db (resume_again env g k s1)) = Inr (Some t)) \<and>
    resume_pending_upstream_reorg_recovery env g (resume_again env g n s1) = (Inr (), s') \<and> recovered t s0 s'"
proof -
  obtain s2 where s2: "recovering_to t s0 s2" "failures_left s2 = failures_left s"
    "reconcile_upstream_reorg env c latest_height snapshot g s =
      (case resume_pending_upstream_reorg_recovery env g s2 of (Inl e, s') \<Rightarrow> (Inl e, s') | (Inr _, s') \<Rightarrow> (Inr t, s'))"
    by (rule reconcile_run [OF assms(1) follows_above [OF assms(1,4)] assms(5)]) (rule that)
  have "0 < failures_left s2" using s2(2) assms(7) by simp
  from resume_failure [OF assms(1) s2(1) this, of env g] obtain e s1 where
    s1: "resume_pending_upstream_reorg_recovery env g s2 = (Inl (Err e), s1)" "recovering_to t s0 s1" "failures_left s1 = n"
    using s2(2) assms(7) by auto
  have "\<exists>e'. fst (resume_pending_upstream_reorg_recovery env g (resume_again env g k s1)) = Inl (Err e') \<and>
      get_upstream_reorg_recovery_pending_height (ix_db (resume_again env g k s1)) = Inr (Some t)" if "k < n" for k
  proof -
    have k: "recovering_to t s0 (resume_again env g k s1)" "0 < failures_left (resume_again env g k s1)"
      using resume_attempts [OF assms(1) s1(2), of k env g] that s1(3) by simp_all
    from resume_failure [OF assms(1) k, of env g] k(1) show ?thesis by (auto simp: recovering_to_def)
  qed
  moreover have "recovering_to t s0 (resume_again env g n s1)" "failures_left (resume_again env g n s1) = 0"
    using resume_attempts [OF assms(1) s1(2), of n env g] s1(3) by simp_all
  from resume_completes [OF assms(1) this assms(6,3,2)]
  obtain s' where "resume_pending_upstream_reorg_recovery env g (resume_again env g n s1) = (Inr (), s')" "recovered t s0 s'" by blast
  ultimately show ?thesis using s1(1) s2(3) by auto
qed

section \<open>A reorganisation of one block\<close>

definition same_budgets :: "indexer \<Rightarrow> indexer \<Rightarrow> bool" where
  "same_budgets s s' \<longleftrightarrow> ix_energy_failure_budget s' = ix_energy_failure_budget s \<and>
     ix_transfer_reload_failure_budget s' = ix_transfer_reload_failure_budget s"

lemma same_budgets_preorder [simp]: "reflp same_budgets" "transp same_budgets"
  by (auto simp: same_budgets_def reflp_def transp_def)

lemma same_budgets_parts [moves_intro]:
  "moves same_budgets (on_mgr m)" "moves same_budgets (on_tracker m')" "moves same_budgets (on_store m'')"
  "moves same_budgets (modify (update_index_status a b))"
  by (auto simp: moves_def same_budgets_def on_mgr_def on_tracker_def on_store_def zoom_def update_index_status_def split: prod.splits)

lemma moves_err [moves_intro]: "moves R m \<Longrightarrow> moves R (err m)"
  by (auto simp: moves_def err_def split: prod.splits sum.splits error.splits) (metis snd_conv)+

lemma same_budgets_recovering [moves_intro]:
  fixes m :: "(indexer, 'a) op"
  assumes "moves same_budgets m"
  shows "moves same_budgets (recovering h f m)"
proof -
  have r: "moves same_budgets (bindR (recover_failed_block_sync h True f e) (\<lambda>msg. fail (Err msg) :: (indexer, 'a) op))" for e
    unfolding recover_failed_block_sync_def Let_def by (intro moves_intro same_budgets_preorder)
  have "ix_energy_failure_budget (snd (bindR (recover_failed_block_sync h True f e) (\<lambda>msg. fail (Err msg) :: (indexer, 'a) op) s)) = ix_energy_failure_budget s \<and>
      ix_transfer_reload_failure_budget (snd (bindR (recover_failed_block_sync h True f e) (\<lambda>msg. fail (Err msg) :: (indexer, 'a) op) s)) =
        ix_transfer_reload_failure_budget s" for e s
    using r [of e] by (simp add: moves_def same_budgets_def)
  moreover have "ix_energy_failure_budget (snd (m s)) = ix_energy_failure_budget s \<and>
      ix_transfer_reload_failure_budget (snd (m s)) = ix_transfer_reload_failure_budget s" for s
    using assms by (simp add: moves_def same_budgets_def)
  ultimately show ?thesis
    by (auto simp: moves_def same_budgets_def recovering_def split: prod.splits sum.splits error.splits) (metis snd_conv)+
qed

lemma same_budgets_sync_block: "moves same_budgets (sync_block env h)"
proof -
  have g: "moves same_budgets m \<Longrightarrow> moves same_budgets (with_collection_guard m)" for m :: "(indexer, 'a) op"
    by (auto simp: moves_def with_collection_guard_def same_budgets_def split: prod.splits sum.splits) (metis snd_conv)+
  have "moves same_budgets (apply_settlement_row row n)" for row n
    unfolding apply_settlement_row_def by (intro moves_intro same_budgets_preorder)
  moreover have "moves same_budgets (persist_pass_block_commit env h c)" for c
    unfolding persist_pass_block_commit_def by (intro moves_intro same_budgets_preorder)
  ultimately show ?thesis
    unfolding sync_block_def collect_mints_def collect_block_inscription_transfer_items_def apply_block_def
    by (intro moves_intro same_budgets_preorder g)
qed

lemma same_budgets_sync_one: "moves same_budgets (sync_one env h)"
proof -
  have "moves same_budgets (sync_block_in_savepoint env d h)" for d
    unfolding sync_block_in_savepoint_def fail_with_energy_rollback_def
    by (intro moves_intro same_budgets_preorder same_budgets_sync_block)
  then have "ix_energy_failure_budget (snd (sync_block_in_savepoint env d h s)) = ix_energy_failure_budget s \<and>
      ix_transfer_reload_failure_budget (snd (sync_block_in_savepoint env d h s)) = ix_transfer_reload_failure_budget s" for d s
    by (simp add: moves_def same_budgets_def)
  then have "moves same_budgets (\<lambda>s. case sync_block_in_savepoint env d h s of
      (Inl e, s') \<Rightarrow> (Inl e, snd (on_store (modify savepoint_guard_drop) s')) | other \<Rightarrow> other)" for d
    by (auto simp: moves_def same_budgets_def on_store_def on_mgr_def zoom_def split: prod.splits sum.splits) (metis snd_conv)+
  then show ?thesis unfolding sync_one_def by (intro moves_intro same_budgets_preorder)
qed

text \<open>Block 101 is synced and then leaves the best chain: the upstream height falls back to 100.\<close>

definition sample_upstream :: indexer_env where
  "sample_upstream = (sample_env 200)\<lparr>en_row_order := sample_order\<rparr>"

definition sample_snapshot :: BalanceHistorySnapshotInfo where
  "sample_snapshot = \<lparr>sn_stable_height = 100, sn_stable_block_hash = Some ''h'', sn_latest_block_commit = Some ''c'',
     sn_stable_lag = 0, sn_commit_protocol_version = [], sn_commit_hash_algo = []\<rparr>"

lemma sample_detect:
  "\<exists>reasons. detect_upstream_reorg_target sample_upstream 101 100 sample_snapshot 101 db = Inr (Some (100, reasons))"
  by (simp add: detect_upstream_reorg_target_def Let_def anchor_drift_def commit_drift_def find_common_ancestor_height_def
      sample_upstream_def sample_env_def sat_sub_def split: option.splits)

lemma sample_reorg:
  fixes e f :: u32
  defines "s \<equiv> sample_ix\<lparr>ix_energy_failure_budget := e, ix_transfer_reload_failure_budget := f\<rparr>"
  obtains s1 reasons where "ix_ok 100 s" and "assert_balance_snapshot_consistency 100 101 (ix_db s) = Inr ()"
    and "length (db_passes (ix_db s)) < 2 ^ 62" and "follows 100 s 101 s1" and "failures_left s1 = unat e + unat f"
    and "detect_upstream_reorg_target sample_upstream 101 100 sample_snapshot 101 (ix_db s1) = Inr (Some (100, reasons))"
    and "orders_desc mp_mint_block_height (en_row_order sample_upstream)"
proof -
  have ok: "ix_ok 100 s" using sample_ix_ok by (simp add: s_def ix_ok_def at_height_def)
  have "assert_balance_snapshot_consistency 100 101 (ix_db sample_ix) = Inr ()" by code_simp
  then have c: "assert_balance_snapshot_consistency 100 101 (ix_db s) = Inr ()" by (simp add: s_def)
  have l: "length (db_passes (ix_db s)) < 2 ^ 62" by (simp add: s_def sample_ix_def empty_pass_db_def state_defs)
  obtain s1 where s1: "sync_one (sample_env 200) 101 s = (Inr (), s1)"
    by (rule sample_sync_from [OF ok]) (simp add: s_def, rule that)
  have f: "follows 100 s 101 s1"
    by (rule follows.block [OF follows.start sample_env_ok(1) _ s1]) simp
  have b: "failures_left s1 = unat e + unat f"
    using movesD [OF same_budgets_sync_one s1] by (simp add: same_budgets_def failures_left_def s_def)
  obtain reasons where d: "detect_upstream_reorg_target sample_upstream 101 100 sample_snapshot 101 (ix_db s1) = Inr (Some (100, reasons))"
    using sample_detect by blast
  show thesis by (rule that [OF ok c l f b d]) (simp add: sample_upstream_def sample_order_desc)
qed

theorem reorg_restores_state_witness:
  "\<exists>s1 s'. follows 100 sample_ix 101 s1 \<and>
    reconcile_upstream_reorg sample_upstream 101 100 sample_snapshot 101 s1 = (Inr 100, s') \<and> recovered 100 sample_ix s'"
proof -
  have e: "sample_ix\<lparr>ix_energy_failure_budget := 0, ix_transfer_reload_failure_budget := 0\<rparr> = sample_ix"
    by (simp add: sample_ix_def)
  obtain s1 reasons where h: "ix_ok 100 sample_ix" "assert_balance_snapshot_consistency 100 101 (ix_db sample_ix) = Inr ()"
    "length (db_passes (ix_db sample_ix)) < 2 ^ 62" "follows 100 sample_ix 101 s1"
    "failures_left s1 = unat (0 :: u32) + unat (0 :: u32)"
    "detect_upstream_reorg_target sample_upstream 101 100 sample_snapshot 101 (ix_db s1) = Inr (Some (100, reasons))"
    "orders_desc mp_mint_block_height (en_row_order sample_upstream)"
    by (rule sample_reorg [of 0 0, unfolded e]) (rule that)
  from reorg_restores_state [OF h(1-4,6,7)] h(5,4) show ?thesis by auto
qed

theorem reorg_recovery_resumes_witness:
  "\<exists>s1 e s2 s'. follows 100 (sample_ix\<lparr>ix_energy_failure_budget := 1, ix_transfer_reload_failure_budget := 1\<rparr>) 101 s1 \<and>
    reconcile_upstream_reorg sample_upstream 101 100 sample_snapshot 101 s1 = (Inl (Err e), s2) \<and>
    resume_pending_upstream_reorg_recovery sample_upstream 101 (resume_again sample_upstream 101 1 s2) = (Inr (), s') \<and> ix_ok 100 s'"
proof -
  let ?s = "sample_ix\<lparr>ix_energy_failure_budget := 1, ix_transfer_reload_failure_budget := 1\<rparr>"
  obtain s1 reasons where h: "ix_ok 100 ?s" "assert_balance_snapshot_consistency 100 101 (ix_db ?s) = Inr ()"
    "length (db_passes (ix_db ?s)) < 2 ^ 62" "follows 100 ?s 101 s1" "failures_left s1 = unat (1 :: u32) + unat (1 :: u32)"
    "detect_upstream_reorg_target sample_upstream 101 100 sample_snapshot 101 (ix_db s1) = Inr (Some (100, reasons))"
    "orders_desc mp_mint_block_height (en_row_order sample_upstream)"
    by (rule sample_reorg [of 1 1]) (rule that)
  have "failures_left s1 = Suc 1" using h(5) by simp
  from reorg_recovery_resumes [OF h(1-4,6,7) this] obtain e s2 s' where
    "reconcile_upstream_reorg sample_upstream 101 100 sample_snapshot 101 s1 = (Inl (Err e), s2)"
    "resume_pending_upstream_reorg_recovery sample_upstream 101 (resume_again sample_upstream 101 1 s2) = (Inr (), s')"
    "recovered 100 ?s s'" by auto
  with h(4) show ?thesis by (auto simp: recovered_def)
qed

end
