(* ===== verification/Services.thy ===== *)
theory Services
  imports Balance_Contract Indexer_Recovery
begin

text \<open>
  The usdb-indexer connected to the balance-history service: the parameters that stand for the service in the model of
  the indexer are the clients of \<open>Balance_Contract\<close> on a server of \<open>Balance_Service\<close>.
\<close>

definition connected :: "service_env \<Rightarrow> BalanceHistoryRpcServer \<Rightarrow> indexer_env \<Rightarrow> bool" where
  "connected env sv ienv \<longleftrightarrow> en_provider ienv = RpcBalanceProvider env sv \<and>
     en_block_commit ienv = RpcClient_get_block_commit env sv \<and> en_state_ref ienv = RpcClient_get_state_ref_at_height env sv"

lemma connected_serves:
  assumes c: "connected env sv ienv" and l: "ledger B H 0 n (rs_db sv)" and ks: "\<And>k. k \<in> ks \<Longrightarrow> 0 < k \<and> k \<le> n"
  shows "upstream_serves ienv ks"
  unfolding upstream_serves_def
proof (intro ballI conjI)
  fix k assume "k \<in> ks"
  then have k: "0 < k" "k \<le> n" using ks by blast+
  obtain e where "get_block_commit k (rs_db sv) = Inr (Some e)" using ledger_commit [OF l word_zero_le k(2,1)] by blast
  then show "\<exists>c. en_block_commit ienv k = Inr (Some c)"
    using c by (simp add: connected_def RpcClient_get_block_commit_def get_block_commit_rpc_def)
  obtain r where r: "build_state_ref_at_height env sv k = Inr r" by (rule server_state_ref [OF l k]) (rule that)
  have "validate_historical_state_ref_expected_state env sv k r ConsensusStateReference_default = Inr ()"
    by (simp add: validate_agrees agrees_def ConsensusStateReference_default_def)
  then show "\<exists>r. en_state_ref ienv k = Inr r"
    using c r by (simp add: connected_def RpcClient_get_state_ref_at_height_def get_state_ref_at_height_def validate_consensus_query_context_def)
qed

lemma connected_ancestor:
  assumes "connected env sv ienv" and "ledger B H 0 n (rs_db sv)" and "0 < g"
  shows "\<exists>a. find_common_ancestor_height ienv current_height n g db = Inr a"
proof (cases "g \<le> min current_height n")
  case True
  have "upstream_serves ienv {g..min current_height n}"
    by (rule connected_serves [OF assms(1,2)]) (use assms(3) in \<open>auto elim: less_le_trans\<close>)
  then show ?thesis using True ancestor_loop_total [of ienv "rev (block_range g (min current_height n))"]
    by (simp add: find_common_ancestor_height_def Let_def set_block_range)
qed (simp add: find_common_ancestor_height_def Let_def not_le min_less_iff_disj)

lemma connected_commit_drift:
  assumes c: "connected env sv ienv" and l: "ledger B H 0 n (rs_db sv)" and g: "0 < g"
  shows "current_height \<le> n \<Longrightarrow> \<exists>d. commit_drift ienv current_height g db = Inr d"
    and "n < current_height \<Longrightarrow> g \<le> current_height \<Longrightarrow> get_pass_block_commit current_height db \<noteq> None \<Longrightarrow>
      commit_drift ienv current_height g db = Inl (Err ''RPC response missing both result and error'')"
proof -
  assume h: "current_height \<le> n"
  show "\<exists>d. commit_drift ienv current_height g db = Inr d"
  proof (cases "current_height < g")
    case False
    then have "0 < current_height" using g by (simp add: not_less less_le_trans)
    then have "upstream_serves ienv {current_height}" using h by (intro connected_serves [OF c l]) simp
    then obtain u where "en_block_commit ienv current_height = Inr (Some u)" by (auto simp: upstream_serves_def)
    then show ?thesis by (cases "get_pass_block_commit current_height db") (simp_all add: commit_drift_def)
  qed (simp add: commit_drift_def)
next
  assume h: "n < current_height" "g \<le> current_height" "get_pass_block_commit current_height db \<noteq> None"
  have "en_block_commit ienv current_height = Inl (Err ''RPC response missing both result and error'')"
    using c client_absent_commit(2) [OF l h(1)] by (simp add: connected_def)
  then show "commit_drift ienv current_height g db = Inl (Err ''RPC response missing both result and error'')"
    using h(2,3) by (auto simp: commit_drift_def)
qed


definition sample_connected :: indexer_env where
  "sample_connected = (sample_env 0)\<lparr>en_provider := RpcBalanceProvider sample_service_env sample_server,
     en_block_commit := RpcClient_get_block_commit sample_service_env sample_server,
     en_state_ref := RpcClient_get_state_ref_at_height sample_service_env sample_server\<rparr>"

definition sample_ahead :: indexer where
  "sample_ahead = sample_ix\<lparr>ix_mgr := (ix_mgr sample_ix)\<lparr>mg_store := \<lparr>ps_db = empty_pass_db\<lparr>db_commits := [sample_commit 2 []]\<rparr>, ps_savepoints = []\<rparr>\<rparr>\<rparr>"


end
