(* ===== verification/Spec2Isabelle.thy ===== *)
theory Spec2Isabelle
  imports Services
begin

text \<open>
  Verification of the BTC-side services of USDB.

  \<^bold>\<open>The program.\<close>  \<open>balance-history\<close> (\<open>src/src/btc/balance-history\<close>) reads blocks from a bitcoin node, keeps the unspent outputs
  and, for every address and height, the balance and its change in a RocksDB store, follows reorganisations with an undo
  journal and answers queries over JSON-RPC.  \<open>usdb-indexer\<close> (\<open>src/src/btc/usdb-indexer\<close>) finds the inscriptions that mint
  miner passes, follows the satoshi that carries each pass, keeps the passes in SQLite and their energy in RocksDB,
  settles energy against the balances the first service reports, and commits to every block with a hash chain.
  \<open>usdb-util\<close> holds the types and identifiers both share.

  \<^bold>\<open>Conventions\<close> (\<open>Usdb_Prelude\<close>, \<open>Kv_Store\<close>, \<open>Sql_Table\<close>).  Integers are words of their width; release-mode arithmetic wraps and
  saturating and checked operations are written out.  An operation of a component is a function from its state to a
  result and a new state (\<open>op\<close>, composed by \<open>bindR\<close>); an error keeps the writes made before it.  \<open>Err\<close> is an error value, named
  by the fixed part of its message; \<open>Panic\<close> is a failed assertion, \<open>unwrap\<close> or index.  A RocksDB column family is a sorted list
  of rows (locale \<open>ordered_kv\<close>); a SQLite table is a list of rows in insertion order (locale \<open>keyed_table\<close>).  What the services
  take from elsewhere is a parameter: SHA-256, JSON parsing and the texts of hashes, the bitcoin node and its crates,
  ord, timeouts and the order in which tasks finish, cache eviction, ties of an \<open>ORDER BY\<close>.

  \<^bold>\<open>Shared types.\<close>  \<open>Usdb_Types\<close> (\<open>usdb-util/src/types.rs\<close>): codecs with their round trips, error codes, and the preimages of the
  consensus identifiers, which are injective.

  \<^bold>\<open>The usdb-indexer.\<close>
  \<^item> \<open>Pass_Content\<close> (\<open>index/content.rs\<close>): pass states and the classification of mint payloads.
  \<^item> \<open>Pass_Storage\<close>, \<open>Pass_Rollback\<close>, \<open>Pass_Query\<close>, \<open>Pass_Timeline\<close> (\<open>storage/pass.rs\<close>): the tables, savepoints, every write and query, and
    the rollback.  \<open>timeline_ok\<close> is the invariant of all runs of writes and rollbacks; under it a rollback restores the tables of
    its target height and the queries over the history return the state at a height.
  \<^item> \<open>Energy_Formula\<close>, \<open>Energy_Storage\<close>, \<open>Energy_Manager\<close> (\<open>index/energy_formula.rs\<close>, \<open>storage/energy.rs\<close>, \<open>index/energy.rs\<close>): the byte keys and scans of
    the energy store (locale \<open>height_store\<close>), growth and penalty, eager settlement and lazy recomputation, the markers of an
    interrupted block.
  \<^item> \<open>Pass_Commit\<close>, \<open>Pass_Manager\<close>, \<open>Pass_Lifecycle\<close>, \<open>Energy_Block\<close> (\<open>index/pass_commit.rs\<close>, \<open>index/pass.rs\<close>): mint, transfer and burn with all
    their effects; \<open>mgr_inv\<close> ties pass rows to energy records and excludes every assertion failure.
  \<^item> \<open>Transfer_Tracker\<close>, \<open>Transfer_Blocks\<close> (\<open>btc/tx.rs\<close>, \<open>btc/utxo.rs\<close>, \<open>index/transfer.rs\<close>): the position of a satoshi through transactions and
    blocks, staging and reload (locale \<open>utxo_source\<close>).
  \<^item> \<open>Block_Events\<close> (\<open>index/indexer/block_events.rs\<close>, \<open>inscription/source.rs\<close>, \<open>types.rs\<close>): the plan of a block and its execution, which refines a map
    of passes.
  \<^item> \<open>Balance_Monitor\<close> (\<open>balance/rpc.rs\<close>, \<open>balance/monitor.rs\<close>): batched, concurrent and retried balance queries (locale \<open>balance_loader\<close>) and the
    settlement of a block.
  \<^item> \<open>Indexer_Sync\<close>, \<open>Indexer_Steps\<close>, \<open>Indexer_Atomic\<close>, \<open>Indexer_Reorg\<close>, \<open>Indexer_Recovery\<close> (\<open>index/indexer.rs\<close>): a block over all stores, all or
    nothing; ranges of blocks; detection of an upstream reorganisation, the rollback of all stores and its resumption.

  \<^bold>\<open>The balance-history service.\<close>
  \<^item> \<open>Balance_Db\<close>, \<open>Balance_Undo\<close>, \<open>Balance_Store\<close> (\<open>db/db.rs\<close>): column families, codecs, write batches, queries, the undo journal and rollback;
    every write keeps the rows typed and the balance queries are exact.
  \<^item> \<open>Balance_Block\<close> (\<open>index/block.rs\<close>, \<open>cache/utxo.rs\<close>, \<open>cache/balance.rs\<close>): a batch of blocks, preloaded, processed and flushed.
  \<^item> \<open>Balance_Ledger\<close>: the reference: a block transforms the unspent outputs, a balance is their sum.  \<open>Balance_Journal\<close> defines
    \<open>ledger B H lo n db\<close>: the database holds the outputs, balances, changes, block hashes and undo bundles of the chain \<open>H\<close> with
    hashes \<open>B\<close> up to height \<open>n\<close>.  \<open>Balance_Process\<close>, \<open>Balance_Flush\<close>, \<open>Balance_Write\<close>, \<open>Balance_Batch\<close>, \<open>Balance_Sync\<close> show that a batch takes the ledger forward,
    \<open>Balance_Rollback\<close>, \<open>Balance_Recover\<close> that a rollback takes it back and what an interrupted one leaves, \<open>Balance_Prune\<close> that pruning keeps it.
  \<^item> \<open>Balance_Indexer\<close>, \<open>Balance_Chain\<close> (\<open>index/indexer.rs\<close>): one iteration of the synchronisation follows the node across reorganisations.
  \<^item> \<open>Balance_Service\<close> (\<open>service/server.rs\<close>, \<open>service/rpc.rs\<close>, \<open>service/state_ref.rs\<close>, \<open>status.rs\<close>, \<open>snapshot_provenance.rs\<close>): every RPC method;
    \<open>Balance_Queries\<close>: its aggregates are those of the chain.

  \<^bold>\<open>Both together.\<close>  \<open>Balance_Contract\<close> states what the indexer relies on as the locale \<open>balance_service\<close>, interprets it on the server
  and the RPC client (\<open>service/client.rs\<close>, \<open>index/energy.rs\<close>, \<open>balance/rpc.rs\<close>), and shows that the energy of a pass follows the
  chain.  \<open>Services\<close> connects the reorganisation check of the indexer to the client.

  \<^bold>\<open>Loops and fuel.\<close>  Loops over a list or a range recurse on it; the others have a termination proof by a measure.  The page
  loops over passes (\<open>load_active_loop\<close>, \<open>reload_from_storage\<close>) carry fuel, one more than the number of rows, and are shown never to
  run out.  Loops that wait for the outside are functions of the finite list of values they poll.

  \<^bold>\<open>Hypotheses.\<close>  The chain is valid (\<open>valid_next_blocks\<close>): inputs spend existing outputs, transaction ids are fresh (which leaves out
  the two duplicate coinbases of 2010 that BIP 30 describes), address totals stay below 2 to the 63, and script hashes of a
  batch do not collide.  Two commits are equal only for equal histories unless a hash collision is exhibited.  The claim on
  energy through both services leaves out blocks that move the outputs of an owner without changing the balance: for them
  recomputation stores a record and settlement does not.

  \<^bold>\<open>Not modelled.\<close>  I/O failures other than those with a marker or an injection point, the \<open>created_at\<close> column, log and progress output;
  the SQLite snapshot files of balance-history and their installer; readers of block files and of the node; the inscription
  sources that call ord and bitcoind; the RPC server of the usdb-indexer, whose methods page over the queries of
  \<open>Pass_Query\<close> and \<open>Energy_Storage\<close> behind the same selector checks as \<open>Balance_Service\<close>; the control plane, the command line clients,
  process start and configuration files.
\<close>

end
